(* ===== verification/Prelude.thy ===== *)
theory Prelude
  imports Main "HOL-Library.Word" "HOL-Library.Monad_Syntax" "HOL-Library.Multiset"
begin

text \<open>
  Shared vocabulary of the development.

  The C code is modelled in the option monad: \<open>None\<close> is undefined behaviour (a NULL or dangling
  dereference, an access outside an object, an abort) or a loop that does not return; \<open>Some\<close>
  carries the value the C function returns together with the state it leaves.  Error codes are
  ordinary values, as in the source.  A pointer is an optional address, \<open>None\<close> being NULL.
\<close>

type_synonym ptr = "nat option"
type_synonym byte = "8 word"

named_theorems cheap "facts about loads, stores and frames of the heap of list cells"
named_theorems cstring "facts about C strings"

section \<open>Guards\<close>

text \<open>\<open>require c\<close> is the obligation that a step is defined: it fails when \<open>c\<close> does not hold.\<close>

definition require :: "bool \<Rightarrow> unit option" where
  "require c = (if c then Some () else None)"

lemma require_simps [simp]:
  "require True = Some ()"
  "require False = None"
  by (simp_all add: require_def)

lemma require_eq_Some [simp]: "require c = Some u \<longleftrightarrow> c"
  by (simp add: require_def)

lemma bind_require: "Option.bind (require c) f = (if c then f () else None)"
  by (simp add: require_def)

lemma bind_Some_iff: "Option.bind m f = Some y \<longleftrightarrow> (\<exists>x. m = Some x \<and> f x = Some y)"
  by (cases m) simp_all

section \<open>Arrays\<close>

text \<open>
  A fixed-size C array is a function from indices; the bound is checked by the definitions that
  access it.  \<open>memcpy_to\<close> copies a byte sequence to an offset, \<open>aslice\<close> reads a range back.
\<close>

definition memcpy_to :: "(nat \<Rightarrow> 'a) \<Rightarrow> nat \<Rightarrow> 'a list \<Rightarrow> (nat \<Rightarrow> 'a)" where
  "memcpy_to arr off src = (\<lambda>i. if off \<le> i \<and> i < off + length src then src ! (i - off) else arr i)"

definition aslice :: "(nat \<Rightarrow> 'a) \<Rightarrow> nat \<Rightarrow> nat \<Rightarrow> 'a list" where
  "aslice arr off n = map arr [off..<off + n]"

lemma length_aslice [simp]: "length (aslice arr off n) = n"
  by (simp add: aslice_def)

lemma aslice_nth [simp]: "i < n \<Longrightarrow> aslice arr off n ! i = arr (off + i)"
  by (simp add: aslice_def)

lemma aslice_0 [simp]: "aslice arr off 0 = []"
  by (simp add: aslice_def)

lemma aslice_memcpy [simp]: "aslice (memcpy_to arr off src) off (length src) = src"
  by (rule nth_equalityI) (simp_all add: memcpy_to_def)

lemma aslice_memcpy_before:
  "off + n \<le> at \<Longrightarrow> aslice (memcpy_to arr at src) off n = aslice arr off n"
  by (rule nth_equalityI) (simp_all add: memcpy_to_def)

lemma aslice_append: "aslice arr off (m + n) = aslice arr off m @ aslice arr (off + m) n"
proof -
  have "[off..<off + (m + n)] = [off..<off + m] @ [off + m..<off + m + n]"
    using upt_add_eq_append [of off "off + m" n] by (simp add: add.assoc)
  then show ?thesis by (simp add: aslice_def)
qed

lemma aslice_memcpy_extend:
  "aslice (memcpy_to arr n src) 0 (n + length src) = aslice arr 0 n @ src"
  by (simp add: aslice_append aslice_memcpy_before)

section \<open>Lists\<close>

lemma last_map_fst: "xs \<noteq> [] \<Longrightarrow> last (map fst xs) = fst (last xs)"
  by (simp add: last_map)

lemma takeWhile_dropWhile_split:
  assumes "\<not> (\<forall>x\<in>set xs. P x)"
  shows "\<exists>ys y zs. xs = ys @ y # zs \<and> (\<forall>x\<in>set ys. P x) \<and> \<not> P y"
proof -
  from assms have "dropWhile P xs \<noteq> []"
    by (simp add: dropWhile_eq_Nil_conv)
  then obtain y zs where yz: "dropWhile P xs = y # zs"
    by (cases "dropWhile P xs") auto
  then have "\<not> P y"
    using hd_dropWhile [of P xs] by simp
  moreover have "xs = takeWhile P xs @ y # zs"
    using yz takeWhile_dropWhile_id [of P xs] by simp
  ultimately show ?thesis
    by (metis set_takeWhileD)
qed

end
