(* ===== verification/CList.thy ===== *)
theory CList
  imports Prelude
begin

text \<open>
  The doubly linked list of src/containers/list.c.  A list element is a heap cell with the fields
  of \<open>bctbx_list_t\<close>; the heap maps addresses to live cells, so that a dereference of NULL or of a
  freed element and a second \<open>bctbx_free\<close> are \<open>None\<close>.  Fresh cells come from a bump pointer.
  Loops over \<open>next\<close> are partial functions: on a cyclic chain they have no value.  The callbacks
  (free, compare, copy and iterate functions) are parameters; the memory they may change is the
  \<open>world\<close> of the heap, which holds everything but the cells of lists.  Log calls are left out.
\<close>

section \<open>Cells and heap\<close>

record bctbx_list_t =
  elem_next :: ptr
  elem_prev :: ptr
  elem_data :: ptr

record 'w lheap =
  cells :: "nat \<Rightarrow> bctbx_list_t option"
  brk :: nat
  world :: 'w

definition deref :: "'w lheap \<Rightarrow> ptr \<Rightarrow> bctbx_list_t option" where
  "deref h p = (case p of None \<Rightarrow> None | Some a \<Rightarrow> cells h a)"

definition store :: "'w lheap \<Rightarrow> ptr \<Rightarrow> bctbx_list_t \<Rightarrow> 'w lheap option" where
  "store h p c =
     (case p of None \<Rightarrow> None
      | Some a \<Rightarrow> (if cells h a = None then None else Some (h\<lparr>cells := (cells h)(a \<mapsto> c)\<rparr>)))"

definition set_next :: "'w lheap \<Rightarrow> ptr \<Rightarrow> ptr \<Rightarrow> 'w lheap option" where
  "set_next h p v = do { c \<leftarrow> deref h p; store h p (c\<lparr>elem_next := v\<rparr>) }"

definition set_prev :: "'w lheap \<Rightarrow> ptr \<Rightarrow> ptr \<Rightarrow> 'w lheap option" where
  "set_prev h p v = do { c \<leftarrow> deref h p; store h p (c\<lparr>elem_prev := v\<rparr>) }"

definition cell_free :: "'w lheap \<Rightarrow> ptr \<Rightarrow> 'w lheap option" where
  "cell_free h p =
     (case p of None \<Rightarrow> Some h
      | Some a \<Rightarrow> (if cells h a = None then None else Some (h\<lparr>cells := (cells h)(a := None)\<rparr>)))"

definition run_cb :: "(ptr \<Rightarrow> 'w \<Rightarrow> 'w) \<Rightarrow> ptr \<Rightarrow> 'w lheap \<Rightarrow> 'w lheap" where
  "run_cb f d h = h\<lparr>world := f d (world h)\<rparr>"

section \<open>Operations\<close>

definition bctbx_list_new :: "'w lheap \<Rightarrow> ptr \<Rightarrow> ptr \<times> 'w lheap" where
  "bctbx_list_new h data =
     (Some (brk h),
      h\<lparr>cells := (cells h)(brk h \<mapsto> \<lparr>elem_next = None, elem_prev = None, elem_data = data\<rparr>),
        brk := Suc (brk h)\<rparr>)"

definition bctbx_list_next :: "'w lheap \<Rightarrow> ptr \<Rightarrow> ptr option" where
  "bctbx_list_next h elem = map_option elem_next (deref h elem)"

definition bctbx_list_get_data :: "'w lheap \<Rightarrow> ptr \<Rightarrow> ptr option" where
  "bctbx_list_get_data h elem = map_option elem_data (deref h elem)"

partial_function (option) last_loop :: "'w lheap \<Rightarrow> ptr \<Rightarrow> ptr option" where
  "last_loop h l = do {
     c \<leftarrow> deref h l;
     if elem_next c \<noteq> None then last_loop h (elem_next c) else Some l }"

partial_function (option) first_loop :: "'w lheap \<Rightarrow> ptr \<Rightarrow> ptr option" where
  "first_loop h l = do {
     c \<leftarrow> deref h l;
     if elem_prev c \<noteq> None then first_loop h (elem_prev c) else Some l }"

definition bctbx_list_last_elem :: "'w lheap \<Rightarrow> ptr \<Rightarrow> ptr option" where
  "bctbx_list_last_elem h l = (if l = None then Some None else last_loop h l)"

definition bctbx_list_first_elem :: "'w lheap \<Rightarrow> ptr \<Rightarrow> ptr option" where
  "bctbx_list_first_elem h l = (if l = None then Some None else first_loop h l)"

definition bctbx_list_concat :: "'w lheap \<Rightarrow> ptr \<Rightarrow> ptr \<Rightarrow> (ptr \<times> 'w lheap) option" where
  "bctbx_list_concat h first second =
     (if first = None then Some (second, h)
      else if second = None then Some (first, h)
      else do {
        it \<leftarrow> last_loop h first;
        h1 \<leftarrow> set_next h it second;
        h2 \<leftarrow> set_prev h1 second it;
        Some (first, h2) })"

definition bctbx_list_append_link :: "'w lheap \<Rightarrow> ptr \<Rightarrow> ptr \<Rightarrow> (ptr \<times> 'w lheap) option" where
  "bctbx_list_append_link h elem new_elem = bctbx_list_concat h elem new_elem"

definition bctbx_list_append :: "'w lheap \<Rightarrow> ptr \<Rightarrow> ptr \<Rightarrow> (ptr \<times> 'w lheap) option" where
  "bctbx_list_append h elem data =
     (let (new_elem, h1) = bctbx_list_new h data in bctbx_list_concat h1 elem new_elem)"

definition bctbx_list_prepend_link :: "'w lheap \<Rightarrow> ptr \<Rightarrow> ptr \<Rightarrow> (ptr \<times> 'w lheap) option" where
  "bctbx_list_prepend_link h elem new_elem =
     (if elem \<noteq> None then bctbx_list_concat h new_elem elem else Some (new_elem, h))"

definition bctbx_list_prepend :: "'w lheap \<Rightarrow> ptr \<Rightarrow> ptr \<Rightarrow> (ptr \<times> 'w lheap) option" where
  "bctbx_list_prepend h elem data =
     (let (new_elem, h1) = bctbx_list_new h data in bctbx_list_concat h1 new_elem elem)"

partial_function (option) free_loop :: "'w lheap \<Rightarrow> ptr \<Rightarrow> 'w lheap option" where
  "free_loop h elem = do {
     c \<leftarrow> deref h elem;
     if elem_next c \<noteq> None
     then do { h1 \<leftarrow> cell_free h elem; free_loop h1 (elem_next c) }
     else cell_free h elem }"

definition bctbx_list_free :: "'w lheap \<Rightarrow> ptr \<Rightarrow> (ptr \<times> 'w lheap) option" where
  "bctbx_list_free h list =
     (if list = None then Some (None, h)
      else do { h1 \<leftarrow> free_loop h list; Some (None, h1) })"

partial_function (option) free_data_loop ::
    "(ptr \<Rightarrow> 'w \<Rightarrow> 'w) \<Rightarrow> 'w lheap \<Rightarrow> ptr \<Rightarrow> 'w lheap option" where
  "free_data_loop freefunc h elem = do {
     c \<leftarrow> deref h elem;
     if elem_next c \<noteq> None
     then do {
       h1 \<leftarrow> cell_free (run_cb freefunc (elem_data c) h) elem;
       free_data_loop freefunc h1 (elem_next c) }
     else cell_free (run_cb freefunc (elem_data c) h) elem }"

definition bctbx_list_free_with_data ::
    "'w lheap \<Rightarrow> ptr \<Rightarrow> (ptr \<Rightarrow> 'w \<Rightarrow> 'w) \<Rightarrow> (ptr \<times> 'w lheap) option" where
  "bctbx_list_free_with_data h list freefunc =
     (if list = None then Some (None, h)
      else do { h1 \<leftarrow> free_data_loop freefunc h list; Some (None, h1) })"

definition bctbx_list_unlink :: "'w lheap \<Rightarrow> ptr \<Rightarrow> ptr \<Rightarrow> (ptr \<times> 'w lheap) option" where
  "bctbx_list_unlink h list elem =
     (if elem = None then Some (list, h)
      else if elem = list then do {
        c \<leftarrow> deref h elem;
        h1 \<leftarrow> set_prev h elem None;
        h2 \<leftarrow> set_next h1 elem None;
        h3 \<leftarrow> (if elem_next c \<noteq> None then set_prev h2 (elem_next c) None else Some h2);
        Some (elem_next c, h3) }
      else do {
        c \<leftarrow> deref h elem;
        h1 \<leftarrow> set_next h (elem_prev c) (elem_next c);
        c1 \<leftarrow> deref h1 elem;
        h2 \<leftarrow> (if elem_next c1 \<noteq> None then set_prev h1 (elem_next c1) (elem_prev c1) else Some h1);
        h3 \<leftarrow> set_next h2 elem None;
        h4 \<leftarrow> set_prev h3 elem None;
        Some (list, h4) })"

definition bctbx_list_erase_link :: "'w lheap \<Rightarrow> ptr \<Rightarrow> ptr \<Rightarrow> (ptr \<times> 'w lheap) option" where
  "bctbx_list_erase_link h list elem =
     (if elem \<noteq> None then do {
        (ret, h1) \<leftarrow> bctbx_list_unlink h list elem;
        h2 \<leftarrow> cell_free h1 elem;
        Some (ret, h2) }
      else Some (list, h))"

partial_function (option) bctbx_list_find :: "'w lheap \<Rightarrow> ptr \<Rightarrow> ptr \<Rightarrow> ptr option" where
  "bctbx_list_find h list data =
     (if list = None then Some None
      else do {
        c \<leftarrow> deref h list;
        if elem_data c = data then Some list else bctbx_list_find h (elem_next c) data })"

definition bctbx_list_remove_gen ::
    "'w lheap \<Rightarrow> ptr \<Rightarrow> ptr \<Rightarrow> (ptr \<Rightarrow> 'w \<Rightarrow> 'w) option \<Rightarrow> (ptr \<times> 'w lheap) option" where
  "bctbx_list_remove_gen h first data free_func = do {
     it \<leftarrow> bctbx_list_find h first data;
     if it \<noteq> None
     then bctbx_list_erase_link
            (case free_func of None \<Rightarrow> h | Some f \<Rightarrow> run_cb f data h) first it
     else Some (first, h) }"

definition bctbx_list_remove :: "'w lheap \<Rightarrow> ptr \<Rightarrow> ptr \<Rightarrow> (ptr \<times> 'w lheap) option" where
  "bctbx_list_remove h first data = bctbx_list_remove_gen h first data None"

definition bctbx_list_remove_with_data ::
    "'w lheap \<Rightarrow> ptr \<Rightarrow> ptr \<Rightarrow> (ptr \<Rightarrow> 'w \<Rightarrow> 'w) option \<Rightarrow> (ptr \<times> 'w lheap) option" where
  "bctbx_list_remove_with_data h first data free_func = bctbx_list_remove_gen h first data free_func"

partial_function (option) remove_custom_loop ::
    "(ptr \<Rightarrow> int) \<Rightarrow> (ptr \<Rightarrow> 'w \<Rightarrow> 'w) option \<Rightarrow> 'w lheap \<Rightarrow> ptr \<Rightarrow> ptr \<Rightarrow> (ptr \<times> 'w lheap) option" where
  "remove_custom_loop compare_func free_func h first elem =
     (if elem = None then Some (first, h)
      else do {
        c \<leftarrow> deref h elem;
        (first1, h1) \<leftarrow>
          (if compare_func (elem_data c) = 0
           then bctbx_list_remove_with_data h first (elem_data c) free_func
           else Some (first, h));
        remove_custom_loop compare_func free_func h1 first1 (elem_next c) })"

definition bctbx_list_remove_custom_gen ::
    "'w lheap \<Rightarrow> ptr \<Rightarrow> (ptr \<Rightarrow> 'u \<Rightarrow> int) \<Rightarrow> (ptr \<Rightarrow> 'w \<Rightarrow> 'w) option \<Rightarrow> 'u \<Rightarrow> (ptr \<times> 'w lheap) option" where
  "bctbx_list_remove_custom_gen h first compare_func free_func user_data =
     remove_custom_loop (\<lambda>d. compare_func d user_data) free_func h first first"

definition bctbx_list_remove_custom ::
    "'w lheap \<Rightarrow> ptr \<Rightarrow> (ptr \<Rightarrow> 'u \<Rightarrow> int) \<Rightarrow> 'u \<Rightarrow> (ptr \<times> 'w lheap) option" where
  "bctbx_list_remove_custom h first compare_func user_data =
     bctbx_list_remove_custom_gen h first compare_func None user_data"

definition bctbx_list_remove_custom_with_data ::
    "'w lheap \<Rightarrow> ptr \<Rightarrow> (ptr \<Rightarrow> 'u \<Rightarrow> int) \<Rightarrow> (ptr \<Rightarrow> 'w \<Rightarrow> 'w) option \<Rightarrow> 'u \<Rightarrow> (ptr \<times> 'w lheap) option" where
  "bctbx_list_remove_custom_with_data h first compare_func free_func user_data =
     bctbx_list_remove_custom_gen h first compare_func free_func user_data"

partial_function (option) size_loop :: "'w lheap \<Rightarrow> ptr \<Rightarrow> nat \<Rightarrow> nat option" where
  "size_loop h first n =
     (if first = None then Some n
      else do { c \<leftarrow> deref h first; size_loop h (elem_next c) (Suc n) })"

definition bctbx_list_size :: "'w lheap \<Rightarrow> ptr \<Rightarrow> nat option" where
  "bctbx_list_size h first = size_loop h first 0"

partial_function (option) bctbx_list_for_each ::
    "(ptr \<Rightarrow> 'w \<Rightarrow> 'w) \<Rightarrow> 'w lheap \<Rightarrow> ptr \<Rightarrow> 'w lheap option" where
  "bctbx_list_for_each func h list =
     (if list = None then Some h
      else do {
        c \<leftarrow> deref h list;
        bctbx_list_for_each func (run_cb func (elem_data c) h) (elem_next c) })"

definition bctbx_list_for_each2 ::
    "(ptr \<Rightarrow> 'u \<Rightarrow> 'w \<Rightarrow> 'w) \<Rightarrow> 'u \<Rightarrow> 'w lheap \<Rightarrow> ptr \<Rightarrow> 'w lheap option" where
  "bctbx_list_for_each2 func user_data h list =
     bctbx_list_for_each (\<lambda>d. func d user_data) h list"

definition bctbx_list_pop_front :: "'w lheap \<Rightarrow> ptr \<Rightarrow> (ptr \<times> ptr \<times> 'w lheap) option" where
  "bctbx_list_pop_front h list =
     (if list = None then Some (None, None, h)
      else do {
        c \<leftarrow> deref h list;
        (rest, h1) \<leftarrow> bctbx_list_unlink h list list;
        h2 \<leftarrow> cell_free h1 list;
        Some (rest, elem_data c, h2) })"

partial_function (option) bctbx_list_find_custom ::
    "'w lheap \<Rightarrow> ptr \<Rightarrow> (ptr \<Rightarrow> 'u \<Rightarrow> int) \<Rightarrow> 'u \<Rightarrow> ptr option" where
  "bctbx_list_find_custom h list compare_func user_data =
     (if list = None then Some None
      else do {
        c \<leftarrow> deref h list;
        if compare_func (elem_data c) user_data = 0 then Some list
        else bctbx_list_find_custom h (elem_next c) compare_func user_data })"

definition bctbx_list_delete_custom ::
    "'w lheap \<Rightarrow> ptr \<Rightarrow> (ptr \<Rightarrow> 'u \<Rightarrow> int) \<Rightarrow> 'u \<Rightarrow> (ptr \<times> 'w lheap) option" where
  "bctbx_list_delete_custom h list compare_func user_data = do {
     elem \<leftarrow> bctbx_list_find_custom h list compare_func user_data;
     if elem \<noteq> None then bctbx_list_erase_link h list elem else Some (list, h) }"

partial_function (option) nth_loop :: "'w lheap \<Rightarrow> ptr \<Rightarrow> int \<Rightarrow> int \<Rightarrow> ptr option" where
  "nth_loop h list i index =
     (if list = None then Some None
      else do {
        c \<leftarrow> deref h list;
        if i = index then Some (elem_data c) else nth_loop h (elem_next c) (i + 1) index })"

definition bctbx_list_nth_data :: "'w lheap \<Rightarrow> ptr \<Rightarrow> int \<Rightarrow> ptr option" where
  "bctbx_list_nth_data h list index = nth_loop h list 0 index"

partial_function (option) position_loop :: "'w lheap \<Rightarrow> ptr \<Rightarrow> ptr \<Rightarrow> int \<Rightarrow> int option" where
  "position_loop h list elem i =
     (if list = None then Some (-1)
      else if elem = list then Some i
      else do { c \<leftarrow> deref h list; position_loop h (elem_next c) elem (i + 1) })"

definition bctbx_list_position :: "'w lheap \<Rightarrow> ptr \<Rightarrow> ptr \<Rightarrow> int option" where
  "bctbx_list_position h list elem = position_loop h list elem 0"

partial_function (option) index_loop :: "'w lheap \<Rightarrow> ptr \<Rightarrow> ptr \<Rightarrow> int \<Rightarrow> int option" where
  "index_loop h list data i =
     (if list = None then Some (-1)
      else do {
        c \<leftarrow> deref h list;
        if data = elem_data c then Some i else index_loop h (elem_next c) data (i + 1) })"

definition bctbx_list_index :: "'w lheap \<Rightarrow> ptr \<Rightarrow> ptr \<Rightarrow> int option" where
  "bctbx_list_index h list data = index_loop h list data 0"

text \<open>
  The loop of \<open>bctbx_list_insert_sorted\<close>: \<open>ret\<close> is the head to return, \<open>previt\<close> the last element
  visited; past the end the new element is linked after \<open>previt\<close>.
\<close>

partial_function (option) insert_sorted_loop ::
    "(ptr \<Rightarrow> ptr \<Rightarrow> int) \<Rightarrow> 'w lheap \<Rightarrow> ptr \<Rightarrow> ptr \<Rightarrow> ptr \<Rightarrow> ptr \<Rightarrow> ptr \<Rightarrow> (ptr \<times> 'w lheap) option" where
  "insert_sorted_loop compare_func h ret nelem data it previt =
     (if it = None then do {
        h1 \<leftarrow> set_next h previt nelem;
        h2 \<leftarrow> set_prev h1 nelem previt;
        Some (ret, h2) }
      else do {
        c \<leftarrow> deref h it;
        if compare_func data (elem_data c) \<le> 0 then do {
          h1 \<leftarrow> set_prev h nelem (elem_prev c);
          h2 \<leftarrow> set_next h1 nelem it;
          c2 \<leftarrow> deref h2 it;
          (ret3, h3) \<leftarrow>
            (if elem_prev c2 \<noteq> None
             then map_option (\<lambda>h3. (ret, h3)) (set_next h2 (elem_prev c2) nelem)
             else Some (nelem, h2));
          h4 \<leftarrow> set_prev h3 it nelem;
          Some (ret3, h4) }
        else insert_sorted_loop compare_func h ret nelem data (elem_next c) it })"

definition bctbx_list_insert_sorted ::
    "'w lheap \<Rightarrow> ptr \<Rightarrow> ptr \<Rightarrow> (ptr \<Rightarrow> ptr \<Rightarrow> int) \<Rightarrow> (ptr \<times> 'w lheap) option" where
  "bctbx_list_insert_sorted h list data compare_func =
     (if list = None then bctbx_list_append h list data
      else let (nelem, h1) = bctbx_list_new h data
           in insert_sorted_loop compare_func h1 list nelem data list None)"

partial_function (option) insert_loop ::
    "'w lheap \<Rightarrow> ptr \<Rightarrow> ptr \<Rightarrow> ptr \<Rightarrow> ptr \<Rightarrow> (ptr \<times> 'w lheap) option" where
  "insert_loop h list before data elem =
     (if elem = None then Some (list, h)
      else if elem = before then do {
        c \<leftarrow> deref h elem;
        if elem_prev c = None then bctbx_list_prepend h list data
        else do {
          let (nelem, h1) = bctbx_list_new h data;
          h2 \<leftarrow> set_prev h1 nelem (elem_prev c);
          h3 \<leftarrow> set_next h2 nelem elem;
          h4 \<leftarrow> set_next h3 (elem_prev c) nelem;
          h5 \<leftarrow> set_prev h4 elem nelem;
          c5 \<leftarrow> deref h5 elem;
          insert_loop h5 list before data (elem_next c5) } }
      else do { c \<leftarrow> deref h elem; insert_loop h list before data (elem_next c) })"

definition bctbx_list_insert :: "'w lheap \<Rightarrow> ptr \<Rightarrow> ptr \<Rightarrow> ptr \<Rightarrow> (ptr \<times> 'w lheap) option" where
  "bctbx_list_insert h list before data =
     (if list = None \<or> before = None then bctbx_list_append h list data
      else insert_loop h list before data list)"

definition copy_item ::
    "(ptr \<Rightarrow> 'w \<Rightarrow> ptr \<times> 'w) option \<Rightarrow> 'w lheap \<Rightarrow> ptr \<Rightarrow> ptr \<times> 'w lheap" where
  "copy_item copyfunc h d =
     (case copyfunc of None \<Rightarrow> bctbx_list_new h d
      | Some f \<Rightarrow> (case f d (world h) of (d', w) \<Rightarrow> bctbx_list_new (h\<lparr>world := w\<rparr>) d'))"

definition copy_link :: "'w lheap \<Rightarrow> ptr \<Rightarrow> ptr \<Rightarrow> ptr \<Rightarrow> (ptr \<times> 'w lheap) option" where
  "copy_link h copy prev item =
     (if copy = None then Some (item, h)
      else do { h1 \<leftarrow> set_next h prev item; h2 \<leftarrow> set_prev h1 item prev; Some (copy, h2) })"

partial_function (option) copy_loop ::
    "(ptr \<Rightarrow> 'w \<Rightarrow> ptr \<times> 'w) option \<Rightarrow> 'w lheap \<Rightarrow> ptr \<Rightarrow> ptr \<Rightarrow> ptr \<Rightarrow> (ptr \<times> 'w lheap) option" where
  "copy_loop copyfunc h copy prev iter =
     (if iter = None then Some (copy, h)
      else do {
        c \<leftarrow> deref h iter;
        let (item, h1) = copy_item copyfunc h (elem_data c);
        (copy2, h2) \<leftarrow> copy_link h1 copy prev item;
        c2 \<leftarrow> deref h2 iter;
        copy_loop copyfunc h2 copy2 item (elem_next c2) })"

definition bctbx_list_copy_with_func ::
    "'w lheap \<Rightarrow> ptr \<Rightarrow> (ptr \<Rightarrow> 'w \<Rightarrow> ptr \<times> 'w) option \<Rightarrow> (ptr \<times> 'w lheap) option" where
  "bctbx_list_copy_with_func h list copyfunc = copy_loop copyfunc h None None list"

definition bctbx_list_copy :: "'w lheap \<Rightarrow> ptr \<Rightarrow> (ptr \<times> 'w lheap) option" where
  "bctbx_list_copy h list = bctbx_list_copy_with_func h list None"

definition bctbx_list_copy_with_data ::
    "'w lheap \<Rightarrow> ptr \<Rightarrow> (ptr \<Rightarrow> 'w \<Rightarrow> ptr \<times> 'w) option \<Rightarrow> (ptr \<times> 'w lheap) option" where
  "bctbx_list_copy_with_data h list copyfunc = bctbx_list_copy_with_func h list copyfunc"

partial_function (option) copy_reverse_loop ::
    "(ptr \<Rightarrow> 'w \<Rightarrow> ptr \<times> 'w) \<Rightarrow> 'w lheap \<Rightarrow> ptr \<Rightarrow> ptr \<Rightarrow> (ptr \<times> 'w lheap) option" where
  "copy_reverse_loop copyfunc h copy iter =
     (if iter = None then Some (copy, h)
      else do {
        c \<leftarrow> deref h iter;
        let (d, w) = copyfunc (elem_data c) (world h);
        (copy1, h1) \<leftarrow> bctbx_list_prepend (h\<lparr>world := w\<rparr>) copy d;
        c1 \<leftarrow> deref h1 iter;
        copy_reverse_loop copyfunc h1 copy1 (elem_next c1) })"

definition bctbx_list_copy_reverse_with_data ::
    "'w lheap \<Rightarrow> ptr \<Rightarrow> (ptr \<Rightarrow> 'w \<Rightarrow> ptr \<times> 'w) \<Rightarrow> (ptr \<times> 'w lheap) option" where
  "bctbx_list_copy_reverse_with_data h list copyfunc = copy_reverse_loop copyfunc h None list"

section \<open>Well-formed lists\<close>

text \<open>
  A node is an address with the data pointer its cell holds.  \<open>seg m pr ns e\<close>: the cells of \<open>ns\<close>
  are chained in both directions, the first one's \<open>prev\<close> being \<open>pr\<close> and the last one's \<open>next\<close>
  \<open>e\<close>.  \<open>dlist h p ns\<close>: \<open>p\<close> is the head of a list made of exactly the nodes \<open>ns\<close>.
\<close>

type_synonym node = "nat \<times> ptr"

fun headp :: "node list \<Rightarrow> ptr \<Rightarrow> ptr" where
  "headp [] e = e"
| "headp (n # ns) e = Some (fst n)"

fun lastp :: "ptr \<Rightarrow> node list \<Rightarrow> ptr" where
  "lastp pr [] = pr"
| "lastp pr (n # ns) = lastp (Some (fst n)) ns"

fun seg :: "(nat \<Rightarrow> bctbx_list_t option) \<Rightarrow> ptr \<Rightarrow> node list \<Rightarrow> ptr \<Rightarrow> bool" where
  "seg m pr [] e \<longleftrightarrow> True"
| "seg m pr (n # ns) e \<longleftrightarrow>
     m (fst n) = Some \<lparr>elem_next = headp ns e, elem_prev = pr, elem_data = snd n\<rparr> \<and>
     seg m (Some (fst n)) ns e"

abbreviation addrs :: "node list \<Rightarrow> nat set" where
  "addrs ns \<equiv> fst ` set ns"

definition heap_ok :: "'w lheap \<Rightarrow> bool" where
  "heap_ok h \<longleftrightarrow> (\<forall>a. cells h a \<noteq> None \<longrightarrow> a < brk h)"

definition dlist :: "'w lheap \<Rightarrow> ptr \<Rightarrow> node list \<Rightarrow> bool" where
  "dlist h p ns \<longleftrightarrow>
     heap_ok h \<and> distinct (map fst ns) \<and> seg (cells h) None ns None \<and> p = headp ns None"

text \<open>
  \<open>list_result r h A ns w\<close>: the call returned (no undefined behaviour), the head it returned is a
  well-formed list of the nodes \<open>ns\<close>, no cell outside \<open>A\<close> changed, and the rest of memory is \<open>w\<close>.
\<close>

definition list_result ::
    "(ptr \<times> 'w lheap) option \<Rightarrow> 'w lheap \<Rightarrow> nat set \<Rightarrow> node list \<Rightarrow> 'w \<Rightarrow> bool" where
  "list_result r h A ns w \<longleftrightarrow>
     (\<exists>p' h'. r = Some (p', h') \<and> dlist h' p' ns \<and> (\<forall>a. a \<notin> A \<longrightarrow> cells h' a = cells h a) \<and>
       world h' = w \<and> brk h \<le> brk h')"

section \<open>Facts about segments\<close>

lemma lastp_append [simp]: "lastp pr (xs @ ys) = lastp (lastp pr xs) ys"
  by (induction xs arbitrary: pr) auto

lemma headp_append: "headp (xs @ ys) e = headp xs (headp ys e)"
  by (cases xs) auto

lemma lastp_neq_None: "xs \<noteq> [] \<Longrightarrow> lastp pr xs = Some (fst (last xs))"
  by (induction xs arbitrary: pr) auto

lemma headp_None_iff [simp]: "headp ns None = None \<longleftrightarrow> ns = []"
  by (cases ns) auto

lemma headp_Some [simp]: "headp ns (Some a) \<noteq> None" "\<exists>b. headp ns (Some a) = Some b"
  by (cases ns; simp)+

lemma lastp_None_iff [simp]: "lastp None ns = None \<longleftrightarrow> ns = []"
  by (cases "ns = []") (auto simp: lastp_neq_None)

lemma seg_append [simp]:
  "seg m pr (xs @ ys) e \<longleftrightarrow> seg m pr xs (headp ys e) \<and> seg m (lastp pr xs) ys e"
  by (induction xs arbitrary: pr) (auto simp: headp_append)

lemma seg_upd [simp]: "a \<notin> addrs ns \<Longrightarrow> seg (m(a := c)) pr ns e = seg m pr ns e"
  by (induction ns arbitrary: pr) auto

lemma seg_frame: "seg m pr ns e \<Longrightarrow> (\<And>a. a \<in> addrs ns \<Longrightarrow> m' a = m a) \<Longrightarrow> seg m' pr ns e"
  by (induction ns arbitrary: pr) auto

lemma seg_live: "seg m pr ns e \<Longrightarrow> a \<in> addrs ns \<Longrightarrow> m a \<noteq> None"
  by (induction ns arbitrary: pr) auto

section \<open>Loads, stores and allocation\<close>

lemma deref_simps [simp, cheap]:
  "deref h None = None"
  "deref h (Some a) = cells h a"
  by (simp_all add: deref_def)

lemma set_next_Some [simp]:
  "cells h a = Some c \<Longrightarrow>
   set_next h (Some a) v = Some (h\<lparr>cells := (cells h)(a \<mapsto> c\<lparr>elem_next := v\<rparr>)\<rparr>)"
  by (simp add: set_next_def store_def)

lemma set_prev_Some [simp]:
  "cells h a = Some c \<Longrightarrow>
   set_prev h (Some a) v = Some (h\<lparr>cells := (cells h)(a \<mapsto> c\<lparr>elem_prev := v\<rparr>)\<rparr>)"
  by (simp add: set_prev_def store_def)

lemma set_null [simp]: "set_next h None v = None" "set_prev h None v = None"
  by (simp_all add: set_next_def set_prev_def)

lemma cell_free_Some [simp]:
  "cells h a \<noteq> None \<Longrightarrow> cell_free h (Some a) = Some (h\<lparr>cells := (cells h)(a := None)\<rparr>)"
  by (simp add: cell_free_def)

lemma run_cb_simps [simp]:
  "cells (run_cb f d h) = cells h" "brk (run_cb f d h) = brk h"
  "world (run_cb f d h) = f d (world h)"
  by (simp_all add: run_cb_def)

lemma heap_ok_update [simp]:
  "heap_ok h \<Longrightarrow> a < brk h \<Longrightarrow> heap_ok (h\<lparr>cells := (cells h)(a \<mapsto> c)\<rparr>)"
  by (simp add: heap_ok_def)

lemma heap_ok_cells:
  "heap_ok h \<Longrightarrow> (\<And>a. m a \<noteq> None \<Longrightarrow> cells h a \<noteq> None) \<Longrightarrow> heap_ok (h\<lparr>cells := m\<rparr>)"
  by (simp add: heap_ok_def)

lemma heap_ok_world [simp]: "heap_ok (h\<lparr>world := w\<rparr>) = heap_ok h"
  by (simp add: heap_ok_def)

lemma heap_ok_run_cb [simp]: "heap_ok (run_cb f d h) = heap_ok h"
  by (simp add: heap_ok_def)

lemma dlist_run_cb [simp]: "dlist (run_cb f d h) p ns = dlist h p ns"
  by (simp add: dlist_def)

lemma dlist_world [simp]: "dlist (h\<lparr>world := w\<rparr>) p ns = dlist h p ns"
  by (simp add: dlist_def)

lemma dlist_head: "dlist h p ns \<Longrightarrow> p = headp ns None"
  by (simp add: dlist_def)

lemma dlist_Nil [simp]: "dlist h p [] \<longleftrightarrow> heap_ok h \<and> p = None"
  by (auto simp: dlist_def)

lemma dlist_fresh: "dlist h p ns \<Longrightarrow> brk h \<notin> addrs ns"
  unfolding dlist_def heap_ok_def using seg_live by blast

lemma dlist_frame:
  assumes "dlist h p ns" "heap_ok h'" "\<And>a. a \<in> addrs ns \<Longrightarrow> cells h' a = cells h a"
  shows "dlist h' p ns"
  using assms seg_frame [of "cells h" None ns None "cells h'"] by (simp add: dlist_def)

text \<open>The cell of a node in the middle of a list.\<close>

lemma dlist_split:
  "dlist h p (xs @ n # ys) \<longleftrightarrow>
     heap_ok h \<and> distinct (map fst (xs @ n # ys)) \<and> p = headp (xs @ n # ys) None \<and>
     seg (cells h) None xs (Some (fst n)) \<and>
     cells h (fst n) =
       Some \<lparr>elem_next = headp ys None, elem_prev = lastp None xs, elem_data = snd n\<rparr> \<and>
     seg (cells h) (Some (fst n)) ys None"
  by (auto simp: dlist_def)

lemma bctbx_list_new_result:
  assumes "heap_ok h" "bctbx_list_new h d = (p, h1)"
  shows "p = Some (brk h)" "brk h1 = Suc (brk h)" "world h1 = world h" "heap_ok h1"
    "cells h1 = (cells h)(brk h \<mapsto> \<lparr>elem_next = None, elem_prev = None, elem_data = d\<rparr>)"
    "dlist h1 (Some (brk h)) [(brk h, d)]"
  using assms by (auto simp: bctbx_list_new_def heap_ok_def dlist_def less_Suc_eq)

lemma dlist_new:
  assumes "dlist h p ns" "bctbx_list_new h d = (q, h1)"
  shows "dlist h1 p ns"
  using assms dlist_fresh [OF assms(1)]
  by (auto simp: bctbx_list_new_def dlist_def heap_ok_def less_Suc_eq)

section \<open>Traversals\<close>

text \<open>The loops unfolded at NULL and at an address, which never rewrites its own right side.\<close>

lemmas loop_steps [simp] =
  last_loop.simps [of h "Some a"]
  size_loop.simps [of h None] size_loop.simps [of h "Some a"]
  bctbx_list_find.simps [of h None] bctbx_list_find.simps [of h "Some a"]
  bctbx_list_find_custom.simps [of h None] bctbx_list_find_custom.simps [of h "Some a"]
  bctbx_list_for_each.simps [of f h None] bctbx_list_for_each.simps [of f h "Some a"]
  nth_loop.simps [of h None] nth_loop.simps [of h "Some a"]
  position_loop.simps [of h None] position_loop.simps [of h "Some a"]
  index_loop.simps [of h None] index_loop.simps [of h "Some a"]
  for h a f

text \<open>What a forward traversal sees of a segment: the \<open>next\<close> and \<open>data\<close> fields.\<close>

fun fwd :: "(nat \<Rightarrow> bctbx_list_t option) \<Rightarrow> node list \<Rightarrow> ptr \<Rightarrow> bool" where
  "fwd m [] e \<longleftrightarrow> True"
| "fwd m (n # ns) e \<longleftrightarrow>
     (\<exists>pr. m (fst n) = Some \<lparr>elem_next = headp ns e, elem_prev = pr, elem_data = snd n\<rparr>) \<and>
     fwd m ns e"

lemma seg_fwd: "seg m pr ns e \<Longrightarrow> fwd m ns e"
  by (induction ns arbitrary: pr) auto

lemma dlist_fwd: "dlist h p ns \<Longrightarrow> fwd (cells h) ns None"
  by (auto simp: dlist_def intro: seg_fwd)

lemma fwd_frame: "fwd m ns e \<Longrightarrow> (\<And>a. a \<in> addrs ns \<Longrightarrow> m' a = m a) \<Longrightarrow> fwd m' ns e"
  by (induction ns) auto

lemma fwd_live: "fwd m ns e \<Longrightarrow> a \<in> addrs ns \<Longrightarrow> m a \<noteq> None"
  by (induction ns) auto

lemma fwd_upd [simp]: "a \<notin> addrs ns \<Longrightarrow> fwd (m(a := c)) ns e = fwd m ns e"
  by (induction ns) auto

lemma fwd_del [simp]:
  "a \<notin> addrs ns \<Longrightarrow> fwd (\<lambda>b. if b = a then None else m b) ns e = fwd m ns e"
  by (induction ns) auto

lemma fwd_append: "fwd m (xs @ ys) e \<longleftrightarrow> fwd m xs (headp ys e) \<and> fwd m ys e"
  by (induction xs) (auto simp: headp_append)

lemma last_loop_fwd:
  "fwd (cells h) ns None \<Longrightarrow> ns \<noteq> [] \<Longrightarrow> last_loop h (headp ns None) = Some (lastp pr ns)"
proof (induction ns arbitrary: pr)
  case (Cons n ns)
  then show ?case by (cases ns) auto
qed simp

lemma first_loop_seg:
  "seg (cells h) None (xs @ n # ys) e \<Longrightarrow>
   first_loop h (Some (fst n)) = Some (headp (xs @ n # ys) e)"
proof (induction xs arbitrary: n ys rule: rev_induct)
  case Nil
  then show ?case by (simp add: first_loop.simps [of h "Some (fst n)"])
next
  case (snoc x xs)
  then have "first_loop h (Some (fst x)) = Some (headp (xs @ x # n # ys) e)"
    by simp
  with snoc.prems show ?case
    by (simp add: first_loop.simps [of h "Some (fst n)"])
qed

lemma last_elem_dlist: "dlist h p ns \<Longrightarrow> bctbx_list_last_elem h p = Some (lastp None ns)"
  using last_loop_fwd [of h ns None] dlist_fwd [of h p ns] dlist_head [of h p ns]
  by (cases "ns = []") (auto simp: bctbx_list_last_elem_def)

lemma first_elem_dlist:
  "dlist h p ns \<Longrightarrow> n \<in> set ns \<Longrightarrow> bctbx_list_first_elem h (Some (fst n)) = Some p"
  by (auto simp: bctbx_list_first_elem_def dlist_split dest!: split_list)
    (auto intro!: first_loop_seg [THEN trans])

lemma size_loop_fwd: "fwd (cells h) ns None \<Longrightarrow> size_loop h (headp ns None) k = Some (k + length ns)"
  by (induction ns arbitrary: k) auto

lemma find_fwd:
  "fwd (cells h) ns None \<Longrightarrow>
   bctbx_list_find h (headp ns None) d = Some (map_option fst (find (\<lambda>n. snd n = d) ns))"
  by (induction ns) auto

lemma find_custom_fwd:
  "fwd (cells h) ns None \<Longrightarrow>
   bctbx_list_find_custom h (headp ns None) cmp u =
     Some (map_option fst (find (\<lambda>n. cmp (snd n) u = 0) ns))"
  by (induction ns) auto

lemma for_each_fwd:
  "fwd (cells h) ns None \<Longrightarrow>
   bctbx_list_for_each f h (headp ns None) = Some (h\<lparr>world := fold f (map snd ns) (world h)\<rparr>)"
proof (induction ns arbitrary: h)
  case (Cons n ns)
  then show ?case
    using Cons.IH [of "run_cb f (snd n) h"] by (auto simp: run_cb_def fun_upd_def)
qed simp

lemma nth_fwd:
  "fwd (cells h) ns None \<Longrightarrow>
   nth_loop h (headp ns None) i k =
     Some (if i \<le> k \<and> k < i + int (length ns) then snd (ns ! nat (k - i)) else None)"
proof (induction ns arbitrary: i)
  case (Cons n ns)
  moreover have "nat (k - i) = Suc (nat (k - (i + 1)))" if "i < k"
    using that by simp
  ultimately show ?case by auto
qed auto

lemma position_fwd:
  "fwd (cells h) ns None \<Longrightarrow>
   position_loop h (headp ns None) (Some a) i =
     Some (if a \<in> addrs ns then i + int (length (takeWhile (\<lambda>x. x \<noteq> a) (map fst ns))) else -1)"
  by (induction ns arbitrary: i) (auto, force+)

lemma index_fwd:
  "fwd (cells h) ns None \<Longrightarrow>
   index_loop h (headp ns None) d i =
     Some (if d \<in> snd ` set ns
           then i + int (length (takeWhile (\<lambda>x. x \<noteq> d) (map snd ns))) else -1)"
  by (induction ns arbitrary: i) (auto, force+)

lemmas traverse = last_loop_fwd size_loop_fwd find_fwd find_custom_fwd for_each_fwd nth_fwd
  position_fwd index_fwd

section \<open>Linking\<close>

lemma list_resultI:
  assumes "r = Some (p', h')" "dlist h' p' ns" "\<And>a. a \<notin> A \<Longrightarrow> cells h' a = cells h a"
    "world h' = w" "brk h \<le> brk h'"
  shows "list_result r h A ns w"
  using assms by (auto simp: list_result_def)

lemma list_resultE:
  assumes "list_result r h A ns w"
  obtains p' h' where "r = Some (p', h')" "dlist h' p' ns"
    "\<And>a. a \<notin> A \<Longrightarrow> cells h' a = cells h a" "world h' = w" "brk h \<le> brk h'"
  using assms by (auto simp: list_result_def)

lemma bctbx_list_concat_result:
  assumes xs: "dlist h p xs" and ys: "dlist h q ys" and disj: "addrs xs \<inter> addrs ys = {}"
  shows "list_result (bctbx_list_concat h p q) h (addrs xs \<union> addrs ys) (xs @ ys) (world h)"
proof (cases "xs = [] \<or> ys = []")
  case True
  then show ?thesis
    using assms by (auto simp: list_result_def bctbx_list_concat_def dlist_head)
next
  case False
  then obtain zs a d b e ws where eqs: "xs = zs @ [(a, d)]" "ys = (b, e) # ws"
    by (metis rev_exhaust neq_Nil_conv surj_pair)
  have ne: "p \<noteq> None" "q = Some b"
    using xs ys by (auto simp: dlist_def eqs headp_append)
  have last: "last_loop h p = Some (Some a)"
    using last_loop_fwd [OF dlist_fwd [OF xs], of None] dlist_head [OF xs] by (simp add: eqs)
  let ?h = "h\<lparr>cells := (cells h)
      (a \<mapsto> \<lparr>elem_next = Some b, elem_prev = lastp None zs, elem_data = d\<rparr>,
       b \<mapsto> \<lparr>elem_next = headp ws None, elem_prev = Some a, elem_data = e\<rparr>)\<rparr>"
  have ab: "a \<noteq> b" "a \<notin> addrs ws" "b \<notin> addrs zs" "a < brk h" "b < brk h"
    using xs ys disj by (auto simp: eqs dlist_def heap_ok_def)
  have "bctbx_list_concat h p q = Some (p, ?h)"
    using xs ys ab ne last by (auto simp: bctbx_list_concat_def eqs dlist_def)
  moreover have "dlist ?h p (xs @ ys)"
    using xs ys ab disj by (auto simp: eqs dlist_def headp_append heap_ok_def fun_upd_twist)
  ultimately show ?thesis
    by (auto intro!: list_resultI simp: eqs)
qed

lemma bctbx_list_append_result:
  assumes "dlist h p ns"
  shows "list_result (bctbx_list_append h p d) h (insert (brk h) (addrs ns))
           (ns @ [(brk h, d)]) (world h)"
proof -
  obtain q h1 where new: "bctbx_list_new h d = (q, h1)" by fastforce
  have hok: "heap_ok h" using assms by (simp add: dlist_def)
  note nr = bctbx_list_new_result [OF hok new]
  have "list_result (bctbx_list_concat h1 p q) h1 (addrs ns \<union> addrs [(brk h, d)])
      (ns @ [(brk h, d)]) (world h1)"
    using bctbx_list_concat_result [OF dlist_new [OF assms new] nr(6)] dlist_fresh [OF assms]
    by (simp add: nr(1))
  then show ?thesis
    by (auto simp: bctbx_list_append_def new nr list_result_def)
qed

lemma bctbx_list_prepend_result:
  assumes "dlist h p ns"
  shows "list_result (bctbx_list_prepend h p d) h (insert (brk h) (addrs ns))
           ((brk h, d) # ns) (world h)"
proof -
  obtain q h1 where new: "bctbx_list_new h d = (q, h1)" by fastforce
  have hok: "heap_ok h" using assms by (simp add: dlist_def)
  note nr = bctbx_list_new_result [OF hok new]
  have "list_result (bctbx_list_concat h1 q p) h1 (addrs [(brk h, d)] \<union> addrs ns)
      ([(brk h, d)] @ ns) (world h1)"
    using bctbx_list_concat_result [OF nr(6) dlist_new [OF assms new]] dlist_fresh [OF assms]
    by (simp add: nr(1))
  then show ?thesis
    by (auto simp: bctbx_list_prepend_def new nr list_result_def)
qed

section \<open>Unlinking\<close>

text \<open>Unlinking a node leaves the other nodes as a list and the node itself as a list of its own.\<close>

lemma bctbx_list_unlink_result:
  assumes l: "dlist h p (xs @ (a, d) # ys)"
  shows "\<exists>p' h'. bctbx_list_unlink h p (Some a) = Some (p', h') \<and> dlist h' p' (xs @ ys) \<and>
    dlist h' (Some a) [(a, d)] \<and> world h' = world h \<and> brk h' = brk h \<and>
    (\<forall>b. b \<notin> addrs (xs @ (a, d) # ys) \<longrightarrow> cells h' b = cells h b)"
proof (cases "xs = []")
  case True
  show ?thesis
  proof (cases ys)
    case Nil
    then show ?thesis
      using l True by (auto simp: dlist_def bctbx_list_unlink_def heap_ok_def)
  next
    case (Cons y ws)
    then show ?thesis
      using l True by (auto simp: dlist_def bctbx_list_unlink_def heap_ok_def fun_upd_twist)
  qed
next
  case False
  then obtain zs b e where xs: "xs = zs @ [(b, e)]"
    by (metis rev_exhaust surj_pair)
  have pa: "p \<noteq> Some a"
    using l by (cases zs) (auto simp: xs dlist_def)
  show ?thesis
  proof (cases ys)
    case Nil
    then show ?thesis
      using l pa by (auto simp: xs dlist_def bctbx_list_unlink_def heap_ok_def headp_append)
  next
    case (Cons y ws)
    then show ?thesis
      using l pa
      by (auto simp: xs dlist_def bctbx_list_unlink_def heap_ok_def headp_append fun_upd_twist)
  qed
qed

lemma bctbx_list_erase_link_result:
  assumes l: "dlist h p (xs @ (a, d) # ys)"
  shows "\<exists>p' h'. bctbx_list_erase_link h p (Some a) = Some (p', h') \<and> dlist h' p' (xs @ ys) \<and>
    cells h' a = None \<and> world h' = world h \<and> brk h' = brk h \<and>
    (\<forall>b. b \<notin> addrs (xs @ (a, d) # ys) \<longrightarrow> cells h' b = cells h b)"
proof -
  obtain p' h' where u: "bctbx_list_unlink h p (Some a) = Some (p', h')" "dlist h' p' (xs @ ys)"
    "dlist h' (Some a) [(a, d)]" "world h' = world h" "brk h' = brk h"
    "\<forall>b. b \<notin> addrs (xs @ (a, d) # ys) \<longrightarrow> cells h' b = cells h b"
    using bctbx_list_unlink_result [OF l] by blast
  have live: "cells h' a \<noteq> None" using u(3) by (simp add: dlist_def)
  have "dlist (h'\<lparr>cells := (cells h')(a := None)\<rparr>) p' (xs @ ys)"
    using l by (intro dlist_frame [OF u(2)]) (use u(2) in \<open>auto simp: dlist_def heap_ok_def\<close>)
  then show ?thesis
    using u live by (auto simp: bctbx_list_erase_link_def)
qed

text \<open>\<open>erase_first P ns\<close>: the nodes with the first one satisfying \<open>P\<close> taken out.\<close>

fun erase_first :: "('a \<Rightarrow> bool) \<Rightarrow> 'a list \<Rightarrow> 'a list" where
  "erase_first P [] = []"
| "erase_first P (x # xs) = (if P x then xs else x # erase_first P xs)"

lemma erase_first_append:
  "\<forall>x\<in>set xs. \<not> P x \<Longrightarrow> erase_first P (xs @ ys) = xs @ erase_first P ys"
  by (induction xs) auto

lemma erase_first_none: "\<forall>x\<in>set xs. \<not> P x \<Longrightarrow> erase_first P xs = xs"
  by (induction xs) auto

lemma find_split:
  "find P xs = Some x \<Longrightarrow> \<exists>ys zs. xs = ys @ x # zs \<and> (\<forall>y\<in>set ys. \<not> P y) \<and> P x"
proof (induction xs)
  case (Cons a xs)
  show ?case
  proof (cases "P a")
    case True
    then show ?thesis using Cons.prems by fastforce
  next
    case False
    with Cons obtain ys zs where "xs = ys @ x # zs" "\<forall>y\<in>set ys. \<not> P y" "P x" by auto
    with False show ?thesis by (intro exI [of _ "a # ys"] exI [of _ zs]) auto
  qed
qed simp

lemma find_none: "find P xs = None \<Longrightarrow> \<forall>x\<in>set xs. \<not> P x"
  by (simp add: find_None_iff)

text \<open>Erasing the element a search returned: nothing happens when it found none.\<close>

lemma erase_found_result:
  assumes l: "dlist h p ns"
  shows "list_result
    (bctbx_list_erase_link h p (map_option fst (find P ns))) h (addrs ns) (erase_first P ns) (world h)"
proof (cases "find P ns")
  case None
  then have "erase_first P ns = ns" by (intro erase_first_none find_none)
  with None l show ?thesis
    by (intro list_resultI [of _ p h]) (simp_all add: bctbx_list_erase_link_def)
next
  case (Some n)
  from find_split [OF Some] obtain xs ys
    where ns: "ns = xs @ n # ys" "\<forall>y\<in>set xs. \<not> P y" "P n"
    by blast
  obtain a d where n: "n = (a, d)" by (cases n)
  from l have "dlist h p (xs @ (a, d) # ys)" by (simp only: ns(1) n)
  from bctbx_list_erase_link_result [OF this] obtain p' h'
    where r: "bctbx_list_erase_link h p (Some (fst n)) = Some (p', h')"
      "dlist h' p' (xs @ ys)" "world h' = world h" "brk h' = brk h"
      "\<forall>b. b \<notin> addrs (xs @ (a, d) # ys) \<longrightarrow> cells h' b = cells h b"
    by (auto simp only: n fst_conv)
  have "erase_first P ns = xs @ ys" using ns by (simp add: erase_first_append)
  with r Some ns(1) n show ?thesis by (intro list_resultI [of _ p' h']) auto
qed

lemma bctbx_list_remove_gen_result:
  assumes l: "dlist h p ns"
  shows "list_result (bctbx_list_remove_gen h p d ff) h (addrs ns)
    (erase_first (\<lambda>n. snd n = d) ns)
    (case ff of None \<Rightarrow> world h | Some f \<Rightarrow> if d \<in> snd ` set ns then f d (world h) else world h)"
proof -
  let ?P = "\<lambda>n :: node. snd n = d"
  have find: "bctbx_list_find h p d = Some (map_option fst (find ?P ns))"
    using find_fwd [OF dlist_fwd [OF l]] dlist_head [OF l] by simp
  show ?thesis
  proof (cases "find ?P ns")
    case None
    then have "d \<notin> snd ` set ns" "erase_first ?P ns = ns"
      using find_none [OF None] by (auto intro: erase_first_none)
    with None l find show ?thesis
      by (intro list_resultI [of _ p h])
        (simp_all add: bctbx_list_remove_gen_def split: option.split)
  next
    case (Some n)
    then have d: "d \<in> snd ` set ns" by (auto simp: find_Some_iff)
    let ?h = "case ff of None \<Rightarrow> h | Some f \<Rightarrow> run_cb f d h"
    have l': "dlist ?h p ns" using l by (simp split: option.split)
    have "list_result (bctbx_list_erase_link ?h p (map_option fst (find ?P ns))) ?h (addrs ns)
        (erase_first ?P ns) (world ?h)"
      by (rule erase_found_result [OF l'])
    then show ?thesis
      using find Some d by (auto simp: bctbx_list_remove_gen_def list_result_def split: option.splits)
  qed
qed

lemma bctbx_list_delete_custom_result:
  assumes l: "dlist h p ns"
  shows "list_result (bctbx_list_delete_custom h p cmp u) h (addrs ns)
    (erase_first (\<lambda>n. cmp (snd n) u = 0) ns) (world h)"
proof -
  have find: "bctbx_list_find_custom h p cmp u =
      Some (map_option fst (find (\<lambda>n. cmp (snd n) u = 0) ns))"
    using find_custom_fwd [OF dlist_fwd [OF l]] dlist_head [OF l] by simp
  then show ?thesis
    using erase_found_result [OF l, of "\<lambda>n. cmp (snd n) u = 0"]
    by (auto simp: bctbx_list_delete_custom_def bctbx_list_erase_link_def list_result_def
        split: if_splits)
qed

text \<open>
  \<open>bctbx_list_remove_custom\<close> removes by data the first element whose data equals that of the
  element just visited; as every earlier match has been removed already, it is that element.
\<close>

lemma erase_first_visited:
  assumes "\<forall>n\<in>set keep. cmp (snd n) \<noteq> (0::int)" "cmp (snd n) = 0"
  shows "erase_first (\<lambda>m. snd m = snd n) (keep @ n # ns) = keep @ ns"
proof -
  from assms have "\<forall>m\<in>set keep. snd m \<noteq> snd n" by metis
  then show ?thesis by (simp add: erase_first_append)
qed

lemmas remove_custom_steps [simp] =
  remove_custom_loop.simps [of cmp ff h q None] remove_custom_loop.simps [of cmp ff h q "Some a"]
  for cmp ff h q a

lemma remove_custom_loop_result:
  assumes "dlist h p (keep @ ns)" "\<forall>n\<in>set keep. cmp (snd n) \<noteq> 0"
  shows "list_result (remove_custom_loop cmp ff h p (headp ns None)) h (addrs (keep @ ns))
    (keep @ filter (\<lambda>n. cmp (snd n) \<noteq> 0) ns)
    (case ff of None \<Rightarrow> world h
     | Some f \<Rightarrow> fold f (map snd (filter (\<lambda>n. cmp (snd n) = 0) ns)) (world h))"
  using assms
proof (induction ns arbitrary: h p keep)
  case Nil
  then show ?case by (auto simp: list_result_def split: option.split)
next
  case (Cons n ns)
  have c: "cells h (fst n) =
      Some \<lparr>elem_next = headp ns None, elem_prev = lastp None keep, elem_data = snd n\<rparr>"
    using Cons.prems by (simp add: dlist_split)
  show ?case
  proof (cases "cmp (snd n) = 0")
    case False
    then show ?thesis
      using Cons.IH [of h p "keep @ [n]"] Cons.prems c by (cases ff) simp_all
  next
    case True
    have "list_result (bctbx_list_remove_gen h p (snd n) ff) h (addrs (keep @ n # ns))
        (keep @ ns) (case ff of None \<Rightarrow> world h | Some f \<Rightarrow> f (snd n) (world h))"
      using bctbx_list_remove_gen_result [OF Cons.prems(1), of "snd n" ff]
        erase_first_visited [of keep cmp n ns] Cons.prems(2) True
      by (auto split: option.splits)
    then obtain p1 h1 where r: "bctbx_list_remove_gen h p (snd n) ff = Some (p1, h1)"
      "dlist h1 p1 (keep @ ns)" "\<And>a. a \<notin> addrs (keep @ n # ns) \<Longrightarrow> cells h1 a = cells h a"
      "world h1 = (case ff of None \<Rightarrow> world h | Some f \<Rightarrow> f (snd n) (world h))" "brk h \<le> brk h1"
      by (elim list_resultE) blast
    show ?thesis
      using Cons.IH [OF r(2) Cons.prems(2)] r True c
      by (auto simp: list_result_def bctbx_list_remove_with_data_def split: option.splits)
  qed
qed

section \<open>Freeing\<close>

lemma free_loop_result:
  "fwd (cells h) ns None \<Longrightarrow> distinct (map fst ns) \<Longrightarrow> ns \<noteq> [] \<Longrightarrow>
   free_loop h (headp ns None) =
     Some (h\<lparr>cells := (\<lambda>a. if a \<in> addrs ns then None else cells h a)\<rparr>)"
proof (induction ns arbitrary: h)
  case (Cons n ns)
  let ?h = "h\<lparr>cells := (cells h)(fst n := None)\<rparr>"
  have IH: "ns \<noteq> [] \<Longrightarrow> free_loop ?h (headp ns None) =
      Some (?h\<lparr>cells := (\<lambda>a. if a \<in> addrs ns then None else cells ?h a)\<rparr>)"
    by (rule Cons.IH) (use Cons.prems in simp_all)
  from Cons.prems obtain pr where c: "cells h (fst n) =
      Some \<lparr>elem_next = headp ns None, elem_prev = pr, elem_data = snd n\<rparr>" by auto
  have upd: "(\<lambda>a. if a \<in> addrs ns then None else cells ?h a) =
      (\<lambda>a. if a \<in> addrs (n # ns) then None else cells h a)" by (simp add: fun_eq_iff)
  have "free_loop h (Some (fst n)) =
      (if ns \<noteq> [] then free_loop ?h (headp ns None) else Some ?h)"
    by (subst free_loop.simps) (simp add: c)
  with IH upd show ?case by (simp only: headp.simps) (auto simp: fun_upd_def)
qed simp

lemma free_data_loop_result:
  "fwd (cells h) ns None \<Longrightarrow> distinct (map fst ns) \<Longrightarrow> ns \<noteq> [] \<Longrightarrow>
   free_data_loop f h (headp ns None) =
     Some (h\<lparr>cells := (\<lambda>a. if a \<in> addrs ns then None else cells h a),
             world := fold f (map snd ns) (world h)\<rparr>)"
proof (induction ns arbitrary: h)
  case (Cons n ns)
  let ?h = "(run_cb f (snd n) h)\<lparr>cells := (cells h)(fst n := None)\<rparr>"
  have IH: "ns \<noteq> [] \<Longrightarrow> free_data_loop f ?h (headp ns None) =
      Some (?h\<lparr>cells := (\<lambda>a. if a \<in> addrs ns then None else cells ?h a),
               world := fold f (map snd ns) (world ?h)\<rparr>)"
    by (rule Cons.IH) (use Cons.prems in simp_all)
  from Cons.prems obtain pr where c: "cells h (fst n) =
      Some \<lparr>elem_next = headp ns None, elem_prev = pr, elem_data = snd n\<rparr>" by auto
  have upd: "(\<lambda>a. if a \<in> addrs ns then None else cells ?h a) =
      (\<lambda>a. if a \<in> addrs (n # ns) then None else cells h a)" by (simp add: fun_eq_iff)
  have "free_data_loop f h (Some (fst n)) =
      (if ns \<noteq> [] then free_data_loop f ?h (headp ns None) else Some ?h)"
    by (subst free_data_loop.simps) (simp add: c)
  with IH upd show ?case by (simp only: headp.simps) (auto simp: run_cb_def fun_upd_def)
qed simp

lemma freed_heap_ok: "heap_ok h \<Longrightarrow> heap_ok (h\<lparr>cells := (\<lambda>a. if a \<in> A then None else cells h a)\<rparr>)"
  by (auto simp: heap_ok_def)

lemma bctbx_list_free_result:
  assumes "dlist h p ns"
  shows "bctbx_list_free h p = Some (None, h\<lparr>cells := (\<lambda>a. if a \<in> addrs ns then None else cells h a)\<rparr>)"
proof (cases "ns = []")
  case False
  with assms free_loop_result [OF dlist_fwd [OF assms]] show ?thesis
    by (auto simp: bctbx_list_free_def dlist_def)
qed (use assms in \<open>auto simp: bctbx_list_free_def\<close>)

lemma bctbx_list_free_with_data_result:
  assumes "dlist h p ns"
  shows "bctbx_list_free_with_data h p f =
    Some (None, h\<lparr>cells := (\<lambda>a. if a \<in> addrs ns then None else cells h a),
                  world := fold f (map snd ns) (world h)\<rparr>)"
proof (cases "ns = []")
  case False
  with assms free_data_loop_result [OF dlist_fwd [OF assms]] show ?thesis
    by (auto simp: bctbx_list_free_with_data_def dlist_def)
qed (use assms in \<open>auto simp: bctbx_list_free_with_data_def\<close>)

section \<open>Insertion\<close>

fun insert_where :: "('a \<Rightarrow> bool) \<Rightarrow> 'a \<Rightarrow> 'a list \<Rightarrow> 'a list" where
  "insert_where P n [] = [n]"
| "insert_where P n (x # xs) = (if P x then n # x # xs else x # insert_where P n xs)"

lemma set_insert_where [simp]: "set (insert_where P n xs) = insert n (set xs)"
  by (induction xs) auto

lemma mset_insert_where [simp]: "mset (insert_where P n xs) = add_mset n (mset xs)"
  by (induction xs) auto

lemmas insert_sorted_steps [simp] =
  insert_sorted_loop.simps [of cmp h ret q data None]
  insert_sorted_loop.simps [of cmp h ret q data "Some a"] for cmp h ret q data a

lemma insert_sorted_loop_result:
  assumes "dlist h p (xs @ ys)" "xs @ ys \<noteq> []" "dlist h (Some b) [(b, d)]" "b \<notin> addrs (xs @ ys)"
  shows "list_result (insert_sorted_loop cmp h p (Some b) d (headp ys None) (lastp None xs))
    h (insert b (addrs (xs @ ys))) (xs @ insert_where (\<lambda>n. cmp d (snd n) \<le> 0) (b, d) ys) (world h)"
  using assms
proof (induction ys arbitrary: xs)
  case Nil
  then obtain zs a e where xs: "xs = zs @ [(a, e)]"
    by (metis append_Nil2 rev_exhaust surj_pair)
  let ?h = "h\<lparr>cells := (cells h)
      (a \<mapsto> \<lparr>elem_next = Some b, elem_prev = lastp None zs, elem_data = e\<rparr>,
       b \<mapsto> \<lparr>elem_next = None, elem_prev = Some a, elem_data = d\<rparr>)\<rparr>"
  show ?case
    using Nil by (intro list_resultI [of _ p ?h])
      (auto simp: xs dlist_def headp_append heap_ok_def)
next
  case (Cons y ys)
  obtain c e where y: "y = (c, e)" by (cases y)
  show ?case
  proof (cases "cmp d e \<le> 0")
    case False
    then show ?thesis
      using Cons.IH [of "xs @ [y]"] Cons.prems by (simp add: y dlist_split)
  next
    case True
    show ?thesis
    proof (cases xs rule: rev_exhaust)
      case Nil
      let ?h = "h\<lparr>cells := (cells h)
          (b \<mapsto> \<lparr>elem_next = Some c, elem_prev = None, elem_data = d\<rparr>,
           c \<mapsto> \<lparr>elem_next = headp ys None, elem_prev = Some b, elem_data = e\<rparr>)\<rparr>"
      show ?thesis
        using Cons.prems True Nil by (intro list_resultI [of _ "Some b" ?h])
          (auto simp: y dlist_def heap_ok_def)
    next
      case (snoc zs z)
      obtain a f where z: "z = (a, f)" by (cases z)
      let ?h = "h\<lparr>cells := (cells h)
          (b \<mapsto> \<lparr>elem_next = Some c, elem_prev = Some a, elem_data = d\<rparr>,
           a \<mapsto> \<lparr>elem_next = Some b, elem_prev = lastp None zs, elem_data = f\<rparr>,
           c \<mapsto> \<lparr>elem_next = headp ys None, elem_prev = Some b, elem_data = e\<rparr>)\<rparr>"
      show ?thesis
        using Cons.prems True snoc by (intro list_resultI [of _ p ?h])
          (auto simp: y z dlist_def headp_append heap_ok_def image_Un)
    qed
  qed
qed

lemma bctbx_list_insert_sorted_result:
  assumes l: "dlist h p ns"
  shows "list_result (bctbx_list_insert_sorted h p d cmp) h (insert (brk h) (addrs ns))
    (insert_where (\<lambda>n. cmp d (snd n) \<le> 0) (brk h, d) ns) (world h)"
proof (cases "ns = []")
  case True
  then show ?thesis
    using bctbx_list_append_result [OF l, of d] l
    by (simp add: bctbx_list_insert_sorted_def)
next
  case False
  obtain q h1 where new: "bctbx_list_new h d = (q, h1)" by fastforce
  have hok: "heap_ok h" using l by (simp add: dlist_def)
  note nr = bctbx_list_new_result [OF hok new]
  have p: "p = headp ns None" by (rule dlist_head [OF l])
  have "list_result (insert_sorted_loop cmp h1 p q d p None) h1 (insert (brk h) (addrs ns))
      (insert_where (\<lambda>n. cmp d (snd n) \<le> 0) (brk h, d) ns) (world h1)"
    using insert_sorted_loop_result [of h1 p "[]" ns "brk h" d cmp]
      dlist_new [OF l new] nr False dlist_fresh [OF l] p by simp
  then show ?thesis
    using False p by (auto simp: bctbx_list_insert_sorted_def new list_result_def nr)
qed

lemma insert_loop_skip:
  "fwd (cells h) ns None \<Longrightarrow> a \<notin> addrs ns \<Longrightarrow>
   insert_loop h p (Some a) d (headp ns None) = Some (p, h)"
  by (induction ns) (auto simp: insert_loop.simps [of h p "Some a" d None]
      insert_loop.simps [of h p "Some a" d "Some b" for b])

lemma insert_loop_reach:
  "fwd (cells h) (xs @ ys) None \<Longrightarrow> a \<notin> addrs xs \<Longrightarrow>
   insert_loop h p (Some a) d (headp (xs @ ys) None) = insert_loop h p (Some a) d (headp ys None)"
  by (induction xs) (auto simp: insert_loop.simps [of h p "Some a" d "Some b" for b])

lemma bctbx_list_insert_result:
  assumes l: "dlist h p (xs @ (a, e) # ys)"
  shows "list_result (bctbx_list_insert h p (Some a) d) h (insert (brk h) (addrs (xs @ (a, e) # ys)))
    (xs @ (brk h, d) # (a, e) # ys) (world h)"
proof -
  have p: "p = headp (xs @ (a, e) # ys) None" by (rule dlist_head [OF l])
  have nin: "a \<notin> addrs xs" "a \<notin> addrs ys" and f: "fwd (cells h) (xs @ (a, e) # ys) None"
    using l dlist_fwd [OF l] by (auto simp: dlist_def)
  have reach: "bctbx_list_insert h p (Some a) d = insert_loop h p (Some a) d (Some a)"
    using insert_loop_reach [OF f nin(1), of p d] p by (simp add: bctbx_list_insert_def)
  show ?thesis
  proof (cases xs rule: rev_exhaust)
    case Nil
    have "insert_loop h p (Some a) d (Some a) = bctbx_list_prepend h p d"
      using l Nil by (subst insert_loop.simps) (simp add: dlist_def)
    then show ?thesis
      using bctbx_list_prepend_result [OF l, of d] reach by (simp add: Nil)
  next
    case (snoc zs z)
    obtain b g where z: "z = (b, g)" by (cases z)
    let ?h = "h\<lparr>brk := Suc (brk h), cells := (cells h)
        (brk h \<mapsto> \<lparr>elem_next = Some a, elem_prev = Some b, elem_data = d\<rparr>,
         b \<mapsto> \<lparr>elem_next = Some (brk h), elem_prev = lastp None zs, elem_data = g\<rparr>,
         a \<mapsto> \<lparr>elem_next = headp ys None, elem_prev = Some (brk h), elem_data = e\<rparr>)\<rparr>"
    have fresh: "brk h \<notin> addrs (xs @ (a, e) # ys)" by (rule dlist_fresh [OF l])
    have h: "dlist ?h p (xs @ (brk h, d) # (a, e) # ys)"
      using l fresh by (auto simp: snoc z dlist_def headp_append heap_ok_def image_Un less_Suc_eq)
    have "insert_loop ?h p (Some a) d (headp ys None) = Some (p, ?h)"
      using insert_loop_skip [of ?h ys a p d] dlist_fwd [OF h] nin(2) by (simp add: fwd_append)
    then have "insert_loop h p (Some a) d (Some a) = Some (p, ?h)"
      using l fresh by (subst insert_loop.simps)
        (simp add: snoc z dlist_def bctbx_list_new_def image_Un)
    with h reach show ?thesis
      by (intro list_resultI [of _ p ?h]) (auto simp: snoc z)
  qed
qed

section \<open>Copies\<close>

fun copy_data :: "(ptr \<Rightarrow> 'w \<Rightarrow> ptr \<times> 'w) option \<Rightarrow> ptr list \<Rightarrow> 'w \<Rightarrow> ptr list \<times> 'w" where
  "copy_data cf [] w = ([], w)"
| "copy_data cf (d # ds) w =
     (let (d', w1) = (case cf of None \<Rightarrow> (d, w) | Some f \<Rightarrow> f d w);
          (ds', w2) = copy_data cf ds w1
      in (d' # ds', w2))"

lemma copy_data_None [simp]: "copy_data None ds w = (ds, w)"
  by (induction ds arbitrary: w) auto

lemma length_copy_data: "copy_data cf ds w = (ds', w') \<Longrightarrow> length ds' = length ds"
  by (induction ds arbitrary: w ds' w') (auto split: prod.splits)

lemmas copy_steps [simp] =
  copy_loop.simps [of cf h q pr None] copy_loop.simps [of cf h q pr "Some a"]
  copy_reverse_loop.simps [of cr h q None] copy_reverse_loop.simps [of cr h q "Some a"]
  for cf cr h q pr a

text \<open>One iteration of the copy loop: a fresh cell is linked after the copy made so far.\<close>

lemma copy_link_step:
  assumes l: "dlist h q cs" and new: "bctbx_list_new h d = (item, h0)"
  shows "\<exists>q' h'. copy_link h0 q (lastp None cs) item = Some (q', h') \<and>
    dlist h' q' (cs @ [(brk h, d)]) \<and> brk h' = Suc (brk h) \<and> world h' = world h \<and>
    (\<forall>a. a \<notin> addrs cs \<longrightarrow> a \<noteq> brk h \<longrightarrow> cells h' a = cells h a)"
proof (cases cs rule: rev_exhaust)
  case Nil
  then show ?thesis
    using l new by (auto simp: copy_link_def bctbx_list_new_def dlist_def heap_ok_def less_Suc_eq)
next
  case (snoc zs z)
  then show ?thesis
    using l new dlist_fresh [OF l]
    by (auto simp: copy_link_def bctbx_list_new_def dlist_def heap_ok_def less_Suc_eq headp_append image_Un)
qed

lemma copy_loop_result:
  assumes "dlist h q cs" "fwd (cells h) ns None" "addrs ns \<inter> addrs cs = {}"
    "copy_data cf (map snd ns) (world h) = (ds, w)"
  shows "\<exists>q' h'. copy_loop cf h q (lastp None cs) (headp ns None) = Some (q', h') \<and>
    dlist h' q' (cs @ zip [brk h..<brk h + length ns] ds) \<and> world h' = w \<and>
    brk h' = brk h + length ns \<and> (\<forall>a < brk h. a \<notin> addrs cs \<longrightarrow> cells h' a = cells h a)"
  using assms
proof (induction ns arbitrary: h q cs ds)
  case Nil
  then show ?case by simp
next
  case (Cons n ns)
  from Cons.prems(2) obtain pr where c: "cells h (fst n) =
      Some \<lparr>elem_next = headp ns None, elem_prev = pr, elem_data = snd n\<rparr>" by auto
  have hok: "heap_ok h" using Cons.prems(1) by (simp add: dlist_def)
  have live: "fst n < brk h" "\<forall>a \<in> addrs ns. a < brk h"
    using c hok Cons.prems(2) fwd_live [of "cells h" ns None] by (auto simp: heap_ok_def)
  obtain d' w1 where item: "(case cf of None \<Rightarrow> (snd n, world h) | Some f \<Rightarrow> f (snd n) (world h)) = (d', w1)"
    by fastforce
  obtain ds' where ds: "copy_data cf (map snd ns) w1 = (ds', w)" "ds = d' # ds'"
    using Cons.prems(4) item by (auto split: prod.splits)
  let ?h = "h\<lparr>world := w1\<rparr>"
  have ci: "copy_item cf h (snd n) = bctbx_list_new ?h d'"
    using item by (auto simp: copy_item_def split: option.splits)
  have l': "dlist ?h q cs" using Cons.prems(1) by simp
  obtain h0 where new: "bctbx_list_new ?h d' = (Some (brk h), h0)" by (simp add: bctbx_list_new_def)
  from copy_link_step [OF l' new] obtain q1 h1 where s1:
    "copy_link h0 q (lastp None cs) (Some (brk h)) = Some (q1, h1)"
    "dlist h1 q1 (cs @ [(brk h, d')])" "brk h1 = Suc (brk h)" "world h1 = w1"
    "\<And>a. a \<notin> addrs cs \<Longrightarrow> a \<noteq> brk h \<Longrightarrow> cells h1 a = cells h a"
    by auto
  have "fwd (cells h1) ns None"
    using Cons.prems(2,3) live by (auto intro!: fwd_frame [of "cells h"] s1(5))
  moreover have "addrs ns \<inter> addrs (cs @ [(brk h, d')]) = {}"
    using Cons.prems(3) live by auto
  ultimately obtain q' h' where IH:
    "copy_loop cf h1 q1 (lastp None (cs @ [(brk h, d')])) (headp ns None) = Some (q', h')"
    "dlist h' q' ((cs @ [(brk h, d')]) @ zip [brk h1..<brk h1 + length ns] ds')" "world h' = w"
    "brk h' = brk h1 + length ns" "\<forall>a < brk h1. a \<notin> addrs (cs @ [(brk h, d')]) \<longrightarrow> cells h' a = cells h1 a"
    using Cons.IH [OF s1(2), of ds'] ds(1) s1(4) by auto
  have c1: "cells h1 (fst n) = cells h (fst n)"
    using Cons.prems(3) live by (intro s1(5)) auto
  have "copy_loop cf h q (lastp None cs) (Some (fst n)) =
      copy_loop cf h1 q1 (Some (brk h)) (headp ns None)"
    using s1(1) c c1 by (subst copy_loop.simps) (simp add: ci new)
  moreover have "zip [brk h..<brk h + length (n # ns)] ds =
      (brk h, d') # zip [brk h1..<brk h1 + length ns] ds'"
    by (subst upt_conv_Cons) (simp_all add: ds(2) s1(3) del: upt_Suc)
  ultimately show ?case
    using IH s1 by (intro exI [of _ q'] exI [of _ h']) auto
qed

text \<open>
  A copy is a list of fresh cells holding the copied data in the same order; the original list,
  like every other cell, is unchanged.
\<close>

lemma copy_with_func_result:
  assumes l: "dlist h p ns" and c: "copy_data cf (map snd ns) (world h) = (ds, w)"
  shows "\<exists>q h'. bctbx_list_copy_with_func h p cf = Some (q, h') \<and>
    dlist h' q (zip [brk h..<brk h + length ns] ds) \<and> dlist h' p ns \<and> world h' = w \<and>
    (\<forall>a < brk h. cells h' a = cells h a)"
proof -
  have "dlist h None []" using l by (simp add: dlist_def)
  from copy_loop_result [OF this dlist_fwd [OF l] _ c] obtain q h' where r:
    "copy_loop cf h None None (headp ns None) = Some (q, h')"
    "dlist h' q (zip [brk h..<brk h + length ns] ds)" "world h' = w"
    "\<forall>a < brk h. cells h' a = cells h a" by auto
  have "\<forall>a \<in> addrs ns. a < brk h"
    using l fwd_live [OF dlist_fwd [OF l]] by (auto simp: dlist_def heap_ok_def)
  then have "dlist h' p ns"
    using r by (intro dlist_frame [OF l]) (auto simp: dlist_def)
  then show ?thesis
    using r dlist_head [OF l] by (auto simp: bctbx_list_copy_with_func_def)
qed

lemma copy_reverse_loop_result:
  assumes "dlist h q cs" "fwd (cells h) ns None" "addrs ns \<inter> addrs cs = {}"
    "copy_data (Some cf) (map snd ns) (world h) = (ds, w)"
  shows "\<exists>q' h'. copy_reverse_loop cf h q (headp ns None) = Some (q', h') \<and>
    (\<exists>cs'. dlist h' q' (cs' @ cs) \<and> map snd cs' = rev ds \<and> (\<forall>a \<in> addrs cs'. brk h \<le> a)) \<and>
    world h' = w \<and> (\<forall>a < brk h. a \<notin> addrs cs \<longrightarrow> cells h' a = cells h a)"
  using assms
proof (induction ns arbitrary: h q cs ds)
  case Nil
  then show ?case by auto
next
  case (Cons n ns)
  from Cons.prems(2) obtain pr where c: "cells h (fst n) =
      Some \<lparr>elem_next = headp ns None, elem_prev = pr, elem_data = snd n\<rparr>" by auto
  have hok: "heap_ok h" using Cons.prems(1) by (simp add: dlist_def)
  have live: "fst n < brk h" "\<forall>a \<in> addrs ns. a < brk h"
    using c hok Cons.prems(2) fwd_live [of "cells h" ns None] by (auto simp: heap_ok_def)
  obtain d' w1 where item: "cf (snd n) (world h) = (d', w1)" by fastforce
  obtain ds' where ds: "copy_data (Some cf) (map snd ns) w1 = (ds', w)" "ds = d' # ds'"
    using Cons.prems(4) item by (auto split: prod.splits)
  let ?h = "h\<lparr>world := w1\<rparr>"
  have l': "dlist ?h q cs" using Cons.prems(1) by simp
  obtain q1 h1 where s1: "bctbx_list_prepend ?h q d' = Some (q1, h1)"
    "dlist h1 q1 ((brk h, d') # cs)" "world h1 = w1" "brk h \<le> brk h1"
    "\<And>a. a \<notin> insert (brk h) (addrs cs) \<Longrightarrow> cells h1 a = cells h a"
    using bctbx_list_prepend_result [OF l', of d'] by (auto elim!: list_resultE)
  have c1: "cells h1 (fst n) = cells h (fst n)" and f1: "fwd (cells h1) ns None"
    using Cons.prems(2,3) live by (auto intro!: fwd_frame [of "cells h"] s1(5))
  have lt: "brk h < brk h1" using s1(2) by (auto simp: dlist_def heap_ok_def)
  have "addrs ns \<inter> addrs ((brk h, d') # cs) = {}" using Cons.prems(3) live by auto
  then obtain q' h' cs' where IH: "copy_reverse_loop cf h1 q1 (headp ns None) = Some (q', h')"
    "dlist h' q' (cs' @ (brk h, d') # cs)" "map snd cs' = rev ds'" "\<forall>a \<in> addrs cs'. brk h1 \<le> a"
    "world h' = w" "\<forall>a < brk h1. a \<notin> addrs ((brk h, d') # cs) \<longrightarrow> cells h' a = cells h1 a"
    using Cons.IH [OF s1(2) f1, of ds'] ds(1) s1(3) by auto
  have "copy_reverse_loop cf h q (Some (fst n)) = copy_reverse_loop cf h1 q1 (headp ns None)"
    using c c1 item s1(1) by (subst copy_reverse_loop.simps) simp
  with IH ds(2) s1(4,5) lt show ?case
    by (intro exI [of _ q'] exI [of _ h'] conjI exI [of _ "cs' @ [(brk h, d')]"]) auto
qed

end
