(* ===== verification/ListContract.thy ===== *)
theory ListContract
  imports CList
begin

text \<open>
  What src/containers/list.c promises to its clients.  The locale \<open>list_api\<close> is the contract of the
  operations a caller uses when it keeps a list as a queue or as a stack; its client lemmas rest on
  the contract alone and reach the C code through the interpretation on the heap model.  The theorems of this
  theory state the behaviour of each operation of the file over well-formed heap lists.
\<close>

section \<open>The contract\<close>

primrec push_all :: "('s \<Rightarrow> ptr \<Rightarrow> ptr \<Rightarrow> (ptr \<times> 's) option) \<Rightarrow> 's \<Rightarrow> ptr \<Rightarrow> ptr list \<Rightarrow> (ptr \<times> 's) option" where
  "push_all op s p [] = Some (p, s)"
| "push_all op s p (d # ds) = do { (p1, s1) \<leftarrow> op s p d; push_all op s1 p1 ds }"

primrec pop_n :: "('s \<Rightarrow> ptr \<Rightarrow> (ptr \<times> ptr \<times> 's) option) \<Rightarrow> nat \<Rightarrow> 's \<Rightarrow> ptr \<Rightarrow> (ptr list \<times> ptr \<times> 's) option" where
  "pop_n pop 0 s p = Some ([], p, s)"
| "pop_n pop (Suc n) s p = do {
     (p1, d, s1) \<leftarrow> pop s p;
     (ds, p2, s2) \<leftarrow> pop_n pop n s1 p1;
     Some (d # ds, p2, s2) }"

locale list_api =
  fixes rep :: "'s \<Rightarrow> ptr \<Rightarrow> ptr list \<Rightarrow> bool"
    and append :: "'s \<Rightarrow> ptr \<Rightarrow> ptr \<Rightarrow> (ptr \<times> 's) option"
    and prepend :: "'s \<Rightarrow> ptr \<Rightarrow> ptr \<Rightarrow> (ptr \<times> 's) option"
    and remove :: "'s \<Rightarrow> ptr \<Rightarrow> ptr \<Rightarrow> (ptr \<times> 's) option"
    and pop :: "'s \<Rightarrow> ptr \<Rightarrow> (ptr \<times> ptr \<times> 's) option"
    and size :: "'s \<Rightarrow> ptr \<Rightarrow> nat option"
  assumes rep_null: "rep s p [] \<Longrightarrow> p = None"
    and rep_append: "rep s p xs \<Longrightarrow> \<exists>p' s'. append s p d = Some (p', s') \<and> rep s' p' (xs @ [d])"
    and rep_prepend: "rep s p xs \<Longrightarrow> \<exists>p' s'. prepend s p d = Some (p', s') \<and> rep s' p' (d # xs)"
    and rep_remove:
      "rep s p xs \<Longrightarrow> \<exists>p' s'. remove s p d = Some (p', s') \<and> rep s' p' (erase_first (\<lambda>x. x = d) xs)"
    and rep_pop: "rep s p (d # xs) \<Longrightarrow> \<exists>p' s'. pop s p = Some (p', d, s') \<and> rep s' p' xs"
    and rep_size: "rep s p xs \<Longrightarrow> size s p = Some (length xs)"
begin

lemma rep_push_append:
  "rep s p xs \<Longrightarrow> \<exists>p' s'. push_all append s p ds = Some (p', s') \<and> rep s' p' (xs @ ds)"
proof (induction ds arbitrary: s p xs)
  case Nil then show ?case by simp
next
  case (Cons d ds)
  obtain p1 s1 where "append s p d = Some (p1, s1)" "rep s1 p1 (xs @ [d])"
    using rep_append [OF Cons.prems] by blast
  with Cons.IH [of s1 p1 "xs @ [d]"] show ?case by simp
qed

lemma rep_push_prepend:
  "rep s p xs \<Longrightarrow> \<exists>p' s'. push_all prepend s p ds = Some (p', s') \<and> rep s' p' (rev ds @ xs)"
proof (induction ds arbitrary: s p xs)
  case Nil then show ?case by simp
next
  case (Cons d ds)
  obtain p1 s1 where "prepend s p d = Some (p1, s1)" "rep s1 p1 (d # xs)"
    using rep_prepend [OF Cons.prems] by blast
  with Cons.IH [of s1 p1 "d # xs"] show ?case by simp
qed

lemma rep_pop_n:
  "rep s p (ds @ xs) \<Longrightarrow> \<exists>p' s'. pop_n pop (length ds) s p = Some (ds, p', s') \<and> rep s' p' xs"
proof (induction ds arbitrary: s p)
  case Nil then show ?case by simp
next
  case (Cons d ds)
  from Cons.prems have "rep s p (d # (ds @ xs))" by simp
  from rep_pop [OF this] obtain p1 s1 where s1: "pop s p = Some (p1, d, s1)" "rep s1 p1 (ds @ xs)"
    by blast
  from Cons.IH [OF s1(2)] obtain p2 s2
    where "pop_n pop (length ds) s1 p1 = Some (ds, p2, s2)" "rep s2 p2 xs" by blast
  with s1(1) show ?case by simp
qed

lemma queue:
  assumes "rep s p xs"
  shows "\<exists>p1 s1 p2 s2. push_all append s p ds = Some (p1, s1) \<and>
    size s1 p1 = Some (length xs + length ds) \<and>
    pop_n pop (length xs + length ds) s1 p1 = Some (xs @ ds, p2, s2) \<and> p2 = None"
proof -
  obtain p1 s1 where s1: "push_all append s p ds = Some (p1, s1)" "rep s1 p1 (xs @ ds)"
    using rep_push_append [OF assms] by blast
  obtain p2 s2 where "pop_n pop (length (xs @ ds)) s1 p1 = Some (xs @ ds, p2, s2)" "rep s2 p2 []"
    using rep_pop_n [of s1 p1 "xs @ ds" "[]"] s1(2) by auto
  with s1 rep_null rep_size [OF s1(2)] show ?thesis by auto
qed

lemma stack:
  assumes "rep s p xs"
  shows "\<exists>p1 s1 p2 s2. push_all prepend s p ds = Some (p1, s1) \<and>
    pop_n pop (length ds) s1 p1 = Some (rev ds, p2, s2) \<and> rep s2 p2 xs"
proof -
  obtain p1 s1 where s1: "push_all prepend s p ds = Some (p1, s1)" "rep s1 p1 (rev ds @ xs)"
    using rep_push_prepend [OF assms] by blast
  with rep_pop_n [OF s1(2)] show ?thesis by simp
qed

lemma remove_undoes_prepend:
  assumes "rep s p xs"
  shows "\<exists>p1 s1 p2 s2. prepend s p d = Some (p1, s1) \<and> remove s1 p1 d = Some (p2, s2) \<and> rep s2 p2 xs"
proof -
  obtain p1 s1 where s1: "prepend s p d = Some (p1, s1)" "rep s1 p1 (d # xs)"
    using rep_prepend [OF assms] by blast
  with rep_remove [OF s1(2), of d] show ?thesis by simp
qed

end

section \<open>The heap lists implement it\<close>

definition dlist_data :: "'w lheap \<Rightarrow> ptr \<Rightarrow> ptr list \<Rightarrow> bool" where
  "dlist_data h p ds \<longleftrightarrow> (\<exists>ns. dlist h p ns \<and> map snd ns = ds)"

lemma dlist_dataI: "dlist h p ns \<Longrightarrow> map snd ns = ds \<Longrightarrow> dlist_data h p ds"
  by (auto simp: dlist_data_def)

lemma list_result_data:
  "list_result r h A ns w \<Longrightarrow> map snd ns = ds \<Longrightarrow>
   \<exists>p' h'. r = Some (p', h') \<and> dlist_data h' p' ds"
  by (auto elim!: list_resultE simp: dlist_data_def)

lemma map_snd_erase_first: "map snd (erase_first (\<lambda>n. P (snd n)) ns) = erase_first P (map snd ns)"
  by (induction ns) auto

lemma bctbx_list_pop_front_result:
  assumes l: "dlist h p ((a, d) # ns)"
  shows "\<exists>p' h'. bctbx_list_pop_front h p = Some (p', d, h') \<and> dlist h' p' ns \<and>
    cells h' a = None \<and> world h' = world h \<and> (\<forall>b. b \<notin> addrs ((a, d) # ns) \<longrightarrow> cells h' b = cells h b)"
proof -
  have p: "p = Some a" and c: "\<exists>c. cells h a = Some c \<and> elem_data c = d"
    using l by (auto simp: dlist_def)
  have l': "dlist h p ([] @ (a, d) # ns)" using l by simp
  obtain q h' where u: "bctbx_list_unlink h p (Some a) = Some (q, h')" "dlist h' q ns"
    "dlist h' (Some a) [(a, d)]" "world h' = world h" "brk h' = brk h"
    "\<forall>b. b \<notin> addrs ((a, d) # ns) \<longrightarrow> cells h' b = cells h b"
    using bctbx_list_unlink_result [OF l'] by auto
  have live: "cells h' a \<noteq> None" using u(3) by (auto simp: dlist_def)
  have out: "a \<notin> addrs ns" using l by (auto simp: dlist_def)
  have "dlist (h'\<lparr>cells := (cells h')(a := None)\<rparr>) q ns"
    using u(2) out by (auto simp: dlist_def heap_ok_def)
  with c u live show ?thesis
    by (auto simp: bctbx_list_pop_front_def p)
qed

interpretation clist: list_api dlist_data bctbx_list_append bctbx_list_prepend bctbx_list_remove
  bctbx_list_pop_front bctbx_list_size
proof
  fix h :: "'a lheap" and p d xs
  show "dlist_data h p [] \<Longrightarrow> p = None"
    by (auto simp: dlist_data_def)
  show "dlist_data h p (d # xs) \<Longrightarrow>
      \<exists>p' h'. bctbx_list_pop_front h p = Some (p', d, h') \<and> dlist_data h' p' xs"
    using bctbx_list_pop_front_result by (fastforce simp: dlist_data_def)
  assume "dlist_data h p xs"
  then obtain ns where l: "dlist h p ns" "map snd ns = xs" by (auto simp: dlist_data_def)
  show "\<exists>p' h'. bctbx_list_append h p d = Some (p', h') \<and> dlist_data h' p' (xs @ [d])"
    using list_result_data [OF bctbx_list_append_result [OF l(1), of d], of "xs @ [d]"] l(2) by simp
  show "\<exists>p' h'. bctbx_list_prepend h p d = Some (p', h') \<and> dlist_data h' p' (d # xs)"
    using list_result_data [OF bctbx_list_prepend_result [OF l(1), of d], of "d # xs"] l(2) by simp
  show "\<exists>p' h'. bctbx_list_remove h p d = Some (p', h') \<and>
      dlist_data h' p' (erase_first (\<lambda>x. x = d) xs)"
    unfolding bctbx_list_remove_def
    by (rule list_result_data [OF bctbx_list_remove_gen_result [OF l(1)]])
      (simp add: map_snd_erase_first [of "\<lambda>x. x = d"] l(2))
  show "bctbx_list_size h p = Some (length xs)"
    using size_loop_fwd [OF dlist_fwd [OF l(1)], of 0] dlist_head [OF l(1)] l(2)
    by (auto simp: bctbx_list_size_def)
qed

section \<open>Consequences used below\<close>

lemma first_elem_of_last:
  assumes l: "dlist h p ns"
  shows "bctbx_list_first_elem h (lastp None ns) = Some p"
proof (cases "ns = []")
  case True
  with l show ?thesis by (simp add: bctbx_list_first_elem_def)
next
  case False
  with first_elem_dlist [OF l, of "last ns"] show ?thesis by (simp add: lastp_neq_None)
qed

lemma insert_where_sorted:
  assumes total: "\<And>a b. cmp a b > 0 \<Longrightarrow> cmp b a \<le> (0 :: int)"
    and trans: "\<And>a b c. cmp a b \<le> 0 \<Longrightarrow> cmp b c \<le> 0 \<Longrightarrow> cmp a c \<le> 0"
  shows "sorted_wrt (\<lambda>a b. cmp a b \<le> 0) (map snd ns) \<Longrightarrow>
    sorted_wrt (\<lambda>a b. cmp a b \<le> 0) (map snd (insert_where (\<lambda>n. cmp d (snd n) \<le> 0) (b, d) ns))"
proof (induction ns)
  case Nil then show ?case by simp
next
  case (Cons n ns)
  show ?case
  proof (cases "cmp d (snd n) \<le> 0")
    case True
    with Cons.prems show ?thesis by (auto intro: trans)
  next
    case False
    then have "cmp (snd n) d \<le> 0" using total by simp
    with Cons show ?thesis using False by simp
  qed
qed

lemma dlist_free:
  assumes q: "dlist h q cs" and p: "dlist h p ns" and disj: "addrs ns \<inter> addrs cs = {}"
  shows "\<exists>h'. bctbx_list_free h q = Some (None, h') \<and> dlist h' p ns"
proof -
  let ?h = "h\<lparr>cells := (\<lambda>a. if a \<in> addrs cs then None else cells h a)\<rparr>"
  have "heap_ok ?h" using p by (intro freed_heap_ok) (simp add: dlist_def)
  moreover have "cells ?h a = cells h a" if "a \<in> addrs ns" for a using that disj by auto
  ultimately have "dlist ?h p ns" by (rule dlist_frame [OF p])
  with bctbx_list_free_result [OF q] show ?thesis by blast
qed

lemma copy_then_free:
  assumes l: "dlist h p ns" and c: "copy_data (Some cf) (map snd ns) (world h) = (ds, w)"
  shows "\<exists>q h'. bctbx_list_copy_with_data h p (Some cf) = Some (q, h') \<and> dlist_data h' q ds \<and>
      dlist h' p ns \<and> world h' = w \<and>
      (\<exists>h''. bctbx_list_free h' q = Some (None, h'') \<and> dlist h'' p ns)"
proof -
  let ?cs = "zip [brk h..<brk h + length ns] ds"
  obtain q h' where r: "bctbx_list_copy_with_func h p (Some cf) = Some (q, h')" "dlist h' q ?cs"
    "dlist h' p ns" "world h' = w"
    using copy_with_func_result [OF assms] by blast
  have len: "length ds = length ns" using length_copy_data [OF c] by simp
  have "addrs ns \<subseteq> {..<brk h}"
    using l by (auto simp: dlist_def heap_ok_def dest!: seg_live)
  moreover have "addrs ?cs \<subseteq> {brk h..}" by (auto dest: set_zip_leftD)
  ultimately have "addrs ns \<inter> addrs ?cs = {}" by fastforce
  from dlist_free [OF r(2,3) this] r len show ?thesis
    by (auto simp: bctbx_list_copy_with_data_def intro!: dlist_dataI [OF r(2)])
qed

lemma copy_reverse_result:
  assumes l: "dlist h p ns" and c: "copy_data (Some cf) (map snd ns) (world h) = (ds, w)"
  shows "\<exists>q h'. bctbx_list_copy_reverse_with_data h p cf = Some (q, h') \<and> dlist_data h' q (rev ds) \<and>
      dlist h' p ns \<and> world h' = w"
proof -
  have z: "dlist h None []" using l by (simp add: dlist_def)
  obtain q' h' cs where r: "copy_reverse_loop cf h None (headp ns None) = Some (q', h')"
    "dlist h' q' cs" "map snd cs = rev ds" "world h' = w" "\<forall>a < brk h. cells h' a = cells h a"
    using copy_reverse_loop_result [OF z dlist_fwd [OF l] _ c] by auto
  have "a < brk h" if "a \<in> addrs ns" for a
    using l seg_live [of "cells h" None ns None a] that by (auto simp: dlist_def heap_ok_def)
  then have "dlist h' p ns"
    using r(2,5) l by (intro dlist_frame [OF l]) (auto simp: dlist_def)
  with r dlist_head [OF l] show ?thesis
    by (auto simp: bctbx_list_copy_reverse_with_data_def dlist_data_def)
qed

lemma unlink_delete_result:
  assumes l: "dlist h p (xs @ (a, d) # ys)"
  shows "(\<exists>p' h'. bctbx_list_unlink h p (Some a) = Some (p', h') \<and> dlist h' p' (xs @ ys) \<and>
      dlist h' (Some a) [(a, d)]) \<and>
    (\<exists>p' h'. bctbx_list_erase_link h p (Some a) = Some (p', h') \<and> dlist h' p' (xs @ ys) \<and>
      cells h' a = None)"
  using bctbx_list_unlink_result [OF l] bctbx_list_erase_link_result [OF l] by blast

section \<open>Properties\<close>

text \<open>A concrete heap for the witnesses: the list of the data 7, 3, 7, and the order on data.\<close>

definition demo_nodes :: "node list" where
  "demo_nodes = [(0, Some 7), (1, Some 3), (2, Some 7)]"

definition demo_heap :: "ptr list lheap" where
  "demo_heap = \<lparr>cells = [0 \<mapsto> \<lparr>elem_next = Some 1, elem_prev = None, elem_data = Some 7\<rparr>,
                        1 \<mapsto> \<lparr>elem_next = Some 2, elem_prev = Some 0, elem_data = Some 3\<rparr>,
                        2 \<mapsto> \<lparr>elem_next = None, elem_prev = Some 1, elem_data = Some 7\<rparr>,
                        5 \<mapsto> \<lparr>elem_next = None, elem_prev = None, elem_data = Some 9\<rparr>],
                brk = 6, world = []\<rparr>"

lemma demo_dlist: "dlist demo_heap (Some 0) demo_nodes"
  by (simp add: dlist_def heap_ok_def demo_heap_def demo_nodes_def)

lemma demo_dlist5: "dlist demo_heap (Some 5) [(5, Some 9)]"
  by (simp add: dlist_def heap_ok_def demo_heap_def)

definition cmp_ptr :: "ptr \<Rightarrow> ptr \<Rightarrow> int" where
  "cmp_ptr a b = int (case a of None \<Rightarrow> 0 | Some n \<Rightarrow> Suc n) - int (case b of None \<Rightarrow> 0 | Some n \<Rightarrow> Suc n)"

text \<open>
  C5: Appending any sequence of data to a well-formed list and then popping from the front until
  it is empty delivers the old data followed by the new, in order, with no undefined behaviour,
  and the size in between is the number of elements: a list used with append and pop_front is a
  FIFO queue.
\<close>

theorem list_queue_fifo:
  assumes "dlist_data h p xs"
  shows "\<exists>p1 h1 p2 h2. push_all bctbx_list_append h p ds = Some (p1, h1) \<and>
    bctbx_list_size h1 p1 = Some (length xs + length ds) \<and>
    pop_n bctbx_list_pop_front (length xs + length ds) h1 p1 = Some (xs @ ds, p2, h2) \<and> p2 = None"
  using assms by (rule clist.queue)

theorem list_queue_fifo_witness:
  "\<exists>p1 h1 p2 h2. push_all bctbx_list_append demo_heap (Some 0) [Some 4, None] = Some (p1, h1) \<and>
    bctbx_list_size h1 p1 = Some 5 \<and>
    pop_n bctbx_list_pop_front 5 h1 p1 = Some ([Some 7, Some 3, Some 7, Some 4, None], p2, h2) \<and>
    p2 = None"
  using list_queue_fifo [OF dlist_dataI [OF demo_dlist refl], of "[Some 4, None]"]
  by (simp add: demo_nodes_def eval_nat_numeral del: push_all.simps pop_n.simps)

text \<open>
  Prepending data to a well-formed list and popping as many elements delivers the new data
  last-in first-out and leaves the old list; removing an element that was just prepended gives
  the old list back.
\<close>

theorem list_stack_lifo:
  assumes "dlist_data h p xs"
  shows "(\<exists>p1 h1 p2 h2. push_all bctbx_list_prepend h p ds = Some (p1, h1) \<and>
      pop_n bctbx_list_pop_front (length ds) h1 p1 = Some (rev ds, p2, h2) \<and> dlist_data h2 p2 xs) \<and>
    (\<exists>p1 h1 p2 h2. bctbx_list_prepend h p d = Some (p1, h1) \<and>
      bctbx_list_remove h1 p1 d = Some (p2, h2) \<and> dlist_data h2 p2 xs)"
  using clist.stack [OF assms] clist.remove_undoes_prepend [OF assms] by blast

theorem list_stack_lifo_witness:
  "(\<exists>p1 h1 p2 h2. push_all bctbx_list_prepend demo_heap (Some 0) [Some 1, Some 2] = Some (p1, h1) \<and>
      pop_n bctbx_list_pop_front 2 h1 p1 = Some ([Some 2, Some 1], p2, h2) \<and>
      dlist_data h2 p2 [Some 7, Some 3, Some 7]) \<and>
    (\<exists>p1 h1 p2 h2. bctbx_list_prepend demo_heap (Some 0) (Some 3) = Some (p1, h1) \<and>
      bctbx_list_remove h1 p1 (Some 3) = Some (p2, h2) \<and> dlist_data h2 p2 [Some 7, Some 3, Some 7])"
  using list_stack_lifo [OF dlist_dataI [OF demo_dlist refl], of "[Some 1, Some 2]" "Some 3"]
  by (simp add: demo_nodes_def eval_nat_numeral del: push_all.simps pop_n.simps)

text \<open>
  \<open>bctbx_list_concat\<close> of two disjoint well-formed lists is the well-formed list of the nodes
  of the first followed by those of the second; the nodes keep their addresses and data, nothing
  is allocated and no other cell changes.  The result is again doubly linked: its last element is
  the last of the second list, and the first element found from it is the head.
\<close>

theorem list_concat_appends:
  assumes xs: "dlist h p xs" and ys: "dlist h q ys" and disj: "addrs xs \<inter> addrs ys = {}"
  shows "\<exists>p' h'. bctbx_list_concat h p q = Some (p', h') \<and> dlist h' p' (xs @ ys) \<and>
    (\<forall>a. a \<notin> addrs xs \<union> addrs ys \<longrightarrow> cells h' a = cells h a) \<and>
    bctbx_list_last_elem h' p' = Some (lastp None (xs @ ys)) \<and>
    bctbx_list_first_elem h' (lastp None (xs @ ys)) = Some p'"
proof -
  obtain p' h' where r: "bctbx_list_concat h p q = Some (p', h')" "dlist h' p' (xs @ ys)"
    "\<And>a. a \<notin> addrs xs \<union> addrs ys \<Longrightarrow> cells h' a = cells h a"
    using bctbx_list_concat_result [OF assms] by (auto elim!: list_resultE)
  moreover have "bctbx_list_first_elem h' (lastp None (xs @ ys)) = Some p'"
    by (rule first_elem_of_last [OF r(2)])
  ultimately show ?thesis
    using last_elem_dlist [OF r(2)] by blast
qed

theorem list_concat_appends_witness:
  "\<exists>p' h'. bctbx_list_concat demo_heap (Some 0) (Some 5) = Some (p', h') \<and>
    dlist h' p' (demo_nodes @ [(5, Some 9)]) \<and>
    (\<forall>a. a \<notin> addrs demo_nodes \<union> addrs [(5, Some 9)] \<longrightarrow> cells h' a = cells demo_heap a) \<and>
    bctbx_list_last_elem h' p' = Some (lastp None (demo_nodes @ [(5, Some 9)])) \<and>
    bctbx_list_first_elem h' (lastp None (demo_nodes @ [(5, Some 9)])) = Some p'"
  by (rule list_concat_appends [OF demo_dlist demo_dlist5]) (simp add: demo_nodes_def)

text \<open>
  \<open>bctbx_list_remove_with_data\<close> takes out exactly the first element whose data pointer is the
  one given, keeps the order and the addresses of the others, and calls the free function exactly
  once when there was such an element and never otherwise.
\<close>

theorem list_remove_first_occurrence:
  assumes l: "dlist h p ns"
  shows "\<exists>p' h'. bctbx_list_remove_with_data h p d (Some f) = Some (p', h') \<and>
    dlist h' p' (erase_first (\<lambda>n. snd n = d) ns) \<and>
    world h' = (if d \<in> snd ` set ns then f d (world h) else world h) \<and>
    (\<forall>a. a \<notin> addrs ns \<longrightarrow> cells h' a = cells h a)"
  using bctbx_list_remove_gen_result [OF l, of d "Some f"]
  unfolding bctbx_list_remove_with_data_def list_result_def option.case by blast

theorem list_remove_first_occurrence_witness:
  "\<exists>p' h'. bctbx_list_remove_with_data demo_heap (Some 0) (Some 7) (Some (\<lambda>d w. w @ [d])) = Some (p', h') \<and>
    dlist h' p' [(1, Some 3), (2, Some 7)] \<and> world h' = [Some 7] \<and>
    (\<forall>a. a \<notin> {0, 1, 2} \<longrightarrow> cells h' a = cells demo_heap a)"
  using list_remove_first_occurrence [OF demo_dlist, of "Some 7" "\<lambda>d w. w @ [d]"]
  by (simp add: demo_nodes_def demo_heap_def)

text \<open>
  C30: \<open>bctbx_list_remove_custom_with_data\<close>, which removes by data pointer while it walks the list
  it is changing, never touches a freed cell and leaves exactly the elements the compare function
  does not match; the free function is called once for each removed element, in list order.
\<close>

theorem list_remove_custom_filters:
  assumes l: "dlist h p ns"
  shows "\<exists>p' h'. bctbx_list_remove_custom_with_data h p cmp (Some f) u = Some (p', h') \<and>
    dlist h' p' (filter (\<lambda>n. cmp (snd n) u \<noteq> 0) ns) \<and>
    world h' = fold f (map snd (filter (\<lambda>n. cmp (snd n) u = 0) ns)) (world h) \<and>
    (\<forall>a. a \<notin> addrs ns \<longrightarrow> cells h' a = cells h a)"
  using remove_custom_loop_result [of h p "[]" ns "\<lambda>d. cmp d u" "Some f"] l dlist_head [OF l]
  unfolding bctbx_list_remove_custom_with_data_def bctbx_list_remove_custom_gen_def
  by (auto elim!: list_resultE)

theorem list_remove_custom_filters_witness:
  "\<exists>p' h'. bctbx_list_remove_custom_with_data demo_heap (Some 0) (\<lambda>d u. if d = u then 0 else 1)
      (Some (\<lambda>d w. w @ [d])) (Some 7) = Some (p', h') \<and>
    dlist h' p' [(1, Some 3)] \<and> world h' = [Some 7, Some 7] \<and>
    (\<forall>a. a \<notin> {0, 1, 2} \<longrightarrow> cells h' a = cells demo_heap a)"
  using list_remove_custom_filters [OF demo_dlist, of "\<lambda>d u. if d = u then 0 else 1" "\<lambda>d w. w @ [d]" "Some 7"]
  by (simp add: demo_nodes_def demo_heap_def)

text \<open>
  On a list sorted for the compare function, \<open>bctbx_list_insert_sorted\<close> adds exactly one
  element with the new data and the list is sorted again; no element is lost or duplicated.
\<close>

theorem list_insert_sorted_sorted:
  assumes l: "dlist h p ns"
    and total: "\<And>a b. cmp a b > 0 \<Longrightarrow> cmp b a \<le> 0"
    and trans: "\<And>a b c. cmp a b \<le> 0 \<Longrightarrow> cmp b c \<le> 0 \<Longrightarrow> cmp a c \<le> 0"
    and sorted: "sorted_wrt (\<lambda>a b. cmp a b \<le> 0) (map snd ns)"
  shows "\<exists>p' h' ns'. bctbx_list_insert_sorted h p d cmp = Some (p', h') \<and> dlist h' p' ns' \<and>
    mset ns' = add_mset (brk h, d) (mset ns) \<and> sorted_wrt (\<lambda>a b. cmp a b \<le> 0) (map snd ns')"
proof -
  let ?ns = "insert_where (\<lambda>n. cmp d (snd n) \<le> 0) (brk h, d) ns"
  have "sorted_wrt (\<lambda>a b. cmp a b \<le> 0) (map snd ?ns)"
    by (rule insert_where_sorted [OF _ _ sorted]) (erule total | erule (1) trans)+
  then show ?thesis
    using bctbx_list_insert_sorted_result [OF l, of d cmp]
    by (auto elim!: list_resultE intro!: exI [of _ ?ns])
qed

theorem list_insert_sorted_sorted_witness:
  "\<exists>p' h' ns'. bctbx_list_insert_sorted demo_heap (Some 5) (Some 3) cmp_ptr = Some (p', h') \<and>
    dlist h' p' ns' \<and> mset ns' = add_mset (6, Some 3) (mset [(5, Some 9)]) \<and>
    sorted_wrt (\<lambda>a b. cmp_ptr a b \<le> 0) (map snd ns')"
proof -
  have "brk demo_heap = 6" by (simp add: demo_heap_def)
  then show ?thesis
    using list_insert_sorted_sorted [OF demo_dlist5, of cmp_ptr "Some 3"]
    by (simp add: cmp_ptr_def)
qed

text \<open>
  \<open>bctbx_list_insert\<close> puts the new element right before the element it is given, wherever that
  is in the list, and appends it when it is given NULL.
\<close>

theorem list_insert_before:
  assumes l: "dlist h p (xs @ (a, e) # ys)"
  shows "(\<exists>p' h'. bctbx_list_insert h p (Some a) d = Some (p', h') \<and>
      dlist h' p' (xs @ (brk h, d) # (a, e) # ys)) \<and>
    (\<exists>p' h'. bctbx_list_insert h p None d = Some (p', h') \<and>
      dlist h' p' (xs @ (a, e) # ys @ [(brk h, d)]))"
proof
  show "\<exists>p' h'. bctbx_list_insert h p (Some a) d = Some (p', h') \<and>
      dlist h' p' (xs @ (brk h, d) # (a, e) # ys)"
    using bctbx_list_insert_result [OF l] by (blast elim: list_resultE)
  show "\<exists>p' h'. bctbx_list_insert h p None d = Some (p', h') \<and>
      dlist h' p' (xs @ (a, e) # ys @ [(brk h, d)])"
    using bctbx_list_append_result [OF l, of d] unfolding bctbx_list_insert_def
    by (auto elim!: list_resultE)
qed

theorem list_insert_before_witness:
  "(\<exists>p' h'. bctbx_list_insert demo_heap (Some 0) (Some 1) None = Some (p', h') \<and>
      dlist h' p' [(0, Some 7), (6, None), (1, Some 3), (2, Some 7)]) \<and>
    (\<exists>p' h'. bctbx_list_insert demo_heap (Some 0) None None = Some (p', h') \<and>
      dlist h' p' [(0, Some 7), (1, Some 3), (2, Some 7), (6, None)])"
  using list_insert_before [of demo_heap "Some 0" "[(0, Some 7)]" 1 "Some 3" "[(2, Some 7)]" None] demo_dlist
  by (simp add: demo_nodes_def demo_heap_def)

text \<open>
  \<open>bctbx_list_free_with_data\<close> releases every cell of the list exactly once and nothing else,
  calls the free function on every datum in list order, and returns NULL.
\<close>

theorem list_free_with_data_releases:
  assumes l: "dlist h p ns"
  shows "\<exists>h'. bctbx_list_free_with_data h p f = Some (None, h') \<and>
    (\<forall>a. cells h' a = (if a \<in> addrs ns then None else cells h a)) \<and>
    world h' = fold f (map snd ns) (world h)"
  using bctbx_list_free_with_data_result [OF l, of f] by simp

theorem list_free_with_data_releases_witness:
  "\<exists>h'. bctbx_list_free_with_data demo_heap (Some 0) (\<lambda>d w. w @ [d]) = Some (None, h') \<and>
    (\<forall>a. cells h' a = (if a \<in> addrs demo_nodes then None else cells demo_heap a)) \<and>
    world h' = [Some 7, Some 3, Some 7]"
  using list_free_with_data_releases [OF demo_dlist, of "\<lambda>d w. w @ [d]"]
  by (simp add: demo_nodes_def demo_heap_def)

text \<open>
  \<open>bctbx_list_copy_with_data\<close> builds a well-formed list in fresh cells whose data are the
  copies, made in list order; the original list is untouched, so that freeing the copy afterwards
  leaves the original well formed.  \<open>bctbx_list_copy_reverse_with_data\<close> does the same in reverse order.
\<close>

theorem list_copy_independent:
  assumes l: "dlist h p ns" and c: "copy_data (Some cf) (map snd ns) (world h) = (ds, w)"
  shows "(\<exists>q h'. bctbx_list_copy_with_data h p (Some cf) = Some (q, h') \<and> dlist_data h' q ds \<and>
      dlist h' p ns \<and> world h' = w \<and>
      (\<exists>h''. bctbx_list_free h' q = Some (None, h'') \<and> dlist h'' p ns)) \<and>
    (\<exists>q h'. bctbx_list_copy_reverse_with_data h p cf = Some (q, h') \<and> dlist_data h' q (rev ds) \<and>
      dlist h' p ns \<and> world h' = w)"
  using copy_then_free [OF assms] copy_reverse_result [OF assms] by blast

theorem list_copy_independent_witness:
  "(\<exists>q h'. bctbx_list_copy_with_data demo_heap (Some 0) (Some (\<lambda>d w. (map_option Suc d, w @ [d]))) = Some (q, h') \<and>
      dlist_data h' q [Some 8, Some 4, Some 8] \<and> dlist h' (Some 0) demo_nodes \<and>
      world h' = [Some 7, Some 3, Some 7] \<and>
      (\<exists>h''. bctbx_list_free h' q = Some (None, h'') \<and> dlist h'' (Some 0) demo_nodes)) \<and>
    (\<exists>q h'. bctbx_list_copy_reverse_with_data demo_heap (Some 0) (\<lambda>d w. (map_option Suc d, w @ [d])) = Some (q, h') \<and>
      dlist_data h' q (rev [Some 8, Some 4, Some 8]) \<and> dlist h' (Some 0) demo_nodes \<and>
      world h' = [Some 7, Some 3, Some 7])"
  by (rule list_copy_independent [OF demo_dlist]) (simp add: demo_nodes_def demo_heap_def)

text \<open>
  Unlinking an element from anywhere in a list leaves a well-formed list of the others and the
  element itself as a list of its own; erasing it also releases its cell.
\<close>

theorem list_unlink_detaches:
  assumes l: "dlist h p (xs @ (a, d) # ys)"
  shows "(\<exists>p' h'. bctbx_list_unlink h p (Some a) = Some (p', h') \<and> dlist h' p' (xs @ ys) \<and>
      dlist h' (Some a) [(a, d)]) \<and>
    (\<exists>p' h'. bctbx_list_erase_link h p (Some a) = Some (p', h') \<and> dlist h' p' (xs @ ys) \<and>
      cells h' a = None)"
  using l by (rule unlink_delete_result)

theorem list_unlink_detaches_witness:
  "(\<exists>p' h'. bctbx_list_unlink demo_heap (Some 0) (Some 1) = Some (p', h') \<and>
      dlist h' p' [(0, Some 7), (2, Some 7)] \<and> dlist h' (Some 1) [(1, Some 3)]) \<and>
    (\<exists>p' h'. bctbx_list_erase_link demo_heap (Some 0) (Some 1) = Some (p', h') \<and>
      dlist h' p' [(0, Some 7), (2, Some 7)] \<and> cells h' 1 = None)"
  using list_unlink_detaches [of demo_heap "Some 0" "[(0, Some 7)]" 1 "Some 3" "[(2, Some 7)]"] demo_dlist
  by (simp add: demo_nodes_def)

text \<open>
  The queries over a well-formed list return what they promise: the size, the datum at an
  index (NULL outside the list, negative indices included), the position of an element and the
  index of a datum (-1 when absent), and the first element holding a datum.
\<close>

theorem list_queries:
  assumes l: "dlist h p ns"
  shows "bctbx_list_size h p = Some (length ns) \<and>
    bctbx_list_nth_data h p i = Some (if 0 \<le> i \<and> i < int (length ns) then snd (ns ! nat i) else None) \<and>
    bctbx_list_position h p (Some a) =
      Some (if a \<in> addrs ns then int (length (takeWhile (\<lambda>x. x \<noteq> a) (map fst ns))) else -1) \<and>
    bctbx_list_index h p d =
      Some (if d \<in> snd ` set ns then int (length (takeWhile (\<lambda>x. x \<noteq> d) (map snd ns))) else -1) \<and>
    bctbx_list_find h p d = Some (map_option fst (find (\<lambda>n. snd n = d) ns))"
  using traverse [OF dlist_fwd [OF l]] unfolding dlist_head [OF l]
  by (simp add: bctbx_list_size_def bctbx_list_nth_data_def bctbx_list_position_def bctbx_list_index_def)

theorem list_queries_witness:
  "bctbx_list_size demo_heap (Some 0) = Some 3 \<and> bctbx_list_nth_data demo_heap (Some 0) 1 = Some (Some 3) \<and>
   bctbx_list_position demo_heap (Some 0) (Some 2) = Some 2 \<and>
   bctbx_list_index demo_heap (Some 0) (Some 3) = Some 1 \<and>
   bctbx_list_find demo_heap (Some 0) (Some 3) = Some (Some 1)"
  using list_queries [OF demo_dlist, of 1 2 "Some 3"] by (simp add: demo_nodes_def)

end
