(* ===== verification/CString.thy ===== *)
theory CString
  imports Prelude
begin

text \<open>
  C strings and character buffers.  A NUL-terminated string is the list of its characters without
  the terminator; \<open>cat s i\<close> reads the terminator at index \<open>length s\<close>.  A heap buffer has a
  size and contents, and a write outside it is undefined.  The libc functions used by the modules
  are defined here as the C standard describes them.
\<close>

definition NUL :: char where "NUL = CHR 0x00"

definition cat :: "string \<Rightarrow> nat \<Rightarrow> char" where
  "cat s i = (if i < length s then s ! i else NUL)"

definition nul_free :: "string \<Rightarrow> bool" where
  "nul_free s \<longleftrightarrow> NUL \<notin> set s"

lemma nul_free_simps [simp]:
  "nul_free []"
  "nul_free (c # s) \<longleftrightarrow> c \<noteq> NUL \<and> nul_free s"
  "nul_free (s @ t) \<longleftrightarrow> nul_free s \<and> nul_free t"
  by (auto simp: nul_free_def)

section \<open>Buffers\<close>

record cbuf =
  bytes :: "nat \<Rightarrow> char"
  size_of :: nat

definition cmalloc :: "nat \<Rightarrow> cbuf" where
  "cmalloc n = \<lparr>bytes = (\<lambda>_. NUL), size_of = n\<rparr>"

definition crealloc :: "cbuf \<Rightarrow> nat \<Rightarrow> cbuf" where
  "crealloc b n = b\<lparr>size_of := n\<rparr>"

definition buf_write :: "cbuf \<Rightarrow> nat \<Rightarrow> string \<Rightarrow> cbuf option" where
  "buf_write b i cs =
     (if i + length cs \<le> size_of b then Some (b\<lparr>bytes := memcpy_to (bytes b) i cs\<rparr>) else None)"

text \<open>\<open>snprintf (b + off, n, ...)\<close> for the formatted text \<open>s\<close>; it returns \<open>length s\<close>.\<close>

definition snprintf_at :: "cbuf \<Rightarrow> nat \<Rightarrow> nat \<Rightarrow> string \<Rightarrow> cbuf option" where
  "snprintf_at b off n s =
     (if n = 0 then Some b else buf_write b off (take (n - 1) s @ [NUL]))"

text \<open>The string a buffer holds: its characters up to the first NUL below \<open>n\<close>.\<close>

definition buf_string :: "cbuf \<Rightarrow> nat \<Rightarrow> string" where
  "buf_string b n = aslice (bytes b) 0 n"

lemma buf_write_size: "buf_write b i cs = Some b' \<Longrightarrow> size_of b' = size_of b"
  by (auto simp: buf_write_def split: if_splits)

lemma snprintf_at_size: "snprintf_at b off n s = Some b' \<Longrightarrow> size_of b' = size_of b"
  by (auto simp: snprintf_at_def buf_write_def split: if_splits)

lemma buf_write_defined [simp]: "buf_write b i cs = None \<longleftrightarrow> \<not> i + length cs \<le> size_of b"
  by (simp add: buf_write_def)

lemma buf_string_extend:
  "buf_write b i cs = Some b' \<Longrightarrow> buf_string b' (i + length cs) = buf_string b i @ cs"
  by (auto simp: buf_write_def buf_string_def aslice_memcpy_extend split: if_splits)

lemma buf_string_prefix:
  "buf_write b i cs = Some b' \<Longrightarrow> n \<le> i \<Longrightarrow> buf_string b' n = buf_string b n"
  by (auto simp: buf_write_def buf_string_def aslice_memcpy_before split: if_splits)

lemma snprintf_extend:
  assumes "snprintf_at b i n s = Some b'" "length s < n"
  shows "buf_string b' (i + length s) = buf_string b i @ s"
proof -
  from assms have w: "buf_write b i (s @ [NUL]) = Some b'"
    by (simp add: snprintf_at_def split: if_splits)
  have "buf_string b' ((i + length s) + 1) = buf_string b i @ s @ [NUL]"
    using buf_string_extend [OF w] by simp
  then have "buf_string b' (i + length s) @ [bytes b' (i + length s)] = (buf_string b i @ s) @ [NUL]"
    by (simp add: buf_string_def aslice_append [of _ 0 "i + length s" 1] aslice_def)
  then show ?thesis by (simp only: append1_eq_conv)
qed

lemma buf_string_realloc [simp]: "buf_string (crealloc b n) i = buf_string b i"
  by (simp add: crealloc_def buf_string_def)

lemma size_of_alloc [simp]: "size_of (crealloc b n) = n" "size_of (cmalloc n) = n"
  by (simp_all add: crealloc_def cmalloc_def)

lemma length_buf_string [simp]: "length (buf_string b n) = n"
  by (simp add: buf_string_def)

lemma buf_string_0 [simp]: "buf_string b 0 = []"
  by (simp add: buf_string_def)

section \<open>Character classes and numbers\<close>

definition isspace :: "char \<Rightarrow> bool" where
  "isspace c \<longleftrightarrow> (of_char c :: nat) = 32 \<or> (9 \<le> (of_char c :: nat) \<and> (of_char c :: nat) \<le> 13)"

definition hex_val :: "char \<Rightarrow> nat option" where
  "hex_val c =
     (let n = (of_char c :: nat) in
      if 48 \<le> n \<and> n \<le> 57 then Some (n - 48)
      else if 97 \<le> n \<and> n \<le> 102 then Some (n - 87)
      else if 65 \<le> n \<and> n \<le> 70 then Some (n - 55)
      else None)"

definition hex_digit :: "nat \<Rightarrow> char" where
  "hex_digit n = char_of (if n < 10 then n + 48 else n + 87 :: nat)"

text \<open>\<open>printf("%02x", n)\<close> for \<open>n < 256\<close>.\<close>

definition print_02x :: "nat \<Rightarrow> string" where
  "print_02x n = [hex_digit (n div 16), hex_digit (n mod 16)]"

text \<open>
  \<open>sscanf(s, "%02x", &tmp)\<close>: white space is skipped, then at most two characters are read: an
  optional sign and hexadecimal digits (a \<open>0x\<close> prefix uses up the width and leaves no digit).
  \<open>None\<close> is a matching failure, which leaves \<open>tmp\<close> uninitialised.
\<close>

definition scan_digits :: "string \<Rightarrow> nat \<Rightarrow> nat option" where
  "scan_digits s width =
     (case (if width = 0 then [] else s) of
        [] \<Rightarrow> None
      | c # s1 \<Rightarrow>
          (case hex_val c of
             None \<Rightarrow> None
           | Some v \<Rightarrow>
               (case (if width = 1 then [] else s1) of
                  [] \<Rightarrow> Some v
                | d # _ \<Rightarrow>
                    if v = 0 \<and> (d = CHR ''x'' \<or> d = CHR ''X'') then None
                    else (case hex_val d of None \<Rightarrow> Some v | Some w \<Rightarrow> Some (16 * v + w)))))"

definition sscanf_02x :: "string \<Rightarrow> 32 word option" where
  "sscanf_02x s =
     (case dropWhile isspace s of
        [] \<Rightarrow> None
      | c # s1 \<Rightarrow>
          if c = CHR ''-'' then map_option (\<lambda>v. - of_nat v) (scan_digits s1 1)
          else if c = CHR ''+'' then map_option of_nat (scan_digits s1 1)
          else map_option of_nat (scan_digits (c # s1) 2))"

lemma hex_digit_val: "n < 16 \<Longrightarrow> hex_val (hex_digit n) = Some n"
  by (auto simp: hex_val_def hex_digit_def Let_def)

lemma hex_digit_class:
  assumes "n < 16"
  shows "\<not> isspace (hex_digit n)" "hex_digit n \<noteq> CHR ''-''" "hex_digit n \<noteq> CHR ''+''"
    "hex_digit n \<noteq> CHR ''x''" "hex_digit n \<noteq> CHR ''X''" "hex_digit n \<noteq> NUL"
proof -
  have c: "(of_char (hex_digit n) :: nat) = (if n < 10 then n + 48 else n + 87)"
    using assms by (auto simp: hex_digit_def)
  show "\<not> isspace (hex_digit n)" using assms by (simp add: isspace_def c)
  show "hex_digit n \<noteq> CHR ''-''" "hex_digit n \<noteq> CHR ''+''" "hex_digit n \<noteq> CHR ''x''"
    "hex_digit n \<noteq> CHR ''X''" "hex_digit n \<noteq> NUL"
    using assms by (auto simp: NUL_def dest!: arg_cong [where f = "of_char :: char \<Rightarrow> nat"] simp: c split: if_splits)
qed

lemma sscanf_print_02x:
  assumes "n < 256"
  shows "sscanf_02x (print_02x n @ rest) = Some (of_nat n)"
proof -
  have d: "n div 16 < 16" "n mod 16 < 16" using assms by auto
  show ?thesis
    using hex_digit_class [OF d(1)] hex_digit_class [OF d(2)] hex_digit_val [OF d(1)] hex_digit_val [OF d(2)]
    by (simp add: sscanf_02x_def print_02x_def scan_digits_def)
qed

section \<open>Searching\<close>

text \<open>\<open>strchr\<close>, \<open>strrchr\<close> and \<open>strstr\<close> as offsets into the string.\<close>

fun strchr :: "string \<Rightarrow> char \<Rightarrow> nat option" where
  "strchr [] c = None"
| "strchr (x # xs) c = (if x = c then Some 0 else map_option Suc (strchr xs c))"

fun strrchr :: "string \<Rightarrow> char \<Rightarrow> nat option" where
  "strrchr [] c = None"
| "strrchr (x # xs) c =
     (case strrchr xs c of Some k \<Rightarrow> Some (Suc k) | None \<Rightarrow> if x = c then Some 0 else None)"

fun strstr :: "string \<Rightarrow> string \<Rightarrow> nat option" where
  "strstr [] pat = (if pat = [] then Some 0 else None)"
| "strstr (x # xs) pat =
     (if take (length pat) (x # xs) = pat then Some 0 else map_option Suc (strstr xs pat))"

lemma strchr_None [simp]: "strchr s c = None \<longleftrightarrow> c \<notin> set s"
  by (induction s) auto

lemma strchr_append: "c \<notin> set s \<Longrightarrow> strchr (s @ c # t) c = Some (length s)"
  by (induction s) auto

lemma strchr_Some:
  "strchr s c = Some k \<Longrightarrow> k < length s \<and> s ! k = c \<and> c \<notin> set (take k s)"
  by (induction s arbitrary: k) (auto split: if_splits simp: less_Suc_eq_0_disj)

lemma strchr_takeWhile:
  "strchr s c = (if c \<in> set s then Some (length (takeWhile (\<lambda>x. x \<noteq> c) s)) else None)"
  by (induction s) auto

lemma takeWhile_sep:
  "c \<notin> set v \<Longrightarrow> takeWhile (\<lambda>x. x \<noteq> c) (v @ c # t) = v"
  "c \<notin> set v \<Longrightarrow> takeWhile (\<lambda>x. x \<noteq> c) v = v"
  by (induction v) auto

lemma strrchr_None [simp]: "strrchr s c = None \<longleftrightarrow> c \<notin> set s"
  by (induction s) (auto split: option.splits)

lemma strrchr_Some:
  "strrchr s c = Some k \<Longrightarrow> k < length s \<and> s ! k = c \<and> c \<notin> set (drop (Suc k) s)"
proof (induction s arbitrary: k)
  case (Cons x s)
  then show ?case
  proof (cases "strrchr s c")
    case None
    with Cons.prems show ?thesis by (auto split: if_splits)
  qed auto
qed simp

lemma strrchr_append: "c \<notin> set t \<Longrightarrow> strrchr (s @ c # t) c = Some (length s)"
proof (induction s)
  case Nil
  then have "strrchr t c = None" by (simp only: strrchr_None not_False_eq_True)
  then show ?case by (simp del: strrchr_None)
qed auto

lemma strstr_Some:
  "strstr s pat = Some n \<Longrightarrow> n + length pat \<le> length s \<and> take (length pat) (drop n s) = pat"
proof (induction s arbitrary: n)
  case (Cons x s)
  show ?case
  proof (cases "take (length pat) (x # s) = pat")
    case True
    then have "length pat \<le> length (x # s)" by (metis length_take min.cobounded1)
    with True Cons.prems show ?thesis by simp
  next
    case False
    then obtain m where "strstr s pat = Some m" "n = Suc m" using Cons.prems by auto
    with Cons.IH show ?thesis by simp
  qed
qed (simp split: if_splits)

lemma strstr_first: "strstr s pat = Some n \<Longrightarrow> i < n \<Longrightarrow> take (length pat) (drop i s) \<noteq> pat"
proof (induction s arbitrary: n i)
  case (Cons x s)
  then show ?case by (cases i) (auto split: if_splits)
qed (simp split: if_splits)

lemma strstr_None: "strstr s pat = None \<Longrightarrow> take (length pat) (drop j s) \<noteq> pat"
  by (induction s arbitrary: j) (auto split: if_splits simp: drop_Cons' split: nat.splits)

end
