(* ===== verification/Parser.thy ===== *)
theory Parser
  imports CString
begin

text \<open>
  The percent escaping of src/parser.c.  Output buffers keep their allocated size, so that a write
  past the end of one is undefined; the noescape table is an array of 257 bytes.
\<close>

unbundle bit_operations_syntax

type_synonym bctbx_noescape_rules_t = "nat \<Rightarrow> byte"

definition rules_size :: nat where "rules_size = 257"

text \<open>A \<open>char\<close> (signed on the supported platforms) as an \<open>int\<close>, and cast to \<open>unsigned int\<close>.\<close>

definition schar :: "char \<Rightarrow> int" where
  "schar c = (let n = (of_char c :: int) in if n < 128 then n else n - 256)"

definition char_uint :: "char \<Rightarrow> nat" where
  "char_uint c = nat (schar c mod 2 ^ 32)"

section \<open>Escaping\<close>

fun escape_loop ::
    "bctbx_noescape_rules_t \<Rightarrow> nat \<Rightarrow> string \<Rightarrow> cbuf \<Rightarrow> nat \<Rightarrow> nat \<Rightarrow> (cbuf \<times> nat) option" where
  "escape_loop noescapes orig_size [] output_buff outbuf_size out_buff_index =
     Some (output_buff, out_buff_index)"
| "escape_loop noescapes orig_size (ch # buff) output_buff outbuf_size out_buff_index =
     (let c = (of_char ch :: nat);
          (outbuf_size, output_buff) =
            (if outbuf_size < out_buff_index + 3
             then (outbuf_size + max (orig_size div 2) 3,
                   crealloc output_buff (outbuf_size + max (orig_size div 2) 3 + 1))
             else (outbuf_size, output_buff))
      in if noescapes c = 1
         then do {
           b \<leftarrow> buf_write output_buff out_buff_index [ch];
           escape_loop noescapes orig_size buff b outbuf_size (out_buff_index + 1) }
         else do {
           _ \<leftarrow> require (out_buff_index \<le> outbuf_size + 1);
           b \<leftarrow> snprintf_at output_buff out_buff_index (outbuf_size + 1 - out_buff_index)
                  (CHR ''%'' # print_02x c);
           escape_loop noescapes orig_size buff b outbuf_size (out_buff_index + 3) })"

definition bctbx_escape :: "string \<Rightarrow> bctbx_noescape_rules_t \<Rightarrow> string option" where
  "bctbx_escape buff noescapes = do {
     (b, idx) \<leftarrow> escape_loop noescapes (length buff) buff (cmalloc (length buff + 1)) (length buff) 0;
     b' \<leftarrow> buf_write b idx [NUL];
     Some (buf_string b' idx) }"

section \<open>Rules\<close>

fun bctbx_noescape_rules_add_list ::
    "bctbx_noescape_rules_t \<Rightarrow> string \<Rightarrow> bctbx_noescape_rules_t option" where
  "bctbx_noescape_rules_add_list noescapes [] = Some noescapes"
| "bctbx_noescape_rules_add_list noescapes (c # allowed) = do {
     _ \<leftarrow> require (char_uint c < rules_size);
     bctbx_noescape_rules_add_list (noescapes(char_uint c := 1)) allowed }"

definition bctbx_noescape_rules_add_range ::
    "bctbx_noescape_rules_t \<Rightarrow> char \<Rightarrow> char \<Rightarrow> bctbx_noescape_rules_t option" where
  "bctbx_noescape_rules_add_range noescapes first_ch last_ch =
     (let n = schar last_ch - schar first_ch + 1 in do {
        _ \<leftarrow> require (0 \<le> n \<and> char_uint first_ch + nat n \<le> rules_size);
        Some (memcpy_to noescapes (char_uint first_ch) (replicate (nat n) 1)) })"

definition bctbx_noescape_rules_add_alfanums ::
    "bctbx_noescape_rules_t \<Rightarrow> bctbx_noescape_rules_t option" where
  "bctbx_noescape_rules_add_alfanums noescapes = do {
     r1 \<leftarrow> bctbx_noescape_rules_add_range noescapes CHR ''0'' CHR ''9'';
     r2 \<leftarrow> bctbx_noescape_rules_add_range r1 CHR ''A'' CHR ''Z'';
     bctbx_noescape_rules_add_range r2 CHR ''a'' CHR ''z'' }"

section \<open>Unescaping\<close>

definition is_escaped_char :: "string \<Rightarrow> bool" where
  "is_escaped_char a \<longleftrightarrow> cat a 0 = CHR ''%'' \<and> cat a 1 \<noteq> NUL \<and> cat a 2 \<noteq> NUL"

text \<open>\<open>bctbx_get_char\<close> returns the character stored in \<open>*out\<close> and the number of characters read.\<close>

definition bctbx_get_char :: "string \<Rightarrow> (char \<times> nat) option" where
  "bctbx_get_char a =
     (if is_escaped_char a
      then map_option (\<lambda>tmp. (char_of (unat tmp mod 256), 3)) (sscanf_02x (tl a))
      else Some (cat a 0, 1))"

lemma bctbx_get_char_progress:
  "bctbx_get_char a = Some (c, n) \<Longrightarrow> n = 1 \<or> (n = 3 \<and> 3 \<le> length a)"
  by (auto simp: bctbx_get_char_def is_escaped_char_def cat_def split: if_splits)

lemma bctbx_get_char_pos: "bctbx_get_char a = Some (c, n) \<Longrightarrow> 0 < n"
  using bctbx_get_char_progress by fastforce

function unescape_loop :: "string \<Rightarrow> cbuf \<Rightarrow> nat \<Rightarrow> (cbuf \<times> nat) option" where
  "unescape_loop buff output_buff out_buff_index =
     (if buff = [] then Some (output_buff, out_buff_index)
      else case bctbx_get_char buff of
        None \<Rightarrow> None
      | Some (c, n) \<Rightarrow>
          (case buf_write output_buff out_buff_index [c] of
             None \<Rightarrow> None
           | Some b \<Rightarrow> unescape_loop (drop n buff) b (out_buff_index + 1)))"
  by pat_completeness auto
termination
  by (relation "measure (\<lambda>(buff, _, _). length buff)") (auto dest: bctbx_get_char_pos)

declare unescape_loop.simps [simp del]

definition bctbx_unescaped_string :: "string \<Rightarrow> string option" where
  "bctbx_unescaped_string buff = do {
     (b, idx) \<leftarrow> unescape_loop buff (cmalloc (length buff + 1)) 0;
     b' \<leftarrow> buf_write b idx [NUL];
     Some (buf_string b' idx) }"

text \<open>
  As in the source, the test for an escaped character is made at \<open>buff + i\<close> after \<open>i\<close> was
  advanced past the character just decoded.
\<close>

function unescape_rules_loop ::
    "bctbx_noescape_rules_t \<Rightarrow> string \<Rightarrow> cbuf \<Rightarrow> nat \<Rightarrow> nat \<Rightarrow> (cbuf \<times> nat) option" where
  "unescape_rules_loop unescape buff output_buff max_len out_buff_index =
     (if buff = [] then Some (output_buff, out_buff_index)
      else case bctbx_get_char buff of
        None \<Rightarrow> None
      | Some (ch, n) \<Rightarrow>
          (case buf_write output_buff out_buff_index [ch] of
             None \<Rightarrow> None
           | Some b \<Rightarrow>
               if unescape (of_char ch) = 0 \<and> is_escaped_char (drop n buff)
               then (if max_len + 3 < out_buff_index then None
                     else case snprintf_at (crealloc b (max_len + 3)) out_buff_index
                            (max_len + 3 - out_buff_index) (CHR ''%'' # print_02x (of_char ch)) of
                       None \<Rightarrow> None
                     | Some b' \<Rightarrow>
                         unescape_rules_loop unescape (drop n buff) b' (max_len + 3)
                           (out_buff_index + 3))
               else unescape_rules_loop unescape (drop n buff) b max_len (out_buff_index + 1)))"
  by pat_completeness auto
termination
  by (relation "measure (\<lambda>(_, buff, _, _, _). length buff)") (auto dest: bctbx_get_char_pos)

declare unescape_rules_loop.simps [simp del]

definition bctbx_unescaped_string_only_chars_in_rules ::
    "string \<Rightarrow> bctbx_noescape_rules_t \<Rightarrow> string option" where
  "bctbx_unescaped_string_only_chars_in_rules buff unescape = do {
     (b, idx) \<leftarrow> unescape_rules_loop unescape buff (cmalloc (length buff + 1)) (length buff + 1) 0;
     b' \<leftarrow> buf_write b idx [NUL];
     Some (buf_string b' idx) }"

section \<open>Escaping is memory safe and computes the character-wise escape\<close>

definition escape_char :: "bctbx_noescape_rules_t \<Rightarrow> char \<Rightarrow> string" where
  "escape_char rules c =
     (if rules (of_char c) = 1 then [c] else CHR ''%'' # print_02x (of_char c))"

text \<open>
  The invariant of the loop: the buffer has room for \<open>outbuf_size\<close> characters and the terminator,
  and the text written so far fits.
\<close>

lemma escape_loop_correct:
  assumes "size_of b = osz + 1" "idx \<le> osz"
  shows "\<exists>b' idx'. escape_loop rules orig s b osz idx = Some (b', idx') \<and>
    buf_string b' idx' = buf_string b idx @ concat (map (escape_char rules) s) \<and> idx' < size_of b'"
  using assms
proof (induction s arbitrary: b osz idx)
  case Nil
  then show ?case by auto
next
  case (Cons ch s)
  define osz1 where "osz1 = (if osz < idx + 3 then osz + max (orig div 2) 3 else osz)"
  define b1 where "b1 = (if osz < idx + 3 then crealloc b (osz1 + 1) else b)"
  have inv: "size_of b1 = osz1 + 1" "idx + 3 \<le> osz1" "buf_string b1 idx = buf_string b idx"
    using Cons.prems by (auto simp: osz1_def b1_def)
  show ?case
  proof (cases "rules (of_char ch) = 1")
    case True
    obtain b2 where w: "buf_write b1 idx [ch] = Some b2"
      using inv by (cases "buf_write b1 idx [ch]") auto
    have "size_of b2 = osz1 + 1" "idx + 1 \<le> osz1"
      using buf_write_size [OF w] inv by auto
    from Cons.IH [OF this] buf_string_extend [OF w] w True inv(3)
    show ?thesis by (auto simp: escape_char_def Let_def osz1_def b1_def)
  next
    case False
    let ?s = "CHR ''%'' # print_02x (of_char ch)"
    have len: "length ?s = 3" by (simp add: print_02x_def)
    obtain b2 where w: "snprintf_at b1 idx (osz1 + 1 - idx) ?s = Some b2"
      using inv len by (cases "snprintf_at b1 idx (osz1 + 1 - idx) ?s") (auto simp: snprintf_at_def)
    have "size_of b2 = osz1 + 1" "idx + 3 \<le> osz1"
      using snprintf_at_size [OF w] inv by auto
    have ext: "buf_string b2 (idx + 3) = buf_string b idx @ ?s"
      using snprintf_extend [OF w, unfolded len] inv by simp
    from Cons.IH [OF \<open>size_of b2 = osz1 + 1\<close> \<open>idx + 3 \<le> osz1\<close>] ext w False inv(2)
    show ?thesis by (auto simp: escape_char_def Let_def osz1_def b1_def bind_require split: if_splits)
  qed
qed

lemma bctbx_escape_eq: "bctbx_escape s rules = Some (concat (map (escape_char rules) s))"
proof -
  obtain b idx where r: "escape_loop rules (length s) s (cmalloc (length s + 1)) (length s) 0 = Some (b, idx)"
    "buf_string b idx = concat (map (escape_char rules) s)" "idx < size_of b"
    using escape_loop_correct [of "cmalloc (length s + 1)" "length s" 0 rules "length s" s] by auto
  obtain b' where w: "buf_write b idx [NUL] = Some b'"
    using r(3) by (cases "buf_write b idx [NUL]") auto
  show ?thesis
    using r w buf_string_prefix [OF w order_refl] by (simp add: bctbx_escape_def)
qed

section \<open>Unescaping is memory safe and inverts escaping\<close>

text \<open>The decoded text, without buffers: \<open>None\<close> only where \<open>sscanf\<close> finds no digits.\<close>

function unescape_spec :: "string \<Rightarrow> string option" where
  "unescape_spec s =
     (if s = [] then Some []
      else case bctbx_get_char s of
        None \<Rightarrow> None
      | Some (c, n) \<Rightarrow> map_option (Cons c) (unescape_spec (drop n s)))"
  by pat_completeness auto
termination
  by (relation "measure length") (auto dest: bctbx_get_char_pos)

declare unescape_spec.simps [simp del]

lemma unescape_spec_Nil [simp]: "unescape_spec [] = Some []"
  by (simp add: unescape_spec.simps)

lemma unescape_spec_step:
  "s \<noteq> [] \<Longrightarrow> bctbx_get_char s = Some (c, n) \<Longrightarrow>
   unescape_spec s = map_option (Cons c) (unescape_spec (drop n s))"
  by (simp add: unescape_spec.simps [of s])

lemma unescape_loop_correct:
  assumes "idx + length s < size_of b"
  shows "case unescape_spec s of
      None \<Rightarrow> unescape_loop s b idx = None
    | Some t \<Rightarrow> \<exists>b'. unescape_loop s b idx = Some (b', idx + length t) \<and>
        buf_string b' (idx + length t) = buf_string b idx @ t \<and> idx + length t < size_of b'"
  using assms
proof (induction s b idx rule: unescape_loop.induct)
  case (1 s b idx)
  show ?case
  proof (cases "s = []")
    case True
    with "1.prems" show ?thesis by (simp add: unescape_loop.simps)
  next
    case False
    show ?thesis
    proof (cases "bctbx_get_char s")
      case None
      with False show ?thesis by (simp add: unescape_loop.simps unescape_spec.simps [of s])
    next
      case (Some cn)
      obtain c n where cn: "cn = (c, n)" by (cases cn)
      note g = Some [unfolded cn]
      have n: "0 < n" "n \<le> length s"
        using bctbx_get_char_progress [OF g] False by (auto simp: Suc_le_eq)
      obtain b' where w: "buf_write b idx [c] = Some b'"
        using "1.prems" False by (cases "buf_write b idx [c]") auto
      have "idx + 1 + length (drop n s) < size_of b'"
        using "1.prems" n buf_write_size [OF w] by simp
      from "1.IH" [OF False g refl w this] buf_string_extend [OF w]
      show ?thesis
        using False g w
        by (auto simp: unescape_loop.simps [of s] unescape_spec_step [OF False g] split: option.splits)
    qed
  qed
qed

lemma unescaped_string_eq: "bctbx_unescaped_string s = unescape_spec s"
proof (cases "unescape_spec s")
  case None
  with unescape_loop_correct [of 0 s "cmalloc (length s + 1)"] show ?thesis
    by (simp add: bctbx_unescaped_string_def)
next
  case (Some t)
  with unescape_loop_correct [of 0 s "cmalloc (length s + 1)"] obtain b where r:
    "unescape_loop s (cmalloc (length s + 1)) 0 = Some (b, length t)"
    "buf_string b (length t) = t" "length t < size_of b" by auto
  then obtain b' where w: "buf_write b (length t) [NUL] = Some b'"
    by (cases "buf_write b (length t) [NUL]") auto
  with Some r buf_string_prefix [OF w order_refl] show ?thesis
    by (simp add: bctbx_unescaped_string_def)
qed

lemma get_char_plain:
  "c \<noteq> CHR ''%'' \<Longrightarrow> bctbx_get_char (c # s) = Some (c, 1)"
  by (simp add: bctbx_get_char_def is_escaped_char_def cat_def)

lemma of_char_less_256 [simp]: "(of_char c :: nat) < 256"
  by (cases c) (auto simp: of_char_def split: prod.splits intro: order_less_le_trans)

lemma get_char_escaped:
  "bctbx_get_char (CHR ''%'' # print_02x (of_char c) @ s) = Some (c, 3)"
proof -
  let ?n = "of_char c :: nat"
  have "?n div 16 < 16" "?n mod 16 < 16"
    using of_char_less_256 [of c] by (simp_all add: less_mult_imp_div_less)
  then have "is_escaped_char (CHR ''%'' # print_02x ?n @ s)"
    using hex_digit_class by (simp add: is_escaped_char_def cat_def print_02x_def)
  moreover have "char_of (unat (of_nat ?n :: 32 word) mod 256) = c"
    using order_less_trans [OF of_char_less_256 [of c], of 4294967296] by (simp add: unat_of_nat)
  ultimately show ?thesis
    using sscanf_print_02x [OF of_char_less_256] by (simp add: bctbx_get_char_def)
qed

lemma unescape_escape_char:
  assumes "rules 37 \<noteq> 1"
  shows "unescape_spec (escape_char rules c @ s) = map_option (Cons c) (unescape_spec s)"
proof (cases "rules (of_char c) = 1")
  case True
  with assms have "c \<noteq> CHR ''%''" by auto
  with True show ?thesis
    using unescape_spec_step [OF _ get_char_plain] by (simp add: escape_char_def)
next
  case False
  have "drop 3 (CHR ''%'' # print_02x (of_char c) @ s) = s" by (simp add: print_02x_def)
  with False unescape_spec_step [OF _ get_char_escaped] show ?thesis
    by (simp add: escape_char_def)
qed

lemma unescape_escape:
  "rules 37 \<noteq> 1 \<Longrightarrow> unescape_spec (concat (map (escape_char rules) s)) = Some s"
  by (induction s) (simp_all add: unescape_escape_char)

section \<open>Unescaping restricted to rules\<close>

definition rules_piece :: "bctbx_noescape_rules_t \<Rightarrow> char \<Rightarrow> string \<Rightarrow> string" where
  "rules_piece unescape c rest =
     (if unescape (of_char c) = 0 \<and> is_escaped_char rest
      then CHR ''%'' # print_02x (of_char c) else [c])"

function unescape_rules_spec :: "bctbx_noescape_rules_t \<Rightarrow> string \<Rightarrow> string option" where
  "unescape_rules_spec rules s =
     (if s = [] then Some []
      else case bctbx_get_char s of
        None \<Rightarrow> None
      | Some (c, n) \<Rightarrow>
          map_option (append (rules_piece rules c (drop n s))) (unescape_rules_spec rules (drop n s)))"
  by pat_completeness auto
termination
  by (relation "measure (\<lambda>(_, s). length s)") (auto dest: bctbx_get_char_pos)

declare unescape_rules_spec.simps [simp del]

lemma unescape_rules_loop_correct:
  assumes "size_of b = max_len" "idx + length s < max_len"
  shows "case unescape_rules_spec rules s of
      None \<Rightarrow> unescape_rules_loop rules s b max_len idx = None
    | Some t \<Rightarrow> \<exists>b'. unescape_rules_loop rules s b max_len idx = Some (b', idx + length t) \<and>
        buf_string b' (idx + length t) = buf_string b idx @ t \<and> idx + length t < size_of b'"
  using assms
proof (induction rules s b max_len idx rule: unescape_rules_loop.induct)
  case (1 rules s b max_len idx)
  show ?case
  proof (cases "s = [] \<or> bctbx_get_char s = None")
    case True
    with "1.prems" show ?thesis
      by (auto simp: unescape_rules_loop.simps unescape_rules_spec.simps [of rules s])
  next
    case False
    then obtain c n where s: "s \<noteq> []" and g: "bctbx_get_char s = Some (c, n)" by auto
    have n: "0 < n" "n \<le> length s"
      using bctbx_get_char_progress [OF g] s by (auto simp: Suc_le_eq)
    obtain b' where w: "buf_write b idx [c] = Some b'"
      using "1.prems" s by (cases "buf_write b idx [c]") auto
    have size: "size_of b' = max_len" using buf_write_size [OF w] "1.prems" by simp
    note spec = unescape_rules_spec.simps [of rules s]
    show ?thesis
    proof (cases "rules (of_char c) = 0 \<and> is_escaped_char (drop n s)")
      case False
      have "idx + 1 + length (drop n s) < max_len" using "1.prems" n by simp
      from "1.IH"(2) [OF s g refl w False size this] buf_string_extend [OF w] s g w False
      show ?thesis
        by (auto simp: unescape_rules_loop.simps [of rules s] spec rules_piece_def split: option.splits)
    next
      case True
      let ?s = "CHR ''%'' # print_02x (of_char c)"
      have len: "length ?s = 3" by (simp add: print_02x_def)
      obtain b2 where w2: "snprintf_at (crealloc b' (max_len + 3)) idx (max_len + 3 - idx) ?s = Some b2"
        using "1.prems" len
        by (cases "snprintf_at (crealloc b' (max_len + 3)) idx (max_len + 3 - idx) ?s")
          (auto simp: snprintf_at_def)
      have ext: "buf_string b2 (idx + 3) = buf_string b idx @ ?s"
        using snprintf_extend [OF w2, unfolded len] "1.prems" buf_string_prefix [OF w order_refl] by simp
      have size2: "size_of b2 = max_len + 3" using snprintf_at_size [OF w2] by simp
      have nlt: "\<not> max_len + 3 < idx" using "1.prems" by simp
      have "idx + 3 + length (drop n s) < max_len + 3" using "1.prems" n by simp
      from "1.IH"(1) [OF s g refl w True nlt w2 size2 this] ext s g w w2 True nlt
      show ?thesis
        by (auto simp: unescape_rules_loop.simps [of rules s] spec rules_piece_def print_02x_def
            numeral_3_eq_3 split: option.splits)
    qed
  qed
qed

lemma unescaped_only_in_rules_eq:
  "bctbx_unescaped_string_only_chars_in_rules s rules = unescape_rules_spec rules s"
proof -
  note c = unescape_rules_loop_correct [of "cmalloc (length s + 1)" "length s + 1" 0 s rules]
  show ?thesis
  proof (cases "unescape_rules_spec rules s")
    case None
    with c show ?thesis by (simp add: bctbx_unescaped_string_only_chars_in_rules_def)
  next
    case (Some t)
    with c obtain b where r:
      "unescape_rules_loop rules s (cmalloc (length s + 1)) (length s + 1) 0 = Some (b, length t)"
      "buf_string b (length t) = t" "length t < size_of b" by auto
    then obtain b' where w: "buf_write b (length t) [NUL] = Some b'"
      by (cases "buf_write b (length t) [NUL]") auto
    with Some r buf_string_prefix [OF w order_refl] show ?thesis
      by (simp add: bctbx_unescaped_string_only_chars_in_rules_def)
  qed
qed

section \<open>Properties\<close>

lemma int_of_char: "int (of_char c) = of_char c"
  by (simp add: of_char_def)

lemma schar_ascii: "(of_char c :: nat) < 128 \<Longrightarrow> schar c = int (of_char c)"
  by (simp add: schar_def Let_def int_of_char [symmetric])

lemma hex_digit_mem: "n < 16 \<Longrightarrow> (of_char (hex_digit n) :: nat) \<in> {48..57} \<union> {97..102}"
  by (auto simp: hex_digit_def)

lemma char_uint_ascii: "(of_char c :: nat) < 128 \<Longrightarrow> char_uint c = of_char c"
  by (simp add: char_uint_def schar_ascii)

lemma escape_char_class:
  assumes "x \<in> set (escape_char rules c)"
  shows "rules (of_char x) = 1 \<or> (of_char x :: nat) \<in> {37} \<union> {48..57} \<union> {97..102}"
proof -
  have "(of_char c :: nat) div 16 < 16" "(of_char c :: nat) mod 16 < 16"
    using of_char_less_256 [of c] by (auto simp: less_mult_imp_div_less)
  note d = this [THEN hex_digit_mem]
  from assms consider "x = c" "rules (of_char c) = 1" | "x = CHR ''%''"
    | "x = hex_digit (of_char c div 16)" | "x = hex_digit (of_char c mod 16)"
    by (auto simp: escape_char_def print_02x_def split: if_splits)
  then show ?thesis using d by cases auto
qed

lemma buf_length_escape: "length (concat (map (escape_char rules) s)) \<le> 3 * length s"
  by (induction s) (auto simp: escape_char_def print_02x_def)

lemma add_list_sets:
  assumes "\<forall>c\<in>set cs. (of_char c :: nat) < 128"
  shows "bctbx_noescape_rules_add_list rules cs =
    Some (\<lambda>n. if n \<in> of_char ` set cs then 1 else rules n)"
  using assms
proof (induction cs arbitrary: rules)
  case Nil then show ?case by simp
next
  case (Cons c cs)
  then have "char_uint c = of_char c" by (simp add: char_uint_ascii)
  with Cons show ?case by (auto simp: rules_size_def fun_eq_iff)
qed

lemma add_range_sets:
  assumes "(of_char a :: nat) \<le> of_char b" "(of_char b :: nat) < 128"
  shows "bctbx_noescape_rules_add_range rules a b =
    Some (\<lambda>n. if of_char a \<le> n \<and> n \<le> of_char b then 1 else rules n)"
proof -
  have u: "char_uint a = of_char a" using assms by (simp add: char_uint_ascii)
  have n: "schar b - schar a + 1 = int (of_char b + 1 - of_char a)"
    using assms schar_ascii [of a] schar_ascii [of b] by (simp add: of_nat_diff)
  show ?thesis
    using assms unfolding bctbx_noescape_rules_add_range_def Let_def n u nat_int
    by (auto simp: rules_size_def memcpy_to_def fun_eq_iff simp del: of_nat_diff)
qed

text \<open>
  C33: Whenever the percent sign itself is not exempted, unescaping the escaped form of a string
  gives the string back; both calls return, the escaped form is at most three times as long, and
  it holds only exempted characters, percent signs and lower-case hexadecimal digits.
\<close>

theorem escape_roundtrip:
  assumes "rules 37 \<noteq> 1"
  shows "\<exists>e. bctbx_escape s rules = Some e \<and> bctbx_unescaped_string e = Some s \<and>
    length e \<le> 3 * length s \<and>
    (\<forall>c \<in> set e. rules (of_char c) = 1 \<or> (of_char c :: nat) \<in> {37} \<union> {48..57} \<union> {97..102})"
proof (intro exI conjI)
  show "bctbx_escape s rules = Some (concat (map (escape_char rules) s))"
    by (rule bctbx_escape_eq)
  show "bctbx_unescaped_string (concat (map (escape_char rules) s)) = Some s"
    using assms by (simp add: unescaped_string_eq unescape_escape)
  show "length (concat (map (escape_char rules) s)) \<le> 3 * length s"
    by (rule buf_length_escape)
  show "\<forall>c \<in> set (concat (map (escape_char rules) s)).
      rules (of_char c) = 1 \<or> (of_char c :: nat) \<in> {37} \<union> {48..57} \<union> {97..102}"
    using escape_char_class by fastforce
qed

theorem escape_roundtrip_witness:
  "\<exists>e. bctbx_escape ''50%;ok'' (\<lambda>_. 0) = Some e \<and> bctbx_unescaped_string e = Some ''50%;ok'' \<and>
    length e \<le> 18 \<and> (\<forall>c \<in> set e. (of_char c :: nat) \<in> {37} \<union> {48..57} \<union> {97..102})"
  using escape_roundtrip [of "\<lambda>_. 0" "''50%;ok''"] by simp

text \<open>
  The rule builders exempt exactly the characters they are told to and keep the others: a list
  or a range of ASCII characters, and for \<open>add_alfanums\<close> the digits and the letters.
\<close>

theorem noescape_rules_exact:
  assumes "\<forall>c\<in>set cs. (of_char c :: nat) < 128"
    and "(of_char a :: nat) \<le> of_char b" "(of_char b :: nat) < 128"
  shows "bctbx_noescape_rules_add_list rules cs =
      Some (\<lambda>n. if n \<in> of_char ` set cs then 1 else rules n) \<and>
    bctbx_noescape_rules_add_range rules a b =
      Some (\<lambda>n. if of_char a \<le> n \<and> n \<le> of_char b then 1 else rules n) \<and>
    bctbx_noescape_rules_add_alfanums rules =
      Some (\<lambda>n. if n \<in> {48..57} \<union> {65..90} \<union> {97..122} then 1 else rules n)"
  using add_list_sets [OF assms(1)] add_range_sets [OF assms(2,3)]
  by (auto simp: bctbx_noescape_rules_add_alfanums_def add_range_sets fun_eq_iff)

theorem noescape_rules_exact_witness:
  "bctbx_noescape_rules_add_list (\<lambda>_. 0) ''-_'' =
      Some (\<lambda>n. if n \<in> of_char ` set ''-_'' then 1 else 0) \<and>
    bctbx_noescape_rules_add_range (\<lambda>_. 0) CHR ''a'' CHR ''f'' =
      Some (\<lambda>n. if of_char CHR ''a'' \<le> n \<and> n \<le> of_char CHR ''f'' then 1 else 0) \<and>
    bctbx_noescape_rules_add_alfanums (\<lambda>_. 0) =
      Some (\<lambda>n. if n \<in> {48..57} \<union> {65..90} \<union> {97..122} then 1 else 0)"
  by (rule noescape_rules_exact) simp_all

text \<open>
  \<open>bctbx_unescaped_string_only_chars_in_rules\<close> looks for the next escape where it should look
  at the one it just decoded: with no character in the rules, an escaped character at the end of
  the string is still unescaped, and a plain character in front of an escape gets escaped.
\<close>

theorem unescape_rules_off_by_one:
  "bctbx_unescaped_string_only_chars_in_rules ''%41'' (\<lambda>_. 0) = Some ''A'' \<and>
   bctbx_unescaped_string_only_chars_in_rules ''a%41'' (\<lambda>_. 0) = Some ''%61A''"
  unfolding unescaped_only_in_rules_eq by code_simp

end
