(* ===== verification/CInt.thy ===== *)
theory CInt
  imports CString
begin

text \<open>
  C integers and their decimal notation.  A signed value is an \<open>int\<close> that is checked against its
  range after every operation, since signed overflow is undefined; unsigned values are words.
  Division truncates towards zero.
\<close>

section \<open>Signed arithmetic\<close>

definition i32 :: "int \<Rightarrow> int option" where
  "i32 n = (if - (2 ^ 31) \<le> n \<and> n < 2 ^ 31 then Some n else None)"

definition i64 :: "int \<Rightarrow> int option" where
  "i64 n = (if - (2 ^ 63) \<le> n \<and> n < 2 ^ 63 then Some n else None)"

definition cdiv :: "int \<Rightarrow> int \<Rightarrow> int" where
  "cdiv a b = sgn a * sgn b * (\<bar>a\<bar> div \<bar>b\<bar>)"

definition cmod :: "int \<Rightarrow> int \<Rightarrow> int" where
  "cmod a b = a - b * cdiv a b"

text \<open>A wider integer converted to \<open>int32_t\<close>: the low 32 bits.\<close>

definition to_i32 :: "int \<Rightarrow> int" where
  "to_i32 n = sint (word_of_int n :: 32 word)"

lemma i32_Some [simp]: "- (2 ^ 31) \<le> n \<Longrightarrow> n < 2 ^ 31 \<Longrightarrow> i32 n = Some n"
  by (simp add: i32_def)

lemma i64_Some [simp]: "- (2 ^ 63) \<le> n \<Longrightarrow> n < 2 ^ 63 \<Longrightarrow> i64 n = Some n"
  by (simp add: i64_def)

lemma i32_SomeD: "i32 n = Some m \<Longrightarrow> m = n \<and> - (2 ^ 31) \<le> n \<and> n < 2 ^ 31"
  by (simp add: i32_def split: if_splits)

lemma i64_SomeD: "i64 n = Some m \<Longrightarrow> m = n \<and> - (2 ^ 63) \<le> n \<and> n < 2 ^ 63"
  by (simp add: i64_def split: if_splits)

lemma to_i32_small: "0 \<le> n \<Longrightarrow> n < 2 ^ 31 \<Longrightarrow> to_i32 n = n"
  by (simp add: to_i32_def sint_sbintrunc' signed_take_bit_int_eq_self)

lemma cdiv_nonneg: "0 \<le> a \<Longrightarrow> 0 < b \<Longrightarrow> cdiv a b = a div b"
  by (cases "a = 0") (simp_all add: cdiv_def)

lemma cdiv_neg: "a < 0 \<Longrightarrow> 0 < b \<Longrightarrow> cdiv a b = - ((- a) div b)"
  by (simp add: cdiv_def)

lemma cmod_nonneg: "0 \<le> a \<Longrightarrow> 0 < b \<Longrightarrow> cmod a b = a mod b"
  by (simp add: cmod_def cdiv_nonneg minus_mult_div_eq_mod)

lemma cmod_neg: "a < 0 \<Longrightarrow> 0 < b \<Longrightarrow> cmod a b = - ((- a) mod b)"
  using minus_mult_div_eq_mod [of "- a" b] by (simp add: cmod_def cdiv_neg)

lemma cdiv_cmod: "a = b * cdiv a b + cmod a b"
  by (simp add: cmod_def)

lemma cmod_bounds:
  assumes "0 < b"
  shows "- b < cmod a b" "cmod a b < b" "0 \<le> a \<Longrightarrow> 0 \<le> cmod a b" "a \<le> 0 \<Longrightarrow> cmod a b \<le> 0"
    "0 \<le> a \<Longrightarrow> 0 \<le> cdiv a b" "a \<le> 0 \<Longrightarrow> cdiv a b \<le> 0"
proof -
  note m = pos_mod_bound [OF assms] pos_mod_sign [OF assms]
  have "- b < cmod a b \<and> cmod a b < b"
  proof (cases "0 \<le> a")
    case True
    show ?thesis unfolding cmod_nonneg [OF True assms] using m(1) [of a] m(2) [of a] assms by linarith
  next
    case False
    then have neg: "a < 0" by simp
    show ?thesis unfolding cmod_neg [OF neg assms] using m(1) [of "- a"] m(2) [of "- a"] assms by linarith
  qed
  then show "- b < cmod a b" "cmod a b < b" by auto
  show "0 \<le> a \<Longrightarrow> 0 \<le> cmod a b" "0 \<le> a \<Longrightarrow> 0 \<le> cdiv a b"
    using assms by (simp_all add: cmod_nonneg cdiv_nonneg pos_imp_zdiv_nonneg_iff)
  show "a \<le> 0 \<Longrightarrow> cmod a b \<le> 0"
    using assms by (cases "a = 0") (simp_all add: cmod_nonneg cmod_neg)
  show "a \<le> 0 \<Longrightarrow> cdiv a b \<le> 0"
    using assms by (cases "a = 0") (simp_all add: cdiv_nonneg cdiv_neg pos_imp_zdiv_nonneg_iff)
qed

section \<open>Decimal notation\<close>

definition dec_digit :: "nat \<Rightarrow> char" where
  "dec_digit n = char_of (n + 48 :: nat)"

fun show_nat :: "nat \<Rightarrow> string" where
  "show_nat n = (if n < 10 then [dec_digit n] else show_nat (n div 10) @ [dec_digit (n mod 10)])"

declare show_nat.simps [simp del]

definition isdigit :: "char \<Rightarrow> bool" where
  "isdigit c \<longleftrightarrow> 48 \<le> (of_char c :: nat) \<and> (of_char c :: nat) \<le> 57"

definition dec_val :: "string \<Rightarrow> nat" where
  "dec_val ds = foldl (\<lambda>a c. 10 * a + (of_char c - 48)) 0 ds"

text \<open>
  \<open>strtol(p, &end, 10)\<close>: the value, saturated to \<open>long\<close>, and the rest of the string; with no digit
  the value is 0 and nothing is consumed.
\<close>

definition strtol10 :: "string \<Rightarrow> int \<times> string" where
  "strtol10 s =
     (let t = dropWhile isspace s;
          neg = (t \<noteq> [] \<and> hd t = CHR ''-'');
          u = (if t \<noteq> [] \<and> (hd t = CHR ''-'' \<or> hd t = CHR ''+'') then tl t else t);
          ds = takeWhile isdigit u;
          v = int (dec_val ds);
          n = (if neg then max (- (2 ^ 63)) (- v) else min (2 ^ 63 - 1) v)
      in if ds = [] then (0, s) else (n, dropWhile isdigit u))"

lemma isdigit_dec_digit [simp]: "n < 10 \<Longrightarrow> isdigit (dec_digit n)"
  by (simp add: isdigit_def dec_digit_def)

lemma of_char_dec_digit [simp]: "n < 10 \<Longrightarrow> (of_char (dec_digit n) :: nat) = n + 48"
  by (simp add: dec_digit_def)

lemma isdigit_class:
  "isdigit c \<Longrightarrow> \<not> isspace c" "isdigit c \<Longrightarrow> c \<noteq> CHR ''-''" "isdigit c \<Longrightarrow> c \<noteq> CHR ''+''"
  "isdigit c \<Longrightarrow> c \<noteq> NUL"
  by (auto simp: isdigit_def isspace_def NUL_def)

lemma show_nat_digits: "\<forall>c \<in> set (show_nat n). isdigit c"
  by (induction n rule: show_nat.induct) (subst show_nat.simps, auto)

lemma show_nat_nonempty [simp]: "show_nat n \<noteq> []"
  by (subst show_nat.simps) simp

lemma dec_val_snoc: "dec_val (ds @ [d]) = 10 * dec_val ds + (of_char d - 48)"
  by (simp add: dec_val_def)

lemma dec_val_show_nat [simp]: "dec_val (show_nat n) = n"
proof (induction n rule: show_nat.induct)
  case (1 n)
  show ?case
    by (subst show_nat.simps) (use 1 in \<open>auto simp: dec_val_snoc dec_val_def [of "[_]"]\<close>)
qed

lemma show_nat_inj: "show_nat m = show_nat n \<Longrightarrow> m = n"
  by (metis dec_val_show_nat)

lemma strtol10_show_nat:
  assumes "rest = [] \<or> \<not> isdigit (hd rest)" "n < 2 ^ 63"
  shows "strtol10 (show_nat n @ rest) = (int n, rest)"
proof -
  note d = show_nat_digits [of n]
  have hd: "isdigit (hd (show_nat n))" using d by (simp add: list.set_sel)
  have t: "dropWhile isspace (show_nat n @ rest) = show_nat n @ rest"
    using hd isdigit_class(1) by (cases "show_nat n") auto
  have tk: "takeWhile isdigit (show_nat n @ rest) = show_nat n"
    using assms(1) d by (cases rest) (auto simp: takeWhile_append)
  have dr: "dropWhile isdigit (show_nat n @ rest) = rest"
    using assms(1) d by (cases rest) (auto simp: dropWhile_append)
  have h: "hd (show_nat n @ rest) = hd (show_nat n)" by simp
  show ?thesis
    unfolding strtol10_def Let_def t h
    using isdigit_class(2,3) [OF hd] assms(2) by (simp add: tk dr)
qed

lemma strtol10_length: "length (snd (strtol10 s)) \<le> length s"
proof -
  define t where "t = dropWhile isspace s"
  have "length t \<le> length s" by (simp add: t_def length_dropWhile_le)
  moreover have "length (dropWhile isdigit u) \<le> length u" for u by (rule length_dropWhile_le)
  ultimately show ?thesis
    unfolding strtol10_def Let_def t_def [symmetric]
    by (auto intro: order_trans [OF length_dropWhile_le])
qed

end
