(* ===== verification/ParamString.thy ===== *)
theory ParamString
  imports CInt
begin

text \<open>
  Parameter strings \<open>name=value;name=value\<close> of src/param_string.c.  Pointers into the string are
  indices of it.  The two search loops are partial functions: with an empty parameter name they do
  not return.
\<close>

definition strstr_at :: "string \<Rightarrow> nat \<Rightarrow> string \<Rightarrow> nat option" where
  "strstr_at s i pat = map_option (\<lambda>k. i + k) (strstr (drop i s) pat)"

definition strchr_at :: "string \<Rightarrow> nat \<Rightarrow> char \<Rightarrow> nat option" where
  "strchr_at s i c = map_option (\<lambda>k. i + k) (strchr (drop i s) c)"

partial_function (option) find_param_loop :: "string \<Rightarrow> nat \<Rightarrow> string \<Rightarrow> nat \<Rightarrow> nat option option" where
  "find_param_loop s fmtp param pos =
     (case strstr_at s pos param of
        None \<Rightarrow> Some None
      | Some p \<Rightarrow>
          if p = fmtp \<and> cat s (p + length param) = CHR ''='' then Some (Some p)
          else if p \<noteq> fmtp \<and> (cat s (p - 1) = CHR '';'' \<or> cat s (p - 1) = CHR '' '') \<and>
                  cat s (p + length param) = CHR ''='' then Some (Some p)
          else find_param_loop s fmtp param (p + length param))"

definition find_param_occurence_of :: "string \<Rightarrow> nat \<Rightarrow> string \<Rightarrow> nat option option" where
  "find_param_occurence_of s fmtp param = find_param_loop s fmtp param fmtp"

partial_function (option) find_last_loop ::
    "string \<Rightarrow> string \<Rightarrow> nat \<Rightarrow> nat option \<Rightarrow> nat option option" where
  "find_last_loop s param pos lastpos = do {
     r \<leftarrow> find_param_occurence_of s pos param;
     case r of
       None \<Rightarrow> Some lastpos
     | Some p \<Rightarrow> find_last_loop s param (p + length param) (Some p) }"

definition find_last_param_occurence_of :: "string \<Rightarrow> string \<Rightarrow> nat option option" where
  "find_last_param_occurence_of s param = find_last_loop s param 0 None"

text \<open>
  The result is the returned \<open>bool_t\<close> and the string left in \<open>result\<close>, a buffer of \<open>result_len\<close>
  bytes.  A negative count passed to \<open>strncpy\<close> is undefined.
\<close>

definition bctbx_param_string_get_value ::
    "string \<Rightarrow> string \<Rightarrow> nat \<Rightarrow> (bool \<times> string) option" where
  "bctbx_param_string_get_value paramString param_name result_len = do {
     pos \<leftarrow> find_last_param_occurence_of paramString param_name;
     case pos of
       None \<Rightarrow> Some (False, [])
     | Some p \<Rightarrow>
         (case strchr_at paramString p CHR ''='' of
            None \<Rightarrow> Some (False, [])
          | Some equal \<Rightarrow>
              (let e_end = (case strchr_at paramString (equal + 1) CHR '';'' of
                             None \<Rightarrow> length paramString | Some e \<Rightarrow> e);
                   copied = min (to_i32 (int result_len - 1)) (to_i32 (int e_end - int (equal + 1)))
               in do {
                 _ \<leftarrow> require (0 \<le> copied \<and> copied < int result_len);
                 Some (True, take (nat copied) (drop (equal + 1) paramString)) })) }"

definition bctbx_param_string_get_bool_value :: "string \<Rightarrow> string \<Rightarrow> bool option" where
  "bctbx_param_string_get_bool_value paramString param_name = do {
     (res, result) \<leftarrow> bctbx_param_string_get_value paramString param_name 5;
     Some (res \<and> result = ''true'') }"

section \<open>The occurrences the searches recognise\<close>

text \<open>
  \<open>matches s param p\<close>: the name starts at \<open>p\<close>, is followed by \<open>=\<close> and is not the tail of another
  name.  A plain name is not empty and holds no separator.
\<close>

definition matches :: "string \<Rightarrow> string \<Rightarrow> nat \<Rightarrow> bool" where
  "matches s param p \<longleftrightarrow>
     take (length param) (drop p s) = param \<and> p + length param < length s \<and>
     s ! (p + length param) = CHR ''='' \<and>
     (p = 0 \<or> s ! (p - 1) = CHR '';'' \<or> s ! (p - 1) = CHR '' '')"

definition plain_name :: "string \<Rightarrow> bool" where
  "plain_name k \<longleftrightarrow> k \<noteq> [] \<and> nul_free k \<and> CHR ''='' \<notin> set k \<and> CHR '';'' \<notin> set k \<and> CHR '' '' \<notin> set k"

lemma strstr_at_Some:
  assumes "strstr_at s i pat = Some p"
  shows "i \<le> p" "take (length pat) (drop p s) = pat"
    "\<And>j. i \<le> j \<Longrightarrow> j < p \<Longrightarrow> take (length pat) (drop j s) \<noteq> pat"
proof -
  from assms obtain k where k: "strstr (drop i s) pat = Some k" "p = i + k"
    by (auto simp: strstr_at_def)
  note k' = strstr_Some [OF k(1)] strstr_first [OF k(1)]
  show "i \<le> p" "take (length pat) (drop p s) = pat" using k k' by (auto simp: add.commute)
  show "take (length pat) (drop j s) \<noteq> pat" if "i \<le> j" "j < p" for j
  proof -
    from that have "j - i < k" "drop j s = drop (j - i) (drop i s)" using k(2) by auto
    then show ?thesis using k' by metis
  qed
qed

lemma strstr_at_None:
  assumes "strstr_at s i pat = None" "i \<le> j"
  shows "take (length pat) (drop j s) \<noteq> pat"
  using assms strstr_None [of "drop i s" pat "j - i"] by (auto simp: strstr_at_def)

lemma cat_eq: "c \<noteq> NUL \<Longrightarrow> cat s i = c \<longleftrightarrow> i < length s \<and> s ! i = c"
  by (auto simp: cat_def)

lemma separators_not_NUL [simp]:
  "CHR ''='' \<noteq> NUL" "CHR '';'' \<noteq> NUL" "CHR '' '' \<noteq> NUL"
  by (simp_all add: NUL_def)

lemma occurs_nth:
  assumes "take (length k) (drop q s) = k" "i < length k"
  shows "s ! (q + i) = k ! i"
proof -
  have "q + i < length s"
    using arg_cong [OF assms(1), of length] assms(2) by (simp add: min_def split: if_splits)
  moreover have "take (length k) (drop q s) ! i = k ! i" by (simp only: assms(1))
  ultimately show ?thesis using assms(2) by simp
qed

lemma matches_not_inside:
  assumes "plain_name param" "matches s param p" "q < p" "take (length param) (drop q s) = param"
  shows "q + length param \<le> p"
proof (rule ccontr)
  assume "\<not> q + length param \<le> p"
  with assms(3) have i: "p - 1 - q < length param" "p - 1 = q + (p - 1 - q)" by auto
  from occurs_nth [OF assms(4) i(1)] i have "s ! (p - 1) \<in> set param" by simp
  with assms(1,2,3) show False by (auto simp: plain_name_def matches_def)
qed

text \<open>
  A search starts at the beginning of the string, or where no occurrence of the name starts: there
  the first comparison of the loop (\<open>pos == fmtp\<close>) agrees with \<open>matches\<close>.
\<close>

definition start_ok :: "string \<Rightarrow> string \<Rightarrow> nat \<Rightarrow> bool" where
  "start_ok s param i \<longleftrightarrow> i = 0 \<or> take (length param) (drop i s) \<noteq> param"

definition first_match :: "string \<Rightarrow> string \<Rightarrow> nat \<Rightarrow> nat option \<Rightarrow> bool" where
  "first_match s param i r \<longleftrightarrow>
     (case r of None \<Rightarrow> \<forall>p\<ge>i. \<not> matches s param p
      | Some p \<Rightarrow> i \<le> p \<and> matches s param p \<and> (\<forall>q. i \<le> q \<longrightarrow> q < p \<longrightarrow> \<not> matches s param q))"

lemma find_param_loop_correct:
  assumes k: "plain_name param" and st: "start_ok s param fmtp" and "fmtp \<le> pos"
  shows "\<exists>r. find_param_loop s fmtp param pos = Some r \<and> first_match s param pos r"
  using assms(3)
proof (induction "Suc (length s) - pos" arbitrary: pos rule: less_induct)
  case less
  have len: "0 < length param" using k by (simp add: plain_name_def)
  show ?case
  proof (cases "strstr_at s pos param")
    case None
    then have "\<forall>p\<ge>pos. \<not> matches s param p"
      using strstr_at_None by (auto simp: matches_def)
    with None show ?thesis
      by (auto simp: find_param_loop.simps [of s fmtp param pos] first_match_def)
  next
    case (Some p)
    note p = strstr_at_Some [OF Some]
    have before: "\<not> matches s param q" if "pos \<le> q" "q < p" for q
      using p(3) [OF that] by (simp add: matches_def)
    have test: "(p = fmtp \<and> cat s (p + length param) = CHR ''='' \<or>
        p \<noteq> fmtp \<and> (cat s (p - 1) = CHR '';'' \<or> cat s (p - 1) = CHR '' '') \<and>
        cat s (p + length param) = CHR ''='') \<longleftrightarrow> matches s param p"
      using st p(1,2) less.prems by (auto simp: matches_def start_ok_def cat_eq)
    show ?thesis
    proof (cases "matches s param p")
      case True
      with test have "find_param_loop s fmtp param pos = Some (Some p)"
        using Some by (subst find_param_loop.simps) auto
      with True p(1) before show ?thesis by (auto simp: first_match_def)
    next
      case False
      with test have unf: "find_param_loop s fmtp param pos = find_param_loop s fmtp param (p + length param)"
        using Some by (subst find_param_loop.simps) auto
      have "length (take (length param) (drop p s)) = length param" by (simp only: p(2))
      then have "length param \<le> length s - p" by (simp add: min_def split: if_splits)
      then have "p + length param \<le> length s" using len by linarith
      then have "Suc (length s) - (p + length param) < Suc (length s) - pos" "fmtp \<le> p + length param"
        using p(1) len less.prems by linarith+
      from less.hyps [OF this] obtain r where r:
        "find_param_loop s fmtp param (p + length param) = Some r"
        "first_match s param (p + length param) r" by blast
      have skip: "\<not> matches s param q" if "pos \<le> q" "q < p + length param" for q
        using before [OF that(1)] False matches_not_inside [OF k _ _ p(2)] that(2)
        by (metis linorder_neqE_nat linorder_not_le)
      have "first_match s param pos r"
        using r(2) skip p(1) len by (auto simp: first_match_def split: option.splits)
          (metis linorder_not_le)+
      with r(1) unf show ?thesis by auto
    qed
  qed
qed

definition last_match :: "string \<Rightarrow> string \<Rightarrow> nat option \<Rightarrow> bool" where
  "last_match s param r \<longleftrightarrow>
     (case r of None \<Rightarrow> \<forall>p. \<not> matches s param p
      | Some p \<Rightarrow> matches s param p \<and> (\<forall>q>p. \<not> matches s param q))"

lemma find_last_loop_correct:
  assumes k: "plain_name param" and "start_ok s param pos" "pos = 0 \<longleftrightarrow> lastpos = None"
    "\<And>p. lastpos = Some p \<Longrightarrow> pos = p + length param \<and> matches s param p"
  shows "\<exists>r. find_last_loop s param pos lastpos = Some r \<and> last_match s param r"
  using assms(2-)
proof (induction "Suc (length s) - pos" arbitrary: pos lastpos rule: less_induct)
  case less
  have len: "0 < length param" using k by (simp add: plain_name_def)
  obtain r where r: "find_param_occurence_of s pos param = Some r" "first_match s param pos r"
    using find_param_loop_correct [OF k less.prems(1) order_refl]
    by (auto simp: find_param_occurence_of_def)
  show ?case
  proof (cases r)
    case None
    have "last_match s param lastpos"
    proof (cases lastpos)
      case None
      with \<open>r = None\<close> r(2) less.prems(2) show ?thesis by (auto simp: last_match_def first_match_def)
    next
      case (Some p)
      with less.prems(3) have p: "pos = p + length param" "matches s param p" by auto
      have "\<not> matches s param q" if "p < q" for q
      proof
        assume m: "matches s param q"
        have "p + length param \<le> q"
          by (rule matches_not_inside [OF k m that]) (use p in \<open>simp add: matches_def\<close>)
        with m p \<open>r = None\<close> r(2) show False by (simp add: first_match_def)
      qed
      with Some p show ?thesis by (simp add: last_match_def)
    qed
    with r(1) None show ?thesis by (subst find_last_loop.simps) auto
  next
    case (Some p)
    with r(2) have p: "pos \<le> p" "matches s param p" by (auto simp: first_match_def)
    then have "p + length param < length s" "s ! (p + length param) = CHR ''=''"
      by (auto simp: matches_def)
    then have i: "p + length param < length s" "s ! (p + length param) = CHR ''=''" by auto
    have "take (length param) (drop (p + length param) s) \<noteq> param"
    proof
      assume eq: "take (length param) (drop (p + length param) s) = param"
      have "take (length param) (drop (p + length param) s) ! 0 = CHR ''=''"
        using i len by simp
      with eq len have "CHR ''='' \<in> set param" by (metis nth_mem)
      with k show False by (simp add: plain_name_def)
    qed
    then have "start_ok s param (p + length param)" by (simp add: start_ok_def)
    moreover have "Suc (length s) - (p + length param) < Suc (length s) - pos"
      using p(1) len i(1) by linarith
    moreover have "p + length param = 0 \<longleftrightarrow> Some p = None" using len by simp
    moreover have "p + length param = q + length param \<and> matches s param q" if "Some p = Some q" for q
      using that p(2) by simp
    ultimately obtain r' where "find_last_loop s param (p + length param) (Some p) = Some r'"
      "last_match s param r'"
      using less.hyps [of "p + length param" "Some p"] by blast
    with r(1) Some show ?thesis by (subst find_last_loop.simps) auto
  qed
qed

lemma find_last_correct:
  "plain_name param \<Longrightarrow>
   \<exists>r. find_last_param_occurence_of s param = Some r \<and> last_match s param r"
  unfolding find_last_param_occurence_of_def
  by (rule find_last_loop_correct) (simp_all add: start_ok_def)

section \<open>Rendered parameter lists\<close>

fun render :: "(string \<times> string) list \<Rightarrow> string" where
  "render [] = []"
| "render [(k, v)] = k @ CHR ''='' # v"
| "render ((k, v) # kvs) = k @ CHR ''='' # v @ CHR '';'' # render kvs"

definition plain_value :: "string \<Rightarrow> bool" where
  "plain_value v \<longleftrightarrow> nul_free v \<and> CHR '';'' \<notin> set v \<and> CHR '' '' \<notin> set v"

lemma take_drop_eq_append:
  assumes "take (length k) (drop p s) = k" "p + length k < length s"
  shows "s = take p s @ k @ s ! (p + length k) # drop (Suc (p + length k)) s"
proof -
  have "drop p s = k @ drop (length k) (drop p s)"
    using assms(1) append_take_drop_id [of "length k" "drop p s"] by simp
  also have "drop (length k) (drop p s) = s ! (p + length k) # drop (Suc (p + length k)) s"
    using assms(2) by (simp add: Cons_nth_drop_Suc add.commute)
  finally show ?thesis using append_take_drop_id [of p s] by metis
qed

lemma matches_entry:
  assumes k: "plain_name k" and k1: "plain_name k1" and v1: "plain_value v1"
  shows "matches (k1 @ CHR ''='' # v1) k p \<longleftrightarrow> p = 0 \<and> k = k1"
proof
  let ?s = "k1 @ CHR ''='' # v1"
  assume m: "matches ?s k p"
  then have len: "p + length k < length ?s" by (simp add: matches_def)
  have p: "p = 0"
  proof (rule ccontr)
    assume "p \<noteq> 0"
    with m have "?s ! (p - 1) = CHR '';'' \<or> ?s ! (p - 1) = CHR '' ''" by (simp add: matches_def)
    moreover have "?s ! (p - 1) \<in> set ?s" using len by (intro nth_mem) simp
    ultimately show False using k1 v1 by (auto simp: plain_name_def plain_value_def)
  qed
  from m p have eq: "take (length k) ?s = k" "?s ! length k = CHR ''=''" by (auto simp: matches_def)
  have "length k = length k1"
  proof (rule linorder_cases [of "length k" "length k1"])
    assume l: "length k < length k1"
    with eq(2) have "CHR ''='' \<in> set k1" by (metis nth_append nth_mem)
    with k1 show ?thesis by (simp add: plain_name_def)
  next
    assume l: "length k1 < length k"
    with eq(1) have "CHR ''='' = k ! length k1"
      by (metis nth_append_length nth_take)
    with l k show ?thesis by (metis nth_mem plain_name_def)
  qed simp
  with eq(1) p show "p = 0 \<and> k = k1" by simp
next
  assume "p = 0 \<and> k = k1"
  then show "matches (k1 @ CHR ''='' # v1) k p" by (simp add: matches_def)
qed

lemma matches_cons:
  assumes k: "plain_name k"
  shows "matches (e @ CHR '';'' # r) k p \<longleftrightarrow>
    matches e k p \<or> (\<exists>q. p = length e + 1 + q \<and> matches r k q)"
proof -
  let ?s = "e @ CHR '';'' # r"
  consider "p + length k < length e" | "p + length k = length e"
    | "p \<le> length e" "length e < p + length k" | q where "p = length e + 1 + q"
    by (metis add.assoc le_iff_add linorder_not_le linorder_cases Suc_eq_plus1 Suc_leI add.commute)
  then show ?thesis
  proof cases
    case 1
    then have "take (length k) (drop p ?s) = take (length k) (drop p e)" by simp
    moreover have "\<nexists>q. p = length e + 1 + q" using 1 by auto
    moreover have "?s ! (p - 1) = e ! (p - 1)" "?s ! (p + length k) = e ! (p + length k)"
      using 1 by (auto simp: nth_append)
    ultimately show ?thesis using 1 by (auto simp: matches_def)
  next
    case 2
    then show ?thesis by (auto simp: matches_def nth_append)
  next
    case 3
    have "take (length k) (drop p ?s) \<noteq> k"
    proof
      assume "take (length k) (drop p ?s) = k"
      moreover have i: "length e - p < length k" using 3 by auto
      ultimately have "k ! (length e - p) = ?s ! length e"
        using 3 occurs_nth [of k p ?s "length e - p"] by simp
      with i have "CHR '';'' \<in> set k" by (metis nth_append_length nth_mem)
      with k show False by (simp add: plain_name_def)
    qed
    with 3 show ?thesis by (auto simp: matches_def)
  next
    case 4
    then have "drop p ?s = drop q r" "?s ! (p + length k) = r ! (q + length k)"
      "p \<noteq> 0" "?s ! (p - 1) = (CHR '';'' # r) ! q" "\<not> matches e k p"
      by (auto simp: nth_append matches_def)
    with 4 show ?thesis by (cases q) (auto simp: matches_def)
  qed
qed

text \<open>Of two matches for the same name the later one decides, as with \<open>map_of\<close> from the end.\<close>

lemma last_match_unique: "last_match s k r \<Longrightarrow> last_match s k r' \<Longrightarrow> r = r'"
  by (auto simp: last_match_def split: option.splits) (metis linorder_neqE_nat)

lemma last_match_entry:
  assumes "plain_name k" "plain_name k1" "plain_value v1"
  shows "last_match (k1 @ CHR ''='' # v1) k (if k = k1 then Some 0 else None)"
  by (cases "k = k1") (simp_all add: last_match_def matches_entry [OF assms(2,2,3)] matches_entry [OF assms])

lemma last_match_cons:
  assumes k: "plain_name k" and k1: "plain_name k1" and v1: "plain_value v1"
    and r: "last_match r k m"
  shows "last_match (k1 @ CHR ''='' # v1 @ CHR '';'' # r) k
    (case m of Some q \<Rightarrow> Some (length k1 + 1 + length v1 + 1 + q)
     | None \<Rightarrow> if k = k1 then Some 0 else None)"
proof -
  have "matches (k1 @ CHR ''='' # v1 @ CHR '';'' # r) k p \<longleftrightarrow>
      (p = 0 \<and> k = k1) \<or> (\<exists>q. p = length k1 + 1 + length v1 + 1 + q \<and> matches r k q)" for p
    using matches_cons [OF k, of "k1 @ CHR ''='' # v1" r p] matches_entry [OF k k1 v1, of p]
    by (simp add: add.assoc)
  with r show ?thesis
    by (cases m) (auto simp: last_match_def)
qed

text \<open>The value read at a match: everything after the equal sign up to the next semicolon.\<close>

definition value_at :: "string \<Rightarrow> string \<Rightarrow> nat \<Rightarrow> string" where
  "value_at s k p = takeWhile (\<lambda>c. c \<noteq> CHR '';'') (drop (p + length k + 1) s)"

lemma map_of_snoc:
  "map_of (xs @ [(a, b)]) k = (case map_of xs k of Some v \<Rightarrow> Some v | None \<Rightarrow> if k = a then Some b else None)"
  by (simp add: map_add_def split: option.splits)

lemma render_last_match:
  assumes k: "plain_name k" and "\<forall>(k', v) \<in> set kvs. plain_name k' \<and> plain_value v"
  shows "\<exists>m. last_match (render kvs) k m \<and>
    map_option (value_at (render kvs) k) m = map_of (rev kvs) k"
  using assms(2)
proof (induction kvs rule: render.induct)
  case 1
  then show ?case by (auto simp: last_match_def matches_def)
next
  case (2 k1 v1)
  then have "plain_name k1" "plain_value v1" by auto
  with last_match_entry [OF k this] show ?case
    by (intro exI [of _ "if k = k1 then Some 0 else None"])
      (auto simp: value_at_def plain_value_def takeWhile_sep)
next
  case (3 k1 v1 kv kvs)
  then have p: "plain_name k1" "plain_value v1" by auto
  obtain m where m: "last_match (render (kv # kvs)) k m"
    "map_option (value_at (render (kv # kvs)) k) m = map_of (rev (kv # kvs)) k"
    using 3 by auto
  let ?r = "render (kv # kvs)"
  let ?s = "k1 @ CHR ''='' # v1 @ CHR '';'' # ?r"
  have v0: "value_at ?s k1 0 = v1"
    using p(2) by (simp add: value_at_def plain_value_def takeWhile_sep)
  have v1: "value_at ?s k (length k1 + 1 + length v1 + 1 + q) = value_at ?r k q" for q
  proof -
    have "?s = (k1 @ CHR ''='' # v1 @ '';'') @ ?r" by simp
    moreover have "length k1 + 1 + length v1 + 1 + q + length k + 1 =
        length (k1 @ CHR ''='' # v1 @ '';'') + (q + length k + 1)" by simp
    ultimately have "drop (length k1 + 1 + length v1 + 1 + q + length k + 1) ?s = drop (q + length k + 1) ?r"
      by (metis add_diff_cancel_left' append_Nil drop_all drop_append le_add1)
    then show ?thesis by (simp only: value_at_def)
  qed
  let ?m = "case m of Some q \<Rightarrow> Some (length k1 + 1 + length v1 + 1 + q)
     | None \<Rightarrow> if k = k1 then Some 0 else None"
  have l: "last_match ?s k ?m" by (rule last_match_cons [OF k p m(1)])
  have "map_option (value_at ?s k) ?m =
      (case map_option (value_at ?r k) m of Some v \<Rightarrow> Some v | None \<Rightarrow> if k = k1 then Some v1 else None)"
    using v0 v1 by (cases m) auto
  also have "\<dots> = map_of (rev ((k1, v1) # kv # kvs)) k"
    unfolding m(2) by (simp only: rev.simps(2) [of "(k1, v1)"] map_of_snoc)
  finally show ?case using l by (simp only: render.simps(3)) blast
qed

lemma get_value_at_last_match:
  assumes k: "plain_name k" and r: "last_match s k r" and n: "0 < n" "n \<le> 2 ^ 31"
    and s: "length s < 2 ^ 31"
  shows "bctbx_param_string_get_value s k n =
    Some (case r of None \<Rightarrow> (False, []) | Some p \<Rightarrow> (True, take (n - 1) (value_at s k p)))"
proof -
  have find: "find_last_param_occurence_of s k = Some r"
    using find_last_correct [OF k, of s] last_match_unique [OF _ r] by auto
  show ?thesis
  proof (cases r)
    case None
    with find show ?thesis by (simp add: bctbx_param_string_get_value_def)
  next
    case (Some p)
    with r have m: "matches s k p" by (simp add: last_match_def)
    then have "s = take p s @ k @ CHR ''='' # drop (Suc (p + length k)) s"
      using take_drop_eq_append [of k p s] by (simp add: matches_def)
    then have d: "drop p s = k @ CHR ''='' # drop (Suc (p + length k)) s"
      by (metis append_take_drop_id same_append_eq)
    then have eq: "strchr_at s p CHR ''='' = Some (p + length k)"
      using k by (simp add: strchr_at_def plain_name_def strchr_append)
    let ?t = "drop (p + length k + 1) s"
    have tlen: "length ?t \<le> length s" by simp
    define e where "e = (case strchr_at s (Suc (p + length k)) CHR '';'' of
        None \<Rightarrow> length s | Some e \<Rightarrow> e)"
    have pos: "p + length k + 1 \<le> length s" using m by (simp add: matches_def)
    then have e: "e = p + length k + 1 + length (value_at s k p)"
      by (auto simp: e_def strchr_at_def strchr_takeWhile value_at_def takeWhile_sep)
    have le: "length (value_at s k p) \<le> length ?t"
      unfolding value_at_def by (rule length_takeWhile_le)
    have v: "take (length (value_at s k p)) ?t = value_at s k p"
      unfolding value_at_def by (metis takeWhile_eq_take)
    have c1: "to_i32 (int n - 1) = int n - 1" using n by (intro to_i32_small) auto
    have c2: "to_i32 (int e - int (p + length k + 1)) = int (length (value_at s k p))"
      using e le tlen s by (subst to_i32_small) auto
    define copied where "copied = min (int n - 1) (int (length (value_at s k p)))"
    have copied: "0 \<le> copied" "copied < int n"
      "nat copied = min (n - 1) (length (value_at s k p))"
      using n by (auto simp: copied_def)
    have "bctbx_param_string_get_value s k n =
        Some (True, take (nat copied) (drop (p + length k + 1) s))"
      using find Some eq c1 c2 copied(1,2)
      by (simp add: bctbx_param_string_get_value_def Let_def bind_require
          e_def [symmetric] copied_def [symmetric] del: drop_drop)
    also have "take (nat copied) ?t = take (n - 1) (value_at s k p)"
      using v copied(3) by (metis min.commute take_take)
    finally show ?thesis using Some by simp
  qed
qed

section \<open>Properties\<close>

lemma strstr_at_empty: "strstr_at s 0 [] = Some 0"
  by (cases s) (simp_all add: strstr_at_def)

lemma find_param_empty_start:
  assumes "find_param_loop s fmtp param pos = Some r"
  shows "\<not> (param = [] \<and> pos = 0 \<and> fmtp = 0 \<and> cat s 0 \<noteq> CHR ''='')"
  by (rule find_param_loop.raw_induct [OF _ assms])
    (clarsimp simp: strstr_at_empty split: if_splits, blast)

text \<open>
  C34: In a parameter string made of \<open>name=value\<close> entries, \<open>bctbx_param_string_get_value\<close> returns
  the value of the last entry with exactly the name asked for, cut to the space of the result
  buffer, and reports FALSE when there is none; a name that ends or starts like another one is never
  confused with it.  The search always returns.
\<close>

theorem param_get_value_last_entry:
  assumes "plain_name k" and "\<forall>(k', v) \<in> set kvs. plain_name k' \<and> plain_value v"
    and "0 < n" "n \<le> 2 ^ 31" "length (render kvs) < 2 ^ 31"
  shows "bctbx_param_string_get_value (render kvs) k n =
    Some (case map_of (rev kvs) k of None \<Rightarrow> (False, []) | Some v \<Rightarrow> (True, take (n - 1) v))"
proof -
  obtain m where m: "last_match (render kvs) k m"
    "map_option (value_at (render kvs) k) m = map_of (rev kvs) k"
    using render_last_match [OF assms(1,2)] by blast
  show ?thesis
    unfolding get_value_at_last_match [OF assms(1) m(1) assms(3,4,5)] m(2) [symmetric]
    by (cases m) simp_all
qed

theorem param_get_value_last_entry_witness:
  "bctbx_param_string_get_value ''b=1;ab=2;b=34'' ''b'' 8 = Some (True, ''34'') \<and>
   bctbx_param_string_get_value ''b=1;ab=2;b=34'' ''b'' 2 = Some (True, ''3'') \<and>
   bctbx_param_string_get_value ''b=1;ab=2;b=34'' ''a'' 8 = Some (False, [])"
  using param_get_value_last_entry [of "''b''" "[(''b'', ''1''), (''ab'', ''2''), (''b'', ''34'')]" 8]
    param_get_value_last_entry [of "''b''" "[(''b'', ''1''), (''ab'', ''2''), (''b'', ''34'')]" 2]
    param_get_value_last_entry [of "''a''" "[(''b'', ''1''), (''ab'', ''2''), (''b'', ''34'')]" 8]
  by (simp add: plain_name_def plain_value_def nul_free_def NUL_def)

text \<open>
  The boolean query is true exactly when the value of the last entry starts with \<open>true\<close>: the
  buffer of five bytes cuts the value before the comparison, so \<open>truefoo\<close> also reads as true.
\<close>

theorem param_get_bool_prefix:
  assumes "plain_name k" and "\<forall>(k', v) \<in> set kvs. plain_name k' \<and> plain_value v"
    and "length (render kvs) < 2 ^ 31"
  shows "bctbx_param_string_get_bool_value (render kvs) k =
    Some (case map_of (rev kvs) k of None \<Rightarrow> False | Some v \<Rightarrow> take 4 v = ''true'')"
proof -
  obtain m where m: "last_match (render kvs) k m"
    "map_option (value_at (render kvs) k) m = map_of (rev kvs) k"
    using render_last_match [OF assms(1,2)] by blast
  have "bctbx_param_string_get_value (render kvs) k 5 =
      Some (case m of None \<Rightarrow> (False, []) | Some p \<Rightarrow> (True, take (5 - 1) (value_at (render kvs) k p)))"
    by (rule get_value_at_last_match [OF assms(1) m(1)]) (use assms(3) in simp_all)
  with m(2) [symmetric] show ?thesis
    by (cases m) (simp_all add: bctbx_param_string_get_bool_value_def)
qed

theorem param_get_bool_prefix_witness:
  "bctbx_param_string_get_bool_value ''a=truefoo;b=tru'' ''a'' = Some True \<and>
   bctbx_param_string_get_bool_value ''a=truefoo;b=tru'' ''b'' = Some False"
  using param_get_bool_prefix [of "''a''" "[(''a'', ''truefoo''), (''b'', ''tru'')]"]
    param_get_bool_prefix [of "''b''" "[(''a'', ''truefoo''), (''b'', ''tru'')]"]
  by (simp add: plain_name_def plain_value_def nul_free_def NUL_def)

text \<open>
  Asked for the empty name, the search does not return: on a string that does not start with
  the equals sign it stays at the same position for ever.
\<close>

theorem param_empty_name_diverges:
  assumes "cat s 0 \<noteq> CHR ''=''"
  shows "bctbx_param_string_get_value s [] n = None"
  using find_param_empty_start [of s 0 "[]" 0] assms
  by (cases "find_param_loop s 0 [] 0")
    (simp_all add: bctbx_param_string_get_value_def find_last_param_occurence_of_def
      find_last_loop.simps find_param_occurence_of_def)

theorem param_empty_name_diverges_witness:
  "bctbx_param_string_get_value ''a=1'' [] 5 = None"
  by (rule param_empty_name_diverges) (simp add: cat_def)

end
