(* ===== verification/HexConv.thy ===== *)
theory HexConv
  imports Prelude
begin

text \<open>
  The hexadecimal conversions of src/utils/port.c, on bytes as 8-bit words.  The locale
  \<open>nibble_code\<close> is what the converters of byte buffers and of 32- and 64-bit integers need of the
  two single-digit converters; its facts are proved from that law alone.
\<close>

unbundle bit_operations_syntax

section \<open>Operations\<close>

definition bctbx_char_to_byte :: "byte \<Rightarrow> byte" where
  "bctbx_char_to_byte input_char =
     (if input_char > 0x29 \<and> input_char < 0x3A then input_char - 0x30
      else if input_char > 0x60 \<and> input_char < 0x67 then input_char - 0x57
      else if input_char > 0x40 \<and> input_char < 0x47 then input_char - 0x37
      else 0)"

definition bctbx_byte_to_char :: "byte \<Rightarrow> byte" where
  "bctbx_byte_to_char input_byte =
     (let input_byte_crop = input_byte AND 0x0F in
      if input_byte_crop < 0x0A then input_byte_crop + 0x30 else input_byte_crop + 0x57)"

text \<open>
  \<open>bctbx_str_to_uint8\<close> returns the bytes written to \<open>output_bytes\<close>; an input shorter than the
  length given is read out of bounds.
\<close>

definition bctbx_str_to_uint8 :: "byte list \<Rightarrow> nat \<Rightarrow> byte list option" where
  "bctbx_str_to_uint8 input_string input_string_length =
     (if 2 * (input_string_length div 2) \<le> length input_string
      then Some (map (\<lambda>i. push_bit 4 (bctbx_char_to_byte (input_string ! (2 * i))) OR
                          bctbx_char_to_byte (input_string ! (2 * i + 1)))
                     [0..<input_string_length div 2])
      else None)"

definition bctbx_int8_to_str :: "byte list \<Rightarrow> nat \<Rightarrow> byte list option" where
  "bctbx_int8_to_str input_bytes input_bytes_length =
     (if input_bytes_length \<le> length input_bytes
      then Some (concat (map (\<lambda>i. [bctbx_byte_to_char (drop_bit 4 (input_bytes ! i) AND 0x0F),
                                   bctbx_byte_to_char (input_bytes ! i AND 0x0F)])
                             [0..<input_bytes_length]))
      else None)"

definition bctbx_uint32_to_str :: "32 word \<Rightarrow> byte list" where
  "bctbx_uint32_to_str input_uint32 =
     [bctbx_byte_to_char (ucast (drop_bit 28 input_uint32 AND 0x0F)),
      bctbx_byte_to_char (ucast (drop_bit 24 input_uint32 AND 0x0F)),
      bctbx_byte_to_char (ucast (drop_bit 20 input_uint32 AND 0x0F)),
      bctbx_byte_to_char (ucast (drop_bit 16 input_uint32 AND 0x0F)),
      bctbx_byte_to_char (ucast (drop_bit 12 input_uint32 AND 0x0F)),
      bctbx_byte_to_char (ucast (drop_bit 8 input_uint32 AND 0x0F)),
      bctbx_byte_to_char (ucast (drop_bit 4 input_uint32 AND 0x0F)),
      bctbx_byte_to_char (ucast (input_uint32 AND 0x0F)),
      0]"

definition bctbx_str_to_uint32 :: "byte list \<Rightarrow> 32 word option" where
  "bctbx_str_to_uint32 input_string =
     (if 8 \<le> length input_string
      then Some
        (push_bit 28 (ucast (bctbx_char_to_byte (input_string ! 0))) OR
         push_bit 24 (ucast (bctbx_char_to_byte (input_string ! 1))) OR
         push_bit 20 (ucast (bctbx_char_to_byte (input_string ! 2))) OR
         push_bit 16 (ucast (bctbx_char_to_byte (input_string ! 3))) OR
         push_bit 12 (ucast (bctbx_char_to_byte (input_string ! 4))) OR
         push_bit 8 (ucast (bctbx_char_to_byte (input_string ! 5))) OR
         push_bit 4 (ucast (bctbx_char_to_byte (input_string ! 6))) OR
         ucast (bctbx_char_to_byte (input_string ! 7)))
      else None)"

definition bctbx_uint64_to_str :: "64 word \<Rightarrow> byte list" where
  "bctbx_uint64_to_str input_uint64 =
     [bctbx_byte_to_char (ucast (drop_bit 60 input_uint64 AND 0x0F)),
      bctbx_byte_to_char (ucast (drop_bit 56 input_uint64 AND 0x0F)),
      bctbx_byte_to_char (ucast (drop_bit 52 input_uint64 AND 0x0F)),
      bctbx_byte_to_char (ucast (drop_bit 48 input_uint64 AND 0x0F)),
      bctbx_byte_to_char (ucast (drop_bit 44 input_uint64 AND 0x0F)),
      bctbx_byte_to_char (ucast (drop_bit 40 input_uint64 AND 0x0F)),
      bctbx_byte_to_char (ucast (drop_bit 36 input_uint64 AND 0x0F)),
      bctbx_byte_to_char (ucast (drop_bit 32 input_uint64 AND 0x0F)),
      bctbx_byte_to_char (ucast (drop_bit 28 input_uint64 AND 0x0F)),
      bctbx_byte_to_char (ucast (drop_bit 24 input_uint64 AND 0x0F)),
      bctbx_byte_to_char (ucast (drop_bit 20 input_uint64 AND 0x0F)),
      bctbx_byte_to_char (ucast (drop_bit 16 input_uint64 AND 0x0F)),
      bctbx_byte_to_char (ucast (drop_bit 12 input_uint64 AND 0x0F)),
      bctbx_byte_to_char (ucast (drop_bit 8 input_uint64 AND 0x0F)),
      bctbx_byte_to_char (ucast (drop_bit 4 input_uint64 AND 0x0F)),
      bctbx_byte_to_char (ucast (input_uint64 AND 0x0F)),
      0]"

definition bctbx_str_to_uint64 :: "byte list \<Rightarrow> 64 word option" where
  "bctbx_str_to_uint64 input_string =
     (if 16 \<le> length input_string
      then Some
        (push_bit 60 (ucast (bctbx_char_to_byte (input_string ! 0))) OR
         push_bit 56 (ucast (bctbx_char_to_byte (input_string ! 1))) OR
         push_bit 52 (ucast (bctbx_char_to_byte (input_string ! 2))) OR
         push_bit 48 (ucast (bctbx_char_to_byte (input_string ! 3))) OR
         push_bit 44 (ucast (bctbx_char_to_byte (input_string ! 4))) OR
         push_bit 40 (ucast (bctbx_char_to_byte (input_string ! 5))) OR
         push_bit 36 (ucast (bctbx_char_to_byte (input_string ! 6))) OR
         push_bit 32 (ucast (bctbx_char_to_byte (input_string ! 7))) OR
         push_bit 28 (ucast (bctbx_char_to_byte (input_string ! 8))) OR
         push_bit 24 (ucast (bctbx_char_to_byte (input_string ! 9))) OR
         push_bit 20 (ucast (bctbx_char_to_byte (input_string ! 10))) OR
         push_bit 16 (ucast (bctbx_char_to_byte (input_string ! 11))) OR
         push_bit 12 (ucast (bctbx_char_to_byte (input_string ! 12))) OR
         push_bit 8 (ucast (bctbx_char_to_byte (input_string ! 13))) OR
         push_bit 4 (ucast (bctbx_char_to_byte (input_string ! 14))) OR
         ucast (bctbx_char_to_byte (input_string ! 15)))
      else None)"

section \<open>Single digits\<close>

lemma eight32: "8 \<le> LENGTH(32)" and eight64: "8 \<le> LENGTH(64)"
  by simp_all

lemma nib: "x AND 0x0F = take_bit 4 (x :: 'a::len word)"
  by (simp add: take_bit_eq_mask mask_eq_exp_minus_1)

lemma nibble_cases:
  assumes "list_all P (map word_of_nat [0..<16])"
  shows "P (b AND 0x0F :: byte)"
proof -
  have "unat (b AND 0x0F) < 16"
    using word_and_le1 [of b "0x0F"] by (simp add: word_le_nat_alt)
  then have "b AND 0x0F \<in> set (map word_of_nat [0..<16])"
    by (auto intro!: image_eqI [of _ _ "unat (b AND 0x0F)"])
  with assms show ?thesis by (auto simp: list_all_iff)
qed

lemma char_to_byte_byte_to_char: "bctbx_char_to_byte (bctbx_byte_to_char b) = b AND 0x0F"
proof -
  define P where "P = (\<lambda>n :: byte. bctbx_char_to_byte (if n < 0x0A then n + 0x30 else n + 0x57) = n)"
  have "P (b AND 0x0F)"
    by (rule nibble_cases) (simp add: P_def bctbx_char_to_byte_def upt_rec)
  then show ?thesis by (simp add: P_def bctbx_byte_to_char_def Let_def)
qed

lemma digits_add: "4 + 4 = (8::nat)" "8 + 4 = (12::nat)" "12 + 4 = (16::nat)" "16 + 4 = (20::nat)" "20 + 4 = (24::nat)" "24 + 4 = (28::nat)" "28 + 4 = (32::nat)" "32 + 4 = (36::nat)" "36 + 4 = (40::nat)" "40 + 4 = (44::nat)" "44 + 4 = (48::nat)" "48 + 4 = (52::nat)" "52 + 4 = (56::nat)" "56 + 4 = (60::nat)" "60 + 4 = (64::nat)"
  by simp_all

lemma take_bit_32: "take_bit 32 (x :: 32 word) = x" and take_bit_64: "take_bit 64 (y :: 64 word) = y"
  by (simp_all add: take_bit_word_eq_self)

lemma join_digit:
  "push_bit k (take_bit 4 (drop_bit k x)) OR take_bit k x = take_bit (k + 4) (x :: 'a::len word)"
  by (rule bit_word_eqI) (auto simp: bit_simps)

text \<open>A buffer of bytes printed two digits at a time.\<close>

definition print_pairs :: "(byte \<Rightarrow> byte) \<Rightarrow> byte list \<Rightarrow> byte list" where
  "print_pairs enc bs = concat (map (\<lambda>b. [enc (drop_bit 4 b AND 0x0F), enc (b AND 0x0F)]) bs)"

lemma print_pairs_simps [simp]:
  "print_pairs enc [] = []"
  "print_pairs enc (b # bs) = enc (drop_bit 4 b AND 0x0F) # enc (b AND 0x0F) # print_pairs enc bs"
  by (simp_all add: print_pairs_def)

lemma length_print_pairs [simp]: "length (print_pairs enc bs) = 2 * length bs"
  by (induction bs) simp_all

locale nibble_code =
  fixes enc :: "byte \<Rightarrow> byte" and dec :: "byte \<Rightarrow> byte"
  assumes dec_enc: "dec (enc b) = b AND 0x0F"
begin

text \<open>A digit put back at its place extends the digits below it by four bits.\<close>

lemma digit:
  fixes x :: "'a::len word"
  assumes "8 \<le> LENGTH('a)"
  shows "ucast (dec (enc (ucast (x AND 0x0F)))) = take_bit 4 x"
  unfolding dec_enc nib
  by (rule bit_word_eqI) (use assms in \<open>auto simp: bit_simps\<close>)

lemma join_byte:
  "push_bit 4 (dec (enc (drop_bit 4 b AND 0x0F))) OR dec (enc (b AND 0x0F)) = b"
  unfolding dec_enc nib
  by (rule bit_word_eqI) (auto simp: bit_simps not_less)

lemma join_uint32:
  fixes x :: "32 word"
  shows "push_bit 28 (ucast (dec (enc (ucast (drop_bit 28 x AND 0x0F))))) OR
    push_bit 24 (ucast (dec (enc (ucast (drop_bit 24 x AND 0x0F))))) OR
    push_bit 20 (ucast (dec (enc (ucast (drop_bit 20 x AND 0x0F))))) OR
    push_bit 16 (ucast (dec (enc (ucast (drop_bit 16 x AND 0x0F))))) OR
    push_bit 12 (ucast (dec (enc (ucast (drop_bit 12 x AND 0x0F))))) OR
    push_bit 8 (ucast (dec (enc (ucast (drop_bit 8 x AND 0x0F))))) OR
    push_bit 4 (ucast (dec (enc (ucast (drop_bit 4 x AND 0x0F))))) OR
    ucast (dec (enc (ucast (x AND 0x0F)))) = x" (is "?l = x")
  by (simp only: digit [OF eight32] join_digit digits_add take_bit_32)

lemma join_uint64:
  fixes x :: "64 word"
  shows "push_bit 60 (ucast (dec (enc (ucast (drop_bit 60 x AND 0x0F))))) OR
    push_bit 56 (ucast (dec (enc (ucast (drop_bit 56 x AND 0x0F))))) OR
    push_bit 52 (ucast (dec (enc (ucast (drop_bit 52 x AND 0x0F))))) OR
    push_bit 48 (ucast (dec (enc (ucast (drop_bit 48 x AND 0x0F))))) OR
    push_bit 44 (ucast (dec (enc (ucast (drop_bit 44 x AND 0x0F))))) OR
    push_bit 40 (ucast (dec (enc (ucast (drop_bit 40 x AND 0x0F))))) OR
    push_bit 36 (ucast (dec (enc (ucast (drop_bit 36 x AND 0x0F))))) OR
    push_bit 32 (ucast (dec (enc (ucast (drop_bit 32 x AND 0x0F))))) OR
    push_bit 28 (ucast (dec (enc (ucast (drop_bit 28 x AND 0x0F))))) OR
    push_bit 24 (ucast (dec (enc (ucast (drop_bit 24 x AND 0x0F))))) OR
    push_bit 20 (ucast (dec (enc (ucast (drop_bit 20 x AND 0x0F))))) OR
    push_bit 16 (ucast (dec (enc (ucast (drop_bit 16 x AND 0x0F))))) OR
    push_bit 12 (ucast (dec (enc (ucast (drop_bit 12 x AND 0x0F))))) OR
    push_bit 8 (ucast (dec (enc (ucast (drop_bit 8 x AND 0x0F))))) OR
    push_bit 4 (ucast (dec (enc (ucast (drop_bit 4 x AND 0x0F))))) OR
    ucast (dec (enc (ucast (x AND 0x0F)))) = x" (is "?l = x")
  by (simp only: digit [OF eight64] join_digit digits_add take_bit_64)

lemma read_pair:
  "i < length bs \<Longrightarrow>
   push_bit 4 (dec (print_pairs enc bs ! (2 * i))) OR dec (print_pairs enc bs ! (2 * i + 1)) = bs ! i"
proof (induction bs arbitrary: i)
  case Nil then show ?case by simp
next
  case (Cons b bs)
  show ?case
  proof (cases i)
    case 0 then show ?thesis by (simp add: join_byte)
  next
    case (Suc j)
    with Cons.IH [of j] Cons.prems show ?thesis by simp
  qed
qed

end

interpretation hexdigit: nibble_code bctbx_byte_to_char bctbx_char_to_byte
  by unfold_locales (rule char_to_byte_byte_to_char)

section \<open>Round trips\<close>

lemma int8_to_str_print_pairs:
  assumes "n \<le> length bs"
  shows "bctbx_int8_to_str bs n = Some (print_pairs bctbx_byte_to_char (take n bs))"
proof -
  have "map (\<lambda>i. [bctbx_byte_to_char (drop_bit 4 (bs ! i) AND 0x0F), bctbx_byte_to_char (bs ! i AND 0x0F)])
      [0..<n] = map (\<lambda>b. [bctbx_byte_to_char (drop_bit 4 b AND 0x0F), bctbx_byte_to_char (b AND 0x0F)])
      (take n bs)"
    using assms by (simp add: list_eq_iff_nth_eq)
  then show ?thesis
    using assms by (simp add: bctbx_int8_to_str_def print_pairs_def)
qed

lemma str_to_uint8_print_pairs:
  "bctbx_str_to_uint8 (print_pairs bctbx_byte_to_char bs) (2 * length bs) = Some bs"
proof -
  have "map (\<lambda>i. push_bit 4 (bctbx_char_to_byte (print_pairs bctbx_byte_to_char bs ! (2 * i))) OR
      bctbx_char_to_byte (print_pairs bctbx_byte_to_char bs ! (2 * i + 1))) [0..<length bs] = bs"
    by (rule nth_equalityI) (simp_all only: length_map length_upt nth_map_upt diff_zero add_0 hexdigit.read_pair)
  then show ?thesis by (simp add: bctbx_str_to_uint8_def)
qed

lemma byte_to_char_hex:
  "bctbx_byte_to_char b \<in> {0x30..0x39} \<union> {0x61..0x66}"
proof -
  define P where "P = (\<lambda>n :: byte. (if n < 0x0A then n + 0x30 else n + 0x57) \<in> {0x30..0x39} \<union> {0x61..0x66})"
  have "P (b AND 0x0F)"
    by (rule nibble_cases) (simp add: P_def upt_rec)
  then show ?thesis by (simp add: P_def bctbx_byte_to_char_def Let_def)
qed

text \<open>
  Printing a buffer of bytes in hexadecimal and reading the digits back gives the buffer again:
  \<open>bctbx_int8_to_str\<close> writes exactly two digits per byte, all of them lower-case hexadecimal, and
  \<open>bctbx_str_to_uint8\<close> inverts it.
\<close>

theorem hex_buffer_roundtrip:
  assumes "n \<le> length bs"
  shows "\<exists>s. bctbx_int8_to_str bs n = Some s \<and> length s = 2 * n \<and>
    set s \<subseteq> {0x30..0x39} \<union> {0x61..0x66} \<and> bctbx_str_to_uint8 s (2 * n) = Some (take n bs)"
proof (intro exI conjI)
  show "bctbx_int8_to_str bs n = Some (print_pairs bctbx_byte_to_char (take n bs))"
    using assms by (rule int8_to_str_print_pairs)
  show "length (print_pairs bctbx_byte_to_char (take n bs)) = 2 * n"
    using assms by simp
  show "set (print_pairs bctbx_byte_to_char (take n bs)) \<subseteq> {0x30..0x39} \<union> {0x61..0x66}"
    unfolding print_pairs_def using byte_to_char_hex by fastforce
  show "bctbx_str_to_uint8 (print_pairs bctbx_byte_to_char (take n bs)) (2 * n) = Some (take n bs)"
    using assms str_to_uint8_print_pairs [of "take n bs"] by (simp only: length_take min_absorb2)
qed

theorem hex_buffer_roundtrip_witness:
  "\<exists>s. bctbx_int8_to_str [0xDE, 0xAD, 0x07] 2 = Some s \<and> length s = 2 * 2 \<and>
    set s \<subseteq> {0x30..0x39} \<union> {0x61..0x66} \<and> bctbx_str_to_uint8 s (2 * 2) = Some [0xDE, 0xAD]"
  using hex_buffer_roundtrip [of 2 "[0xDE, 0xAD, 0x07]"] by simp

text \<open>
  The 32- and 64-bit integer printers and readers are inverse of each other, and what the
  printers write is a string: 8 (16) hexadecimal digits followed by the terminator.
\<close>

theorem hex_integer_roundtrip:
  "bctbx_str_to_uint32 (bctbx_uint32_to_str x) = Some x \<and>
   bctbx_str_to_uint64 (bctbx_uint64_to_str y) = Some y \<and>
   length (bctbx_uint32_to_str x) = 9 \<and> last (bctbx_uint32_to_str x) = 0 \<and>
   length (bctbx_uint64_to_str y) = 17 \<and> last (bctbx_uint64_to_str y) = 0"
  unfolding bctbx_str_to_uint32_def bctbx_uint32_to_str_def bctbx_str_to_uint64_def bctbx_uint64_to_str_def
  by (simp add: hexdigit.join_uint32 [simplified] hexdigit.join_uint64 [simplified])

end
