(* ===== verification/TimeSpec.thy ===== *)
theory TimeSpec
  imports CInt
begin

text \<open>
  The time functions of src/utils/port.c.  A \<open>bctoolboxTimeSpec\<close> holds two \<open>int64_t\<close>; signed
  overflow is undefined.  The system clock and the sleeping system calls are parameters.  The
  code modelled is the one compiled on Linux.
\<close>

section \<open>Operations\<close>

record bctoolboxTimeSpec =
  tv_sec :: int
  tv_nsec :: int

text \<open>\<open>clock_gettime\<close> is given whether the real-time clock is asked for; its failure is fatal.\<close>

definition get_cur_time :: "(bool \<Rightarrow> bctoolboxTimeSpec option) \<Rightarrow> bool \<Rightarrow> bctoolboxTimeSpec option" where
  "get_cur_time clock_gettime realtime = do {
     ts \<leftarrow> clock_gettime realtime;
     Some \<lparr>tv_sec = tv_sec ts, tv_nsec = tv_nsec ts\<rparr> }"

definition bctbx_get_utc_cur_time :: "(bool \<Rightarrow> bctoolboxTimeSpec option) \<Rightarrow> bctoolboxTimeSpec option" where
  "bctbx_get_utc_cur_time clock_gettime = get_cur_time clock_gettime True"

definition bctbx_get_cur_time :: "(bool \<Rightarrow> bctoolboxTimeSpec option) \<Rightarrow> bctoolboxTimeSpec option" where
  "bctbx_get_cur_time clock_gettime = get_cur_time clock_gettime False"

definition bctbx_get_cur_time_ms :: "(bool \<Rightarrow> bctoolboxTimeSpec option) \<Rightarrow> 64 word option" where
  "bctbx_get_cur_time_ms clock_gettime = do {
     ts \<leftarrow> get_cur_time clock_gettime False;
     a \<leftarrow> i64 (tv_sec ts * 1000);
     b \<leftarrow> i64 (tv_nsec ts + 500000);
     c \<leftarrow> i64 (a + cdiv b 1000000);
     Some (word_of_int c) }"

definition bctbx_sleep_ms :: "(bctoolboxTimeSpec \<Rightarrow> 'w \<Rightarrow> 'w) \<Rightarrow> int \<Rightarrow> 'w \<Rightarrow> 'w" where
  "bctbx_sleep_ms nanosleep ms w =
     nanosleep \<lparr>tv_sec = cdiv ms 1000, tv_nsec = cmod ms 1000 * 1000000\<rparr> w"

text \<open>
  \<open>clock_nanosleep\<close> returns an integer and sets \<open>errno\<close>; the loop retries while they are -1 and
  \<open>EINTR\<close>.
\<close>

definition EINTR :: int where "EINTR = 4"

partial_function (option) bctbx_sleep_until ::
    "(bctoolboxTimeSpec \<Rightarrow> 'w \<Rightarrow> int \<times> int \<times> 'w) \<Rightarrow> bctoolboxTimeSpec \<Rightarrow> 'w \<Rightarrow> 'w option" where
  "bctbx_sleep_until clock_nanosleep ts w =
     (case clock_nanosleep \<lparr>tv_sec = tv_sec ts, tv_nsec = tv_nsec ts\<rparr> w of
        (ret, errno, w') \<Rightarrow>
          if ret = -1 \<and> errno = EINTR then bctbx_sleep_until clock_nanosleep ts w' else Some w')"

definition bctbx_timespec_add_secs :: "bctoolboxTimeSpec \<Rightarrow> int \<Rightarrow> bctoolboxTimeSpec option" where
  "bctbx_timespec_add_secs ts lap = do {
     reset \<leftarrow> (if lap < 0 then map_option (\<lambda>n. n > tv_sec ts) (i64 (- lap)) else Some False);
     if reset then Some (ts\<lparr>tv_sec := 0, tv_nsec := 0\<rparr>)
     else do { s \<leftarrow> i64 (tv_sec ts + lap); Some (ts\<lparr>tv_sec := s\<rparr>) } }"

definition bctbx_timespec_add :: "bctoolboxTimeSpec \<Rightarrow> int \<Rightarrow> bctoolboxTimeSpec option" where
  "bctbx_timespec_add ts lap = bctbx_timespec_add_secs ts lap"

definition bctbx_timespec_add_millisecs :: "bctoolboxTimeSpec \<Rightarrow> int \<Rightarrow> bctoolboxTimeSpec option" where
  "bctbx_timespec_add_millisecs ts0 lap =
     (let lap_secs = cdiv lap 1000; lap_nsecs = cmod lap 1000 * 1000000 in do {
        ts \<leftarrow> (if lap_secs \<noteq> 0 then bctbx_timespec_add_secs ts0 lap_secs else Some ts0);
        if lap_nsecs < 0 \<and> - lap_nsecs > tv_nsec ts
        then (if tv_sec ts = 0 then Some (ts\<lparr>tv_nsec := 0\<rparr>)
              else do {
                r \<leftarrow> i64 (- lap_nsecs - tv_nsec ts);
                n \<leftarrow> i64 (1000000000 - r);
                s \<leftarrow> i64 (tv_sec ts - 1);
                Some (ts\<lparr>tv_nsec := n, tv_sec := s\<rparr>) })
        else do {
          n \<leftarrow> i64 (tv_nsec ts + lap_nsecs);
          if n > 1000000000
          then do {
            s \<leftarrow> i64 (tv_sec ts + 1);
            Some (ts\<lparr>tv_sec := s, tv_nsec := cmod n 1000000000\<rparr>) }
          else Some (ts\<lparr>tv_nsec := n\<rparr>) } })"

definition bctbx_timespec_compare :: "bctoolboxTimeSpec \<Rightarrow> bctoolboxTimeSpec \<Rightarrow> int option" where
  "bctbx_timespec_compare s1 s2 = do {
     secdiff \<leftarrow> i64 (tv_sec s1 - tv_sec s2);
     if secdiff = 0
     then do {
       nsec_diff \<leftarrow> i64 (tv_nsec s1 - tv_nsec s2);
       Some (if nsec_diff < 0 then -1 else if nsec_diff > 0 then 1 else 0) }
     else if secdiff < 0 then Some (-1) else Some 1 }"

text \<open>Products of \<open>int32_t\<close> are computed left to right in \<open>int\<close> and then added to a \<open>uint32_t\<close>.\<close>

definition mul_chain :: "int \<Rightarrow> int list \<Rightarrow> int option" where
  "mul_chain n ks = foldl (\<lambda>r k. Option.bind r (\<lambda>m. i32 (m * k))) (Some n) ks"

definition suffix_factors :: "char \<Rightarrow> int list option" where
  "suffix_factors c =
     (if c = CHR ''Y'' then Some [365, 24, 3600]
      else if c = CHR ''M'' then Some [30, 24, 3600]
      else if c = CHR ''W'' then Some [7, 24, 3600]
      else if c = CHR ''d'' then Some [24, 3600]
      else if c = CHR ''h'' then Some [3600]
      else if c = CHR ''m'' then Some [60]
      else if c = CHR ''s'' then Some []
      else None)"

lemma strtol10_shorter: "(l, c # q) = strtol10 p \<Longrightarrow> length q < length p"
  using strtol10_length [of p] by (metis Suc_le_eq length_Cons snd_conv)

function time_string_loop :: "string \<Rightarrow> 32 word \<Rightarrow> 32 word option" where
  "time_string_loop p ret =
     (if p = [] then Some ret
      else case strtol10 p of
        (l, []) \<Rightarrow> Some (ret + word_of_int (to_i32 l))
      | (l, c # q) \<Rightarrow>
          (case suffix_factors c of
             None \<Rightarrow> time_string_loop q ret
           | Some ks \<Rightarrow>
               (case mul_chain (to_i32 l) ks of
                  None \<Rightarrow> None
                | Some m \<Rightarrow> time_string_loop q (ret + word_of_int m))))"
  by pat_completeness auto
termination
  by (relation "measure (\<lambda>(p, _). length p)") (auto dest!: strtol10_shorter)

declare time_string_loop.simps [simp del]

definition bctbx_time_string_to_sec :: "string option \<Rightarrow> 32 word option" where
  "bctbx_time_string_to_sec timeString =
     (case timeString of None \<Rightarrow> Some 0 | Some s \<Rightarrow> time_string_loop s 0)"

section \<open>Times as nanoseconds\<close>

definition total_ns :: "bctoolboxTimeSpec \<Rightarrow> int" where
  "total_ns ts = tv_sec ts * 1000000000 + tv_nsec ts"

definition ts_norm :: "bctoolboxTimeSpec \<Rightarrow> bool" where
  "ts_norm ts \<longleftrightarrow> 0 \<le> tv_sec ts \<and> tv_sec ts < 2 ^ 63 \<and> 0 \<le> tv_nsec ts \<and> tv_nsec ts < 1000000000"

lemma ts_normD:
  "ts_norm ts \<Longrightarrow> 0 \<le> tv_sec ts" "ts_norm ts \<Longrightarrow> tv_sec ts < 2 ^ 63"
  "ts_norm ts \<Longrightarrow> 0 \<le> tv_nsec ts" "ts_norm ts \<Longrightarrow> tv_nsec ts < 1000000000"
  by (simp_all add: ts_norm_def)

lemma add_secs_total:
  assumes "ts_norm ts" "- (2 ^ 63) < lap" "tv_sec ts + lap < 2 ^ 63"
  shows "\<exists>ts'. bctbx_timespec_add_secs ts lap = Some ts' \<and> ts_norm ts' \<and>
    (if 0 \<le> tv_sec ts + lap then ts' = ts\<lparr>tv_sec := tv_sec ts + lap\<rparr> else ts' = ts\<lparr>tv_sec := 0, tv_nsec := 0\<rparr>)"
proof (cases "0 \<le> tv_sec ts + lap")
  case True
  then show ?thesis
    using assms ts_normD [OF assms(1)]
    by (auto simp: bctbx_timespec_add_secs_def ts_norm_def)
next
  case False
  then show ?thesis
    using assms ts_normD [OF assms(1)]
    by (auto simp: bctbx_timespec_add_secs_def ts_norm_def)
qed

lemma mod_carry: "1000000000 < (n :: int) \<Longrightarrow> n < 2000000000 \<Longrightarrow> n mod 1000000000 = n - 1000000000"
  using minus_mod_self2 [of n 1000000000] mod_pos_pos_trivial [of "n - 1000000000" 1000000000] by simp

lemma add_millisecs_total:
  assumes n: "ts_norm ts" and lo: "- (2 ^ 62) < lap" and hi: "tv_sec ts + max 0 lap < 2 ^ 63 - 1"
  shows "\<exists>ts'. bctbx_timespec_add_millisecs ts lap = Some ts' \<and>
    total_ns ts' = max 0 (total_ns ts + lap * 1000000) \<and>
    0 \<le> tv_sec ts' \<and> 0 \<le> tv_nsec ts' \<and> tv_nsec ts' \<le> 1000000000"
proof -
  define a where "a = cdiv lap 1000"
  define m where "m = cmod lap 1000"
  have lap: "lap = 1000 * a + m" unfolding a_def m_def by (rule cdiv_cmod)
  have m: "- 1000 < m" "m < 1000" "0 \<le> lap \<Longrightarrow> 0 \<le> m \<and> 0 \<le> a" "lap \<le> 0 \<Longrightarrow> m \<le> 0 \<and> a \<le> 0"
    unfolding a_def m_def using cmod_bounds [of 1000 lap] by auto
  note t = ts_normD [OF n]
  have a: "- (2 ^ 63) < a" "tv_sec ts + a < 2 ^ 63 - 1"
  proof -
    have hi': "tv_sec ts < 2 ^ 63 - 1" "tv_sec ts + lap < 2 ^ 63 - 1" using hi by linarith+
    consider "0 \<le> lap" "0 \<le> m" "0 \<le> a" | "lap < 0" "m \<le> 0" "a \<le> 0" using m by linarith
    then show "- (2 ^ 63) < a" "tv_sec ts + a < 2 ^ 63 - 1"
      using lap m(1) lo hi' by (cases; simp)+
  qed
  define ts1 where "ts1 = (if 0 \<le> tv_sec ts + a then ts\<lparr>tv_sec := tv_sec ts + a\<rparr>
    else ts\<lparr>tv_sec := 0, tv_nsec := 0\<rparr>)"
  have s1: "(if a \<noteq> 0 then bctbx_timespec_add_secs ts a else Some ts) = Some ts1"
    using add_secs_total [OF n a(1)] a(2) t by (auto simp: ts1_def)
  have n1: "0 \<le> tv_sec ts1" "tv_sec ts1 < 2 ^ 63 - 1" "0 \<le> tv_nsec ts1" "tv_nsec ts1 < 1000000000"
    using t a by (auto simp: ts1_def)
  have tot: "max 0 (total_ns ts1 + m * 1000000) = max 0 (total_ns ts + lap * 1000000)"
    using m t lap by (auto simp: ts1_def total_ns_def)
  show ?thesis
  proof (cases "m * 1000000 < 0 \<and> - (m * 1000000) > tv_nsec ts1")
    case True
    then show ?thesis
      using n1 m tot s1 unfolding bctbx_timespec_add_millisecs_def Let_def a_def [symmetric] m_def [symmetric]
      by (auto simp: total_ns_def)
  next
    case False
    then have pos: "0 \<le> tv_nsec ts1 + m * 1000000" "tv_nsec ts1 + m * 1000000 < 2000000000"
      using n1 m by auto
    show ?thesis
      using False pos n1 m tot s1 minus_mod_eq_div_mult [of "tv_nsec ts1 + m * 1000000" 1000000000]
      unfolding bctbx_timespec_add_millisecs_def Let_def a_def [symmetric] m_def [symmetric]
      by (auto simp: total_ns_def cmod_nonneg mod_carry)
  qed
qed

lemma mul_chain_exact:
  "0 \<le> n \<Longrightarrow> \<forall>k\<in>set ks. 1 \<le> k \<Longrightarrow> n * prod_list ks < 2 ^ 31 \<Longrightarrow> mul_chain n ks = Some (n * prod_list ks)"
proof (induction ks arbitrary: n)
  case Nil then show ?case by (simp add: mul_chain_def)
next
  case (Cons k ks)
  have "1 \<le> prod_list ks" using Cons.prems(2) by (induction ks) (auto intro: order_trans mult_le_mono)
  then have "n * k * 1 \<le> n * k * prod_list ks" using Cons.prems by (intro mult_left_mono) auto
  then have r: "i32 (n * k) = Some (n * k)"
    using Cons.prems by (intro i32_Some) (auto simp: mult.assoc order_trans [of _ 0])
  have "mul_chain n (k # ks) = mul_chain (n * k) ks" by (simp add: mul_chain_def r)
  with Cons show ?case by (simp add: mult.assoc)
qed

definition unit_secs :: "char \<Rightarrow> int" where
  "unit_secs c = (case suffix_factors c of None \<Rightarrow> 0 | Some ks \<Rightarrow> prod_list ks)"

definition render_time :: "(nat \<times> char) list \<Rightarrow> string" where
  "render_time xs = concat (map (\<lambda>(n, c). show_nat n @ [c]) xs)"

lemma suffix_not_digit: "suffix_factors c \<noteq> None \<Longrightarrow> \<not> isdigit c"
  by (auto simp: suffix_factors_def isdigit_def split: if_splits)

lemma suffix_pos: "suffix_factors c = Some ks \<Longrightarrow> \<forall>k\<in>set ks. 1 \<le> k"
  by (auto simp: suffix_factors_def split: if_splits)

lemma suffix_unit: "suffix_factors c = Some ks \<Longrightarrow> unit_secs c = prod_list ks \<and> 1 \<le> unit_secs c"
  by (auto simp: unit_secs_def suffix_factors_def split: if_splits)

lemma time_string_loop_render:
  assumes "\<forall>(n, c) \<in> set xs. suffix_factors c \<noteq> None \<and> int n * unit_secs c < 2 ^ 31"
  shows "time_string_loop (render_time xs) ret =
    Some (ret + word_of_int (\<Sum>(n, c) \<leftarrow> xs. int n * unit_secs c))"
  using assms
proof (induction xs arbitrary: ret)
  case Nil then show ?case by (simp add: render_time_def time_string_loop.simps)
next
  case (Cons x xs)
  obtain n c where x: "x = (n, c)" by fastforce
  with Cons.prems obtain ks where ks: "suffix_factors c = Some ks" "int n * unit_secs c < 2 ^ 31" by auto
  have u: "unit_secs c = prod_list ks" "1 \<le> unit_secs c" using suffix_unit [OF ks(1)] by auto
  have "int n * 1 \<le> int n * unit_secs c" using u(2) by (intro mult_left_mono) auto
  then have small: "int n < 2 ^ 31" using ks(2) by simp
  let ?r = "render_time xs"
  have eq: "render_time ((n, c) # xs) = show_nat n @ c # ?r" by (simp add: render_time_def)
  have n63: "n < 2 ^ 63" using small by simp
  have p: "strtol10 (show_nat n @ c # ?r) = (int n, c # ?r)"
    using suffix_not_digit [of c] ks(1) by (intro strtol10_show_nat [OF _ n63]) simp
  have m: "mul_chain (to_i32 (int n)) ks = Some (int n * unit_secs c)"
    using mul_chain_exact [of "int n" ks] suffix_pos [OF ks(1)] ks(2) small by (simp add: u(1) to_i32_small)
  have "time_string_loop (show_nat n @ c # ?r) ret = time_string_loop ?r (ret + word_of_int (int n * unit_secs c))"
    by (subst time_string_loop.simps) (simp add: p ks(1) m)
  with Cons show ?case by (simp add: eq x algebra_simps)
qed

section \<open>Properties\<close>

text \<open>
  C36: Adding milliseconds, positive or negative, to a normalised time changes the total number of
  nanoseconds by exactly that amount, or sets the time to zero when the result would be negative;
  no signed overflow occurs away from the ends of the range, and neither field becomes negative.
\<close>

theorem timespec_add_millisecs_exact:
  assumes "ts_norm ts" "- (2 ^ 62) < lap" "tv_sec ts + max 0 lap < 2 ^ 63 - 1"
  shows "\<exists>ts'. bctbx_timespec_add_millisecs ts lap = Some ts' \<and>
    total_ns ts' = max 0 (total_ns ts + lap * 1000000) \<and>
    0 \<le> tv_sec ts' \<and> 0 \<le> tv_nsec ts' \<and> tv_nsec ts' \<le> 1000000000"
  using assms by (rule add_millisecs_total)

theorem timespec_add_millisecs_exact_witness:
  "\<exists>ts'. bctbx_timespec_add_millisecs \<lparr>tv_sec = 5, tv_nsec = 300000000\<rparr> (- 2500) = Some ts' \<and>
    total_ns ts' = 2800000000 \<and> 0 \<le> tv_sec ts' \<and> 0 \<le> tv_nsec ts' \<and> tv_nsec ts' \<le> 1000000000"
  using timespec_add_millisecs_exact [of "\<lparr>tv_sec = 5, tv_nsec = 300000000\<rparr>" "- 2500"]
  by (simp add: ts_norm_def total_ns_def)

text \<open>
  On normalised times the comparison is the sign of the difference, and so a total order;
  but one millisecond added to 0.999 s leaves the nanoseconds at one full second, and the
  comparison then finds that time earlier than the equal time of one second.
\<close>

theorem timespec_compare_order:
  assumes "ts_norm s1" "ts_norm s2"
  shows "bctbx_timespec_compare s1 s2 = Some (sgn (total_ns s1 - total_ns s2)) \<and>
    bctbx_timespec_add_millisecs \<lparr>tv_sec = 0, tv_nsec = 999000000\<rparr> 1 =
      Some \<lparr>tv_sec = 0, tv_nsec = 1000000000\<rparr> \<and>
    bctbx_timespec_compare \<lparr>tv_sec = 0, tv_nsec = 1000000000\<rparr> \<lparr>tv_sec = 1, tv_nsec = 0\<rparr> = Some (-1)"
proof (intro conjI)
  show "bctbx_timespec_compare s1 s2 = Some (sgn (total_ns s1 - total_ns s2))"
    using ts_normD [OF assms(1)] ts_normD [OF assms(2)]
    by (simp add: bctbx_timespec_compare_def total_ns_def sgn_if)
qed (simp_all add: bctbx_timespec_add_millisecs_def bctbx_timespec_compare_def cdiv_nonneg cmod_nonneg)

theorem timespec_compare_order_witness:
  "bctbx_timespec_compare \<lparr>tv_sec = 3, tv_nsec = 5\<rparr> \<lparr>tv_sec = 3, tv_nsec = 4\<rparr> = Some 1"
  using timespec_compare_order [of "\<lparr>tv_sec = 3, tv_nsec = 5\<rparr>" "\<lparr>tv_sec = 3, tv_nsec = 4\<rparr>"]
  by (simp add: ts_norm_def total_ns_def)

text \<open>
  A duration written as decimal numbers, each followed by one of the suffixes Y M W d h m s,
  is read as the sum of the parts in seconds modulo 2^32, whenever no part reaches 2^31 seconds.
\<close>

theorem time_string_sum:
  assumes "\<forall>(n, c) \<in> set xs. suffix_factors c \<noteq> None \<and> int n * unit_secs c < 2 ^ 31"
  shows "bctbx_time_string_to_sec (Some (render_time xs)) =
    Some (word_of_int (\<Sum>(n, c) \<leftarrow> xs. int n * unit_secs c))"
  using time_string_loop_render [OF assms, of 0] by (simp add: bctbx_time_string_to_sec_def)

theorem time_string_sum_witness:
  "bctbx_time_string_to_sec (Some (render_time [(1, CHR ''d''), (2, CHR ''h''), (30, CHR ''s'')])) =
    Some 93630"
  using time_string_sum [of "[(1, CHR ''d''), (2, CHR ''h''), (30, CHR ''s'')]"]
  by (simp add: unit_secs_def suffix_factors_def)

text \<open>
  \<open>bctbx_sleep_until\<close> never resumes an interrupted sleep: \<open>clock_nanosleep\<close> reports errors as a
  non-negative return value, never as -1, so the loop makes exactly one call whatever it reports.
\<close>

theorem sleep_until_single_call:
  assumes "\<And>t w. 0 \<le> fst (clock_nanosleep t w)"
  shows "bctbx_sleep_until clock_nanosleep ts w =
    Some (snd (snd (clock_nanosleep \<lparr>tv_sec = tv_sec ts, tv_nsec = tv_nsec ts\<rparr> w)))"
  using assms [of "\<lparr>tv_sec = tv_sec ts, tv_nsec = tv_nsec ts\<rparr>" w]
  by (subst bctbx_sleep_until.simps) (auto split: prod.split)

theorem sleep_until_single_call_witness:
  "bctbx_sleep_until (\<lambda>t w. (EINTR, 0, t # w)) \<lparr>tv_sec = 9, tv_nsec = 1\<rparr> [] =
    Some [\<lparr>tv_sec = 9, tv_nsec = 1\<rparr>]"
  using sleep_until_single_call [of "\<lambda>t w. (EINTR, 0, t # w)" "\<lparr>tv_sec = 9, tv_nsec = 1\<rparr>" "[]"]
  by (simp add: EINTR_def)

end
