(* ===== verification/Vfs.thy ===== *)
theory Vfs
  imports CInt
begin

text \<open>
  The virtual file system layer of src/vfs/vfs.c: the file handle with its two page caches (one
  for \<open>bctbx_file_fprintf\<close>, one for \<open>bctbx_file_get_nxtline\<close>) over the methods of a backend.  A
  method gets the \<open>pUserData\<close> pointer of the handle; everything it reads and changes is the world
  \<open>'w\<close>.  A handle pointer is an option, \<open>None\<close> being NULL.  Offsets are unbounded integers (no
  file reaches 2^63 bytes) and allocation succeeds; log calls are left out.
\<close>

unbundle bit_operations_syntax

section \<open>Constants and types\<close>

definition BCTBX_VFS_OK :: int where "BCTBX_VFS_OK = 0"
definition BCTBX_VFS_ERROR :: int where "BCTBX_VFS_ERROR = -255"
definition PRINTF_PAGE_SIZE :: nat where "PRINTF_PAGE_SIZE = 4096"
definition GETLINE_PAGE_SIZE :: nat where "GETLINE_PAGE_SIZE = 17385"

definition O_RDONLY :: int where "O_RDONLY = 0"
definition O_WRONLY :: int where "O_WRONLY = 1"
definition O_RDWR :: int where "O_RDWR = 2"
definition O_CREAT :: int where "O_CREAT = 64"
definition O_TRUNC :: int where "O_TRUNC = 512"
definition O_APPEND :: int where "O_APPEND = 1024"

definition EOT :: char where "EOT = CHR 0x04"
definition CR :: char where "CR = CHR 0x0D"
definition LF :: char where "LF = CHR 0x0A"

text \<open>
  A method returns its result with the world it leaves; \<open>pFuncRead\<close> also the characters it
  stored in the buffer, \<open>pFuncGetLineFromFd\<close> the new offset of the handle and its buffer.
\<close>

record 'w bctbx_io_methods_t =
  pFuncClose :: "ptr \<Rightarrow> 'w \<Rightarrow> int \<times> 'w"
  pFuncRead :: "ptr \<Rightarrow> nat \<Rightarrow> int \<Rightarrow> 'w \<Rightarrow> int \<times> string \<times> 'w"
  pFuncWrite :: "ptr \<Rightarrow> string \<Rightarrow> int \<Rightarrow> 'w \<Rightarrow> int \<times> 'w"
  pFuncTruncate :: "ptr \<Rightarrow> int \<Rightarrow> 'w \<Rightarrow> int \<times> 'w"
  pFuncFileSize :: "ptr \<Rightarrow> 'w \<Rightarrow> int \<times> 'w"
  pFuncSync :: "ptr \<Rightarrow> 'w \<Rightarrow> int \<times> 'w"
  pFuncGetLineFromFd :: "(ptr \<Rightarrow> int \<Rightarrow> cbuf option \<Rightarrow> int \<Rightarrow> 'w \<Rightarrow> int \<times> int \<times> cbuf option \<times> 'w) option"
  pFuncIsEncrypted :: "(ptr \<Rightarrow> 'w \<Rightarrow> bool) option"

record 'w bctbx_vfs_file_t =
  pMethods :: "'w bctbx_io_methods_t option"
  pUserData :: ptr
  offset :: int
  fPage :: "nat \<Rightarrow> char"
  fPageOffset :: int
  fSize :: nat
  gPage :: "nat \<Rightarrow> char"
  gPageOffset :: int
  gSize :: nat

record 'w bctbx_vfs_t =
  vfsName :: string
  pFuncOpen :: "string option \<Rightarrow> int \<Rightarrow> 'w bctbx_vfs_file_t \<Rightarrow> 'w \<Rightarrow> int \<times> 'w bctbx_vfs_file_t \<times> 'w"

type_synonym 'w fd_result = "(int \<times> 'w bctbx_vfs_file_t option \<times> 'w) option"

section \<open>Opening\<close>

text \<open>
  The loop of \<open>set_flags\<close> that drops the letter b: as in the source, the mode is not advanced
  past a b, so the remaining turns of the loop meet it again.
\<close>

fun clean_mode_loop :: "nat \<Rightarrow> string \<Rightarrow> string" where
  "clean_mode_loop 0 mode = []"
| "clean_mode_loop (Suc n) [] = []"
| "clean_mode_loop (Suc n) (c # mode) =
     (if c \<noteq> CHR ''b'' then c # clean_mode_loop n mode else NUL # clean_mode_loop n (c # mode))"

definition set_flags :: "string \<Rightarrow> int option" where
  "set_flags mode =
     (let clean_mode = takeWhile (\<lambda>c. c \<noteq> NUL) (clean_mode_loop 3 mode) in
      if clean_mode = ''r'' then Some O_RDONLY
      else if clean_mode = ''r+'' then Some O_RDWR
      else if clean_mode = ''w'' then Some (O_WRONLY OR O_CREAT OR O_TRUNC)
      else if clean_mode = ''w+'' then Some (O_RDWR OR O_CREAT)
      else if clean_mode = ''a'' then Some (O_WRONLY OR O_APPEND)
      else if clean_mode = ''a+'' then Some (O_RDWR OR O_APPEND)
      else None)"

definition new_file :: "'w bctbx_vfs_file_t" where
  "new_file = \<lparr>pMethods = None, pUserData = None, offset = 0, fPage = (\<lambda>_. NUL), fPageOffset = 0,
     fSize = 0, gPage = (\<lambda>_. NUL), gPageOffset = 0, gSize = 0\<rparr>"

definition file_open ::
    "'w bctbx_vfs_t option \<Rightarrow> 'w bctbx_vfs_file_t \<Rightarrow> string option \<Rightarrow> int \<Rightarrow> 'w \<Rightarrow> int \<times> 'w bctbx_vfs_file_t \<times> 'w" where
  "file_open pVfs pFile fName oflags w =
     (case pVfs of
        None \<Rightarrow> (BCTBX_VFS_ERROR, pFile, w)
      | Some v \<Rightarrow>
          (let (ret, f, w1) = pFuncOpen v fName oflags pFile w in
           if ret = BCTBX_VFS_ERROR then (ret, f, w1)
           else if ret < 0 then (BCTBX_VFS_ERROR, f, w1) else (ret, f, w1)))"

definition bctbx_file_open2 ::
    "'w bctbx_vfs_t option \<Rightarrow> string option \<Rightarrow> int \<Rightarrow> 'w \<Rightarrow> 'w bctbx_vfs_file_t option \<times> 'w" where
  "bctbx_file_open2 pVfs fName openFlags w =
     (let (ret, f, w1) = file_open pVfs new_file fName openFlags w in
      (if ret = BCTBX_VFS_OK then Some f else None, w1))"

definition bctbx_file_open ::
    "'w bctbx_vfs_t option \<Rightarrow> string option \<Rightarrow> string \<Rightarrow> 'w \<Rightarrow> ('w bctbx_vfs_file_t option \<times> 'w) option" where
  "bctbx_file_open pVfs fName mode w = do {
     oflags \<leftarrow> set_flags mode;
     let (ret, f, w1) = file_open pVfs new_file fName oflags w;
     Some (if ret = BCTBX_VFS_OK then Some f else None, w1) }"

section \<open>Writing and flushing\<close>

text \<open>
  \<open>bctbx_file_write\<close> flushes the pending page first, and the flush writes the page through
  \<open>bctbx_file_write\<close>: it empties the cache beforehand so that the recursion stops.
\<close>

function bctbx_file_write ::
    "'w bctbx_vfs_file_t option \<Rightarrow> string \<Rightarrow> int \<Rightarrow> 'w \<Rightarrow> (int \<times> 'w bctbx_vfs_file_t option \<times> 'w) option"
  and bctbx_file_flush ::
    "'w bctbx_vfs_file_t option \<Rightarrow> 'w \<Rightarrow> (int \<times> 'w bctbx_vfs_file_t option \<times> 'w) option" where
  "bctbx_file_write pFile buf off w =
     (if pFile = None then Some (BCTBX_VFS_ERROR, pFile, w)
      else case bctbx_file_flush pFile w of
        None \<Rightarrow> None
      | Some (r, None, w1) \<Rightarrow> None
      | Some (r, Some f, w1) \<Rightarrow>
          if r < 0 then Some (BCTBX_VFS_ERROR, Some f, w1)
          else (case pMethods f of
            None \<Rightarrow> None
          | Some m \<Rightarrow>
              (let (ret, w2) = pFuncWrite m (pUserData f) buf off w1 in
               if ret < 0 then Some (BCTBX_VFS_ERROR, Some f, w2)
               else Some (ret, Some (f\<lparr>gSize := 0\<rparr>), w2))))"
| "bctbx_file_flush pFile w =
     (case pFile of
        None \<Rightarrow> None
      | Some f \<Rightarrow>
          if fSize f = 0 then Some (0, Some f, w)
          else if PRINTF_PAGE_SIZE < fSize f then None
          else case bctbx_file_write (Some (f\<lparr>fSize := 0\<rparr>)) (aslice (fPage f) 0 (fSize f)) (fPageOffset f) w of
            None \<Rightarrow> None
          | Some (r, None, w1) \<Rightarrow> None
          | Some (r, Some f1, w1) \<Rightarrow>
              if r < 0 then Some (r, Some (f1\<lparr>fSize := fSize f\<rparr>), w1) else Some (r, Some f1, w1))"
  by pat_completeness auto
termination
  by (relation "measure (\<lambda>x. case x of
        Inl (pFile, _, _, _) \<Rightarrow> (case pFile of None \<Rightarrow> 0 | Some f \<Rightarrow> if fSize f = 0 then 1 else 3)
      | Inr (pFile, _) \<Rightarrow> (case pFile of None \<Rightarrow> 0 | Some f \<Rightarrow> if fSize f = 0 then 0 else 2))")
    (auto split: option.splits)

declare bctbx_file_write.simps [simp del] bctbx_file_flush.simps [simp del]

text \<open>The pattern of the operations on an open handle: flush, give up on an error, go on.\<close>

definition with_flush ::
    "'w bctbx_vfs_file_t option \<Rightarrow> 'w \<Rightarrow> (int \<Rightarrow> 'w bctbx_vfs_file_t \<Rightarrow> 'w \<Rightarrow> 'r option) \<Rightarrow>
     ('w bctbx_vfs_file_t \<Rightarrow> 'w bctbx_io_methods_t \<Rightarrow> 'w \<Rightarrow> 'r option) \<Rightarrow> 'r option" where
  "with_flush pFile w failed go = do {
     (r, p, w1) \<leftarrow> bctbx_file_flush pFile w;
     f \<leftarrow> p;
     if r < 0 then failed r f w1
     else do { m \<leftarrow> pMethods f; go f m w1 } }"

section \<open>Reading, size and position\<close>

definition bctbx_file_read ::
    "'w bctbx_vfs_file_t option \<Rightarrow> nat \<Rightarrow> int \<Rightarrow> 'w \<Rightarrow>
     (int \<times> string \<times> 'w bctbx_vfs_file_t option \<times> 'w) option" where
  "bctbx_file_read pFile cnt off w =
     (if pFile = None then Some (BCTBX_VFS_ERROR, [], None, w)
      else with_flush pFile w
        (\<lambda>r f w1. Some (BCTBX_VFS_ERROR, [], Some f, w1))
        (\<lambda>f m w1. let (ret, data, w2) = pFuncRead m (pUserData f) cnt off w1 in
           if ret < 0 then Some (BCTBX_VFS_ERROR, data, Some f, w2)
           else Some (ret, data, Some f, w2)))"

definition bctbx_file_size :: "'w bctbx_vfs_file_t option \<Rightarrow> 'w \<Rightarrow> 'w fd_result" where
  "bctbx_file_size pFile w =
     (if pFile = None then Some (BCTBX_VFS_ERROR, None, w)
      else with_flush pFile w
        (\<lambda>r f w1. Some (BCTBX_VFS_ERROR, Some f, w1))
        (\<lambda>f m w1. let (ret, w2) = pFuncFileSize m (pUserData f) w1 in Some (ret, Some f, w2)))"

definition bctbx_file_sync :: "'w bctbx_vfs_file_t option \<Rightarrow> 'w \<Rightarrow> 'w fd_result" where
  "bctbx_file_sync pFile w =
     (if pFile = None then Some (BCTBX_VFS_ERROR, None, w)
      else with_flush pFile w
        (\<lambda>r f w1. Some (BCTBX_VFS_ERROR, Some f, w1))
        (\<lambda>f m w1. let (ret, w2) = pFuncSync m (pUserData f) w1 in Some (ret, Some f, w2)))"

definition bctbx_file_truncate :: "'w bctbx_vfs_file_t option \<Rightarrow> int \<Rightarrow> 'w \<Rightarrow> 'w fd_result" where
  "bctbx_file_truncate pFile new_size w =
     (if pFile = None then Some (BCTBX_VFS_ERROR, None, w)
      else with_flush pFile w
        (\<lambda>r f w1. Some (BCTBX_VFS_ERROR, Some f, w1))
        (\<lambda>f m w1. let (ret, w2) = pFuncTruncate m (pUserData f) new_size w1 in Some (ret, Some f, w2)))"

definition SEEK_SET :: int where "SEEK_SET = 0"
definition SEEK_CUR :: int where "SEEK_CUR = 1"
definition SEEK_END :: int where "SEEK_END = 2"

definition bctbx_file_seek :: "'w bctbx_vfs_file_t option \<Rightarrow> int \<Rightarrow> int \<Rightarrow> 'w \<Rightarrow> 'w fd_result" where
  "bctbx_file_seek pFile off whence w = do {
     (r, p, w1) \<leftarrow> bctbx_file_flush pFile w;
     if r < 0 then Some (BCTBX_VFS_ERROR, p, w1)
     else do {
       f \<leftarrow> p;
       if whence = SEEK_SET then Some (off, Some (f\<lparr>offset := off\<rparr>), w1)
       else if whence = SEEK_CUR then Some (offset f + off, Some (f\<lparr>offset := offset f + off\<rparr>), w1)
       else if whence = SEEK_END
       then do {
         (n, p2, w2) \<leftarrow> bctbx_file_size (Some f) w1;
         f2 \<leftarrow> p2;
         Some (n + off, Some (f2\<lparr>offset := n + off\<rparr>), w2) }
       else Some (BCTBX_VFS_ERROR, Some f, w1) } }"

text \<open>The two-argument forms read \<open>pFile->offset\<close> before any check of the pointer.\<close>

definition bctbx_file_write2 :: "'w bctbx_vfs_file_t option \<Rightarrow> string \<Rightarrow> 'w \<Rightarrow> 'w fd_result" where
  "bctbx_file_write2 pFile buf w = do {
     f \<leftarrow> pFile;
     (ret, p1, w1) \<leftarrow> bctbx_file_write pFile buf (offset f) w;
     if ret \<noteq> BCTBX_VFS_ERROR
     then do { (_, p2, w2) \<leftarrow> bctbx_file_seek p1 ret SEEK_CUR w1; Some (ret, p2, w2) }
     else Some (ret, p1, w1) }"

definition bctbx_file_read2 ::
    "'w bctbx_vfs_file_t option \<Rightarrow> nat \<Rightarrow> 'w \<Rightarrow> (int \<times> string \<times> 'w bctbx_vfs_file_t option \<times> 'w) option" where
  "bctbx_file_read2 pFile cnt w = do {
     f \<leftarrow> pFile;
     (ret, data, p1, w1) \<leftarrow> bctbx_file_read pFile cnt (offset f) w;
     if ret \<noteq> BCTBX_VFS_ERROR
     then do { (_, p2, w2) \<leftarrow> bctbx_file_seek p1 ret SEEK_CUR w1; Some (ret, data, p2, w2) }
     else Some (ret, data, p1, w1) }"

section \<open>Closing\<close>

definition bctbx_file_is_encrypted :: "'w bctbx_vfs_file_t option \<Rightarrow> 'w \<Rightarrow> bool" where
  "bctbx_file_is_encrypted pFile w =
     (case pFile of
        None \<Rightarrow> False
      | Some f \<Rightarrow>
          (case pMethods f of
             None \<Rightarrow> False
           | Some m \<Rightarrow> (case pFuncIsEncrypted m of None \<Rightarrow> False | Some e \<Rightarrow> e (pUserData f) w)))"

text \<open>\<open>bctbx_clean\<close> zeroes a block of memory.\<close>

definition bctbx_clean :: "(nat \<Rightarrow> char) \<Rightarrow> nat \<Rightarrow> (nat \<Rightarrow> char)" where
  "bctbx_clean arr n = memcpy_to arr 0 (replicate n NUL)"

text \<open>
  Closing frees the handle, except when the flush fails.  \<open>Freed\<close> carries what the freed memory
  held.
\<close>

datatype 'w closed = Live "'w bctbx_vfs_file_t" | Freed "'w bctbx_vfs_file_t option"

definition bctbx_file_close :: "'w bctbx_vfs_file_t option \<Rightarrow> 'w \<Rightarrow> (int \<times> 'w closed \<times> 'w) option" where
  "bctbx_file_close pFile w =
     (if pFile = None then Some (BCTBX_VFS_ERROR, Freed None, w)
      else with_flush pFile w
        (\<lambda>r f w1. Some (BCTBX_VFS_ERROR, Live f, w1))
        (\<lambda>f m w1.
           let f1 = (if bctbx_file_is_encrypted (Some f) w1
                     then f\<lparr>fPage := bctbx_clean (fPage f) PRINTF_PAGE_SIZE,
                            gPage := bctbx_clean (gPage f) GETLINE_PAGE_SIZE\<rparr>
                     else f);
               (ret, w2) = pFuncClose m (pUserData f1) w1
           in Some (ret, Freed (Some f1), w2)))"

section \<open>Formatted output\<close>

text \<open>
  \<open>bctbx_file_fprintf\<close> for the formatted text \<open>out\<close> (\<open>None\<close> when formatting failed).  The page
  is one block of \<open>PRINTF_PAGE_SIZE\<close> bytes, so that a page with no room left cannot be written.
\<close>

definition bctbx_file_fprintf ::
    "'w bctbx_vfs_file_t option \<Rightarrow> int \<Rightarrow> string option \<Rightarrow> 'w \<Rightarrow> 'w fd_result" where
  "bctbx_file_fprintf pFile off out w =
     (case out of
        None \<Rightarrow> Some (BCTBX_VFS_ERROR, pFile, w)
      | Some ret \<Rightarrow> do {
          let cnt = length ret;
          (p1, w1) \<leftarrow>
            (if off \<noteq> 0
             then do {
               (_, p, w1) \<leftarrow> bctbx_file_flush pFile w;
               f \<leftarrow> p;
               Some (Some (f\<lparr>offset := off\<rparr>), w1) }
             else Some (pFile, w));
          f \<leftarrow> p1;
          if cnt + fSize f < PRINTF_PAGE_SIZE
          then Some (int cnt,
                 Some (f\<lparr>fPage := memcpy_to (fPage f) (fSize f) ret,
                         fPageOffset := (if fSize f = 0 then offset f else fPageOffset f),
                         offset := offset f + int cnt,
                         fSize := fSize f + cnt,
                         gSize := 0\<rparr>), w1)
          else if fSize f > 0
          then do {
            _ \<leftarrow> require (fSize f \<le> PRINTF_PAGE_SIZE);
            let buf = aslice (fPage f) 0 (fSize f) @ ret;
            (r, p2, w2) \<leftarrow> bctbx_file_write (Some (f\<lparr>fSize := 0\<rparr>)) buf (fPageOffset f) w1;
            f2 \<leftarrow> p2;
            if r < 0 then Some (r, Some (f2\<lparr>fSize := fSize f\<rparr>), w2)
            else Some (int cnt, Some (f2\<lparr>offset := offset f2 + int cnt\<rparr>), w2) }
          else do {
            (r, p2, w2) \<leftarrow> bctbx_file_write (Some f) ret (offset f) w1;
            f2 \<leftarrow> p2;
            Some (r, Some (if r > 0 then f2\<lparr>offset := offset f2 + r\<rparr> else f2), w2) } })"

section \<open>Reading lines\<close>

definition findNextLine :: "string \<Rightarrow> nat option" where
  "findNextLine buf =
     (case (strchr buf CR, strchr buf LF) of
        (Some r, Some n) \<Rightarrow> Some (min r n)
      | (Some r, None) \<Rightarrow> Some r
      | (None, n) \<Rightarrow> n)"

text \<open>The C string that starts at index \<open>i\<close> of an array of \<open>n\<close> characters.\<close>

definition cstr_at :: "(nat \<Rightarrow> char) \<Rightarrow> nat \<Rightarrow> nat \<Rightarrow> string option" where
  "cstr_at arr i n =
     (let s = aslice arr i (n - i) in
      if NUL \<in> set s then Some (takeWhile (\<lambda>c. c \<noteq> NUL) s) else None)"

text \<open>How far the offset moves past the end of line at index \<open>k\<close> of \<open>c\<close>.\<close>

definition line_step :: "string \<Rightarrow> nat \<Rightarrow> nat" where
  "line_step c k = k + 1 + (if cat c k = CR \<and> cat c (k + 1) = LF then 1 else 0)"

definition in_get_cache :: "'w bctbx_vfs_file_t \<Rightarrow> bool" where
  "in_get_cache f \<longleftrightarrow>
     gSize f > 0 \<and> gPageOffset f \<le> offset f \<and> gPageOffset f + int (gSize f) > offset f"

text \<open>Keeping the chunk just read into the buffer as the cached page.\<close>

definition store_chunk ::
    "'w bctbx_vfs_file_t \<Rightarrow> cbuf \<Rightarrow> int \<Rightarrow> int \<Rightarrow> 'w bctbx_vfs_file_t option" where
  "store_chunk f s max_len ret =
     (if max_len - 1 < int GETLINE_PAGE_SIZE
      then do {
        let readSize = nat ret;
        let page = memcpy_to (gPage f) 0 (aslice (bytes s) 0 readSize);
        let (page, n) = (if ret < max_len - 1 then (page(readSize := EOT), readSize + 1)
                         else (page, readSize));
        _ \<leftarrow> require (n \<le> GETLINE_PAGE_SIZE);
        Some (f\<lparr>gPage := page(n := NUL), gPageOffset := offset f, gSize := n\<rparr>) }
      else Some f)"

text \<open>The second half of the function: a line that is not in the cache is read from the file.\<close>

definition nxtline_from_file ::
    "'w bctbx_vfs_file_t \<Rightarrow> cbuf \<Rightarrow> int \<Rightarrow> 'w \<Rightarrow> (int \<times> cbuf option \<times> 'w bctbx_vfs_file_t option \<times> 'w) option" where
  "nxtline_from_file f s max_len w = do {
     s1 \<leftarrow> buf_write s (nat (max_len - 1)) [NUL];
     (ret, data, p, w1) \<leftarrow> bctbx_file_read (Some f) (nat (max_len - 1)) (offset f) w;
     f1 \<leftarrow> p;
     s2 \<leftarrow> buf_write s1 0 data;
     if ret > 0
     then do {
       let readSize = nat ret;
       _ \<leftarrow> require (readSize \<le> size_of s2);
       f2 \<leftarrow> store_chunk f1 s2 max_len ret;
       c \<leftarrow> cstr_at (bytes s2) 0 (size_of s2);
       case findNextLine c of
         Some k \<Rightarrow> do {
           s3 \<leftarrow> buf_write s2 k [NUL];
           Some (int (k + 1), Some s3, Some (f2\<lparr>offset := offset f2 + int (line_step c k)\<rparr>), w1) }
       | None \<Rightarrow> do {
           s3 \<leftarrow> buf_write s2 readSize [NUL];
           Some (ret, Some s3, Some (f2\<lparr>offset := offset f2 + ret\<rparr>), w1) } }
     else Some (0, Some s2, Some f1, w1) }"

definition bctbx_generic_get_nxtline ::
    "'w bctbx_vfs_file_t option \<Rightarrow> cbuf option \<Rightarrow> int \<Rightarrow> 'w \<Rightarrow>
     (int \<times> cbuf option \<times> 'w bctbx_vfs_file_t option \<times> 'w) option" where
  "bctbx_generic_get_nxtline pFile sp max_len w =
     (case (pFile, sp) of
        (Some _, Some s) \<Rightarrow>
          if max_len < 1 then Some (BCTBX_VFS_ERROR, sp, pFile, w)
          else do {
            (r, p, w1) \<leftarrow> bctbx_file_flush pFile w;
            f \<leftarrow> p;
            if r < 0 then Some (BCTBX_VFS_ERROR, sp, Some f, w1)
            else if in_get_cache f
            then do {
              let i = nat (offset f - gPageOffset f);
              c \<leftarrow> cstr_at (gPage f) i (GETLINE_PAGE_SIZE + 1);
              case findNextLine c of
                Some k \<Rightarrow> do {
                  s1 \<leftarrow> buf_write s 0 (take k c @ [NUL]);
                  Some (int (k + 1), Some s1, Some (f\<lparr>offset := offset f + int (line_step c k)\<rparr>), w1) }
              | None \<Rightarrow>
                  if gPage f (gSize f - 1) = EOT
                  then do {
                    let sizeofline = gSize f - i - 1;
                    s1 \<leftarrow> buf_write s 0 (aslice (gPage f) i sizeofline @ [NUL]);
                    Some (int sizeofline, Some s1, Some (f\<lparr>offset := offset f + int sizeofline\<rparr>), w1) }
                  else nxtline_from_file f s max_len w1 }
            else nxtline_from_file f s max_len w1 }
      | _ \<Rightarrow> Some (BCTBX_VFS_ERROR, sp, pFile, w))"

definition bctbx_file_get_nxtline ::
    "'w bctbx_vfs_file_t option \<Rightarrow> cbuf option \<Rightarrow> int \<Rightarrow> 'w \<Rightarrow>
     (int \<times> cbuf option \<times> 'w bctbx_vfs_file_t option \<times> 'w) option" where
  "bctbx_file_get_nxtline pFile s maxlen w =
     (if pFile = None then Some (BCTBX_VFS_ERROR, s, None, w)
      else do {
        (r, p, w1) \<leftarrow> bctbx_file_flush pFile w;
        f \<leftarrow> p;
        if r < 0 then Some (BCTBX_VFS_ERROR, s, Some f, w1)
        else case Option.bind (pMethods f) pFuncGetLineFromFd of
          Some g \<Rightarrow>
            (let (ret, off', s', w2) = g (pUserData f) (offset f) s maxlen w1
             in Some (ret, s', Some (f\<lparr>offset := off'\<rparr>), w2))
        | None \<Rightarrow> bctbx_generic_get_nxtline (Some f) s maxlen w1 })"

section \<open>The default file system\<close>

text \<open>\<open>pDefaultVfs\<close> is a global of the module, first the standard file system.\<close>

record 'v vfs_globals =
  bcStandardVfs :: 'v
  pDefaultVfs :: "'v option"

definition bctbx_vfs_set_default :: "'v option \<Rightarrow> 'v vfs_globals \<Rightarrow> 'v vfs_globals" where
  "bctbx_vfs_set_default my_vfs g = g\<lparr>pDefaultVfs := my_vfs\<rparr>"

definition bctbx_vfs_get_default :: "'v vfs_globals \<Rightarrow> 'v option" where
  "bctbx_vfs_get_default g = pDefaultVfs g"

definition bctbx_vfs_get_standard :: "'v vfs_globals \<Rightarrow> 'v" where
  "bctbx_vfs_get_standard g = bcStandardVfs g"

end
