(* ===== verification/VfsContract.thy ===== *)
theory VfsContract
  imports Vfs
begin

text \<open>
  What a backend promises to src/vfs/vfs.c, as the locale \<open>vfs_backend\<close>, and what vfs.c then
  promises to its callers: the two page caches are invisible.  A file is specified by its content
  and a position; every operation of a handle answers as this specification does.
\<close>

section \<open>The content of a file\<close>

text \<open>Overwriting at an offset; a gap after the end is filled with NUL, writing nothing does nothing.\<close>

definition splice :: "string \<Rightarrow> nat \<Rightarrow> string \<Rightarrow> string" where
  "splice s off d =
     (if d = [] then s
      else take off s @ replicate (off - length s) NUL @ d @ drop (off + length d) s)"

lemma splice_Nil [simp]: "splice s off [] = s"
  by (simp add: splice_def)

lemma splice_append: "splice (splice s p a) (p + length a) b = splice s p (a @ b)"
  by (auto simp: splice_def min_def not_le add_ac)

lemma splice_end: "splice s (length s) d = s @ d"
  by (simp add: splice_def)

section \<open>The specification\<close>

datatype file_cmd =
    WriteAt string nat
  | Write2 string
  | Fprintf nat string
  | ReadAt nat nat
  | Read2 nat
  | SeekSet nat
  | SeekCur nat
  | SeekEnd nat
  | Size
  | Sync

type_synonym answer = "int \<times> string"

fun spec_step :: "file_cmd \<Rightarrow> string \<times> nat \<Rightarrow> answer \<times> string \<times> nat" where
  "spec_step (WriteAt d off) (c, pos) = ((int (length d), []), splice c off d, pos)"
| "spec_step (Write2 d) (c, pos) = ((int (length d), []), splice c pos d, pos + length d)"
| "spec_step (Fprintf off d) (c, pos) =
     (let p = (if off \<noteq> 0 then off else pos) in ((int (length d), []), splice c p d, p + length d))"
| "spec_step (ReadAt n off) (c, pos) =
     (let d = take n (drop off c) in ((int (length d), d), c, pos))"
| "spec_step (Read2 n) (c, pos) =
     (let d = take n (drop pos c) in ((int (length d), d), c, pos + length d))"
| "spec_step (SeekSet off) (c, pos) = ((int off, []), c, off)"
| "spec_step (SeekCur off) (c, pos) = ((int (pos + off), []), c, pos + off)"
| "spec_step (SeekEnd off) (c, pos) = ((int (length c + off), []), c, length c + off)"
| "spec_step Size (c, pos) = ((int (length c), []), c, pos)"
| "spec_step Sync (c, pos) = ((0, []), c, pos)"

fun spec_run :: "file_cmd list \<Rightarrow> string \<times> nat \<Rightarrow> answer list \<times> string \<times> nat" where
  "spec_run [] s = ([], s)"
| "spec_run (x # xs) s =
     (let (a, s1) = spec_step x s; (as, s2) = spec_run xs s1 in (a # as, s2))"

text \<open>
  The commands that stay in the range of a backend: \<open>rd off n\<close> and \<open>wr off d\<close> say which reads and writes it
  admits.
\<close>

fun in_range :: "(nat \<Rightarrow> nat \<Rightarrow> bool) \<Rightarrow> (nat \<Rightarrow> string \<Rightarrow> bool) \<Rightarrow> file_cmd \<Rightarrow> string \<times> nat \<Rightarrow> bool" where
  "in_range rd wr (WriteAt d off) s = wr off d"
| "in_range rd wr (Write2 d) (c, pos) = wr pos d"
| "in_range rd wr (Fprintf off d) (c, pos) = (d = [] \<or> wr (if off \<noteq> 0 then off else pos) d)"
| "in_range rd wr (ReadAt n off) s = rd off n"
| "in_range rd wr (Read2 n) (c, pos) = rd pos n"
| "in_range rd wr x s = True"

fun run_in_range :: "(nat \<Rightarrow> nat \<Rightarrow> bool) \<Rightarrow> (nat \<Rightarrow> string \<Rightarrow> bool) \<Rightarrow> file_cmd list \<Rightarrow> string \<times> nat \<Rightarrow> bool" where
  "run_in_range rd wr [] s = True"
| "run_in_range rd wr (x # xs) s = (in_range rd wr x s \<and> run_in_range rd wr xs (snd (spec_step x s)))"

lemma in_range_all: "in_range (\<lambda>_ _. True) (\<lambda>_ _. True) x s"
  by (cases x; cases s) simp_all

lemma run_in_range_all: "run_in_range (\<lambda>_ _. True) (\<lambda>_ _. True) xs s"
  by (induction xs arbitrary: s) (simp_all add: in_range_all)

fun file_step ::
    "file_cmd \<Rightarrow> 'w bctbx_vfs_file_t option \<Rightarrow> 'w \<Rightarrow> (answer \<times> 'w bctbx_vfs_file_t option \<times> 'w) option" where
  "file_step (WriteAt d off) p w =
     map_option (\<lambda>(r, p, w). ((r, []), p, w)) (bctbx_file_write p d (int off) w)"
| "file_step (Write2 d) p w = map_option (\<lambda>(r, p, w). ((r, []), p, w)) (bctbx_file_write2 p d w)"
| "file_step (Fprintf off d) p w =
     map_option (\<lambda>(r, p, w). ((r, []), p, w)) (bctbx_file_fprintf p (int off) (Some d) w)"
| "file_step (ReadAt n off) p w =
     map_option (\<lambda>(r, d, p, w). ((r, d), p, w)) (bctbx_file_read p n (int off) w)"
| "file_step (Read2 n) p w =
     map_option (\<lambda>(r, d, p, w). ((r, d), p, w)) (bctbx_file_read2 p n w)"
| "file_step (SeekSet off) p w =
     map_option (\<lambda>(r, p, w). ((r, []), p, w)) (bctbx_file_seek p (int off) SEEK_SET w)"
| "file_step (SeekCur off) p w =
     map_option (\<lambda>(r, p, w). ((r, []), p, w)) (bctbx_file_seek p (int off) SEEK_CUR w)"
| "file_step (SeekEnd off) p w =
     map_option (\<lambda>(r, p, w). ((r, []), p, w)) (bctbx_file_seek p (int off) SEEK_END w)"
| "file_step Size p w = map_option (\<lambda>(r, p, w). ((r, []), p, w)) (bctbx_file_size p w)"
| "file_step Sync p w = map_option (\<lambda>(r, p, w). ((r, []), p, w)) (bctbx_file_sync p w)"

fun file_run ::
    "file_cmd list \<Rightarrow> 'w bctbx_vfs_file_t option \<Rightarrow> 'w \<Rightarrow> (answer list \<times> 'w bctbx_vfs_file_t option \<times> 'w) option" where
  "file_run [] p w = Some ([], p, w)"
| "file_run (x # xs) p w = do {
     (a, p1, w1) \<leftarrow> file_step x p w;
     (as, p2, w2) \<leftarrow> file_run xs p1 w1;
     Some (a # as, p2, w2) }"

section \<open>Handles\<close>

text \<open>
  The get_nxtline page of a handle agrees with a content: it holds a part of it, or the rest of it
  followed by the end-of-file mark.
\<close>

definition get_cache_ok :: "'w bctbx_vfs_file_t \<Rightarrow> string \<Rightarrow> bool" where
  "get_cache_ok f c \<longleftrightarrow>
     gSize f = 0 \<or>
     (0 \<le> gPageOffset f \<and> gSize f \<le> GETLINE_PAGE_SIZE \<and> gPage f (gSize f) = NUL \<and>
      (let rest = drop (nat (gPageOffset f)) c; page = aslice (gPage f) 0 (gSize f) in
       page = take (gSize f) rest \<or> page = rest @ [EOT]))"

definition handle_ok :: "'w bctbx_io_methods_t \<Rightarrow> 'w bctbx_vfs_file_t \<Rightarrow> bool" where
  "handle_ok M f \<longleftrightarrow>
     pMethods f = Some M \<and> 0 \<le> offset f \<and> 0 \<le> fPageOffset f \<and> fSize f < PRINTF_PAGE_SIZE \<and>
     (0 < fSize f \<longrightarrow> offset f = fPageOffset f + int (fSize f) \<and> gSize f = 0)"

locale vfs_backend =
  fixes M :: "'w bctbx_io_methods_t"
    and content :: "'w \<Rightarrow> ptr \<Rightarrow> string"
    and ready :: "'w \<Rightarrow> ptr \<Rightarrow> bool"
    and readable :: "nat \<Rightarrow> nat \<Rightarrow> bool"
    and writable :: "nat \<Rightarrow> string \<Rightarrow> bool"
  assumes generic_getline: "pFuncGetLineFromFd M = None"
    and write_law: "ready w u \<Longrightarrow> writable off d \<Longrightarrow> \<exists>w'. pFuncWrite M u d (int off) w = (int (length d), w') \<and>
      ready w' u \<and> content w' u = splice (content w u) off d"
    and read_law: "ready w u \<Longrightarrow> readable off n \<Longrightarrow> \<exists>w'. pFuncRead M u n (int off) w =
        (int (length (take n (drop off (content w u)))), take n (drop off (content w u)), w') \<and>
      ready w' u \<and> content w' u = content w u"
    and size_law: "ready w u \<Longrightarrow> \<exists>w'. pFuncFileSize M u w = (int (length (content w u)), w') \<and>
      ready w' u \<and> content w' u = content w u"
    and sync_law: "ready w u \<Longrightarrow> \<exists>w'. pFuncSync M u w = (0, w') \<and> ready w' u \<and> content w' u = content w u"
    and writable_append: "writable off a \<Longrightarrow> writable (off + length a) b \<Longrightarrow> writable off (a @ b)"
begin

text \<open>The content as the caller sees it: what is in the file with the pending page over it.\<close>

definition view :: "'w bctbx_vfs_file_t \<Rightarrow> 'w \<Rightarrow> string" where
  "view f w = splice (content w (pUserData f)) (nat (fPageOffset f)) (aslice (fPage f) 0 (fSize f))"

definition rep :: "'w bctbx_vfs_file_t \<Rightarrow> 'w \<Rightarrow> string \<times> nat \<Rightarrow> bool" where
  "rep f w s \<longleftrightarrow> handle_ok M f \<and> ready w (pUserData f) \<and> get_cache_ok f (view f w) \<and>
     (0 < fSize f \<longrightarrow> writable (nat (fPageOffset f)) (aslice (fPage f) 0 (fSize f))) \<and>
     s = (view f w, nat (offset f))"

lemma view_flushed: "fSize f = 0 \<Longrightarrow> view f w = content w (pUserData f)"
  by (simp add: view_def)

lemma write_flushed:
  assumes "handle_ok M f" "ready w (pUserData f)" "fSize f = 0" "writable off d"
  shows "\<exists>w'. bctbx_file_write (Some f) d (int off) w = Some (int (length d), Some (f\<lparr>gSize := 0\<rparr>), w') \<and>
    ready w' (pUserData f) \<and> content w' (pUserData f) = splice (content w (pUserData f)) off d"
proof -
  obtain w' where "pFuncWrite M (pUserData f) d (int off) w = (int (length d), w')"
    "ready w' (pUserData f)" "content w' (pUserData f) = splice (content w (pUserData f)) off d"
    using write_law [OF assms(2,4)] by blast
  then show ?thesis
    using assms by (simp add: bctbx_file_write.simps bctbx_file_flush.simps handle_ok_def)
qed

lemma flush_rep:
  assumes "rep f w s"
  shows "\<exists>r f' w'. bctbx_file_flush (Some f) w = Some (r, Some f', w') \<and> 0 \<le> r \<and> fSize f' = 0 \<and>
    rep f' w' s \<and> gSize f' \<le> gSize f \<and> (fSize f = 0 \<longrightarrow> f' = f)"
proof (cases "fSize f = 0")
  case True
  with assms show ?thesis by (auto simp: bctbx_file_flush.simps)
next
  case False
  from assms have h: "handle_ok M (f\<lparr>fSize := 0\<rparr>)" "ready w (pUserData (f\<lparr>fSize := 0\<rparr>))" "fSize (f\<lparr>fSize := 0\<rparr>) = 0"
    by (auto simp: rep_def handle_ok_def PRINTF_PAGE_SIZE_def)
  let ?d = "aslice (fPage f) 0 (fSize f)"
  have wr: "writable (nat (fPageOffset f)) ?d" using False assms by (simp add: rep_def)
  have po: "int (nat (fPageOffset f)) = fPageOffset f" and sz: "\<not> PRINTF_PAGE_SIZE < fSize f"
    using assms by (auto simp: rep_def handle_ok_def)
  obtain w' where w': "bctbx_file_write (Some (f\<lparr>fSize := 0\<rparr>)) ?d (fPageOffset f) w =
      Some (int (length ?d), Some (f\<lparr>fSize := 0, gSize := 0\<rparr>), w')" "ready w' (pUserData f)"
    "content w' (pUserData f) = splice (content w (pUserData f)) (nat (fPageOffset f)) ?d"
    using write_flushed [OF h wr] unfolding po by auto
  have "view (f\<lparr>fSize := 0, gSize := 0\<rparr>) w' = view f w"
    using w'(3) by (simp add: view_def)
  then have "rep (f\<lparr>fSize := 0, gSize := 0\<rparr>) w' s"
    using assms w'(2) by (auto simp: rep_def handle_ok_def get_cache_ok_def)
  moreover have "bctbx_file_flush (Some f) w = Some (int (fSize f), Some (f\<lparr>fSize := 0, gSize := 0\<rparr>), w')"
    using False sz w'(1) by (subst bctbx_file_flush.simps) simp
  ultimately show ?thesis using False by auto
qed

lemma flush_repE:
  assumes "rep f w (c, pos)"
  obtains r f' w' where "bctbx_file_flush (Some f) w = Some (r, Some f', w')" "0 \<le> r" "fSize f' = 0"
    "rep f' w' (c, pos)" "fSize f = 0 \<longrightarrow> f' = f" "pMethods f' = Some M"
    "gSize f' \<le> gSize f"
  using flush_rep [OF assms] by (auto simp: rep_def handle_ok_def)

lemma rep_flushed:
  "fSize f = 0 \<Longrightarrow> rep f w s \<longleftrightarrow>
     handle_ok M f \<and> ready w (pUserData f) \<and> get_cache_ok f (content w (pUserData f)) \<and>
     s = (content w (pUserData f), nat (offset f))"
  by (simp add: rep_def view_flushed)

lemma get_cache_ok_upd [simp]:
  "get_cache_ok (f\<lparr>offset := i\<rparr>) c = get_cache_ok f c" "get_cache_ok (f\<lparr>gSize := 0\<rparr>) c"
  by (simp_all add: get_cache_ok_def)

lemma write_rep:
  assumes "rep f w (c, pos)" "writable off d"
  shows "\<exists>f' w'. bctbx_file_write (Some f) d (int off) w = Some (int (length d), Some f', w') \<and>
    rep f' w' (splice c off d, pos) \<and> fSize f' = 0"
proof -
  obtain r f1 w1 where f1: "bctbx_file_flush (Some f) w = Some (r, Some f1, w1)" "0 \<le> r" "fSize f1 = 0"
    "rep f1 w1 (c, pos)"
    using flush_repE [OF assms(1)] by metis
  then have h: "handle_ok M f1" "ready w1 (pUserData f1)" by (auto simp: rep_def)
  obtain w2 where w2: "pFuncWrite M (pUserData f1) d (int off) w1 = (int (length d), w2)"
    "ready w2 (pUserData f1)" "content w2 (pUserData f1) = splice (content w1 (pUserData f1)) off d"
    using write_law [OF h(2) assms(2)] by blast
  have "bctbx_file_write (Some f) d (int off) w = Some (int (length d), Some (f1\<lparr>gSize := 0\<rparr>), w2)"
    using f1(1,2) h w2(1) by (subst bctbx_file_write.simps) (simp add: handle_ok_def)
  moreover have "rep (f1\<lparr>gSize := 0\<rparr>) w2 (splice c off d, pos)"
    using f1(3,4) h w2(2,3) by (auto simp: rep_flushed handle_ok_def)
  ultimately show ?thesis using f1(3) by fastforce
qed

lemma read_rep:
  assumes "rep f w (c, pos)" "readable off n"
  shows "\<exists>f' w'. bctbx_file_read (Some f) n (int off) w =
      Some (int (length (take n (drop off c))), take n (drop off c), Some f', w') \<and>
    rep f' w' (c, pos) \<and> fSize f' = 0 \<and> (fSize f = 0 \<longrightarrow> f' = f)"
proof -
  obtain r f1 w1 where f1: "bctbx_file_flush (Some f) w = Some (r, Some f1, w1)" "0 \<le> r" "fSize f1 = 0"
    "rep f1 w1 (c, pos)" "fSize f = 0 \<longrightarrow> f1 = f"
    using flush_repE [OF assms(1)] by metis
  then have h: "handle_ok M f1" "ready w1 (pUserData f1)" "content w1 (pUserData f1) = c"
    by (auto simp: rep_flushed)
  obtain w2 where w2: "pFuncRead M (pUserData f1) n (int off) w1 =
      (int (length (take n (drop off c))), take n (drop off c), w2)"
    "ready w2 (pUserData f1)" "content w2 (pUserData f1) = c"
    using read_law [OF h(2) assms(2)] h(3) by blast
  have "bctbx_file_read (Some f) n (int off) w =
      Some (int (length (take n (drop off c))), take n (drop off c), Some f1, w2)"
    using f1(1,2) h(1) w2(1) by (simp add: bctbx_file_read_def with_flush_def handle_ok_def)
  moreover have "rep f1 w2 (c, pos)"
    using f1(3,4) w2(2,3) by (auto simp: rep_flushed)
  ultimately show ?thesis using f1(3,5) by (intro exI [of _ f1] exI [of _ w2]) simp
qed

lemma size_rep:
  assumes "rep f w (c, pos)"
  shows "\<exists>f' w'. bctbx_file_size (Some f) w = Some (int (length c), Some f', w') \<and> rep f' w' (c, pos) \<and>
    fSize f' = 0"
proof -
  obtain r f1 w1 where f1: "bctbx_file_flush (Some f) w = Some (r, Some f1, w1)" "0 \<le> r" "fSize f1 = 0"
    "rep f1 w1 (c, pos)" "pMethods f1 = Some M"
    using flush_repE [OF assms] by metis
  then have h: "ready w1 (pUserData f1)" "content w1 (pUserData f1) = c" by (auto simp: rep_flushed)
  obtain w2 where "pFuncFileSize M (pUserData f1) w1 = (int (length c), w2)" "ready w2 (pUserData f1)"
    "content w2 (pUserData f1) = c"
    using size_law [OF h(1)] h(2) by blast
  then show ?thesis using f1 by (auto simp: bctbx_file_size_def with_flush_def rep_flushed)
qed

lemma sync_rep:
  assumes "rep f w (c, pos)"
  shows "\<exists>f' w'. bctbx_file_sync (Some f) w = Some (0, Some f', w') \<and> rep f' w' (c, pos) \<and> fSize f' = 0"
proof -
  obtain r f1 w1 where f1: "bctbx_file_flush (Some f) w = Some (r, Some f1, w1)" "0 \<le> r" "fSize f1 = 0"
    "rep f1 w1 (c, pos)" "pMethods f1 = Some M"
    using flush_repE [OF assms] by metis
  then have h: "ready w1 (pUserData f1)" "content w1 (pUserData f1) = c" by (auto simp: rep_flushed)
  obtain w2 where "pFuncSync M (pUserData f1) w1 = (0, w2)" "ready w2 (pUserData f1)"
    "content w2 (pUserData f1) = c"
    using sync_law [OF h(1)] h(2) by blast
  then show ?thesis using f1 by (auto simp: bctbx_file_sync_def with_flush_def rep_flushed)
qed

lemma rep_offset:
  "rep f w (c, pos) \<Longrightarrow> fSize f = 0 \<Longrightarrow> rep (f\<lparr>offset := int pos'\<rparr>) w (c, pos')"
  by (simp add: rep_flushed handle_ok_def)

lemma rep_pos: "rep f w (c, pos) \<Longrightarrow> offset f = int pos"
  by (auto simp: rep_def handle_ok_def)

lemma seek_rep:
  assumes "rep f w (c, pos)"
  shows "\<exists>f' w'. bctbx_file_seek (Some f) (int off) SEEK_SET w = Some (int off, Some f', w') \<and>
      rep f' w' (c, off)"
    and "\<exists>f' w'. bctbx_file_seek (Some f) (int off) SEEK_CUR w = Some (int (pos + off), Some f', w') \<and>
      rep f' w' (c, pos + off)"
    and "\<exists>f' w'. bctbx_file_seek (Some f) (int off) SEEK_END w = Some (int (length c + off), Some f', w') \<and>
      rep f' w' (c, length c + off)"
proof -
  obtain r f1 w1 where f1: "bctbx_file_flush (Some f) w = Some (r, Some f1, w1)" "0 \<le> r" "fSize f1 = 0"
    "rep f1 w1 (c, pos)"
    using flush_repE [OF assms] by metis
  note o = rep_offset [OF f1(4,3)]
  show "\<exists>f' w'. bctbx_file_seek (Some f) (int off) SEEK_SET w = Some (int off, Some f', w') \<and>
      rep f' w' (c, off)"
    using f1 o [of off] by (auto simp: bctbx_file_seek_def)
  show "\<exists>f' w'. bctbx_file_seek (Some f) (int off) SEEK_CUR w = Some (int (pos + off), Some f', w') \<and>
      rep f' w' (c, pos + off)"
    using f1 o [of "pos + off"] rep_pos [OF f1(4)] by (auto simp: bctbx_file_seek_def SEEK_SET_def SEEK_CUR_def)
  obtain f2 w2 where f2: "bctbx_file_size (Some f1) w1 = Some (int (length c), Some f2, w2)"
    "rep f2 w2 (c, pos)" "fSize f2 = 0"
    using size_rep [OF f1(4)] by blast
  show "\<exists>f' w'. bctbx_file_seek (Some f) (int off) SEEK_END w = Some (int (length c + off), Some f', w') \<and>
      rep f' w' (c, length c + off)"
    using f1 f2 rep_offset [OF f2(2,3), of "length c + off"]
    by (auto simp: bctbx_file_seek_def SEEK_SET_def SEEK_CUR_def SEEK_END_def)
qed

lemma write2_rep:
  assumes "rep f w (c, pos)" "writable pos d"
  shows "\<exists>f' w'. bctbx_file_write2 (Some f) d w = Some (int (length d), Some f', w') \<and>
    rep f' w' (splice c pos d, pos + length d)"
proof -
  obtain f1 w1 where f1: "bctbx_file_write (Some f) d (int pos) w = Some (int (length d), Some f1, w1)"
    "rep f1 w1 (splice c pos d, pos)"
    using write_rep [OF assms] by blast
  with seek_rep(2) [OF f1(2), of "length d"] rep_pos [OF assms(1)] show ?thesis
    by (auto simp: bctbx_file_write2_def BCTBX_VFS_ERROR_def)
qed

lemma read2_rep:
  assumes "rep f w (c, pos)" "readable pos n"
  shows "\<exists>f' w'. bctbx_file_read2 (Some f) n w =
      Some (int (length (take n (drop pos c))), take n (drop pos c), Some f', w') \<and>
    rep f' w' (c, pos + length (take n (drop pos c)))"
proof -
  obtain f1 w1 where f1: "bctbx_file_read (Some f) n (int pos) w =
      Some (int (length (take n (drop pos c))), take n (drop pos c), Some f1, w1)" "rep f1 w1 (c, pos)"
    using read_rep [OF assms] by metis
  obtain f2 w2 where "bctbx_file_seek (Some f1) (int (length (take n (drop pos c)))) SEEK_CUR w1 =
      Some (int (pos + length (take n (drop pos c))), Some f2, w2)"
    "rep f2 w2 (c, pos + length (take n (drop pos c)))"
    using seek_rep(2) [OF f1(2)] by blast
  with f1(1) rep_pos [OF assms(1)] show ?thesis
    by (auto simp: bctbx_file_read2_def BCTBX_VFS_ERROR_def simp del: length_take length_drop)
qed

lemma fprintf_here:
  assumes "rep f w (c, pos)" "d = [] \<or> writable pos d"
  shows "\<exists>f' w'. bctbx_file_fprintf (Some f) 0 (Some d) w = Some (int (length d), Some f', w') \<and>
    rep f' w' (splice c pos d, pos + length d)"
proof -
  let ?po = "nat (fPageOffset f)" and ?page = "aslice (fPage f) 0 (fSize f)" and ?s = "content w (pUserData f)"
  have h: "handle_ok M f" "ready w (pUserData f)" "c = splice ?s ?po ?page" "pos = nat (offset f)"
    using assms(1) by (auto simp: rep_def view_def)
  have pos: "0 < fSize f \<Longrightarrow> pos = ?po + fSize f" "int ?po = fPageOffset f" "int pos = offset f"
    using h(1,4) by (auto simp: handle_ok_def)
  have ext: "0 < fSize f \<Longrightarrow> splice c pos d = splice ?s ?po (?page @ d)"
    using splice_append [of ?s ?po ?page d] pos(1) h(3) by simp
  have wr: "0 < fSize f \<Longrightarrow> writable ?po (?page @ d)"
    using assms writable_append [of ?po ?page d] pos(1) by (auto simp: rep_def)
  have z: "handle_ok M (f\<lparr>fSize := 0\<rparr>)" "ready w (pUserData (f\<lparr>fSize := 0\<rparr>))" "fSize (f\<lparr>fSize := 0\<rparr>) = 0"
    using h(1,2) by (auto simp: handle_ok_def PRINTF_PAGE_SIZE_def)
  consider "length d + fSize f < PRINTF_PAGE_SIZE" | "\<not> length d + fSize f < PRINTF_PAGE_SIZE" "0 < fSize f"
    | "\<not> length d + fSize f < PRINTF_PAGE_SIZE" "fSize f = 0" by blast
  then show ?thesis
  proof cases
    case 1
    let ?f = "f\<lparr>fPage := memcpy_to (fPage f) (fSize f) d,
      fPageOffset := (if fSize f = 0 then offset f else fPageOffset f),
      offset := offset f + int (length d), fSize := fSize f + length d, gSize := 0\<rparr>"
    have "bctbx_file_fprintf (Some f) 0 (Some d) w = Some (int (length d), Some ?f, w)"
      using 1 by (simp add: bctbx_file_fprintf_def Let_def)
    moreover have "view ?f w = splice c pos d"
      using ext h(3,4) by (cases "fSize f = 0") (simp_all add: view_def aslice_memcpy_extend)
    then have "rep ?f w (splice c pos d, pos + length d)"
      using h 1 pos(1) wr assms(2) by (auto simp: rep_def handle_ok_def get_cache_ok_def aslice_memcpy_extend)
    ultimately show ?thesis by blast
  next
    case 2
    obtain w' where w': "bctbx_file_write (Some (f\<lparr>fSize := 0\<rparr>)) (?page @ d) (int ?po) w =
        Some (int (length (?page @ d)), Some (f\<lparr>fSize := 0, gSize := 0\<rparr>), w')" "ready w' (pUserData f)"
      "content w' (pUserData f) = splice ?s ?po (?page @ d)"
      using write_flushed [OF z wr [OF 2(2)]] by fastforce
    have "fSize f \<le> PRINTF_PAGE_SIZE" using h(1) by (simp add: handle_ok_def)
    then have "bctbx_file_fprintf (Some f) 0 (Some d) w =
        Some (int (length d), Some (f\<lparr>offset := offset f + int (length d), fSize := 0, gSize := 0\<rparr>), w')"
      using 2 w'(1) pos(2) by (simp add: bctbx_file_fprintf_def Let_def)
    moreover have "rep (f\<lparr>offset := offset f + int (length d), fSize := 0, gSize := 0\<rparr>) w' (splice c pos d, pos + length d)"
      using z(1) h w'(2,3) ext 2 by (auto simp: rep_flushed handle_ok_def get_cache_ok_def)
    ultimately show ?thesis by blast
  next
    case 3
    then have d: "0 < length d" "d \<noteq> []" by (cases d; simp add: PRINTF_PAGE_SIZE_def)+
    obtain w' where w': "bctbx_file_write (Some f) d (int pos) w = Some (int (length d), Some (f\<lparr>gSize := 0\<rparr>), w')"
      "ready w' (pUserData f)" "content w' (pUserData f) = splice ?s pos d"
      using write_flushed [OF h(1,2) 3(2)] assms(2) d by blast
    then have "bctbx_file_fprintf (Some f) 0 (Some d) w =
        Some (int (length d), Some (f\<lparr>offset := offset f + int (length d), gSize := 0\<rparr>), w')"
      using 3 d w'(1) pos(3) by (simp add: bctbx_file_fprintf_def Let_def)
    moreover have "rep (f\<lparr>offset := offset f + int (length d), gSize := 0\<rparr>) w' (splice c pos d, pos + length d)"
      using h w'(2,3) 3 by (auto simp: rep_flushed handle_ok_def get_cache_ok_def)
    ultimately show ?thesis by blast
  qed
qed

lemma fprintf_rep:
  assumes "rep f w (c, pos)" "p = (if off \<noteq> 0 then off else pos)" "d = [] \<or> writable p d"
  shows "\<exists>f' w'. bctbx_file_fprintf (Some f) (int off) (Some d) w = Some (int (length d), Some f', w') \<and>
    rep f' w' (splice c p d, p + length d)"
proof (cases "off = 0")
  case True
  with fprintf_here [OF assms(1)] assms(2,3) show ?thesis by simp
next
  case False
  obtain r f1 w1 where f1: "bctbx_file_flush (Some f) w = Some (r, Some f1, w1)" "fSize f1 = 0"
    "rep f1 w1 (c, pos)"
    using flush_repE [OF assms(1)] by metis
  have "bctbx_file_fprintf (Some f) (int off) (Some d) w =
      bctbx_file_fprintf (Some (f1\<lparr>offset := int off\<rparr>)) 0 (Some d) w1"
    using False f1(1) by (simp add: bctbx_file_fprintf_def)
  with fprintf_here [OF rep_offset [OF f1(3,2)], of d off] False assms(2,3) show ?thesis by simp
qed

lemma step_sim:
  assumes "rep f w s" "in_range readable writable x s"
  shows "\<exists>f' w'. file_step x (Some f) w = Some (fst (spec_step x s), Some f', w') \<and>
    rep f' w' (snd (spec_step x s))"
proof -
  obtain c pos where s: "s = (c, pos)" by fastforce
  note r = assms(1) [unfolded s]
  show ?thesis
  proof (cases x)
    case (WriteAt d off) with write_rep [OF r, of off d] assms(2) s show ?thesis by auto
  next
    case (Write2 d) with write2_rep [OF r, of d] assms(2) s show ?thesis by auto
  next
    case (Fprintf off d) with fprintf_rep [OF r refl, of d off] assms(2) s show ?thesis by (auto simp: Let_def)
  next
    case (ReadAt n off) with read_rep [OF r, of off n] assms(2) s show ?thesis by auto
  next
    case (Read2 n) with read2_rep [OF r, of n] assms(2) s show ?thesis by (fastforce simp: Let_def)
  qed (use s seek_rep [OF r] size_rep [OF r] sync_rep [OF r] in fastforce)+
qed

lemma run_sim:
  "rep f w s \<Longrightarrow> run_in_range readable writable xs s \<Longrightarrow>
   \<exists>f' w'. file_run xs (Some f) w = Some (fst (spec_run xs s), Some f', w') \<and> rep f' w' (snd (spec_run xs s))"
proof (induction xs arbitrary: f w s)
  case Nil then show ?case by simp
next
  case (Cons x xs)
  obtain f1 w1 where f1: "file_step x (Some f) w = Some (fst (spec_step x s), Some f1, w1)"
    "rep f1 w1 (snd (spec_step x s))"
    using step_sim [OF Cons.prems(1), of x] Cons.prems(2) by auto
  obtain f2 w2 where "file_run xs (Some f1) w1 = Some (fst (spec_run xs (snd (spec_step x s))), Some f2, w2)"
    "rep f2 w2 (snd (spec_run xs (snd (spec_step x s))))"
    using Cons.IH [OF f1(2)] Cons.prems(2) by auto
  with f1(1) show ?case by (simp add: case_prod_beta)
qed

end

end
