(* ===== verification/VfsLines.thy ===== *)
theory VfsLines
  imports VfsContract
begin

text \<open>
  Reading lines with \<open>bctbx_file_get_nxtline\<close>: on a text file the page cache of the function is
  invisible, and a file is read line by line to its end.
\<close>

section \<open>The next line of a content\<close>

text \<open>
  A text holds none of the characters the generic implementation treats specially: NUL ends a C
  string, EOT is its end-of-file mark, and a CR at the end of a page loses the LF that follows.
\<close>

definition text_content :: "string \<Rightarrow> bool" where
  "text_content c \<longleftrightarrow> NUL \<notin> set c \<and> EOT \<notin> set c \<and> CR \<notin> set c"

definition next_line :: "string \<Rightarrow> nat \<Rightarrow> nat \<Rightarrow> nat \<times> string \<times> nat" where
  "next_line c pos n =
     (let chunk = take (n - 1) (drop pos c); l = takeWhile (\<lambda>x. x \<noteq> LF) chunk in
      if LF \<in> set chunk then (length l + 1, l, pos + length l + 1)
      else (length chunk, chunk, pos + length chunk))"

lemma find_lf:
  assumes "CR \<notin> set s"
  shows "findNextLine s = (if LF \<in> set s then Some (length (takeWhile (\<lambda>x. x \<noteq> LF) s)) else None)"
proof -
  have "strchr s CR = None" using assms by (simp add: strchr_takeWhile)
  then show ?thesis by (simp add: findNextLine_def strchr_takeWhile)
qed

lemma line_step_lf:
  assumes "CR \<notin> set s" "k < length s"
  shows "line_step s k = k + 1"
proof -
  have "s ! k \<noteq> CR" using assms nth_mem by metis
  then show ?thesis using assms(2) by (simp add: line_step_def cat_def)
qed

lemma takeWhile_prefix:
  "x \<in> set s \<Longrightarrow> takeWhile (\<lambda>y. y \<noteq> x) (s @ t) = takeWhile (\<lambda>y. y \<noteq> x) s"
  by (induction s) auto

lemma next_line_prefix:
  assumes "drop pos c = d @ e" "length d \<le> n - 1" "LF \<in> set d"
  shows "next_line c pos n =
    (length (takeWhile (\<lambda>x. x \<noteq> LF) d) + 1, takeWhile (\<lambda>x. x \<noteq> LF) d,
     pos + length (takeWhile (\<lambda>x. x \<noteq> LF) d) + 1)"
  using assms by (auto simp: next_line_def Let_def takeWhile_prefix)

lemma cstr_at_slice:
  assumes "aslice arr i (length s) = s" "arr (i + length s) = NUL" "i + length s < n" "NUL \<notin> set s"
  shows "cstr_at arr i n = Some s"
proof -
  have eq: "n - i = length s + 1 + (n - i - (length s + 1))" using assms(3) by simp
  have "aslice arr i (n - i) = aslice arr i (length s + 1) @ aslice arr (i + (length s + 1)) (n - i - (length s + 1))"
    using aslice_append [of arr i "length s + 1" "n - i - (length s + 1)"] eq by argo
  also have "aslice arr i (length s + 1) = s @ [NUL]"
    using assms(1,2) by (simp add: aslice_append [of arr i "length s" 1, simplified] aslice_def [of _ _ "Suc 0"])
  finally have "aslice arr i (n - i) = s @ NUL # aslice arr (i + (length s + 1)) (n - i - (length s + 1))"
    by simp
  moreover have "takeWhile (\<lambda>c. c \<noteq> NUL) (s @ NUL # t) = s" for t
    using assms(4) by (induction s) auto
  ultimately show ?thesis by (simp add: cstr_at_def Let_def)
qed

lemma aslice_drop: "aslice arr i (n - i) = drop i (aslice arr 0 n)"
  by (cases "i \<le> n") (simp_all add: aslice_def drop_map)

lemma stored_line:
  assumes b: "buf_write b k [NUL] = Some b'" and l: "aslice (bytes b) 0 k = l" "NUL \<notin> set l"
  shows "cstr_at (bytes b') 0 (size_of b') = Some l" "size_of b' = size_of b"
proof -
  have b': "bytes b' = memcpy_to (bytes b) k [NUL]" "k + 1 \<le> size_of b" "size_of b' = size_of b"
    using b by (auto simp: buf_write_def split: if_splits)
  have k: "length l = k" using l(1) by auto
  show "cstr_at (bytes b') 0 (size_of b') = Some l"
  proof (rule cstr_at_slice)
    show "aslice (bytes b') 0 (length l) = l"
      unfolding b'(1) k by (subst aslice_memcpy_before) (simp_all add: l(1))
    show "bytes b' (0 + length l) = NUL" by (simp add: b'(1) k memcpy_to_def)
    show "0 + length l < size_of b'" using b'(2,3) k by simp
  qed (rule l(2))
  show "size_of b' = size_of b" by (rule b'(3))
qed

lemma stored_terminated:
  assumes "buf_write b 0 (l @ [NUL]) = Some b'" "NUL \<notin> set l"
  shows "cstr_at (bytes b') 0 (size_of b') = Some l" "size_of b' = size_of b"
proof -
  have b': "bytes b' = memcpy_to (bytes b) 0 (l @ [NUL])" "length l + 1 \<le> size_of b" "size_of b' = size_of b"
    using assms(1) by (auto simp: buf_write_def split: if_splits)
  show "cstr_at (bytes b') 0 (size_of b') = Some l"
  proof (rule cstr_at_slice)
    show "aslice (bytes b') 0 (length l) = l"
      by (rule nth_equalityI) (simp_all add: b' memcpy_to_def nth_append)
    show "bytes b' (0 + length l) = NUL" by (simp add: b' memcpy_to_def)
    show "0 + length l < size_of b'" using b' by simp
  qed (rule assms(2))
  show "size_of b' = size_of b" by (rule b'(3))
qed

text \<open>A caller that reads \<open>k\<close> lines into the same buffer.\<close>

fun read_lines ::
    "nat \<Rightarrow> 'w bctbx_vfs_file_t option \<Rightarrow> cbuf \<Rightarrow> int \<Rightarrow> 'w \<Rightarrow>
     ((int \<times> string option) list \<times> 'w bctbx_vfs_file_t option \<times> cbuf \<times> 'w) option" where
  "read_lines 0 p s n w = Some ([], p, s, w)"
| "read_lines (Suc k) p s n w = do {
     (r, sp, p1, w1) \<leftarrow> bctbx_file_get_nxtline p (Some s) n w;
     s1 \<leftarrow> sp;
     (rs, p2, s2, w2) \<leftarrow> read_lines k p1 s1 n w1;
     Some ((r, cstr_at (bytes s1) 0 (size_of s1)) # rs, p2, s2, w2) }"

definition unlines :: "string list \<Rightarrow> string" where
  "unlines ls = concat (map (\<lambda>l. l @ [LF]) ls)"

section \<open>One line\<close>

text \<open>
  The destination buffer after a chunk was read into it: the chunk, and what was behind it before
  up to the terminator put at index \<open>m\<close>.
\<close>

lemma chunk_string:
  assumes w: "buf_write s m [NUL] = Some s1" "buf_write s1 0 d = Some s2" and d: "length d \<le> m" "NUL \<notin> set d"
  shows "\<exists>e. cstr_at (bytes s2) 0 (size_of s2) = Some (d @ e) \<and> (length d = m \<longrightarrow> e = [])"
    and "aslice (bytes s2) 0 (length d) = d" "size_of s2 = size_of s"
proof -
  have b: "bytes s2 = memcpy_to (memcpy_to (bytes s) m [NUL]) 0 d" "size_of s2 = size_of s" "m < size_of s"
    using w by (auto simp: buf_write_def split: if_splits)
  show size: "size_of s2 = size_of s" by (rule b(2))
  show slice: "aslice (bytes s2) 0 (length d) = d" unfolding b(1) by simp
  have m: "bytes s2 m = NUL" using d(1) by (simp add: b(1) memcpy_to_def)
  define rest where "rest = aslice (bytes s2) (length d) (size_of s2 - length d)"
  have all: "aslice (bytes s2) 0 (size_of s2) = d @ rest"
    using aslice_append [of "bytes s2" 0 "length d" "size_of s2 - length d"] slice d(1) b(2,3)
    by (simp add: rest_def)
  have at: "rest ! (m - length d) = NUL" "m - length d < length rest"
    using d(1) b(2,3) m by (simp_all add: rest_def)
  then have "NUL \<in> set rest" by (metis nth_mem)
  moreover have "takeWhile (\<lambda>c. c \<noteq> NUL) (d @ rest) = d @ takeWhile (\<lambda>c. c \<noteq> NUL) rest"
    using d(2) by (intro takeWhile_append2) auto
  ultimately have "cstr_at (bytes s2) 0 (size_of s2) = Some (d @ takeWhile (\<lambda>c. c \<noteq> NUL) rest)"
    by (simp add: cstr_at_def Let_def all)
  moreover have "length d = m \<longrightarrow> takeWhile (\<lambda>c. c \<noteq> NUL) rest = []"
    using at by (cases rest) auto
  ultimately show "\<exists>e. cstr_at (bytes s2) 0 (size_of s2) = Some (d @ e) \<and> (length d = m \<longrightarrow> e = [])"
    by blast
qed

lemma find_lf_prefix:
  assumes "CR \<notin> set d" "LF \<in> set d"
  shows "findNextLine (d @ e) = Some (length (takeWhile (\<lambda>x. x \<noteq> LF) d))"
    and "line_step (d @ e) (length (takeWhile (\<lambda>x. x \<noteq> LF) d)) = length (takeWhile (\<lambda>x. x \<noteq> LF) d) + 1"
proof -
  let ?k = "length (takeWhile (\<lambda>x. x \<noteq> LF) d)"
  have k: "?k < length d" using assms(2) by (induction d) auto
  have lf: "strchr (d @ e) LF = Some ?k"
    using assms(2) by (simp add: strchr_takeWhile takeWhile_prefix)
  have "?k \<le> r" if "strchr (d @ e) CR = Some r" for r
  proof -
    have "takeWhile (\<lambda>c. c \<noteq> CR) (d @ e) = d @ takeWhile (\<lambda>c. c \<noteq> CR) e"
      using assms(1) by (intro takeWhile_append2) auto
    with that k show ?thesis by (auto simp: strchr_takeWhile split: if_splits)
  qed
  with lf show "findNextLine (d @ e) = Some ?k"
    by (auto simp: findNextLine_def split: option.split)
  show "line_step (d @ e) ?k = ?k + 1"
    using k nth_length_takeWhile [of "\<lambda>x. x \<noteq> LF" d] by (simp add: line_step_def cat_def nth_append LF_def CR_def)
qed

lemma aslice_Suc: "aslice arr i (Suc n) = aslice arr i n @ [arr (i + n)]"
  by (simp add: aslice_def)

lemma aslice_upd: "i + n \<le> k \<Longrightarrow> aslice (arr(k := x)) i n = aslice arr i n"
  by (simp add: aslice_def)

text \<open>The page \<open>bctbx_generic_get_nxtline\<close> keeps of a chunk \<open>d\<close>.\<close>

definition fill_page :: "'w bctbx_vfs_file_t \<Rightarrow> string \<Rightarrow> bool \<Rightarrow> 'w bctbx_vfs_file_t" where
  "fill_page f d eof =
     (let page = memcpy_to (gPage f) 0 d in
      if eof
      then f\<lparr>gPage := page(length d := EOT, Suc (length d) := NUL), gPageOffset := offset f, gSize := Suc (length d)\<rparr>
      else f\<lparr>gPage := page(length d := NUL), gPageOffset := offset f, gSize := length d\<rparr>)"

lemma fill_page_simps [simp]:
  "pMethods (fill_page f d eof) = pMethods f" "pUserData (fill_page f d eof) = pUserData f"
  "offset (fill_page f d eof) = offset f" "fSize (fill_page f d eof) = fSize f"
  "fPage (fill_page f d eof) = fPage f" "fPageOffset (fill_page f d eof) = fPageOffset f"
  "gSize (fill_page f d eof) = (if eof then Suc (length d) else length d)"
  by (simp_all add: fill_page_def Let_def)

lemma fill_page_ok:
  assumes "0 \<le> offset f" "d = take m (drop (nat (offset f)) c)"
    "eof \<longrightarrow> d = drop (nat (offset f)) c" "gSize (fill_page f d eof) \<le> GETLINE_PAGE_SIZE"
  shows "get_cache_ok (fill_page f d eof) c"
proof (cases eof)
  case True
  then have "aslice (gPage (fill_page f d eof)) 0 (Suc (length d)) = d @ [EOT]"
    by (simp add: fill_page_def Let_def aslice_Suc aslice_upd)
  moreover have "gPage (fill_page f d eof) (Suc (length d)) = NUL" "gPageOffset (fill_page f d eof) = offset f"
    using True by (simp_all add: fill_page_def Let_def)
  moreover have "drop (nat (offset f)) c = d" using True assms(3) by simp
  ultimately show ?thesis
    using True assms(1,4) by (simp add: get_cache_ok_def)
next
  case False
  then have "aslice (gPage (fill_page f d eof)) 0 (length d) = d"
    by (simp add: fill_page_def Let_def aslice_upd)
  moreover have "gPage (fill_page f d eof) (length d) = NUL" "gPageOffset (fill_page f d eof) = offset f"
    using False by (simp_all add: fill_page_def Let_def)
  moreover have "take (length d) (drop (nat (offset f)) c) = d"
    unfolding assms(2) by (cases "m \<le> length (drop (nat (offset f)) c)") simp_all
  ultimately show ?thesis
    using False assms(1,4) by (simp add: get_cache_ok_def)
qed

lemma findNextLine_found:
  assumes "buf_write s m [NUL] = Some s1" "buf_write s1 0 d = Some s2"
    and "CR \<notin> set d" "NUL \<notin> set d" "LF \<in> set d" "length d \<le> m"
  shows "\<exists>c s3. cstr_at (bytes s2) 0 (size_of s2) = Some c \<and>
    findNextLine c = Some (length (takeWhile (\<lambda>x. x \<noteq> LF) d)) \<and>
    line_step c (length (takeWhile (\<lambda>x. x \<noteq> LF) d)) = length (takeWhile (\<lambda>x. x \<noteq> LF) d) + 1 \<and>
    buf_write s2 (length (takeWhile (\<lambda>x. x \<noteq> LF) d)) [NUL] = Some s3 \<and>
    cstr_at (bytes s3) 0 (size_of s3) = Some (takeWhile (\<lambda>x. x \<noteq> LF) d) \<and> size_of s3 = size_of s"
proof -
  let ?l = "takeWhile (\<lambda>x. x \<noteq> LF) d"
  obtain e where e: "cstr_at (bytes s2) 0 (size_of s2) = Some (d @ e)"
    and slice: "aslice (bytes s2) 0 (length d) = d" and size: "size_of s2 = size_of s"
    using chunk_string [OF assms(1,2,6,4)] by blast
  have k: "length ?l < length d" using assms(5) by (induction d) auto
  have "length d \<le> size_of s2" using assms(2) size buf_write_size [OF assms(1)] by (auto simp: buf_write_def split: if_splits)
  then obtain s3 where s3: "buf_write s2 (length ?l) [NUL] = Some s3"
    using k by (cases "buf_write s2 (length ?l) [NUL]") auto
  have "aslice (bytes s2) 0 (length ?l) = ?l"
    using k arg_cong [OF slice, of "take (length ?l)"] by (simp add: aslice_def take_map takeWhile_eq_take [symmetric] min_def)
  moreover have "NUL \<notin> set ?l" using assms(4) by (auto dest: set_takeWhileD)
  ultimately have "cstr_at (bytes s3) 0 (size_of s3) = Some ?l" "size_of s3 = size_of s"
    using stored_line [OF s3] size by auto
  with e s3 find_lf_prefix [OF assms(3,5)] show ?thesis by blast
qed

lemma findNextLine_full:
  assumes "buf_write s (length d) [NUL] = Some s1" "buf_write s1 0 d = Some s2"
    and "CR \<notin> set d" "NUL \<notin> set d" "LF \<notin> set d"
  shows "\<exists>s3. cstr_at (bytes s2) 0 (size_of s2) = Some d \<and> findNextLine d = None \<and>
    buf_write s2 (length d) [NUL] = Some s3 \<and> cstr_at (bytes s3) 0 (size_of s3) = Some d \<and>
    size_of s3 = size_of s"
proof -
  have e: "cstr_at (bytes s2) 0 (size_of s2) = Some d"
    and slice: "aslice (bytes s2) 0 (length d) = d" and size: "size_of s2 = size_of s"
    using chunk_string [OF assms(1,2) order_refl assms(4)] by auto
  have "length d + 1 \<le> size_of s2" using assms(1) size by (auto simp: buf_write_def split: if_splits)
  then obtain s3 where s3: "buf_write s2 (length d) [NUL] = Some s3"
    by (cases "buf_write s2 (length d) [NUL]") auto
  from stored_line [OF s3 slice assms(4)] e s3 size find_lf [OF assms(3)] assms(5) show ?thesis by auto
qed

context vfs_backend
begin

text \<open>A line that is read from the file.\<close>

lemma from_file:
  assumes r: "rep f w (c, pos)" "fSize f = 0" and t: "text_content c"
    and n: "1 \<le> n" "n \<le> size_of s" "gSize f \<le> n - 1"
    and rd: "readable pos (n - 1)"
    and d: "d = take (n - 1) (drop pos c)" "LF \<in> set d \<or> d = [] \<or> length d = n - 1"
  shows "\<exists>f' w' s'. nxtline_from_file f s (int n) w =
      Some (int (fst (next_line c pos n)), Some s', Some f', w') \<and>
    rep f' w' (c, snd (snd (next_line c pos n))) \<and> fSize f' = 0 \<and> gSize f' \<le> n - 1 \<and> size_of s' = size_of s \<and>
    (d \<noteq> [] \<longrightarrow> cstr_at (bytes s') 0 (size_of s') = Some (fst (snd (next_line c pos n))))"
proof -
  have nul: "NUL \<notin> set d" "CR \<notin> set d"
    using t d(1) by (auto simp: text_content_def dest!: in_set_takeD in_set_dropD)
  have len: "length d \<le> n - 1" by (simp add: d(1))
  have nat_n: "nat (int n - 1) = n - 1" using n(1) by simp
  obtain s1 where s1: "buf_write s (n - 1) [NUL] = Some s1"
    using n(1,2) by (cases "buf_write s (n - 1) [NUL]") auto
  obtain w1 where w1: "bctbx_file_read (Some f) (n - 1) (int pos) w = Some (int (length d), d, Some f, w1)"
    "rep f w1 (c, pos)"
    using read_rep [OF r(1) rd] r(2) d(1) by metis
  obtain s2 where s2: "buf_write s1 0 d = Some s2"
    using s1 len n(1,2) buf_write_size [OF s1] by (cases "buf_write s1 0 d") auto
  show ?thesis
  proof (cases "d = []")
    case True
    have "next_line c pos n = (0, [], pos)"
      unfolding next_line_def Let_def d(1) [symmetric] True by simp
    then show ?thesis
      using True s1 s2 w1 nat_n rep_pos [OF r(1)] r(2) n(3) buf_write_size [OF s1] buf_write_size [OF s2]
      by (auto simp: nxtline_from_file_def)
  next
    case False
    define eof where "eof = (length d < n - 1)"
    define f2 where "f2 = (if n - 1 < GETLINE_PAGE_SIZE then fill_page f d eof else f)"
    have eof: "eof \<longrightarrow> d = drop pos c" using d(1) by (auto simp: eof_def)
    have h: "handle_ok M f" "nat (offset f) = pos" "0 \<le> offset f" and c: "content w1 (pUserData f) = c" "ready w1 (pUserData f)"
      using w1(2) r(2) rep_pos [OF r(1)] by (auto simp: rep_flushed)
    have g: "gSize (fill_page f d eof) \<le> n - 1" using len by (simp add: eof_def)
    have f2: "rep f2 w1 (c, pos)" "fSize f2 = 0" "gSize f2 \<le> n - 1" "offset f2 = offset f"
    proof -
      have "get_cache_ok (fill_page f d eof) c" if "n - 1 < GETLINE_PAGE_SIZE"
        by (rule fill_page_ok [of _ _ "n - 1"]) (use h d(1) eof g that in auto)
      then show "rep f2 w1 (c, pos)" "fSize f2 = 0" "gSize f2 \<le> n - 1" "offset f2 = offset f"
        using w1(2) h c r(2) n(3) g by (auto simp: f2_def rep_flushed handle_ok_def)
    qed
    have step: "nxtline_from_file f s (int n) w = do {
        cs \<leftarrow> cstr_at (bytes s2) 0 (size_of s2);
        case findNextLine cs of
          Some k \<Rightarrow> do {
            s3 \<leftarrow> buf_write s2 k [NUL];
            Some (int (k + 1), Some s3, Some (f2\<lparr>offset := offset f2 + int (line_step cs k)\<rparr>), w1) }
        | None \<Rightarrow> do {
            s3 \<leftarrow> buf_write s2 (length d) [NUL];
            Some (int (length d), Some s3, Some (f2\<lparr>offset := offset f2 + int (length d)\<rparr>), w1) } }"
    proof -
      have slice: "aslice (bytes s2) 0 (length d) = d" using chunk_string [OF s1 s2 len nul(1)] by blast
      have "length d \<le> size_of s2" using s2 by (auto simp: buf_write_def split: if_splits)
      moreover have small: "length d < GETLINE_PAGE_SIZE" if "n - 1 < GETLINE_PAGE_SIZE" using that len by simp
      moreover have "store_chunk f s2 (int n) (int (length d)) = Some f2"
        using n(1) len small
        by (auto simp: store_chunk_def f2_def slice fill_page_def Let_def eof_def bind_require)
      ultimately show ?thesis
        using False s1 s2 w1(1) rep_pos [OF r(1)] nat_n n(1)
        by (simp add: nxtline_from_file_def bind_require Let_def)
    qed
    show ?thesis
    proof (cases "LF \<in> set d")
      case True
      obtain cs s3 where s3: "cstr_at (bytes s2) 0 (size_of s2) = Some cs"
        "findNextLine cs = Some (length (takeWhile (\<lambda>x. x \<noteq> LF) d))"
        "line_step cs (length (takeWhile (\<lambda>x. x \<noteq> LF) d)) = length (takeWhile (\<lambda>x. x \<noteq> LF) d) + 1"
        "buf_write s2 (length (takeWhile (\<lambda>x. x \<noteq> LF) d)) [NUL] = Some s3"
        "cstr_at (bytes s3) 0 (size_of s3) = Some (takeWhile (\<lambda>x. x \<noteq> LF) d)" "size_of s3 = size_of s"
        using findNextLine_found [OF s1 s2 nul(2,1) True len] by blast
      have nl: "next_line c pos n = (length (takeWhile (\<lambda>x. x \<noteq> LF) d) + 1, takeWhile (\<lambda>x. x \<noteq> LF) d,
          pos + length (takeWhile (\<lambda>x. x \<noteq> LF) d) + 1)"
        using True by (simp add: next_line_def Let_def d(1))
      from s3 f2 rep_offset [OF f2(1,2), of "pos + length (takeWhile (\<lambda>x. x \<noteq> LF) d) + 1"] rep_pos [OF r(1)]
      show ?thesis unfolding step nl by (simp add: add_ac)
    next
      case no: False
      then have full: "length d = n - 1" using d(2) False by simp
      obtain s3 where s3: "cstr_at (bytes s2) 0 (size_of s2) = Some d" "findNextLine d = None"
        "buf_write s2 (length d) [NUL] = Some s3" "cstr_at (bytes s3) 0 (size_of s3) = Some d"
        "size_of s3 = size_of s"
        using findNextLine_full [OF s1 [folded full] s2 nul(2,1) no] by blast
      have nl: "next_line c pos n = (length d, d, pos + length d)"
        using no by (simp add: next_line_def Let_def d(1))
      from s3 f2 rep_offset [OF f2(1,2), of "pos + length d"] rep_pos [OF r(1)]
      show ?thesis unfolding step nl by simp
    qed
  qed
qed

lemma drop_append_le: "k \<le> length xs \<Longrightarrow> xs @ ys = zs \<Longrightarrow> drop k zs = drop k xs @ ys"
  by auto

text \<open>The cached page seen from the offset.\<close>

lemma cached_rest:
  assumes r: "rep f w (c, pos)" "fSize f = 0" and t: "text_content c" and i: "in_get_cache f"
  defines "k \<equiv> nat (offset f - gPageOffset f)"
  shows "\<exists>d e. cstr_at (gPage f) k (GETLINE_PAGE_SIZE + 1) = Some d \<and> length d = gSize f - k \<and> k < gSize f \<and>
    ((drop pos c = d @ e \<and> gPage f (gSize f - 1) \<noteq> EOT) \<or>
     (d = drop pos c @ [EOT] \<and> gPage f (gSize f - 1) = EOT \<and> aslice (gPage f) k (gSize f - k - 1) = drop pos c))"
proof -
  let ?g = "nat (gPageOffset f)" and ?page = "aslice (gPage f) 0 (gSize f)"
  have cache: "0 \<le> gPageOffset f" "gSize f \<le> GETLINE_PAGE_SIZE" "gPage f (gSize f) = NUL"
    "?page = take (gSize f) (drop ?g c) \<or> ?page = drop ?g c @ [EOT]"
    using r i by (auto simp: rep_flushed in_get_cache_def get_cache_ok_def Let_def)
  have k: "k < gSize f" "pos = ?g + k" using i cache(1) rep_pos [OF r(1)] by (auto simp: in_get_cache_def k_def)
  define d where "d = drop k ?page"
  have d: "aslice (gPage f) k (gSize f - k) = d" by (simp add: d_def aslice_drop)
  have len: "length d = gSize f - k" by (simp add: d_def)
  have nul: "NUL \<notin> set d"
    using cache(4) t unfolding d_def text_content_def
    by (auto simp: EOT_def NUL_def dest!: in_set_dropD in_set_takeD)
  have cs: "cstr_at (gPage f) k (GETLINE_PAGE_SIZE + 1) = Some d"
    by (rule cstr_at_slice) (use d len nul k(1) cache(2,3) in auto)
  have lst: "gPage f (gSize f - 1) = last ?page" using k(1) by (simp add: last_conv_nth flip: length_greater_0_conv)
  have pos: "drop pos c = drop k (drop ?g c)" by (simp add: k(2) add.commute)
  show ?thesis
  proof (cases "?page = drop ?g c @ [EOT]")
    case True
    have "gSize f = length (drop ?g c) + 1" using arg_cong [OF True, of length] by simp
    then have kl: "k \<le> length (drop ?g c)" using k(1) by simp
    then have deq: "d = drop pos c @ [EOT]" unfolding d_def True pos by simp
    have "aslice (gPage f) k (gSize f - k - 1) = butlast d"
      unfolding d [symmetric] using k(1) aslice_Suc [of "gPage f" k "gSize f - k - 1"]
      by (simp add: Suc_diff_Suc)
    then have "aslice (gPage f) k (gSize f - k - 1) = drop pos c" by (simp add: deq)
    then show ?thesis using cs len k(1) deq lst True by auto
  next
    case False
    then have page: "?page = take (gSize f) (drop ?g c)" using cache(4) by blast
    have "drop pos c = d @ drop (gSize f) (drop ?g c)"
      unfolding d_def page pos
      by (rule drop_append_le) (use k(1) arg_cong [OF page, of length] in \<open>simp_all del: drop_drop\<close>)
    moreover have "last ?page \<in> set c"
      using last_in_set [of ?page] k(1) unfolding page
      by (metis aslice_0 in_set_dropD in_set_takeD length_0_conv length_aslice not_less_zero page)
    then have "gPage f (gSize f - 1) \<noteq> EOT" using t lst by (auto simp: text_content_def)
    ultimately show ?thesis using cs len k(1) by blast
  qed
qed

lemma get_nxtline_rep:
  assumes r: "rep f w (c, pos)" and t: "text_content c"
    and n: "1 \<le> n" "n \<le> size_of s" "gSize f \<le> n - 1"
    and rd: "readable pos (n - 1)"
    and d: "LF \<in> set (take (n - 1) (drop pos c)) \<or> take (n - 1) (drop pos c) = [] \<or>
      length (take (n - 1) (drop pos c)) = n - 1"
  shows "\<exists>f' w' s'. bctbx_file_get_nxtline (Some f) (Some s) (int n) w =
      Some (int (fst (next_line c pos n)), Some s', Some f', w') \<and>
    rep f' w' (c, snd (snd (next_line c pos n))) \<and> gSize f' \<le> n - 1 \<and> size_of s' = size_of s \<and>
    (take (n - 1) (drop pos c) \<noteq> [] \<longrightarrow> cstr_at (bytes s') 0 (size_of s') = Some (fst (snd (next_line c pos n))))"
proof -
  let ?nl = "next_line c pos n" and ?d = "take (n - 1) (drop pos c)"
  obtain r0 f1 w1 where f1: "bctbx_file_flush (Some f) w = Some (r0, Some f1, w1)" "0 \<le> r0" "fSize f1 = 0"
    "rep f1 w1 (c, pos)" "pMethods f1 = Some M" "gSize f1 \<le> gSize f"
    using flush_repE [OF r] by metis
  have again: "bctbx_file_flush (Some f1) w1 = Some (0, Some f1, w1)"
    using f1(3) by (simp add: bctbx_file_flush.simps)
  have g: "gSize f1 \<le> n - 1" using f1(6) n(3) by simp
  define k where "k = nat (offset f1 - gPageOffset f1)"
  have eq: "bctbx_file_get_nxtline (Some f) (Some s) (int n) w =
      (if in_get_cache f1
       then do {
         cs \<leftarrow> cstr_at (gPage f1) k (GETLINE_PAGE_SIZE + 1);
         case findNextLine cs of
           Some j \<Rightarrow> do {
             s1 \<leftarrow> buf_write s 0 (take j cs @ [NUL]);
             Some (int (j + 1), Some s1, Some (f1\<lparr>offset := offset f1 + int (line_step cs j)\<rparr>), w1) }
         | None \<Rightarrow>
             if gPage f1 (gSize f1 - 1) = EOT
             then do {
               let sizeofline = gSize f1 - k - 1;
               s1 \<leftarrow> buf_write s 0 (aslice (gPage f1) k sizeofline @ [NUL]);
               Some (int sizeofline, Some s1, Some (f1\<lparr>offset := offset f1 + int sizeofline\<rparr>), w1) }
             else nxtline_from_file f1 s (int n) w1 }
       else nxtline_from_file f1 s (int n) w1)"
    using f1(1,2,5) again n(1) generic_getline
    by (simp add: bctbx_file_get_nxtline_def bctbx_generic_get_nxtline_def split del: if_split)
      (simp only: Let_def k_def)
  note ff = from_file [OF f1(4,3) t n(1,2) g rd refl d]
  show ?thesis
  proof (cases "in_get_cache f1")
    case False
    with eq ff show ?thesis by auto
  next
    case True
    obtain cs e where cs: "cstr_at (gPage f1) k (GETLINE_PAGE_SIZE + 1) = Some cs" "length cs = gSize f1 - k" "k < gSize f1"
      and alt: "(drop pos c = cs @ e \<and> gPage f1 (gSize f1 - 1) \<noteq> EOT) \<or>
        (cs = drop pos c @ [EOT] \<and> gPage f1 (gSize f1 - 1) = EOT \<and> aslice (gPage f1) k (gSize f1 - k - 1) = drop pos c)"
      using cached_rest [OF f1(4,3) t True] unfolding k_def by blast
    define rest where "rest = (if gPage f1 (gSize f1 - 1) = EOT then drop pos c else cs)"
    define tl where "tl = (if gPage f1 (gSize f1 - 1) = EOT then [EOT] else [])"
    have split: "cs = rest @ tl" "\<exists>e. drop pos c = rest @ e" "length rest \<le> n - 1"
      using alt cs(2) g by (auto simp: rest_def tl_def)
    have noc: "CR \<notin> set rest" "NUL \<notin> set rest" "CR \<notin> set cs" "LF \<in> set cs \<longleftrightarrow> LF \<in> set rest"
      using t alt split(2) by (auto simp: text_content_def rest_def EOT_def CR_def LF_def dest: in_set_dropD)
        (metis Un_iff in_set_dropD set_append)+
    show ?thesis
    proof (cases "LF \<in> set rest")
      case lf: True
      let ?l = "takeWhile (\<lambda>x. x \<noteq> LF) rest"
      have nl: "?nl = (length ?l + 1, ?l, pos + length ?l + 1)"
        using split(2,3) lf next_line_prefix by blast
      have len: "length ?l < length rest" using lf by (induction rest) auto
      have tk: "take (length ?l) cs = ?l"
        unfolding split(1) using len by (simp add: takeWhile_eq_take [symmetric])
      have "length ?l + 1 \<le> size_of s" using len split(3) n by simp
      then obtain s1 where s1: "buf_write s 0 (?l @ [NUL]) = Some s1"
        by (cases "buf_write s 0 (?l @ [NUL])") auto
      have "NUL \<notin> set ?l" using noc(2) by (auto dest: set_takeWhileD)
      note st = stored_terminated [OF s1 this]
      have "findNextLine cs = Some (length ?l)" "line_step cs (length ?l) = length ?l + 1"
        using find_lf_prefix [OF noc(1) lf, of tl] split(1) by auto
      then show ?thesis
        using True eq cs(1) s1 st tk nl g rep_offset [OF f1(4,3), of "pos + length ?l + 1"] rep_pos [OF f1(4)]
        by (simp add: add_ac)
    next
      case no: False
      then have none: "findNextLine cs = None" using find_lf [OF noc(3)] noc(4) by simp
      show ?thesis
      proof (cases "gPage f1 (gSize f1 - 1) = EOT")
        case False
        with True eq cs(1) none ff show ?thesis by auto
      next
        case eot: True
        then have rest: "rest = drop pos c" "aslice (gPage f1) k (gSize f1 - k - 1) = drop pos c"
          using alt by (auto simp: rest_def)
        then have len: "gSize f1 - k - 1 = length (drop pos c)" by (metis length_aslice)
        have dd: "?d = drop pos c" using split(3) rest(1) by simp
        have nl: "?nl = (length (drop pos c), drop pos c, pos + length (drop pos c))"
          using no dd rest(1) by (simp add: next_line_def Let_def)
        have "length (drop pos c) + 1 \<le> size_of s" using split(3) rest(1) n cs(3) g by simp
        then obtain s1 where s1: "buf_write s 0 (drop pos c @ [NUL]) = Some s1"
          by (cases "buf_write s 0 (drop pos c @ [NUL])") auto
        have "NUL \<notin> set (drop pos c)" using noc(2) rest(1) by simp
        note st = stored_terminated [OF s1 this]
        show ?thesis
          using True eq cs(1) none eot s1 st nl g rest(2) len
            rep_offset [OF f1(4,3), of "pos + length (drop pos c)"] rep_pos [OF f1(4)]
          by (simp add: Let_def del: length_drop)
      qed
    qed
  qed
qed

lemma read_lines_rep:
  assumes "rep f w (c, pos)" "text_content c" "n \<le> size_of s" "gSize f \<le> n - 1" "1 \<le> n"
    "drop pos c = unlines ls" "\<forall>l\<in>set ls. LF \<notin> set l \<and> length l + 2 \<le> n"
    "\<forall>p\<le>length c. readable p (n - 1)" "pos \<le> length c"
  shows "\<exists>f' w' s' s'' f'' w''.
    read_lines (length ls) (Some f) s (int n) w =
      Some (map (\<lambda>l. (int (length l + 1), Some l)) ls, Some f', s', w') \<and>
    bctbx_file_get_nxtline (Some f') (Some s') (int n) w' = Some (0, Some s'', Some f'', w'')"
  using assms
proof (induction ls arbitrary: f w s pos)
  case Nil
  then have "take (n - 1) (drop pos c) = []" "next_line c pos n = (0, [], pos)"
    by (simp_all add: unlines_def next_line_def Let_def)
  with get_nxtline_rep [OF Nil(1,2,5,3,4)] Nil(8,9) show ?case by auto
next
  case (Cons l ls)
  have l: "LF \<notin> set l" "length l + 2 \<le> n" using Cons.prems(7) by auto
  have dr: "drop pos c = (l @ [LF]) @ unlines ls" using Cons.prems(6) by (simp add: unlines_def)
  have tw: "takeWhile (\<lambda>x. x \<noteq> LF) (l @ [LF]) = l" using l(1) takeWhile_sep(1) [of LF l "[]"] by simp
  have nl: "next_line c pos n = (length l + 1, l, pos + length l + 1)"
    using next_line_prefix [OF dr] l(2) tw by simp
  have ch: "LF \<in> set (take (n - 1) (drop pos c))" using l(2) unfolding dr by (simp add: take_Cons')
  obtain f1 w1 s1 where s1: "bctbx_file_get_nxtline (Some f) (Some s) (int n) w =
      Some (int (length l + 1), Some s1, Some f1, w1)" "rep f1 w1 (c, pos + length l + 1)"
    "gSize f1 \<le> n - 1" "size_of s1 = size_of s" "cstr_at (bytes s1) 0 (size_of s1) = Some l"
    using get_nxtline_rep [OF Cons.prems(1,2,5,3,4)] Cons.prems(8,9) ch unfolding nl fst_conv snd_conv
    by (metis empty_iff empty_set)
  have "drop (pos + length l + 1) c = drop (length l + 1) (drop pos c)" by (simp add: add_ac)
  also have "\<dots> = unlines ls" unfolding dr by simp
  finally have "drop (pos + length l + 1) c = unlines ls" .
  moreover have "n \<le> size_of s1" "\<forall>l\<in>set ls. LF \<notin> set l \<and> length l + 2 \<le> n"
    using Cons.prems(3,7) s1(4) by auto
  moreover have "pos + length l + 1 \<le> length c" using arg_cong [OF dr, of length] Cons.prems(9) by simp
  ultimately obtain f2 w2 s2 s3 f3 w3 where "read_lines (length ls) (Some f1) s1 (int n) w1 =
      Some (map (\<lambda>l. (int (length l + 1), Some l)) ls, Some f2, s2, w2)"
    "bctbx_file_get_nxtline (Some f2) (Some s2) (int n) w2 = Some (0, Some s3, Some f3, w3)"
    using Cons.IH [OF s1(2) Cons.prems(2) _ s1(3) Cons.prems(5) _ _ Cons.prems(8)] by blast
  with s1(1,5) show ?case by (intro exI conjI) auto
qed

end

end
