(* ===== verification/VfsStandard.thy ===== *)
theory VfsStandard
  imports VfsLines
begin

text \<open>
  The standard backend of src/vfs/vfs_standard.c over the POSIX calls it makes.  The system holds
  regular files by path and the open file descriptions with their positions and flags; a disk is
  never full and a call is not interrupted, so that reads and writes are complete.  A
  \<open>bctbx_vfs_standard_t\<close> is a heap block with a descriptor; the handle that points to it is freed
  with it.
\<close>

unbundle bit_operations_syntax

section \<open>The POSIX calls\<close>

record ofd =
  ofd_path :: string
  ofd_pos :: nat
  ofd_flags :: int

record os =
  files :: "string \<Rightarrow> string option"
  fds :: "nat \<Rightarrow> ofd option"
  next_fd :: nat
  errno :: int
  udata :: "nat \<Rightarrow> int option"
  next_ud :: nat

definition ENOENT :: int where "ENOENT = 2"
definition EBADF :: int where "EBADF = 9"
definition EINVAL :: int where "EINVAL = 22"

definition sys_fail :: "int \<Rightarrow> os \<Rightarrow> int \<times> os" where
  "sys_fail e s = (-1, s\<lparr>errno := e\<rparr>)"

definition get_fd :: "os \<Rightarrow> int \<Rightarrow> ofd option" where
  "get_fd s fd = (if fd < 0 then None else fds s (nat fd))"

definition put_fd :: "os \<Rightarrow> int \<Rightarrow> ofd \<Rightarrow> os" where
  "put_fd s fd d = s\<lparr>fds := (fds s)(nat fd \<mapsto> d)\<rparr>"

definition data_of :: "os \<Rightarrow> ofd \<Rightarrow> string" where
  "data_of s d = (case files s (ofd_path d) of None \<Rightarrow> [] | Some c \<Rightarrow> c)"

definition sys_open :: "string \<Rightarrow> int \<Rightarrow> os \<Rightarrow> int \<times> os" where
  "sys_open path flags s =
     (if files s path = None \<and> flags AND O_CREAT = 0 then sys_fail ENOENT s
      else (let c = (case files s path of None \<Rightarrow> [] | Some c \<Rightarrow> if flags AND O_TRUNC \<noteq> 0 then [] else c);
                s1 = s\<lparr>files := (files s)(path \<mapsto> c),
                       fds := (fds s)(next_fd s \<mapsto> \<lparr>ofd_path = path, ofd_pos = 0, ofd_flags = flags\<rparr>),
                       next_fd := Suc (next_fd s)\<rparr>
            in (int (next_fd s), s1)))"

definition sys_close :: "int \<Rightarrow> os \<Rightarrow> int \<times> os" where
  "sys_close fd s =
     (case get_fd s fd of None \<Rightarrow> sys_fail EBADF s | Some d \<Rightarrow> (0, s\<lparr>fds := (fds s)(nat fd := None)\<rparr>))"

definition sys_lseek :: "int \<Rightarrow> int \<Rightarrow> os \<Rightarrow> int \<times> os" where
  "sys_lseek fd off s =
     (case get_fd s fd of
        None \<Rightarrow> sys_fail EBADF s
      | Some d \<Rightarrow> if off < 0 then sys_fail EINVAL s else (off, put_fd s fd (d\<lparr>ofd_pos := nat off\<rparr>)))"

definition sys_read :: "int \<Rightarrow> nat \<Rightarrow> os \<Rightarrow> int \<times> string \<times> os" where
  "sys_read fd n s =
     (case get_fd s fd of
        None \<Rightarrow> (-1, [], s\<lparr>errno := EBADF\<rparr>)
      | Some d \<Rightarrow>
          if ofd_flags d AND 3 = O_WRONLY then (-1, [], s\<lparr>errno := EBADF\<rparr>)
          else (let c = take n (drop (ofd_pos d) (data_of s d))
                in (int (length c), c, put_fd s fd (d\<lparr>ofd_pos := ofd_pos d + length c\<rparr>))))"

definition sys_write :: "int \<Rightarrow> string \<Rightarrow> os \<Rightarrow> int \<times> os" where
  "sys_write fd buf s =
     (case get_fd s fd of
        None \<Rightarrow> sys_fail EBADF s
      | Some d \<Rightarrow>
          if ofd_flags d AND 3 = O_RDONLY then sys_fail EBADF s
          else (let c = data_of s d;
                    pos = (if ofd_flags d AND O_APPEND \<noteq> 0 then length c else ofd_pos d);
                    s1 = put_fd s fd (d\<lparr>ofd_pos := pos + length buf\<rparr>)
                in (int (length buf), s1\<lparr>files := (files s)(ofd_path d \<mapsto> splice c pos buf)\<rparr>)))"

definition sys_fsize :: "int \<Rightarrow> os \<Rightarrow> int \<times> int \<times> os" where
  "sys_fsize fd s =
     (case get_fd s fd of
        None \<Rightarrow> (-1, 0, s\<lparr>errno := EBADF\<rparr>)
      | Some d \<Rightarrow> (0, int (length (data_of s d)), s))"

definition sys_ftruncate :: "int \<Rightarrow> int \<Rightarrow> os \<Rightarrow> int \<times> os" where
  "sys_ftruncate fd n s =
     (case get_fd s fd of
        None \<Rightarrow> sys_fail EBADF s
      | Some d \<Rightarrow>
          if n < 0 \<or> ofd_flags d AND 3 = O_RDONLY then sys_fail EINVAL s
          else (let c = data_of s d; c1 = take (nat n) c @ replicate (nat n - length c) NUL
                in (0, s\<lparr>files := (files s)(ofd_path d \<mapsto> c1)\<rparr>)))"

definition sys_fsync :: "int \<Rightarrow> os \<Rightarrow> int \<times> os" where
  "sys_fsync fd s = (case get_fd s fd of None \<Rightarrow> sys_fail EBADF s | Some d \<Rightarrow> (0, s))"

section \<open>The backend\<close>

text \<open>\<open>ctx->fd\<close> for the user data at a pointer.\<close>

definition ctx_fd :: "os \<Rightarrow> nat \<Rightarrow> int" where
  "ctx_fd s a = (case udata s a of None \<Rightarrow> -1 | Some fd \<Rightarrow> fd)"

definition bcClose :: "ptr \<Rightarrow> os \<Rightarrow> int \<times> os" where
  "bcClose ud s =
     (case ud of
        None \<Rightarrow> (BCTBX_VFS_ERROR, s)
      | Some a \<Rightarrow>
          (let (r, s1) = sys_close (ctx_fd s a) s;
               ret = (if r = 0 then BCTBX_VFS_OK else - errno s1)
           in (ret, s1\<lparr>udata := (udata s1)(a := None)\<rparr>)))"

definition bcSync :: "ptr \<Rightarrow> os \<Rightarrow> int \<times> os" where
  "bcSync ud s =
     (case ud of
        None \<Rightarrow> (BCTBX_VFS_ERROR, s)
      | Some a \<Rightarrow>
          (let (rc, s1) = sys_fsync (ctx_fd s a) s in (if rc = 0 then BCTBX_VFS_OK else BCTBX_VFS_ERROR, s1)))"

definition bcRead :: "ptr \<Rightarrow> nat \<Rightarrow> int \<Rightarrow> os \<Rightarrow> int \<times> string \<times> os" where
  "bcRead ud cnt off s =
     (case ud of
        None \<Rightarrow> (BCTBX_VFS_ERROR, [], s)
      | Some a \<Rightarrow>
          (let (r, s1) = sys_lseek (ctx_fd s a) off s in
           if r < 0
           then (if errno s1 \<noteq> 0 then (- errno s1, [], s1) else (BCTBX_VFS_ERROR, [], s1))
           else (let (nRead, c, s2) = sys_read (ctx_fd s1 a) cnt s1 in
                 if nRead < 0 \<and> errno s2 \<noteq> 0 then (- errno s2, c, s2) else (nRead, c, s2))))"

definition bcWrite :: "ptr \<Rightarrow> string \<Rightarrow> int \<Rightarrow> os \<Rightarrow> int \<times> os" where
  "bcWrite ud buf off s =
     (case ud of
        None \<Rightarrow> (BCTBX_VFS_ERROR, s)
      | Some a \<Rightarrow>
          (let (r, s1) = sys_lseek (ctx_fd s a) off s in
           if r < 0
           then (if errno s1 \<noteq> 0 then (- errno s1, s1) else (BCTBX_VFS_ERROR, s1))
           else (let (nWrite, s2) = sys_write (ctx_fd s1 a) buf s1 in
                 if 0 \<le> nWrite then (nWrite, s2)
                 else if nWrite = -1 then (if errno s2 \<noteq> 0 then (- errno s2, s2) else (0, s2))
                 else (BCTBX_VFS_ERROR, s2))))"

definition bcFileSize :: "ptr \<Rightarrow> os \<Rightarrow> int \<times> os" where
  "bcFileSize ud s =
     (case ud of
        None \<Rightarrow> (BCTBX_VFS_ERROR, s)
      | Some a \<Rightarrow>
          (let (rc, n, s1) = sys_fsize (ctx_fd s a) s in
           if rc \<noteq> 0 then (- errno s1, s1) else (n, s1)))"

definition bcTruncate :: "ptr \<Rightarrow> int \<Rightarrow> os \<Rightarrow> int \<times> os" where
  "bcTruncate ud new_size s =
     (case ud of
        None \<Rightarrow> (BCTBX_VFS_ERROR, s)
      | Some a \<Rightarrow>
          (let (ret, s1) = sys_ftruncate (ctx_fd s a) new_size s in
           if ret < 0 then (- errno s1, s1) else (0, s1)))"

definition bcio :: "os bctbx_io_methods_t" where
  "bcio = \<lparr>pFuncClose = bcClose, pFuncRead = bcRead, pFuncWrite = bcWrite, pFuncTruncate = bcTruncate,
     pFuncFileSize = bcFileSize, pFuncSync = bcSync, pFuncGetLineFromFd = None, pFuncIsEncrypted = None\<rparr>"

definition bcOpen ::
    "string option \<Rightarrow> int \<Rightarrow> os bctbx_vfs_file_t \<Rightarrow> os \<Rightarrow> int \<times> os bctbx_vfs_file_t \<times> os" where
  "bcOpen fName openFlags pFile s =
     (case fName of
        None \<Rightarrow> (BCTBX_VFS_ERROR, pFile, s)
      | Some path \<Rightarrow>
          (let (fd, s1) = sys_open path openFlags s in
           if fd = -1 then (- errno s1, pFile, s1)
           else (BCTBX_VFS_OK, pFile\<lparr>pMethods := Some bcio, pUserData := Some (next_ud s1)\<rparr>,
                 s1\<lparr>udata := (udata s1)(next_ud s1 \<mapsto> fd), next_ud := Suc (next_ud s1)\<rparr>)))"

definition bcStandardVfs_obj :: "os bctbx_vfs_t" where
  "bcStandardVfs_obj = \<lparr>vfsName = ''bctbx_vfs'', pFuncOpen = bcOpen\<rparr>"

section \<open>It meets the contract\<close>

definition std_content :: "os \<Rightarrow> ptr \<Rightarrow> string" where
  "std_content s u =
     (case u of
        None \<Rightarrow> []
      | Some a \<Rightarrow> (case get_fd s (ctx_fd s a) of None \<Rightarrow> [] | Some d \<Rightarrow> data_of s d))"

text \<open>The user data holds a descriptor open for reading and writing, not for appending.\<close>

definition std_ready :: "string \<Rightarrow> os \<Rightarrow> ptr \<Rightarrow> bool" where
  "std_ready path s u \<longleftrightarrow>
     (\<exists>a n d. u = Some a \<and> udata s a = Some (int n) \<and> fds s n = Some d \<and> ofd_path d = path \<and>
       ofd_flags d AND 3 = O_RDWR \<and> ofd_flags d AND O_APPEND = 0 \<and> files s path \<noteq> None)"

lemma std_ready_content: "std_ready path s u \<Longrightarrow> files s path = Some (std_content s u)"
  by (auto simp: std_ready_def std_content_def get_fd_def ctx_fd_def data_of_def)

interpretation std: vfs_backend bcio std_content "std_ready path" "\<lambda>_ _. True" "\<lambda>_ _. True" for path
proof
  fix s u d off n
  show "pFuncGetLineFromFd bcio = None" by (simp add: bcio_def)
  assume "std_ready path s u"
  then obtain a k fd where u: "u = Some a" "udata s a = Some (int k)" "fds s k = Some fd" "ofd_path fd = path"
      "ofd_flags fd AND 3 = O_RDWR" "ofd_flags fd AND O_APPEND = 0" "files s path \<noteq> None"
    unfolding std_ready_def by blast
  note defs = bcio_def sys_lseek_def get_fd_def put_fd_def ctx_fd_def std_ready_def std_content_def data_of_def
    O_RDWR_def O_RDONLY_def O_WRONLY_def
  show "\<exists>s'. pFuncWrite bcio u d (int off) s = (int (length d), s') \<and> std_ready path s' u \<and>
      std_content s' u = splice (std_content s u) off d"
    using u by (auto simp: defs bcWrite_def sys_write_def Let_def)
  show "\<exists>s'. pFuncRead bcio u n (int off) s =
        (int (length (take n (drop off (std_content s u)))), take n (drop off (std_content s u)), s') \<and>
      std_ready path s' u \<and> std_content s' u = std_content s u"
    using u by (auto simp: defs bcRead_def sys_read_def Let_def)
  show "\<exists>s'. pFuncFileSize bcio u s = (int (length (std_content s u)), s') \<and> std_ready path s' u \<and>
      std_content s' u = std_content s u"
    using u by (auto simp: defs bcFileSize_def sys_fsize_def Let_def)
  show "\<exists>s'. pFuncSync bcio u s = (0, s') \<and> std_ready path s' u \<and> std_content s' u = std_content s u"
    using u by (auto simp: defs bcSync_def sys_fsync_def Let_def BCTBX_VFS_OK_def)
qed

end
