(* ===== verification/VfsProps.thy ===== *)
theory VfsProps
  imports VfsStandard
begin

text \<open>
  The properties of the virtual file system: the caching layer of vfs.c over the standard backend
  behaves as a plain file, lines are read one by one, closing an encrypted file leaves no plain
  text in freed memory; and the behaviours of the layer at its edges.
\<close>

unbundle bit_operations_syntax

section \<open>An open file\<close>

lemma set_flags_rplus: "set_flags ''r+'' = Some O_RDWR"
  by (simp add: set_flags_def eval_nat_numeral NUL_def)

lemma open_rplus:
  assumes "files s path = Some c"
  shows "\<exists>f s1. bctbx_file_open (Some bcStandardVfs_obj) (Some path) ''r+'' s = Some (Some f, s1) \<and>
    std.rep path f s1 (c, 0) \<and> gSize f = 0"
proof -
  have "O_RDWR AND 3 = O_RDWR" "O_RDWR AND O_APPEND = 0" "O_RDWR AND O_TRUNC = 0" "O_RDWR AND O_CREAT = 0"
    by (simp_all add: O_RDWR_def O_APPEND_def O_TRUNC_def O_CREAT_def)
  with assms show ?thesis
    by (auto simp: bctbx_file_open_def set_flags_rplus file_open_def bcStandardVfs_obj_def bcOpen_def
        sys_open_def Let_def BCTBX_VFS_OK_def BCTBX_VFS_ERROR_def std.rep_flushed handle_ok_def new_file_def
        get_cache_ok_def std_ready_def std_content_def get_fd_def ctx_fd_def data_of_def PRINTF_PAGE_SIZE_def)
qed

lemma set_flags_create: "set_flags ''w+'' = Some (O_RDWR OR O_CREAT)"
  by (simp add: set_flags_def eval_nat_numeral NUL_def)

lemma open_create:
  "\<exists>f s1. bctbx_file_open (Some bcStandardVfs_obj) (Some path) ''w+'' s = Some (Some f, s1) \<and>
    std.rep path f s1 (case files s path of None \<Rightarrow> [] | Some c \<Rightarrow> c, 0) \<and> gSize f = 0"
proof -
  have "(O_RDWR OR O_CREAT) AND 3 = O_RDWR" "(O_RDWR OR O_CREAT) AND O_APPEND = 0" "(O_RDWR OR O_CREAT) AND O_TRUNC = 0"
    "(O_RDWR OR O_CREAT) AND O_CREAT \<noteq> 0"
    by (simp_all add: O_RDWR_def O_APPEND_def O_TRUNC_def O_CREAT_def)
  then show ?thesis
    by (auto simp: bctbx_file_open_def set_flags_create file_open_def bcStandardVfs_obj_def bcOpen_def
        sys_open_def Let_def BCTBX_VFS_OK_def BCTBX_VFS_ERROR_def std.rep_flushed handle_ok_def new_file_def
        get_cache_ok_def std_ready_def std_content_def get_fd_def ctx_fd_def data_of_def PRINTF_PAGE_SIZE_def
        split: option.splits)
qed

lemma close_std:
  assumes "std.rep path f s (c, pos)"
  shows "\<exists>f1 s1. bctbx_file_close (Some f) s = Some (0, Freed (Some f1), s1) \<and> files s1 path = Some c"
proof -
  obtain r f1 s1 where f1: "bctbx_file_flush (Some f) s = Some (r, Some f1, s1)" "0 \<le> r" "fSize f1 = 0"
    "std.rep path f1 s1 (c, pos)" "pMethods f1 = Some bcio"
    using std.flush_repE [OF assms] by metis
  then have rd: "std_ready path s1 (pUserData f1)" "files s1 path = Some c"
    using std_ready_content by (auto simp: std.rep_flushed)
  then obtain a k d where u: "pUserData f1 = Some a" "udata s1 a = Some (int k)" "fds s1 k = Some d"
    unfolding std_ready_def by blast
  have "\<exists>s2. bcClose (pUserData f1) s1 = (0, s2) \<and> files s2 path = Some c"
    using u rd(2) by (simp add: bcClose_def ctx_fd_def sys_close_def get_fd_def BCTBX_VFS_OK_def)
  then obtain s2 where "bcClose (pUserData f1) s1 = (0, s2)" "files s2 path = Some c" by blast
  moreover have "bctbx_file_is_encrypted (Some f1) s1 = False"
    using f1(5) by (simp add: bctbx_file_is_encrypted_def bcio_def)
  ultimately show ?thesis
    using f1 by (simp add: bctbx_file_close_def with_flush_def Let_def) (simp add: bcio_def)
qed

section \<open>Commands and lines\<close>

text \<open>
  What a caller does with a handle: the commands of \<open>file_cmd\<close>, and reading the next line into its buffer, of which it
  tells the function \<open>n\<close> bytes.
\<close>

datatype handle_cmd = Cmd file_cmd | GetLine

fun handle_step ::
    "nat \<Rightarrow> handle_cmd \<Rightarrow> 'w bctbx_vfs_file_t option \<Rightarrow> cbuf \<Rightarrow> 'w \<Rightarrow>
     (answer \<times> 'w bctbx_vfs_file_t option \<times> cbuf \<times> 'w) option" where
  "handle_step n (Cmd x) p b w = map_option (\<lambda>(a, p, w). (a, p, b, w)) (file_step x p w)"
| "handle_step n GetLine p b w = do {
     (r, sp, p, w) \<leftarrow> bctbx_file_get_nxtline p (Some b) (int n) w;
     b \<leftarrow> sp;
     l \<leftarrow> (if r = 0 then Some [] else cstr_at (bytes b) 0 (size_of b));
     Some ((r, l), p, b, w) }"

fun handle_run ::
    "nat \<Rightarrow> handle_cmd list \<Rightarrow> 'w bctbx_vfs_file_t option \<Rightarrow> cbuf \<Rightarrow> 'w \<Rightarrow>
     (answer list \<times> 'w bctbx_vfs_file_t option \<times> cbuf \<times> 'w) option" where
  "handle_run n [] p b w = Some ([], p, b, w)"
| "handle_run n (x # xs) p b w = do {
     (a, p, b, w) \<leftarrow> handle_step n x p b w;
     (as, p, b, w) \<leftarrow> handle_run n xs p b w;
     Some (a # as, p, b, w) }"

fun spec_handle :: "nat \<Rightarrow> handle_cmd \<Rightarrow> string \<times> nat \<Rightarrow> answer \<times> string \<times> nat" where
  "spec_handle n (Cmd x) s = spec_step x s"
| "spec_handle n GetLine (c, pos) = (let (r, l, pos) = next_line c pos n in ((int r, l), c, pos))"

fun spec_handle_run :: "nat \<Rightarrow> handle_cmd list \<Rightarrow> string \<times> nat \<Rightarrow> answer list \<times> string \<times> nat" where
  "spec_handle_run n [] s = ([], s)"
| "spec_handle_run n (x # xs) s =
     (let (a, s1) = spec_handle n x s; (as, s2) = spec_handle_run n xs s1 in (a # as, s2))"

text \<open>
  A line is read while the content is a text, and when it ends within the \<open>n - 1\<close> characters asked for, these are all
  taken, or the file is at its end.
\<close>

fun lines_ok :: "nat \<Rightarrow> handle_cmd list \<Rightarrow> string \<times> nat \<Rightarrow> bool" where
  "lines_ok n [] s = True"
| "lines_ok n (Cmd x # xs) s = lines_ok n xs (snd (spec_step x s))"
| "lines_ok n (GetLine # xs) (c, pos) =
     (text_content c \<and> (let d = take (n - 1) (drop pos c) in LF \<in> set d \<or> d = [] \<or> length d = n - 1) \<and>
      lines_ok n xs (snd (spec_handle n GetLine (c, pos))))"

text \<open>The commands never put anything into the page of lines.\<close>

lemma flush_page:
  assumes "bctbx_file_flush (Some f) w = Some (r, p, w')"
  shows "\<exists>f'. p = Some f' \<and> gSize f' \<le> gSize f"
  using assms
  by (auto simp: bctbx_file_flush.simps [of "Some _"] bctbx_file_write.simps Let_def
      split: if_splits option.splits prod.splits)

lemma write_page:
  assumes "bctbx_file_write (Some f) d off w = Some (r, p, w')"
  shows "\<exists>f'. p = Some f' \<and> gSize f' \<le> gSize f"
  using assms
  by (subst (asm) bctbx_file_write.simps)
    (auto simp: Let_def split: if_splits option.splits prod.splits dest!: flush_page)

lemma size_page:
  assumes "bctbx_file_size (Some f) w = Some (r, p, w')"
  shows "\<exists>f'. p = Some f' \<and> gSize f' \<le> gSize f"
  using assms by (auto simp: bctbx_file_size_def with_flush_def bind_Some_iff split_beta split: if_splits dest!: flush_page)

lemma read_page:
  assumes "bctbx_file_read (Some f) k off w = Some (r, d, p, w')"
  shows "\<exists>f'. p = Some f' \<and> gSize f' \<le> gSize f"
  using assms by (auto simp: bctbx_file_read_def with_flush_def bind_Some_iff Let_def split_beta split: if_splits dest!: flush_page)

lemma seek_page:
  assumes "bctbx_file_seek (Some f) off whence w = Some (r, p, w')"
  shows "\<exists>f'. p = Some f' \<and> gSize f' \<le> gSize f"
proof -
  obtain r1 f1 w1 where 1: "bctbx_file_flush (Some f) w = Some (r1, Some f1, w1)" "gSize f1 \<le> gSize f"
    using assms flush_page [of f w] by (auto simp: bctbx_file_seek_def bind_Some_iff)
  show ?thesis
  proof (cases "r1 < 0 \<or> whence \<noteq> SEEK_END \<or> SEEK_END = SEEK_SET \<or> SEEK_END = SEEK_CUR")
    case True
    then show ?thesis using assms 1 by (auto simp: bctbx_file_seek_def split: if_splits)
  next
    case False
    then obtain n f2 w2 where "bctbx_file_size (Some f1) w1 = Some (n, Some f2, w2)" "p = Some (f2\<lparr>offset := n + off\<rparr>)"
      using assms 1 by (auto simp: bctbx_file_seek_def bind_Some_iff)
    then show ?thesis using size_page [of f1 w1] 1(2) by fastforce
  qed
qed

lemma fprintf_page:
  assumes "bctbx_file_fprintf (Some f) off d w = Some (r, p, w')"
  shows "\<exists>f'. p = Some f' \<and> gSize f' \<le> gSize f"
  using assms
  by (fastforce simp: bctbx_file_fprintf_def Let_def bind_Some_iff split: if_splits option.splits prod.splits
      dest!: flush_page write_page)

lemma step_page:
  assumes "file_step x (Some f) w = Some (a, p, w')"
  shows "\<exists>f'. p = Some f' \<and> gSize f' \<le> gSize f"
proof (cases x)
  case (Write2 d)
  then show ?thesis
    using assms by (fastforce simp: bctbx_file_write2_def bind_Some_iff split: if_splits dest!: write_page seek_page)
next
  case (Read2 k)
  then show ?thesis
    using assms by (fastforce simp: bctbx_file_read2_def bind_Some_iff split: if_splits dest!: read_page seek_page)
next
  case Sync
  then show ?thesis
    using assms
    by (auto simp: bctbx_file_sync_def with_flush_def bind_Some_iff split_beta split: if_splits dest!: flush_page)
qed (use assms in \<open>auto dest: write_page read_page seek_page size_page fprintf_page\<close>)

lemma handle_run_rep:
  assumes "1 \<le> n" "n \<le> size_of b" "std.rep path f s v" "gSize f \<le> n - 1" "lines_ok n xs v"
  shows "\<exists>f' b' s'. handle_run n xs (Some f) b s = Some (fst (spec_handle_run n xs v), Some f', b', s') \<and>
    std.rep path f' s' (snd (spec_handle_run n xs v))"
  using assms(2-5)
proof (induction xs arbitrary: f b s v)
  case (Cons x xs)
  obtain c pos where v: "v = (c, pos)" by fastforce
  have "\<exists>f1 b1 s1. handle_step n x (Some f) b s = Some (fst (spec_handle n x v), Some f1, b1, s1) \<and>
    std.rep path f1 s1 (snd (spec_handle n x v)) \<and> gSize f1 \<le> n - 1 \<and> size_of b1 = size_of b \<and>
    lines_ok n xs (snd (spec_handle n x v))"
  proof (cases x)
    case (Cmd y)
    obtain f1 s1 where 1: "file_step y (Some f) s = Some (fst (spec_step y v), Some f1, s1)" "std.rep path f1 s1 (snd (spec_step y v))"
      using std.step_sim [OF Cons.prems(2) in_range_all] by blast
    have "gSize f1 \<le> n - 1" using step_page [OF 1(1)] Cons.prems(3) by simp
    then show ?thesis using 1 Cons.prems(4) Cmd by simp
  next
    case GetLine
    let ?d = "take (n - 1) (drop pos c)"
    have l: "text_content c" "LF \<in> set ?d \<or> ?d = [] \<or> length ?d = n - 1" "lines_ok n xs (snd (spec_handle n GetLine (c, pos)))"
      using Cons.prems(4) unfolding v GetLine lines_ok.simps Let_def by blast+
    obtain f1 s1 b1 where 1: "bctbx_file_get_nxtline (Some f) (Some b) (int n) s =
        Some (int (fst (next_line c pos n)), Some b1, Some f1, s1)" "std.rep path f1 s1 (c, snd (snd (next_line c pos n)))"
      "gSize f1 \<le> n - 1" "size_of b1 = size_of b"
      "?d \<noteq> [] \<longrightarrow> cstr_at (bytes b1) 0 (size_of b1) = Some (fst (snd (next_line c pos n)))"
      using std.get_nxtline_rep [OF Cons.prems(2) [unfolded v] l(1) assms(1) Cons.prems(1,3) TrueI l(2)] by blast
    have z: "fst (next_line c pos n) = 0 \<longleftrightarrow> ?d = []" "?d = [] \<Longrightarrow> fst (snd (next_line c pos n)) = []"
      by (auto simp: next_line_def Let_def)
    then show ?thesis
      using 1 l(3) unfolding v GetLine
      by (intro exI [of _ f1] exI [of _ b1] exI [of _ s1]) (auto simp: split_beta)
  qed
  then obtain f1 b1 s1 where 1: "handle_step n x (Some f) b s = Some (fst (spec_handle n x v), Some f1, b1, s1)"
    "std.rep path f1 s1 (snd (spec_handle n x v))" "gSize f1 \<le> n - 1" "n \<le> size_of b1"
    "lines_ok n xs (snd (spec_handle n x v))"
    using Cons.prems(1) by auto
  show ?case using Cons.IH [OF 1(4,2,3,5)] 1(1) by (auto simp: split_beta)
qed simp

section \<open>Evaluation of concrete runs\<close>

definition demo_os :: "string \<Rightarrow> os" where
  "demo_os c = \<lparr>files = [''f'' \<mapsto> c], fds = Map.empty, next_fd = 3, errno = 0, udata = Map.empty, next_ud = 0\<rparr>"

lemma cstr_at_step:
  "cstr_at arr i n =
     (if i < n then if arr i = NUL then Some [] else map_option (Cons (arr i)) (cstr_at arr (Suc i) n)
      else None)"
proof (cases "i < n")
  case True
  then have "aslice arr i (n - i) = arr i # aslice arr (Suc i) (n - Suc i)"
    by (simp add: aslice_def upt_conv_Cons)
  then show ?thesis using True by (auto simp: cstr_at_def Let_def)
qed (simp add: cstr_at_def)

lemmas open_run = bctbx_file_open_def set_flags_rplus file_open_def bcStandardVfs_obj_def bcOpen_def
  sys_open_def Let_def BCTBX_VFS_OK_def BCTBX_VFS_ERROR_def new_file_def O_RDWR_def O_APPEND_def
  O_TRUNC_def O_CREAT_def demo_os_def

lemmas line_run = bctbx_file_get_nxtline_def bctbx_file_flush.simps bctbx_generic_get_nxtline_def
  in_get_cache_def nxtline_from_file_def buf_write_def bctbx_file_read_def with_flush_def
  store_chunk_def GETLINE_PAGE_SIZE_def cstr_at_step memcpy_to_def findNextLine_def line_step_def cat_def
  NUL_def LF_def CR_def EOT_def aslice_def cmalloc_def

lemmas posix_run = bcio_def bcRead_def bcTruncate_def sys_lseek_def sys_read_def sys_ftruncate_def ctx_fd_def
  get_fd_def put_fd_def data_of_def O_WRONLY_def O_RDONLY_def bctbx_file_truncate_def

text \<open>A buffer as an earlier use may have left it, with a line feed at index 5.\<close>

definition demo_buf :: cbuf where
  "demo_buf = \<lparr>bytes = (\<lambda>i. if i = 5 then LF else CHR ''x''), size_of = 8\<rparr>"

definition demo_open :: "string \<Rightarrow> (os bctbx_vfs_file_t option \<times> os) option" where
  "demo_open c = bctbx_file_open (Some bcStandardVfs_obj) (Some ''f'') ''r+'' (demo_os c)"

text \<open>Opening, reading \<open>k\<close> lines, truncating the file and reading one more line.\<close>

definition truncate_run :: "string \<Rightarrow> (string option \<times> int \<times> int \<times> string option) option" where
  "truncate_run c = do {
     (p, s) \<leftarrow> demo_open c;
     (r, b, p, s) \<leftarrow> bctbx_file_get_nxtline p (Some (cmalloc 6)) 6 s;
     b \<leftarrow> b;
     (t, p, s) \<leftarrow> bctbx_file_truncate p 0 s;
     (r2, b2, p, s) \<leftarrow> bctbx_file_get_nxtline p (Some b) 6 s;
     b2 \<leftarrow> b2;
     Some (cstr_at (bytes b) 0 6, t, r2, cstr_at (bytes b2) 0 6) }"

text \<open>Reading a line into a large buffer and the next one into a buffer of two bytes.\<close>

definition small_buffer_run :: "string \<Rightarrow> (int \<times> string option) option" where
  "small_buffer_run c = do {
     (p, s) \<leftarrow> demo_open c;
     (r, b, p, s) \<leftarrow> bctbx_file_get_nxtline p (Some (cmalloc 6)) 6 s;
     (r2, b2, p, s) \<leftarrow> bctbx_file_get_nxtline p (Some (cmalloc 2)) 2 s;
     b2 \<leftarrow> b2;
     Some (r2, cstr_at (bytes b2) 0 2) }"

lemma flush_keeps:
  assumes "bctbx_file_flush (Some f) w = Some (r, Some f', w')"
  shows "pMethods f' = pMethods f \<and> pUserData f' = pUserData f"
  using assms
  by (auto simp: bctbx_file_flush.simps [of "Some _"] bctbx_file_write.simps Let_def
      split: if_splits option.splits prod.splits)

section \<open>Properties\<close>

text \<open>
  C1: A file opened for update, and created if need be with the mode w+, behaves on the standard file system as a plain
  content with a position.  Whatever sequence of writes, formatted prints, reads, seeks, size queries, syncs and reads of
  lines is made through the handle, with the print cache and the line cache in between, every call returns what the
  specification returns, and after closing the file on disk holds exactly the content of the specification.  Lines are
  read into a buffer of the caller while the content is a text, and when they fit it or fill it.
\<close>

theorem std_file_refines_spec:
  assumes "mode = ''r+'' \<and> files s path = Some c \<or>
      mode = ''w+'' \<and> c = (case files s path of None \<Rightarrow> [] | Some old \<Rightarrow> old)"
    and "1 \<le> n" "n \<le> size_of b" "lines_ok n cmds (c, 0)"
  shows "\<exists>f s1 f' b' s' g s2.
    bctbx_file_open (Some bcStandardVfs_obj) (Some path) mode s = Some (Some f, s1) \<and>
    handle_run n cmds (Some f) b s1 = Some (fst (spec_handle_run n cmds (c, 0)), Some f', b', s') \<and>
    bctbx_file_close (Some f') s' = Some (0, Freed (Some g), s2) \<and>
    files s2 path = Some (fst (snd (spec_handle_run n cmds (c, 0))))"
proof -
  obtain f s1 where f: "bctbx_file_open (Some bcStandardVfs_obj) (Some path) mode s = Some (Some f, s1)"
    "std.rep path f s1 (c, 0)" "gSize f = 0"
    using open_rplus [of s path c] open_create [of path s] assms(1) by blast
  have "gSize f \<le> n - 1" using f(3) by simp
  from handle_run_rep [OF assms(2,3) f(2) this assms(4)]
  obtain f' b' s' where f': "handle_run n cmds (Some f) b s1 = Some (fst (spec_handle_run n cmds (c, 0)), Some f', b', s')"
    "std.rep path f' s' (snd (spec_handle_run n cmds (c, 0)))"
    by blast
  obtain c' pos' where e: "snd (spec_handle_run n cmds (c, 0)) = (c', pos')" by fastforce
  from close_std [OF f'(2) [unfolded e]] f(1) f'(1) e show ?thesis by auto
qed

theorem std_file_refines_spec_witness:
  "\<exists>f s1 f' b' s' g s2.
    bctbx_file_open (Some bcStandardVfs_obj) (Some ''f'') ''r+'' (demo_os (unlines [''hello'', ''you''])) = Some (Some f, s1) \<and>
    handle_run 7 [GetLine, Cmd (WriteAt ''J'' 6), GetLine, GetLine, Cmd (Fprintf 1 ''ow''), Cmd (SeekSet 0), GetLine, Cmd Size]
        (Some f) (cmalloc 7) s1 =
      Some ([(6, ''hello''), (1, []), (4, ''Jou''), (0, []), (2, []), (0, []), (6, ''howlo''), (10, [])], Some f', b', s') \<and>
    bctbx_file_close (Some f') s' = Some (0, Freed (Some g), s2) \<and>
    files s2 ''f'' = Some (unlines [''howlo'', ''Jou''])"
proof -
  let ?cmds = "[GetLine, Cmd (WriteAt ''J'' 6), GetLine, GetLine, Cmd (Fprintf 1 ''ow''), Cmd (SeekSet 0), GetLine, Cmd Size]"
  note ev = unlines_def next_line_def splice_def Let_def text_content_def NUL_def EOT_def CR_def LF_def eval_nat_numeral
  have l: "lines_ok 7 ?cmds (unlines [''hello'', ''you''], 0)" by (simp add: ev)
  have r: "spec_handle_run 7 ?cmds (unlines [''hello'', ''you''], 0) =
      ([(6, ''hello''), (1, []), (4, ''Jou''), (0, []), (2, []), (0, []), (6, ''howlo''), (10, [])],
       unlines [''howlo'', ''Jou''], 6)"
    by (simp add: ev)
  have "files (demo_os (unlines [''hello'', ''you''])) ''f'' = Some (unlines [''hello'', ''you''])" by (simp add: demo_os_def)
  then show ?thesis
    using std_file_refines_spec [of "''r+''" "demo_os (unlines [''hello'', ''you''])" "''f''" "unlines [''hello'', ''you'']" 7
        "cmalloc 7" ?cmds] l
    unfolding r by (simp add: cmalloc_def del: handle_run.simps)
qed

text \<open>
  C8: Reading lines from a text file whose lines fit the buffer returns the lines of the file in
  order, each with its length plus one, and then 0, however the lines fall on the pages of the
  line cache; the buffer is never overrun.
\<close>

theorem std_read_lines:
  assumes "files s path = Some (unlines ls)" "text_content (unlines ls)" "1 \<le> n" "n \<le> size_of b"
    "\<forall>l\<in>set ls. LF \<notin> set l \<and> length l + 2 \<le> n"
  shows "\<exists>f s1 f' s' b' b'' f'' s''.
    bctbx_file_open (Some bcStandardVfs_obj) (Some path) ''r+'' s = Some (Some f, s1) \<and>
    read_lines (length ls) (Some f) b (int n) s1 =
      Some (map (\<lambda>l. (int (length l + 1), Some l)) ls, Some f', b', s') \<and>
    bctbx_file_get_nxtline (Some f') (Some b') (int n) s' = Some (0, Some b'', Some f'', s'')"
proof -
  obtain f s1 where f: "bctbx_file_open (Some bcStandardVfs_obj) (Some path) ''r+'' s = Some (Some f, s1)"
    "std.rep path f s1 (unlines ls, 0)" "gSize f = 0"
    using open_rplus [OF assms(1)] by blast
  have "gSize f \<le> n - 1" using f(3) by simp
  from std.read_lines_rep [OF f(2) assms(2,4) this assms(3) drop_0 assms(5)] f(1) show ?thesis by auto
qed

theorem std_read_lines_witness:
  "\<exists>f s1 f' s' b' b'' f'' s''.
    bctbx_file_open (Some bcStandardVfs_obj) (Some ''f'') ''r+'' (demo_os (unlines [''ab'', '''', ''cde''])) = Some (Some f, s1) \<and>
    read_lines 3 (Some f) (cmalloc 6) 5 s1 =
      Some ([(3, Some ''ab''), (1, Some ''''), (4, Some ''cde'')], Some f', b', s') \<and>
    bctbx_file_get_nxtline (Some f') (Some b') 5 s' = Some (0, Some b'', Some f'', s'')"
  using std_read_lines [of "demo_os (unlines [''ab'', '''', ''cde''])" "''f''" "[''ab'', '''', ''cde'']" 5 "cmalloc 6"]
  by (simp add: demo_os_def unlines_def text_content_def NUL_def EOT_def CR_def LF_def cmalloc_def eval_nat_numeral
      del: read_lines.simps)

text \<open>
  The open modes. The six plain modes give their flags; but the letter b is not dropped where
  it stands, so that \<open>rb+\<close> opens read-only and \<open>br\<close> is rejected; \<open>w+\<close> does not truncate an
  existing file, and \<open>a\<close> does not create a missing one.
\<close>

theorem open_modes:
  "set_flags ''r'' = Some O_RDONLY \<and> set_flags ''r+'' = Some O_RDWR \<and>
   set_flags ''w'' = Some (O_WRONLY OR O_CREAT OR O_TRUNC) \<and> set_flags ''w+'' = Some (O_RDWR OR O_CREAT) \<and>
   set_flags ''a'' = Some (O_WRONLY OR O_APPEND) \<and> set_flags ''a+'' = Some (O_RDWR OR O_APPEND) \<and>
   set_flags ''r+b'' = Some O_RDWR \<and> set_flags ''rb+'' = Some O_RDONLY \<and> set_flags ''br'' = None \<and>
   map_option (\<lambda>(p, s). (p \<noteq> None, files s ''f''))
     (bctbx_file_open (Some bcStandardVfs_obj) (Some ''f'') ''w+'' (demo_os ''old'')) = Some (True, Some ''old'') \<and>
   map_option (\<lambda>(p, s). p = None)
     (bctbx_file_open (Some bcStandardVfs_obj) (Some ''g'') ''a'' (demo_os ''old'')) = Some True"
proof (intro conjI)
  have w: "set_flags ''w+'' = Some (O_RDWR OR O_CREAT)" "set_flags ''a'' = Some (O_WRONLY OR O_APPEND)"
    by (simp_all add: set_flags_def eval_nat_numeral NUL_def)
  then show "set_flags ''w+'' = Some (O_RDWR OR O_CREAT)" "set_flags ''a'' = Some (O_WRONLY OR O_APPEND)" by simp_all
  show "map_option (\<lambda>(p, s). (p \<noteq> None, files s ''f''))
     (bctbx_file_open (Some bcStandardVfs_obj) (Some ''f'') ''w+'' (demo_os ''old'')) = Some (True, Some ''old'')"
    by (simp add: bctbx_file_open_def w file_open_def bcStandardVfs_obj_def bcOpen_def sys_open_def Let_def
        BCTBX_VFS_OK_def BCTBX_VFS_ERROR_def O_RDWR_def O_CREAT_def O_TRUNC_def demo_os_def)
  show "map_option (\<lambda>(p, s). p = None)
     (bctbx_file_open (Some bcStandardVfs_obj) (Some ''g'') ''a'' (demo_os ''old'')) = Some True"
    by (simp add: bctbx_file_open_def w file_open_def bcStandardVfs_obj_def bcOpen_def sys_open_def Let_def
        BCTBX_VFS_OK_def BCTBX_VFS_ERROR_def O_WRONLY_def O_CREAT_def O_TRUNC_def O_APPEND_def demo_os_def
        sys_fail_def ENOENT_def)
qed (simp_all add: set_flags_def eval_nat_numeral NUL_def)

text \<open>
  Three edges of the line reader.  A last line without end of line is read together with what
  an earlier use left in the buffer; after a truncation the cached page still delivers lines that
  are no longer in the file; and a cached line longer than the buffer it is read into overruns it.
\<close>

theorem get_nxtline_edges:
  "Option.bind (demo_open ''efgh'')
     (\<lambda>(p, s1). map_option (\<lambda>(rs, _, _, _). rs) (read_lines 1 p demo_buf 8 s1)) =
     Some [(6, Some ''efghx'')] \<and>
   truncate_run (''a'' @ LF # ''b'' @ [LF]) = Some (Some ''a'', 0, 2, Some ''b'') \<and>
   small_buffer_run (''a'' @ LF # ''bc'' @ [LF]) = None"
proof (intro conjI)
  show "Option.bind (demo_open ''efgh'')
     (\<lambda>(p, s1). map_option (\<lambda>(rs, _, _, _). rs) (read_lines 1 p demo_buf 8 s1)) =
     Some [(6, Some ''efghx'')]"
    by (simp add: demo_open_def demo_buf_def open_run line_run posix_run)
  show "truncate_run (''a'' @ LF # ''b'' @ [LF]) = Some (Some ''a'', 0, 2, Some ''b'')"
    by (simp add: truncate_run_def demo_open_def open_run line_run posix_run)
  show "small_buffer_run (''a'' @ LF # ''bc'' @ [LF]) = None"
    by (simp add: small_buffer_run_def demo_open_def open_run line_run posix_run)
qed

text \<open>
  When the handle of an encrypted file is freed, neither of its pages holds anything of the
  file any more.
\<close>

theorem close_cleans_pages:
  assumes "pMethods f = Some m" "pFuncIsEncrypted m = Some enc" "\<And>w. enc (pUserData f) w"
    and "bctbx_file_close (Some f) w = Some (r, Freed (Some g), w')"
  shows "(\<forall>i < PRINTF_PAGE_SIZE. fPage g i = NUL) \<and> (\<forall>i < GETLINE_PAGE_SIZE. gPage g i = NUL)"
proof -
  obtain r0 f1 w1 where f1: "bctbx_file_flush (Some f) w = Some (r0, Some f1, w1)"
    using assms(4) by (auto simp: bctbx_file_close_def with_flush_def bind_Some_iff)
  then have k: "pMethods f1 = Some m" "pUserData f1 = pUserData f" using flush_keeps [OF f1] assms(1) by auto
  then have e: "bctbx_file_is_encrypted (Some f1) w1" using assms(2,3) by (simp add: bctbx_file_is_encrypted_def)
  have "g = f1\<lparr>fPage := bctbx_clean (fPage f1) PRINTF_PAGE_SIZE, gPage := bctbx_clean (gPage f1) GETLINE_PAGE_SIZE\<rparr>"
    using assms(4) f1 k e by (auto simp: bctbx_file_close_def with_flush_def Let_def split: if_splits prod.splits)
  then show ?thesis by (simp add: bctbx_clean_def memcpy_to_def)
qed

theorem close_cleans_pages_witness:
  "\<exists>g. bctbx_file_close (Some (new_file\<lparr>pMethods := Some (bcio\<lparr>pFuncIsEncrypted := Some (\<lambda>_ _. True)\<rparr>),
        fPage := (\<lambda>_. CHR ''s'')\<rparr>)) (demo_os []) = Some (-255, Freed (Some g), demo_os []) \<and>
     (\<forall>i < PRINTF_PAGE_SIZE. fPage g i = NUL)"
proof -
  let ?m = "bcio\<lparr>pFuncIsEncrypted := Some (\<lambda>_ _. True)\<rparr>"
  let ?f = "new_file\<lparr>pMethods := Some ?m, fPage := (\<lambda>_. CHR ''s'')\<rparr>"
  have "\<exists>g. bctbx_file_close (Some ?f) (demo_os []) = Some (-255, Freed (Some g), demo_os [])"
    by (simp add: bctbx_file_close_def with_flush_def bctbx_file_flush.simps new_file_def bcio_def bcClose_def
        BCTBX_VFS_ERROR_def bctbx_file_is_encrypted_def Let_def)
  then obtain g where g: "bctbx_file_close (Some ?f) (demo_os []) = Some (-255, Freed (Some g), demo_os [])" by blast
  from close_cleans_pages [OF _ _ _ g, of ?m "\<lambda>_ _. True"] g show ?thesis by auto
qed

text \<open>
  A flush does not look at how much was written.  When the backend accepts any number of bytes
  of the pending page, none included, the page is dropped and a sync reports success.
\<close>

theorem flush_drops_short_write:
  assumes "pMethods f = Some m" "0 < fSize f" "fSize f \<le> PRINTF_PAGE_SIZE"
    and "pFuncWrite m (pUserData f) (aslice (fPage f) 0 (fSize f)) (fPageOffset f) w = (k, w1)" "0 \<le> k"
    and "pFuncSync m (pUserData f) w1 = (0, w2)"
  shows "bctbx_file_sync (Some f) w = Some (0, Some (f\<lparr>fSize := 0, gSize := 0\<rparr>), w2)"
  using assms
  by (simp add: bctbx_file_sync_def with_flush_def bctbx_file_flush.simps bctbx_file_write.simps)

theorem flush_drops_short_write_witness:
  "\<exists>f. bctbx_file_sync (Some (new_file\<lparr>pMethods := Some (bcio\<lparr>pFuncWrite := (\<lambda>_ _ _ s. (0, s)),
        pFuncSync := (\<lambda>_ s. (0, s))\<rparr>), fSize := 3\<rparr>)) (demo_os []) = Some (0, Some f, demo_os []) \<and> fSize f = 0"
proof -
  let ?m = "bcio\<lparr>pFuncWrite := (\<lambda>_ _ _ s. (0, s)), pFuncSync := (\<lambda>_ s. (0, s))\<rparr>"
  let ?f = "new_file\<lparr>pMethods := Some ?m, fSize := 3\<rparr>"
  show ?thesis
    using flush_drops_short_write [of ?f ?m "demo_os []" 0 "demo_os []" "demo_os []"]
    by (simp add: PRINTF_PAGE_SIZE_def)
qed

end
