(* ===== verification/Logger.thy ===== *)
theory Logger
  imports CInt CList
begin

text \<open>
  The logger of src/logging/logging.c: log domains with their masks, log handlers, and the
  dispatch of a message, directly or, when a log thread was chosen, through the list of stored
  messages.  Domains and handlers are heap objects with addresses; the two static handlers have
  fixed addresses.  Function pointers are addresses whose behaviour is the parameter \<open>call\<close>: a
  handler function gets its user data, the domain, the level, the format and its arguments, and
  changes the world \<open>'w\<close>.  The lists of handlers, of domains and of stored messages are lists of
  the elements, as CList proves of \<open>bctbx_list_t\<close>.  Each function runs to its end before
  another thread runs one, so that the mutexes are left out.
\<close>

unbundle bit_operations_syntax

section \<open>Growing string formatting\<close>

text \<open>
  \<open>vsn sz\<close> is \<open>vsnprintf(p, sz, fmt, args)\<close>: the value returned and the string left in the
  buffer.  The size is an \<open>int\<close>.
\<close>

partial_function (option) strdup_loop :: "(int \<Rightarrow> int \<times> string) \<Rightarrow> int \<Rightarrow> string option" where
  "strdup_loop vsn sz =
     (let (n, p) = vsn sz in
      if n > -1 \<and> n < sz then Some p
      else if n > -1 then Option.bind (i32 (n + 1)) (\<lambda>m. strdup_loop vsn m)
      else Option.bind (i32 (sz * 2)) (\<lambda>m. strdup_loop vsn m))"

definition bctbx_strdup_vprintf :: "(int \<Rightarrow> int \<times> string) \<Rightarrow> string option" where
  "bctbx_strdup_vprintf vsn = strdup_loop vsn 200"

definition bctbx_strcat_vprintf :: "string option \<Rightarrow> (int \<Rightarrow> int \<times> string) \<Rightarrow> string option" where
  "bctbx_strcat_vprintf dst vsn = do {
     ret \<leftarrow> bctbx_strdup_vprintf vsn;
     case dst of None \<Rightarrow> Some ret | Some d \<Rightarrow> Some (d @ ret) }"

text \<open>\<open>vsnprintf\<close> of the C standard for the formatted text \<open>t\<close>.\<close>

definition c99_vsnprintf :: "string \<Rightarrow> int \<Rightarrow> int \<times> string" where
  "c99_vsnprintf t sz = (int (length t), take (nat (sz - 1)) t)"

text \<open>
  The conversions the library itself uses: \<open>%s\<close>, \<open>%i\<close>, \<open>%d\<close> and \<open>%%\<close>.  A conversion without an
  argument, or with an argument of another type, is undefined.
\<close>

datatype parg = AStr string | AInt int

definition show_int :: "int \<Rightarrow> string" where
  "show_int n = (if n < 0 then CHR ''-'' # show_nat (nat (- n)) else show_nat (nat n))"

fun c_printf :: "string \<Rightarrow> parg list \<Rightarrow> string option" where
  "c_printf [] args = Some []"
| "c_printf [c] args = (if c = CHR ''%'' then None else Some [c])"
| "c_printf (c # d # fmt) args =
     (if c \<noteq> CHR ''%'' then map_option (Cons c) (c_printf (d # fmt) args)
      else if d = CHR ''%'' then map_option (Cons d) (c_printf fmt args)
      else case args of
        AStr t # rest \<Rightarrow> if d = CHR ''s'' then map_option (\<lambda>u. t @ u) (c_printf fmt rest) else None
      | AInt n # rest \<Rightarrow>
          if d = CHR ''i'' \<or> d = CHR ''d'' then map_option (\<lambda>u. show_int n @ u) (c_printf fmt rest) else None
      | [] \<Rightarrow> None)"

definition bctbx_strdup_printf :: "string \<Rightarrow> parg list \<Rightarrow> string option" where
  "bctbx_strdup_printf fmt args = do {
     t \<leftarrow> c_printf fmt args; bctbx_strdup_vprintf (c99_vsnprintf t) }"

definition bctbx_strcat_printf :: "string option \<Rightarrow> string \<Rightarrow> parg list \<Rightarrow> string option" where
  "bctbx_strcat_printf dst fmt args = do {
     t \<leftarrow> c_printf fmt args; bctbx_strcat_vprintf dst (c99_vsnprintf t) }"

lemma c_printf_plain: "CHR ''%'' \<notin> set t \<Longrightarrow> c_printf t args = Some t"
  by (induction t args rule: c_printf.induct) auto

lemma strdup_vprintf_c99:
  assumes "int (length t) < 2 ^ 31 - 1"
  shows "bctbx_strdup_vprintf (c99_vsnprintf t) = Some t"
proof -
  have "strdup_loop (c99_vsnprintf t) (int (length t) + 1) = Some t"
    by (subst strdup_loop.simps) (simp add: c99_vsnprintf_def)
  with assms show ?thesis
    unfolding bctbx_strdup_vprintf_def by (subst strdup_loop.simps) (simp add: c99_vsnprintf_def)
qed

section \<open>State\<close>

definition BCTBX_LOG_DEBUG :: "32 word" where "BCTBX_LOG_DEBUG = 1"
definition BCTBX_LOG_TRACE :: "32 word" where "BCTBX_LOG_TRACE = 2"
definition BCTBX_LOG_MESSAGE :: "32 word" where "BCTBX_LOG_MESSAGE = 4"
definition BCTBX_LOG_WARNING :: "32 word" where "BCTBX_LOG_WARNING = 8"
definition BCTBX_LOG_ERROR :: "32 word" where "BCTBX_LOG_ERROR = 16"
definition BCTBX_LOG_FATAL :: "32 word" where "BCTBX_LOG_FATAL = 32"

lemmas log_levels = BCTBX_LOG_DEBUG_def BCTBX_LOG_TRACE_def BCTBX_LOG_MESSAGE_def
  BCTBX_LOG_WARNING_def BCTBX_LOG_ERROR_def BCTBX_LOG_FATAL_def

text \<open>\<open>thread_level\<close> is the value of \<open>thread_level_key\<close> in each thread.\<close>

record log_domain =
  dom_name :: "string option"
  logmask :: "32 word"
  thread_level_set :: bool
  thread_level :: "nat \<Rightarrow> 32 word option"

record log_handler =
  func :: nat
  destroy :: nat
  handler_domain :: "string option"
  user_info :: ptr

record stored_log =
  stored_level :: "32 word"
  stored_msg :: string
  stored_domain :: "string option"

record 'w logger =
  doms :: "nat \<Rightarrow> log_domain option"
  handlers :: "nat \<Rightarrow> log_handler option"
  next_addr :: nat
  default_log_domain :: ptr
  logv_outs :: "ptr list"
  log_thread_id :: nat
  log_stored_messages_list :: "stored_log list"
  log_domains :: "nat list"
  default_handler :: ptr
  log_world :: 'w

definition STATIC_HANDLER :: nat where "STATIC_HANDLER = 0"
definition FILE_HANDLER :: nat where "FILE_HANDLER = 1"
definition WRAPPER :: nat where "WRAPPER = 0"
definition LOGV_OUT :: nat where "LOGV_OUT = 1"
definition LOGV_FILE :: nat where "LOGV_FILE = 2"
definition HANDLER_UNINIT :: nat where "HANDLER_UNINIT = 3"
definition LOGV_FILE_UNINIT :: nat where "LOGV_FILE_UNINIT = 4"
definition LOGV_FILE_DESTROY :: nat where "LOGV_FILE_DESTROY = 5"

text \<open>The state at program start: \<open>main_logger\<close> is zero and the static handlers are zero.\<close>

definition zero_handler :: log_handler where
  "zero_handler = \<lparr>func = 0, destroy = 0, handler_domain = None, user_info = None\<rparr>"

definition main_logger :: "'w \<Rightarrow> 'w logger" where
  "main_logger w = \<lparr>doms = Map.empty,
     handlers = [STATIC_HANDLER \<mapsto> zero_handler, FILE_HANDLER \<mapsto> zero_handler], next_addr = 2,
     default_log_domain = None, logv_outs = [], log_thread_id = 0, log_stored_messages_list = [],
     log_domains = [], default_handler = None, log_world = w\<rparr>"

section \<open>Domains\<close>

definition bctbx_log_domain_new :: "string option \<Rightarrow> 32 word \<Rightarrow> 'w logger \<Rightarrow> nat \<times> 'w logger" where
  "bctbx_log_domain_new domain lmask s =
     (next_addr s,
      s\<lparr>doms := (doms s)(next_addr s \<mapsto> \<lparr>dom_name = domain, logmask = lmask, thread_level_set = False,
                                         thread_level = Map.empty\<rparr>),
        next_addr := Suc (next_addr s)\<rparr>)"

definition bctbx_log_domain_destroy :: "nat \<Rightarrow> 'w logger \<Rightarrow> 'w logger option" where
  "bctbx_log_domain_destroy obj s =
     (case doms s obj of None \<Rightarrow> None | Some _ \<Rightarrow> Some (s\<lparr>doms := (doms s)(obj := None)\<rparr>))"

definition bctbx_log_domain_get_thread_log_level_mask :: "nat \<Rightarrow> log_domain \<Rightarrow> 32 word" where
  "bctbx_log_domain_get_thread_log_level_mask self ld =
     (case thread_level ld self of None \<Rightarrow> 0 | Some m \<Rightarrow> m)"

text \<open>Adding a handler once the logger exists.\<close>

definition add_handler :: "ptr \<Rightarrow> 'w logger \<Rightarrow> 'w logger" where
  "add_handler handler s =
     (if handler \<noteq> None \<and> handler \<notin> set (logv_outs s)
      then s\<lparr>logv_outs := logv_outs s @ [handler]\<rparr> else s)"

definition initialize_default_handler :: "'w logger \<Rightarrow> 'w logger option" where
  "initialize_default_handler s = do {
     h \<leftarrow> handlers s STATIC_HANDLER;
     Some (add_handler (Some STATIC_HANDLER)
       (s\<lparr>default_handler := Some STATIC_HANDLER,
          handlers := (handlers s)(STATIC_HANDLER \<mapsto>
            h\<lparr>func := WRAPPER, destroy := HANDLER_UNINIT, user_info := Some LOGV_OUT\<rparr>)\<rparr>)) }"

text \<open>
  \<open>bctbx_get_logger\<close> creates the default domain on first use, and the default handler when the
  build option \<open>ENABLE_DEFAULT_LOG_HANDLER\<close> is set.
\<close>

definition bctbx_get_logger :: "bool \<Rightarrow> 'w logger \<Rightarrow> 'w logger option" where
  "bctbx_get_logger enable_default s =
     (if default_log_domain s = None
      then (let (d, s1) = bctbx_log_domain_new None (BCTBX_LOG_WARNING OR BCTBX_LOG_ERROR OR BCTBX_LOG_FATAL) s;
                s2 = s1\<lparr>default_log_domain := Some d\<rparr>
            in if enable_default then initialize_default_handler s2 else Some s2)
      else Some s)"

definition bctbx_init_logger :: "bool \<Rightarrow> 'w logger \<Rightarrow> 'w logger option" where
  "bctbx_init_logger enable_default s = bctbx_get_logger enable_default s"

fun find_domain :: "(nat \<Rightarrow> log_domain option) \<Rightarrow> nat list \<Rightarrow> string \<Rightarrow> ptr option" where
  "find_domain ds [] name = Some None"
| "find_domain ds (a # as) name =
     (case ds a of
        None \<Rightarrow> None
      | Some ld \<Rightarrow> if dom_name ld = Some name then Some (Some a) else find_domain ds as name)"

definition get_log_domain :: "string option \<Rightarrow> 'w logger \<Rightarrow> ptr option" where
  "get_log_domain domain s =
     (case domain of
        None \<Rightarrow> Some (default_log_domain s)
      | Some name \<Rightarrow> find_domain (doms s) (log_domains s) name)"

definition get_log_domain_rw :: "string option \<Rightarrow> 'w logger \<Rightarrow> (ptr \<times> 'w logger) option" where
  "get_log_domain_rw domain s = do {
     ret \<leftarrow> get_log_domain domain s;
     if ret \<noteq> None then Some (ret, s)
     else do {
       d \<leftarrow> default_log_domain s;
       dd \<leftarrow> doms s d;
       let (a, s1) = bctbx_log_domain_new domain (logmask dd) s;
       Some (Some a, s1\<lparr>log_domains := a # log_domains s1\<rparr>) } }"

definition upd_domain :: "ptr \<Rightarrow> (log_domain \<Rightarrow> log_domain) \<Rightarrow> 'w logger \<Rightarrow> 'w logger option" where
  "upd_domain p g s = do {
     a \<leftarrow> p; ld \<leftarrow> doms s a; Some (s\<lparr>doms := (doms s)(a \<mapsto> g ld)\<rparr>) }"

definition bctbx_set_log_level_mask :: "bool \<Rightarrow> string option \<Rightarrow> 32 word \<Rightarrow> 'w logger \<Rightarrow> 'w logger option" where
  "bctbx_set_log_level_mask dflt domain levelmask s0 = do {
     s \<leftarrow> bctbx_get_logger dflt s0;
     (p, s1) \<leftarrow> get_log_domain_rw domain s;
     upd_domain p (\<lambda>ld. ld\<lparr>logmask := levelmask\<rparr>) s1 }"

definition level_to_mask :: "32 word \<Rightarrow> 32 word" where
  "level_to_mask level =
     (let m0 = BCTBX_LOG_FATAL;
          m1 = (if level \<le> BCTBX_LOG_ERROR then m0 OR BCTBX_LOG_ERROR else m0);
          m2 = (if level \<le> BCTBX_LOG_WARNING then m1 OR BCTBX_LOG_WARNING else m1);
          m3 = (if level \<le> BCTBX_LOG_MESSAGE then m2 OR BCTBX_LOG_MESSAGE else m2);
          m4 = (if level \<le> BCTBX_LOG_TRACE then m3 OR BCTBX_LOG_TRACE else m3)
      in if level \<le> BCTBX_LOG_DEBUG then m4 OR BCTBX_LOG_DEBUG else m4)"

definition bctbx_set_log_level :: "bool \<Rightarrow> string option \<Rightarrow> 32 word \<Rightarrow> 'w logger \<Rightarrow> 'w logger option" where
  "bctbx_set_log_level dflt domain level s = bctbx_set_log_level_mask dflt domain (level_to_mask level) s"

text \<open>The domain that applies to a name: its own, or the default one.\<close>

definition domain_for :: "string option \<Rightarrow> 'w logger \<Rightarrow> log_domain option" where
  "domain_for domain s = do {
     p \<leftarrow> get_log_domain domain s;
     a \<leftarrow> (if p = None then default_log_domain s else p);
     doms s a }"

definition bctbx_get_log_level_mask :: "bool \<Rightarrow> string option \<Rightarrow> 'w logger \<Rightarrow> (32 word \<times> 'w logger) option" where
  "bctbx_get_log_level_mask dflt domain s0 = do {
     s \<leftarrow> bctbx_get_logger dflt s0;
     ld \<leftarrow> domain_for domain s;
     Some (logmask ld, s) }"

definition bctbx_log_level_enabled ::
    "bool \<Rightarrow> nat \<Rightarrow> string option \<Rightarrow> 32 word \<Rightarrow> 'w logger \<Rightarrow> (bool \<times> 'w logger) option" where
  "bctbx_log_level_enabled dflt self domain level s0 = do {
     s \<leftarrow> bctbx_get_logger dflt s0;
     ld \<leftarrow> domain_for domain s;
     let m = (if thread_level_set ld then bctbx_log_domain_get_thread_log_level_mask self ld else 0);
     let m = (if m = 0 then logmask ld else m);
     Some (m AND level \<noteq> 0, s) }"

definition bctbx_set_thread_log_level ::
    "bool \<Rightarrow> nat \<Rightarrow> string option \<Rightarrow> 32 word \<Rightarrow> 'w logger \<Rightarrow> 'w logger option" where
  "bctbx_set_thread_log_level dflt self domain level s0 = do {
     s \<leftarrow> bctbx_get_logger dflt s0;
     p \<leftarrow> get_log_domain domain s;
     upd_domain p (\<lambda>ld. ld\<lparr>thread_level := (thread_level ld)(self \<mapsto> level_to_mask level),
                            thread_level_set := True\<rparr>) s }"

definition bctbx_clear_thread_log_level :: "bool \<Rightarrow> nat \<Rightarrow> string option \<Rightarrow> 'w logger \<Rightarrow> 'w logger option" where
  "bctbx_clear_thread_log_level dflt self domain s0 = do {
     s \<leftarrow> bctbx_get_logger dflt s0;
     p \<leftarrow> get_log_domain domain s;
     upd_domain p (\<lambda>ld. case thread_level ld self of
         None \<Rightarrow> ld | Some _ \<Rightarrow> ld\<lparr>thread_level := (thread_level ld)(self \<mapsto> 0)\<rparr>) s }"

section \<open>Handlers\<close>

definition bctbx_create_log_handler :: "nat \<Rightarrow> nat \<Rightarrow> ptr \<Rightarrow> 'w logger \<Rightarrow> nat \<times> 'w logger" where
  "bctbx_create_log_handler fn dfn info s =
     (next_addr s,
      s\<lparr>handlers := (handlers s)(next_addr s \<mapsto>
          \<lparr>func = fn, destroy = dfn, handler_domain = None, user_info = info\<rparr>),
        next_addr := Suc (next_addr s)\<rparr>)"

definition upd_handler :: "nat \<Rightarrow> (log_handler \<Rightarrow> log_handler) \<Rightarrow> 'w logger \<Rightarrow> 'w logger option" where
  "upd_handler a g s = do { h \<leftarrow> handlers s a; Some (s\<lparr>handlers := (handlers s)(a \<mapsto> g h)\<rparr>) }"

definition bctbx_log_handler_set_user_data :: "nat \<Rightarrow> ptr \<Rightarrow> 'w logger \<Rightarrow> 'w logger option" where
  "bctbx_log_handler_set_user_data a info s = upd_handler a (\<lambda>h. h\<lparr>user_info := info\<rparr>) s"

definition bctbx_log_handler_get_user_data :: "nat \<Rightarrow> 'w logger \<Rightarrow> ptr option" where
  "bctbx_log_handler_get_user_data a s = map_option user_info (handlers s a)"

definition bctbx_log_handler_set_domain :: "nat \<Rightarrow> string option \<Rightarrow> 'w logger \<Rightarrow> 'w logger option" where
  "bctbx_log_handler_set_domain a domain s = upd_handler a (\<lambda>h. h\<lparr>handler_domain := domain\<rparr>) s"

definition bctbx_add_log_handler :: "bool \<Rightarrow> ptr \<Rightarrow> 'w logger \<Rightarrow> 'w logger option" where
  "bctbx_add_log_handler dflt handler s0 = do {
     s \<leftarrow> bctbx_get_logger dflt s0; Some (add_handler handler s) }"

text \<open>\<open>destr\<close> is the behaviour of the destroy functions, by address.\<close>

definition bctbx_remove_log_handler ::
    "(nat \<Rightarrow> nat \<Rightarrow> 'w logger \<Rightarrow> 'w logger option) \<Rightarrow> bool \<Rightarrow> nat \<Rightarrow> 'w logger \<Rightarrow> 'w logger option" where
  "bctbx_remove_log_handler destr dflt a s0 = do {
     s \<leftarrow> bctbx_get_logger dflt s0;
     h \<leftarrow> handlers s a;
     destr (destroy h) a (s\<lparr>logv_outs := erase_first (\<lambda>p. p = Some a) (logv_outs s)\<rparr>) }"

fun destroy_all ::
    "(nat \<Rightarrow> nat \<Rightarrow> 'w logger \<Rightarrow> 'w logger option) \<Rightarrow> ptr list \<Rightarrow> 'w logger \<Rightarrow> 'w logger option" where
  "destroy_all destr [] s = Some s"
| "destroy_all destr (p # ps) s = do {
     a \<leftarrow> p; h \<leftarrow> handlers s a; s1 \<leftarrow> destr (destroy h) a s; destroy_all destr ps s1 }"

definition bctbx_log_handlers_free ::
    "(nat \<Rightarrow> nat \<Rightarrow> 'w logger \<Rightarrow> 'w logger option) \<Rightarrow> bool \<Rightarrow> 'w logger \<Rightarrow> 'w logger option" where
  "bctbx_log_handlers_free destr dflt s0 = do {
     s \<leftarrow> bctbx_get_logger dflt s0; destroy_all destr (logv_outs s) s }"

definition bctbx_set_log_handler_for_domain ::
    "bool \<Rightarrow> ptr \<Rightarrow> string option \<Rightarrow> 'w logger \<Rightarrow> 'w logger option" where
  "bctbx_set_log_handler_for_domain dflt fn domain s0 = do {
     s \<leftarrow> bctbx_get_logger dflt s0;
     s1 \<leftarrow> (if default_handler s = None then initialize_default_handler s else Some s);
     h \<leftarrow> default_handler s1;
     s2 \<leftarrow> upd_handler h (\<lambda>x. x\<lparr>user_info := fn\<rparr>) s1;
     bctbx_log_handler_set_domain h domain s2 }"

definition bctbx_set_log_handler :: "bool \<Rightarrow> ptr \<Rightarrow> 'w logger \<Rightarrow> 'w logger option" where
  "bctbx_set_log_handler dflt fn s = bctbx_set_log_handler_for_domain dflt fn None s"

definition bctbx_get_log_handlers :: "bool \<Rightarrow> 'w logger \<Rightarrow> (ptr list \<times> 'w logger) option" where
  "bctbx_get_log_handlers dflt s0 = do { s \<leftarrow> bctbx_get_logger dflt s0; Some (logv_outs s, s) }"

definition bctbx_handler_uninit :: "nat \<Rightarrow> 'w logger \<Rightarrow> 'w logger option" where
  "bctbx_handler_uninit a s = upd_handler a (\<lambda>h. h\<lparr>user_info := None\<rparr>) s"

section \<open>Dispatch\<close>

type_synonym ('a, 'w) handler_call =
  "nat \<Rightarrow> ptr \<Rightarrow> string option \<Rightarrow> 32 word \<Rightarrow> string \<Rightarrow> 'a list \<Rightarrow> 'w \<Rightarrow> 'w option"

text \<open>The handlers of a list that satisfy \<open>P\<close>, called in order.\<close>

fun dispatch ::
    "(log_handler \<Rightarrow> bool) \<Rightarrow> (log_handler \<Rightarrow> 'w \<Rightarrow> 'w option) \<Rightarrow> (nat \<Rightarrow> log_handler option) \<Rightarrow> ptr list \<Rightarrow>
     'w \<Rightarrow> 'w option" where
  "dispatch P g hs [] w = Some w"
| "dispatch P g hs (None # ps) w = dispatch P g hs ps w"
| "dispatch P g hs (Some a # ps) w =
     (case hs a of
        None \<Rightarrow> None
      | Some h \<Rightarrow>
          if P h then Option.bind (g h w) (dispatch P g hs ps) else dispatch P g hs ps w)"

fun flush_loop ::
    "('a, 'w) handler_call \<Rightarrow> (nat \<Rightarrow> log_handler option) \<Rightarrow> ptr list \<Rightarrow> stored_log list \<Rightarrow> 'w \<Rightarrow> 'w option" where
  "flush_loop call hs outs [] w = Some w"
| "flush_loop call hs outs (l # ls) w = do {
     w1 \<leftarrow> dispatch (\<lambda>_. True)
       (\<lambda>h. call (func h) (user_info h) (stored_domain l) (stored_level l) (stored_msg l) []) hs outs w;
     flush_loop call hs outs ls w1 }"

definition bctbx_logv_flush :: "('a, 'w) handler_call \<Rightarrow> bool \<Rightarrow> 'w logger \<Rightarrow> 'w logger option" where
  "bctbx_logv_flush call dflt s0 = do {
     s \<leftarrow> bctbx_get_logger dflt s0;
     w \<leftarrow> flush_loop call (handlers s) (logv_outs s) (log_stored_messages_list s) (log_world s);
     Some (s\<lparr>log_stored_messages_list := [], log_world := w\<rparr>) }"

definition bctbx_set_log_thread_id :: "('a, 'w) handler_call \<Rightarrow> bool \<Rightarrow> nat \<Rightarrow> 'w logger \<Rightarrow> 'w logger option" where
  "bctbx_set_log_thread_id call dflt thread_id s0 = do {
     s \<leftarrow> bctbx_get_logger dflt s0;
     s1 \<leftarrow> (if thread_id = 0 then bctbx_logv_flush call dflt s else Some s);
     Some (s1\<lparr>log_thread_id := thread_id\<rparr>) }"

definition domain_matches :: "string option \<Rightarrow> log_handler \<Rightarrow> bool" where
  "domain_matches domain h \<longleftrightarrow> handler_domain h = None \<or> domain = None \<or> handler_domain h = domain"

definition call_handlers ::
    "('a, 'w) handler_call \<Rightarrow> string option \<Rightarrow> 32 word \<Rightarrow> string \<Rightarrow> 'a list \<Rightarrow> 'w logger \<Rightarrow> 'w logger option" where
  "call_handlers call domain level fmt args s = do {
     w \<leftarrow> dispatch (domain_matches domain) (\<lambda>h. call (func h) (user_info h) domain level fmt args)
       (handlers s) (logv_outs s) (log_world s);
     Some (s\<lparr>log_world := w\<rparr>) }"

text \<open>The level FATAL ends the process after the stored messages were flushed.\<close>

datatype 's outcome = Returned 's | Aborted 's

definition bctbx_logv ::
    "('a, 'w) handler_call \<Rightarrow> (string \<Rightarrow> 'a list \<Rightarrow> string option) \<Rightarrow> bool \<Rightarrow> nat \<Rightarrow> string option \<Rightarrow> 32 word \<Rightarrow>
     string \<Rightarrow> 'a list \<Rightarrow> 'w logger \<Rightarrow> 'w logger outcome option" where
  "bctbx_logv call printf dflt self domain level fmt args s0 = do {
     s \<leftarrow> bctbx_get_logger dflt s0;
     (enabled, s) \<leftarrow>
       (if logv_outs s \<noteq> [] then bctbx_log_level_enabled dflt self domain level s else Some (False, s));
     s1 \<leftarrow>
       (if enabled
        then (if log_thread_id s = 0 then call_handlers call domain level fmt args s
              else if log_thread_id s = self
              then do { s1 \<leftarrow> bctbx_logv_flush call dflt s; call_handlers call domain level fmt args s1 }
              else do {
                t \<leftarrow> printf fmt args;
                msg \<leftarrow> bctbx_strdup_vprintf (c99_vsnprintf t);
                Some (s\<lparr>log_stored_messages_list := log_stored_messages_list s @
                  [\<lparr>stored_level = level, stored_msg = msg, stored_domain = domain\<rparr>]\<rparr>) })
        else Some s);
     if level = BCTBX_LOG_FATAL
     then do { s2 \<leftarrow> bctbx_logv_flush call dflt s1; Some (Aborted s2) }
     else Some (Returned s1) }"

end
