(* ===== verification/LoggerLevels.thy ===== *)
theory LoggerLevels
  imports Logger
begin

text \<open>
  The levels of the logger: which messages pass after \<open>bctbx_set_log_level\<close> and after
  \<open>bctbx_set_thread_log_level\<close>, for each domain and each thread, over a state in which the
  registered domains exist (\<open>log_ok\<close>), which holds once the logger is created and which every
  operation on the domains keeps.
\<close>

unbundle bit_operations_syntax

definition log_ok :: "'w logger \<Rightarrow> bool" where
  "log_ok s \<longleftrightarrow>
     (\<exists>d. default_log_domain s = Some d \<and> doms s d \<noteq> None \<and> d \<notin> set (log_domains s) \<and>
          dom_name (the (doms s d)) = None) \<and>
     (\<forall>a\<in>set (log_domains s). doms s a \<noteq> None) \<and> (\<forall>a. doms s a \<noteq> None \<longrightarrow> a < next_addr s) \<and>
     (\<forall>a ld. doms s a = Some ld \<longrightarrow> thread_level_set ld \<or> thread_level ld = Map.empty)"

lemma log_okE:
  assumes "log_ok s"
  obtains d dd where "default_log_domain s = Some d" "doms s d = Some dd" "d \<notin> set (log_domains s)"
    "dom_name dd = None" "\<And>a. a \<in> set (log_domains s) \<Longrightarrow> doms s a \<noteq> None"
    "\<And>a. doms s a \<noteq> None \<Longrightarrow> a < next_addr s"
  using assms unfolding log_ok_def by fastforce

lemma log_ok_levels: "log_ok s \<Longrightarrow> doms s a = Some ld \<Longrightarrow> thread_level_set ld \<or> thread_level ld = Map.empty"
  by (auto simp: log_ok_def)

lemma get_logger_id: "default_log_domain s \<noteq> None \<Longrightarrow> bctbx_get_logger dflt s = Some s"
  unfolding bctbx_get_logger_def by (rule if_not_P)

lemma get_logger_ok: "log_ok s \<Longrightarrow> bctbx_get_logger dflt s = Some s"
  by (auto simp: log_ok_def get_logger_id)

lemma get_logger_init: "\<exists>s. bctbx_get_logger dflt (main_logger w) = Some s \<and> log_ok s \<and>
    log_domains s = [] \<and> default_log_domain s = Some 2 \<and>
    logv_outs s = (if dflt then [Some STATIC_HANDLER] else []) \<and> log_thread_id s = 0 \<and>
    log_stored_messages_list s = [] \<and> log_world s = w"
  by (simp add: bctbx_get_logger_def main_logger_def bctbx_log_domain_new_def
      initialize_default_handler_def add_handler_def log_ok_def STATIC_HANDLER_def FILE_HANDLER_def)

section \<open>Looking up a domain\<close>

lemma find_domain_upd:
  "ds a = Some ld \<Longrightarrow> dom_name ld' = dom_name ld \<Longrightarrow>
   find_domain (ds(a \<mapsto> ld')) as n = find_domain ds as n"
  by (induction as) (auto split: option.splits)

lemma find_domain_fresh: "a \<notin> set as \<Longrightarrow> find_domain (ds(a \<mapsto> x)) as n = find_domain ds as n"
  by (induction as) (auto split: option.splits)

lemma find_domain_total: "(\<And>a. a \<in> set as \<Longrightarrow> ds a \<noteq> None) \<Longrightarrow> \<exists>p. find_domain ds as n = Some p"
  by (induction as) (auto split: option.splits)

lemma find_domain_Some:
  "find_domain ds as n = Some (Some a) \<Longrightarrow> a \<in> set as \<and> (\<exists>ld. ds a = Some ld \<and> dom_name ld = Some n)"
  by (induction as) (auto split: option.splits if_splits)

lemma get_log_domain_total:
  assumes "log_ok s" obtains p where "get_log_domain d s = Some p"
proof (cases d)
  case None
  then show thesis using that by (simp add: get_log_domain_def)
next
  case (Some name)
  have "\<exists>p. find_domain (doms s) (log_domains s) name = Some p"
    using assms by (intro find_domain_total) (simp add: log_ok_def)
  with Some that show thesis by (auto simp: get_log_domain_def)
qed

lemma get_log_domain_Some:
  assumes "log_ok s" "get_log_domain d s = Some (Some a)"
  shows "(\<exists>ld. doms s a = Some ld \<and> dom_name ld = d) \<and> (d = None \<longleftrightarrow> default_log_domain s = Some a)"
  using assms by (cases d) (auto simp: get_log_domain_def elim!: log_okE dest!: find_domain_Some)

text \<open>A change of one domain that keeps its name is seen under that domain only.\<close>

lemma get_log_domain_upd:
  assumes "doms s a = Some ld" "dom_name ld' = dom_name ld"
  shows "get_log_domain d (s\<lparr>doms := (doms s)(a \<mapsto> ld')\<rparr>) = get_log_domain d s"
  using find_domain_upd [of "doms s", OF assms] by (cases d) (auto simp: get_log_domain_def)

lemma log_ok_upd:
  assumes "log_ok s" "doms s a = Some ld" "dom_name ld' = dom_name ld"
    and "thread_level_set ld' \<or> thread_level ld' = Map.empty"
  shows "log_ok (s\<lparr>doms := (doms s)(a \<mapsto> ld')\<rparr>)"
  using assms by (fastforce simp: log_ok_def)

text \<open>
  After \<open>get_log_domain_rw\<close> the domain exists; the others are seen as before, and a new one starts
  with the mask of the default domain.
\<close>

lemma get_log_domain_rw_ok:
  assumes ok: "log_ok s"
  obtains a ld s' where "get_log_domain_rw d s = Some (Some a, s')" "log_ok s'"
    "get_log_domain d s' = Some (Some a)" "doms s' a = Some ld" "dom_name ld = d"
    "\<And>d'. d' \<noteq> d \<Longrightarrow> get_log_domain d' s' = get_log_domain d' s"
    "\<And>b. doms s b \<noteq> None \<Longrightarrow> doms s' b = doms s b" "default_log_domain s' = default_log_domain s"
    "\<And>d'. get_log_domain d' s = Some (Some a) \<Longrightarrow> d' = d"
    "get_log_domain d s \<noteq> Some None \<Longrightarrow> s' = s"
    "get_log_domain d s = Some None \<Longrightarrow> \<not> thread_level_set ld"
proof -
  obtain p where p: "get_log_domain d s = Some p" using ok by (rule get_log_domain_total)
  show thesis
  proof (cases p)
    case (Some a)
    then have p': "get_log_domain d s = Some (Some a)" using p by simp
    from get_log_domain_Some [OF ok p'] obtain ld where ld: "doms s a = Some ld" "dom_name ld = d" by blast
    have uniq: "d' = d" if "get_log_domain d' s = Some (Some a)" for d'
      using get_log_domain_Some [OF ok that] ld by (metis option.inject)
    have rw: "get_log_domain_rw d s = Some (Some a, s)" using p' by (simp add: get_log_domain_rw_def)
    have other: "get_log_domain d s = Some None \<Longrightarrow> \<not> thread_level_set ld" using p' by simp
    show thesis by (rule that [OF rw ok p' ld refl refl refl uniq refl other])
  next
    case None
    obtain e ed where e: "default_log_domain s = Some e" "doms s e = Some ed" "e \<notin> set (log_domains s)"
        "dom_name ed = None" "\<And>a. a \<in> set (log_domains s) \<Longrightarrow> doms s a \<noteq> None"
        "\<And>a. doms s a \<noteq> None \<Longrightarrow> a < next_addr s"
      using ok by (rule log_okE) blast
    define a where "a = next_addr s"
    define ld where "ld = \<lparr>dom_name = d, logmask = logmask ed, thread_level_set = False,
                           thread_level = Map.empty\<rparr>"
    define s' where "s' = s\<lparr>doms := (doms s)(a \<mapsto> ld), next_addr := Suc a, log_domains := a # log_domains s\<rparr>"
    from None p e obtain name where d: "d = Some name" by (cases d) (auto simp: get_log_domain_def)
    have fresh: "doms s a = None" using e(6) [of a] by (cases "doms s a") (simp_all add: a_def)
    with e(5) have fresh_in: "a \<notin> set (log_domains s)" by blast
    note fresh = fresh fresh_in
    have rw: "get_log_domain_rw d s = Some (Some a, s')"
      using p None e by (simp add: get_log_domain_rw_def bctbx_log_domain_new_def a_def s'_def ld_def)
    have ok': "log_ok s'"
      using e fresh ok by (fastforce simp: log_ok_def s'_def a_def [symmetric] less_Suc_eq ld_def)
    have "get_log_domain d' s' = get_log_domain d' s" if "d' \<noteq> d" for d'
      using that d find_domain_fresh [OF fresh(2)] by (cases d') (auto simp: get_log_domain_def s'_def ld_def)
    moreover have "d' = d" if "get_log_domain d' s = Some (Some a)" for d'
      using get_log_domain_Some [OF ok that] fresh by auto
    ultimately show thesis
      using rw ok' d fresh p None by (intro that [of a s' ld]) (auto simp: get_log_domain_def s'_def ld_def)
  qed
qed

section \<open>Masks\<close>

definition valid_levels :: "32 word set" where
  "valid_levels = {BCTBX_LOG_DEBUG, BCTBX_LOG_TRACE, BCTBX_LOG_MESSAGE, BCTBX_LOG_WARNING,
                   BCTBX_LOG_ERROR, BCTBX_LOG_FATAL}"

lemma level_to_mask_threshold:
  "L \<in> valid_levels \<Longrightarrow> l \<in> valid_levels \<Longrightarrow> level_to_mask L AND l \<noteq> 0 \<longleftrightarrow> L \<le> l"
  unfolding valid_levels_def log_levels
  by (elim insertE emptyE) (simp_all add: level_to_mask_def log_levels Let_def)

lemma level_to_mask_nz: "level_to_mask L \<noteq> 0"
proof -
  have step: "bit (if b then m OR x else m) 5" if "bit m 5" for b and m x :: "32 word"
    using that by (cases b) (simp_all add: bit_or_iff)
  have "bit BCTBX_LOG_FATAL 5" by (simp add: log_levels)
  then have "bit (level_to_mask L) 5" unfolding level_to_mask_def Let_def by (intro step)
  then show ?thesis by auto
qed

text \<open>What \<open>bctbx_log_level_enabled\<close> answers, from the domain that applies.\<close>

definition passes :: "nat \<Rightarrow> log_domain \<Rightarrow> 32 word \<Rightarrow> bool" where
  "passes self ld level \<longleftrightarrow>
     (let m = (if thread_level_set ld then bctbx_log_domain_get_thread_log_level_mask self ld else 0)
      in (if m = 0 then logmask ld else m) AND level \<noteq> 0)"

lemma log_level_enabled_passes:
  "log_ok s \<Longrightarrow> bctbx_log_level_enabled dflt self d level s =
     map_option (\<lambda>ld. (passes self ld level, s)) (domain_for d s)"
  by (cases "domain_for d s") (simp_all add: bctbx_log_level_enabled_def get_logger_ok passes_def Let_def)

lemma log_level_enabled_cong:
  "log_ok s \<Longrightarrow> log_ok s' \<Longrightarrow> domain_for d s' = domain_for d s \<Longrightarrow>
   map_option fst (bctbx_log_level_enabled dflt t d l s') = map_option fst (bctbx_log_level_enabled dflt t d l s)"
  by (simp add: log_level_enabled_passes option.map_comp comp_def)

lemma domain_for_own: "get_log_domain d s = Some (Some a) \<Longrightarrow> domain_for d s = doms s a"
  by (simp add: domain_for_def)

lemma domain_for_cong:
  assumes "get_log_domain d s' = get_log_domain d s" "default_log_domain s' = default_log_domain s"
    and "\<And>a. get_log_domain d s = Some (Some a) \<Longrightarrow> doms s' a = doms s a"
    and "get_log_domain d s = Some None \<Longrightarrow> Option.bind (default_log_domain s) (doms s') = Option.bind (default_log_domain s) (doms s)"
  shows "domain_for d s' = domain_for d s"
  using assms by (cases "get_log_domain d s") (auto simp: domain_for_def split: option.splits)

section \<open>Setting the level of a domain\<close>

lemma set_log_level_mask_effect:
  assumes ok: "log_ok s"
  obtains s' ld where "bctbx_set_log_level_mask dflt d m s = Some s'" "log_ok s'"
    "domain_for d s' = Some (ld\<lparr>logmask := m\<rparr>)"
    "get_log_domain d s \<noteq> Some None \<Longrightarrow> domain_for d s = Some ld"
    "get_log_domain d s = Some None \<Longrightarrow> \<not> thread_level_set ld"
    "\<And>d'. d' \<noteq> d \<Longrightarrow> d \<noteq> None \<or> get_log_domain d' s \<noteq> Some None \<Longrightarrow> domain_for d' s' = domain_for d' s"
proof -
  obtain a ld s1 where rw: "get_log_domain_rw d s = Some (Some a, s1)" "log_ok s1"
      "get_log_domain d s1 = Some (Some a)" "doms s1 a = Some ld" "dom_name ld = d"
      "\<And>d'. d' \<noteq> d \<Longrightarrow> get_log_domain d' s1 = get_log_domain d' s"
      "\<And>b. doms s b \<noteq> None \<Longrightarrow> doms s1 b = doms s b" "default_log_domain s1 = default_log_domain s"
      "\<And>d'. get_log_domain d' s = Some (Some a) \<Longrightarrow> d' = d"
      "get_log_domain d s \<noteq> Some None \<Longrightarrow> s1 = s"
      "get_log_domain d s = Some None \<Longrightarrow> \<not> thread_level_set ld"
    by (rule get_log_domain_rw_ok [OF ok, of d]) blast
  define s' where "s' = s1\<lparr>doms := (doms s1)(a \<mapsto> ld\<lparr>logmask := m\<rparr>)\<rparr>"
  have look: "get_log_domain d' s' = get_log_domain d' s1" for d'
    unfolding s'_def by (rule get_log_domain_upd [OF rw(4)]) simp
  have 1: "bctbx_set_log_level_mask dflt d m s = Some s'"
    by (simp add: bctbx_set_log_level_mask_def get_logger_ok ok rw upd_domain_def s'_def)
  have 2: "log_ok s'" unfolding s'_def by (rule log_ok_upd [OF rw(2,4)]) (use log_ok_levels [OF rw(2,4)] in auto)
  have 3: "domain_for d s' = Some (ld\<lparr>logmask := m\<rparr>)"
    using look rw(3) by (simp add: domain_for_own s'_def)
  have 4: "domain_for d s = Some ld" if "get_log_domain d s \<noteq> Some None"
    using rw(3,4) rw(10) [OF that] domain_for_own by fastforce
  have 5: "domain_for d' s' = domain_for d' s" if d': "d' \<noteq> d" "d \<noteq> None \<or> get_log_domain d' s \<noteq> Some None" for d'
  proof (rule domain_for_cong)
    show "get_log_domain d' s' = get_log_domain d' s" using look rw(6) d' by simp
    show "default_log_domain s' = default_log_domain s" by (simp add: s'_def rw)
    show "doms s' b = doms s b" if b: "get_log_domain d' s = Some (Some b)" for b
    proof -
      from rw(9) b d' have "b \<noteq> a" by blast
      moreover have "doms s b \<noteq> None" using get_log_domain_Some [OF ok b] by auto
      ultimately show ?thesis using rw(7) [of b] by (simp add: s'_def)
    qed
    show "Option.bind (default_log_domain s) (doms s') = Option.bind (default_log_domain s) (doms s)"
      if "get_log_domain d' s = Some None"
    proof -
      from that d' have "d \<noteq> None" by blast
      obtain e ed where e: "default_log_domain s = Some e" "doms s e = Some ed" "dom_name ed = None"
        using ok by (rule log_okE) blast
      with rw(7) [of e] have "doms s1 e = Some ed" by simp
      with rw(4,5) e \<open>d \<noteq> None\<close> have "e \<noteq> a" by auto
      with e \<open>doms s1 e = Some ed\<close> show ?thesis by (simp add: s'_def)
    qed
  qed
  show thesis by (rule that [OF 1 2 3 4 rw(11) 5])
qed

section \<open>Properties\<close>

text \<open>
  In a logger whose domains exist, \<open>bctbx_set_log_level\<close> with level \<open>L\<close> succeeds, known domain
  or not, and from then on exactly the messages of level \<open>L\<close> or above of that domain pass, in every
  thread without a level of its own; a domain seen for the first time is created.  Every other
  domain answers as before, but that changing the default domain also changes the domains that were
  never set.  FATAL messages always pass.
\<close>

theorem log_level_threshold:
  assumes ok: "log_ok s" and L: "L \<in> valid_levels"
    and thr: "\<forall>ld. domain_for d s = Some ld \<longrightarrow> get_log_domain d s \<noteq> Some None \<longrightarrow>
                 thread_level_set ld \<longrightarrow> bctbx_log_domain_get_thread_log_level_mask self ld = 0"
  shows "\<exists>s'. bctbx_set_log_level dflt d L s = Some s' \<and> log_ok s' \<and>
    (\<forall>l\<in>valid_levels. bctbx_log_level_enabled dflt self d l s' = Some (L \<le> l, s')) \<and>
    (\<forall>t d' l. d' \<noteq> d \<longrightarrow> d \<noteq> None \<or> get_log_domain d' s \<noteq> Some None \<longrightarrow>
       map_option fst (bctbx_log_level_enabled dflt t d' l s') =
       map_option fst (bctbx_log_level_enabled dflt t d' l s)) \<and>
    map_option fst (bctbx_log_level_enabled dflt self d BCTBX_LOG_FATAL s') = Some True"
proof -
  obtain s' ld where e: "bctbx_set_log_level_mask dflt d (level_to_mask L) s = Some s'" "log_ok s'"
      "domain_for d s' = Some (ld\<lparr>logmask := level_to_mask L\<rparr>)"
      "get_log_domain d s \<noteq> Some None \<Longrightarrow> domain_for d s = Some ld"
      "get_log_domain d s = Some None \<Longrightarrow> \<not> thread_level_set ld"
      "\<And>d'. d' \<noteq> d \<Longrightarrow> d \<noteq> None \<or> get_log_domain d' s \<noteq> Some None \<Longrightarrow> domain_for d' s' = domain_for d' s"
    by (rule set_log_level_mask_effect [OF ok, of dflt d "level_to_mask L"]) blast
  have "bctbx_log_domain_get_thread_log_level_mask self ld = 0 \<or> \<not> thread_level_set ld"
    using e(4,5) thr by blast
  then have pass: "passes self (ld\<lparr>logmask := level_to_mask L\<rparr>) l \<longleftrightarrow> level_to_mask L AND l \<noteq> 0" for l
    by (auto simp: passes_def Let_def bctbx_log_domain_get_thread_log_level_mask_def)
  then have en: "bctbx_log_level_enabled dflt self d l s' = Some (L \<le> l, s')" if "l \<in> valid_levels" for l
    using level_to_mask_threshold [OF L that] e(3) by (simp add: log_level_enabled_passes e(2))
  have "L \<le> BCTBX_LOG_FATAL" using L by (auto simp: valid_levels_def log_levels)
  then have fatal: "map_option fst (bctbx_log_level_enabled dflt self d BCTBX_LOG_FATAL s') = Some True"
    using en [of BCTBX_LOG_FATAL] by (simp add: valid_levels_def)
  have other: "map_option fst (bctbx_log_level_enabled dflt t d' l s') =
      map_option fst (bctbx_log_level_enabled dflt t d' l s)"
    if "d' \<noteq> d" "d \<noteq> None \<or> get_log_domain d' s \<noteq> Some None" for t d' l
    by (rule log_level_enabled_cong) (use e ok that in auto)
  show ?thesis
    using e(1,2) en fatal other unfolding bctbx_set_log_level_def by blast
qed

theorem log_level_threshold_witness:
  "\<exists>s0 s'. bctbx_get_logger True (main_logger ()) = Some s0 \<and>
     bctbx_set_log_level True (Some ''media'') BCTBX_LOG_MESSAGE s0 = Some s' \<and>
     map_option fst (bctbx_log_level_enabled True 7 (Some ''media'') BCTBX_LOG_DEBUG s') = Some False"
proof -
  obtain s0 where s0: "bctbx_get_logger True (main_logger ()) = Some s0" "log_ok s0" "log_domains s0 = []"
    using get_logger_init [of True "()"] by (elim exE conjE)
  then have nk: "get_log_domain (Some ''media'') s0 = Some None" by (simp add: get_log_domain_def)
  have L: "BCTBX_LOG_MESSAGE \<in> valid_levels" and l: "BCTBX_LOG_DEBUG \<in> valid_levels"
    by (simp_all add: valid_levels_def)
  have none: "\<forall>ld. domain_for (Some ''media'') s0 = Some ld \<longrightarrow> get_log_domain (Some ''media'') s0 \<noteq> Some None \<longrightarrow>
      thread_level_set ld \<longrightarrow> bctbx_log_domain_get_thread_log_level_mask 7 ld = 0"
    using nk by simp
  have "\<exists>s'. bctbx_set_log_level True (Some ''media'') BCTBX_LOG_MESSAGE s0 = Some s' \<and>
      (\<forall>l\<in>valid_levels. bctbx_log_level_enabled True 7 (Some ''media'') l s' = Some (BCTBX_LOG_MESSAGE \<le> l, s'))"
    using log_level_threshold [OF s0(2) L, of "Some ''media''" 7 True, OF none]
    by (elim exE conjE) (intro exI conjI; assumption)
  then obtain s' where s': "bctbx_set_log_level True (Some ''media'') BCTBX_LOG_MESSAGE s0 = Some s'"
      "\<forall>l\<in>valid_levels. bctbx_log_level_enabled True 7 (Some ''media'') l s' = Some (BCTBX_LOG_MESSAGE \<le> l, s')"
    by (elim exE conjE)
  from bspec [OF s'(2) l] have
    "map_option fst (bctbx_log_level_enabled True 7 (Some ''media'') BCTBX_LOG_DEBUG s') = Some False"
    by (simp add: log_levels word_le_nat_alt)
  with s0(1) s'(1) show ?thesis by blast
qed

text \<open>
  C35: \<open>bctbx_set_thread_log_level\<close> on a known domain makes the level \<open>L\<close> hold in the calling thread
  only: every other thread and every other domain answer as before, and clearing the level brings
  back the mask of the domain.  On a domain that was never set, the lookup answers NULL, which is
  dereferenced: the call is undefined, although \<open>bctbx_set_log_level\<close> would create the domain.
\<close>

theorem thread_log_level_isolated:
  assumes ok: "log_ok s" and L: "L \<in> valid_levels"
  shows "(get_log_domain d s = Some None \<longrightarrow> bctbx_set_thread_log_level dflt self d L s = None \<and>
            bctbx_clear_thread_log_level dflt self d s = None) \<and>
    (get_log_domain d s \<noteq> Some None \<longrightarrow>
      (\<exists>ld s1 s2. domain_for d s = Some ld \<and> bctbx_set_thread_log_level dflt self d L s = Some s1 \<and> log_ok s1 \<and>
        (\<forall>l\<in>valid_levels. bctbx_log_level_enabled dflt self d l s1 = Some (L \<le> l, s1)) \<and>
        (\<forall>t d' l. t \<noteq> self \<or> d' \<noteq> d \<and> get_log_domain d' s \<noteq> Some None \<longrightarrow>
           map_option fst (bctbx_log_level_enabled dflt t d' l s1) =
           map_option fst (bctbx_log_level_enabled dflt t d' l s)) \<and>
        bctbx_clear_thread_log_level dflt self d s1 = Some s2 \<and>
        (\<forall>l. bctbx_log_level_enabled dflt self d l s2 = Some (logmask ld AND l \<noteq> 0, s2))))"
proof (intro conjI impI)
  assume "get_log_domain d s = Some None"
  then show "bctbx_set_thread_log_level dflt self d L s = None"
    and "bctbx_clear_thread_log_level dflt self d s = None"
    by (simp_all add: bctbx_set_thread_log_level_def bctbx_clear_thread_log_level_def
        get_logger_ok [OF ok] upd_domain_def)
next
  assume "get_log_domain d s \<noteq> Some None"
  with get_log_domain_total [OF ok] obtain a where a: "get_log_domain d s = Some (Some a)"
    by (metis not_Some_eq)
  with get_log_domain_Some [OF ok] obtain ld where ld: "doms s a = Some ld" "dom_name ld = d" by blast
  define ld1 where "ld1 = ld\<lparr>thread_level := (thread_level ld)(self \<mapsto> level_to_mask L), thread_level_set := True\<rparr>"
  define ld2 where "ld2 = ld1\<lparr>thread_level := (thread_level ld1)(self \<mapsto> 0)\<rparr>"
  define s1 where "s1 = s\<lparr>doms := (doms s)(a \<mapsto> ld1)\<rparr>"
  define s2 where "s2 = s1\<lparr>doms := (doms s1)(a \<mapsto> ld2)\<rparr>"
  have ok1: "log_ok s1" unfolding s1_def by (rule log_ok_upd [OF ok ld(1)]) (simp_all add: ld1_def)
  have at1: "doms s1 a = Some ld1" by (simp add: s1_def)
  have ok2: "log_ok s2" unfolding s2_def by (rule log_ok_upd [OF ok1 at1]) (simp_all add: ld2_def ld1_def)
  have look1: "get_log_domain d' s1 = get_log_domain d' s" for d'
    unfolding s1_def by (rule get_log_domain_upd [OF ld(1)]) (simp add: ld1_def)
  have look2: "get_log_domain d' s2 = get_log_domain d' s" for d'
    unfolding look1 [symmetric] s2_def by (rule get_log_domain_upd [OF at1]) (simp add: ld2_def)
  have own: "domain_for d s = Some ld" "domain_for d s1 = Some ld1" "domain_for d s2 = Some ld2"
    using a look1 look2 ld at1 by (simp_all add: domain_for_own s2_def)
  have set: "bctbx_set_thread_log_level dflt self d L s = Some s1"
    using a ld by (simp add: bctbx_set_thread_log_level_def get_logger_ok [OF ok] upd_domain_def s1_def ld1_def)
  have clear: "bctbx_clear_thread_log_level dflt self d s1 = Some s2"
    using a look1 at1
    by (simp add: bctbx_clear_thread_log_level_def get_logger_ok [OF ok1] upd_domain_def s2_def ld2_def ld1_def)
  have here: "bctbx_log_level_enabled dflt self d l s1 = Some (L \<le> l, s1)" if "l \<in> valid_levels" for l
    using own level_to_mask_threshold [OF L that] level_to_mask_nz [of L]
    by (simp add: log_level_enabled_passes ok1 passes_def Let_def ld1_def
        bctbx_log_domain_get_thread_log_level_mask_def)
  have cleared: "bctbx_log_level_enabled dflt self d l s2 = Some (logmask ld AND l \<noteq> 0, s2)" for l
    using own by (simp add: log_level_enabled_passes ok2 passes_def Let_def ld1_def ld2_def
        bctbx_log_domain_get_thread_log_level_mask_def)
  have other: "map_option fst (bctbx_log_level_enabled dflt t d' l s1) =
      map_option fst (bctbx_log_level_enabled dflt t d' l s)"
    if "t \<noteq> self \<or> d' \<noteq> d \<and> get_log_domain d' s \<noteq> Some None" for t d' l
  proof -
    have p: "passes t ld1 l = passes t ld l" if "t \<noteq> self"
      using that log_ok_levels [OF ok ld(1)]
      by (auto simp: passes_def ld1_def Let_def bctbx_log_domain_get_thread_log_level_mask_def)
    obtain q where q: "get_log_domain d' s = Some q" using ok by (rule get_log_domain_total)
    define b where "b = (if q = None then default_log_domain s else q)"
    have "default_log_domain s1 = default_log_domain s" by (simp add: s1_def)
    then have df: "domain_for d' s = Option.bind b (doms s)" "domain_for d' s1 = Option.bind b (doms s1)"
      using q look1 by (simp_all add: domain_for_def b_def)
    have "t \<noteq> self" if "b = Some a"
    proof (rule ccontr)
      assume "\<not> t \<noteq> self"
      with \<open>t \<noteq> self \<or> _\<close> q that have "d' \<noteq> d" "get_log_domain d' s = Some (Some a)"
        by (auto simp: b_def split: if_splits)
      with get_log_domain_Some [OF ok this(2)] ld show False by auto
    qed
    then have "map_option (\<lambda>x. passes t x l) (Option.bind b (doms s1)) =
        map_option (\<lambda>x. passes t x l) (Option.bind b (doms s))"
      using p ld(1) by (cases b) (simp_all add: s1_def)
    then show ?thesis
      by (simp add: log_level_enabled_passes ok ok1 df option.map_comp comp_def)
  qed
  show "\<exists>ld s1 s2. domain_for d s = Some ld \<and> bctbx_set_thread_log_level dflt self d L s = Some s1 \<and> log_ok s1 \<and>
        (\<forall>l\<in>valid_levels. bctbx_log_level_enabled dflt self d l s1 = Some (L \<le> l, s1)) \<and>
        (\<forall>t d' l. t \<noteq> self \<or> d' \<noteq> d \<and> get_log_domain d' s \<noteq> Some None \<longrightarrow>
           map_option fst (bctbx_log_level_enabled dflt t d' l s1) =
           map_option fst (bctbx_log_level_enabled dflt t d' l s)) \<and>
        bctbx_clear_thread_log_level dflt self d s1 = Some s2 \<and>
        (\<forall>l. bctbx_log_level_enabled dflt self d l s2 = Some (logmask ld AND l \<noteq> 0, s2))"
    by (intro exI [of _ ld] exI [of _ s1] exI [of _ s2] conjI own(1) set ok1 ballI here clear allI impI cleared other)
qed

theorem thread_log_level_isolated_witness:
  "\<exists>s0. bctbx_get_logger False (main_logger ()) = Some s0 \<and>
     bctbx_set_thread_log_level False 7 (Some ''media'') BCTBX_LOG_DEBUG s0 = None \<and>
     (\<exists>s1. bctbx_set_thread_log_level False 7 None BCTBX_LOG_DEBUG s0 = Some s1 \<and>
           bctbx_log_level_enabled False 7 None BCTBX_LOG_DEBUG s1 = Some (True, s1))"
proof -
  obtain s0 where s0: "bctbx_get_logger False (main_logger ()) = Some s0" "log_ok s0" "log_domains s0 = []"
      "default_log_domain s0 = Some 2"
    using get_logger_init [of False "()"] by (elim exE conjE)
  have v: "BCTBX_LOG_DEBUG \<in> valid_levels" by (simp add: valid_levels_def)
  have "get_log_domain (Some ''media'') s0 = Some None" and known: "get_log_domain None s0 \<noteq> Some None"
    using s0 by (simp_all add: get_log_domain_def)
  then have "bctbx_set_thread_log_level False 7 (Some ''media'') BCTBX_LOG_DEBUG s0 = None"
    using conjunct1 [OF thread_log_level_isolated [OF s0(2) v, of "Some ''media''" False 7]] by simp
  moreover have "\<exists>s1. bctbx_set_thread_log_level False 7 None BCTBX_LOG_DEBUG s0 = Some s1 \<and>
      (\<forall>l\<in>valid_levels. bctbx_log_level_enabled False 7 None l s1 = Some (BCTBX_LOG_DEBUG \<le> l, s1))"
    using mp [OF conjunct2 [OF thread_log_level_isolated [OF s0(2) v, of None False 7]] known]
    by (elim exE conjE) (intro exI conjI; assumption)
  then obtain s1 where "bctbx_set_thread_log_level False 7 None BCTBX_LOG_DEBUG s0 = Some s1"
      "\<forall>l\<in>valid_levels. bctbx_log_level_enabled False 7 None l s1 = Some (BCTBX_LOG_DEBUG \<le> l, s1)"
    by (elim exE conjE)
  with v have "bctbx_set_thread_log_level False 7 None BCTBX_LOG_DEBUG s0 = Some s1 \<and>
      bctbx_log_level_enabled False 7 None BCTBX_LOG_DEBUG s1 = Some (True, s1)" by simp
  ultimately show ?thesis using s0(1) by (intro exI [of _ s0] conjI exI [of _ s1]) simp_all
qed

end
