(* ===== verification/LogDelivery.thy ===== *)
theory LogDelivery
  imports LoggerLevels
begin

text \<open>
  Delivery of messages.  Once a log thread is chosen, the messages of the other threads are stored
  as text and reach the handlers at the next flush.  The interface \<open>log_sink\<close> says what the store
  relies on in a handler: formatting before or during the call gives the same.  Under it, storing
  and flushing deliver what direct calls would, in the same order.
\<close>

unbundle bit_operations_syntax

record 'a log_call =
  lc_thread :: nat
  lc_domain :: "string option"
  lc_level :: "32 word"
  lc_fmt :: string
  lc_args :: "'a list"

definition log_one ::
    "('a, 'w) handler_call \<Rightarrow> (string \<Rightarrow> 'a list \<Rightarrow> string option) \<Rightarrow> bool \<Rightarrow> 'a log_call \<Rightarrow> 'w logger \<Rightarrow>
     'w logger outcome option" where
  "log_one call printf dflt m s =
     bctbx_logv call printf dflt (lc_thread m) (lc_domain m) (lc_level m) (lc_fmt m) (lc_args m) s"

text \<open>A sequence of calls of \<open>bctbx_logv\<close>, from any threads, that does not abort.\<close>

fun log_all ::
    "('a, 'w) handler_call \<Rightarrow> (string \<Rightarrow> 'a list \<Rightarrow> string option) \<Rightarrow> bool \<Rightarrow> 'a log_call list \<Rightarrow> 'w logger \<Rightarrow>
     'w logger option" where
  "log_all call printf dflt [] s = Some s"
| "log_all call printf dflt (m # ms) s =
     (case log_one call printf dflt m s of
        Some (Returned s1) \<Rightarrow> log_all call printf dflt ms s1 | _ \<Rightarrow> None)"

text \<open>Whether a message passes the level of its domain, when there are handlers at all.\<close>

definition wanted :: "'w logger \<Rightarrow> 'a log_call \<Rightarrow> bool" where
  "wanted s m \<longleftrightarrow> logv_outs s \<noteq> [] \<and> passes (lc_thread m) (the (domain_for (lc_domain m) s)) (lc_level m)"

definition deliver_one :: "('a, 'w) handler_call \<Rightarrow> 'w logger \<Rightarrow> 'a log_call \<Rightarrow> 'w \<Rightarrow> 'w option" where
  "deliver_one call s m w =
     (if wanted s m
      then dispatch (domain_matches (lc_domain m))
             (\<lambda>h. call (func h) (user_info h) (lc_domain m) (lc_level m) (lc_fmt m) (lc_args m))
             (handlers s) (logv_outs s) w
      else Some w)"

fun deliver :: "('a, 'w) handler_call \<Rightarrow> 'w logger \<Rightarrow> 'a log_call list \<Rightarrow> 'w \<Rightarrow> 'w option" where
  "deliver call s [] w = Some w"
| "deliver call s (m # ms) w = Option.bind (deliver_one call s m w) (deliver call s ms)"

text \<open>What the world becomes when the stored messages are delivered.\<close>

definition pending :: "('a, 'w) handler_call \<Rightarrow> 'w logger \<Rightarrow> 'w option" where
  "pending call s = flush_loop call (handlers s) (logv_outs s) (log_stored_messages_list s) (log_world s)"

text \<open>
  A message that may wait: its text is below 2 GiB and holds no conversion, and no handler is
  limited to another domain.
\<close>

definition storable :: "(string \<Rightarrow> 'a list \<Rightarrow> string option) \<Rightarrow> 'w logger \<Rightarrow> 'a log_call \<Rightarrow> bool" where
  "storable printf s m \<longleftrightarrow>
     (case printf (lc_fmt m) (lc_args m) of
        None \<Rightarrow> False | Some t \<Rightarrow> CHR ''%'' \<notin> set t \<and> int (length t) < 2 ^ 31 - 1) \<and>
     (\<forall>p\<in>set (logv_outs s). \<forall>a h. p = Some a \<longrightarrow> handlers s a = Some h \<longrightarrow> domain_matches (lc_domain m) h)"

section \<open>General lemmas\<close>

lemma dispatch_cong:
  "(\<And>p a h. p \<in> set ps \<Longrightarrow> p = Some a \<Longrightarrow> hs a = Some h \<Longrightarrow> P h = Q h) \<Longrightarrow> (\<And>h w. g h w = g' h w) \<Longrightarrow>
   dispatch P g hs ps w = dispatch Q g' hs ps w"
proof (induction ps arbitrary: w)
  case (Cons p ps)
  have IH: "dispatch P g hs ps w' = dispatch Q g' hs ps w'" for w'
    by (rule Cons.IH) (use Cons.prems in auto)
  have g: "g = g'" using Cons.prems(2) by (intro ext)
  show ?case
  proof (cases p)
    case (Some a)
    have "P h = Q h" if "hs a = Some h" for h using Cons.prems(1) [of p a h] Some that by simp
    then show ?thesis using Some IH unfolding g
      by (cases "hs a") (auto intro!: Option.bind_cong)
  qed (simp add: IH)
qed simp

lemma flush_loop_Nil: "flush_loop call hs outs [] = Some"
  by (rule ext) simp

lemma flush_loop_append:
  "flush_loop call hs outs (xs @ ys) w = Option.bind (flush_loop call hs outs xs w) (flush_loop call hs outs ys)"
  by (induction xs arbitrary: w) (auto simp: bind_assoc intro!: Option.bind_cong)

lemma logv_flush_pending:
  "default_log_domain s \<noteq> None \<Longrightarrow> bctbx_logv_flush call dflt s =
     map_option (\<lambda>w. s\<lparr>log_stored_messages_list := [], log_world := w\<rparr>) (pending call s)"
  by (simp add: bctbx_logv_flush_def get_logger_id pending_def map_conv_bind_option comp_def)

text \<open>The parts of the state a message does not change.\<close>

definition same_setup :: "'w logger \<Rightarrow> 'w logger \<Rightarrow> bool" where
  "same_setup s s' \<longleftrightarrow> doms s' = doms s \<and> handlers s' = handlers s \<and> next_addr s' = next_addr s \<and>
     default_log_domain s' = default_log_domain s \<and> logv_outs s' = logv_outs s \<and> log_domains s' = log_domains s"

lemma same_setup_refl [simp]: "same_setup s s"
  by (simp add: same_setup_def)

lemma same_setup_upd [simp]:
  "same_setup s (s'\<lparr>log_world := w\<rparr>) = same_setup s s'"
  "same_setup s (s'\<lparr>log_thread_id := tid\<rparr>) = same_setup s s'"
  "same_setup s (s'\<lparr>log_stored_messages_list := ls\<rparr>) = same_setup s s'"
  by (simp_all add: same_setup_def)

lemma same_setup_state:
  assumes "same_setup s s'"
  shows "handlers s' = handlers s" "logv_outs s' = logv_outs s" "log_ok s' = log_ok s"
    "domain_for d s' = domain_for d s" "default_log_domain s' = default_log_domain s"
proof -
  have "get_log_domain d s' = get_log_domain d s"
    using assms by (simp add: same_setup_def get_log_domain_def split: option.split)
  with assms show "domain_for d s' = domain_for d s" by (simp add: same_setup_def domain_for_def cong: if_cong)
qed (use assms in \<open>simp_all add: same_setup_def log_ok_def\<close>)

lemma same_setup_messages:
  assumes "same_setup s s'"
  shows "wanted s' m = wanted s m" "storable printf s' m = storable printf s m"
    "deliver_one call s' m w = deliver_one call s m w"
  using same_setup_state [OF assms] by (simp_all add: wanted_def storable_def deliver_one_def)

lemmas same_setup_facts = same_setup_state same_setup_messages

lemma log_level_enabled_wanted:
  assumes "log_ok s"
  shows "(if logv_outs s \<noteq> [] then bctbx_log_level_enabled dflt (lc_thread m) (lc_domain m) (lc_level m) s
          else Some (False, s)) = Some (wanted s m, s)"
proof -
  obtain q where q: "get_log_domain (lc_domain m) s = Some q" using assms by (rule get_log_domain_total)
  have "domain_for (lc_domain m) s \<noteq> None"
  proof (cases q)
    case None
    then show ?thesis using q assms by (auto simp: domain_for_def log_ok_def)
  next
    case (Some a)
    with q get_log_domain_Some [OF assms, of "lc_domain m" a] show ?thesis by (auto simp: domain_for_own)
  qed
  then show ?thesis using assms by (auto simp: log_level_enabled_passes wanted_def)
qed

text \<open>One call of \<open>bctbx_logv\<close> once the logger exists.\<close>

lemma log_one_eq:
  assumes "log_ok s"
  shows "log_one call printf dflt m s =
    Option.bind
      (if wanted s m
       then (if log_thread_id s = 0 then call_handlers call (lc_domain m) (lc_level m) (lc_fmt m) (lc_args m) s
             else if log_thread_id s = lc_thread m
             then do { s1 \<leftarrow> bctbx_logv_flush call dflt s;
                       call_handlers call (lc_domain m) (lc_level m) (lc_fmt m) (lc_args m) s1 }
             else do {
               t \<leftarrow> printf (lc_fmt m) (lc_args m);
               msg \<leftarrow> bctbx_strdup_vprintf (c99_vsnprintf t);
               Some (s\<lparr>log_stored_messages_list := log_stored_messages_list s @
                 [\<lparr>stored_level = lc_level m, stored_msg = msg, stored_domain = lc_domain m\<rparr>]\<rparr>) })
       else Some s)
      (\<lambda>s1. if lc_level m = BCTBX_LOG_FATAL
            then do { s2 \<leftarrow> bctbx_logv_flush call dflt s1; Some (Aborted s2) }
            else Some (Returned s1))"
  unfolding log_one_def bctbx_logv_def get_logger_ok [OF assms] Option.bind.simps
    log_level_enabled_wanted [OF assms] prod.case ..

text \<open>A message delivered directly.\<close>

lemma log_one_direct:
  assumes "log_ok s" "log_thread_id s = 0" "lc_level m \<noteq> BCTBX_LOG_FATAL"
  shows "log_one call printf dflt m s =
    map_option (\<lambda>w. Returned (s\<lparr>log_world := w\<rparr>)) (deliver_one call s m (log_world s))"
  using assms
  by (simp add: log_one_def bctbx_logv_def get_logger_ok log_level_enabled_wanted call_handlers_def
      deliver_one_def map_conv_bind_option comp_def)

lemma log_all_direct:
  assumes "log_ok s0" "same_setup s0 s" "log_thread_id s = 0" "\<forall>m\<in>set ms. lc_level m \<noteq> BCTBX_LOG_FATAL"
  shows "map_option log_world (log_all call printf dflt ms s) = deliver call s0 ms (log_world s)"
  using assms
proof (induction ms arbitrary: s)
  case (Cons m ms)
  note facts = same_setup_facts [OF Cons.prems(2)]
  show ?case
  proof (cases "deliver_one call s0 m (log_world s)")
    case None
    then show ?thesis using Cons.prems by (simp add: log_one_direct facts)
  next
    case (Some w)
    have "map_option log_world (log_all call printf dflt ms (s\<lparr>log_world := w\<rparr>)) = deliver call s0 ms w"
      using Cons.IH [of "s\<lparr>log_world := w\<rparr>"] Cons.prems by simp
    then show ?thesis using Some Cons.prems by (simp add: log_one_direct facts)
  qed
qed simp

lemma log_ok_default: "log_ok s \<Longrightarrow> default_log_domain s \<noteq> None"
  by (auto simp: log_ok_def)

lemma bind_map_option_state: "Option.bind (map_option f x) g = Option.bind x (\<lambda>y. g (f y))"
  by (cases x) auto

section \<open>The interface of a handler, and deferred delivery\<close>

locale log_sink =
  fixes call :: "('a, 'w) handler_call" and printf :: "string \<Rightarrow> 'a list \<Rightarrow> string option"
  assumes rendered_call:
    "printf fmt args = Some t \<Longrightarrow> CHR ''%'' \<notin> set t \<Longrightarrow> int (length t) < 2 ^ 31 - 1 \<Longrightarrow>
     call fn info d l fmt args w = call fn info d l t [] w"
begin

text \<open>A stored message is delivered as it would have been.\<close>

lemma flush_stored:
  assumes "storable printf s m" "wanted s m" "printf (lc_fmt m) (lc_args m) = Some t"
  shows "flush_loop call (handlers s) (logv_outs s)
           [\<lparr>stored_level = lc_level m, stored_msg = t, stored_domain = lc_domain m\<rparr>] w = deliver_one call s m w"
proof -
  have t: "CHR ''%'' \<notin> set t" "int (length t) < 2 ^ 31 - 1"
    using assms(1,3) by (simp_all add: storable_def)
  have "dispatch (\<lambda>_. True) (\<lambda>h. call (func h) (user_info h) (lc_domain m) (lc_level m) t [])
          (handlers s) (logv_outs s) w =
        dispatch (domain_matches (lc_domain m))
          (\<lambda>h. call (func h) (user_info h) (lc_domain m) (lc_level m) (lc_fmt m) (lc_args m))
          (handlers s) (logv_outs s) w"
    using assms(1) rendered_call [OF assms(3) t] by (intro dispatch_cong) (auto simp: storable_def)
  then show ?thesis using assms(2) by (simp add: deliver_one_def flush_loop_Nil)
qed

text \<open>
  One call with a log thread: storing the message, or flushing and delivering it in the log thread
  itself, makes what is pending that much longer.
\<close>

lemma log_one_queued:
  assumes ok: "log_ok s" and T: "log_thread_id s \<noteq> 0" and st: "storable printf s m"
    and nf: "lc_level m \<noteq> BCTBX_LOG_FATAL"
  shows "(\<exists>s1. log_one call printf dflt m s = Some (Returned s1) \<and> same_setup s s1 \<and>
            log_thread_id s1 = log_thread_id s \<and>
            pending call s1 = Option.bind (pending call s) (deliver_one call s m)) \<or>
         (log_one call printf dflt m s = None \<and> Option.bind (pending call s) (deliver_one call s m) = None)"
proof (cases "wanted s m")
  case False
  then have "log_one call printf dflt m s = Some (Returned s)"
    using ok nf by (simp add: log_one_def bctbx_logv_def get_logger_ok log_level_enabled_wanted)
  with False show ?thesis by (simp add: deliver_one_def [abs_def])
next
  case w: True
  obtain t where t: "printf (lc_fmt m) (lc_args m) = Some t" "int (length t) < 2 ^ 31 - 1"
    using st by (auto simp: storable_def split: option.splits)
  show ?thesis
  proof (cases "log_thread_id s = lc_thread m")
    case False
    define s1 where "s1 = s\<lparr>log_stored_messages_list := log_stored_messages_list s @
        [\<lparr>stored_level = lc_level m, stored_msg = t, stored_domain = lc_domain m\<rparr>]\<rparr>"
    have "log_one call printf dflt m s = Some (Returned s1)"
      using ok nf w T t False
      by (simp add: log_one_def bctbx_logv_def get_logger_ok log_level_enabled_wanted
          strdup_vprintf_c99 s1_def)
    moreover have "pending call s1 = Option.bind (pending call s) (deliver_one call s m)"
      unfolding pending_def s1_def
      by (simp add: flush_loop_append del: flush_loop.simps)
        (intro Option.bind_cong refl flush_stored [OF st w t(1)])
    ultimately show ?thesis by (simp add: s1_def)
  next
    case True
    define flushed where "flushed v = s\<lparr>log_stored_messages_list := [], log_world := v\<rparr>" for v
    have run: "log_one call printf dflt m s =
        Option.bind (pending call s) (\<lambda>v. map_option (\<lambda>v'. Returned (flushed v\<lparr>log_world := v'\<rparr>)) (deliver_one call s m v))"
      using ok nf w T True log_ok_default [OF ok]
      by (simp add: log_one_def bctbx_logv_def get_logger_ok log_level_enabled_wanted logv_flush_pending
          call_handlers_def deliver_one_def flushed_def map_conv_bind_option comp_def bind_map_option_state)
    show ?thesis
    proof (cases "Option.bind (pending call s) (deliver_one call s m)")
      case None
      with run show ?thesis by (cases "pending call s") simp_all
    next
      case (Some v')
      then obtain v where v: "pending call s = Some v" "deliver_one call s m v = Some v'"
        by (cases "pending call s") auto
      define s1 where "s1 = flushed v\<lparr>log_world := v'\<rparr>"
      have "log_one call printf dflt m s = Some (Returned s1)" using run v by (simp add: s1_def)
      moreover have "pending call s1 = Some v'" by (simp add: pending_def s1_def flushed_def)
      moreover have "same_setup s s1" "log_thread_id s1 = log_thread_id s" by (simp_all add: s1_def flushed_def)
      ultimately show ?thesis using Some by auto
    qed
  qed
qed

text \<open>A fatal message: everything stored and the message itself are delivered before the process ends.\<close>

lemma log_one_fatal:
  assumes ok: "log_ok s" and T: "log_thread_id s \<noteq> 0" and st: "storable printf s m"
    and lev: "lc_level m = BCTBX_LOG_FATAL"
  shows "log_one call printf dflt m s =
    map_option (\<lambda>w. Aborted (s\<lparr>log_stored_messages_list := [], log_world := w\<rparr>))
      (Option.bind (pending call s) (deliver_one call s m))"
proof -
  define fin where "fin w = s\<lparr>log_stored_messages_list := [], log_world := w\<rparr>" for w
  have flush: "bctbx_logv_flush call dflt s1 = map_option fin (pending call s1)"
    if "s1 = s\<lparr>log_stored_messages_list := ls, log_world := v\<rparr>" for s1 ls v
    using that log_ok_default [OF ok] by (simp add: logv_flush_pending fin_def [abs_def])
  have flush0: "bctbx_logv_flush call dflt s = map_option fin (pending call s)"
    by (rule flush [of s "log_world s" "log_stored_messages_list s"]) simp
  obtain t where t: "printf (lc_fmt m) (lc_args m) = Some t" "int (length t) < 2 ^ 31 - 1"
    using st by (auto simp: storable_def split: option.splits)
  note run = log_one_eq [OF ok] lev
  consider (off) "\<not> wanted s m" | (store) "wanted s m" "log_thread_id s \<noteq> lc_thread m"
    | (own) "wanted s m" "log_thread_id s = lc_thread m" by blast
  then have "log_one call printf dflt m s =
      map_option (\<lambda>w. Aborted (fin w)) (Option.bind (pending call s) (deliver_one call s m))"
  proof cases
    case off
    then show ?thesis using flush0
      by (cases "pending call s") (simp_all add: run deliver_one_def)
  next
    case store
    define s1 where "s1 = s\<lparr>log_stored_messages_list := log_stored_messages_list s @
        [\<lparr>stored_level = lc_level m, stored_msg = t, stored_domain = lc_domain m\<rparr>], log_world := log_world s\<rparr>"
    have "pending call s1 = Option.bind (pending call s) (deliver_one call s m)"
      unfolding pending_def s1_def
      by (simp add: flush_loop_append del: flush_loop.simps)
        (intro Option.bind_cong refl flush_stored [OF st store(1) t(1)])
    moreover have "log_one call printf dflt m s =
        Option.bind (bctbx_logv_flush call dflt s1) (\<lambda>s2. Some (Aborted s2))"
      using store T t by (simp add: run strdup_vprintf_c99 s1_def)
    ultimately show ?thesis using flush [OF s1_def] by (cases "Option.bind (pending call s) (deliver_one call s m)") simp_all
  next
    case own
    have "bctbx_logv_flush call dflt (fin v\<lparr>log_world := v'\<rparr>) = Some (fin v')" for v v'
      using flush [of "fin v\<lparr>log_world := v'\<rparr>" v' "[]"] by (simp add: fin_def pending_def)
    moreover have fin_keeps: "handlers (fin v) = handlers s" "logv_outs (fin v) = logv_outs s" "log_world (fin v) = v" for v
      by (simp_all add: fin_def)
    ultimately show ?thesis using own T flush0
      by (cases "pending call s")
        (simp_all add: run call_handlers_def deliver_one_def fin_keeps map_conv_bind_option comp_def)
  qed
  then show ?thesis by (simp add: fin_def)
qed

lemma log_all_queued:
  assumes "log_ok s0" "same_setup s0 s" "log_thread_id s \<noteq> 0"
    and "\<forall>m\<in>set ms. storable printf s0 m \<and> lc_level m \<noteq> BCTBX_LOG_FATAL"
  shows "Option.bind (log_all call printf dflt ms s) (pending call) =
           Option.bind (pending call s) (deliver call s0 ms) \<and>
         (\<forall>s'. log_all call printf dflt ms s = Some s' \<longrightarrow> same_setup s0 s')"
  using assms
proof (induction ms arbitrary: s)
  case (Cons m ms)
  have st: "storable printf s m" using Cons.prems by (simp add: same_setup_facts)
  have one: "deliver_one call s m = deliver_one call s0 m"
    using same_setup_facts(8) [OF Cons.prems(2)] by (intro ext)
  then have two: "Option.bind (pending call s) (deliver call s0 (m # ms)) =
      Option.bind (Option.bind (pending call s) (deliver_one call s m)) (deliver call s0 ms)"
    by (cases "pending call s") simp_all
  have "log_ok s" using Cons.prems by (simp add: same_setup_facts)
  from log_one_queued [OF this Cons.prems(3) st, of dflt] Cons.prems(4) consider
      (go) s1 where "log_one call printf dflt m s = Some (Returned s1)" "same_setup s s1"
        "log_thread_id s1 = log_thread_id s" "pending call s1 = Option.bind (pending call s) (deliver_one call s m)"
    | (stop) "log_one call printf dflt m s = None" "Option.bind (pending call s) (deliver_one call s m) = None"
    by auto
  then show ?case
  proof cases
    case go
    have "same_setup s0 s1" using Cons.prems(2) go(2) by (simp add: same_setup_def)
    with Cons.IH [of s1] Cons.prems go two show ?thesis by (simp add: one)
  next
    case stop
    with two show ?thesis by (simp del: deliver.simps)
  qed
next
  case Nil
  then show ?case by (cases "pending call s") simp_all
qed

lemma deferred_delivery:
  assumes ok: "log_ok s" and s: "log_thread_id s = 0" "log_stored_messages_list s = []" and T: "T \<noteq> 0"
    and ms: "\<forall>m\<in>set ms. storable printf s m \<and> lc_level m \<noteq> BCTBX_LOG_FATAL"
  shows "map_option log_world
           (do { s1 \<leftarrow> bctbx_set_log_thread_id call dflt T s;
                 s2 \<leftarrow> log_all call printf dflt ms s1;
                 bctbx_set_log_thread_id call dflt 0 s2 }) =
         map_option log_world (log_all call printf dflt ms s)"
proof -
  define s1 where "s1 = s\<lparr>log_thread_id := T\<rparr>"
  have set: "bctbx_set_log_thread_id call dflt T s = Some s1"
    using T by (simp add: bctbx_set_log_thread_id_def get_logger_ok [OF ok] s1_def)
  have q: "Option.bind (log_all call printf dflt ms s1) (pending call) =
           Option.bind (pending call s1) (deliver call s ms)"
    and kept: "\<And>s'. log_all call printf dflt ms s1 = Some s' \<Longrightarrow> same_setup s s'"
    using log_all_queued [OF ok, of s1 ms dflt] T ms by (auto simp: s1_def)
  have "pending call s1 = Some (log_world s)" using s by (simp add: pending_def s1_def)
  with q have "Option.bind (log_all call printf dflt ms s1) (pending call) = deliver call s ms (log_world s)"
    by simp
  moreover have "map_option log_world (bctbx_set_log_thread_id call dflt 0 s2) = pending call s2"
    if "same_setup s s2" for s2
  proof -
    have d: "log_ok s2" using ok that by (simp add: same_setup_facts)
    then have "default_log_domain s2 \<noteq> None" by (auto simp: log_ok_def)
    then show ?thesis using d
      by (cases "pending call s2") (simp_all add: bctbx_set_log_thread_id_def get_logger_ok logv_flush_pending)
  qed
  ultimately have "map_option log_world (Option.bind (log_all call printf dflt ms s1) (bctbx_set_log_thread_id call dflt 0))
      = deliver call s ms (log_world s)"
    using kept by (cases "log_all call printf dflt ms s1") simp_all
  then show ?thesis
    using log_all_direct [OF ok same_setup_refl s(1), of ms call printf dflt] ms set by simp
qed

end

end
