(* ===== verification/LogFile.thy ===== *)
theory LogFile
  imports LogDelivery
begin

text \<open>
  The handlers of src/logging/logging.c: the one that writes to the standard streams and the file
  handler with its rotation.  The C library's streams and the directory are the state \<open>log_os\<close>: a
  directory maps names to inodes, a stream is open on an inode and goes on writing there after a
  rename.  Opening a file, making an entry and writing may fail, as the state says.  Streams 0 and
  1 are the standard output and the standard error.
\<close>

record log_tm =
  tm_year :: int
  tm_mon :: int
  tm_mday :: int
  tm_hour :: int
  tm_min :: int
  tm_sec :: int
  tv_usec :: int

record file_log_handler =
  fh_path :: "string option"
  fh_name :: "string option"
  fh_max_size :: "64 word"
  fh_size :: "64 word"
  fh_file :: ptr
  fh_reopen_requested :: bool

record log_os =
  dir_entries :: "string \<Rightarrow> nat option"
  inodes :: "nat \<Rightarrow> string"
  next_inode :: nat
  streams :: "nat \<Rightarrow> nat option"
  next_stream :: nat
  dir_writable :: bool
  openable :: "string \<Rightarrow> bool"
  write_works :: bool
  strerror_text :: string
  now :: log_tm
  log_tags :: "string list"
  file_handlers :: "nat \<Rightarrow> file_log_handler option"
  next_file_handler :: nat

definition STDOUT :: nat where "STDOUT = 0"
definition STDERR :: nat where "STDERR = 1"

section \<open>The C library\<close>

text \<open>\<open>fopen(name, "a")\<close>\<close>

definition fopen_append :: "string \<Rightarrow> log_os \<Rightarrow> ptr \<times> log_os" where
  "fopen_append name w =
     (let st = next_stream w in
      case dir_entries w name of
        Some i \<Rightarrow>
          if openable w name then (Some st, w\<lparr>streams := (streams w)(st \<mapsto> i), next_stream := Suc st\<rparr>)
          else (None, w)
      | None \<Rightarrow>
          if dir_writable w
          then (Some st, w\<lparr>dir_entries := (dir_entries w)(name \<mapsto> next_inode w),
                           inodes := (inodes w)(next_inode w := []), next_inode := Suc (next_inode w),
                           streams := (streams w)(st \<mapsto> next_inode w), next_stream := Suc st\<rparr>)
          else (None, w))"

definition fclose_stream :: "ptr \<Rightarrow> log_os \<Rightarrow> log_os option" where
  "fclose_stream p w = do {
     st \<leftarrow> p; i \<leftarrow> streams w st; Some (w\<lparr>streams := (streams w)(st := None)\<rparr>) }"

text \<open>\<open>fprintf\<close> with the text already formatted, and \<open>fflush\<close>: the return value of the first.\<close>

definition fputs_flush :: "ptr \<Rightarrow> string \<Rightarrow> log_os \<Rightarrow> (int \<times> log_os) option" where
  "fputs_flush p t w = do {
     st \<leftarrow> p; i \<leftarrow> streams w st;
     if write_works w
     then Some (int (length t), w\<lparr>inodes := (inodes w)(i := inodes w i @ t)\<rparr>)
     else Some (-1, w) }"

definition fstat_size :: "ptr \<Rightarrow> log_os \<Rightarrow> nat option" where
  "fstat_size p w = do { st \<leftarrow> p; i \<leftarrow> streams w st; Some (length (inodes w i)) }"

definition access_F_OK :: "string \<Rightarrow> log_os \<Rightarrow> int" where
  "access_F_OK name w = (if dir_entries w name \<noteq> None then 0 else -1)"

definition rename_file :: "string \<Rightarrow> string \<Rightarrow> log_os \<Rightarrow> int \<times> log_os" where
  "rename_file old new w =
     (case dir_entries w old of
        Some i \<Rightarrow>
          if \<not> dir_writable w then (-1, w)
          else if old = new then (0, w)
          else (0, w\<lparr>dir_entries := (dir_entries w)(old := None, new \<mapsto> i)\<rparr>)
      | None \<Rightarrow> (-1, w))"

text \<open>\<open>%.2i\<close> and \<open>%.3i\<close>: at least so many digits.\<close>

definition show_prec :: "nat \<Rightarrow> int \<Rightarrow> string" where
  "show_prec k n =
     (let d = show_nat (nat \<bar>n\<bar>)
      in (if n < 0 then ''-'' else []) @ replicate (k - length d) (CHR ''0'') @ d)"

section \<open>A line of the log\<close>

definition level_name :: "32 word \<Rightarrow> string" where
  "level_name lev =
     (if lev = BCTBX_LOG_DEBUG then ''debug''
      else if lev = BCTBX_LOG_MESSAGE then ''message''
      else if lev = BCTBX_LOG_WARNING then ''warning''
      else if lev = BCTBX_LOG_ERROR then ''error''
      else if lev = BCTBX_LOG_FATAL then ''fatal''
      else ''badlevel'')"

fun format_tags_loop :: "string list \<Rightarrow> string option \<Rightarrow> string option option" where
  "format_tags_loop [] acc = Some acc"
| "format_tags_loop (tag # rest) acc = do {
     s \<leftarrow> (case acc of
            None \<Rightarrow> bctbx_strdup_printf ''[%s]'' [AStr tag]
          | Some a \<Rightarrow> bctbx_strdup_printf ''%s[%s]'' [AStr a, AStr tag]);
     format_tags_loop rest (Some s) }"

definition format_tags :: "log_os \<Rightarrow> string option option" where
  "format_tags w = format_tags_loop (log_tags w) None"

text \<open>The text of \<open>"%i-%.2i-%.2i %.2i:%.2i:%.2i:%.3i %s-%s-%s %s" ENDLINE\<close>.\<close>

definition log_line :: "log_tm \<Rightarrow> string option \<Rightarrow> 32 word \<Rightarrow> string option \<Rightarrow> string \<Rightarrow> string" where
  "log_line tm domain lev tags msg =
     show_int (1900 + tm_year tm) @ ''-'' @ show_prec 2 (1 + tm_mon tm) @ ''-'' @ show_prec 2 (tm_mday tm) @
     '' '' @ show_prec 2 (tm_hour tm) @ '':'' @ show_prec 2 (tm_min tm) @ '':'' @ show_prec 2 (tm_sec tm) @
     '':'' @ show_prec 3 (cdiv (tv_usec tm) 1000) @ '' '' @
     (case domain of None \<Rightarrow> ''bctoolbox'' | Some d \<Rightarrow> d) @ ''-'' @ level_name lev @ ''-'' @
     (case tags of None \<Rightarrow> [] | Some t \<Rightarrow> t) @ '' '' @ msg @ [CHR 0x0A]"

definition bctbx_logv_out_cb ::
    "string option \<Rightarrow> 32 word \<Rightarrow> string \<Rightarrow> parg list \<Rightarrow> log_os \<Rightarrow> log_os option" where
  "bctbx_logv_out_cb domain lev fmt args w = do {
     let std = (if lev = BCTBX_LOG_ERROR \<or> lev = BCTBX_LOG_FATAL then STDERR else STDOUT);
     msg \<leftarrow> bctbx_strdup_printf fmt args;
     tags \<leftarrow> format_tags w;
     (ret, w1) \<leftarrow> fputs_flush (Some std) (log_line (now w) domain lev tags msg) w;
     Some w1 }"

definition bctbx_logv_out ::
    "string option \<Rightarrow> 32 word \<Rightarrow> string \<Rightarrow> parg list \<Rightarrow> log_os \<Rightarrow> log_os option" where
  "bctbx_logv_out domain lev fmt args w = bctbx_logv_out_cb domain lev fmt args w"

section \<open>The file handler\<close>

text \<open>The file handler works on its record; the directory and the streams are in the state.\<close>

definition log_name :: "file_log_handler \<Rightarrow> string option" where
  "log_name fh = do {
     p \<leftarrow> fh_path fh; n \<leftarrow> fh_name fh; bctbx_strdup_printf ''%s/%s'' [AStr p, AStr n] }"

definition archive_name :: "file_log_handler \<Rightarrow> nat \<Rightarrow> string option" where
  "archive_name fh k = do {
     p \<leftarrow> fh_path fh; n \<leftarrow> fh_name fh;
     bctbx_strdup_printf ''%s/%s_%d'' [AStr p, AStr n, AInt (int k)] }"

definition try_open_log_collection_file ::
    "file_log_handler \<Rightarrow> log_os \<Rightarrow> (int \<times> file_log_handler \<times> log_os) option" where
  "try_open_log_collection_file fh w = do {
     log_filename \<leftarrow> log_name fh;
     let (f, w1) = fopen_append log_filename w;
     let fh1 = fh\<lparr>fh_file := f\<rparr>;
     if f = None then Some (-1, fh1, w1)
     else do {
       st_size \<leftarrow> fstat_size f w1;
       if (word_of_nat st_size :: 64 word) > fh_max_size fh1
       then do { w2 \<leftarrow> fclose_stream f w1; Some (-1, fh1, w2) }
       else Some (0, fh1\<lparr>fh_size := word_of_nat st_size\<rparr>, w1) } }"

partial_function (option) find_free_archive :: "file_log_handler \<Rightarrow> nat \<Rightarrow> log_os \<Rightarrow> nat option" where
  "find_free_archive fh n w = do {
     log_filename \<leftarrow> archive_name fh n;
     if access_F_OK log_filename w \<noteq> -1 then find_free_archive fh (Suc n) w else Some n }"

fun shift_archives :: "file_log_handler \<Rightarrow> nat \<Rightarrow> log_os \<Rightarrow> log_os option" where
  "shift_archives fh n w =
     (if n > 1
      then do {
        log_filename \<leftarrow> archive_name fh (n - 1);
        log_filename2 \<leftarrow> archive_name fh n;
        shift_archives fh (n - 1) (snd (rename_file log_filename log_filename2 w)) }
      else Some w)"

declare shift_archives.simps [simp del]

definition rotate_log_collection_files :: "file_log_handler \<Rightarrow> log_os \<Rightarrow> log_os option" where
  "rotate_log_collection_files fh w = do {
     n \<leftarrow> find_free_archive fh 1 w;
     w1 \<leftarrow> shift_archives fh n w;
     log_filename \<leftarrow> log_name fh;
     log_filename2 \<leftarrow> archive_name fh 1;
     Some (snd (rename_file log_filename log_filename2 w1)) }"

definition open_log_collection_file ::
    "file_log_handler \<Rightarrow> log_os \<Rightarrow> (file_log_handler \<times> log_os) option" where
  "open_log_collection_file fh w = do {
     (r, fh1, w1) \<leftarrow> try_open_log_collection_file fh w;
     if r < 0
     then do {
       w2 \<leftarrow> rotate_log_collection_files fh1 w1;
       (r2, fh2, w3) \<leftarrow> try_open_log_collection_file fh1 w2;
       Some (fh2, w3) }
     else Some (fh1, w1) }"

definition close_log_collection_file ::
    "file_log_handler \<Rightarrow> log_os \<Rightarrow> (file_log_handler \<times> log_os) option" where
  "close_log_collection_file fh w =
     (if fh_file fh \<noteq> None
      then do { w1 \<leftarrow> fclose_stream (fh_file fh) w; Some (fh\<lparr>fh_file := None, fh_size := 0\<rparr>, w1) }
      else Some (fh, w))"

text \<open>What \<open>bctbx_logv_file\<close> does with the handler after the line was written, \<open>ret\<close> characters.\<close>

definition after_write :: "int \<Rightarrow> file_log_handler \<Rightarrow> log_os \<Rightarrow> (file_log_handler \<times> log_os) option" where
  "after_write ret fh w =
     (let sized = fh_max_size fh > 0 \<and> ret > 0;
          fh1 = (if sized then fh\<lparr>fh_size := fh_size fh + word_of_int ret\<rparr> else fh);
          reopen_requested = fh_reopen_requested fh \<or> (sized \<and> fh_size fh1 > fh_max_size fh1)
      in if reopen_requested
         then do {
           (fh2, w2) \<leftarrow> close_log_collection_file fh1 w;
           (fh3, w3) \<leftarrow> open_log_collection_file fh2 w2;
           Some (fh3\<lparr>fh_reopen_requested := False\<rparr>, w3) }
         else Some (fh1, w))"

definition bctbx_logv_file ::
    "ptr \<Rightarrow> string option \<Rightarrow> 32 word \<Rightarrow> string \<Rightarrow> parg list \<Rightarrow> log_os \<Rightarrow> log_os option" where
  "bctbx_logv_file info domain lev fmt args w = do {
     fh \<leftarrow> (case info of None \<Rightarrow> Some None | Some a \<Rightarrow> map_option Some (file_handlers w a));
     let f = (case fh of None \<Rightarrow> Some STDOUT | Some h \<Rightarrow> fh_file h);
     if f = None then Some w
     else do {
       msg \<leftarrow> bctbx_strdup_printf fmt args;
       tags \<leftarrow> format_tags w;
       (ret, w1) \<leftarrow> fputs_flush f (log_line (now w) domain lev tags msg) w;
       case fh of
         None \<Rightarrow> Some w1
       | Some h \<Rightarrow> do {
           (h1, w2) \<leftarrow> after_write ret h w1;
           Some (w2\<lparr>file_handlers := (file_handlers w2)(the info \<mapsto> h1)\<rparr>) } } }"

section \<open>Calling and destroying handlers\<close>

text \<open>
  The functions behind the addresses of the logger: \<open>wrapper\<close>, which calls the plain log function
  in its user data, \<open>bctbx_logv_file\<close>, and the functions \<open>usr\<close> of the client.
\<close>

definition wrapper ::
    "(parg, log_os) handler_call \<Rightarrow> ptr \<Rightarrow> string option \<Rightarrow> 32 word \<Rightarrow> string \<Rightarrow> parg list \<Rightarrow> log_os \<Rightarrow> log_os option" where
  "wrapper usr info domain lev fmt args w =
     (case info of
        None \<Rightarrow> Some w
      | Some f \<Rightarrow> if f = LOGV_OUT then bctbx_logv_out domain lev fmt args w else usr f None domain lev fmt args w)"

definition call_log_func :: "(parg, log_os) handler_call \<Rightarrow> (parg, log_os) handler_call" where
  "call_log_func usr fn info domain lev fmt args w =
     (if fn = WRAPPER then wrapper usr info domain lev fmt args w
      else if fn = LOGV_FILE then bctbx_logv_file info domain lev fmt args w
      else usr fn info domain lev fmt args w)"

definition upd_file_handler ::
    "ptr \<Rightarrow> (file_log_handler \<Rightarrow> file_log_handler) \<Rightarrow> log_os \<Rightarrow> log_os option" where
  "upd_file_handler p g w = do {
     a \<leftarrow> p; fh \<leftarrow> file_handlers w a; Some (w\<lparr>file_handlers := (file_handlers w)(a \<mapsto> g fh)\<rparr>) }"

text \<open>The names are freed: afterwards they are no strings any more.\<close>

definition bctbx_handler_logv_file_uninit :: "nat \<Rightarrow> log_os logger \<Rightarrow> log_os logger option" where
  "bctbx_handler_logv_file_uninit a s = do {
     h \<leftarrow> handlers s a;
     f \<leftarrow> user_info h;
     fh \<leftarrow> file_handlers (log_world s) f;
     w1 \<leftarrow> fclose_stream (fh_file fh) (log_world s);
     w2 \<leftarrow> upd_file_handler (Some f) (\<lambda>x. x\<lparr>fh_path := None, fh_name := None\<rparr>) w1;
     bctbx_handler_uninit a (s\<lparr>log_world := w2\<rparr>) }"

definition bctbx_handler_logv_file_destroy :: "nat \<Rightarrow> log_os logger \<Rightarrow> log_os logger option" where
  "bctbx_handler_logv_file_destroy a s = do {
     h \<leftarrow> handlers s a;
     f \<leftarrow> user_info h;
     s1 \<leftarrow> bctbx_handler_logv_file_uninit a s;
     let s2 = s1\<lparr>log_world := (log_world s1)\<lparr>file_handlers := (file_handlers (log_world s1))(f := None)\<rparr>\<rparr>;
     s3 \<leftarrow> bctbx_handler_uninit a s2;
     Some (s3\<lparr>handlers := (handlers s3)(a := None)\<rparr>) }"

definition destroy_func :: "nat \<Rightarrow> nat \<Rightarrow> log_os logger \<Rightarrow> log_os logger option" where
  "destroy_func fn a s =
     (if fn = HANDLER_UNINIT then bctbx_handler_uninit a s
      else if fn = LOGV_FILE_UNINIT then bctbx_handler_logv_file_uninit a s
      else if fn = LOGV_FILE_DESTROY then bctbx_handler_logv_file_destroy a s
      else None)"

section \<open>Creating file handlers\<close>

text \<open>The \<open>stat\<close> after a successful \<open>fopen\<close> does not fail here.\<close>

definition bctbx_create_file_log_handler ::
    "64 word \<Rightarrow> string \<Rightarrow> string \<Rightarrow> log_os logger \<Rightarrow> (ptr \<times> log_os logger) option" where
  "bctbx_create_file_log_handler max_size path name s = do {
     full_name \<leftarrow> bctbx_strdup_printf ''%s/%s'' [AStr path, AStr name];
     let (f, w) = fopen_append full_name (log_world s);
     if f = None
     then do {
       (ret, w1) \<leftarrow> fputs_flush (Some STDERR)
         (''error while opening '' @ [CHR 0x27] @ full_name @ [CHR 0x27] @ '': '' @ strerror_text w @ [CHR 0x0A]) w;
       Some (None, s\<lparr>log_world := w1\<rparr>) }
     else do {
       st_size \<leftarrow> fstat_size f w;
       let fh = \<lparr>fh_path = Some path, fh_name = Some name, fh_max_size = max_size,
                 fh_size = word_of_nat st_size, fh_file = f, fh_reopen_requested = False\<rparr>;
       let fa = next_file_handler w;
       let w1 = w\<lparr>file_handlers := (file_handlers w)(fa \<mapsto> fh), next_file_handler := Suc fa\<rparr>;
       let (a, s1) = bctbx_create_log_handler LOGV_FILE LOGV_FILE_DESTROY (Some fa) (s\<lparr>log_world := w1\<rparr>);
       Some (Some a, s1) } }"

definition bctbx_file_log_handler_reopen :: "bool \<Rightarrow> nat \<Rightarrow> log_os logger \<Rightarrow> log_os logger option" where
  "bctbx_file_log_handler_reopen dflt a s0 = do {
     h \<leftarrow> handlers s0 a;
     s \<leftarrow> bctbx_get_logger dflt s0;
     w \<leftarrow> upd_file_handler (user_info h) (\<lambda>fh. fh\<lparr>fh_reopen_requested := True\<rparr>) (log_world s);
     Some (s\<lparr>log_world := w\<rparr>) }"

text \<open>The static file handler has the address 0 among the file handlers.\<close>

definition STATIC_FILE_HANDLER :: nat where "STATIC_FILE_HANDLER = 0"

definition bctbx_set_log_file :: "bool \<Rightarrow> ptr \<Rightarrow> log_os logger \<Rightarrow> log_os logger option" where
  "bctbx_set_log_file dflt f s = do {
     s1 \<leftarrow> upd_handler FILE_HANDLER (\<lambda>h. h\<lparr>func := LOGV_FILE, destroy := LOGV_FILE_UNINIT\<rparr>) s;
     w \<leftarrow> upd_file_handler (Some STATIC_FILE_HANDLER) (\<lambda>fh. fh\<lparr>fh_max_size := -1, fh_file := f\<rparr>) (log_world s1);
     s2 \<leftarrow> upd_handler FILE_HANDLER (\<lambda>h. h\<lparr>user_info := Some STATIC_FILE_HANDLER\<rparr>) (s1\<lparr>log_world := w\<rparr>);
     bctbx_add_log_handler dflt (Some FILE_HANDLER) s2 }"

end
