(* ===== verification/LogRotate.thy ===== *)
theory LogRotate
  imports LogFile
begin

text \<open>
  Rotation of the file handler: the archives move up by one and the log takes the first place, so
  that no line is lost.
\<close>

section \<open>Names\<close>

definition short_names :: "file_log_handler \<Rightarrow> string \<Rightarrow> string \<Rightarrow> bool" where
  "short_names fh p n \<longleftrightarrow> fh_path fh = Some p \<and> fh_name fh = Some n \<and> length p + length n < 2 ^ 30"

definition log_at :: "string \<Rightarrow> string \<Rightarrow> string" where
  "log_at p n = p @ ''/'' @ n"

definition archive_at :: "string \<Rightarrow> string \<Rightarrow> nat \<Rightarrow> string" where
  "archive_at p n k = p @ ''/'' @ n @ ''_'' @ show_nat k"

lemma length_show_nat: "length (show_nat k) \<le> k + 1"
proof (induction k rule: show_nat.induct)
  case (1 k)
  then show ?case by (subst show_nat.simps) auto
qed

lemma log_name_at: "short_names fh p n \<Longrightarrow> log_name fh = Some (log_at p n)"
  by (simp add: short_names_def log_name_def bctbx_strdup_printf_def strdup_vprintf_c99 log_at_def)

lemma archive_name_at:
  assumes "short_names fh p n" "k < 2 ^ 29" shows "archive_name fh k = Some (archive_at p n k)"
proof -
  have "length (show_nat k) \<le> 2 ^ 29" using length_show_nat [of k] assms(2) by simp
  then show ?thesis using assms(1)
    by (simp add: short_names_def archive_name_def bctbx_strdup_printf_def strdup_vprintf_c99 archive_at_def
        show_int_def)
qed

lemma archive_at_inj [simp]: "archive_at p n j = archive_at p n k \<longleftrightarrow> j = k"
  by (auto simp: archive_at_def dest: show_nat_inj)

lemma log_at_neq [simp]: "log_at p n \<noteq> archive_at p n k" "archive_at p n k \<noteq> log_at p n"
  by (auto simp: archive_at_def log_at_def)

section \<open>Shifting the archives\<close>

lemma find_free_archive_at:
  assumes sn: "short_names fh p n" and k: "k < 2 ^ 29" "j \<le> k"
    and free: "dir_entries w (archive_at p n k) = None"
    and used: "\<forall>i. j \<le> i \<longrightarrow> i < k \<longrightarrow> dir_entries w (archive_at p n i) \<noteq> None"
  shows "find_free_archive fh j w = Some k"
  using k(2) used
proof (induction "k - j" arbitrary: j)
  case 0
  then show ?case using sn k(1) free
    by (subst find_free_archive.simps) (simp add: archive_name_at access_F_OK_def)
next
  case (Suc d)
  then have "j < k" by simp
  moreover have "find_free_archive fh (Suc j) w = Some k" using Suc by auto
  moreover have "dir_entries w (archive_at p n j) \<noteq> None" using Suc.prems \<open>j < k\<close> by simp
  ultimately show ?case using sn k(1)
    by (subst find_free_archive.simps) (simp add: archive_name_at access_F_OK_def)
qed

text \<open>
  The entries after the archives below \<open>k\<close> moved up by one; the first place is free, and the names
  that are no archives up to \<open>k\<close> are as before.
\<close>

definition shifted :: "string \<Rightarrow> string \<Rightarrow> nat \<Rightarrow> (string \<Rightarrow> nat option) \<Rightarrow> (string \<Rightarrow> nat option) \<Rightarrow> bool" where
  "shifted p n k d d' \<longleftrightarrow>
     (\<forall>i. 1 \<le> i \<longrightarrow> i < k \<longrightarrow> d' (archive_at p n (Suc i)) = d (archive_at p n i)) \<and>
     (1 \<le> k \<longrightarrow> d' (archive_at p n 1) = (if k = 1 then d (archive_at p n 1) else None)) \<and>
     (\<forall>x. (\<forall>i. 1 \<le> i \<longrightarrow> i \<le> k \<longrightarrow> x \<noteq> archive_at p n i) \<longrightarrow> d' x = d x)"

lemma shift_archives_at:
  assumes "short_names fh p n" "k < 2 ^ 29" "1 \<le> k" "dir_writable w"
    and "\<forall>i. 1 \<le> i \<longrightarrow> i < k \<longrightarrow> dir_entries w (archive_at p n i) \<noteq> None"
  shows "\<exists>d'. shift_archives fh k w = Some (w\<lparr>dir_entries := d'\<rparr>) \<and> shifted p n k (dir_entries w) d'"
  using assms(2-)
proof (induction k arbitrary: w)
  case (Suc k)
  show ?case
  proof (cases "k = 0")
    case True
    then show ?thesis
      by (intro exI [of _ "dir_entries w"]) (simp add: shift_archives.simps shifted_def)
  next
    case False
    then have "dir_entries w (archive_at p n k) \<noteq> None" using spec [OF Suc.prems(4), of k] by simp
    then obtain i where i: "dir_entries w (archive_at p n k) = Some i" by blast
    define w1 where "w1 = w\<lparr>dir_entries := (dir_entries w)(archive_at p n k := None, archive_at p n (Suc k) \<mapsto> i)\<rparr>"
    have step: "shift_archives fh (Suc k) w = shift_archives fh k w1"
      using False i Suc.prems assms(1)
      by (subst shift_archives.simps) (simp add: archive_name_at rename_file_def w1_def)
    have "\<forall>j. 1 \<le> j \<longrightarrow> j < k \<longrightarrow> dir_entries w1 (archive_at p n j) \<noteq> None"
      using Suc.prems(4) by (auto simp: w1_def)
    moreover have "dir_writable w1" using Suc.prems by (simp add: w1_def)
    ultimately obtain d' where d': "shift_archives fh k w1 = Some (w1\<lparr>dir_entries := d'\<rparr>)"
        "shifted p n k (dir_entries w1) d'"
      using Suc.IH [of w1] Suc.prems False by auto
    have "shifted p n (Suc k) (dir_entries w) d'" unfolding shifted_def
    proof (intro conjI allI impI)
      fix j assume j: "1 \<le> j" "j < Suc k"
      show "d' (archive_at p n (Suc j)) = dir_entries w (archive_at p n j)"
      proof (cases "j = k")
        case True
        have "d' (archive_at p n (Suc k)) = dir_entries w1 (archive_at p n (Suc k))"
          using d'(2) unfolding shifted_def by simp
        then show ?thesis using True i by (simp add: w1_def)
      next
        case False
        then have "d' (archive_at p n (Suc j)) = dir_entries w1 (archive_at p n j)"
          using d'(2) j unfolding shifted_def by simp
        then show ?thesis using False j by (simp add: w1_def)
      qed
    next
      show "d' (archive_at p n 1) = (if Suc k = 1 then dir_entries w (archive_at p n 1) else None)"
        using d'(2) False unfolding shifted_def by (simp add: w1_def split: if_splits)
    next
      fix x assume x: "\<forall>j. 1 \<le> j \<longrightarrow> j \<le> Suc k \<longrightarrow> x \<noteq> archive_at p n j"
      then have "d' x = dir_entries w1 x" using d'(2) unfolding shifted_def by simp
      then show "d' x = dir_entries w x" using x False by (simp add: w1_def)
    qed
    moreover have "shift_archives fh (Suc k) w = Some (w\<lparr>dir_entries := d'\<rparr>)"
      using step d'(1) by (simp add: w1_def)
    ultimately show ?thesis by blast
  qed
qed simp

text \<open>The whole rotation of a collection with the archives 1 to \<open>k - 1\<close>.\<close>

definition rotated :: "string \<Rightarrow> string \<Rightarrow> nat \<Rightarrow> (string \<Rightarrow> nat option) \<Rightarrow> (string \<Rightarrow> nat option) \<Rightarrow> bool" where
  "rotated p n k d d' \<longleftrightarrow>
     d' (archive_at p n 1) = d (log_at p n) \<and> d' (log_at p n) = None \<and>
     (\<forall>i. 1 \<le> i \<longrightarrow> i < k \<longrightarrow> d' (archive_at p n (Suc i)) = d (archive_at p n i)) \<and>
     (\<forall>x. x \<noteq> log_at p n \<longrightarrow> (\<forall>i. 1 \<le> i \<longrightarrow> i \<le> k \<longrightarrow> x \<noteq> archive_at p n i) \<longrightarrow> d' x = d x)"

lemma rotate_rotates:
  assumes sn: "short_names fh p n" and k: "1 \<le> k" "k < 2 ^ 29" and wr: "dir_writable w"
    and used: "\<forall>i. 1 \<le> i \<longrightarrow> i < k \<longrightarrow> dir_entries w (archive_at p n i) \<noteq> None"
    and free: "dir_entries w (archive_at p n k) = None"
  shows "\<exists>d'. rotate_log_collection_files fh w = Some (w\<lparr>dir_entries := d'\<rparr>) \<and>
           rotated p n k (dir_entries w) d'"
proof -
  obtain d1 where d1: "shift_archives fh k w = Some (w\<lparr>dir_entries := d1\<rparr>)" "shifted p n k (dir_entries w) d1"
    using shift_archives_at [OF sn k(2,1) wr used] by blast
  define d' where "d' = (case dir_entries w (log_at p n) of
      None \<Rightarrow> d1 | Some i \<Rightarrow> d1(log_at p n := None, archive_at p n 1 \<mapsto> i))"
  have same: "d1 (log_at p n) = dir_entries w (log_at p n)" using d1(2) by (simp add: shifted_def)
  have run: "rotate_log_collection_files fh w = Some (w\<lparr>dir_entries := d'\<rparr>)"
    using find_free_archive_at [OF sn k(2) k(1) free used] d1(1) log_name_at [OF sn]
      archive_name_at [OF sn, of 1] wr same
    by (simp add: rotate_log_collection_files_def rename_file_def d'_def split: option.split)
  have "d1 (archive_at p n 1) = None" using d1(2) k(1) free by (auto simp: shifted_def split: if_splits)
  then have "rotated p n k (dir_entries w) d'"
    using d1(2) same k(1) by (auto simp: rotated_def shifted_def d'_def split: option.split)
  with run show ?thesis by blast
qed

section \<open>The text of a collection\<close>

definition entry_text :: "log_os \<Rightarrow> string \<Rightarrow> string" where
  "entry_text w name = (case dir_entries w name of None \<Rightarrow> [] | Some i \<Rightarrow> inodes w i)"

text \<open>The archives from the oldest, \<open>k - 1\<close>, to the first, then the log itself.\<close>

definition history :: "string \<Rightarrow> string \<Rightarrow> nat \<Rightarrow> log_os \<Rightarrow> string" where
  "history p n k w =
     concat (map (\<lambda>i. entry_text w (archive_at p n i)) (rev [1..<k])) @ entry_text w (log_at p n)"

text \<open>
  A collection with \<open>k - 1\<close> archives in a directory without hard links where everything may be
  opened, written and renamed.
\<close>

definition collection :: "string \<Rightarrow> string \<Rightarrow> nat \<Rightarrow> log_os \<Rightarrow> bool" where
  "collection p n k w \<longleftrightarrow>
     1 \<le> k \<and> (\<forall>i. 1 \<le> i \<longrightarrow> i < k \<longrightarrow> dir_entries w (archive_at p n i) \<noteq> None) \<and>
     (\<forall>i. k \<le> i \<longrightarrow> dir_entries w (archive_at p n i) = None) \<and>
     (\<forall>x y j. dir_entries w x = Some j \<longrightarrow> dir_entries w y = Some j \<longrightarrow> x = y) \<and>
     (\<forall>x j. dir_entries w x = Some j \<longrightarrow> j < next_inode w) \<and>
     (\<forall>x. openable w x) \<and> dir_writable w \<and> write_works w"

lemma collectionD:
  assumes "collection p n k w"
  shows "1 \<le> k" "\<forall>i. 1 \<le> i \<longrightarrow> i < k \<longrightarrow> dir_entries w (archive_at p n i) \<noteq> None"
    "\<forall>i. k \<le> i \<longrightarrow> dir_entries w (archive_at p n i) = None" "openable w x" "dir_writable w" "write_works w"
    "dir_entries w x = Some j \<Longrightarrow> dir_entries w y = Some j \<Longrightarrow> x = y"
    "dir_entries w x = Some j \<Longrightarrow> j < next_inode w"
  using assms unfolding collection_def by blast+

lemma collection_frame:
  "collection p n k (w\<lparr>streams := ss\<rparr>) = collection p n k w"
  "collection p n k (w\<lparr>next_stream := m\<rparr>) = collection p n k w"
  "collection p n k (w\<lparr>inodes := c\<rparr>) = collection p n k w"
  "collection p n k (w\<lparr>file_handlers := fs\<rparr>) = collection p n k w"
  by (simp_all add: collection_def)

lemma history_frame:
  "history p n k (w\<lparr>streams := ss\<rparr>) = history p n k w"
  "history p n k (w\<lparr>next_stream := m\<rparr>) = history p n k w"
  "history p n k (w\<lparr>file_handlers := fs\<rparr>) = history p n k w"
  by (simp_all add: history_def entry_text_def cong: option.case_cong)

text \<open>A line written to the log goes to the end of the history.\<close>

lemma history_append:
  assumes c: "collection p n k w" and i: "dir_entries w (log_at p n) = Some i"
  shows "history p n k (w\<lparr>inodes := (inodes w)(i := inodes w i @ t)\<rparr>) = history p n k w @ t"
proof -
  have "entry_text (w\<lparr>inodes := (inodes w)(i := inodes w i @ t)\<rparr>) (archive_at p n j) =
        entry_text w (archive_at p n j)" for j
    using collectionD(7) [OF c i, of "archive_at p n j"]
    by (cases "dir_entries w (archive_at p n j)") (auto simp: entry_text_def)
  then show ?thesis using i by (simp add: history_def) (simp add: entry_text_def)
qed

lemma upt_1_Suc: "1 \<le> k \<Longrightarrow> [1..<Suc k] = 1 # map Suc [1..<k]"
  by (simp add: map_Suc_upt upt_conv_Cons)

lemma history_rotated:
  assumes r: "rotated p n k (dir_entries w) d'" and k: "1 \<le> k"
  shows "history p n (Suc k) (w\<lparr>dir_entries := d'\<rparr>) = history p n k w"
proof -
  have "entry_text (w\<lparr>dir_entries := d'\<rparr>) (archive_at p n (Suc i)) = entry_text w (archive_at p n i)"
    if "i \<in> set [1..<k]" for i
    using r that by (simp add: rotated_def entry_text_def cong: option.case_cong)
  then have "concat (map (\<lambda>i. entry_text (w\<lparr>dir_entries := d'\<rparr>) (archive_at p n (Suc i))) (rev [1..<k])) =
      concat (map (\<lambda>i. entry_text w (archive_at p n i)) (rev [1..<k]))"
    by (intro arg_cong [where f = concat] map_cong) simp_all
  moreover have "entry_text (w\<lparr>dir_entries := d'\<rparr>) (archive_at p n 1) = entry_text w (log_at p n)"
      "entry_text (w\<lparr>dir_entries := d'\<rparr>) (log_at p n) = []"
    using r by (simp_all add: rotated_def entry_text_def cong: option.case_cong)
  ultimately show ?thesis
    unfolding history_def upt_1_Suc [OF k] by (simp add: rev_map comp_def)
qed

text \<open>Where an entry after the rotation comes from.\<close>

lemma rotated_source:
  assumes r: "rotated p n k d d'" and k: "1 \<le> k" and j: "d' x = Some j"
  shows "\<exists>y. d y = Some j \<and>
    (y = log_at p n \<and> x = archive_at p n 1 \<or>
     (\<exists>i. 1 \<le> i \<and> i < k \<and> y = archive_at p n i \<and> x = archive_at p n (Suc i)) \<or>
     y = x \<and> x \<noteq> log_at p n \<and> (\<forall>i. 1 \<le> i \<longrightarrow> i \<le> k \<longrightarrow> x \<noteq> archive_at p n i))"
proof (cases "\<exists>i. 1 \<le> i \<and> i \<le> k \<and> x = archive_at p n i")
  case True
  then obtain i where i: "1 \<le> i" "i \<le> k" "x = archive_at p n i" by blast
  show ?thesis
  proof (cases "i = 1")
    case True
    with i r j show ?thesis by (intro exI [of _ "log_at p n"]) (simp add: rotated_def)
  next
    case False
    then obtain m where m: "i = Suc m" "1 \<le> m" "m < k" using i by (cases i) auto
    then have "d (archive_at p n m) = Some j" using r i j by (simp add: rotated_def)
    with m i show ?thesis by blast
  qed
next
  case False
  have "x \<noteq> log_at p n" using r j by (auto simp: rotated_def)
  with False r j show ?thesis by (intro exI [of _ x]) (auto simp: rotated_def)
qed

lemma collection_rotated:
  assumes c: "collection p n k w" and r: "rotated p n k (dir_entries w) d'"
    and log: "dir_entries w (log_at p n) \<noteq> None"
  shows "collection p n (Suc k) (w\<lparr>dir_entries := d'\<rparr>)"
proof -
  note src = rotated_source [OF r collectionD(1) [OF c]]
  have 1: "d' (archive_at p n i) \<noteq> None" if "1 \<le> i" "i < Suc k" for i
  proof (cases i)
    case (Suc m)
    then show ?thesis using that r log collectionD(2) [OF c] by (cases "m = 0") (auto simp: rotated_def)
  qed (use that in simp)
  have 2: "d' (archive_at p n i) = None" if "Suc k \<le> i" for i
    using that r collectionD(3) [OF c] by (simp add: rotated_def)
  have 3: "x = y" if x: "d' x = Some j" and y: "d' y = Some j" for x y j
  proof -
    from src [OF x] obtain a where a: "dir_entries w a = Some j" and ax:
      "a = log_at p n \<and> x = archive_at p n 1 \<or>
       (\<exists>i. 1 \<le> i \<and> i < k \<and> a = archive_at p n i \<and> x = archive_at p n (Suc i)) \<or>
       a = x \<and> x \<noteq> log_at p n \<and> (\<forall>i. 1 \<le> i \<longrightarrow> i \<le> k \<longrightarrow> x \<noteq> archive_at p n i)" by blast
    from src [OF y] obtain b where b: "dir_entries w b = Some j" and bx:
      "b = log_at p n \<and> y = archive_at p n 1 \<or>
       (\<exists>i. 1 \<le> i \<and> i < k \<and> b = archive_at p n i \<and> y = archive_at p n (Suc i)) \<or>
       b = y \<and> y \<noteq> log_at p n \<and> (\<forall>i. 1 \<le> i \<longrightarrow> i \<le> k \<longrightarrow> y \<noteq> archive_at p n i)" by blast
    from collectionD(7) [OF c a b] have "b = a" by simp
    with ax bx show ?thesis by (elim disjE exE conjE) auto
  qed
  have 4: "j < next_inode w" if "d' x = Some j" for x j
    using src [OF that] collectionD(8) [OF c] by blast
  show ?thesis using c 1 2 3 4 by (simp add: collection_def)
qed

section \<open>Opening the log\<close>

lemma try_open_existing:
  assumes sn: "short_names fh p n" and i: "dir_entries w (log_at p n) = Some i" and o: "openable w (log_at p n)"
  shows "try_open_log_collection_file fh w =
    (let sz = word_of_nat (length (inodes w i)) :: 64 word; st = next_stream w;
         fh1 = fh\<lparr>fh_file := Some st\<rparr>
     in if sz > fh_max_size fh
        then Some (-1, fh1, w\<lparr>streams := (streams w)(st := None), next_stream := Suc st\<rparr>)
        else Some (0, fh1\<lparr>fh_size := sz\<rparr>, w\<lparr>streams := (streams w)(st \<mapsto> i), next_stream := Suc st\<rparr>))"
  using assms
  by (simp add: try_open_log_collection_file_def log_name_at fopen_append_def fstat_size_def
      fclose_stream_def Let_def)

lemma try_open_new:
  assumes sn: "short_names fh p n" and i: "dir_entries w (log_at p n) = None" and d: "dir_writable w"
  shows "try_open_log_collection_file fh w =
    Some (0, fh\<lparr>fh_file := Some (next_stream w), fh_size := 0\<rparr>,
      w\<lparr>dir_entries := (dir_entries w)(log_at p n \<mapsto> next_inode w), inodes := (inodes w)(next_inode w := []),
        next_inode := Suc (next_inode w), streams := (streams w)(next_stream w \<mapsto> next_inode w),
        next_stream := Suc (next_stream w)\<rparr>)"
  using assms
  by (simp add: try_open_log_collection_file_def log_name_at fopen_append_def fstat_size_def Let_def)

text \<open>The new log is empty and belongs to the collection.\<close>

lemma collection_new_log:
  assumes c: "collection p n k w" and i: "dir_entries w (log_at p n) = None"
  shows "collection p n k (w\<lparr>dir_entries := (dir_entries w)(log_at p n \<mapsto> next_inode w),
      inodes := (inodes w)(next_inode w := []), next_inode := Suc (next_inode w)\<rparr>)"
    and "history p n k (w\<lparr>dir_entries := (dir_entries w)(log_at p n \<mapsto> next_inode w),
      inodes := (inodes w)(next_inode w := []), next_inode := Suc (next_inode w)\<rparr>) = history p n k w"
proof -
  have lt: "\<And>x j. dir_entries w x = Some j \<Longrightarrow> j < next_inode w" using c by (rule collectionD)
  have inj: "x = y"
    if "((dir_entries w)(log_at p n \<mapsto> next_inode w)) x = Some j"
      "((dir_entries w)(log_at p n \<mapsto> next_inode w)) y = Some j" for x y j
    using that collectionD(7) [OF c, of x j y] lt [of x j] lt [of y j] by (simp split: if_splits)
  have "j < Suc (next_inode w)" if "((dir_entries w)(log_at p n \<mapsto> next_inode w)) x = Some j" for x j
    using that lt [of x j] by (simp split: if_splits)
  with inj c show "collection p n k (w\<lparr>dir_entries := (dir_entries w)(log_at p n \<mapsto> next_inode w),
      inodes := (inodes w)(next_inode w := []), next_inode := Suc (next_inode w)\<rparr>)"
    unfolding collection_def by (simp del: fun_upd_apply add: fun_upd_other) blast
  let ?w = "w\<lparr>dir_entries := (dir_entries w)(log_at p n \<mapsto> next_inode w),
      inodes := (inodes w)(next_inode w := []), next_inode := Suc (next_inode w)\<rparr>"
  have "entry_text ?w (archive_at p n j) = entry_text w (archive_at p n j)" for j
    using lt [of "archive_at p n j"] by (auto simp: entry_text_def split: option.split)
  moreover have "entry_text ?w (log_at p n) = entry_text w (log_at p n)" using i by (simp add: entry_text_def)
  ultimately show "history p n k ?w = history p n k w" by (simp add: history_def)
qed

text \<open>A handler whose stream is open on the log, with its size when there is a limit.\<close>

definition attached :: "string \<Rightarrow> string \<Rightarrow> file_log_handler \<Rightarrow> log_os \<Rightarrow> bool" where
  "attached p n fh w \<longleftrightarrow> short_names fh p n \<and>
     (\<exists>i st. dir_entries w (log_at p n) = Some i \<and> fh_file fh = Some st \<and> streams w st = Some i \<and>
        (fh_max_size fh > 0 \<longrightarrow> fh_size fh = word_of_nat (length (inodes w i)) \<and>
           length (inodes w i) \<le> unat (fh_max_size fh)))"

text \<open>Closing and opening again: either the same file, or a rotation first.\<close>

lemma reopen_log:
  assumes sn: "short_names fh p n" and st: "fh_file fh = Some st" "streams w st = Some i"
    and i: "dir_entries w (log_at p n) = Some i" and c: "collection p n k w" "k < 2 ^ 29"
    and sz: "length (inodes w i) < 2 ^ 64"
  obtains fh1 w1 fh2 w2 k' where "close_log_collection_file fh w = Some (fh1, w1)"
    "open_log_collection_file fh1 w1 = Some (fh2, w2)" "k' \<in> {k, Suc k}"
    "collection p n k' w2" "history p n k' w2 = history p n k w" "attached p n fh2 w2"
    "fh_max_size fh2 = fh_max_size fh" "k' = k \<Longrightarrow> length (inodes w i) \<le> unat (fh_max_size fh)"
    "file_handlers w2 = file_handlers w" "now w2 = now w" "log_tags w2 = log_tags w"
proof -
  define fh1 where "fh1 = fh\<lparr>fh_file := None, fh_size := 0\<rparr>"
  define w1 where "w1 = w\<lparr>streams := (streams w)(st := None)\<rparr>"
  have close: "close_log_collection_file fh w = Some (fh1, w1)"
    using st by (simp add: close_log_collection_file_def fclose_stream_def fh1_def w1_def)
  have sn1: "short_names fh1 p n" using sn by (simp add: short_names_def fh1_def)
  have i1: "dir_entries w1 (log_at p n) = Some i" "openable w1 (log_at p n)"
    using i collectionD(4) [OF c(1)] by (simp_all add: w1_def)
  define sz' where "sz' = (word_of_nat (length (inodes w i)) :: 64 word)"
  have unat_sz: "unat sz' = length (inodes w i)" using sz by (simp add: sz'_def unat_of_nat)
  show thesis
  proof (cases "sz' > fh_max_size fh")
    case False
    define fh2 where "fh2 = fh1\<lparr>fh_file := Some (next_stream w1), fh_size := sz'\<rparr>"
    define w2 where "w2 = w1\<lparr>streams := (streams w1)(next_stream w1 \<mapsto> i), next_stream := Suc (next_stream w1)\<rparr>"
    have small: "length (inodes w i) \<le> unat (fh_max_size fh)"
      using False unat_sz by (simp add: word_less_nat_alt)
    have "open_log_collection_file fh1 w1 = Some (fh2, w2)"
      using try_open_existing [OF sn1 i1] False
      by (simp add: open_log_collection_file_def Let_def sz'_def fh1_def w1_def fh2_def w2_def)
    moreover have "attached p n fh2 w2"
      using i sn small by (simp add: attached_def short_names_def fh2_def fh1_def w2_def w1_def sz'_def)
    ultimately show thesis using close c(1) small
      by (intro that [of fh1 w1 fh2 w2 k])
        (simp_all add: w2_def w1_def fh2_def fh1_def collection_frame history_frame)
  next
    case True
    define fh2 where "fh2 = fh1\<lparr>fh_file := Some (next_stream w1)\<rparr>"
    define w2 where "w2 = w1\<lparr>streams := (streams w1)(next_stream w1 := None), next_stream := Suc (next_stream w1)\<rparr>"
    have try1: "try_open_log_collection_file fh1 w1 = Some (-1, fh2, w2)"
      using try_open_existing [OF sn1 i1] True
      by (simp add: Let_def sz'_def fh1_def w1_def fh2_def w2_def)
    have sn2: "short_names fh2 p n" using sn1 by (simp add: short_names_def fh2_def)
    have c2: "collection p n k w2" "dir_entries w2 = dir_entries w" "history p n k w2 = history p n k w"
      using c(1) by (simp_all add: w2_def w1_def collection_frame history_frame)
    have free: "dir_entries w2 (archive_at p n k) = None" using collectionD(3) [OF c2(1)] by simp
    obtain d' where rot: "rotate_log_collection_files fh2 w2 = Some (w2\<lparr>dir_entries := d'\<rparr>)"
        "rotated p n k (dir_entries w2) d'"
      using rotate_rotates [OF sn2 collectionD(1) [OF c2(1)] c(2) collectionD(5) [OF c2(1)] collectionD(2) [OF c2(1)] free]
      by blast
    define w3 where "w3 = w2\<lparr>dir_entries := d'\<rparr>"
    have log: "dir_entries w2 (log_at p n) \<noteq> None" using i c2 by simp
    have c3: "collection p n (Suc k) w3" "history p n (Suc k) w3 = history p n k w"
      using collection_rotated [OF c2(1) rot(2) log] history_rotated [OF rot(2) collectionD(1) [OF c2(1)]] c2
      by (simp_all add: w3_def)
    have none: "dir_entries w3 (log_at p n) = None" using rot(2) by (simp add: w3_def rotated_def)
    define w4 where "w4 = w3\<lparr>dir_entries := (dir_entries w3)(log_at p n \<mapsto> next_inode w3),
        inodes := (inodes w3)(next_inode w3 := []), next_inode := Suc (next_inode w3)\<rparr>"
    define w5 where "w5 = w4\<lparr>streams := (streams w3)(next_stream w3 \<mapsto> next_inode w3), next_stream := Suc (next_stream w3)\<rparr>"
    define fh3 where "fh3 = fh2\<lparr>fh_file := Some (next_stream w3), fh_size := 0\<rparr>"
    have try2: "try_open_log_collection_file fh2 w3 = Some (0, fh3, w5)"
      using try_open_new [OF sn2 none collectionD(5) [OF c3(1)]] by (simp add: fh3_def w5_def w4_def)
    have "collection p n (Suc k) w4" "history p n (Suc k) w4 = history p n k w"
      using collection_new_log [OF c3(1) none] c3(2) by (simp_all add: w4_def)
    then have c5: "collection p n (Suc k) w5" "history p n (Suc k) w5 = history p n k w"
      by (simp_all add: w5_def collection_frame history_frame)
    have att: "attached p n fh3 w5"
      using sn2 by (simp add: attached_def short_names_def fh3_def w5_def w4_def)
    have opn: "open_log_collection_file fh1 w1 = Some (fh3, w5)"
      using try1 rot(1) try2 by (simp add: open_log_collection_file_def w3_def)
    show thesis
      by (rule that [OF close opn _ c5 att])
        (simp_all add: fh3_def fh2_def fh1_def w5_def w4_def w3_def w2_def w1_def)
  qed
qed

end
