(* ===== verification/LogFileProps.thy ===== *)
theory LogFileProps
  imports LogRotate
begin

text \<open>
  What the file handler and the dispatch promise together: no line is lost, a stored message is
  delivered like a direct one, and the places where this fails.
\<close>

section \<open>One line\<close>

definition file_handler_ok :: "string \<Rightarrow> string \<Rightarrow> nat \<Rightarrow> 64 word \<Rightarrow> nat \<Rightarrow> log_os \<Rightarrow> bool" where
  "file_handler_ok p n a m k w \<longleftrightarrow>
     collection p n k w \<and>
     (\<exists>fh. file_handlers w a = Some fh \<and> attached p n fh w \<and> fh_max_size fh = m \<and>
        (m = 0 \<longrightarrow> \<not> fh_reopen_requested fh))"

lemma attached_frame:
  "attached p n fh (w\<lparr>file_handlers := fs\<rparr>) = attached p n fh w"
  "attached p n (fh\<lparr>fh_reopen_requested := r\<rparr>) w = attached p n fh w"
  by (simp_all add: attached_def short_names_def)

lemma logv_file_eq:
  assumes "file_handlers w a = Some fh" "fh_file fh = Some st" "streams w st = Some i" "write_works w"
    and "c_printf fmt args = Some msg" "int (length msg) < 2 ^ 31 - 1" "format_tags w = Some tags"
  shows "bctbx_logv_file (Some a) d lev fmt args w =
    (let line = log_line (now w) d lev tags msg in
     map_option (\<lambda>(h1, w2). w2\<lparr>file_handlers := (file_handlers w2)(a \<mapsto> h1)\<rparr>)
       (after_write (int (length line)) fh (w\<lparr>inodes := (inodes w)(i := inodes w i @ line)\<rparr>)))"
  using assms
  by (simp add: bctbx_logv_file_def bctbx_strdup_printf_def strdup_vprintf_c99 fputs_flush_def Let_def
      map_conv_bind_option comp_def case_prod_unfold)

text \<open>The size after a line, as a machine word.\<close>

lemma size_word:
  assumes "l \<le> unat (m :: 64 word)" "unat m \<le> 2 ^ 63" "ll < 2 ^ 31"
  shows "unat (word_of_nat l + word_of_int (int ll) :: 64 word) = l + ll"
    and "m < word_of_nat l + word_of_int (int ll) \<longleftrightarrow> unat m < l + ll"
proof -
  have eq: "word_of_nat l + word_of_int (int ll) = (word_of_nat (l + ll) :: 64 word)" by simp
  have "l + ll < 2 ^ 64" using assms by simp
  then show *: "unat (word_of_nat l + word_of_int (int ll) :: 64 word) = l + ll"
    unfolding eq unat_of_nat by simp
  then show "m < word_of_nat l + word_of_int (int ll) \<longleftrightarrow> unat m < l + ll"
    unfolding word_less_nat_alt by simp
qed

lemma log_line_kept:
  assumes ok: "file_handler_ok p n a m k w" and k: "k < 2 ^ 29" and m: "unat m \<le> 2 ^ 63"
    and msg: "c_printf fmt args = Some msg" "int (length msg) < 2 ^ 31 - 1" "format_tags w = Some tags"
    and len: "length (log_line (now w) d lev tags msg) < 2 ^ 31"
  shows "\<exists>w' k'. bctbx_logv_file (Some a) d lev fmt args w = Some w' \<and> k' \<in> {k, Suc k} \<and>
    file_handler_ok p n a m k' w' \<and>
    history p n k' w' = history p n k w @ log_line (now w) d lev tags msg \<and>
    now w' = now w \<and> log_tags w' = log_tags w"
proof -
  define line where "line = log_line (now w) d lev tags msg"
  obtain fh where c: "collection p n k w" and fh: "file_handlers w a = Some fh" "attached p n fh w"
      "fh_max_size fh = m" "m = 0 \<longrightarrow> \<not> fh_reopen_requested fh"
    using ok by (auto simp: file_handler_ok_def)
  then obtain i st where i: "dir_entries w (log_at p n) = Some i" "fh_file fh = Some st" "streams w st = Some i"
      and sn: "short_names fh p n"
      and sz: "m > 0 \<Longrightarrow> fh_size fh = word_of_nat (length (inodes w i)) \<and> length (inodes w i) \<le> unat m"
    by (auto simp: attached_def)
  define w1 where "w1 = w\<lparr>inodes := (inodes w)(i := inodes w i @ line)\<rparr>"
  have c1: "collection p n k w1" using c by (simp add: w1_def collection_frame)
  have h1: "history p n k w1 = history p n k w @ line"
    unfolding w1_def by (rule history_append [OF c i(1)])
  have run: "bctbx_logv_file (Some a) d lev fmt args w =
      map_option (\<lambda>(h1, w2). w2\<lparr>file_handlers := (file_handlers w2)(a \<mapsto> h1)\<rparr>) (after_write (int (length line)) fh w1)"
    using logv_file_eq [OF fh(1) i(2,3) collectionD(6) [OF c] msg] by (simp add: Let_def line_def w1_def)
  define fh1 where "fh1 = (if m > 0 \<and> 0 < int (length line)
      then fh\<lparr>fh_size := fh_size fh + word_of_int (int (length line))\<rparr> else fh)"
  have fh1: "fh_max_size fh1 = m" "fh_file fh1 = Some st" "short_names fh1 p n"
    using fh(3) i(2) sn by (simp_all add: fh1_def short_names_def)
  have ll: "length line < 2 ^ 31" using len by (simp add: line_def)
  show ?thesis
  proof (cases "fh_reopen_requested fh \<or> (m > 0 \<and> 0 < int (length line) \<and> fh_size fh1 > m)")
    case False
    then have aw: "after_write (int (length line)) fh w1 = Some (fh1, w1)"
      using fh(3) by (auto simp: after_write_def fh1_def Let_def)
    have "m > 0 \<Longrightarrow> fh_size fh1 = word_of_nat (length (inodes w1 i)) \<and> length (inodes w1 i) \<le> unat m"
      using False sz size_word [of "length (inodes w i)" m "length line"] m ll
      by (auto simp: fh1_def w1_def not_less split: if_splits)
    then have "attached p n fh1 w1" using fh1 i by (auto simp: attached_def w1_def)
    moreover have "m = 0 \<longrightarrow> \<not> fh_reopen_requested fh1" using fh(4) by (simp add: fh1_def)
    ultimately have "file_handler_ok p n a m k (w1\<lparr>file_handlers := (file_handlers w1)(a \<mapsto> fh1)\<rparr>)"
      using c1 fh1 by (simp add: file_handler_ok_def collection_frame attached_frame)
    then show ?thesis using run aw h1
      by (intro exI [of _ "w1\<lparr>file_handlers := (file_handlers w1)(a \<mapsto> fh1)\<rparr>"] exI [of _ k])
        (simp add: history_frame line_def w1_def)
  next
    case True
    then have mp: "m > 0" using fh(4) by (auto simp: word_neq_0_conv)
    have lt: "length (inodes w1 i) < 2 ^ 64"
      using sz [OF mp] ll m by (simp add: w1_def)
    have on: "streams w1 st = Some i" "dir_entries w1 (log_at p n) = Some i" using i by (simp_all add: w1_def)
    obtain fh2 w2 fh3 w3 k' where r: "close_log_collection_file fh1 w1 = Some (fh2, w2)"
        "open_log_collection_file fh2 w2 = Some (fh3, w3)" "k' \<in> {k, Suc k}" "collection p n k' w3"
        "history p n k' w3 = history p n k w1" "attached p n fh3 w3" "fh_max_size fh3 = fh_max_size fh1"
        "now w3 = now w1" "log_tags w3 = log_tags w1"
      by (rule reopen_log [OF fh1(3) fh1(2) on(1,2) c1 k lt]) blast
    define fh4 where "fh4 = fh3\<lparr>fh_reopen_requested := False\<rparr>"
    have "after_write (int (length line)) fh w1 = Some (fh4, w3)"
      using True r(1,2) fh(3) mp by (auto simp: after_write_def fh1_def Let_def fh4_def)
    moreover have "file_handler_ok p n a m k' (w3\<lparr>file_handlers := (file_handlers w3)(a \<mapsto> fh4)\<rparr>)"
      using r fh1 by (simp add: file_handler_ok_def collection_frame attached_frame fh4_def)
    ultimately show ?thesis using run h1 r
      by (intro exI [of _ "w3\<lparr>file_handlers := (file_handlers w3)(a \<mapsto> fh4)\<rparr>"] exI [of _ k'])
        (simp add: history_frame line_def w1_def)
  qed
qed

section \<open>A sequence of lines\<close>

text \<open>The calls of \<open>bctbx_logv_file\<close> for a list of domains, levels, formats and arguments.\<close>

fun logv_file_all ::
    "nat \<Rightarrow> (string option \<times> 32 word \<times> string \<times> parg list) list \<Rightarrow> log_os \<Rightarrow> log_os option" where
  "logv_file_all a [] w = Some w"
| "logv_file_all a ((d, lev, fmt, args) # ms) w =
     Option.bind (bctbx_logv_file (Some a) d lev fmt args w) (logv_file_all a ms)"

text \<open>The lines they write, at the time and with the tags of the state.\<close>

fun written_lines ::
    "log_os \<Rightarrow> (string option \<times> 32 word \<times> string \<times> parg list) list \<Rightarrow> string list option" where
  "written_lines w [] = Some []"
| "written_lines w ((d, lev, fmt, args) # ms) = do {
     msg \<leftarrow> c_printf fmt args;
     tags \<leftarrow> format_tags w;
     let line = log_line (now w) d lev tags msg;
     rest \<leftarrow> written_lines w ms;
     if length line < 2 ^ 31 \<and> int (length msg) < 2 ^ 31 - 1 then Some (line # rest) else None }"

lemma written_lines_cong:
  "now w' = now w \<Longrightarrow> log_tags w' = log_tags w \<Longrightarrow> written_lines w' ms = written_lines w ms"
proof (induction ms)
  case (Cons m ms)
  then show ?case by (cases m) (simp add: format_tags_def)
qed simp

text \<open>
  C4: However often the log is rotated, a file handler loses nothing: after any sequence of messages
  the archives, from the oldest to the first, followed by the log itself, hold what they held before
  followed by one line for each message in order.  The rotation keeps the archives numbered without
  gaps, and the log itself never stays longer than the limit given.
\<close>

theorem log_file_no_loss:
  assumes "file_handler_ok p n a m k w" "k + length ms < 2 ^ 29" "unat m \<le> 2 ^ 63"
    and "written_lines w ms = Some ls"
  shows "\<exists>w' k'. logv_file_all a ms w = Some w' \<and> k \<le> k' \<and> k' \<le> k + length ms \<and>
    file_handler_ok p n a m k' w' \<and> history p n k' w' = history p n k w @ concat ls \<and>
    (m > 0 \<longrightarrow> length (entry_text w' (log_at p n)) \<le> unat m)"
  using assms
proof (induction a ms w arbitrary: k ls rule: logv_file_all.induct)
  case (1 a w)
  then show ?case by (auto simp: file_handler_ok_def attached_def entry_text_def)
next
  case (2 a d lev fmt args ms w)
  then obtain msg tags rest where l: "c_printf fmt args = Some msg" "format_tags w = Some tags"
      "written_lines w ms = Some rest" "length (log_line (now w) d lev tags msg) < 2 ^ 31"
      "int (length msg) < 2 ^ 31 - 1" "ls = log_line (now w) d lev tags msg # rest"
    by (auto simp: bind_eq_Some_conv Let_def split: if_splits)
  have "k < 2 ^ 29" using 2(3) by simp
  from log_line_kept [OF 2(2) this 2(4) l(1,5,2,4)] obtain w1 k1 where w1:
      "bctbx_logv_file (Some a) d lev fmt args w = Some w1" "k1 \<in> {k, Suc k}" "file_handler_ok p n a m k1 w1"
      "history p n k1 w1 = history p n k w @ log_line (now w) d lev tags msg"
      "now w1 = now w" "log_tags w1 = log_tags w"
    by blast
  have k1: "k1 + length ms < 2 ^ 29" using 2(3) w1(2) by auto
  have "written_lines w1 ms = Some rest" using l(3) written_lines_cong [OF w1(5,6)] by simp
  from "2.IH" [OF w1(1,3) k1 2(4) this] obtain w' k' where
      "logv_file_all a ms w1 = Some w'" "k1 \<le> k'" "k' \<le> k1 + length ms"
      "file_handler_ok p n a m k' w'" "history p n k' w' = history p n k1 w1 @ concat rest"
      "m > 0 \<longrightarrow> length (entry_text w' (log_at p n)) \<le> unat m"
    by blast
  then show ?case using w1(1,2,4) l(6) by (intro exI [of _ w'] exI [of _ k']) auto
qed

text \<open>
  A state with one file handler at work: the log \<open>/l/x\<close> is empty, its stream is 2, and the limit is
  \<open>m\<close>.
\<close>

definition demo_log_os :: "64 word \<Rightarrow> bool \<Rightarrow> bool \<Rightarrow> log_os" where
  "demo_log_os m reopen writable =
     \<lparr>dir_entries = [''/l/x'' \<mapsto> 2], inodes = (\<lambda>_. []), next_inode = 3, streams = [0 \<mapsto> 0, 1 \<mapsto> 1, 2 \<mapsto> 2],
      next_stream = 3, dir_writable = writable, openable = (\<lambda>_. True), write_works = True,
      strerror_text = ''denied'',
      now = \<lparr>tm_year = 124, tm_mon = 0, tm_mday = 2, tm_hour = 3, tm_min = 4, tm_sec = 5, tv_usec = 6000\<rparr>,
      log_tags = [],
      file_handlers = [1 \<mapsto> \<lparr>fh_path = Some ''/l'', fh_name = Some ''x'', fh_max_size = m, fh_size = 0,
                              fh_file = Some 2, fh_reopen_requested = reopen\<rparr>],
      next_file_handler = 2\<rparr>"

lemma demo_log_line:
  "log_line (now (demo_log_os m r wr)) None BCTBX_LOG_ERROR None ''hello'' =
     ''2024-01-02 03:04:05:006 bctoolbox-error- hello'' @ [CHR 0x0A]"
proof -
  have digits: "show_int 2024 = ''2024''" "show_prec 2 1 = ''01''" "show_prec 2 2 = ''02''"
    "show_prec 2 3 = ''03''" "show_prec 2 4 = ''04''" "show_prec 2 5 = ''05''"
    "show_prec 3 (cdiv 6000 1000) = ''006''"
    by code_simp+
  have "level_name BCTBX_LOG_ERROR = ''error''" by (simp add: level_name_def log_levels)
  with digits show ?thesis by (simp add: demo_log_os_def log_line_def)
qed

lemma demo_format_tags: "format_tags (demo_log_os m r wr) = Some None"
  by (simp add: format_tags_def demo_log_os_def)

lemma demo_collection: "collection ''/l'' ''x'' 1 (demo_log_os m r True)"
  by (auto simp: collection_def demo_log_os_def archive_at_def split: if_splits)

lemma demo_handler_ok: "m > 0 \<Longrightarrow> file_handler_ok ''/l'' ''x'' 1 m 1 (demo_log_os m False True)"
  using demo_collection [of m False]
  by (simp add: file_handler_ok_def) (simp add: demo_log_os_def attached_def short_names_def log_at_def)

theorem log_file_no_loss_witness:
  "\<exists>w' k'. logv_file_all 1 [(None, BCTBX_LOG_ERROR, ''hello'', []), (None, BCTBX_LOG_ERROR, ''%s'', [AStr ''hello''])]
       (demo_log_os 10 False True) = Some w' \<and>
     history ''/l'' ''x'' k' w' = concat [''2024-01-02 03:04:05:006 bctoolbox-error- hello'' @ [CHR 0x0A], ''2024-01-02 03:04:05:006 bctoolbox-error- hello'' @ [CHR 0x0A]]"
proof -
  let ?ms = "[(None, BCTBX_LOG_ERROR, ''hello'', []), (None, BCTBX_LOG_ERROR, ''%s'', [AStr ''hello''])]"
  let ?l = "''2024-01-02 03:04:05:006 bctoolbox-error- hello'' @ [CHR 0x0A]"
  have ls: "written_lines (demo_log_os 10 False True) ?ms = Some [?l, ?l]"
    unfolding written_lines.simps demo_format_tags by (simp add: demo_log_line Let_def)
  have empty: "history ''/l'' ''x'' 1 (demo_log_os 10 False True) = []"
    by (simp add: history_def entry_text_def demo_log_os_def log_at_def)
  have "file_handler_ok ''/l'' ''x'' 1 10 1 (demo_log_os 10 False True)" by (rule demo_handler_ok) simp
  from log_file_no_loss [OF this _ _ ls] empty show ?thesis
    by (simp del: logv_file_all.simps concat.simps append_Cons) blast
qed

section \<open>Where the rotation goes wrong\<close>

lemma shift_archives_readonly:
  assumes "short_names fh p n" "\<not> dir_writable w"
  shows "k < 2 ^ 29 \<Longrightarrow> shift_archives fh k w = Some w"
proof (induction k)
  case (Suc k)
  have "rename_file x y w = (-1, w)" for x y using assms(2) by (simp add: rename_file_def split: option.split)
  with Suc assms(1) show ?case by (subst shift_archives.simps) (auto simp: archive_name_at)
qed (simp add: shift_archives.simps)

lemma rotate_readonly:
  assumes sn: "short_names fh p n" and ro: "\<not> dir_writable w" and k: "1 \<le> k" "k < 2 ^ 29"
    and free: "dir_entries w (archive_at p n k) = None"
    and used: "\<forall>i. 1 \<le> i \<longrightarrow> i < k \<longrightarrow> dir_entries w (archive_at p n i) \<noteq> None"
  shows "rotate_log_collection_files fh w = Some w"
proof -
  have "rename_file x y w = (-1, w)" for x y using ro by (simp add: rename_file_def split: option.split)
  then show ?thesis
    using find_free_archive_at [OF sn k(2,1) free used] shift_archives_readonly [OF sn ro k(2)]
      log_name_at [OF sn] archive_name_at [OF sn, of 1]
    by (simp add: rotate_log_collection_files_def)
qed

lemma logv_file_dead_stream:
  assumes "file_handlers w a = Some fh" "fh_file fh = Some st" "streams w st = None"
  shows "bctbx_logv_file (Some a) d lev fmt args w = None"
  using assms by (simp add: bctbx_logv_file_def fputs_flush_def)

text \<open>
  Two faults of the rotation.  A limit of 0 is documented as no rotation, but when the file is
  reopened on request any text in it counts as above the limit: the log becomes an archive.  And
  when the log passes its limit in a directory where nothing can be renamed, the handler keeps the
  stream it closed, so that the next message, whatever it is, writes to a closed stream, which is
  undefined.
\<close>

theorem log_rotation_faults:
  assumes fh: "file_handlers w a = Some fh" "short_names fh p n" "fh_file fh = Some st" "streams w st = Some i"
      "dir_entries w (log_at p n) = Some i" "\<forall>x. openable w x" "write_works w"
    and k: "1 \<le> k" "k < 2 ^ 29" "dir_entries w (archive_at p n k) = None"
      "\<forall>i. 1 \<le> i \<longrightarrow> i < k \<longrightarrow> dir_entries w (archive_at p n i) \<noteq> None"
    and msg: "c_printf fmt args = Some msg" "int (length msg) < 2 ^ 31 - 1" "format_tags w = Some tags"
      "line = log_line (now w) d lev tags msg"
    and len: "length (inodes w i) + length line < 2 ^ 64"
  shows "(fh_max_size fh = 0 \<longrightarrow> fh_reopen_requested fh \<longrightarrow> collection p n k w \<longrightarrow>
      (\<exists>w'. bctbx_logv_file (Some a) d lev fmt args w = Some w' \<and> collection p n (Suc k) w' \<and>
            history p n (Suc k) w' = history p n k w @ line)) \<and>
    (\<not> dir_writable w \<longrightarrow> fh_size fh = word_of_nat (length (inodes w i)) \<longrightarrow> 0 < fh_max_size fh \<longrightarrow>
     unat (fh_max_size fh) < length (inodes w i) + length line \<longrightarrow>
      (\<exists>w'. bctbx_logv_file (Some a) d lev fmt args w = Some w' \<and>
         (\<forall>d' lev' fmt' args'. bctbx_logv_file (Some a) d' lev' fmt' args' w' = None)))"
proof (intro conjI impI)
  define w1 where "w1 = w\<lparr>inodes := (inodes w)(i := inodes w i @ line)\<rparr>"
  have run: "bctbx_logv_file (Some a) d lev fmt args w =
      map_option (\<lambda>(h1, w2). w2\<lparr>file_handlers := (file_handlers w2)(a \<mapsto> h1)\<rparr>) (after_write (int (length line)) fh w1)"
    using logv_file_eq [OF fh(1,3,4,7) msg(1-3)] by (simp add: Let_def w1_def msg(4))
  have ne: "length line > 0" by (simp add: msg(4) log_line_def)
  have on: "streams w1 st = Some i" "dir_entries w1 (log_at p n) = Some i" "length (inodes w1 i) < 2 ^ 64"
    using fh len by (simp_all add: w1_def)
  {
    assume m: "fh_max_size fh = 0" "fh_reopen_requested fh" and c: "collection p n k w"
    have c1: "collection p n k w1" using c by (simp add: w1_def collection_frame)
    have h1: "history p n k w1 = history p n k w @ line"
      unfolding w1_def by (rule history_append [OF c fh(5)])
    obtain fh2 w2 fh3 w3 k' where r: "close_log_collection_file fh w1 = Some (fh2, w2)"
        "open_log_collection_file fh2 w2 = Some (fh3, w3)" "k' \<in> {k, Suc k}" "collection p n k' w3"
        "history p n k' w3 = history p n k w1" "k' = k \<Longrightarrow> length (inodes w1 i) \<le> unat (fh_max_size fh)"
      by (rule reopen_log [OF fh(2,3) on(1,2) c1 k(2) on(3)]) blast
    have "k' = Suc k" using r(3,6) m(1) ne by (auto simp: w1_def)
    moreover have "after_write (int (length line)) fh w1 = Some (fh3\<lparr>fh_reopen_requested := False\<rparr>, w3)"
      using m r(1,2) by (simp add: after_write_def Let_def)
    ultimately show "\<exists>w'. bctbx_logv_file (Some a) d lev fmt args w = Some w' \<and> collection p n (Suc k) w' \<and>
            history p n (Suc k) w' = history p n k w @ line"
      using run r(4,5) h1 by (simp add: collection_frame history_frame)
  }
  {
    assume ro: "\<not> dir_writable w" and sz: "fh_size fh = word_of_nat (length (inodes w i))"
      and m: "0 < fh_max_size fh" "unat (fh_max_size fh) < length (inodes w i) + length line"
    define fh1 where "fh1 = fh\<lparr>fh_size := fh_size fh + word_of_int (int (length line))\<rparr>"
    define sz' where "sz' = (word_of_nat (length (inodes w i) + length line) :: 64 word)"
    have "unat sz' = length (inodes w i) + length line" unfolding sz'_def unat_of_nat using len by simp
    then have big: "fh_max_size fh < sz'" using m(2) by (simp add: word_less_nat_alt)
    have size1: "fh_size fh1 = sz'" by (simp add: fh1_def sz sz'_def)
    define w2 where "w2 = w1\<lparr>streams := (streams w1)(st := None)\<rparr>"
    define fh2 where "fh2 = fh1\<lparr>fh_file := None, fh_size := 0\<rparr>"
    have sn2: "short_names fh2 p n" using fh(2) by (simp add: short_names_def fh2_def fh1_def)
    have close: "close_log_collection_file fh1 w1 = Some (fh2, w2)"
      using fh(3) on(1) by (simp add: close_log_collection_file_def fclose_stream_def fh2_def w2_def fh1_def)
    have w2i: "dir_entries w2 (log_at p n) = Some i" "openable w2 (log_at p n)"
      and w2s: "word_of_nat (length (inodes w2 i)) = sz'"
      using fh by (simp_all add: w2_def w1_def sz'_def)
    define fh3 where "fh3 = fh2\<lparr>fh_file := Some (next_stream w2)\<rparr>"
    define w3 where "w3 = w2\<lparr>streams := (streams w2)(next_stream w2 := None), next_stream := Suc (next_stream w2)\<rparr>"
    have try1: "try_open_log_collection_file fh2 w2 = Some (-1, fh3, w3)"
      using try_open_existing [OF sn2 w2i] big w2s
      by (simp add: Let_def fh3_def w3_def) (simp add: fh2_def fh1_def)
    have sn3: "short_names fh3 p n" using sn2 by (simp add: short_names_def fh3_def)
    have rot: "rotate_log_collection_files fh3 w3 = Some w3"
      by (rule rotate_readonly [OF sn3 _ k(1,2)]) (use ro k in \<open>simp_all add: w3_def w2_def w1_def\<close>)
    define fh4 where "fh4 = fh3\<lparr>fh_file := Some (next_stream w3)\<rparr>"
    define w4 where "w4 = w3\<lparr>streams := (streams w3)(next_stream w3 := None), next_stream := Suc (next_stream w3)\<rparr>"
    have w3i: "dir_entries w3 (log_at p n) = Some i" "openable w3 (log_at p n)"
      and w3s: "word_of_nat (length (inodes w3 i)) = sz'"
      using w2i w2s by (simp_all add: w3_def)
    have try2: "try_open_log_collection_file fh3 w3 = Some (-1, fh4, w4)"
      using try_open_existing [OF sn3 w3i] big w3s
      by (simp add: Let_def fh4_def w4_def) (simp add: fh3_def fh2_def fh1_def)
    have "open_log_collection_file fh2 w2 = Some (fh4, w4)"
      using try1 rot try2 by (simp add: open_log_collection_file_def)
    then have "after_write (int (length line)) fh w1 = Some (fh4\<lparr>fh_reopen_requested := False\<rparr>, w4)"
      using close big size1 m(1) ne by (simp add: after_write_def Let_def fh1_def)
    moreover have "streams w4 (next_stream w3) = None" "fh_file fh4 = Some (next_stream w3)"
      by (simp_all add: w4_def fh4_def)
    ultimately show "\<exists>w'. bctbx_logv_file (Some a) d lev fmt args w = Some w' \<and>
         (\<forall>d' lev' fmt' args'. bctbx_logv_file (Some a) d' lev' fmt' args' w' = None)"
      using run by (auto intro!: logv_file_dead_stream)
  }
qed

theorem log_rotation_faults_witness:
  "(\<exists>w'. bctbx_logv_file (Some 1) None BCTBX_LOG_ERROR ''hello'' [] (demo_log_os 0 True True) = Some w' \<and>
          collection ''/l'' ''x'' (Suc 1) w') \<and>
   (\<exists>w'. bctbx_logv_file (Some 1) None BCTBX_LOG_ERROR ''hello'' [] (demo_log_os 3 False False) = Some w' \<and>
          bctbx_logv_file (Some 1) None BCTBX_LOG_ERROR ''bye'' [] w' = None)"
proof -
  have ok: "\<exists>fh. file_handlers (demo_log_os m r wr) 1 = Some fh \<and> short_names fh ''/l'' ''x'' \<and> fh_file fh = Some 2 \<and>
      fh_max_size fh = m \<and> fh_size fh = 0 \<and> fh_reopen_requested fh = r" for m r wr
    by (simp add: demo_log_os_def short_names_def)
  have st: "streams (demo_log_os m r wr) 2 = Some 2" "dir_entries (demo_log_os m r wr) (log_at ''/l'' ''x'') = Some 2"
    "\<forall>x. openable (demo_log_os m r wr) x" "write_works (demo_log_os m r wr)"
    "dir_entries (demo_log_os m r wr) (archive_at ''/l'' ''x'' 1) = None"
    "inodes (demo_log_os m r wr) 2 = []" "dir_writable (demo_log_os m r wr) = wr" for m r wr
    by (simp_all add: demo_log_os_def log_at_def archive_at_def)
  have k: "1 \<le> (1::nat)" "(1::nat) < 2 ^ 29"
    "\<forall>i. 1 \<le> i \<longrightarrow> i < 1 \<longrightarrow> dir_entries (demo_log_os m r wr) (archive_at ''/l'' ''x'' i) \<noteq> None" for m r wr
    by simp_all
  have p: "c_printf ''hello'' [] = Some ''hello''" "int (length ''hello'') < 2 ^ 31 - 1" by simp_all
  have len: "length (inodes (demo_log_os m r wr) 2) +
      length (log_line (now (demo_log_os m r wr)) None BCTBX_LOG_ERROR None ''hello'') < 2 ^ 64"
    "3 < length (log_line (now (demo_log_os m r wr)) None BCTBX_LOG_ERROR None ''hello'')" for m r wr
    unfolding demo_log_line st by simp_all
  from ok [of 0 True True] obtain fh where fh: "file_handlers (demo_log_os 0 True True) 1 = Some fh"
      "short_names fh ''/l'' ''x''" "fh_file fh = Some 2" "fh_max_size fh = 0" "fh_reopen_requested fh" by blast
  note A = log_rotation_faults [OF fh(1-3) st(1-4) k(1,2) st(5) k(3) p demo_format_tags refl len(1)]
  have 1: "\<exists>w'. bctbx_logv_file (Some 1) None BCTBX_LOG_ERROR ''hello'' [] (demo_log_os 0 True True) = Some w' \<and>
      collection ''/l'' ''x'' (Suc 1) w'"
    using conjunct1 [OF A] fh(4,5) demo_collection by blast
  from ok [of 3 False False] obtain fh' where fh': "file_handlers (demo_log_os 3 False False) 1 = Some fh'"
      "short_names fh' ''/l'' ''x''" "fh_file fh' = Some 2" "fh_max_size fh' = 3" "fh_size fh' = 0" by blast
  note B = log_rotation_faults [OF fh'(1-3) st(1-4) k(1,2) st(5) k(3) p demo_format_tags refl len(1)]
  have "fh_size fh' = word_of_nat (length (inodes (demo_log_os 3 False False) 2))" using fh'(5) st(6) by simp
  moreover have "unat (fh_max_size fh') < length (inodes (demo_log_os 3 False False) 2) +
      length (log_line (now (demo_log_os 3 False False)) None BCTBX_LOG_ERROR None ''hello'')"
    using fh'(4) len(2) [of 3 False False] by simp
  moreover have "0 < fh_max_size fh'" using fh'(4) by simp
  ultimately have 2: "\<exists>w'. bctbx_logv_file (Some 1) None BCTBX_LOG_ERROR ''hello'' [] (demo_log_os 3 False False) = Some w' \<and>
      bctbx_logv_file (Some 1) None BCTBX_LOG_ERROR ''bye'' [] w' = None"
    using conjunct2 [OF B] st(7) by blast
  show ?thesis using 1 2 by (rule conjI)
qed

section \<open>Stored messages\<close>

lemma dispatch_Nil: "dispatch P g hs [] = Some"
  by (rule ext) simp

lemma bind_runit_option: "Option.bind x Some = x" "Option.bind x (\<lambda>y. Some y) = x"
  by (cases x; simp)+

text \<open>
  The handlers of the library format a message before they use it, so that they satisfy the
  interface whenever the client's functions do.
\<close>

lemma strdup_printf_rendered:
  assumes "c_printf fmt args = Some t" "CHR ''%'' \<notin> set t"
  shows "bctbx_strdup_printf fmt args = bctbx_strdup_printf t []"
  using assms by (simp add: bctbx_strdup_printf_def c_printf_plain)

lemma library_sink:
  assumes "log_sink usr c_printf" shows "log_sink (call_log_func usr) c_printf"
proof (rule log_sink.intro)
  fix fmt args t fn info d l w
  assume t: "c_printf fmt args = Some t" "CHR ''%'' \<notin> set t" "int (length t) < 2 ^ 31 - 1"
  have "bctbx_logv_out d l fmt args w = bctbx_logv_out d l t [] w"
    unfolding bctbx_logv_out_def bctbx_logv_out_cb_def strdup_printf_rendered [OF t(1,2)] ..
  moreover have "bctbx_logv_file info d l fmt args w = bctbx_logv_file info d l t [] w"
    unfolding bctbx_logv_file_def strdup_printf_rendered [OF t(1,2)] ..
  moreover have "usr f i d l fmt args w = usr f i d l t [] w" for f i
    using assms t by (rule log_sink.rendered_call)
  ultimately show "call_log_func usr fn info d l fmt args w = call_log_func usr fn info d l t [] w"
    by (simp add: call_log_func_def wrapper_def split: option.split)
qed

text \<open>The library alone: no other function is a handler.\<close>

definition no_client :: "(parg, log_os) handler_call" where
  "no_client fn info d l fmt args w = None"

interpretation library: log_sink "call_log_func no_client" c_printf
  by (rule library_sink) (simp add: log_sink_def no_client_def)


text \<open>A logger with its default handler, writing to the streams of the state above.\<close>

definition demo_logger :: "log_os logger" where
  "demo_logger = the (bctbx_get_logger True (main_logger (demo_log_os 0 False True)))"

lemma demo_logger_facts:
  "log_ok demo_logger" "log_thread_id demo_logger = 0" "log_stored_messages_list demo_logger = []"
  "logv_outs demo_logger = [Some STATIC_HANDLER]" "log_world demo_logger = demo_log_os 0 False True"
  "bctbx_get_logger True (main_logger (demo_log_os 0 False True)) = Some demo_logger"
  "default_log_domain demo_logger = Some 2"
  using get_logger_init [of True "demo_log_os 0 False True"] by (auto simp: demo_logger_def)

lemma demo_logger_handler:
  "handlers demo_logger STATIC_HANDLER =
     Some \<lparr>func = WRAPPER, destroy = HANDLER_UNINIT, handler_domain = None, user_info = Some LOGV_OUT\<rparr>"
  by (simp add: demo_logger_def bctbx_get_logger_def main_logger_def bctbx_log_domain_new_def
      initialize_default_handler_def add_handler_def zero_handler_def STATIC_HANDLER_def FILE_HANDLER_def Let_def)

lemma demo_wanted:
  assumes "lev \<in> {BCTBX_LOG_ERROR, BCTBX_LOG_FATAL}"
  shows "wanted demo_logger \<lparr>lc_thread = t, lc_domain = None, lc_level = lev, lc_fmt = f, lc_args = xs\<rparr>"
proof -
  have "domain_for None demo_logger = Some \<lparr>dom_name = None,
      logmask = BCTBX_LOG_WARNING OR BCTBX_LOG_ERROR OR BCTBX_LOG_FATAL, thread_level_set = False,
      thread_level = Map.empty\<rparr>"
    by (simp add: demo_logger_def bctbx_get_logger_def main_logger_def bctbx_log_domain_new_def
        initialize_default_handler_def add_handler_def domain_for_def get_log_domain_def
        STATIC_HANDLER_def FILE_HANDLER_def)
  then show ?thesis using assms by (auto simp: wanted_def demo_logger_facts passes_def log_levels)
qed

definition demo_call :: "nat \<Rightarrow> string \<Rightarrow> parg list \<Rightarrow> parg log_call" where
  "demo_call t f xs = \<lparr>lc_thread = t, lc_domain = None, lc_level = BCTBX_LOG_ERROR, lc_fmt = f, lc_args = xs\<rparr>"

lemma demo_storable:
  "c_printf f xs = Some t \<Longrightarrow> CHR ''%'' \<notin> set t \<Longrightarrow> int (length t) < 2 ^ 31 - 1 \<Longrightarrow>
   storable c_printf demo_logger (demo_call i f xs)"
  by (simp add: storable_def demo_call_def demo_logger_facts demo_logger_handler domain_matches_def)


text \<open>
  A fatal message ends the process only after everything stored before it, and then the message
  itself, were delivered; nothing stays in the list.
\<close>

theorem fatal_flushes_first:
  assumes "log_sink usr c_printf" "log_ok s" "log_thread_id s \<noteq> 0" "storable c_printf s m"
    and "lc_level m = BCTBX_LOG_FATAL" "wanted s m"
  shows "log_one (call_log_func usr) c_printf dflt m s =
    map_option (\<lambda>w. Aborted (s\<lparr>log_stored_messages_list := [], log_world := w\<rparr>))
      (do { w1 \<leftarrow> flush_loop (call_log_func usr) (handlers s) (logv_outs s) (log_stored_messages_list s) (log_world s);
            dispatch (domain_matches (lc_domain m))
              (\<lambda>h. call_log_func usr (func h) (user_info h) (lc_domain m) (lc_level m) (lc_fmt m) (lc_args m))
              (handlers s) (logv_outs s) w1 })"
  using log_sink.log_one_fatal [OF library_sink [OF assms(1)] assms(2-5)] assms(6)
  by (simp add: pending_def deliver_one_def [abs_def])

theorem fatal_flushes_first_witness:
  "\<exists>s. log_one (call_log_func no_client) c_printf True ((demo_call 7 ''bye'' [])\<lparr>lc_level := BCTBX_LOG_FATAL\<rparr>)
     (demo_logger\<lparr>log_thread_id := 5\<rparr>) = Some (Aborted s) \<and> log_stored_messages_list s = [] \<and>
     inodes (log_world s) 1 = log_line (now (demo_log_os 0 False True)) None BCTBX_LOG_FATAL None ''bye''"
proof -
  let ?m = "(demo_call 7 ''bye'' [])\<lparr>lc_level := BCTBX_LOG_FATAL\<rparr>"
  let ?s = "demo_logger\<lparr>log_thread_id := 5\<rparr>"
  let ?w = "demo_log_os 0 False True"
  have same: "same_setup demo_logger ?s" by simp
  have "log_sink no_client c_printf" by (simp add: log_sink_def no_client_def)
  moreover have "log_ok ?s" "storable c_printf ?s ?m" "wanted ?s ?m"
    using demo_logger_facts(1) demo_storable [of "''bye''" "[]" "''bye''" 7] demo_wanted [of BCTBX_LOG_FATAL 7 "''bye''" "[]"]
    by (simp_all add: same_setup_facts [OF same]) (simp_all add: storable_def demo_call_def)
  ultimately have "log_one (call_log_func no_client) c_printf True ?m ?s =
      map_option (\<lambda>w. Aborted (?s\<lparr>log_stored_messages_list := [], log_world := w\<rparr>))
        (bctbx_logv_out None BCTBX_LOG_FATAL ''bye'' [] ?w)"
    using fatal_flushes_first [of no_client ?s ?m True]
    by (simp add: demo_logger_facts demo_logger_handler demo_call_def domain_matches_def call_log_func_def
        wrapper_def bind_runit_option dispatch_Nil)
  moreover have "bctbx_logv_out None BCTBX_LOG_FATAL ''bye'' [] ?w =
      Some (?w\<lparr>inodes := (inodes ?w)(1 := inodes ?w 1 @ log_line (now ?w) None BCTBX_LOG_FATAL None ''bye'')\<rparr>)"
    by (simp add: bctbx_logv_out_def bctbx_logv_out_cb_def bctbx_strdup_printf_def strdup_vprintf_c99
        demo_format_tags fputs_flush_def STDERR_def) (simp add: demo_log_os_def)
  ultimately show ?thesis by (simp add: demo_log_os_def)
qed

text \<open>
  Storing a message loses two things that a direct call has.  The handlers are called without
  their domain being looked at: a handler limited to one domain gets the stored messages of the
  others.  And the stored text is used as the format: a percent sign in it, harmless when printed
  directly, is read as a conversion without argument, which is undefined.
\<close>

theorem stored_message_faults:
  assumes ok: "log_ok s" and s: "log_stored_messages_list s = []" "log_thread_id s = T" "T \<noteq> 0" "T \<noteq> lc_thread m"
    and h: "logv_outs s = [Some a]" "handlers s a = Some h" "handler_domain h = Some d1"
    and m: "lc_domain m = Some d2" "d2 \<noteq> d1" "wanted s m" "lc_level m \<noteq> BCTBX_LOG_FATAL"
      "printf (lc_fmt m) (lc_args m) = Some t" "int (length t) < 2 ^ 31 - 1"
  shows "log_one call printf dflt m (s\<lparr>log_thread_id := 0\<rparr>) = Some (Returned (s\<lparr>log_thread_id := 0\<rparr>)) \<and>
    map_option log_world
      (case log_one call printf dflt m s of Some (Returned s1) \<Rightarrow> bctbx_logv_flush call dflt s1 | _ \<Rightarrow> None) =
      call (func h) (user_info h) (Some d2) (lc_level m) t [] (log_world s) \<and>
    (\<forall>w lev. streams w STDOUT \<noteq> None \<longrightarrow> log_tags w = [] \<longrightarrow> lev = BCTBX_LOG_MESSAGE \<longrightarrow>
       bctbx_logv_out None lev ''%s'' [AStr ''%''] w \<noteq> None \<and> bctbx_logv_out None lev ''%'' [] w = None)"
proof (intro conjI allI impI)
  have same: "same_setup s (s\<lparr>log_thread_id := 0\<rparr>)" by simp
  show "log_one call printf dflt m (s\<lparr>log_thread_id := 0\<rparr>) = Some (Returned (s\<lparr>log_thread_id := 0\<rparr>))"
  proof -
    have "deliver_one call (s\<lparr>log_thread_id := 0\<rparr>) m w = Some w" for w
      unfolding same_setup_messages(3) [OF same] using h m by (simp add: deliver_one_def domain_matches_def)
    moreover have "log_ok (s\<lparr>log_thread_id := 0\<rparr>)" using ok same_setup_state(3) [OF same] by simp
    ultimately show ?thesis using m(4) by (simp add: log_one_direct)
  qed
  have "log_one call printf dflt m s = Some (Returned (s\<lparr>log_stored_messages_list :=
      [\<lparr>stored_level = lc_level m, stored_msg = t, stored_domain = Some d2\<rparr>]\<rparr>))"
    using ok s m by (simp add: log_one_eq strdup_vprintf_c99)
  then show "map_option log_world
      (case log_one call printf dflt m s of Some (Returned s1) \<Rightarrow> bctbx_logv_flush call dflt s1 | _ \<Rightarrow> None) =
      call (func h) (user_info h) (Some d2) (lc_level m) t [] (log_world s)"
    using log_ok_default [OF ok] h
    by (simp add: logv_flush_pending pending_def option.map_comp comp_def bind_runit_option option.map_ident)
next
  fix w :: log_os and lev
  assume "streams w STDOUT \<noteq> None" "log_tags w = []" "lev = BCTBX_LOG_MESSAGE"
  then show "bctbx_logv_out None lev ''%s'' [AStr ''%''] w \<noteq> None" "bctbx_logv_out None lev ''%'' [] w = None"
    by (auto simp: bctbx_logv_out_def bctbx_logv_out_cb_def bctbx_strdup_printf_def strdup_vprintf_c99
        format_tags_def fputs_flush_def log_levels)
qed

text \<open>A logger whose only handler is limited to the domain media, and its delivered texts.\<close>

definition limited_logger :: "string list logger" where
  "limited_logger = (the (bctbx_get_logger True (main_logger [])))\<lparr>log_thread_id := 5,
     handlers := [STATIC_HANDLER \<mapsto> \<lparr>func = WRAPPER, destroy = HANDLER_UNINIT,
                                      handler_domain = Some ''media'', user_info = None\<rparr>]\<rparr>"

definition sip_call :: "parg log_call" where
  "sip_call = \<lparr>lc_thread = 7, lc_domain = Some ''sip'', lc_level = BCTBX_LOG_ERROR, lc_fmt = ''hello'', lc_args = []\<rparr>"

definition collect_call :: "(parg, string list) handler_call" where
  "collect_call fn info d l t xs w = Some (w @ [t])"

theorem stored_message_faults_witness:
  "map_option log_world
     (case log_one collect_call c_printf True sip_call limited_logger of
        Some (Returned s1) \<Rightarrow> bctbx_logv_flush collect_call True s1 | _ \<Rightarrow> None) =
   Some [''hello'']"
proof -
  obtain s where s: "bctbx_get_logger True (main_logger []) = Some s" "log_ok s"
      "log_stored_messages_list s = []" "logv_outs s = [Some STATIC_HANDLER]" "log_world s = ([] :: string list)"
    using get_logger_init [of True "[] :: string list"] by auto
  then have l: "limited_logger = s\<lparr>log_thread_id := 5, handlers := [STATIC_HANDLER \<mapsto> \<lparr>func = WRAPPER,
      destroy = HANDLER_UNINIT, handler_domain = Some ''media'', user_info = None\<rparr>]\<rparr>"
    by (simp add: limited_logger_def)
  have ok: "log_ok limited_logger" using s(2) by (simp add: l log_ok_def)
  have "domain_for (Some ''sip'') limited_logger = Some \<lparr>dom_name = None,
      logmask = BCTBX_LOG_WARNING OR BCTBX_LOG_ERROR OR BCTBX_LOG_FATAL, thread_level_set = False,
      thread_level = Map.empty\<rparr>"
    by (simp add: limited_logger_def bctbx_get_logger_def main_logger_def bctbx_log_domain_new_def
        initialize_default_handler_def add_handler_def domain_for_def get_log_domain_def
        STATIC_HANDLER_def FILE_HANDLER_def)
  then have w: "wanted limited_logger sip_call" using s(4) by (simp add: wanted_def l sip_call_def passes_def log_levels)
  have facts: "log_stored_messages_list limited_logger = []" "log_thread_id limited_logger = 5" "(5::nat) \<noteq> 0"
    "5 \<noteq> lc_thread sip_call" "logv_outs limited_logger = [Some STATIC_HANDLER]"
    "handlers limited_logger STATIC_HANDLER = Some \<lparr>func = WRAPPER, destroy = HANDLER_UNINIT,
       handler_domain = Some ''media'', user_info = None\<rparr>"
    "log_world limited_logger = []"
    using s by (simp_all add: l sip_call_def)
  have m: "lc_domain sip_call = Some ''sip''" "lc_level sip_call \<noteq> BCTBX_LOG_FATAL"
    "c_printf (lc_fmt sip_call) (lc_args sip_call) = Some ''hello''" "int (length ''hello'') < 2 ^ 31 - 1"
    "''sip'' \<noteq> ''media''"
    by (simp_all add: sip_call_def log_levels)
  have hd: "handler_domain \<lparr>func = WRAPPER, destroy = HANDLER_UNINIT, handler_domain = Some ''media'',
      user_info = None\<rparr> = Some ''media''" by simp
  note B = stored_message_faults [where printf = c_printf and call = collect_call and dflt = True,
      OF ok facts(1-6) hd m(1,5) w m(2-4)]
  show ?thesis using conjunct1 [OF conjunct2 [OF B]] facts(7) by (simp add: collect_call_def)
qed

section \<open>Freed handlers\<close>

lemma dispatch_dead: "Some a \<in> set ps \<Longrightarrow> hs a = None \<Longrightarrow> dispatch P g hs ps w = None"
proof (induction ps arbitrary: w)
  case (Cons p ps)
  show ?case
  proof (cases p)
    case (Some b)
    with Cons show ?thesis by (cases "hs b"; cases "g (the (hs b)) w") auto
  qed (use Cons in simp)
qed simp

text \<open>What destroying handlers leaves as it was.\<close>

definition kept :: "'w logger \<Rightarrow> 'w logger \<Rightarrow> bool" where
  "kept s s' \<longleftrightarrow> logv_outs s' = logv_outs s \<and> default_log_domain s' = default_log_domain s \<and> doms s' = doms s \<and>
     log_domains s' = log_domains s \<and> next_addr s' = next_addr s \<and> log_thread_id s' = log_thread_id s \<and>
     (\<forall>x h. handlers s' x = Some h \<longrightarrow> (\<exists>h0. handlers s x = Some h0 \<and> destroy h = destroy h0))"

lemma kept_refl [simp]: "kept s s"
  by (simp add: kept_def)

lemma kept_trans: "kept s s1 \<Longrightarrow> kept s1 s2 \<Longrightarrow> kept s s2"
  unfolding kept_def by (elim conjE, intro conjI) (simp_all, metis)

lemma kept_upd:
  "kept s s1 \<Longrightarrow> kept s (s1\<lparr>log_world := w\<rparr>)"
  "kept s s1 \<Longrightarrow> kept s (s1\<lparr>handlers := (handlers s1)(a := None)\<rparr>)"
  by (auto simp: kept_def)

lemma handler_uninit_keeps: "bctbx_handler_uninit a s = Some s' \<Longrightarrow> kept s s'"
  by (auto simp: bctbx_handler_uninit_def upd_handler_def bind_eq_Some_conv kept_def split: if_splits)

lemma file_uninit_keeps: "bctbx_handler_logv_file_uninit a s = Some s' \<Longrightarrow> kept s s'"
  by (auto simp: bctbx_handler_logv_file_uninit_def bind_eq_Some_conv
      intro: kept_trans [OF kept_upd(1) [OF kept_refl]] dest: handler_uninit_keeps)

lemma file_destroy_keeps:
  assumes "bctbx_handler_logv_file_destroy a s = Some s'"
  shows "kept s s' \<and> handlers s' a = None"
proof -
  obtain f s1 s3 where r: "bctbx_handler_logv_file_uninit a s = Some s1"
      "bctbx_handler_uninit a (s1\<lparr>log_world := (log_world s1)\<lparr>file_handlers := (file_handlers (log_world s1))(f := None)\<rparr>\<rparr>) = Some s3"
      "s' = s3\<lparr>handlers := (handlers s3)(a := None)\<rparr>"
    using assms by (auto simp: bctbx_handler_logv_file_destroy_def bind_eq_Some_conv Let_def)
  have "kept s s3"
    by (rule kept_trans [OF kept_upd(1) [OF file_uninit_keeps [OF r(1)]] handler_uninit_keeps [OF r(2)]])
  then show ?thesis using r(3) by (simp add: kept_upd)
qed

lemma destroy_func_keeps:
  "destroy_func fn a s = Some s' \<Longrightarrow> kept s s' \<and> (fn = LOGV_FILE_DESTROY \<longrightarrow> handlers s' a = None)"
  using handler_uninit_keeps [of a s s'] file_uninit_keeps [of a s s'] file_destroy_keeps [of a s s']
  by (auto simp: destroy_func_def HANDLER_UNINIT_def LOGV_FILE_DESTROY_def LOGV_FILE_UNINIT_def split: if_splits)

lemma destroy_all_step:
  assumes "destroy_all destroy_func (p # ps) s = Some s'"
  obtains a h s1 where "p = Some a" "handlers s a = Some h" "destroy_func (destroy h) a s = Some s1"
    "destroy_all destroy_func ps s1 = Some s'"
  using assms by (auto simp: bind_eq_Some_conv)

lemma destroy_all_keeps: "destroy_all destroy_func ps s = Some s' \<Longrightarrow> kept s s'"
proof (induction ps arbitrary: s)
  case (Cons p ps)
  obtain a h s1 where "p = Some a" "handlers s a = Some h" "destroy_func (destroy h) a s = Some s1"
      "destroy_all destroy_func ps s1 = Some s'"
    using Cons.prems by (rule destroy_all_step)
  with Cons.IH [of s1] destroy_func_keeps kept_trans show ?case by blast
qed simp

lemma destroy_all_kills:
  assumes "destroy_all destroy_func ps s = Some s'" "Some a \<in> set ps" "handlers s a = Some h" "destroy h = LOGV_FILE_DESTROY"
  shows "handlers s' a = None"
  using assms
proof (induction ps arbitrary: s h)
  case (Cons p ps)
  obtain b hb s1 where b: "p = Some b" "handlers s b = Some hb" "destroy_func (destroy hb) b s = Some s1"
      "destroy_all destroy_func ps s1 = Some s'"
    using Cons.prems(1) by (rule destroy_all_step)
  show ?case
  proof (cases "handlers s1 a")
    case None
    with destroy_all_keeps [OF b(4)] show ?thesis
      by (metis kept_def not_None_eq)
  next
    case (Some h1)
    from destroy_func_keeps [OF b(3)] Some obtain h0 where "handlers s a = Some h0" "destroy h1 = destroy h0"
      by (auto simp: kept_def)
    with Cons.prems(3,4) have h1: "destroy h1 = LOGV_FILE_DESTROY" by simp
    have "b \<noteq> a" using destroy_func_keeps [OF b(3)] Some Cons.prems(3,4) b(2) by auto
    with Cons.prems(2) b(1) have "Some a \<in> set ps" by auto
    then show ?thesis using Cons.IH [OF b(4) _ Some h1(1)] by simp
  qed
qed simp

lemma destroy_all_dead: "Some a \<in> set ps \<Longrightarrow> handlers s a = None \<Longrightarrow> destroy_all destroy_func ps s = None"
proof (induction ps arbitrary: s)
  case (Cons p ps)
  show ?case
  proof (rule ccontr)
    assume "destroy_all destroy_func (p # ps) s \<noteq> None"
    then obtain s' where "destroy_all destroy_func (p # ps) s = Some s'" by blast
    then obtain b hb s1 where b: "p = Some b" "handlers s b = Some hb" "destroy_func (destroy hb) b s = Some s1"
        "destroy_all destroy_func ps s1 = Some s'" by (rule destroy_all_step)
    have "handlers s1 a = None"
      using destroy_func_keeps [OF b(3)] Cons.prems(2) by (metis kept_def not_None_eq)
    moreover have "Some a \<in> set ps" using Cons.prems b(1,2) by auto
    ultimately show False using Cons.IH b(4) by simp
  qed
qed simp

text \<open>
  \<open>bctbx_log_handlers_free\<close> frees the handlers but keeps their list, so that the next message that
  passes its level, and a second call, use freed memory.
\<close>

theorem handlers_free_dangling:
  assumes "log_ok s" "log_thread_id s = 0" "Some a \<in> set (logv_outs s)" "handlers s a = Some h"
    and "destroy h = LOGV_FILE_DESTROY" "bctbx_log_handlers_free destroy_func dflt s = Some s'"
  shows "logv_outs s' = logv_outs s \<and> handlers s' a = None \<and>
    bctbx_log_handlers_free destroy_func dflt s' = None \<and>
    (\<forall>m. wanted s m \<longrightarrow> log_one (call_log_func usr) printf dflt m s' = None)"
proof -
  have d: "destroy_all destroy_func (logv_outs s) s = Some s'"
    using assms by (simp add: bctbx_log_handlers_free_def get_logger_ok)
  note k = destroy_all_keeps [OF d]
  have dead: "handlers s' a = None" by (rule destroy_all_kills [OF d assms(3-5)])
  have ok: "log_ok s'" using assms(1) k by (simp add: kept_def log_ok_def)
  have "bctbx_log_handlers_free destroy_func dflt s' = None"
    using ok destroy_all_dead [of a "logv_outs s'" s'] dead k assms(3)
    by (simp add: bctbx_log_handlers_free_def get_logger_ok kept_def)
  moreover have "log_one (call_log_func usr) printf dflt m s' = None" if "wanted s m" for m
  proof -
    have "domain_for (lc_domain m) s' = domain_for (lc_domain m) s"
      using k by (cases "lc_domain m") (simp_all add: kept_def domain_for_def get_log_domain_def cong: if_cong)
    then have "wanted s' m" using that k by (simp add: wanted_def kept_def)
    moreover have "Some a \<in> set (logv_outs s')" "log_thread_id s' = 0" using k assms by (simp_all add: kept_def)
    moreover from this(1) have dead_call: "dispatch P g (handlers s') (logv_outs s') v = None" for P g and v :: log_os
      using dead by (rule dispatch_dead)
    ultimately show ?thesis
      using dead_call by (simp add: log_one_eq [OF ok] call_handlers_def)
  qed
  ultimately show ?thesis using k dead by (simp add: kept_def)
qed

theorem handlers_free_dangling_witness:
  "\<exists>s'. bctbx_log_handlers_free destroy_func True
      (demo_logger\<lparr>logv_outs := [Some 7], handlers := [7 \<mapsto> \<lparr>func = LOGV_FILE, destroy = LOGV_FILE_DESTROY,
          handler_domain = None, user_info = Some 1\<rparr>]\<rparr>) = Some s' \<and>
     log_one (call_log_func no_client) c_printf True (demo_call 3 ''x'' []) s' = None"
proof -
  let ?s = "demo_logger\<lparr>logv_outs := [Some 7], handlers := [7 \<mapsto> \<lparr>func = LOGV_FILE, destroy = LOGV_FILE_DESTROY,
          handler_domain = None, user_info = Some 1\<rparr>]\<rparr>"
  have ok: "log_ok ?s" using demo_logger_facts(1) by (simp add: log_ok_def)
  have "bctbx_log_handlers_free destroy_func True ?s \<noteq> None"
    by (simp add: bctbx_log_handlers_free_def get_logger_id demo_logger_facts(7) destroy_func_def HANDLER_UNINIT_def
        LOGV_FILE_UNINIT_def LOGV_FILE_DESTROY_def bctbx_handler_logv_file_destroy_def
        bctbx_handler_logv_file_uninit_def upd_file_handler_def fclose_stream_def bctbx_handler_uninit_def
        upd_handler_def Let_def demo_logger_facts(5) del: not_None_eq)
      (simp add: demo_log_os_def)
  then obtain s' where s': "bctbx_log_handlers_free destroy_func True ?s = Some s'" by blast
  have w: "wanted ?s (demo_call 3 ''x'' [])"
    using demo_wanted [of BCTBX_LOG_ERROR 3 "''x''" "[]"]
    by (simp add: wanted_def demo_call_def domain_for_def get_log_domain_def demo_logger_facts(7))
  have "log_one (call_log_func no_client) c_printf True (demo_call 3 ''x'' []) s' = None"
    using handlers_free_dangling [OF ok _ _ _ _ s', of 7 _ no_client c_printf] w demo_logger_facts(2) by simp
  with s' show ?thesis by blast
qed

end
