(* ===== verification/PortStr.thy ===== *)
theory PortStr
  imports Logger
begin

text \<open>
  Memory and strings of src/utils/port.c: the replaceable allocator, the copies of strings, the
  parts of a path, replacement, concatenation with a growing buffer and comparison.
\<close>

section \<open>The allocator\<close>

text \<open>
  The heap is a map of blocks; the three functions may keep private state of their own.
\<close>

record 'x mem =
  hblocks :: "nat \<Rightarrow> cbuf option"
  next_block :: nat
  alloc_private :: 'x

record 'x BctoolboxMemoryFunctions =
  malloc_fun :: "nat \<Rightarrow> 'x mem \<Rightarrow> ptr \<times> 'x mem"
  realloc_fun :: "ptr \<Rightarrow> nat \<Rightarrow> 'x mem \<Rightarrow> (ptr \<times> 'x mem) option"
  free_fun :: "ptr \<Rightarrow> 'x mem \<Rightarrow> 'x mem option"

record 'x allocator_state =
  allocator_used :: bool
  bctbx_allocator :: "'x BctoolboxMemoryFunctions"
  memory :: "'x mem"

definition bctbx_libc_malloc :: "nat \<Rightarrow> 'x mem \<Rightarrow> ptr \<times> 'x mem" where
  "bctbx_libc_malloc sz m =
     (Some (next_block m),
      m\<lparr>hblocks := (hblocks m)(next_block m \<mapsto> cmalloc sz), next_block := Suc (next_block m)\<rparr>)"

definition bctbx_libc_realloc :: "ptr \<Rightarrow> nat \<Rightarrow> 'x mem \<Rightarrow> (ptr \<times> 'x mem) option" where
  "bctbx_libc_realloc p sz m =
     (case p of
        None \<Rightarrow> Some (bctbx_libc_malloc sz m)
      | Some a \<Rightarrow> (case hblocks m a of
          None \<Rightarrow> None
        | Some b \<Rightarrow>
            Some (Some (next_block m),
                  m\<lparr>hblocks := (hblocks m)(a := None, next_block m \<mapsto> crealloc b sz),
                    next_block := Suc (next_block m)\<rparr>)))"

definition bctbx_libc_free :: "ptr \<Rightarrow> 'x mem \<Rightarrow> 'x mem option" where
  "bctbx_libc_free p m =
     (case p of
        None \<Rightarrow> Some m
      | Some a \<Rightarrow> if hblocks m a = None then None else Some (m\<lparr>hblocks := (hblocks m)(a := None)\<rparr>))"

definition libc_functions :: "'x BctoolboxMemoryFunctions" where
  "libc_functions = \<lparr>malloc_fun = bctbx_libc_malloc, realloc_fun = bctbx_libc_realloc, free_fun = bctbx_libc_free\<rparr>"

text \<open>\<open>bctbx_fatal\<close> ends the process.\<close>

definition bctbx_set_memory_functions ::
    "'x BctoolboxMemoryFunctions \<Rightarrow> 'x allocator_state \<Rightarrow> 'x allocator_state outcome" where
  "bctbx_set_memory_functions functions s =
     (if allocator_used s then Aborted s else Returned (s\<lparr>bctbx_allocator := functions\<rparr>))"

definition bctbx_malloc :: "nat \<Rightarrow> 'x allocator_state \<Rightarrow> ptr \<times> 'x allocator_state" where
  "bctbx_malloc sz s =
     (let (p, m) = malloc_fun (bctbx_allocator s) sz (memory s)
      in (p, s\<lparr>allocator_used := True, memory := m\<rparr>))"

definition bctbx_realloc :: "ptr \<Rightarrow> nat \<Rightarrow> 'x allocator_state \<Rightarrow> (ptr \<times> 'x allocator_state) option" where
  "bctbx_realloc p sz s =
     map_option (\<lambda>(q, m). (q, s\<lparr>allocator_used := True, memory := m\<rparr>))
       (realloc_fun (bctbx_allocator s) p sz (memory s))"

definition bctbx_free :: "ptr \<Rightarrow> 'x allocator_state \<Rightarrow> 'x allocator_state option" where
  "bctbx_free p s = map_option (\<lambda>m. s\<lparr>memory := m\<rparr>) (free_fun (bctbx_allocator s) p (memory s))"

definition bctbx_malloc0 :: "nat \<Rightarrow> 'x allocator_state \<Rightarrow> (nat \<times> 'x allocator_state) option" where
  "bctbx_malloc0 sz s = do {
     let (p, s1) = bctbx_malloc sz s;
     a \<leftarrow> p;
     b \<leftarrow> hblocks (memory s1) a;
     b1 \<leftarrow> buf_write b 0 (replicate sz NUL);
     Some (a, s1\<lparr>memory := (memory s1)\<lparr>hblocks := (hblocks (memory s1))(a \<mapsto> b1)\<rparr>\<rparr>) }"

section \<open>Copies\<close>

text \<open>
  The result of an allocation is the buffer, or \<open>None\<close> for NULL.  The inner \<open>None\<close> of a result is
  the pointer NULL.
\<close>

definition bctbx_strdup :: "(nat \<Rightarrow> cbuf option) \<Rightarrow> string option \<Rightarrow> cbuf option option" where
  "bctbx_strdup alloc tmp =
     (case tmp of
        None \<Rightarrow> Some None
      | Some t \<Rightarrow> do {
          let sz = length t + 1;
          ret \<leftarrow> alloc sz;
          ret \<leftarrow> buf_write ret 0 (t @ [NUL]);
          ret \<leftarrow> buf_write ret (sz - 1) [NUL];
          Some (Some ret) })"

text \<open>
  A count below 1 makes the last assignment fall outside the buffer.
\<close>

definition bctbx_strndup :: "(nat \<Rightarrow> cbuf option) \<Rightarrow> string \<Rightarrow> int \<Rightarrow> cbuf option" where
  "bctbx_strndup alloc str n = do {
     m \<leftarrow> i32 ((if to_i32 (int (length str)) > n then n else to_i32 (int (length str))) + 1);
     if m < 1 then None
     else do {
       ret \<leftarrow> alloc (nat m);
       ret \<leftarrow> buf_write ret 0 (take (nat m) (str @ replicate (nat m) NUL));
       buf_write ret (nat m - 1) [NUL] } }"

definition SLASH :: char where "SLASH = CHR ''/''"
definition BACKSLASH :: char where "BACKSLASH = CHR 0x5C"

definition last_sep :: "string \<Rightarrow> nat option" where
  "last_sep path = (case strrchr path SLASH of None \<Rightarrow> strrchr path BACKSLASH | Some i \<Rightarrow> Some i)"

definition bctbx_dirname :: "(nat \<Rightarrow> cbuf option) \<Rightarrow> string \<Rightarrow> cbuf option option" where
  "bctbx_dirname alloc path =
     (case last_sep path of
        Some i \<Rightarrow> map_option Some (bctbx_strndup alloc path (to_i32 (int i)))
      | None \<Rightarrow> bctbx_strdup alloc (Some ''.''))"

definition bctbx_basename :: "(nat \<Rightarrow> cbuf option) \<Rightarrow> string \<Rightarrow> cbuf option option" where
  "bctbx_basename alloc path =
     (case last_sep path of
        None \<Rightarrow> bctbx_strdup alloc (Some path)
      | Some i \<Rightarrow> bctbx_strdup alloc (Some (drop (i + 1) path)))"

section \<open>Replacement, concatenation, comparison\<close>

fun bctbx_replace :: "string \<Rightarrow> char \<Rightarrow> char \<Rightarrow> string" where
  "bctbx_replace [] c n = []"
| "bctbx_replace (x # s) c n = (if x = c then n else x) # bctbx_replace s c n"

text \<open>
  \<open>grow sz\<close> says whether \<open>realloc\<close> to \<open>sz\<close> bytes succeeds.  The loop works on the buffer, its size and
  the write position; the result is NULL when it cannot grow.
\<close>

fun concat_loop ::
    "(nat \<Rightarrow> bool) \<Rightarrow> string list \<Rightarrow> cbuf \<Rightarrow> nat \<Rightarrow> nat \<Rightarrow> (cbuf \<times> nat) option option" where
  "concat_loop grow [] result allocated wp = Some (Some (result, wp))"
| "concat_loop grow (s # ss) result allocated wp =
     (let len = length s in
      if wp + len + 1 > allocated
      then (let allocated' = (allocated + len) * 2 in
            if grow allocated'
            then do {
              b \<leftarrow> buf_write (crealloc result allocated') wp s;
              concat_loop grow ss b allocated' (wp + len) }
            else Some None)
      else do {
        b \<leftarrow> buf_write result wp s;
        concat_loop grow ss b allocated (wp + len) })"

definition bctbx_concat :: "(nat \<Rightarrow> bool) \<Rightarrow> string list \<Rightarrow> cbuf option option" where
  "bctbx_concat grow strs =
     (if grow 100
      then do {
        r \<leftarrow> concat_loop grow strs (cmalloc 100) 100 0;
        case r of
          None \<Rightarrow> Some None
        | Some (b, wp) \<Rightarrow> do {
            b1 \<leftarrow> buf_write b wp [NUL];
            Some (Some (if grow (wp + 1) then crealloc b1 (wp + 1) else b1)) } }
      else Some None)"

text \<open>The sign of \<open>strcmp\<close>, and of \<open>strcasecmp\<close> in the C locale.\<close>

fun strcmp :: "string \<Rightarrow> string \<Rightarrow> int" where
  "strcmp [] [] = 0"
| "strcmp [] (y # ys) = -1"
| "strcmp (x # xs) [] = 1"
| "strcmp (x # xs) (y # ys) =
     (if x = y then strcmp xs ys
      else if (of_char x :: nat) < of_char y then -1 else 1)"

definition tolower :: "char \<Rightarrow> char" where
  "tolower c = (if 65 \<le> (of_char c :: nat) \<and> (of_char c :: nat) \<le> 90 then char_of (of_char c + 32 :: nat) else c)"

definition bctbx_strcmp :: "string option \<Rightarrow> string option \<Rightarrow> int" where
  "bctbx_strcmp a b =
     (let a = (case a of None \<Rightarrow> [] | Some s \<Rightarrow> s); b = (case b of None \<Rightarrow> [] | Some s \<Rightarrow> s) in strcmp a b)"

definition bctbx_strcasecmp :: "string option \<Rightarrow> string option \<Rightarrow> int" where
  "bctbx_strcasecmp a b =
     (let a = (case a of None \<Rightarrow> [] | Some s \<Rightarrow> s); b = (case b of None \<Rightarrow> [] | Some s \<Rightarrow> s)
      in strcmp (map tolower a) (map tolower b))"

section \<open>Copies hold what they should\<close>

text \<open>The buffer holds exactly the string and its terminator.\<close>

definition holds :: "cbuf \<Rightarrow> string \<Rightarrow> bool" where
  "holds b s \<longleftrightarrow> size_of b = length s + 1 \<and> buf_string b (length s + 1) = s @ [NUL]"

lemma buf_write_all:
  assumes "buf_write b 0 s = Some b'" shows "buf_string b' (length s) = s"
  using buf_string_extend [OF assms] by simp

lemma buf_write_end:
  assumes "buf_write b 0 (s @ [x]) = Some b1" "buf_write b1 (length s) [NUL] = Some b2"
  shows "buf_string b2 (length s + 1) = s @ [NUL]"
proof -
  have "buf_string b1 (length s) = s"
    using buf_write_all [OF assms(1)]
    by (simp add: buf_string_def aslice_append [of _ 0 "length s" 1, simplified])
  then show ?thesis using buf_string_extend [OF assms(2)] by simp
qed

lemma strdup_holds:
  "\<exists>b. bctbx_strdup (Some \<circ> cmalloc) (Some t) = Some (Some b) \<and> holds b t"
proof -
  obtain b1 where b1: "buf_write (cmalloc (length t + 1)) 0 (t @ [NUL]) = Some b1"
    by (simp add: buf_write_def)
  obtain b2 where b2: "buf_write b1 (length t) [NUL] = Some b2"
    using buf_write_size [OF b1] by (simp add: buf_write_def)
  have "holds b2 t"
    using buf_write_end [OF b1 b2] buf_write_size [OF b1] buf_write_size [OF b2] by (simp add: holds_def)
  then show ?thesis using b1 b2 by (simp add: bctbx_strdup_def)
qed

lemma strndup_holds:
  assumes "0 \<le> n" "n < 2 ^ 31 - 1" "int (length str) < 2 ^ 31 - 1"
  shows "\<exists>b. bctbx_strndup (Some \<circ> cmalloc) str n = Some b \<and> holds b (take (nat n) str)"
proof -
  define k where "k = min (length str) (nat n)"
  have m: "(if to_i32 (int (length str)) > n then n else to_i32 (int (length str))) + 1 = int k + 1"
    using assms by (simp add: to_i32_small k_def)
  have k: "length (take (nat n) str) = k" by (simp add: k_def)
  have copy: "take (k + 1) (str @ replicate (k + 1) NUL) = take (nat n) str @ [cat str k]"
  proof (cases "length str \<le> nat n")
    case True
    then show ?thesis by (simp add: k_def cat_def)
  next
    case False
    then show ?thesis by (simp add: k_def cat_def take_Suc_conv_app_nth)
  qed
  obtain b1 where b1: "buf_write (cmalloc (k + 1)) 0 (take (nat n) str @ [cat str k]) = Some b1"
    using k by (simp add: buf_write_def)
  obtain b2 where b2: "buf_write b1 (length (take (nat n) str)) [NUL] = Some b2"
    using buf_write_size [OF b1] k by (simp add: buf_write_def)
  have "holds b2 (take (nat n) str)"
    using buf_write_end [OF b1 b2] buf_write_size [OF b1] buf_write_size [OF b2] k by (simp add: holds_def)
  moreover have "bctbx_strndup (Some \<circ> cmalloc) str n = Some b2"
  proof -
    have i: "i32 (int k + 1) = Some (int k + 1)" using assms by (simp add: k_def)
    have j: "nat (int k + 1) = k + 1" "\<not> int k + 1 < 1" "k + 1 - 1 = k" by simp_all
    show ?thesis
      unfolding bctbx_strndup_def m i Option.bind.simps if_not_P [OF j(2)] j(1) copy comp_def b1 j(3)
      using b2 unfolding k .
  qed
  ultimately show ?thesis by blast
qed

section \<open>The parts of a path\<close>

lemma last_sep_slash: "SLASH \<notin> set b \<Longrightarrow> last_sep (d @ SLASH # b) = Some (length d)"
  by (simp add: last_sep_def strrchr_append)

lemma last_sep_backslash:
  "SLASH \<notin> set d \<Longrightarrow> SLASH \<notin> set b \<Longrightarrow> BACKSLASH \<notin> set b \<Longrightarrow>
   last_sep (d @ BACKSLASH # b) = Some (length d)"
proof -
  assume a: "SLASH \<notin> set d" "SLASH \<notin> set b" "BACKSLASH \<notin> set b"
  then have "strrchr (d @ BACKSLASH # b) SLASH = None"
    by (simp only: strrchr_None) (simp add: SLASH_def BACKSLASH_def)
  moreover have "strrchr (d @ BACKSLASH # b) BACKSLASH = Some (length d)" using a(3) by (rule strrchr_append)
  ultimately show ?thesis by (simp only: last_sep_def option.case)
qed

lemma last_sep_none: "SLASH \<notin> set p \<Longrightarrow> BACKSLASH \<notin> set p \<Longrightarrow> last_sep p = None"
proof -
  assume "SLASH \<notin> set p" "BACKSLASH \<notin> set p"
  then have "strrchr p SLASH = None" "strrchr p BACKSLASH = None" by (simp_all only: strrchr_None not_False_eq_True)
  then show ?thesis by (simp only: last_sep_def option.case)
qed

lemma path_parts:
  assumes "last_sep (d @ x # b) = Some (length d)" "int (length d) < 2 ^ 31 - 1" "int (length (d @ x # b)) < 2 ^ 31 - 1"
  shows "\<exists>p q. bctbx_dirname (Some \<circ> cmalloc) (d @ x # b) = Some (Some p) \<and> holds p d \<and>
    bctbx_basename (Some \<circ> cmalloc) (d @ x # b) = Some (Some q) \<and> holds q b"
proof -
  obtain p where "bctbx_strndup (Some \<circ> cmalloc) (d @ x # b) (int (length d)) = Some p" "holds p d"
    using strndup_holds [of "int (length d)" "d @ x # b"] assms(2,3) by auto
  moreover obtain q where "bctbx_strdup (Some \<circ> cmalloc) (Some b) = Some (Some q)" "holds q b"
    using strdup_holds by blast
  ultimately show ?thesis
    using assms(1,2) by (simp add: bctbx_dirname_def bctbx_basename_def to_i32_small)
qed

text \<open>
  A path with a slash is cut at its last one: \<open>bctbx_dirname\<close> gives what stands before it and
  \<open>bctbx_basename\<close> what stands after it, each in a buffer of exactly its size with its terminator, so
  that the two parts put together are the path.  Without any slash the last backslash is used, and
  without a separator the directory is a dot and the name the whole path.  A backslash after the
  last slash is not taken as the last separator, although the documentation says it is.
\<close>

theorem dirname_basename:
  assumes "SLASH \<notin> set b" "int (length d) + int (length b) < 2 ^ 31 - 2"
  shows "(\<exists>p q. bctbx_dirname (Some \<circ> cmalloc) (d @ SLASH # b) = Some (Some p) \<and> holds p d \<and>
      bctbx_basename (Some \<circ> cmalloc) (d @ SLASH # b) = Some (Some q) \<and> holds q b) \<and>
    (SLASH \<notin> set d \<longrightarrow> BACKSLASH \<notin> set b \<longrightarrow>
      (\<exists>p q. bctbx_dirname (Some \<circ> cmalloc) (d @ BACKSLASH # b) = Some (Some p) \<and> holds p d \<and>
        bctbx_basename (Some \<circ> cmalloc) (d @ BACKSLASH # b) = Some (Some q) \<and> holds q b)) \<and>
    (BACKSLASH \<notin> set b \<longrightarrow>
      (\<exists>p q. bctbx_dirname (Some \<circ> cmalloc) b = Some (Some p) \<and> holds p ''.'' \<and>
        bctbx_basename (Some \<circ> cmalloc) b = Some (Some q) \<and> holds q b))"
proof (intro conjI impI)
  show "\<exists>p q. bctbx_dirname (Some \<circ> cmalloc) (d @ SLASH # b) = Some (Some p) \<and> holds p d \<and>
      bctbx_basename (Some \<circ> cmalloc) (d @ SLASH # b) = Some (Some q) \<and> holds q b"
    by (rule path_parts [OF last_sep_slash]) (use assms in auto)
  show "\<exists>p q. bctbx_dirname (Some \<circ> cmalloc) (d @ BACKSLASH # b) = Some (Some p) \<and> holds p d \<and>
      bctbx_basename (Some \<circ> cmalloc) (d @ BACKSLASH # b) = Some (Some q) \<and> holds q b"
    if "SLASH \<notin> set d" "BACKSLASH \<notin> set b"
    by (rule path_parts [OF last_sep_backslash]) (use assms that in auto)
  show "\<exists>p q. bctbx_dirname (Some \<circ> cmalloc) b = Some (Some p) \<and> holds p ''.'' \<and>
      bctbx_basename (Some \<circ> cmalloc) b = Some (Some q) \<and> holds q b"
    if "BACKSLASH \<notin> set b"
    using last_sep_none [OF assms(1) that] strdup_holds [of "''.''"] strdup_holds [of b]
    by (auto simp: bctbx_dirname_def bctbx_basename_def)
qed

theorem dirname_basename_witness:
  "\<exists>p q. bctbx_dirname (Some \<circ> cmalloc) (''/home/me'' @ SLASH # ''a'' @ [BACKSLASH] @ ''b'') = Some (Some p) \<and>
     holds p ''/home/me'' \<and>
     bctbx_basename (Some \<circ> cmalloc) (''/home/me'' @ SLASH # ''a'' @ [BACKSLASH] @ ''b'') = Some (Some q) \<and>
     holds q (''a'' @ [BACKSLASH] @ ''b'')"
  by (rule conjunct1 [OF dirname_basename]) (simp_all add: SLASH_def BACKSLASH_def)

section \<open>Concatenation\<close>

text \<open>With enough memory the loop writes inside the buffer at every step.\<close>

lemma concat_loop_ok:
  assumes "size_of r = allocated" "wp + 1 \<le> allocated"
  shows "\<exists>b wp'. concat_loop (\<lambda>_. True) ss r allocated wp = Some (Some (b, wp')) \<and>
    wp' = wp + length (concat ss) \<and> buf_string b wp' = buf_string r wp @ concat ss \<and> wp' + 1 \<le> size_of b"
  using assms
proof (induction ss arbitrary: r allocated wp)
  case (Cons s ss)
  define r' where "r' = (if wp + length s + 1 > allocated then crealloc r ((allocated + length s) * 2) else r)"
  define a' where "a' = (if wp + length s + 1 > allocated then (allocated + length s) * 2 else allocated)"
  have sz: "size_of r' = a'" "wp + length s + 1 \<le> a'" using Cons.prems by (auto simp: r'_def a'_def)
  then obtain b where b: "buf_write r' wp s = Some b" by (simp add: buf_write_def)
  have "concat_loop (\<lambda>_. True) (s # ss) r allocated wp = concat_loop (\<lambda>_. True) ss b a' (wp + length s)"
    using b by (simp add: r'_def a'_def Let_def split: if_splits)
  moreover have "size_of b = a'" using buf_write_size [OF b] sz by simp
  moreover have "buf_string b (wp + length s) = buf_string r wp @ s"
    using buf_string_extend [OF b] by (simp add: r'_def)
  ultimately show ?case using Cons.IH [of b a' "wp + length s"] sz(2)
    by (auto simp: add.assoc simp del: concat_loop.simps)
qed simp

lemma concat_loop_error:
  assumes "size_of r = allocated" "wp + 1 \<le> allocated"
  shows "concat_loop grow ss r allocated wp = Some None \<or>
    concat_loop grow ss r allocated wp = concat_loop (\<lambda>_. True) ss r allocated wp"
  using assms
proof (induction ss arbitrary: r allocated wp)
  case (Cons s ss)
  show ?case
  proof (cases "wp + length s + 1 > allocated")
    case True
    let ?a = "(allocated + length s) * 2"
    obtain b where b: "buf_write (crealloc r ?a) wp s = Some b" using Cons.prems by (simp add: buf_write_def)
    have "size_of b = ?a" using buf_write_size [OF b] by simp
    with Cons.IH [of b ?a "wp + length s"] Cons.prems True b show ?thesis by (auto simp: Let_def)
  next
    case False
    then obtain b where b: "buf_write r wp s = Some b" using Cons.prems by (auto simp: buf_write_def)
    have "size_of b = allocated" using buf_write_size [OF b] Cons.prems by simp
    with Cons.IH [of b allocated "wp + length s"] False b show ?thesis by (auto simp: Let_def)
  qed
qed simp

text \<open>
  \<open>bctbx_concat\<close> returns its arguments one after the other in a buffer of exactly that size with its
  terminator, growing it as often as needed and never writing outside it.  When memory runs out it
  returns NULL and nothing else, except that a failure of the last shrinking leaves the larger buffer
  with the same text.
\<close>

theorem concat_appends:
  "(\<exists>b. bctbx_concat (\<lambda>_. True) strs = Some (Some b) \<and> holds b (concat strs)) \<and>
   (bctbx_concat grow strs = Some None \<or>
    (\<exists>b. bctbx_concat grow strs = Some (Some b) \<and> length (concat strs) + 1 \<le> size_of b \<and>
         buf_string b (length (concat strs) + 1) = concat strs @ [NUL]))"
proof -
  have "size_of (cmalloc 100) = 100" "(0::nat) + 1 \<le> 100" by simp_all
  from concat_loop_ok [OF this, of strs] obtain b where b:
      "concat_loop (\<lambda>_. True) strs (cmalloc 100) 100 0 = Some (Some (b, length (concat strs)))"
      "buf_string b (length (concat strs)) = concat strs" "length (concat strs) + 1 \<le> size_of b" by auto
  obtain b1 where b1: "buf_write b (length (concat strs)) [NUL] = Some b1" using b(3) by (simp add: buf_write_def)
  have str: "buf_string b1 (length (concat strs) + 1) = concat strs @ [NUL]" "size_of b1 = size_of b"
    using buf_string_extend [OF b1] buf_write_size [OF b1] b(2) by simp_all
  have full: "bctbx_concat (\<lambda>_. True) strs = Some (Some (crealloc b1 (length (concat strs) + 1)))"
    using b(1) b1 by (simp add: bctbx_concat_def)
  have "concat_loop grow strs (cmalloc 100) 100 0 = Some None \<or>
      concat_loop grow strs (cmalloc 100) 100 0 = Some (Some (b, length (concat strs)))"
    using concat_loop_error [of "cmalloc 100" 100 0 grow strs] b(1) by auto
  then have "bctbx_concat grow strs = Some None \<or>
      (\<exists>c. bctbx_concat grow strs = Some (Some c) \<and> c \<in> {b1, crealloc b1 (length (concat strs) + 1)})"
    using b1 by (cases "grow (length (concat strs) + 1)") (auto simp: bctbx_concat_def)
  with full str b(3) show ?thesis by (auto simp: holds_def)
qed

section \<open>One allocator\<close>

text \<open>Operations on memory, with the functions each of them used.\<close>

datatype 'x mem_op =
    SetFunctions "'x BctoolboxMemoryFunctions"
  | Malloc nat
  | Malloc0 nat
  | Realloc ptr nat
  | Free ptr

datatype 'x mem_use = Allocated "'x BctoolboxMemoryFunctions" | Released "'x BctoolboxMemoryFunctions"

fun mem_step :: "'x allocator_state \<Rightarrow> 'x mem_op \<Rightarrow> ('x allocator_state \<times> 'x mem_use list) option" where
  "mem_step s (SetFunctions f) =
     (case bctbx_set_memory_functions f s of Returned s1 \<Rightarrow> Some (s1, []) | Aborted _ \<Rightarrow> None)"
| "mem_step s (Malloc n) = Some (snd (bctbx_malloc n s), [Allocated (bctbx_allocator s)])"
| "mem_step s (Malloc0 n) = map_option (\<lambda>(_, s1). (s1, [Allocated (bctbx_allocator s)])) (bctbx_malloc0 n s)"
| "mem_step s (Realloc p n) = map_option (\<lambda>(_, s1). (s1, [Allocated (bctbx_allocator s)])) (bctbx_realloc p n s)"
| "mem_step s (Free p) = map_option (\<lambda>s1. (s1, [Released (bctbx_allocator s)])) (bctbx_free p s)"

fun mem_run :: "'x allocator_state \<Rightarrow> 'x mem_op list \<Rightarrow> 'x mem_use list option" where
  "mem_run s [] = Some []"
| "mem_run s (x # xs) = do { (s1, u) \<leftarrow> mem_step s x; us \<leftarrow> mem_run s1 xs; Some (u @ us) }"

fun used_functions :: "'x mem_use \<Rightarrow> 'x BctoolboxMemoryFunctions" where
  "used_functions (Allocated f) = f"
| "used_functions (Released f) = f"

lemma mem_step_used:
  assumes "allocator_used s" "mem_step s x = Some (s1, u)"
  shows "allocator_used s1 \<and> bctbx_allocator s1 = bctbx_allocator s \<and> used_functions ` set u \<subseteq> {bctbx_allocator s}"
  using assms
  by (cases x) (auto simp: bctbx_set_memory_functions_def bctbx_malloc_def bctbx_malloc0_def bctbx_realloc_def
      bctbx_free_def bind_eq_Some_conv Let_def split: prod.splits)

lemma mem_step_first:
  assumes "mem_step s x = Some (s1, u)" "Allocated f \<in> set u"
  shows "allocator_used s1 \<and> bctbx_allocator s1 = f \<and> u = [Allocated f]"
  using assms
  by (cases x) (auto simp: bctbx_set_memory_functions_def bctbx_malloc_def bctbx_malloc0_def bctbx_realloc_def
      bctbx_free_def bind_eq_Some_conv Let_def split: prod.splits outcome.splits)

lemma mem_run_used:
  "allocator_used s \<Longrightarrow> mem_run s xs = Some us \<Longrightarrow> used_functions ` set us \<subseteq> {bctbx_allocator s}"
proof (induction xs arbitrary: s us)
  case (Cons x xs)
  then obtain s1 u us1 where s1: "mem_step s x = Some (s1, u)" "mem_run s1 xs = Some us1" "us = u @ us1"
    by (auto simp: bind_eq_Some_conv)
  note k = mem_step_used [OF Cons.prems(1) s1(1)]
  then have "used_functions ` set us1 \<subseteq> {bctbx_allocator s}" using Cons.IH [of s1 us1] s1(2) by simp
  with k s1(3) show ?case by (simp add: image_Un)
qed simp

text \<open>
  Whatever sequence of allocations, reallocations, releases and changes of the memory functions a
  program makes without being aborted, every block is handled by one allocator: from the first
  allocation on, each call uses the functions that made it.
\<close>

theorem one_allocator:
  assumes "mem_run s xs = Some (us @ Allocated f # vs)"
    and "\<forall>u\<in>set us. \<exists>g. u = Released g"
  shows "\<forall>v\<in>set vs. used_functions v = f"
  using assms
proof (induction xs arbitrary: s us)
  case (Cons x xs)
  then obtain s1 u us1 where s1: "mem_step s x = Some (s1, u)" "mem_run s1 xs = Some us1"
      "us @ Allocated f # vs = u @ us1"
    by (auto simp: bind_eq_Some_conv)
  show ?case
  proof (cases "\<exists>g. Allocated g \<in> set u")
    case True
    then obtain g where g: "Allocated g \<in> set u" by blast
    note first = mem_step_first [OF s1(1) g]
    with s1(3) Cons.prems(2) have "us = []" "g = f" "vs = us1" by (cases us; auto)+
    with first mem_run_used [OF _ s1(2)] show ?thesis by auto
  next
    case False
    then obtain us' where "us = u @ us'" "us1 = us' @ Allocated f # vs"
      using s1(3) by (auto simp: append_eq_append_conv2 Cons_eq_append_conv)
    with Cons.IH [of s1 us'] s1(2) Cons.prems(2) show ?thesis by auto
  qed
qed simp

theorem one_allocator_witness:
  "used_functions (Released libc_functions) = libc_functions \<and>
   used_functions (Allocated (libc_functions :: unit BctoolboxMemoryFunctions)) = libc_functions"
proof -
  let ?s = "\<lparr>allocator_used = False, bctbx_allocator = libc_functions,
      memory = \<lparr>hblocks = Map.empty, next_block = 0, alloc_private = ()\<rparr>\<rparr>"
  have "mem_run ?s [SetFunctions libc_functions, Malloc 4, Free (Some 0), Realloc None 2] =
      Some ([] @ Allocated libc_functions # [Released libc_functions, Allocated libc_functions])"
    by (simp add: bctbx_set_memory_functions_def bctbx_malloc_def bctbx_free_def bctbx_realloc_def
        libc_functions_def bctbx_libc_malloc_def bctbx_libc_free_def bctbx_libc_realloc_def)
  from one_allocator [OF this] show ?thesis by simp
qed

end
