(* ===== verification/DirTree.thy ===== *)
theory DirTree
  imports PortStr
begin

text \<open>
  Directories of src/utils/port.c over a tree of files, directories and symbolic links.  Paths are
  strings, resolved from the root of the tree as POSIX does: empty components and dots are skipped,
  links are followed, at most forty of them, the last component being followed only by \<open>stat\<close>,
  \<open>access\<close> and \<open>opendir\<close>.  The component of two dots has no meaning here: a path that holds one
  leads nowhere.
\<close>

section \<open>The file system\<close>

text \<open>The entries of a directory come in the order of \<open>readdir\<close>.  A link holds its components.\<close>

datatype fnode = Reg | Sub "(string \<times> fnode) list" | Link "string list"

fun node_at :: "fnode \<Rightarrow> string list \<Rightarrow> fnode option" where
  "node_at n [] = Some n"
| "node_at (Sub ch) (c # cs) = (case map_of ch c of None \<Rightarrow> None | Some m \<Rightarrow> node_at m cs)"
| "node_at Reg (c # cs) = None"
| "node_at (Link t) (c # cs) = None"

fun map_entry :: "string \<Rightarrow> (fnode \<Rightarrow> fnode) \<Rightarrow> (string \<times> fnode) list \<Rightarrow> (string \<times> fnode) list" where
  "map_entry c g [] = []"
| "map_entry c g ((x, m) # ch) = (if x = c then (x, g m) # ch else (x, m) # map_entry c g ch)"

fun update_at :: "(fnode \<Rightarrow> fnode) \<Rightarrow> fnode \<Rightarrow> string list \<Rightarrow> fnode" where
  "update_at g n [] = g n"
| "update_at g (Sub ch) (c # cs) = Sub (map_entry c (\<lambda>m. update_at g m cs) ch)"
| "update_at g Reg (c # cs) = Reg"
| "update_at g (Link t) (c # cs) = Link t"

fun drop_entry :: "string \<Rightarrow> fnode \<Rightarrow> fnode" where
  "drop_entry c (Sub ch) = Sub (filter (\<lambda>(x, _). x \<noteq> c) ch)"
| "drop_entry c n = n"

fun add_entry :: "string \<Rightarrow> fnode \<Rightarrow> fnode \<Rightarrow> fnode" where
  "add_entry c m (Sub ch) = Sub (ch @ [(c, m)])"
| "add_entry c m n = n"

fun split_slash :: "string \<Rightarrow> string list" where
  "split_slash [] = [[]]"
| "split_slash (c # s) =
     (if c = SLASH then [] # split_slash s
      else case split_slash s of [] \<Rightarrow> [[c]] | w # ws \<Rightarrow> (c # w) # ws)"

definition components :: "string \<Rightarrow> string list" where
  "components path = filter (\<lambda>c. c \<noteq> [] \<and> c \<noteq> ''.'') (split_slash path)"

text \<open>The place a path leads to: \<open>cur\<close> is resolved, \<open>k\<close> links may still be followed.\<close>

function walk :: "nat \<Rightarrow> fnode \<Rightarrow> string list \<Rightarrow> string list \<Rightarrow> string list option" where
  "walk k root cur [] = Some cur"
| "walk k root cur (c # cs) =
     (case node_at root (cur @ [c]) of
        None \<Rightarrow> None
      | Some (Link t) \<Rightarrow> (case k of 0 \<Rightarrow> None | Suc j \<Rightarrow> walk j root [] (t @ cs))
      | Some Reg \<Rightarrow> walk k root (cur @ [c]) cs
      | Some (Sub ch) \<Rightarrow> walk k root (cur @ [c]) cs)"
  by pat_completeness auto
termination by (relation "measures [\<lambda>(k, _). k, \<lambda>(_, _, _, cs). length cs]") auto

definition sys_stat :: "string \<Rightarrow> fnode \<Rightarrow> fnode option" where
  "sys_stat path root = Option.bind (walk 40 root [] (components path)) (node_at root)"

text \<open>The entry a path names, without following a link in the last place.\<close>

definition entry_of :: "string \<Rightarrow> fnode \<Rightarrow> (string list \<times> string) option" where
  "entry_of path root =
     (case rev (components path) of
        [] \<Rightarrow> None
      | c # cs \<Rightarrow> map_option (\<lambda>d. (d, c)) (walk 40 root [] (rev cs)))"

definition sys_rmdir :: "string \<Rightarrow> fnode \<Rightarrow> int \<times> fnode" where
  "sys_rmdir path root =
     (case entry_of path root of
        None \<Rightarrow> (-1, root)
      | Some (d, c) \<Rightarrow>
          if node_at root (d @ [c]) = Some (Sub []) then (0, update_at (drop_entry c) root d) else (-1, root))"

text \<open>\<open>remove\<close> of the C library: a file or a link is unlinked, a directory removed when empty.\<close>

definition sys_remove :: "string \<Rightarrow> fnode \<Rightarrow> int \<times> fnode" where
  "sys_remove path root =
     (case entry_of path root of
        None \<Rightarrow> (-1, root)
      | Some (d, c) \<Rightarrow>
          (case node_at root (d @ [c]) of
             None \<Rightarrow> (-1, root)
           | Some (Sub ch) \<Rightarrow> sys_rmdir path root
           | Some _ \<Rightarrow> (0, update_at (drop_entry c) root d)))"

definition sys_mkdir :: "string \<Rightarrow> fnode \<Rightarrow> int \<times> fnode" where
  "sys_mkdir path root =
     (case entry_of path root of
        None \<Rightarrow> (-1, root)
      | Some (d, c) \<Rightarrow>
          (case node_at root d of
             Some (Sub ch) \<Rightarrow>
               if map_of ch c = None then (0, update_at (add_entry c (Sub [])) root d) else (-1, root)
           | _ \<Rightarrow> (-1, root)))"

definition sys_readdir :: "string \<Rightarrow> fnode \<Rightarrow> string list option" where
  "sys_readdir path root =
     (case sys_stat path root of Some (Sub ch) \<Rightarrow> Some (''.'' # ''..'' # map fst ch) | _ \<Rightarrow> None)"

section \<open>The functions of port.c\<close>

definition bctbx_file_exist :: "string \<Rightarrow> fnode \<Rightarrow> int" where
  "bctbx_file_exist pathname root = (if sys_stat pathname root = None then -1 else 0)"

definition bctbx_directory_exists :: "string \<Rightarrow> fnode \<Rightarrow> bool" where
  "bctbx_directory_exists pathname root =
     (case sys_stat pathname root of Some (Sub ch) \<Rightarrow> True | _ \<Rightarrow> False)"

text \<open>
  The name filter compares from \<open>d_name + strlen (d_name) - strlen (file_type)\<close> on, which lies before
  the name when it is the shorter one.
\<close>

definition type_matches :: "string option \<Rightarrow> string \<Rightarrow> bool option" where
  "type_matches file_type d_name =
     (case file_type of
        None \<Rightarrow> Some True
      | Some t \<Rightarrow>
          if length d_name < length t then None
          else Some (take (length t) (drop (length d_name - length t) d_name) = t))"

fun parse_loop :: "string \<Rightarrow> string option \<Rightarrow> string list \<Rightarrow> string list \<Rightarrow> string list option" where
  "parse_loop path file_type [] file_list = Some file_list"
| "parse_loop path file_type (d_name # ents) file_list = do {
     ok \<leftarrow> type_matches file_type d_name;
     if ok \<and> \<not> (cat d_name 0 = CHR ''.'' \<and>
                (cat d_name 1 = CHR ''.'' \<and> cat d_name 2 = NUL \<or> cat d_name 1 = NUL))
     then do {
       name_with_path \<leftarrow> bctbx_strdup_printf ''%s/%s'' [AStr path, AStr d_name];
       parse_loop path file_type ents (file_list @ [name_with_path]) }
     else parse_loop path file_type ents file_list }"

definition bctbx_parse_directory :: "string \<Rightarrow> string option \<Rightarrow> fnode \<Rightarrow> string list option" where
  "bctbx_parse_directory path file_type root =
     (case sys_readdir path root of
        None \<Rightarrow> Some []
      | Some ents \<Rightarrow> parse_loop path file_type ents [])"

definition bctbx_mkdir :: "string \<Rightarrow> fnode \<Rightarrow> int \<times> fnode" where
  "bctbx_mkdir path root = sys_mkdir path root"

definition bctbx_rmemptydir :: "string \<Rightarrow> fnode \<Rightarrow> int \<times> fnode" where
  "bctbx_rmemptydir path root = sys_rmdir path root"

text \<open>
  \<open>bctbx_removeFileFromList\<close> on each path of a list.  Its call of \<open>bctbx_rmdir (path, TRUE)\<close> is
  unfolded: the directory exists, its files are listed and removed, then the directory itself.
\<close>

partial_function (option) remove_files :: "string list \<Rightarrow> fnode \<Rightarrow> fnode option" where
  "remove_files paths root =
     (case paths of
        [] \<Rightarrow> Some root
      | path # rest \<Rightarrow>
          if bctbx_directory_exists path root
          then do {
            files \<leftarrow> bctbx_parse_directory path None root;
            root1 \<leftarrow> remove_files files root;
            remove_files rest (snd (bctbx_rmemptydir path root1)) }
          else remove_files rest (snd (sys_remove path root)))"

definition bctbx_removeFileFromList :: "string \<Rightarrow> fnode \<Rightarrow> fnode option" where
  "bctbx_removeFileFromList path root = remove_files [path] root"

definition bctbx_rmdir :: "string \<Rightarrow> bool \<Rightarrow> fnode \<Rightarrow> (int \<times> fnode) option" where
  "bctbx_rmdir path recursive root =
     (if \<not> recursive then Some (bctbx_rmemptydir path root)
      else if \<not> bctbx_directory_exists path root then Some (-1, root)
      else do {
        fileList \<leftarrow> bctbx_parse_directory path None root;
        root1 \<leftarrow> remove_files fileList root;
        Some (bctbx_rmemptydir path root1) })"

section \<open>Paths\<close>

definition good_name :: "string \<Rightarrow> bool" where
  "good_name n \<longleftrightarrow> n \<noteq> [] \<and> n \<noteq> ''.'' \<and> n \<noteq> ''..'' \<and> SLASH \<notin> set n \<and> nul_free n"

lemma split_slash_nonempty [simp]: "split_slash s \<noteq> []"
  by (induction s) (auto split: list.splits)

lemma split_slash_append: "split_slash (s @ SLASH # t) = split_slash s @ split_slash t"
  by (induction s) (auto split: list.splits)

lemma split_slash_name: "SLASH \<notin> set n \<Longrightarrow> split_slash n = [n]"
  by (induction n) auto

lemma components_child: "good_name n \<Longrightarrow> components (p @ SLASH # n) = components p @ [n]"
  by (simp add: components_def split_slash_append split_slash_name good_name_def)

text \<open>A path without links from the root on, and trees below which everything is as it should be.\<close>

fun plain :: "fnode \<Rightarrow> string list \<Rightarrow> bool" where
  "plain (Link t) cs = False"
| "plain n [] = True"
| "plain Reg (c # cs) = False"
| "plain (Sub ch) (c # cs) = (case map_of ch c of None \<Rightarrow> False | Some m \<Rightarrow> plain m cs)"

text \<open>\<open>l\<close> is the length of the path of the tree; the paths below must be printable.\<close>

fun link_free :: "nat \<Rightarrow> fnode \<Rightarrow> bool" where
  "link_free l Reg = True"
| "link_free l (Link t) = False"
| "link_free l (Sub ch) =
     (distinct (map fst ch) \<and>
      (\<forall>(n, m)\<in>set ch. good_name n \<and> int (l + 1 + length n) < 2 ^ 31 - 1 \<and> link_free (l + 1 + length n) m))"

lemma plain_prefix: "plain n (a @ b) \<Longrightarrow> plain n a"
  by (induction n a rule: plain.induct) (auto split: option.splits)

lemma plain_node: "plain n cs \<Longrightarrow> \<exists>m. node_at n cs = Some m \<and> (\<forall>t. m \<noteq> Link t)"
  by (induction n cs rule: plain.induct) (auto split: option.splits)

lemma plain_node_append: "plain n cs \<Longrightarrow> node_at n (cs @ ds) = Option.bind (node_at n cs) (\<lambda>m. node_at m ds)"
  by (induction n cs rule: plain.induct) (auto split: option.splits)

lemma plain_append: "plain n (cs @ ds) \<longleftrightarrow> plain n cs \<and> (\<exists>m. node_at n cs = Some m \<and> plain m ds)"
  by (induction n cs rule: plain.induct) (auto split: option.splits)

lemma walk_plain: "plain root (cur @ cs) \<Longrightarrow> walk k root cur cs = Some (cur @ cs)"
proof (induction cs arbitrary: cur)
  case (Cons c cs)
  then have "plain root ((cur @ [c]) @ cs)" by simp
  moreover from plain_node [OF plain_prefix [OF this]] obtain m where
    "node_at root (cur @ [c]) = Some m" "\<forall>t. m \<noteq> Link t" by blast
  ultimately show ?case using Cons.IH [of "cur @ [c]"] by (cases m) simp_all
qed simp

lemma stat_plain: "components path = cs \<Longrightarrow> plain root cs \<Longrightarrow> sys_stat path root = node_at root cs"
  using walk_plain [of root "[]" cs] by (simp add: sys_stat_def)

lemma entry_plain: "components path = cs @ [c] \<Longrightarrow> plain root cs \<Longrightarrow> entry_of path root = Some (cs, c)"
  using walk_plain [of root "[]" cs] by (simp add: entry_of_def)

section \<open>Replacing a subtree\<close>

definition put :: "fnode \<Rightarrow> string list \<Rightarrow> fnode \<Rightarrow> fnode" where
  "put root cs x = update_at (\<lambda>_. x) root cs"

lemma map_of_map_entry [simp]:
  "map_of (map_entry c g ch) x = (if x = c then map_option g (map_of ch c) else map_of ch x)"
  by (induction c g ch rule: map_entry.induct) auto

lemma map_entry_twice [simp]: "map_entry c g (map_entry c h ch) = map_entry c (\<lambda>m. g (h m)) ch"
  by (induction c h ch rule: map_entry.induct) auto

lemma map_entry_cong: "(\<And>m. map_of ch c = Some m \<Longrightarrow> g m = h m) \<Longrightarrow> map_entry c g ch = map_entry c h ch"
  by (induction c g ch rule: map_entry.induct) auto

lemma node_at_put: "plain root cs \<Longrightarrow> node_at (put root cs x) (cs @ ds) = node_at x ds"
  unfolding put_def by (induction root cs rule: plain.induct) (auto split: option.splits)

lemma plain_put: "plain root cs \<Longrightarrow> plain (put root cs x) (cs @ ds) = plain x ds"
  unfolding put_def by (induction root cs rule: plain.induct) (auto split: option.splits)

lemma update_put: "plain root cs \<Longrightarrow> update_at g (put root cs x) (cs @ ds) = put root cs (update_at g x ds)"
  unfolding put_def
  by (induction root cs rule: plain.induct) (auto split: option.splits intro!: map_entry_cong)

lemma update_at_put: "plain root cs \<Longrightarrow> node_at root cs = Some x \<Longrightarrow> update_at g root cs = put root cs (g x)"
  unfolding put_def
  by (induction root cs rule: plain.induct) (auto split: option.splits intro!: map_entry_cong)

lemma put_same: "plain root cs \<Longrightarrow> node_at root cs = Some x \<Longrightarrow> put root cs x = root"
proof -
  have id: "(\<And>m. map_of ch c = Some m \<Longrightarrow> g m = m) \<Longrightarrow> map_entry c g ch = ch" for c g ch
    by (induction c g ch rule: map_entry.induct) auto
  show "plain root cs \<Longrightarrow> node_at root cs = Some x \<Longrightarrow> put root cs x = root"
    unfolding put_def by (induction root cs rule: plain.induct) (auto split: option.splits intro!: id)
qed

lemma put_put: "plain root cs \<Longrightarrow> put (put root cs x) (cs @ ds) y = put root cs (put x ds y)"
  by (simp add: put_def [of _ "cs @ ds"] update_put) (simp add: put_def)

section \<open>Listing a directory\<close>

lemma good_name_kept:
  assumes "good_name n"
  shows "\<not> (cat n 0 = CHR ''.'' \<and> (cat n 1 = CHR ''.'' \<and> cat n 2 = NUL \<or> cat n 1 = NUL))"
proof -
  have nn: "i < length n \<Longrightarrow> n ! i \<noteq> NUL" for i
    using assms by (auto simp: good_name_def nul_free_def in_set_conv_nth)
  show ?thesis
  proof (cases n)
    case (Cons a n1)
    note n = this
    show ?thesis
    proof (cases n1)
      case (Cons b n2)
      then show ?thesis using assms n nn [of 1] nn [of 2]
        by (cases n2) (auto simp: cat_def good_name_def)
    qed (use assms n in \<open>auto simp: cat_def good_name_def\<close>)
  qed (use assms in \<open>simp add: good_name_def\<close>)
qed

lemma parse_loop_names:
  "(\<forall>n\<in>set ns. good_name n \<and> int (length p + 1 + length n) < 2 ^ 31 - 1) \<Longrightarrow>
   parse_loop p None ns acc = Some (acc @ map (\<lambda>n. p @ SLASH # n) ns)"
proof (induction ns arbitrary: acc)
  case (Cons n ns)
  then have "bctbx_strdup_printf ''%s/%s'' [AStr p, AStr n] = Some (p @ SLASH # n)"
    by (simp add: bctbx_strdup_printf_def strdup_vprintf_c99 SLASH_def)
  with Cons good_name_kept [of n] show ?case by (simp add: type_matches_def)
qed simp

lemma parse_plain:
  assumes "components p = cs" "plain root cs" "node_at root cs = Some (Sub ch)" "link_free (length p) (Sub ch)"
  shows "bctbx_parse_directory p None root = Some (map (\<lambda>n. p @ SLASH # n) (map fst ch))"
proof -
  have "\<forall>n\<in>set (map fst ch). good_name n \<and> int (length p + 1 + length n) < 2 ^ 31 - 1"
    using assms(4) by auto
  from parse_loop_names [OF this] show ?thesis
    using stat_plain [OF assms(1,2)] assms(3)
    by (simp add: bctbx_parse_directory_def sys_readdir_def type_matches_def cat_def)
qed

lemma directory_exists_plain:
  "components p = cs \<Longrightarrow> plain root cs \<Longrightarrow> bctbx_directory_exists p root \<longleftrightarrow> (\<exists>ch. node_at root cs = Some (Sub ch))"
  by (auto simp: bctbx_directory_exists_def stat_plain split: fnode.split option.split) (metis fnode.exhaust)

section \<open>Removing everything below a directory\<close>

lemma remove_children:
  assumes "\<forall>(n, m)\<in>set ch. \<forall>sub root cs. m = Sub sub \<longrightarrow> components (p @ SLASH # n) = cs \<longrightarrow> plain root cs \<longrightarrow>
      node_at root cs = Some m \<longrightarrow>
      Option.bind (bctbx_parse_directory (p @ SLASH # n) None root) (\<lambda>fs. remove_files fs root) = Some (put root cs (Sub []))"
    and "components p = cs" "plain root cs" "link_free (length p) (Sub ch)"
  shows "remove_files (map (\<lambda>n. p @ SLASH # n) (map fst ch)) (put root cs (Sub ch)) = Some (put root cs (Sub []))"
  using assms
proof (induction ch)
  case Nil
  then show ?case by (subst remove_files.simps) simp
next
  case (Cons e ch)
  obtain n m where e: "e = (n, m)" by (cases e)
  let ?r = "put root cs (Sub ((n, m) # ch))"
  have g: "good_name n" "link_free (length p + 1 + length n) m" "n \<notin> fst ` set ch"
    using Cons.prems(4) e by auto
  have c: "components (p @ SLASH # n) = cs @ [n]" using components_child [OF g(1)] Cons.prems(2) by simp
  have nolink: "\<forall>t. m \<noteq> Link t" using g(2) by auto
  then have pm: "plain m []" by (cases m) simp_all
  have pl: "plain ?r (cs @ [n])" "plain ?r cs" "node_at ?r (cs @ [n]) = Some m"
    using Cons.prems(3) pm plain_put [of root cs "Sub ((n, m) # ch)" "[]"]
    by (auto simp: plain_put node_at_put)
  have rest: "remove_files (map (\<lambda>n. p @ SLASH # n) (map fst ch)) (put root cs (Sub ch)) = Some (put root cs (Sub []))"
    by (rule Cons.IH) (use Cons.prems in auto)
  have dropped: "filter (\<lambda>(x, _). x \<noteq> n) ch = ch" using g(3) by (auto intro!: filter_True) force
  have gone: "update_at (drop_entry n) (put root cs (Sub ((n, x) # ch))) cs = put root cs (Sub ch)" for x
    using update_put [OF Cons.prems(3), of "drop_entry n" "Sub ((n, x) # ch)" "[]"] dropped by simp
  show ?case
  proof (cases "\<exists>sub. m = Sub sub")
    case False
    with nolink have m: "m = Reg" by (cases m) auto
    have "snd (sys_remove (p @ SLASH # n) ?r) = put root cs (Sub ch)"
      using entry_plain [OF c pl(2)] pl(3) m gone by (simp add: sys_remove_def)
    then show ?thesis using rest directory_exists_plain [OF c pl(1)] pl(3) m
      by (subst remove_files.simps) (simp add: e)
  next
    case True
    then obtain sub where m: "m = Sub sub" by blast
    have "\<forall>(n, m)\<in>set (e # ch). \<forall>sub root cs. m = Sub sub \<longrightarrow> components (p @ SLASH # n) = cs \<longrightarrow> plain root cs \<longrightarrow>
      node_at root cs = Some m \<longrightarrow>
      Option.bind (bctbx_parse_directory (p @ SLASH # n) None root) (\<lambda>fs. remove_files fs root) = Some (put root cs (Sub []))"
      using Cons.prems(1) .
    then have inner: "Option.bind (bctbx_parse_directory (p @ SLASH # n) None ?r) (\<lambda>fs. remove_files fs ?r) =
        Some (put ?r (cs @ [n]) (Sub []))"
      using c pl(1,3) m e by auto
    have r1: "put ?r (cs @ [n]) (Sub []) = put root cs (Sub ((n, Sub []) # ch))"
      using put_put [OF Cons.prems(3), of "Sub ((n, m) # ch)" "[n]" "Sub []"] by (simp add: put_def [of _ "[n]"])
    have pl1: "plain (put root cs (Sub ((n, Sub []) # ch))) cs"
      using plain_put [OF Cons.prems(3), of _ "[]"] by simp
    have "snd (bctbx_rmemptydir (p @ SLASH # n) (put root cs (Sub ((n, Sub []) # ch)))) = put root cs (Sub ch)"
      using entry_plain [OF c pl1] node_at_put [OF Cons.prems(3), of _ "[n]"] gone
      by (simp add: bctbx_rmemptydir_def sys_rmdir_def)
    then show ?thesis using rest inner r1 directory_exists_plain [OF c pl(1)] pl(3) m
      by (subst remove_files.simps) (auto simp: e bind_eq_Some_conv)
  qed
qed

lemma remove_below:
  "components p = cs \<Longrightarrow> plain root cs \<Longrightarrow> node_at root cs = Some m \<Longrightarrow> m = Sub ch \<Longrightarrow> link_free (length p) m \<Longrightarrow>
   Option.bind (bctbx_parse_directory p None root) (\<lambda>fs. remove_files fs root) = Some (put root cs (Sub []))"
proof (induction m arbitrary: p cs root ch)
  case (Sub ch')
  then have ch: "ch' = ch" by simp
  have "remove_files (map (\<lambda>n. p @ SLASH # n) (map fst ch)) (put root cs (Sub ch)) = Some (put root cs (Sub []))"
  proof (rule remove_children)
    show "\<forall>(n, m)\<in>set ch. \<forall>sub root cs. m = Sub sub \<longrightarrow> components (p @ SLASH # n) = cs \<longrightarrow> plain root cs \<longrightarrow>
      node_at root cs = Some m \<longrightarrow>
      Option.bind (bctbx_parse_directory (p @ SLASH # n) None root) (\<lambda>fs. remove_files fs root) = Some (put root cs (Sub []))"
    proof (clarify)
      fix n m sub r cs'
      assume nm: "(n, Sub sub) \<in> set ch" and r: "plain r (components (p @ SLASH # n))"
        "node_at r (components (p @ SLASH # n)) = Some (Sub sub)"
      have "link_free (length (p @ SLASH # n)) (Sub sub)" using Sub.prems(5) nm ch by fastforce
      then show "Option.bind (bctbx_parse_directory (p @ SLASH # n) None r) (\<lambda>fs. remove_files fs r) =
          Some (put r (components (p @ SLASH # n)) (Sub []))"
        using Sub.IH [of "(n, Sub sub)" "Sub sub" "p @ SLASH # n" _ r sub] nm r ch by simp
    qed
  qed (use Sub.prems ch in auto)
  moreover have "put root cs (Sub ch) = root" using put_same Sub.prems ch by blast
  ultimately show ?case using parse_plain [of p cs root ch] Sub.prems ch by simp
qed simp_all

section \<open>Properties\<close>

text \<open>
  C22: On a directory reached without links whose content holds no link, \<open>bctbx_rmdir\<close> with the
  recursive flag returns, answers 0, and the tree is afterwards as if that directory had never been
  an entry of its parent: everything below it is gone and nothing else is touched.  Without the flag
  a directory that is not empty stays and -1 is answered.
\<close>

theorem rmdir_recursive_removes:
  assumes "components p = d @ [c]" "plain root (d @ [c])" "node_at root (d @ [c]) = Some (Sub ch)"
    and "link_free (length p) (Sub ch)"
  shows "bctbx_rmdir p True root = Some (0, update_at (drop_entry c) root d) \<and>
    (ch \<noteq> [] \<longrightarrow> bctbx_rmdir p False root = Some (-1, root))"
proof (intro conjI impI)
  have pd: "plain root d" using assms(2) by (rule plain_prefix)
  have below: "Option.bind (bctbx_parse_directory p None root) (\<lambda>fs. remove_files fs root) = Some (put root (d @ [c]) (Sub []))"
    using remove_below [OF assms(1-3) refl assms(4)] .
  obtain pn where pn: "node_at root d = Some pn" "node_at pn [c] = Some (Sub ch)"
    using plain_node_append [OF pd, of "[c]"] assms(3) by (cases "node_at root d") auto
  then obtain par where par: "node_at root d = Some (Sub par)"
    by (cases pn) auto
  have gone: "update_at (drop_entry c) (put root (d @ [c]) (Sub [])) d = update_at (drop_entry c) root d"
  proof -
    have "filter (\<lambda>(x, _). x \<noteq> c) (map_entry c g xs) = filter (\<lambda>(x, _). x \<noteq> c) xs" for g xs
      by (induction c g xs rule: map_entry.induct) auto
    moreover have "put root (d @ [c]) (Sub []) = put root d (put (Sub par) [c] (Sub []))"
      using put_put [OF pd, of "Sub par" "[c]" "Sub []"] put_same [OF pd par(1)] by simp
    ultimately show ?thesis
      using update_put [OF pd, of "drop_entry c" _ "[]"] update_at_put [OF pd par(1)]
      by (simp add: put_def [of "Sub par"])
  qed
  have "plain (put root (d @ [c]) (Sub [])) (d @ [c])" using plain_put [OF assms(2), of _ "[]"] by simp
  then have "entry_of p (put root (d @ [c]) (Sub [])) = Some (d, c)"
    by (rule entry_plain [OF assms(1) plain_prefix])
  then have "bctbx_rmemptydir p (put root (d @ [c]) (Sub [])) = (0, update_at (drop_entry c) root d)"
    using node_at_put [OF assms(2), of _ "[]"] gone by (simp add: bctbx_rmemptydir_def sys_rmdir_def)
  moreover have "bctbx_directory_exists p root" using directory_exists_plain [OF assms(1,2)] assms(3) by blast
  ultimately show "bctbx_rmdir p True root = Some (0, update_at (drop_entry c) root d)"
    using below by (auto simp: bctbx_rmdir_def bind_eq_Some_conv)
  show "bctbx_rmdir p False root = Some (-1, root)" if "ch \<noteq> []"
    using entry_plain [OF assms(1) pd] assms(3) that by (simp add: bctbx_rmdir_def bctbx_rmemptydir_def sys_rmdir_def)
qed

definition demo_tree :: fnode where
  "demo_tree = Sub [(''t'', Sub [(''a'', Reg), (''s'', Sub [(''b'', Reg)])]), (''u'', Sub [(''k'', Reg)]),
                    (''v'', Sub [(''l'', Link [''u''])])]"

theorem rmdir_recursive_removes_witness:
  "bctbx_rmdir ''/t'' True demo_tree =
     Some (0, Sub [(''u'', Sub [(''k'', Reg)]), (''v'', Sub [(''l'', Link [''u''])])])"
proof -
  have "components ''/t'' = [] @ [''t'']" by (simp add: components_def SLASH_def)
  moreover have "plain demo_tree ([] @ [''t''])" "node_at demo_tree ([] @ [''t'']) = Some (Sub [(''a'', Reg), (''s'', Sub [(''b'', Reg)])])"
    by (simp_all add: demo_tree_def)
  moreover have "link_free (length ''/t'') (Sub [(''a'', Reg), (''s'', Sub [(''b'', Reg)])])"
    by (simp add: good_name_def SLASH_def NUL_def)
  ultimately have "bctbx_rmdir ''/t'' True demo_tree = Some (0, update_at (drop_entry ''t'') demo_tree [])"
    using rmdir_recursive_removes by blast
  then show ?thesis by (simp add: demo_tree_def)
qed

text \<open>
  A link to a directory is entered: removing the directory that holds the link empties the directory
  the link leads to, outside of what was to be deleted, and then fails, since the link itself cannot
  be removed as a directory.
\<close>

theorem rmdir_follows_links:
  "bctbx_rmdir ''/v'' True demo_tree =
     Some (-1, Sub [(''t'', Sub [(''a'', Reg), (''s'', Sub [(''b'', Reg)])]), (''u'', Sub []),
                    (''v'', Sub [(''l'', Link [''u''])])])"
proof -
  let ?t = "(''t'', Sub [(''a'', Reg), (''s'', Sub [(''b'', Reg)])])"
  let ?v = "(''v'', Sub [(''l'', Link [''u''])])"
  let ?e = "Sub [?t, (''u'', Sub []), ?v]"
  have c: "components ''/v'' = [''v'']" "components ''/v/l'' = [''v'', ''l'']" "components ''/v/l/k'' = [''v'', ''l'', ''k'']"
    by (simp_all add: components_def SLASH_def)
  have w: "walk (Suc j) demo_tree [] [''v''] = Some [''v'']"
    "walk (Suc j) demo_tree [] [''v'', ''l''] = Some [''u'']"
    "walk (Suc j) demo_tree [] [''v'', ''l'', ''k''] = Some [''u'', ''k'']" for j
    by (simp_all add: demo_tree_def)
  have forty: "(40::nat) = Suc 39" by simp
  have name: "bctbx_strdup_printf ''%s/%s'' [AStr ''/v'', AStr ''l''] = Some ''/v/l''"
    "bctbx_strdup_printf ''%s/%s'' [AStr ''/v/l'', AStr ''k''] = Some ''/v/l/k''"
    by (simp_all add: bctbx_strdup_printf_def strdup_vprintf_c99)
  have stat: "sys_stat ''/v'' demo_tree = Some (Sub [(''l'', Link [''u''])])"
    "sys_stat ''/v/l'' demo_tree = Some (Sub [(''k'', Reg)])"
    "sys_stat ''/v/l/k'' demo_tree = Some Reg"
    unfolding sys_stat_def c forty w by (simp_all add: demo_tree_def)
  have parse: "bctbx_parse_directory ''/v'' None demo_tree = Some [''/v/l'']"
    "bctbx_parse_directory ''/v/l'' None demo_tree = Some [''/v/l/k'']"
    by (simp_all add: bctbx_parse_directory_def sys_readdir_def stat type_matches_def cat_def NUL_def name)
  have dirs: "bctbx_directory_exists ''/v'' demo_tree" "bctbx_directory_exists ''/v/l'' demo_tree"
    "\<not> bctbx_directory_exists ''/v/l/k'' demo_tree"
    by (simp_all add: bctbx_directory_exists_def stat)
  have ent: "entry_of ''/v/l/k'' demo_tree = Some ([''u''], ''k'')" "entry_of ''/v/l'' ?e = Some ([''v''], ''l'')"
    "entry_of ''/v'' ?e = Some ([], ''v'')"
    using w(2) [of 39] by (simp_all add: entry_of_def c)
  have rm: "snd (sys_remove ''/v/l/k'' demo_tree) = ?e"
    by (simp add: sys_remove_def ent) (simp add: demo_tree_def)
  have fail: "bctbx_rmemptydir ''/v/l'' ?e = (-1, ?e)" "bctbx_rmemptydir ''/v'' ?e = (-1, ?e)"
    by (simp_all add: bctbx_rmemptydir_def sys_rmdir_def ent)
  have nil: "remove_files [] r = Some r" for r by (subst remove_files.simps) simp
  have "remove_files [''/v/l/k''] demo_tree = Some (Sub [?t, (''u'', Sub []), ?v])"
    by (subst remove_files.simps) (simp add: dirs rm nil)
  then have "remove_files [''/v/l''] demo_tree = Some (Sub [?t, (''u'', Sub []), ?v])"
    by (subst remove_files.simps) (simp add: dirs parse fail nil)
  then show ?thesis by (simp add: bctbx_rmdir_def dirs parse fail)
qed

text \<open>
  Without a type, \<open>bctbx_parse_directory\<close> lists every entry but the two dots, each with the path in
  front.  With a type of one character it lists exactly the names ending with it.  A longer type is
  compared from before the name: since every directory holds the entry of one dot, such a call
  always reads outside the name.
\<close>

theorem parse_directory_lists:
  assumes "components p = cs" "plain root cs" "node_at root cs = Some (Sub ch)" "link_free (length p) (Sub ch)"
  shows "bctbx_parse_directory p None root = Some (map (\<lambda>n. p @ SLASH # n) (map fst ch)) \<and>
    (x \<noteq> CHR ''.'' \<longrightarrow> bctbx_parse_directory p (Some [x]) root =
       Some (map (\<lambda>n. p @ SLASH # n) (filter (\<lambda>n. last n = x) (map fst ch)))) \<and>
    (2 \<le> length t \<longrightarrow> bctbx_parse_directory p (Some t) root = None)"
proof (intro conjI impI)
  show "bctbx_parse_directory p None root = Some (map (\<lambda>n. p @ SLASH # n) (map fst ch))"
    by (rule parse_plain [OF assms])
  have ents: "sys_readdir p root = Some (''.'' # ''..'' # map fst ch)"
    using stat_plain [OF assms(1,2)] assms(3) by (simp add: sys_readdir_def)
  have names: "\<forall>n\<in>set (map fst ch). good_name n \<and> int (length p + 1 + length n) < 2 ^ 31 - 1"
    using assms(4) by auto
  have one: "type_matches (Some [x]) n = Some (last n = x)" if "n \<noteq> []" for n
    using that by (cases n rule: rev_cases) (auto simp: type_matches_def)
  have loop: "parse_loop p (Some [x]) ns acc = Some (acc @ map (\<lambda>n. p @ SLASH # n) (filter (\<lambda>n. last n = x) ns))"
    if "\<forall>n\<in>set ns. good_name n \<and> int (length p + 1 + length n) < 2 ^ 31 - 1" for ns acc
    using that
  proof (induction ns arbitrary: acc)
    case (Cons n ns)
    then have "bctbx_strdup_printf ''%s/%s'' [AStr p, AStr n] = Some (p @ SLASH # n)"
      by (simp add: bctbx_strdup_printf_def strdup_vprintf_c99 SLASH_def)
    moreover have "n \<noteq> []" using Cons.prems by (simp add: good_name_def)
    ultimately show ?case using Cons good_name_kept [of n] by (simp add: one)
  qed simp
  show "bctbx_parse_directory p (Some [x]) root =
       Some (map (\<lambda>n. p @ SLASH # n) (filter (\<lambda>n. last n = x) (map fst ch)))" if "x \<noteq> CHR ''.''"
    using ents loop [OF names, of "[]"] that by (simp add: bctbx_parse_directory_def one)
  show "bctbx_parse_directory p (Some t) root = None" if "2 \<le> length t"
    using ents that by (simp add: bctbx_parse_directory_def type_matches_def)
qed

theorem parse_directory_lists_witness:
  "bctbx_parse_directory ''/t'' None demo_tree = Some [''/t/a'', ''/t/s''] \<and>
   bctbx_parse_directory ''/t'' (Some ''s'') demo_tree = Some [''/t/s''] \<and>
   bctbx_parse_directory ''/t'' (Some ''.c'') demo_tree = None"
proof -
  have "components ''/t'' = [''t'']" by (simp add: components_def SLASH_def)
  moreover have "plain demo_tree [''t'']" "node_at demo_tree [''t''] = Some (Sub [(''a'', Reg), (''s'', Sub [(''b'', Reg)])])"
    by (simp_all add: demo_tree_def)
  moreover have "link_free (length ''/t'') (Sub [(''a'', Reg), (''s'', Sub [(''b'', Reg)])])"
    by (simp add: good_name_def SLASH_def NUL_def)
  ultimately show ?thesis
    using parse_directory_lists [of "''/t''" "[''t'']" demo_tree _ "CHR ''s''" "''.c''"] by (fastforce simp: SLASH_def)
qed

end
