(* ===== verification/AddrInfo.thy ===== *)
theory AddrInfo
  imports CList PortStr
begin

text \<open>
  Internet addresses of src/utils/port.c on Linux: socket addresses as bytes in memory, chains of
  \<open>struct addrinfo\<close> on the heap, their sorting and release, and the calls around \<open>getaddrinfo\<close> and
  \<open>getnameinfo\<close>.  These two functions of the C library are parameters; \<open>freeaddrinfo\<close> is modelled,
  it releases a chain element by element.  Log calls are left out.
\<close>

unbundle bit_operations_syntax

section \<open>Socket addresses\<close>

text \<open>
  The family takes two bytes, low byte in front; the port and the IPv4 address follow, or the port,
  the flow, the 16 bytes of the IPv6 address and the scope.
\<close>

definition AF_UNSPEC :: int where "AF_UNSPEC = 0"
definition AF_INET :: int where "AF_INET = 2"
definition AF_INET6 :: int where "AF_INET6 = 10"
definition sizeof_sockaddr_in :: nat where "sizeof_sockaddr_in = 16"
definition sizeof_sockaddr_in6 :: nat where "sizeof_sockaddr_in6 = 28"
definition sizeof_sockaddr_storage :: nat where "sizeof_sockaddr_storage = 128"

definition bytes_at :: "byte list \<Rightarrow> nat \<Rightarrow> nat \<Rightarrow> byte list option" where
  "bytes_at b off n = (if off + n \<le> length b then Some (take n (drop off b)) else None)"

definition put_at :: "byte list \<Rightarrow> nat \<Rightarrow> byte list \<Rightarrow> byte list option" where
  "put_at b off cs =
     (if off + length cs \<le> length b then Some (take off b @ cs @ drop (off + length cs) b) else None)"

definition family_of :: "byte list \<Rightarrow> int" where
  "family_of f = int (unat (f ! 0)) + 256 * int (unat (f ! 1))"

definition family_bytes :: "int \<Rightarrow> byte list" where
  "family_bytes f = [word_of_int f, word_of_int (f div 256)]"

definition sa_family :: "byte list \<Rightarrow> int option" where
  "sa_family b = map_option family_of (bytes_at b 0 2)"

definition sin_port :: "byte list \<Rightarrow> byte list option" where
  "sin_port b = bytes_at b 2 2"

definition sin_addr :: "byte list \<Rightarrow> byte list option" where
  "sin_addr b = bytes_at b 4 4"

definition sin6_addr :: "byte list \<Rightarrow> byte list option" where
  "sin6_addr b = bytes_at b 8 16"

definition IN6_IS_ADDR_V4MAPPED :: "byte list \<Rightarrow> bool" where
  "IN6_IS_ADDR_V4MAPPED a \<longleftrightarrow> take 12 a = replicate 10 0 @ [0xff, 0xff]"

section \<open>Chains of addrinfo\<close>

text \<open>
  The canonical name serves as the mark of the structures bctoolbox allocated.  \<open>ai_owner\<close> is not a
  field of the C structure: it records which allocator gave the block, so that a block released to
  the other one is undefined.  The address stands inside the block.
\<close>

datatype canonname = NoName | Name string | Allocated_by_bctbx_magic
datatype owner = By_bctbx | By_libc

record addrinfo =
  ai_flags :: "32 word"
  ai_family :: int
  ai_socktype :: int
  ai_protocol :: int
  ai_addrlen :: nat
  ai_addr :: "byte list"
  ai_canonname :: canonname
  ai_next :: ptr
  ai_owner :: owner

definition AI_NUMERICHOST :: "32 word" where "AI_NUMERICHOST = 0x4"
definition AI_V4MAPPED :: "32 word" where "AI_V4MAPPED = 0x8"
definition AI_ALL :: "32 word" where "AI_ALL = 0x10"
definition AI_NUMERICSERV :: "32 word" where "AI_NUMERICSERV = 0x400"

text \<open>The memory: buffers that hold socket addresses, and the blocks of \<open>addrinfo\<close>.\<close>

record net =
  bufs :: "nat \<Rightarrow> byte list option"
  ais :: "nat \<Rightarrow> addrinfo option"
  ai_brk :: nat

definition ai_at :: "net \<Rightarrow> ptr \<Rightarrow> addrinfo option" where
  "ai_at s p = Option.bind p (ais s)"

definition ai_write :: "net \<Rightarrow> ptr \<Rightarrow> (addrinfo \<Rightarrow> addrinfo) \<Rightarrow> net option" where
  "ai_write s p g = do {
     a \<leftarrow> p;
     x \<leftarrow> ais s a;
     Some (s\<lparr>ais := (ais s)(a \<mapsto> g x)\<rparr>) }"

definition set_ai_next :: "net \<Rightarrow> ptr \<Rightarrow> ptr \<Rightarrow> net option" where
  "set_ai_next s p q = ai_write s p (\<lambda>x. x\<lparr>ai_next := q\<rparr>)"

definition ai_release :: "owner \<Rightarrow> net \<Rightarrow> ptr \<Rightarrow> net option" where
  "ai_release own s p = do {
     a \<leftarrow> p;
     x \<leftarrow> ais s a;
     if ai_owner x = own then Some (s\<lparr>ais := (ais s)(a := None)\<rparr>) else None }"

text \<open>The length is that of an IPv6 address whatever the family: the source tests \<open>AF_INET6\<close>.\<close>

definition bctbx_alloc_addrinfo :: "int \<Rightarrow> int \<Rightarrow> int \<Rightarrow> net \<Rightarrow> ptr \<times> net" where
  "bctbx_alloc_addrinfo family socktype proto s =
     (Some (ai_brk s),
      s\<lparr>ais := (ais s)(ai_brk s \<mapsto>
          \<lparr>ai_flags = 0, ai_family = family, ai_socktype = socktype, ai_protocol = proto,
           ai_addrlen = (if AF_INET6 \<noteq> 0 then sizeof_sockaddr_in6 else sizeof_sockaddr_in),
           ai_addr = replicate sizeof_sockaddr_storage 0, ai_canonname = Allocated_by_bctbx_magic,
           ai_next = None, ai_owner = By_bctbx\<rparr>),
        ai_brk := Suc (ai_brk s)\<rparr>)"

text \<open>\<open>_bctbx_freeaddrinfo\<close>, and \<open>freeaddrinfo\<close> of the C library.\<close>

partial_function (option) free_chain :: "owner \<Rightarrow> ptr \<Rightarrow> net \<Rightarrow> net option" where
  "free_chain own it s =
     (if it = None then Some s
      else do {
        x \<leftarrow> ai_at s it;
        s1 \<leftarrow> ai_release own s it;
        free_chain own (ai_next x) s1 })"

definition bctbx_freeaddrinfo_own :: "ptr \<Rightarrow> net \<Rightarrow> net option" where
  "bctbx_freeaddrinfo_own res s = free_chain By_bctbx res s"

definition freeaddrinfo :: "ptr \<Rightarrow> net \<Rightarrow> net option" where
  "freeaddrinfo res s = free_chain By_libc res s"

text \<open>
  The loop of \<open>bctbx_freeaddrinfo\<close>: \<open>own\<close> is \<open>looking_for_allocated_by_bctbx\<close>; when the mark changes the
  chain is cut behind \<open>previt\<close> and the part from \<open>beginit\<close> on is released.
\<close>

definition released_by :: "bool \<Rightarrow> ptr \<Rightarrow> net \<Rightarrow> net option" where
  "released_by own beginit s = (if own then bctbx_freeaddrinfo_own beginit s else freeaddrinfo beginit s)"

partial_function (option) free_mixed_loop ::
    "bool \<Rightarrow> ptr \<Rightarrow> ptr \<Rightarrow> ptr \<Rightarrow> net \<Rightarrow> (bool \<times> ptr \<times> net) option" where
  "free_mixed_loop own beginit previt it s =
     (if it = None then Some (own, beginit, s)
      else do {
        x \<leftarrow> ai_at s it;
        (own1, begin1, s1) \<leftarrow>
          (if own \<noteq> (ai_canonname x = Allocated_by_bctbx_magic) \<and> previt \<noteq> None
           then do {
             s2 \<leftarrow> set_ai_next s previt None;
             s3 \<leftarrow> released_by own beginit s2;
             Some (\<not> own, it, s3) }
           else Some (own, beginit, s));
        y \<leftarrow> ai_at s1 it;
        free_mixed_loop own1 begin1 it (ai_next y) s1 })"

definition bctbx_freeaddrinfo :: "ptr \<Rightarrow> net \<Rightarrow> net option" where
  "bctbx_freeaddrinfo res s = do {
     x \<leftarrow> ai_at s res;
     (own, beginit, s1) \<leftarrow> free_mixed_loop (ai_canonname x = Allocated_by_bctbx_magic) res None res s;
     released_by own beginit s1 }"

section \<open>IPv4 and IPv6\<close>

text \<open>One step of \<open>convert_to_v4mapped\<close>: the element made for the IPv4 element \<open>x\<close>.\<close>

definition v4mapped_addr :: "byte list \<Rightarrow> byte list \<Rightarrow> byte list option" where
  "v4mapped_addr sin6 sin = do {
     sin6 \<leftarrow> put_at sin6 0 (family_bytes AF_INET6);
     sin6 \<leftarrow> put_at sin6 (8 + 10) [0xff];
     sin6 \<leftarrow> put_at sin6 (8 + 11) [0xff];
     addr \<leftarrow> sin_addr sin;
     sin6 \<leftarrow> put_at sin6 (8 + 12) addr;
     port \<leftarrow> sin_port sin;
     put_at sin6 2 port }"

partial_function (option) v4mapped_loop :: "ptr \<Rightarrow> ptr \<Rightarrow> ptr \<Rightarrow> net \<Rightarrow> (ptr \<times> net) option" where
  "v4mapped_loop it last_ai res s =
     (if it = None then Some (res, s)
      else do {
        x \<leftarrow> ai_at s it;
        let (v4m, s1) = bctbx_alloc_addrinfo AF_INET6 (ai_socktype x) (ai_protocol x) s;
        y \<leftarrow> ai_at s1 v4m;
        addr \<leftarrow> v4mapped_addr (ai_addr y) (ai_addr x);
        s2 \<leftarrow> ai_write s1 v4m (\<lambda>y. y\<lparr>ai_flags := ai_flags y OR AI_V4MAPPED, ai_addr := addr\<rparr>);
        s3 \<leftarrow> (if last_ai \<noteq> None then set_ai_next s2 last_ai v4m else Some s2);
        x1 \<leftarrow> ai_at s3 it;
        v4mapped_loop (ai_next x1) v4m (if last_ai \<noteq> None then res else v4m) s3 })"

definition convert_to_v4mapped :: "ptr \<Rightarrow> net \<Rightarrow> (ptr \<times> net) option" where
  "convert_to_v4mapped ai s = v4mapped_loop ai None None s"

text \<open>
  The buffers \<open>v6\<close> and \<open>result\<close> may be the same; every function answers the length it stores in
  \<open>result_len\<close>.
\<close>

definition buf_at :: "net \<Rightarrow> nat \<Rightarrow> byte list option" where
  "buf_at s p = bufs s p"

definition buf_put :: "net \<Rightarrow> nat \<Rightarrow> nat \<Rightarrow> byte list \<Rightarrow> net option" where
  "buf_put s p off cs = do {
     b \<leftarrow> bufs s p;
     b1 \<leftarrow> put_at b off cs;
     Some (s\<lparr>bufs := (bufs s)(p \<mapsto> b1)\<rparr>) }"

definition buf_read :: "net \<Rightarrow> nat \<Rightarrow> nat \<Rightarrow> nat \<Rightarrow> byte list option" where
  "buf_read s p off n = Option.bind (bufs s p) (\<lambda>b. bytes_at b off n)"

definition buf_copy :: "net \<Rightarrow> nat \<Rightarrow> nat \<Rightarrow> nat \<Rightarrow> net option" where
  "buf_copy s q p n =
     (if q = p then Some s else do { cs \<leftarrow> buf_read s p 0 n; buf_put s q 0 cs })"

text \<open>The IPv4 address at the end of the IPv6 address of \<open>v6\<close>, with its port, put into \<open>result\<close>.\<close>

definition take_ipv4 :: "nat \<Rightarrow> nat \<Rightarrow> net \<Rightarrow> (nat \<times> net) option" where
  "take_ipv4 v6 result s = do {
     s1 \<leftarrow> buf_put s result 0 (family_bytes AF_INET);
     addr \<leftarrow> buf_read s1 v6 (8 + 12) 4;
     s2 \<leftarrow> buf_put s1 result 4 addr;
     port \<leftarrow> buf_read s2 v6 2 2;
     s3 \<leftarrow> buf_put s2 result 2 port;
     Some (sizeof_sockaddr_in, s3) }"

definition bctbx_sockaddr_remove_v4_mapping :: "nat \<Rightarrow> nat \<Rightarrow> net \<Rightarrow> (nat \<times> net) option" where
  "bctbx_sockaddr_remove_v4_mapping v6 result s = do {
     family \<leftarrow> buf_read s v6 0 2;
     if family_of family = AF_INET6
     then do {
       addr \<leftarrow> buf_read s v6 8 16;
       if IN6_IS_ADDR_V4MAPPED addr then take_ipv4 v6 result s
       else do { s1 \<leftarrow> buf_copy s result v6 sizeof_sockaddr_in6; Some (sizeof_sockaddr_in6, s1) } }
     else do { s1 \<leftarrow> buf_copy s result v6 sizeof_sockaddr_in; Some (sizeof_sockaddr_in, s1) } }"

definition bctbx_sockaddr_remove_nat64_mapping :: "nat \<Rightarrow> nat \<Rightarrow> net \<Rightarrow> (nat \<times> net) option" where
  "bctbx_sockaddr_remove_nat64_mapping v6 result s = do {
     family \<leftarrow> buf_read s v6 0 2;
     nat64 \<leftarrow>
       (if family_of family = AF_INET6
        then map_option (\<lambda>w. w = [0x00, 0x64, 0xff, 0x9b]) (buf_read s v6 8 4)
        else Some False);
     if nat64 then take_ipv4 v6 result s
     else do {
       let len = (if family_of family = AF_INET6 then sizeof_sockaddr_in6 else sizeof_sockaddr_in);
       s1 \<leftarrow> buf_copy s result v6 len;
       Some (len, s1) } }"

definition bctbx_sockaddr_ipv6_to_ipv4 :: "nat \<Rightarrow> nat \<Rightarrow> net \<Rightarrow> (nat \<times> net) option" where
  "bctbx_sockaddr_ipv6_to_ipv4 v6 result s = bctbx_sockaddr_remove_v4_mapping v6 result s"

text \<open>
  The local \<open>addrinfo\<close> points to the bytes of \<open>v4\<close>; it is put at an address of its own, \<open>ai\<close>.
  \<open>None\<close> as the length: \<open>result_len\<close> was left as it is.
\<close>

definition bctbx_sockaddr_ipv4_to_ipv6 :: "nat \<Rightarrow> nat \<Rightarrow> net \<Rightarrow> (nat option \<times> net) option" where
  "bctbx_sockaddr_ipv4_to_ipv6 v4 result s = do {
     b \<leftarrow> bufs s v4;
     family \<leftarrow> sa_family b;
     if family = AF_INET
     then do {
       let ai = ai_brk s;
       let s1 = s\<lparr>ais := (ais s)(ai \<mapsto>
                   \<lparr>ai_flags = 0, ai_family = family, ai_socktype = 0, ai_protocol = 0,
                    ai_addrlen = sizeof_sockaddr_in, ai_addr = b, ai_canonname = NoName,
                    ai_next = None, ai_owner = By_libc\<rparr>),
                  ai_brk := Suc ai\<rparr>;
       (v4m, s2) \<leftarrow> convert_to_v4mapped (Some ai) s1;
       x \<leftarrow> ai_at s2 v4m;
       s3 \<leftarrow> buf_put s2 result 0 (take sizeof_sockaddr_in6 (ai_addr x));
       s4 \<leftarrow> bctbx_freeaddrinfo v4m s3;
       Some (Some sizeof_sockaddr_in6, s4\<lparr>ais := (ais s4)(ai := None)\<rparr>) }
     else Some (None, s) }"

definition bctbx_sockaddr_equals :: "byte list \<Rightarrow> byte list \<Rightarrow> bool option" where
  "bctbx_sockaddr_equals sa sb = do {
     fa \<leftarrow> sa_family sa;
     fb \<leftarrow> sa_family sb;
     if fa \<noteq> fb then Some False
     else if fa = AF_INET then do {
       a \<leftarrow> sin_addr sa; b \<leftarrow> sin_addr sb;
       p \<leftarrow> sin_port sa; q \<leftarrow> sin_port sb;
       Some (\<not> (a \<noteq> b \<or> p \<noteq> q)) }
     else if fa = AF_INET6 then do {
       a \<leftarrow> sin6_addr sa; b \<leftarrow> sin6_addr sb;
       p \<leftarrow> sin_port sa; q \<leftarrow> sin_port sb;
       Some (\<not> (a \<noteq> b \<or> p \<noteq> q)) }
     else Some False }"

definition bctbx_is_multicast_addr :: "byte list \<Rightarrow> bool option" where
  "bctbx_is_multicast_addr addr = do {
     family \<leftarrow> sa_family addr;
     if family = AF_INET then map_option (\<lambda>a. hd a AND 0xf0 = 0xe0) (sin_addr addr)
     else if family = AF_INET6 then map_option (\<lambda>a. hd a = 0xff) (sin6_addr addr)
     else Some False }"

definition ai_family_to_string :: "int \<Rightarrow> string" where
  "ai_family_to_string af =
     (if af = AF_INET then ''AF_INET'' else if af = AF_INET6 then ''AF_INET6''
      else if af = AF_UNSPEC then ''AF_UNSPEC'' else ''invalid address family'')"

section \<open>Sorting\<close>

text \<open>The lists are those of list.c; the world of their heap is the memory of the addresses.\<close>

definition sort_insert :: "ptr \<Rightarrow> addrinfo \<Rightarrow> ptr \<Rightarrow> ptr \<Rightarrow> ptr \<Rightarrow> net lheap \<Rightarrow> (ptr \<times> ptr \<times> ptr \<times> net lheap) option" where
  "sort_insert ai x v6 v4_mapped v4 h =
     (if ai_family x = AF_INET6
      then do {
        a \<leftarrow> sin6_addr (ai_addr x);
        if IN6_IS_ADDR_V4MAPPED a
        then do { (l, h1) \<leftarrow> bctbx_list_prepend h v4_mapped ai; Some (v6, l, v4, h1) }
        else do { (l, h1) \<leftarrow> bctbx_list_prepend h v6 ai; Some (l, v4_mapped, v4, h1) } }
      else do { (l, h1) \<leftarrow> bctbx_list_prepend h v4 ai; Some (v6, v4_mapped, l, h1) })"

partial_function (option) sort_loop ::
    "ptr \<Rightarrow> ptr \<Rightarrow> ptr \<Rightarrow> ptr \<Rightarrow> net lheap \<Rightarrow> (ptr \<times> ptr \<times> ptr \<times> net lheap) option" where
  "sort_loop ai v6 v4_mapped v4 h =
     (if ai = None then Some (v6, v4_mapped, v4, h)
      else do {
        x \<leftarrow> ai_at (world h) ai;
        (v6', v4_mapped', v4', h1) \<leftarrow> sort_insert ai x v6 v4_mapped v4 h;
        s \<leftarrow> set_ai_next (world h1) ai None;
        sort_loop (ai_next x) v6' v4_mapped' v4' (h1\<lparr>world := s\<rparr>) })"

partial_function (option) chain_loop :: "ptr \<Rightarrow> ptr \<Rightarrow> ptr \<Rightarrow> net lheap \<Rightarrow> (ptr \<times> ptr \<times> net lheap) option" where
  "chain_loop it res0 res h =
     (if it = None then Some (res0, res, h)
      else do {
        c \<leftarrow> deref h it;
        (res0', res', h1) \<leftarrow>
          (if res0 = None then Some (elem_data c, elem_data c, h)
           else do {
             s \<leftarrow> set_ai_next (world h) res (elem_data c);
             x \<leftarrow> ai_at s res;
             Some (res0, ai_next x, h\<lparr>world := s\<rparr>) });
        chain_loop (elem_next c) res0' res' h1 })"

definition bctbx_addrinfo_sort :: "ptr \<Rightarrow> net lheap \<Rightarrow> (ptr \<times> net lheap) option" where
  "bctbx_addrinfo_sort first_ai h = do {
     (v6, v4_mapped, v4, h1) \<leftarrow> sort_loop first_ai None None None h;
     (v6, h2) \<leftarrow> bctbx_list_concat h1 v6 v4_mapped;
     (v6, h3) \<leftarrow> bctbx_list_concat h2 v6 v4;
     (res0, res, h4) \<leftarrow> chain_loop v6 None None h3;
     s \<leftarrow> (if res \<noteq> None then set_ai_next (world h4) res None else Some (world h4));
     (_, h5) \<leftarrow> bctbx_list_free (h4\<lparr>world := s\<rparr>) v6;
     Some (res0, h5) }"

section \<open>Names and numbers\<close>

text \<open>
  \<open>getaddrinfo node service hints\<close> answers an error code and what it stores in \<open>res\<close>;
  \<open>getnameinfo addr len hostlen servlen flags\<close> answers the strings it writes or its error code.
\<close>

type_synonym getaddrinfo_fn =
  "string option \<Rightarrow> string option \<Rightarrow> addrinfo option \<Rightarrow> net \<Rightarrow> int \<times> ptr \<times> net"
type_synonym getnameinfo_fn = "byte list \<Rightarrow> nat \<Rightarrow> nat \<Rightarrow> nat \<Rightarrow> 32 word \<Rightarrow> int + (string \<times> string)"

definition NI_NUMERICHOST :: "32 word" where "NI_NUMERICHOST = 1"
definition NI_NUMERICSERV :: "32 word" where "NI_NUMERICSERV = 2"

definition bctbx_getaddrinfo :: "getaddrinfo_fn \<Rightarrow> getaddrinfo_fn" where
  "bctbx_getaddrinfo gai node service hints s = gai node service hints s"

text \<open>
  The variant for Android and Windows.  The pointer \<open>res\<close> of the caller starts as \<open>old\<close>.
\<close>

partial_function (option) last_ai_loop :: "ptr \<Rightarrow> ptr \<Rightarrow> net \<Rightarrow> ptr option" where
  "last_ai_loop it last_ai s =
     (if it = None then Some last_ai
      else do { x \<leftarrow> ai_at s it; last_ai_loop (ai_next x) it s })"

definition addrinfo_concat :: "ptr \<Rightarrow> ptr \<Rightarrow> net \<Rightarrow> (ptr \<times> net) option" where
  "addrinfo_concat a1 a2 s = do {
     last_ai \<leftarrow> last_ai_loop a1 None s;
     if last_ai \<noteq> None then do { s1 \<leftarrow> set_ai_next s last_ai a2; Some (a1, s1) }
     else Some (a2, s) }"

definition bctbx_getaddrinfo_emulated ::
    "getaddrinfo_fn \<Rightarrow> string option \<Rightarrow> string option \<Rightarrow> addrinfo option \<Rightarrow> ptr \<Rightarrow> net \<Rightarrow> (int \<times> ptr \<times> net) option" where
  "bctbx_getaddrinfo_emulated gai node service hints old s =
     (case hints of
        None \<Rightarrow> Some (gai node service hints s)
      | Some hi \<Rightarrow>
          if ai_family hi \<noteq> AF_INET \<and> ai_flags hi AND AI_V4MAPPED \<noteq> 0
          then do {
            let lhints = hi\<lparr>ai_flags := ai_flags hi AND NOT (AI_ALL OR AI_V4MAPPED), ai_family := AF_INET6\<rparr>;
            let (err, res6, s1) = gai node service (Some lhints) s;
            if ai_flags hi AND AI_ALL \<noteq> 0
            then do {
              let (err, res4, s2) = gai node service (Some (lhints\<lparr>ai_family := AF_INET\<rparr>)) s1;
              (res4', s3) \<leftarrow>
                (if err = 0
                 then do {
                   (v4m, s4) \<leftarrow> convert_to_v4mapped res4 s2;
                   s5 \<leftarrow> freeaddrinfo res4 s4;
                   Some (v4m, s5) }
                 else Some (res4, s2));
              (res, s6) \<leftarrow> addrinfo_concat res6 res4' s3;
              Some (if res \<noteq> None then 0 else err, res, s6) }
            else Some (err, old, s1) }
          else Some (gai node service hints s))"

definition bctbx_getnameinfo :: "getnameinfo_fn \<Rightarrow> getnameinfo_fn" where
  "bctbx_getnameinfo gni addr addrlen hostlen servlen flags = gni addr addrlen hostlen servlen flags"

text \<open>\<open>strncpy\<close> fills the buffer up with zeros.\<close>

definition bctbx_addrinfo_to_ip_address_error :: "cbuf \<Rightarrow> nat \<Rightarrow> cbuf option" where
  "bctbx_addrinfo_to_ip_address_error ip ip_size =
     buf_write ip 0 (take ip_size (''<bug!!>'' @ replicate ip_size NUL))"

text \<open>
  \<open>serv\<close> is a local buffer: read although nothing was written to it, it has no value.  The port is
  answered when the caller gave a place for it.
\<close>

definition bctbx_addrinfo_to_ip_address ::
    "getnameinfo_fn \<Rightarrow> addrinfo \<Rightarrow> cbuf \<Rightarrow> nat \<Rightarrow> bool \<Rightarrow> (int \<times> cbuf \<times> int option) option" where
  "bctbx_addrinfo_to_ip_address gni ai ip ip_size port = do {
     let r = bctbx_getnameinfo gni (ai_addr ai) (ai_addrlen ai) ip_size 16 (NI_NUMERICHOST OR NI_NUMERICSERV);
     (ip, serv) \<leftarrow>
       (case r of
          Inl err \<Rightarrow> map_option (\<lambda>b. (b, None)) (bctbx_addrinfo_to_ip_address_error ip ip_size)
        | Inr (host, serv) \<Rightarrow> map_option (\<lambda>b. (b, Some serv)) (buf_write ip 0 (host @ [NUL])));
     if port then do { sv \<leftarrow> serv; Some (0, ip, Some (to_i32 (fst (strtol10 sv)))) }
     else Some (0, ip, None) }"

definition bctbx_addrinfo_to_printable_ip_address ::
    "getnameinfo_fn \<Rightarrow> addrinfo \<Rightarrow> cbuf \<Rightarrow> nat \<Rightarrow> (int \<times> cbuf) option" where
  "bctbx_addrinfo_to_printable_ip_address gni ai printable_ip printable_ip_size = do {
     let r = bctbx_getnameinfo gni (ai_addr ai) (ai_addrlen ai) 64 16 (NI_NUMERICHOST OR NI_NUMERICSERV);
     let ip = (case r of Inl err \<Rightarrow> ''<bug!!>'' | Inr (host, _) \<Rightarrow> host);
     let serv = (case r of Inl err \<Rightarrow> None | Inr (_, serv) \<Rightarrow> Some serv);
     out \<leftarrow>
       (if ai_family ai = AF_INET then do {
          sv \<leftarrow> serv;
          snprintf_at printable_ip 0 printable_ip_size (ip @ '':'' @ sv) }
        else if ai_family ai = AF_INET6 then do {
          sv \<leftarrow> serv;
          snprintf_at printable_ip 0 printable_ip_size (''['' @ ip @ '']:'' @ sv) }
        else Some printable_ip);
     Some (0, out) }"

text \<open>The local structure the two functions on socket addresses build.\<close>

definition sockaddr_info :: "byte list \<Rightarrow> nat \<Rightarrow> addrinfo option" where
  "sockaddr_info sa salen = do {
     family \<leftarrow> sa_family sa;
     Some \<lparr>ai_flags = 0, ai_family = family, ai_socktype = 0, ai_protocol = 0, ai_addrlen = salen,
           ai_addr = sa, ai_canonname = NoName, ai_next = None, ai_owner = By_libc\<rparr> }"

definition bctbx_sockaddr_to_ip_address ::
    "getnameinfo_fn \<Rightarrow> byte list \<Rightarrow> nat \<Rightarrow> cbuf \<Rightarrow> nat \<Rightarrow> bool \<Rightarrow> (int \<times> cbuf \<times> int option) option" where
  "bctbx_sockaddr_to_ip_address gni sa salen ip ip_size port = do {
     ai \<leftarrow> sockaddr_info sa salen;
     bctbx_addrinfo_to_ip_address gni ai ip ip_size port }"

definition bctbx_sockaddr_to_printable_ip_address ::
    "getnameinfo_fn \<Rightarrow> byte list \<Rightarrow> nat \<Rightarrow> cbuf \<Rightarrow> nat \<Rightarrow> (int \<times> cbuf) option" where
  "bctbx_sockaddr_to_printable_ip_address gni sa salen printable_ip printable_ip_size = do {
     family \<leftarrow> sa_family sa;
     if family = 0 \<or> salen = 0
     then map_option (\<lambda>b. (0, b)) (snprintf_at printable_ip 0 printable_ip_size ''no-addr'')
     else do {
       ai \<leftarrow> sockaddr_info sa salen;
       bctbx_addrinfo_to_printable_ip_address gni ai printable_ip printable_ip_size } }"

text \<open>The service is the port printed into a buffer of ten bytes.\<close>

definition name_hints :: "int \<Rightarrow> int \<Rightarrow> bool \<Rightarrow> addrinfo" where
  "name_hints family socktype numeric_only =
     \<lparr>ai_flags = (if numeric_only then AI_NUMERICSERV OR AI_NUMERICHOST else 0)
                 OR (if family = AF_INET6 then AI_V4MAPPED OR AI_ALL else 0),
      ai_family = family, ai_socktype = socktype, ai_protocol = 0, ai_addrlen = 0, ai_addr = [],
      ai_canonname = NoName, ai_next = None, ai_owner = By_libc\<rparr>"

definition name_to_addrinfo ::
    "getaddrinfo_fn \<Rightarrow> int \<Rightarrow> int \<Rightarrow> string option \<Rightarrow> int \<Rightarrow> bool \<Rightarrow> net lheap \<Rightarrow> (ptr \<times> net lheap) option" where
  "name_to_addrinfo gai family socktype ipaddress port numeric_only h = do {
     let serv = take 9 (show_int port);
     let (err, res, s) = bctbx_getaddrinfo gai ipaddress (Some serv)
                           (Some (name_hints family socktype numeric_only)) (world h);
     if err \<noteq> 0 then Some (None, h\<lparr>world := s\<rparr>)
     else if res \<noteq> None then bctbx_addrinfo_sort res (h\<lparr>world := s\<rparr>)
     else Some (res, h\<lparr>world := s\<rparr>) }"

definition bctbx_name_to_addrinfo ::
    "getaddrinfo_fn \<Rightarrow> int \<Rightarrow> int \<Rightarrow> string option \<Rightarrow> int \<Rightarrow> net lheap \<Rightarrow> (ptr \<times> net lheap) option" where
  "bctbx_name_to_addrinfo gai family socktype name port h =
     name_to_addrinfo gai family socktype name port False h"

definition bctbx_ip_address_to_addrinfo ::
    "getaddrinfo_fn \<Rightarrow> int \<Rightarrow> int \<Rightarrow> string option \<Rightarrow> int \<Rightarrow> net lheap \<Rightarrow> (ptr \<times> net lheap) option" where
  "bctbx_ip_address_to_addrinfo gai family socktype name port h =
     name_to_addrinfo gai family socktype name port True h"

end
