(* ===== verification/AddrInfoProps.thy ===== *)
theory AddrInfoProps
  imports AddrInfo
begin

text \<open>
  What the address functions of port.c guarantee: chains of \<open>addrinfo\<close>, their release by the right
  allocator, the sorting, and the conversions between IPv4 and IPv6 in place and out of place.
\<close>

section \<open>Chains\<close>

text \<open>
  A node is an address with the content of its block; the field \<open>ai_next\<close> of the content is not
  used, it is given by the order of the nodes.
\<close>

type_synonym ainode = "nat \<times> addrinfo"

fun nextp :: "ainode list \<Rightarrow> ptr \<Rightarrow> ptr" where
  "nextp [] e = e"
| "nextp (n # ns) e = Some (fst n)"

fun chain :: "(nat \<Rightarrow> addrinfo option) \<Rightarrow> ainode list \<Rightarrow> ptr \<Rightarrow> bool" where
  "chain m [] e \<longleftrightarrow> True"
| "chain m (n # ns) e \<longleftrightarrow> m (fst n) = Some ((snd n)\<lparr>ai_next := nextp ns e\<rparr>) \<and> chain m ns e"

abbreviation nodes :: "ainode list \<Rightarrow> nat set" where
  "nodes ns \<equiv> fst ` set ns"

definition without :: "nat set \<Rightarrow> net \<Rightarrow> net" where
  "without A s = s\<lparr>ais := (\<lambda>a. if a \<in> A then None else ais s a)\<rparr>"

lemma chain_frame: "chain m ns e \<Longrightarrow> (\<And>a. a \<in> nodes ns \<Longrightarrow> m' a = m a) \<Longrightarrow> chain m' ns e"
  by (induction ns) auto

lemma chain_upd [simp]: "a \<notin> nodes ns \<Longrightarrow> chain (m(a := c)) ns e = chain m ns e"
  by (induction ns) auto

lemma nextp_append [simp]: "nextp (xs @ ys) e = nextp xs (nextp ys e)"
  by (cases xs) simp_all

lemma chain_append: "chain m (xs @ ys) e \<longleftrightarrow> chain m xs (nextp ys e) \<and> chain m ys e"
  by (induction xs) auto

lemma chain_cut:
  "chain m (xs @ [(a, x)]) e \<Longrightarrow> a \<notin> nodes xs \<Longrightarrow>
   chain (m(a := map_option (\<lambda>x. x\<lparr>ai_next := e'\<rparr>) (m a))) (xs @ [(a, x)]) e'"
  by (simp add: chain_append)

lemma without_simps [simp]:
  "ais (without A s) a = (if a \<in> A then None else ais s a)" "bufs (without A s) = bufs s"
  "ai_brk (without A s) = ai_brk s" "without {} s = s"
  by (simp_all add: without_def)

lemma without_without: "without A (without B s) = without (A \<union> B) s"
  by (auto simp: without_def intro!: net.equality)

lemma ai_at_simps [simp]: "ai_at s (Some a) = ais s a" "ai_at s None = None"
  by (simp_all add: ai_at_def)

lemma set_ai_next_Some [simp]:
  "set_ai_next s (Some a) q =
     map_option (\<lambda>x. s\<lparr>ais := (ais s)(a \<mapsto> x\<lparr>ai_next := q\<rparr>)\<rparr>) (ais s a)"
  by (cases "ais s a") (simp_all add: set_ai_next_def ai_write_def)

section \<open>Release\<close>

definition owner_of :: "bool \<Rightarrow> owner" where
  "owner_of own = (if own then By_bctbx else By_libc)"

text \<open>The mark tells the allocator.\<close>

definition marked :: "ainode \<Rightarrow> bool" where
  "marked n \<longleftrightarrow> (ai_canonname (snd n) = Allocated_by_bctbx_magic \<longleftrightarrow> ai_owner (snd n) = By_bctbx)"

lemma free_chain_chain:
  "chain (ais s) ns None \<Longrightarrow> distinct (map fst ns) \<Longrightarrow> \<forall>n\<in>set ns. ai_owner (snd n) = own \<Longrightarrow>
   free_chain own (nextp ns None) s = Some (without (nodes ns) s)"
proof (induction ns arbitrary: s)
  case Nil
  then show ?case by (subst free_chain.simps) simp
next
  case (Cons n ns)
  let ?s = "s\<lparr>ais := (ais s)(fst n := None)\<rparr>"
  have "free_chain own (nextp ns None) ?s = Some (without (nodes ns) ?s)"
    by (rule Cons.IH) (use Cons.prems in \<open>simp_all del: fun_upd_apply\<close>)
  moreover have "without (nodes ns) ?s = without (nodes (n # ns)) s"
    by (rule net.equality) (auto simp: without_def fun_eq_iff)
  ultimately show ?case using Cons.prems
    by (subst free_chain.simps) (simp add: ai_release_def)
qed

lemma released_by_chain:
  "chain (ais s) ns None \<Longrightarrow> distinct (map fst ns) \<Longrightarrow> \<forall>n\<in>set ns. ai_owner (snd n) = owner_of own \<Longrightarrow>
   released_by own (nextp ns None) s = Some (without (nodes ns) s)"
  by (simp add: released_by_def bctbx_freeaddrinfo_own_def freeaddrinfo_def free_chain_chain owner_of_def)

lemma owner_cases: "\<not> own = (w = By_bctbx) \<Longrightarrow> owner_of (\<not> own) = w" "own = (w = By_bctbx) \<Longrightarrow> owner_of own = w"
  by (cases w; simp add: owner_of_def)+

lemma free_mixed_chain:
  assumes "chain (ais s) (sg @ rest) None" "distinct (map fst (sg @ rest))" "sg \<noteq> []"
    and "\<forall>n\<in>set sg. ai_owner (snd n) = owner_of own" "\<forall>n\<in>set rest. marked n"
  shows "do { (own, beginit, s1) \<leftarrow> free_mixed_loop own (nextp sg None) (Some (fst (last sg))) (nextp rest None) s;
              released_by own beginit s1 } = Some (without (nodes (sg @ rest)) s)"
  using assms
proof (induction rest arbitrary: own sg s)
  case Nil
  then show ?case by (subst free_mixed_loop.simps) (simp add: released_by_chain)
next
  case (Cons n rest)
  obtain b x where n: "n = (b, x)" by (cases n)
  have at: "ais s b = Some (x\<lparr>ai_next := nextp rest None\<rparr>)"
    using Cons.prems(1) by (simp add: n chain_append)
  have mk: "(ai_canonname x = Allocated_by_bctbx_magic) = (ai_owner x = By_bctbx)"
    using Cons.prems(5) by (simp add: n marked_def)
  show ?case
  proof (cases "own = (ai_owner x = By_bctbx)")
    case True
    have "do { (own, beginit, s1) \<leftarrow> free_mixed_loop own (nextp (sg @ [n]) None) (Some (fst (last (sg @ [n])))) (nextp rest None) s;
              released_by own beginit s1 } = Some (without (nodes ((sg @ [n]) @ rest)) s)"
      by (rule Cons.IH) (use Cons.prems owner_cases(2) [OF True] n in auto)
    moreover have "nextp (sg @ [n]) None = nextp sg None" using Cons.prems(3) by (cases sg) simp_all
    ultimately show ?thesis using True mk at
      by (subst free_mixed_loop.simps) (simp add: n)
  next
    case False
    obtain ys l y where sg: "sg = ys @ [(l, y)]" using Cons.prems(3) by (metis rev_exhaust surj_pair)
    let ?s2 = "s\<lparr>ais := (ais s)(l \<mapsto> y\<lparr>ai_next := None\<rparr>)\<rparr>"
    have c: "chain (ais s) (ys @ [(l, y)]) (Some b)" "l \<notin> nodes ys" "b \<noteq> l" "b \<notin> nodes ys" "chain (ais s) rest None"
      "b \<notin> nodes rest" "l \<notin> nodes rest" "nodes ys \<inter> nodes rest = {}" "distinct (map fst sg)"
      using Cons.prems(1,2) by (auto simp: n sg chain_append)
    have l: "ais s l = Some (y\<lparr>ai_next := Some b\<rparr>)" using c(1) by (simp add: chain_append)
    have "chain (ais ?s2) sg None" using chain_cut [OF c(1,2), of None] by (simp add: sg l)
    then have rel: "released_by own (nextp sg None) ?s2 = Some (without (nodes sg) ?s2)"
      by (rule released_by_chain) (use Cons.prems(4) c(9) in auto)
    let ?s3 = "without (nodes sg) ?s2"
    have "do { (own, beginit, s1) \<leftarrow> free_mixed_loop (\<not> own) (nextp [n] None) (Some (fst (last [n]))) (nextp rest None) ?s3;
              released_by own beginit s1 } = Some (without (nodes ([n] @ rest)) ?s3)"
    proof (rule Cons.IH)
      have "chain (ais ?s3) rest None"
        by (rule chain_frame [OF c(5)]) (use c in \<open>auto simp: sg\<close>)
      then show "chain (ais ?s3) ([n] @ rest) None"
        using c at by (auto simp: n sg)
    qed (use Cons.prems c owner_cases(1) [OF False] n in auto)
    moreover have "without (nodes ([n] @ rest)) ?s3 = without (nodes (sg @ n # rest)) s"
      by (rule net.equality) (auto simp: without_def sg fun_eq_iff)
    ultimately show ?thesis using False mk at l rel c
      by (subst free_mixed_loop.simps) (simp add: n sg)
  qed
qed

lemma chain_node: "chain m ns e \<Longrightarrow> a \<in> nodes ns \<Longrightarrow> m a \<noteq> None"
  by (induction ns) auto


lemma freeaddrinfo_chain:
  assumes "chain (ais s) ns None" "distinct (map fst ns)" "ns \<noteq> []" "\<forall>n\<in>set ns. marked n"
  shows "bctbx_freeaddrinfo (nextp ns None) s = Some (without (nodes ns) s)"
proof -
  obtain b x rest where ns: "ns = (b, x) # rest" using assms(3) by (metis neq_Nil_conv surj_pair)
  let ?own = "ai_canonname x = Allocated_by_bctbx_magic"
  have at: "ais s b = Some (x\<lparr>ai_next := nextp rest None\<rparr>)" using assms(1) by (simp add: ns)
  have mk: "?own = (ai_owner x = By_bctbx)" using assms(4) by (simp add: ns marked_def)
  have "do { (own, beginit, s1) \<leftarrow> free_mixed_loop ?own (nextp [(b, x)] None) (Some (fst (last [(b, x)]))) (nextp rest None) s;
              released_by own beginit s1 } = Some (without (nodes ([(b, x)] @ rest)) s)"
    by (rule free_mixed_chain) (use assms owner_cases(2) [OF mk] ns in auto)
  moreover have "free_mixed_loop ?own (Some b) None (Some b) s = free_mixed_loop ?own (Some b) (Some b) (nextp rest None) s"
    by (subst free_mixed_loop.simps) (simp add: at)
  ultimately show ?thesis by (simp add: bctbx_freeaddrinfo_def ns at)
qed

section \<open>Sorting\<close>

definition is_v6 :: "ainode \<Rightarrow> bool" where
  "is_v6 n \<longleftrightarrow> ai_family (snd n) = AF_INET6 \<and> \<not> IN6_IS_ADDR_V4MAPPED (take 16 (drop 8 (ai_addr (snd n))))"

definition is_mapped :: "ainode \<Rightarrow> bool" where
  "is_mapped n \<longleftrightarrow> ai_family (snd n) = AF_INET6 \<and> IN6_IS_ADDR_V4MAPPED (take 16 (drop 8 (ai_addr (snd n))))"

definition is_v4 :: "ainode \<Rightarrow> bool" where
  "is_v4 n \<longleftrightarrow> ai_family (snd n) \<noteq> AF_INET6"

definition readable :: "ainode \<Rightarrow> bool" where
  "readable n \<longleftrightarrow> (ai_family (snd n) = AF_INET6 \<longrightarrow> 24 \<le> length (ai_addr (snd n)))"

text \<open>
  Three lists side by side on a heap whose cells are otherwise those of \<open>K\<close>.
\<close>

definition three_at ::
    "(nat \<Rightarrow> bctbx_list_t option) \<Rightarrow> 'w lheap \<Rightarrow> ptr \<Rightarrow> ptr \<Rightarrow> ptr \<Rightarrow> node list \<Rightarrow> node list \<Rightarrow> node list \<Rightarrow> bool" where
  "three_at K h p q r a b c \<longleftrightarrow>
     dlist h p a \<and> dlist h q b \<and> dlist h r c \<and>
     addrs a \<inter> addrs b = {} \<and> addrs a \<inter> addrs c = {} \<and> addrs b \<inter> addrs c = {} \<and>
     (\<forall>i. i \<in> addrs a \<or> i \<in> addrs b \<or> i \<in> addrs c \<longrightarrow> K i = None) \<and>
     (\<forall>i. i \<notin> addrs a \<and> i \<notin> addrs b \<and> i \<notin> addrs c \<longrightarrow> cells h i = K i)"

definition three ::
    "(nat \<Rightarrow> bctbx_list_t option) \<Rightarrow> 'w lheap \<Rightarrow> ptr \<Rightarrow> ptr \<Rightarrow> ptr \<Rightarrow> ptr list \<Rightarrow> ptr list \<Rightarrow> ptr list \<Rightarrow> bool" where
  "three K h p q r xs ys zs \<longleftrightarrow>
     (\<exists>a b c. three_at K h p q r a b c \<and> map snd a = xs \<and> map snd b = ys \<and> map snd c = zs)"

lemma three_at_rotate: "three_at K h p q r a b c \<Longrightarrow> three_at K h q r p b c a"
  by (simp add: three_at_def Int_commute)

lemma three_rotate: "three K h p q r xs ys zs \<Longrightarrow> three K h q r p ys zs xs"
  unfolding three_def using three_at_rotate by blast

lemma three_world [simp]: "three K (h\<lparr>world := w\<rparr>) p q r xs ys zs = three K h p q r xs ys zs"
  by (simp add: three_def three_at_def)

lemma three_at_prepend:
  assumes t: "three_at K h p q r a b c"
  shows "\<exists>l h1. bctbx_list_prepend h p d = Some (l, h1) \<and> three_at K h1 l q r ((brk h, d) # a) b c \<and> world h1 = world h"
proof -
  have da: "dlist h p a" and db: "dlist h q b" and dc: "dlist h r c" and
    disj: "addrs a \<inter> addrs b = {}" "addrs a \<inter> addrs c = {}" "addrs b \<inter> addrs c = {}" and
    Kin: "\<forall>i. i \<in> addrs a \<or> i \<in> addrs b \<or> i \<in> addrs c \<longrightarrow> K i = None" and
    Kout: "\<forall>i. i \<notin> addrs a \<and> i \<notin> addrs b \<and> i \<notin> addrs c \<longrightarrow> cells h i = K i"
    using t by (simp_all add: three_at_def)
  obtain l h1 where l: "bctbx_list_prepend h p d = Some (l, h1)" "dlist h1 l ((brk h, d) # a)"
      "\<And>i. i \<notin> insert (brk h) (addrs a) \<Longrightarrow> cells h1 i = cells h i" "world h1 = world h"
    by (rule list_resultE [OF bctbx_list_prepend_result [OF da, of d]]) blast
  have fresh: "brk h \<notin> addrs a" "brk h \<notin> addrs b" "brk h \<notin> addrs c"
    using dlist_fresh da db dc by blast+
  have "cells h (brk h) = None" using da by (cases "cells h (brk h)") (auto simp: dlist_def heap_ok_def)
  with Kout fresh have K: "K (brk h) = None" by simp
  have ok: "heap_ok h1" using l(2) by (simp add: dlist_def)
  have same: "cells h1 i = cells h i" if "i \<in> addrs b \<union> addrs c" for i
    by (rule l(3)) (use that fresh disj in blast)
  have "dlist h1 q b" "dlist h1 r c"
    using dlist_frame [OF db ok] dlist_frame [OF dc ok] same by blast+
  moreover have "\<forall>i. i \<notin> addrs ((brk h, d) # a) \<and> i \<notin> addrs b \<and> i \<notin> addrs c \<longrightarrow> cells h1 i = K i"
    using l(3) Kout by simp
  ultimately have "three_at K h1 l q r ((brk h, d) # a) b c"
    using l(2) disj fresh K Kin unfolding three_at_def by simp
  with l show ?thesis by blast
qed

lemma three_prepend:
  "three K h p q r xs ys zs \<Longrightarrow>
   \<exists>l h1. bctbx_list_prepend h p d = Some (l, h1) \<and> three K h1 l q r (d # xs) ys zs \<and> world h1 = world h"
proof (unfold three_def, elim exE conjE)
  fix a b c
  assume t: "three_at K h p q r a b c" "map snd a = xs" "map snd b = ys" "map snd c = zs"
  from three_at_prepend [OF t(1), of d] obtain l h1 where
    l: "bctbx_list_prepend h p d = Some (l, h1)" "three_at K h1 l q r ((brk h, d) # a) b c" "world h1 = world h" by blast
  moreover from this(2) t have "\<exists>a b c. three_at K h1 l q r a b c \<and> map snd a = d # xs \<and> map snd b = ys \<and> map snd c = zs"
    by (intro exI [of _ "(brk h, d) # a"] exI [of _ b] exI [of _ c]) simp
  ultimately show "\<exists>l h1. bctbx_list_prepend h p d = Some (l, h1) \<and>
      (\<exists>a b c. three_at K h1 l q r a b c \<and> map snd a = d # xs \<and> map snd b = ys \<and> map snd c = zs) \<and> world h1 = world h"
    by (intro exI [of _ l] exI [of _ h1] conjI)
qed

lemma sort_insert_three:
  assumes "three K h v6 vm v4 l6 lm l4" "readable n"
  shows "\<exists>v6' vm' v4' h1. sort_insert d (snd n) v6 vm v4 h = Some (v6', vm', v4', h1) \<and> world h1 = world h \<and>
    three K h1 v6' vm' v4' (if is_v6 n then d # l6 else l6) (if is_mapped n then d # lm else lm)
      (if is_v4 n then d # l4 else l4)"
proof -
  note t6 = three_prepend [OF assms(1), of d]
  note tm = three_prepend [OF three_rotate [OF assms(1)], of d]
  note t4 = three_prepend [OF three_rotate [OF three_rotate [OF assms(1)]], of d]
  consider "is_v6 n" "\<not> is_mapped n" "\<not> is_v4 n" | "\<not> is_v6 n" "is_mapped n" "\<not> is_v4 n" | "\<not> is_v6 n" "\<not> is_mapped n" "is_v4 n"
    by (auto simp: is_v6_def is_mapped_def is_v4_def)
  then show ?thesis
  proof cases
    case 1
    from t6 obtain l h1 where r: "bctbx_list_prepend h v6 d = Some (l, h1)" "three K h1 l vm v4 (d # l6) lm l4" "world h1 = world h"
      by blast
    moreover have "sort_insert d (snd n) v6 vm v4 h = Some (l, vm, v4, h1)"
      using 1 assms(2) r by (simp add: sort_insert_def is_v6_def readable_def sin6_addr_def bytes_at_def)
    ultimately show ?thesis using 1 by auto
  next
    case 2
    from tm obtain l h1 where r: "bctbx_list_prepend h vm d = Some (l, h1)" "three K h1 l v4 v6 (d # lm) l4 l6" "world h1 = world h"
      by blast
    moreover have "sort_insert d (snd n) v6 vm v4 h = Some (v6, l, v4, h1)"
      using 2 assms(2) r by (simp add: sort_insert_def is_mapped_def readable_def sin6_addr_def bytes_at_def)
    ultimately show ?thesis using 2 three_rotate [OF three_rotate [OF r(2)]] by auto
  next
    case 3
    from t4 obtain l h1 where r: "bctbx_list_prepend h v4 d = Some (l, h1)" "three K h1 l v6 vm (d # l4) l6 lm" "world h1 = world h"
      by blast
    moreover have "sort_insert d (snd n) v6 vm v4 h = Some (v6, vm, l, h1)"
      using 3 r by (simp add: sort_insert_def is_v4_def)
    ultimately show ?thesis using 3 three_rotate [OF r(2)] by auto
  qed
qed


text \<open>The blocks of a set of addresses with nothing behind them.\<close>

definition unlinked :: "nat set \<Rightarrow> net \<Rightarrow> net" where
  "unlinked A s = s\<lparr>ais := (\<lambda>a. if a \<in> A then map_option (\<lambda>x. x\<lparr>ai_next := None\<rparr>) (ais s a) else ais s a)\<rparr>"

lemma unlinked_simps [simp]:
  "ais (unlinked A s) a = (if a \<in> A then map_option (\<lambda>x. x\<lparr>ai_next := None\<rparr>) (ais s a) else ais s a)"
  "bufs (unlinked A s) = bufs s" "ai_brk (unlinked A s) = ai_brk s" "unlinked {} s = s"
  by (simp_all add: unlinked_def)

abbreviation pick :: "(ainode \<Rightarrow> bool) \<Rightarrow> ainode list \<Rightarrow> ptr list" where
  "pick P ns \<equiv> rev (map (\<lambda>n. Some (fst n)) (filter P ns))"

lemma sort_loop_three:
  "chain (ais (world h)) ns None \<Longrightarrow> distinct (map fst ns) \<Longrightarrow> \<forall>n\<in>set ns. readable n \<Longrightarrow>
   three K h v6 vm v4 l6 lm l4 \<Longrightarrow>
   \<exists>v6' vm' v4' h1. sort_loop (nextp ns None) v6 vm v4 h = Some (v6', vm', v4', h1) \<and>
     world h1 = unlinked (nodes ns) (world h) \<and>
     three K h1 v6' vm' v4' (pick is_v6 ns @ l6) (pick is_mapped ns @ lm) (pick is_v4 ns @ l4)"
proof (induction ns arbitrary: h v6 vm v4 l6 lm l4)
  case Nil
  then show ?case by (subst sort_loop.simps) simp
next
  case (Cons n ns)
  have at: "ais (world h) (fst n) = Some ((snd n)\<lparr>ai_next := nextp ns None\<rparr>)" using Cons.prems(1) by simp
  have same: "sort_insert d (x\<lparr>ai_next := q\<rparr>) = sort_insert d x" for d x q
    by (intro ext) (simp add: sort_insert_def)
  from sort_insert_three [OF Cons.prems(4), of n "Some (fst n)"] Cons.prems(3) obtain v6' vm' v4' h1 where
    ins: "sort_insert (Some (fst n)) (snd n) v6 vm v4 h = Some (v6', vm', v4', h1)" "world h1 = world h"
      "three K h1 v6' vm' v4' (if is_v6 n then Some (fst n) # l6 else l6)
        (if is_mapped n then Some (fst n) # lm else lm) (if is_v4 n then Some (fst n) # l4 else l4)"
    by auto
  let ?s = "(world h)\<lparr>ais := (ais (world h))(fst n \<mapsto> (snd n)\<lparr>ai_next := None\<rparr>)\<rparr>"
  let ?h = "h1\<lparr>world := ?s\<rparr>"
  have step: "sort_loop (nextp (n # ns) None) v6 vm v4 h = sort_loop (nextp ns None) v6' vm' v4' ?h"
    by (subst sort_loop.simps) (simp add: at same ins)
  have "\<exists>v6'' vm'' v4'' h2. sort_loop (nextp ns None) v6' vm' v4' ?h = Some (v6'', vm'', v4'', h2) \<and>
     world h2 = unlinked (nodes ns) (world ?h) \<and>
     three K h2 v6'' vm'' v4'' (pick is_v6 ns @ (if is_v6 n then Some (fst n) # l6 else l6))
       (pick is_mapped ns @ (if is_mapped n then Some (fst n) # lm else lm))
       (pick is_v4 ns @ (if is_v4 n then Some (fst n) # l4 else l4))"
    by (rule Cons.IH) (use Cons.prems ins(3) in \<open>simp_all del: fun_upd_apply\<close>)
  moreover have "unlinked (nodes ns) (world ?h) = unlinked (nodes (n # ns)) (world h)"
    using Cons.prems(2) at by (intro net.equality) (auto simp: unlinked_def fun_eq_iff)
  moreover have "pick P ns @ (if P n then Some (fst n) # l else l) = pick P (n # ns) @ l" for P l by simp
  ultimately show ?case unfolding step by simp
qed

text \<open>The second loop ties the blocks together in the order of the list.\<close>

fun tie :: "nat \<Rightarrow> nat list \<Rightarrow> net \<Rightarrow> net" where
  "tie r [] s = s"
| "tie r (a # as) s = tie a as (s\<lparr>ais := (ais s)(r := map_option (\<lambda>x. x\<lparr>ai_next := Some a\<rparr>) (ais s r))\<rparr>)"

lemma tie_outside: "a \<notin> set (r # as) \<Longrightarrow> ais (tie r as s) a = ais s a"
  by (induction as arbitrary: r s) auto

lemma tie_bufs [simp]: "bufs (tie r as s) = bufs s" "ai_brk (tie r as s) = ai_brk s"
  by (induction as arbitrary: r s) auto

lemma tie_chain:
  "distinct (map fst (n # ns)) \<Longrightarrow> \<forall>n\<in>set (n # ns). ais s (fst n) = Some ((snd n)\<lparr>ai_next := None\<rparr>) \<Longrightarrow>
   chain (ais (tie (fst n) (map fst ns) s)) (n # ns) None"
proof (induction ns arbitrary: n s)
  case (Cons m ns)
  let ?s = "s\<lparr>ais := (ais s)(fst n := map_option (\<lambda>x. x\<lparr>ai_next := Some (fst m)\<rparr>) (ais s (fst n)))\<rparr>"
  have "chain (ais (tie (fst m) (map fst ns) ?s)) (m # ns) None"
  proof (rule Cons.IH)
    have "fst n \<notin> nodes (m # ns)" using Cons.prems(1) by auto
    then have "fst k \<noteq> fst n" if "k \<in> set (m # ns)" for k using that by (metis image_eqI)
    then show "\<forall>k\<in>set (m # ns). ais ?s (fst k) = Some ((snd k)\<lparr>ai_next := None\<rparr>)"
      using Cons.prems(2) by simp
  qed (use Cons.prems in simp)
  moreover have "ais (tie (fst m) (map fst ns) ?s) (fst n) = ais ?s (fst n)"
    by (rule tie_outside) (use Cons.prems in auto)
  ultimately show ?case using Cons.prems(2) by simp
qed simp

lemma chain_loop_tie:
  "fwd (cells h) cs None \<Longrightarrow> map snd cs = map Some as \<Longrightarrow> distinct (r # as) \<Longrightarrow>
   \<forall>a\<in>set (r # as). ais (world h) a \<noteq> None \<Longrightarrow>
   chain_loop (headp cs None) (Some r0) (Some r) h =
     Some (Some r0, Some (last (r # as)), h\<lparr>world := tie r as (world h)\<rparr>)"
proof (induction cs arbitrary: h r as)
  case Nil
  then show ?case by (subst chain_loop.simps) simp
next
  case (Cons c cs)
  then obtain a bs where as: "as = a # bs" "snd c = Some a" "map snd cs = map Some bs" by (cases as) auto
  obtain pr where c: "cells h (fst c) = Some \<lparr>elem_next = headp cs None, elem_prev = pr, elem_data = Some a\<rparr>"
    using Cons.prems(1) as by auto
  obtain x where x: "ais (world h) r = Some x" using Cons.prems(4) by auto
  let ?s = "(world h)\<lparr>ais := (ais (world h))(r \<mapsto> x\<lparr>ai_next := Some a\<rparr>)\<rparr>"
  have "chain_loop (headp cs None) (Some r0) (Some a) (h\<lparr>world := ?s\<rparr>) =
      Some (Some r0, Some (last (a # bs)), (h\<lparr>world := ?s\<rparr>)\<lparr>world := tie a bs (world (h\<lparr>world := ?s\<rparr>))\<rparr>)"
    by (rule Cons.IH) (use Cons.prems as in auto)
  then show ?case
    by (subst chain_loop.simps) (simp add: c x as)
qed


definition tie_all :: "nat list \<Rightarrow> net \<Rightarrow> net" where
  "tie_all as s = (case as of [] \<Rightarrow> s | r # rs \<Rightarrow> tie r rs s)"

lemma tie_all_bufs [simp]: "bufs (tie_all as s) = bufs s"
  by (simp add: tie_all_def split: list.split)

lemma chain_loop_all:
  assumes "fwd (cells h) cs None" "map snd cs = map Some as" "distinct as" "\<forall>a\<in>set as. ais (world h) a \<noteq> None"
  shows "chain_loop (headp cs None) None None h =
    Some (if as = [] then None else Some (hd as), if as = [] then None else Some (last as),
          h\<lparr>world := tie_all as (world h)\<rparr>)"
proof (cases as)
  case Nil
  then show ?thesis using assms(2) by (subst chain_loop.simps) (simp add: tie_all_def)
next
  case (Cons r rs)
  then obtain c cs' where cs: "cs = c # cs'" "snd c = Some r" "map snd cs' = map Some rs" using assms(2) by auto
  then obtain pr where c: "cells h (fst c) = Some \<lparr>elem_next = headp cs' None, elem_prev = pr, elem_data = Some r\<rparr>"
    using assms(1) by auto
  have "chain_loop (headp cs' None) (Some r) (Some r) h =
      Some (Some r, Some (last (r # rs)), h\<lparr>world := tie r rs (world h)\<rparr>)"
    by (rule chain_loop_tie) (use assms cs Cons in auto)
  then show ?thesis using cs c Cons
    by (subst chain_loop.simps) (simp add: tie_all_def)
qed

lemma chain_last: "chain m ns None \<Longrightarrow> ns \<noteq> [] \<Longrightarrow> m (fst (last ns)) = Some ((snd (last ns))\<lparr>ai_next := None\<rparr>)"
  by (induction ns) (auto split: if_splits)

lemma unlinked_node:
  "chain (ais s) ns None \<Longrightarrow> n \<in> set ns \<Longrightarrow> ais (unlinked (nodes ns) s) (fst n) = Some ((snd n)\<lparr>ai_next := None\<rparr>)"
proof -
  have "chain (ais s) ns e \<Longrightarrow> n \<in> set ns \<Longrightarrow> \<exists>q. ais s (fst n) = Some ((snd n)\<lparr>ai_next := q\<rparr>)" for e
    by (induction ns) auto
  then show "chain (ais s) ns None \<Longrightarrow> n \<in> set ns \<Longrightarrow> ?thesis" by fastforce
qed

definition sorted_ais :: "ainode list \<Rightarrow> ainode list" where
  "sorted_ais ns = rev (filter is_v6 ns) @ rev (filter is_mapped ns) @ rev (filter is_v4 ns)"

lemma set_sorted_ais: "set (sorted_ais ns) = set ns"
  by (auto simp: sorted_ais_def is_v6_def is_mapped_def is_v4_def)

lemma mset_sorted_ais: "mset (sorted_ais ns) = mset ns"
  by (induction ns) (auto simp: sorted_ais_def is_v6_def is_mapped_def is_v4_def)

lemma distinct_sorted_ais: "distinct (map fst ns) \<Longrightarrow> distinct (map fst (sorted_ais ns))"
  using mset_sorted_ais [of ns] by (metis mset_eq_imp_distinct_iff mset_map)

lemma pick_sorted: "pick is_v6 ns @ pick is_mapped ns @ pick is_v4 ns = map Some (map fst (sorted_ais ns))"
  by (simp add: sorted_ais_def rev_map)

lemma tie_all_chain:
  assumes c: "chain (ais s) ns None" and d: "distinct (map fst ns)"
  shows "chain (ais (tie_all (map fst (sorted_ais ns)) (unlinked (nodes ns) s))) (sorted_ais ns) None \<and>
    (\<forall>a. a \<notin> nodes ns \<longrightarrow> ais (tie_all (map fst (sorted_ais ns)) (unlinked (nodes ns) s)) a = ais s a)"
proof (cases "sorted_ais ns")
  case Nil
  then have "ns = []" using set_sorted_ais [of ns] by simp
  then show ?thesis by (simp add: tie_all_def sorted_ais_def)
next
  case (Cons m ms)
  let ?s = "unlinked (nodes ns) s"
  have all: "\<forall>n\<in>set (m # ms). ais ?s (fst n) = Some ((snd n)\<lparr>ai_next := None\<rparr>)"
    using set_sorted_ais [of ns] unlinked_node [OF c] Cons by simp
  have "chain (ais (tie (fst m) (map fst ms) ?s)) (m # ms) None"
    using tie_chain all distinct_sorted_ais [OF d] Cons by simp
  moreover have "nodes (m # ms) = nodes ns" using set_sorted_ais [of ns] Cons by simp
  then have "a \<notin> nodes ns \<Longrightarrow> ais (tie (fst m) (map fst ms) ?s) a = ais s a" for a
    using tie_outside [of a "fst m" "map fst ms" ?s] by auto
  ultimately show ?thesis by (simp add: Cons tie_all_def)
qed

lemma concat_three:
  assumes "three_at K h p q r a b c"
  shows "\<exists>v h2 v' h3. bctbx_list_concat h p q = Some (v, h2) \<and> bctbx_list_concat h2 v r = Some (v', h3) \<and>
    dlist h3 v' (a @ b @ c) \<and> world h3 = world h \<and>
    (\<forall>i\<in>addrs (a @ b @ c). K i = None) \<and> (\<forall>i. i \<notin> addrs (a @ b @ c) \<longrightarrow> cells h3 i = K i)"
proof -
  have da: "dlist h p a" and db: "dlist h q b" and dc: "dlist h r c" and
    disj: "addrs a \<inter> addrs b = {}" "addrs a \<inter> addrs c = {}" "addrs b \<inter> addrs c = {}" and
    Kin: "\<forall>i. i \<in> addrs a \<or> i \<in> addrs b \<or> i \<in> addrs c \<longrightarrow> K i = None" and
    Kout: "\<forall>i. i \<notin> addrs a \<and> i \<notin> addrs b \<and> i \<notin> addrs c \<longrightarrow> cells h i = K i"
    using assms by (simp_all add: three_at_def)
  obtain v h2 where 2: "bctbx_list_concat h p q = Some (v, h2)" "dlist h2 v (a @ b)"
    "\<And>i. i \<notin> addrs a \<union> addrs b \<Longrightarrow> cells h2 i = cells h i" "world h2 = world h"
    by (rule list_resultE [OF bctbx_list_concat_result [OF da db disj(1)]]) blast
  have "heap_ok h2" using 2(2) by (simp add: dlist_def)
  moreover have "cells h2 i = cells h i" if "i \<in> addrs c" for i
    by (rule 2(3)) (use that disj in blast)
  ultimately have dc2: "dlist h2 r c" using dlist_frame [OF dc] by blast
  have "addrs (a @ b) \<inter> addrs c = {}" using disj by auto
  from bctbx_list_concat_result [OF 2(2) dc2 this] obtain v' h3 where 3: "bctbx_list_concat h2 v r = Some (v', h3)"
    "dlist h3 v' ((a @ b) @ c)" "\<And>i. i \<notin> addrs (a @ b) \<union> addrs c \<Longrightarrow> cells h3 i = cells h2 i" "world h3 = world h2"
    by (rule list_resultE) blast
  have out: "\<forall>i. i \<notin> addrs (a @ b @ c) \<longrightarrow> cells h3 i = K i"
  proof (intro allI impI)
    fix i
    assume i: "i \<notin> addrs (a @ b @ c)"
    then have "cells h3 i = cells h2 i" by (intro 3(3)) auto
    also from i have "\<dots> = cells h i" by (intro 2(3)) auto
    finally show "cells h3 i = K i" using Kout i by auto
  qed
  have "\<forall>i\<in>addrs (a @ b @ c). K i = None" using Kin by auto
  with 2 3 out show ?thesis by (intro exI conjI; (assumption | simp))
qed


text \<open>
  C26: \<open>bctbx_addrinfo_sort\<close> returns a chain of exactly the blocks it was given, IPv6 first, then the
  mapped IPv4 addresses, then IPv4, as port.h says, each kind in the reverse of the order it came in.
  No block but those of the chain is written, the contents stay but for the links, and the list cells
  used on the way are all released.
\<close>

theorem addrinfo_sort_orders:
  assumes "chain (ais (world h)) ns None" "distinct (map fst ns)" "\<forall>n\<in>set ns. readable n" "heap_ok h"
  shows "\<exists>h'. bctbx_addrinfo_sort (nextp ns None) h = Some (nextp (sorted_ais ns) None, h') \<and>
    chain (ais (world h')) (sorted_ais ns) None \<and> mset (sorted_ais ns) = mset ns \<and>
    cells h' = cells h \<and> bufs (world h') = bufs (world h) \<and>
    (\<forall>a. a \<notin> nodes ns \<longrightarrow> ais (world h') a = ais (world h) a)"
proof -
  let ?as = "map fst (sorted_ais ns)"
  let ?s = "unlinked (nodes ns) (world h)"
  let ?t = "tie_all ?as ?s"
  have "three_at (cells h) h None None None [] [] []" using assms(4) by (simp add: three_at_def)
  then have "three (cells h) h None None None [] [] []" by (auto simp: three_def)
  from sort_loop_three [OF assms(1-3) this] obtain v6 vm v4 h1 where
    1: "sort_loop (nextp ns None) None None None h = Some (v6, vm, v4, h1)" "world h1 = ?s"
      "three (cells h) h1 v6 vm v4 (pick is_v6 ns) (pick is_mapped ns) (pick is_v4 ns)"
    by (elim exE conjE) simp
  from 1(3) obtain a b c where t: "three_at (cells h) h1 v6 vm v4 a b c"
    "map snd a = pick is_v6 ns" "map snd b = pick is_mapped ns" "map snd c = pick is_v4 ns"
    by (auto simp: three_def)
  from concat_three [OF t(1)] obtain v h2 v' h3 where
    2: "bctbx_list_concat h1 v6 vm = Some (v, h2)" "bctbx_list_concat h2 v v4 = Some (v', h3)"
      "dlist h3 v' (a @ b @ c)" "world h3 = ?s"
      "\<forall>i\<in>addrs (a @ b @ c). cells h i = None" "\<forall>i. i \<notin> addrs (a @ b @ c) \<longrightarrow> cells h3 i = cells h i"
    using 1(2) by (elim exE conjE) simp
  have ds: "map snd (a @ b @ c) = map Some ?as" using t(2-4) pick_sorted [of ns] by simp
  have live: "\<forall>a\<in>set ?as. ais (world h3) a \<noteq> None"
    using set_sorted_ais [of ns] unlinked_node [OF assms(1)] 2(4) by (auto; blast)
  note tc = tie_all_chain [OF assms(1,2)]
  obtain r0 r where 3: "chain_loop v' None None h3 = Some (r0, r, h3\<lparr>world := ?t\<rparr>)"
    "r0 = (if ?as = [] then None else Some (hd ?as))" "r = (if ?as = [] then None else Some (last ?as))"
    using chain_loop_all [OF dlist_fwd [OF 2(3)] ds distinct_sorted_ais [OF assms(2)] live] dlist_head [OF 2(3)] 2(4)
    by simp
  have 4: "(if r \<noteq> None then set_ai_next ?t r None else Some ?t) = Some ?t"
    using chain_last [of "ais ?t" "sorted_ais ns"] tc 3(3) by (simp add: last_map fun_upd_idem)
  have "dlist (h3\<lparr>world := ?t\<rparr>) v' (a @ b @ c)" using 2(3) by simp
  note freed = bctbx_list_free_result [OF this]
  have "(\<lambda>i. if i \<in> addrs (a @ b @ c) then None else cells (h3\<lparr>world := ?t\<rparr>) i) = cells h"
  proof
    fix i
    show "(if i \<in> addrs (a @ b @ c) then None else cells (h3\<lparr>world := ?t\<rparr>) i) = cells h i"
    proof (cases "i \<in> addrs (a @ b @ c)")
      case True
      with 2(5) have "cells h i = None" by (rule bspec)
      with True show ?thesis by presburger
    next
      case False
      with 2(6) show ?thesis by simp
    qed
  qed
  with freed have 5: "bctbx_list_free (h3\<lparr>world := ?t\<rparr>) v' = Some (None, h3\<lparr>world := ?t, cells := cells h\<rparr>)"
    by (simp only: lheap.simps)
  have "bctbx_addrinfo_sort (nextp ns None) h =
      Some (r0, h3\<lparr>world := ?t, cells := cells h\<rparr>)"
    using 4 5 by (cases r) (simp_all add: bctbx_addrinfo_sort_def 1(1) 2(1,2) 3(1) del: set_ai_next_Some)
  moreover have "r0 = nextp (sorted_ais ns) None"
    using 3(2) by (cases "sorted_ais ns") simp_all
  ultimately show ?thesis using tc mset_sorted_ais
    by (intro exI [of _ "h3\<lparr>world := ?t, cells := cells h\<rparr>"]) (simp add: tie_all_def split: list.split)
qed


definition demo_ai :: "int \<Rightarrow> byte list \<Rightarrow> canonname \<Rightarrow> owner \<Rightarrow> addrinfo" where
  "demo_ai family addr name own =
     \<lparr>ai_flags = 0, ai_family = family, ai_socktype = 0, ai_protocol = 0, ai_addrlen = 28, ai_addr = addr,
      ai_canonname = name, ai_next = None, ai_owner = own\<rparr>"

definition demo_ais :: "ainode list" where
  "demo_ais = [(7, demo_ai AF_INET (replicate 16 0) NoName By_libc),
               (3, demo_ai AF_INET6 (replicate 28 0) NoName By_libc),
               (5, demo_ai AF_INET (replicate 16 1) Allocated_by_bctbx_magic By_bctbx)]"

definition demo_net :: net where
  "demo_net = \<lparr>bufs = (\<lambda>_. None),
     ais = [7 \<mapsto> (snd (demo_ais ! 0))\<lparr>ai_next := Some 3\<rparr>, 3 \<mapsto> (snd (demo_ais ! 1))\<lparr>ai_next := Some 5\<rparr>,
            5 \<mapsto> snd (demo_ais ! 2)],
     ai_brk = 8\<rparr>"

lemma demo_chain: "chain (ais demo_net) demo_ais None" "distinct (map fst demo_ais)" "demo_ais \<noteq> []"
  "\<forall>n\<in>set demo_ais. readable n" "\<forall>n\<in>set demo_ais. marked n"
  by (simp_all add: demo_net_def demo_ais_def demo_ai_def readable_def marked_def AF_INET_def AF_INET6_def)

lemma demo_sorted: "map fst (sorted_ais demo_ais) = [3, 5, 7]"
  by (simp add: demo_ais_def demo_ai_def sorted_ais_def is_v6_def is_mapped_def is_v4_def AF_INET_def AF_INET6_def
      IN6_IS_ADDR_V4MAPPED_def eval_nat_numeral)

theorem addrinfo_sort_orders_witness:
  "\<exists>h'. bctbx_addrinfo_sort (Some 7) \<lparr>cells = (\<lambda>_. None), brk = 0, world = demo_net\<rparr> = Some (Some 3, h') \<and>
    map_option ai_next (ais (world h') 3) = Some (Some 5) \<and> map_option ai_next (ais (world h') 5) = Some (Some 7) \<and>
    map_option ai_next (ais (world h') 7) = Some None"
proof -
  let ?h = "\<lparr>cells = (\<lambda>_. None), brk = 0, world = demo_net\<rparr>"
  have "heap_ok ?h" by (simp add: heap_ok_def)
  then obtain h' where h': "bctbx_addrinfo_sort (nextp demo_ais None) ?h = Some (nextp (sorted_ais demo_ais) None, h')"
    "chain (ais (world h')) (sorted_ais demo_ais) None"
    using addrinfo_sort_orders [of ?h demo_ais] demo_chain by auto
  obtain x y z where "sorted_ais demo_ais = [(3, x), (5, y), (7, z)]"
    using demo_sorted by (auto simp: map_eq_Cons_conv)
  with h' show ?thesis by (simp add: demo_ais_def)
qed

text \<open>
  C25: \<open>bctbx_freeaddrinfo\<close> on a chain that mixes blocks of bctoolbox with blocks of the C library, in any
  order, releases every block of the chain exactly once and to the allocator it came from, provided that
  the mark in \<open>ai_canonname\<close> tells the two apart; nothing else is touched.  On an empty chain it has
  no value, although a name that does not resolve is answered with an empty chain.
\<close>

theorem freeaddrinfo_by_owner:
  assumes "chain (ais s) ns None" "distinct (map fst ns)" "\<forall>n\<in>set ns. marked n"
  shows "bctbx_freeaddrinfo (nextp ns None) s = (if ns = [] then None else Some (without (nodes ns) s))"
  using freeaddrinfo_chain [OF assms(1,2) _ assms(3)] by (cases ns) (simp_all add: bctbx_freeaddrinfo_def)

theorem freeaddrinfo_by_owner_witness:
  "map_option (\<lambda>s. map (ais s) [3, 5, 7]) (bctbx_freeaddrinfo (Some 7) demo_net) = Some [None, None, None] \<and>
   bctbx_freeaddrinfo None demo_net = None"
  using freeaddrinfo_by_owner [OF demo_chain(1,2,5)] freeaddrinfo_by_owner [of demo_net "[]"]
  by (simp add: demo_ais_def)

end
