(* ===== verification/SockAddrProps.thy ===== *)
theory SockAddrProps
  imports AddrInfoProps
begin

text \<open>
  The conversions between IPv4 and IPv6 socket addresses, in place and out of place, and the printing
  of addresses.
\<close>

section \<open>Bytes\<close>

lemma put_at_mid: "off = length xs \<Longrightarrow> length cs = length ys \<Longrightarrow> put_at (xs @ ys @ zs) off cs = Some (xs @ cs @ zs)"
  by (simp add: put_at_def)

lemma bytes_at_mid: "off = length xs \<Longrightarrow> n = length ys \<Longrightarrow> bytes_at (xs @ ys @ zs) off n = Some ys"
  by (simp add: bytes_at_def)

lemma bytes_at_Some [simp]: "off + n \<le> length b \<Longrightarrow> bytes_at b off n = Some (take n (drop off b))"
  by (simp add: bytes_at_def)

lemma family_of_bytes [simp]: "family_of (family_bytes AF_INET) = AF_INET" "family_of (family_bytes AF_INET6) = AF_INET6"
  "length (family_bytes f) = 2"
  by (simp_all add: family_of_def family_bytes_def AF_INET_def AF_INET6_def)

lemma families_differ [simp]: "AF_INET \<noteq> AF_INET6" "AF_INET6 \<noteq> AF_INET" "AF_INET \<noteq> 0" "AF_INET6 \<noteq> 0"
  by (simp_all add: AF_INET_def AF_INET6_def)

text \<open>A buffer whose front is an address: family, port, then the IPv4 address or 24 bytes.\<close>

definition v4_front :: "byte list \<Rightarrow> byte list \<Rightarrow> byte list" where
  "v4_front port addr = family_bytes AF_INET @ port @ addr"

definition v4mapped_front :: "byte list \<Rightarrow> byte list \<Rightarrow> byte list" where
  "v4mapped_front port addr =
     family_bytes AF_INET6 @ port @ replicate 14 0 @ [0xff, 0xff] @ addr @ replicate 4 0"

abbreviation port_bytes :: "byte list \<Rightarrow> byte list" where
  "port_bytes b \<equiv> take 2 (drop 2 b)"

lemma v4mapped_addr_zero:
  assumes "8 \<le> length b"
  shows "v4mapped_addr (replicate sizeof_sockaddr_storage 0) b =
    Some (v4mapped_front (port_bytes b) (take 4 (drop 4 b)) @ replicate 100 0)"
proof -
  let ?f = "family_bytes AF_INET6"
  let ?port = "port_bytes b"
  let ?addr = "take 4 (drop 4 b)"
  let ?z = "replicate 104 (0::byte)"
  have one: "[0::byte] = replicate 1 0" by simp
  have z: "replicate sizeof_sockaddr_storage (0::byte) =
      [] @ replicate 2 0 @ (replicate 2 0 @ replicate 14 0 @ [0] @ [0] @ replicate 4 0 @ ?z)"
    unfolding sizeof_sockaddr_storage_def one append_Nil by (simp only: replicate_add [symmetric]) simp
  have p0: "put_at (replicate sizeof_sockaddr_storage 0) 0 ?f =
      Some (?f @ replicate 2 0 @ replicate 14 0 @ [0] @ [0] @ replicate 4 0 @ ?z)"
    unfolding z by (subst put_at_mid) simp_all
  have p1: "put_at (?f @ replicate 2 0 @ replicate 14 0 @ [0] @ [0] @ replicate 4 0 @ ?z) (8 + 10) [0xff] =
      Some (?f @ replicate 2 0 @ replicate 14 0 @ [0xff] @ [0] @ replicate 4 0 @ ?z)"
    using put_at_mid [of "8 + 10" "?f @ replicate 2 0 @ replicate 14 0" "[0xff]" "[0]" "[0] @ replicate 4 0 @ ?z"] by simp
  have p2: "put_at (?f @ replicate 2 0 @ replicate 14 0 @ [0xff] @ [0] @ replicate 4 0 @ ?z) (8 + 11) [0xff] =
      Some (?f @ replicate 2 0 @ replicate 14 0 @ [0xff] @ [0xff] @ replicate 4 0 @ ?z)"
    using put_at_mid [of "8 + 11" "?f @ replicate 2 0 @ replicate 14 0 @ [0xff]" "[0xff]" "[0]" "replicate 4 0 @ ?z"] by simp
  have p3: "put_at (?f @ replicate 2 0 @ replicate 14 0 @ [0xff] @ [0xff] @ replicate 4 0 @ ?z) (8 + 12) ?addr =
      Some (?f @ replicate 2 0 @ replicate 14 0 @ [0xff] @ [0xff] @ ?addr @ ?z)"
    using put_at_mid [of "8 + 12" "?f @ replicate 2 0 @ replicate 14 0 @ [0xff] @ [0xff]" ?addr "replicate 4 0" ?z] assms
    by simp
  have p4: "put_at (?f @ replicate 2 0 @ replicate 14 0 @ [0xff] @ [0xff] @ ?addr @ ?z) 2 ?port =
      Some (?f @ ?port @ replicate 14 0 @ [0xff] @ [0xff] @ ?addr @ ?z)"
    using put_at_mid [of 2 ?f ?port "replicate 2 0" "replicate 14 0 @ [0xff] @ [0xff] @ ?addr @ ?z"] assms by simp
  have "?z = replicate 4 0 @ replicate 100 0" by (simp add: replicate_add [symmetric])
  with p0 p1 p2 p3 p4 assms show ?thesis
    by (simp add: v4mapped_addr_def sin_addr_def sin_port_def v4mapped_front_def)
qed


section \<open>Conversions\<close>

lemma buf_put_front:
  assumes "bufs s p = Some b" "length cs \<le> length b"
  shows "buf_put s p 0 cs = Some (s\<lparr>bufs := (bufs s)(p \<mapsto> cs @ drop (length cs) b)\<rparr>)"
  using assms by (simp add: buf_put_def put_at_def)

lemma buf_read_Some [simp]: "bufs s p = Some b \<Longrightarrow> off + n \<le> length b \<Longrightarrow> buf_read s p off n = Some (take n (drop off b))"
  by (simp add: buf_read_def)

lemma take_ipv4_result:
  assumes "bufs s p = Some b" "24 \<le> length b" "bufs s r = Some d" "8 \<le> length d"
  shows "take_ipv4 p r s =
    Some (16, s\<lparr>bufs := (bufs s)(r \<mapsto> v4_front (port_bytes b) (take 4 (drop 20 b)) @ drop 8 d)\<rparr>)"
proof -
  have len: "length (take 2 d) = 2" "length (take 2 (drop 2 d)) = 2" "length (take 4 (drop 4 d)) = 4"
    using assms(4) by simp_all
  have "d = take 2 d @ take 2 (drop 2 d) @ take 4 (drop 2 (drop 2 d)) @ drop 4 (drop 2 (drop 2 d))"
    by (simp only: append_take_drop_id)
  then obtain x y z dr where d: "d = x @ y @ z @ dr" "length x = 2" "length y = 2" "length z = 4"
    using len by (metis add_numeral_left drop_drop numeral_Bit0)
  let ?a = "take 4 (drop 20 b)" and ?f = "family_bytes AF_INET"
  let ?s1 = "s\<lparr>bufs := (bufs s)(r \<mapsto> ?f @ y @ z @ dr)\<rparr>"
  let ?s2 = "?s1\<lparr>bufs := (bufs ?s1)(r \<mapsto> ?f @ y @ ?a @ dr)\<rparr>"
  have 1: "buf_put s r 0 ?f = Some ?s1"
    using buf_put_front [OF assms(3), of ?f] by (simp add: d)
  have "take 4 (drop 20 (?f @ drop 2 b)) = ?a" by simp
  then have 2: "buf_read ?s1 p (8 + 12) 4 = Some ?a"
    using assms d by (cases "r = p") simp_all
  have la: "length ?a = 4" using assms(2) by simp
  have 3: "buf_put ?s1 r 4 ?a = Some ?s2"
    using put_at_mid [of 4 "?f @ y" ?a "z" dr] la d by (simp add: buf_put_def)
  have 4: "buf_read ?s2 p 2 2 = Some (port_bytes b)"
    using assms d la by (cases "r = p") simp_all
  have "length (port_bytes b) = 2" using assms(2) by simp
  then have 5: "buf_put ?s2 r 2 (port_bytes b) =
      Some (?s2\<lparr>bufs := (bufs ?s2)(r \<mapsto> ?f @ port_bytes b @ ?a @ dr)\<rparr>)"
    using put_at_mid [of 2 ?f "port_bytes b" "y" "?a @ dr"] d by (simp add: buf_put_def)
  show ?thesis
    using 1 2 3 4 5 by (simp add: take_ipv4_def v4_front_def d sizeof_sockaddr_in_def)
qed

lemma remove_v4_mapping_result:
  assumes "bufs s p = Some b" "28 \<le> length b" "sa_family b = Some AF_INET6" "bufs s r = Some d" "28 \<le> length d"
  shows "bctbx_sockaddr_remove_v4_mapping p r s =
    (if IN6_IS_ADDR_V4MAPPED (take 16 (drop 8 b))
     then Some (16, s\<lparr>bufs := (bufs s)(r \<mapsto> v4_front (port_bytes b) (take 4 (drop 20 b)) @ drop 8 d)\<rparr>)
     else Some (28, s\<lparr>bufs := (bufs s)(r \<mapsto> (if r = p then b else take 28 b @ drop 28 d))\<rparr>))"
proof -
  have "family_of (take 2 b) = AF_INET6" using assms(2,3) by (simp add: sa_family_def)
  moreover have "buf_copy s r p sizeof_sockaddr_in6 =
      Some (s\<lparr>bufs := (bufs s)(r \<mapsto> (if r = p then b else take 28 b @ drop 28 d))\<rparr>)"
    using assms buf_put_front [OF assms(4), of "take 28 b"]
    by (auto simp: buf_copy_def sizeof_sockaddr_in6_def fun_upd_idem)
  ultimately show ?thesis
    using assms take_ipv4_result [OF assms(1) _ assms(4)]
    by (simp add: bctbx_sockaddr_remove_v4_mapping_def sizeof_sockaddr_in6_def)
qed

lemma remove_nat64_result:
  assumes "bufs s p = Some b" "28 \<le> length b" "sa_family b = Some AF_INET6" "bufs s r = Some d" "28 \<le> length d"
  shows "bctbx_sockaddr_remove_nat64_mapping p r s =
    (if take 4 (drop 8 b) = [0x00, 0x64, 0xff, 0x9b]
     then Some (16, s\<lparr>bufs := (bufs s)(r \<mapsto> v4_front (port_bytes b) (take 4 (drop 20 b)) @ drop 8 d)\<rparr>)
     else Some (28, s\<lparr>bufs := (bufs s)(r \<mapsto> (if r = p then b else take 28 b @ drop 28 d))\<rparr>))"
proof -
  have "family_of (take 2 b) = AF_INET6" using assms(2,3) by (simp add: sa_family_def)
  moreover have "buf_copy s r p 28 =
      Some (s\<lparr>bufs := (bufs s)(r \<mapsto> (if r = p then b else take 28 b @ drop 28 d))\<rparr>)"
    using assms buf_put_front [OF assms(4), of "take 28 b"]
    by (auto simp: buf_copy_def fun_upd_idem)
  ultimately show ?thesis
    using assms take_ipv4_result [OF assms(1) _ assms(4)]
    by (simp add: bctbx_sockaddr_remove_nat64_mapping_def sizeof_sockaddr_in6_def)
qed

lemma convert_single:
  assumes "ais s a = Some x" "ai_next x = None" "a < ai_brk s" "8 \<le> length (ai_addr x)"
  shows "\<exists>y. convert_to_v4mapped (Some a) s = Some (Some (ai_brk s), s\<lparr>ais := (ais s)(ai_brk s \<mapsto> y), ai_brk := Suc (ai_brk s)\<rparr>) \<and>
    ai_addr y = v4mapped_front (port_bytes (ai_addr x)) (take 4 (drop 4 (ai_addr x))) @ replicate 100 0 \<and>
    ai_next y = None \<and> ai_canonname y = Allocated_by_bctbx_magic \<and> ai_owner y = By_bctbx"
  using assms v4mapped_addr_zero [OF assms(4)]
  by (intro exI [of _ "\<lparr>ai_flags = AI_V4MAPPED, ai_family = AF_INET6, ai_socktype = ai_socktype x,
      ai_protocol = ai_protocol x, ai_addrlen = sizeof_sockaddr_in6,
      ai_addr = v4mapped_front (port_bytes (ai_addr x)) (take 4 (drop 4 (ai_addr x))) @ replicate 100 0,
      ai_canonname = Allocated_by_bctbx_magic, ai_next = None, ai_owner = By_bctbx\<rparr>"])
    (simp add: convert_to_v4mapped_def v4mapped_loop.simps bctbx_alloc_addrinfo_def ai_write_def)

lemma ipv4_to_ipv6_result:
  assumes b: "bufs s p = Some b" "8 \<le> length b" "sa_family b = Some AF_INET" and c: "bufs s q = Some c" "28 \<le> length c"
    and fresh: "\<forall>a\<ge>ai_brk s. ais s a = None"
  shows "bctbx_sockaddr_ipv4_to_ipv6 p q s =
    Some (Some 28, s\<lparr>bufs := (bufs s)(q \<mapsto> v4mapped_front (port_bytes b) (take 4 (drop 4 b)) @ drop 28 c),
                     ai_brk := ai_brk s + 2\<rparr>)"
proof -
  let ?a = "ai_brk s"
  let ?front = "v4mapped_front (port_bytes b) (take 4 (drop 4 b))"
  let ?x = "\<lparr>ai_flags = 0, ai_family = AF_INET, ai_socktype = 0, ai_protocol = 0, ai_addrlen = sizeof_sockaddr_in,
             ai_addr = b, ai_canonname = NoName, ai_next = None, ai_owner = By_libc\<rparr>"
  let ?s1 = "s\<lparr>ais := (ais s)(?a \<mapsto> ?x), ai_brk := Suc ?a\<rparr>"
  from convert_single [of ?s1 ?a ?x] obtain y where
    y: "convert_to_v4mapped (Some ?a) ?s1 = Some (Some (Suc ?a), ?s1\<lparr>ais := (ais ?s1)(Suc ?a \<mapsto> y), ai_brk := Suc (Suc ?a)\<rparr>)"
      "ai_addr y = ?front @ replicate 100 0" "ai_next y = None" "ai_canonname y = Allocated_by_bctbx_magic" "ai_owner y = By_bctbx"
    using b(2) by auto
  let ?s2 = "?s1\<lparr>ais := (ais ?s1)(Suc ?a \<mapsto> y), ai_brk := Suc (Suc ?a)\<rparr>"
  let ?s3 = "?s2\<lparr>bufs := (bufs s)(q \<mapsto> ?front @ drop 28 c)\<rparr>"
  have len: "length ?front = 28" using b(2) by (simp add: v4mapped_front_def)
  then have t: "take 28 (ai_addr y) = ?front" using y(2) by simp
  have put: "buf_put ?s2 q 0 ?front = Some ?s3"
    using buf_put_front [of ?s2 q c ?front] c len by simp
  have "chain (ais ?s3) [(Suc ?a, y)] None" using y(3) by simp
  then have free: "bctbx_freeaddrinfo (Some (Suc ?a)) ?s3 = Some (without {Suc ?a} ?s3)"
    using freeaddrinfo_chain [of ?s3 "[(Suc ?a, y)]"] y by (simp add: marked_def)
  have "(without {Suc ?a} ?s3)\<lparr>ais := (ais (without {Suc ?a} ?s3))(?a := None)\<rparr> =
      s\<lparr>bufs := (bufs s)(q \<mapsto> ?front @ drop 28 c), ai_brk := ai_brk s + 2\<rparr>"
    using fresh by (intro net.equality) (auto simp: fun_eq_iff)
  then show ?thesis using b y(1) t put free
    by (simp add: bctbx_sockaddr_ipv4_to_ipv6_def sizeof_sockaddr_in6_def)
qed


section \<open>Properties\<close>

text \<open>
  C27: An IPv4 address made IPv6 and IPv4 again compares equal to the original, whatever buffers are
  used, the same one included; the intermediate address is an IPv6 one of the mapped kind, the blocks
  used on the way are released, and no other buffer is written.
\<close>

theorem sockaddr_v4_v6_roundtrip:
  assumes "bufs s p = Some b" "8 \<le> length b" "sa_family b = Some AF_INET"
    and "bufs s q = Some c" "28 \<le> length c" "bufs s r = Some d" "28 \<le> length d"
    and "\<forall>a\<ge>ai_brk s. ais s a = None"
  shows "\<exists>s1 s2 m z. bctbx_sockaddr_ipv4_to_ipv6 p q s = Some (Some 28, s1) \<and> bufs s1 q = Some m \<and>
    sa_family m = Some AF_INET6 \<and> map_option IN6_IS_ADDR_V4MAPPED (sin6_addr m) = Some True \<and>
    bctbx_sockaddr_ipv6_to_ipv4 q r s1 = Some (16, s2) \<and> bufs s2 r = Some z \<and>
    bctbx_sockaddr_equals z b = Some True \<and> ais s2 = ais s \<and>
    (\<forall>i. i \<noteq> q \<and> i \<noteq> r \<longrightarrow> bufs s2 i = bufs s i)"
proof -
  let ?port = "port_bytes b" and ?addr = "take 4 (drop 4 b)"
  let ?m = "v4mapped_front ?port ?addr @ drop 28 c"
  have len: "length ?port = 2" "length ?addr = 4" using assms(2) by simp_all
  obtain m where mdef: "m = ?m" by blast
  let ?s1 = "s\<lparr>bufs := (bufs s)(q \<mapsto> m), ai_brk := ai_brk s + 2\<rparr>"
  have d8: "drop 8 m = replicate 10 0 @ [0xff, 0xff] @ ?addr @ replicate 4 0 @ drop 28 c"
    using len by (simp add: mdef v4mapped_front_def)
  have d20: "drop 20 m = ?addr @ replicate 4 0 @ drop 28 c"
    using arg_cong [OF d8, of "drop 12"] by simp
  have m: "28 \<le> length m" "sa_family m = Some AF_INET6" "port_bytes m = ?port"
    "take 16 (drop 8 m) = replicate 10 0 @ [0xff, 0xff] @ ?addr" "take 4 (drop 20 m) = ?addr"
    using len unfolding d8 d20 by (simp_all add: mdef v4mapped_front_def sa_family_def)
  have mapped: "IN6_IS_ADDR_V4MAPPED (take 16 (drop 8 m))" unfolding m(4) by (simp add: IN6_IS_ADDR_V4MAPPED_def)
  obtain e where e: "bufs ?s1 r = Some e" "28 \<le> length e" using assms(6,7) m(1) by (cases "r = q") simp_all
  let ?z = "v4_front ?port ?addr @ drop 8 e"
  have return: "bctbx_sockaddr_ipv6_to_ipv4 q r ?s1 = Some (16, ?s1\<lparr>bufs := (bufs ?s1)(r \<mapsto> ?z)\<rparr>)"
    using remove_v4_mapping_result [of ?s1 q m r e] m e mapped by (simp add: bctbx_sockaddr_ipv6_to_ipv4_def)
  have "sa_family ?z = Some AF_INET" "sin_port ?z = Some ?port" "sin_addr ?z = Some ?addr"
    using len by (simp_all add: v4_front_def sa_family_def sin_port_def sin_addr_def)
  then have equals: "bctbx_sockaddr_equals ?z b = Some True"
    using assms(2,3) by (simp add: bctbx_sockaddr_equals_def sin_port_def sin_addr_def)
  then show ?thesis
    using ipv4_to_ipv6_result [OF assms(1-5,8), folded mdef] return m(1,2) mapped equals
    by (intro exI [of _ ?s1] exI [of _ "?s1\<lparr>bufs := (bufs ?s1)(r \<mapsto> ?z)\<rparr>"] exI [of _ m] exI [of _ ?z])
      (simp add: sin6_addr_def)
qed


definition demo_bufs :: net where
  "demo_bufs = \<lparr>bufs = [0 \<mapsto> [2, 0, 0x13, 0xc4, 192, 0, 2, 7, 0, 0, 0, 0, 0, 0, 0, 0],
                         1 \<mapsto> replicate 28 0xAA, 2 \<mapsto> replicate 28 0xBB],
               ais = (\<lambda>_. None), ai_brk = 0\<rparr>"

theorem sockaddr_v4_v6_roundtrip_witness:
  "\<exists>s1 s2. bctbx_sockaddr_ipv4_to_ipv6 0 1 demo_bufs = Some (Some 28, s1) \<and>
    bctbx_sockaddr_ipv6_to_ipv4 1 1 s1 = Some (16, s2) \<and> bufs s2 2 = bufs demo_bufs 2"
proof -
  have "\<exists>s1 s2 m z. bctbx_sockaddr_ipv4_to_ipv6 0 1 demo_bufs = Some (Some 28, s1) \<and> bufs s1 1 = Some m \<and>
    sa_family m = Some AF_INET6 \<and> map_option IN6_IS_ADDR_V4MAPPED (sin6_addr m) = Some True \<and>
    bctbx_sockaddr_ipv6_to_ipv4 1 1 s1 = Some (16, s2) \<and> bufs s2 1 = Some z \<and>
    bctbx_sockaddr_equals z (the (bufs demo_bufs 0)) = Some True \<and> ais s2 = ais demo_bufs \<and>
    (\<forall>i. i \<noteq> 1 \<and> i \<noteq> 1 \<longrightarrow> bufs s2 i = bufs demo_bufs i)"
    by (rule sockaddr_v4_v6_roundtrip [of _ _ _ _ "replicate 28 0xAA" _ "replicate 28 0xAA"])
      (simp_all add: demo_bufs_def sa_family_def family_of_def AF_INET_def)
  then show ?thesis by (elim exE conjE) (intro exI conjI, assumption+, simp)
qed

text \<open>
  The two functions that remove a mapping, with the same buffer for both addresses or with two.
  An IPv6 address of the mapped kind gives the IPv4 address made of its last four bytes and the same
  port, any other IPv6 address is copied, or left alone in place.  A NAT64 address is told by its first
  four bytes only, not by the 96 bits of the well-known prefix.
\<close>

theorem sockaddr_mappings_removed:
  assumes "bufs s p = Some b" "28 \<le> length b" "sa_family b = Some AF_INET6" "bufs s r = Some d" "28 \<le> length d"
  shows "let v4 = Some (16, s\<lparr>bufs := (bufs s)(r \<mapsto> v4_front (port_bytes b) (take 4 (drop 20 b)) @ drop 8 d)\<rparr>);
             same = Some (28, s\<lparr>bufs := (bufs s)(r \<mapsto> (if r = p then b else take 28 b @ drop 28 d))\<rparr>)
         in bctbx_sockaddr_remove_v4_mapping p r s =
              (if take 12 (drop 8 b) = replicate 10 0 @ [0xff, 0xff] then v4 else same) \<and>
            bctbx_sockaddr_remove_nat64_mapping p r s =
              (if take 4 (drop 8 b) = [0x00, 0x64, 0xff, 0x9b] then v4 else same)"
proof -
  have "take 12 (take 16 (drop 8 b)) = take 12 (drop 8 b)" by (simp add: min_def)
  then show ?thesis
    unfolding Let_def remove_v4_mapping_result [OF assms] remove_nat64_result [OF assms] IN6_IS_ADDR_V4MAPPED_def
    by simp
qed

text \<open>The address 64:ff9b:1::2 with port 80: its prefix is not that of NAT64.\<close>

theorem sockaddr_mappings_removed_witness:
  "map_option (map (\<lambda>w. unat w) \<circ> take 8) (Option.bind (bctbx_sockaddr_remove_nat64_mapping 0 0
      \<lparr>bufs = [0 \<mapsto> [10, 0, 0, 80, 0, 0, 0, 0, 0x00, 0x64, 0xff, 0x9b, 0, 1, 0, 0, 0, 0, 0, 0, 0, 0, 0, 2, 0, 0, 0, 0]],
       ais = (\<lambda>_. None), ai_brk = 0\<rparr>) (\<lambda>(n, s). bufs s 0)) = Some [2, 0, 0, 80, 0, 0, 0, 2]"
proof -
  let ?b = "[10, 0, 0, 80, 0, 0, 0, 0, 0x00, 0x64, 0xff, 0x9b, 0, 1, 0, 0, 0, 0, 0, 0, 0, 0, 0, 2, 0, 0, 0, 0] :: byte list"
  let ?s = "\<lparr>bufs = [0 \<mapsto> ?b], ais = (\<lambda>_. None), ai_brk = 0\<rparr>"
  have a: "bufs ?s 0 = Some ?b" "28 \<le> length ?b" "sa_family ?b = Some AF_INET6"
    by (simp_all add: sa_family_def family_of_def AF_INET6_def)
  have "take 4 (drop 8 ?b) = [0x00, 0x64, 0xff, 0x9b]" by simp
  then have "bctbx_sockaddr_remove_nat64_mapping 0 0 ?s =
      Some (16, ?s\<lparr>bufs := (bufs ?s)(0 \<mapsto> v4_front (port_bytes ?b) (take 4 (drop 20 ?b)) @ drop 8 ?b)\<rparr>)"
    using sockaddr_mappings_removed [OF a a(1,2)] by (simp add: Let_def)
  then show ?thesis by (simp add: v4_front_def family_bytes_def AF_INET_def)
qed

section \<open>Printing\<close>

text \<open>
  The printable form of an address is host and service joined by a colon, the host of an IPv6
  address in brackets, cut to the buffer.  When the lookup of the name fails the service is printed
  although nothing was stored in it, which is undefined.
\<close>

theorem printable_address_forms:
  assumes "gni (ai_addr ai) (ai_addrlen ai) 64 16 (NI_NUMERICHOST OR NI_NUMERICSERV) = r"
    and "ai_family ai = AF_INET \<or> ai_family ai = AF_INET6" "0 < n" "n \<le> size_of out"
  shows "bctbx_addrinfo_to_printable_ip_address gni ai out n =
    (case r of
       Inl err \<Rightarrow> None
     | Inr (host, serv) \<Rightarrow>
         (let form = (if ai_family ai = AF_INET then host @ '':'' @ serv else ''['' @ host @ '']:'' @ serv)
          in Some (0, out\<lparr>bytes := memcpy_to (bytes out) 0 (take (n - 1) form @ [NUL])\<rparr>)))"
  using assms(2,3,4)
  by (auto simp: bctbx_addrinfo_to_printable_ip_address_def bctbx_getnameinfo_def assms(1) snprintf_at_def
      buf_write_def Let_def min_def split: sum.split)

definition demo_gni :: getnameinfo_fn where
  "demo_gni addr len hostlen servlen flags =
     (if len = 16 then Inr (''192.0.2.7'', ''5060'') else if len = 28 then Inr (''::1'', ''5060'') else Inl 1)"

theorem printable_address_forms_witness:
  "map_option (\<lambda>(_, b). buf_string b 14) (bctbx_addrinfo_to_printable_ip_address demo_gni
     ((demo_ai AF_INET (replicate 16 0) NoName By_libc)\<lparr>ai_addrlen := 16\<rparr>) (cmalloc 64) 64) = Some ''192.0.2.7:5060'' \<and>
   map_option (\<lambda>(_, b). buf_string b 10) (bctbx_addrinfo_to_printable_ip_address demo_gni
     (demo_ai AF_INET6 (replicate 28 0) NoName By_libc) (cmalloc 64) 64) = Some ''[::1]:5060''"
  using printable_address_forms [of demo_gni "(demo_ai AF_INET (replicate 16 0) NoName By_libc)\<lparr>ai_addrlen := 16\<rparr>" _ 64 "cmalloc 64"]
    printable_address_forms [of demo_gni "demo_ai AF_INET6 (replicate 28 0) NoName By_libc" _ 64 "cmalloc 64"]
  by (simp add: demo_gni_def demo_ai_def buf_string_def aslice_def memcpy_to_def upt_rec Let_def)

end
