(* ===== verification/VSocket.thy ===== *)
theory VSocket
  imports SockAddrProps
begin

text \<open>
  The replaceable socket functions of src/vconnect.c, and the search for the local address of
  src/utils/port.c, which mixes them with direct system calls.  The system calls are a parameter: a
  record of functions on a state of the kernel, \<open>'x\<close>.
\<close>

section \<open>Methods\<close>

text \<open>
  A call that fills in an address or an option answers the bytes and their length besides its result.
\<close>

record 'x bctbx_vsocket_methods_t =
  pFuncSocket :: "int \<Rightarrow> int \<Rightarrow> int \<Rightarrow> 'x \<Rightarrow> int \<times> 'x"
  pFuncConnect :: "int \<Rightarrow> byte list \<Rightarrow> nat \<Rightarrow> 'x \<Rightarrow> int \<times> 'x"
  pFuncBind :: "int \<Rightarrow> byte list \<Rightarrow> nat \<Rightarrow> 'x \<Rightarrow> int \<times> 'x"
  pFuncGetSockName :: "int \<Rightarrow> nat \<Rightarrow> 'x \<Rightarrow> (int \<times> byte list \<times> nat) \<times> 'x"
  pFuncGetSockOpt :: "int \<Rightarrow> int \<Rightarrow> int \<Rightarrow> nat \<Rightarrow> 'x \<Rightarrow> (int \<times> byte list \<times> nat) \<times> 'x"
  pFuncSetSockOpt :: "int \<Rightarrow> int \<Rightarrow> int \<Rightarrow> byte list \<Rightarrow> nat \<Rightarrow> 'x \<Rightarrow> int \<times> 'x"
  pFuncClose :: "int \<Rightarrow> 'x \<Rightarrow> int \<times> 'x"
  pFuncGetError :: "int \<Rightarrow> string"
  pFuncShutdown :: "int \<Rightarrow> int \<Rightarrow> 'x \<Rightarrow> int \<times> 'x"

record 'x bctbx_vsocket_api_t =
  vSockName :: string
  pSocketMethods :: "'x bctbx_vsocket_methods_t"

text \<open>The system calls the wrappers hand over to.\<close>

record 'x kernel =
  sys_socket :: "int \<Rightarrow> int \<Rightarrow> int \<Rightarrow> 'x \<Rightarrow> int \<times> 'x"
  sys_connect :: "int \<Rightarrow> byte list \<Rightarrow> nat \<Rightarrow> 'x \<Rightarrow> int \<times> 'x"
  sys_bind :: "int \<Rightarrow> byte list \<Rightarrow> nat \<Rightarrow> 'x \<Rightarrow> int \<times> 'x"
  sys_getsockname :: "int \<Rightarrow> nat \<Rightarrow> 'x \<Rightarrow> (int \<times> byte list \<times> nat) \<times> 'x"
  sys_getsockopt :: "int \<Rightarrow> int \<Rightarrow> int \<Rightarrow> nat \<Rightarrow> 'x \<Rightarrow> (int \<times> byte list \<times> nat) \<times> 'x"
  sys_setsockopt :: "int \<Rightarrow> int \<Rightarrow> int \<Rightarrow> byte list \<Rightarrow> nat \<Rightarrow> 'x \<Rightarrow> int \<times> 'x"
  sys_close :: "int \<Rightarrow> 'x \<Rightarrow> int \<times> 'x"
  sys_strerror :: "int \<Rightarrow> string"
  sys_shutdown :: "int \<Rightarrow> int \<Rightarrow> 'x \<Rightarrow> int \<times> 'x"

definition vsocket_socket where
  "vsocket_socket k socket_family socket_type protocol = sys_socket k socket_family socket_type protocol"

definition vsocket_connect where
  "vsocket_connect k sock address address_len = sys_connect k sock address address_len"

definition vsocket_bind where
  "vsocket_bind k sock address address_len = sys_bind k sock address address_len"

definition vsocket_getsockname where
  "vsocket_getsockname k sockfd addrlen = sys_getsockname k sockfd addrlen"

definition vsocket_getsockopt where
  "vsocket_getsockopt k sockfd level optname optlen = sys_getsockopt k sockfd level optname optlen"

definition vsocket_setsockopt where
  "vsocket_setsockopt k sockfd level optname optval optlen = sys_setsockopt k sockfd level optname optval optlen"

definition vsocket_close where
  "vsocket_close k sock = sys_close k sock"

definition vsocket_shutdown where
  "vsocket_shutdown k sock how = sys_shutdown k sock how"

definition vsocket_error where
  "vsocket_error k err = sys_strerror k err"

definition bcSocketAPI :: "'x kernel \<Rightarrow> 'x bctbx_vsocket_methods_t" where
  "bcSocketAPI k =
     \<lparr>pFuncSocket = vsocket_socket k, pFuncConnect = vsocket_connect k, pFuncBind = vsocket_bind k,
      pFuncGetSockName = vsocket_getsockname k, pFuncGetSockOpt = vsocket_getsockopt k,
      pFuncSetSockOpt = vsocket_setsockopt k, pFuncClose = vsocket_close k,
      pFuncGetError = vsocket_error k, pFuncShutdown = vsocket_shutdown k\<rparr>"

definition bcvSocket_obj :: "'x kernel \<Rightarrow> 'x bctbx_vsocket_api_t" where
  "bcvSocket_obj k = \<lparr>vSockName = ''bctbx_socket'', pSocketMethods = bcSocketAPI k\<rparr>"

section \<open>The default\<close>

text \<open>
  The structures live at addresses, since their owner may change them after they were made the
  default; the standard one is at \<open>bcvSocket\<close>.
\<close>

definition bcvSocket :: nat where "bcvSocket = 0"

record 'x vsock =
  apis :: "nat \<Rightarrow> 'x bctbx_vsocket_api_t option"
  pDefaultvSocket :: nat
  kstate :: 'x

definition default_methods :: "'x vsock \<Rightarrow> 'x bctbx_vsocket_methods_t option" where
  "default_methods s = map_option pSocketMethods (apis s (pDefaultvSocket s))"

text \<open>A call of one of the methods on the state of the kernel.\<close>

definition on_kernel :: "('x bctbx_vsocket_methods_t \<Rightarrow> 'x \<Rightarrow> 'r \<times> 'x) \<Rightarrow> 'x vsock \<Rightarrow> ('r \<times> 'x vsock) option" where
  "on_kernel call s = do {
     m \<leftarrow> default_methods s;
     let (r, x) = call m (kstate s);
     Some (r, s\<lparr>kstate := x\<rparr>) }"

definition bctbx_socket where
  "bctbx_socket socket_family socket_type protocol =
     on_kernel (\<lambda>m. pFuncSocket m socket_family socket_type protocol)"

definition bctbx_socket_close where
  "bctbx_socket_close sock = on_kernel (\<lambda>m. pFuncClose m sock)"

definition bctbx_bind where
  "bctbx_bind sock address address_len = on_kernel (\<lambda>m. pFuncBind m sock address address_len)"

definition bctbx_connect where
  "bctbx_connect sock address address_len = on_kernel (\<lambda>m. pFuncConnect m sock address address_len)"

definition bctbx_getsockname where
  "bctbx_getsockname sockfd addrlen = on_kernel (\<lambda>m. pFuncGetSockName m sockfd addrlen)"

definition bctbx_getsockopt where
  "bctbx_getsockopt sockfd level optname optlen = on_kernel (\<lambda>m. pFuncGetSockOpt m sockfd level optname optlen)"

definition bctbx_setsockopt where
  "bctbx_setsockopt sockfd level optname optval optlen =
     on_kernel (\<lambda>m. pFuncSetSockOpt m sockfd level optname optval optlen)"

definition bctbx_shutdown where
  "bctbx_shutdown sock how = on_kernel (\<lambda>m. pFuncShutdown m sock how)"

definition bctbx_socket_error :: "int \<Rightarrow> 'x vsock \<Rightarrow> string option" where
  "bctbx_socket_error err s = map_option (\<lambda>m. pFuncGetError m err) (default_methods s)"

definition bctbx_vsocket_api_set_default :: "ptr \<Rightarrow> 'x vsock \<Rightarrow> 'x vsock" where
  "bctbx_vsocket_api_set_default my_vsocket_api s =
     s\<lparr>pDefaultvSocket := (case my_vsocket_api of None \<Rightarrow> bcvSocket | Some p \<Rightarrow> p)\<rparr>"

definition bctbx_vsocket_api_get_default :: "'x vsock \<Rightarrow> nat" where
  "bctbx_vsocket_api_get_default s = pDefaultvSocket s"

definition bctbx_vsocket_api_get_standard :: nat where
  "bctbx_vsocket_api_get_standard = bcvSocket"

section \<open>The local address\<close>

definition SOCK_DGRAM :: int where "SOCK_DGRAM = 2"
definition SOL_SOCKET :: int where "SOL_SOCKET = 1"
definition SO_REUSEADDR :: int where "SO_REUSEADDR = 2"

text \<open>The string in a buffer, when there is an end to it.\<close>

definition string_in :: "cbuf \<Rightarrow> string option" where
  "string_in b =
     (let cs = aslice (bytes b) 0 (size_of b)
      in if NUL \<in> set cs then Some (takeWhile (\<lambda>c. c \<noteq> NUL) cs) else None)"

definition ip_hints :: "int \<Rightarrow> addrinfo" where
  "ip_hints type =
     \<lparr>ai_flags = AI_NUMERICHOST OR AI_NUMERICSERV, ai_family = type, ai_socktype = SOCK_DGRAM,
      ai_protocol = 0, ai_addrlen = 0, ai_addr = [], ai_canonname = NoName, ai_next = None, ai_owner = By_libc\<rparr>"

text \<open>The address of the socket with a mapping removed, in a buffer of its own.\<close>

definition unmapped :: "byte list \<Rightarrow> (nat \<times> byte list) option" where
  "unmapped addr = do {
     (len, s) \<leftarrow> bctbx_sockaddr_remove_v4_mapping 0 0 \<lparr>bufs = [0 \<mapsto> addr], ais = (\<lambda>_. None), ai_brk = 0\<rparr>;
     b \<leftarrow> bufs s 0;
     Some (len, b) }"

text \<open>
  The part after the socket is connected: \<open>getsockname\<close> to the end.  Every return closes the socket.
\<close>

definition local_name ::
    "'x kernel \<Rightarrow> getnameinfo_fn \<Rightarrow> int \<Rightarrow> cbuf \<Rightarrow> nat \<Rightarrow> 'x vsock \<Rightarrow> (int \<times> cbuf \<times> 'x vsock) option" where
  "local_name k gni sock result result_len st = do {
     let ((err, addr, s), x) = sys_getsockname k sock sizeof_sockaddr_storage (kstate st);
     let st = st\<lparr>kstate := x\<rparr>;
     if err \<noteq> 0 then do { (_, st) \<leftarrow> bctbx_socket_close sock st; Some (-1, result, st) }
     else do {
       family \<leftarrow> sa_family addr;
       a \<leftarrow> sin_addr addr;
       if family = AF_INET \<and> a = [0, 0, 0, 0]
       then do { (_, st) \<leftarrow> bctbx_socket_close sock st; Some (-1, result, st) }
       else do {
         (len, addr) \<leftarrow> unmapped addr;
         result \<leftarrow>
           (case bctbx_getnameinfo gni addr len result_len 0 NI_NUMERICHOST of
              Inl err \<Rightarrow> Some result
            | Inr (host, _) \<Rightarrow> buf_write result 0 (host @ [NUL]));
         family \<leftarrow> sa_family addr;
         link_local \<leftarrow>
           (if family = AF_INET6 then map_option (\<lambda>t. strchr t CHR ''%'' \<noteq> None) (string_in result)
            else Some False);
         if link_local
         then do {
           result \<leftarrow> buf_write result 0 (''::1'' @ [NUL]);
           (_, st) \<leftarrow> bctbx_socket_close sock st;
           Some (-1, result, st) }
         else do { (_, st) \<leftarrow> bctbx_socket_close sock st; Some (0, result, st) } } } }"

definition get_local_ip_for_with_connect ::
    "'x kernel \<Rightarrow> getaddrinfo_fn \<Rightarrow> getnameinfo_fn \<Rightarrow> int \<Rightarrow> string \<Rightarrow> int \<Rightarrow> cbuf \<Rightarrow> nat \<Rightarrow> 'x vsock \<Rightarrow> net \<Rightarrow>
     (int \<times> cbuf \<times> 'x vsock \<times> net) option" where
  "get_local_ip_for_with_connect k gai gni type dest port result result_len st n = do {
     let (err, res, n) = bctbx_getaddrinfo gai (Some dest) (Some (take 5 (show_int port))) (Some (ip_hints type)) n;
     if err \<noteq> 0 then Some (-1, result, st, n)
     else if res = None then Some (-1, result, st, n)
     else do {
       ai \<leftarrow> ai_at n res;
       let (sock, x) = sys_socket k (ai_family ai) SOCK_DGRAM 0 (kstate st);
       if sock = -1 then Some (-1, result, st\<lparr>kstate := x\<rparr>, n)
       else do {
         let (_, x) = sys_setsockopt k sock SOL_SOCKET SO_REUSEADDR [1, 0, 0, 0] 4 x;
         let (err, x) = sys_connect k sock (ai_addr ai) (ai_addrlen ai) x;
         let st = st\<lparr>kstate := x\<rparr>;
         n \<leftarrow> bctbx_freeaddrinfo res n;
         if err = -1
         then do { (_, st) \<leftarrow> bctbx_socket_close sock st; Some (-1, result, st, n) }
         else do {
           (ret, result, st) \<leftarrow> local_name k gni sock result result_len st;
           Some (ret, result, st, n) } } } }"

text \<open>\<open>dest\<close> may be NULL.\<close>

definition bctbx_get_local_ip_for ::
    "'x kernel \<Rightarrow> getaddrinfo_fn \<Rightarrow> getnameinfo_fn \<Rightarrow> int \<Rightarrow> string option \<Rightarrow> int \<Rightarrow> cbuf \<Rightarrow> nat \<Rightarrow> 'x vsock \<Rightarrow> net \<Rightarrow>
     (int \<times> cbuf \<times> 'x vsock \<times> net) option" where
  "bctbx_get_local_ip_for k gai gni type dest port result result_len st n = do {
     result \<leftarrow> buf_write result 0
       (take result_len ((if type = AF_INET then ''127.0.0.1'' else ''::1'') @ replicate result_len NUL));
     let dest = (case dest of Some d \<Rightarrow> d
                 | None \<Rightarrow> if type = AF_INET then ''87.98.157.38'' else ''2a00:1450:8002::68'');
     get_local_ip_for_with_connect k gai gni type dest (if port = 0 then 5060 else port) result result_len st n }"


section \<open>Properties\<close>

definition run_call :: "('x \<Rightarrow> 'r \<times> 'x) \<Rightarrow> 'x vsock \<Rightarrow> 'r \<times> 'x vsock" where
  "run_call call s = (let (r, x) = call (kstate s) in (r, s\<lparr>kstate := x\<rparr>))"

lemma on_kernel_default:
  "default_methods s = Some m \<Longrightarrow> on_kernel call s = Some (run_call (call m) s)"
  by (simp add: on_kernel_def run_call_def split: prod.split)

lemmas socket_calls = bctbx_socket_def bctbx_socket_close_def bctbx_bind_def bctbx_connect_def
  bctbx_getsockname_def bctbx_getsockopt_def bctbx_setsockopt_def bctbx_shutdown_def bctbx_socket_error_def
lemmas libc_wrappers = vsocket_socket_def vsocket_close_def vsocket_bind_def vsocket_connect_def
  vsocket_getsockname_def vsocket_getsockopt_def vsocket_setsockopt_def vsocket_shutdown_def vsocket_error_def

text \<open>
  Every socket function of bctoolbox runs the method of its own name of the structure that is the
  default at the time of the call; passing NULL makes the standard structure the default again, and then
  each is the system call with the same arguments.
\<close>

theorem vsocket_default_dispatch:
  assumes "apis s p = Some api" "apis s bcvSocket = Some (bcvSocket_obj k)"
  shows "let t = bctbx_vsocket_api_set_default (Some p) s; u = bctbx_vsocket_api_set_default None t;
             m = pSocketMethods api
         in bctbx_vsocket_api_get_default t = p \<and>
            bctbx_vsocket_api_get_default u = bctbx_vsocket_api_get_standard \<and>
            (bctbx_socket f ty pr t = Some (run_call (pFuncSocket m f ty pr) t) \<and>
             bctbx_socket f ty pr u = Some (run_call (sys_socket k f ty pr) u)) \<and>
            (bctbx_socket_close d t = Some (run_call (pFuncClose m d) t) \<and>
             bctbx_socket_close d u = Some (run_call (sys_close k d) u)) \<and>
            (bctbx_bind d a l t = Some (run_call (pFuncBind m d a l) t) \<and>
             bctbx_bind d a l u = Some (run_call (sys_bind k d a l) u)) \<and>
            (bctbx_connect d a l t = Some (run_call (pFuncConnect m d a l) t) \<and>
             bctbx_connect d a l u = Some (run_call (sys_connect k d a l) u)) \<and>
            (bctbx_getsockname d l t = Some (run_call (pFuncGetSockName m d l) t) \<and>
             bctbx_getsockname d l u = Some (run_call (sys_getsockname k d l) u)) \<and>
            (bctbx_getsockopt d lv opt l t = Some (run_call (pFuncGetSockOpt m d lv opt l) t) \<and>
             bctbx_getsockopt d lv opt l u = Some (run_call (sys_getsockopt k d lv opt l) u)) \<and>
            (bctbx_setsockopt d lv opt a l t = Some (run_call (pFuncSetSockOpt m d lv opt a l) t) \<and>
             bctbx_setsockopt d lv opt a l u = Some (run_call (sys_setsockopt k d lv opt a l) u)) \<and>
            (bctbx_shutdown d how t = Some (run_call (pFuncShutdown m d how) t) \<and>
             bctbx_shutdown d how u = Some (run_call (sys_shutdown k d how) u)) \<and>
            (bctbx_socket_error e t = Some (pFuncGetError m e) \<and>
             bctbx_socket_error e u = Some (sys_strerror k e))"
proof -
  let ?t = "bctbx_vsocket_api_set_default (Some p) s"
  let ?u = "bctbx_vsocket_api_set_default None ?t"
  have t: "default_methods ?t = Some (pSocketMethods api)"
    using assms(1) by (simp add: default_methods_def bctbx_vsocket_api_set_default_def)
  have u: "default_methods ?u = Some (bcSocketAPI k)"
    using assms(2) by (simp add: default_methods_def bctbx_vsocket_api_set_default_def bcvSocket_obj_def)
  have w: "pFuncSocket (bcSocketAPI k) = sys_socket k" "pFuncClose (bcSocketAPI k) = sys_close k"
    "pFuncBind (bcSocketAPI k) = sys_bind k" "pFuncConnect (bcSocketAPI k) = sys_connect k"
    "pFuncGetSockName (bcSocketAPI k) = sys_getsockname k" "pFuncGetSockOpt (bcSocketAPI k) = sys_getsockopt k"
    "pFuncSetSockOpt (bcSocketAPI k) = sys_setsockopt k" "pFuncShutdown (bcSocketAPI k) = sys_shutdown k"
    "pFuncGetError (bcSocketAPI k) = sys_strerror k"
    by (simp_all add: bcSocketAPI_def libc_wrappers fun_eq_iff)
  show ?thesis
    unfolding Let_def socket_calls on_kernel_default [OF t] on_kernel_default [OF u] t u w
    by (simp add: bctbx_vsocket_api_get_default_def bctbx_vsocket_api_get_standard_def
        bctbx_vsocket_api_set_default_def w)
qed

text \<open>A kernel that only keeps the set of open sockets, the next number being one more than the last.\<close>

definition demo_kernel :: "(nat \<times> int set) kernel" where
  "demo_kernel =
     \<lparr>sys_socket = (\<lambda>f t p (n, A). (int n + 3, (n + 1, insert (int n + 3) A))),
      sys_connect = (\<lambda>s a l x. (0, x)), sys_bind = (\<lambda>s a l x. (0, x)),
      sys_getsockname = (\<lambda>s l x. ((0, take l ([2, 0, 0, 0, 192, 0, 2, 7] @ replicate l 0), 16), x)),
      sys_getsockopt = (\<lambda>s lv opt l x. ((0, [], 0), x)), sys_setsockopt = (\<lambda>s lv opt a l x. (0, x)),
      sys_close = (\<lambda>s (n, A). (0, (n, A - {s}))), sys_strerror = (\<lambda>e. ''error''), sys_shutdown = (\<lambda>s h x. (0, x))\<rparr>"

definition demo_vsock :: "(nat \<times> int set) vsock" where
  "demo_vsock =
     \<lparr>apis = [bcvSocket \<mapsto> bcvSocket_obj demo_kernel,
              5 \<mapsto> \<lparr>vSockName = ''mine'', pSocketMethods = (bcSocketAPI demo_kernel)\<lparr>pFuncClose := (\<lambda>s x. (-1, x))\<rparr>\<rparr>],
      pDefaultvSocket = bcvSocket, kstate = (0, {})\<rparr>"

theorem vsocket_default_dispatch_witness:
  "map_option fst (bctbx_socket_close 3 (bctbx_vsocket_api_set_default (Some 5) demo_vsock)) = Some (-1) \<and>
   map_option fst (bctbx_socket_close 3
     (bctbx_vsocket_api_set_default None (bctbx_vsocket_api_set_default (Some 5) demo_vsock))) = Some 0"
proof -
  have "apis demo_vsock 5 =
      Some \<lparr>vSockName = ''mine'', pSocketMethods = (bcSocketAPI demo_kernel)\<lparr>pFuncClose := (\<lambda>s x. (-1, x))\<rparr>\<rparr>"
    "apis demo_vsock bcvSocket = Some (bcvSocket_obj demo_kernel)"
    by (simp_all add: demo_vsock_def bcvSocket_def)
  from vsocket_default_dispatch [OF this, where d = 3] show ?thesis
    by (simp add: Let_def run_call_def demo_kernel_def split: prod.splits)
qed

text \<open>What a kernel promises about the set of open sockets.\<close>

definition kernel_ok :: "'x kernel \<Rightarrow> ('x \<Rightarrow> int set) \<Rightarrow> bool" where
  "kernel_ok k opened \<longleftrightarrow>
     (\<forall>f t p x. opened (snd (sys_socket k f t p x)) =
        (if fst (sys_socket k f t p x) = -1 then opened x else insert (fst (sys_socket k f t p x)) (opened x)) \<and>
        fst (sys_socket k f t p x) \<notin> opened x) \<and>
     (\<forall>s a l x. opened (snd (sys_connect k s a l x)) = opened x) \<and>
     (\<forall>s l x. opened (snd (sys_getsockname k s l x)) = opened x) \<and>
     (\<forall>s lv opt a l x. opened (snd (sys_setsockopt k s lv opt a l x)) = opened x) \<and>
     (\<forall>s x. opened (snd (sys_close k s x)) = opened x - {s})"

definition names_ok :: "'x kernel \<Rightarrow> getnameinfo_fn \<Rightarrow> bool" where
  "names_ok k gni \<longleftrightarrow>
     (\<forall>s l x. length (fst (snd (fst (sys_getsockname k s l x)))) = l) \<and>
     (\<forall>a l hl sl fl host serv. gni a l hl sl fl = Inr (host, serv) \<longrightarrow> length host < hl)"

lemma close_default:
  assumes "default_methods s = Some (bcSocketAPI k)" "kernel_ok k opened"
  shows "\<exists>r t. bctbx_socket_close d s = Some (r, t) \<and> apis t = apis s \<and> pDefaultvSocket t = pDefaultvSocket s \<and>
    opened (kstate t) = opened (kstate s) - {d}"
proof -
  obtain r x where c: "sys_close k d (kstate s) = (r, x)" by fastforce
  have "opened (snd (sys_close k d (kstate s))) = opened (kstate s) - {d}" using assms(2) by (simp add: kernel_ok_def)
  with c have "opened x = opened (kstate s) - {d}" by simp
  then show ?thesis
    using on_kernel_default [OF assms(1), of "\<lambda>m. pFuncClose m d"] c
    by (simp add: bctbx_socket_close_def run_call_def bcSocketAPI_def vsocket_close_def)
qed

lemma unmapped_defined:
  assumes "length addr = 128"
  shows "\<exists>len b. unmapped addr = Some (len, b) \<and> length b = 128"
proof -
  let ?s = "\<lparr>bufs = [0 \<mapsto> addr], ais = (\<lambda>_. None), ai_brk = 0\<rparr>"
  have s: "bufs ?s 0 = Some addr" by simp
  show ?thesis
  proof (cases "family_of (take 2 addr) = AF_INET6")
    case True
    then have "sa_family addr = Some AF_INET6" using assms by (simp add: sa_family_def)
    from remove_v4_mapping_result [OF s _ this s] assms show ?thesis
      by (simp add: unmapped_def v4_front_def)
  next
    case False
    then show ?thesis using assms
      by (simp add: unmapped_def bctbx_sockaddr_remove_v4_mapping_def buf_copy_def)
  qed
qed

lemma string_in_written: "buf_write b 0 (t @ [NUL]) = Some b' \<Longrightarrow> \<exists>u. string_in b' = Some u"
proof -
  assume w: "buf_write b 0 (t @ [NUL]) = Some b'"
  have "length t < size_of b" using w by (auto simp: buf_write_def split: if_splits)
  moreover have "bytes b' (length t) = NUL" using w by (auto simp: buf_write_def memcpy_to_def nth_append split: if_splits)
  ultimately have "NUL \<in> set (aslice (bytes b') 0 (size_of b'))"
    using buf_write_size [OF w] by (auto simp: aslice_def intro!: image_eqI [of _ _ "length t"])
  then show ?thesis by (simp add: string_in_def Let_def)
qed

lemma local_name_closes:
  assumes k: "kernel_ok k opened" "names_ok k gni" and d: "default_methods st = Some (bcSocketAPI k)"
    and r: "string_in result = Some u" "size_of result = n" "4 \<le> n"
  shows "\<exists>ret out t. local_name k gni sock result n st = Some (ret, out, t) \<and> ret \<in> {0, -1} \<and>
    apis t = apis st \<and> pDefaultvSocket t = pDefaultvSocket st \<and> opened (kstate t) = opened (kstate st) - {sock}"
proof -
  obtain err addr s x where g: "sys_getsockname k sock sizeof_sockaddr_storage (kstate st) = ((err, addr, s), x)"
    by (metis surj_pair)
  have "length (fst (snd (fst (sys_getsockname k sock sizeof_sockaddr_storage (kstate st))))) = sizeof_sockaddr_storage"
    using k(2) by (simp add: names_ok_def)
  then have len: "length addr = 128" by (simp only: g fst_conv snd_conv) (simp add: sizeof_sockaddr_storage_def)
  have "opened (snd (sys_getsockname k sock sizeof_sockaddr_storage (kstate st))) = opened (kstate st)"
    using k(1) by (simp add: kernel_ok_def)
  then have x: "opened x = opened (kstate st)" by (simp add: g)
  let ?st = "st\<lparr>kstate := x\<rparr>"
  have "default_methods ?st = Some (bcSocketAPI k)" using d by (simp add: default_methods_def)
  from close_default [OF this k(1), of sock] obtain c t where
    t: "bctbx_socket_close sock ?st = Some (c, t)" "apis t = apis st" "pDefaultvSocket t = pDefaultvSocket st"
      "opened (kstate t) = opened (kstate st) - {sock}"
    using x by auto
  obtain l b where b: "unmapped addr = Some (l, b)" "length b = 128" using unmapped_defined [OF len] by blast
  let ?r = "case bctbx_getnameinfo gni b l n 0 NI_NUMERICHOST of
      Inl err \<Rightarrow> Some result | Inr (host, _) \<Rightarrow> buf_write result 0 (host @ [NUL])"
  have "\<exists>out v. ?r = Some out \<and> string_in out = Some v \<and> size_of out = n"
  proof (cases "bctbx_getnameinfo gni b l n 0 NI_NUMERICHOST")
    case (Inl e)
    then show ?thesis using r by simp
  next
    case (Inr hs)
    obtain host serv where hs: "hs = (host, serv)" by (cases hs)
    then have "length host < n" using Inr k(2) unfolding names_ok_def bctbx_getnameinfo_def by blast
    then obtain out where "buf_write result 0 (host @ [NUL]) = Some out" using r(2) by (simp add: buf_write_def)
    then show ?thesis using Inr hs string_in_written buf_write_size r(2) by fastforce
  qed
  then obtain out v where out: "?r = Some out" "string_in out = Some v" "size_of out = n" by blast
  obtain out' where out': "buf_write out 0 (''::1'' @ [NUL]) = Some out'" using out(3) r(3) by (simp add: buf_write_def)
  show ?thesis
    using t b len out out'
    by (cases "err \<noteq> 0"; cases "family_of (take 2 addr) = AF_INET \<and> take 4 (drop 4 addr) = [0, 0, 0, 0]";
        cases "CHR ''%'' \<in> set v")
      (auto simp: local_name_def g sa_family_def sin_addr_def Let_def)
qed


definition default_dest :: "int \<Rightarrow> string option \<Rightarrow> string" where
  "default_dest type dest =
     (case dest of Some d \<Rightarrow> d | None \<Rightarrow> if type = AF_INET then ''87.98.157.38'' else ''2a00:1450:8002::68'')"

text \<open>
  \<open>bctbx_get_local_ip_for\<close> always returns 0 or -1 with every socket it opened closed again, whatever
  the resolver and the kernel answer, as long as the standard socket functions are the default, and it
  releases the addresses it looked up, except when the socket cannot be created: then they are lost.
\<close>

theorem local_ip_releases:
  assumes "kernel_ok k opened" "names_ok k gni" "default_methods st = Some (bcSocketAPI k)"
    and "gai (Some (default_dest type dest)) (Some (take 5 (show_int (if port = 0 then 5060 else port))))
           (Some (ip_hints type)) n = (err, nextp ns None, n1)"
    and "chain (ais n1) ns None" "distinct (map fst ns)" "\<forall>x\<in>set ns. marked x"
    and "size_of result = len" "10 \<le> len"
  shows "\<exists>ret out st' n'. bctbx_get_local_ip_for k gai gni type dest port result len st n = Some (ret, out, st', n') \<and>
    ret \<in> {0, -1} \<and> opened (kstate st') = opened (kstate st) \<and>
    n' = (if err \<noteq> 0 \<or> ns = [] \<or> fst (sys_socket k (ai_family (snd (hd ns))) SOCK_DGRAM 0 (kstate st)) = -1
          then n1 else without (nodes ns) n1)"
proof -
  let ?text = "if type = AF_INET then ''127.0.0.1'' else ''::1''"
  have "length (take len (?text @ replicate len NUL)) \<le> size_of result"
    by (simp only: length_take assms(8) min.cobounded2)
  then have "buf_write result 0 (take len (?text @ replicate len NUL)) \<noteq> None"
    by (simp only: buf_write_defined add_0 not_not)
  then obtain buf where buf: "buf_write result 0 (take len (?text @ replicate len NUL)) = Some buf"
    by (meson not_None_eq)
  have sz: "size_of buf = len" using buf_write_size [OF buf] assms(8) by simp
  have "bytes buf 9 = NUL" using buf assms(8,9)
    by (auto simp: buf_write_def memcpy_to_def nth_append nth_Cons' split: if_splits)
  then have "NUL \<in> set (aslice (bytes buf) 0 (size_of buf))"
    using sz assms(9) by (auto simp: aslice_def intro!: image_eqI [of _ _ 9])
  then obtain u where u: "string_in buf = Some u" by (simp add: string_in_def Let_def)
  show ?thesis
  proof (cases "err \<noteq> 0 \<or> ns = []")
    case True
    then show ?thesis using assms(4) buf
      by (auto simp: bctbx_get_local_ip_for_def get_local_ip_for_with_connect_def bctbx_getaddrinfo_def
          default_dest_def Let_def)
  next
    case False
    then obtain a y rest where ns: "ns = (a, y) # rest" by (metis neq_Nil_conv surj_pair)
    obtain d x0 where sock: "sys_socket k (ai_family y) SOCK_DGRAM 0 (kstate st) = (d, x0)" by fastforce
    let ?y = "y\<lparr>ai_next := nextp rest None\<rparr>"
    have at: "ais n1 a = Some ?y" using assms(5) by (simp add: ns)
    have k: "opened (snd (sys_socket k f t p x)) =
        (if fst (sys_socket k f t p x) = -1 then opened x else insert (fst (sys_socket k f t p x)) (opened x))"
      "fst (sys_socket k f t p x) \<notin> opened x" for f t p x
      using assms(1) by (simp_all add: kernel_ok_def)
    have x0: "opened x0 = (if d = -1 then opened (kstate st) else insert d (opened (kstate st)))" "d \<notin> opened (kstate st)"
      using k [of "ai_family y" SOCK_DGRAM 0 "kstate st"] by (simp_all add: sock)
    obtain o1 x1 where opt: "sys_setsockopt k d SOL_SOCKET SO_REUSEADDR [1, 0, 0, 0] 4 x0 = (o1, x1)" by fastforce
    obtain e2 x2 where conn: "sys_connect k d (ai_addr y) (ai_addrlen y) x1 = (e2, x2)" by fastforce
    have "opened (snd (sys_setsockopt k d SOL_SOCKET SO_REUSEADDR [1, 0, 0, 0] 4 x0)) = opened x0"
      "opened (snd (sys_connect k d (ai_addr y) (ai_addrlen y) x1)) = opened x1"
      using assms(1) by (simp_all add: kernel_ok_def)
    then have x2: "opened x2 = opened x0" by (simp add: opt conn)
    have free: "bctbx_freeaddrinfo (Some a) n1 = Some (without (nodes ns) n1)"
      using freeaddrinfo_chain [OF assms(5,6) _ assms(7)] by (simp add: ns)
    note start = assms(4) buf ns at sock opt conn free
    note unfolds = bctbx_get_local_ip_for_def get_local_ip_for_with_connect_def bctbx_getaddrinfo_def default_dest_def Let_def
    let ?st = "st\<lparr>kstate := x2\<rparr>"
    have dm: "default_methods ?st = Some (bcSocketAPI k)" using assms(3) by (simp add: default_methods_def)
    consider "d = -1" | "d \<noteq> -1" "e2 = -1" | "d \<noteq> -1" "e2 \<noteq> -1" by blast
    then show ?thesis
    proof cases
      case 1
      then show ?thesis using start False x0 by (simp add: unfolds)
    next
      case 2
      from close_default [OF dm assms(1), of d] obtain c t where
        "bctbx_socket_close d ?st = Some (c, t)" "opened (kstate t) = opened x2 - {d}" by auto
      then show ?thesis using 2 start False x0 x2 by (simp add: unfolds)
    next
      case 3
      have "4 \<le> len" using assms(9) by simp
      from local_name_closes [OF assms(1,2) dm u sz this, of d] obtain ret out t where
        "local_name k gni d buf len ?st = Some (ret, out, t)" "ret = 0 \<or> ret = -1" "opened (kstate t) = opened x2 - {d}"
        by auto
      then show ?thesis using 3 start False x0 x2 by (auto simp: unfolds)
    qed
  qed
qed

text \<open>The resolver finds one address, the name service has one answer.\<close>

definition demo_gai :: getaddrinfo_fn where
  "demo_gai node service hints n =
     (0, Some (ai_brk n),
      n\<lparr>ais := (ais n)(ai_brk n \<mapsto> demo_ai AF_INET (replicate 16 0) NoName By_libc), ai_brk := Suc (ai_brk n)\<rparr>)"

definition demo_names :: getnameinfo_fn where
  "demo_names addr len hostlen servlen flags = (if 9 < hostlen then Inr (''192.0.2.7'', []) else Inl 1)"

lemma demo_kernel_ok: "kernel_ok demo_kernel (\<lambda>(n, A). {i \<in> A. i < int n + 3})"
  by (auto simp: kernel_ok_def demo_kernel_def)

lemma demo_names_ok: "names_ok demo_kernel demo_names"
  by (simp add: names_ok_def demo_kernel_def demo_names_def)

theorem local_ip_releases_witness:
  "\<exists>ret out st' n'. bctbx_get_local_ip_for demo_kernel demo_gai demo_names AF_INET None 0 (cmalloc 16) 16 demo_vsock
      \<lparr>bufs = (\<lambda>_. None), ais = (\<lambda>_. None), ai_brk = 0\<rparr> = Some (ret, out, st', n') \<and>
    {i \<in> snd (kstate st'). i < int (fst (kstate st')) + 3} = {} \<and> ais n' 0 = None"
proof -
  let ?n = "\<lparr>bufs = (\<lambda>_. None), ais = (\<lambda>_. None), ai_brk = 0\<rparr> :: net"
  let ?y = "demo_ai AF_INET (replicate 16 0) NoName By_libc"
  let ?m = "?n\<lparr>ais := [0 \<mapsto> ?y], ai_brk := 1\<rparr>"
  have d: "default_methods demo_vsock = Some (bcSocketAPI demo_kernel)"
    by (simp add: default_methods_def demo_vsock_def bcvSocket_def bcvSocket_obj_def)
  have g: "demo_gai (Some (default_dest AF_INET None)) (Some (take 5 (show_int (if (0::int) = 0 then 5060 else 0))))
      (Some (ip_hints AF_INET)) ?n = (0, nextp [(0, ?y)] None, ?m)"
    by (simp add: demo_gai_def)
  have c: "chain (ais ?m) [(0, ?y)] None" "distinct (map fst [(0, ?y)])" "\<forall>x\<in>set [(0, ?y)]. marked x"
    by (simp_all add: demo_ai_def marked_def)
  have "size_of (cmalloc 16) = 16" "10 \<le> (16::nat)" by simp_all
  note r = local_ip_releases [where gai = demo_gai and port = 0 and err = 0 and ns = "[(0, ?y)]" and n = ?n and
      ?n1.0 = ?m, OF demo_kernel_ok demo_names_ok d g c this]
  show ?thesis
    using r by (elim exE conjE) (auto simp: demo_vsock_def demo_kernel_def split: prod.splits)
qed

end
