(* ===== verification/WinSync.thy ===== *)
theory WinSync
  imports Prelude
begin

text \<open>
  Mutexes and condition variables of src/utils/port.c on desktop Windows, where a condition variable
  is an event.  Each function is the sequence of system calls it makes; threads run in any interleaving
  of these calls.  One mutex and one condition variable are modelled, with any number of threads.  The properties are about
  what a caller sees: where a thread stands between its calls and their returns.
\<close>

section \<open>System calls\<close>

text \<open>
  A Windows mutex can be taken again by its owner; releasing it from another thread fails and does
  nothing.  The event is created with manual reset off: \<open>SetEvent\<close> leaves it set until one waiting
  thread passes, which resets it.
\<close>

datatype syscall = Wait_mutex | Release_mutex | Wait_event | Set_event

datatype win_fn = Mutex_lock | Mutex_unlock | Cond_wait | Cond_signal | Cond_broadcast

text \<open>
  \<open>running\<close> is the function a thread is in, \<open>todo\<close> the system calls it has left to make.  \<open>inside\<close> counts, from the calls and
  returns alone, how often a thread has the mutex as its own code sees it: from the return of the function that locks to the
  call of the one that unlocks, a wait giving it up from its call to its return.
\<close>

record win =
  mutex_owner :: "nat option"
  mutex_count :: nat
  event :: bool
  todo :: "nat \<Rightarrow> syscall list"
  running :: "nat \<Rightarrow> win_fn option"
  inside :: "nat \<Rightarrow> nat"

text \<open>\<open>None\<close>: the call blocks.\<close>

fun exec :: "syscall \<Rightarrow> nat \<Rightarrow> win \<Rightarrow> win option" where
  "exec Wait_mutex t s =
     (if mutex_owner s = None \<or> mutex_owner s = Some t
      then Some (s\<lparr>mutex_owner := Some t, mutex_count := Suc (mutex_count s)\<rparr>) else None)"
| "exec Release_mutex t s =
     Some (if mutex_owner s = Some t
           then s\<lparr>mutex_count := mutex_count s - 1, mutex_owner := (if mutex_count s = 1 then None else Some t)\<rparr>
           else s)"
| "exec Wait_event t s = (if event s then Some (s\<lparr>event := False\<rparr>) else None)"
| "exec Set_event t s = Some (s\<lparr>event := True\<rparr>)"

section \<open>The functions\<close>

definition bctbx_WIN_mutex_init :: "win \<Rightarrow> win" where
  "bctbx_WIN_mutex_init s = s\<lparr>mutex_owner := None, mutex_count := 0\<rparr>"

definition bctbx_WIN_cond_init :: "win \<Rightarrow> win" where
  "bctbx_WIN_cond_init s = s\<lparr>event := False\<rparr>"

definition bctbx_WIN_mutex_lock :: "syscall list" where
  "bctbx_WIN_mutex_lock = [Wait_mutex]"

definition bctbx_WIN_mutex_unlock :: "syscall list" where
  "bctbx_WIN_mutex_unlock = [Release_mutex]"

definition bctbx_WIN_cond_wait :: "syscall list" where
  "bctbx_WIN_cond_wait = bctbx_WIN_mutex_unlock @ [Wait_event] @ bctbx_WIN_mutex_lock"

definition bctbx_WIN_cond_signal :: "syscall list" where
  "bctbx_WIN_cond_signal = [Set_event]"

definition bctbx_WIN_cond_broadcast :: "syscall list" where
  "bctbx_WIN_cond_broadcast = bctbx_WIN_cond_signal"

fun body :: "win_fn \<Rightarrow> syscall list" where
  "body Mutex_lock = bctbx_WIN_mutex_lock"
| "body Mutex_unlock = bctbx_WIN_mutex_unlock"
| "body Cond_wait = bctbx_WIN_cond_wait"
| "body Cond_signal = bctbx_WIN_cond_signal"
| "body Cond_broadcast = bctbx_WIN_cond_broadcast"

lemmas win_functions = bctbx_WIN_mutex_lock_def bctbx_WIN_mutex_unlock_def
  bctbx_WIN_cond_wait_def bctbx_WIN_cond_signal_def bctbx_WIN_cond_broadcast_def

section \<open>Interleaving\<close>

text \<open>The functions that give the mutex up when they are called, and those after which the caller has it.\<close>

definition gives_up :: "win_fn \<Rightarrow> bool" where
  "gives_up f \<longleftrightarrow> f = Mutex_unlock \<or> f = Cond_wait"

definition obtains_it :: "win_fn \<Rightarrow> bool" where
  "obtains_it f \<longleftrightarrow> f = Mutex_lock \<or> f = Cond_wait"

text \<open>
  A thread calls a function when it is in none, makes the next system call of the function it is in, or returns when no call
  is left.  It unlocks, and waits, only while it has the mutex, as the callers of the functions must.
\<close>

datatype win_event = Calls win_fn | System syscall | Returns win_fn

inductive win_step :: "nat \<Rightarrow> win_event \<Rightarrow> win \<Rightarrow> win \<Rightarrow> bool" where
  call: "running s t = None \<Longrightarrow> gives_up f \<longrightarrow> 0 < inside s t \<Longrightarrow>
    win_step t (Calls f) s (s\<lparr>running := (running s)(t \<mapsto> f), todo := (todo s)(t := body f),
      inside := (inside s)(t := inside s t - (if gives_up f then 1 else 0))\<rparr>)"
| system: "todo s t = p # ps \<Longrightarrow> exec p t s = Some s' \<Longrightarrow> win_step t (System p) s (s'\<lparr>todo := (todo s)(t := ps)\<rparr>)"
| return: "running s t = Some f \<Longrightarrow> todo s t = [] \<Longrightarrow>
    win_step t (Returns f) s (s\<lparr>running := (running s)(t := None),
      inside := (inside s)(t := inside s t + (if obtains_it f then 1 else 0))\<rparr>)"

inductive_cases win_stepE: "win_step t p s s'"

inductive win_run :: "(nat \<times> win_event \<Rightarrow> bool) \<Rightarrow> win \<Rightarrow> win \<Rightarrow> bool" for P where
  here: "win_run P s s"
| more: "win_run P s s1 \<Longrightarrow> P (t, p) \<Longrightarrow> win_step t p s1 s2 \<Longrightarrow> win_run P s s2"

definition win_start :: win where
  "win_start = bctbx_WIN_cond_init (bctbx_WIN_mutex_init
     \<lparr>mutex_owner = None, mutex_count = 0, event = False, todo = (\<lambda>_. []), running = (\<lambda>_. None), inside = (\<lambda>_. 0)\<rparr>)"

definition reachable :: "win \<Rightarrow> bool" where
  "reachable s \<longleftrightarrow> win_run (\<lambda>_. True) win_start s"

lemma win_run_trans: "win_run P s1 s2 \<Longrightarrow> win_run Q s s1 \<Longrightarrow> win_run (\<lambda>_. True) s s2"
proof (induction rule: win_run.induct)
  case (here s1)
  then show ?case by (induction rule: win_run.induct) (auto intro: win_run.intros)
next
  case (more s1 s2 t p s3)
  then show ?case by (blast intro: win_run.more)
qed

lemma reachable_run: "reachable s \<Longrightarrow> win_run P s s' \<Longrightarrow> reachable s'"
  unfolding reachable_def by (rule win_run_trans)

lemma win_run_step: "win_step t p s s' \<Longrightarrow> P (t, p) \<Longrightarrow> win_run P s s'"
  by (rule win_run.more [OF win_run.here])

lemma reachable_step: "reachable s \<Longrightarrow> win_step t p s s' \<Longrightarrow> reachable s'"
  using reachable_run [of s "\<lambda>_. True"] win_run_step [of t p s s' "\<lambda>_. True"] by blast

lemma exec_frame [simp]: "exec p t s = Some s' \<Longrightarrow> todo s' = todo s \<and> running s' = running s \<and> inside s' = inside s"
  by (cases p) (auto split: if_splits)

lemma step_other: "win_step t p s s' \<Longrightarrow> u \<noteq> t \<Longrightarrow> todo s' u = todo s u \<and> running s' u = running s u \<and> inside s' u = inside s u"
  by (auto elim!: win_stepE)

section \<open>The mutex and its callers\<close>

text \<open>A thread in a function has made a first part of its calls.\<close>

definition shape :: "win \<Rightarrow> nat \<Rightarrow> bool" where
  "shape s t \<longleftrightarrow> (case running s t of None \<Rightarrow> todo s t = [] | Some f \<Rightarrow> todo s t = body f \<or> todo s t = tl (body f) \<or>
     todo s t = tl (tl (body f)) \<or> todo s t = [])"

text \<open>How often the system has the mutex taken by a thread.\<close>

definition taken :: "win \<Rightarrow> nat \<Rightarrow> nat" where
  "taken s t = inside s t + (if Release_mutex \<in> set (todo s t) then 1 else 0) +
     (case running s t of None \<Rightarrow> 0 | Some f \<Rightarrow> if obtains_it f \<and> Wait_mutex \<notin> set (todo s t) then 1 else 0)"

definition win_ok :: "win \<Rightarrow> bool" where
  "win_ok s \<longleftrightarrow> (\<forall>t. shape s t \<and> taken s t = (if mutex_owner s = Some t then mutex_count s else 0)) \<and>
     (mutex_owner s = None \<longleftrightarrow> mutex_count s = 0)"

lemma win_ok_start: "win_ok win_start"
  by (simp add: win_ok_def win_start_def bctbx_WIN_mutex_init_def bctbx_WIN_cond_init_def shape_def taken_def)

lemma taken_other:
  assumes "win_step t p s s'" "u \<noteq> t"
  shows "taken s' u = taken s u \<and> shape s' u = shape s u"
proof -
  have e: "todo s' u = todo s u" "running s' u = running s u" "inside s' u = inside s u"
    using step_other [OF assms] by blast+
  show ?thesis unfolding taken_def shape_def e by simp
qed

lemma call_ok:
  assumes "win_step t (Calls f) s s'" "shape s t"
  shows "shape s' t \<and> taken s' t = taken s t \<and> mutex_owner s' = mutex_owner s \<and> mutex_count s' = mutex_count s"
  using assms by (cases f) (auto simp: shape_def taken_def gives_up_def obtains_it_def win_functions elim!: win_stepE)

lemma return_ok:
  assumes "win_step t (Returns f) s s'" "shape s t"
  shows "shape s' t \<and> taken s' t = taken s t \<and> mutex_owner s' = mutex_owner s \<and> mutex_count s' = mutex_count s"
  using assms by (cases f) (auto simp: shape_def taken_def obtains_it_def elim!: win_stepE)

lemma system_call_ok:
  assumes "win_step t (System p) s s'" "shape s t"
  shows "shape s' t \<and> (case p of
      Wait_mutex \<Rightarrow> taken s' t = Suc (taken s t) \<and> (mutex_owner s = None \<or> mutex_owner s = Some t) \<and>
        mutex_owner s' = Some t \<and> mutex_count s' = Suc (mutex_count s)
    | Release_mutex \<Rightarrow> Suc (taken s' t) = taken s t \<and> (mutex_owner s = Some t \<longrightarrow> mutex_count s' = mutex_count s - 1 \<and>
        mutex_owner s' = (if mutex_count s = 1 then None else Some t))
    | _ \<Rightarrow> taken s' t = taken s t \<and> mutex_owner s' = mutex_owner s \<and> mutex_count s' = mutex_count s)"
proof -
  obtain ps s1 where st: "todo s t = p # ps" "exec p t s = Some s1" "s' = s1\<lparr>todo := (todo s)(t := ps)\<rparr>"
    using assms(1) by (auto elim!: win_stepE)
  obtain f where f: "running s t = Some f" using assms(2) st(1) by (auto simp: shape_def split: option.splits)
  show ?thesis
    using assms(2) st f
    by (cases f; cases p) (auto simp: shape_def taken_def obtains_it_def win_functions split: if_splits)
qed

lemma win_ok_step:
  assumes "win_step t p s s'" "win_ok s"
  shows "win_ok s'"
proof -
  have sh: "shape s t" and tk: "taken s u = (if mutex_owner s = Some u then mutex_count s else 0)"
    and pos: "mutex_owner s = None \<longleftrightarrow> mutex_count s = 0" for u
    using assms(2) by (simp_all add: win_ok_def)
  have other: "taken s' u = taken s u" "shape s' u" if "u \<noteq> t" for u
    using taken_other [OF assms(1) that] assms(2) by (simp_all add: win_ok_def)
  have all: "win_ok s'"
    if "shape s' t" "mutex_owner s' = None \<longleftrightarrow> mutex_count s' = 0"
      "taken s' t = (if mutex_owner s' = Some t then mutex_count s' else 0)"
      "\<And>u. u \<noteq> t \<Longrightarrow> (if mutex_owner s' = Some u then mutex_count s' else 0) = (if mutex_owner s = Some u then mutex_count s else 0)"
    unfolding win_ok_def using that other tk by metis
  show ?thesis
  proof (cases p)
    case (Calls f)
    then show ?thesis using call_ok [OF assms(1) [unfolded Calls] sh] tk pos by (intro all) auto
  next
    case (Returns f)
    then show ?thesis using return_ok [OF assms(1) [unfolded Returns] sh] tk pos by (intro all) auto
  next
    case (System q)
    note st = system_call_ok [OF assms(1) [unfolded System] sh]
    show ?thesis
    proof (cases q)
      case Wait_mutex
      then show ?thesis using st tk [of t] pos by (intro all) (auto split: if_splits)
    next
      case Release_mutex
      have "mutex_owner s = Some t" using st tk [of t] Release_mutex by (auto split: if_splits)
      then show ?thesis using st tk [of t] pos Release_mutex by (intro all) (auto split: if_splits)
    qed (use st tk pos in \<open>(intro all; auto)+\<close>)
  qed
qed

lemma reachable_ok: "reachable s \<Longrightarrow> win_ok s"
  unfolding reachable_def
  by (induction win_start s rule: win_run.induct) (auto simp: win_ok_start intro: win_ok_step)

text \<open>A thread that has the mutex in its own view owns it, and no other thread has taken it.\<close>

lemma inside_owner:
  assumes "reachable s" "0 < inside s t"
  shows "mutex_owner s = Some t" "u \<noteq> t \<Longrightarrow> taken s u = 0"
proof -
  have ok: "taken s u = (if mutex_owner s = Some u then mutex_count s else 0)" for u
    using reachable_ok [OF assms(1)] by (simp add: win_ok_def)
  have "0 < taken s t" using assms(2) by (simp add: taken_def)
  then show o: "mutex_owner s = Some t" using ok [of t] by (auto split: if_splits)
  then show "u \<noteq> t \<Longrightarrow> taken s u = 0" using ok [of u] by simp
qed

section \<open>Signals\<close>

text \<open>A set event stays set until a thread passes it.\<close>

lemma event_kept: "win_step t p s s' \<Longrightarrow> event s \<Longrightarrow> p \<noteq> System Wait_event \<Longrightarrow> event s'"
proof (elim win_stepE)
  fix q ps s1
  assume "exec q t s = Some s1" "s' = s1\<lparr>todo := (todo s)(t := ps)\<rparr>" "event s" "p = System q" "p \<noteq> System Wait_event"
  then show ?thesis by (cases q) (auto split: if_splits)
qed simp_all

text \<open>Without a new signal an event that is not set stays so.\<close>

lemma event_unset:
  "win_step t p s s' \<Longrightarrow> p \<noteq> System Set_event \<Longrightarrow> \<not> event s \<Longrightarrow> \<not> event s' \<and> p \<noteq> System Wait_event"
proof (elim win_stepE)
  fix q ps s1
  assume "exec q t s = Some s1" "s' = s1\<lparr>todo := (todo s)(t := ps)\<rparr>" "\<not> event s" "p = System q" "p \<noteq> System Set_event"
  then show ?thesis by (cases q) (auto split: if_splits)
qed simp_all

definition waiting :: "win \<Rightarrow> nat \<Rightarrow> bool" where
  "waiting s t \<longleftrightarrow> running s t = Some Cond_wait \<and> (\<exists>ps. todo s t = Wait_event # ps)"

lemma waiting_step:
  "win_step t p s s' \<Longrightarrow> waiting s u \<Longrightarrow> \<not> waiting s' u \<Longrightarrow> u = t \<and> p = System Wait_event"
  by (cases "u = t") (auto simp: waiting_def elim!: win_stepE)

text \<open>A thread in \<open>cond_wait\<close> that has not passed the event has still to pass it.\<close>

definition before_event :: "win \<Rightarrow> nat \<Rightarrow> bool" where
  "before_event s t \<longleftrightarrow> running s t = Some Cond_wait \<and>
     (todo s t = bctbx_WIN_cond_wait \<or> todo s t = tl bctbx_WIN_cond_wait)"

lemma before_event_step:
  assumes "win_step u p s s'" "p \<noteq> System Wait_event" "before_event s t"
  shows "before_event s' t"
proof (cases "u = t")
  case True
  then show ?thesis using assms by (auto simp: before_event_def win_functions split: if_splits elim!: win_stepE)
next
  case False
  then show ?thesis using assms(3) step_other [OF assms(1), of t] by (simp add: before_event_def)
qed

lemma before_event_run: "win_run P s s' \<Longrightarrow> (\<forall>x. P x \<longrightarrow> snd x \<noteq> System Wait_event) \<Longrightarrow> before_event s t \<Longrightarrow> before_event s' t"
  by (induction rule: win_run.induct) (auto dest: before_event_step)

text \<open>A thread in a signal that has not returned: the event is set, or it has still to set it.\<close>

definition signalling :: "win \<Rightarrow> nat \<Rightarrow> bool" where
  "signalling s u \<longleftrightarrow> event s \<or> (running s u = Some Cond_signal \<and> todo s u = bctbx_WIN_cond_signal)"

lemma signalling_step:
  assumes "win_step v p s s'" "p \<noteq> System Wait_event" "signalling s u"
  shows "signalling s' u"
proof (cases "event s")
  case True
  then show ?thesis using event_kept [OF assms(1) _ assms(2)] by (simp add: signalling_def)
next
  case False
  then have u: "running s u = Some Cond_signal" "todo s u = bctbx_WIN_cond_signal"
    using assms(3) by (auto simp: signalling_def)
  show ?thesis
  proof (cases "v = u")
    case True
    then show ?thesis using u assms(1) by (auto simp: signalling_def win_functions elim!: win_stepE)
  next
    case False
    then show ?thesis using u step_other [OF assms(1), of u] by (simp add: signalling_def)
  qed
qed

lemma signalling_run: "win_run P s s' \<Longrightarrow> (\<forall>x. P x \<longrightarrow> snd x \<noteq> System Wait_event) \<Longrightarrow> signalling s u \<Longrightarrow> signalling s' u"
  by (induction rule: win_run.induct) (auto dest: signalling_step)

section \<open>Properties\<close>

text \<open>
  C23: Mutual exclusion.  In every interleaving of any number of threads that unlock, and wait, only while they have the mutex,
  at most one thread at a time is between the return of the function that locks (or waits) and its next call of the one that
  unlocks (or waits): what lies between is a critical section.  A thread inside owns the mutex of the system, so that another
  one that calls the function that locks cannot return from it.
\<close>

theorem win_mutual_exclusion:
  assumes "reachable s" "0 < inside s t"
  shows "(\<forall>u. 0 < inside s u \<longrightarrow> u = t) \<and> mutex_owner s = Some t \<and>
    (\<forall>u s'. u \<noteq> t \<longrightarrow> \<not> win_step u (Returns Mutex_lock) s s' \<and> \<not> win_step u (Returns Cond_wait) s s')"
proof -
  note o = inside_owner [OF assms]
  have "u = t" if "0 < inside s u" for u using inside_owner(1) [OF assms(1) that] o(1) by simp
  moreover have "\<not> win_step u (Returns f) s s'" if "u \<noteq> t" "obtains_it f" for u f s'
    using o(2) [OF that(1)] that(2) by (auto simp: taken_def elim!: win_stepE)
  ultimately show ?thesis using o(1) by (auto simp: obtains_it_def)
qed

text \<open>Thread 1 locks.\<close>

definition demo_locked :: win where
  "demo_locked = win_start\<lparr>mutex_owner := Some 1, mutex_count := Suc (mutex_count win_start),
     todo := (todo win_start)(1 := []), inside := (inside win_start)(1 := Suc (inside win_start 1))\<rparr>"

lemma call_plain:
  assumes "running s t = None" "\<not> gives_up f"
  shows "win_step t (Calls f) s (s\<lparr>running := (running s)(t \<mapsto> f), todo := (todo s)(t := body f)\<rparr>)"
  using win_step.call [of s t f] assms by simp

lemma demo_lock:
  assumes "reachable s" "running s t = None" "mutex_owner s = None"
  shows "reachable (s\<lparr>mutex_owner := Some t, mutex_count := Suc (mutex_count s), todo := (todo s)(t := []),
    inside := (inside s)(t := Suc (inside s t))\<rparr>)"
proof -
  let ?a = "s\<lparr>running := (running s)(t \<mapsto> Mutex_lock), todo := (todo s)(t := bctbx_WIN_mutex_lock)\<rparr>"
  let ?b = "?a\<lparr>mutex_owner := Some t, mutex_count := Suc (mutex_count s), todo := (todo s)(t := [])\<rparr>"
  have a: "win_step t (Calls Mutex_lock) s ?a"
    using call_plain [of s t Mutex_lock] assms(2) by (simp add: gives_up_def)
  have b: "win_step t (System Wait_mutex) ?a ?b"
    using win_step.system [of ?a t Wait_mutex "[]"] assms(3) by (simp add: win_functions)
  have c: "win_step t (Returns Mutex_lock) ?b (?b\<lparr>running := (running s)(t := None), inside := (inside s)(t := Suc (inside s t))\<rparr>)"
    using win_step.return [of ?b t Mutex_lock] by (simp add: obtains_it_def)
  have "(running s)(t := None) = running s" using assms(2) by auto
  with reachable_step [OF reachable_step [OF reachable_step [OF assms(1) a] b] c] show ?thesis by simp
qed

lemma reachable_start: "reachable win_start"
  by (simp add: reachable_def win_run.here)

lemma start_simps:
  "running win_start t = None" "mutex_owner win_start = None" "mutex_count win_start = 0" "todo win_start = (\<lambda>_. [])"
  "inside win_start = (\<lambda>_. 0)" "event win_start = False"
  by (simp_all add: win_start_def bctbx_WIN_mutex_init_def bctbx_WIN_cond_init_def)

lemma demo_locked_reachable: "reachable demo_locked"
  unfolding demo_locked_def by (rule demo_lock [OF reachable_start start_simps(1,2)])

theorem win_mutual_exclusion_witness:
  "inside demo_locked 1 = 1 \<and> mutex_owner demo_locked = Some 1 \<and> inside demo_locked 2 = 0"
proof -
  have i: "inside demo_locked 1 = 1" by (simp add: demo_locked_def start_simps)
  then have "0 < inside demo_locked 1" by simp
  note m = win_mutual_exclusion [OF demo_locked_reachable this]
  have "\<not> 0 < inside demo_locked 2"
  proof
    assume "0 < inside demo_locked 2"
    then have "(2::nat) = 1" using m by blast
    then show False by simp
  qed
  then show ?thesis using m i by simp
qed

text \<open>
  C24: No signal is lost between the two halves of \<open>cond_wait\<close>, although releasing the mutex and waiting are two separate
  calls.  A thread calls the function while it has the mutex; later another one that has the mutex calls \<open>cond_signal\<close> and
  returns from it.  As long as no thread has passed the event meanwhile, the first thread is waiting for it, the event is set,
  and its next step is to pass it.
\<close>

theorem win_signal_not_lost:
  assumes "reachable s" "win_step t (Calls Cond_wait) s s1"
    and "win_run (\<lambda>x. snd x \<noteq> System Wait_event) s1 s2"
    and "u \<noteq> t" "0 < inside s2 u" "win_step u (Calls Cond_signal) s2 s3"
    and "win_run (\<lambda>x. snd x \<noteq> System Wait_event) s3 s4" "win_step u (Returns Cond_signal) s4 s5"
  shows "waiting s5 t \<and> event s5 \<and> (\<exists>s6. win_step t (System Wait_event) s5 s6)"
proof -
  have "before_event s1 t" using assms(2) by (auto simp: before_event_def elim!: win_stepE)
  from before_event_run [OF assms(3) _ this] have b: "before_event s2 t" by simp
  have "reachable s2" by (rule reachable_run [OF reachable_step [OF assms(1,2)] assms(3)])
  from inside_owner(2) [OF this assms(5), of t] assms(4) have "Release_mutex \<notin> set (todo s2 t)"
    by (auto simp: taken_def split: if_splits)
  then have "waiting s2 t" using b by (auto simp: before_event_def waiting_def win_functions)
  then have w3: "waiting s3 t" using waiting_step [OF assms(6)] by blast
  have "signalling s3 u" using assms(6) by (auto simp: signalling_def elim!: win_stepE)
  from signalling_run [OF assms(7) _ this] have "signalling s4 u" by simp
  then have e4: "event s4" using assms(8) by (auto simp: signalling_def win_functions elim!: win_stepE)
  have w4: "waiting s4 t"
    using assms(7) w3 by (induction rule: win_run.induct) (auto dest: waiting_step)
  have 5: "waiting s5 t" "event s5" using waiting_step [OF assms(8) w4] event_kept [OF assms(8) e4] by blast+
  then obtain ps where "todo s5 t = Wait_event # ps" by (auto simp: waiting_def)
  then have "win_step t (System Wait_event) s5 (s5\<lparr>event := False, todo := (todo s5)(t := ps)\<rparr>)"
    using win_step.system [of s5 t Wait_event ps "s5\<lparr>event := False\<rparr>"] 5(2) by simp
  with 5 show ?thesis by blast
qed

text \<open>Thread 1 waits, having released the mutex, when thread 2 locks and signals.\<close>

lemma system_to:
  "todo s t = p # ps \<Longrightarrow> exec p t s = Some s' \<Longrightarrow> s'' = s'\<lparr>todo := (todo s)(t := ps)\<rparr> \<Longrightarrow> win_step t (System p) s s''"
  using win_step.system by simp

lemma demo_wait:
  "\<exists>s1 s2. win_step 1 (Calls Cond_wait) demo_locked s1 \<and> win_run (\<lambda>x. snd x \<noteq> System Wait_event) s1 s2 \<and>
    0 < inside s2 2 \<and> running s2 2 = None"
proof -
  let ?a = "demo_locked\<lparr>running := (running demo_locked)(1 \<mapsto> Cond_wait), todo := (todo demo_locked)(1 := bctbx_WIN_cond_wait),
    inside := (inside demo_locked)(1 := 0)\<rparr>"
  let ?b = "?a\<lparr>mutex_count := 0, mutex_owner := None, todo := (todo demo_locked)(1 := [Wait_event, Wait_mutex])\<rparr>"
  let ?c = "?b\<lparr>running := (running ?b)(2 \<mapsto> Mutex_lock), todo := (todo ?b)(2 := bctbx_WIN_mutex_lock)\<rparr>"
  let ?d = "?c\<lparr>mutex_count := 1, mutex_owner := Some 2, todo := (todo ?c)(2 := [])\<rparr>"
  let ?e = "?d\<lparr>running := (running ?d)(2 := None), inside := (inside ?d)(2 := 1)\<rparr>"
  have r: "running demo_locked t = None" "mutex_owner demo_locked = Some 1" "mutex_count demo_locked = 1"
    "inside demo_locked 1 = 1" "inside demo_locked 2 = 0" for t
    by (simp_all add: demo_locked_def start_simps)
  note r = r r [unfolded One_nat_def]
  have a: "win_step 1 (Calls Cond_wait) demo_locked ?a"
    using win_step.call [of demo_locked 1 Cond_wait] by (simp add: gives_up_def r)
  have b: "win_step 1 (System Release_mutex) ?a ?b"
    using win_step.system [of ?a 1 Release_mutex "[Wait_event, Wait_mutex]"] by (simp add: win_functions r)
  have c: "win_step 2 (Calls Mutex_lock) ?b ?c"
    using call_plain [of ?b 2 Mutex_lock] by (simp add: gives_up_def r)
  have d: "win_step 2 (System Wait_mutex) ?c ?d"
    by (rule system_to [where ps = "[]" and s' = "?c\<lparr>mutex_owner := Some 2, mutex_count := 1\<rparr>"])
      (simp_all add: win_functions r win.equality)
  have e: "win_step 2 (Returns Mutex_lock) ?d ?e"
    using win_step.return [of ?d 2 Mutex_lock] by (simp add: obtains_it_def r)
  have "win_run (\<lambda>x. snd x \<noteq> System Wait_event) ?a ?e"
    by (rule win_run.more [OF win_run.more [OF win_run.more [OF win_run_step [OF b] _ c] _ d] _ e]) simp_all
  with a show ?thesis by (intro exI [of _ ?a] exI [of _ ?e]) simp
qed

lemma demo_signal:
  assumes "running s u = None"
  shows "\<exists>s3 s4 s5. win_step u (Calls Cond_signal) s s3 \<and> win_run (\<lambda>x. snd x \<noteq> System Wait_event) s3 s4 \<and>
    win_step u (Returns Cond_signal) s4 s5"
proof -
  let ?a = "s\<lparr>running := (running s)(u \<mapsto> Cond_signal), todo := (todo s)(u := bctbx_WIN_cond_signal)\<rparr>"
  let ?b = "?a\<lparr>event := True, todo := (todo ?a)(u := [])\<rparr>"
  have a: "win_step u (Calls Cond_signal) s ?a"
    using call_plain [of s u Cond_signal] assms by (simp add: gives_up_def)
  have b: "win_step u (System Set_event) ?a ?b"
    using win_step.system [of ?a u Set_event "[]"] by (simp add: win_functions)
  have "\<exists>s5. win_step u (Returns Cond_signal) ?b s5"
    using win_step.return [of ?b u Cond_signal] by (auto simp del: fun_upd_apply) (simp add: exI)
  with a win_run_step [OF b, of "\<lambda>x. snd x \<noteq> System Wait_event"] show ?thesis by auto
qed

theorem win_signal_not_lost_witness:
  "\<exists>s5. reachable s5 \<and> waiting s5 1 \<and> event s5 \<and> (\<exists>s6. win_step 1 (System Wait_event) s5 s6)"
proof -
  obtain s1 s2 where w: "win_step 1 (Calls Cond_wait) demo_locked s1" "win_run (\<lambda>x. snd x \<noteq> System Wait_event) s1 s2"
    "0 < inside s2 2" "running s2 2 = None" using demo_wait by blast
  obtain s3 s4 s5 where g: "win_step 2 (Calls Cond_signal) s2 s3" "win_run (\<lambda>x. snd x \<noteq> System Wait_event) s3 s4"
    "win_step 2 (Returns Cond_signal) s4 s5" using demo_signal [OF w(4)] by blast
  have "reachable s5"
    using reachable_step [OF reachable_run [OF reachable_step [OF reachable_run [OF reachable_step [OF demo_locked_reachable
      w(1)] w(2)] g(1)] g(2)] g(3)] .
  moreover have "(2::nat) \<noteq> 1" by simp
  ultimately show ?thesis using win_signal_not_lost [OF demo_locked_reachable w(1,2) _ w(3) g] by blast
qed

text \<open>
  Of all the threads that wait, at most one is woken by the broadcast: without a further signal no
  interleaving lets a second one go, since the broadcast only sets an event that the first thread
  resets.
\<close>

theorem win_broadcast_wakes_one:
  assumes "\<forall>t\<in>W. waiting s t" "win_step u (System Set_event) s s1"
    and "win_run (\<lambda>(v, p). p \<noteq> System Set_event) s1 s2"
    and "t \<in> W" "t' \<in> W" "\<not> waiting s2 t" "\<not> waiting s2 t'"
  shows "t = t'"
proof -
  have s1: "\<forall>t\<in>W. waiting s1 t" using waiting_step [OF assms(2)] assms(1) by blast
  from assms(3) s1 have "(event s2 \<longrightarrow> (\<forall>t\<in>W. waiting s2 t)) \<and> (\<forall>t\<in>W. \<forall>t'\<in>W. \<not> waiting s2 t \<longrightarrow> \<not> waiting s2 t' \<longrightarrow> t = t')"
  proof (induction rule: win_run.induct)
    case (more s s1 v p s2)
    note IH = more.IH [OF more.prems]
    show ?case
    proof (cases "event s1")
      case True
      then have "\<forall>t\<in>W. waiting s1 t" using IH by blast
      then have gone: "t \<in> W \<Longrightarrow> \<not> waiting s2 t \<Longrightarrow> t = v \<and> p = System Wait_event" for t
        using waiting_step [OF more.hyps(3)] by blast
      moreover have "p = System Wait_event \<Longrightarrow> \<not> event s2" using more.hyps(3) by (auto split: if_splits elim!: win_stepE)
      ultimately show ?thesis by blast
    next
      case False
      with event_unset [OF more.hyps(3)] more.hyps(2) have "\<not> event s2" "p \<noteq> System Wait_event" by auto
      with IH show ?thesis using waiting_step [OF more.hyps(3)] by blast
    qed
  qed simp
  with assms(4-7) show ?thesis by blast
qed

text \<open>Two threads wait, a third one is about to signal.\<close>

definition demo_win :: win where
  "demo_win = \<lparr>mutex_owner = None, mutex_count = 0, event = False,
     todo = (\<lambda>_. [])(1 := [Wait_event, Wait_mutex], 2 := [Wait_event, Wait_mutex], 3 := bctbx_WIN_cond_broadcast),
     running = Map.empty(1 \<mapsto> Cond_wait, 2 \<mapsto> Cond_wait, 3 \<mapsto> Cond_broadcast), inside = (\<lambda>_. 0)\<rparr>"

definition demo_win_set :: win where
  "demo_win_set = demo_win\<lparr>event := True, todo := (todo demo_win)(3 := [])\<rparr>"

lemma demo_win_step: "win_step 3 (System Set_event) demo_win demo_win_set"
  using win_step.system [of demo_win 3 Set_event "[]" "demo_win\<lparr>event := True\<rparr>"]
  by (simp add: demo_win_set_def demo_win_def win_functions)

lemma demo_win_waiting: "waiting demo_win 1" "waiting demo_win 2" "waiting demo_win_set 1" "waiting demo_win_set 2"
  by (simp_all add: waiting_def demo_win_def demo_win_set_def)

theorem win_broadcast_wakes_one_witness:
  "\<exists>s. win_run (\<lambda>(v, p). p \<noteq> System Set_event) demo_win_set s \<and> \<not> waiting s 1 \<and> waiting s 2"
proof -
  let ?s = "demo_win_set\<lparr>event := False, todo := (todo demo_win_set)(1 := [Wait_mutex])\<rparr>"
  have "win_step 1 (System Wait_event) demo_win_set ?s"
    using win_step.system [of demo_win_set 1 Wait_event "[Wait_mutex]" "demo_win_set\<lparr>event := False\<rparr>"]
    by (simp add: demo_win_set_def demo_win_def)
  then have run: "win_run (\<lambda>(v, p). p \<noteq> System Set_event) demo_win_set ?s" by (rule win_run_step) simp
  moreover have gone: "\<not> waiting ?s 1" by (simp add: waiting_def)
  moreover have "waiting ?s 2"
  proof (rule ccontr)
    assume "\<not> waiting ?s 2"
    then have "(1::nat) = 2"
      using win_broadcast_wakes_one [OF _ demo_win_step run, of "{1, 2}" 1 2] gone demo_win_waiting by simp
    then show False by simp
  qed
  ultimately show ?thesis by blast
qed

end
