(* ===== verification/PortSys.thy ===== *)
theory PortSys
  imports PortStr
begin

text \<open>
  Named pipes and random numbers of src/utils/port.c on Linux.  The system calls are a parameter, a
  record of functions on a state of the kernel, \<open>'x\<close>.  Log calls are left out.
\<close>

section \<open>System calls\<close>

record 'x unix =
  u_socket :: "'x \<Rightarrow> int \<times> 'x"
  u_unlink :: "string \<Rightarrow> 'x \<Rightarrow> 'x"
  u_fchmod :: "int \<Rightarrow> 'x \<Rightarrow> 'x"
  u_bind :: "int \<Rightarrow> string \<Rightarrow> 'x \<Rightarrow> int \<times> 'x"
  u_listen :: "int \<Rightarrow> int \<Rightarrow> 'x \<Rightarrow> 'x"
  u_accept :: "int \<Rightarrow> 'x \<Rightarrow> int \<times> 'x"
  u_connect :: "int \<Rightarrow> string \<Rightarrow> 'x \<Rightarrow> int \<times> 'x"
  u_getsockname :: "int \<Rightarrow> 'x \<Rightarrow> string option"
  u_close :: "int \<Rightarrow> 'x \<Rightarrow> int \<times> 'x"
  u_owner :: "string \<Rightarrow> 'x \<Rightarrow> int option"
  u_getuid :: "'x \<Rightarrow> int"
  u_read :: "int \<Rightarrow> int \<Rightarrow> 'x \<Rightarrow> (int \<times> string) \<times> 'x"
  u_write :: "int \<Rightarrow> string \<Rightarrow> 'x \<Rightarrow> int \<times> 'x"
  u_open_urandom :: "'x \<Rightarrow> int \<times> 'x"
  u_random :: "'x \<Rightarrow> 32 word \<times> 'x"

text \<open>\<open>names\<close> counts the strings that were allocated for names of pipes and not freed.\<close>

record 'x port_state =
  names :: nat
  os :: 'x

section \<open>Named pipes\<close>

text \<open>
  \<open>strncpy\<close> fills 107 of the 108 bytes of \<open>sun_path\<close>; the last one is not set, so that a longer path
  has no end.
\<close>

definition sun_path :: "string \<Rightarrow> string option" where
  "sun_path path = (if length path < 107 then Some path else None)"

definition make_pipe_name :: "string \<Rightarrow> 'x port_state \<Rightarrow> (string \<times> 'x port_state) option" where
  "make_pipe_name name s = do {
     pipename \<leftarrow> bctbx_strdup_printf ''/tmp/%s'' [AStr name];
     Some (pipename, s\<lparr>names := Suc (names s)\<rparr>) }"

definition bctbx_server_pipe_create_by_path :: "'x unix \<Rightarrow> string \<Rightarrow> 'x port_state \<Rightarrow> (int \<times> 'x port_state) option" where
  "bctbx_server_pipe_create_by_path k path s = do {
     let s = s\<lparr>names := Suc (names s)\<rparr>;
     let (sock, x) = u_socket k (os s);
     sa \<leftarrow> sun_path path;
     let x = u_unlink k path x;
     let s = s\<lparr>names := names s - 1\<rparr>;
     let x = u_fchmod k sock x;
     let (err, x) = u_bind k sock sa x;
     if err \<noteq> 0 then Some (-1, s\<lparr>os := x\<rparr>)
     else Some (sock, s\<lparr>os := u_listen k sock 1 x\<rparr>) }"

definition bctbx_server_pipe_create :: "'x unix \<Rightarrow> string \<Rightarrow> 'x port_state \<Rightarrow> (int \<times> 'x port_state) option" where
  "bctbx_server_pipe_create k name s = do {
     (path, s) \<leftarrow> make_pipe_name name s;
     bctbx_server_pipe_create_by_path k path s }"

definition bctbx_server_pipe_accept_client :: "'x unix \<Rightarrow> int \<Rightarrow> 'x port_state \<Rightarrow> int \<times> 'x port_state" where
  "bctbx_server_pipe_accept_client k server s =
     (let (client_sock, x) = u_accept k server (os s) in (client_sock, s\<lparr>os := x\<rparr>))"

definition bctbx_server_pipe_close_client :: "'x unix \<Rightarrow> int \<Rightarrow> 'x port_state \<Rightarrow> int \<times> 'x port_state" where
  "bctbx_server_pipe_close_client k client s = (let (r, x) = u_close k client (os s) in (r, s\<lparr>os := x\<rparr>))"

definition bctbx_server_pipe_close :: "'x unix \<Rightarrow> int \<Rightarrow> 'x port_state \<Rightarrow> int \<times> 'x port_state" where
  "bctbx_server_pipe_close k spipe s =
     (let x = (case u_getsockname k spipe (os s) of Some path \<Rightarrow> u_unlink k path (os s) | None \<Rightarrow> os s);
          (r, x) = u_close k spipe x
      in (r, s\<lparr>os := x\<rparr>))"

text \<open>The owner is asked for the name the caller gave, not for the name of the pipe.\<close>

definition bctbx_client_pipe_connect :: "'x unix \<Rightarrow> string \<Rightarrow> 'x port_state \<Rightarrow> (int \<times> 'x port_state) option" where
  "bctbx_client_pipe_connect k name s = do {
     (pipename, s) \<leftarrow> make_pipe_name name s;
     let uid = u_getuid k (os s);
     if (case u_owner k name (os s) of Some st_uid \<Rightarrow> st_uid \<noteq> uid | None \<Rightarrow> False) then Some (-1, s)
     else do {
       let (sock, x) = u_socket k (os s);
       sa \<leftarrow> sun_path pipename;
       let s = s\<lparr>names := names s - 1\<rparr>;
       let (err, x) = u_connect k sock sa x;
       if err \<noteq> 0 then Some (-1, s\<lparr>os := snd (u_close k sock x)\<rparr>)
       else Some (sock, s\<lparr>os := x\<rparr>) } }"

definition bctbx_pipe_read :: "'x unix \<Rightarrow> int \<Rightarrow> int \<Rightarrow> 'x port_state \<Rightarrow> (int \<times> string) \<times> 'x port_state" where
  "bctbx_pipe_read k p len s = (let (r, x) = u_read k p len (os s) in (r, s\<lparr>os := x\<rparr>))"

definition bctbx_pipe_write :: "'x unix \<Rightarrow> int \<Rightarrow> string \<Rightarrow> 'x port_state \<Rightarrow> int \<times> 'x port_state" where
  "bctbx_pipe_write k p buf s = (let (r, x) = u_write k p buf (os s) in (r, s\<lparr>os := x\<rparr>))"

definition bctbx_client_pipe_close :: "'x unix \<Rightarrow> int \<Rightarrow> 'x port_state \<Rightarrow> int \<times> 'x port_state" where
  "bctbx_client_pipe_close k sock s = (let (r, x) = u_close k sock (os s) in (r, s\<lparr>os := x\<rparr>))"

section \<open>Random numbers\<close>

text \<open>
  \<open>fd\<close> is the static descriptor, -1 before the first call.  The four bytes are the number, low byte
  in front.
\<close>

definition bctbx_random :: "'x unix \<Rightarrow> int \<Rightarrow> 'x \<Rightarrow> 32 word \<times> int \<times> 'x" where
  "bctbx_random k fd x =
     (let (fd, x) = (if fd = -1 then u_open_urandom k x else (fd, x));
          (got, x) = (if fd \<noteq> -1 then (let ((n, cs), x) = u_read k fd 4 x in (if n \<noteq> 4 then None else Some cs, x))
                      else (None, x))
      in case got of
           Some cs \<Rightarrow> (word_of_nat (\<Sum>i<4. of_char (cs ! i) * 256 ^ i), fd, x)
         | None \<Rightarrow> (let (r, x) = u_random k x in (r, fd, x)))"

section \<open>Properties\<close>

lemma pipe_name:
  "nul_free name \<Longrightarrow> length name < 2 ^ 20 \<Longrightarrow>
   make_pipe_name name s = Some (''/tmp/'' @ name, s\<lparr>names := Suc (names s)\<rparr>)"
  by (simp add: make_pipe_name_def bctbx_strdup_printf_def strdup_vprintf_c99)

text \<open>
  The check of the owner in \<open>bctbx_client_pipe_connect\<close> has nothing to do with the pipe: whoever
  owns \<open>/tmp/name\<close>, the answer is the same, while a file called \<open>name\<close> in the current directory that
  belongs to someone else makes the call fail and lose the string of the pipe's name.
  \<open>bctbx_server_pipe_create\<close> loses that string always.
\<close>

theorem pipe_owner_unchecked:
  assumes "nul_free name" "length name < 102"
  shows "bctbx_client_pipe_connect (k\<lparr>u_owner := (\<lambda>p x. if p = ''/tmp/'' @ name then who else u_owner k p x)\<rparr>) name s =
      bctbx_client_pipe_connect k name s \<and>
    (\<forall>v. u_owner k name (os s) = Some v \<and> v \<noteq> u_getuid k (os s) \<longrightarrow>
       bctbx_client_pipe_connect k name s = Some (-1, s\<lparr>names := Suc (names s)\<rparr>)) \<and>
    (\<exists>r x. bctbx_server_pipe_create k name s = Some (r, s\<lparr>names := Suc (names s), os := x\<rparr>))"
proof (intro conjI allI impI)
  have n: "make_pipe_name name s = Some (''/tmp/'' @ name, s\<lparr>names := Suc (names s)\<rparr>)"
    by (rule pipe_name) (use assms in simp_all)
  have ne: "name \<noteq> ''/tmp/'' @ name" by (simp add: list_eq_iff_nth_eq)
  show "bctbx_client_pipe_connect (k\<lparr>u_owner := (\<lambda>p x. if p = ''/tmp/'' @ name then who else u_owner k p x)\<rparr>) name s =
      bctbx_client_pipe_connect k name s"
    using ne n by (simp add: bctbx_client_pipe_connect_def Let_def split_def cong: if_cong)
  fix v
  assume "u_owner k name (os s) = Some v \<and> v \<noteq> u_getuid k (os s)"
  then show "bctbx_client_pipe_connect k name s = Some (-1, s\<lparr>names := Suc (names s)\<rparr>)"
    by (simp add: bctbx_client_pipe_connect_def n)
next
  have n: "make_pipe_name name s = Some (''/tmp/'' @ name, s\<lparr>names := Suc (names s)\<rparr>)"
    by (rule pipe_name) (use assms in simp_all)
  obtain sock x where 1: "u_socket k (os s) = (sock, x)" by fastforce
  obtain err y where 2: "u_bind k sock (''/tmp/'' @ name) (u_fchmod k sock (u_unlink k (''/tmp/'' @ name) x)) = (err, y)"
    by fastforce
  show "\<exists>r x. bctbx_server_pipe_create k name s = Some (r, s\<lparr>names := Suc (names s), os := x\<rparr>)"
    using n 1 2 assms(2)
    by (simp add: bctbx_server_pipe_create_def bctbx_server_pipe_create_by_path_def sun_path_def)
      (intro conjI impI; rule exI, rule refl)
qed

text \<open>User 7 connects to the pipe of user 8.\<close>

definition demo_unix :: "unit unix" where
  "demo_unix =
     \<lparr>u_socket = (\<lambda>x. (3, x)), u_unlink = (\<lambda>_ x. x), u_fchmod = (\<lambda>_ x. x), u_bind = (\<lambda>_ _ x. (0, x)),
      u_listen = (\<lambda>_ _ x. x), u_accept = (\<lambda>_ x. (4, x)), u_connect = (\<lambda>_ _ x. (0, x)),
      u_getsockname = (\<lambda>_ _. None), u_close = (\<lambda>_ x. (0, x)),
      u_owner = (\<lambda>p x. if p = ''mine'' then Some 7 else None), u_getuid = (\<lambda>_. 7),
      u_read = (\<lambda>_ _ x. ((0, []), x)), u_write = (\<lambda>_ _ x. (0, x)), u_open_urandom = (\<lambda>x. (-1, x)),
      u_random = (\<lambda>x. (0, x))\<rparr>"

theorem pipe_owner_unchecked_witness:
  "bctbx_client_pipe_connect
     (demo_unix\<lparr>u_owner := (\<lambda>p x. if p = ''/tmp/'' @ ''mine'' then Some 8 else u_owner demo_unix p x)\<rparr>)
     ''mine'' \<lparr>names = 0, os = ()\<rparr> = Some (3, \<lparr>names = 0, os = ()\<rparr>)"
proof -
  let ?s = "\<lparr>names = 0, os = ()\<rparr>"
  have name: "nul_free ''mine''" "length ''mine'' < 102" by (simp_all add: NUL_def)
  have "bctbx_client_pipe_connect demo_unix ''mine'' ?s = Some (3, ?s)"
    using pipe_name [OF name(1), of ?s]
    by (simp add: bctbx_client_pipe_connect_def demo_unix_def sun_path_def)
  moreover have "bctbx_client_pipe_connect
      (demo_unix\<lparr>u_owner := (\<lambda>p x. if p = ''/tmp/'' @ ''mine'' then Some 8 else u_owner demo_unix p x)\<rparr>) ''mine'' ?s =
      bctbx_client_pipe_connect demo_unix ''mine'' ?s"
    using pipe_owner_unchecked [OF name] by blast
  ultimately show ?thesis by simp
qed

end
