(* ===== verification/StrUtils.thy ===== *)
theory StrUtils
  imports Prelude CString
begin

text \<open>
  The string functions of src/utils/utils.cc: splitting at a delimiter, replacing, and the folding of
  long lines with its inverse.  A \<open>std::string\<close> is a list of characters; positions are counted from 0
  and \<open>None\<close> stands for \<open>npos\<close>.  A loop that does not end is \<open>None\<close>.
\<close>

section \<open>Operations\<close>

definition find_from :: "string \<Rightarrow> string \<Rightarrow> nat \<Rightarrow> nat option" where
  "find_from s pat pos = (if length s < pos then None else map_option ((+) pos) (strstr (drop pos s) pat))"

partial_function (option) split_loop :: "string \<Rightarrow> string \<Rightarrow> nat \<Rightarrow> nat \<Rightarrow> string list \<Rightarrow> string list option" where
  "split_loop str delimiter pos oldPos out =
     (case find_from str delimiter pos of
        None \<Rightarrow> Some (out @ [drop oldPos str])
      | Some p \<Rightarrow>
          split_loop str delimiter (p + length delimiter) (p + length delimiter)
            (out @ [take (p - oldPos) (drop oldPos str)]))"

definition split_str :: "string \<Rightarrow> string \<Rightarrow> string list option" where
  "split_str str delimiter = split_loop str delimiter 0 0 []"

partial_function (option) replace_loop :: "string \<Rightarrow> string \<Rightarrow> bool \<Rightarrow> string \<Rightarrow> nat \<Rightarrow> string option" where
  "replace_loop from_text to_text recursive source start_pos =
     (case find_from source from_text start_pos of
        None \<Rightarrow> Some source
      | Some p \<Rightarrow>
          replace_loop from_text to_text recursive
            (take p source @ to_text @ drop (p + length from_text) source)
            (if recursive then p + length to_text else p))"

definition replace_str :: "string \<Rightarrow> string \<Rightarrow> string \<Rightarrow> bool \<Rightarrow> string option" where
  "replace_str source from_text to_text recursive = replace_loop from_text to_text recursive source 0"

definition CR :: char where "CR = CHR 0x0D"
definition LF :: char where "LF = CHR 0x0A"

abbreviation CRLF :: string where "CRLF \<equiv> [CR, LF]"

partial_function (option) fold_loop :: "string \<Rightarrow> nat \<Rightarrow> string option" where
  "fold_loop output crlf =
     (case find_from output CRLF crlf of
        None \<Rightarrow> Some output
      | Some next_crlf \<Rightarrow>
          if next_crlf - crlf > 75
          then fold_loop (take (crlf + 74) output @ CRLF @ '' '' @ drop (crlf + 74) output) (crlf + 76)
          else fold_loop output (next_crlf + 2))"

definition fold_lines :: "string \<Rightarrow> string option" where
  "fold_lines str = fold_loop str 0"

text \<open>The character at the end of a string is the null character, which is not white space.\<close>

partial_function (option) unfold_loop :: "string \<Rightarrow> string \<Rightarrow> nat option \<Rightarrow> string option" where
  "unfold_loop endline output crlf =
     (case crlf of
        None \<Rightarrow> Some output
      | Some p \<Rightarrow>
          let (output, p) =
            (if isspace (cat output (p + length endline))
             then (take p output @ drop (p + length endline + 1) output, p)
             else (output, p + length endline))
          in unfold_loop endline output (find_from output endline p))"

definition unfold_lines :: "string \<Rightarrow> string option" where
  "unfold_lines str =
     (case find_from str CRLF 0 of
        None \<Rightarrow> unfold_loop [LF] str (find_from str [LF] 0)
      | Some p \<Rightarrow> unfold_loop CRLF str (Some p))"

section \<open>Searching\<close>

lemma strstr_cut: "strstr s pat = Some n \<Longrightarrow> s = take n s @ pat @ drop (n + length pat) s"
  using strstr_Some [of s pat n] by (metis add.commute append_take_drop_id drop_drop)

lemma find_from_app: "find_from (pre @ s) pat (length pre) = map_option ((+) (length pre)) (strstr s pat)"
  by (simp add: find_from_def)

section \<open>Splitting and replacing\<close>

text \<open>The parts on their own, without positions.\<close>

function parts :: "string \<Rightarrow> string \<Rightarrow> string list" where
  "parts s d =
     (case strstr s d of
        None \<Rightarrow> [s]
      | Some n \<Rightarrow> if d = [] then [] else take n s # parts (drop (n + length d) s) d)"
  by pat_completeness auto
termination
  by (relation "measure (\<lambda>(s, d). length s)") (auto dest!: strstr_Some simp flip: length_greater_0_conv)

declare parts.simps [simp del]

fun join :: "string \<Rightarrow> string list \<Rightarrow> string" where
  "join d [] = []"
| "join d [p] = p"
| "join d (p # q # ps) = p @ d @ join d (q # ps)"

lemma parts_nonempty [simp]: "d \<noteq> [] \<Longrightarrow> parts s d \<noteq> []"
  by (subst parts.simps) (simp split: option.split)

lemma join_Cons: "ps \<noteq> [] \<Longrightarrow> join d (p # ps) = p @ d @ join d ps"
  by (cases ps) simp_all

lemma join_parts: "d \<noteq> [] \<Longrightarrow> join d (parts s d) = s"
proof (induction s d rule: parts.induct)
  case (1 s d)
  show ?case
  proof (cases "strstr s d")
    case (Some n)
    with 1 strstr_cut [OF Some] show ?thesis by (subst parts.simps) (simp add: join_Cons)
  qed (subst parts.simps, simp)
qed

lemma strstr_take: "strstr s d = Some n \<Longrightarrow> d \<noteq> [] \<Longrightarrow> strstr (take n s) d = None"
proof (rule ccontr)
  assume n: "strstr s d = Some n" "d \<noteq> []" "strstr (take n s) d \<noteq> None"
  then obtain i where i: "strstr (take n s) d = Some i" by blast
  have "i + length d \<le> n" "take (length d) (drop i (take n s)) = d"
    using strstr_Some [OF i] by auto
  then have "take (length d) (drop i s) = d" by (simp add: drop_take min_def split: if_splits)
  moreover have "i < n" using \<open>i + length d \<le> n\<close> n(2) by (cases d) auto
  ultimately show False using strstr_first [OF n(1)] by blast
qed

lemma parts_free: "d \<noteq> [] \<Longrightarrow> p \<in> set (parts s d) \<Longrightarrow> strstr p d = None"
proof (induction s d rule: parts.induct)
  case (1 s d)
  show ?case
  proof (cases "strstr s d")
    case None
    then have "parts s d = [s]" by (subst parts.simps) simp
    with 1 None show ?thesis by simp
  next
    case (Some n)
    then have "parts s d = take n s # parts (drop (n + length d) s) d" using 1 by (subst parts.simps) simp
    with 1 Some strstr_take [OF Some] show ?thesis by auto
  qed
qed

lemma split_loop_parts:
  "d \<noteq> [] \<Longrightarrow> split_loop (pre @ s) d (length pre) (length pre) out = Some (out @ parts s d)"
proof (induction s d arbitrary: pre out rule: parts.induct)
  case (1 s d)
  show ?case
  proof (cases "strstr s d")
    case None
    then show ?thesis
      by (subst split_loop.simps, subst parts.simps) (simp add: find_from_app)
  next
    case (Some n)
    let ?pre = "pre @ take n s @ d"
    have s: "pre @ s = ?pre @ drop (n + length d) s" using strstr_cut [OF Some] by simp
    have len: "length ?pre = length pre + n + length d" using strstr_Some [OF Some] by simp
    have "split_loop (?pre @ drop (n + length d) s) d (length ?pre) (length ?pre) (out @ [take n s]) =
        Some ((out @ [take n s]) @ parts (drop (n + length d) s) d)"
      by (rule "1.IH" [OF Some]) (use 1 in simp_all)
    then have "split_loop (pre @ s) d (length pre + n + length d) (length pre + n + length d) (out @ [take n s]) =
        Some (out @ take n s # parts (drop (n + length d) s) d)"
      unfolding s [symmetric] len by simp
    then show ?thesis using Some 1
      by (subst split_loop.simps, subst parts.simps) (simp add: find_from_app)
  qed
qed

lemma replace_loop_parts:
  "f \<noteq> [] \<Longrightarrow> replace_loop f t True (pre @ s) (length pre) = Some (pre @ join t (parts s f))"
proof (induction s f arbitrary: pre rule: parts.induct)
  case (1 s f)
  show ?case
  proof (cases "strstr s f")
    case None
    then show ?thesis
      by (subst replace_loop.simps, subst parts.simps) (simp add: find_from_app)
  next
    case (Some n)
    let ?pre = "pre @ take n s @ t"
    have len: "length ?pre = length pre + n + length t" "n \<le> length s" using strstr_Some [OF Some] by simp_all
    have "replace_loop f t True (?pre @ drop (n + length f) s) (length ?pre) =
        Some (?pre @ join t (parts (drop (n + length f) s) f))"
      by (rule "1.IH" [OF Some]) (use 1 in simp_all)
    then show ?thesis using Some 1 len
      by (subst replace_loop.simps, subst parts.simps) (simp add: find_from_app join_Cons add.assoc)
  qed
qed

text \<open>When the text put in holds the text looked for, rewriting from the same place on never ends.\<close>

lemma strstr_inside: "strstr t f = Some k \<Longrightarrow> strstr (t @ u) f \<noteq> None"
proof
  assume k: "strstr t f = Some k" and none: "strstr (t @ u) f = None"
  have b: "k + length f \<le> length t" "take (length f) (drop k t) = f" using strstr_Some [OF k] by simp_all
  then have "take (length f) (drop k (t @ u)) = f" by simp
  with strstr_None [OF none, of k] show False by simp
qed

lemma replace_loop_stuck:
  assumes "replace_loop f t False s pos = Some r" "strstr t f \<noteq> None"
  shows "find_from s f pos = None"
proof -
  have "\<not> False \<longrightarrow> strstr t f \<noteq> None \<longrightarrow> find_from s f pos = None"
  proof (rule replace_loop.raw_induct
      [where P = "\<lambda>f t rec s pos res. \<not> rec \<longrightarrow> strstr t f \<noteq> None \<longrightarrow> find_from s f pos = None", OF _ assms(1)], intro impI)
    fix self :: "string \<Rightarrow> string \<Rightarrow> bool \<Rightarrow> string \<Rightarrow> nat \<Rightarrow> string option"
      and f t :: string and r s pos res
    assume IH: "\<And>f t rec s pos res. self f t rec s pos = Some res \<Longrightarrow>
        \<not> rec \<longrightarrow> strstr t f \<noteq> None \<longrightarrow> find_from s f pos = None"
      and body: "(case find_from s f pos of None \<Rightarrow> Some s
          | Some p \<Rightarrow> self f t r (take p s @ t @ drop (p + length f) s) (if r then p + length t else p)) = Some res"
      and r: "\<not> r" and t: "strstr t f \<noteq> None"
    show "find_from s f pos = None"
    proof (cases "find_from s f pos")
      case (Some p)
      let ?s = "take p s @ t @ drop (p + length f) s"
      have p: "p \<le> length s"
        using Some by (auto simp: find_from_def split: if_splits dest!: strstr_Some)
      from body Some r have "self f t r ?s p = Some res" by simp
      from IH [OF this] r t have "find_from ?s f p = None" by simp
      moreover have "find_from ?s f p = map_option ((+) p) (strstr (t @ drop (p + length f) s) f)"
        using find_from_app [of "take p s" "t @ drop (p + length f) s" f] p by simp
      moreover have "strstr (t @ drop (p + length f) s) f \<noteq> None" using strstr_inside t by blast
      ultimately show ?thesis by simp
    qed
  qed
  with assms(2) show ?thesis by simp
qed

text \<open>The empty text is found at every position up to the end.\<close>

lemma find_from_empty: "pos \<le> length s \<Longrightarrow> find_from s [] pos = Some pos"
  by (cases "drop pos s") (simp_all add: find_from_def)

lemma split_loop_empty:
  assumes "pos \<le> length s"
  shows "split_loop s [] pos old out = None"
proof (rule ccontr)
  assume "split_loop s [] pos old out \<noteq> None"
  then obtain r where r: "split_loop s [] pos old out = Some r" by blast
  have "d = [] \<and> p \<le> length x \<longrightarrow> False" if "split_loop x d p q ys = Some y" for x d p q ys y
  proof (rule split_loop.raw_induct [OF _ that, where P = "\<lambda>x d p q ys y. d = [] \<and> p \<le> length x \<longrightarrow> False"], intro impI)
    fix self :: "string \<Rightarrow> string \<Rightarrow> nat \<Rightarrow> nat \<Rightarrow> string list \<Rightarrow> string list option"
      and x d :: string and p q ys y
    assume IH: "\<And>x d p q ys y. self x d p q ys = Some y \<Longrightarrow> d = [] \<and> p \<le> length x \<longrightarrow> False"
      and body: "(case find_from x d p of None \<Rightarrow> Some (ys @ [drop q x])
          | Some k \<Rightarrow> self x d (k + length d) (k + length d) (ys @ [take (k - q) (drop q x)])) = Some y"
      and d: "d = [] \<and> p \<le> length x"
    from body d have "self x [] p p (ys @ [take (p - q) (drop q x)]) = Some y" by (simp add: find_from_empty)
    from IH [OF this] d show False by simp
  qed
  from this [OF r] assms show False by simp
qed

lemma replace_loop_empty:
  assumes "pos \<le> length s"
  shows "replace_loop [] t recursive s pos = None"
proof (rule ccontr)
  assume "replace_loop [] t recursive s pos \<noteq> None"
  then obtain r where r: "replace_loop [] t recursive s pos = Some r" by blast
  have "f = [] \<and> p \<le> length x \<longrightarrow> False" if "replace_loop f t rec x p = Some y" for f t rec x p y
  proof (rule replace_loop.raw_induct [OF _ that, where P = "\<lambda>f t rec x p y. f = [] \<and> p \<le> length x \<longrightarrow> False"], intro impI)
    fix self :: "string \<Rightarrow> string \<Rightarrow> bool \<Rightarrow> string \<Rightarrow> nat \<Rightarrow> string option"
      and f t :: string and rec x p y
    assume IH: "\<And>f t rec x p y. self f t rec x p = Some y \<Longrightarrow> f = [] \<and> p \<le> length x \<longrightarrow> False"
      and body: "(case find_from x f p of None \<Rightarrow> Some x
          | Some k \<Rightarrow> self f t rec (take k x @ t @ drop (k + length f) x) (if rec then k + length t else k)) = Some y"
      and f: "f = [] \<and> p \<le> length x"
    from body f have "self [] t rec (take p x @ t @ drop p x) (if rec then p + length t else p) = Some y"
      by (simp add: find_from_empty)
    from IH [OF this] f show False by (cases rec) simp_all
  qed
  from this [OF r] assms show False by simp
qed

section \<open>Folding\<close>

text \<open>The loops without positions: what they make of the text from the current position on.\<close>

function folded :: "string \<Rightarrow> string" where
  "folded s =
     (case strstr s CRLF of
        None \<Rightarrow> s
      | Some n \<Rightarrow>
          if 75 < n then take 74 s @ CRLF @ folded (CHR '' '' # drop 74 s)
          else take (n + 2) s @ folded (drop (n + 2) s))"
  by pat_completeness auto
termination by (relation "measure length") (auto dest!: strstr_Some)

function unfolded :: "string \<Rightarrow> string \<Rightarrow> string" where
  "unfolded e s =
     (case strstr s e of
        None \<Rightarrow> s
      | Some n \<Rightarrow>
          if e = [] then s
          else if isspace (cat s (n + length e)) then take n s @ unfolded e (drop (n + length e + 1) s)
          else take (n + length e) s @ unfolded e (drop (n + length e) s))"
  by pat_completeness auto
termination
  by (relation "measure (\<lambda>(e, s). length s)") (auto dest!: strstr_Some simp flip: length_greater_0_conv)

declare folded.simps [simp del] unfolded.simps [simp del]

lemma fold_loop_folded: "fold_loop (pre @ s) (length pre) = Some (pre @ folded s)"
proof (induction s arbitrary: pre rule: folded.induct)
  case (1 s)
  show ?case
  proof (cases "strstr s CRLF")
    case None
    then show ?thesis by (subst fold_loop.simps, subst folded.simps) (simp add: find_from_app)
  next
    case (Some n)
    have n: "n + 2 \<le> length s" using strstr_Some [OF Some] by simp
    show ?thesis
    proof (cases "75 < n")
      case True
      let ?pre = "pre @ take 74 s @ CRLF"
      have "fold_loop (?pre @ CHR '' '' # drop 74 s) (length ?pre) = Some (?pre @ folded (CHR '' '' # drop 74 s))"
        by (rule "1.IH"(1) [OF Some True])
      moreover have "length ?pre = length pre + 76" using True n by simp
      ultimately show ?thesis using Some True
        by (subst fold_loop.simps, subst folded.simps) (simp add: find_from_app)
    next
      case False
      let ?pre = "pre @ take (n + 2) s"
      have "fold_loop (?pre @ drop (n + 2) s) (length ?pre) = Some (?pre @ folded (drop (n + 2) s))"
        by (rule "1.IH"(2) [OF Some False])
      moreover have "?pre @ drop (n + 2) s = pre @ s" "length ?pre = length pre + n + 2" using n by simp_all
      ultimately have "fold_loop (pre @ s) (length pre + n + 2) = Some (?pre @ folded (drop (n + 2) s))" by simp
      then show ?thesis using Some False
        by (subst fold_loop.simps, subst folded.simps) (simp add: find_from_app)
    qed
  qed
qed

lemma cat_append [simp]: "cat (pre @ s) (length pre + k) = cat s k" "cat (pre @ s) (length pre) = cat s 0"
  by (simp_all add: cat_def nth_append)

lemma unfold_loop_unfolded:
  "e \<noteq> [] \<Longrightarrow> unfold_loop e (pre @ s) (map_option ((+) (length pre)) (strstr s e)) = Some (pre @ unfolded e s)"
proof (induction e s arbitrary: pre rule: unfolded.induct)
  case (1 e s)
  show ?case
  proof (cases "strstr s e")
    case None
    then show ?thesis by (subst unfold_loop.simps, subst unfolded.simps) simp
  next
    case (Some n)
    have n: "n + length e \<le> length s" using strstr_Some [OF Some] by simp
    show ?thesis
    proof (cases "isspace (cat s (n + length e))")
      case True
      let ?pre = "pre @ take n s"
      let ?rest = "drop (n + length e + 1) s"
      have len: "length ?pre = length pre + n" using n by simp
      have "unfold_loop e (?pre @ ?rest) (find_from (?pre @ ?rest) e (length ?pre)) = Some (?pre @ unfolded e ?rest)"
        unfolding find_from_app by (rule "1.IH"(1) [OF Some]) (use 1 True in simp_all)
      then have "unfold_loop e (?pre @ ?rest) (find_from (?pre @ ?rest) e (length pre + n)) = Some (?pre @ unfolded e ?rest)"
        unfolding len .
      then show ?thesis using Some True 1(3) cat_append(1) [of pre s "n + length e"]
        by (subst unfold_loop.simps, subst unfolded.simps) (simp add: add.assoc)
    next
      case False
      let ?pre = "pre @ take (n + length e) s"
      let ?rest = "drop (n + length e) s"
      have len: "length ?pre = length pre + n + length e" "?pre @ ?rest = pre @ s" using n by simp_all
      have "unfold_loop e (?pre @ ?rest) (find_from (?pre @ ?rest) e (length ?pre)) = Some (?pre @ unfolded e ?rest)"
        unfolding find_from_app by (rule "1.IH"(2) [OF Some]) (use 1 False in simp_all)
      then have "unfold_loop e (pre @ s) (find_from (pre @ s) e (length pre + n + length e)) = Some (?pre @ unfolded e ?rest)"
        unfolding len .
      then show ?thesis using Some False 1(3) cat_append(1) [of pre s "n + length e"]
        by (subst unfold_loop.simps, subst unfolded.simps) (simp add: add.assoc)
    qed
  qed
qed

text \<open>No end of line is followed by white space, an empty line included.\<close>

definition unfoldable :: "string \<Rightarrow> bool" where
  "unfoldable s \<longleftrightarrow> (\<forall>i. take 2 (drop i s) = CRLF \<longrightarrow> \<not> isspace (cat s (i + 2)))"

lemma strstr_crlf: "strstr a CRLF = None \<Longrightarrow> strstr (a @ CRLF @ z) CRLF = Some (length a)"
proof (induction a)
  case (Cons x a)
  then show ?case by (cases a) (auto simp: CR_def LF_def split: if_splits)
qed simp

lemma strstr_take_less: "strstr s d = Some n \<Longrightarrow> d \<noteq> [] \<Longrightarrow> m \<le> n \<Longrightarrow> strstr (take m s) d = None"
proof (rule ccontr)
  assume n: "strstr s d = Some n" "d \<noteq> []" "m \<le> n" "strstr (take m s) d \<noteq> None"
  then obtain i where i: "strstr (take m s) d = Some i" by blast
  have b: "i + length d \<le> m" "take (length d) (drop i (take m s)) = d" using strstr_Some [OF i] by auto
  then have "take (length d) (drop i s) = d" by (simp add: drop_take min_def split: if_splits)
  moreover have "i < n" using b(1) n(2,3) by (cases d) auto
  ultimately show False using strstr_first [OF n(1)] by blast
qed

lemma crlf_at:
  assumes "strstr s CRLF = Some n"
  shows "n + 2 \<le> length s" "take 2 (drop n s) = CRLF" "take (n + 2) s = take n s @ CRLF"
proof -
  from strstr_Some [OF assms] show "n + 2 \<le> length s" and c: "take 2 (drop n s) = CRLF"
    by (simp_all add: numeral_2_eq_2)
  show "take (n + 2) s = take n s @ CRLF" unfolding take_add c ..
qed

lemma folded_head: "cat (folded s) 0 = cat s 0" "s \<noteq> [] \<Longrightarrow> \<exists>y. folded s = hd s # y"
proof -
  have h: "\<exists>y. folded s = hd s # y" if "s \<noteq> []" for s
  proof (cases "strstr s CRLF")
    case None
    with that show ?thesis by (subst folded.simps) (cases s, simp_all)
  next
    case (Some n)
    with that show ?thesis by (subst folded.simps) (cases s, simp_all)
  qed
  then show "s \<noteq> [] \<Longrightarrow> \<exists>y. folded s = hd s # y" .
  have "folded [] = []" by (subst folded.simps) simp
  with h [of s] show "cat (folded s) 0 = cat s 0" by (cases s) (auto simp: cat_def)
qed

lemma unfolded_Cons: "c \<noteq> CR \<Longrightarrow> unfolded CRLF (c # y) = c # unfolded CRLF y"
  by (subst unfolded.simps, subst (2) unfolded.simps) (auto simp: cat_def split: option.split)

lemma unfoldable_drop: "unfoldable s \<Longrightarrow> unfoldable (drop k s)"
proof (unfold unfoldable_def, intro allI impI)
  fix i
  assume s: "\<forall>i. take 2 (drop i s) = CRLF \<longrightarrow> \<not> isspace (cat s (i + 2))" and i: "take 2 (drop i (drop k s)) = CRLF"
  from i have "\<not> isspace (cat s (i + k + 2))" using s by (simp add: add.commute)
  moreover have "cat (drop k s) (i + 2) = cat s (i + k + 2)"
    by (cases "k \<le> length s") (auto simp: cat_def add_ac less_diff_conv)
  ultimately show "\<not> isspace (cat (drop k s) (i + 2))" by simp
qed

lemma unfoldable_Cons: "c \<noteq> CR \<Longrightarrow> unfoldable s \<Longrightarrow> unfoldable (c # s)"
  unfolding unfoldable_def
proof (intro allI impI)
  fix i
  assume c: "c \<noteq> CR" "\<forall>i. take 2 (drop i s) = CRLF \<longrightarrow> \<not> isspace (cat s (i + 2))" "take 2 (drop i (c # s)) = CRLF"
  then show "\<not> isspace (cat (c # s) (i + 2))" by (cases i) (auto simp: cat_def)
qed

lemma unfolded_folded: "unfoldable s \<Longrightarrow> unfolded CRLF (folded s) = s"
proof (induction s rule: folded.induct)
  case (1 s)
  show ?case
  proof (cases "strstr s CRLF")
    case None
    then show ?thesis by (subst folded.simps) (simp, subst unfolded.simps, simp)
  next
    case (Some n)
    note n = crlf_at(1,2) [OF Some]
    show ?thesis
    proof (cases "75 < n")
      case True
      have sp: "CHR '' '' \<noteq> CR" by (simp add: CR_def)
      have "unfolded CRLF (folded (CHR '' '' # drop 74 s)) = CHR '' '' # drop 74 s"
        by (rule "1.IH"(1) [OF Some True]) (rule unfoldable_Cons [OF sp unfoldable_drop [OF 1(3)]])
      moreover obtain y where y: "folded (CHR '' '' # drop 74 s) = CHR '' '' # y" using folded_head(2) [of "CHR '' '' # drop 74 s"] by auto
      ultimately have rest: "unfolded CRLF y = drop 74 s" using unfolded_Cons [OF sp] by simp
      have "strstr (take 74 s) CRLF = None" using strstr_take_less [OF Some] True by simp
      from strstr_crlf [OF this] have at: "strstr (take 74 s @ CRLF @ CHR '' '' # y) CRLF = Some 74" using True n by simp
      have "isspace (cat (take 74 s @ CRLF @ CHR '' '' # y) (74 + 2))"
        using cat_append(1) [of "take 74 s" "CRLF @ CHR '' '' # y" 2] True n by (simp add: isspace_def cat_def)
      with at have "unfolded CRLF (take 74 s @ CRLF @ CHR '' '' # y) = take 74 s @ unfolded CRLF y"
        using True n by (subst unfolded.simps) (simp add: eval_nat_numeral)
      with rest y show ?thesis using Some True by (subst folded.simps) simp
    next
      case False
      let ?z = "folded (drop (n + 2) s)"
      have IH: "unfolded CRLF ?z = drop (n + 2) s"
        by (rule "1.IH"(2) [OF Some False unfoldable_drop [OF 1(3)]])
      note cut = crlf_at(3) [OF Some]
      have "strstr (take n s) CRLF = None" using strstr_take [OF Some] by simp
      from strstr_crlf [OF this] have at: "strstr (take (n + 2) s @ ?z) CRLF = Some n"
        unfolding cut append_assoc using n by simp
      have "cat (take (n + 2) s @ ?z) (n + 2) = cat s (n + 2)"
        using cat_append(2) [of "take (n + 2) s" ?z] folded_head(1) [of "drop (n + 2) s"] n
        by (simp add: cat_def)
      then have "\<not> isspace (cat (take (n + 2) s @ ?z) (n + 2))" using 1(3) n(2) by (simp add: unfoldable_def)
      with at IH show ?thesis using Some False n
        by (subst folded.simps) (simp, subst unfolded.simps, simp)
    qed
  qed
qed

lemma parts_crlf: "strstr a CRLF = None \<Longrightarrow> parts (a @ CRLF @ z) CRLF = a # parts z CRLF"
  using strstr_crlf [of a z] by (subst parts.simps) simp

lemma folded_short: "p \<in> set (butlast (parts (folded s) CRLF)) \<Longrightarrow> length p \<le> 75"
proof (induction s rule: folded.induct)
  case (1 s)
  show ?case
  proof (cases "strstr s CRLF")
    case None
    then show ?thesis using 1(3) by (subst (asm) folded.simps, subst (asm) parts.simps) simp
  next
    case (Some n)
    note n = crlf_at(1,2) [OF Some]
    show ?thesis
    proof (cases "75 < n")
      case True
      have "strstr (take 74 s) CRLF = None" using strstr_take_less [OF Some] True by simp
      then have "parts (folded s) CRLF = take 74 s # parts (folded (CHR '' '' # drop 74 s)) CRLF"
        using Some True by (subst folded.simps) (simp add: parts_crlf [simplified])
      then show ?thesis using 1(3) "1.IH"(1) [OF Some True] by (auto split: if_splits)
    next
      case False
      note cut = crlf_at(3) [OF Some]
      have "strstr (take n s) CRLF = None" using strstr_take [OF Some] by simp
      then have "parts (folded s) CRLF = take n s # parts (folded (drop (n + 2) s)) CRLF"
        using Some False cut by (subst folded.simps) (simp add: parts_crlf [simplified])
      then show ?thesis using 1(3) "1.IH"(2) [OF Some False] False by (auto split: if_splits)
    qed
  qed
qed

lemma folded_crlf: "strstr s CRLF \<noteq> None \<Longrightarrow> strstr (folded s) CRLF \<noteq> None"
proof -
  assume "strstr s CRLF \<noteq> None"
  then obtain n where n: "strstr s CRLF = Some n" by blast
  have "strstr (take 74 s @ CRLF @ z) CRLF \<noteq> None" if "75 < n" for z
    using strstr_crlf strstr_take_less [OF n, of 74] that by simp
  moreover have "strstr (take (n + 2) s @ z) CRLF \<noteq> None" for z
    unfolding crlf_at(3) [OF n] append_assoc using strstr_crlf [OF strstr_take [OF n], of z] by simp
  ultimately show ?thesis using n by (subst folded.simps) auto
qed

section \<open>Properties\<close>

text \<open>
  C31: Folding then unfolding gives the text back, for a text in which no end of line is followed by
  white space or by an empty line, and every folded line that is ended takes 75 characters at most.
\<close>

theorem fold_unfold_roundtrip:
  assumes "unfoldable s" "strstr s CRLF \<noteq> None \<or> LF \<notin> set s"
  shows "\<exists>t ls. fold_lines s = Some t \<and> unfold_lines t = Some s \<and> split_str t CRLF = Some ls \<and>
    (\<forall>l\<in>set (butlast ls). length l \<le> 75)"
proof -
  have f: "fold_lines s = Some (folded s)" using fold_loop_folded [of "[]" s] by (simp add: fold_lines_def)
  have ff: "find_from t e 0 = strstr t e" for t e
    by (cases "strstr t e") (simp_all add: find_from_def)
  have u: "unfold_loop e t (strstr t e) = Some (unfolded e t)" if "e \<noteq> []" for e t
    using unfold_loop_unfolded [OF that, of "[]" t] by (cases "strstr t e") simp_all
  have "unfold_lines (folded s) = Some s"
  proof (cases "strstr s CRLF")
    case None
    then have "folded s = s" by (subst folded.simps) simp
    moreover have "strstr s [LF] = None" using None assms(2) strstr_Some [of s "[LF]"]
      by (cases "strstr s [LF]") (auto simp: take_Suc_conv_app_nth in_set_conv_nth Suc_le_eq)
    ultimately show ?thesis using None
      by (simp add: unfold_lines_def ff) (subst unfold_loop.simps, simp)
  next
    case (Some n)
    then obtain m where m: "strstr (folded s) CRLF = Some m" using folded_crlf by force
    then show ?thesis using u [of CRLF "folded s"] unfolded_folded [OF assms(1)] by (simp add: unfold_lines_def ff)
  qed
  moreover have "split_str (folded s) CRLF = Some (parts (folded s) CRLF)"
    using split_loop_parts [of CRLF "[]" "folded s" "[]"] by (simp add: split_str_def)
  ultimately show ?thesis using f folded_short by blast
qed

theorem fold_unfold_roundtrip_witness:
  "\<exists>t. fold_lines (replicate 100 CHR ''x'' @ CRLF @ ''y'') = Some t \<and>
       unfold_lines t = Some (replicate 100 CHR ''x'' @ CRLF @ ''y'')"
proof -
  let ?s = "replicate 100 CHR ''x'' @ CRLF @ ''y''"
  have "unfoldable ?s"
    unfolding unfoldable_def
  proof (intro allI impI)
    fix i
    assume "take 2 (drop i ?s) = CRLF"
    then have "\<not> i < 100" by (cases "100 - i") (auto simp: CR_def)
    then show "\<not> isspace (cat ?s (i + 2))"
      by (cases "i - 100") (auto simp: cat_def nth_append isspace_def nth_Cons' NUL_def)
  qed
  moreover have "strstr ?s CRLF \<noteq> None" using strstr_crlf [of "replicate 100 CHR ''x''" "''y''"]
      strstr_Some [of "replicate 100 CHR ''x''" CRLF]
    by (cases "strstr (replicate 100 CHR ''x'') CRLF") (auto simp: CR_def take_Cons' drop_Cons' split: if_splits)
  ultimately show ?thesis using fold_unfold_roundtrip by blast
qed

text \<open>
  C32: Splitting at a delimiter gives parts none of which holds the delimiter and which joined by it are
  the text; replacing in the mode called recursive is splitting at the old text and joining with the
  new one.  With an empty delimiter or old text neither function ever returns, and replacing in the other mode does not
  return when the old text occurs and the new one holds it.
\<close>

theorem split_replace_parts:
  shows "(d \<noteq> [] \<longrightarrow> (\<exists>ps. split_str s d = Some ps \<and> join d ps = s \<and> (\<forall>p\<in>set ps. strstr p d = None) \<and>
      replace_str s d t True = Some (join t ps))) \<and>
    (d = [] \<longrightarrow> split_str s d = None \<and> replace_str s d t recursive = None) \<and>
    (strstr s d \<noteq> None \<and> strstr t d \<noteq> None \<longrightarrow> replace_str s d t False = None)"
proof (intro conjI impI)
  assume d: "d \<noteq> []"
  have "split_str s d = Some (parts s d)" using split_loop_parts [OF d, of "[]" s "[]"] by (simp add: split_str_def)
  moreover have "replace_str s d t True = Some (join t (parts s d))"
    using replace_loop_parts [OF d, of t "[]" s] by (simp add: replace_str_def)
  ultimately show "\<exists>ps. split_str s d = Some ps \<and> join d ps = s \<and> (\<forall>p\<in>set ps. strstr p d = None) \<and>
      replace_str s d t True = Some (join t ps)"
    using join_parts [OF d] parts_free [OF d] by blast
next
  show "split_str s d = None" "replace_str s d t recursive = None" if "d = []"
    using that split_loop_empty [of 0 s] replace_loop_empty [of 0 s] by (simp_all add: split_str_def replace_str_def)
next
  assume "strstr s d \<noteq> None \<and> strstr t d \<noteq> None"
  then show "replace_str s d t False = None"
    using replace_loop_stuck [of d t s 0]
    by (cases "replace_str s d t False") (auto simp: replace_str_def find_from_def)
qed

theorem split_replace_parts_witness:
  "split_str ''a, b'' '', '' = Some [''a'', ''b''] \<and> replace_str ''a, b'' '', '' ''--'' True = Some ''a--b'' \<and>
   replace_str ''a, b'' '', '' '', , '' False = None \<and> split_str ''a, b'' [] = None \<and> replace_str ''a'' [] ''b'' True = None"
proof -
  have p: "parts ''a, b'' '', '' = [''a'', ''b'']" by (simp add: parts.simps)
  have "'', '' \<noteq> []" by simp
  with split_replace_parts [of "'', ''" "''a, b''" "''--''"] obtain ps where
    ps: "split_str ''a, b'' '', '' = Some ps" "replace_str ''a, b'' '', '' ''--'' True = Some (join ''--'' ps)"
    by blast
  have "strstr ''a, b'' '', '' \<noteq> None" "strstr '', , '' '', '' \<noteq> None" by simp_all
  with split_replace_parts [of "'', ''" "''a, b''" "'', , ''"]
  have n: "replace_str ''a, b'' '', '' '', , '' False = None" by blast
  have "split_str ''a, b'' '', '' = Some (parts ''a, b'' '', '')"
    using split_loop_parts [of "'', ''" "[]" "''a, b''" "[]"] by (simp add: split_str_def)
  with ps p have "ps = [''a'', ''b'']" by simp
  then show ?thesis
    using ps n split_replace_parts [of "[]" "''a, b''"] split_replace_parts [of "[]" "''a''" "''b''" True] by simp
qed

text \<open>The carriage return of an empty line counts as white space: unfolding destroys empty lines.\<close>

lemma unfold_eats_empty_line: "unfold_lines (''a'' @ CRLF @ CRLF @ ''b'') = Some (''a'' @ [LF] @ ''b'')"
proof -
  have "unfolded CRLF (''a'' @ CRLF @ CRLF @ ''b'') = ''a'' @ [LF] @ ''b''"
    by (simp add: unfolded.simps CR_def LF_def cat_def isspace_def)
  then show ?thesis
    using unfold_loop_unfolded [of CRLF "[]" "''a'' @ CRLF @ CRLF @ ''b''"]
    by (simp add: unfold_lines_def find_from_def CR_def LF_def)
qed

end
