(* ===== verification/LogTags.thy ===== *)
theory LogTags
  imports Prelude "HOL-Library.Char_ord" "HOL-Library.List_Lexorder"
begin

text \<open>
  The tags of log messages of src/logging/log-tags.cc, for one thread.  A \<open>std::map\<close> from tag types to
  stacks is the list of its entries in the order of the keys, a stack is a list with its top in front.
  The C list handed out holds pointers to the values on the stacks: a reference is the tag type with
  the height of the value in its stack, so that a value that was popped leaves a dangling one.
\<close>

section \<open>State and operations\<close>

record TagValue =
  mValue :: string
  mCount :: int

type_synonym tag_map = "(string \<times> TagValue list) list"
type_synonym tag_ref = "string \<times> nat"

record LogTags =
  mTags :: tag_map
  mCurrentTags :: "string list"
  mCurrentTagsCList :: "tag_ref list"
  mTagsModfied :: bool

definition log_tags_init :: LogTags where
  "log_tags_init = \<lparr>mTags = [], mCurrentTags = [], mCurrentTagsCList = [], mTagsModfied = False\<rparr>"

text \<open>\<open>mTags[tagType]\<close> makes an entry with an empty stack when there is none.\<close>

fun with_stack :: "string \<Rightarrow> (TagValue list \<Rightarrow> TagValue list) \<Rightarrow> tag_map \<Rightarrow> tag_map" where
  "with_stack k f [] = [(k, f [])]"
| "with_stack k f ((x, st) # m) =
     (if x = k then (x, f st) # m
      else if k < x then (k, f []) # (x, st) # m
      else (x, st) # with_stack k f m)"

fun stack_of :: "string \<Rightarrow> tag_map \<Rightarrow> TagValue list" where
  "stack_of k [] = []"
| "stack_of k ((x, st) # m) = (if x = k then st else stack_of k m)"

definition push_value :: "string \<Rightarrow> TagValue list \<Rightarrow> TagValue list" where
  "push_value tagValue st =
     (case st of
        [] \<Rightarrow> [\<lparr>mValue = tagValue, mCount = 1\<rparr>]
      | t # r \<Rightarrow> if mValue t \<noteq> tagValue then \<lparr>mValue = tagValue, mCount = 1\<rparr> # st
                else t\<lparr>mCount := mCount t + 1\<rparr> # r)"

definition pushTag :: "string \<Rightarrow> string \<Rightarrow> LogTags \<Rightarrow> LogTags" where
  "pushTag tagType tagValue s =
     s\<lparr>mTags := with_stack tagType (push_value tagValue) (mTags s), mTagsModfied := True\<rparr>"

definition popTag :: "string \<Rightarrow> LogTags \<Rightarrow> LogTags" where
  "popTag tagType s =
     (let s = s\<lparr>mTags := with_stack tagType (\<lambda>st. st) (mTags s)\<rparr> in
      case stack_of tagType (mTags s) of
        [] \<Rightarrow> s
      | t # r \<Rightarrow>
          if mCount t - 1 = 0
          then s\<lparr>mTags := with_stack tagType (\<lambda>_. r) (mTags s), mTagsModfied := True\<rparr>
          else s\<lparr>mTags := with_stack tagType (\<lambda>_. t\<lparr>mCount := mCount t - 1\<rparr> # r) (mTags s)\<rparr>)"

text \<open>The entries are visited from the last to the first and each is put in front.\<close>

fun collect :: "tag_map \<Rightarrow> string list \<Rightarrow> tag_ref list \<Rightarrow> string list \<times> tag_ref list" where
  "collect [] tags refs = (tags, refs)"
| "collect ((k, st) # m) tags refs =
     (case st of
        [] \<Rightarrow> collect m tags refs
      | t # r \<Rightarrow> collect m (mValue t # tags) ((k, length st) # refs))"

definition getTags :: "LogTags \<Rightarrow> string list \<times> LogTags" where
  "getTags s =
     (if mTagsModfied s
      then (let (tags, refs) = collect (rev (mTags s)) [] []
            in (tags, s\<lparr>mCurrentTags := tags, mCurrentTagsCList := refs, mTagsModfied := False\<rparr>))
      else (mCurrentTags s, s))"

definition getTagsAsCList :: "LogTags \<Rightarrow> tag_ref list \<times> LogTags" where
  "getTagsAsCList s = (let (_, s) = getTags s in (mCurrentTagsCList s, s))"

type_synonym ContextCopy = "(string \<times> string) list"

fun copy_tags :: "tag_map \<Rightarrow> ContextCopy" where
  "copy_tags [] = []"
| "copy_tags ((k, st) # m) = (case st of [] \<Rightarrow> copy_tags m | t # r \<Rightarrow> (k, mValue t) # copy_tags m)"

definition createCopy :: "LogTags \<Rightarrow> ContextCopy" where
  "createCopy s = copy_tags (mTags s)"

definition paste :: "ContextCopy \<Rightarrow> LogTags \<Rightarrow> LogTags" where
  "paste ctx s = fold (\<lambda>(k, v). pushTag k v) ctx s"

definition bctbx_push_log_tag :: "string \<Rightarrow> string \<Rightarrow> LogTags \<Rightarrow> LogTags" where
  "bctbx_push_log_tag tag_identifier tag_value s = pushTag tag_identifier tag_value s"

definition bctbx_pop_log_tag :: "string \<Rightarrow> LogTags \<Rightarrow> LogTags" where
  "bctbx_pop_log_tag tag_identifier s = popTag tag_identifier s"

definition bctbx_get_log_tags :: "LogTags \<Rightarrow> tag_ref list \<times> LogTags" where
  "bctbx_get_log_tags s = getTagsAsCList s"

definition bctbx_create_log_tags_copy :: "LogTags \<Rightarrow> ContextCopy" where
  "bctbx_create_log_tags_copy s = createCopy s"

definition bctbx_paste_log_tags :: "ContextCopy \<Rightarrow> LogTags \<Rightarrow> LogTags" where
  "bctbx_paste_log_tags log_tags s = paste log_tags s"

section \<open>The map\<close>

abbreviation tag_sorted :: "tag_map \<Rightarrow> bool" where
  "tag_sorted m \<equiv> sorted_wrt (<) (map fst m)"

lemma stack_with [simp]: "tag_sorted m \<Longrightarrow> stack_of x (with_stack k f m) = (if x = k then f (stack_of k m) else stack_of x m)"
proof (induction k f m rule: with_stack.induct)
  case (2 k f y st m)
  have "stack_of k m = []" if "k < y"
  proof -
    have "\<forall>z\<in>set (map fst m). k < z" using 2(2) that by auto
    then show ?thesis by (induction m) auto
  qed
  with 2 show ?case by auto
qed simp

lemma keys_with: "set (map fst (with_stack k f m)) = insert k (set (map fst m))"
  by (induction k f m rule: with_stack.induct) auto

lemma sorted_with [simp]: "tag_sorted m \<Longrightarrow> tag_sorted (with_stack k f m)"
proof (induction k f m rule: with_stack.induct)
  case (2 k f x st m)
  then show ?case using keys_with [of k f m] by auto
qed simp

section \<open>What is on top\<close>

fun tops :: "tag_map \<Rightarrow> (string \<times> string \<times> nat) list" where
  "tops [] = []"
| "tops ((k, st) # m) = (case st of [] \<Rightarrow> tops m | t # r \<Rightarrow> (k, mValue t, length st) # tops m)"

definition top_view :: "TagValue list \<Rightarrow> (string \<times> nat) option" where
  "top_view st = (case st of [] \<Rightarrow> None | t # r \<Rightarrow> Some (mValue t, length st))"

lemma tops_append: "tops (m @ m') = tops m @ tops m'"
  by (induction m rule: tops.induct) (auto split: list.splits)

lemma tops_rev: "tops (rev m) = rev (tops m)"
  by (induction m rule: tops.induct) (auto simp: tops_append split: list.splits)

lemma collect_tops:
  "collect m tags refs =
     (rev (map (\<lambda>(k, v, n). v) (tops m)) @ tags, rev (map (\<lambda>(k, v, n). (k, n)) (tops m)) @ refs)"
  by (induction m tags refs rule: collect.induct) (auto split: list.splits)

lemma copy_tags_tops: "copy_tags m = map (\<lambda>(k, v, n). (k, v)) (tops m)"
  by (induction m rule: copy_tags.induct) (auto split: list.splits)

lemma tops_with:
  "tag_sorted m \<Longrightarrow> top_view (f (stack_of k m)) = top_view (stack_of k m) \<Longrightarrow> tops (with_stack k f m) = tops m"
proof (induction k f m rule: with_stack.induct)
  case (1 k f)
  then show ?case by (auto simp: top_view_def split: list.splits)
next
  case (2 k f x st m)
  show ?case
  proof (cases "x = k \<or> \<not> k < x")
    case True
    with 2 show ?thesis by (auto simp: top_view_def split: list.splits)
  next
    case False
    have "\<forall>z\<in>set (map fst m). k < z" using 2(2) False by auto
    then have "stack_of k m = []" by (induction m) auto
    with 2(3) False show ?thesis by (auto simp: top_view_def split: list.splits)
  qed
qed

lemma tops_sub: "(k, v, n) \<in> set (tops m) \<Longrightarrow> k \<in> fst ` set m"
  by (induction m rule: tops.induct) (auto split: list.splits)

lemma tops_stack: "tag_sorted m \<Longrightarrow> (k, v, n) \<in> set (tops m) \<longleftrightarrow> top_view (stack_of k m) = Some (v, n)"
proof (induction m rule: tops.induct)
  case (2 x st m)
  have none: "(x, v, n) \<notin> set (tops m)" for v n using tops_sub [of x v n m] 2(3) by auto
  have m: "tag_sorted m" using 2(3) by simp
  show ?case
  proof (cases "x = k")
    case True
    with none show ?thesis by (cases st) (auto simp: top_view_def)
  next
    case False
    with 2(1,2) m show ?thesis by (cases st) auto
  qed
qed (simp add: top_view_def)

lemma tops_key_set: "tag_sorted m \<Longrightarrow> fst ` set (tops m) = {k. stack_of k m \<noteq> []}"
proof -
  assume s: "tag_sorted m"
  have "k \<in> fst ` set (tops m) \<longleftrightarrow> stack_of k m \<noteq> []" for k
  proof -
    have "k \<in> fst ` set (tops m) \<longleftrightarrow> (\<exists>v n. (k, v, n) \<in> set (tops m))" by force
    also have "\<dots> \<longleftrightarrow> (\<exists>v n. top_view (stack_of k m) = Some (v, n))" by (simp only: tops_stack [OF s])
    also have "\<dots> \<longleftrightarrow> stack_of k m \<noteq> []" by (cases "stack_of k m") (simp_all add: top_view_def)
    finally show ?thesis .
  qed
  then show ?thesis by (simp add: set_eq_iff)
qed

lemma tops_keys: "tag_sorted m \<Longrightarrow> map fst (tops m) = sorted_list_of_set {k. stack_of k m \<noteq> []}"
proof -
  assume s: "tag_sorted m"
  have "sorted_wrt (<) (map fst (tops m))"
    using s
  proof (induction m rule: tops.induct)
    case (2 k st m)
    have "k < x" if "x \<in> fst ` set (tops m)" for x
      using tops_sub that 2(3) by fastforce
    with 2 show ?case by (cases st) auto
  qed simp
  then show ?thesis
    using tops_key_set [OF s] sorted_list_of_set.idem_if_sorted_distinct [of "map fst (tops m)"]
    by (simp add: strict_sorted_iff)
qed

section \<open>The abstract stacks\<close>

text \<open>A tag type has the stack of all the values pushed and not popped, a count being so many copies.\<close>

definition pushed :: "LogTags \<Rightarrow> string \<Rightarrow> string list" where
  "pushed s k = concat (map (\<lambda>t. replicate (nat (mCount t)) (mValue t)) (stack_of k (mTags s)))"

definition tags_ok :: "LogTags \<Rightarrow> bool" where
  "tags_ok s \<longleftrightarrow> tag_sorted (mTags s) \<and> (\<forall>k. \<forall>t\<in>set (stack_of k (mTags s)). 1 \<le> mCount t) \<and>
     (\<not> mTagsModfied s \<longrightarrow> mCurrentTags s = map (\<lambda>(k, v, n). v) (tops (mTags s)) \<and>
        mCurrentTagsCList s = map (\<lambda>(k, v, n). (k, n)) (tops (mTags s)))"

lemma tags_ok_init: "tags_ok log_tags_init" "pushed log_tags_init = (\<lambda>_. [])"
  by (simp_all add: tags_ok_def log_tags_init_def pushed_def fun_eq_iff)

lemma push_ok:
  assumes "tags_ok s"
  shows "tags_ok (pushTag k v s)" "pushed (pushTag k v s) = (pushed s)(k := v # pushed s k)"
proof -
  have sorted: "tag_sorted (mTags s)" and count: "\<forall>t\<in>set (stack_of x (mTags s)). 1 \<le> mCount t" for x
    using assms by (auto simp: tags_ok_def)
  have "\<forall>t\<in>set (push_value v (stack_of k (mTags s))). 1 \<le> mCount t"
    using count [of k] by (auto simp: push_value_def split: list.split)
  then show "tags_ok (pushTag k v s)"
    using sorted count by (simp add: tags_ok_def pushTag_def)
  have "concat (map (\<lambda>t. replicate (nat (mCount t)) (mValue t)) (push_value v (stack_of k (mTags s)))) =
      v # concat (map (\<lambda>t. replicate (nat (mCount t)) (mValue t)) (stack_of k (mTags s)))"
    using count [of k] by (auto simp: push_value_def nat_add_distrib split: list.split)
  then show "pushed (pushTag k v s) = (pushed s)(k := v # pushed s k)"
    using sorted by (auto simp: pushed_def pushTag_def fun_eq_iff)
qed

lemma pop_ok:
  assumes "tags_ok s"
  shows "tags_ok (popTag k s)" "pushed (popTag k s) = (pushed s)(k := tl (pushed s k))"
proof -
  have sorted: "tag_sorted (mTags s)" and count: "\<forall>t\<in>set (stack_of x (mTags s)). 1 \<le> mCount t" for x
    using assms by (auto simp: tags_ok_def)
  have same: "tops (with_stack k (\<lambda>st. st) (mTags s)) = tops (mTags s)" by (rule tops_with [OF sorted]) simp
  have ok: "tags_ok (popTag k s) \<and> pushed (popTag k s) = (pushed s)(k := tl (pushed s k))"
  proof (cases "stack_of k (mTags s)")
    case Nil
    then show ?thesis using assms sorted same
      by (auto simp: tags_ok_def popTag_def Let_def pushed_def fun_eq_iff)
  next
    case (Cons t r)
    have c: "1 \<le> mCount t" "\<forall>u\<in>set r. 1 \<le> mCount u" using count [of k] Cons by simp_all
    show ?thesis
    proof (cases "mCount t = 1")
      case True
      then show ?thesis using assms sorted count Cons c
        by (auto simp: tags_ok_def popTag_def Let_def pushed_def fun_eq_iff)
    next
      case False
      let ?m = "with_stack k (\<lambda>_. t\<lparr>mCount := mCount t - 1\<rparr> # r) (with_stack k (\<lambda>st. st) (mTags s))"
      have "tops ?m = tops (with_stack k (\<lambda>st. st) (mTags s))"
        by (rule tops_with) (use sorted Cons in \<open>simp_all add: top_view_def\<close>)
      then have "tops ?m = tops (mTags s)" using same by simp
      moreover have "nat (mCount t) = Suc (nat (mCount t - 1))" using c by simp
      ultimately show ?thesis using assms sorted count Cons c False
        by (auto simp: tags_ok_def popTag_def Let_def pushed_def fun_eq_iff)
    qed
  qed
  then show "tags_ok (popTag k s)" "pushed (popTag k s) = (pushed s)(k := tl (pushed s k))" by simp_all
qed

lemma paste_ok:
  "tags_ok s \<Longrightarrow> tags_ok (paste ctx s) \<and> pushed (paste ctx s) = fold (\<lambda>(k, v) a. a(k := v # a k)) ctx (pushed s)"
  by (induction ctx arbitrary: s) (auto simp: paste_def push_ok)

lemma get_ok:
  assumes "tags_ok s"
  shows "tags_ok (snd (getTags s))" "mTags (snd (getTags s)) = mTags s" "\<not> mTagsModfied (snd (getTags s))"
    "pushed (snd (getTags s)) = pushed s"
  using assms by (auto simp: getTags_def tags_ok_def collect_tops tops_rev pushed_def rev_map)

lemma hd_pushed:
  assumes "tags_ok s" "(k, v, n) \<in> set (tops (mTags s))"
  shows "hd (pushed s k) = v" "length (stack_of k (mTags s)) = n" "\<exists>t r. stack_of k (mTags s) = t # r \<and> mValue t = v"
proof -
  have "top_view (stack_of k (mTags s)) = Some (v, n)"
    using tops_stack [of "mTags s" k v n] assms by (simp add: tags_ok_def)
  then obtain t r where t: "stack_of k (mTags s) = t # r" "mValue t = v" "length (t # r) = n"
    by (auto simp: top_view_def split: list.splits)
  have "1 \<le> mCount t" using assms(1) t by (auto simp: tags_ok_def dest: spec [of _ k])
  then obtain c where "nat (mCount t) = Suc c" by (cases "nat (mCount t)") auto
  with t show "hd (pushed s k) = v" "length (stack_of k (mTags s)) = n" "\<exists>t r. stack_of k (mTags s) = t # r \<and> mValue t = v"
    by (simp_all add: pushed_def)
qed

lemma pushed_empty: "tags_ok s \<Longrightarrow> pushed s k = [] \<longleftrightarrow> stack_of k (mTags s) = []"
proof -
  assume s: "tags_ok s"
  show ?thesis
  proof (cases "stack_of k (mTags s)")
    case (Cons t r)
    have "1 \<le> mCount t" using s Cons by (auto simp: tags_ok_def dest: spec [of _ k])
    then obtain c where "nat (mCount t) = Suc c" by (cases "nat (mCount t)") auto
    with Cons show ?thesis by (simp add: pushed_def)
  qed (simp add: pushed_def)
qed

lemma finite_pushed: "tags_ok s \<Longrightarrow> finite {k. pushed s k \<noteq> []}"
proof -
  assume s: "tags_ok s"
  then have "tag_sorted (mTags s)" by (simp add: tags_ok_def)
  from tops_key_set [OF this, symmetric] show ?thesis using pushed_empty [OF s] by simp
qed

text \<open>What should be seen: the last value of each tag type in use, in the order of the types.\<close>

definition visible :: "(string \<Rightarrow> string list) \<Rightarrow> (string \<times> string) list" where
  "visible a = map (\<lambda>k. (k, hd (a k))) (sorted_list_of_set {k. a k \<noteq> []})"

lemma tops_visible: "tags_ok s \<Longrightarrow> map (\<lambda>(k, v, n). (k, v)) (tops (mTags s)) = visible (pushed s)"
proof -
  assume s: "tags_ok s"
  then have "tag_sorted (mTags s)" by (simp add: tags_ok_def)
  from tops_keys [OF this] have "sorted_list_of_set {k. pushed s k \<noteq> []} = map fst (tops (mTags s))"
    using pushed_empty [OF s] by simp
  then have "visible (pushed s) = map (\<lambda>e. (fst e, hd (pushed s (fst e)))) (tops (mTags s))"
    by (simp add: visible_def)
  also have "\<dots> = map (\<lambda>(k, v, n). (k, v)) (tops (mTags s))"
    by (rule map_cong [OF refl]) (use hd_pushed(1) [OF s] in \<open>auto split: prod.splits\<close>)
  finally show ?thesis by simp
qed

lemma copy_visible: "tags_ok s \<Longrightarrow> createCopy s = visible (pushed s)"
  using tops_visible by (simp add: createCopy_def copy_tags_tops)

section \<open>Properties\<close>

datatype tag_op = Push string string | Pop string | Fetch | Paste ContextCopy

fun run_tag_op :: "tag_op \<Rightarrow> LogTags \<Rightarrow> LogTags" where
  "run_tag_op (Push k v) s = bctbx_push_log_tag k v s"
| "run_tag_op (Pop k) s = bctbx_pop_log_tag k s"
| "run_tag_op Fetch s = snd (bctbx_get_log_tags s)"
| "run_tag_op (Paste ctx) s = bctbx_paste_log_tags ctx s"

fun abs_tag_op :: "tag_op \<Rightarrow> (string \<Rightarrow> string list) \<Rightarrow> (string \<Rightarrow> string list)" where
  "abs_tag_op (Push k v) a = a(k := v # a k)"
| "abs_tag_op (Pop k) a = a(k := tl (a k))"
| "abs_tag_op Fetch a = a"
| "abs_tag_op (Paste ctx) a = fold (\<lambda>(k, v) a. a(k := v # a k)) ctx a"

lemma run_ok:
  "tags_ok s \<Longrightarrow> tags_ok (fold run_tag_op ops s) \<and> pushed (fold run_tag_op ops s) = fold abs_tag_op ops (pushed s)"
proof (induction ops arbitrary: s)
  case (Cons op ops)
  have "tags_ok (run_tag_op op s) \<and> pushed (run_tag_op op s) = abs_tag_op op (pushed s)"
    using push_ok [OF Cons.prems] pop_ok [OF Cons.prems] paste_ok [OF Cons.prems] get_ok [OF Cons.prems]
    by (cases op) (auto simp: bctbx_push_log_tag_def bctbx_pop_log_tag_def bctbx_get_log_tags_def
        bctbx_paste_log_tags_def getTagsAsCList_def split_def Let_def)
  with Cons.IH [of "run_tag_op op s"] show ?case by simp
qed simp

text \<open>The value a reference leads to, when it is still on the stack.\<close>

definition resolve :: "LogTags \<Rightarrow> tag_ref \<Rightarrow> string option" where
  "resolve s r =
     (let (k, h) = r; st = stack_of k (mTags s)
      in if 0 < h \<and> h \<le> length st then Some (mValue (st ! (length st - h))) else None)"

text \<open>
  C7: After any sequence of pushes, pops, pastes and fetches the list that is handed out has, in the order
  of the tag types, the last value pushed and not yet popped of each type in use, and none of its pointers
  dangles: the counters of repeated values and the cached list do not show.
\<close>

theorem log_tags_refine:
  "let s = fold run_tag_op ops log_tags_init; a = fold abs_tag_op ops (\<lambda>_. []); (refs, s') = bctbx_get_log_tags s
   in map (resolve s') refs = map (\<lambda>e. Some (snd e)) (visible a) \<and>
      mCurrentTags s' = map snd (visible a) \<and> bctbx_create_log_tags_copy s = visible a"
proof -
  let ?s = "fold run_tag_op ops log_tags_init"
  let ?s' = "snd (getTags ?s)"
  have s: "tags_ok ?s" "pushed ?s = fold abs_tag_op ops (\<lambda>_. [])"
    using run_ok [OF tags_ok_init(1), of ops] tags_ok_init(2) by simp_all
  note g = get_ok [OF s(1)]
  have lists: "mCurrentTags ?s' = map (\<lambda>(k, v, n). v) (tops (mTags ?s'))"
    "mCurrentTagsCList ?s' = map (\<lambda>(k, v, n). (k, n)) (tops (mTags ?s'))"
    using g(1,3) by (simp_all add: tags_ok_def)
  have v: "visible (fold abs_tag_op ops (\<lambda>_. [])) = map (\<lambda>(k, v, n). (k, v)) (tops (mTags ?s'))"
    using tops_visible [OF g(1)] g(4) s(2) by simp
  have r: "resolve ?s' (k, n) = Some v" if "(k, v, n) \<in> set (tops (mTags ?s'))" for k v n
    using hd_pushed(2,3) [OF g(1) that] by (auto simp: resolve_def Let_def)
  have "map (resolve ?s') (mCurrentTagsCList ?s') = map (\<lambda>(k, v, n). Some v) (tops (mTags ?s'))"
    unfolding lists map_map by (rule map_cong [OF refl]) (auto simp: r)
  then show ?thesis
    using lists v copy_visible [OF s(1)] s(2)
    by (simp add: Let_def split_def bctbx_get_log_tags_def getTagsAsCList_def bctbx_create_log_tags_copy_def comp_def)
qed

lemma fold_push:
  "distinct (map fst ctx) \<Longrightarrow>
   fold (\<lambda>(k, v) a. a(k := v # a k)) ctx b x = (case map_of ctx x of None \<Rightarrow> b x | Some v \<Rightarrow> v # b x)"
  by (induction ctx arbitrary: b) (auto split: option.splits simp: map_of_eq_None_iff image_iff rev_image_eqI)

lemma map_of_visible: "finite {k. a k \<noteq> []} \<Longrightarrow> map_of (visible a) x = (if a x = [] then None else Some (hd (a x)))"
  by (simp add: visible_def map_of_map_restrict [of "\<lambda>k. hd (a k)"] restrict_map_def)

lemma visible_tops:
  "finite {k. a k \<noteq> []} \<Longrightarrow> visible (\<lambda>x. if a x = [] then [] else [hd (a x)]) = visible a"
proof -
  assume fin: "finite {k. a k \<noteq> []}"
  have "{k. (if a k = [] then [] else [hd (a k)]) \<noteq> []} = {k. a k \<noteq> []}" by auto
  then show ?thesis
    unfolding visible_def by (intro map_cong) (simp_all add: fin)
qed

text \<open>
  The copy of the tags of one thread, pasted on a thread without tags, gives the same tags there; on a
  thread with tags it lies on top of them, and popping the pasted types brings them back, although the
  message logged says that they are lost.
\<close>

theorem log_tags_copy_roundtrip:
  "let s = fold run_tag_op ops log_tags_init; t = fold run_tag_op ops' log_tags_init;
       c = bctbx_create_log_tags_copy s
   in bctbx_create_log_tags_copy (bctbx_paste_log_tags c log_tags_init) = c \<and>
      bctbx_create_log_tags_copy (fold bctbx_pop_log_tag (map fst c) (bctbx_paste_log_tags c t)) =
        bctbx_create_log_tags_copy t"
proof -
  let ?s = "fold run_tag_op ops log_tags_init" and ?t = "fold run_tag_op ops' log_tags_init"
  have s: "tags_ok ?s" and t: "tags_ok ?t" using run_ok [OF tags_ok_init(1)] by blast+
  let ?c = "visible (pushed ?s)"
  note fin = finite_pushed [OF s]
  have dist: "distinct (map fst ?c)" by (simp add: visible_def comp_def)
  have p: "pushed (paste ?c log_tags_init) = (\<lambda>x. if pushed ?s x = [] then [] else [hd (pushed ?s x)])"
    using paste_ok [OF tags_ok_init(1), of ?c] tags_ok_init(2) fold_push [OF dist] map_of_visible [OF fin]
    by (auto simp: fun_eq_iff)
  have "createCopy (paste ?c log_tags_init) = ?c"
    using copy_visible [of "paste ?c log_tags_init"] paste_ok [OF tags_ok_init(1), of ?c]
    by (simp only: p visible_tops [OF fin])
  moreover have "createCopy (fold popTag (map fst ?c) (paste ?c ?t)) = createCopy ?t"
  proof -
    have pops: "tags_ok u \<Longrightarrow> distinct ks \<Longrightarrow> tags_ok (fold popTag ks u) \<and>
        pushed (fold popTag ks u) = (\<lambda>x. if x \<in> set ks then tl (pushed u x) else pushed u x)" for ks u
      by (induction ks arbitrary: u) (auto simp: pop_ok fun_eq_iff)
    have "tags_ok (paste ?c ?t)" using paste_ok [OF t] by blast
    from pops [OF this dist] have "tags_ok (fold popTag (map fst ?c) (paste ?c ?t))"
      "pushed (fold popTag (map fst ?c) (paste ?c ?t)) = pushed ?t"
      using paste_ok [OF t, of ?c] fold_push [OF dist] map_of_visible [OF fin]
      by (auto simp: fun_eq_iff visible_def comp_def set_sorted_list_of_set [OF fin])
    with copy_visible t show ?thesis by simp
  qed
  ultimately show ?thesis
    using copy_visible [OF s]
    by (simp add: Let_def bctbx_create_log_tags_copy_def bctbx_paste_log_tags_def bctbx_pop_log_tag_def [abs_def])
qed

end
