(* ===== verification/CMap.thy ===== *)
theory CMap
  imports Prelude "HOL-Library.Char_ord" "HOL-Library.List_Lexorder"
begin

text \<open>
  The maps of src/containers/map.cc: \<open>std::multimap\<close> with its iterators and pairs as objects the C caller
  allocates and deletes.  The templates are polymorphic definitions, their two instances have keys of 64
  bits and strings.  A state holds one map: its entries, each with the address of its node, in the order
  of the keys, entries of equal keys in the order of insertion.  An iterator that was deleted, or whose
  node was erased, gives \<open>None\<close> when it is used.  The functions that take a map are called on one that was
  not deleted.
\<close>

section \<open>State\<close>

datatype pos = At nat | End

datatype pair_ref = Node nat | Pair nat

record ('k, 'w) cmap =
  alive :: bool
  entries :: "(nat \<times> 'k \<times> ptr) list"
  iters :: "nat \<Rightarrow> pos option"
  pairs :: "nat \<Rightarrow> ('k \<times> ptr) option"
  fresh :: nat
  heap :: 'w

definition first_pos :: "(nat \<times> 'k \<times> ptr) list \<Rightarrow> pos" where
  "first_pos es = (case es of [] \<Rightarrow> End | e # r \<Rightarrow> At (fst e))"

fun pos_after :: "nat \<Rightarrow> (nat \<times> 'k \<times> ptr) list \<Rightarrow> pos option" where
  "pos_after n [] = None"
| "pos_after n (e # es) = (if fst e = n then Some (first_pos es) else pos_after n es)"

text \<open>\<open>multimap::insert\<close>: behind the entries of the same key.\<close>

fun insert_entry :: "nat \<times> 'k::linorder \<times> ptr \<Rightarrow> (nat \<times> 'k \<times> ptr) list \<Rightarrow> (nat \<times> 'k \<times> ptr) list" where
  "insert_entry e [] = [e]"
| "insert_entry e (x # es) = (if fst (snd e) < fst (snd x) then e # x # es else x # insert_entry e es)"

text \<open>\<open>multimap::find\<close>: the first entry of the key.\<close>

fun find_entry :: "'k \<Rightarrow> (nat \<times> 'k \<times> ptr) list \<Rightarrow> pos" where
  "find_entry k [] = End"
| "find_entry k (e # es) = (if fst (snd e) = k then At (fst e) else find_entry k es)"

definition new_iter :: "pos \<Rightarrow> ('k, 'w) cmap \<Rightarrow> nat \<times> ('k, 'w) cmap" where
  "new_iter p s = (fresh s, s\<lparr>iters := (iters s)(fresh s \<mapsto> p), fresh := Suc (fresh s)\<rparr>)"

section \<open>Iterators and pairs\<close>

definition bctbx_iterator_get_pair_type :: "nat \<Rightarrow> ('k, 'w) cmap \<Rightarrow> pair_ref option" where
  "bctbx_iterator_get_pair_type it s = do {
     p \<leftarrow> iters s it;
     case p of End \<Rightarrow> None | At n \<Rightarrow> if n \<in> fst ` set (entries s) then Some (Node n) else None }"

definition bctbx_iterator_get_next_type :: "nat \<Rightarrow> ('k, 'w) cmap \<Rightarrow> (nat \<times> ('k, 'w) cmap) option" where
  "bctbx_iterator_get_next_type it s = do {
     p \<leftarrow> iters s it;
     q \<leftarrow> (case p of End \<Rightarrow> None | At n \<Rightarrow> pos_after n (entries s));
     Some (it, s\<lparr>iters := (iters s)(it \<mapsto> q)\<rparr>) }"

definition bctbx_iterator_delete_type :: "nat \<Rightarrow> ('k, 'w) cmap \<Rightarrow> ('k, 'w) cmap option" where
  "bctbx_iterator_delete_type it s =
     (if iters s it = None then None else Some (s\<lparr>iters := (iters s)(it := None)\<rparr>))"

definition bctbx_iterator_equals_type :: "nat \<Rightarrow> nat \<Rightarrow> ('k, 'w) cmap \<Rightarrow> bool option" where
  "bctbx_iterator_equals_type a b s = do { p \<leftarrow> iters s a; q \<leftarrow> iters s b; Some (p = q) }"

definition bctbx_iterator_get_next_and_delete_type :: "nat \<Rightarrow> ('k, 'w) cmap \<Rightarrow> (nat \<times> ('k, 'w) cmap) option" where
  "bctbx_iterator_get_next_and_delete_type it s = do {
     (nxt, s) \<leftarrow> bctbx_iterator_get_next_type it s;
     s \<leftarrow> bctbx_iterator_delete_type it s;
     Some (nxt, s) }"

definition bctbx_pair_new :: "'k \<Rightarrow> ptr \<Rightarrow> ('k, 'w) cmap \<Rightarrow> nat \<times> ('k, 'w) cmap" where
  "bctbx_pair_new key value s =
     (fresh s, s\<lparr>pairs := (pairs s)(fresh s \<mapsto> (key, value)), fresh := Suc (fresh s)\<rparr>)"

definition pair_at :: "pair_ref \<Rightarrow> ('k, 'w) cmap \<Rightarrow> ('k \<times> ptr) option" where
  "pair_at p s = (case p of Node n \<Rightarrow> map_of (entries s) n | Pair a \<Rightarrow> pairs s a)"

definition bctbx_pair_get_first :: "pair_ref \<Rightarrow> ('k, 'w) cmap \<Rightarrow> 'k option" where
  "bctbx_pair_get_first p s = map_option fst (pair_at p s)"

definition bctbx_pair_get_second_type :: "pair_ref \<Rightarrow> ('k, 'w) cmap \<Rightarrow> ptr option" where
  "bctbx_pair_get_second_type p s = map_option snd (pair_at p s)"

definition bctbx_pair_delete_type :: "nat \<Rightarrow> ('k, 'w) cmap \<Rightarrow> ('k, 'w) cmap option" where
  "bctbx_pair_delete_type a s = (if pairs s a = None then None else Some (s\<lparr>pairs := (pairs s)(a := None)\<rparr>))"

section \<open>Maps\<close>

definition bctbx_mmap_new :: "('k, 'w) cmap \<Rightarrow> ('k, 'w) cmap" where
  "bctbx_mmap_new s = s\<lparr>alive := True, entries := []\<rparr>"

definition bctbx_mmap_delete :: "('k, 'w) cmap \<Rightarrow> ('k, 'w) cmap option" where
  "bctbx_mmap_delete s = (if alive s then Some (s\<lparr>alive := False, entries := []\<rparr>) else None)"

definition bctbx_map_insert_base :: "nat \<Rightarrow> bool \<Rightarrow> ('k::linorder, 'w) cmap \<Rightarrow> (nat option \<times> ('k, 'w) cmap) option" where
  "bctbx_map_insert_base pair returns_it s = do {
     (k, v) \<leftarrow> pairs s pair;
     let n = fresh s;
     let s = s\<lparr>entries := insert_entry (n, k, v) (entries s), fresh := Suc n\<rparr>;
     if returns_it then (let (it, s) = new_iter (At n) s in Some (Some it, s)) else Some (None, s) }"

definition bctbx_map_insert_and_delete_type ::
    "nat \<Rightarrow> bool \<Rightarrow> ('k::linorder, 'w) cmap \<Rightarrow> (nat option \<times> ('k, 'w) cmap) option" where
  "bctbx_map_insert_and_delete_type pair returns_it s = do {
     (it, s) \<leftarrow> bctbx_map_insert_base pair returns_it s;
     s \<leftarrow> bctbx_pair_delete_type pair s;
     Some (it, s) }"

text \<open>\<open>erase ((*it)++)\<close>: the iterator goes on before the entry is erased.\<close>

definition bctbx_map_erase_type :: "nat \<Rightarrow> ('k, 'w) cmap \<Rightarrow> (nat \<times> ('k, 'w) cmap) option" where
  "bctbx_map_erase_type it s = do {
     p \<leftarrow> iters s it;
     (it, s) \<leftarrow> bctbx_iterator_get_next_type it s;
     case p of
       End \<Rightarrow> None
     | At n \<Rightarrow> Some (it, s\<lparr>entries := filter (\<lambda>e. fst e \<noteq> n) (entries s)\<rparr>) }"

definition bctbx_map_begin_type :: "('k, 'w) cmap \<Rightarrow> nat \<times> ('k, 'w) cmap" where
  "bctbx_map_begin_type s = new_iter (first_pos (entries s)) s"

definition bctbx_map_end_type :: "('k, 'w) cmap \<Rightarrow> nat \<times> ('k, 'w) cmap" where
  "bctbx_map_end_type s = new_iter End s"

definition bctbx_map_find_key_type :: "'k \<Rightarrow> ('k, 'w) cmap \<Rightarrow> nat \<times> ('k, 'w) cmap" where
  "bctbx_map_find_key_type key s = new_iter (find_entry key (entries s)) s"

definition bctbx_map_size_type :: "('k, 'w) cmap \<Rightarrow> nat" where
  "bctbx_map_size_type s = length (entries s)"

partial_function (option) find_custom_loop ::
    "(ptr \<Rightarrow> int) \<Rightarrow> nat \<Rightarrow> nat \<Rightarrow> ('k, 'w) cmap \<Rightarrow> (nat option \<times> ('k, 'w) cmap) option" where
  "find_custom_loop compare_func it en s = do {
     stop \<leftarrow> bctbx_iterator_equals_type it en s;
     if stop then do {
       s \<leftarrow> bctbx_iterator_delete_type en s;
       Some (None, s) }
     else do {
       pair \<leftarrow> bctbx_iterator_get_pair_type it s;
       v \<leftarrow> bctbx_pair_get_second_type pair s;
       if compare_func v = 0
       then do { s \<leftarrow> bctbx_iterator_delete_type en s; Some (Some it, s) }
       else do {
         (it, s) \<leftarrow> bctbx_iterator_get_next_type it s;
         find_custom_loop compare_func it en s } } }"

definition bctbx_map_find_custom_type ::
    "(ptr \<Rightarrow> 'u \<Rightarrow> int) \<Rightarrow> 'u \<Rightarrow> ('k, 'w) cmap \<Rightarrow> (nat option \<times> ('k, 'w) cmap) option" where
  "bctbx_map_find_custom_type compare_func user_data s =
     (let (en, s) = bctbx_map_end_type s; (it, s) = bctbx_map_begin_type s
      in find_custom_loop (\<lambda>d. compare_func d user_data) it en s)"

partial_function (option) delete_data_loop ::
    "(ptr \<Rightarrow> 'w \<Rightarrow> 'w) \<Rightarrow> nat \<Rightarrow> nat \<Rightarrow> ('k, 'w) cmap \<Rightarrow> ('k, 'w) cmap option" where
  "delete_data_loop freefunc it en s = do {
     stop \<leftarrow> bctbx_iterator_equals_type it en s;
     if stop then Some s
     else do {
       pair \<leftarrow> bctbx_iterator_get_pair_type it s;
       v \<leftarrow> bctbx_pair_get_second_type pair s;
       (it, s) \<leftarrow> bctbx_iterator_get_next_type it (s\<lparr>heap := freefunc v (heap s)\<rparr>);
       delete_data_loop freefunc it en s } }"

definition bctbx_mmap_delete_with_data_type :: "(ptr \<Rightarrow> 'w \<Rightarrow> 'w) \<Rightarrow> ('k, 'w) cmap \<Rightarrow> ('k, 'w) cmap option" where
  "bctbx_mmap_delete_with_data_type freefunc s = do {
     let (it, s) = bctbx_map_begin_type s;
     let (en, s) = bctbx_map_end_type s;
     s \<leftarrow> delete_data_loop freefunc it en s;
     s \<leftarrow> bctbx_iterator_delete_type it s;
     s \<leftarrow> bctbx_iterator_delete_type en s;
     bctbx_mmap_delete s }"

section \<open>The two instances\<close>

type_synonym 'w ullong_map = "(64 word, 'w) cmap"
type_synonym 'w cchar_map = "(string, 'w) cmap"

definition bctbx_mmap_ullong_new :: "'w ullong_map \<Rightarrow> 'w ullong_map" where
  "bctbx_mmap_ullong_new s = bctbx_mmap_new s"

definition bctbx_mmap_cchar_new :: "'w cchar_map \<Rightarrow> 'w cchar_map" where
  "bctbx_mmap_cchar_new s = bctbx_mmap_new s"

definition bctbx_mmap_ullong_delete :: "'w ullong_map \<Rightarrow> 'w ullong_map option" where
  "bctbx_mmap_ullong_delete s = bctbx_mmap_delete s"

definition bctbx_mmap_cchar_delete :: "'w cchar_map \<Rightarrow> 'w cchar_map option" where
  "bctbx_mmap_cchar_delete s = bctbx_mmap_delete s"

definition bctbx_mmap_ullong_delete_with_data :: "(ptr \<Rightarrow> 'w \<Rightarrow> 'w) \<Rightarrow> 'w ullong_map \<Rightarrow> 'w ullong_map option" where
  "bctbx_mmap_ullong_delete_with_data freefunc s = bctbx_mmap_delete_with_data_type freefunc s"

definition bctbx_mmap_cchar_delete_with_data :: "(ptr \<Rightarrow> 'w \<Rightarrow> 'w) \<Rightarrow> 'w cchar_map \<Rightarrow> 'w cchar_map option" where
  "bctbx_mmap_cchar_delete_with_data freefunc s = bctbx_mmap_delete_with_data_type freefunc s"

definition bctbx_map_ullong_insert_base :: "nat \<Rightarrow> bool \<Rightarrow> 'w ullong_map \<Rightarrow> (nat option \<times> 'w ullong_map) option" where
  "bctbx_map_ullong_insert_base pair returns_it s = bctbx_map_insert_base pair returns_it s"

definition bctbx_map_cchar_insert_base :: "nat \<Rightarrow> bool \<Rightarrow> 'w cchar_map \<Rightarrow> (nat option \<times> 'w cchar_map) option" where
  "bctbx_map_cchar_insert_base pair returns_it s = bctbx_map_insert_base pair returns_it s"

definition bctbx_map_ullong_insert :: "nat \<Rightarrow> 'w ullong_map \<Rightarrow> 'w ullong_map option" where
  "bctbx_map_ullong_insert pair s = map_option snd (bctbx_map_ullong_insert_base pair False s)"

definition bctbx_map_cchar_insert :: "nat \<Rightarrow> 'w cchar_map \<Rightarrow> 'w cchar_map option" where
  "bctbx_map_cchar_insert pair s = map_option snd (bctbx_map_cchar_insert_base pair False s)"

definition bctbx_map_ullong_insert_and_delete :: "nat \<Rightarrow> 'w ullong_map \<Rightarrow> 'w ullong_map option" where
  "bctbx_map_ullong_insert_and_delete pair s = map_option snd (bctbx_map_insert_and_delete_type pair False s)"

definition bctbx_map_cchar_insert_and_delete :: "nat \<Rightarrow> 'w cchar_map \<Rightarrow> 'w cchar_map option" where
  "bctbx_map_cchar_insert_and_delete pair s = map_option snd (bctbx_map_insert_and_delete_type pair False s)"

definition bctbx_map_ullong_insert_and_delete_with_returned_it :: "nat \<Rightarrow> 'w ullong_map \<Rightarrow> (nat option \<times> 'w ullong_map) option" where
  "bctbx_map_ullong_insert_and_delete_with_returned_it pair s = bctbx_map_insert_and_delete_type pair True s"

definition bctbx_map_cchar_insert_and_delete_with_returned_it :: "nat \<Rightarrow> 'w cchar_map \<Rightarrow> (nat option \<times> 'w cchar_map) option" where
  "bctbx_map_cchar_insert_and_delete_with_returned_it pair s = bctbx_map_insert_and_delete_type pair True s"

definition bctbx_map_ullong_erase :: "nat \<Rightarrow> 'w ullong_map \<Rightarrow> (nat \<times> 'w ullong_map) option" where
  "bctbx_map_ullong_erase it s = bctbx_map_erase_type it s"

definition bctbx_map_cchar_erase :: "nat \<Rightarrow> 'w cchar_map \<Rightarrow> (nat \<times> 'w cchar_map) option" where
  "bctbx_map_cchar_erase it s = bctbx_map_erase_type it s"

definition bctbx_map_ullong_begin :: "'w ullong_map \<Rightarrow> nat \<times> 'w ullong_map" where
  "bctbx_map_ullong_begin s = bctbx_map_begin_type s"

definition bctbx_map_cchar_begin :: "'w cchar_map \<Rightarrow> nat \<times> 'w cchar_map" where
  "bctbx_map_cchar_begin s = bctbx_map_begin_type s"

definition bctbx_map_ullong_end :: "'w ullong_map \<Rightarrow> nat \<times> 'w ullong_map" where
  "bctbx_map_ullong_end s = bctbx_map_end_type s"

definition bctbx_map_cchar_end :: "'w cchar_map \<Rightarrow> nat \<times> 'w cchar_map" where
  "bctbx_map_cchar_end s = bctbx_map_end_type s"

definition bctbx_map_ullong_find_key :: "64 word \<Rightarrow> 'w ullong_map \<Rightarrow> nat \<times> 'w ullong_map" where
  "bctbx_map_ullong_find_key key s = bctbx_map_find_key_type key s"

definition bctbx_map_cchar_find_key :: "string \<Rightarrow> 'w cchar_map \<Rightarrow> nat \<times> 'w cchar_map" where
  "bctbx_map_cchar_find_key key s = bctbx_map_find_key_type key s"

definition bctbx_map_ullong_size :: "'w ullong_map \<Rightarrow> nat" where
  "bctbx_map_ullong_size s = bctbx_map_size_type s"

definition bctbx_map_cchar_size :: "'w cchar_map \<Rightarrow> nat" where
  "bctbx_map_cchar_size s = bctbx_map_size_type s"

definition bctbx_map_ullong_find_custom :: "(ptr \<Rightarrow> 'u \<Rightarrow> int) \<Rightarrow> 'u \<Rightarrow> 'w ullong_map \<Rightarrow> (nat option \<times> 'w ullong_map) option" where
  "bctbx_map_ullong_find_custom compare_func user_data s = bctbx_map_find_custom_type compare_func user_data s"

definition bctbx_map_cchar_find_custom :: "(ptr \<Rightarrow> 'u \<Rightarrow> int) \<Rightarrow> 'u \<Rightarrow> 'w cchar_map \<Rightarrow> (nat option \<times> 'w cchar_map) option" where
  "bctbx_map_cchar_find_custom compare_func user_data s = bctbx_map_find_custom_type compare_func user_data s"

definition bctbx_iterator_ullong_get_pair :: "nat \<Rightarrow> 'w ullong_map \<Rightarrow> pair_ref option" where
  "bctbx_iterator_ullong_get_pair it s = bctbx_iterator_get_pair_type it s"

definition bctbx_iterator_cchar_get_pair :: "nat \<Rightarrow> 'w cchar_map \<Rightarrow> pair_ref option" where
  "bctbx_iterator_cchar_get_pair it s = bctbx_iterator_get_pair_type it s"

definition bctbx_iterator_ullong_get_next :: "nat \<Rightarrow> 'w ullong_map \<Rightarrow> (nat \<times> 'w ullong_map) option" where
  "bctbx_iterator_ullong_get_next it s = bctbx_iterator_get_next_type it s"

definition bctbx_iterator_cchar_get_next :: "nat \<Rightarrow> 'w cchar_map \<Rightarrow> (nat \<times> 'w cchar_map) option" where
  "bctbx_iterator_cchar_get_next it s = bctbx_iterator_get_next_type it s"

definition bctbx_iterator_ullong_get_next_and_delete :: "nat \<Rightarrow> 'w ullong_map \<Rightarrow> (nat \<times> 'w ullong_map) option" where
  "bctbx_iterator_ullong_get_next_and_delete it s = bctbx_iterator_get_next_and_delete_type it s"

definition bctbx_iterator_cchar_get_next_and_delete :: "nat \<Rightarrow> 'w cchar_map \<Rightarrow> (nat \<times> 'w cchar_map) option" where
  "bctbx_iterator_cchar_get_next_and_delete it s = bctbx_iterator_get_next_and_delete_type it s"

definition bctbx_iterator_ullong_equals :: "nat \<Rightarrow> nat \<Rightarrow> 'w ullong_map \<Rightarrow> bool option" where
  "bctbx_iterator_ullong_equals a b s = bctbx_iterator_equals_type a b s"

definition bctbx_iterator_cchar_equals :: "nat \<Rightarrow> nat \<Rightarrow> 'w cchar_map \<Rightarrow> bool option" where
  "bctbx_iterator_cchar_equals a b s = bctbx_iterator_equals_type a b s"

definition bctbx_iterator_ullong_delete :: "nat \<Rightarrow> 'w ullong_map \<Rightarrow> 'w ullong_map option" where
  "bctbx_iterator_ullong_delete it s = bctbx_iterator_delete_type it s"

definition bctbx_iterator_cchar_delete :: "nat \<Rightarrow> 'w cchar_map \<Rightarrow> 'w cchar_map option" where
  "bctbx_iterator_cchar_delete it s = bctbx_iterator_delete_type it s"

definition bctbx_pair_ullong_new :: "64 word \<Rightarrow> ptr \<Rightarrow> 'w ullong_map \<Rightarrow> nat \<times> 'w ullong_map" where
  "bctbx_pair_ullong_new key value s = bctbx_pair_new key value s"

definition bctbx_pair_cchar_new :: "string \<Rightarrow> ptr \<Rightarrow> 'w cchar_map \<Rightarrow> nat \<times> 'w cchar_map" where
  "bctbx_pair_cchar_new key value s = bctbx_pair_new key value s"

definition bctbx_pair_ullong_get_first :: "pair_ref \<Rightarrow> 'w ullong_map \<Rightarrow> 64 word option" where
  "bctbx_pair_ullong_get_first pair s = bctbx_pair_get_first pair s"

definition bctbx_pair_cchar_get_first :: "pair_ref \<Rightarrow> 'w cchar_map \<Rightarrow> string option" where
  "bctbx_pair_cchar_get_first pair s = bctbx_pair_get_first pair s"

definition bctbx_pair_ullong_get_second :: "pair_ref \<Rightarrow> 'w ullong_map \<Rightarrow> ptr option" where
  "bctbx_pair_ullong_get_second pair s = bctbx_pair_get_second_type pair s"

definition bctbx_pair_cchar_get_second :: "pair_ref \<Rightarrow> 'w cchar_map \<Rightarrow> ptr option" where
  "bctbx_pair_cchar_get_second pair s = bctbx_pair_get_second_type pair s"

definition bctbx_pair_ullong_delete :: "nat \<Rightarrow> 'w ullong_map \<Rightarrow> 'w ullong_map option" where
  "bctbx_pair_ullong_delete pair s = bctbx_pair_delete_type pair s"

definition bctbx_pair_cchar_delete :: "nat \<Rightarrow> 'w cchar_map \<Rightarrow> 'w cchar_map option" where
  "bctbx_pair_cchar_delete pair s = bctbx_pair_delete_type pair s"

section \<open>Well-formed maps\<close>

definition ids :: "(nat \<times> 'k \<times> ptr) list \<Rightarrow> nat list" where
  "ids es = map fst es"

definition keys :: "(nat \<times> 'k \<times> ptr) list \<Rightarrow> 'k list" where
  "keys es = map (\<lambda>e. fst (snd e)) es"

definition vals :: "'k \<Rightarrow> (nat \<times> 'k \<times> ptr) list \<Rightarrow> ptr list" where
  "vals k es = map (\<lambda>e. snd (snd e)) (filter (\<lambda>e. fst (snd e) = k) es)"

definition map_ok :: "('k::linorder, 'w) cmap \<Rightarrow> bool" where
  "map_ok s \<longleftrightarrow> alive s \<and> sorted (keys (entries s)) \<and> distinct (ids (entries s)) \<and>
     (\<forall>n\<in>set (ids (entries s)). n < fresh s) \<and>
     (\<forall>a. iters s a \<noteq> None \<or> pairs s a \<noteq> None \<longrightarrow> a < fresh s)"

lemma pos_after_mid: "distinct (ids (xs @ e # ys)) \<Longrightarrow> pos_after (fst e) (xs @ e # ys) = Some (first_pos ys)"
  by (induction xs) (auto simp: ids_def)

lemma entry_mid: "distinct (ids (xs @ e # ys)) \<Longrightarrow> map_of (xs @ e # ys) (fst e) = Some (snd e)"
  by (induction xs) (auto simp: ids_def)

lemma filter_other: "m \<notin> set (ids es) \<Longrightarrow> filter (\<lambda>x. fst x \<noteq> m) es = es"
  by (induction es) (auto simp: ids_def)

lemma filter_mid: "distinct (ids (xs @ e # ys)) \<Longrightarrow> filter (\<lambda>x. fst x \<noteq> fst e) (xs @ e # ys) = xs @ ys"
  using filter_other [of "fst e" xs] filter_other [of "fst e" ys] by (simp add: ids_def)

lemma insert_entry_set: "set (insert_entry e es) = insert e (set es)"
  by (induction e es rule: insert_entry.induct) auto

lemma insert_entry_length: "length (insert_entry e es) = Suc (length es)"
  by (induction e es rule: insert_entry.induct) auto

lemma insert_entry_ids: "mset (ids (insert_entry e es)) = add_mset (fst e) (mset (ids es))"
  by (induction e es rule: insert_entry.induct) (auto simp: ids_def)

lemma insert_entry_sorted: "sorted (keys es) \<Longrightarrow> sorted (keys (insert_entry e es))"
  by (induction e es rule: insert_entry.induct) (auto simp: keys_def insert_entry_set)

lemma insert_entry_vals:
  "sorted (keys es) \<Longrightarrow> vals k (insert_entry e es) = vals k es @ (if fst (snd e) = k then [snd (snd e)] else [])"
proof (induction e es rule: insert_entry.induct)
  case (2 e x es)
  show ?case
  proof (cases "fst (snd e) < fst (snd x)")
    case True
    then have "filter (\<lambda>y. fst (snd y) = fst (snd e)) (x # es) = []"
      using 2(2) by (auto simp: keys_def filter_empty_conv)
    then show ?thesis using True by (auto simp: vals_def)
  next
    case False
    with 2 show ?thesis by (auto simp: vals_def keys_def)
  qed
qed (simp add: vals_def)

section \<open>Loops\<close>

lemma find_custom_loop_result:
  "distinct (ids (xs @ ys)) \<Longrightarrow> entries s = xs @ ys \<Longrightarrow> iters s it = Some (first_pos ys) \<Longrightarrow> iters s en = Some End \<Longrightarrow>
   it \<noteq> en \<Longrightarrow>
   find_custom_loop cf it en s =
     (case find (\<lambda>e. cf (snd (snd e)) = 0) ys of
        Some e \<Rightarrow> Some (Some it, s\<lparr>iters := (iters s)(it \<mapsto> At (fst e), en := None)\<rparr>)
      | None \<Rightarrow> Some (None, s\<lparr>iters := (iters s)(it \<mapsto> End, en := None)\<rparr>))"
proof (induction ys arbitrary: xs s)
  case Nil
  then show ?case
    by (subst find_custom_loop.simps)
      (simp add: bctbx_iterator_equals_type_def bctbx_iterator_delete_type_def first_pos_def fun_upd_idem)
next
  case (Cons e ys)
  let ?s = "s\<lparr>iters := (iters s)(it \<mapsto> first_pos ys)\<rparr>"
  have at: "iters s it = Some (At (fst e))" using Cons.prems(3) by (simp add: first_pos_def)
  have start: "bctbx_iterator_equals_type it en s = Some False"
    "bctbx_iterator_get_pair_type it s = Some (Node (fst e))"
    "bctbx_pair_get_second_type (Node (fst e)) s = Some (snd (snd e))"
    "bctbx_iterator_get_next_type it s = Some (it, ?s)"
    using Cons.prems(1,2,4,5) at pos_after_mid [OF Cons.prems(1)] entry_mid [OF Cons.prems(1)]
    by (simp_all add: bctbx_iterator_equals_type_def bctbx_iterator_get_pair_type_def bctbx_pair_get_second_type_def
        pair_at_def bctbx_iterator_get_next_type_def)
  have IH: "find_custom_loop cf it en ?s =
     (case find (\<lambda>e. cf (snd (snd e)) = 0) ys of
        Some e \<Rightarrow> Some (Some it, ?s\<lparr>iters := (iters ?s)(it \<mapsto> At (fst e), en := None)\<rparr>)
      | None \<Rightarrow> Some (None, ?s\<lparr>iters := (iters ?s)(it \<mapsto> End, en := None)\<rparr>))"
    by (rule Cons.IH [of "xs @ [e]"]) (use Cons.prems in simp_all)
  show ?case
  proof (cases "cf (snd (snd e)) = 0")
    case True
    then show ?thesis using start at Cons.prems(4,5)
      by (subst find_custom_loop.simps) (simp add: bctbx_iterator_delete_type_def fun_upd_idem)
  next
    case False
    then have "find_custom_loop cf it en s = find_custom_loop cf it en ?s"
      using start by (subst find_custom_loop.simps) simp
    then show ?thesis unfolding IH using False by (cases "find (\<lambda>e. cf (snd (snd e)) = 0) ys") simp_all
  qed
qed

lemma delete_data_loop_result:
  "distinct (ids (xs @ ys)) \<Longrightarrow> entries s = xs @ ys \<Longrightarrow> iters s it = Some (first_pos ys) \<Longrightarrow> iters s en = Some End \<Longrightarrow>
   it \<noteq> en \<Longrightarrow>
   delete_data_loop f it en s =
     Some (s\<lparr>iters := (iters s)(it \<mapsto> End), heap := fold f (map (\<lambda>e. snd (snd e)) ys) (heap s)\<rparr>)"
proof (induction ys arbitrary: xs s)
  case Nil
  then show ?case
    by (subst delete_data_loop.simps) (simp add: bctbx_iterator_equals_type_def first_pos_def fun_upd_idem)
next
  case (Cons e ys)
  let ?s = "s\<lparr>iters := (iters s)(it \<mapsto> first_pos ys), heap := f (snd (snd e)) (heap s)\<rparr>"
  have at: "iters s it = Some (At (fst e))" using Cons.prems(3) by (simp add: first_pos_def)
  have start: "bctbx_iterator_equals_type it en s = Some False"
    "bctbx_iterator_get_pair_type it s = Some (Node (fst e))"
    "bctbx_pair_get_second_type (Node (fst e)) s = Some (snd (snd e))"
    "bctbx_iterator_get_next_type it (s\<lparr>heap := f (snd (snd e)) (heap s)\<rparr>) = Some (it, ?s)"
    using Cons.prems(1,2,4,5) at pos_after_mid [OF Cons.prems(1)] entry_mid [OF Cons.prems(1)]
    by (simp_all add: bctbx_iterator_equals_type_def bctbx_iterator_get_pair_type_def bctbx_pair_get_second_type_def
        pair_at_def bctbx_iterator_get_next_type_def)
  have "delete_data_loop f it en ?s =
     Some (?s\<lparr>iters := (iters ?s)(it \<mapsto> End), heap := fold f (map (\<lambda>e. snd (snd e)) ys) (heap ?s)\<rparr>)"
    by (rule Cons.IH [of "xs @ [e]"]) (use Cons.prems in simp_all)
  then show ?case using start by (subst delete_data_loop.simps) simp
qed

lemmas iterators_allocated = new_iter_def bctbx_map_begin_type_def bctbx_map_end_type_def

section \<open>Properties\<close>

text \<open>
  C28: Inserting a pair puts its value behind all the values of the same key and changes no other key; the
  entries stay sorted, the iterator returned leads to the new entry, and the pair itself is deleted.
\<close>

theorem map_insert_appends:
  assumes "map_ok s" "pairs s p = Some (k, v)"
  shows "\<exists>it s'. bctbx_map_insert_and_delete_type p True s = Some (Some it, s') \<and> map_ok s' \<and>
    (\<forall>j. vals j (entries s') = vals j (entries s) @ (if k = j then [v] else [])) \<and>
    bctbx_map_size_type s' = Suc (bctbx_map_size_type s) \<and> pairs s' p = None \<and>
    (\<exists>r. bctbx_iterator_get_pair_type it s' = Some r \<and> bctbx_pair_get_first r s' = Some k \<and>
         bctbx_pair_get_second_type r s' = Some v)"
proof -
  let ?n = "fresh s"
  let ?e = "insert_entry (?n, k, v) (entries s)"
  let ?s = "s\<lparr>entries := ?e, iters := (iters s)(Suc ?n \<mapsto> At ?n), fresh := Suc (Suc ?n), pairs := (pairs s)(p := None)\<rparr>"
  have run: "bctbx_map_insert_and_delete_type p True s = Some (Some (Suc ?n), ?s)"
    using assms(2) by (simp add: bctbx_map_insert_and_delete_type_def bctbx_map_insert_base_def new_iter_def
        bctbx_pair_delete_type_def Let_def)
  have new: "?n \<notin> set (ids (entries s))" using assms(1) by (auto simp: map_ok_def)
  have "set_mset (mset (ids ?e)) = insert ?n (set (ids (entries s)))" by (simp only: insert_entry_ids) simp
  then have set: "set (ids ?e) = insert ?n (set (ids (entries s)))" by simp
  have "distinct (?n # ids (entries s))" using assms(1) new by (simp add: map_ok_def)
  moreover have "mset (ids ?e) = mset (?n # ids (entries s))" by (simp add: insert_entry_ids)
  ultimately have dist: "distinct (ids ?e)" using mset_eq_imp_distinct_iff by blast
  have ok: "map_ok ?s" using assms(1) insert_entry_sorted dist set
    by (auto simp: map_ok_def less_Suc_eq)
  have "map_of ?e ?n = Some (k, v)"
    using dist insert_entry_set [of "(?n, k, v)" "entries s"] by (simp add: ids_def)
  then have at: "bctbx_iterator_get_pair_type (Suc ?n) ?s = Some (Node ?n)"
    "bctbx_pair_get_first (Node ?n) ?s = Some k" "bctbx_pair_get_second_type (Node ?n) ?s = Some v"
    using set by (simp_all add: bctbx_iterator_get_pair_type_def bctbx_pair_get_first_def bctbx_pair_get_second_type_def
        pair_at_def ids_def)
  have "sorted (keys (entries s))" using assms(1) by (simp add: map_ok_def)
  then show ?thesis using run ok at
    by (intro exI [of _ "Suc ?n"] exI [of _ ?s])
      (simp add: insert_entry_vals insert_entry_length bctbx_map_size_type_def)
qed

text \<open>
  C29: Erasing through an iterator takes out the one entry it leads to and leaves the iterator on the entry
  behind it, as map.h says; deleting the map with its data calls the free function once for every value,
  in order, and leaves no iterator behind.
\<close>

theorem map_erase_and_delete:
  assumes "map_ok s"
  shows "(\<forall>xs e ys it. entries s = xs @ e # ys \<and> iters s it = Some (At (fst e)) \<longrightarrow>
      bctbx_map_erase_type it s = Some (it, s\<lparr>entries := xs @ ys, iters := (iters s)(it \<mapsto> first_pos ys)\<rparr>) \<and>
      map_ok (s\<lparr>entries := xs @ ys, iters := (iters s)(it \<mapsto> first_pos ys)\<rparr>)) \<and>
    bctbx_mmap_delete_with_data_type f s =
      Some (s\<lparr>alive := False, entries := [], fresh := fresh s + 2,
              heap := fold f (map (\<lambda>e. snd (snd e)) (entries s)) (heap s)\<rparr>)"
proof (intro conjI allI impI)
  fix xs e ys it
  assume a: "entries s = xs @ e # ys \<and> iters s it = Some (At (fst e))"
  have dist: "distinct (ids (xs @ e # ys))" using assms a by (simp add: map_ok_def)
  have "filter (\<lambda>x. fst x \<noteq> fst e) (entries s) = xs @ ys" using a filter_mid [OF dist] by simp
  then show "bctbx_map_erase_type it s = Some (it, s\<lparr>entries := xs @ ys, iters := (iters s)(it \<mapsto> first_pos ys)\<rparr>)"
    using a pos_after_mid [OF dist] by (simp add: bctbx_map_erase_type_def bctbx_iterator_get_next_type_def)
  have "it < fresh s" using assms a by (auto simp: map_ok_def)
  then show "map_ok (s\<lparr>entries := xs @ ys, iters := (iters s)(it \<mapsto> first_pos ys)\<rparr>)"
    using assms a by (auto simp: map_ok_def ids_def keys_def sorted_append)
next
  let ?s = "s\<lparr>iters := (iters s)(fresh s \<mapsto> first_pos (entries s), Suc (fresh s) \<mapsto> End), fresh := Suc (Suc (fresh s))\<rparr>"
  have free: "iters s (fresh s) = None" "iters s (Suc (fresh s)) = None"
    using assms by (auto simp: map_ok_def)
  have "delete_data_loop f (fresh s) (Suc (fresh s)) ?s =
     Some (?s\<lparr>iters := (iters ?s)(fresh s \<mapsto> End), heap := fold f (map (\<lambda>e. snd (snd e)) (entries s)) (heap ?s)\<rparr>)"
    by (rule delete_data_loop_result [of "[]"]) (use assms in \<open>simp_all add: map_ok_def\<close>)
  then show "bctbx_mmap_delete_with_data_type f s =
      Some (s\<lparr>alive := False, entries := [], fresh := fresh s + 2,
              heap := fold f (map (\<lambda>e. snd (snd e)) (entries s)) (heap s)\<rparr>)"
    using assms free
    by (simp add: bctbx_mmap_delete_with_data_type_def iterators_allocated bctbx_iterator_delete_type_def
        bctbx_mmap_delete_def map_ok_def fun_upd_twist fun_upd_idem)
qed

definition two_entries :: "(64 word, ptr list) cmap" where
  "two_entries = \<lparr>alive = True, entries = [(0, 5, Some 1), (1, 7, Some 2)], iters = Map.empty(3 \<mapsto> At 0),
     pairs = Map.empty(2 \<mapsto> (5, Some 9)), fresh = 4, heap = []\<rparr>"

lemma two_entries_ok: "map_ok two_entries"
  by (auto simp: map_ok_def two_entries_def keys_def ids_def split: if_splits)

theorem map_insert_appends_witness:
  "\<exists>it s'. bctbx_map_insert_and_delete_type 2 True two_entries = Some (Some it, s') \<and> vals 5 (entries s') = [Some 1, Some 9]"
proof -
  have "pairs two_entries 2 = Some (5, Some 9)" by (simp add: two_entries_def)
  from map_insert_appends [OF two_entries_ok this] obtain it s' where
    "bctbx_map_insert_and_delete_type 2 True two_entries = Some (Some it, s')"
    "vals 5 (entries s') = vals 5 (entries two_entries) @ [Some 9]" by auto
  then show ?thesis by (auto simp: two_entries_def vals_def)
qed

theorem map_erase_and_delete_witness:
  "bctbx_map_erase_type 3 two_entries =
     Some (3, two_entries\<lparr>entries := [(1, 7, Some 2)], iters := (iters two_entries)(3 \<mapsto> At 1)\<rparr>) \<and>
   bctbx_mmap_delete_with_data_type (#) two_entries =
     Some (two_entries\<lparr>alive := False, entries := [], fresh := 6, heap := [Some 2, Some 1]\<rparr>)"
proof -
  have "entries two_entries = [] @ (0, 5, Some 1) # [(1, 7, Some 2)] \<and> iters two_entries 3 = Some (At (fst (0, 5, Some 1)))"
    by (simp add: two_entries_def)
  note erased = conjunct1 [OF map_erase_and_delete [OF two_entries_ok, of "(#)"], rule_format, OF this]
  show ?thesis
    using erased conjunct2 [OF map_erase_and_delete [OF two_entries_ok, of "(#)"]]
    by (simp add: two_entries_def first_pos_def)
qed

text \<open>
  The search with a compare function returns an iterator on the first entry, in the order of the keys,
  whose value compares equal; without one it returns NULL, and the iterator it walked with, one past the
  end, is never deleted.
\<close>

theorem map_find_custom_leaks:
  assumes "map_ok s"
  shows "bctbx_map_find_custom_type cf u s =
    (let s' = s\<lparr>fresh := fresh s + 2\<rparr> in
     case find (\<lambda>e. cf (snd (snd e)) u = 0) (entries s) of
       Some e \<Rightarrow> Some (Some (Suc (fresh s)), s'\<lparr>iters := (iters s)(Suc (fresh s) \<mapsto> At (fst e))\<rparr>)
     | None \<Rightarrow> Some (None, s'\<lparr>iters := (iters s)(Suc (fresh s) \<mapsto> End)\<rparr>))"
proof -
  let ?s = "s\<lparr>iters := (iters s)(fresh s \<mapsto> End, Suc (fresh s) \<mapsto> first_pos (entries s)), fresh := Suc (Suc (fresh s))\<rparr>"
  have free: "iters s (fresh s) = None" using assms by (auto simp: map_ok_def)
  have undo: "(iters s)(fresh s \<mapsto> End, Suc (fresh s) \<mapsto> p, fresh s := None) = (iters s)(Suc (fresh s) \<mapsto> p)" for p
    using free by auto
  have "find_custom_loop (\<lambda>d. cf d u) (Suc (fresh s)) (fresh s) ?s =
     (case find (\<lambda>e. cf (snd (snd e)) u = 0) (entries s) of
        Some e \<Rightarrow> Some (Some (Suc (fresh s)),
          ?s\<lparr>iters := (iters ?s)(Suc (fresh s) \<mapsto> At (fst e), fresh s := None)\<rparr>)
      | None \<Rightarrow> Some (None, ?s\<lparr>iters := (iters ?s)(Suc (fresh s) \<mapsto> End, fresh s := None)\<rparr>))"
    by (rule find_custom_loop_result [of "[]"]) (use assms in \<open>simp_all add: map_ok_def\<close>)
  then show ?thesis
    by (cases "find (\<lambda>e. cf (snd (snd e)) u = 0) (entries s)")
      (simp_all add: bctbx_map_find_custom_type_def iterators_allocated undo)
qed

theorem map_find_custom_leaks_witness:
  "bctbx_map_find_custom_type (\<lambda>d u. if d = u then 0 else 1) (Some 2) two_entries =
     Some (Some 5, two_entries\<lparr>fresh := 6, iters := (iters two_entries)(5 \<mapsto> At 1)\<rparr>) \<and>
   bctbx_map_find_custom_type (\<lambda>d u. if d = u then 0 else 1) (Some 8) two_entries =
     Some (None, two_entries\<lparr>fresh := 6, iters := (iters two_entries)(5 \<mapsto> End)\<rparr>)"
  unfolding map_find_custom_leaks [OF two_entries_ok] by (simp add: two_entries_def)

text \<open>The iterator that \<open>bctbx_iterator_get_next_and_delete\<close> returns is the one it deleted.\<close>

lemma map_next_and_delete_dangles:
  "bctbx_iterator_get_next_and_delete_type it s = Some (nxt, s') \<Longrightarrow>
   bctbx_iterator_get_pair_type nxt s' = None \<and> bctbx_iterator_get_next_type nxt s' = None \<and>
   bctbx_iterator_delete_type nxt s' = None"
  by (auto simp: bctbx_iterator_get_next_and_delete_type_def bctbx_iterator_get_next_type_def
      bctbx_iterator_delete_type_def bctbx_iterator_get_pair_type_def Option.bind_eq_Some_conv split: if_splits)

end
