(* ===== verification/EvfsChunks.thy ===== *)
theory EvfsChunks
  imports Prelude
begin

text \<open>
  A file as a sequence of encrypted chunks, as src/vfs/vfs_encrypted.cc keeps it: the loops that decrypt and
  encrypt a run of chunks, what an encryption module promises to them, as the locale \<open>chunk_cipher\<close>,
  and the relation between a content and the bytes that store it.
\<close>

section \<open>Exceptions\<close>

text \<open>
  \<open>None\<close> is undefined behaviour, an exception is a value.  \<open>StdException\<close>: an exception of the standard
  library, such as the length error of \<open>resize\<close>.
\<close>

datatype exn = EvfsException | StdException

datatype 'a res = Ret 'a | Throw exn

fun map_res :: "('a \<Rightarrow> 'b) \<Rightarrow> 'a res \<Rightarrow> 'b res" where
  "map_res f (Ret a) = Ret (f a)"
| "map_res f (Throw e) = Throw e"

definition andthen :: "('a res \<times> 's) option \<Rightarrow> ('a \<Rightarrow> 's \<Rightarrow> ('b res \<times> 's) option) \<Rightarrow> ('b res \<times> 's) option" where
  "andthen m f = do {
     (r, s) \<leftarrow> m;
     case r of Ret a \<Rightarrow> f a s | Throw e \<Rightarrow> Some (Throw e, s) }"

lemma andthen_simps [simp]:
  "andthen (Some (Ret a, s)) f = f a s"
  "andthen (Some (Throw e, s)) f = Some (Throw e, s)"
  "andthen None f = None"
  by (simp_all add: andthen_def)

section \<open>The loops\<close>

text \<open>
  The loops of \<open>VfsEncryption::read\<close> and \<open>VfsEncryption::write\<close>.  \<open>rc\<close> is the size of a stored chunk with
  its header \<open>hdr\<close>, \<open>cs\<close> that of its content; chunk indexes have 32 bits.
\<close>

partial_function (option) decrypt_loop ::
    "(nat \<Rightarrow> string \<Rightarrow> string res option) \<Rightarrow> nat \<Rightarrow> nat \<Rightarrow> nat \<Rightarrow> string \<Rightarrow> string res option" where
  "decrypt_loop dec hdr rc i rawData =
     (if hdr < length rawData
      then do {
        x \<leftarrow> dec i (take rc rawData);
        case x of
          Throw e \<Rightarrow> Some (Throw e)
        | Ret p \<Rightarrow> do {
            y \<leftarrow> decrypt_loop dec hdr rc ((i + 1) mod 2 ^ 32) (drop rc rawData);
            Some (map_res (\<lambda>ps. p @ ps) y) } }
      else Some (Ret []))"

partial_function (option) reencrypt_loop ::
    "(nat \<Rightarrow> string \<Rightarrow> string \<Rightarrow> 'r \<Rightarrow> (string res \<times> 'r) option) \<Rightarrow> nat \<Rightarrow> nat \<Rightarrow> nat \<Rightarrow> string \<Rightarrow> string \<Rightarrow> 'r \<Rightarrow>
     ((string \<times> nat \<times> string) res \<times> 'r) option" where
  "reencrypt_loop re rc cs i rawData plain r =
     (if rawData = [] then Some (Ret ([], i, plain), r)
      else do {
        (x, r) \<leftarrow> re i (take rc rawData) (take cs plain) r;
        case x of
          Throw e \<Rightarrow> Some (Throw e, r)
        | Ret raw \<Rightarrow> do {
            (y, r) \<leftarrow> reencrypt_loop re rc cs ((i + 1) mod 2 ^ 32) (drop rc rawData) (drop cs plain) r;
            Some (map_res (\<lambda>(out, j, rest). (raw @ out, j, rest)) y, r) } })"

partial_function (option) encrypt_loop ::
    "(nat \<Rightarrow> string \<Rightarrow> 'r \<Rightarrow> (string res \<times> 'r) option) \<Rightarrow> nat \<Rightarrow> nat \<Rightarrow> string \<Rightarrow> 'r \<Rightarrow> (string res \<times> 'r) option" where
  "encrypt_loop enc cs i plain r =
     (if plain = [] then Some (Ret [], r)
      else do {
        (x, r) \<leftarrow> enc i (take cs plain) r;
        case x of
          Throw e \<Rightarrow> Some (Throw e, r)
        | Ret raw \<Rightarrow> do {
            (y, r) \<leftarrow> encrypt_loop enc cs ((i + 1) mod 2 ^ 32) (drop cs plain) r;
            Some (map_res (\<lambda>out. raw @ out) y, r) } })"

section \<open>Chunks of a content\<close>

function chunks :: "nat \<Rightarrow> 'a list \<Rightarrow> 'a list list" where
  "chunks cs c = (if c = [] \<or> cs = 0 then [] else take cs c # chunks cs (drop cs c))"
  by pat_completeness auto
termination by (relation "measure (\<lambda>(cs, c). length c)") auto

declare chunks.simps [simp del]

lemma chunks_Nil [simp]: "chunks cs [] = []"
  by (simp add: chunks.simps)

lemma chunks_Cons: "c \<noteq> [] \<Longrightarrow> 0 < cs \<Longrightarrow> chunks cs c = take cs c # chunks cs (drop cs c)"
  by (subst chunks.simps) simp

lemma chunks_append:
  "0 < cs \<Longrightarrow> length a = n * cs \<Longrightarrow> chunks cs (a @ b) = chunks cs a @ chunks cs b"
proof (induction n arbitrary: a)
  case (Suc n)
  then have "length (drop cs a) = n * cs" "a \<noteq> []" "cs \<le> length a" by auto
  with Suc.IH [of "drop cs a"] Suc.prems show ?case by (simp add: chunks_Cons [of "a @ b"] chunks_Cons [of a])
qed simp

lemma length_chunks_full: "0 < cs \<Longrightarrow> length a = n * cs \<Longrightarrow> length (chunks cs a) = n"
proof (induction n arbitrary: a)
  case (Suc n)
  then have "length (drop cs a) = n * cs" "a \<noteq> []" by auto
  with Suc.IH [of "drop cs a"] Suc.prems show ?case by (simp add: chunks_Cons [of a])
qed simp

lemma length_chunks_le: "0 < cs \<Longrightarrow> length (chunks cs c) \<le> n \<longleftrightarrow> length c \<le> n * cs"
proof (induction n arbitrary: c)
  case 0 then show ?case by (cases "c = []") (simp_all add: chunks_Cons)
next
  case (Suc n)
  show ?case
  proof (cases "c = []")
    case False
    with Suc show ?thesis by (simp add: chunks_Cons le_diff_conv add.commute)
  qed simp
qed

lemma chunks_take: "0 < cs \<Longrightarrow> take n (chunks cs c) = chunks cs (take (n * cs) c)"
proof (induction n arbitrary: c)
  case (Suc n)
  show ?case
  proof (cases "c = []")
    case False
    with Suc have "chunks cs (take (Suc n * cs) c) = take cs c # chunks cs (take (n * cs) (drop cs c))"
      by (simp add: chunks_Cons [of "take (cs + n * cs) c"] drop_take)
    with Suc False show ?thesis by (simp add: chunks_Cons [of c])
  qed simp
qed simp

lemma chunks_drop: "0 < cs \<Longrightarrow> drop n (chunks cs c) = chunks cs (drop (n * cs) c)"
proof (induction n arbitrary: c)
  case (Suc n)
  show ?case
  proof (cases "c = []")
    case False
    with Suc show ?thesis by (simp add: chunks_Cons [of c] add.commute)
  qed simp
qed simp

lemma concat_chunks: "0 < cs \<Longrightarrow> concat (chunks cs c) = c"
proof (induction cs c rule: chunks.induct)
  case (1 cs c) then show ?case by (cases "c = []") (simp_all add: chunks_Cons)
qed

section \<open>Stored chunks\<close>

text \<open>\<open>R\<close> holds the pieces \<open>ps\<close> one after the other, the first one as chunk \<open>i\<close>.\<close>

fun stored :: "(nat \<Rightarrow> string \<Rightarrow> string res option) \<Rightarrow> nat \<Rightarrow> nat \<Rightarrow> string list \<Rightarrow> string \<Rightarrow> bool" where
  "stored dec hdr i [] R \<longleftrightarrow> R = []"
| "stored dec hdr i (p # ps) R \<longleftrightarrow>
     hdr + length p \<le> length R \<and> dec i (take (hdr + length p) R) = Some (Ret p) \<and>
     stored dec hdr (Suc i) ps (drop (hdr + length p) R)"

definition rawlen :: "nat \<Rightarrow> string list \<Rightarrow> nat" where
  "rawlen hdr ps = sum_list (map (\<lambda>p. hdr + length p) ps)"

lemma rawlen_simps [simp]:
  "rawlen hdr [] = 0" "rawlen hdr (p # ps) = hdr + length p + rawlen hdr ps"
  "rawlen hdr (ps @ qs) = rawlen hdr ps + rawlen hdr qs"
  by (simp_all add: rawlen_def)

lemma rawlen_chunks: "0 < cs \<Longrightarrow> rawlen hdr (chunks cs c) = length c + hdr * length (chunks cs c)"
proof (induction cs c rule: chunks.induct)
  case (1 cs c) then show ?case by (cases "c = []") (simp_all add: chunks_Cons)
qed

lemma stored_length: "stored dec hdr i ps R \<Longrightarrow> length R = rawlen hdr ps"
proof (induction ps arbitrary: i R)
  case (Cons p ps)
  from Cons.IH [of "Suc i" "drop (hdr + length p) R"] Cons.prems
  have "length (drop (hdr + length p) R) = rawlen hdr ps" "hdr + length p \<le> length R" by simp_all
  then show ?case by simp
qed simp

lemma stored_append:
  "stored dec hdr i (ps @ qs) R \<longleftrightarrow>
     stored dec hdr i ps (take (rawlen hdr ps) R) \<and> stored dec hdr (i + length ps) qs (drop (rawlen hdr ps) R)"
proof (induction ps arbitrary: i R)
  case (Cons p ps)
  have "drop (rawlen hdr ps) (drop (hdr + length p) R) = drop (rawlen hdr (p # ps)) R" by (simp add: add.commute)
  moreover have "drop (hdr + length p) (take (rawlen hdr (p # ps)) R) = take (rawlen hdr ps) (drop (hdr + length p) R)"
    by (simp add: drop_take)
  moreover have "take (hdr + length p) (take (rawlen hdr (p # ps)) R) = take (hdr + length p) R"
    by (simp add: min_def)
  ultimately show ?case using Cons [of "Suc i" "drop (hdr + length p) R"] by auto
qed simp

lemma stored_concat:
  "stored dec hdr i ps R \<Longrightarrow> stored dec hdr (i + length ps) qs S \<Longrightarrow> stored dec hdr i (ps @ qs) (R @ S)"
  using stored_length [of dec hdr i ps R] by (simp add: stored_append)

text \<open>A run of chunks in the middle of a file.\<close>

lemma stored_cut:
  assumes "stored dec hdr i (chunks cs c) R" "0 < cs" "n * cs \<le> length c"
  shows "stored dec hdr i (chunks cs (take (n * cs) c)) (take (n * (hdr + cs)) R)"
    "stored dec hdr (i + n) (chunks cs (drop (n * cs) c)) (drop (n * (hdr + cs)) R)"
proof -
  have l: "length (take (n * cs) c) = n * cs" using assms(3) by simp
  have "rawlen hdr (chunks cs (take (n * cs) c)) = n * (hdr + cs)"
    by (simp only: rawlen_chunks [OF assms(2)] length_chunks_full [OF assms(2) l] l) (simp add: algebra_simps)
  moreover have "chunks cs c = chunks cs (take (n * cs) c) @ chunks cs (drop (n * cs) c)"
    using chunks_append [OF assms(2) l, of "drop (n * cs) c"] by simp
  ultimately show "stored dec hdr i (chunks cs (take (n * cs) c)) (take (n * (hdr + cs)) R)"
    "stored dec hdr (i + n) (chunks cs (drop (n * cs) c)) (drop (n * (hdr + cs)) R)"
    using assms(1) length_chunks_full [OF assms(2) l] by (simp_all add: stored_append)
qed

lemma stored_take:
  assumes "stored dec hdr i (chunks cs c) R" "0 < cs"
  shows "stored dec hdr i (chunks cs (take (n * cs) c)) (take (n * (hdr + cs)) R)"
proof (cases "n * cs \<le> length c")
  case True with assms stored_cut(1) show ?thesis by blast
next
  case False
  then have n: "length (chunks cs c) \<le> n" by (simp add: length_chunks_le [OF assms(2)])
  have "length R = length c + length (chunks cs c) * hdr"
    using stored_length [OF assms(1)] rawlen_chunks [OF assms(2), of hdr c] by simp
  also have "\<dots> \<le> n * cs + n * hdr" using False n by (intro add_mono mult_le_mono1) simp_all
  finally have "length R \<le> n * (hdr + cs)" by (simp add: algebra_simps)
  with assms False show ?thesis by simp
qed

lemma stored_drop:
  assumes "stored dec hdr i (chunks cs c) R" "0 < cs"
  shows "stored dec hdr (i + n) (chunks cs (drop (n * cs) c)) (drop (n * (hdr + cs)) R)"
proof (cases "n * cs \<le> length c")
  case True with assms stored_cut(2) show ?thesis by blast
next
  case False
  with stored_take [OF assms, of n] have "stored dec hdr i (chunks cs c) (take (n * (hdr + cs)) R)" by simp
  from stored_length [OF this] stored_length [OF assms(1)] False show ?thesis by simp
qed

lemma first_raw:
  assumes "stored dec hdr i (chunks cs c) R" "0 < cs" "c \<noteq> []"
  shows "take (hdr + cs) R = take (hdr + length (take cs c)) R" "drop (hdr + cs) R = drop (hdr + length (take cs c)) R"
    "hdr < length R" "dec i (take (hdr + cs) R) = Some (Ret (take cs c))"
    "stored dec hdr (Suc i) (chunks cs (drop cs c)) (drop (hdr + cs) R)"
proof -
  have s: "stored dec hdr i (take cs c # chunks cs (drop cs c)) R" using assms by (simp add: chunks_Cons)
  then have "hdr + length (take cs c) \<le> length R" by simp
  moreover have "0 < length (take cs c)" using assms(2,3) by simp
  ultimately show "hdr < length R" by linarith
  show "take (hdr + cs) R = take (hdr + length (take cs c)) R" "drop (hdr + cs) R = drop (hdr + length (take cs c)) R"
    using s stored_length [OF s] by (cases "cs \<le> length c"; simp)+
  with s show "dec i (take (hdr + cs) R) = Some (Ret (take cs c))"
    "stored dec hdr (Suc i) (chunks cs (drop cs c)) (drop (hdr + cs) R)" by simp_all
qed

lemma decrypt_loop_stored:
  "stored dec hdr i (chunks cs c) R \<Longrightarrow> 0 < cs \<Longrightarrow> i + length (chunks cs c) \<le> 2 ^ 32 \<Longrightarrow>
   decrypt_loop dec hdr (hdr + cs) i R = Some (Ret c)"
proof (induction cs c arbitrary: i R rule: chunks.induct)
  case (1 cs c)
  show ?case
  proof (cases "c = []")
    case True
    with 1(2) show ?thesis by (subst decrypt_loop.simps) simp
  next
    case False
    note f = first_raw [OF 1(2,3) False]
    have b: "Suc i + length (chunks cs (drop cs c)) \<le> 2 ^ 32" using 1(4) 1(3) False by (simp add: chunks_Cons)
    show ?thesis
    proof (cases "drop cs c = []")
      case True
      then have r: "drop (hdr + cs) R = []" using f(5) by simp
      have "decrypt_loop dec hdr (hdr + cs) ((i + 1) mod 2 ^ 32) [] = Some (Ret [])"
        by (subst decrypt_loop.simps) simp
      then show ?thesis using f(3,4) True
        by (subst decrypt_loop.simps) (simp add: r)
    next
      case more: False
      then have "Suc i < 2 ^ 32" using b 1(3) by (simp add: chunks_Cons)
      then have "decrypt_loop dec hdr (hdr + cs) ((i + 1) mod 2 ^ 32) (drop (hdr + cs) R) = Some (Ret (drop cs c))"
        using 1(1) [OF _ f(5) 1(3) b] False 1(3) by simp
      then show ?thesis using f(3,4) by (subst decrypt_loop.simps) simp
    qed
  qed
qed

lemma stored_full:
  assumes "stored dec hdr i (chunks cs c) R" "0 < cs" "n * cs \<le> length c"
  shows "n * (hdr + cs) \<le> length R"
proof -
  have "n \<le> length (chunks cs c)"
  proof (cases n)
    case (Suc j)
    with assms(2,3) have "\<not> length c \<le> j * cs" by simp
    then have "\<not> length (chunks cs c) \<le> j" by (simp add: length_chunks_le [OF assms(2)])
    with Suc show ?thesis by simp
  qed simp
  then have "n * hdr \<le> length (chunks cs c) * hdr" by (rule mult_le_mono1)
  moreover have "length R = length c + length (chunks cs c) * hdr"
    using stored_length [OF assms(1)] rawlen_chunks [OF assms(2), of hdr c] by (simp add: mult.commute)
  moreover have "n * (hdr + cs) = n * hdr + n * cs" by (rule distrib_left)
  ultimately show ?thesis using assms(3) by linarith
qed

text \<open>A run of chunks replaced by others, which hold at least as much.\<close>

lemma rawlen_mono: "0 < cs \<Longrightarrow> length a \<le> length b \<Longrightarrow> rawlen hdr (chunks cs a) \<le> rawlen hdr (chunks cs b)"
proof -
  assume cs: "0 < cs" and l: "length a \<le> length b"
  have "length a \<le> length (chunks cs b) * cs" using l length_chunks_le [OF cs, of b "length (chunks cs b)"] by simp
  then have "length (chunks cs a) \<le> length (chunks cs b)" by (simp add: length_chunks_le [OF cs])
  with l show ?thesis by (simp add: rawlen_chunks [OF cs] add_mono mult_le_mono2)
qed

lemma stored_replace:
  assumes "stored dec hdr 0 (chunks cs c) R" "0 < cs" "a * cs \<le> length c" "stored dec hdr a (chunks cs P) out"
    "length (take (n * cs) (drop (a * cs) c)) \<le> length P" "length P \<le> n * cs"
  shows "stored dec hdr 0 (chunks cs (take (a * cs) c @ P @ drop ((a + n) * cs) c))
    (take (a * (hdr + cs)) R @ out @ drop (a * (hdr + cs) + length out) R)"
proof -
  let ?d = "drop ((a + n) * cs) c" and ?r = "drop (a * (hdr + cs) + length out) R"
  have l: "length (take (a * cs) c) = a * cs" using assms(3) by simp
  have lo: "length out = rawlen hdr (chunks cs P)" using stored_length [OF assms(4)] .
  have tl: "stored dec hdr a (chunks cs (P @ ?d)) (out @ ?r)"
  proof (cases "?d = []")
    case True
    have "length (drop (a * cs) c) \<le> length P" using assms(5) True by (simp add: algebra_simps)
    from rawlen_mono [OF assms(2) this, of hdr] stored_length [OF stored_drop [OF assms(1,2), of a]]
    have "?r = []" using lo by simp
    with True assms(4) show ?thesis by simp
  next
    case False
    then have P: "length P = n * cs" using assms(5,6) by (simp add: algebra_simps)
    then have "length out = n * (hdr + cs)"
      unfolding lo by (simp add: rawlen_chunks [OF assms(2)] length_chunks_full [OF assms(2) P] algebra_simps)
    then have "a * (hdr + cs) + length out = (a + n) * (hdr + cs)" by (simp add: algebra_simps)
    then have "stored dec hdr (a + n) (chunks cs ?d) ?r" using stored_drop [OF assms(1,2), of "a + n"] by simp
    with stored_concat [OF assms(4)] show ?thesis
      by (simp add: chunks_append [OF assms(2) P] length_chunks_full [OF assms(2) P])
  qed
  have "stored dec hdr 0 (chunks cs (take (a * cs) c) @ chunks cs (P @ ?d)) (take (a * (hdr + cs)) R @ out @ ?r)"
    using stored_concat [OF stored_cut(1) [OF assms(1-3)]] tl by (simp add: length_chunks_full [OF assms(2) l])
  then show ?thesis by (simp add: chunks_append [OF assms(2) l])
qed

section \<open>The interface of an encryption module\<close>

text \<open>
  A usable module decrypts what it encrypted for the same index, and re-encrypts any chunk it can decrypt;
  a stored chunk is longer than its content by the header.
\<close>

locale chunk_cipher =
  fixes usable :: "'m \<Rightarrow> bool"
    and hdr :: "'m \<Rightarrow> nat"
    and dec :: "'m \<Rightarrow> nat \<Rightarrow> string \<Rightarrow> string res option"
    and enc :: "'m \<Rightarrow> nat \<Rightarrow> string \<Rightarrow> 'r \<Rightarrow> (string res \<times> 'r) option"
    and reenc :: "'m \<Rightarrow> nat \<Rightarrow> string \<Rightarrow> string \<Rightarrow> 'r \<Rightarrow> (string res \<times> 'r) option"
  assumes enc_law: "usable m \<Longrightarrow> i < 2 ^ 32 \<Longrightarrow> \<exists>raw r'. enc m i p r = Some (Ret raw, r') \<and>
      dec m i raw = Some (Ret p) \<and> length raw = hdr m + length p"
    and reenc_law: "usable m \<Longrightarrow> i < 2 ^ 32 \<Longrightarrow> dec m i old = Some (Ret q) \<Longrightarrow>
      \<exists>raw r'. reenc m i old p r = Some (Ret raw, r') \<and> dec m i raw = Some (Ret p) \<and> length raw = hdr m + length p"
begin

lemma encrypt_loop_stored:
  "usable m \<Longrightarrow> 0 < cs \<Longrightarrow> i + length (chunks cs P) \<le> 2 ^ 32 \<Longrightarrow> (P \<noteq> [] \<longrightarrow> j = i) \<Longrightarrow>
   \<exists>out r'. encrypt_loop (enc m) cs j P r = Some (Ret out, r') \<and> stored (dec m) (hdr m) i (chunks cs P) out"
proof (induction cs P arbitrary: i j r rule: chunks.induct)
  case (1 cs P)
  show ?case
  proof (cases "P = []")
    case True then show ?thesis by (subst encrypt_loop.simps) simp
  next
    case False
    then have c: "chunks cs P = take cs P # chunks cs (drop cs P)" using 1(3) by (simp add: chunks_Cons)
    with 1(4) have b: "i < 2 ^ 32" "Suc i + length (chunks cs (drop cs P)) \<le> 2 ^ 32" by simp_all
    obtain raw r1 where e: "enc m i (take cs P) r = Some (Ret raw, r1)" "dec m i raw = Some (Ret (take cs P))"
      "length raw = hdr m + length (take cs P)"
      using enc_law [OF 1(2) b(1)] by blast
    have "drop cs P \<noteq> [] \<longrightarrow> (i + 1) mod 2 ^ 32 = Suc i"
      using b(2) 1(3) by (auto simp: chunks_Cons)
    then obtain out r2 where "encrypt_loop (enc m) cs ((i + 1) mod 2 ^ 32) (drop cs P) r1 = Some (Ret out, r2)"
      "stored (dec m) (hdr m) (Suc i) (chunks cs (drop cs P)) out"
      using 1(1) [OF _ 1(2,3) b(2)] False 1(3) by blast
    with e False 1(5) show ?thesis by (subst encrypt_loop.simps) (auto simp: c)
  qed
qed

lemma reencrypt_loop_stored:
  "usable m \<Longrightarrow> 0 < cs \<Longrightarrow> stored (dec m) (hdr m) i (chunks cs c) R \<Longrightarrow> i + length (chunks cs c) \<le> 2 ^ 32 \<Longrightarrow>
   length c \<le> length P \<Longrightarrow> (c \<noteq> [] \<longrightarrow> j = i) \<Longrightarrow> n = length (chunks cs c) \<Longrightarrow>
   \<exists>out r' l. reencrypt_loop (reenc m) (hdr m + cs) cs j R P r = Some (Ret (out, l, drop (n * cs) P), r') \<and>
     stored (dec m) (hdr m) i (take n (chunks cs P)) out \<and> (c \<noteq> [] \<longrightarrow> l = (i + n) mod 2 ^ 32) \<and> (c = [] \<longrightarrow> l = j)"
proof (induction cs c arbitrary: i j n R P r rule: chunks.induct)
  case (1 cs c)
  show ?case
  proof (cases "c = []")
    case True
    with 1(4,8) show ?thesis by (subst reencrypt_loop.simps) simp
  next
    case False
    note f = first_raw [OF 1(4,3) False]
    let ?i = "(i + 1) mod 2 ^ 32"
    have n: "n = Suc (length (chunks cs (drop cs c)))" using 1(3,8) False by (simp add: chunks_Cons)
    have b: "i < 2 ^ 32" "Suc i + length (chunks cs (drop cs c)) \<le> 2 ^ 32" using 1(5,8) n by simp_all
    have P: "P \<noteq> []" "length (drop cs c) \<le> length (drop cs P)" using 1(6) False by auto
    obtain raw r1 where e: "reenc m i (take (hdr m + cs) R) (take cs P) r = Some (Ret raw, r1)"
      "dec m i raw = Some (Ret (take cs P))" "length raw = hdr m + length (take cs P)"
      using reenc_law [OF 1(2) b(1) f(4)] by blast
    have step: "drop cs c \<noteq> [] \<longrightarrow> ?i = Suc i"
      using b(2) 1(3) by (auto simp: chunks_Cons)
    have nz: "\<not> (c = [] \<or> cs = 0)" using False 1(3) by simp
    obtain out r2 l where o: "reencrypt_loop (reenc m) (hdr m + cs) cs ?i (drop (hdr m + cs) R) (drop cs P) r1 =
        Some (Ret (out, l, drop ((n - 1) * cs) (drop cs P)), r2)"
      "stored (dec m) (hdr m) (Suc i) (take (n - 1) (chunks cs (drop cs P))) out"
      "drop cs c \<noteq> [] \<longrightarrow> l = (Suc i + (n - 1)) mod 2 ^ 32" "drop cs c = [] \<longrightarrow> l = ?i"
      using 1(1) [OF nz 1(2,3) f(5) b(2) P(2) step, of "n - 1" r1] n by auto
    have "l = (i + n) mod 2 ^ 32" using o(3,4) n by (cases "drop cs c = []") auto
    moreover have "take n (chunks cs P) = take cs P # take (n - 1) (chunks cs (drop cs P))"
      using n P(1) 1(3) by (simp add: chunks_Cons)
    moreover have "drop ((n - 1) * cs) (drop cs P) = drop (n * cs) P" using n by (simp add: add.commute)
    moreover have "R \<noteq> []" using f(3) by auto
    ultimately show ?thesis using e o(1,2) False 1(7) by (subst reencrypt_loop.simps) auto
  qed
qed

text \<open>Overwriting a run of chunks: the stored ones are re-encrypted, the others added.\<close>

lemma rewrite_chunks:
  assumes "usable m" "0 < cs" "stored (dec m) (hdr m) i (chunks cs c) R" "length c \<le> length P"
    "i + length (chunks cs P) \<le> 2 ^ 32"
  shows "\<exists>out1 j rest r1 out2 r2.
    reencrypt_loop (reenc m) (hdr m + cs) cs i R P r = Some (Ret (out1, j, rest), r1) \<and>
    encrypt_loop (enc m) cs j rest r1 = Some (Ret out2, r2) \<and>
    stored (dec m) (hdr m) i (chunks cs P) (out1 @ out2)"
proof -
  let ?n = "length (chunks cs c)"
  have le: "length (chunks cs c) \<le> length (chunks cs P)"
    using length_chunks_le [OF assms(2), of c "length (chunks cs P)"]
      length_chunks_le [OF assms(2), of P "length (chunks cs P)"] assms(4) by simp
  obtain out1 r1 j where o: "reencrypt_loop (reenc m) (hdr m + cs) cs i R P r = Some (Ret (out1, j, drop (?n * cs) P), r1)"
    "stored (dec m) (hdr m) i (take ?n (chunks cs P)) out1" "c \<noteq> [] \<longrightarrow> j = (i + ?n) mod 2 ^ 32" "c = [] \<longrightarrow> j = i"
    using reencrypt_loop_stored [OF assms(1-3) _ assms(4) _ refl, of i r] assms(5) le by auto
  have d: "drop ?n (chunks cs P) = chunks cs (drop (?n * cs) P)" by (rule chunks_drop [OF assms(2)])
  have b: "i + ?n + length (chunks cs (drop (?n * cs) P)) \<le> 2 ^ 32"
    using assms(5) le unfolding d [symmetric] by simp
  have "drop (?n * cs) P \<noteq> [] \<longrightarrow> j = i + ?n"
    using b o(3,4) assms(2) by (cases "c = []") (auto simp: chunks_Cons)
  then obtain out2 r2 where e: "encrypt_loop (enc m) cs j (drop (?n * cs) P) r1 = Some (Ret out2, r2)"
    "stored (dec m) (hdr m) (i + ?n) (chunks cs (drop (?n * cs) P)) out2"
    using encrypt_loop_stored [OF assms(1,2) b] by blast
  have "length (take ?n (chunks cs P)) = ?n" using le by simp
  then have "stored (dec m) (hdr m) i (take ?n (chunks cs P) @ drop ?n (chunks cs P)) (out1 @ out2)"
    using stored_concat [OF o(2)] e(2) d by simp
  with o(1) e(1) show ?thesis by fastforce
qed

end

end
