(* ===== verification/EvfsModule.thy ===== *)
theory EvfsModule
  imports EvfsChunks VfsStandard
begin

text \<open>
  The encryption modules of the encrypted file system: src/vfs/vfs_encryption_module_dummy.cc and
  src/vfs/vfs_encryption_module_aes256gcm_sha256.cc behind the interface of vfs_encryption_module.hh.  A
  \<open>std::vector<uint8_t>\<close> is a string, a character being the byte of its code; 32- and 64-bit numbers are
  natural numbers with the reduction written out.  The hash, the cipher, the key derivation and the random
  generator of the crypto layer are a parameter.  Log calls are left out.
\<close>

unbundle bit_operations_syntax

section \<open>Bytes\<close>

text \<open>Big-endian numbers: the bytes \<open>(v >> 8 * i) & 0xFF\<close>, and their sum after shifting back.\<close>

definition be_bytes :: "nat \<Rightarrow> nat \<Rightarrow> string" where
  "be_bytes n v = map (\<lambda>i. char_of (v div 256 ^ (n - 1 - i))) [0..<n]"

definition be_nat :: "string \<Rightarrow> nat" where
  "be_nat bs = foldl (\<lambda>v b. 256 * v + of_char b) 0 bs"

definition xor_byte :: "char \<Rightarrow> char \<Rightarrow> char" where
  "xor_byte a b = char_of ((of_char a :: nat) XOR of_char b)"

text \<open>The loop that combines 16 bytes at a time with the key.\<close>

function xor_blocks :: "string \<Rightarrow> string \<Rightarrow> string" where
  "xor_blocks key data =
     (if data = [] then [] else map2 xor_byte (take 16 data) key @ xor_blocks key (drop 16 data))"
  by pat_completeness auto
termination by (relation "measure (\<lambda>(k, d). length d)") auto

declare xor_blocks.simps [simp del]

lemma length_be_bytes [simp]: "length (be_bytes n v) = n"
  by (simp add: be_bytes_def)

lemma be_bytes_Suc: "be_bytes (Suc n) v = be_bytes n (v div 256) @ [char_of v]"
proof -
  have "be_bytes (Suc n) v ! i = (be_bytes n (v div 256) @ [char_of v]) ! i" if "i < Suc n" for i
  proof (cases "i = n")
    case True then show ?thesis by (simp add: be_bytes_def nth_append)
  next
    case False
    with that have i: "i < n" by simp
    then have "n - i = Suc (n - 1 - i)" by simp
    then have "v div 256 ^ (n - i) = v div 256 div 256 ^ (n - 1 - i)" by (simp add: div_mult2_eq)
    with i show ?thesis by (simp add: be_bytes_def nth_append)
  qed
  then show ?thesis by (intro nth_equalityI) simp_all
qed

lemma be_nat_append: "be_nat (bs @ [b]) = 256 * be_nat bs + of_char b"
  by (simp add: be_nat_def)

lemma be_nat_be_bytes [simp]: "be_nat (be_bytes n v) = v mod 256 ^ n"
proof (induction n arbitrary: v)
  case 0 then show ?case by (simp add: be_nat_def be_bytes_def)
next
  case (Suc n)
  show ?case
    unfolding be_bytes_Suc be_nat_append Suc
    by (simp add: mod_mult2_eq mult.commute add.commute)
qed

lemma of_char_less: "of_char c < (256 :: nat)"
  by (cases c) (simp add: of_char_def)

lemma xor_byte_twice: "xor_byte (xor_byte a k) k = a"
proof -
  have byte: "take_bit 8 (of_char c :: nat) = of_char c" for c
    using of_char_less [of c] by (simp add: take_bit_nat_eq_self)
  have "take_bit 8 (of_char a XOR of_char k :: nat) = of_char a XOR of_char k"
    unfolding take_bit_xor byte ..
  then have "of_char (xor_byte a k) = (of_char a XOR of_char k :: nat)"
    by (simp add: xor_byte_def take_bit_eq_mod)
  then have "(of_char (xor_byte a k) XOR of_char k :: nat) = of_char a"
    by (simp add: xor.assoc)
  then show ?thesis by (simp add: xor_byte_def [of "xor_byte a k"])
qed

lemma length_xor_blocks: "length key = 16 \<Longrightarrow> length (xor_blocks key data) = length data"
  by (induction key data rule: xor_blocks.induct) (subst xor_blocks.simps; auto)

lemma map2_xor_twice:
  "length d \<le> length key \<Longrightarrow> map2 xor_byte (map2 xor_byte d key) key = d"
  by (induction d arbitrary: key) (case_tac key; simp add: xor_byte_twice)+

lemma xor_blocks_twice: "length key = 16 \<Longrightarrow> xor_blocks key (xor_blocks key data) = data"
proof (induction key data rule: xor_blocks.induct)
  case (1 key data)
  show ?case
  proof (cases "data = []")
    case True then show ?thesis by (simp add: xor_blocks.simps)
  next
    case False
    let ?b = "map2 xor_byte (take 16 data) key" and ?r = "xor_blocks key (drop 16 data)"
    have e: "xor_blocks key data = ?b @ ?r" using False by (subst xor_blocks.simps) simp
    have r: "length ?r = length data - 16" using length_xor_blocks [OF 1(2)] by simp
    have cut: "take 16 (?b @ ?r) = ?b" "drop 16 (?b @ ?r) = ?r"
      using 1(2) r by (cases "16 \<le> length data"; simp)+
    have "?b @ ?r \<noteq> []" using False 1(2) by (cases data; cases key) auto
    then have "xor_blocks key (?b @ ?r) = map2 xor_byte ?b key @ xor_blocks key ?r"
      by (subst xor_blocks.simps) (simp only: cut if_False)
    also have "map2 xor_byte ?b key = take 16 data" by (rule map2_xor_twice) (simp add: 1(2))
    also have "xor_blocks key ?r = drop 16 data" by (rule 1(1) [OF False 1(2)])
    finally show ?thesis unfolding e by simp
  qed
qed

section \<open>The crypto layer\<close>

text \<open>
  \<open>hmac_sha256 k key data i\<close> is byte \<open>i\<close> of the 32-byte digest, \<open>hkdf_sha256 k salt key info i\<close> byte \<open>i\<close> of
  the derived key.  \<open>aead_encrypt k key IV plain AD\<close> gives the cipher text and the tag of AES256-GCM128.
\<close>

record 'r crypto =
  hmac_sha256 :: "string \<Rightarrow> string \<Rightarrow> nat \<Rightarrow> char"
  hkdf_sha256 :: "string \<Rightarrow> string \<Rightarrow> string \<Rightarrow> nat \<Rightarrow> char"
  aead_encrypt :: "string \<Rightarrow> string \<Rightarrow> string \<Rightarrow> string \<Rightarrow> string \<times> string"
  aead_decrypt :: "string \<Rightarrow> string \<Rightarrow> string \<Rightarrow> string \<Rightarrow> string \<Rightarrow> string option"
  randomize :: "nat \<Rightarrow> 'r \<Rightarrow> string \<times> 'r"

text \<open>\<open>bctbx_hmacSha256\<close> reads \<open>keyLength\<close> bytes of the key, whatever the size of the buffer.\<close>

definition bctbx_hmacSha256 :: "'r crypto \<Rightarrow> string \<Rightarrow> nat \<Rightarrow> string \<Rightarrow> nat \<Rightarrow> string option" where
  "bctbx_hmacSha256 k key keyLength input n = do {
     _ \<leftarrow> require (keyLength \<le> length key);
     Some (map (hmac_sha256 k (take keyLength key) input) [0..<n]) }"

section \<open>The dummy module\<close>

record VfsEncryptionModuleDummy =
  mFileHeader :: string
  mFileHeaderIntegrity :: string
  mSecret :: string

definition dummy_chunkHeaderSize :: nat where "dummy_chunkHeaderSize = 16"
definition dummy_fileHeaderSize :: nat where "dummy_fileHeaderSize = 16"
definition dummy_secretMaterialSize :: nat where "dummy_secretMaterialSize = 16"

definition dummy_getChunkIndex :: "string \<Rightarrow> nat option" where
  "dummy_getChunkIndex chunk = do {
     _ \<leftarrow> require (12 \<le> length chunk);
     Some (be_nat (take 4 (drop 8 chunk))) }"

definition globalIV :: "VfsEncryptionModuleDummy \<Rightarrow> string" where
  "globalIV d = mFileHeader d"

definition dummy_new :: VfsEncryptionModuleDummy where
  "dummy_new = \<lparr>mFileHeader = [CHR 0xAA, CHR 0x55, CHR 0xBB, CHR 0x44, CHR 0xCC, CHR 0x33, CHR 0xDD, CHR 0x22],
     mFileHeaderIntegrity = replicate 8 NUL, mSecret = []\<rparr>"

definition dummy_open :: "string \<Rightarrow> VfsEncryptionModuleDummy res" where
  "dummy_open fileHeader =
     (if length fileHeader \<noteq> dummy_fileHeaderSize then Throw EvfsException
      else Ret \<lparr>mFileHeader = drop 8 fileHeader, mFileHeaderIntegrity = take 8 fileHeader, mSecret = []\<rparr>)"

definition dummy_getModuleFileHeader :: "'r crypto \<Rightarrow> VfsEncryptionModuleDummy \<Rightarrow> string \<Rightarrow> string option" where
  "dummy_getModuleFileHeader k d rawHeader = do {
     tag \<leftarrow> bctbx_hmacSha256 k (mSecret d) dummy_secretMaterialSize (rawHeader @ globalIV d) 8;
     Some (tag @ mFileHeader d) }"

definition dummy_setModuleSecretMaterial :: "string \<Rightarrow> VfsEncryptionModuleDummy \<Rightarrow> VfsEncryptionModuleDummy res" where
  "dummy_setModuleSecretMaterial secret d =
     (if length secret \<noteq> dummy_secretMaterialSize then Throw EvfsException else Ret (d\<lparr>mSecret := secret\<rparr>))"

definition chunkIntegrityTag :: "'r crypto \<Rightarrow> VfsEncryptionModuleDummy \<Rightarrow> string \<Rightarrow> string option" where
  "chunkIntegrityTag k d chunk = do {
     _ \<leftarrow> require (8 \<le> length chunk);
     bctbx_hmacSha256 k (mSecret d) dummy_secretMaterialSize (drop 8 chunk) 8 }"

text \<open>The key of a chunk: the file header, then bytes 8 to 15 of the chunk, combined with the secret.\<close>

definition XORkey :: "VfsEncryptionModuleDummy \<Rightarrow> string \<Rightarrow> string option" where
  "XORkey d rawChunk = do {
     _ \<leftarrow> require (dummy_chunkHeaderSize \<le> length rawChunk);
     let key = globalIV d @ take 8 (drop 8 rawChunk);
     _ \<leftarrow> require (length key \<le> length (mSecret d));
     Some (map2 xor_byte key (mSecret d)) }"

definition dummy_checkChunk :: "'r crypto \<Rightarrow> VfsEncryptionModuleDummy \<Rightarrow> nat \<Rightarrow> string \<Rightarrow> bool option" where
  "dummy_checkChunk k d chunkIndex rawChunk = do {
     computedIntegrity \<leftarrow> chunkIntegrityTag k d rawChunk;
     if computedIntegrity \<noteq> take 8 rawChunk then Some False
     else do {
       i \<leftarrow> dummy_getChunkIndex rawChunk;
       Some (chunkIndex = i) } }"

definition dummy_decryptChunk :: "'r crypto \<Rightarrow> VfsEncryptionModuleDummy \<Rightarrow> nat \<Rightarrow> string \<Rightarrow> string res option" where
  "dummy_decryptChunk k d chunkIndex rawChunk = do {
     ok \<leftarrow> dummy_checkChunk k d chunkIndex rawChunk;
     if \<not> ok then Some (Throw EvfsException)
     else do {
       key \<leftarrow> XORkey d rawChunk;
       Some (Ret (xor_blocks key (drop dummy_chunkHeaderSize rawChunk))) } }"

text \<open>Both forms of \<open>encryptChunk\<close> end in the same way; \<open>header\<close> is the header with its tag still to be set.\<close>

definition dummy_seal :: "'r crypto \<Rightarrow> VfsEncryptionModuleDummy \<Rightarrow> string \<Rightarrow> string \<Rightarrow> string option" where
  "dummy_seal k d header plainData = do {
     key \<leftarrow> XORkey d header;
     let rawChunk = header @ xor_blocks key plainData;
     computedIntegrity \<leftarrow> chunkIntegrityTag k d rawChunk;
     Some (computedIntegrity @ drop 8 rawChunk) }"

definition dummy_reencryptChunk :: "'r crypto \<Rightarrow> VfsEncryptionModuleDummy \<Rightarrow> nat \<Rightarrow> string \<Rightarrow> string \<Rightarrow> string res option" where
  "dummy_reencryptChunk k d chunkIndex rawChunk plainData = do {
     ok \<leftarrow> dummy_checkChunk k d chunkIndex rawChunk;
     if \<not> ok then Some (Throw EvfsException)
     else do {
       _ \<leftarrow> require (dummy_chunkHeaderSize \<le> length rawChunk);
       let encryptionCount = (be_nat (take 4 (drop 12 rawChunk)) + 1) mod 2 ^ 32;
       r \<leftarrow> dummy_seal k d (take 12 rawChunk @ be_bytes 4 encryptionCount) plainData;
       Some (Ret r) } }"

definition dummy_encryptChunk :: "'r crypto \<Rightarrow> VfsEncryptionModuleDummy \<Rightarrow> nat \<Rightarrow> string \<Rightarrow> string res option" where
  "dummy_encryptChunk k d chunkIndex plainData = do {
     r \<leftarrow> dummy_seal k d (replicate 8 NUL @ be_bytes 4 chunkIndex @ replicate 4 NUL) plainData;
     Some (Ret r) }"

definition dummy_checkIntegrity :: "'r crypto \<Rightarrow> VfsEncryptionModuleDummy \<Rightarrow> string \<Rightarrow> bool option" where
  "dummy_checkIntegrity k d rawHeader = do {
     tag \<leftarrow> bctbx_hmacSha256 k (mSecret d) dummy_secretMaterialSize (rawHeader @ globalIV d) 8;
     Some (tag = mFileHeaderIntegrity d) }"

section \<open>The AES256-GCM module\<close>

record VfsEM_AES256GCM_SHA256 =
  mFileSalt :: string
  sMasterKey :: string
  sFileHeaderHMACKey :: string
  mHeaderTag :: string

definition AES_tagSize :: nat where "AES_tagSize = 16"
definition AES_keySize :: nat where "AES_keySize = 32"
definition chunkIVSize :: nat where "chunkIVSize = 12"
definition aes_chunkHeaderSize :: nat where "aes_chunkHeaderSize = AES_tagSize + chunkIVSize"
definition fileSaltSize :: nat where "fileSaltSize = 16"
definition fileAuthTagSize :: nat where "fileAuthTagSize = 32"
definition aes_fileHeaderSize :: nat where "aes_fileHeaderSize = fileSaltSize + fileAuthTagSize"
definition masterKeySize :: nat where "masterKeySize = 32"

definition HKDF :: "'r crypto \<Rightarrow> string \<Rightarrow> string \<Rightarrow> string \<Rightarrow> nat \<Rightarrow> string" where
  "HKDF k salt key info n = map (hkdf_sha256 k salt key info) [0..<n]"

definition HMAC :: "'r crypto \<Rightarrow> string \<Rightarrow> string \<Rightarrow> string" where
  "HMAC k key input = map (hmac_sha256 k key input) [0..<32]"

definition aes_new :: "'r crypto \<Rightarrow> 'r \<Rightarrow> VfsEM_AES256GCM_SHA256 \<times> 'r" where
  "aes_new k r =
     (let (salt, r) = randomize k fileSaltSize r
      in (\<lparr>mFileSalt = salt, sMasterKey = [], sFileHeaderHMACKey = [], mHeaderTag = replicate fileAuthTagSize NUL\<rparr>, r))"

definition aes_open :: "string \<Rightarrow> VfsEM_AES256GCM_SHA256 res" where
  "aes_open fileHeader =
     (if length fileHeader \<noteq> aes_fileHeaderSize then Throw EvfsException
      else Ret \<lparr>mFileSalt = drop fileAuthTagSize fileHeader, sMasterKey = [], sFileHeaderHMACKey = [],
                mHeaderTag = take fileAuthTagSize fileHeader\<rparr>)"

definition aes_getModuleFileHeader :: "'r crypto \<Rightarrow> VfsEM_AES256GCM_SHA256 \<Rightarrow> string \<Rightarrow> string res" where
  "aes_getModuleFileHeader k a rawHeader =
     (if sFileHeaderHMACKey a = [] then Throw EvfsException
      else Ret (HMAC k (sFileHeaderHMACKey a) rawHeader @ mFileSalt a))"

definition aes_setModuleSecretMaterial ::
    "'r crypto \<Rightarrow> string \<Rightarrow> VfsEM_AES256GCM_SHA256 \<Rightarrow> VfsEM_AES256GCM_SHA256 res" where
  "aes_setModuleSecretMaterial k secret a =
     (if length secret \<noteq> masterKeySize then Throw EvfsException
      else Ret (a\<lparr>sMasterKey := secret,
                  sFileHeaderHMACKey := HKDF k (mFileSalt a) secret ''EVFS file Header'' masterKeySize\<rparr>))"

definition deriveChunkKey :: "'r crypto \<Rightarrow> VfsEM_AES256GCM_SHA256 \<Rightarrow> nat \<Rightarrow> string" where
  "deriveChunkKey k a chunkIndex =
     HKDF k (mFileSalt a @ be_bytes 4 chunkIndex) (sMasterKey a) ''EVFS chunk'' AES_keySize"

definition aes_decryptChunk :: "'r crypto \<Rightarrow> VfsEM_AES256GCM_SHA256 \<Rightarrow> nat \<Rightarrow> string \<Rightarrow> string res option" where
  "aes_decryptChunk k a chunkIndex rawChunk =
     (if sMasterKey a = [] then Some (Throw EvfsException)
      else do {
        let key = deriveChunkKey k a chunkIndex;
        _ \<leftarrow> require (aes_chunkHeaderSize \<le> length rawChunk);
        let tag = take AES_tagSize rawChunk;
        let IV = take chunkIVSize (drop AES_tagSize rawChunk);
        let cipher = drop aes_chunkHeaderSize rawChunk;
        case aead_decrypt k key IV cipher [] tag of
          None \<Rightarrow> Some (Throw EvfsException)
        | Some plain \<Rightarrow> Some (Ret plain) })"

definition aes_encryptChunk :: "'r crypto \<Rightarrow> VfsEM_AES256GCM_SHA256 \<Rightarrow> nat \<Rightarrow> string \<Rightarrow> 'r \<Rightarrow> string res \<times> 'r" where
  "aes_encryptChunk k a chunkIndex plainData r =
     (if sMasterKey a = [] then (Throw EvfsException, r)
      else (let (IV, r) = randomize k chunkIVSize r;
                key = deriveChunkKey k a chunkIndex;
                (cipher, tag) = aead_encrypt k key IV plainData []
            in (Ret (tag @ IV @ cipher), r)))"

definition aes_reencryptChunk :: "'r crypto \<Rightarrow> VfsEM_AES256GCM_SHA256 \<Rightarrow> nat \<Rightarrow> string \<Rightarrow> string \<Rightarrow> 'r \<Rightarrow> string res \<times> 'r" where
  "aes_reencryptChunk k a chunkIndex rawChunk plainData r = aes_encryptChunk k a chunkIndex plainData r"

definition aes_checkIntegrity :: "'r crypto \<Rightarrow> VfsEM_AES256GCM_SHA256 \<Rightarrow> string \<Rightarrow> bool res" where
  "aes_checkIntegrity k a rawHeader =
     (if sFileHeaderHMACKey a = [] then Throw EvfsException
      else Ret (HMAC k (sFileHeaderHMACKey a) rawHeader = mHeaderTag a))"

section \<open>The interface\<close>

datatype evfs_module = Dummy VfsEncryptionModuleDummy | Aes VfsEM_AES256GCM_SHA256

datatype EncryptionSuite = unset | dummy | aes256gcm128_sha256 | plain

fun getChunkHeaderSize :: "evfs_module \<Rightarrow> nat" where
  "getChunkHeaderSize (Dummy d) = dummy_chunkHeaderSize"
| "getChunkHeaderSize (Aes a) = aes_chunkHeaderSize"

fun getModuleFileHeaderSize :: "evfs_module \<Rightarrow> nat" where
  "getModuleFileHeaderSize (Dummy d) = dummy_fileHeaderSize"
| "getModuleFileHeaderSize (Aes a) = aes_fileHeaderSize"

fun getEncryptionSuite :: "evfs_module \<Rightarrow> EncryptionSuite" where
  "getEncryptionSuite (Dummy d) = dummy"
| "getEncryptionSuite (Aes a) = aes256gcm128_sha256"

fun getModuleFileHeader :: "'r crypto \<Rightarrow> evfs_module \<Rightarrow> string \<Rightarrow> string res option" where
  "getModuleFileHeader k (Dummy d) rawHeader = map_option Ret (dummy_getModuleFileHeader k d rawHeader)"
| "getModuleFileHeader k (Aes a) rawHeader = Some (aes_getModuleFileHeader k a rawHeader)"

fun setModuleSecretMaterial :: "'r crypto \<Rightarrow> string \<Rightarrow> evfs_module \<Rightarrow> evfs_module res" where
  "setModuleSecretMaterial k secret (Dummy d) = map_res Dummy (dummy_setModuleSecretMaterial secret d)"
| "setModuleSecretMaterial k secret (Aes a) = map_res Aes (aes_setModuleSecretMaterial k secret a)"

fun decryptChunk :: "'r crypto \<Rightarrow> evfs_module \<Rightarrow> nat \<Rightarrow> string \<Rightarrow> string res option" where
  "decryptChunk k (Dummy d) chunkIndex rawChunk = dummy_decryptChunk k d chunkIndex rawChunk"
| "decryptChunk k (Aes a) chunkIndex rawChunk = aes_decryptChunk k a chunkIndex rawChunk"

fun reencryptChunk :: "'r crypto \<Rightarrow> evfs_module \<Rightarrow> nat \<Rightarrow> string \<Rightarrow> string \<Rightarrow> 'r \<Rightarrow> (string res \<times> 'r) option" where
  "reencryptChunk k (Dummy d) chunkIndex rawChunk plainData r =
     map_option (\<lambda>x. (x, r)) (dummy_reencryptChunk k d chunkIndex rawChunk plainData)"
| "reencryptChunk k (Aes a) chunkIndex rawChunk plainData r = Some (aes_reencryptChunk k a chunkIndex rawChunk plainData r)"

fun encryptChunk :: "'r crypto \<Rightarrow> evfs_module \<Rightarrow> nat \<Rightarrow> string \<Rightarrow> 'r \<Rightarrow> (string res \<times> 'r) option" where
  "encryptChunk k (Dummy d) chunkIndex plainData r = map_option (\<lambda>x. (x, r)) (dummy_encryptChunk k d chunkIndex plainData)"
| "encryptChunk k (Aes a) chunkIndex plainData r = Some (aes_encryptChunk k a chunkIndex plainData r)"

fun checkIntegrity :: "'r crypto \<Rightarrow> evfs_module \<Rightarrow> string \<Rightarrow> bool res option" where
  "checkIntegrity k (Dummy d) rawHeader = map_option Ret (dummy_checkIntegrity k d rawHeader)"
| "checkIntegrity k (Aes a) rawHeader = Some (aes_checkIntegrity k a rawHeader)"

section \<open>The modules meet the interface\<close>

lemma length_bctbx_hmac: "bctbx_hmacSha256 k key l input n = Some t \<Longrightarrow> length t = n"
  by (auto simp: bctbx_hmacSha256_def bind_require split: if_splits)

lemmas dummy_sizes = dummy_chunkHeaderSize_def dummy_fileHeaderSize_def dummy_secretMaterialSize_def
lemmas aes_sizes = aes_chunkHeaderSize_def AES_tagSize_def AES_keySize_def chunkIVSize_def fileSaltSize_def
  fileAuthTagSize_def aes_fileHeaderSize_def masterKeySize_def

definition dummy_usable :: "VfsEncryptionModuleDummy \<Rightarrow> bool" where
  "dummy_usable d \<longleftrightarrow> length (mSecret d) = 16 \<and> length (mFileHeader d) = 8"

lemma dummy_tag:
  assumes "dummy_usable d" "8 \<le> length a"
  shows "\<exists>t. chunkIntegrityTag k d (a @ b) = Some t \<and> length t = 8 \<and>
    (\<forall>u. length u = 8 \<longrightarrow> chunkIntegrityTag k d (u @ drop 8 (a @ b)) = Some t)"
  using assms
  by (auto simp: dummy_usable_def chunkIntegrityTag_def bctbx_hmacSha256_def dummy_sizes)

lemma dummy_sealed:
  assumes "dummy_usable d" "length h = 16" "be_nat (take 4 (drop 8 h)) = i"
  shows "\<exists>raw. dummy_seal k d h p = Some raw \<and> length raw = 16 + length p \<and>
    dummy_decryptChunk k d i raw = Some (Ret p)"
proof -
  let ?key = "map2 xor_byte (mFileHeader d @ take 8 (drop 8 h)) (mSecret d)"
  have key: "length ?key = 16" using assms(1,2) by (simp add: dummy_usable_def)
  let ?c = "h @ xor_blocks ?key p"
  obtain t where t: "chunkIntegrityTag k d ?c = Some t" "length t = 8"
    "chunkIntegrityTag k d (t @ drop 8 ?c) = Some t"
    using dummy_tag [OF assms(1), where a = h and b = "xor_blocks ?key p" and k = k] assms(2) by auto
  have seal: "dummy_seal k d h p = Some (t @ drop 8 ?c)"
    using assms(1,2) t(1) by (simp add: dummy_seal_def XORkey_def dummy_usable_def globalIV_def dummy_sizes)
  have parts: "take 8 (t @ drop 8 ?c) = t" "take 4 (drop 8 (t @ drop 8 ?c)) = take 4 (drop 8 h)"
    "take 8 (drop 8 (t @ drop 8 ?c)) = take 8 (drop 8 h)" "drop 16 (t @ drop 8 ?c) = xor_blocks ?key p"
    using t(2) assms(2) by simp_all
  have len: "length (t @ drop 8 ?c) = 16 + length p"
    using t(2) assms(2) key by (simp add: length_xor_blocks)
  have "dummy_checkChunk k d i (t @ drop 8 ?c) = Some True"
    using t(3) len parts(1,2) assms(3) by (simp add: dummy_checkChunk_def dummy_getChunkIndex_def)
  moreover have "XORkey d (t @ drop 8 ?c) = Some ?key"
    using assms(1,2) len parts(3) by (simp add: XORkey_def dummy_usable_def globalIV_def dummy_sizes)
  ultimately have "dummy_decryptChunk k d i (t @ drop 8 ?c) = Some (Ret p)"
    using parts(4) xor_blocks_twice [OF key] by (simp add: dummy_decryptChunk_def dummy_sizes)
  with seal len show ?thesis by blast
qed

lemma dummy_enc_law:
  assumes "dummy_usable d" "i < 2 ^ 32"
  shows "\<exists>raw. dummy_encryptChunk k d i p = Some (Ret raw) \<and> dummy_decryptChunk k d i raw = Some (Ret p) \<and>
    length raw = 16 + length p"
  using dummy_sealed [OF assms(1), of "replicate 8 NUL @ be_bytes 4 i @ replicate 4 NUL" i k p] assms(2)
  by (auto simp: dummy_encryptChunk_def)

lemma dummy_reenc_law:
  assumes "dummy_usable d" "dummy_decryptChunk k d i old = Some (Ret q)"
  shows "\<exists>raw. dummy_reencryptChunk k d i old p = Some (Ret raw) \<and> dummy_decryptChunk k d i raw = Some (Ret p) \<and>
    length raw = 16 + length p"
proof -
  have ok: "dummy_checkChunk k d i old = Some True" "16 \<le> length old"
    using assms(2) by (auto simp: dummy_decryptChunk_def XORkey_def dummy_sizes bind_require bind_Some_iff split: if_splits)
  then have i: "be_nat (take 4 (drop 8 old)) = i"
    by (auto simp: dummy_checkChunk_def dummy_getChunkIndex_def bind_require bind_Some_iff split: if_splits)
  show ?thesis
    using dummy_sealed [OF assms(1), of "take 12 old @ be_bytes 4 ((be_nat (take 4 (drop 12 old)) + 1) mod 2 ^ 32)" i k p]
      ok i by (auto simp: dummy_reencryptChunk_def dummy_sizes take_drop)
qed

text \<open>What the AES module needs of the cipher and the generator; the documented behaviour of the crypto layer.\<close>

definition aead_ok :: "'r crypto \<Rightarrow> bool" where
  "aead_ok k \<longleftrightarrow>
     (\<forall>key IV p. length (fst (aead_encrypt k key IV p [])) = length p \<and>
        length (snd (aead_encrypt k key IV p [])) = AES_tagSize \<and>
        aead_decrypt k key IV (fst (aead_encrypt k key IV p [])) [] (snd (aead_encrypt k key IV p [])) = Some p) \<and>
     (\<forall>n r. length (fst (randomize k n r)) = n)"

fun module_usable :: "'r crypto \<Rightarrow> evfs_module \<Rightarrow> bool" where
  "module_usable k (Dummy d) = dummy_usable d"
| "module_usable k (Aes a) =
     (length (sMasterKey a) = masterKeySize \<and> length (mFileSalt a) = fileSaltSize \<and>
      sFileHeaderHMACKey a = HKDF k (mFileSalt a) (sMasterKey a) ''EVFS file Header'' masterKeySize \<and> aead_ok k)"

lemma module_header:
  assumes "module_usable k m"
  shows "\<exists>mh. getModuleFileHeader k m h = Some (Ret mh) \<and> length mh = getModuleFileHeaderSize m"
proof (cases m)
  case (Dummy d)
  then show ?thesis using assms
    by (simp add: dummy_getModuleFileHeader_def bctbx_hmacSha256_def dummy_usable_def dummy_sizes)
next
  case (Aes a)
  then have "sFileHeaderHMACKey a \<noteq> []" using assms by (simp add: HKDF_def aes_sizes)
  with Aes assms show ?thesis by (simp add: aes_getModuleFileHeader_def HMAC_def aes_sizes)
qed

lemma aes_enc_law:
  assumes "sMasterKey a \<noteq> []" "aead_ok k"
  shows "\<exists>raw r'. aes_encryptChunk k a i p r = (Ret raw, r') \<and> aes_decryptChunk k a i raw = Some (Ret p) \<and>
    length raw = aes_chunkHeaderSize + length p"
proof -
  obtain IV r' where r: "randomize k chunkIVSize r = (IV, r')" by fastforce
  obtain c t where e: "aead_encrypt k (deriveChunkKey k a i) IV p [] = (c, t)" by fastforce
  have "length IV = 12" "length c = length p" "length t = 16"
    "aead_decrypt k (deriveChunkKey k a i) IV c [] t = Some p"
    using assms(2) r e unfolding aead_ok_def by (metis fst_conv snd_conv aes_sizes)+
  with assms(1) r e show ?thesis by (simp add: aes_encryptChunk_def aes_decryptChunk_def aes_sizes)
qed

lemma aes_usable: "module_usable k (Aes a) \<Longrightarrow> sMasterKey a \<noteq> [] \<and> aead_ok k"
  by (auto simp: masterKeySize_def)

interpretation evfs_modules: chunk_cipher "module_usable k" getChunkHeaderSize "decryptChunk k" "encryptChunk k"
  "reencryptChunk k" for k
proof
  fix m and i :: nat and p :: string and r
  assume m: "module_usable k m" "i < 2 ^ 32"
  show "\<exists>raw r'. encryptChunk k m i p r = Some (Ret raw, r') \<and> decryptChunk k m i raw = Some (Ret p) \<and>
      length raw = getChunkHeaderSize m + length p"
  proof (cases m)
    case (Dummy d)
    then show ?thesis using m dummy_enc_law [of d i k p] by (auto simp: dummy_sizes)
  next
    case (Aes a)
    then show ?thesis using aes_usable [of k a] m(1) aes_enc_law [of a k i p r] by auto
  qed
  fix old q
  assume q: "decryptChunk k m i old = Some (Ret q)"
  show "\<exists>raw r'. reencryptChunk k m i old p r = Some (Ret raw, r') \<and> decryptChunk k m i raw = Some (Ret p) \<and>
      length raw = getChunkHeaderSize m + length p"
  proof (cases m)
    case (Dummy d)
    then show ?thesis using m q dummy_reenc_law [of d k i old q p] by (auto simp: dummy_sizes)
  next
    case (Aes a)
    then show ?thesis using aes_usable [of k a] m(1) aes_enc_law [of a k i p r] by (auto simp: aes_reencryptChunk_def)
  qed
qed

end
