(* ===== verification/Evfs.thy ===== *)
theory Evfs
  imports EvfsModule
begin

text \<open>
  The encrypted file system of src/vfs/vfs_encrypted.cc over the standard one: the class \<open>VfsEncryption\<close> with
  its constructor, and the callbacks that vfs.c calls.  Sizes are natural numbers, reduced modulo
  \<open>2 ^ 64\<close> or \<open>2 ^ 32\<close> where the source may wrap.  The callback of the client, which sets the suite and the key
  while a file is opened, is a parameter.  Log calls are left out.
\<close>

unbundle bit_operations_syntax

section \<open>State\<close>

record VfsEncryption =
  mVersionNumber :: nat
  mChunkSize :: nat
  m_module :: "evfs_module option"
  mHeaderExtensionSize :: nat
  mFilename :: string
  mFileSize :: nat
  r_header :: string
  mEncryptExistingPlainFile :: bool
  mIntegrityFullCheck :: bool
  mAccessMode :: int
  pFileStd :: "os bctbx_vfs_file_t option"

text \<open>What a method works on: its object, the system below and the random generator.\<close>

record 'r evfs =
  ctx :: VfsEncryption
  sys :: os
  rng :: 'r

type_synonym ('a, 'r) evfs_result = "('a res \<times> 'r evfs) option"
type_synonym 'r EncryptedVfsOpenCb = "'r evfs \<Rightarrow> (unit, 'r) evfs_result"

definition u64 :: "int \<Rightarrow> nat" where "u64 x = nat (x mod 2 ^ 64)"
definition u32 :: "nat \<Rightarrow> nat" where "u32 n = n mod 2 ^ 32"

definition to_off_t :: "nat \<Rightarrow> int" where
  "to_off_t n = (if n < 2 ^ 63 then int n else int n - 2 ^ 64)"

definition set_ctx :: "(VfsEncryption \<Rightarrow> VfsEncryption) \<Rightarrow> 'r evfs \<Rightarrow> 'r evfs" where
  "set_ctx f s = s\<lparr>ctx := f (ctx s)\<rparr>"

section \<open>The file below\<close>

definition std_file_size :: "'r evfs \<Rightarrow> (int \<times> 'r evfs) option" where
  "std_file_size s = do {
     (ret, f, w) \<leftarrow> bctbx_file_size (pFileStd (ctx s)) (sys s);
     Some (ret, s\<lparr>ctx := (ctx s)\<lparr>pFileStd := f\<rparr>, sys := w\<rparr>) }"

definition std_file_read :: "nat \<Rightarrow> nat \<Rightarrow> 'r evfs \<Rightarrow> ((int \<times> string) \<times> 'r evfs) option" where
  "std_file_read cnt off s = do {
     (ret, d, f, w) \<leftarrow> bctbx_file_read (pFileStd (ctx s)) cnt (to_off_t off) (sys s);
     Some ((ret, d), s\<lparr>ctx := (ctx s)\<lparr>pFileStd := f\<rparr>, sys := w\<rparr>) }"

definition std_file_write :: "string \<Rightarrow> nat \<Rightarrow> 'r evfs \<Rightarrow> (int \<times> 'r evfs) option" where
  "std_file_write d off s = do {
     (ret, f, w) \<leftarrow> bctbx_file_write (pFileStd (ctx s)) d (to_off_t off) (sys s);
     Some (ret, s\<lparr>ctx := (ctx s)\<lparr>pFileStd := f\<rparr>, sys := w\<rparr>) }"

definition std_file_truncate :: "int \<Rightarrow> 'r evfs \<Rightarrow> (int \<times> 'r evfs) option" where
  "std_file_truncate n s = do {
     (ret, f, w) \<leftarrow> bctbx_file_truncate (pFileStd (ctx s)) n (sys s);
     Some (ret, s\<lparr>ctx := (ctx s)\<lparr>pFileStd := f\<rparr>, sys := w\<rparr>) }"

section \<open>Suites\<close>

definition moduleFileHeaderSize :: "nat \<Rightarrow> nat" where
  "moduleFileHeaderSize suite = (if suite = 1 then dummy_fileHeaderSize else if suite = 2 then aes_fileHeaderSize else 0)"

fun suite_code :: "EncryptionSuite \<Rightarrow> nat" where
  "suite_code unset = 0"
| "suite_code dummy = 1"
| "suite_code aes256gcm128_sha256 = 2"
| "suite_code plain = 65535"

text \<open>The module of a new file; of a file with a header.\<close>

definition make_VfsEncryptionModule :: "'r crypto \<Rightarrow> EncryptionSuite \<Rightarrow> 'r \<Rightarrow> evfs_module option res \<times> 'r" where
  "make_VfsEncryptionModule k suite r =
     (case suite of
        dummy \<Rightarrow> (Ret (Some (Dummy dummy_new)), r)
      | aes256gcm128_sha256 \<Rightarrow> (let (a, r) = aes_new k r in (Ret (Some (Aes a)), r))
      | plain \<Rightarrow> (Ret None, r)
      | unset \<Rightarrow> (Throw EvfsException, r))"

definition open_VfsEncryptionModule :: "nat \<Rightarrow> string \<Rightarrow> evfs_module res" where
  "open_VfsEncryptionModule suite moduleFileHeader =
     (if suite = 1 then map_res Dummy (dummy_open moduleFileHeader)
      else if suite = 2 then map_res Aes (aes_open moduleFileHeader)
      else Throw EvfsException)"

definition encryptionSuiteString :: "EncryptionSuite \<Rightarrow> string" where
  "encryptionSuiteString suite =
     (case suite of
        dummy \<Rightarrow> ''dummy''
      | aes256gcm128_sha256 \<Rightarrow> ''AES256GCM_SHA256''
      | plain \<Rightarrow> ''plain''
      | unset \<Rightarrow> ''unset'')"

section \<open>Settings\<close>

definition baseFileHeaderSize :: nat where "baseFileHeaderSize = 29"
definition defaultChunkSize :: nat where "defaultChunkSize = 4096"
definition BCENCRYPTEDFS :: string where "BCENCRYPTEDFS = ''bcEncryptedFs''"
definition BcEncFS_v0100 :: nat where "BcEncFS_v0100 = 256"

definition chunkSizeGet :: "VfsEncryption \<Rightarrow> nat" where
  "chunkSizeGet c = (if mChunkSize c = 0 then defaultChunkSize else mChunkSize c)"

definition chunkSizeSet :: "nat \<Rightarrow> 'r evfs \<Rightarrow> unit res \<times> 'r evfs" where
  "chunkSizeSet n s =
     (if n < 16 \<or> n > 1048560 then (Throw EvfsException, s)
      else if n mod 16 \<noteq> 0 then (Throw EvfsException, s)
      else if mChunkSize (ctx s) = 0 then (Ret (), set_ctx (\<lambda>c. c\<lparr>mChunkSize := n\<rparr>) s)
      else if mChunkSize (ctx s) \<noteq> n then (Throw EvfsException, s)
      else (Ret (), s))"

definition secretMaterialSet :: "'r crypto \<Rightarrow> string \<Rightarrow> 'r evfs \<Rightarrow> unit res \<times> 'r evfs" where
  "secretMaterialSet k secretMaterial s =
     (case m_module (ctx s) of
        None \<Rightarrow>
          if mFileSize (ctx s) > 0 \<and> mAccessMode (ctx s) = O_RDONLY then (Ret (), s) else (Throw EvfsException, s)
      | Some m \<Rightarrow>
          (case setModuleSecretMaterial k secretMaterial m of
             Throw e \<Rightarrow> (Throw e, s)
           | Ret m \<Rightarrow> (Ret (), set_ctx (\<lambda>c. c\<lparr>m_module := Some m\<rparr>) s)))"

definition encryptionSuiteGet :: "VfsEncryption \<Rightarrow> EncryptionSuite" where
  "encryptionSuiteGet c =
     (case m_module c of
        Some m \<Rightarrow> getEncryptionSuite m
      | None \<Rightarrow> if mFileSize c > 0 then plain else unset)"

definition set_new_module :: "'r crypto \<Rightarrow> EncryptionSuite \<Rightarrow> 'r evfs \<Rightarrow> unit res \<times> 'r evfs" where
  "set_new_module k suite s =
     (case make_VfsEncryptionModule k suite (rng s) of
        (Throw e, r) \<Rightarrow> (Throw e, s\<lparr>rng := r\<rparr>)
      | (Ret m, r) \<Rightarrow> (Ret (), s\<lparr>ctx := (ctx s)\<lparr>m_module := m\<rparr>, rng := r\<rparr>))"

definition encryptionSuiteSet :: "'r crypto \<Rightarrow> EncryptionSuite \<Rightarrow> 'r evfs \<Rightarrow> unit res \<times> 'r evfs" where
  "encryptionSuiteSet k suite s =
     (if m_module (ctx s) = None \<and> mFileSize (ctx s) = 0 then set_new_module k suite s
      else if encryptionSuiteGet (ctx s) = suite then (Ret (), s)
      else if encryptionSuiteGet (ctx s) \<noteq> plain then (Throw EvfsException, s)
      else if mAccessMode (ctx s) = O_RDONLY then (Ret (), s)
      else set_new_module k suite (set_ctx (\<lambda>c. c\<lparr>mEncryptExistingPlainFile := True\<rparr>) s))"

section \<open>Sizes and positions\<close>

definition rawChunkSizeGet :: "VfsEncryption \<Rightarrow> evfs_module \<Rightarrow> nat" where
  "rawChunkSizeGet c m = mChunkSize c + getChunkHeaderSize m"

definition getChunkIndex :: "VfsEncryption \<Rightarrow> nat \<Rightarrow> nat" where
  "getChunkIndex c off = u32 (off div mChunkSize c)"

definition getChunkOffset :: "VfsEncryption \<Rightarrow> evfs_module \<Rightarrow> nat \<Rightarrow> nat" where
  "getChunkOffset c m index =
     u64 (int (rawChunkSizeGet c m * index + baseFileHeaderSize + mHeaderExtensionSize c + getModuleFileHeaderSize m))"

text \<open>A division by a chunk size of 0 is undefined.\<close>

definition rawFileSizeGet :: "VfsEncryption \<Rightarrow> evfs_module \<Rightarrow> nat option" where
  "rawFileSizeGet c m = do {
     _ \<leftarrow> require (mChunkSize c \<noteq> 0);
     let n = (if mFileSize c mod mChunkSize c > 0 then 1 else 0) + mFileSize c div mChunkSize c;
     Some (u64 (int (mFileSize c + n * getChunkHeaderSize m + baseFileHeaderSize + mHeaderExtensionSize c +
                     getModuleFileHeaderSize m))) }"

section \<open>The file header\<close>

definition parseHeader :: "'r evfs \<Rightarrow> (unit, 'r) evfs_result" where
  "parseHeader s = do {
     (ret, s) \<leftarrow> std_file_size s;
     let as_plain = (\<lambda>s. Some (Ret (), set_ctx (\<lambda>c. c\<lparr>mFileSize := u64 ret, m_module := None\<rparr>) s));
     if ret < int baseFileHeaderSize then as_plain s
     else do {
       ((n, h), s) \<leftarrow> std_file_read baseFileHeaderSize 0 s;
       let s = set_ctx (\<lambda>c. c\<lparr>r_header := h\<rparr>) s;
       if n \<noteq> int baseFileHeaderSize then Some (Throw EvfsException, s)
       else if take 13 h \<noteq> BCENCRYPTEDFS then as_plain s
       else do {
         let suite = be_nat (take 2 (drop 15 h));
         let s = set_ctx (\<lambda>c. c\<lparr>mVersionNumber := be_nat (take 2 (drop 13 h)),
                    mChunkSize := be_nat (take 2 (drop 17 h)) * 16,
                    mHeaderExtensionSize := be_nat (take 2 (drop 19 h)),
                    mFileSize := be_nat (take 8 (drop 21 h))\<rparr>) s;
         let dataSize = moduleFileHeaderSize suite;
         ((got, data), s) \<leftarrow> (if dataSize \<noteq> 0
           then std_file_read dataSize (baseFileHeaderSize + mHeaderExtensionSize (ctx s)) s
           else Some ((0, []), s));
         if got \<noteq> int dataSize then Some (Throw EvfsException, s)
         else case open_VfsEncryptionModule suite data of
           Throw e \<Rightarrow> Some (Throw e, s)
         | Ret m \<Rightarrow> do {
             let s = set_ctx (\<lambda>c. c\<lparr>m_module := Some m\<rparr>) s;
             rawSize \<leftarrow> rawFileSizeGet (ctx s) m;
             if rawSize = u64 ret then Some (Ret (), s)
             else do {
               let hs = baseFileHeaderSize + mHeaderExtensionSize (ctx s) + getModuleFileHeaderSize m;
               let rest = u64 (ret - int hs);
               let rc = rawChunkSizeGet (ctx s) m;
               let chunkNb = (if rest mod rc > 0 then 1 else 0) + rest div rc;
               Some (Ret (), set_ctx (\<lambda>c. c\<lparr>mIntegrityFullCheck := True,
                 mFileSize := u64 (int rest - int (chunkNb * getChunkHeaderSize m))\<rparr>) s) } } } } }"

definition base_header :: "VfsEncryption \<Rightarrow> evfs_module \<Rightarrow> string" where
  "base_header c m = BCENCRYPTEDFS @ be_bytes 2 (mVersionNumber c) @ be_bytes 2 (suite_code (getEncryptionSuite m)) @
     be_bytes 2 (mChunkSize c div 16) @ replicate 2 NUL @ be_bytes 8 (mFileSize c)"

text \<open>\<open>writeHeader\<close> into a given file, which is returned with its new state; into the object's own file.\<close>

definition writeHeader_to ::
    "'r crypto \<Rightarrow> os bctbx_vfs_file_t option \<Rightarrow> 'r evfs \<Rightarrow> (os bctbx_vfs_file_t option, 'r) evfs_result" where
  "writeHeader_to k fp s =
     (case m_module (ctx s) of
        None \<Rightarrow> Some (Throw EvfsException, s)
      | Some m \<Rightarrow> do {
          let header = base_header (ctx s) m;
          let s = set_ctx (\<lambda>c. c\<lparr>r_header := header\<rparr>) s;
          mh \<leftarrow> getModuleFileHeader k m header;
          case mh of
            Throw e \<Rightarrow> Some (Throw e, s)
          | Ret mh \<Rightarrow> do {
              (ret, f, w) \<leftarrow> bctbx_file_write fp (header @ mh) 0 (sys s);
              Some (if ret \<noteq> int (length (header @ mh)) then Throw EvfsException else Ret f, s\<lparr>sys := w\<rparr>) } })"

definition writeHeader :: "'r crypto \<Rightarrow> 'r evfs \<Rightarrow> (unit, 'r) evfs_result" where
  "writeHeader k s =
     andthen (writeHeader_to k (pFileStd (ctx s)) s) (\<lambda>f s. Some (Ret (), set_ctx (\<lambda>c. c\<lparr>pFileStd := f\<rparr>) s))"

section \<open>Reading\<close>

definition fileSizeGet :: "'r evfs \<Rightarrow> (int \<times> 'r evfs) option" where
  "fileSizeGet s = (if m_module (ctx s) = None then std_file_size s else Some (int (mFileSize (ctx s)), s))"

text \<open>The number of chunks from \<open>firstChunk\<close> to \<open>lastChunk\<close>, in 32 bits.\<close>

definition chunk_span :: "nat \<Rightarrow> nat \<Rightarrow> nat" where
  "chunk_span firstChunk lastChunk = nat ((int lastChunk - int firstChunk + 1) mod 2 ^ 32)"

text \<open>The object does not change while reading, but for its file; a negative size cannot be \<open>resize\<close>d to.\<close>

definition evfs_read :: "'r crypto \<Rightarrow> nat \<Rightarrow> nat \<Rightarrow> 'r evfs \<Rightarrow> (string, 'r) evfs_result" where
  "evfs_read k off cnt s =
     (let c = ctx s in
      case m_module c of
        None \<Rightarrow> do {
          ((readSize, data), s) \<leftarrow> std_file_read cnt off s;
          Some (if readSize < 0 then Throw StdException else Ret data, s) }
      | Some m \<Rightarrow> do {
          _ \<leftarrow> require (mChunkSize c \<noteq> 0);
          let firstChunk = getChunkIndex c off;
          let lastChunk = getChunkIndex c (u64 (int off + int cnt - 1));
          let offsetInFirstChunk = off mod mChunkSize c;
          ((readSize, rawData), s) \<leftarrow> std_file_read (chunk_span firstChunk lastChunk * rawChunkSizeGet c m)
            (getChunkOffset c m firstChunk) s;
          if readSize < 0 then Some (Throw EvfsException, s)
          else do {
            x \<leftarrow> decrypt_loop (decryptChunk k m) (getChunkHeaderSize m) (rawChunkSizeGet c m) firstChunk rawData;
            Some (map_res (\<lambda>plainData. take cnt (drop offsetInFirstChunk plainData)) x, s) } })"

section \<open>Writing\<close>

text \<open>The existing chunks that a write overwrites.\<close>

definition read_overwritten :: "nat \<Rightarrow> nat \<Rightarrow> nat \<Rightarrow> evfs_module \<Rightarrow> 'r evfs \<Rightarrow> (string, 'r) evfs_result" where
  "read_overwritten readOffset rawDataSize firstChunk m s =
     (if readOffset < mFileSize (ctx s)
      then do {
        ((overwrittenSize, rawData), s) \<leftarrow> std_file_read rawDataSize (getChunkOffset (ctx s) m firstChunk) s;
        Some (if overwrittenSize < 0 then Throw StdException else Ret rawData, s) }
      else Some (Ret [], s))"

text \<open>The beginning of the first chunk in front of the data, the end of the last one behind it.\<close>

definition prepend_plain :: "'r crypto \<Rightarrow> evfs_module \<Rightarrow> nat \<Rightarrow> nat \<Rightarrow> nat \<Rightarrow> string \<Rightarrow> string \<Rightarrow> 'r evfs \<Rightarrow> (string, 'r) evfs_result" where
  "prepend_plain k m readOffset off firstChunk rawData data s =
     (if readOffset < off
      then do {
        x \<leftarrow> decryptChunk k m firstChunk (take (rawChunkSizeGet (ctx s) m) rawData);
        case x of
          Throw e \<Rightarrow> Some (Throw e, s)
        | Ret plainChunk \<Rightarrow> do {
            _ \<leftarrow> require (off - readOffset \<le> length plainChunk);
            Some (Ret (take (off - readOffset) plainChunk @ data), s) } }
      else Some (Ret data, s))"

definition append_plain :: "'r crypto \<Rightarrow> evfs_module \<Rightarrow> nat \<Rightarrow> nat \<Rightarrow> nat \<Rightarrow> string \<Rightarrow> string \<Rightarrow> 'r evfs \<Rightarrow> (string, 'r) evfs_result" where
  "append_plain k m readOffset firstChunk lastChunk rawData data s =
     (let c = ctx s; tail = length data mod mChunkSize c in
      if tail \<noteq> 0 \<and> length data + readOffset < mFileSize c
      then do {
        let from = getChunkOffset c m lastChunk - getChunkOffset c m firstChunk;
        let upto = min (getChunkOffset c m (u32 (lastChunk + 1)) - getChunkOffset c m firstChunk) (length rawData);
        _ \<leftarrow> require (from \<le> upto);
        x \<leftarrow> decryptChunk k m lastChunk (drop from (take upto rawData));
        case x of
          Throw e \<Rightarrow> Some (Throw e, s)
        | Ret plainChunk \<Rightarrow> do {
            _ \<leftarrow> require (tail \<le> length plainChunk);
            Some (Ret (data @ drop tail plainChunk), s) } }
      else Some (Ret data, s))"

text \<open>All chunks encrypted again, the new ones behind them.\<close>

definition encrypt_all :: "'r crypto \<Rightarrow> evfs_module \<Rightarrow> nat \<Rightarrow> string \<Rightarrow> string \<Rightarrow> 'r evfs \<Rightarrow> (string, 'r) evfs_result" where
  "encrypt_all k m firstChunk rawData data s =
     (let c = ctx s in do {
        (x, r) \<leftarrow> reencrypt_loop (reencryptChunk k m) (rawChunkSizeGet c m) (mChunkSize c) firstChunk rawData data (rng s);
        case x of
          Throw e \<Rightarrow> Some (Throw e, s\<lparr>rng := r\<rparr>)
        | Ret (out, currentChunkIndex, rest) \<Rightarrow> do {
            (y, r) \<leftarrow> encrypt_loop (encryptChunk k m) (mChunkSize c) currentChunkIndex rest r;
            Some (map_res (\<lambda>out2. out @ out2) y, s\<lparr>rng := r\<rparr>) } })"

definition write_raw :: "'r crypto \<Rightarrow> evfs_module \<Rightarrow> nat \<Rightarrow> nat \<Rightarrow> nat \<Rightarrow> string \<Rightarrow> 'r evfs \<Rightarrow> (nat, 'r) evfs_result" where
  "write_raw k m firstChunk finalFileSize n updatedRawData s = do {
     (ret, s) \<leftarrow> std_file_write updatedRawData (getChunkOffset (ctx s) m firstChunk) s;
     if ret = int (length updatedRawData)
     then andthen (writeHeader k (set_ctx (\<lambda>c. c\<lparr>mFileSize := finalFileSize\<rparr>) s)) (\<lambda>_ s. Some (Ret n, s))
     else Some (Throw EvfsException, s) }"

definition evfs_write :: "'r crypto \<Rightarrow> string \<Rightarrow> nat \<Rightarrow> 'r evfs \<Rightarrow> (nat, 'r) evfs_result" where
  "evfs_write k plainData off s =
     (let c = ctx s in
      case m_module c of
        None \<Rightarrow> do {
          (ret, s) \<leftarrow> std_file_write plainData off s;
          Some (if ret = int (length plainData) then Ret (length plainData) else Throw EvfsException, s) }
      | Some m \<Rightarrow> do {
          _ \<leftarrow> require (mChunkSize c \<noteq> 0);
          let finalFileSize = max (mFileSize c) (u64 (int (length plainData + off)));
          let data = replicate (off - mFileSize c) NUL @ plainData;
          let off = min off (mFileSize c);
          let firstChunk = getChunkIndex c off;
          let lastChunk = getChunkIndex c (u64 (int off + int (length data) - 1));
          let rawDataSize = chunk_span firstChunk lastChunk * rawChunkSizeGet c m;
          let readOffset = off - off mod mChunkSize c;
          andthen (read_overwritten readOffset rawDataSize firstChunk m s) (\<lambda>rawData s.
          andthen (prepend_plain k m readOffset off firstChunk rawData data s) (\<lambda>data s.
          andthen (append_plain k m readOffset firstChunk lastChunk rawData data s) (\<lambda>data s.
          andthen (encrypt_all k m firstChunk rawData data s) (\<lambda>updatedRawData s.
          write_raw k m firstChunk finalFileSize (length plainData) updatedRawData s)))) })"

section \<open>Truncating\<close>

text \<open>The last chunk that is kept in part is cut and encrypted again.\<close>

definition cut_last_chunk :: "'r crypto \<Rightarrow> evfs_module \<Rightarrow> nat \<Rightarrow> 'r evfs \<Rightarrow> (unit, 'r) evfs_result" where
  "cut_last_chunk k m newSize s = do {
     let c = ctx s;
     let i = getChunkIndex c newSize;
     let rc = rawChunkSizeGet c m;
     ((readSize, rawData), s) \<leftarrow> std_file_read rc (getChunkOffset c m i) s;
     if readSize < 0 then Some (Throw StdException, s)
     else do {
       x \<leftarrow> decryptChunk k m i (take rc rawData);
       case x of
         Throw e \<Rightarrow> Some (Throw e, s)
       | Ret plainLastChunk \<Rightarrow> do {
           let n = newSize mod mChunkSize c;
           let cut = take n plainLastChunk @ replicate (n - length plainLastChunk) NUL;
           (y, r) \<leftarrow> reencryptChunk k m i rawData cut (rng s);
           let s = s\<lparr>rng := r\<rparr>;
           case y of
             Throw e \<Rightarrow> Some (Throw e, s)
           | Ret rawData \<Rightarrow> do {
               (ret, s) \<leftarrow> std_file_write rawData (getChunkOffset c m i) s;
               Some (if ret \<noteq> int (length rawData) then Throw EvfsException else Ret (), s) } } } }"

definition evfs_truncate :: "'r crypto \<Rightarrow> nat \<Rightarrow> 'r evfs \<Rightarrow> (unit, 'r) evfs_result" where
  "evfs_truncate k newSize s =
     (case m_module (ctx s) of
        None \<Rightarrow> do { (_, s) \<leftarrow> std_file_truncate (to_off_t newSize) s; Some (Ret (), s) }
      | Some m \<Rightarrow>
          if mFileSize (ctx s) < newSize then andthen (evfs_write k [] newSize s) (\<lambda>_ s. Some (Ret (), s))
          else if mFileSize (ctx s) > newSize
          then do {
            _ \<leftarrow> require (mChunkSize (ctx s) \<noteq> 0);
            andthen (if newSize mod mChunkSize (ctx s) \<noteq> 0 then cut_last_chunk k m newSize s else Some (Ret (), s)) (\<lambda>_ s. do {
              let s = set_ctx (\<lambda>c. c\<lparr>mFileSize := newSize\<rparr>) s;
              rawSize \<leftarrow> rawFileSizeGet (ctx s) m;
              (_, s) \<leftarrow> std_file_truncate (to_off_t rawSize) s;
              writeHeader k s }) }
          else Some (Ret (), s))"

section \<open>Opening\<close>

definition os_remove :: "string \<Rightarrow> os \<Rightarrow> os" where
  "os_remove name w = w\<lparr>files := (files w)(name := None)\<rparr>"

definition os_rename :: "string \<Rightarrow> string \<Rightarrow> os \<Rightarrow> os" where
  "os_rename old new w =
     (case files w old of None \<Rightarrow> w | Some c \<Rightarrow> w\<lparr>files := (files w)(new \<mapsto> c, old := None)\<rparr>)"

definition file_close_sys :: "os bctbx_vfs_file_t option \<Rightarrow> 'r evfs \<Rightarrow> 'r evfs option" where
  "file_close_sys f s = do {
     (_, _, w) \<leftarrow> bctbx_file_close f (sys s);
     Some (s\<lparr>sys := w\<rparr>) }"

text \<open>The loop that encrypts a plain file into the temporary one.\<close>

partial_function (option) migrate_loop ::
    "'r crypto \<Rightarrow> evfs_module \<Rightarrow> os bctbx_vfs_file_t option \<Rightarrow> nat \<Rightarrow> nat \<Rightarrow> 'r evfs \<Rightarrow>
     (os bctbx_vfs_file_t option, 'r) evfs_result" where
  "migrate_loop k m stdFdTmp index currentChunkIndex s = do {
     ((readSize, readBuf), s) \<leftarrow> std_file_read (mChunkSize (ctx s)) index s;
     if readSize < 0 then do { s \<leftarrow> file_close_sys stdFdTmp s; Some (Throw EvfsException, s) }
     else do {
       let index = u64 (int index + readSize);
       (x, r) \<leftarrow> encryptChunk k m currentChunkIndex readBuf (rng s);
       let s = s\<lparr>rng := r\<rparr>;
       case x of
         Throw e \<Rightarrow> Some (Throw e, s)
       | Ret rawChunk \<Rightarrow> do {
           (ret, stdFdTmp, w) \<leftarrow> bctbx_file_write stdFdTmp rawChunk
             (to_off_t (getChunkOffset (ctx s) m currentChunkIndex)) (sys s);
           let s = s\<lparr>sys := w\<rparr>;
           if ret \<noteq> int (length rawChunk) then do { s \<leftarrow> file_close_sys stdFdTmp s; Some (Throw EvfsException, s) }
           else if index < mFileSize (ctx s) then migrate_loop k m stdFdTmp index (u32 (currentChunkIndex + 1)) s
           else Some (Ret stdFdTmp, s) } } }"

definition migrate :: "'r crypto \<Rightarrow> evfs_module \<Rightarrow> int \<Rightarrow> 'r evfs \<Rightarrow> (unit, 'r) evfs_result" where
  "migrate k m openFlags s = do {
     let filename = mFilename (ctx s);
     let tmpFilename = filename @ ''.evfs_tmp'';
     let (stdFdTmp, w) = bctbx_file_open2 (Some bcStandardVfs_obj) (Some tmpFilename) (O_WRONLY OR O_CREAT)
       (os_remove tmpFilename (sys s));
     andthen (migrate_loop k m stdFdTmp 0 0 (s\<lparr>sys := w\<rparr>)) (\<lambda>stdFdTmp s.
     andthen (writeHeader_to k stdFdTmp s) (\<lambda>stdFdTmp s. do {
       s \<leftarrow> file_close_sys stdFdTmp s;
       s \<leftarrow> file_close_sys (pFileStd (ctx s)) s;
       let w = os_rename tmpFilename filename (os_remove filename (sys s));
       let (f, w) = bctbx_file_open2 (Some bcStandardVfs_obj) (Some filename) openFlags w;
       Some (Ret (), s\<lparr>ctx := (ctx s)\<lparr>mEncryptExistingPlainFile := False, pFileStd := f\<rparr>, sys := w\<rparr>) })) }"

text \<open>The check of the chunks from the last one down to chunk 1.\<close>

fun full_check :: "'r crypto \<Rightarrow> evfs_module \<Rightarrow> nat \<Rightarrow> 'r evfs \<Rightarrow> (unit, 'r) evfs_result" where
  "full_check k m 0 s = Some (Ret (), s)"
| "full_check k m (Suc n) s = do {
     ((readSize, rawData), s) \<leftarrow> std_file_read (rawChunkSizeGet (ctx s) m) (getChunkOffset (ctx s) m (Suc n)) s;
     if readSize < 0 then Some (Throw EvfsException, s)
     else do {
       x \<leftarrow> decryptChunk k m (Suc n) rawData;
       case x of Throw e \<Rightarrow> Some (Throw e, s) | Ret _ \<Rightarrow> full_check k m n s } }"

definition check_existing :: "'r crypto \<Rightarrow> evfs_module \<Rightarrow> 'r evfs \<Rightarrow> (unit, 'r) evfs_result" where
  "check_existing k m s =
     (if mFileSize (ctx s) > 0
      then do {
        ok \<leftarrow> checkIntegrity k m (r_header (ctx s));
        case ok of
          Throw e \<Rightarrow> Some (Throw e, s)
        | Ret False \<Rightarrow> Some (Throw EvfsException, s)
        | Ret True \<Rightarrow>
            if mIntegrityFullCheck (ctx s)
            then andthen (full_check k m (getChunkIndex (ctx s) (mFileSize (ctx s))) s) (\<lambda>_ s. writeHeader k s)
            else Some (Ret (), s) }
      else Some (Ret (), s))"

definition new_ctx :: "os bctbx_vfs_file_t \<Rightarrow> string \<Rightarrow> int \<Rightarrow> VfsEncryption" where
  "new_ctx stdFp filename accessMode = \<lparr>mVersionNumber = BcEncFS_v0100, mChunkSize = 0, m_module = None,
     mHeaderExtensionSize = 0, mFilename = filename, mFileSize = 0, r_header = [],
     mEncryptExistingPlainFile = False, mIntegrityFullCheck = False, mAccessMode = accessMode, pFileStd = Some stdFp\<rparr>"

text \<open>What the constructor does once the callback has made its settings.\<close>

definition after_settings :: "'r crypto \<Rightarrow> int \<Rightarrow> bool \<Rightarrow> 'r evfs \<Rightarrow> (unit, 'r) evfs_result" where
  "after_settings k openFlags createFile s =
     (case m_module (ctx s) of
        None \<Rightarrow> Some (Ret (), s)
      | Some m \<Rightarrow>
          (let s = set_ctx (\<lambda>c. c\<lparr>mChunkSize := (if mChunkSize c = 0 then defaultChunkSize else mChunkSize c)\<rparr>) s in
           andthen (if mEncryptExistingPlainFile (ctx s) then migrate k m openFlags s else check_existing k m s) (\<lambda>_ s.
             if createFile then writeHeader k s else Some (Ret (), s))))"

definition VfsEncryption_new ::
    "'r crypto \<Rightarrow> 'r EncryptedVfsOpenCb option \<Rightarrow> os bctbx_vfs_file_t \<Rightarrow> string \<Rightarrow> int \<Rightarrow> int \<Rightarrow> os \<Rightarrow> 'r \<Rightarrow>
     (unit, 'r) evfs_result" where
  "VfsEncryption_new k s_openCallback stdFp filename openFlags accessMode w r = do {
     let s = \<lparr>ctx = new_ctx stdFp filename accessMode, sys = w, rng = r\<rparr>;
     (ret, s) \<leftarrow> std_file_size s;
     andthen (if ret > 0 then parseHeader s else Some (Ret (), s)) (\<lambda>_ s.
     andthen (case s_openCallback of None \<Rightarrow> Some (Throw EvfsException, s) | Some f \<Rightarrow> f s) (\<lambda>_ s.
       after_settings k openFlags (\<not> ret > 0) s)) }"

section \<open>The callbacks of the virtual file system\<close>

text \<open>
  The objects of the open files.  \<open>aborted\<close>: a callback left the defined behaviour, or let an exception
  escape into C code.
\<close>

record 'r eworld =
  esys :: os
  erng :: 'r
  ctxs :: "nat \<Rightarrow> VfsEncryption option"
  next_ctx :: nat
  aborted :: bool

definition with_ctx :: "ptr \<Rightarrow> 'b \<Rightarrow> ('r evfs \<Rightarrow> ('b, 'r) evfs_result) \<Rightarrow> bool \<Rightarrow> 'r eworld \<Rightarrow> 'b \<times> 'r eworld" where
  "with_ctx ud err f catches w =
     (case ud of
        None \<Rightarrow> (err, w)
      | Some a \<Rightarrow>
          (case ctxs w a of
             None \<Rightarrow> (err, w\<lparr>aborted := True\<rparr>)
           | Some c \<Rightarrow>
               (case f \<lparr>ctx = c, sys = esys w, rng = erng w\<rparr> of
                  None \<Rightarrow> (err, w\<lparr>aborted := True\<rparr>)
                | Some (r, s) \<Rightarrow>
                    (let w = w\<lparr>esys := sys s, erng := rng s, ctxs := (ctxs w)(a \<mapsto> ctx s)\<rparr> in
                     case r of
                       Ret x \<Rightarrow> (x, w)
                     | Throw e \<Rightarrow> (err, if catches \<and> e = EvfsException then w else w\<lparr>aborted := True\<rparr>)))))"

definition evfs_bcClose :: "ptr \<Rightarrow> 'r eworld \<Rightarrow> int \<times> 'r eworld" where
  "evfs_bcClose ud w =
     (case ud of
        None \<Rightarrow> (BCTBX_VFS_OK, w)
      | Some a \<Rightarrow>
          (case ctxs w a of
             None \<Rightarrow> (BCTBX_VFS_OK, w\<lparr>aborted := True\<rparr>)
           | Some c \<Rightarrow>
               (case (if pFileStd c = None then Some (esys w)
                      else map_option (\<lambda>(_, _, s). s) (bctbx_file_close (pFileStd c) (esys w))) of
                  None \<Rightarrow> (BCTBX_VFS_OK, w\<lparr>aborted := True\<rparr>)
                | Some s \<Rightarrow> (BCTBX_VFS_OK, w\<lparr>esys := s, ctxs := (ctxs w)(a := None)\<rparr>))))"

definition evfs_bcSync :: "ptr \<Rightarrow> 'r eworld \<Rightarrow> int \<times> 'r eworld" where
  "evfs_bcSync ud w =
     with_ctx ud BCTBX_VFS_ERROR (\<lambda>s. do {
       (ret, f, sy) \<leftarrow> bctbx_file_sync (pFileStd (ctx s)) (sys s);
       Some (Ret ret, s\<lparr>ctx := (ctx s)\<lparr>pFileStd := f\<rparr>, sys := sy\<rparr>) }) False w"

definition evfs_bcRead :: "'r crypto \<Rightarrow> ptr \<Rightarrow> nat \<Rightarrow> int \<Rightarrow> 'r eworld \<Rightarrow> int \<times> string \<times> 'r eworld" where
  "evfs_bcRead k ud cnt off w =
     (let ((r, d), w) = with_ctx ud (BCTBX_VFS_ERROR, []) (\<lambda>s.
         andthen (evfs_read k (u64 off) cnt s) (\<lambda>d s. Some (Ret (int (length d), d), s))) True w
      in (r, d, w))"

definition evfs_bcWrite :: "'r crypto \<Rightarrow> ptr \<Rightarrow> string \<Rightarrow> int \<Rightarrow> 'r eworld \<Rightarrow> int \<times> 'r eworld" where
  "evfs_bcWrite k ud buf off w =
     (if off < 0 then (BCTBX_VFS_ERROR, w)
      else with_ctx ud BCTBX_VFS_ERROR (\<lambda>s.
        andthen (evfs_write k buf (nat off) s) (\<lambda>n s. Some (Ret (int n), s))) False w)"

definition evfs_bcFileSize :: "ptr \<Rightarrow> 'r eworld \<Rightarrow> int \<times> 'r eworld" where
  "evfs_bcFileSize ud w =
     with_ctx ud BCTBX_VFS_ERROR (\<lambda>s. do { (n, s) \<leftarrow> fileSizeGet s; Some (Ret n, s) }) False w"

definition evfs_bcTruncate :: "'r crypto \<Rightarrow> ptr \<Rightarrow> int \<Rightarrow> 'r eworld \<Rightarrow> int \<times> 'r eworld" where
  "evfs_bcTruncate k ud new_size w =
     (if new_size < 0 then (BCTBX_VFS_ERROR, w)
      else with_ctx ud BCTBX_VFS_ERROR (\<lambda>s.
        andthen (evfs_truncate k (nat new_size) s) (\<lambda>_ s. Some (Ret 0, s))) False w)"

definition evfs_bcIsEncrypted :: "ptr \<Rightarrow> 'r eworld \<Rightarrow> bool" where
  "evfs_bcIsEncrypted ud w =
     (case Option.bind ud (ctxs w) of None \<Rightarrow> False | Some c \<Rightarrow> encryptionSuiteGet c \<noteq> plain)"

definition evfs_bcio :: "'r crypto \<Rightarrow> 'r eworld bctbx_io_methods_t" where
  "evfs_bcio k = \<lparr>pFuncClose = evfs_bcClose, pFuncRead = evfs_bcRead k, pFuncWrite = evfs_bcWrite k,
     pFuncTruncate = evfs_bcTruncate k, pFuncFileSize = evfs_bcFileSize, pFuncSync = evfs_bcSync,
     pFuncGetLineFromFd = None, pFuncIsEncrypted = Some evfs_bcIsEncrypted\<rparr>"

definition evfs_bcOpen ::
    "'r crypto \<Rightarrow> 'r EncryptedVfsOpenCb option \<Rightarrow> string option \<Rightarrow> int \<Rightarrow> 'r eworld bctbx_vfs_file_t \<Rightarrow> 'r eworld \<Rightarrow>
     int \<times> 'r eworld bctbx_vfs_file_t \<times> 'r eworld" where
  "evfs_bcOpen k s_openCallback fName openFlags pFile w =
     (case fName of
        None \<Rightarrow> (BCTBX_VFS_ERROR, pFile, w)
      | Some filename \<Rightarrow>
          (let accessMode = openFlags AND 3;
               openFlags = (if accessMode = O_WRONLY then (openFlags AND NOT 3) OR O_RDWR else openFlags);
               (stdFp, sy) = bctbx_file_open2 (Some bcStandardVfs_obj) (Some filename) openFlags (esys w)
           in case stdFp of
                None \<Rightarrow> (BCTBX_VFS_ERROR, pFile, w\<lparr>esys := sy\<rparr>)
              | Some f \<Rightarrow>
                  (let pFile = pFile\<lparr>pMethods := Some (evfs_bcio k)\<rparr> in
                   case VfsEncryption_new k s_openCallback f filename openFlags accessMode sy (erng w) of
                     None \<Rightarrow> (BCTBX_VFS_ERROR, pFile, w\<lparr>aborted := True\<rparr>)
                   | Some (Ret _, s) \<Rightarrow>
                       (BCTBX_VFS_OK, pFile\<lparr>pUserData := Some (next_ctx w)\<rparr>,
                        w\<lparr>esys := sys s, erng := rng s, ctxs := (ctxs w)(next_ctx w \<mapsto> ctx s), next_ctx := Suc (next_ctx w)\<rparr>)
                   | Some (Throw e, s) \<Rightarrow>
                       (case (if e = EvfsException then bctbx_file_close (pFileStd (ctx s)) (sys s) else None) of
                          None \<Rightarrow> (BCTBX_VFS_ERROR, pFile, w\<lparr>aborted := True\<rparr>)
                        | Some (_, _, sy) \<Rightarrow> (BCTBX_VFS_ERROR, pFile, w\<lparr>esys := sy, erng := rng s\<rparr>)))))"

definition bcEncryptedVfs :: "'r crypto \<Rightarrow> 'r EncryptedVfsOpenCb option \<Rightarrow> 'r eworld bctbx_vfs_t" where
  "bcEncryptedVfs k s_openCallback =
     \<lparr>vfsName = ''bctbx_encrypted_vfs'', pFuncOpen = evfs_bcOpen k s_openCallback\<rparr>"

end
