(* ===== verification/EvfsContract.thy ===== *)
theory EvfsContract
  imports Evfs
begin

text \<open>
  The encrypted file system keeps a content: what the file on disk holds (\<open>image\<close>), what an open object knows of
  it (\<open>evfs_ok\<close>), and that reading, writing and truncating act on the content as on a plain file.
\<close>

section \<open>The handle of the standard file system\<close>

definition std_handle :: "string \<Rightarrow> os bctbx_vfs_file_t \<Rightarrow> os \<Rightarrow> string \<Rightarrow> bool" where
  "std_handle path f w F \<longleftrightarrow> pMethods f = Some bcio \<and> fSize f = 0 \<and> std_ready path w (pUserData f) \<and>
     std_content w (pUserData f) = F"

lemma flush_empty: "fSize f = 0 \<Longrightarrow> bctbx_file_flush (Some f) w = Some (0, Some f, w)"
  by (simp add: bctbx_file_flush.simps)

lemma std_handle_size:
  assumes "std_handle path f w F"
  shows "\<exists>w'. bctbx_file_size (Some f) w = Some (int (length F), Some f, w') \<and> std_handle path f w' F"
proof -
  have h: "std_ready path w (pUserData f)" "std_content w (pUserData f) = F" "pMethods f = Some bcio" "fSize f = 0"
    using assms by (auto simp: std_handle_def)
  from std.size_law [OF h(1)] h show ?thesis
    by (auto simp: bctbx_file_size_def with_flush_def flush_empty std_handle_def)
qed

lemma std_handle_read:
  assumes "std_handle path f w F"
  shows "\<exists>w'. bctbx_file_read (Some f) n (int off) w =
      Some (int (length (take n (drop off F))), take n (drop off F), Some f, w') \<and> std_handle path f w' F"
proof -
  have h: "std_ready path w (pUserData f)" "std_content w (pUserData f) = F" "pMethods f = Some bcio" "fSize f = 0"
    using assms by (auto simp: std_handle_def)
  from std.read_law [OF h(1) TrueI, of n off] h show ?thesis
    by (auto simp: bctbx_file_read_def with_flush_def flush_empty std_handle_def)
qed

lemma std_handle_write:
  assumes "std_handle path f w F"
  shows "\<exists>f' w'. bctbx_file_write (Some f) d (int off) w = Some (int (length d), Some f', w') \<and>
    std_handle path f' w' (splice F off d)"
proof -
  have h: "std_ready path w (pUserData f)" "std_content w (pUserData f) = F" "pMethods f = Some bcio" "fSize f = 0"
    using assms by (auto simp: std_handle_def)
  from std.write_law [OF h(1) TrueI, of d off] h show ?thesis
    by (auto simp: bctbx_file_write.simps flush_empty std_handle_def)
qed

lemma std_handle_truncate:
  assumes "std_handle path f w F"
  shows "\<exists>w'. bctbx_file_truncate (Some f) (int n) w = Some (0, Some f, w') \<and>
    std_handle path f w' (take n F @ replicate (n - length F) NUL)"
proof -
  obtain a k d where u: "pUserData f = Some a" "udata w a = Some (int k)" "fds w k = Some d" "ofd_path d = path"
      "ofd_flags d AND 3 = O_RDWR" "ofd_flags d AND O_APPEND = 0" "files w path \<noteq> None"
    and h: "pMethods f = Some bcio" "fSize f = 0" "std_content w (Some a) = F"
    using assms by (auto simp: std_handle_def std_ready_def)
  have F: "data_of w d = F" using h(3) u by (simp add: std_content_def ctx_fd_def get_fd_def)
  let ?w = "w\<lparr>files := (files w)(path \<mapsto> take n F @ replicate (n - length F) NUL)\<rparr>"
  have "bcTruncate (Some a) (int n) w = (0, ?w)"
    using u F by (simp add: bcTruncate_def sys_ftruncate_def ctx_fd_def get_fd_def O_RDWR_def O_RDONLY_def Let_def)
  then have "bctbx_file_truncate (Some f) (int n) w = Some (0, Some f, ?w)"
    using h u(1) by (simp add: bctbx_file_truncate_def with_flush_def flush_empty bcio_def)
  moreover have "std_handle path f ?w (take n F @ replicate (n - length F) NUL)"
    using u h by (auto simp: std_handle_def std_ready_def std_content_def ctx_fd_def get_fd_def data_of_def)
  ultimately show ?thesis by blast
qed

lemma std_handle_close:
  assumes "std_handle path f w F"
  shows "\<exists>w'. bctbx_file_close (Some f) w = Some (0, Freed (Some f), w') \<and> files w' path = Some F"
proof -
  have r: "files w path = Some F" using assms std_ready_content by (auto simp: std_handle_def)
  obtain a k d where u: "pUserData f = Some a" "udata w a = Some (int k)" "fds w k = Some d"
    using assms by (auto simp: std_handle_def std_ready_def)
  have "\<exists>w'. bcClose (pUserData f) w = (0, w') \<and> files w' path = Some F"
    using u r by (simp add: bcClose_def ctx_fd_def sys_close_def get_fd_def BCTBX_VFS_OK_def)
  then show ?thesis using assms
    by (auto simp: std_handle_def bctbx_file_close_def with_flush_def flush_empty bctbx_file_is_encrypted_def bcio_def)
qed

section \<open>The image of a content\<close>

definition header_bytes :: "evfs_module \<Rightarrow> nat \<Rightarrow> nat \<Rightarrow> nat \<Rightarrow> string" where
  "header_bytes m ver cs n = BCENCRYPTEDFS @ be_bytes 2 ver @ be_bytes 2 (suite_code (getEncryptionSuite m)) @
     be_bytes 2 (cs div 16) @ replicate 2 NUL @ be_bytes 8 n"

text \<open>\<open>F\<close> is a header and the chunks of \<open>c\<close>.\<close>

definition image :: "'r crypto \<Rightarrow> evfs_module \<Rightarrow> nat \<Rightarrow> nat \<Rightarrow> string \<Rightarrow> string \<Rightarrow> bool" where
  "image k m ver cs c F \<longleftrightarrow>
     (\<exists>mh R. getModuleFileHeader k m (header_bytes m ver cs (length c)) = Some (Ret mh) \<and>
        F = header_bytes m ver cs (length c) @ mh @ R \<and>
        stored (decryptChunk k m) (getChunkHeaderSize m) 0 (chunks cs c) R)"

text \<open>At most \<open>2 ^ 32 - 1\<close> chunks, of the smallest size.\<close>

definition evfs_limit :: nat where "evfs_limit = (2 ^ 32 - 1) * 16"

definition chunk_size_ok :: "nat \<Rightarrow> bool" where
  "chunk_size_ok cs \<longleftrightarrow> 16 \<le> cs \<and> cs \<le> 1048560 \<and> cs mod 16 = 0"

definition evfs_file :: "string \<Rightarrow> 'r evfs \<Rightarrow> string \<Rightarrow> bool" where
  "evfs_file path s F \<longleftrightarrow> (\<exists>f. pFileStd (ctx s) = Some f \<and> std_handle path f (sys s) F)"

definition evfs_params :: "'r crypto \<Rightarrow> evfs_module \<Rightarrow> nat \<Rightarrow> 'r evfs \<Rightarrow> bool" where
  "evfs_params k m cs s \<longleftrightarrow> m_module (ctx s) = Some m \<and> module_usable k m \<and> mChunkSize (ctx s) = cs \<and>
     chunk_size_ok cs \<and> mHeaderExtensionSize (ctx s) = 0 \<and> mVersionNumber (ctx s) < 2 ^ 16"

definition evfs_ok :: "'r crypto \<Rightarrow> string \<Rightarrow> evfs_module \<Rightarrow> nat \<Rightarrow> string \<Rightarrow> 'r evfs \<Rightarrow> bool" where
  "evfs_ok k path m cs c s \<longleftrightarrow>
     evfs_params k m cs s \<and> mFileSize (ctx s) = length c \<and> length c \<le> evfs_limit \<and>
     (\<exists>F. evfs_file path s F \<and> image k m (mVersionNumber (ctx s)) cs c F)"

lemma base_header_bytes:
  "base_header c m = header_bytes m (mVersionNumber c) (mChunkSize c) (mFileSize c)"
  by (simp add: base_header_def header_bytes_def)

lemma length_header_bytes [simp]: "length (header_bytes m ver cs n) = 29"
  by (simp add: header_bytes_def BCENCRYPTEDFS_def)

section \<open>Indexes and offsets in range\<close>

definition header_length :: "evfs_module \<Rightarrow> nat" where
  "header_length m = 29 + getModuleFileHeaderSize m"

definition raw_chunk :: "evfs_module \<Rightarrow> nat \<Rightarrow> nat" where
  "raw_chunk m cs = getChunkHeaderSize m + cs"

lemma module_sizes: "0 < getChunkHeaderSize m" "getChunkHeaderSize m \<le> 28" "getModuleFileHeaderSize m \<le> 48"
  by (cases m; simp add: dummy_sizes aes_sizes)+

lemma chunk_size_pos: "chunk_size_ok cs \<Longrightarrow> 0 < cs"
  by (simp add: chunk_size_ok_def)

lemma index_small:
  assumes "chunk_size_ok cs" "x < evfs_limit"
  shows "x div cs < 2 ^ 32 - 1"
proof -
  have "x div cs \<le> x div 16" using assms(1) by (intro div_le_mono2) (simp_all add: chunk_size_ok_def)
  also have "x div 16 < 2 ^ 32 - 1" using assms(2) by (intro less_mult_imp_div_less) (simp add: evfs_limit_def)
  finally show ?thesis .
qed

lemma chunks_bound: "chunk_size_ok cs \<Longrightarrow> length c \<le> evfs_limit \<Longrightarrow> length (chunks cs c) < 2 ^ 32"
proof -
  assume cs: "chunk_size_ok cs" and c: "length c \<le> evfs_limit"
  have "(2 ^ 32 - 1 :: nat) * 16 \<le> (2 ^ 32 - 1) * cs" using cs by (intro mult_le_mono2) (simp add: chunk_size_ok_def)
  with c have "length c \<le> (2 ^ 32 - 1) * cs" by (simp add: evfs_limit_def)
  then have "length (chunks cs c) \<le> 2 ^ 32 - 1" using length_chunks_le [OF chunk_size_pos [OF cs]] by blast
  then show ?thesis by simp
qed

lemma raw_offset_small:
  assumes "chunk_size_ok cs" "i \<le> 2 ^ 32"
  shows "header_length m + i * raw_chunk m cs < 2 ^ 63"
proof -
  have "i * raw_chunk m cs \<le> 2 ^ 32 * 1048588"
    using assms module_sizes(2) [of m] by (intro mult_le_mono) (simp_all add: chunk_size_ok_def raw_chunk_def)
  moreover have "header_length m \<le> 77" using module_sizes(3) [of m] by (simp add: header_length_def)
  ultimately have "header_length m + i * raw_chunk m cs \<le> 77 + 2 ^ 32 * 1048588" by (rule add_mono [rotated])
  then show ?thesis by simp
qed

lemma u64_small: "n < 2 ^ 64 \<Longrightarrow> u64 (int n) = n"
  by (simp add: u64_def)

lemma to_off_t_small: "n < 2 ^ 63 \<Longrightarrow> to_off_t n = int n"
  by (simp add: to_off_t_def)

lemma chunk_offset:
  assumes "chunk_size_ok cs" "i \<le> 2 ^ 32" "mChunkSize c = cs" "mHeaderExtensionSize c = 0"
  shows "getChunkOffset c m i = header_length m + i * raw_chunk m cs"
    "to_off_t (getChunkOffset c m i) = int (header_length m + i * raw_chunk m cs)"
proof -
  have sum: "rawChunkSizeGet c m * i + baseFileHeaderSize + mHeaderExtensionSize c + getModuleFileHeaderSize m =
      header_length m + i * raw_chunk m cs"
    using assms(3,4) by (simp add: rawChunkSizeGet_def raw_chunk_def header_length_def baseFileHeaderSize_def algebra_simps)
  show "getChunkOffset c m i = header_length m + i * raw_chunk m cs"
    unfolding getChunkOffset_def sum by (rule u64_small) (use raw_offset_small [OF assms(1,2), of m] in simp)
  with raw_offset_small [OF assms(1,2), of m]
  show "to_off_t (getChunkOffset c m i) = int (header_length m + i * raw_chunk m cs)" by (simp add: to_off_t_small)
qed

lemma chunk_index:
  "chunk_size_ok cs \<Longrightarrow> x < evfs_limit \<Longrightarrow> mChunkSize c = cs \<Longrightarrow> getChunkIndex c x = x div cs"
  using index_small [of cs x] by (simp add: getChunkIndex_def u32_def)

lemma chunk_span_eq: "i \<le> j \<Longrightarrow> j < 2 ^ 32 - 1 \<Longrightarrow> chunk_span i j = j - i + 1"
proof -
  assume a: "i \<le> j" "j < 2 ^ 32 - 1"
  then have "(int j - int i + 1) mod 2 ^ 32 = int (j - i + 1)" by (simp add: mod_pos_pos_trivial of_nat_diff)
  then show ?thesis by (simp add: chunk_span_def)
qed

section \<open>The file below, seen from an object\<close>

lemma file_read:
  assumes "evfs_file path s F" "off < 2 ^ 63"
  shows "\<exists>w. std_file_read n off s =
      Some ((int (length (take n (drop off F))), take n (drop off F)), s\<lparr>sys := w\<rparr>) \<and>
    evfs_file path (s\<lparr>sys := w\<rparr>) F"
proof -
  obtain f where f: "pFileStd (ctx s) = Some f" "std_handle path f (sys s) F"
    using assms(1) by (auto simp: evfs_file_def)
  obtain w where w: "bctbx_file_read (Some f) n (int off) (sys s) =
      Some (int (length (take n (drop off F))), take n (drop off F), Some f, w)" "std_handle path f w F"
    using std_handle_read [OF f(2), of n off] by blast
  have "(ctx s)\<lparr>pFileStd := Some f\<rparr> = ctx s" using f(1) by simp
  with f w show ?thesis
    by (intro exI [of _ w]) (simp add: std_file_read_def to_off_t_small [OF assms(2)] evfs_file_def)
qed

lemma file_write:
  assumes "evfs_file path s F" "off < 2 ^ 63"
  shows "\<exists>f w. std_file_write d off s = Some (int (length d), s\<lparr>ctx := (ctx s)\<lparr>pFileStd := Some f\<rparr>, sys := w\<rparr>) \<and>
    std_handle path f w (splice F off d)"
proof -
  obtain f where f: "pFileStd (ctx s) = Some f" "std_handle path f (sys s) F"
    using assms(1) by (auto simp: evfs_file_def)
  obtain f' w where w: "bctbx_file_write (Some f) d (int off) (sys s) = Some (int (length d), Some f', w)"
    "std_handle path f' w (splice F off d)"
    using std_handle_write [OF f(2), of d off] by blast
  with f(1) show ?thesis
    by (intro exI [of _ f'] exI [of _ w]) (simp add: std_file_write_def to_off_t_small [OF assms(2)])
qed

lemma file_truncate:
  assumes "evfs_file path s F" "n < 2 ^ 63"
  shows "\<exists>w. std_file_truncate (to_off_t n) s = Some (0, s\<lparr>sys := w\<rparr>) \<and>
    evfs_file path (s\<lparr>sys := w\<rparr>) (take n F @ replicate (n - length F) NUL)"
proof -
  obtain f where f: "pFileStd (ctx s) = Some f" "std_handle path f (sys s) F"
    using assms(1) by (auto simp: evfs_file_def)
  obtain w where w: "bctbx_file_truncate (Some f) (int n) (sys s) = Some (0, Some f, w)"
    "std_handle path f w (take n F @ replicate (n - length F) NUL)"
    using std_handle_truncate [OF f(2), of n] by blast
  have "(ctx s)\<lparr>pFileStd := Some f\<rparr> = ctx s" using f(1) by simp
  with f w show ?thesis
    by (intro exI [of _ w]) (simp add: std_file_truncate_def to_off_t_small [OF assms(2)] evfs_file_def)
qed

section \<open>The parts of an image\<close>

lemma image_parts:
  assumes "image k m ver cs c F" "module_usable k m"
  obtains H R where "F = H @ R" "length H = header_length m"
    "stored (decryptChunk k m) (getChunkHeaderSize m) 0 (chunks cs c) R"
proof -
  obtain mh R where r: "getModuleFileHeader k m (header_bytes m ver cs (length c)) = Some (Ret mh)"
    "F = (header_bytes m ver cs (length c) @ mh) @ R"
    "stored (decryptChunk k m) (getChunkHeaderSize m) 0 (chunks cs c) R"
    using assms(1) by (auto simp: image_def)
  with module_header [OF assms(2), of "header_bytes m ver cs (length c)"]
  have "length (header_bytes m ver cs (length c) @ mh) = header_length m" by (auto simp: header_length_def)
  from that [OF r(2) this r(3)] show ?thesis .
qed

lemma evfs_paramsD:
  assumes "evfs_params k m cs s"
  shows "m_module (ctx s) = Some m" "module_usable k m" "mChunkSize (ctx s) = cs" "chunk_size_ok cs"
    "mHeaderExtensionSize (ctx s) = 0" "rawChunkSizeGet (ctx s) m = raw_chunk m cs" "0 < cs"
    "mVersionNumber (ctx s) < 2 ^ 16"
  using assms by (auto simp: evfs_params_def rawChunkSizeGet_def raw_chunk_def intro: chunk_size_pos)

lemma evfs_params_sys [simp]:
  "evfs_params k m cs (s\<lparr>sys := w\<rparr>) = evfs_params k m cs s"
  "evfs_params k m cs (s\<lparr>rng := r\<rparr>) = evfs_params k m cs s"
  "evfs_params k m cs (s\<lparr>ctx := (ctx s)\<lparr>pFileStd := p\<rparr>\<rparr>) = evfs_params k m cs s"
  "evfs_params k m cs (s\<lparr>ctx := (ctx s)\<lparr>mFileSize := n\<rparr>\<rparr>) = evfs_params k m cs s"
  by (simp_all add: evfs_params_def)

section \<open>Reading\<close>

text \<open>The chunks that hold the bytes from \<open>off\<close> to \<open>off + n\<close>.\<close>

lemma span_arith:
  fixes cs off n :: nat
  assumes "0 < cs" "0 < n" "off + n \<le> evfs_limit" "chunk_size_ok cs"
  defines "N \<equiv> (off + n - 1) div cs - off div cs + 1"
  shows "off div cs + N \<le> 2 ^ 32 - 1" "off mod cs + n \<le> N * cs" "N * cs < off mod cs + n + cs"
    "chunk_span (off div cs) ((off + n - 1) div cs) = N"
proof -
  have le: "off div cs \<le> (off + n - 1) div cs" using assms(2) by (intro div_le_mono) simp
  have small: "(off + n - 1) div cs < 2 ^ 32 - 1" using assms(2,3) by (intro index_small [OF assms(4)]) simp
  have N: "off div cs + N = (off + n - 1) div cs + 1" using le by (simp add: N_def)
  with small show "off div cs + N \<le> 2 ^ 32 - 1" by simp
  show "chunk_span (off div cs) ((off + n - 1) div cs) = N"
    using chunk_span_eq [OF le small] by (simp add: N_def)
  have o: "off div cs * cs + off mod cs = off" by simp
  have q: "(off + n - 1) div cs * cs + (off + n - 1) mod cs = off + n - 1" by simp
  have r: "(off + n - 1) mod cs < cs" using assms(1) by simp
  have NN: "off div cs * cs + N * cs = (off + n - 1) div cs * cs + cs"
    using arg_cong [OF N, of "\<lambda>x. x * cs"] by (simp add: add_mult_distrib)
  show "off mod cs + n \<le> N * cs" "N * cs < off mod cs + n + cs" using o q r NN assms(2) by linarith+
qed

lemma evfs_read_ok:
  assumes "evfs_ok k path m cs c s" "0 < n" "off + n \<le> evfs_limit"
  shows "\<exists>w. evfs_read k off n s = Some (Ret (take n (drop off c)), s\<lparr>sys := w\<rparr>) \<and> evfs_ok k path m cs c (s\<lparr>sys := w\<rparr>)"
proof -
  from assms(1) obtain F where e: "evfs_params k m cs s" "evfs_file path s F" "image k m (mVersionNumber (ctx s)) cs c F"
    by (auto simp: evfs_ok_def)
  note p = evfs_paramsD [OF e(1)]
  obtain H R where F: "F = H @ R" "length H = header_length m"
    "stored (decryptChunk k m) (getChunkHeaderSize m) 0 (chunks cs c) R"
    using image_parts [OF e(3) p(2)] .
  let ?a = "off div cs"
  obtain N where N: "N = (off + n - 1) div cs - off div cs + 1" by blast
  note sp = span_arith [OF p(7) assms(2,3) p(4), folded N]
  have lim: "off < evfs_limit" "off + n - 1 < evfs_limit" using assms(2,3) by simp_all
  have ix: "getChunkIndex (ctx s) off = ?a" "getChunkIndex (ctx s) (off + n - 1) = (off + n - 1) div cs"
    using chunk_index [OF p(4) _ p(3)] lim by simp_all
  have u: "u64 (int off + int n - 1) = off + n - 1"
  proof -
    have "int off + int n - 1 = int (off + n - 1)" using assms(2) by simp
    moreover have "off + n - 1 < 2 ^ 64" using lim(2) by (simp add: evfs_limit_def)
    ultimately show ?thesis by (simp only: u64_small)
  qed
  have a: "?a \<le> 2 ^ 32" using sp(1) by simp
  note co = chunk_offset [OF p(4) a p(3,5), of m]
  obtain w where w: "std_file_read (N * raw_chunk m cs) (getChunkOffset (ctx s) m ?a) s =
      Some ((int (length (take (N * raw_chunk m cs) (drop (?a * raw_chunk m cs) R))),
        take (N * raw_chunk m cs) (drop (?a * raw_chunk m cs) R)), s\<lparr>sys := w\<rparr>)"
    "evfs_file path (s\<lparr>sys := w\<rparr>) F"
    using file_read [OF e(2) raw_offset_small [OF p(4) a], of "N * raw_chunk m cs" m] F(1,2) co(1) by auto
  let ?P = "take (N * cs) (drop (?a * cs) c)"
  have st: "stored (decryptChunk k m) (getChunkHeaderSize m) ?a (chunks cs ?P)
      (take (N * raw_chunk m cs) (drop (?a * raw_chunk m cs) R))"
    using stored_take [OF stored_drop [OF F(3) p(7), of ?a] p(7), of N] by (simp add: raw_chunk_def)
  have "length (chunks cs ?P) \<le> N" by (simp add: length_chunks_le [OF p(7)])
  then have "?a + length (chunks cs ?P) \<le> 2 ^ 32" using sp(1) by linarith
  from decrypt_loop_stored [OF st p(7) this]
  have d: "decrypt_loop (decryptChunk k m) (getChunkHeaderSize m) (raw_chunk m cs) ?a
      (take (N * raw_chunk m cs) (drop (?a * raw_chunk m cs) R)) = Some (Ret ?P)"
    by (simp add: raw_chunk_def)
  have "take n (drop (off mod cs) ?P) = take n (drop off c)"
    using sp(2) by (simp add: drop_take add.commute min_def)
  moreover have "evfs_ok k path m cs c (s\<lparr>sys := w\<rparr>)" using assms(1) w(2) e(3) by (auto simp: evfs_ok_def)
  ultimately show ?thesis
    using p(1,3,6,7) w(1) d
    by (intro exI [of _ w]) (simp add: evfs_read_def ix(1) u [simplified] ix(2) [simplified] sp(4) [simplified])
qed

end
