(* ===== verification/EvfsWriting.thy ===== *)
theory EvfsWriting
  imports EvfsContract
begin

text \<open>
  Writing and truncating through an encrypted file: the stages of \<open>VfsEncryption::write\<close> one by one, and that
  the image on disk becomes that of the content written as in a plain file.
\<close>

section \<open>The content after a write\<close>

text \<open>As \<open>splice\<close>, but that writing nothing behind the end fills the gap.\<close>

definition overwrite :: "string \<Rightarrow> nat \<Rightarrow> string \<Rightarrow> string" where
  "overwrite c off d = take off c @ replicate (off - length c) NUL @ d @ drop (off + length d) c"

lemma overwrite_splice: "d \<noteq> [] \<Longrightarrow> overwrite c off d = splice c off d"
  by (simp add: overwrite_def splice_def)

lemma length_overwrite: "length (overwrite c off d) = max (length c) (length d + off)"
  by (auto simp: overwrite_def)

text \<open>
  The write in terms of the chunks it touches: \<open>C\<close> is what they hold, \<open>o\<close> the offset reduced to the end of
  the file.
\<close>

lemma drop_take_rest: "i \<le> n \<Longrightarrow> drop i (take n xs) @ drop n xs = drop i xs"
proof -
  assume i: "i \<le> n"
  have "drop i xs = drop i (take n xs @ drop n xs)" by simp
  also have "\<dots> = drop i (take n xs) @ drop n xs" using i by (cases "i \<le> length xs") (simp_all del: append_take_drop_id)
  finally show ?thesis by simp
qed

lemma overwrite_chunks:
  fixes cs n :: nat
  assumes "data = replicate (off - length c) NUL @ d" "p = min off (length c)" "0 < cs"
    "C = take (n * cs) (drop (p div cs * cs) c)" "p mod cs + length data \<le> n * cs"
  shows "take (p div cs * cs) c @ (take (p mod cs) C @ data @ drop (p mod cs + length data) C) @
      drop ((p div cs + n) * cs) c = overwrite c off d"
proof -
  let ?X = "drop (p div cs * cs) c"
  have p: "p div cs * cs + p mod cs = p" by simp
  have "take (p mod cs) C = take (p mod cs) ?X" using assms(4,5) by (simp add: min_def)
  then have h: "take (p div cs * cs) c @ take (p mod cs) C = take p c" using p by (metis take_add)
  have "drop (p mod cs + length data) C @ drop (n * cs) ?X = drop (p mod cs + length data) ?X"
    unfolding assms(4) by (rule drop_take_rest [OF assms(5)])
  moreover have "drop (n * cs) ?X = drop ((p div cs + n) * cs) c" by (simp add: algebra_simps)
  moreover have "drop (p mod cs + length data) ?X = drop (p + length data) c"
    using p by (metis add.assoc add.commute drop_drop)
  ultimately have "take (p div cs * cs) c @ (take (p mod cs) C @ data @ drop (p mod cs + length data) C) @
      drop ((p div cs + n) * cs) c = take p c @ data @ drop (p + length data) c"
    using h by (metis append.assoc)
  also have "\<dots> = overwrite c off d"
  proof (cases "off \<le> length c")
    case True then show ?thesis using assms(1,2) by (simp add: overwrite_def min_def)
  next
    case False then show ?thesis using assms(1,2) by (simp add: overwrite_def min_def)
  qed
  finally show ?thesis .
qed

section \<open>The stages of a write\<close>

text \<open>
  \<open>overwritten\<close>: \<open>raw\<close> holds the chunks from \<open>a\<close> on, with the content \<open>C\<close>.
\<close>

definition overwritten :: "'r crypto \<Rightarrow> evfs_module \<Rightarrow> nat \<Rightarrow> nat \<Rightarrow> string \<Rightarrow> string \<Rightarrow> bool" where
  "overwritten k m cs a C raw \<longleftrightarrow> stored (decryptChunk k m) (getChunkHeaderSize m) a (chunks cs C) raw"

lemma read_overwritten_ok:
  assumes "evfs_params k m cs s" "mFileSize (ctx s) = length c" "evfs_file path s (H @ R)" "length H = header_length m"
    "stored (decryptChunk k m) (getChunkHeaderSize m) 0 (chunks cs c) R" "a \<le> 2 ^ 32"
  shows "\<exists>w. read_overwritten (a * cs) (n * raw_chunk m cs) a m s =
      Some (Ret (take (n * raw_chunk m cs) (drop (a * raw_chunk m cs) R)), s\<lparr>sys := w\<rparr>) \<and>
    evfs_file path (s\<lparr>sys := w\<rparr>) (H @ R) \<and>
    overwritten k m cs a (take (n * cs) (drop (a * cs) c)) (take (n * raw_chunk m cs) (drop (a * raw_chunk m cs) R))"
proof -
  note p = evfs_paramsD [OF assms(1)]
  have st: "stored (decryptChunk k m) (getChunkHeaderSize m) a (chunks cs (drop (a * cs) c)) (drop (a * raw_chunk m cs) R)"
    using stored_drop [OF assms(5) p(7), of a] by (simp add: raw_chunk_def)
  from stored_take [OF this p(7), of n] have o: "overwritten k m cs a (take (n * cs) (drop (a * cs) c))
      (take (n * raw_chunk m cs) (drop (a * raw_chunk m cs) R))"
    by (simp add: overwritten_def raw_chunk_def)
  show ?thesis
  proof (cases "a * cs < length c")
    case True
    obtain w where "std_file_read (n * raw_chunk m cs) (getChunkOffset (ctx s) m a) s =
        Some ((int (length (take (n * raw_chunk m cs) (drop (a * raw_chunk m cs) R))),
          take (n * raw_chunk m cs) (drop (a * raw_chunk m cs) R)), s\<lparr>sys := w\<rparr>)"
      "evfs_file path (s\<lparr>sys := w\<rparr>) (H @ R)"
      using file_read [OF assms(3) raw_offset_small [OF p(4) assms(6)], of "n * raw_chunk m cs" m] assms(4)
        chunk_offset(1) [OF p(4) assms(6) p(3,5), of m] by auto
    with True o assms(2) show ?thesis by (intro exI [of _ w]) (simp add: read_overwritten_def)
  next
    case False
    then have "drop (a * raw_chunk m cs) R = []" using st by simp
    with False o assms(2,3) show ?thesis by (intro exI [of _ "sys s"]) (simp add: read_overwritten_def)
  qed
qed

lemma prepend_plain_ok:
  assumes "evfs_params k m cs s" "overwritten k m cs a C raw" "p = a * cs + q" "q < cs" "q \<le> length C"
  shows "prepend_plain k m (a * cs) p a raw data s = Some (Ret (take q C @ data), s)"
proof (cases "q = 0")
  case True then show ?thesis using assms(3) by (simp add: prepend_plain_def)
next
  case False
  note p = evfs_paramsD [OF assms(1)]
  have "C \<noteq> []" using False assms(5) by auto
  from first_raw(4) [OF assms(2) [unfolded overwritten_def] p(7) this]
  have "decryptChunk k m a (take (raw_chunk m cs) raw) = Some (Ret (take cs C))" by (simp add: raw_chunk_def)
  then show ?thesis using False assms(3,4,5) p(6) by (simp add: prepend_plain_def bind_require min_def)
qed

text \<open>The last one of the chunks that the data touches, where there is one to be completed.\<close>

lemma last_chunk:
  assumes "overwritten k m cs a C raw" "0 < cs" "length data = n * cs + t" "0 < t" "t < cs" "length data < length C"
    "length C \<le> Suc n * cs"
  shows "decryptChunk k m (a + n) (drop (n * raw_chunk m cs) raw) = Some (Ret (drop (n * cs) C))"
    "n * raw_chunk m cs \<le> length raw" "length raw \<le> Suc n * raw_chunk m cs"
proof -
  note st = assms(1) [unfolded overwritten_def]
  have d: "stored (decryptChunk k m) (getChunkHeaderSize m) (a + n) (chunks cs (drop (n * cs) C)) (drop (n * raw_chunk m cs) raw)"
    using stored_drop [OF st assms(2), of n] by (simp add: raw_chunk_def)
  have ne: "drop (n * cs) C \<noteq> []" using assms(3,4,6) by simp
  have sh: "take cs (drop (n * cs) C) = drop (n * cs) C" "drop cs (drop (n * cs) C) = []" using assms(7) by simp_all
  note f = first_raw [OF d assms(2) ne, unfolded sh, folded raw_chunk_def]
  have e: "drop (raw_chunk m cs) (drop (n * raw_chunk m cs) raw) = []" using f(5) by simp
  then have "take (raw_chunk m cs) (drop (n * raw_chunk m cs) raw) = drop (n * raw_chunk m cs) raw" by simp
  with f(4) show "decryptChunk k m (a + n) (drop (n * raw_chunk m cs) raw) = Some (Ret (drop (n * cs) C))" by simp
  show "n * raw_chunk m cs \<le> length raw" using f(3) by simp
  show "length raw \<le> Suc n * raw_chunk m cs" using e by simp
qed

lemma append_plain_ok:
  assumes "evfs_params k m cs s" "overwritten k m cs a C raw" "mFileSize (ctx s) = length c" "0 < n"
    "C = take (n * cs) (drop (a * cs) c)" "length data \<le> n * cs" "n * cs < length data + cs" "a + n \<le> 2 ^ 32 - 1"
  shows "append_plain k m (a * cs) a (a + n - 1) raw data s = Some (Ret (data @ drop (length data) C), s)"
proof (cases "length data mod cs \<noteq> 0 \<and> length data + a * cs < length c")
  case True
  note p = evfs_paramsD [OF assms(1)]
  obtain j where j: "n = Suc j" using assms(4) by (cases n) auto
  obtain t where t: "length data = j * cs + t" "0 < t" "t < cs"
  proof -
    have "j * cs < length data" "length data \<le> j * cs + cs" using assms(6,7) j by simp_all
    moreover have "length data \<noteq> j * cs + cs" 
    proof
      assume "length data = j * cs + cs"
      then have "length data mod cs = 0" by simp
      with True show False by simp
    qed
    ultimately show ?thesis using that [of "length data - j * cs"] by simp
  qed
  have tail: "length data mod cs = t" using t by simp
  have lC: "length data < length C" "length C \<le> Suc j * cs" using True t assms(5) j by simp_all
  note l = last_chunk [OF assms(2) p(7) t lC]
  have ix: "a + j \<le> 2 ^ 32" "u32 (a + j + 1) = a + Suc j" "a + Suc j \<le> 2 ^ 32" "a \<le> 2 ^ 32"
    using assms(8) j by (simp_all add: u32_def)
  note co = chunk_offset(1) [OF p(4) _ p(3,5), of _ m]
  have from_eq: "getChunkOffset (ctx s) m (a + j) - getChunkOffset (ctx s) m a = j * raw_chunk m cs"
    by (simp add: co [OF ix(1)] co [OF ix(4)] algebra_simps)
  have upto: "getChunkOffset (ctx s) m (u32 (a + j + 1)) - getChunkOffset (ctx s) m a = Suc j * raw_chunk m cs"
    unfolding ix(2) co [OF ix(3)] co [OF ix(4)] by (simp add: algebra_simps)
  have min: "min (Suc j * raw_chunk m cs) (length raw) = length raw" using l(3) by simp
  have "a + n - 1 = a + j" using j by simp
  moreover have "drop t (drop (j * cs) C) = drop (length data) C" using t(1) by (simp add: add.commute)
  moreover have "t \<le> length (drop (j * cs) C)" using lC t(1) by simp
  moreover have "drop (j * raw_chunk m cs) (take (length raw) raw) = drop (j * raw_chunk m cs) raw" by simp
  ultimately show ?thesis
    unfolding append_plain_def Let_def p(3) assms(3) tail
    using True t(2) l(1,2) by (simp only: from_eq upto min) (simp add: bind_require)
next
  case False
  note p = evfs_paramsD [OF assms(1)]
  have "drop (length data) C = []"
  proof (cases "length data mod cs = 0")
    case True
    then obtain j where j: "length data = j * cs" by (metis mod_0_imp_dvd dvdE mult.commute)
    have "j * cs \<le> n * cs" "n * cs < Suc j * cs" using assms(6,7) j by simp_all
    then have "j = n" using p(7) by (metis less_Suc_eq_le mult_le_cancel2 mult_less_cancel2 order_antisym)
    with j assms(5) show ?thesis by simp
  next
    case no: False
    with False have "length c \<le> length data + a * cs" by simp
    then show ?thesis using assms(5) by simp
  qed
  with False p(3) assms(3) show ?thesis by (auto simp: append_plain_def Let_def)
qed

lemma encrypt_all_ok:
  assumes "evfs_params k m cs s" "overwritten k m cs a C raw" "length C \<le> length P" "length P \<le> n * cs" "a + n \<le> 2 ^ 32"
  shows "\<exists>out r. encrypt_all k m a raw P s = Some (Ret out, s\<lparr>rng := r\<rparr>) \<and> overwritten k m cs a P out"
proof -
  note p = evfs_paramsD [OF assms(1)]
  have "length (chunks cs P) \<le> n" using length_chunks_le [OF p(7)] assms(4) by blast
  then have b: "a + length (chunks cs P) \<le> 2 ^ 32" using assms(5) by linarith
  obtain out1 j rest r1 out2 r2 where e:
    "reencrypt_loop (reencryptChunk k m) (getChunkHeaderSize m + cs) cs a raw P (rng s) = Some (Ret (out1, j, rest), r1)"
    "encrypt_loop (encryptChunk k m) cs j rest r1 = Some (Ret out2, r2)"
    "stored (decryptChunk k m) (getChunkHeaderSize m) a (chunks cs P) (out1 @ out2)"
    using evfs_modules.rewrite_chunks [OF p(2,7) assms(2) [unfolded overwritten_def] assms(3) b, of "rng s"] by blast
  then show ?thesis using p(3,6)
    by (intro exI [of _ "out1 @ out2"] exI [of _ r2]) (simp add: encrypt_all_def overwritten_def raw_chunk_def)
qed

lemma evfs_comm: "s\<lparr>sys := w, ctx := x\<rparr> = s\<lparr>ctx := x, sys := w\<rparr>"
  by simp

text \<open>The header is written over what was there.\<close>

lemma writeHeader_over:
  assumes "evfs_params k m cs s" "evfs_file path s F"
  shows "\<exists>f w h mh. writeHeader k s = Some (Ret (), s\<lparr>ctx := (ctx s)\<lparr>r_header := h, pFileStd := Some f\<rparr>, sys := w\<rparr>) \<and>
    std_handle path f w (h @ mh @ drop (header_length m) F) \<and> getModuleFileHeader k m h = Some (Ret mh) \<and>
    h = header_bytes m (mVersionNumber (ctx s)) cs (mFileSize (ctx s))"
proof -
  note p = evfs_paramsD [OF assms(1)]
  let ?h = "header_bytes m (mVersionNumber (ctx s)) cs (mFileSize (ctx s))"
  obtain mh where mh: "getModuleFileHeader k m ?h = Some (Ret mh)" "length mh = getModuleFileHeaderSize m"
    using module_header [OF p(2)] by blast
  obtain f0 where f0: "pFileStd (ctx s) = Some f0" "std_handle path f0 (sys s) F"
    using assms(2) by (auto simp: evfs_file_def)
  obtain f w where w: "bctbx_file_write (Some f0) (?h @ mh) 0 (sys s) = Some (int (length (?h @ mh)), Some f, w)"
    "std_handle path f w (splice F 0 (?h @ mh))"
    using std_handle_write [OF f0(2), of "?h @ mh" 0] by auto
  have "?h \<noteq> []" using length_header_bytes by (metis list.size(3) zero_neq_numeral)
  then have "splice F 0 (?h @ mh) = ?h @ mh @ drop (header_length m) F"
    using mh(2) by (simp add: splice_def header_length_def)
  moreover have "base_header (ctx s) m = ?h" using p(3) by (simp add: base_header_bytes)
  ultimately show ?thesis using w f0(1) mh(1) p(1)
    by (intro exI [of _ f] exI [of _ w] exI [of _ ?h] exI [of _ mh])
      (simp add: writeHeader_def writeHeader_to_def Let_def set_ctx_def)
qed

lemma writeHeader_ok:
  assumes "evfs_params k m cs s" "evfs_file path s (H @ R)" "length H = header_length m"
  shows "\<exists>f w h mh. writeHeader k s = Some (Ret (), s\<lparr>ctx := (ctx s)\<lparr>r_header := h, pFileStd := Some f\<rparr>, sys := w\<rparr>) \<and>
    std_handle path f w (h @ mh @ R) \<and> getModuleFileHeader k m h = Some (Ret mh) \<and>
    h = header_bytes m (mVersionNumber (ctx s)) cs (mFileSize (ctx s))"
  using writeHeader_over [OF assms(1,2)] assms(3) by simp

text \<open>The new chunks and the new size make the image of the new content.\<close>

lemma write_raw_ok:
  assumes "evfs_params k m cs s" "evfs_file path s (H @ R)" "length H = header_length m" "a \<le> 2 ^ 32"
    "a * raw_chunk m cs \<le> length R" "out \<noteq> []"
    "stored (decryptChunk k m) (getChunkHeaderSize m) 0 (chunks cs c)
       (take (a * raw_chunk m cs) R @ out @ drop (a * raw_chunk m cs + length out) R)" "length c \<le> evfs_limit"
  shows "\<exists>s'. write_raw k m a (length c) n out s = Some (Ret n, s') \<and> evfs_ok k path m cs c s'"
proof -
  note p = evfs_paramsD [OF assms(1)]
  let ?R = "take (a * raw_chunk m cs) R @ out @ drop (a * raw_chunk m cs + length out) R"
  note co = chunk_offset(1) [OF p(4) assms(4) p(3,5), of m]
  obtain f w where w: "std_file_write out (getChunkOffset (ctx s) m a) s =
      Some (int (length out), s\<lparr>ctx := (ctx s)\<lparr>pFileStd := Some f\<rparr>, sys := w\<rparr>)"
    "std_handle path f w (splice (H @ R) (header_length m + a * raw_chunk m cs) out)"
    using file_write [OF assms(2) raw_offset_small [OF p(4) assms(4)], of out m] unfolding co by blast
  have sp: "splice (H @ R) (header_length m + a * raw_chunk m cs) out = H @ ?R"
    using assms(3,5,6) by (simp add: splice_def)
  let ?s = "s\<lparr>ctx := (ctx s)\<lparr>pFileStd := Some f, mFileSize := length c\<rparr>, sys := w\<rparr>"
  have s1: "evfs_params k m cs ?s" "evfs_file path ?s (H @ ?R)"
    using assms(1) w(2) sp by (simp_all add: evfs_params_def evfs_file_def)
  obtain f2 w2 h mh where h: "writeHeader k ?s = Some (Ret (), ?s\<lparr>ctx := (ctx ?s)\<lparr>r_header := h, pFileStd := Some f2\<rparr>, sys := w2\<rparr>)"
    "std_handle path f2 w2 (h @ mh @ ?R)" "getModuleFileHeader k m h = Some (Ret mh)"
    "h = header_bytes m (mVersionNumber (ctx s)) cs (length c)"
    using writeHeader_ok [OF s1 assms(3)] by auto
  let ?t = "?s\<lparr>ctx := (ctx ?s)\<lparr>r_header := h, pFileStd := Some f2\<rparr>, sys := w2\<rparr>"
  have "write_raw k m a (length c) n out s = Some (Ret n, ?t)"
    using w(1) h(1) by (simp add: write_raw_def set_ctx_def evfs_comm)
  moreover have "image k m (mVersionNumber (ctx s)) cs c (h @ mh @ ?R)"
    using h(3,4) assms(7) by (auto simp: image_def)
  then have "evfs_ok k path m cs c ?t"
    using assms(1,8) h(2) by (auto simp: evfs_ok_def evfs_params_def evfs_file_def)
  ultimately show ?thesis by blast
qed

section \<open>Writing\<close>

text \<open>The stages together: \<open>data\<close> is put at \<open>r\<close> in the chunks from \<open>a\<close> on.\<close>

lemma write_stages:
  assumes "evfs_params k m cs s" "mFileSize (ctx s) = length c" "evfs_file path s (H @ R)" "length H = header_length m"
    and st: "stored (decryptChunk k m) (getChunkHeaderSize m) 0 (chunks cs c) R"
    and q: "q = a * cs + r" "r < cs" "q \<le> length c"
    and C: "C = take (n * cs) (drop (a * cs) c)"
    and data: "data \<noteq> []" "r + length data \<le> n * cs" "n * cs < r + length data + cs" "a + n \<le> 2 ^ 32 - 1"
    and c': "c' = take (a * cs) c @ (take r C @ data @ drop (r + length data) C) @ drop ((a + n) * cs) c"
      "length c' \<le> evfs_limit"
  shows "\<exists>s'. andthen (read_overwritten (a * cs) (n * raw_chunk m cs) a m s) (\<lambda>rawData s.
      andthen (prepend_plain k m (a * cs) q a rawData data s) (\<lambda>data s.
      andthen (append_plain k m (a * cs) a (a + n - 1) rawData data s) (\<lambda>data s.
      andthen (encrypt_all k m a rawData data s) (\<lambda>upd s. write_raw k m a (length c') l upd s)))) = Some (Ret l, s') \<and>
    evfs_ok k path m cs c' s'"
proof -
  note p = evfs_paramsD [OF assms(1)]
  have a: "a \<le> 2 ^ 32" "a + n \<le> 2 ^ 32" "0 < n" using data by (auto intro: gr0I)
  let ?raw = "take (n * raw_chunk m cs) (drop (a * raw_chunk m cs) R)"
  obtain w where w: "read_overwritten (a * cs) (n * raw_chunk m cs) a m s = Some (Ret ?raw, s\<lparr>sys := w\<rparr>)"
    "evfs_file path (s\<lparr>sys := w\<rparr>) (H @ R)" "overwritten k m cs a C ?raw"
    using read_overwritten_ok [OF assms(1-4) st a(1), of n] C by blast
  let ?s = "s\<lparr>sys := w\<rparr>"
  have ps: "evfs_params k m cs ?s" "mFileSize (ctx ?s) = length c" using assms(1,2) by simp_all
  have r: "r \<le> length C" using q data(2) by (simp add: C)
  have len: "length (take r C @ data) = r + length data" using r by simp
  let ?P = "take r C @ data @ drop (r + length data) C"
  have pre: "prepend_plain k m (a * cs) q a ?raw data ?s = Some (Ret (take r C @ data), ?s)"
    by (rule prepend_plain_ok [OF ps(1) w(3) q(1,2) r])
  have app: "append_plain k m (a * cs) a (a + n - 1) ?raw (take r C @ data) ?s = Some (Ret ?P, ?s)"
    using append_plain_ok [OF ps(1) w(3) ps(2) a(3) C _ _ data(4), of "take r C @ data"] data(2,3) by (simp only: len) simp
  have P: "length C \<le> length ?P" "length ?P \<le> n * cs" "?P \<noteq> []" using r data(1,2) by (auto simp: C)
  obtain out x where out: "encrypt_all k m a ?raw ?P ?s = Some (Ret out, ?s\<lparr>rng := x\<rparr>)" "overwritten k m cs a ?P out"
    using encrypt_all_ok [OF ps(1) w(3) P(1,2) a(2)] by blast
  let ?t = "?s\<lparr>rng := x\<rparr>"
  have "a * cs \<le> length c" using q by simp
  note full = this
  have "length (take (n * cs) (drop (a * cs) c)) \<le> length ?P" using P(1) by (simp only: C)
  note rep = stored_replace [OF st p(7) full out(2) [unfolded overwritten_def] this P(2), folded raw_chunk_def c'(1)]
  have ne: "out \<noteq> []" using first_raw(3) [OF out(2) [unfolded overwritten_def] p(7) P(3)] by auto
  have fits: "a * raw_chunk m cs \<le> length R" using stored_full [OF st p(7) full] by (simp add: raw_chunk_def)
  have t: "evfs_params k m cs ?t" "evfs_file path ?t (H @ R)" using ps(1) w(2) by (simp_all add: evfs_file_def)
  obtain s' where "write_raw k m a (length c') l out ?t = Some (Ret l, s')" "evfs_ok k path m cs c' s'"
    using write_raw_ok [OF t assms(4) a(1) fits ne rep c'(2)] by blast
  with w(1) pre app out(1) show ?thesis by simp
qed

lemma evfs_write_ok:
  assumes "evfs_ok k path m cs c s" "d \<noteq> [] \<or> length c < off" "off + length d \<le> evfs_limit"
  shows "\<exists>s'. evfs_write k d off s = Some (Ret (length d), s') \<and> evfs_ok k path m cs (overwrite c off d) s'"
proof -
  from assms(1) obtain F where e: "evfs_params k m cs s" "evfs_file path s F" "image k m (mVersionNumber (ctx s)) cs c F"
    "mFileSize (ctx s) = length c" "length c \<le> evfs_limit"
    by (auto simp: evfs_ok_def)
  note p = evfs_paramsD [OF e(1)]
  obtain H R where F: "F = H @ R" "length H = header_length m"
    "stored (decryptChunk k m) (getChunkHeaderSize m) 0 (chunks cs c) R"
    using image_parts [OF e(3) p(2)] .
  obtain data where data: "data = replicate (off - length c) NUL @ d" by blast
  obtain q where q: "q = min off (length c)" by blast
  have dl: "0 < length data" "q + length data \<le> evfs_limit" "data \<noteq> []"
    using assms(2,3) by (auto simp: data q)
  obtain n where n: "n = (q + length data - 1) div cs - q div cs + 1" by blast
  note sp = span_arith [OF p(7) dl(1,2) p(4), folded n]
  let ?a = "q div cs"
  have ro: "q - q mod cs = ?a * cs" "q = ?a * cs + q mod cs" "q mod cs < cs" "q \<le> length c"
    using p(7) by (auto simp: q minus_mod_eq_div_mult)
  have ix: "getChunkIndex (ctx s) q = ?a" "getChunkIndex (ctx s) (u64 (int q + int (length data) - 1)) = ?a + n - 1"
  proof -
    show "getChunkIndex (ctx s) q = ?a" using dl(1,2) by (intro chunk_index [OF p(4) _ p(3)]) linarith
    have "int q + int (length data) - 1 = int (q + length data - 1)" using dl(1) by linarith
    moreover have "q + length data - 1 < 2 ^ 64" using dl(2) by (simp add: evfs_limit_def)
    ultimately have "u64 (int q + int (length data) - 1) = q + length data - 1" by (simp only: u64_small)
    moreover have "q div cs \<le> (q + length data - 1) div cs" using dl(1) by (intro div_le_mono) linarith
    moreover have "getChunkIndex (ctx s) (q + length data - 1) = (q + length data - 1) div cs"
      using dl(1,2) by (intro chunk_index [OF p(4) _ p(3)]) linarith
    ultimately show "getChunkIndex (ctx s) (u64 (int q + int (length data) - 1)) = ?a + n - 1" by (simp add: n)
  qed
  have size: "max (length c) (u64 (int (length d + off))) = length (overwrite c off d)"
    using assms(3) by (simp add: length_overwrite u64_small evfs_limit_def del: of_nat_add)
  have "q div cs \<le> (q + length data - 1) div cs" using dl(1) by (intro div_le_mono) linarith
  then have "(q + length data - 1) div cs = ?a + n - 1" by (simp add: n)
  with sp(4) have span: "chunk_span ?a (?a + n - 1) = n" by simp
  have c': "overwrite c off d = take (?a * cs) c @ (take (q mod cs) (take (n * cs) (drop (?a * cs) c)) @ data @
      drop (q mod cs + length data) (take (n * cs) (drop (?a * cs) c))) @ drop ((?a + n) * cs) c"
    by (rule overwrite_chunks [OF data q p(7) refl sp(2), symmetric])
  have lim: "length (overwrite c off d) \<le> evfs_limit" using assms(3) e(5) by (simp add: length_overwrite)
  show ?thesis
    using write_stages [OF e(1,4) e(2) [unfolded F(1)] F(2,3) ro(2-4) refl dl(3) sp(2,3,1) c' lim, of "length d"]
      p(1,3,6,7) e(4)
    by (simp only: evfs_write_def Let_def option.case require_def if_True ix ro(1) data [symmetric] q [symmetric] size span) simp
qed

section \<open>Truncating\<close>

lemma length_chunks:
  assumes "0 < cs"
  shows "length (chunks cs c) = (if length c mod cs > 0 then 1 else 0) + length c div cs"
proof -
  let ?n = "(if length c mod cs > 0 then 1 else 0) + length c div cs"
  have e: "length c = length c div cs * cs + length c mod cs" by simp
  have "length c mod cs < cs" using assms by simp
  have "length c \<le> ?n * cs"
  proof (cases "length c mod cs > 0")
    case True
    then have "?n * cs = cs + length c div cs * cs" by simp
    with \<open>length c mod cs < cs\<close> e show ?thesis by linarith
  next
    case False then show ?thesis using e by simp
  qed
  moreover have "?n \<le> j" if "length c \<le> j * cs" for j
  proof (cases "length c mod cs > 0")
    case True
    then have "length c div cs * cs < j * cs" using e that by linarith
    with True show ?thesis by simp
  next
    case False
    then have "length c div cs * cs \<le> j * cs" using e that by linarith
    with False assms show ?thesis by simp
  qed
  ultimately show ?thesis
    using length_chunks_le [OF assms, of c ?n] length_chunks_le [OF assms, of c "length (chunks cs c)"]
    by (metis order_antisym order_refl)
qed

lemma raw_size:
  assumes "evfs_params k m cs s" "mFileSize (ctx s) = length c" "length c \<le> evfs_limit"
  shows "rawFileSizeGet (ctx s) m = Some (header_length m + rawlen (getChunkHeaderSize m) (chunks cs c))"
    "header_length m + rawlen (getChunkHeaderSize m) (chunks cs c) < 2 ^ 63"
proof -
  note p = evfs_paramsD [OF assms(1)]
  let ?l = "length (chunks cs c)"
  have r: "rawlen (getChunkHeaderSize m) (chunks cs c) = length c + ?l * getChunkHeaderSize m"
    by (simp add: rawlen_chunks [OF p(7)])
  have "?l < 2 ^ 32" by (rule chunks_bound [OF p(4) assms(3)])
  then have "?l * getChunkHeaderSize m \<le> 2 ^ 32 * 28" using module_sizes(2) [of m] by (intro mult_le_mono) simp_all
  moreover have "header_length m \<le> 77" using module_sizes(3) [of m] by (simp add: header_length_def)
  ultimately show small: "header_length m + rawlen (getChunkHeaderSize m) (chunks cs c) < 2 ^ 63"
    using assms(3) by (simp add: r evfs_limit_def)
  have "length c + ?l * getChunkHeaderSize m + baseFileHeaderSize + 0 + getModuleFileHeaderSize m =
      header_length m + rawlen (getChunkHeaderSize m) (chunks cs c)"
    by (simp add: r header_length_def baseFileHeaderSize_def)
  moreover have "u64 (int (header_length m + rawlen (getChunkHeaderSize m) (chunks cs c))) =
      header_length m + rawlen (getChunkHeaderSize m) (chunks cs c)"
    by (rule u64_small) (use small in simp)
  ultimately show "rawFileSizeGet (ctx s) m = Some (header_length m + rawlen (getChunkHeaderSize m) (chunks cs c))"
    using p(3,5,7) assms(2) by (simp add: rawFileSizeGet_def Let_def length_chunks [OF p(7), symmetric] del: of_nat_add)
qed

text \<open>Cutting the chunk of the new end: what is stored then begins with the shorter content.\<close>

lemma cut_last_chunk_ok:
  assumes "evfs_params k m cs s" "evfs_file path s (H @ R)" "length H = header_length m"
    and st: "stored (decryptChunk k m) (getChunkHeaderSize m) 0 (chunks cs c) R"
    and n: "n < length c" "n mod cs \<noteq> 0" "length c \<le> evfs_limit"
  shows "\<exists>f w r R'. cut_last_chunk k m n s = Some (Ret (), s\<lparr>ctx := (ctx s)\<lparr>pFileStd := Some f\<rparr>, sys := w, rng := r\<rparr>) \<and>
    std_handle path f w (H @ R') \<and>
    stored (decryptChunk k m) (getChunkHeaderSize m) 0 (chunks cs (take n c))
      (take (rawlen (getChunkHeaderSize m) (chunks cs (take n c))) R')"
proof -
  note p = evfs_paramsD [OF assms(1)]
  let ?i = "n div cs" and ?d = "decryptChunk k m" and ?h = "getChunkHeaderSize m"
  have i: "?i < 2 ^ 32 - 1" "n = ?i * cs + n mod cs" "n mod cs < cs"
    using index_small [OF p(4), of n] n p(7) by simp_all
  have i32: "?i \<le> 2 ^ 32" "?i < 2 ^ 32" using i(1) by simp_all
  have ltc: "?i * cs < length c" using i(2) n(1) by linarith
  then have ic: "?i * cs \<le> length c" by simp
  note co = chunk_offset(1) [OF p(4) i32(1) p(3,5), of m]
  have ix: "getChunkIndex (ctx s) n = ?i" using n by (intro chunk_index [OF p(4) _ p(3)]) simp
  let ?raw = "take (raw_chunk m cs) (drop (?i * raw_chunk m cs) R)" and ?X = "drop (?i * cs) c"
  obtain w where w: "std_file_read (raw_chunk m cs) (getChunkOffset (ctx s) m ?i) s =
      Some ((int (length ?raw), ?raw), s\<lparr>sys := w\<rparr>)" "evfs_file path (s\<lparr>sys := w\<rparr>) (H @ R)"
    using file_read [OF assms(2) raw_offset_small [OF p(4) i32(1), of m], of "raw_chunk m cs"] assms(3) co by auto
  have X: "stored ?d ?h ?i (chunks cs ?X) (drop (?i * raw_chunk m cs) R)" "?X \<noteq> []"
    using stored_drop [OF st p(7), of ?i] ltc
    by (simp_all add: raw_chunk_def)
  note f = first_raw(4) [OF X(1) p(7) X(2), folded raw_chunk_def]
  let ?cut = "take (n mod cs) (take cs ?X)"
  obtain out r where o: "reencryptChunk k m ?i ?raw ?cut (rng s) = Some (Ret out, r)" "?d ?i out = Some (Ret ?cut)"
    "length out = ?h + length ?cut"
    using evfs_modules.reenc_law [OF p(2) i32(2) f, of ?cut "rng s"] by blast
  have lX: "n mod cs \<le> length ?X" "n mod cs \<le> length (take cs ?X)" using i(2,3) n(1) by (simp_all, linarith+)
  have cut: "?cut @ replicate (n mod cs - length (take cs ?X)) NUL = ?cut" "length ?cut = n mod cs" "?cut \<noteq> []"
    using lX n(2) by auto
  let ?s = "s\<lparr>sys := w, rng := r\<rparr>"
  have s: "evfs_file path ?s (H @ R)" using w(2) by (simp add: evfs_file_def)
  obtain g w2 where g: "std_file_write out (getChunkOffset (ctx s) m ?i) ?s =
      Some (int (length out), ?s\<lparr>ctx := (ctx s)\<lparr>pFileStd := Some g\<rparr>, sys := w2\<rparr>)"
    "std_handle path g w2 (splice (H @ R) (header_length m + ?i * raw_chunk m cs) out)"
    using file_write [OF s raw_offset_small [OF p(4) i32(1), of m], of out] co by auto
  have fits: "?i * raw_chunk m cs \<le> length R" using stored_full [OF st p(7) ic] by (simp add: raw_chunk_def)
  let ?A = "take (?i * raw_chunk m cs) R"
  let ?R = "?A @ out @ drop (?i * raw_chunk m cs + length out) R"
  have "out \<noteq> []" using o(3) module_sizes(1) [of m] by auto
  then have sp: "splice (H @ R) (header_length m + ?i * raw_chunk m cs) out = H @ ?R"
    using assms(3) fits by (simp add: splice_def)
  have lA: "length (take (?i * cs) c) = ?i * cs" using ic by simp
  have "take n c = take (?i * cs) c @ ?cut"
    using i(2,3) by (metis min.strict_order_iff take_add take_take)
  then have ch: "chunks cs (take n c) = chunks cs (take (?i * cs) c) @ [?cut]"
    using cut i(3) by (simp add: chunks_append [OF p(7) lA] chunks_Cons [OF _ p(7)])
  have stA: "stored ?d ?h 0 (chunks cs (take (?i * cs) c)) ?A" using stored_cut(1) [OF st p(7) ic] by (simp add: raw_chunk_def)
  have all: "stored ?d ?h 0 (chunks cs (take n c)) (?A @ out)"
    unfolding ch by (rule stored_concat [OF stA]) (use o(2,3) length_chunks_full [OF p(7) lA] in simp)
  have "take (rawlen ?h (chunks cs (take n c))) ?R = ?A @ out"
    using stored_length [OF all, symmetric] fits by (simp add: min_absorb2)
  with all have tk: "stored ?d ?h 0 (chunks cs (take n c)) (take (rawlen ?h (chunks cs (take n c))) ?R)"
    by (simp only:)
  have "cut_last_chunk k m n s = Some (Ret (), s\<lparr>ctx := (ctx s)\<lparr>pFileStd := Some g\<rparr>, sys := w2, rng := r\<rparr>)"
    using w(1) f o(1) g(1) p(3,6) cut(1) by (simp add: cut_last_chunk_def Let_def ix)
  with tk g(2) [unfolded sp] show ?thesis
    by (intro exI [of _ g] exI [of _ w2] exI [of _ r] exI [of _ ?R] conjI)
qed

lemma evfs_truncate_shrink:
  assumes "evfs_ok k path m cs c s" "n < length c"
  shows "\<exists>s'. evfs_truncate k n s = Some (Ret (), s') \<and> evfs_ok k path m cs (take n c) s'"
proof -
  from assms(1) obtain F where e: "evfs_params k m cs s" "evfs_file path s F" "image k m (mVersionNumber (ctx s)) cs c F"
    "mFileSize (ctx s) = length c" "length c \<le> evfs_limit"
    by (auto simp: evfs_ok_def)
  note p = evfs_paramsD [OF e(1)]
  obtain H R where F: "F = H @ R" "length H = header_length m"
    "stored (decryptChunk k m) (getChunkHeaderSize m) 0 (chunks cs c) R"
    using image_parts [OF e(3) p(2)] .
  let ?c = "take n c" and ?h = "getChunkHeaderSize m"
  let ?rl = "rawlen ?h (chunks cs ?c)"
  obtain s1 R1 where s1: "(if n mod cs \<noteq> 0 then cut_last_chunk k m n s else Some (Ret (), s)) = Some (Ret (), s1)"
    "evfs_params k m cs s1" "mVersionNumber (ctx s1) = mVersionNumber (ctx s)" "evfs_file path s1 (H @ R1)"
    "stored (decryptChunk k m) ?h 0 (chunks cs ?c) (take ?rl R1)"
  proof (cases "n mod cs = 0")
    case True
    then obtain j where j: "n = j * cs" by (metis dvd_eq_mod_eq_0 dvdE mult.commute)
    have "stored (decryptChunk k m) ?h 0 (chunks cs ?c) (take (j * raw_chunk m cs) R)"
      using stored_cut(1) [OF F(3) p(7), of j] assms(2) j by (simp add: raw_chunk_def)
    moreover from stored_full [OF F(3) p(7), of j] stored_length [OF this]
    have "?rl = j * raw_chunk m cs" using assms(2) j by (simp add: raw_chunk_def)
    ultimately show ?thesis using that [of s R] True e(1,2) F(1) by simp
  next
    case False
    from cut_last_chunk_ok [OF e(1) e(2) [unfolded F(1)] F(2,3) assms(2) False e(5)] obtain f w r R' where
      "cut_last_chunk k m n s = Some (Ret (), s\<lparr>ctx := (ctx s)\<lparr>pFileStd := Some f\<rparr>, sys := w, rng := r\<rparr>)"
      "std_handle path f w (H @ R')" "stored (decryptChunk k m) ?h 0 (chunks cs ?c) (take ?rl R')" by blast
    then show ?thesis
      using that [of "s\<lparr>ctx := (ctx s)\<lparr>pFileStd := Some f\<rparr>, sys := w, rng := r\<rparr>" R'] False e(1)
      by (simp add: evfs_params_def evfs_file_def)
  qed
  let ?s1 = "s1\<lparr>ctx := (ctx s1)\<lparr>mFileSize := n\<rparr>\<rparr>"
  have lim: "length ?c \<le> evfs_limit" using e(5) by simp
  have s2: "evfs_params k m cs ?s1" "mFileSize (ctx ?s1) = length ?c" "evfs_file path ?s1 (H @ R1)"
    using s1(2,4) assms(2) by (simp_all add: evfs_file_def)
  note raw = raw_size [OF s2(1,2) lim]
  have "?rl \<le> length R1" using stored_length [OF s1(5)] by simp
  then obtain w where w: "std_file_truncate (to_off_t (header_length m + ?rl)) ?s1 = Some (0, ?s1\<lparr>sys := w\<rparr>)"
    "evfs_file path (?s1\<lparr>sys := w\<rparr>) (H @ take ?rl R1)"
    using file_truncate [OF s2(3) raw(2)] F(2) by auto
  let ?s2 = "?s1\<lparr>sys := w\<rparr>"
  have ps2: "evfs_params k m cs ?s2" using s2(1) by simp
  obtain f w' h mh where h: "writeHeader k ?s2 = Some (Ret (), ?s2\<lparr>ctx := (ctx ?s2)\<lparr>r_header := h, pFileStd := Some f\<rparr>, sys := w'\<rparr>)"
    "std_handle path f w' (h @ mh @ take ?rl R1)" "getModuleFileHeader k m h = Some (Ret mh)"
    "h = header_bytes m (mVersionNumber (ctx ?s2)) cs (mFileSize (ctx ?s2))"
    using writeHeader_ok [OF ps2 w(2) F(2)] by blast
  let ?s3 = "?s2\<lparr>ctx := (ctx ?s2)\<lparr>r_header := h, pFileStd := Some f\<rparr>, sys := w'\<rparr>"
  have "evfs_truncate k n s = Some (Ret (), ?s3)"
    using assms(2) p(1,3,7) e(4) s1(1) raw(1) w(1) h(1)
    by (simp add: evfs_truncate_def bind_require set_ctx_def)
  moreover have "evfs_ok k path m cs ?c ?s3"
    using ps2 lim h(2-4) s1(5) assms(2)
    by (auto simp: evfs_ok_def evfs_params_def evfs_file_def image_def)
  ultimately show ?thesis by blast
qed

end
