(* ===== verification/EvfsOpen.thy ===== *)
theory EvfsOpen
  imports EvfsWriting
begin

text \<open>
  The encrypted file system as a backend of vfs.c (the interpretation of \<open>vfs_backend\<close>), and how a file comes
  to be open: from an image on disk, or as a new file.
\<close>

unbundle bit_operations_syntax

section \<open>The backend\<close>

definition disk_content :: "'r crypto \<Rightarrow> evfs_module \<Rightarrow> nat \<Rightarrow> string \<Rightarrow> string" where
  "disk_content k m cs F =
     (case decrypt_loop (decryptChunk k m) (getChunkHeaderSize m) (raw_chunk m cs) 0 (drop (header_length m) F) of
        Some (Ret c) \<Rightarrow> c
      | _ \<Rightarrow> [])"

definition evfs_content :: "'r crypto \<Rightarrow> evfs_module \<Rightarrow> nat \<Rightarrow> 'r eworld \<Rightarrow> ptr \<Rightarrow> string" where
  "evfs_content k m cs w u =
     (case Option.bind u (ctxs w) of
        None \<Rightarrow> []
      | Some ct \<Rightarrow>
          (case pFileStd ct of None \<Rightarrow> [] | Some f \<Rightarrow> disk_content k m cs (std_content (esys w) (pUserData f))))"

definition evfs_ready :: "'r crypto \<Rightarrow> string \<Rightarrow> evfs_module \<Rightarrow> nat \<Rightarrow> 'r eworld \<Rightarrow> ptr \<Rightarrow> bool" where
  "evfs_ready k path m cs w u \<longleftrightarrow> \<not> aborted w \<and>
     (\<exists>a ct c. u = Some a \<and> ctxs w a = Some ct \<and> evfs_ok k path m cs c \<lparr>ctx = ct, sys = esys w, rng = erng w\<rparr>)"

definition evfs_readable :: "nat \<Rightarrow> nat \<Rightarrow> bool" where
  "evfs_readable off n \<longleftrightarrow> 0 < n \<and> off + n \<le> evfs_limit"

definition evfs_writable :: "nat \<Rightarrow> string \<Rightarrow> bool" where
  "evfs_writable off d \<longleftrightarrow> d \<noteq> [] \<and> off + length d \<le> evfs_limit"

lemma disk_content_image:
  assumes "image k m ver cs c F" "module_usable k m" "chunk_size_ok cs" "length c \<le> evfs_limit"
  shows "disk_content k m cs F = c"
proof -
  obtain H R where F: "F = H @ R" "length H = header_length m"
    "stored (decryptChunk k m) (getChunkHeaderSize m) 0 (chunks cs c) R"
    using image_parts [OF assms(1,2)] .
  have "0 + length (chunks cs c) \<le> 2 ^ 32" using chunks_bound [OF assms(3,4)] by simp
  from decrypt_loop_stored [OF F(3) chunk_size_pos [OF assms(3)] this] F(1,2) show ?thesis
    by (simp add: disk_content_def raw_chunk_def)
qed

lemma evfs_content_ok:
  assumes "ctxs w a = Some ct" "evfs_ok k path m cs c \<lparr>ctx = ct, sys = esys w, rng = erng w\<rparr>"
  shows "evfs_content k m cs w (Some a) = c"
proof -
  obtain f F where "pFileStd ct = Some f" "std_handle path f (esys w) F" "image k m (mVersionNumber ct) cs c F"
    "module_usable k m" "chunk_size_ok cs" "length c \<le> evfs_limit"
    using assms(2) by (auto simp: evfs_ok_def evfs_file_def evfs_params_def)
  with assms(1) disk_content_image show ?thesis by (auto simp: evfs_content_def std_handle_def)
qed

lemma evfs_readyE:
  assumes "evfs_ready k path m cs w u"
  obtains a ct where "u = Some a" "ctxs w a = Some ct" "\<not> aborted w"
    "evfs_ok k path m cs (evfs_content k m cs w u) \<lparr>ctx = ct, sys = esys w, rng = erng w\<rparr>"
  using assms evfs_content_ok by (fastforce simp: evfs_ready_def)

text \<open>A method that leaves the file in order leaves the backend ready.\<close>

lemma with_ctx_ready:
  assumes "ctxs w a = Some ct" "\<not> aborted w" "f \<lparr>ctx = ct, sys = esys w, rng = erng w\<rparr> = Some (Ret x, s)"
    "evfs_ok k path m cs c s"
  shows "\<exists>w'. with_ctx (Some a) err f b w = (x, w') \<and> evfs_ready k path m cs w' (Some a) \<and> evfs_content k m cs w' (Some a) = c"
proof -
  let ?w = "w\<lparr>esys := sys s, erng := rng s, ctxs := (ctxs w)(a \<mapsto> ctx s)\<rparr>"
  have s: "evfs_ok k path m cs c \<lparr>ctx = ctx s, sys = sys s, rng = rng s\<rparr>" using assms(4) by (cases s) simp
  have "evfs_content k m cs ?w (Some a) = c"
    by (rule evfs_content_ok [of _ _ "ctx s" k path]) (use s in simp_all)
  moreover have "evfs_ready k path m cs ?w (Some a)" using assms(2) s by (auto simp: evfs_ready_def)
  ultimately show ?thesis using assms(1,3) by (simp add: with_ctx_def Let_def)
qed

lemma std_handle_sync:
  assumes "std_handle path f w F"
  shows "\<exists>w'. bctbx_file_sync (Some f) w = Some (0, Some f, w') \<and> std_handle path f w' F"
proof -
  have h: "std_ready path w (pUserData f)" "std_content w (pUserData f) = F" "pMethods f = Some bcio" "fSize f = 0"
    using assms by (auto simp: std_handle_def)
  from std.sync_law [OF h(1)] h show ?thesis
    by (auto simp: bctbx_file_sync_def with_flush_def flush_empty std_handle_def)
qed

lemma evfs_sync_ok:
  assumes "evfs_ok k path m cs c s"
  shows "\<exists>f w. bctbx_file_sync (pFileStd (ctx s)) (sys s) = Some (0, f, w) \<and>
    evfs_ok k path m cs c (s\<lparr>ctx := (ctx s)\<lparr>pFileStd := f\<rparr>, sys := w\<rparr>)"
proof -
  obtain f F where f: "pFileStd (ctx s) = Some f" "std_handle path f (sys s) F" "image k m (mVersionNumber (ctx s)) cs c F"
    using assms by (auto simp: evfs_ok_def evfs_file_def)
  from std_handle_sync [OF f(2)] f(1,3) assms show ?thesis
    by (fastforce simp: evfs_ok_def evfs_file_def evfs_params_def)
qed

interpretation evfs: vfs_backend "evfs_bcio k" "evfs_content k m cs" "evfs_ready k path m cs" evfs_readable evfs_writable
  for k path m cs
proof
  show "pFuncGetLineFromFd (evfs_bcio k) = None" by (simp add: evfs_bcio_def)
  show "evfs_writable off (a @ b)" if "evfs_writable off a" "evfs_writable (off + length a) b" for off a b
    using that by (simp add: evfs_writable_def)
  fix w u off d n
  assume "evfs_ready k path m cs w u"
  then obtain a ct where u: "u = Some a" "ctxs w a = Some ct" "\<not> aborted w"
    "evfs_ok k path m cs (evfs_content k m cs w u) \<lparr>ctx = ct, sys = esys w, rng = erng w\<rparr>"
    by (rule evfs_readyE)
  let ?s = "\<lparr>ctx = ct, sys = esys w, rng = erng w\<rparr>"
  show "\<exists>w'. pFuncWrite (evfs_bcio k) u d (int off) w = (int (length d), w') \<and> evfs_ready k path m cs w' u \<and>
      evfs_content k m cs w' u = splice (evfs_content k m cs w u) off d" if "evfs_writable off d"
  proof -
    have d: "d \<noteq> [] \<or> length (evfs_content k m cs w u) < off" "off + length d \<le> evfs_limit" "d \<noteq> []"
      using that by (simp_all add: evfs_writable_def)
    from evfs_write_ok [OF u(4) d(1,2)] obtain s where s: "evfs_write k d off ?s = Some (Ret (length d), s)"
      "evfs_ok k path m cs (splice (evfs_content k m cs w u) off d) s" by (auto simp: overwrite_splice [OF d(3)])
    have "andthen (evfs_write k d (nat (int off)) ?s) (\<lambda>n s. Some (Ret (int n), s)) = Some (Ret (int (length d)), s)"
      using s(1) by simp
    from with_ctx_ready [where f = "\<lambda>s. andthen (evfs_write k d (nat (int off)) s) (\<lambda>n s. Some (Ret (int n), s))",
        OF u(2,3) this s(2)] u(1) show ?thesis by (simp add: evfs_bcio_def evfs_bcWrite_def)
  qed
  show "\<exists>w'. pFuncRead (evfs_bcio k) u n (int off) w =
        (int (length (take n (drop off (evfs_content k m cs w u)))), take n (drop off (evfs_content k m cs w u)), w') \<and>
      evfs_ready k path m cs w' u \<and> evfs_content k m cs w' u = evfs_content k m cs w u" if "evfs_readable off n"
  proof -
    have n: "0 < n" "off + n \<le> evfs_limit" using that by (simp_all add: evfs_readable_def)
    let ?d = "take n (drop off (evfs_content k m cs w u))"
    obtain y where y: "evfs_read k off n ?s = Some (Ret ?d, ?s\<lparr>sys := y\<rparr>)"
      "evfs_ok k path m cs (evfs_content k m cs w u) (?s\<lparr>sys := y\<rparr>)"
      using evfs_read_ok [OF u(4) n] by blast
    have "u64 (int off) = off" using n(2) by (intro u64_small) (simp add: evfs_limit_def)
    then have "andthen (evfs_read k (u64 (int off)) n ?s) (\<lambda>d s. Some (Ret (int (length d), d), s)) =
        Some (Ret (int (length ?d), ?d), ?s\<lparr>sys := y\<rparr>)" using y(1) by simp
    from with_ctx_ready [where f = "\<lambda>s. andthen (evfs_read k (u64 (int off)) n s) (\<lambda>d s. Some (Ret (int (length d), d), s))",
        OF u(2,3) this y(2), of "(BCTBX_VFS_ERROR, [])" True] u(1) show ?thesis
      by (auto simp: evfs_bcio_def evfs_bcRead_def)
  qed
  show "\<exists>w'. pFuncFileSize (evfs_bcio k) u w = (int (length (evfs_content k m cs w u)), w') \<and> evfs_ready k path m cs w' u \<and>
      evfs_content k m cs w' u = evfs_content k m cs w u"
  proof -
    have "fileSizeGet ?s = Some (int (length (evfs_content k m cs w u)), ?s)"
      using u(4) by (simp add: fileSizeGet_def evfs_ok_def evfs_params_def)
    then have "do { (n, s) \<leftarrow> fileSizeGet ?s; Some (Ret n, s) } = Some (Ret (int (length (evfs_content k m cs w u))), ?s)" by simp
    from with_ctx_ready [where f = "\<lambda>s. do { (n, s) \<leftarrow> fileSizeGet s; Some (Ret n, s) }", OF u(2,3) this u(4)] u(1) show ?thesis by (simp add: evfs_bcio_def evfs_bcFileSize_def)
  qed
  show "\<exists>w'. pFuncSync (evfs_bcio k) u w = (0, w') \<and> evfs_ready k path m cs w' u \<and>
      evfs_content k m cs w' u = evfs_content k m cs w u"
  proof -
    obtain f y where f: "bctbx_file_sync (pFileStd (ctx ?s)) (sys ?s) = Some (0, f, y)"
      "evfs_ok k path m cs (evfs_content k m cs w u) (?s\<lparr>ctx := (ctx ?s)\<lparr>pFileStd := f\<rparr>, sys := y\<rparr>)"
      using evfs_sync_ok [OF u(4)] by blast
    then have "do { (ret, f, sy) \<leftarrow> bctbx_file_sync (pFileStd (ctx ?s)) (sys ?s);
        Some (Ret ret, ?s\<lparr>ctx := (ctx ?s)\<lparr>pFileStd := f\<rparr>, sys := sy\<rparr>) } =
        Some (Ret 0, ?s\<lparr>ctx := (ctx ?s)\<lparr>pFileStd := f\<rparr>, sys := y\<rparr>)" by simp
    from with_ctx_ready [where f = "\<lambda>s. do { (ret, f, sy) \<leftarrow> bctbx_file_sync (pFileStd (ctx s)) (sys s);
        Some (Ret ret, s\<lparr>ctx := (ctx s)\<lparr>pFileStd := f\<rparr>, sys := sy\<rparr>) }", OF u(2,3) this f(2)] u(1) show ?thesis by (simp add: evfs_bcio_def evfs_bcSync_def)
  qed
qed

section \<open>A module read back from its header\<close>

fun module_secret :: "evfs_module \<Rightarrow> string" where
  "module_secret (Dummy d) = mSecret d"
| "module_secret (Aes a) = sMasterKey a"

text \<open>The same keys, with the integrity tag read from the header \<open>mh\<close>.\<close>

fun with_tag :: "string \<Rightarrow> evfs_module \<Rightarrow> evfs_module" where
  "with_tag mh (Dummy d) = Dummy (d\<lparr>mFileHeaderIntegrity := take 8 mh\<rparr>)"
| "with_tag mh (Aes a) = Aes (a\<lparr>mHeaderTag := take fileAuthTagSize mh\<rparr>)"

lemma with_tag_same [simp]:
  "getChunkHeaderSize (with_tag mh m) = getChunkHeaderSize m"
  "getModuleFileHeaderSize (with_tag mh m) = getModuleFileHeaderSize m"
  "getEncryptionSuite (with_tag mh m) = getEncryptionSuite m"
  "module_usable k (with_tag mh m) = module_usable k m"
  "module_secret (with_tag mh m) = module_secret m"
  "header_length (with_tag mh m) = header_length m"
  "header_bytes (with_tag mh m) = header_bytes m"
  by (cases m; simp add: dummy_usable_def header_length_def header_bytes_def fun_eq_iff)+

lemma with_tag_header [simp]: "getModuleFileHeader k (with_tag mh m) = getModuleFileHeader k m"
  by (cases m) (simp_all add: fun_eq_iff dummy_getModuleFileHeader_def globalIV_def aes_getModuleFileHeader_def)

lemma with_tag_decrypt [simp]: "decryptChunk k (with_tag mh m) = decryptChunk k m"
proof (cases m)
  case (Dummy d)
  let ?d = "d\<lparr>mFileHeaderIntegrity := take 8 mh\<rparr>"
  have "XORkey ?d raw = XORkey d raw" "dummy_checkChunk k ?d i raw = dummy_checkChunk k d i raw" for i raw
    by (simp_all add: XORkey_def globalIV_def dummy_checkChunk_def chunkIntegrityTag_def)
  then show ?thesis using Dummy by (simp add: fun_eq_iff dummy_decryptChunk_def cong: if_cong)
next
  case (Aes a)
  then show ?thesis by (simp add: fun_eq_iff aes_decryptChunk_def deriveChunkKey_def)
qed

lemma image_with_tag [simp]: "image k (with_tag mh m) ver cs c F = image k m ver cs c F"
  by (simp add: image_def)

lemma module_reopen:
  assumes "module_usable k m" "getModuleFileHeader k m h = Some (Ret mh)"
  shows "\<exists>m0. open_VfsEncryptionModule (suite_code (getEncryptionSuite m)) mh = Ret m0 \<and>
    setModuleSecretMaterial k (module_secret m) m0 = Ret (with_tag mh m) \<and>
    checkIntegrity k (with_tag mh m) h = Some (Ret True) \<and>
    getChunkHeaderSize m0 = getChunkHeaderSize m \<and> getModuleFileHeaderSize m0 = getModuleFileHeaderSize m \<and>
    getEncryptionSuite m0 = getEncryptionSuite m"
proof (cases m)
  case (Dummy d)
  obtain t where t: "bctbx_hmacSha256 k (mSecret d) dummy_secretMaterialSize (h @ globalIV d) 8 = Some t"
    "mh = t @ mFileHeader d" "length t = 8"
    using assms(2) Dummy length_bctbx_hmac by (fastforce simp: dummy_getModuleFileHeader_def bind_Some_iff)
  then show ?thesis using assms(1) Dummy
    by (simp add: open_VfsEncryptionModule_def dummy_open_def dummy_usable_def dummy_sizes
        dummy_setModuleSecretMaterial_def dummy_checkIntegrity_def globalIV_def)
next
  case (Aes a)
  have mh: "mh = HMAC k (sFileHeaderHMACKey a) h @ mFileSalt a" "sFileHeaderHMACKey a \<noteq> []"
    using assms(2) Aes by (simp_all add: aes_getModuleFileHeader_def split: if_splits)
  have "length (HMAC k (sFileHeaderHMACKey a) h) = 32" by (simp add: HMAC_def)
  then show ?thesis using assms(1) Aes mh
    by (simp add: open_VfsEncryptionModule_def aes_open_def aes_setModuleSecretMaterial_def aes_checkIntegrity_def aes_sizes)
qed

lemma moduleFileHeaderSize_suite: "moduleFileHeaderSize (suite_code (getEncryptionSuite m)) = getModuleFileHeaderSize m"
  by (cases m) (simp_all add: moduleFileHeaderSize_def)

section \<open>The header read back\<close>

lemma header_fields:
  fixes m :: evfs_module and ver cs n :: nat
  assumes "ver < 2 ^ 16" "cs mod 16 = 0" "cs div 16 < 2 ^ 16" "n < 2 ^ 64"
  defines "h \<equiv> header_bytes m ver cs n"
  shows "take 13 h = BCENCRYPTEDFS" "be_nat (take 2 (drop 13 h)) = ver"
    "be_nat (take 2 (drop 15 h)) = suite_code (getEncryptionSuite m)" "be_nat (take 2 (drop 17 h)) * 16 = cs"
    "be_nat (take 2 (drop 19 h)) = 0" "be_nat (take 8 (drop 21 h)) = n"
proof -
  have l: "length BCENCRYPTEDFS = 13" by (simp add: BCENCRYPTEDFS_def)
  note d = h_def header_bytes_def
  show "take 13 h = BCENCRYPTEDFS" by (simp add: d l)
  have "take 2 (drop 13 h) = be_bytes 2 ver" by (simp add: d l)
  then show "be_nat (take 2 (drop 13 h)) = ver" using assms(1) by simp
  have "take 2 (drop 15 h) = be_bytes 2 (suite_code (getEncryptionSuite m))" by (simp add: d l)
  then show "be_nat (take 2 (drop 15 h)) = suite_code (getEncryptionSuite m)" by (cases m) simp_all
  have "take 2 (drop 17 h) = be_bytes 2 (cs div 16)" by (simp add: d l)
  moreover have "cs div 16 * 16 = cs" using assms(2) by auto
  ultimately show "be_nat (take 2 (drop 17 h)) * 16 = cs" using assms(3) by simp
  have "take 2 (drop 19 h) = replicate 2 NUL" by (simp add: d l)
  then show "be_nat (take 2 (drop 19 h)) = 0" by (simp add: be_nat_def NUL_def numeral_2_eq_2)
  have "take 8 (drop 21 h) = be_bytes 8 n" by (simp add: d l)
  then show "be_nat (take 8 (drop 21 h)) = n" using assms(4) by simp
qed

section \<open>Opening a file of the standard file system\<close>

lemma std_open:
  assumes "fl AND 3 = O_RDWR" "fl AND O_APPEND = 0"
    "files w path = Some F \<and> fl AND O_TRUNC = 0 \<or>
     F = [] \<and> fl AND O_CREAT \<noteq> 0 \<and> (files w path = None \<or> fl AND O_TRUNC \<noteq> 0)"
  shows "\<exists>f w'. bctbx_file_open2 (Some bcStandardVfs_obj) (Some path) fl w = (Some f, w') \<and> std_handle path f w' F"
  using assms
  by (auto simp: bctbx_file_open2_def file_open_def bcStandardVfs_obj_def bcOpen_def sys_open_def Let_def
      BCTBX_VFS_OK_def BCTBX_VFS_ERROR_def new_file_def std_handle_def std_ready_def std_content_def get_fd_def
      ctx_fd_def data_of_def split: option.splits)

section \<open>The callback of the client\<close>

text \<open>The usual one: it sets the suite and the secret.\<close>

definition client_settings :: "'r crypto \<Rightarrow> EncryptionSuite \<Rightarrow> string \<Rightarrow> 'r EncryptedVfsOpenCb" where
  "client_settings k suite secret s =
     andthen (Some (encryptionSuiteSet k suite s)) (\<lambda>_ s. Some (secretMaterialSet k secret s))"

section \<open>Opening an image\<close>

lemma file_size:
  assumes "evfs_file path s F"
  shows "\<exists>w. std_file_size s = Some (int (length F), s\<lparr>sys := w\<rparr>) \<and> evfs_file path (s\<lparr>sys := w\<rparr>) F"
proof -
  obtain f where f: "pFileStd (ctx s) = Some f" "std_handle path f (sys s) F"
    using assms by (auto simp: evfs_file_def)
  obtain w where w: "bctbx_file_size (Some f) (sys s) = Some (int (length F), Some f, w)" "std_handle path f w F"
    using std_handle_size [OF f(2)] by blast
  have "(ctx s)\<lparr>pFileStd := Some f\<rparr> = ctx s" using f(1) by simp
  with f w show ?thesis
    by (intro exI [of _ w]) (simp add: std_file_size_def evfs_file_def)
qed

lemma image_header:
  assumes "image k m ver cs c F" "module_usable k m"
  obtains mh R where "getModuleFileHeader k m (header_bytes m ver cs (length c)) = Some (Ret mh)"
    "F = header_bytes m ver cs (length c) @ mh @ R" "length mh = getModuleFileHeaderSize m"
    "stored (decryptChunk k m) (getChunkHeaderSize m) 0 (chunks cs c) R"
    "length F = header_length m + rawlen (getChunkHeaderSize m) (chunks cs c)"
proof -
  obtain mh R where r: "getModuleFileHeader k m (header_bytes m ver cs (length c)) = Some (Ret mh)"
    "F = header_bytes m ver cs (length c) @ mh @ R"
    "stored (decryptChunk k m) (getChunkHeaderSize m) 0 (chunks cs c) R"
    using assms(1) by (auto simp: image_def)
  moreover have "length mh = getModuleFileHeaderSize m"
    using r(1) module_header [OF assms(2), of "header_bytes m ver cs (length c)"] by auto
  ultimately show ?thesis using that stored_length [OF r(3)] by (simp add: header_length_def)
qed

text \<open>The object after \<open>parseHeader\<close> has read a header, the module not having its secret yet.\<close>

definition parsed :: "nat \<Rightarrow> nat \<Rightarrow> nat \<Rightarrow> string \<Rightarrow> evfs_module \<Rightarrow> VfsEncryption \<Rightarrow> VfsEncryption" where
  "parsed ver cs n h m0 c = c\<lparr>r_header := h, mVersionNumber := ver, mChunkSize := cs, mHeaderExtensionSize := 0,
     mFileSize := n, m_module := Some m0\<rparr>"

text \<open>The size of the file that \<open>parseHeader\<close> computes from that on disk, when the header does not agree.\<close>

definition disk_size :: "evfs_module \<Rightarrow> nat \<Rightarrow> nat \<Rightarrow> nat" where
  "disk_size m cs sz =
     (let rest = u64 (int sz - int (header_length m)); rc = raw_chunk m cs;
          chunkNb = (if rest mod rc > 0 then 1 else 0) + rest div rc
      in u64 (int rest - int (chunkNb * getChunkHeaderSize m)))"

lemma parseHeader_run:
  fixes s :: "'r evfs" and k :: "'r crypto" and m :: evfs_module and ver cs n :: nat
  defines "h \<equiv> header_bytes m ver cs n"
  assumes "evfs_file path s (h @ mh @ R)" "getModuleFileHeader k m h = Some (Ret mh)" "module_usable k m"
    "cs mod 16 = 0" "cs div 16 < 2 ^ 16" "n < 2 ^ 64" "ver < 2 ^ 16"
  shows "\<exists>m0 w. parseHeader s = (do {
        sz \<leftarrow> rawFileSizeGet (parsed ver cs n h m (ctx s)) m;
        Some (Ret (), s\<lparr>ctx := (if sz = u64 (int (length (h @ mh @ R))) then parsed ver cs n h m0 (ctx s)
          else (parsed ver cs n h m0 (ctx s))\<lparr>mIntegrityFullCheck := True,
                 mFileSize := disk_size m cs (length (h @ mh @ R))\<rparr>), sys := w\<rparr>) }) \<and>
      (\<exists>f. pFileStd (ctx s) = Some f \<and> std_handle path f w (h @ mh @ R)) \<and>
      setModuleSecretMaterial k (module_secret m) m0 = Ret (with_tag mh m) \<and>
      checkIntegrity k (with_tag mh m) h = Some (Ret True) \<and> getEncryptionSuite m0 = getEncryptionSuite m"
proof -
  let ?F = "h @ mh @ R"
  have lmh: "length mh = getModuleFileHeaderSize m" using module_header [OF assms(4), of h] assms(3) by auto
  have lh: "length h = 29" by (simp add: h_def)
  obtain m0 where m0: "open_VfsEncryptionModule (suite_code (getEncryptionSuite m)) mh = Ret m0"
    "setModuleSecretMaterial k (module_secret m) m0 = Ret (with_tag mh m)"
    "checkIntegrity k (with_tag mh m) h = Some (Ret True)" "getChunkHeaderSize m0 = getChunkHeaderSize m"
    "getModuleFileHeaderSize m0 = getModuleFileHeaderSize m" "getEncryptionSuite m0 = getEncryptionSuite m"
    using module_reopen [OF assms(4,3)] by blast
  note hf = header_fields [OF assms(8,5,6,7), of m, folded h_def]
  obtain w1 where w1: "std_file_size s = Some (int (length ?F), s\<lparr>sys := w1\<rparr>)" "evfs_file path (s\<lparr>sys := w1\<rparr>) ?F"
    using file_size [OF assms(2)] by blast
  obtain w2 where w2: "std_file_read 29 0 (s\<lparr>sys := w1\<rparr>) = Some ((29, h), s\<lparr>sys := w2\<rparr>)"
    "evfs_file path (s\<lparr>sys := w2\<rparr>) ?F"
    using file_read [OF w1(2), of 0 29] lh by auto
  let ?s = "s\<lparr>ctx := (ctx s)\<lparr>r_header := h, mVersionNumber := ver, mChunkSize := cs, mHeaderExtensionSize := 0,
      mFileSize := n\<rparr>, sys := w2\<rparr>"
  have "evfs_file path ?s ?F" using w2(2) by (simp add: evfs_file_def)
  moreover have "take (getModuleFileHeaderSize m) (drop 29 ?F) = mh" using lmh lh by simp
  ultimately obtain w3 where w3: "std_file_read (getModuleFileHeaderSize m) 29 ?s =
      Some ((int (getModuleFileHeaderSize m), mh), ?s\<lparr>sys := w3\<rparr>)" "evfs_file path (?s\<lparr>sys := w3\<rparr>) ?F"
    using file_read [of path ?s ?F 29 "getModuleFileHeaderSize m"] lmh by auto
  let ?s3 = "?s\<lparr>ctx := (ctx ?s)\<lparr>m_module := Some m0\<rparr>, sys := w3\<rparr>"
  have raw: "rawFileSizeGet (ctx ?s3) m0 = rawFileSizeGet (parsed ver cs n h m (ctx s)) m"
    using m0(4,5) by (simp add: rawFileSizeGet_def parsed_def)
  have size: "be_nat (drop 21 h) = n" using hf(6) lh by simp
  have pos: "0 < getModuleFileHeaderSize m" by (cases m) (simp_all add: dummy_sizes aes_sizes)
  have sizes: "baseFileHeaderSize + 0 + getModuleFileHeaderSize m = header_length m" "rawChunkSizeGet (ctx ?s3) m0 = raw_chunk m cs"
    using m0(4) by (simp_all add: baseFileHeaderSize_def header_length_def rawChunkSizeGet_def raw_chunk_def)
  have l29: "29 \<le> length ?F" using lh by simp
  have parse: "parseHeader s = (do {
        sz \<leftarrow> rawFileSizeGet (parsed ver cs n h m (ctx s)) m;
        Some (Ret (), s\<lparr>ctx := (if sz = u64 (int (length ?F)) then parsed ver cs n h m0 (ctx s)
          else (parsed ver cs n h m0 (ctx s))\<lparr>mIntegrityFullCheck := True, mFileSize := disk_size m cs (length ?F)\<rparr>), sys := w3\<rparr>) })"
  proof -
    obtain l where l: "length ?F = l" by blast
    have rc: "raw_chunk m cs = cs + getChunkHeaderSize m" by (simp add: raw_chunk_def)
    have p: "parseHeader s = (do {
        sz \<leftarrow> rawFileSizeGet (ctx ?s3) m0;
        if sz = u64 (int l) then Some (Ret (), ?s3)
        else Some (Ret (), set_ctx (\<lambda>c. c\<lparr>mIntegrityFullCheck := True, mFileSize := disk_size m cs l\<rparr>) ?s3) })"
      using w1(1) [unfolded l] w2(1) w3(1) m0(1,4,5) pos l29 [unfolded l] lmh size
      by (simp add: parseHeader_def baseFileHeaderSize_def hf moduleFileHeaderSize_suite set_ctx_def Let_def evfs_comm
          disk_size_def header_length_def rawChunkSizeGet_def rc cong: if_cong)
    show ?thesis
      unfolding p raw l by (cases "rawFileSizeGet (parsed ver cs n h m (ctx s)) m") (simp_all add: parsed_def set_ctx_def)
  qed
  have "\<exists>f. pFileStd (ctx s) = Some f \<and> std_handle path f w3 ?F" using w3(2) by (simp add: evfs_file_def)
  with parse m0(2,3,6) show ?thesis by (intro exI [of _ m0] exI [of _ w3]) simp
qed

lemma parseHeader_image:
  fixes s :: "'r evfs" and k :: "'r crypto"
  assumes "evfs_file path s F" "image k m ver cs c F" "module_usable k m" "chunk_size_ok cs" "length c \<le> evfs_limit"
    "ver < 2 ^ 16"
  shows "\<exists>mh m0 w. parseHeader s = Some (Ret (), s\<lparr>ctx := parsed ver cs (length c) (header_bytes m ver cs (length c)) m0 (ctx s),
        sys := w\<rparr>) \<and>
      (\<exists>f. pFileStd (ctx s) = Some f \<and> std_handle path f w F) \<and>
      setModuleSecretMaterial k (module_secret m) m0 = Ret (with_tag mh m) \<and>
      checkIntegrity k (with_tag mh m) (header_bytes m ver cs (length c)) = Some (Ret True) \<and>
      getEncryptionSuite m0 = getEncryptionSuite m"
proof -
  let ?h = "header_bytes m ver cs (length c)"
  obtain mh R where i: "getModuleFileHeader k m ?h = Some (Ret mh)" "F = ?h @ mh @ R"
    "length F = header_length m + rawlen (getChunkHeaderSize m) (chunks cs c)"
    using image_header [OF assms(2,3)] by metis
  have cs: "cs mod 16 = 0" "cs div 16 < 2 ^ 16" using assms(4) by (auto simp: chunk_size_ok_def)
  have l: "length c < 2 ^ 64" using assms(5) by (simp add: evfs_limit_def)
  let ?s4 = "s\<lparr>ctx := parsed ver cs (length c) ?h m (ctx s)\<rparr>"
  have s4: "evfs_params k m cs ?s4" "mFileSize (ctx ?s4) = length c"
    using assms(3,4,6) by (simp_all add: evfs_params_def parsed_def)
  note raw = raw_size [OF s4 assms(5), folded i(3)]
  then have "rawFileSizeGet (parsed ver cs (length c) ?h m (ctx s)) m = Some (u64 (int (length F)))"
    using u64_small [of "length F"] by simp
  with parseHeader_run [OF assms(1) [unfolded i(2)] i(1) assms(3) cs l assms(6)] show ?thesis
    unfolding i(2) [symmetric] by fastforce
qed

lemma new_image:
  fixes k :: "'r crypto"
  assumes "std_handle path f w F" "image k m ver cs c F" "module_usable k m" "chunk_size_ok cs" "length c \<le> evfs_limit"
    "ver < 2 ^ 16"
  shows "\<exists>mh s. VfsEncryption_new k (Some (client_settings k (getEncryptionSuite m) (module_secret m))) f path fl acc w r =
      Some (Ret (), s) \<and> evfs_ok k path (with_tag mh m) cs c s"
proof -
  let ?s0 = "\<lparr>ctx = new_ctx f path acc, sys = w, rng = r\<rparr>"
  have "evfs_file path ?s0 F" using assms(1) by (simp add: evfs_file_def new_ctx_def)
  then obtain w1 where w1: "std_file_size ?s0 = Some (int (length F), ?s0\<lparr>sys := w1\<rparr>)" "evfs_file path (?s0\<lparr>sys := w1\<rparr>) F"
    using file_size by blast
  let ?s1 = "?s0\<lparr>sys := w1\<rparr>" and ?h = "header_bytes m ver cs (length c)"
  obtain mh m0 w2 where p: "parseHeader ?s1 = Some (Ret (), ?s1\<lparr>ctx := parsed ver cs (length c) ?h m0 (ctx ?s1), sys := w2\<rparr>)"
    "\<exists>f. pFileStd (ctx ?s1) = Some f \<and> std_handle path f w2 F"
    "setModuleSecretMaterial k (module_secret m) m0 = Ret (with_tag mh m)"
    "checkIntegrity k (with_tag mh m) ?h = Some (Ret True)" "getEncryptionSuite m0 = getEncryptionSuite m"
    using parseHeader_image [OF w1(2) assms(2-6)] by blast
  let ?s2 = "?s1\<lparr>ctx := parsed ver cs (length c) ?h m0 (ctx ?s1), sys := w2\<rparr>"
  let ?s3 = "?s2\<lparr>ctx := (ctx ?s2)\<lparr>m_module := Some (with_tag mh m)\<rparr>\<rparr>"
  have set: "client_settings k (getEncryptionSuite m) (module_secret m) ?s2 = Some (Ret (), ?s3)"
    using p(3,5) by (simp add: client_settings_def encryptionSuiteSet_def encryptionSuiteGet_def secretMaterialSet_def set_ctx_def parsed_def)
  have F: "0 < length F" using image_header [OF assms(2,3)] length_header_bytes by (metis add_pos_nonneg header_length_def le0 zero_less_numeral)
  have after: "after_settings k fl False ?s3 = Some (Ret (), ?s3)"
    using p(4) assms(4) chunk_size_pos [OF assms(4)]
    by (simp add: after_settings_def check_existing_def new_ctx_def set_ctx_def Let_def parsed_def)
  have "VfsEncryption_new k (Some (client_settings k (getEncryptionSuite m) (module_secret m))) f path fl acc w r =
      Some (Ret (), ?s3)"
    using F w1(1) p(1) set after by (simp add: VfsEncryption_new_def)
  moreover have "evfs_ok k path (with_tag mh m) cs c ?s3"
    using assms(2-6) p(2) by (auto simp: evfs_ok_def evfs_params_def evfs_file_def new_ctx_def parsed_def)
  ultimately show ?thesis by blast
qed

section \<open>A new file\<close>

fun secret_size :: "EncryptionSuite \<Rightarrow> nat" where
  "secret_size dummy = dummy_secretMaterialSize"
| "secret_size aes256gcm128_sha256 = masterKeySize"
| "secret_size s = 0"

text \<open>A suite that encrypts, with a secret of its size.\<close>

definition suite_ok :: "'r crypto \<Rightarrow> EncryptionSuite \<Rightarrow> string \<Rightarrow> bool" where
  "suite_ok k suite secret \<longleftrightarrow> (suite = dummy \<or> suite = aes256gcm128_sha256 \<and> aead_ok k) \<and> length secret = secret_size suite"

lemma module_new:
  assumes "suite_ok k suite secret"
  shows "\<exists>m0 m r'. make_VfsEncryptionModule k suite r = (Ret (Some m0), r') \<and>
    setModuleSecretMaterial k secret m0 = Ret m \<and> module_usable k m \<and> getEncryptionSuite m = suite \<and>
    module_secret m = secret"
proof (cases "suite = dummy")
  case True
  then show ?thesis using assms
    by (simp add: suite_ok_def make_VfsEncryptionModule_def dummy_setModuleSecretMaterial_def dummy_usable_def
        dummy_new_def dummy_sizes)
next
  case False
  then have s: "suite = aes256gcm128_sha256" "aead_ok k" "length secret = masterKeySize" using assms by (auto simp: suite_ok_def)
  obtain salt r' where r: "randomize k fileSaltSize r = (salt, r')" by fastforce
  then have "length salt = fileSaltSize" using s(2) unfolding aead_ok_def by (metis fst_conv)
  with s r show ?thesis
    by (simp add: make_VfsEncryptionModule_def aes_new_def aes_setModuleSecretMaterial_def)
qed

lemma new_file_ok:
  fixes k :: "'r crypto"
  assumes "std_handle path f w []" "suite_ok k suite secret"
  shows "\<exists>m s. VfsEncryption_new k (Some (client_settings k suite secret)) f path fl acc w r = Some (Ret (), s) \<and>
    evfs_ok k path m defaultChunkSize [] s \<and>
    getEncryptionSuite m = suite \<and> module_secret m = secret"
proof -
  let ?s0 = "\<lparr>ctx = new_ctx f path acc, sys = w, rng = r\<rparr>"
  have "evfs_file path ?s0 []" using assms(1) by (simp add: evfs_file_def new_ctx_def)
  then obtain w1 where w1: "std_file_size ?s0 = Some (0, ?s0\<lparr>sys := w1\<rparr>)" "evfs_file path (?s0\<lparr>sys := w1\<rparr>) []"
    using file_size [of path ?s0 "[]"] by auto
  let ?s1 = "?s0\<lparr>sys := w1\<rparr>"
  obtain m0 m r' where m: "make_VfsEncryptionModule k suite r = (Ret (Some m0), r')"
    "setModuleSecretMaterial k secret m0 = Ret m" "module_usable k m" "getEncryptionSuite m = suite" "module_secret m = secret"
    using module_new [OF assms(2), of r] by blast
  let ?s3 = "?s1\<lparr>ctx := (ctx ?s1)\<lparr>m_module := Some m\<rparr>, rng := r'\<rparr>"
  have set: "client_settings k suite secret ?s1 = Some (Ret (), ?s3)"
    using m(1,2) by (simp add: client_settings_def encryptionSuiteSet_def set_new_module_def secretMaterialSet_def set_ctx_def new_ctx_def)
  let ?s4 = "?s3\<lparr>ctx := (ctx ?s3)\<lparr>mChunkSize := defaultChunkSize\<rparr>\<rparr>"
  have cs: "chunk_size_ok defaultChunkSize" by (simp add: chunk_size_ok_def defaultChunkSize_def)
  have s4: "evfs_params k m defaultChunkSize ?s4" "evfs_file path ?s4 []"
    using m(3) cs w1(2) by (simp_all add: evfs_params_def evfs_file_def new_ctx_def BcEncFS_v0100_def)
  obtain f' w' h mh where h: "writeHeader k ?s4 = Some (Ret (), ?s4\<lparr>ctx := (ctx ?s4)\<lparr>r_header := h, pFileStd := Some f'\<rparr>, sys := w'\<rparr>)"
    "std_handle path f' w' (h @ mh)" "getModuleFileHeader k m h = Some (Ret mh)"
    "h = header_bytes m BcEncFS_v0100 defaultChunkSize 0"
    using writeHeader_over [OF s4] by (auto simp: new_ctx_def)
  let ?s5 = "?s4\<lparr>ctx := (ctx ?s4)\<lparr>r_header := h, pFileStd := Some f'\<rparr>, sys := w'\<rparr>"
  have after: "after_settings k fl True ?s3 = Some (Ret (), ?s5)"
    using h(1) by (simp add: after_settings_def check_existing_def new_ctx_def set_ctx_def Let_def)
  have "VfsEncryption_new k (Some (client_settings k suite secret)) f path fl acc w r = Some (Ret (), ?s5)"
    using w1(1) set after by (simp add: VfsEncryption_new_def)
  moreover have "evfs_ok k path m defaultChunkSize [] ?s5"
    using s4(1) h(2-4) by (auto simp: evfs_ok_def evfs_params_def evfs_file_def new_ctx_def image_def)
  ultimately show ?thesis using m(4,5) by blast
qed

section \<open>Through the virtual file system\<close>

text \<open>The object made by the constructor, behind a handle of vfs.c.\<close>

lemma open_ready:
  fixes k :: "'r crypto"
  assumes "set_flags mode = Some fl" "fl AND 3 = O_RDWR \<or> fl AND 3 = O_WRONLY" "\<not> aborted w"
    "bctbx_file_open2 (Some bcStandardVfs_obj) (Some path)
       (if fl AND 3 = O_WRONLY then (fl AND NOT 3) OR O_RDWR else fl) (esys w) = (Some f0, sy)"
    "VfsEncryption_new k cb f0 path (if fl AND 3 = O_WRONLY then (fl AND NOT 3) OR O_RDWR else fl) (fl AND 3) sy (erng w) =
       Some (Ret (), s)" "evfs_ok k path m cs c s"
  shows "\<exists>f w'. bctbx_file_open (Some (bcEncryptedVfs k cb)) (Some path) mode w = Some (Some f, w') \<and>
    evfs.rep k m cs path f w' (c, 0) \<and> gSize f = 0 \<and> fSize f = 0"
proof -
  let ?f = "new_file\<lparr>pMethods := Some (evfs_bcio k), pUserData := Some (next_ctx w)\<rparr>"
  let ?w = "w\<lparr>esys := sys s, erng := rng s, ctxs := (ctxs w)(next_ctx w \<mapsto> ctx s), next_ctx := Suc (next_ctx w)\<rparr>"
  have s: "evfs_ok k path m cs c \<lparr>ctx = ctx s, sys = sys s, rng = rng s\<rparr>" using assms(6) by (cases s) simp
  have "bctbx_file_open (Some (bcEncryptedVfs k cb)) (Some path) mode w = Some (Some ?f, ?w)"
    using assms(1,4,5) by (simp add: bctbx_file_open_def file_open_def bcEncryptedVfs_def evfs_bcOpen_def Let_def
        BCTBX_VFS_OK_def BCTBX_VFS_ERROR_def)
  moreover have "evfs_content k m cs ?w (Some (next_ctx w)) = c"
    by (rule evfs_content_ok [of _ _ "ctx s" k path]) (use s in simp_all)
  moreover have "evfs_ready k path m cs ?w (Some (next_ctx w))" using assms(3) s by (auto simp: evfs_ready_def)
  ultimately show ?thesis
    by (intro exI [of _ ?f] exI [of _ ?w])
      (simp add: evfs.rep_flushed handle_ok_def new_file_def get_cache_ok_def PRINTF_PAGE_SIZE_def)
qed

end
