(* ===== verification/EvfsProps.thy ===== *)
theory EvfsProps
  imports EvfsOpen VfsProps
begin

text \<open>
  The properties of the encrypted file system: behind vfs.c it behaves as a plain file of its content, what is
  written is found again under the same suite and secret, chunks are bound to their place; and its behaviour on
  damaged files and at its edges.
\<close>

unbundle bit_operations_syntax

section \<open>Images\<close>

text \<open>\<open>F\<close> stores \<open>c\<close> under a suite and a secret.\<close>

definition evfs_image :: "'r crypto \<Rightarrow> EncryptionSuite \<Rightarrow> string \<Rightarrow> string \<Rightarrow> string \<Rightarrow> bool" where
  "evfs_image k suite secret c F \<longleftrightarrow>
     (\<exists>m ver cs. getEncryptionSuite m = suite \<and> module_secret m = secret \<and> module_usable k m \<and> chunk_size_ok cs \<and>
        ver < 2 ^ 16 \<and> length c \<le> evfs_limit \<and> image k m ver cs c F)"

lemma close_evfs:
  assumes "evfs.rep k m cs path f w (c, pos)"
  shows "\<exists>g w' F. bctbx_file_close (Some f) w = Some (0, Freed (Some g), w') \<and> \<not> aborted w' \<and>
    files (esys w') path = Some F \<and> evfs_image k (getEncryptionSuite m) (module_secret m) c F"
proof -
  obtain r f1 w1 where f1: "bctbx_file_flush (Some f) w = Some (r, Some f1, w1)" "0 \<le> r" "fSize f1 = 0"
    "evfs.rep k m cs path f1 w1 (c, pos)" "pMethods f1 = Some (evfs_bcio k)"
    using evfs.flush_repE [OF assms] by metis
  then have rd: "evfs_ready k path m cs w1 (pUserData f1)" "evfs_content k m cs w1 (pUserData f1) = c"
    by (auto simp: evfs.rep_flushed)
  obtain a ct where u: "pUserData f1 = Some a" "ctxs w1 a = Some ct" "\<not> aborted w1"
    "evfs_ok k path m cs c \<lparr>ctx = ct, sys = esys w1, rng = erng w1\<rparr>"
    using evfs_readyE [OF rd(1)] rd(2) by metis
  obtain g F where g: "pFileStd ct = Some g" "std_handle path g (esys w1) F" "image k m (mVersionNumber ct) cs c F"
    using u(4) by (auto simp: evfs_ok_def evfs_file_def)
  obtain sy where sy: "bctbx_file_close (Some g) (esys w1) = Some (0, Freed (Some g), sy)" "files sy path = Some F"
    using std_handle_close [OF g(2)] by blast
  have "pFuncClose (evfs_bcio k) (Some a) w1 = (0, w1\<lparr>esys := sy, ctxs := (ctxs w1)(a := None)\<rparr>)"
    using u(2) g(1) sy(1) by (simp add: evfs_bcio_def evfs_bcClose_def BCTBX_VFS_OK_def)
  moreover have "evfs_image k (getEncryptionSuite m) (module_secret m) c F"
    using u(4) g(3) by (auto simp: evfs_image_def evfs_ok_def evfs_params_def)
  ultimately show ?thesis
    using f1(1,2,5) u(1,3) sy(2) by (simp add: bctbx_file_close_def with_flush_def Let_def)
qed

lemma open_evfs_rplus:
  assumes "files (esys w) path = Some F" "evfs_image k suite secret c F" "\<not> aborted w"
  shows "\<exists>f w' m cs. bctbx_file_open (Some (bcEncryptedVfs k (Some (client_settings k suite secret)))) (Some path) ''r+'' w =
      Some (Some f, w') \<and> evfs.rep k m cs path f w' (c, 0) \<and> getEncryptionSuite m = suite \<and> module_secret m = secret \<and>
    gSize f = 0 \<and> fSize f = 0"
proof -
  obtain m ver cs where m: "getEncryptionSuite m = suite" "module_secret m = secret" "module_usable k m" "chunk_size_ok cs"
    "ver < 2 ^ 16" "length c \<le> evfs_limit" "image k m ver cs c F"
    using assms(2) by (auto simp: evfs_image_def)
  have fl: "set_flags ''r+'' = Some O_RDWR" by (simp add: set_flags_def eval_nat_numeral NUL_def)
  have bits: "O_RDWR AND 3 = O_RDWR" "O_RDWR AND O_APPEND = 0" "O_RDWR AND O_TRUNC = 0" "O_RDWR \<noteq> O_WRONLY"
    by (simp_all add: O_RDWR_def O_APPEND_def O_TRUNC_def O_WRONLY_def)
  obtain f0 sy where f0: "bctbx_file_open2 (Some bcStandardVfs_obj) (Some path) O_RDWR (esys w) = (Some f0, sy)"
    "std_handle path f0 sy F"
    using std_open [OF bits(1,2), of "esys w" path F] assms(1) bits(3) by auto
  obtain mh s where s: "VfsEncryption_new k (Some (client_settings k suite secret)) f0 path O_RDWR O_RDWR sy (erng w) =
      Some (Ret (), s)" "evfs_ok k path (with_tag mh m) cs c s"
    using new_image [OF f0(2) m(7,3,4,6,5)] m(1,2) by blast
  obtain f w' where "bctbx_file_open (Some (bcEncryptedVfs k (Some (client_settings k suite secret)))) (Some path) ''r+'' w =
      Some (Some f, w')" "evfs.rep k (with_tag mh m) cs path f w' (c, 0)" "gSize f = 0" "fSize f = 0"
    using open_ready [OF fl _ assms(3) _ _ s(2), of f0 sy "Some (client_settings k suite secret)"] s(1) f0(1) bits by auto
  then show ?thesis using m(1,2)
    by (intro exI [of _ f] exI [of _ w'] exI [of _ "with_tag mh m"] exI [of _ cs]) simp
qed

lemma create_evfs:
  assumes "files (esys w) path = None" "suite_ok k suite secret" "\<not> aborted w"
  shows "\<exists>f w' m. bctbx_file_open (Some (bcEncryptedVfs k (Some (client_settings k suite secret)))) (Some path) ''w+'' w =
      Some (Some f, w') \<and> evfs.rep k m defaultChunkSize path f w' ([], 0) \<and> getEncryptionSuite m = suite \<and> module_secret m = secret"
proof -
  let ?fl = "O_RDWR OR O_CREAT"
  have fl: "set_flags ''w+'' = Some ?fl" by (simp add: set_flags_def eval_nat_numeral NUL_def)
  have bits: "?fl AND 3 = O_RDWR" "?fl AND O_APPEND = 0" "?fl AND O_CREAT \<noteq> 0" "O_RDWR \<noteq> O_WRONLY"
    by (simp_all add: O_RDWR_def O_APPEND_def O_CREAT_def O_WRONLY_def)
  obtain f0 sy where f0: "bctbx_file_open2 (Some bcStandardVfs_obj) (Some path) ?fl (esys w) = (Some f0, sy)"
    "std_handle path f0 sy []"
    using std_open [OF bits(1,2), of "esys w" path "[]"] assms(1) bits(3) by auto
  obtain m s where s: "VfsEncryption_new k (Some (client_settings k suite secret)) f0 path ?fl O_RDWR sy (erng w) =
      Some (Ret (), s)" "evfs_ok k path m defaultChunkSize [] s" "getEncryptionSuite m = suite" "module_secret m = secret"
    using new_file_ok [OF f0(2) assms(2)] by blast
  obtain f w' where "bctbx_file_open (Some (bcEncryptedVfs k (Some (client_settings k suite secret)))) (Some path) ''w+'' w =
      Some (Some f, w')" "evfs.rep k m defaultChunkSize path f w' ([], 0)"
    using open_ready [OF fl _ assms(3) _ _ s(2), of f0 sy "Some (client_settings k suite secret)"] s(1) f0(1) bits by auto
  with s(3,4) show ?thesis by blast
qed

text \<open>Every content has images.\<close>

lemma evfs_image_exists:
  fixes k :: "'r crypto"
  assumes "suite_ok k suite secret" "length c \<le> evfs_limit"
  shows "\<exists>F. evfs_image k suite secret c F"
proof -
  fix r :: 'r
  obtain m where m: "module_usable k m" "getEncryptionSuite m = suite" "module_secret m = secret"
    using module_new [OF assms(1), of r] by blast
  let ?h = "header_bytes m BcEncFS_v0100 defaultChunkSize (length c)"
  obtain mh where mh: "getModuleFileHeader k m ?h = Some (Ret mh)" using module_header [OF m(1)] by blast
  have cs: "chunk_size_ok defaultChunkSize" by (simp add: chunk_size_ok_def defaultChunkSize_def)
  have "0 + length (chunks defaultChunkSize c) \<le> 2 ^ 32" using chunks_bound [OF cs assms(2)] by simp
  from evfs_modules.encrypt_loop_stored [OF m(1) chunk_size_pos [OF cs] this, of 0 r]
  obtain out where "stored (decryptChunk k m) (getChunkHeaderSize m) 0 (chunks defaultChunkSize c) out" by auto
  with mh have "image k m BcEncFS_v0100 defaultChunkSize c (?h @ mh @ out)" by (auto simp: image_def)
  moreover have "BcEncFS_v0100 < 2 ^ 16" by (simp add: BcEncFS_v0100_def)
  ultimately show ?thesis using m cs assms(2) unfolding evfs_image_def by blast
qed

section \<open>A concrete world\<close>

text \<open>A cipher that is none, for evaluation.\<close>

definition demo_crypto :: "unit crypto" where
  "demo_crypto = \<lparr>hmac_sha256 = (\<lambda>key d i. if i < length d then d ! i else CHR ''h''),
     hkdf_sha256 = (\<lambda>salt key info i. CHR ''k''), aead_encrypt = (\<lambda>key IV p ad. (p, replicate 16 (CHR ''t''))),
     aead_decrypt = (\<lambda>key IV c ad tag. if tag = replicate 16 (CHR ''t'') then Some c else None),
     randomize = (\<lambda>n r. (replicate n NUL, r))\<rparr>"

definition demo_secret :: string where
  "demo_secret = ''0123456789abcdef''"

definition demo_eworld :: "string \<Rightarrow> unit eworld" where
  "demo_eworld F = \<lparr>esys = demo_os F, erng = (), ctxs = Map.empty, next_ctx = 0, aborted = False\<rparr>"

definition demo_evfs :: "unit eworld bctbx_vfs_t" where
  "demo_evfs = bcEncryptedVfs demo_crypto (Some (client_settings demo_crypto dummy demo_secret))"

lemma demo_suite_ok: "suite_ok demo_crypto dummy demo_secret"
  by (simp add: suite_ok_def demo_secret_def dummy_secretMaterialSize_def)

section \<open>A damaged chunk\<close>

text \<open>The bytes stored for a chunk behind the headers.\<close>

definition chunk_at :: "evfs_module \<Rightarrow> nat \<Rightarrow> string \<Rightarrow> nat \<Rightarrow> string" where
  "chunk_at m cs R i = take (raw_chunk m cs) (drop (i * raw_chunk m cs) R)"

text \<open>A module that is usable answers for any bytes: a content, or the exception that tells of damage.\<close>

lemma decryptChunk_answers:
  assumes "module_usable k m" "getChunkHeaderSize m < length raw"
  shows "(\<exists>p. decryptChunk k m j raw = Some (Ret p)) \<or> decryptChunk k m j raw = Some (Throw EvfsException)"
proof (cases m)
  case (Dummy d)
  then show ?thesis
    using assms by (auto simp: dummy_decryptChunk_def dummy_checkChunk_def chunkIntegrityTag_def bctbx_hmacSha256_def
        dummy_getChunkIndex_def XORkey_def globalIV_def dummy_usable_def dummy_sizes Let_def)
next
  case (Aes a)
  then show ?thesis
    using assms aes_usable [of k a] by (auto simp: aes_decryptChunk_def aes_sizes Let_def split: option.splits)
qed

lemma decrypt_loop_damaged:
  assumes "module_usable k m" "i + d < 2 ^ 32" "getChunkHeaderSize m < length (chunk_at m cs raw d)"
    "decryptChunk k m (i + d) (chunk_at m cs raw d) = Some (Throw EvfsException)"
  shows "decrypt_loop (decryptChunk k m) (getChunkHeaderSize m) (raw_chunk m cs) i raw = Some (Throw EvfsException)"
  using assms(2-4)
proof (induction d arbitrary: i raw)
  case 0
  then have "getChunkHeaderSize m < length raw" by (simp add: chunk_at_def)
  with 0 show ?case by (subst decrypt_loop.simps) (simp add: chunk_at_def)
next
  case (Suc d)
  have e: "chunk_at m cs raw (Suc d) = chunk_at m cs (drop (raw_chunk m cs) raw) d" by (simp add: chunk_at_def add.commute)
  have "getChunkHeaderSize m < length raw - Suc d * raw_chunk m cs" using Suc.prems(2) by (simp add: chunk_at_def)
  then have h: "getChunkHeaderSize m < length raw" by linarith
  have "getChunkHeaderSize m < raw_chunk m cs" using Suc.prems(2) by (simp add: chunk_at_def)
  with h have "getChunkHeaderSize m < length (take (raw_chunk m cs) raw)" by simp
  note an = decryptChunk_answers [OF assms(1) this, of i]
  have i: "(i + 1) mod 2 ^ 32 = Suc i" using Suc.prems(1) by simp
  have "decrypt_loop (decryptChunk k m) (getChunkHeaderSize m) (raw_chunk m cs) (Suc i) (drop (raw_chunk m cs) raw) =
      Some (Throw EvfsException)"
    using Suc.prems by (intro Suc.IH) (simp_all add: e [symmetric])
  with an h show ?case by (subst decrypt_loop.simps) (auto simp: i [simplified])
qed

text \<open>A run of chunks read at once.\<close>

lemma chunk_at_run: "d < n \<Longrightarrow> chunk_at m cs (take (n * raw_chunk m cs) (drop (a * raw_chunk m cs) R)) d = chunk_at m cs R (a + d)"
proof -
  assume "d < n"
  then have "Suc d * raw_chunk m cs \<le> n * raw_chunk m cs" by (intro mult_le_mono1) simp
  then have "min (raw_chunk m cs) (n * raw_chunk m cs - d * raw_chunk m cs) = raw_chunk m cs" by simp
  then show ?thesis by (simp add: chunk_at_def drop_take add_mult_distrib add.commute)
qed

lemma run_read:
  assumes "evfs_params k m cs s" "evfs_file path s (H @ R)" "length H = header_length m" "a \<le> 2 ^ 32"
  obtains y where "std_file_read n (getChunkOffset (ctx s) m a) s =
    Some ((int (length (take n (drop (a * raw_chunk m cs) R))), take n (drop (a * raw_chunk m cs) R)), s\<lparr>sys := y\<rparr>)"
proof -
  note p = evfs_paramsD [OF assms(1)]
  show ?thesis
    using file_read [OF assms(2) raw_offset_small [OF p(4) assms(4), of m], of n] assms(3)
      chunk_offset(1) [OF p(4) assms(4) p(3,5), of m] that by auto
qed

lemma damaged_read:
  assumes "evfs_params k m cs s" "evfs_file path s (H @ R)" "length H = header_length m"
    and "getChunkHeaderSize m < length (chunk_at m cs R i)" "decryptChunk k m i (chunk_at m cs R i) = Some (Throw EvfsException)"
    and "0 < n" "off + n \<le> evfs_limit" "off div cs \<le> i" "i \<le> (off + n - 1) div cs"
  shows "\<exists>y. evfs_read k off n s = Some (Throw EvfsException, s\<lparr>sys := y\<rparr>)"
proof -
  note p = evfs_paramsD [OF assms(1)]
  let ?a = "off div cs"
  obtain N where N: "N = (off + n - 1) div cs - off div cs + 1" by blast
  note sp = span_arith [OF p(7) assms(6,7) p(4), folded N]
  have lim: "off < evfs_limit" "off + n - 1 < evfs_limit" using assms(6,7) by simp_all
  have ix: "getChunkIndex (ctx s) off = ?a" "getChunkIndex (ctx s) (off + n - 1) = (off + n - 1) div cs"
    using chunk_index [OF p(4) _ p(3)] lim by simp_all
  have u: "u64 (int off + int n - 1) = off + n - 1"
  proof -
    have "int off + int n - 1 = int (off + n - 1)" using assms(6) by simp
    moreover have "off + n - 1 < 2 ^ 64" using lim(2) by (simp add: evfs_limit_def)
    ultimately show ?thesis by (simp only: u64_small)
  qed
  have a: "?a \<le> 2 ^ 32" using sp(1) by simp
  let ?raw = "take (N * raw_chunk m cs) (drop (?a * raw_chunk m cs) R)"
  obtain y where y: "std_file_read (N * raw_chunk m cs) (getChunkOffset (ctx s) m ?a) s =
      Some ((int (length ?raw), ?raw), s\<lparr>sys := y\<rparr>)"
    by (rule run_read [OF assms(1-3) a])
  have d: "i - ?a < N" "?a + (i - ?a) = i" "i < 2 ^ 32" using assms(8,9) sp(1) N by linarith+
  have c: "chunk_at m cs ?raw (i - ?a) = chunk_at m cs R i" using chunk_at_run [OF d(1), of m cs ?a R] unfolding d(2) .
  have "decrypt_loop (decryptChunk k m) (getChunkHeaderSize m) (raw_chunk m cs) ?a ?raw = Some (Throw EvfsException)"
    by (rule decrypt_loop_damaged [OF p(2), where d = "i - ?a"]) (use d(2,3) assms(4,5) c in simp_all)
  then show ?thesis
    using p(1,3,6,7) y
    by (intro exI [of _ y]) (simp add: evfs_read_def ix(1) u [simplified] ix(2) [simplified] sp(4) [simplified])
qed

text \<open>A write needs the content of the chunk it begins in, and of the one it ends in unless that is the end of the file.\<close>

lemma damaged_write:
  assumes "evfs_params k m cs s" "evfs_file path s (H @ R)" "length H = header_length m"
    and "getChunkHeaderSize m < length (chunk_at m cs R i)" "decryptChunk k m i (chunk_at m cs R i) = Some (Throw EvfsException)"
    and "d \<noteq> []" "off + length d \<le> evfs_limit" "off < mFileSize (ctx s)"
    and "off div cs = i \<and> off mod cs \<noteq> 0 \<or>
      (off + length d - 1) div cs = i \<and> (off + length d) mod cs \<noteq> 0 \<and> off + length d < mFileSize (ctx s) \<and>
      (off mod cs = 0 \<or> (\<exists>p. decryptChunk k m (off div cs) (chunk_at m cs R (off div cs)) = Some (Ret p) \<and> off mod cs \<le> length p))"
  shows "\<exists>y. evfs_write k d off s = Some (Throw EvfsException, s\<lparr>sys := y\<rparr>)"
proof -
  note p = evfs_paramsD [OF assms(1)]
  let ?a = "off div cs" and ?l = "(off + length d - 1) div cs" and ?rc = "raw_chunk m cs"
  have n: "0 < length d" using assms(6) by simp
  obtain N where N: "N = ?l - ?a + 1" by blast
  note sp = span_arith [OF p(7) n assms(7) p(4), folded N]
  have le: "?a \<le> ?l" using n by (intro div_le_mono) linarith
  have lim: "off < evfs_limit" "off + length d - 1 < evfs_limit" using n assms(7) by linarith+
  have ix: "getChunkIndex (ctx s) off = ?a" "getChunkIndex (ctx s) (off + length d - 1) = ?l"
    using chunk_index [OF p(4) _ p(3)] lim by simp_all
  have u: "u64 (int off + int (length d) - 1) = off + length d - 1"
  proof -
    have "int off + int (length d) - 1 = int (off + length d - 1)" using n by linarith
    moreover have "off + length d - 1 < 2 ^ 64" using lim(2) by (simp add: evfs_limit_def)
    ultimately show ?thesis by (simp only: u64_small)
  qed
  have a: "?a \<le> 2 ^ 32" "?l < 2 ^ 32 - 1" using sp(1) N le by linarith+
  let ?raw = "take (N * ?rc) (drop (?a * ?rc) R)"
  obtain y where y: "std_file_read (N * ?rc) (getChunkOffset (ctx s) m ?a) s = Some ((int (length ?raw), ?raw), s\<lparr>sys := y\<rparr>)"
    by (rule run_read [OF assms(1-3) a(1)])
  let ?s = "s\<lparr>sys := y\<rparr>"
  have "off mod cs \<le> off" by simp
  then have q: "off - off mod cs \<le> off" "off - off mod cs < off \<longleftrightarrow> off mod cs \<noteq> 0" by linarith+
  have ro: "read_overwritten (off - off mod cs) (N * ?rc) ?a m s = Some (Ret ?raw, ?s)"
    using y assms(8) by (simp add: read_overwritten_def order.strict_trans1 [OF q(1)])
  have c0: "take ?rc ?raw = chunk_at m cs R ?a" using chunk_at_run [of 0 N m cs ?a R] N by (simp add: chunk_at_def)
  have stages: "\<exists>y. andthen (prepend_plain k m (off - off mod cs) off ?a ?raw d ?s) (\<lambda>data s.
      andthen (append_plain k m (off - off mod cs) ?a ?l ?raw data s) g) = Some (Throw EvfsException, s\<lparr>sys := y\<rparr>)" for g
    using assms(9)
  proof (rule disjE)
    assume "?a = i \<and> off mod cs \<noteq> 0"
    then have "prepend_plain k m (off - off mod cs) off ?a ?raw d ?s = Some (Throw EvfsException, ?s)"
      using p(3,6) q(2) c0 assms(5) by (simp add: prepend_plain_def)
    then show ?thesis by auto
  next
    assume e: "?l = i \<and> (off + length d) mod cs \<noteq> 0 \<and> off + length d < mFileSize (ctx s) \<and>
      (off mod cs = 0 \<or> (\<exists>p. decryptChunk k m ?a (chunk_at m cs R ?a) = Some (Ret p) \<and> off mod cs \<le> length p))"
    then have l: "?l = i" and tail: "(off + length d) mod cs \<noteq> 0" and inside: "off + length d < mFileSize (ctx s)"
      and start: "off mod cs = 0 \<or> (\<exists>p. decryptChunk k m ?a (chunk_at m cs R ?a) = Some (Ret p) \<and> off mod cs \<le> length p)"
      by blast+
    obtain data where data: "prepend_plain k m (off - off mod cs) off ?a ?raw d ?s = Some (Ret data, ?s)"
      "length data = off mod cs + length d"
    proof (cases "off mod cs = 0")
      case True
      then show ?thesis using that q(2) by (simp add: prepend_plain_def)
    next
      case False
      with start obtain x where "decryptChunk k m ?a (chunk_at m cs R ?a) = Some (Ret x)" "off mod cs \<le> length x" by blast
      then show ?thesis using that [of "take (off mod cs) x @ d"] False q(2) c0 p(3,6) by (simp add: prepend_plain_def)
    qed
    have mod: "length data mod cs = (off + length d) mod cs" unfolding data(2) by (rule mod_add_left_eq)
    have sz: "length data + (off - off mod cs) < mFileSize (ctx s)" using inside q(1) unfolding data(2) by simp
    have o: "getChunkOffset (ctx s) m ?l - getChunkOffset (ctx s) m ?a = (?l - ?a) * ?rc"
      "getChunkOffset (ctx s) m (u32 (?l + 1)) - getChunkOffset (ctx s) m ?a = N * ?rc"
    proof -
      have l2: "?l \<le> 2 ^ 32" "?l + 1 \<le> 2 ^ 32" "u32 (?l + 1) = ?l + 1" using a(2) by (simp_all add: u32_def)
      note co = chunk_offset(1) [OF p(4) _ p(3,5), of _ m]
      have "?l + 1 = ?a + N" using N le by simp
      then have "(?l + 1) * ?rc = ?a * ?rc + N * ?rc" by (simp add: add_mult_distrib)
      then show "getChunkOffset (ctx s) m (u32 (?l + 1)) - getChunkOffset (ctx s) m ?a = N * ?rc"
        using co [OF l2(2)] co [OF a(1)] l2(3) by simp
      show "getChunkOffset (ctx s) m ?l - getChunkOffset (ctx s) m ?a = (?l - ?a) * ?rc"
        using co [OF l2(1)] co [OF a(1)] by (simp add: diff_mult_distrib)
    qed
    have d: "?l - ?a < N" "?a + (?l - ?a) = ?l" using le N by simp_all
    have run: "chunk_at m cs ?raw (?l - ?a) = chunk_at m cs R i" using chunk_at_run [OF d(1), of m cs ?a R, unfolded d(2)] by (simp only: l)
    have "N * ?rc = (?l - ?a) * ?rc + ?rc" using N by simp
    then have "length ?raw - (?l - ?a) * ?rc \<le> ?rc" by simp
    then have "chunk_at m cs ?raw (?l - ?a) = drop ((?l - ?a) * ?rc) ?raw" by (simp add: chunk_at_def)
    then have "drop ((?l - ?a) * ?rc) ?raw = chunk_at m cs R i" using run by (simp only:)
    moreover have "take (min (N * ?rc) (length ?raw)) ?raw = ?raw" by (rule take_all) simp
    ultimately have cut: "drop ((?l - ?a) * ?rc) (take (min (N * ?rc) (length ?raw)) ?raw) = chunk_at m cs R i"
      by (simp only:)
    have "(?l - ?a) * ?rc \<le> length ?raw"
    proof (rule ccontr)
      assume "\<not> ?thesis"
      then have "drop ((?l - ?a) * ?rc) ?raw = []" by (intro drop_all) linarith
      then have "chunk_at m cs ?raw (?l - ?a) = []" by (simp only: chunk_at_def take_Nil)
      then show False using assms(4) run by simp
    qed
    moreover have "(?l - ?a) * ?rc \<le> N * ?rc" using d(1) by (intro mult_le_mono1) simp
    ultimately have "append_plain k m (off - off mod cs) ?a ?l ?raw data ?s = Some (Throw EvfsException, ?s)"
      using p(3) mod tail sz o cut assms(5) l by (simp add: append_plain_def Let_def bind_require)
    with data(1) show ?thesis by auto
  qed
  have m: "min off (mFileSize (ctx s)) = off" "off - mFileSize (ctx s) = 0" using assms(8) by simp_all
  show ?thesis
    using stages p(1,3,6,7) ro
    by (simp add: evfs_write_def Let_def m ix(1) u [simplified] ix(2) [simplified] sp(4) [simplified] bind_require)
qed

lemma damaged_truncate:
  assumes "evfs_params k m cs s" "evfs_file path s (H @ R)" "length H = header_length m"
    and "decryptChunk k m i (chunk_at m cs R i) = Some (Throw EvfsException)" "mFileSize (ctx s) \<le> evfs_limit"
    and "t < mFileSize (ctx s)" "t div cs = i" "t mod cs \<noteq> 0"
  shows "\<exists>y. evfs_truncate k t s = Some (Throw EvfsException, s\<lparr>sys := y\<rparr>)"
proof -
  note p = evfs_paramsD [OF assms(1)]
  have t: "t < evfs_limit" using assms(5,6) by simp
  have i: "getChunkIndex (ctx s) t = i" "i \<le> 2 ^ 32"
    using chunk_index [OF p(4) t p(3)] index_small [OF p(4) t] assms(7) by simp_all
  obtain y where y: "std_file_read (raw_chunk m cs) (getChunkOffset (ctx s) m i) s =
      Some ((int (length (chunk_at m cs R i)), chunk_at m cs R i), s\<lparr>sys := y\<rparr>)"
    using run_read [OF assms(1-3) i(2), of "raw_chunk m cs"] unfolding chunk_at_def by blast
  have "take (raw_chunk m cs) (chunk_at m cs R i) = chunk_at m cs R i" by (simp add: chunk_at_def)
  then have "cut_last_chunk k m t s = Some (Throw EvfsException, s\<lparr>sys := y\<rparr>)"
    using y i(1) p(3,6) assms(4) by (simp add: cut_last_chunk_def Let_def)
  then show ?thesis using assms(6,8) p(1,3,7) by (intro exI [of _ y]) (simp add: evfs_truncate_def bind_require)
qed

section \<open>Properties\<close>

text \<open>
  C2: An encrypted file opened for update with its suite and its secret behaves as a plain content with a
  position.  Whatever sequence of writes, formatted prints, reads, seeks, size queries and syncs is made through the
  handle (within the sizes that 32-bit chunk indexes admit), every call returns what the specification returns;
  after closing, the file on disk is an encrypted image of exactly the content of the specification, under the same suite and secret.
\<close>

theorem evfs_file_refines_spec:
  assumes "files (esys w) path = Some F" "evfs_image k suite secret c F" "\<not> aborted w"
    and "run_in_range evfs_readable evfs_writable cmds (c, 0)"
  shows "\<exists>f w1 f' w2 g w3 F'.
    bctbx_file_open (Some (bcEncryptedVfs k (Some (client_settings k suite secret)))) (Some path) ''r+'' w = Some (Some f, w1) \<and>
    file_run cmds (Some f) w1 = Some (fst (spec_run cmds (c, 0)), Some f', w2) \<and>
    bctbx_file_close (Some f') w2 = Some (0, Freed (Some g), w3) \<and> \<not> aborted w3 \<and>
    files (esys w3) path = Some F' \<and> evfs_image k suite secret (fst (snd (spec_run cmds (c, 0)))) F'"
proof -
  obtain f w1 m cs where f: "bctbx_file_open (Some (bcEncryptedVfs k (Some (client_settings k suite secret)))) (Some path) ''r+'' w =
      Some (Some f, w1)" "evfs.rep k m cs path f w1 (c, 0)" "getEncryptionSuite m = suite" "module_secret m = secret"
    using open_evfs_rplus [OF assms(1-3)] by blast
  obtain f' w2 where f': "file_run cmds (Some f) w1 = Some (fst (spec_run cmds (c, 0)), Some f', w2)"
    "evfs.rep k m cs path f' w2 (snd (spec_run cmds (c, 0)))"
    using evfs.run_sim [OF f(2) assms(4)] by blast
  obtain c' pos' where e: "snd (spec_run cmds (c, 0)) = (c', pos')" by fastforce
  from close_evfs [OF f'(2) [unfolded e]] f f'(1) e show ?thesis by auto
qed
theorem evfs_file_refines_spec_witness:
  "\<exists>F f w1 f' w2 g w3 F'.
    bctbx_file_open (Some demo_evfs) (Some ''f'') ''r+'' (demo_eworld F) = Some (Some f, w1) \<and>
    file_run [Fprintf 5 '' world'', ReadAt 5 6, WriteAt ''J'' 0, Size] (Some f) w1 =
      Some ([(6, []), (5, ''world''), (1, []), (11, [])], Some f', w2) \<and>
    bctbx_file_close (Some f') w2 = Some (0, Freed (Some g), w3) \<and> \<not> aborted w3 \<and>
    files (esys w3) ''f'' = Some F' \<and> evfs_image demo_crypto dummy demo_secret ''Jello world'' F'"
proof -
  obtain F where F: "evfs_image demo_crypto dummy demo_secret ''hello'' F"
    using evfs_image_exists [OF demo_suite_ok, of "''hello''"] by (auto simp: evfs_limit_def)
  have "run_in_range evfs_readable evfs_writable [Fprintf 5 '' world'', ReadAt 5 6, WriteAt ''J'' 0, Size] (''hello'', 0)"
    by (simp add: evfs_readable_def evfs_writable_def evfs_limit_def)
  from evfs_file_refines_spec [OF _ F _ this, of "demo_eworld F" "''f''"] show ?thesis
    by (simp add: demo_eworld_def demo_os_def demo_evfs_def splice_def Let_def eval_nat_numeral del: file_run.simps) blast
qed

text \<open>
  C3: A file that is created with a suite and a secret, written, closed and opened again with them holds what was
  written: every later call answers as on the content that the first commands made.
\<close>

theorem evfs_create_reopen:
  assumes "files (esys w) path = None" "suite_ok k suite secret" "\<not> aborted w"
    and "run_in_range evfs_readable evfs_writable cmds ([], 0)" "c = fst (snd (spec_run cmds ([], 0)))"
    and "run_in_range evfs_readable evfs_writable later (c, 0)"
  shows "\<exists>f w1 f' w2 g w3 h w4 h' w5.
    bctbx_file_open (Some (bcEncryptedVfs k (Some (client_settings k suite secret)))) (Some path) ''w+'' w = Some (Some f, w1) \<and>
    file_run cmds (Some f) w1 = Some (fst (spec_run cmds ([], 0)), Some f', w2) \<and>
    bctbx_file_close (Some f') w2 = Some (0, Freed (Some g), w3) \<and>
    bctbx_file_open (Some (bcEncryptedVfs k (Some (client_settings k suite secret)))) (Some path) ''r+'' w3 = Some (Some h, w4) \<and>
    file_run later (Some h) w4 = Some (fst (spec_run later (c, 0)), Some h', w5) \<and> \<not> aborted w5"
proof -
  obtain f w1 m where f: "bctbx_file_open (Some (bcEncryptedVfs k (Some (client_settings k suite secret)))) (Some path) ''w+'' w =
      Some (Some f, w1)" "evfs.rep k m defaultChunkSize path f w1 ([], 0)" "getEncryptionSuite m = suite" "module_secret m = secret"
    using create_evfs [OF assms(1-3)] by blast
  obtain f' w2 where f': "file_run cmds (Some f) w1 = Some (fst (spec_run cmds ([], 0)), Some f', w2)"
    "evfs.rep k m defaultChunkSize path f' w2 (snd (spec_run cmds ([], 0)))"
    using evfs.run_sim [OF f(2) assms(4)] by blast
  obtain pos where e: "snd (spec_run cmds ([], 0)) = (c, pos)" using assms(5) by (metis prod.collapse)
  obtain g w3 F where g: "bctbx_file_close (Some f') w2 = Some (0, Freed (Some g), w3)" "\<not> aborted w3"
    "files (esys w3) path = Some F" "evfs_image k suite secret c F"
    using close_evfs [OF f'(2) [unfolded e]] f(3,4) by blast
  obtain h w4 m' cs where h: "bctbx_file_open (Some (bcEncryptedVfs k (Some (client_settings k suite secret)))) (Some path) ''r+'' w3 =
      Some (Some h, w4)" "evfs.rep k m' cs path h w4 (c, 0)"
    using open_evfs_rplus [OF g(3,4,2)] by blast
  obtain h' w5 where "file_run later (Some h) w4 = Some (fst (spec_run later (c, 0)), Some h', w5)"
    "evfs.rep k m' cs path h' w5 (snd (spec_run later (c, 0)))"
    using evfs.run_sim [OF h(2) assms(6)] by blast
  moreover from this(2) have "\<not> aborted w5" by (auto simp: evfs.rep_def evfs_ready_def)
  ultimately show ?thesis using f(1) f'(1) g(1) h(1) by blast
qed

theorem evfs_create_reopen_witness:
  "\<exists>f w1 f' w2 g w3 h w4 h' w5.
    bctbx_file_open (Some demo_evfs) (Some ''g'') ''w+'' (demo_eworld []) = Some (Some f, w1) \<and>
    file_run [Fprintf 0 ''hello'', WriteAt ''J'' 0] (Some f) w1 = Some ([(5, []), (1, [])], Some f', w2) \<and>
    bctbx_file_close (Some f') w2 = Some (0, Freed (Some g), w3) \<and>
    bctbx_file_open (Some demo_evfs) (Some ''g'') ''r+'' w3 = Some (Some h, w4) \<and>
    file_run [ReadAt 9 0, Size] (Some h) w4 = Some ([(5, ''Jello''), (5, [])], Some h', w5) \<and> \<not> aborted w5"
proof -
  let ?cmds = "[Fprintf 0 ''hello'', WriteAt ''J'' 0]"
  have run: "spec_run ?cmds ([], 0) = ([(5, []), (1, [])], ''Jello'', 5)" by (simp add: splice_def Let_def)
  have later: "spec_run [ReadAt 9 0, Size] (''Jello'', 0) = ([(5, ''Jello''), (5, [])], ''Jello'', 0)" by (simp add: Let_def)
  have r: "run_in_range evfs_readable evfs_writable ?cmds ([], 0)"
    "run_in_range evfs_readable evfs_writable [ReadAt 9 0, Size] (''Jello'', 0)"
    by (simp_all add: evfs_readable_def evfs_writable_def evfs_limit_def)
  have c: "''Jello'' = fst (snd (spec_run ?cmds ([], 0)))" by (simp only: run fst_conv snd_conv)
  from evfs_create_reopen [OF _ demo_suite_ok _ r(1) c r(2), of "demo_eworld []" "''g''"] show ?thesis
    unfolding demo_evfs_def
    by (simp add: run later demo_eworld_def demo_os_def del: file_run.simps spec_run.simps)
qed

section \<open>Truncation\<close>

lemma evfs_truncate_ok:
  assumes "evfs_ok k path m cs c s" "n \<le> evfs_limit"
  shows "\<exists>s'. evfs_truncate k n s = Some (Ret (), s') \<and>
    evfs_ok k path m cs (take n c @ replicate (n - length c) NUL) s'"
proof -
  have s: "m_module (ctx s) = Some m" "mFileSize (ctx s) = length c" using assms(1) by (auto simp: evfs_ok_def evfs_params_def)
  consider "length c < n" | "n < length c" | "n = length c" by linarith
  then show ?thesis
  proof cases
    case 1
    then have "[] \<noteq> ([] :: string) \<or> length c < n" "n + length ([] :: string) \<le> evfs_limit" using assms(2) by simp_all
    from evfs_write_ok [OF assms(1) this] obtain s' where "evfs_write k [] n s = Some (Ret (length ([] :: string)), s')"
      "evfs_ok k path m cs (overwrite c n []) s'" by blast
    with 1 s show ?thesis by (simp add: evfs_truncate_def overwrite_def)
  next
    case 2
    with evfs_truncate_shrink [OF assms(1)] show ?thesis by simp
  next
    case 3
    with s assms(1) show ?thesis by (simp add: evfs_truncate_def)
  qed
qed

text \<open>
  C9: Truncating an open encrypted file to a size cuts its content, the chunk of the new end included, or
  extends it with NUL; after closing, the file on disk is an image of the resized content.
\<close>

theorem evfs_truncate_file:
  assumes "files (esys w) path = Some F" "evfs_image k suite secret c F" "\<not> aborted w" "n \<le> evfs_limit"
  shows "\<exists>f w1 f' w2 g w3 F'.
    bctbx_file_open (Some (bcEncryptedVfs k (Some (client_settings k suite secret)))) (Some path) ''r+'' w = Some (Some f, w1) \<and>
    bctbx_file_truncate (Some f) (int n) w1 = Some (0, Some f', w2) \<and>
    bctbx_file_close (Some f') w2 = Some (0, Freed (Some g), w3) \<and> \<not> aborted w3 \<and>
    files (esys w3) path = Some F' \<and> evfs_image k suite secret (take n c @ replicate (n - length c) NUL) F'"
proof -
  obtain f w1 m cs where f: "bctbx_file_open (Some (bcEncryptedVfs k (Some (client_settings k suite secret)))) (Some path) ''r+'' w =
      Some (Some f, w1)" "evfs.rep k m cs path f w1 (c, 0)" "getEncryptionSuite m = suite" "module_secret m = secret"
    "gSize f = 0" "fSize f = 0"
    using open_evfs_rplus [OF assms(1-3)] by blast
  then have r: "evfs_ready k path m cs w1 (pUserData f)" "evfs_content k m cs w1 (pUserData f) = c"
    "pMethods f = Some (evfs_bcio k)" "handle_ok (evfs_bcio k) f"
    by (auto simp: evfs.rep_flushed handle_ok_def)
  obtain a ct where u: "pUserData f = Some a" "ctxs w1 a = Some ct" "\<not> aborted w1"
    "evfs_ok k path m cs c \<lparr>ctx = ct, sys = esys w1, rng = erng w1\<rparr>"
    using evfs_readyE [OF r(1)] r(2) by metis
  let ?c = "take n c @ replicate (n - length c) NUL"
  obtain s where s: "evfs_truncate k n \<lparr>ctx = ct, sys = esys w1, rng = erng w1\<rparr> = Some (Ret (), s)"
    "evfs_ok k path m cs ?c s"
    using evfs_truncate_ok [OF u(4) assms(4)] by blast
  have "andthen (evfs_truncate k (nat (int n)) \<lparr>ctx = ct, sys = esys w1, rng = erng w1\<rparr>) (\<lambda>_ s. Some (Ret 0, s)) = Some (Ret 0, s)"
    using s(1) by simp
  from with_ctx_ready [where f = "\<lambda>s. andthen (evfs_truncate k (nat (int n)) s) (\<lambda>_ s. Some (Ret 0, s))", OF u(2,3) this s(2)]
  obtain w2 where w2: "evfs_bcTruncate k (Some a) (int n) w1 = (0, w2)" "evfs_ready k path m cs w2 (Some a)"
    "evfs_content k m cs w2 (Some a) = ?c"
    by (auto simp: evfs_bcTruncate_def)
  have "bctbx_file_truncate (Some f) (int n) w1 = Some (0, Some f, w2)"
    using r(3) f(6) u(1) w2(1) by (simp add: bctbx_file_truncate_def with_flush_def flush_empty) (simp add: evfs_bcio_def)
  moreover have "evfs.rep k m cs path f w2 (?c, nat (offset f))"
    using w2(2,3) r(4) f(5,6) u(1) by (simp add: evfs.rep_flushed get_cache_ok_def)
  from close_evfs [OF this] f(3,4) obtain g w3 F' where "bctbx_file_close (Some f) w2 = Some (0, Freed (Some g), w3)"
    "\<not> aborted w3" "files (esys w3) path = Some F'" "evfs_image k suite secret ?c F'" by blast
  ultimately show ?thesis using f(1) by blast
qed

theorem evfs_truncate_file_witness:
  "\<exists>F f w1 f' w2 g w3 F'.
    bctbx_file_open (Some demo_evfs) (Some ''f'') ''r+'' (demo_eworld F) = Some (Some f, w1) \<and>
    bctbx_file_truncate (Some f) 4 w1 = Some (0, Some f', w2) \<and>
    bctbx_file_close (Some f') w2 = Some (0, Freed (Some g), w3) \<and> \<not> aborted w3 \<and>
    files (esys w3) ''f'' = Some F' \<and> evfs_image demo_crypto dummy demo_secret ''hell'' F'"
proof -
  obtain F where F: "evfs_image demo_crypto dummy demo_secret ''hello'' F"
    using evfs_image_exists [OF demo_suite_ok, of "''hello''"] by (auto simp: evfs_limit_def)
  have "4 \<le> evfs_limit" by (simp add: evfs_limit_def)
  from evfs_truncate_file [OF _ F _ this, of "demo_eworld F" "''f''"] show ?thesis
    unfolding demo_evfs_def by (simp add: demo_eworld_def demo_os_def) blast
qed

section \<open>Chunks are bound to their place\<close>

text \<open>
  C10: A chunk of the dummy suite is accepted at its own index only: what was encrypted as chunk \<open>i\<close>, or encrypted
  again there, decrypts to its content as chunk \<open>i\<close> and is rejected with an exception as any other.
\<close>

theorem dummy_chunk_bound:
  assumes "dummy_usable d" "i < 2 ^ 32" "j < 2 ^ 32"
    and "encryptChunk k (Dummy d) i p r = Some (Ret raw, r') \<or>
      dummy_decryptChunk k d i old = Some (Ret q) \<and> reencryptChunk k (Dummy d) i old p r = Some (Ret raw, r')"
  shows "decryptChunk k (Dummy d) j raw = Some (if j = i then Ret p else Throw EvfsException)"
proof -
  have raw: "dummy_decryptChunk k d i raw = Some (Ret p)"
    using assms(4) dummy_enc_law [OF assms(1,2), of k p] dummy_reenc_law [OF assms(1), of k i old q p] by auto
  then have ok: "dummy_checkChunk k d i raw = Some True"
    by (auto simp: dummy_decryptChunk_def bind_Some_iff split: if_splits)
  then have "dummy_checkChunk k d j raw = Some (j = i)"
    by (auto simp: dummy_checkChunk_def bind_Some_iff split: if_splits)
  with raw show ?thesis by (cases "j = i") (simp_all add: dummy_decryptChunk_def)
qed

theorem dummy_chunk_bound_witness:
  "\<exists>raw. encryptChunk demo_crypto (Dummy (dummy_new\<lparr>mSecret := demo_secret\<rparr>)) 3 ''hello'' () = Some (Ret raw, ()) \<and>
    decryptChunk demo_crypto (Dummy (dummy_new\<lparr>mSecret := demo_secret\<rparr>)) 3 raw = Some (Ret ''hello'') \<and>
    decryptChunk demo_crypto (Dummy (dummy_new\<lparr>mSecret := demo_secret\<rparr>)) 4 raw = Some (Throw EvfsException)"
proof -
  let ?d = "dummy_new\<lparr>mSecret := demo_secret\<rparr>"
  have u: "dummy_usable ?d" by (simp add: dummy_usable_def dummy_new_def demo_secret_def)
  have "(3 :: nat) < 2 ^ 32" by simp
  from dummy_enc_law [OF u this, of demo_crypto "''hello''"]
  obtain raw where "encryptChunk demo_crypto (Dummy ?d) 3 ''hello'' () = Some (Ret raw, ())" by auto
  with dummy_chunk_bound [OF u, of 3 3 demo_crypto "''hello''" "()" raw "()"]
    dummy_chunk_bound [OF u, of 3 4 demo_crypto "''hello''" "()" raw "()"] show ?thesis by simp
qed

section \<open>Damaged files\<close>

text \<open>Opening a file whose first bytes are a header with its module header, up to the settings.\<close>

lemma open_header:
  fixes k :: "'r crypto" and m :: evfs_module and ver cs n :: nat
  defines "h \<equiv> header_bytes m ver cs n"
  assumes "files sy path = Some (h @ mh @ R)" "getModuleFileHeader k m h = Some (Ret mh)" "module_usable k m"
    "cs mod 16 = 0" "cs div 16 < 2 ^ 16" "n < 2 ^ 64" "ver < 2 ^ 16"
  shows "\<exists>f sy1 m0 sy2. bctbx_file_open2 (Some bcStandardVfs_obj) (Some path) O_RDWR sy = (Some f, sy1) \<and>
    std_handle path f sy2 (h @ mh @ R) \<and>
    setModuleSecretMaterial k (module_secret m) m0 = Ret (with_tag mh m) \<and> getEncryptionSuite m0 = getEncryptionSuite m \<and>
    checkIntegrity k (with_tag mh m) h = Some (Ret True) \<and>
    VfsEncryption_new k cb f path O_RDWR O_RDWR sy1 r = (do {
      sz \<leftarrow> rawFileSizeGet (parsed ver cs n h m (new_ctx f path O_RDWR)) m;
      let s = \<lparr>ctx = (if sz = u64 (int (length (h @ mh @ R))) then parsed ver cs n h m0 (new_ctx f path O_RDWR)
          else (parsed ver cs n h m0 (new_ctx f path O_RDWR))\<lparr>mIntegrityFullCheck := True,
                 mFileSize := disk_size m cs (length (h @ mh @ R))\<rparr>), sys = sy2, rng = r\<rparr>;
      andthen (case cb of None \<Rightarrow> Some (Throw EvfsException, s) | Some g \<Rightarrow> g s) (\<lambda>_ s. after_settings k O_RDWR False s) })"
proof -
  let ?F = "h @ mh @ R"
  have bits: "O_RDWR AND 3 = O_RDWR" "O_RDWR AND O_APPEND = 0" "O_RDWR AND O_TRUNC = 0"
    by (simp_all add: O_RDWR_def O_APPEND_def O_TRUNC_def)
  obtain f sy1 where f: "bctbx_file_open2 (Some bcStandardVfs_obj) (Some path) O_RDWR sy = (Some f, sy1)"
    "std_handle path f sy1 ?F"
    using std_open [OF bits(1,2), of sy path ?F] assms(2) bits(3) by auto
  let ?s0 = "\<lparr>ctx = new_ctx f path O_RDWR, sys = sy1, rng = r\<rparr>"
  have "evfs_file path ?s0 ?F" using f(2) by (simp add: evfs_file_def new_ctx_def)
  then obtain w1 where w1: "std_file_size ?s0 = Some (int (length ?F), ?s0\<lparr>sys := w1\<rparr>)" "evfs_file path (?s0\<lparr>sys := w1\<rparr>) ?F"
    using file_size by blast
  have c: "ctx (?s0\<lparr>sys := w1\<rparr>) = new_ctx f path O_RDWR" "pFileStd (new_ctx f path O_RDWR) = Some f"
    "?s0\<lparr>sys := w1, ctx := x, sys := y\<rparr> = \<lparr>ctx = x, sys = y, rng = r\<rparr>" for x y
    by (simp_all add: new_ctx_def)
  from parseHeader_run [OF w1(2) [unfolded h_def] assms(3) [unfolded h_def] assms(4-8), folded h_def, unfolded c]
  obtain m0 w2 where p: "parseHeader (?s0\<lparr>sys := w1\<rparr>) = (do {
        sz \<leftarrow> rawFileSizeGet (parsed ver cs n h m (new_ctx f path O_RDWR)) m;
        Some (Ret (), \<lparr>ctx = (if sz = u64 (int (length ?F)) then parsed ver cs n h m0 (new_ctx f path O_RDWR)
          else (parsed ver cs n h m0 (new_ctx f path O_RDWR))\<lparr>mIntegrityFullCheck := True, mFileSize := disk_size m cs (length ?F)\<rparr>),
          sys = w2, rng = r\<rparr>) })"
    "std_handle path f w2 ?F" "setModuleSecretMaterial k (module_secret m) m0 = Ret (with_tag mh m)"
    "checkIntegrity k (with_tag mh m) h = Some (Ret True)" "getEncryptionSuite m0 = getEncryptionSuite m"
    by blast
  have "0 < length h" by (simp add: h_def)
  then have l: "0 < int (length ?F)" unfolding length_append by linarith
  have "VfsEncryption_new k cb f path O_RDWR O_RDWR sy1 r = andthen (parseHeader (?s0\<lparr>sys := w1\<rparr>)) (\<lambda>_ s.
      andthen (case cb of None \<Rightarrow> Some (Throw EvfsException, s) | Some g \<Rightarrow> g s) (\<lambda>_ s. after_settings k O_RDWR False s))"
    using l w1(1) by (simp add: VfsEncryption_new_def)
  with f(1) p show ?thesis
    by (intro exI [of _ f] exI [of _ sy1] exI [of _ m0] exI [of _ w2])
      (cases "rawFileSizeGet (parsed ver cs n h m (new_ctx f path O_RDWR)) m"; simp add: Let_def)
qed

text \<open>
  The header of a file is trusted before its integrity is checked.  A header with a chunk size of 0 makes
  opening divide by 0, whatever the rest of the file, the suite and the secret.
\<close>

theorem evfs_zero_chunk_size:
  assumes "files (esys w) path = Some (header_bytes m ver 0 n @ mh @ R)" "\<not> aborted w"
    and "getModuleFileHeader k m (header_bytes m ver 0 n) = Some (Ret mh)" "module_usable k m" "n < 2 ^ 64" "ver < 2 ^ 16"
  shows "\<exists>w'. bctbx_file_open (Some (bcEncryptedVfs k cb)) (Some path) ''r+'' w = Some (None, w') \<and> aborted w'"
proof -
  have z: "(0 :: nat) mod 16 = 0" "(0 :: nat) div 16 < 2 ^ 16" by simp_all
  from open_header [OF assms(1,3,4) z assms(5,6), of cb "erng w"] obtain f sy1 where f:
    "bctbx_file_open2 (Some bcStandardVfs_obj) (Some path) O_RDWR (esys w) = (Some f, sy1)"
    "VfsEncryption_new k cb f path O_RDWR O_RDWR sy1 (erng w) = None"
    by (auto simp: rawFileSizeGet_def parsed_def)
  have fl: "set_flags ''r+'' = Some O_RDWR" by (simp add: set_flags_def eval_nat_numeral NUL_def)
  have bits: "O_RDWR AND 3 = O_RDWR" "O_RDWR \<noteq> O_WRONLY" by (simp_all add: O_RDWR_def O_WRONLY_def)
  show ?thesis using fl bits f
    by (simp add: bctbx_file_open_def file_open_def bcEncryptedVfs_def evfs_bcOpen_def Let_def BCTBX_VFS_OK_def BCTBX_VFS_ERROR_def)
qed

text \<open>A header that says one chunk, and a file that holds another number of bytes, of one chunk at most.\<close>

lemma raw_size_one:
  fixes k :: "'r crypto"
  assumes "module_usable k m" "chunk_size_ok cs" "ver < 2 ^ 16" "0 < n" "n \<le> cs"
  shows "rawFileSizeGet (parsed ver cs n h m c) m = Some (header_length m + (getChunkHeaderSize m + n))"
proof -
  fix w :: os and r :: 'r
  let ?s = "\<lparr>ctx = parsed ver cs n h m c, sys = w, rng = r\<rparr>"
  have "evfs_params k m cs ?s" "mFileSize (ctx ?s) = length (replicate n NUL)" "length (replicate n NUL) \<le> evfs_limit"
    using assms by (simp_all add: evfs_params_def parsed_def chunk_size_ok_def evfs_limit_def)
  note r = raw_size(1) [OF this]
  have "chunks cs (replicate n NUL) = [replicate n NUL]"
    using assms(4,5) chunk_size_pos [OF assms(2)] by (simp add: chunks_Cons)
  with r show ?thesis by simp
qed

lemma disk_size_one:
  assumes "chunk_size_ok cs" "getChunkHeaderSize m < l" "l < raw_chunk m cs"
  shows "disk_size m cs (header_length m + l) = l - getChunkHeaderSize m" "u64 (int (header_length m + l)) = header_length m + l"
proof -
  have small: "l < 2 ^ 63" "header_length m + l < 2 ^ 63"
    using assms(1,3) module_sizes [of m] by (auto simp: chunk_size_ok_def raw_chunk_def header_length_def)
  have "u64 (int (header_length m + l) - int (header_length m)) = l" using small u64_small [of l] by simp
  moreover have "l mod raw_chunk m cs = l" "l div raw_chunk m cs = 0" "0 < l" using assms(2,3) by simp_all
  moreover have "u64 (int l - int (getChunkHeaderSize m)) = l - getChunkHeaderSize m"
    using assms(2) small u64_small [of "l - getChunkHeaderSize m"] by (simp add: of_nat_diff)
  ultimately show "disk_size m cs (header_length m + l) = l - getChunkHeaderSize m"
    unfolding disk_size_def Let_def by simp
  show "u64 (int (header_length m + l)) = header_length m + l" using small by (intro u64_small) simp
qed

text \<open>The settings, and the check of a file that holds one chunk: it only writes the header.\<close>

lemma settings_parsed:
  assumes "setModuleSecretMaterial k (module_secret m) m0 = Ret (with_tag mh m)" "getEncryptionSuite m0 = getEncryptionSuite m"
    "m_module (ctx s) = Some m0"
  shows "client_settings k (getEncryptionSuite m) (module_secret m) s =
    Some (Ret (), s\<lparr>ctx := (ctx s)\<lparr>m_module := Some (with_tag mh m)\<rparr>\<rparr>)"
  using assms by (simp add: client_settings_def encryptionSuiteSet_def encryptionSuiteGet_def secretMaterialSet_def set_ctx_def)

lemma check_one_chunk:
  assumes "evfs_params k m cs s" "evfs_file path s F" "checkIntegrity k m (r_header (ctx s)) = Some (Ret True)"
    "mIntegrityFullCheck (ctx s)" "\<not> mEncryptExistingPlainFile (ctx s)" "0 < mFileSize (ctx s)" "mFileSize (ctx s) < cs"
  shows "\<exists>s' h mh f. after_settings k fl False s = Some (Ret (), s') \<and> std_handle path f (sys s') (h @ mh @ drop (header_length m) F) \<and>
    getModuleFileHeader k m h = Some (Ret mh) \<and> h = header_bytes m (mVersionNumber (ctx s)) cs (mFileSize (ctx s))"
proof -
  note p = evfs_paramsD [OF assms(1)]
  obtain f w h mh where wh: "writeHeader k s = Some (Ret (), s\<lparr>ctx := (ctx s)\<lparr>r_header := h, pFileStd := Some f\<rparr>, sys := w\<rparr>)"
    "std_handle path f w (h @ mh @ drop (header_length m) F)" "getModuleFileHeader k m h = Some (Ret mh)"
    "h = header_bytes m (mVersionNumber (ctx s)) cs (mFileSize (ctx s))"
    using writeHeader_over [OF assms(1,2)] by blast
  let ?s = "s\<lparr>ctx := (ctx s)\<lparr>r_header := h, pFileStd := Some f\<rparr>, sys := w\<rparr>"
  have "getChunkIndex (ctx s) (mFileSize (ctx s)) = 0" using assms(7) p(3) by (simp add: getChunkIndex_def u32_def)
  then have "check_existing k m s = Some (Ret (), ?s)" using wh(1) assms(3,4,6) by (simp add: check_existing_def)
  moreover have "(ctx s)\<lparr>mChunkSize := mChunkSize (ctx s)\<rparr> = ctx s" by simp
  then have "set_ctx (\<lambda>c. c\<lparr>mChunkSize := (if mChunkSize c = 0 then defaultChunkSize else mChunkSize c)\<rparr>) s = s"
    using p(3,7) by (simp add: set_ctx_def)
  ultimately have "after_settings k fl False s = Some (Ret (), ?s)"
    using p(1) assms(5) by (simp add: after_settings_def Let_def)
  with wh(2-4) show ?thesis by (intro exI [of _ ?s] exI [of _ h] exI [of _ mh] exI [of _ f]) simp
qed

text \<open>
  C39: When the size in a header does not agree with the file, opening is to check the integrity of the whole file
  before it writes a new header; but it never looks at chunk 0.  A file of one chunk whose bytes are cut or
  exchanged for any others opens without error, and is given a valid header of its new size.
\<close>

theorem evfs_single_chunk_unchecked:
  assumes "files (esys w) path = Some (header_bytes m ver cs n @ mh @ R)" "\<not> aborted w"
    and "getModuleFileHeader k m (header_bytes m ver cs n) = Some (Ret mh)" "module_usable k m" "chunk_size_ok cs" "ver < 2 ^ 16"
    and "0 < n" "n \<le> cs" "length R \<noteq> getChunkHeaderSize m + n" "getChunkHeaderSize m < length R" "length R < raw_chunk m cs"
  shows "\<exists>f w' mh'. bctbx_file_open (Some (bcEncryptedVfs k (Some (client_settings k (getEncryptionSuite m) (module_secret m)))))
      (Some path) ''r+'' w = Some (Some f, w') \<and> \<not> aborted w' \<and>
    files (esys w') path = Some (header_bytes m ver cs (length R - getChunkHeaderSize m) @ mh' @ R) \<and>
    getModuleFileHeader k m (header_bytes m ver cs (length R - getChunkHeaderSize m)) = Some (Ret mh')"
proof -
  let ?h = "header_bytes m ver cs n" and ?n = "length R - getChunkHeaderSize m"
  have cs: "cs mod 16 = 0" "cs div 16 < 2 ^ 16" "n < 2 ^ 64" using assms(5,8) by (auto simp: chunk_size_ok_def)
  have lmh: "length mh = getModuleFileHeaderSize m" using module_header [OF assms(4), of ?h] assms(3) by auto
  have len: "length (?h @ mh @ R) = header_length m + length R" by (simp add: lmh header_length_def)
  let ?cb = "client_settings k (getEncryptionSuite m) (module_secret m)"
  obtain f sy1 m0 sy2 where o: "bctbx_file_open2 (Some bcStandardVfs_obj) (Some path) O_RDWR (esys w) = (Some f, sy1)"
    "std_handle path f sy2 (?h @ mh @ R)"
    "setModuleSecretMaterial k (module_secret m) m0 = Ret (with_tag mh m)" "getEncryptionSuite m0 = getEncryptionSuite m"
    "checkIntegrity k (with_tag mh m) ?h = Some (Ret True)"
    "VfsEncryption_new k (Some ?cb) f path O_RDWR O_RDWR sy1 (erng w) =
       andthen (?cb \<lparr>ctx = (parsed ver cs n ?h m0 (new_ctx f path O_RDWR))\<lparr>mIntegrityFullCheck := True, mFileSize := ?n\<rparr>,
           sys = sy2, rng = erng w\<rparr>) (\<lambda>_ s. after_settings k O_RDWR False s)"
    using open_header [OF assms(1,3,4) cs assms(6), of "Some ?cb" "erng w"] assms(9)
    unfolding len raw_size_one [OF assms(4-8)] disk_size_one [OF assms(5,10,11)] by auto
  let ?s1 = "\<lparr>ctx = (parsed ver cs n ?h m0 (new_ctx f path O_RDWR))\<lparr>mIntegrityFullCheck := True, mFileSize := ?n\<rparr>,
      sys = sy2, rng = erng w\<rparr>"
  let ?s2 = "?s1\<lparr>ctx := (ctx ?s1)\<lparr>m_module := Some (with_tag mh m)\<rparr>\<rparr>"
  have set: "?cb ?s1 = Some (Ret (), ?s2)" using settings_parsed [OF o(3,4), of ?s1] by (simp add: parsed_def)
  have s2: "evfs_params k (with_tag mh m) cs ?s2" "evfs_file path ?s2 (?h @ mh @ R)"
    using assms(4-6) o(2) by (simp_all add: evfs_params_def evfs_file_def parsed_def new_ctx_def)
  have c: "checkIntegrity k (with_tag mh m) (r_header (ctx ?s2)) = Some (Ret True)" "mIntegrityFullCheck (ctx ?s2)"
    "\<not> mEncryptExistingPlainFile (ctx ?s2)" "0 < mFileSize (ctx ?s2)" "mFileSize (ctx ?s2) < cs"
    using o(5) assms(10,11) by (simp_all add: parsed_def new_ctx_def raw_chunk_def)
  obtain s' h' mh' f' where a: "after_settings k O_RDWR False ?s2 = Some (Ret (), s')"
    "std_handle path f' (sys s') (h' @ mh' @ drop (header_length (with_tag mh m)) (?h @ mh @ R))"
    "getModuleFileHeader k (with_tag mh m) h' = Some (Ret mh')"
    "h' = header_bytes (with_tag mh m) (mVersionNumber (ctx ?s2)) cs (mFileSize (ctx ?s2))"
    using check_one_chunk [OF s2 c, of O_RDWR] by blast
  have "files (sys s') path = Some (header_bytes m ver cs ?n @ mh' @ R)"
    using a(2,4) std_ready_content [of path "sys s'" "pUserData f'"]
    by (auto simp: std_handle_def lmh header_length_def parsed_def)
  moreover have "getModuleFileHeader k m (header_bytes m ver cs ?n) = Some (Ret mh')" using a(3,4) by (simp add: parsed_def)
  moreover have "set_flags ''r+'' = Some O_RDWR" by (simp add: set_flags_def eval_nat_numeral NUL_def)
  moreover have "O_RDWR AND 3 = O_RDWR" "O_RDWR \<noteq> O_WRONLY" by (simp_all add: O_RDWR_def O_WRONLY_def)
  ultimately show ?thesis using o(1,6) set a(1) assms(2)
    by (simp add: bctbx_file_open_def file_open_def bcEncryptedVfs_def evfs_bcOpen_def Let_def BCTBX_VFS_OK_def BCTBX_VFS_ERROR_def)
qed

definition demo_module :: evfs_module where
  "demo_module = Dummy (dummy_new\<lparr>mSecret := demo_secret\<rparr>)"

lemma demo_module_simps [simp]:
  "module_usable k demo_module" "getEncryptionSuite demo_module = dummy" "module_secret demo_module = demo_secret"
  "getChunkHeaderSize demo_module = 16" "header_length demo_module = 45" "raw_chunk demo_module cs = 16 + cs"
  by (simp_all add: demo_module_def dummy_usable_def dummy_new_def demo_secret_def dummy_sizes header_length_def raw_chunk_def)

theorem evfs_zero_chunk_size_witness:
  "\<exists>mh w'. bctbx_file_open (Some demo_evfs) (Some ''f'') ''r+''
     (demo_eworld (header_bytes demo_module 256 0 5 @ mh @ ''anything'')) = Some (None, w') \<and> aborted w'"
proof -
  obtain mh where mh: "getModuleFileHeader demo_crypto demo_module (header_bytes demo_module 256 0 5) = Some (Ret mh)"
    using module_header [of demo_crypto demo_module] by auto
  from evfs_zero_chunk_size [OF _ _ mh, of "demo_eworld (header_bytes demo_module 256 0 5 @ mh @ ''anything'')" "''f''" "''anything''"]
  show ?thesis unfolding demo_evfs_def by (intro exI [of _ mh]) (simp add: demo_eworld_def demo_os_def)
qed

theorem evfs_single_chunk_unchecked_witness:
  "\<exists>mh f w' mh'. bctbx_file_open (Some demo_evfs) (Some ''f'') ''r+''
     (demo_eworld (header_bytes demo_module 256 16 5 @ mh @ ''these are not chunks'')) = Some (Some f, w') \<and> \<not> aborted w' \<and>
    files (esys w') ''f'' = Some (header_bytes demo_module 256 16 4 @ mh' @ ''these are not chunks'')"
proof -
  obtain mh where mh: "getModuleFileHeader demo_crypto demo_module (header_bytes demo_module 256 16 5) = Some (Ret mh)"
    using module_header [of demo_crypto demo_module] by auto
  have four: "length ''these are not chunks'' - getChunkHeaderSize demo_module = 4" by simp
  from evfs_single_chunk_unchecked [OF _ _ mh, of "demo_eworld (header_bytes demo_module 256 16 5 @ mh @ ''these are not chunks'')"
      "''f''" "''these are not chunks''", unfolded four]
  show ?thesis unfolding demo_evfs_def
    by (intro exI [of _ mh]) (auto simp: demo_eworld_def demo_os_def chunk_size_ok_def)
qed

text \<open>
  C40: A chunk that fails its integrity check, anywhere in the file.  Every read of which it holds a byte returns an error,
  wherever it begins and whatever the other chunks hold.  But the exception is not caught in the other callbacks and escapes
  into the C code of vfs.c: for a write that begins inside of the chunk, or one that ends inside of it with content behind (and
  whose own first chunk is read without error), and for a truncation that cuts the chunk.  A write that covers the whole
  chunk is not among them.
\<close>

theorem evfs_damaged_chunk:
  assumes "ctxs w a = Some ct" "\<not> aborted w" "s = \<lparr>ctx = ct, sys = esys w, rng = erng w\<rparr>"
    and "evfs_params k m cs s" "evfs_file path s (H @ R)" "length H = header_length m" "mFileSize ct \<le> evfs_limit"
    and "getChunkHeaderSize m < length (chunk_at m cs R i)" "decryptChunk k m i (chunk_at m cs R i) = Some (Throw EvfsException)"
  shows "(0 < n \<and> off + n \<le> evfs_limit \<and> off div cs \<le> i \<and> i \<le> (off + n - 1) div cs \<longrightarrow>
      (\<exists>w'. evfs_bcRead k (Some a) n (int off) w = (BCTBX_VFS_ERROR, [], w') \<and> \<not> aborted w')) \<and>
    (d \<noteq> [] \<and> off + length d \<le> evfs_limit \<and> off < mFileSize ct \<and>
      (off div cs = i \<and> off mod cs \<noteq> 0 \<or>
       (off + length d - 1) div cs = i \<and> (off + length d) mod cs \<noteq> 0 \<and> off + length d < mFileSize ct \<and>
       (off mod cs = 0 \<or> (\<exists>p. decryptChunk k m (off div cs) (chunk_at m cs R (off div cs)) = Some (Ret p) \<and>
          off mod cs \<le> length p))) \<longrightarrow>
      (\<exists>w'. evfs_bcWrite k (Some a) d (int off) w = (BCTBX_VFS_ERROR, w') \<and> aborted w')) \<and>
    (off < mFileSize ct \<and> off div cs = i \<and> off mod cs \<noteq> 0 \<longrightarrow>
      (\<exists>w'. evfs_bcTruncate k (Some a) (int off) w = (BCTBX_VFS_ERROR, w') \<and> aborted w'))"
proof (intro conjI impI)
  assume r: "0 < n \<and> off + n \<le> evfs_limit \<and> off div cs \<le> i \<and> i \<le> (off + n - 1) div cs"
  then obtain y where "evfs_read k off n s = Some (Throw EvfsException, s\<lparr>sys := y\<rparr>)"
    using damaged_read [OF assms(4-6,8,9)] by blast
  moreover have "u64 (int off) = off" using r by (intro u64_small) (simp add: evfs_limit_def)
  ultimately show "\<exists>w'. evfs_bcRead k (Some a) n (int off) w = (BCTBX_VFS_ERROR, [], w') \<and> \<not> aborted w'"
    using assms(1-3) by (simp add: evfs_bcRead_def with_ctx_def Let_def)
next
  assume "d \<noteq> [] \<and> off + length d \<le> evfs_limit \<and> off < mFileSize ct \<and>
      (off div cs = i \<and> off mod cs \<noteq> 0 \<or>
       (off + length d - 1) div cs = i \<and> (off + length d) mod cs \<noteq> 0 \<and> off + length d < mFileSize ct \<and>
       (off mod cs = 0 \<or> (\<exists>p. decryptChunk k m (off div cs) (chunk_at m cs R (off div cs)) = Some (Ret p) \<and>
          off mod cs \<le> length p)))"
  then obtain y where "evfs_write k d off s = Some (Throw EvfsException, s\<lparr>sys := y\<rparr>)"
    using damaged_write [OF assms(4-6,8,9), of d off] assms(3) by auto
  then show "\<exists>w'. evfs_bcWrite k (Some a) d (int off) w = (BCTBX_VFS_ERROR, w') \<and> aborted w'"
    using assms(1-3) by (simp add: evfs_bcWrite_def with_ctx_def Let_def)
next
  assume "off < mFileSize ct \<and> off div cs = i \<and> off mod cs \<noteq> 0"
  then obtain y where "evfs_truncate k off s = Some (Throw EvfsException, s\<lparr>sys := y\<rparr>)"
    using damaged_truncate [OF assms(4-6,9), of off] assms(3,7) by auto
  then show "\<exists>w'. evfs_bcTruncate k (Some a) (int off) w = (BCTBX_VFS_ERROR, w') \<and> aborted w'"
    using assms(1-3) by (simp add: evfs_bcTruncate_def with_ctx_def Let_def)
qed

text \<open>Two chunks of 16 bytes; the second one holds a tag that is not the one of its content.\<close>

definition demo_damaged :: "os bctbx_vfs_file_t \<Rightarrow> os \<Rightarrow> unit eworld" where
  "demo_damaged f sy = \<lparr>esys = sy, erng = (), ctxs = [0 \<mapsto> parsed 256 16 21 [] demo_module (new_ctx f ''f'' O_RDWR)],
     next_ctx = 1, aborted = False\<rparr>"

theorem evfs_damaged_chunk_witness:
  "\<exists>f sy w1 w2 w3 w4. bctbx_file_open2 (Some bcStandardVfs_obj) (Some ''f'') O_RDWR
      (demo_os (replicate 45 (CHR ''h'') @ replicate 53 (CHR ''x''))) = (Some f, sy) \<and>
    evfs_bcRead demo_crypto (Some 0) 4 14 (demo_damaged f sy) = (BCTBX_VFS_ERROR, [], w1) \<and> \<not> aborted w1 \<and>
    evfs_bcWrite demo_crypto (Some 0) ''J'' 18 (demo_damaged f sy) = (BCTBX_VFS_ERROR, w2) \<and> aborted w2 \<and>
    evfs_bcWrite demo_crypto (Some 0) ''J'' 16 (demo_damaged f sy) = (BCTBX_VFS_ERROR, w3) \<and> aborted w3 \<and>
    evfs_bcTruncate demo_crypto (Some 0) 18 (demo_damaged f sy) = (BCTBX_VFS_ERROR, w4) \<and> aborted w4"
proof -
  let ?H = "replicate 45 (CHR ''h'')" and ?R = "replicate 53 (CHR ''x'')"
  obtain f sy where f: "bctbx_file_open2 (Some bcStandardVfs_obj) (Some ''f'') O_RDWR (demo_os (?H @ ?R)) = (Some f, sy)"
    "std_handle ''f'' f sy (?H @ ?R)"
    using std_open [of O_RDWR "demo_os (?H @ ?R)" "''f''" "?H @ ?R"]
    by (auto simp: demo_os_def O_RDWR_def O_APPEND_def O_TRUNC_def)
  let ?ct = "parsed 256 16 21 [] demo_module (new_ctx f ''f'' O_RDWR)"
  let ?s = "\<lparr>ctx = ?ct, sys = sy, rng = ()\<rparr>"
  have s: "evfs_params demo_crypto demo_module 16 ?s" "evfs_file ''f'' ?s (?H @ ?R)" "length ?H = header_length demo_module"
    using f(2) by (simp_all add: evfs_params_def parsed_def chunk_size_ok_def evfs_file_def new_ctx_def)
  have x: "chunk_at demo_module 16 ?R 1 = replicate 21 (CHR ''x'')" by (simp add: chunk_at_def)
  have "replicate 4 (CHR ''x'') = ''xxxx''" by (simp add: numeral_eq_Suc)
  then have b: "be_nat (replicate 4 (CHR ''x'')) \<noteq> 1" by (simp add: be_nat_def)
  have d: "decryptChunk demo_crypto demo_module 1 (chunk_at demo_module 16 ?R 1) = Some (Throw EvfsException)"
    unfolding x
    using b by (simp add: demo_module_def dummy_decryptChunk_def dummy_checkChunk_def chunkIntegrityTag_def bctbx_hmacSha256_def
        demo_crypto_def demo_secret_def dummy_sizes dummy_getChunkIndex_def bind_require)
  have w: "ctxs (demo_damaged f sy) 0 = Some ?ct" "\<not> aborted (demo_damaged f sy)"
    "?s = \<lparr>ctx = ?ct, sys = esys (demo_damaged f sy), rng = erng (demo_damaged f sy)\<rparr>" "mFileSize ?ct \<le> evfs_limit"
    "getChunkHeaderSize demo_module < length (chunk_at demo_module 16 ?R 1)"
    unfolding x by (simp_all add: demo_damaged_def parsed_def evfs_limit_def)
  note dc = evfs_damaged_chunk [OF w(1-3) s w(4,5) d]
  have sz: "mFileSize ?ct = 21" by (simp add: parsed_def)
  have "\<exists>w'. evfs_bcRead demo_crypto (Some 0) 4 14 (demo_damaged f sy) = (BCTBX_VFS_ERROR, [], w') \<and> \<not> aborted w'"
    using dc [of 4 14 "[]"] by (simp add: evfs_limit_def)
  moreover have "\<exists>w'. evfs_bcWrite demo_crypto (Some 0) ''J'' 18 (demo_damaged f sy) = (BCTBX_VFS_ERROR, w') \<and> aborted w'"
    using dc [of 1 18 "''J''"] by (simp add: evfs_limit_def sz)
  moreover have "\<exists>w'. evfs_bcWrite demo_crypto (Some 0) ''J'' 16 (demo_damaged f sy) = (BCTBX_VFS_ERROR, w') \<and> aborted w'"
    using dc [of 1 16 "''J''"] by (simp add: evfs_limit_def sz)
  moreover have "\<exists>w'. evfs_bcTruncate demo_crypto (Some 0) 18 (demo_damaged f sy) = (BCTBX_VFS_ERROR, w') \<and> aborted w'"
    using dc [of 1 18 "''J''"] by (simp add: evfs_limit_def sz)
  ultimately show ?thesis using f(1) by blast
qed

end
