(* ===== verification/Tester.thy ===== *)
theory Tester
  imports PortStr
begin

text \<open>
  The runner of test suites, src/tester.c, first part: the table of suites, the selection of suites and tests, and
  their registration.  Tests and suites are constant data of the client, so that a pointer to one is its value.
  The static variables of the file are the record \<open>tester\<close>.  The framework BCUnit is a parameter, the record
  \<open>bcunit\<close> of the calls the file makes; \<open>bcunit_ok\<close> says what its documentation promises, with the registered
  suites as a list.  A list of the library is the list of its data.
\<close>

section \<open>Data\<close>

record test_t =
  name_of_test :: string
  func :: "nat option"
  tags :: "string option \<times> string option"

record test_suite_t =
  name_of_suite :: string
  before_all :: "nat option"
  after_all :: "nat option"
  before_each :: "nat option"
  after_each :: "nat option"
  nb_tests :: int
  tests :: "test_t list"
  average_time :: int
  cpu_weight :: int

definition TEST_NO_TAG :: "string \<Rightarrow> nat option \<Rightarrow> test_t" where
  "TEST_NO_TAG n f = \<lparr>name_of_test = n, func = f, tags = (None, None)\<rparr>"

definition TEST_ONE_TAG :: "string \<Rightarrow> nat option \<Rightarrow> string \<Rightarrow> test_t" where
  "TEST_ONE_TAG n f tag = \<lparr>name_of_test = n, func = f, tags = (Some tag, None)\<rparr>"

definition TEST_TWO_TAGS :: "string \<Rightarrow> nat option \<Rightarrow> string \<Rightarrow> string \<Rightarrow> test_t" where
  "TEST_TWO_TAGS n f tag1 tag2 = \<lparr>name_of_test = n, func = f, tags = (Some tag1, Some tag2)\<rparr>"

text \<open>
  The static variables.  \<open>test_suite\<close> is the block of pointers, \<open>None\<close> being a cell that was never written;
  \<open>printed\<close> is what was given to \<open>bc_tester_printf\<close>, with its level.  \<open>origin_argc\<close> is the length of \<open>origin_argv\<close>.
\<close>

record tester =
  test_suite :: "test_suite_t option list option"
  nb_test_suites :: nat
  suites_to_run :: "string list"
  suites_to_exclude :: "string list"
  tags_to_run :: "string list"
  test_name :: "string option"
  expected_res :: "string option"
  log_file_name :: "string option"
  xml_file :: string
  xml_enabled :: bool
  max_vm_kb :: "64 word"
  run_skipped_tests :: bool
  max_parallel_suites :: int
  run_in_parallel :: bool
  globalTimeout :: "64 word"
  max_failed_tests_threshold :: int
  origin_argv :: "string list option"
  bc_tester_resource_dir_prefix :: "string option"
  bc_tester_writable_dir_prefix :: "string option"
  bc_current_suite_name :: "string option"
  bc_current_test_name :: "string option"
  bc_printf_verbosity_info :: int
  bc_printf_verbosity_error :: int
  printed :: "(int \<times> string) list"

definition initial_tester :: tester where
  "initial_tester = \<lparr>test_suite = None, nb_test_suites = 0, suites_to_run = [], suites_to_exclude = [],
     tags_to_run = [], test_name = None, expected_res = None, log_file_name = None,
     xml_file = ''BCUnitAutomated'', xml_enabled = False, max_vm_kb = 0, run_skipped_tests = False,
     max_parallel_suites = 0, run_in_parallel = False, globalTimeout = 0, max_failed_tests_threshold = 0,
     origin_argv = None, bc_tester_resource_dir_prefix = None, bc_tester_writable_dir_prefix = None,
     bc_current_suite_name = None, bc_current_test_name = None, bc_printf_verbosity_info = 0,
     bc_printf_verbosity_error = 0, printed = []\<rparr>"

definition bc_tester_printf :: "int \<Rightarrow> string \<Rightarrow> tester \<Rightarrow> tester" where
  "bc_tester_printf level msg st = st\<lparr>printed := printed st @ [(level, msg)]\<rparr>"

definition strcasecmp :: "string \<Rightarrow> string \<Rightarrow> int" where
  "strcasecmp a b = strcmp (List.map tolower a) (List.map tolower b)"

section \<open>The table of suites\<close>

text \<open>A cell of the block: it must exist and have been written.\<close>

definition suite_at :: "test_suite_t option list \<Rightarrow> nat \<Rightarrow> test_suite_t option" where
  "suite_at block i = (if i < length block then block ! i else None)"

definition put_cell :: "test_suite_t option list \<Rightarrow> nat \<Rightarrow> test_suite_t \<Rightarrow> test_suite_t option list option" where
  "put_cell block i s = (if i < length block then Some (block[i := Some s]) else None)"

function insert_index_loop :: "test_suite_t option list \<Rightarrow> nat \<Rightarrow> int \<Rightarrow> nat \<Rightarrow> nat option" where
  "insert_index_loop block n avg i =
     (if i < n
      then (case suite_at block i of
              None \<Rightarrow> None
            | Some s \<Rightarrow> if average_time s \<ge> avg then insert_index_loop block n avg (i + 1) else Some i)
      else Some i)"
  by pat_completeness auto
termination by (relation "measure (\<lambda>(_, n, _, i). n - i)") auto

declare insert_index_loop.simps [simp del]

fun move_loop :: "test_suite_t option list \<Rightarrow> nat \<Rightarrow> nat \<Rightarrow> test_suite_t option list option" where
  "move_loop block insert_index move_index =
     (if move_index \<ge> insert_index + 1
      then do {
        s \<leftarrow> suite_at block (move_index - 1);
        b \<leftarrow> put_cell block move_index s;
        move_loop b insert_index (move_index - 1) }
      else Some block)"

declare move_loop.simps [simp del]

definition realloc_block :: "test_suite_t option list \<Rightarrow> nat \<Rightarrow> test_suite_t option list" where
  "realloc_block block n = take n block @ replicate (n - length block) None"

definition bc_tester_add_suite :: "test_suite_t \<Rightarrow> tester \<Rightarrow> tester option" where
  "bc_tester_add_suite suite st = do {
     let block = (case test_suite st of None \<Rightarrow> replicate 10 None | Some b \<Rightarrow> b);
     let n = nb_test_suites st;
     insert_index \<leftarrow> insert_index_loop block n (average_time suite) 0;
     b1 \<leftarrow> (if insert_index < n then move_loop block insert_index n else Some block);
     b2 \<leftarrow> put_cell b1 insert_index suite;
     let b3 = (if (n + 1) mod 10 = 0 then realloc_block b2 (n + 1 + 10) else b2);
     Some (st\<lparr>test_suite := Some b3, nb_test_suites := n + 1\<rparr>) }"

fun add_suites :: "test_suite_t list \<Rightarrow> tester \<Rightarrow> tester option" where
  "add_suites [] st = Some st"
| "add_suites (s # ss) st = Option.bind (bc_tester_add_suite s st) (add_suites ss)"

text \<open>The access \<open>test_suite[i]\<close>.\<close>

definition suite_cell :: "tester \<Rightarrow> nat \<Rightarrow> test_suite_t option" where
  "suite_cell st i = (case test_suite st of None \<Rightarrow> None | Some b \<Rightarrow> suite_at b i)"

definition bc_tester_nb_suites :: "tester \<Rightarrow> nat" where
  "bc_tester_nb_suites st = nb_test_suites st"

definition bc_tester_suite_name :: "tester \<Rightarrow> int \<Rightarrow> string option option" where
  "bc_tester_suite_name st suite_index =
     (if suite_index \<ge> int (nb_test_suites st) then Some None
      else if suite_index < 0 then None
      else map_option (\<lambda>s. Some (name_of_suite s)) (suite_cell st (nat suite_index)))"

function suite_index_loop :: "tester \<Rightarrow> string \<Rightarrow> nat \<Rightarrow> int option" where
  "suite_index_loop st suite_name i =
     (if i < nb_test_suites st
      then (case suite_cell st i of
              None \<Rightarrow> None
            | Some s \<Rightarrow> if strcasecmp suite_name (name_of_suite s) = 0 then Some (int i)
                         else suite_index_loop st suite_name (i + 1))
      else Some (-1))"
  by pat_completeness auto
termination by (relation "measure (\<lambda>(st, _, i). nb_test_suites st - i)") auto

declare suite_index_loop.simps [simp del]

definition bc_tester_suite_index :: "tester \<Rightarrow> string \<Rightarrow> int option" where
  "bc_tester_suite_index st suite_name = suite_index_loop st suite_name 0"

section \<open>The tests of a suite\<close>

text \<open>The access \<open>suite->tests[i]\<close>.\<close>

definition test_at :: "test_suite_t \<Rightarrow> int \<Rightarrow> test_t option" where
  "test_at suite i = (if 0 \<le> i \<and> nat i < length (tests suite) then Some (tests suite ! nat i) else None)"

function test_index_loop :: "test_suite_t \<Rightarrow> string \<Rightarrow> int \<Rightarrow> int option" where
  "test_index_loop suite n i =
     (if i < nb_tests suite
      then (case test_at suite i of
              None \<Rightarrow> None
            | Some t \<Rightarrow> if strcasecmp n (name_of_test t) = 0 then Some i else test_index_loop suite n (i + 1))
      else Some (-1))"
  by pat_completeness auto
termination by (relation "measure (\<lambda>(suite, _, i). nat (nb_tests suite - i))") auto

declare test_index_loop.simps [simp del]

definition bc_tester_test_index :: "test_suite_t \<Rightarrow> string \<Rightarrow> int option" where
  "bc_tester_test_index suite n = test_index_loop suite n 0"

definition tag_list :: "test_t \<Rightarrow> string option list" where
  "tag_list t = [fst (tags t), snd (tags t)]"

fun skip_loop :: "bool \<Rightarrow> string option list \<Rightarrow> bool \<Rightarrow> bool" where
  "skip_loop run_skipped [] skip = skip"
| "skip_loop run_skipped (tag # ts) skip =
     skip_loop run_skipped ts
       (case tag of
          None \<Rightarrow> skip
        | Some tag \<Rightarrow> if strcasecmp ''Skip'' tag = 0 \<and> \<not> run_skipped then True else skip)"

definition bc_tester_test_name :: "tester \<Rightarrow> string \<Rightarrow> int \<Rightarrow> string option option" where
  "bc_tester_test_name st suite_name test_index = do {
     suite_index \<leftarrow> bc_tester_suite_index st suite_name;
     if suite_index < 0 \<or> suite_index \<ge> int (nb_test_suites st) then Some None
     else do {
       suite \<leftarrow> suite_cell st (nat suite_index);
       if test_index \<ge> nb_tests suite then Some None
       else do {
         t \<leftarrow> test_at suite test_index;
         Some (if skip_loop (run_skipped_tests st) (tag_list t) False then None else Some (name_of_test t)) } } }"

definition bc_tester_nb_tests :: "tester \<Rightarrow> string \<Rightarrow> int option" where
  "bc_tester_nb_tests st suite_name = do {
     i \<leftarrow> bc_tester_suite_index st suite_name;
     if i < 0 then Some 0 else map_option nb_tests (suite_cell st (nat i)) }"

function list_suites_loop :: "nat \<Rightarrow> tester \<Rightarrow> tester option" where
  "list_suites_loop j st =
     (if j < nb_test_suites st
      then (case bc_tester_suite_name st (int j) of
              Some (Some n) \<Rightarrow> list_suites_loop (j + 1) (bc_tester_printf (bc_printf_verbosity_info st) n st)
            | _ \<Rightarrow> None)
      else Some st)"
  by pat_completeness auto
termination by (relation "measure (\<lambda>(j, st). nb_test_suites st - j)") (auto simp: bc_tester_printf_def)

declare list_suites_loop.simps [simp del]

definition bc_tester_list_suites :: "tester \<Rightarrow> tester option" where
  "bc_tester_list_suites st = list_suites_loop 0 st"

text \<open>The loop asks for the number of tests at every turn; it never changes.\<close>

fun list_tests_loop :: "string \<Rightarrow> nat \<Rightarrow> int \<Rightarrow> tester \<Rightarrow> tester option" where
  "list_tests_loop suite_name 0 j st = Some st"
| "list_tests_loop suite_name (Suc k) j st = do {
     n \<leftarrow> bc_tester_test_name st suite_name j;
     list_tests_loop suite_name k (j + 1)
       (case n of None \<Rightarrow> st | Some n \<Rightarrow> bc_tester_printf (bc_printf_verbosity_info st) n st) }"

definition bc_tester_list_tests :: "string \<Rightarrow> tester \<Rightarrow> tester option" where
  "bc_tester_list_tests suite_name st = do {
     n \<leftarrow> bc_tester_nb_tests st suite_name;
     list_tests_loop suite_name (nat n) 0 st }"

definition bc_tester_current_test_tags :: "tester \<Rightarrow> (string option \<times> string option) option option" where
  "bc_tester_current_test_tags st =
     (case (bc_current_suite_name st, bc_current_test_name st) of
        (Some s, Some t) \<Rightarrow> do {
          suite_index \<leftarrow> bc_tester_suite_index st s;
          _ \<leftarrow> require (0 \<le> suite_index);
          suite \<leftarrow> suite_cell st (nat suite_index);
          test_index \<leftarrow> bc_tester_test_index suite t;
          t \<leftarrow> test_at suite test_index;
          Some (Some (tags t)) }
      | _ \<Rightarrow> Some None)"

section \<open>Which tests are enabled\<close>

text \<open>The walk over the wanted tags for one tag of the test: \<open>Some b\<close> when the function returns \<open>b\<close>.\<close>

fun match_loop :: "string \<Rightarrow> string option list \<Rightarrow> bool option" where
  "match_loop t [] = None"
| "match_loop t (None # it) = match_loop t it"
| "match_loop t (Some tag # it) =
     (if cat tag 0 = CHR ''!''
      then if strcasecmp t (drop 1 tag) = 0 then Some False else match_loop t it
      else if strcasecmp t tag = 0 then Some True else match_loop t it)"

fun enabled_loop :: "bool \<Rightarrow> string option list \<Rightarrow> string option list \<Rightarrow> bool \<Rightarrow> bool" where
  "enabled_loop run_skipped [] wanted enabled = enabled"
| "enabled_loop run_skipped (None # ts) wanted enabled = enabled"
| "enabled_loop run_skipped (Some t # ts) wanted enabled =
     (if strcasecmp t ''skip'' = 0 \<and> \<not> run_skipped then False
      else case match_loop t wanted of
             Some b \<Rightarrow> b
           | None \<Rightarrow> enabled_loop run_skipped ts wanted enabled)"

definition test_enabled :: "tester \<Rightarrow> test_t \<Rightarrow> string option list \<Rightarrow> bool" where
  "test_enabled st t wanted = enabled_loop (run_skipped_tests st) (tag_list t) wanted (wanted = [])"

section \<open>BCUnit\<close>

text \<open>A registered suite; its functions in the order set-up, tear-down, before and after each test.\<close>

record CU_Suite =
  pName :: string
  hooks :: "nat option list"
  pUserSuite :: "test_suite_t option"
  pTests :: "(string \<times> nat option) list"

record 'r bcunit =
  CU_registry_initialized :: "'r \<Rightarrow> bool"
  CU_initialize_registry :: "'r \<Rightarrow> int \<times> 'r"
  CU_get_error :: "'r \<Rightarrow> int"
  CU_add_suite_with_setup_and_teardown :: "string \<Rightarrow> nat option list \<Rightarrow> 'r \<Rightarrow> nat option \<times> 'r"
  set_pUserData :: "nat \<Rightarrow> test_suite_t \<Rightarrow> 'r \<Rightarrow> 'r"
  CU_add_test :: "nat \<Rightarrow> string \<Rightarrow> nat option \<Rightarrow> 'r \<Rightarrow> nat option \<times> 'r"
  uiNumberOfSuites :: "'r \<Rightarrow> nat"
  CU_get_suite_at_pos :: "nat \<Rightarrow> 'r \<Rightarrow> CU_Suite option"
  CU_get_suite_pos_by_name :: "string \<Rightarrow> 'r \<Rightarrow> nat"

text \<open>
  The documented behaviour: suites and tests are appended in order, a test without a function is refused, positions
  count from 1.  A suite is referred to by its place in the list.
\<close>

definition bcunit_ok :: "'r bcunit \<Rightarrow> ('r \<Rightarrow> CU_Suite list) \<Rightarrow> bool" where
  "bcunit_ok cu suites \<longleftrightarrow>
     (\<forall>r. \<not> CU_registry_initialized cu r \<longrightarrow>
        fst (CU_initialize_registry cu r) = 0 \<and> suites (snd (CU_initialize_registry cu r)) = []) \<and>
     (\<forall>n h r. fst (CU_add_suite_with_setup_and_teardown cu n h r) = Some (length (suites r)) \<and>
        suites (snd (CU_add_suite_with_setup_and_teardown cu n h r)) =
          suites r @ [\<lparr>pName = n, hooks = h, pUserSuite = None, pTests = []\<rparr>]) \<and>
     (\<forall>p s r. p < length (suites r) \<longrightarrow>
        suites (set_pUserData cu p s r) = (suites r)[p := (suites r ! p)\<lparr>pUserSuite := Some s\<rparr>]) \<and>
     (\<forall>p n f r. p < length (suites r) \<longrightarrow> f \<noteq> None \<longrightarrow>
        fst (CU_add_test cu p n f r) \<noteq> None \<and>
        suites (snd (CU_add_test cu p n f r)) =
          (suites r)[p := (suites r ! p)\<lparr>pTests := pTests (suites r ! p) @ [(n, f)]\<rparr>]) \<and>
     (\<forall>p n r. fst (CU_add_test cu p n None r) = None \<and> suites (snd (CU_add_test cu p n None r)) = suites r) \<and>
     (\<forall>r. uiNumberOfSuites cu r = length (suites r)) \<and>
     (\<forall>p r. p < length (suites r) \<longrightarrow> CU_get_suite_at_pos cu (p + 1) r = Some (suites r ! p)) \<and>
     (\<forall>p r. p < length (suites r) \<longrightarrow> pName (suites r ! p) \<notin> pName ` set (take p (suites r)) \<longrightarrow>
        CU_get_suite_pos_by_name cu (pName (suites r ! p)) r = p + 1)"

text \<open>An instance: the registry is the list itself, with a mark that it was initialised and the last error.\<close>

definition list_bcunit :: "(CU_Suite list option \<times> int) bcunit" where
  "list_bcunit = \<lparr>
     CU_registry_initialized = (\<lambda>r. fst r \<noteq> None),
     CU_initialize_registry = (\<lambda>r. (0, (Some [], 0))),
     CU_get_error = snd,
     CU_add_suite_with_setup_and_teardown = (\<lambda>n h r.
       (Some (length (case fst r of None \<Rightarrow> [] | Some l \<Rightarrow> l)),
        (Some ((case fst r of None \<Rightarrow> [] | Some l \<Rightarrow> l) @ [\<lparr>pName = n, hooks = h, pUserSuite = None, pTests = []\<rparr>]), 0))),
     set_pUserData = (\<lambda>p s r. (map_option (\<lambda>l. l[p := (l ! p)\<lparr>pUserSuite := Some s\<rparr>]) (fst r), snd r)),
     CU_add_test = (\<lambda>p n f r.
       if f = None then (None, (fst r, 32))
       else (Some 0, (map_option (\<lambda>l. l[p := (l ! p)\<lparr>pTests := pTests (l ! p) @ [(n, f)]\<rparr>]) (fst r), 0))),
     uiNumberOfSuites = (\<lambda>r. length (case fst r of None \<Rightarrow> [] | Some l \<Rightarrow> l)),
     CU_get_suite_at_pos = (\<lambda>p r. let l = (case fst r of None \<Rightarrow> [] | Some l \<Rightarrow> l) in
       if 0 < p \<and> p \<le> length l then Some (l ! (p - 1)) else None),
     CU_get_suite_pos_by_name = (\<lambda>n r. let l = (case fst r of None \<Rightarrow> [] | Some l \<Rightarrow> l);
       k = length (takeWhile (\<lambda>s. pName s \<noteq> n) l) in if k < length l then k + 1 else 0)\<rparr>"

definition list_suites :: "CU_Suite list option \<times> int \<Rightarrow> CU_Suite list" where
  "list_suites r = (case fst r of None \<Rightarrow> [] | Some l \<Rightarrow> l)"

section \<open>Registration\<close>

text \<open>The loop of \<open>bc_tester_register_suite\<close>: \<open>p\<close> is \<open>pSuite\<close>, \<open>k\<close> the number of tests left.\<close>

fun register_loop ::
    "'r bcunit \<Rightarrow> tester \<Rightarrow> test_suite_t \<Rightarrow> string option list \<Rightarrow> nat \<Rightarrow> int \<Rightarrow> nat option \<Rightarrow> 'r \<Rightarrow> (int \<times> 'r) option" where
  "register_loop cu st suite wanted 0 i p r = Some (0, r)"
| "register_loop cu st suite wanted (Suc k) i p r = do {
     t \<leftarrow> test_at suite i;
     if test_enabled st t wanted
     then do {
       (q, r1) \<leftarrow> (case p of
          Some q \<Rightarrow> Some (q, r)
        | None \<Rightarrow> (case CU_add_suite_with_setup_and_teardown cu (name_of_suite suite)
                     [before_all suite, after_all suite, before_each suite, after_each suite] r of
              (None, r1) \<Rightarrow> None
            | (Some q, r1) \<Rightarrow> Some (q, set_pUserData cu q suite r1)));
       let (added, r2) = CU_add_test cu q (name_of_test t) (func t) r1;
       if added = None then Some (CU_get_error cu r2, r2)
       else register_loop cu st suite wanted k (i + 1) (Some q) r2 }
     else register_loop cu st suite wanted k (i + 1) p r }"

definition bc_tester_register_suite ::
    "'r bcunit \<Rightarrow> tester \<Rightarrow> test_suite_t \<Rightarrow> string option list \<Rightarrow> 'r \<Rightarrow> (int \<times> 'r) option" where
  "bc_tester_register_suite cu st suite wanted r = register_loop cu st suite wanted (nat (nb_tests suite)) 0 None r"

definition bc_tester_register_suite_by_name ::
    "'r bcunit \<Rightarrow> tester \<Rightarrow> string \<Rightarrow> 'r \<Rightarrow> (int \<times> 'r) option" where
  "bc_tester_register_suite_by_name cu st suite_name r = do {
     suiteIdx \<leftarrow> bc_tester_suite_index st suite_name;
     if suiteIdx \<noteq> -1
     then do {
       let (rc, r1) = (if CU_registry_initialized cu r then (0, r) else CU_initialize_registry cu r);
       if rc \<noteq> 0 then Some (CU_get_error cu r1, r1)
       else do {
         suite \<leftarrow> suite_cell st (nat suiteIdx);
         bc_tester_register_suite cu st suite [] r1 } }
     else Some (-1, r) }"

fun register_wanted ::
    "'r bcunit \<Rightarrow> string list \<Rightarrow> tester \<Rightarrow> 'r \<Rightarrow> (int \<times> tester \<times> 'r) option" where
  "register_wanted cu [] st r = Some (0, st, r)"
| "register_wanted cu (suite_name # elem) st r = do {
     suiteIdx \<leftarrow> bc_tester_suite_index st suite_name;
     if suiteIdx = -1
     then do {
       st1 \<leftarrow> bc_tester_list_suites (bc_tester_printf (bc_printf_verbosity_error st)
         (''Suite with name \"'' @ suite_name @ ''\" not found. Available suites are: '') st);
       Some (-1, st1, r) }
     else do {
       suite \<leftarrow> suite_cell st (nat suiteIdx);
       (_, r1) \<leftarrow> bc_tester_register_suite cu st suite (List.map Some (tags_to_run st)) r;
       register_wanted cu elem st r1 } }"

fun excluded_loop :: "string list \<Rightarrow> string \<Rightarrow> bool \<Rightarrow> bool" where
  "excluded_loop [] n excluded = excluded"
| "excluded_loop (suite_name # elem) n excluded =
     excluded_loop elem n (if strcasecmp suite_name n = 0 then True else excluded)"

fun register_all :: "'r bcunit \<Rightarrow> nat \<Rightarrow> nat \<Rightarrow> tester \<Rightarrow> 'r \<Rightarrow> 'r option" where
  "register_all cu 0 i st r = Some r"
| "register_all cu (Suc k) i st r = do {
     suite \<leftarrow> suite_cell st i;
     if \<not> excluded_loop (suites_to_exclude st) (name_of_suite suite) False
     then do {
       (_, r1) \<leftarrow> bc_tester_register_suite cu st suite (List.map Some (tags_to_run st)) r;
       register_all cu k (i + 1) st r1 }
     else register_all cu k (i + 1) st r }"

definition bc_tester_register_suites :: "'r bcunit \<Rightarrow> tester \<Rightarrow> 'r \<Rightarrow> (int \<times> tester \<times> 'r) option" where
  "bc_tester_register_suites cu st r =
     (if CU_registry_initialized cu r then Some (0, st, r)
      else (let (rc, r1) = CU_initialize_registry cu r in
        if rc \<noteq> 0 then Some (CU_get_error cu r1, st, r1)
        else if suites_to_run st \<noteq> [] \<and> suites_to_exclude st \<noteq> []
        then Some (-1, bc_tester_printf (bc_printf_verbosity_error st)
          ''You cannot supply --suite and --exclude-suite options simultaenously.'' st, r1)
        else if suites_to_run st \<noteq> [] then register_wanted cu (suites_to_run st) st r1
        else map_option (\<lambda>r. (0, st, r)) (register_all cu (nb_test_suites st) 0 st r1)))"

end
