(* ===== verification/TesterProps.thy ===== *)
theory TesterProps
  imports Tester
begin

text \<open>
  The properties of the table of suites and of the selection of tests: the table is the stable sort of
  the suites by decreasing average time, and the registry of BCUnit gets exactly the selected suites and tests.
\<close>

section \<open>Names\<close>

lemma strcmp_eq_0 [simp]: "strcmp a b = 0 \<longleftrightarrow> a = b"
  by (induction a b rule: strcmp.induct) auto

definition same_name :: "string \<Rightarrow> string \<Rightarrow> bool" where
  "same_name a b \<longleftrightarrow> List.map tolower a = List.map tolower b"

lemma strcasecmp_0 [simp]: "strcasecmp a b = 0 \<longleftrightarrow> same_name a b"
  by (simp add: strcasecmp_def same_name_def)

lemma same_name_refl [simp]: "same_name a a"
  by (simp add: same_name_def)

section \<open>The table of suites\<close>

text \<open>The suites of the table in order, and the room in the block: always a cell more than is used.\<close>

definition table :: "tester \<Rightarrow> test_suite_t list \<Rightarrow> bool" where
  "table st ss \<longleftrightarrow> nb_test_suites st = length ss \<and>
     (case test_suite st of
        None \<Rightarrow> ss = []
      | Some b \<Rightarrow> length b = (length ss div 10 + 1) * 10 \<and> (\<forall>i < length ss. b ! i = Some (ss ! i)))"

lemma table_cell: "table st ss \<Longrightarrow> i < length ss \<Longrightarrow> suite_cell st i = Some (ss ! i)"
  by (auto simp: table_def suite_cell_def suite_at_def split: option.splits)

lemma insert_index_eq:
  assumes "\<forall>i < length ss. suite_at b i = Some (ss ! i)" "i \<le> length ss"
  shows "insert_index_loop b (length ss) avg i =
    Some (i + length (takeWhile (\<lambda>s. avg \<le> average_time s) (drop i ss)))"
  using assms(2)
proof (induction "length ss - i" arbitrary: i)
  case 0
  then show ?case by (simp add: insert_index_loop.simps)
next
  case (Suc k)
  then have i: "i < length ss" by simp
  with Suc.hyps(1) [of "i + 1"] Suc.hyps(2) show ?case
    using assms(1) by (subst insert_index_loop.simps) (simp add: Cons_nth_drop_Suc [OF i, symmetric])
qed

lemma move_loop_eq:
  assumes "\<forall>i < m. b ! i \<noteq> None" "m < length b"
  shows "\<exists>b'. move_loop b i m = Some b' \<and> length b' = length b \<and>
    (\<forall>j < length b. b' ! j = (if i < j \<and> j \<le> m then b ! (j - 1) else b ! j))"
  using assms
proof (induction m arbitrary: b)
  case 0
  then show ?case by (simp add: move_loop.simps)
next
  case (Suc m)
  show ?case
  proof (cases "Suc m < i + 1")
    case True
    then show ?thesis by (auto simp: move_loop.simps)
  next
    case False
    with Suc.prems obtain s where s: "b ! m = Some s" by auto
    let ?b = "b[Suc m := Some s]"
    have "\<forall>i < m. ?b ! i \<noteq> None" "m < length ?b" using Suc.prems by auto
    from Suc.IH [OF this] obtain b' where b': "move_loop ?b i m = Some b'" "length b' = length b"
      "\<forall>j < length b. b' ! j = (if i < j \<and> j \<le> m then ?b ! (j - 1) else ?b ! j)" by auto
    have "move_loop b i (Suc m) = Some b'"
      using False s b'(1) Suc.prems by (subst move_loop.simps) (simp add: suite_at_def put_cell_def)
    then show ?thesis using False s b'(2,3) by (auto simp: nth_list_update le_Suc_eq)
  qed
qed

definition insert_suite :: "test_suite_t \<Rightarrow> test_suite_t list \<Rightarrow> test_suite_t list" where
  "insert_suite s ss =
     takeWhile (\<lambda>t. average_time s \<le> average_time t) ss @ s # dropWhile (\<lambda>t. average_time s \<le> average_time t) ss"

lemma nth_insert:
  "i \<le> length xs \<Longrightarrow> j \<le> length xs \<Longrightarrow>
   (take i xs @ x # drop i xs) ! j = (if j < i then xs ! j else if j = i then x else xs ! (j - 1))"
  by (auto simp: nth_append nth_Cons' min_def)

lemma tableI:
  "length ss = n \<Longrightarrow> length b = (n div 10 + 1) * 10 \<Longrightarrow> \<forall>i < n. b ! i = Some (ss ! i) \<Longrightarrow>
   table (st\<lparr>test_suite := Some b, nb_test_suites := n\<rparr>) ss"
  by (simp add: table_def)

lemma add_suite_table:
  assumes "table st ss"
  shows "\<exists>st'. bc_tester_add_suite s st = Some st' \<and> table st' (insert_suite s ss)"
proof -
  let ?n = "length ss" and ?b = "case test_suite st of None \<Rightarrow> replicate 10 None | Some b \<Rightarrow> b"
  let ?i = "length (takeWhile (\<lambda>t. average_time s \<le> average_time t) ss)"
  have n: "nb_test_suites st = ?n" using assms by (simp add: table_def)
  have b: "length ?b = (?n div 10 + 1) * 10" "\<forall>i < ?n. ?b ! i = Some (ss ! i)"
    using assms by (auto simp: table_def split: option.splits)
  have lt: "?n < length ?b" unfolding b(1) by presburger
  have i: "insert_index_loop ?b ?n (average_time s) 0 = Some ?i"
    using insert_index_eq [of ss ?b 0] b(2) lt by (simp add: suite_at_def)
  have il: "?i \<le> ?n" by (rule length_takeWhile_le)
  obtain b1 where b1: "(if ?i < ?n then move_loop ?b ?i ?n else Some ?b) = Some b1" "length b1 = length ?b"
    "\<forall>j < length ?b. j < ?i \<or> ?i < j \<and> j \<le> ?n \<longrightarrow> b1 ! j = (if ?i < j \<and> j \<le> ?n then ?b ! (j - 1) else ?b ! j)"
  proof (cases "?i < ?n")
    case True
    have "\<forall>i < ?n. ?b ! i \<noteq> None" using b(2) by simp
    from move_loop_eq [OF this lt, of ?i] that True show ?thesis by auto
  next
    case False
    then have "?i = ?n" using il by simp
    then show ?thesis using False by (intro that [of ?b]) auto
  qed
  let ?b2 = "b1[?i := Some s]"
  let ?b3 = "if (?n + 1) mod 10 = 0 then realloc_block ?b2 (?n + 1 + 10) else ?b2"
  have add: "bc_tester_add_suite s st = Some (st\<lparr>test_suite := Some ?b3, nb_test_suites := ?n + 1\<rparr>)"
    unfolding bc_tester_add_suite_def n Let_def i using b1(1,2) il lt by (simp add: put_cell_def)
  have ins: "insert_suite s ss = take ?i ss @ s # drop ?i ss"
    by (simp add: insert_suite_def takeWhile_eq_take [symmetric] dropWhile_eq_drop [symmetric])
  have c2: "?b2 ! j = Some (insert_suite s ss ! j)" if "j < ?n + 1" for j
    unfolding ins nth_insert [OF il less_Suc_eq_le [THEN iffD1, OF that [unfolded Suc_eq_plus1 [symmetric]]]]
    using that b1(2,3) b(2) lt il by (auto simp: nth_list_update)
  have l3: "length ?b3 = ((?n + 1) div 10 + 1) * 10 \<and> (\<forall>j < ?n + 1. ?b3 ! j = ?b2 ! j)"
  proof (cases "(?n + 1) mod 10 = 0")
    case True
    then have "length ?b = ?n + 1" "(?n + 1) div 10 * 10 = ?n + 1" unfolding b(1) using div_Suc [of ?n 10] mult_div_mod_eq [of 10 "?n + 1"] by simp_all
    then show ?thesis using True b1(2) by (simp add: realloc_block_def nth_append)
  next
    case False
    then have "(?n + 1) div 10 = ?n div 10" using div_Suc [of ?n 10] by simp
    then show ?thesis using False b1(2) b(1) by simp
  qed
  have "length (insert_suite s ss) = ?n + 1" unfolding ins using il by simp
  moreover have "\<forall>j < ?n + 1. ?b3 ! j = Some (insert_suite s ss ! j)"
    using conjunct2 [OF l3] c2 by metis
  ultimately have "table (st\<lparr>test_suite := Some ?b3, nb_test_suites := ?n + 1\<rparr>) (insert_suite s ss)"
    by (rule tableI [OF _ conjunct1 [OF l3]])
  then show ?thesis using add by blast
qed

lemma sort_key_snoc:
  "sort_key (\<lambda>s. - average_time s) (ss @ [s]) = insert_suite s (sort_key (\<lambda>s. - average_time s) ss)"
  (is "sort_key ?f _ = insert_suite s ?ss")
proof (rule properties_for_sort_key)
  let ?P = "\<lambda>t. average_time s \<le> average_time t"
  have split: "takeWhile ?P ?ss @ dropWhile ?P ?ss = ?ss" by simp
  have so: "sorted (List.map ?f (takeWhile ?P ?ss @ dropWhile ?P ?ss))" unfolding split by (rule sorted_sort_key)
  have high: "\<forall>t \<in> set (takeWhile ?P ?ss). average_time s \<le> average_time t" by (auto dest: set_takeWhileD)
  have low: "\<forall>t \<in> set (dropWhile ?P ?ss). average_time t < average_time s"
  proof (cases "dropWhile ?P ?ss")
    case (Cons a as)
    then have "\<not> ?P a" by (metis hd_dropWhile list.distinct(1) list.sel(1))
    moreover have "\<forall>t \<in> set as. average_time t \<le> average_time a"
      using so unfolding Cons by (auto simp: sorted_append)
    ultimately show ?thesis unfolding Cons by auto
  next
    case Nil
    show ?thesis unfolding Nil by simp
  qed
  show "mset (insert_suite s ?ss) = mset (ss @ [s])"
  proof -
    have "mset (takeWhile ?P ?ss) + mset (dropWhile ?P ?ss) = mset ss"
      using arg_cong [OF split, of mset] unfolding mset_append by simp
    then show ?thesis by (simp add: insert_suite_def)
  qed
  show "sorted (List.map ?f (insert_suite s ?ss))"
  proof -
    have "sorted (List.map ?f (takeWhile ?P ?ss))" "sorted (List.map ?f (dropWhile ?P ?ss))"
      using so [unfolded map_append sorted_append] by blast+
    moreover have "?f a \<le> ?f s" if "a \<in> set (takeWhile ?P ?ss)" for a using high that by simp
    moreover have "?f s \<le> ?f a" if "a \<in> set (dropWhile ?P ?ss)" for a using low that by (simp add: less_imp_le)
    ultimately show ?thesis
      unfolding insert_suite_def map_append sorted_append list.map sorted_simps set_map list.set
      by (blast intro: order_trans)
  qed
  show "filter (\<lambda>x. ?f k = ?f x) (insert_suite s ?ss) = filter (\<lambda>x. ?f k = ?f x) (ss @ [s])" for k
  proof -
    let ?Q = "\<lambda>x. ?f k = ?f x"
    have "filter ?Q ss = filter ?Q ?ss" using sort_key_stable [of ?f "?f k" ss] by (simp add: eq_commute)
    also have "\<dots> = filter ?Q (takeWhile ?P ?ss) @ filter ?Q (dropWhile ?P ?ss)"
      by (subst split [symmetric]) (rule filter_append)
    finally have ss: "filter ?Q ss = filter ?Q (takeWhile ?P ?ss) @ filter ?Q (dropWhile ?P ?ss)" .
    have "average_time k = average_time s \<Longrightarrow> filter ?Q (dropWhile ?P ?ss) = []"
      using low by (fastforce simp: filter_empty_conv)
    then show ?thesis unfolding insert_suite_def filter_append filter.simps ss by auto
  qed
qed

lemma add_suites_table:
  "table st (sort_key (\<lambda>s. - average_time s) ss0) \<Longrightarrow>
   \<exists>st'. add_suites ss st = Some st' \<and> table st' (sort_key (\<lambda>s. - average_time s) (ss0 @ ss))"
proof (induction ss arbitrary: st ss0)
  case (Cons s ss)
  obtain st1 where "bc_tester_add_suite s st = Some st1"
    "table st1 (sort_key (\<lambda>s. - average_time s) (ss0 @ [s]))"
    using add_suite_table [OF Cons.prems] unfolding sort_key_snoc by blast
  with Cons.IH [OF this(2)] show ?case by simp
qed simp

section \<open>Looking for a suite\<close>

lemma suite_index_loop_eq:
  assumes "table st ss" "i \<le> length ss"
  shows "suite_index_loop st n i =
    (let k = i + length (takeWhile (\<lambda>s. \<not> same_name n (name_of_suite s)) (drop i ss))
     in Some (if k < length ss then int k else -1))"
  using assms(2)
proof (induction "length ss - i" arbitrary: i)
  case 0
  then show ?case using assms(1) by (simp add: suite_index_loop.simps table_def)
next
  case (Suc k)
  then have i: "i < length ss" by simp
  with Suc.hyps(1) [of "i + 1"] Suc.hyps(2) show ?case
    using table_cell [OF assms(1) i] assms(1)
    by (subst suite_index_loop.simps) (simp add: Cons_nth_drop_Suc [OF i, symmetric] table_def Let_def)
qed

definition find_suite :: "test_suite_t list \<Rightarrow> string \<Rightarrow> test_suite_t option" where
  "find_suite ss n = List.find (\<lambda>s. same_name n (name_of_suite s)) ss"

lemma find_takeWhile:
  "List.find P xs = (let k = length (takeWhile (\<lambda>x. \<not> P x) xs) in if k < length xs then Some (xs ! k) else None)"
  by (induction xs) (auto simp: Let_def)

lemma suite_index_cases:
  assumes "table st ss"
  obtains (found) k where "bc_tester_suite_index st n = Some (int k)" "k < length ss"
      "find_suite ss n = Some (ss ! k)" "suite_cell st k = Some (ss ! k)"
  | (absent) "bc_tester_suite_index st n = Some (-1)" "find_suite ss n = None"
proof (cases "find_suite ss n")
  case None
  then show ?thesis using suite_index_loop_eq [OF assms, of 0 n] absent
    by (simp add: bc_tester_suite_index_def find_suite_def find_takeWhile Let_def split: if_splits)
next
  case (Some s)
  then have "length (takeWhile (\<lambda>s. \<not> same_name n (name_of_suite s)) ss) < length ss"
    by (simp add: find_suite_def find_takeWhile Let_def split: if_splits)
  from found [OF _ this _ table_cell [OF assms this]] this show ?thesis
    using suite_index_loop_eq [OF assms, of 0 n] Some
    by (simp add: bc_tester_suite_index_def find_suite_def find_takeWhile Let_def)
qed

lemma list_suites_loop_eq:
  assumes "table st ss" "j \<le> length ss"
  shows "list_suites_loop j st = Some (st\<lparr>printed := printed st @
    List.map (\<lambda>s. (bc_printf_verbosity_info st, name_of_suite s)) (drop j ss)\<rparr>)"
  using assms
proof (induction "length ss - j" arbitrary: j st)
  case 0
  then show ?case by (simp add: list_suites_loop.simps table_def)
next
  case (Suc k)
  then have j: "j < length ss" by simp
  let ?st = "bc_tester_printf (bc_printf_verbosity_info st) (name_of_suite (ss ! j)) st"
  have "table ?st ss" using Suc.prems by (simp add: table_def bc_tester_printf_def)
  from Suc.hyps(1) [OF _ this, of "j + 1"] Suc.hyps(2) j table_cell [OF Suc.prems(1) j]
  show ?case
    using Suc.prems(1) [unfolded table_def]
    by (subst list_suites_loop.simps)
      (simp add: bc_tester_suite_name_def bc_tester_printf_def Cons_nth_drop_Suc [OF j, symmetric])
qed

section \<open>Registration\<close>

text \<open>The enabled tests of a suite, up to the first one that BCUnit refuses.\<close>

definition enabled_tests :: "tester \<Rightarrow> string option list \<Rightarrow> test_suite_t \<Rightarrow> test_t list" where
  "enabled_tests st wanted s = filter (\<lambda>t. test_enabled st t wanted) (take (nat (nb_tests s)) (tests s))"

definition registered_tests :: "test_t list \<Rightarrow> (string \<times> nat option) list" where
  "registered_tests ts = List.map (\<lambda>t. (name_of_test t, func t)) (takeWhile (\<lambda>t. func t \<noteq> None) ts)"

definition registered :: "test_suite_t \<Rightarrow> test_t list \<Rightarrow> CU_Suite" where
  "registered s ts = \<lparr>pName = name_of_suite s,
     hooks = [before_all s, after_all s, before_each s, after_each s], pUserSuite = Some s,
     pTests = registered_tests ts\<rparr>"

lemma registered_tests_simps [simp]:
  "registered_tests [] = []"
  "func t = None \<Longrightarrow> registered_tests (t # ts) = []"
  "func t = Some f \<Longrightarrow> registered_tests (t # ts) = (name_of_test t, Some f) # registered_tests ts"
  by (simp_all add: registered_tests_def)

lemma bcunit_okD:
  assumes "bcunit_ok cu view"
  shows "\<not> CU_registry_initialized cu r \<Longrightarrow> fst (CU_initialize_registry cu r) = 0"
    "\<not> CU_registry_initialized cu r \<Longrightarrow> view (snd (CU_initialize_registry cu r)) = []"
    "fst (CU_add_suite_with_setup_and_teardown cu n h r) = Some (length (view r))"
    "view (snd (CU_add_suite_with_setup_and_teardown cu n h r)) =
       view r @ [\<lparr>pName = n, hooks = h, pUserSuite = None, pTests = []\<rparr>]"
    "p < length (view r) \<Longrightarrow> view (set_pUserData cu p s r) = (view r)[p := (view r ! p)\<lparr>pUserSuite := Some s\<rparr>]"
    "p < length (view r) \<Longrightarrow> fst (CU_add_test cu p n (Some f) r) \<noteq> None"
    "p < length (view r) \<Longrightarrow> view (snd (CU_add_test cu p n (Some f) r)) =
       (view r)[p := (view r ! p)\<lparr>pTests := pTests (view r ! p) @ [(n, Some f)]\<rparr>]"
    "fst (CU_add_test cu p n None r) = None"
    "view (snd (CU_add_test cu p n None r)) = view r"
  using assms unfolding bcunit_ok_def by simp_all

text \<open>The loop with a suite already registered as the last one.\<close>

lemma register_loop_open:
  assumes "bcunit_ok cu view" "view r = l @ [(registered s [])\<lparr>pTests := done\<rparr>]" "i + k \<le> length (tests s)"
  shows "\<exists>rc r'. register_loop cu st s wanted k (int i) (Some (length l)) r = Some (rc, r') \<and>
    view r' = l @ [(registered s [])\<lparr>pTests := done @
      registered_tests (filter (\<lambda>t. test_enabled st t wanted) (take k (drop i (tests s))))\<rparr>]"
  using assms(2,3)
proof (induction k arbitrary: i r "done")
  case 0
  then show ?case by simp
next
  case (Suc k)
  note D = bcunit_okD [OF assms(1)]
  let ?t = "tests s ! i"
  have i: "i < length (tests s)" using Suc.prems by simp
  have t: "test_at s (int i) = Some ?t" using i by (simp add: test_at_def)
  have dr: "take (Suc k) (drop i (tests s)) = ?t # take k (drop (i + 1) (tests s))"
    using Cons_nth_drop_Suc [OF i] by (metis Suc_eq_plus1 take_Suc_Cons)
  have p: "length l < length (view r)" using Suc.prems by simp
  have ii: "int i + 1 = int (i + 1)" by simp
  show ?case
  proof (cases "test_enabled st ?t wanted")
    case False
    with Suc.IH [OF Suc.prems(1), of "i + 1"] Suc.prems(2) show ?thesis
      unfolding dr register_loop.simps t ii by simp
  next
    case en: True
    show ?thesis
    proof (cases "func ?t")
      case None
      then show ?thesis
        using D(8) [of "length l" "name_of_test ?t" r] D(9) [of "length l" "name_of_test ?t" r] Suc.prems en
        unfolding dr register_loop.simps t by (auto simp: split_def Let_def)
    next
      case (Some f)
      let ?r = "snd (CU_add_test cu (length l) (name_of_test ?t) (Some f) r)"
      have "view ?r = l @ [(registered s [])\<lparr>pTests := done @ [(name_of_test ?t, Some f)]\<rparr>]"
        using D(7) [OF p] Suc.prems(1) by simp
      from Suc.IH [OF this, of "i + 1"] Suc.prems(2) Some en D(6) [OF p, of "name_of_test ?t" f] show ?thesis
        unfolding dr register_loop.simps t ii by (auto simp: split_def Let_def)
    qed
  qed
qed

text \<open>The loop before the first enabled test.\<close>

lemma register_loop_start:
  assumes "bcunit_ok cu view" "i + k \<le> length (tests s)"
  shows "\<exists>rc r'. register_loop cu st s wanted k (int i) None r = Some (rc, r') \<and>
    view r' = view r @ (let ts = filter (\<lambda>t. test_enabled st t wanted) (take k (drop i (tests s)))
      in if ts = [] then [] else [registered s ts])"
  using assms(2)
proof (induction k arbitrary: i)
  case 0
  then show ?case by simp
next
  case (Suc k)
  note D = bcunit_okD [OF assms(1)]
  let ?t = "tests s ! i" and ?h = "[before_all s, after_all s, before_each s, after_each s]"
  have i: "i < length (tests s)" using Suc.prems by simp
  have t: "test_at s (int i) = Some ?t" using i by (simp add: test_at_def)
  have dr: "take (Suc k) (drop i (tests s)) = ?t # take k (drop (i + 1) (tests s))"
    using Cons_nth_drop_Suc [OF i] by (metis Suc_eq_plus1 take_Suc_Cons)
  have ii: "int i + 1 = int (i + 1)" by simp
  show ?case
  proof (cases "test_enabled st ?t wanted")
    case False
    with Suc.IH [of "i + 1"] Suc.prems show ?thesis unfolding dr register_loop.simps t ii by simp
  next
    case en: True
    let ?r = "set_pUserData cu (length (view r)) s
      (snd (CU_add_suite_with_setup_and_teardown cu (name_of_suite s) ?h r))"
    have "view ?r = view r @ [(registered s [])\<lparr>pTests := []\<rparr>]"
      using D(5) D(4) by (simp add: registered_def)
    from register_loop_open [OF assms(1) this Suc.prems, of st wanted] obtain rc r' where r':
      "register_loop cu st s wanted (Suc k) (int i) (Some (length (view r))) ?r = Some (rc, r')"
      "view r' = view r @ [(registered s [])\<lparr>pTests := registered_tests
        (filter (\<lambda>t. test_enabled st t wanted) (?t # take k (drop (i + 1) (tests s))))\<rparr>]"
      unfolding dr append_Nil by blast
    have "register_loop cu st s wanted (Suc k) (int i) None r =
        register_loop cu st s wanted (Suc k) (int i) (Some (length (view r))) ?r"
      unfolding register_loop.simps t by (simp add: en split_def D(3))
    then show ?thesis using r' en unfolding dr by (simp add: registered_def)
  qed
qed

text \<open>What one suite adds to the registry.\<close>

definition suite_entry :: "tester \<Rightarrow> string option list \<Rightarrow> test_suite_t \<Rightarrow> CU_Suite list" where
  "suite_entry st wanted s =
     (if enabled_tests st wanted s = [] then [] else [registered s (enabled_tests st wanted s)])"

lemma register_suite_view:
  assumes "bcunit_ok cu view" "nb_tests s \<le> int (length (tests s))"
  shows "\<exists>rc r'. bc_tester_register_suite cu st s wanted r = Some (rc, r') \<and>
    view r' = view r @ suite_entry st wanted s"
proof -
  have "0 + nat (nb_tests s) \<le> length (tests s)" using assms(2) by simp
  from register_loop_start [OF assms(1) this, of st wanted r] show ?thesis
    by (simp only: bc_tester_register_suite_def suite_entry_def enabled_tests_def Let_def drop_0 int_ops(1))
qed

lemma register_wanted_view:
  assumes "bcunit_ok cu view" "table st ss" "\<forall>s \<in> set ss. nb_tests s \<le> int (length (tests s))"
    "\<forall>n \<in> set names. find_suite ss n \<noteq> None"
  shows "\<exists>r'. register_wanted cu names st r = Some (0, st, r') \<and>
    view r' = view r @ concat (List.map (\<lambda>n. suite_entry st (List.map Some (tags_to_run st)) (the (find_suite ss n))) names)"
  using assms(4)
proof (induction names arbitrary: r)
  case (Cons n names)
  from assms(2) show ?case
  proof (cases rule: suite_index_cases [of st ss n])
    case (found k)
    then have "nb_tests (ss ! k) \<le> int (length (tests (ss ! k)))" using assms(3) by simp
    from register_suite_view [OF assms(1) this, of st "List.map Some (tags_to_run st)" r] obtain rc r1 where
      r1: "bc_tester_register_suite cu st (ss ! k) (List.map Some (tags_to_run st)) r = Some (rc, r1)"
      "view r1 = view r @ suite_entry st (List.map Some (tags_to_run st)) (ss ! k)" by blast
    with Cons.IH [of r1] Cons.prems found show ?thesis by auto
  next
    case absent
    then show ?thesis using Cons.prems by simp
  qed
qed simp

lemma excluded_loop_eq: "excluded_loop names n e \<longleftrightarrow> e \<or> (\<exists>m \<in> set names. same_name m n)"
  by (induction names n e rule: excluded_loop.induct) auto

lemma register_all_view:
  assumes "bcunit_ok cu view" "table st ss" "\<forall>s \<in> set ss. nb_tests s \<le> int (length (tests s))" "i + k = length ss"
  shows "\<exists>r'. register_all cu k i st r = Some r' \<and>
    view r' = view r @ concat (List.map (suite_entry st (List.map Some (tags_to_run st)))
      (filter (\<lambda>s. \<not> (\<exists>m \<in> set (suites_to_exclude st). same_name m (name_of_suite s))) (drop i ss)))"
  using assms(4)
proof (induction k arbitrary: i r)
  case (Suc k)
  then have i: "i < length ss" by simp
  then have "nb_tests (ss ! i) \<le> int (length (tests (ss ! i)))" using assms(3) by simp
  from register_suite_view [OF assms(1) this, of st "List.map Some (tags_to_run st)" r] obtain rc r1 where
    r1: "bc_tester_register_suite cu st (ss ! i) (List.map Some (tags_to_run st)) r = Some (rc, r1)"
    "view r1 = view r @ suite_entry st (List.map Some (tags_to_run st)) (ss ! i)" by blast
  show ?case
    using Suc.IH [of "i + 1" r] Suc.IH [of "i + 1" r1] Suc.prems r1
    by (auto simp: table_cell [OF assms(2) i] excluded_loop_eq Cons_nth_drop_Suc [OF i, symmetric])
qed simp

text \<open>With exclusions only, nothing is ever matched as wanted.\<close>

lemma only_exclusions:
  assumes "\<forall>w \<in> set wanted. \<exists>tag. w = Some (CHR ''!'' # tag)"
  shows "\<not> enabled_loop skipped ts wanted False"
proof -
  have "match_loop t wanted \<noteq> Some True" for t
    using assms by (induction t wanted rule: match_loop.induct) (auto simp: cat_def)
  then show ?thesis
    by (induction skipped ts wanted False rule: enabled_loop.induct) (auto split: option.splits)
qed

definition selected :: "tester \<Rightarrow> test_suite_t list \<Rightarrow> test_suite_t list" where
  "selected st ss =
     (if suites_to_run st \<noteq> [] then List.map (\<lambda>n. the (find_suite ss n)) (suites_to_run st)
      else filter (\<lambda>s. \<not> (\<exists>m \<in> set (suites_to_exclude st). same_name m (name_of_suite s))) ss)"

section \<open>Concrete suites\<close>

definition demo_suite :: "string \<Rightarrow> int \<Rightarrow> test_t list \<Rightarrow> test_suite_t" where
  "demo_suite n avg ts = \<lparr>name_of_suite = n, before_all = None, after_all = None, before_each = None,
     after_each = None, nb_tests = int (length ts), tests = ts, average_time = avg, cpu_weight = 0\<rparr>"

definition demo_suites :: "test_suite_t list" where
  "demo_suites =
     [demo_suite ''Port'' 9 [TEST_NO_TAG ''bytes'' (Some 1), TEST_ONE_TAG ''time'' (Some 2) ''Slow''],
      demo_suite ''Vfs'' 5 [TEST_TWO_TAGS ''read'' (Some 3) ''Disk'' ''Slow'', TEST_ONE_TAG ''write'' (Some 4) ''Skip'']]"

definition demo_tester :: tester where
  "demo_tester = initial_tester\<lparr>test_suite := Some (List.map Some demo_suites @ replicate 8 None),
     nb_test_suites := 2\<rparr>"

lemma demo_table: "table demo_tester demo_suites"
  by (auto simp: table_def demo_tester_def demo_suites_def less_Suc_eq numeral_2_eq_2)

lemma list_bcunit_ok: "bcunit_ok list_bcunit list_suites"
proof -
  have tw: "length (takeWhile (\<lambda>s. pName s \<noteq> pName (l ! p)) l) = p"
    if "p < length l" "pName (l ! p) \<notin> pName ` set (take p l)" for p and l :: "CU_Suite list"
  proof -
    have "takeWhile (\<lambda>s. pName s \<noteq> pName (l ! p)) (take p l @ l ! p # drop (p + 1) l) = take p l"
      using that(2) by (subst takeWhile_append2) (auto simp: image_iff)
    then show ?thesis using id_take_nth_drop [OF that(1)] that(1) by simp
  qed
  show ?thesis
    by (auto simp: bcunit_ok_def list_bcunit_def list_suites_def Let_def tw split: option.splits)
qed

section \<open>Properties\<close>

text \<open>
  C18: The table of suites.  Adding suites one after the other to the empty table is always defined: the block of
  pointers is enlarged in time, at multiples of ten, and never written past its end.  The table then holds the
  suites sorted by decreasing average time, and suites of equal time stay in the order in which they were added.
\<close>

theorem add_suites_by_time:
  "\<exists>st b. add_suites ss initial_tester = Some st \<and> nb_test_suites st = length ss \<and>
     List.map (suite_cell st) [0..<length ss] = List.map Some (sort_key (\<lambda>s. - average_time s) ss) \<and>
     (ss \<noteq> [] \<longrightarrow> test_suite st = Some b \<and> length ss < length b)"
proof -
  have "table initial_tester (sort_key (\<lambda>s. - average_time s) [])" by (simp add: table_def initial_tester_def)
  from add_suites_table [OF this, of ss] obtain st where st: "add_suites ss initial_tester = Some st"
    "table st (sort_key (\<lambda>s. - average_time s) ss)" by auto
  have "List.map (suite_cell st) [0..<length ss] = List.map Some (sort_key (\<lambda>s. - average_time s) ss)"
    using table_cell [OF st(2)] by (intro nth_equalityI) simp_all
  moreover have "length ss < (length ss div 10 + 1) * 10"
    using mult_div_mod_eq [of 10 "length ss"] mod_less_divisor [of 10 "length ss"] by simp
  then have "\<exists>b. ss \<noteq> [] \<longrightarrow> test_suite st = Some b \<and> length ss < length b"
    using st(2) length_sort [of "\<lambda>s. - average_time s" ss]
    by (cases "test_suite st") (auto simp: table_def simp del: length_sort)
  ultimately show ?thesis using st by (auto simp: table_def)
qed

theorem add_suites_by_time_witness:
  "\<exists>st. add_suites [demo_suite ''a'' 3 [], demo_suite ''b'' 7 [], demo_suite ''c'' 3 []] initial_tester = Some st \<and>
     List.map (suite_cell st) [0..<3] =
       [Some (demo_suite ''b'' 7 []), Some (demo_suite ''a'' 3 []), Some (demo_suite ''c'' 3 [])]"
proof -
  let ?ss = "[demo_suite ''a'' 3 [], demo_suite ''b'' 7 [], demo_suite ''c'' 3 []]"
  have "length ?ss = 3" "sort_key (\<lambda>s. - average_time s) ?ss =
      [demo_suite ''b'' 7 [], demo_suite ''a'' 3 [], demo_suite ''c'' 3 []]"
    by (simp_all add: demo_suite_def)
  moreover obtain st where "add_suites ?ss initial_tester = Some st"
    "List.map (suite_cell st) [0..<length ?ss] = List.map Some (sort_key (\<lambda>s. - average_time s) ?ss)"
    using add_suites_by_time [of ?ss] by blast
  ultimately show ?thesis by (intro exI [of _ st]) (simp only: list.map simp_thms)
qed

lemma register_suites_main:
  assumes "bcunit_ok cu view" "table st ss" "\<forall>s \<in> set ss. nb_tests s \<le> int (length (tests s))"
    "\<not> CU_registry_initialized cu r" "suites_to_run st = [] \<or> suites_to_exclude st = []"
    "\<forall>n \<in> set (suites_to_run st). find_suite ss n \<noteq> None"
  shows "\<exists>r'. bc_tester_register_suites cu st r = Some (0, st, r') \<and>
    view r' = concat (List.map (suite_entry st (List.map Some (tags_to_run st))) (selected st ss))"
proof -
  obtain rc r1 where r1: "CU_initialize_registry cu r = (rc, r1)" by fastforce
  have D: "rc = 0" "view r1 = []" using bcunit_okD(1,2) [OF assms(1,4)] r1 by simp_all
  have all: "0 + nb_test_suites st = length ss" using assms(2) by (simp add: table_def)
  show ?thesis
    using assms(4,5) r1 D register_wanted_view [OF assms(1-3,6), of r1] register_all_view [OF assms(1-3) all, of r1]
    by (auto simp: bc_tester_register_suites_def selected_def comp_def)
qed

text \<open>
  C17: What is registered.  With the documented behaviour of BCUnit, an uninitialised registry ends up with exactly
  the selected suites: those named by --suite, in that order and whatever the case of the names, or all that are
  not excluded; each with the enabled tests in their order, and none for a suite without one.
\<close>

theorem register_suites_selects:
  assumes "bcunit_ok cu view" "table st ss" "\<forall>s \<in> set ss. nb_tests s \<le> int (length (tests s))"
    "\<not> CU_registry_initialized cu r" "suites_to_run st = [] \<or> suites_to_exclude st = []"
    "\<forall>n \<in> set (suites_to_run st). find_suite ss n \<noteq> None"
  shows "\<exists>r'. bc_tester_register_suites cu st r = Some (0, st, r') \<and>
    view r' = concat (List.map (suite_entry st (List.map Some (tags_to_run st))) (selected st ss))"
  by (rule register_suites_main [OF assms])

theorem register_suites_selects_witness:
  "\<exists>r'. bc_tester_register_suites list_bcunit (demo_tester\<lparr>suites_to_run := [''vfs'', ''PORT''], tags_to_run := [''slow'']\<rparr>)
      (None, 0) = Some (0, demo_tester\<lparr>suites_to_run := [''vfs'', ''PORT''], tags_to_run := [''slow'']\<rparr>, r') \<and>
    List.map (\<lambda>s. (pName s, pTests s)) (list_suites r') =
      [(''Vfs'', [(''read'', Some 3)]), (''Port'', [(''time'', Some 2)])]"
proof -
  let ?st = "demo_tester\<lparr>suites_to_run := [''vfs'', ''PORT''], tags_to_run := [''slow'']\<rparr>"
  have t: "table ?st demo_suites" using demo_table by (simp add: table_def)
  let ?vfs = "demo_suite ''Vfs'' 5 [TEST_TWO_TAGS ''read'' (Some 3) ''Disk'' ''Slow'', TEST_ONE_TAG ''write'' (Some 4) ''Skip'']"
    and ?port = "demo_suite ''Port'' 9 [TEST_NO_TAG ''bytes'' (Some 1), TEST_ONE_TAG ''time'' (Some 2) ''Slow'']"
  have f: "find_suite demo_suites ''vfs'' = Some ?vfs" "find_suite demo_suites ''PORT'' = Some ?port"
    by (code_simp, code_simp)
  have t: "table ?st demo_suites" using demo_table by (simp add: table_def)
  have en: "enabled_tests ?st [Some ''slow''] ?vfs = [TEST_TWO_TAGS ''read'' (Some 3) ''Disk'' ''Slow'']"
    "enabled_tests ?st [Some ''slow''] ?port = [TEST_ONE_TAG ''time'' (Some 2) ''Slow'']"
    by (code_simp, code_simp)
  have n: "\<forall>s \<in> set demo_suites. nb_tests s \<le> int (length (tests s))"
    "\<forall>n \<in> set (suites_to_run ?st). find_suite demo_suites n \<noteq> None"
    using f by (simp_all add: demo_suites_def demo_suite_def)
  have i: "\<not> CU_registry_initialized list_bcunit (None, 0)" "suites_to_run ?st = [] \<or> suites_to_exclude ?st = []"
    by (simp_all add: list_bcunit_def demo_tester_def initial_tester_def)
  show ?thesis
    using register_suites_selects [OF list_bcunit_ok t n(1) i n(2)] f en
    by (auto simp: selected_def suite_entry_def registered_def registered_tests_def TEST_TWO_TAGS_def TEST_ONE_TAG_def
        demo_suite_def)
qed

text \<open>
  The tags, and their gaps.  Without wanted tags a test is enabled unless it is tagged Skip.  But a selection
  that only excludes tags enables no test at all, though the help text offers it; and a wanted first tag, or an
  excluded one, decides before the second tag is looked at, so that a test tagged to be skipped is run.
\<close>

theorem tag_filter_gaps:
  "((fst (tags t) = None \<longrightarrow> snd (tags t) = None) \<longrightarrow>
     test_enabled st t [] = (run_skipped_tests st \<or> \<not> (\<exists>tag. Some tag \<in> set (tag_list t) \<and> same_name tag ''skip''))) \<and>
   (wanted \<noteq> [] \<longrightarrow> (\<forall>w \<in> set wanted. \<exists>tag. w = Some (CHR ''!'' # tag)) \<longrightarrow> \<not> test_enabled st t wanted) \<and>
   (tags t = (Some a, b) \<longrightarrow> \<not> same_name a ''skip'' \<longrightarrow> cat a 0 \<noteq> CHR ''!'' \<longrightarrow> test_enabled st t (Some a # wanted))"
proof (intro conjI impI)
  show "test_enabled st t [] = (run_skipped_tests st \<or> \<not> (\<exists>tag. Some tag \<in> set (tag_list t) \<and> same_name tag ''skip''))"
    if "fst (tags t) = None \<longrightarrow> snd (tags t) = None"
    using that by (cases "tags t"; cases "fst (tags t)"; cases "snd (tags t)") (auto simp: test_enabled_def tag_list_def)
  show "\<not> test_enabled st t wanted" if "wanted \<noteq> []" "\<forall>w \<in> set wanted. \<exists>tag. w = Some (CHR ''!'' # tag)"
    using only_exclusions [OF that(2)] that(1) by (simp add: test_enabled_def)
  show "test_enabled st t (Some a # wanted)" if "tags t = (Some a, b)" "\<not> same_name a ''skip''" "cat a 0 \<noteq> CHR ''!''"
    using that by (simp add: test_enabled_def tag_list_def)
qed

theorem tag_filter_gaps_witness:
  "test_enabled demo_tester (TEST_TWO_TAGS ''read'' (Some 3) ''Disk'' ''Skip'') [] = False \<and>
   \<not> test_enabled demo_tester (TEST_NO_TAG ''bytes'' (Some 1)) [Some ''!Slow''] \<and>
   test_enabled demo_tester (TEST_TWO_TAGS ''read'' (Some 3) ''Disk'' ''Skip'') [Some ''Disk'', Some ''!Skip'']"
proof -
  have n: "same_name ''Skip'' ''skip''" "\<not> same_name ''Disk'' ''skip''" by (code_simp, code_simp)
  show ?thesis
    using tag_filter_gaps [of "TEST_TWO_TAGS ''read'' (Some 3) ''Disk'' ''Skip''" demo_tester "[]" "''Disk''" "Some ''Skip''"]
      tag_filter_gaps [of "TEST_NO_TAG ''bytes'' (Some 1)" demo_tester "[Some ''!Slow'']"]
      tag_filter_gaps [of "TEST_TWO_TAGS ''read'' (Some 3) ''Disk'' ''Skip''" demo_tester "[Some ''!Skip'']" "''Disk''" "Some ''Skip''"] n
    by (auto simp: TEST_TWO_TAGS_def tag_list_def cat_def demo_tester_def initial_tester_def)
qed

end
