(* ===== verification/TesterArgs.thy ===== *)
theory TesterArgs
  imports TesterProps
begin

text \<open>
  The command line of the runner, src/tester.c: the options, and the arguments of the processes that run one suite
  each in parallel mode.  The handlers of --verbose, --silent and --log-file can be replaced by the client; they are
  functions on a world \<open>'w\<close>.  \<open>argv\<close> is the list of its strings, the NULL behind them being its end.  What is written
  to stderr directly is left out.
\<close>

section \<open>Settings\<close>

record 'w arg_handlers =
  silent_arg_func :: "string \<Rightarrow> 'w \<Rightarrow> (int \<times> 'w) option"
  verbose_arg_func :: "string \<Rightarrow> 'w \<Rightarrow> (int \<times> 'w) option"
  logfile_arg_func :: "string \<Rightarrow> 'w \<Rightarrow> (int \<times> 'w) option"

definition bc_tester_set_max_parallel_suites :: "int \<Rightarrow> tester \<Rightarrow> tester" where
  "bc_tester_set_max_parallel_suites nb_suites st = st\<lparr>max_parallel_suites := nb_suites\<rparr>"

definition bc_tester_set_max_failed_tests_threshold :: "int \<Rightarrow> tester \<Rightarrow> tester" where
  "bc_tester_set_max_failed_tests_threshold threshold st = st\<lparr>max_failed_tests_threshold := threshold\<rparr>"

definition bc_tester_set_global_timeout :: "int \<Rightarrow> tester \<Rightarrow> tester" where
  "bc_tester_set_global_timeout seconds st = st\<lparr>globalTimeout := word_of_int seconds\<rparr>"

definition bc_tester_get_max_parallel_processes :: "tester \<Rightarrow> int" where
  "bc_tester_get_max_parallel_processes st =
     (if max_parallel_suites st = 0 then int (nb_test_suites st) div 2 + 1 else max_parallel_suites st)"

text \<open>The part of \<open>bc_tester_init\<close> that concerns these variables.\<close>

definition bc_tester_init :: "int \<Rightarrow> int \<Rightarrow> string option \<Rightarrow> tester \<Rightarrow> tester" where
  "bc_tester_init iverbosity_info iverbosity_error aexpected_res st =
     st\<lparr>bc_printf_verbosity_error := iverbosity_error, bc_printf_verbosity_info := iverbosity_info,
        bc_tester_writable_dir_prefix :=
          (case bc_tester_writable_dir_prefix st of None \<Rightarrow> Some ''.'' | Some d \<Rightarrow> Some d),
        expected_res := (case aexpected_res of None \<Rightarrow> expected_res st | Some r \<Rightarrow> Some r)\<rparr>"

definition bc_tester_set_resource_dir_prefix :: "string \<Rightarrow> tester \<Rightarrow> tester" where
  "bc_tester_set_resource_dir_prefix n st = st\<lparr>bc_tester_resource_dir_prefix := Some n\<rparr>"

definition bc_tester_set_writable_dir_prefix :: "string \<Rightarrow> tester \<Rightarrow> tester" where
  "bc_tester_set_writable_dir_prefix n st = st\<lparr>bc_tester_writable_dir_prefix := Some n\<rparr>"

text \<open>A NULL prefix is printed by \<open>%s\<close>, which is undefined.\<close>

definition bc_tester_path :: "string option \<Rightarrow> string option \<Rightarrow> string option option" where
  "bc_tester_path prefix n =
     (case n of None \<Rightarrow> Some None | Some n \<Rightarrow> map_option (\<lambda>p. Some (p @ ''/'' @ n)) prefix)"

definition bc_tester_res :: "tester \<Rightarrow> string option \<Rightarrow> string option option" where
  "bc_tester_res st n = bc_tester_path (bc_tester_resource_dir_prefix st) n"

definition bc_tester_file :: "tester \<Rightarrow> string option \<Rightarrow> string option option" where
  "bc_tester_file st n = bc_tester_path (bc_tester_writable_dir_prefix st) n"

section \<open>The options\<close>

definition atoi :: "string \<Rightarrow> int" where
  "atoi s = to_i32 (fst (strtol10 s))"

text \<open>\<open>CHECK_ARG\<close> and the argument that follows the option at \<open>i\<close>.\<close>

definition with_arg ::
    "string list \<Rightarrow> nat \<Rightarrow> tester \<times> 'w \<Rightarrow> (string \<Rightarrow> (int \<times> tester \<times> 'w) option) \<Rightarrow> (int \<times> tester \<times> 'w) option" where
  "with_arg argv i s k = (if i + 1 \<ge> length argv then Some (-1, s) else k (argv ! (i + 1)))"

definition bc_tester_parse_args ::
    "'w arg_handlers \<Rightarrow> string list \<Rightarrow> nat \<Rightarrow> tester \<times> 'w \<Rightarrow> (int \<times> tester \<times> 'w) option" where
  "bc_tester_parse_args h argv argid s =
     (if argid \<ge> length argv then None
      else (let (st, w) = s; arg = argv ! argid in
        if strcmp arg ''--help'' = 0 then Some (-1, st, w)
        else if strcmp arg ''--log-file'' = 0
        then with_arg argv argid s (\<lambda>v. do {
          (ret, w1) \<leftarrow> logfile_arg_func h v w;
          if ret < 0 then Some (ret, st, w1) else Some (2, st\<lparr>log_file_name := Some v\<rparr>, w1) })
        else if strcmp arg ''--silent'' = 0
        then do { (ret, w1) \<leftarrow> silent_arg_func h arg w; Some (if ret < 0 then ret else 1, st, w1) }
        else if strcmp arg ''--verbose'' = 0
        then do { (ret, w1) \<leftarrow> verbose_arg_func h arg w; Some (if ret < 0 then ret else 1, st, w1) }
        else if strcmp arg ''--test'' = 0
        then with_arg argv argid s (\<lambda>v. Some (2, st\<lparr>test_name := Some v\<rparr>, w))
        else if strcmp arg ''--suite'' = 0
        then with_arg argv argid s (\<lambda>v. Some (2, st\<lparr>suites_to_run := suites_to_run st @ [v]\<rparr>, w))
        else if strcmp arg ''--exclude-suite'' = 0
        then with_arg argv argid s (\<lambda>v. Some (2, st\<lparr>suites_to_exclude := suites_to_exclude st @ [v]\<rparr>, w))
        else if strcmp arg ''--tag'' = 0
        then with_arg argv argid s (\<lambda>v. Some (2, st\<lparr>tags_to_run := tags_to_run st @ [v]\<rparr>, w))
        else if strcmp arg ''--all'' = 0 then Some (1, st\<lparr>run_skipped_tests := True\<rparr>, w)
        else if strcmp arg ''--list-suites'' = 0
        then map_option (\<lambda>st1. (0, st1, w)) (bc_tester_list_suites st)
        else if strcmp arg ''--list-tests'' = 0
        then with_arg argv argid s (\<lambda>v. map_option (\<lambda>st1. (0, st1, w)) (bc_tester_list_tests v st))
        else if strcmp arg ''--xml-file'' = 0
        then with_arg argv argid s (\<lambda>v. Some (2, st\<lparr>xml_file := v, xml_enabled := True\<rparr>, w))
        else if strcmp arg ''--xml'' = 0 then Some (1, st\<lparr>xml_enabled := True\<rparr>, w)
        else if strcmp arg ''--parallel'' = 0
        then Some (1, st\<lparr>xml_enabled := True, run_in_parallel := True,
          origin_argv := (case origin_argv st of None \<Rightarrow> Some argv | Some a \<Rightarrow> Some a)\<rparr>, w)
        else if strcmp arg ''--parallel-max'' = 0
        then with_arg argv argid s (\<lambda>v. Some (2, bc_tester_set_max_parallel_suites (atoi v) st, w))
        else if strcmp arg ''--timeout'' = 0
        then with_arg argv argid s (\<lambda>v.
          map_option (\<lambda>n. (2, st\<lparr>globalTimeout := word_of_int n\<rparr>, w)) (i32 (atoi v * 60)))
        else if strcmp arg ''--max-alloc'' = 0
        then with_arg argv argid s (\<lambda>v. Some (2, st\<lparr>max_vm_kb := word_of_int (fst (strtol10 v))\<rparr>, w))
        else if strcmp arg ''--resource-dir'' = 0
        then with_arg argv argid s (\<lambda>v. Some (2, st\<lparr>bc_tester_resource_dir_prefix := Some v\<rparr>, w))
        else if strcmp arg ''--writable-dir'' = 0
        then with_arg argv argid s (\<lambda>v. Some (2, st\<lparr>bc_tester_writable_dir_prefix := Some v\<rparr>, w))
        else if strcmp arg ''--child'' = 0 then Some (1, st, w)
        else Some (-1, bc_tester_printf (bc_printf_verbosity_error st) (''Unknown option \"'' @ arg @ ''\"'') st, w)))"

section \<open>The arguments of a child\<close>

definition get_logfile_name :: "string \<Rightarrow> string option \<Rightarrow> string" where
  "get_logfile_name base_name suite_name =
     (case suite_name of
        None \<Rightarrow> base_name
      | Some n \<Rightarrow> base_name @ ''_'' @ bctbx_replace n (CHR '' '') (CHR ''_'') @ ''.log'')"

text \<open>The position of a suite that is not found is 0, which the subtraction turns into -1 when printed.\<close>

definition get_junit_xml_file_name ::
    "'r bcunit \<Rightarrow> 'r \<Rightarrow> tester \<Rightarrow> string option \<Rightarrow> string option \<Rightarrow> string" where
  "get_junit_xml_file_name cu r st suite_name suffix =
     (let suf = (case suffix of None \<Rightarrow> [] | Some s \<Rightarrow> s) in
      case suite_name of
        None \<Rightarrow> xml_file st @ suf
      | Some n \<Rightarrow> xml_file st @ ''_'' @ show_int (int (CU_get_suite_pos_by_name cu n r) - 1) @ suf)"

definition push_arg :: "nat \<Rightarrow> string list \<Rightarrow> string \<Rightarrow> string list option" where
  "push_arg room argv a = (if length argv < room then Some (argv @ [a]) else None)"

text \<open>\<open>origin_argv[i]\<close>: \<open>Some None\<close> is the NULL at the end, behind it nothing may be read.\<close>

definition origin_at :: "string list \<Rightarrow> nat \<Rightarrow> string option option" where
  "origin_at origin i = (if i < length origin then Some (Some (origin ! i)) else if i = length origin then Some None else None)"

function child_loop ::
    "string list \<Rightarrow> string option \<Rightarrow> string \<Rightarrow> nat \<Rightarrow> nat \<Rightarrow> string list \<Rightarrow> string list option" where
  "child_loop origin logname suite_name room i argv =
     (case origin_at origin i of
        None \<Rightarrow> None
      | Some None \<Rightarrow> Some argv
      | Some (Some a) \<Rightarrow>
          if strcmp a ''--verbose'' = 0 \<or> strcmp a ''--silent'' = 0
          then Option.bind (push_arg room argv a) (child_loop origin logname suite_name room (i + 1))
          else if strcmp a ''--log-file'' = 0
          then Option.bind (push_arg room argv a) (\<lambda>argv1.
            Option.bind logname (\<lambda>base.
            Option.bind (push_arg room argv1 (get_logfile_name base (Some suite_name)))
              (child_loop origin logname suite_name room (i + 2))))
          else if strcmp a ''--xml-file'' = 0
          then Option.bind (push_arg room argv a) (\<lambda>argv1.
            Option.bind (Option.bind (origin_at origin (i + 1)) id) (\<lambda>v.
            Option.bind (push_arg room argv1 v) (child_loop origin logname suite_name room (i + 2))))
          else if strcmp a ''--parallel'' = 0
          then Option.bind (push_arg room argv a) (child_loop origin logname suite_name room (i + 1))
          else if strcmp a ''--suite'' = 0 then child_loop origin logname suite_name room (i + 2) argv
          else if strcmp a ''--exclude-suite'' = 0 then child_loop origin logname suite_name room (i + 2) argv
          else Option.bind (push_arg room argv a) (child_loop origin logname suite_name room (i + 1)))"
  by pat_completeness auto
termination
  by (relation "measure (\<lambda>(origin, _, _, _, i, _). length origin - i)")
    (auto simp: origin_at_def split: if_splits)

declare child_loop.simps [simp del]

fun push_all_args :: "nat \<Rightarrow> string list \<Rightarrow> string list \<Rightarrow> string list option" where
  "push_all_args room argv [] = Some argv"
| "push_all_args room argv (a # as) = Option.bind (push_arg room argv a) (\<lambda>argv1. push_all_args room argv1 as)"

text \<open>The array has \<open>origin_argc + 10\<close> cells; the last write is the terminating NULL.\<close>

definition prepare_child_arguments :: "'r bcunit \<Rightarrow> 'r \<Rightarrow> tester \<Rightarrow> string \<Rightarrow> string list option" where
  "prepare_child_arguments cu r st suite_name = do {
     origin \<leftarrow> origin_argv st;
     let room = length origin + 10;
     prog \<leftarrow> Option.bind (origin_at origin 0) id;
     argv \<leftarrow> push_arg room [] prog;
     argv \<leftarrow> child_loop origin (log_file_name st) suite_name room 1 argv;
     argv \<leftarrow> push_all_args room argv
       [''--xml'', ''--xml-file'', get_junit_xml_file_name cu r st (Some suite_name) None, ''--suite'', suite_name];
     _ \<leftarrow> require (length argv < room);
     Some argv }"

text \<open>\<open>execv\<close> replaces the process by the program with these arguments, or returns an error.\<close>

definition start_sub_process ::
    "(string \<Rightarrow> string list \<Rightarrow> 'e) \<Rightarrow> 'r bcunit \<Rightarrow> 'r \<Rightarrow> tester \<Rightarrow> string \<Rightarrow> 'e option" where
  "start_sub_process execv cu r st suite_name = do {
     argv \<leftarrow> prepare_child_arguments cu r st suite_name;
     Some (execv (argv ! 0) argv) }"

text \<open>The loop of a client over its arguments: \<open>None\<close> in front of the state when all were read.\<close>

function parse_all :: "'w arg_handlers \<Rightarrow> string list \<Rightarrow> nat \<Rightarrow> tester \<times> 'w \<Rightarrow> (int option \<times> tester \<times> 'w) option" where
  "parse_all h argv i s =
     (if i < length argv
      then (case bc_tester_parse_args h argv i s of
              None \<Rightarrow> None
            | Some (ret, s1) \<Rightarrow> if ret > 0 then parse_all h argv (i + nat ret) s1 else Some (Some ret, s1))
      else Some (None, s))"
  by pat_completeness auto
termination by (relation "measure (\<lambda>(_, argv, i, _). length argv - i)") auto

declare parse_all.simps [simp del]

section \<open>Options as data\<close>

datatype opt = Flag string | Val string string

fun option_words :: "opt \<Rightarrow> string list" where
  "option_words (Flag f) = [f]"
| "option_words (Val f v) = [f, v]"

text \<open>The options that set something, and a command line made of them.\<close>

definition setting_flags :: "string list" where
  "setting_flags = [''--silent'', ''--verbose'', ''--all'', ''--xml'', ''--parallel'', ''--child'']"

definition setting_values :: "string list" where
  "setting_values = [''--log-file'', ''--test'', ''--suite'', ''--exclude-suite'', ''--tag'', ''--xml-file'',
     ''--parallel-max'', ''--timeout'', ''--max-alloc'', ''--resource-dir'', ''--writable-dir'']"

fun is_setting :: "opt \<Rightarrow> bool" where
  "is_setting (Flag f) = (f \<in> set setting_flags)"
| "is_setting (Val f v) = (f \<in> set setting_values)"

text \<open>What an option does to the settings; only a timeout beyond the range of \<open>int\<close> is undefined.\<close>

fun setting :: "string list \<Rightarrow> opt \<Rightarrow> tester \<Rightarrow> tester option" where
  "setting argv (Flag f) st = Some
     (if f = ''--all'' then st\<lparr>run_skipped_tests := True\<rparr>
      else if f = ''--xml'' then st\<lparr>xml_enabled := True\<rparr>
      else if f = ''--parallel'' then st\<lparr>xml_enabled := True, run_in_parallel := True,
        origin_argv := (case origin_argv st of None \<Rightarrow> Some argv | Some a \<Rightarrow> Some a)\<rparr>
      else st)"
| "setting argv (Val f v) st =
     (if f = ''--log-file'' then Some (st\<lparr>log_file_name := Some v\<rparr>)
      else if f = ''--test'' then Some (st\<lparr>test_name := Some v\<rparr>)
      else if f = ''--suite'' then Some (st\<lparr>suites_to_run := suites_to_run st @ [v]\<rparr>)
      else if f = ''--exclude-suite'' then Some (st\<lparr>suites_to_exclude := suites_to_exclude st @ [v]\<rparr>)
      else if f = ''--tag'' then Some (st\<lparr>tags_to_run := tags_to_run st @ [v]\<rparr>)
      else if f = ''--xml-file'' then Some (st\<lparr>xml_file := v, xml_enabled := True\<rparr>)
      else if f = ''--parallel-max'' then Some (st\<lparr>max_parallel_suites := atoi v\<rparr>)
      else if f = ''--timeout'' then map_option (\<lambda>n. st\<lparr>globalTimeout := word_of_int n\<rparr>) (i32 (atoi v * 60))
      else if f = ''--max-alloc'' then Some (st\<lparr>max_vm_kb := word_of_int (fst (strtol10 v))\<rparr>)
      else if f = ''--resource-dir'' then Some (st\<lparr>bc_tester_resource_dir_prefix := Some v\<rparr>)
      else Some (st\<lparr>bc_tester_writable_dir_prefix := Some v\<rparr>))"

fun settings :: "string list \<Rightarrow> opt list \<Rightarrow> tester \<Rightarrow> tester option" where
  "settings argv [] st = Some st"
| "settings argv (x # xs) st = Option.bind (setting argv x st) (settings argv xs)"

text \<open>Handlers that accept what they are given.\<close>

definition handlers_accept :: "'w arg_handlers \<Rightarrow> bool" where
  "handlers_accept h \<longleftrightarrow> (\<forall>f \<in> {silent_arg_func h, verbose_arg_func h, logfile_arg_func h}.
     \<forall>a w. \<exists>ret w'. f a w = Some (ret, w') \<and> 0 \<le> ret)"

lemma handlers_acceptD:
  assumes "handlers_accept h"
  shows "\<exists>ret w'. silent_arg_func h a w = Some (ret, w') \<and> \<not> ret < 0"
    "\<exists>ret w'. verbose_arg_func h a w = Some (ret, w') \<and> \<not> ret < 0"
    "\<exists>ret w'. logfile_arg_func h a w = Some (ret, w') \<and> \<not> ret < 0"
  using assms by (auto simp: handlers_accept_def not_less)

lemma parse_option:
  assumes "is_setting x" "argv = before @ option_words x @ after" "handlers_accept h" "setting argv x st = Some st'"
  shows "\<exists>w'. bc_tester_parse_args h argv (length before) (st, w) = Some (int (length (option_words x)), st', w')"
proof (cases x)
  case (Flag f)
  have n: "argv ! length before = f" "length before < length argv"
    using assms(2) Flag by (simp_all add: nth_append)
  have "f = ''--silent'' \<or> f = ''--verbose'' \<or> f = ''--all'' \<or> f = ''--xml'' \<or> f = ''--parallel'' \<or> f = ''--child''"
    using assms(1) unfolding Flag is_setting.simps setting_flags_def list.set insert_iff empty_iff simp_thms .
  then show ?thesis
    using assms(4) n handlers_acceptD(1,2) [OF assms(3), of f w] unfolding Flag
    by (elim disjE) (auto simp: bc_tester_parse_args_def)
next
  case (Val f v)
  have n: "argv ! length before = f" "argv ! Suc (length before) = v" "Suc (length before) < length argv"
    using assms(2) Val by (simp_all add: nth_append)
  have "f = ''--log-file'' \<or> f = ''--test'' \<or> f = ''--suite'' \<or> f = ''--exclude-suite'' \<or> f = ''--tag'' \<or>
      f = ''--xml-file'' \<or> f = ''--parallel-max'' \<or> f = ''--timeout'' \<or> f = ''--max-alloc'' \<or>
      f = ''--resource-dir'' \<or> f = ''--writable-dir''"
    using assms(1) unfolding Val is_setting.simps setting_values_def list.set insert_iff empty_iff simp_thms .
  then show ?thesis
    using assms(4) n handlers_acceptD(3) [OF assms(3), of v w] unfolding Val
    by (elim disjE) (auto simp: bc_tester_parse_args_def with_arg_def bc_tester_set_max_parallel_suites_def)
qed

lemma parse_settings:
  assumes "\<forall>x \<in> set xs. is_setting x" "argv = before @ concat (List.map option_words xs)" "handlers_accept h"
    "settings argv xs st = Some st'"
  shows "\<exists>w'. parse_all h argv (length before) (st, w) = Some (None, st', w')"
  using assms(1,2,4)
proof (induction xs arbitrary: before st w)
  case Nil
  then show ?case by (simp add: parse_all.simps)
next
  case (Cons x xs)
  then obtain st1 where st1: "setting argv x st = Some st1" "settings argv xs st1 = Some st'"
    by (auto simp: bind_Some_iff)
  obtain w1 where w1: "bc_tester_parse_args h argv (length before) (st, w) = Some (int (length (option_words x)), st1, w1)"
    using parse_option [OF _ _ assms(3) st1(1), of before "concat (List.map option_words xs)"] Cons.prems by auto
  have l: "0 < length (option_words x)" by (cases x) simp_all
  obtain w2 where "parse_all h argv (length (before @ option_words x)) (st1, w1) = Some (None, st', w2)"
    using Cons.IH [of "before @ option_words x" st1 w1] Cons.prems st1(2) by auto
  then show ?case
    using w1 l Cons.prems(2) by (subst parse_all.simps) simp
qed

section \<open>What a child is told\<close>

text \<open>The options that the parent interprets when it copies its own, whatever their place.\<close>

definition taken_over :: "string list" where
  "taken_over = [''--log-file'', ''--xml-file'', ''--suite'', ''--exclude-suite'']"

fun plain_value :: "opt \<Rightarrow> bool" where
  "plain_value (Flag f) = True"
| "plain_value (Val f v) = (f \<in> set taken_over \<or> v \<notin> set taken_over)"

fun child_opt :: "string \<Rightarrow> string \<Rightarrow> opt \<Rightarrow> opt list" where
  "child_opt base suite_name (Flag f) = [Flag f]"
| "child_opt base suite_name (Val f v) =
     (if f = ''--log-file'' then [Val f (get_logfile_name base (Some suite_name))]
      else if f = ''--suite'' \<or> f = ''--exclude-suite'' then [] else [Val f v])"

definition child_opts :: "string \<Rightarrow> string \<Rightarrow> opt list \<Rightarrow> opt list" where
  "child_opts base suite_name xs = concat (List.map (child_opt base suite_name) xs)"

definition words :: "opt list \<Rightarrow> string list" where
  "words xs = concat (List.map option_words xs)"

lemma words_simps [simp]: "words [] = []" "words (x # xs) = option_words x @ words xs" "words (xs @ ys) = words xs @ words ys"
  by (simp_all add: words_def)

lemma child_opts_simps [simp]:
  "child_opts base n [] = []" "child_opts base n (x # xs) = child_opt base n x @ child_opts base n xs"
  by (simp_all add: child_opts_def)

lemma child_words_length: "length (words (child_opts base n xs)) \<le> length (words xs)"
proof (induction xs)
  case (Cons x xs)
  have "length (words (child_opt base n x)) \<le> length (option_words x)" by (cases x) simp_all
  with Cons show ?case by simp
qed simp

lemma child_loop_option:
  assumes "is_setting x" "plain_value x" "origin = before @ option_words x @ after" "length argv + 2 \<le> room"
    "(\<exists>v. x = Val ''--log-file'' v) \<longrightarrow> logname = Some base"
  shows "child_loop origin logname n room (length before) argv =
    child_loop origin logname n room (length before + length (option_words x)) (argv @ words (child_opt base n x))"
proof (cases x)
  case (Flag f)
  have o: "origin_at origin (length before) = Some (Some f)" using assms(3) Flag by (simp add: origin_at_def)
  have f: "f = ''--silent'' \<or> f = ''--verbose'' \<or> f = ''--all'' \<or> f = ''--xml'' \<or> f = ''--parallel'' \<or> f = ''--child''"
    using assms(1) unfolding Flag is_setting.simps setting_flags_def list.set insert_iff empty_iff simp_thms .
  show ?thesis
    unfolding Flag by (subst child_loop.simps, unfold o) (use f assms(4) in \<open>elim disjE; simp add: push_arg_def\<close>)
next
  case (Val f v)
  have o: "origin_at origin (length before) = Some (Some f)" "origin_at origin (Suc (length before)) = Some (Some v)"
    using assms(3) Val by (simp_all add: origin_at_def nth_append)
  consider (log) "f = ''--log-file''" | (xml) "f = ''--xml-file''" | (sel) "f = ''--suite'' \<or> f = ''--exclude-suite''"
    | (other) "f \<notin> set taken_over" "f \<noteq> ''--verbose''" "f \<noteq> ''--silent''" "f \<noteq> ''--parallel''" "v \<notin> set taken_over"
    using assms(1,2) unfolding Val by (simp add: setting_values_def taken_over_def) fastforce
  then show ?thesis
  proof cases
    case log
    then show ?thesis
      using assms(4,5) unfolding Val
      by (subst child_loop.simps, unfold o) (simp add: push_arg_def)
  next
    case xml
    then show ?thesis
      using assms(4) unfolding Val
      by (subst child_loop.simps, unfold o) (simp add: push_arg_def o)
  next
    case sel
    then show ?thesis
      using assms(4) unfolding Val
      by (subst child_loop.simps, unfold o) (elim disjE; simp)
  next
    case other
    have ne: "f \<noteq> ''--log-file''" "f \<noteq> ''--xml-file''" "f \<noteq> ''--suite''" "f \<noteq> ''--exclude-suite''"
      "v \<noteq> ''--log-file''" "v \<noteq> ''--xml-file''" "v \<noteq> ''--suite''" "v \<noteq> ''--exclude-suite''"
      using other(1,5) unfolding taken_over_def list.set insert_iff empty_iff by blast+
    have "child_loop origin logname n room (length before) argv =
        child_loop origin logname n room (Suc (length before)) (argv @ [f])"
      by (subst child_loop.simps, unfold o) (use ne other(2-4) assms(4) in \<open>simp add: push_arg_def\<close>)
    also have "\<dots> = child_loop origin logname n room (Suc (Suc (length before))) (argv @ [f, v])"
      by (subst child_loop.simps, unfold o) (use ne assms(4) in \<open>simp add: push_arg_def\<close>)
    finally show ?thesis using ne unfolding Val by simp
  qed
qed

lemma child_loop_options:
  assumes "\<forall>x \<in> set xs. is_setting x \<and> plain_value x" "origin = before @ words xs"
    "length argv + length (words xs) + 2 \<le> room" "(\<exists>v. Val ''--log-file'' v \<in> set xs) \<longrightarrow> logname = Some base"
  shows "child_loop origin logname n room (length before) argv = Some (argv @ words (child_opts base n xs))"
  using assms
proof (induction xs arbitrary: before argv)
  case Nil
  then show ?case by (subst child_loop.simps) (simp add: origin_at_def)
next
  case (Cons x xs)
  have l: "length (words (child_opt base n x)) \<le> length (option_words x)" by (cases x) simp_all
  have "child_loop origin logname n room (length before) argv =
      child_loop origin logname n room (length (before @ option_words x)) (argv @ words (child_opt base n x))"
    using child_loop_option [of x origin before "words xs" argv room logname base n] Cons.prems by auto
  also have "\<dots> = Some ((argv @ words (child_opt base n x)) @ words (child_opts base n xs))"
    using Cons.prems l by (intro Cons.IH) auto
  finally show ?case by simp
qed

text \<open>The settings that every child shares with its parent.\<close>

definition shared :: "tester \<Rightarrow> tester" where
  "shared st = st\<lparr>log_file_name := None, xml_file := [], xml_enabled := False, suites_to_run := [],
     suites_to_exclude := [], origin_argv := None\<rparr>"

definition child_log :: "string \<Rightarrow> string \<Rightarrow> opt list \<Rightarrow> string option \<Rightarrow> string option" where
  "child_log base n xs old =
     (if \<exists>v. Val ''--log-file'' v \<in> set xs then Some (get_logfile_name base (Some n)) else old)"

lemma shared_eq:
  assumes "shared st = shared ct"
  obtains a b c d e f where "ct = st\<lparr>log_file_name := a, xml_file := b, xml_enabled := c, suites_to_run := d,
    suites_to_exclude := e, origin_argv := f\<rparr>"
  using assms that [where a = "log_file_name ct" and b = "xml_file ct" and c = "xml_enabled ct" and
    d = "suites_to_run ct" and e = "suites_to_exclude ct" and f = "origin_argv ct"]
  by (cases st; cases ct) (simp add: shared_def)

lemma child_opt_setting: "is_setting y \<Longrightarrow> x \<in> set (child_opt base n y) \<Longrightarrow> is_setting x"
  by (cases y) (auto split: if_splits)

lemma child_setting:
  assumes "is_setting x" "setting argv x st = Some st'" "shared st = shared ct"
  shows "\<exists>ct'. settings cargv (child_opt base n x) ct = Some ct' \<and> shared st' = shared ct' \<and>
    suites_to_run ct' = suites_to_run ct \<and> suites_to_exclude ct' = suites_to_exclude ct \<and>
    log_file_name ct' = child_log base n [x] (log_file_name ct)"
  using assms(3)
proof (rule shared_eq)
  fix a b c d e g
  assume ct: "ct = st\<lparr>log_file_name := a, xml_file := b, xml_enabled := c, suites_to_run := d,
    suites_to_exclude := e, origin_argv := g\<rparr>"
  show ?thesis
  proof (cases x)
    case (Flag f)
    have f: "f = ''--silent'' \<or> f = ''--verbose'' \<or> f = ''--all'' \<or> f = ''--xml'' \<or> f = ''--parallel'' \<or> f = ''--child''"
      using assms(1) unfolding Flag is_setting.simps setting_flags_def list.set insert_iff empty_iff simp_thms .
    show ?thesis
      using f ct assms(2) unfolding Flag by (elim disjE; clarsimp simp: shared_def child_log_def)
  next
    case (Val f v)
    have f: "f = ''--log-file'' \<or> f = ''--test'' \<or> f = ''--suite'' \<or> f = ''--exclude-suite'' \<or> f = ''--tag'' \<or>
        f = ''--xml-file'' \<or> f = ''--parallel-max'' \<or> f = ''--timeout'' \<or> f = ''--max-alloc'' \<or>
        f = ''--resource-dir'' \<or> f = ''--writable-dir''"
      using assms(1) unfolding Val is_setting.simps setting_values_def list.set insert_iff empty_iff simp_thms .
    show ?thesis
      using f ct assms(2) unfolding Val by (elim disjE; clarsimp simp: shared_def child_log_def)
  qed
qed

lemma settings_append: "settings argv (xs @ ys) st = Option.bind (settings argv xs st) (settings argv ys)"
proof (induction xs arbitrary: st)
  case (Cons x xs)
  then show ?case by (cases "setting argv x st") simp_all
qed simp

lemma child_settings_run:
  assumes "\<forall>x \<in> set xs. is_setting x" "settings argv xs st = Some st'" "shared st = shared ct"
  shows "\<exists>ct'. settings cargv (child_opts base n xs) ct = Some ct' \<and> shared st' = shared ct' \<and>
    suites_to_run ct' = suites_to_run ct \<and> suites_to_exclude ct' = suites_to_exclude ct \<and>
    log_file_name ct' = child_log base n xs (log_file_name ct)"
  using assms
proof (induction xs arbitrary: st ct)
  case Nil
  then show ?case by (simp add: child_log_def)
next
  case (Cons x xs)
  then obtain st1 where st1: "setting argv x st = Some st1" "settings argv xs st1 = Some st'"
    by (auto simp: bind_Some_iff)
  obtain ct1 where ct1: "settings cargv (child_opt base n x) ct = Some ct1" "shared st1 = shared ct1"
    "suites_to_run ct1 = suites_to_run ct" "suites_to_exclude ct1 = suites_to_exclude ct"
    "log_file_name ct1 = child_log base n [x] (log_file_name ct)"
    using child_setting [OF _ st1(1) Cons.prems(3)] Cons.prems(1) by (metis list.set_intros(1))
  obtain ct2 where ct2: "settings cargv (child_opts base n xs) ct1 = Some ct2" "shared st' = shared ct2"
    "suites_to_run ct2 = suites_to_run ct1" "suites_to_exclude ct2 = suites_to_exclude ct1"
    "log_file_name ct2 = child_log base n xs (log_file_name ct1)"
    using Cons.IH [OF _ st1(2) ct1(2)] Cons.prems(1) by (metis list.set_intros(2))
  have "child_log base n xs (child_log base n [x] old) = child_log base n (x # xs) old" for old
    by (auto simp: child_log_def)
  then show ?case using ct1 ct2 by (auto simp: settings_append)
qed

text \<open>After the options were read, a log file was named if there was the option.\<close>

lemma settings_log:
  assumes "settings argv xs st = Some st'" "Val ''--log-file'' v \<in> set xs \<or> log_file_name st \<noteq> None"
  shows "log_file_name st' \<noteq> None"
  using assms
proof (induction xs arbitrary: st)
  case (Cons x xs)
  then obtain st1 where st1: "setting argv x st = Some st1" "settings argv xs st1 = Some st'"
    by (auto simp: bind_Some_iff)
  have "log_file_name st1 \<noteq> None" if "x = Val ''--log-file'' v \<or> log_file_name st \<noteq> None"
    using that st1(1) by (cases x) (auto split: if_splits)
  then show ?case using Cons.IH [OF st1(2)] Cons.prems(2) by auto
qed simp

section \<open>Properties\<close>

text \<open>
  C15: The command line of a child.  When the parent was started with any sequence of options that set something, its
  child for a suite gets an argument list that fits the array of ten cells more than the parent has; and when
  the child reads it, it ends up with the settings of the parent, except that it runs this suite alone,
  writes to a log file and to an XML file of this suite, and ignores the suites that the parent
  had selected or excluded.  A value that is itself one of the four options the parent interprets is not covered.
\<close>

theorem child_gets_settings:
  assumes "\<forall>x \<in> set xs. is_setting x \<and> plain_value x" "handlers_accept h"
    "argv = prog # words xs" "settings argv xs st0 = Some st" "origin_argv st = Some argv"
  shows "\<exists>out ct w'. parse_all h argv 1 (st0, w) \<noteq> None \<and>
    prepare_child_arguments cu r st n = Some out \<and> length out < length argv + 10 \<and> out ! 0 = prog \<and>
    parse_all h out 1 (st0, w) = Some (None, ct, w') \<and> shared ct = shared st \<and>
    suites_to_run ct = suites_to_run st0 @ [n] \<and> suites_to_exclude ct = suites_to_exclude st0 \<and>
    xml_enabled ct \<and> xml_file ct = get_junit_xml_file_name cu r st (Some n) None \<and>
    log_file_name ct = child_log (the (log_file_name st)) n xs (log_file_name st0)"
proof -
  let ?base = "the (log_file_name st)" and ?junit = "get_junit_xml_file_name cu r st (Some n) None"
  let ?ys = "child_opts ?base n xs @ [Flag ''--xml'', Val ''--xml-file'' ?junit, Val ''--suite'' n]"
  let ?out = "prog # words ?ys"
  have set: "\<forall>x \<in> set xs. is_setting x" using assms(1) by blast
  have log: "(\<exists>v. Val ''--log-file'' v \<in> set xs) \<longrightarrow> log_file_name st = Some ?base"
    using settings_log [OF assms(4)] by fastforce
  have len: "length (words (child_opts ?base n xs)) \<le> length (words xs)" by (rule child_words_length)
  have "child_loop argv (log_file_name st) n (length argv + 10) (length [prog]) [prog] =
      Some ([prog] @ words (child_opts ?base n xs))"
    using assms(1,3) log by (intro child_loop_options) auto
  then have prep: "prepare_child_arguments cu r st n = Some ?out"
    using assms(3,5) len by (simp add: prepare_child_arguments_def origin_at_def push_arg_def)
  obtain ct where ct: "settings ?out (child_opts ?base n xs) st0 = Some ct" "shared st = shared ct"
    "suites_to_run ct = suites_to_run st0" "suites_to_exclude ct = suites_to_exclude st0"
    "log_file_name ct = child_log ?base n xs (log_file_name st0)"
    using child_settings_run [OF set assms(4) refl] by blast
  let ?ct = "ct\<lparr>xml_enabled := True, xml_file := ?junit, suites_to_run := suites_to_run ct @ [n]\<rparr>"
  have fin: "settings ?out ?ys st0 = Some ?ct" using ct(1) by (simp add: settings_append)
  have ys: "\<forall>x \<in> set ?ys. is_setting x"
    using set child_opt_setting by (fastforce simp: child_opts_def setting_flags_def setting_values_def)
  obtain w1 where "parse_all h ?out (length [prog]) (st0, w) = Some (None, ?ct, w1)"
    using parse_settings [OF ys _ assms(2) fin, of "[prog]" w] by (auto simp: words_def)
  moreover have "parse_all h argv (length [prog]) (st0, w) \<noteq> None"
    using parse_settings [OF set _ assms(2,4), of "[prog]" w] assms(3) by (auto simp: words_def)
  moreover have "shared ?ct = shared st" using ct(2) by (simp add: shared_def)
  ultimately show ?thesis using prep len assms(3) ct by auto
qed

definition demo_handlers :: "unit arg_handlers" where
  "demo_handlers = \<lparr>silent_arg_func = (\<lambda>_ w. Some (0, w)), verbose_arg_func = (\<lambda>_ w. Some (0, w)),
     logfile_arg_func = (\<lambda>_ w. Some (0, w))\<rparr>"

definition demo_options :: "opt list" where
  "demo_options = [Flag ''--parallel'', Val ''--suite'' ''Vfs'', Val ''--log-file'' ''run'', Val ''--tag'' ''slow'']"

theorem child_gets_settings_witness:
  "\<exists>st out ct. settings (''tester'' # words demo_options) demo_options demo_tester = Some st \<and>
     prepare_child_arguments list_bcunit (Some [], 0) st ''My suite'' = Some out \<and>
     parse_all demo_handlers out 1 (demo_tester, ()) = Some (None, ct, ()) \<and>
     suites_to_run ct = [''My suite''] \<and> tags_to_run ct = [''slow''] \<and>
     log_file_name ct = Some ''run_My_suite.log''"
proof -
  let ?argv = "''tester'' # words demo_options"
  let ?st = "demo_tester\<lparr>xml_enabled := True, run_in_parallel := True, origin_argv := Some ?argv,
    suites_to_run := [''Vfs''], log_file_name := Some ''run'', tags_to_run := [''slow'']\<rparr>"
  have st: "settings ?argv demo_options demo_tester = Some ?st" "origin_argv ?st = Some ?argv"
    by (simp_all add: demo_options_def demo_tester_def initial_tester_def)
  have ok: "\<forall>x \<in> set demo_options. is_setting x \<and> plain_value x" "handlers_accept demo_handlers"
    by (auto simp: demo_options_def setting_flags_def setting_values_def taken_over_def handlers_accept_def demo_handlers_def)
  obtain out ct where o: "prepare_child_arguments list_bcunit (Some [], 0) ?st ''My suite'' = Some out"
    "parse_all demo_handlers out 1 (demo_tester, ()) = Some (None, ct, ())" "shared ct = shared ?st"
    "suites_to_run ct = suites_to_run demo_tester @ [''My suite'']"
    "log_file_name ct = child_log (the (log_file_name ?st)) ''My suite'' demo_options (log_file_name demo_tester)"
    using child_gets_settings [OF ok refl st, of "()" list_bcunit "(Some [], 0)" "''My suite''"] by auto
  have "child_log ''run'' ''My suite'' demo_options old = Some ''run_My_suite.log''" for old
    by (simp add: child_log_def demo_options_def get_logfile_name_def)
  moreover have "tags_to_run ct = [''slow'']" using arg_cong [OF o(3), of tags_to_run] by (simp add: shared_def)
  ultimately show ?thesis
    using st(1) o by (intro exI [of _ ?st] exI [of _ out] exI [of _ ct]) (simp add: demo_tester_def initial_tester_def)
qed

end
