(* ===== verification/TesterReport.thy ===== *)
theory TesterReport
  imports TesterArgs VfsProps
begin

text \<open>
  The files of the runner, src/tester.c, on the standard file system: the results of a suite, the merging of the
  results, of the JUnit reports and of the logs of the suites that ran in processes of their own, and the report that
  stands in for a suite that crashed.
\<close>

definition STD :: "os bctbx_vfs_t option" where
  "STD = Some bcStandardVfs_obj"

text \<open>\<open>remove\<close> of a regular file.\<close>

definition sys_unlink :: "string \<Rightarrow> os \<Rightarrow> os" where
  "sys_unlink n s = s\<lparr>files := (files s)(n := None)\<rparr>"

definition error_text :: "string \<Rightarrow> tester \<Rightarrow> tester" where
  "error_text msg st = bc_tester_printf (bc_printf_verbosity_error st) msg st"

definition info_text :: "string \<Rightarrow> tester \<Rightarrow> tester" where
  "info_text msg st = bc_tester_printf (bc_printf_verbosity_info st) msg st"

definition quoted :: "string \<Rightarrow> string" where
  "quoted s = CHR 0x27 # s @ [CHR 0x27]"

text \<open>The C string in a buffer that was filled from a file and terminated.\<close>

definition c_string :: "string \<Rightarrow> string" where
  "c_string d = takeWhile (\<lambda>c. c \<noteq> NUL) d"

section \<open>The results of a suite\<close>

definition result_file :: "string \<Rightarrow> string" where
  "result_file suite_name = bctbx_replace suite_name (CHR '' '') (CHR ''_'') @ ''.result''"

text \<open>The results are given to \<open>bctbx_file_fprintf\<close> as its format.\<close>

definition write_suite_result_file :: "string \<Rightarrow> string \<Rightarrow> os \<Rightarrow> os option" where
  "write_suite_result_file suite_name results_string s = do {
     (p, s) \<leftarrow> bctbx_file_open STD (Some (result_file suite_name)) ''w+'' s;
     if p = None then Some s
     else do {
       (_, p, s) \<leftarrow> bctbx_file_truncate p 0 s;
       out \<leftarrow> c_printf results_string [];
       (_, p, s) \<leftarrow> bctbx_file_fprintf p 0 (Some out) s;
       (_, _, s) \<leftarrow> bctbx_file_close p s;
       Some s } }"

definition add_result :: "string option \<Rightarrow> string \<Rightarrow> string \<Rightarrow> string" where
  "add_result results suite_name txt =
     (case results of
        None \<Rightarrow> ''Suite '' @ quoted suite_name @ txt
      | Some r \<Rightarrow> r @ [LF] @ ''Suite '' @ quoted suite_name @ txt)"

definition read_suite_result ::
    "string \<Rightarrow> string option \<Rightarrow> tester \<Rightarrow> os \<Rightarrow> (string option \<times> tester \<times> os) option" where
  "read_suite_result suite_name results st s = do {
     let file_name = result_file suite_name;
     let (p, s) = bctbx_file_open2 STD (Some file_name) O_RDONLY s;
     if p \<noteq> None
     then do {
       (file_size, p, s) \<leftarrow> bctbx_file_size p s;
       (results, st, p, s) \<leftarrow>
         (if file_size > 0
          then do {
            (read_bytes, buffer, p, s) \<leftarrow> bctbx_file_read p (nat file_size) 0 s;
            Some (if read_bytes = file_size
              then (Some (add_result results suite_name ('' results:'' @ [LF] @ c_string buffer)), st, p, s)
              else (results, error_text (''Failed to read suite results file '' @ quoted file_name) st, p, s)) }
          else Some (results, error_text (''Empty suite results file '' @ quoted file_name) st, p, s));
       let s = sys_unlink file_name s;
       (_, _, s) \<leftarrow> bctbx_file_close p s;
       Some (results, st, s) }
     else Some (Some (add_result results suite_name ('' results: CRASH'' @ [LF])),
       error_text (''Failed to open suite results file '' @ quoted file_name) st, s) }"

fun results_loop ::
    "'r bcunit \<Rightarrow> 'r \<Rightarrow> nat \<Rightarrow> nat \<Rightarrow> string option \<Rightarrow> tester \<Rightarrow> os \<Rightarrow> (string option \<times> tester \<times> os) option" where
  "results_loop cu r 0 i results st s = Some (results, st, s)"
| "results_loop cu r (Suc k) i results st s = do {
     suite \<leftarrow> CU_get_suite_at_pos cu (i + 1) r;
     (results, st, s) \<leftarrow> read_suite_result (pName suite) results st s;
     results_loop cu r k (i + 1) results st s }"

definition merge_and_print_results_files ::
    "'r bcunit \<Rightarrow> 'r \<Rightarrow> tester \<Rightarrow> os \<Rightarrow> (tester \<times> os) option" where
  "merge_and_print_results_files cu r st s = do {
     (results, st, s) \<leftarrow> results_loop cu r (uiNumberOfSuites cu r) 0 None st s;
     Some (case results of
       None \<Rightarrow> (st, s)
     | Some txt \<Rightarrow> (info_text (''Tests suites results: '' @ [LF] @ txt) st, s)) }"

text \<open>\<open>run_results\<close> is what BCUnit reports of the tests that were run.\<close>

definition all_complete_message_handler ::
    "'r bcunit \<Rightarrow> 'r \<Rightarrow> string \<Rightarrow> tester \<Rightarrow> os \<Rightarrow> (tester \<times> os) option" where
  "all_complete_message_handler cu r run_results st s =
     (if run_in_parallel st
      then (case bc_current_suite_name st of
              Some n \<Rightarrow> map_option (\<lambda>s. (st, s)) (write_suite_result_file n run_results s)
            | None \<Rightarrow> merge_and_print_results_files cu r st s)
      else Some (info_text ([LF] @ run_results) st, s))"

section \<open>The JUnit reports\<close>

definition results_suffix :: string where
  "results_suffix = ''-Results.xml''"

definition read_suite_xml :: "string \<Rightarrow> tester \<Rightarrow> os \<Rightarrow> (string option \<times> tester \<times> os) option" where
  "read_suite_xml file_name st s = do {
     let (p, s) = bctbx_file_open2 STD (Some file_name) O_RDONLY s;
     if p \<noteq> None
     then do {
       (file_size, p, s) \<leftarrow> bctbx_file_size p s;
       _ \<leftarrow> require (0 \<le> file_size + 1);
       (read_bytes, buffer, p, s) \<leftarrow> bctbx_file_read p (nat file_size) 0 s;
       (_, _, s) \<leftarrow> bctbx_file_close p s;
       Some (if read_bytes = file_size then (Some (c_string buffer), st, sys_unlink file_name s)
         else (None, error_text (''Could not read JUnit XML file '' @ quoted file_name @ '' to merge'') st, s)) }
     else do {
       (_, _, s) \<leftarrow> bctbx_file_close p s;
       Some (None, error_text (''Could not open JUnit XML file '' @ quoted file_name @ '' to merge'') st, s) } }"

fun junit_read_loop ::
    "'r bcunit \<Rightarrow> 'r \<Rightarrow> nat \<Rightarrow> nat \<Rightarrow> tester \<Rightarrow> os \<Rightarrow> (string option list \<times> tester \<times> os) option" where
  "junit_read_loop cu r 0 i st s = Some ([], st, s)"
| "junit_read_loop cu r (Suc k) i st s = do {
     suite \<leftarrow> CU_get_suite_at_pos cu (i + 1) r;
     (entry, st, s) \<leftarrow>
       read_suite_xml (get_junit_xml_file_name cu r st (Some (pName suite)) (Some results_suffix)) st s;
     (rest, st, s) \<leftarrow> junit_read_loop cu r k (i + 1) st s;
     Some (entry # rest, st, s) }"

text \<open>Pieces printed one behind the other, \<open>offset\<close> being advanced by what each print returns.\<close>

fun print_pieces ::
    "string list \<Rightarrow> os bctbx_vfs_file_t option \<Rightarrow> int \<Rightarrow> os \<Rightarrow> (int \<times> os bctbx_vfs_file_t option \<times> os) option" where
  "print_pieces [] p off s = Some (off, p, s)"
| "print_pieces (x # xs) p off s = do {
     (n, p, s) \<leftarrow> bctbx_file_fprintf p off (Some x) s;
     print_pieces xs p (off + n) s }"

definition junit_header :: string where
  "junit_header = ''<?xml version=\"1.0\" encoding=\"UTF-8\"?>'' @ [LF] @ ''<testsuites>'' @ [LF]"

definition junit_footer :: string where
  "junit_footer = ''</testsuites>'' @ [LF]"

definition merge_junit_xml_files ::
    "'r bcunit \<Rightarrow> 'r \<Rightarrow> string \<Rightarrow> tester \<Rightarrow> os \<Rightarrow> (tester \<times> os) option" where
  "merge_junit_xml_files cu r dst_file_name st s = do {
     (suite_junit_xml_results, st, s) \<leftarrow> junit_read_loop cu r (uiNumberOfSuites cu r) 0 st s;
     (p, s) \<leftarrow> bctbx_file_open STD (Some dst_file_name) ''w+'' s;
     if p = None then Some (st, s)
     else do {
       (_, p, s) \<leftarrow> bctbx_file_truncate p 0 s;
       (off, p, s) \<leftarrow> bctbx_file_fprintf p 0 (Some junit_header) s;
       (off, p, s) \<leftarrow> print_pieces (List.map_filter id suite_junit_xml_results) p off s;
       (_, p, s) \<leftarrow> bctbx_file_fprintf p off (Some junit_footer) s;
       (_, _, s) \<leftarrow> bctbx_file_close p s;
       Some (st, s) } }"

section \<open>The logs\<close>

text \<open>\<open>dst\<close> is the open target and \<open>off\<close> where the next log goes.\<close>

definition merge_one_log ::
    "string \<Rightarrow> string \<Rightarrow> os bctbx_vfs_file_t option \<Rightarrow> int \<Rightarrow> tester \<Rightarrow> os \<Rightarrow>
     (os bctbx_vfs_file_t option \<times> int \<times> tester \<times> os) option" where
  "merge_one_log base suite_logfile_name dst off st s = do {
     let (p, s) = bctbx_file_open2 STD (Some suite_logfile_name) O_RDONLY s;
     if p = None
     then Some (dst, off,
       error_text (''Could not open log file '' @ quoted suite_logfile_name @ '' to merge into '' @ quoted base) st, s)
     else do {
       (file_size, p, s) \<leftarrow> bctbx_file_size p s;
       _ \<leftarrow> require (0 \<le> file_size);
       (read_bytes, buf, p, s) \<leftarrow> bctbx_file_read p (nat file_size) 0 s;
       (dst, off, st, s) \<leftarrow>
         (if read_bytes = file_size
          then do {
            (written, dst, s) \<leftarrow> bctbx_file_write dst buf off s;
            Some (if written = BCTBX_VFS_ERROR
              then (dst, off, error_text (''Could not write logs of suite '' @ suite_logfile_name @
                '' into log file '' @ quoted base) st, s)
              else (dst, off + written, st, s)) }
          else Some (dst, off, error_text (''Could not read log file '' @ quoted suite_logfile_name @
            '' to merge into '' @ quoted base) st, s));
       (_, _, s) \<leftarrow> bctbx_file_close p s;
       Some (dst, off, st, s) } }"

fun log_loop ::
    "'r bcunit \<Rightarrow> 'r \<Rightarrow> string \<Rightarrow> nat \<Rightarrow> nat \<Rightarrow> os bctbx_vfs_file_t option \<Rightarrow> int \<Rightarrow> tester \<Rightarrow> os \<Rightarrow>
     (os bctbx_vfs_file_t option \<times> tester \<times> os) option" where
  "log_loop cu r base 0 i dst off st s = Some (dst, st, s)"
| "log_loop cu r base (Suc k) i dst off st s = do {
     logname \<leftarrow> log_file_name st;
     suite \<leftarrow> CU_get_suite_at_pos cu (i + 1) r;
     (dst, off, st, s) \<leftarrow> merge_one_log base (get_logfile_name logname (Some (pName suite))) dst off st s;
     log_loop cu r base k (i + 1) dst off st s }"

definition merge_log_files :: "'r bcunit \<Rightarrow> 'r \<Rightarrow> string \<Rightarrow> tester \<Rightarrow> os \<Rightarrow> (tester \<times> os) option" where
  "merge_log_files cu r base_logfile_name st s = do {
     (p, s) \<leftarrow> bctbx_file_open STD (Some base_logfile_name) ''w+'' s;
     if p = None
     then Some (error_text (''Failed to create target log file '' @ quoted base_logfile_name) st, s)
     else do {
       (p, st, s) \<leftarrow> log_loop cu r base_logfile_name (uiNumberOfSuites cu r) 0 p 0 st s;
       (_, _, s) \<leftarrow> bctbx_file_close p s;
       Some (st, s) } }"

section \<open>The report of a crash\<close>

text \<open>What is printed for each test of the suite, and the report as a whole.\<close>

definition failed_case :: "string \<Rightarrow> string \<times> nat option \<Rightarrow> string list" where
  "failed_case suite_name t =
     [[CHR 0x09] @ ''<testcase classname=\"'' @ suite_name @ ''\" name=\"'' @ fst t @ ''\">'' @ [LF],
      [CHR 0x09, CHR 0x09] @ ''<failure message=\"\" type=\"Failure\">'' @ [LF, CHR 0x09, CHR 0x09] @
        ''Global suite failure'' @ [LF],
      [CHR 0x09, CHR 0x09] @ ''</failure>'' @ [LF, CHR 0x09] @ ''</testcase>'' @ [LF]]"

definition suite_header :: "CU_Suite \<Rightarrow> string" where
  "suite_header suite =
     (let n = show_nat (length (pTests suite)) in
      [LF] @ ''<testsuite name=\"'' @ pName suite @ ''\" tests=\"'' @ n @ ''\" time=\"0\" failures=\"'' @ n @
      ''\" errors=\"0\" skipped=\"0\">'' @ [LF])"

definition suite_footer :: string where
  "suite_footer = [LF] @ ''</testsuite>'' @ [LF]"

definition write_error_report ::
    "'r bcunit \<Rightarrow> 'r \<Rightarrow> CU_Suite \<Rightarrow> tester \<Rightarrow> os \<Rightarrow> (tester \<times> os) option" where
  "write_error_report cu r suite st s = do {
     let suite_file_name = get_junit_xml_file_name cu r st (Some (pName suite)) (Some results_suffix);
     (p, s) \<leftarrow> bctbx_file_open STD (Some suite_file_name) ''w+'' s;
     (_, p, s) \<leftarrow> bctbx_file_truncate p 0 s;
     (off, p, s) \<leftarrow> bctbx_file_fprintf p 0 (Some (suite_header suite)) s;
     (off, p, s) \<leftarrow> print_pieces (concat (List.map (failed_case (pName suite)) (pTests suite))) p off s;
     (_, p, s) \<leftarrow> bctbx_file_fprintf p off (Some suite_footer) s;
     let st = info_text (''Suite '' @ quoted (pName suite) @ '' ended in error. Marking all tests as failed'') st;
     (_, _, s) \<leftarrow> bctbx_file_close p s;
     Some (st, s) }"

record suite_status_t =
  pid :: int
  finished :: bool

text \<open>\<open>handle_sub_process_error\<close>: the first suite with this process; its number of tests is the result.\<close>

fun error_loop ::
    "'r bcunit \<Rightarrow> 'r \<Rightarrow> int \<Rightarrow> suite_status_t list \<Rightarrow> nat \<Rightarrow> nat \<Rightarrow> tester \<Rightarrow> os \<Rightarrow> (int \<times> tester \<times> os) option" where
  "error_loop cu r p suitesPids 0 i st s = Some (0, st, s)"
| "error_loop cu r p suitesPids (Suc k) i st s =
     (if i \<ge> length suitesPids then None
      else if pid (suitesPids ! i) = p
      then do {
        suite \<leftarrow> CU_get_suite_at_pos cu (i + 1) r;
        (st, s) \<leftarrow> write_error_report cu r suite st s;
        Some (int (length (pTests suite)), st, s) }
      else error_loop cu r p suitesPids k (i + 1) st s)"

definition handle_sub_process_error ::
    "'r bcunit \<Rightarrow> 'r \<Rightarrow> int \<Rightarrow> suite_status_t list \<Rightarrow> tester \<Rightarrow> os \<Rightarrow> (int \<times> tester \<times> os) option" where
  "handle_sub_process_error cu r p suitesPids st s = error_loop cu r p suitesPids (uiNumberOfSuites cu r) 0 st s"

end
