(* ===== verification/TesterReportProps.thy ===== *)
theory TesterReportProps
  imports TesterReport
begin

text \<open>
  The properties of the merged files.  The standard backend is interpreted once more, with the other files of the
  system in the readiness of a handle: whatever is done through it leaves them alone.
\<close>

unbundle bit_operations_syntax

section \<open>One file among others\<close>

text \<open>
  The handle works on \<open>path\<close>, the other files are \<open>F\<close>, later descriptors will not collide with it, and the
  descriptors of \<open>K\<close>, as blocks with their numbers, are open as well.
\<close>

definition alone :: "string \<Rightarrow> (string \<Rightarrow> string option) \<Rightarrow> (nat \<times> nat) list \<Rightarrow> os \<Rightarrow> ptr \<Rightarrow> bool" where
  "alone path F K s u \<longleftrightarrow> std_ready path s u \<and> (files s)(path := None) = F \<and>
     (\<exists>a n. u = Some a \<and> a < next_ud s \<and> udata s a = Some (int n) \<and> n < next_fd s \<and>
        (\<forall>(b, m) \<in> set K. b \<noteq> a \<and> m \<noteq> n \<and> udata s b = Some (int m) \<and> fds s m \<noteq> None))"

lemma alone_cases:
  assumes "alone path F K s u"
  obtains a k fd where "u = Some a" "udata s a = Some (int k)" "fds s k = Some fd" "ofd_path fd = path"
    "ofd_flags fd AND 3 = O_RDWR" "ofd_flags fd AND O_APPEND = 0" "files s path \<noteq> None"
    "(files s)(path := None) = F" "a < next_ud s" "k < next_fd s"
    "\<forall>(b, m) \<in> set K. b \<noteq> a \<and> m \<noteq> k \<and> udata s b = Some (int m) \<and> fds s m \<noteq> None"
  using assms unfolding alone_def std_ready_def by auto

interpretation one: vfs_backend bcio std_content "alone path F K" "\<lambda>_ _. True" "\<lambda>_ _. True" for path F K
proof
  fix s u d off n
  show "pFuncGetLineFromFd bcio = None" by (simp add: bcio_def)
  assume "alone path F K s u"
  then obtain a k fd where u: "u = Some a" "udata s a = Some (int k)" "fds s k = Some fd" "ofd_path fd = path"
      "ofd_flags fd AND 3 = O_RDWR" "ofd_flags fd AND O_APPEND = 0" "files s path \<noteq> None"
      "(files s)(path := None) = F" "a < next_ud s" "k < next_fd s"
      "\<forall>(b, m) \<in> set K. b \<noteq> a \<and> m \<noteq> k \<and> udata s b = Some (int m) \<and> fds s m \<noteq> None"
    by (rule alone_cases)
  note defs = bcio_def sys_lseek_def get_fd_def put_fd_def ctx_fd_def alone_def std_ready_def std_content_def data_of_def
    O_RDWR_def O_RDONLY_def O_WRONLY_def
  show "\<exists>s'. pFuncWrite bcio u d (int off) s = (int (length d), s') \<and> alone path F K s' u \<and>
      std_content s' u = splice (std_content s u) off d"
    using u by (auto simp: defs bcWrite_def sys_write_def Let_def)
  show "\<exists>s'. pFuncRead bcio u n (int off) s =
        (int (length (take n (drop off (std_content s u)))), take n (drop off (std_content s u)), s') \<and>
      alone path F K s' u \<and> std_content s' u = std_content s u"
    using u by (auto simp: defs bcRead_def sys_read_def Let_def)
  show "\<exists>s'. pFuncFileSize bcio u s = (int (length (std_content s u)), s') \<and> alone path F K s' u \<and>
      std_content s' u = std_content s u"
    using u by (auto simp: defs bcFileSize_def sys_fsize_def Let_def)
  show "\<exists>s'. pFuncSync bcio u s = (0, s') \<and> alone path F K s' u \<and> std_content s' u = std_content s u"
    using u by (auto simp: defs bcSync_def sys_fsync_def Let_def BCTBX_VFS_OK_def)
qed simp

lemma set_flags_wplus: "set_flags ''w+'' = Some (O_RDWR OR O_CREAT)"
  by (simp add: set_flags_def eval_nat_numeral NUL_def)

text \<open>Opening for writing: an old content is kept.\<close>

lemma open_wplus:
  "\<exists>f s1. bctbx_file_open STD (Some path) ''w+'' s = Some (Some f, s1) \<and>
    one.rep path ((files s)(path := None)) [] f s1 (case files s path of None \<Rightarrow> [] | Some c \<Rightarrow> c, 0) \<and> fSize f = 0 \<and> gSize f = 0"
proof -
  have "(O_RDWR OR O_CREAT) AND 3 = O_RDWR" "(O_RDWR OR O_CREAT) AND O_APPEND = 0" "(O_RDWR OR O_CREAT) AND O_TRUNC = 0"
    "(O_RDWR OR O_CREAT) AND O_CREAT \<noteq> 0"
    by (simp_all add: O_RDWR_def O_APPEND_def O_TRUNC_def O_CREAT_def)
  then show ?thesis
    by (auto simp: bctbx_file_open_def set_flags_wplus STD_def file_open_def bcStandardVfs_obj_def bcOpen_def
        sys_open_def Let_def BCTBX_VFS_OK_def BCTBX_VFS_ERROR_def one.rep_flushed handle_ok_def new_file_def
        get_cache_ok_def alone_def std_ready_def std_content_def get_fd_def ctx_fd_def data_of_def PRINTF_PAGE_SIZE_def
        split: option.splits)
qed

lemma truncate_empty:
  assumes "one.rep path F K f s (c, 0)" "fSize f = 0" "gSize f = 0"
  shows "\<exists>s1. bctbx_file_truncate (Some f) 0 s = Some (0, Some f, s1) \<and> one.rep path F K f s1 ([], 0)"
proof -
  have h: "handle_ok bcio f" "alone path F K s (pUserData f)" using assms by (auto simp: one.rep_flushed)
  from h(2) obtain a k fd where u: "pUserData f = Some a" "udata s a = Some (int k)" "fds s k = Some fd" "ofd_path fd = path"
      "ofd_flags fd AND 3 = O_RDWR" "ofd_flags fd AND O_APPEND = 0" "files s path \<noteq> None"
      "(files s)(path := None) = F" "a < next_ud s" "k < next_fd s"
      "\<forall>(b, m) \<in> set K. b \<noteq> a \<and> m \<noteq> k \<and> udata s b = Some (int m) \<and> fds s m \<noteq> None"
    by (rule alone_cases)
  note defs = bcio_def get_fd_def ctx_fd_def alone_def std_ready_def std_content_def data_of_def
    O_RDWR_def O_RDONLY_def
  have "\<exists>s1. bcTruncate (pUserData f) 0 s = (0, s1) \<and> alone path F K s1 (pUserData f) \<and> std_content s1 (pUserData f) = []"
    using u by (auto simp: defs bcTruncate_def sys_ftruncate_def Let_def)
  then obtain s1 where s1: "bcTruncate (pUserData f) 0 s = (0, s1)" "alone path F K s1 (pUserData f)"
    "std_content s1 (pUserData f) = []" by blast
  have "pMethods f = Some bcio" using h(1) by (simp add: handle_ok_def)
  then have "bctbx_file_truncate (Some f) 0 s = Some (0, Some f, s1)"
    using s1(1) assms(2) by (simp add: bctbx_file_truncate_def with_flush_def bctbx_file_flush.simps) (simp add: bcio_def)
  moreover have "one.rep path F K f s1 ([], 0)"
    using assms s1 h by (auto simp: one.rep_flushed get_cache_ok_def)
  ultimately show ?thesis by blast
qed

lemma close_one:
  assumes "one.rep path F K f s (c, pos)"
  shows "\<exists>g s1. bctbx_file_close (Some f) s = Some (0, g, s1) \<and> files s1 = F(path \<mapsto> c)"
proof -
  obtain r f1 s1 where f1: "bctbx_file_flush (Some f) s = Some (r, Some f1, s1)" "0 \<le> r" "fSize f1 = 0"
    "one.rep path F K f1 s1 (c, pos)" "pMethods f1 = Some bcio"
    using one.flush_repE [OF assms] by metis
  then have rd: "alone path F K s1 (pUserData f1)" "std_content s1 (pUserData f1) = c" by (auto simp: one.rep_flushed)
  then have fs: "files s1 path = Some c" "(files s1)(path := None) = F"
    using std_ready_content by (auto simp: alone_def)
  obtain a k d where u: "pUserData f1 = Some a" "udata s1 a = Some (int k)" "fds s1 k = Some d"
    using rd(1) unfolding alone_def std_ready_def by blast
  have "\<exists>s2. bcClose (pUserData f1) s1 = (0, s2) \<and> files s2 = files s1"
    using u by (simp add: bcClose_def ctx_fd_def sys_close_def get_fd_def BCTBX_VFS_OK_def)
  then obtain s2 where "bcClose (pUserData f1) s1 = (0, s2)" "files s2 = files s1" by blast
  moreover have "bctbx_file_is_encrypted (Some f1) s1 = False"
    using f1(5) by (simp add: bctbx_file_is_encrypted_def bcio_def)
  moreover have "files s1 = F(path \<mapsto> c)" using fs by (metis fun_upd_triv fun_upd_upd)
  ultimately show ?thesis
    using f1 by (simp add: bctbx_file_close_def with_flush_def Let_def) (simp add: bcio_def)
qed

section \<open>Reading a whole file\<close>

text \<open>The handle and the states while a file of content \<open>c\<close> is opened, read and closed.\<close>

definition source :: "os \<Rightarrow> os bctbx_vfs_file_t" where
  "source s = new_file\<lparr>pMethods := Some bcio, pUserData := Some (next_ud s)\<rparr>"

definition opened :: "string \<Rightarrow> nat \<Rightarrow> os \<Rightarrow> os" where
  "opened path n s = s\<lparr>fds := (fds s)(next_fd s \<mapsto> \<lparr>ofd_path = path, ofd_pos = n, ofd_flags = O_RDONLY\<rparr>),
     next_fd := Suc (next_fd s), udata := (udata s)(next_ud s \<mapsto> int (next_fd s)), next_ud := Suc (next_ud s)\<rparr>"

definition closed_at :: "nat \<Rightarrow> nat \<Rightarrow> os \<Rightarrow> os" where
  "closed_at b m s = s\<lparr>fds := (fds s)(m := None), udata := (udata s)(b := None)\<rparr>"

lemma read_whole:
  assumes "files s path = Some c"
  shows "bctbx_file_open2 STD (Some path) O_RDONLY s = (Some (source s), opened path 0 s)"
    "bctbx_file_size (Some (source s)) (opened path 0 s) = Some (int (length c), Some (source s), opened path 0 s)"
    "bctbx_file_read (Some (source s)) (length c) 0 (opened path 0 s) =
       Some (int (length c), c, Some (source s), opened path (length c) s)"
proof -
  have fl: "O_RDONLY AND 3 = O_RDONLY" "O_RDONLY AND O_TRUNC = 0" "O_RDONLY AND 3 \<noteq> O_WRONLY"
    by (simp_all add: O_RDONLY_def O_TRUNC_def O_WRONLY_def)
  have fc: "(files s)(path \<mapsto> c) = files s" using assms by auto
  show "bctbx_file_open2 STD (Some path) O_RDONLY s = (Some (source s), opened path 0 s)"
    using assms fl fc
    by (simp add: bctbx_file_open2_def STD_def file_open_def bcStandardVfs_obj_def bcOpen_def sys_open_def Let_def
        BCTBX_VFS_OK_def BCTBX_VFS_ERROR_def new_file_def source_def opened_def)
  show "bctbx_file_size (Some (source s)) (opened path 0 s) = Some (int (length c), Some (source s), opened path 0 s)"
    using assms by (simp add: bctbx_file_size_def with_flush_def bctbx_file_flush.simps new_file_def bcio_def bcFileSize_def
        sys_fsize_def get_fd_def ctx_fd_def data_of_def source_def opened_def)
  show "bctbx_file_read (Some (source s)) (length c) 0 (opened path 0 s) =
      Some (int (length c), c, Some (source s), opened path (length c) s)"
    using assms fl by (simp add: bctbx_file_read_def with_flush_def bctbx_file_flush.simps new_file_def bcio_def bcRead_def
        sys_lseek_def sys_read_def put_fd_def get_fd_def ctx_fd_def data_of_def Let_def source_def opened_def)
qed

lemma close_source:
  assumes "udata t (next_ud s) = Some (int (next_fd s))" "fds t (next_fd s) \<noteq> None"
  shows "bctbx_file_close (Some (source s)) t = Some (0, Freed (Some (source s)), closed_at (next_ud s) (next_fd s) t)"
  using assms by (auto simp: bctbx_file_close_def with_flush_def bctbx_file_flush.simps new_file_def bcio_def bcClose_def
      sys_close_def get_fd_def ctx_fd_def Let_def BCTBX_VFS_OK_def bctbx_file_is_encrypted_def source_def closed_at_def)

lemma opened_fields [simp]:
  "udata (opened path n s) (next_ud s) = Some (int (next_fd s))" "fds (opened path n s) (next_fd s) \<noteq> None"
  "files (opened path n s) = files s"
  by (simp_all add: opened_def)

lemma sys_unlink_fields [simp]:
  "udata (sys_unlink p s) = udata s" "fds (sys_unlink p s) = fds s" "files (sys_unlink p s) = (files s)(p := None)"
  by (simp_all add: sys_unlink_def)

lemma closed_at_fields [simp]: "files (closed_at b m s) = files s"
  by (simp add: closed_at_def)

text \<open>An open target is not touched by the descriptors of the sources.\<close>

lemma rep_opened:
  assumes "one.rep path F [] f s x"
  shows "one.rep path F [(next_ud s, next_fd s)] f (opened p n s) x"
proof -
  from assms have "alone path F [] s (pUserData f)" by (auto simp: one.rep_def)
  then obtain a k fd where "pUserData f = Some a" "udata s a = Some (int k)" "fds s k = Some fd" "ofd_path fd = path"
      "ofd_flags fd AND 3 = O_RDWR" "ofd_flags fd AND O_APPEND = 0" "files s path \<noteq> None"
      "(files s)(path := None) = F" "a < next_ud s" "k < next_fd s"
    by (rule alone_cases)
  then have "alone path F [(next_ud s, next_fd s)] (opened p n s) (pUserData f) \<and>
      std_content (opened p n s) (pUserData f) = std_content s (pUserData f)"
    by (auto simp: alone_def std_ready_def std_content_def get_fd_def ctx_fd_def data_of_def opened_def)
  then show ?thesis using assms by (auto simp: one.rep_def one.view_def)
qed

lemma rep_closed:
  assumes "one.rep path F [(b, m)] f s x"
  shows "one.rep path F [] f (closed_at b m s) x \<and> udata s b = Some (int m) \<and> fds s m \<noteq> None"
proof -
  from assms have "alone path F [(b, m)] s (pUserData f)" by (auto simp: one.rep_def)
  then obtain a k fd where "pUserData f = Some a" "udata s a = Some (int k)" "fds s k = Some fd" "ofd_path fd = path"
      "ofd_flags fd AND 3 = O_RDWR" "ofd_flags fd AND O_APPEND = 0" "files s path \<noteq> None"
      "(files s)(path := None) = F" "a < next_ud s" "k < next_fd s"
      "\<forall>(b, m) \<in> set [(b, m)]. b \<noteq> a \<and> m \<noteq> k \<and> udata s b = Some (int m) \<and> fds s m \<noteq> None"
    by (rule alone_cases)
  then have "alone path F [] (closed_at b m s) (pUserData f) \<and>
      std_content (closed_at b m s) (pUserData f) = std_content s (pUserData f) \<and>
      udata s b = Some (int m) \<and> fds s m \<noteq> None"
    by (auto simp: alone_def std_ready_def std_content_def get_fd_def ctx_fd_def data_of_def closed_at_def)
  then show ?thesis using assms by (auto simp: one.rep_def one.view_def)
qed

lemma rep_errno:
  assumes "one.rep path F K f s x"
  shows "one.rep path F K f (s\<lparr>errno := e\<rparr>) x"
  using assms
  by (auto simp: one.rep_def one.view_def alone_def std_ready_def std_content_def get_fd_def ctx_fd_def data_of_def
      cong: option.case_cong)

lemma open_missing:
  assumes "files s path = None"
  shows "bctbx_file_open2 STD (Some path) O_RDONLY s = (None, s\<lparr>errno := ENOENT\<rparr>)"
proof -
  have "O_RDONLY AND O_CREAT = 0" by (simp add: O_RDONLY_def)
  then show ?thesis
    using assms by (simp add: bctbx_file_open2_def STD_def file_open_def bcStandardVfs_obj_def bcOpen_def sys_open_def
        sys_fail_def ENOENT_def BCTBX_VFS_ERROR_def BCTBX_VFS_OK_def Let_def)
qed

section \<open>Writing pieces\<close>

lemma splice_at_end [simp]: "splice c (length c) d = c @ d"
  by (simp add: splice_def)

lemma print_end:
  assumes "one.rep path F K f s (c, length c)"
  shows "\<exists>f1 s1. bctbx_file_fprintf (Some f) (int (length c)) (Some d) s = Some (int (length d), Some f1, s1) \<and>
    one.rep path F K f1 s1 (c @ d, length (c @ d))"
  using one.fprintf_rep [OF assms, of "length c" "length c" d] by simp

lemma print_pieces_rep:
  assumes "one.rep path F K f s (c, length c)"
  shows "\<exists>f1 s1. print_pieces xs (Some f) (int (length c)) s = Some (int (length (c @ concat xs)), Some f1, s1) \<and>
    one.rep path F K f1 s1 (c @ concat xs, length (c @ concat xs))"
  using assms
proof (induction xs arbitrary: f s c)
  case (Cons x xs)
  obtain f1 s1 where f1: "bctbx_file_fprintf (Some f) (int (length c)) (Some x) s = Some (int (length x), Some f1, s1)"
    "one.rep path F K f1 s1 (c @ x, length (c @ x))"
    using print_end [OF Cons.prems] by blast
  from Cons.IH [OF f1(2)] f1(1) show ?case by (auto simp: add.assoc)
qed simp

text \<open>A file written from its start: opened, emptied, printed to in pieces and closed.\<close>

lemma written_file:
  "\<exists>f s1 f1 s2 f2 s3 f3 s4 g s5.
     bctbx_file_open STD (Some path) ''w+'' s = Some (Some f, s1) \<and>
     bctbx_file_truncate (Some f) 0 s1 = Some (0, Some f, s2) \<and>
     bctbx_file_fprintf (Some f) 0 (Some a) s2 = Some (int (length a), Some f1, s3) \<and>
     print_pieces xs (Some f1) (int (length a)) s3 = Some (int (length (a @ concat xs)), Some f2, s4) \<and>
     bctbx_file_fprintf (Some f2) (int (length (a @ concat xs))) (Some b) s4 = Some (int (length b), Some f3, s5) \<and>
     (\<exists>s6. bctbx_file_close (Some f3) s5 = Some (0, g, s6) \<and> files s6 = (files s)(path \<mapsto> a @ concat xs @ b))"
proof -
  let ?F = "(files s)(path := None)"
  obtain f s1 where f: "bctbx_file_open STD (Some path) ''w+'' s = Some (Some f, s1)"
    "one.rep path ?F [] f s1 (case files s path of None \<Rightarrow> [] | Some c \<Rightarrow> c, 0)" "fSize f = 0" "gSize f = 0"
    using open_wplus by blast
  obtain s2 where s2: "bctbx_file_truncate (Some f) 0 s1 = Some (0, Some f, s2)" "one.rep path ?F [] f s2 ([], 0)"
    using truncate_empty [OF f(2-4)] by blast
  obtain f1 s3 where f1: "bctbx_file_fprintf (Some f) 0 (Some a) s2 = Some (int (length a), Some f1, s3)"
    "one.rep path ?F [] f1 s3 (a, length a)"
    using print_end [of path ?F "[]" f s2 "[]" a] s2(2) by auto
  obtain f2 s4 where f2: "print_pieces xs (Some f1) (int (length a)) s3 = Some (int (length (a @ concat xs)), Some f2, s4)"
    "one.rep path ?F [] f2 s4 (a @ concat xs, length (a @ concat xs))"
    using print_pieces_rep [OF f1(2)] by blast
  obtain f3 s5 where f3: "bctbx_file_fprintf (Some f2) (int (length (a @ concat xs))) (Some b) s4 = Some (int (length b), Some f3, s5)"
    "one.rep path ?F [] f3 s5 ((a @ concat xs) @ b, length ((a @ concat xs) @ b))"
    using print_end [OF f2(2)] by blast
  obtain g s6 where "bctbx_file_close (Some f3) s5 = Some (0, g, s6)" "files s6 = ?F(path \<mapsto> (a @ concat xs) @ b)"
    using close_one [OF f3(2)] by blast
  then show ?thesis using f(1) s2(1) f1(1) f2(1) f3(1) by (metis append.assoc fun_upd_upd)
qed

section \<open>Names\<close>

definition junit_name :: "tester \<Rightarrow> nat \<Rightarrow> string" where
  "junit_name st i = xml_file st @ ''_'' @ show_nat i @ results_suffix"

definition says :: "tester \<Rightarrow> tester \<Rightarrow> bool" where
  "says st st' \<longleftrightarrow> (\<exists>t. st' = st\<lparr>printed := t\<rparr>)"

lemma says_refl [simp]: "says st st"
  by (auto simp: says_def intro: exI [of _ "printed st"])

lemma says_text [simp]: "says st (error_text m st)" "says st (info_text m st)"
  by (auto simp: says_def error_text_def info_text_def bc_tester_printf_def)

lemma says_trans: "says a b \<Longrightarrow> says b c \<Longrightarrow> says a c"
  by (auto simp: says_def)

lemma says_fields:
  assumes "says st st'"
  shows "xml_file st' = xml_file st" "log_file_name st' = log_file_name st" "junit_name st' i = junit_name st i"
  using assms by (auto simp: says_def junit_name_def)

lemma junit_name_inj: "junit_name st i = junit_name st j \<longleftrightarrow> i = j"
  by (auto simp: junit_name_def dest: show_nat_inj)

lemma junit_name_own: "xml_file st @ results_suffix \<noteq> junit_name st i"
  by (simp add: junit_name_def results_suffix_def)

lemma bcunit_ok_positions:
  assumes "bcunit_ok cu view"
  shows "uiNumberOfSuites cu r = length (view r)"
    "p < length (view r) \<Longrightarrow> CU_get_suite_at_pos cu (Suc p) r = Some (view r ! p)"
    "distinct (List.map pName (view r)) \<Longrightarrow> p < length (view r) \<Longrightarrow>
       get_junit_xml_file_name cu r st (Some (pName (view r ! p))) (Some results_suffix) = junit_name st p"
proof -
  show "uiNumberOfSuites cu r = length (view r)"
    "p < length (view r) \<Longrightarrow> CU_get_suite_at_pos cu (Suc p) r = Some (view r ! p)"
    using assms by (simp_all add: bcunit_ok_def)
  assume d: "distinct (List.map pName (view r))" "p < length (view r)"
  have "pName (view r ! p) \<notin> pName ` set (take p (view r))"
  proof
    assume "pName (view r ! p) \<in> pName ` set (take p (view r))"
    then obtain q where "q < p" "pName (view r ! q) = pName (view r ! p)"
      by (auto simp: in_set_conv_nth)
    then show False using d nth_eq_iff_index_eq [OF d(1), of q p] by simp
  qed
  then have "CU_get_suite_pos_by_name cu (pName (view r ! p)) r = p + 1"
    using assms d(2) by (simp add: bcunit_ok_def)
  then show "get_junit_xml_file_name cu r st (Some (pName (view r ! p))) (Some results_suffix) = junit_name st p"
    by (simp add: get_junit_xml_file_name_def junit_name_def show_int_def Let_def nat_add_distrib)
qed

section \<open>JUnit reports\<close>

lemma read_suite_xml_eq:
  "\<exists>st' s'. read_suite_xml n st s = Some (map_option c_string (files s n), st', s') \<and> says st st' \<and>
     files s' = (files s)(n := None)"
proof (cases "files s n")
  case None
  then have "(files s)(n := None) = files s" by auto
  then show ?thesis using None by (simp add: read_suite_xml_def open_missing bctbx_file_close_def)
next
  case (Some c)
  then show ?thesis by (simp add: read_suite_xml_def read_whole [OF Some] close_source)
qed

lemma junit_read:
  assumes "bcunit_ok cu view" "distinct (List.map pName (view r))" "i + k = length (view r)"
  shows "\<exists>st' s'. junit_read_loop cu r k i st s =
      Some (List.map (\<lambda>j. map_option c_string (files s (junit_name st j))) [i..<i + k], st', s') \<and> says st st' \<and>
    files s' = (\<lambda>n. if n \<in> junit_name st ` {i..<i + k} then None else files s n)"
  using assms(3)
proof (induction k arbitrary: i st s)
  case 0
  then show ?case by simp
next
  case (Suc k)
  then have i: "i < length (view r)" by simp
  let ?n = "junit_name st i"
  obtain st1 s1 where s1: "read_suite_xml ?n st s = Some (map_option c_string (files s ?n), st1, s1)" "says st st1"
    "files s1 = (files s)(?n := None)"
    using read_suite_xml_eq by blast
  obtain st2 s2 where s2: "junit_read_loop cu r k (i + 1) st1 s1 =
      Some (List.map (\<lambda>j. map_option c_string (files s1 (junit_name st1 j))) [i + 1..<i + 1 + k], st2, s2)" "says st1 st2"
    "files s2 = (\<lambda>n. if n \<in> junit_name st1 ` {i + 1..<i + 1 + k} then None else files s1 n)"
    using Suc.IH [of "i + 1" st1 s1] Suc.prems by auto
  have up: "[i..<i + Suc k] = i # [i + 1..<i + 1 + k]" "{i..<i + Suc k} = insert i {i + 1..<i + 1 + k}"
    by (auto simp: upt_conv_Cons)
  show ?case
    using s1 s2 says_trans [OF s1(2) s2(2)] says_fields(3) [OF s1(2)]
      bcunit_ok_positions(2,3) [OF assms(1)] assms(2) i
    unfolding up by (auto simp: junit_name_inj fun_eq_iff)
qed

section \<open>Logs\<close>

lemma splice_over:
  "splice (m @ drop (length m) old) (length m) d = (m @ d) @ drop (length (m @ d)) old"
  by (simp add: splice_def add.commute)

definition log_of :: "(string \<Rightarrow> string option) \<Rightarrow> string \<Rightarrow> string" where
  "log_of F n = (case F n of None \<Rightarrow> [] | Some c \<Rightarrow> c)"

lemma merge_one_log_eq:
  assumes "one.rep base F [] f s (m @ drop (length m) old, p)" "n \<noteq> base"
  shows "\<exists>f' st' s'. merge_one_log base n (Some f) (int (length m)) st s =
      Some (Some f', int (length (m @ log_of F n)), st', s') \<and> says st st' \<and>
    one.rep base F [] f' s' ((m @ log_of F n) @ drop (length (m @ log_of F n)) old, p)"
proof -
  have "alone base F [] s (pUserData f)" using assms(1) by (auto simp: one.rep_def)
  then have F: "F n = files s n" using assms(2) by (auto simp: alone_def)
  show ?thesis
  proof (cases "files s n")
    case None
    then show ?thesis
      using rep_errno [OF assms(1), of ENOENT] F by (simp add: merge_one_log_def open_missing log_of_def)
  next
    case (Some c)
    obtain f1 s1 where f1: "bctbx_file_write (Some f) c (int (length m)) (opened n (length c) s) = Some (int (length c), Some f1, s1)"
      "one.rep base F [(next_ud s, next_fd s)] f1 s1 ((m @ c) @ drop (length (m @ c)) old, p)"
      using one.write_rep [OF rep_opened [OF assms(1)], where off = "length m" and d = c] unfolding splice_over by blast
    note cl = rep_closed [OF f1(2)]
    then show ?thesis
      using f1(1) F Some by (simp add: merge_one_log_def read_whole [OF Some] close_source log_of_def BCTBX_VFS_ERROR_def)
  qed
qed

definition suite_log :: "string \<Rightarrow> CU_Suite \<Rightarrow> string" where
  "suite_log base suite = get_logfile_name base (Some (pName suite))"

lemma suite_log_other: "suite_log base suite \<noteq> base"
proof
  assume "suite_log base suite = base"
  then have "length (suite_log base suite) = length base" by simp
  then show False by (simp add: suite_log_def get_logfile_name_def)
qed

lemma log_loop_eq:
  assumes "bcunit_ok cu view" "i + k = length (view r)" "log_file_name st = Some base"
    "one.rep base F [] f s (m @ drop (length m) old, p)"
  shows "\<exists>f' st' s'. log_loop cu r base k i (Some f) (int (length m)) st s = Some (Some f', st', s') \<and> says st st' \<and>
    (let m' = m @ concat (List.map (\<lambda>x. log_of F (suite_log base x)) (drop i (view r)))
     in one.rep base F [] f' s' (m' @ drop (length m') old, p))"
  using assms(2-4)
proof (induction k arbitrary: i f st s m)
  case 0
  then show ?case by simp
next
  case (Suc k)
  then have i: "i < length (view r)" by simp
  let ?n = "suite_log base (view r ! i)"
  obtain f1 st1 s1 where f1: "merge_one_log base ?n (Some f) (int (length m)) st s =
      Some (Some f1, int (length (m @ log_of F ?n)), st1, s1)" "says st st1"
    "one.rep base F [] f1 s1 ((m @ log_of F ?n) @ drop (length (m @ log_of F ?n)) old, p)"
    using merge_one_log_eq [OF Suc.prems(3) suite_log_other] by blast
  have "i + 1 + k = length (view r)" "log_file_name st1 = Some base"
    using Suc.prems says_fields(2) [OF f1(2)] by simp_all
  from Suc.IH [OF this f1(3)] obtain f2 st2 s2 where f2:
    "log_loop cu r base k (i + 1) (Some f1) (int (length (m @ log_of F ?n))) st1 s1 = Some (Some f2, st2, s2)" "says st1 st2"
    "let m' = (m @ log_of F ?n) @ concat (List.map (\<lambda>x. log_of F (suite_log base x)) (drop (i + 1) (view r)))
     in one.rep base F [] f2 s2 (m' @ drop (length m') old, p)" by blast
  have "log_loop cu r base (Suc k) i (Some f) (int (length m)) st s = Some (Some f2, st2, s2)"
    using f1(1) f2(1) Suc.prems(2) bcunit_ok_positions(2) [OF assms(1) i] by (simp add: suite_log_def)
  then show ?case
    using f2(3) says_trans [OF f1(2) f2(2)] by (simp add: Cons_nth_drop_Suc [OF i, symmetric] Let_def)
qed

section \<open>The report of a crash\<close>

definition crash_report :: "CU_Suite \<Rightarrow> string" where
  "crash_report suite =
     suite_header suite @ concat (concat (List.map (failed_case (pName suite)) (pTests suite))) @ suite_footer"

lemma write_error_report_eq:
  assumes "get_junit_xml_file_name cu r st (Some (pName suite)) (Some results_suffix) = n"
  shows "\<exists>st' s'. write_error_report cu r suite st s = Some (st', s') \<and> says st st' \<and>
    files s' = (files s)(n \<mapsto> crash_report suite)"
proof -
  let ?xs = "concat (List.map (failed_case (pName suite)) (pTests suite))"
  obtain f s2 f1 s3 f2 s4 f3 s5 g s6 s7 where
    "bctbx_file_open STD (Some n) ''w+'' s = Some (Some f, s2)"
    "bctbx_file_truncate (Some f) 0 s2 = Some (0, Some f, s3)"
    "bctbx_file_fprintf (Some f) 0 (Some (suite_header suite)) s3 = Some (int (length (suite_header suite)), Some f1, s4)"
    "print_pieces ?xs (Some f1) (int (length (suite_header suite))) s4 =
      Some (int (length (suite_header suite @ concat ?xs)), Some f2, s5)"
    "bctbx_file_fprintf (Some f2) (int (length (suite_header suite @ concat ?xs))) (Some suite_footer) s5 =
      Some (int (length suite_footer), Some f3, s6)"
    "bctbx_file_close (Some f3) s6 = Some (0, g, s7)"
    "files s7 = (files s)(n \<mapsto> suite_header suite @ concat ?xs @ suite_footer)"
    using written_file [of n s "suite_header suite" ?xs suite_footer] by blast
  then show ?thesis using assms by (simp add: write_error_report_def Let_def crash_report_def)
qed

lemma error_loop_eq:
  assumes "bcunit_ok cu view" "distinct (List.map pName (view r))" "i + k = length (view r)"
    "length suitesPids = length (view r)" "j < length (view r)" "i \<le> j" "pid (suitesPids ! j) = p"
    "\<forall>l < j. pid (suitesPids ! l) \<noteq> p"
  shows "\<exists>st' s'. error_loop cu r p suitesPids k i st s = Some (int (length (pTests (view r ! j))), st', s') \<and>
    says st st' \<and> files s' = (files s)(junit_name st j \<mapsto> crash_report (view r ! j))"
  using assms(3,6)
proof (induction k arbitrary: i)
  case 0
  then show ?case using assms(5) by simp
next
  case (Suc k)
  show ?case
  proof (cases "i = j")
    case True
    obtain st' s' where "write_error_report cu r (view r ! j) st s = Some (st', s')" "says st st'"
      "files s' = (files s)(junit_name st j \<mapsto> crash_report (view r ! j))"
      using write_error_report_eq [OF bcunit_ok_positions(3) [OF assms(1,2,5)]] by blast
    then show ?thesis
      using True assms(4,5,7) bcunit_ok_positions(2) [OF assms(1,5)] by (simp add: fun_eq_iff)
  next
    case False
    then show ?thesis using Suc.IH [of "i + 1"] Suc.prems assms(4,5,8) by simp
  qed
qed

section \<open>Concrete files\<close>

definition demo_entry :: "string \<Rightarrow> string list \<Rightarrow> CU_Suite" where
  "demo_entry n ts = \<lparr>pName = n, hooks = [], pUserSuite = None, pTests = List.map (\<lambda>t. (t, Some 1)) ts\<rparr>"

definition demo_registry :: "CU_Suite list option \<times> int" where
  "demo_registry = (Some [demo_entry ''Port'' [''bytes'', ''time''], demo_entry ''Vfs'' [''read'']], 0)"

definition files_os :: "(string \<times> string) list \<Rightarrow> os" where
  "files_os fs = \<lparr>files = map_of fs, fds = Map.empty, next_fd = 3, errno = 0, udata = Map.empty, next_ud = 0\<rparr>"

lemma demo_registry_view:
  "list_suites demo_registry = [demo_entry ''Port'' [''bytes'', ''time''], demo_entry ''Vfs'' [''read'']]"
  "length (list_suites demo_registry) = 2" "distinct (List.map pName (list_suites demo_registry))"
  by (simp_all add: demo_registry_def list_suites_def demo_entry_def)

definition demo_report_tester :: tester where
  "demo_report_tester = initial_tester\<lparr>xml_file := ''out'', log_file_name := Some ''run''\<rparr>"

lemma demo_junit_names:
  "junit_name demo_report_tester 0 = ''out_0-Results.xml''" "junit_name demo_report_tester 1 = ''out_1-Results.xml''"
  "xml_file demo_report_tester @ results_suffix = ''out-Results.xml''"
  by (code_simp, code_simp, code_simp)

section \<open>Properties\<close>

lemma merge_junit_main:
  assumes "bcunit_ok cu view" "distinct (List.map pName (view r))"
  shows "\<exists>st' s'. merge_junit_xml_files cu r (get_junit_xml_file_name cu r st None (Some results_suffix)) st s = Some (st', s') \<and>
    files s' = (\<lambda>n. if n = xml_file st @ results_suffix
      then Some (junit_header @
        concat (List.map_filter (\<lambda>i. map_option c_string (files s (junit_name st i))) [0..<length (view r)]) @ junit_footer)
      else if n \<in> junit_name st ` {..<length (view r)} then None else files s n)"
proof -
  let ?dst = "xml_file st @ results_suffix" and ?N = "length (view r)"
  let ?xs = "List.map (\<lambda>j. map_option c_string (files s (junit_name st j))) [0..<?N]"
  obtain st1 s1 where s1: "junit_read_loop cu r ?N 0 st s = Some (?xs, st1, s1)"
    "files s1 = (\<lambda>n. if n \<in> junit_name st ` {0..<?N} then None else files s n)"
    using junit_read [OF assms, of 0 ?N st s] by auto
  obtain f s2 f1 s3 f2 s4 f3 s5 g s6 s7 where w:
    "bctbx_file_open STD (Some ?dst) ''w+'' s1 = Some (Some f, s2)"
    "bctbx_file_truncate (Some f) 0 s2 = Some (0, Some f, s3)"
    "bctbx_file_fprintf (Some f) 0 (Some junit_header) s3 = Some (int (length junit_header), Some f1, s4)"
    "print_pieces (List.map_filter id ?xs) (Some f1) (int (length junit_header)) s4 =
      Some (int (length (junit_header @ concat (List.map_filter id ?xs))), Some f2, s5)"
    "bctbx_file_fprintf (Some f2) (int (length (junit_header @ concat (List.map_filter id ?xs)))) (Some junit_footer) s5 =
      Some (int (length junit_footer), Some f3, s6)"
    "bctbx_file_close (Some f3) s6 = Some (0, g, s7)"
    "files s7 = (files s1)(?dst \<mapsto> junit_header @ concat (List.map_filter id ?xs) @ junit_footer)"
    using written_file [of ?dst s1 junit_header "List.map_filter id ?xs" junit_footer] by blast
  have mf: "List.map_filter id ?xs = List.map_filter (\<lambda>i. map_option c_string (files s (junit_name st i))) [0..<?N]"
    by (simp add: List.map_filter_def filter_map comp_def)
  have "get_junit_xml_file_name cu r st None (Some results_suffix) = ?dst"
    by (simp add: get_junit_xml_file_name_def Let_def)
  then have "merge_junit_xml_files cu r (get_junit_xml_file_name cu r st None (Some results_suffix)) st s = Some (st1, s7)"
    using s1(1) w(1-6) by (simp add: merge_junit_xml_files_def bcunit_ok_positions(1) [OF assms(1)])
  then show ?thesis
    using w(7) s1(2) unfolding mf
    by (intro exI conjI) (assumption, auto simp: fun_eq_iff junit_name_own lessThan_atLeast0)
qed

text \<open>
  C16: Merging the JUnit reports.  Whatever the report of the run held before, it afterwards holds the header, the
  reports of all suites that left one, in the order of registration, and the end tag; the reports of
  the suites are removed and no other file is changed.
\<close>

theorem merge_junit_reports:
  assumes "bcunit_ok cu view" "distinct (List.map pName (view r))"
  shows "\<exists>st' s'. merge_junit_xml_files cu r (get_junit_xml_file_name cu r st None (Some results_suffix)) st s = Some (st', s') \<and>
    files s' = (\<lambda>n. if n = xml_file st @ results_suffix
      then Some (junit_header @
        concat (List.map_filter (\<lambda>i. map_option c_string (files s (junit_name st i))) [0..<length (view r)]) @ junit_footer)
      else if n \<in> junit_name st ` {..<length (view r)} then None else files s n)"
  by (rule merge_junit_main [OF assms])

theorem merge_junit_reports_witness:
  "\<exists>st' s'. merge_junit_xml_files list_bcunit demo_registry
      (get_junit_xml_file_name list_bcunit demo_registry demo_report_tester None (Some results_suffix)) demo_report_tester
      (files_os [(''out_1-Results.xml'', ''<a/>''), (''out-Results.xml'', ''old'')]) = Some (st', s') \<and>
    files s' ''out-Results.xml'' = Some (junit_header @ ''<a/>'' @ junit_footer) \<and> files s' ''out_1-Results.xml'' = None"
proof -
  let ?s = "files_os [(''out_1-Results.xml'', ''<a/>''), (''out-Results.xml'', ''old'')]"
  have up: "[0..<length (list_suites demo_registry)] = [0, 1]" by (simp add: demo_registry_view(2) upt_conv_Cons)
  have c: "concat (List.map_filter (\<lambda>i. map_option c_string (files ?s (junit_name demo_report_tester i))) [0, 1]) = ''<a/>''"
    by (simp add: List.map_filter_def demo_junit_names demo_junit_names [unfolded One_nat_def] files_os_def c_string_def NUL_def)
  have n: "''out_1-Results.xml'' \<in> junit_name demo_report_tester ` {..<length (list_suites demo_registry)}"
    by (rule image_eqI [of _ _ 1]) (simp_all add: demo_junit_names [unfolded One_nat_def] demo_registry_view(2))
  show ?thesis
    using merge_junit_reports [OF list_bcunit_ok demo_registry_view(3), of demo_report_tester ?s] n
    unfolding up c demo_junit_names(3) by auto
qed

lemma merge_logs_main:
  assumes "bcunit_ok cu view" "log_file_name st = Some base"
  shows "\<exists>st' s'. merge_log_files cu r base st s = Some (st', s') \<and>
    (let logs = concat (List.map (\<lambda>x. log_of (files s) (suite_log base x)) (view r))
     in files s' = (files s)(base \<mapsto> logs @ drop (length logs) (log_of (files s) base)))"
proof -
  let ?F = "(files s)(base := None)" and ?old = "log_of (files s) base"
  obtain f s1 where f: "bctbx_file_open STD (Some base) ''w+'' s = Some (Some f, s1)"
    "one.rep base ?F [] f s1 ([] @ drop (length ([] :: string)) ?old, 0)"
    using open_wplus [of base s] by (auto simp: log_of_def)
  let ?m = "concat (List.map (\<lambda>x. log_of ?F (suite_log base x)) (view r))"
  obtain f1 st1 s2 where f1: "log_loop cu r base (length (view r)) 0 (Some f) 0 st s1 = Some (Some f1, st1, s2)"
    "one.rep base ?F [] f1 s2 (?m @ drop (length ?m) ?old, 0)"
    using log_loop_eq [where m = "[]" and i = 0 and k = "length (view r)" and r = r, OF assms(1) _ assms(2) f(2)]
    by (auto simp: Let_def)
  obtain g s3 where g: "bctbx_file_close (Some f1) s2 = Some (0, g, s3)"
    "files s3 = ?F(base \<mapsto> ?m @ drop (length ?m) ?old)"
    using close_one [OF f1(2)] by blast
  have m: "?m = concat (List.map (\<lambda>x. log_of (files s) (suite_log base x)) (view r))"
    using suite_log_other by (simp add: log_of_def)
  have "merge_log_files cu r base st s = Some (st1, s3)"
    using f(1) f1(1) g(1) by (simp add: merge_log_files_def bcunit_ok_positions(1) [OF assms(1)])
  then show ?thesis using g(2) unfolding m by (simp add: Let_def)
qed

text \<open>
  Merging the logs.  The log of the run afterwards starts with the logs of the suites that left one, in the order
  of registration, and no other file is changed.  But the mode w+ does not empty an existing log: what was
  behind that many characters stays there.
\<close>

theorem merge_logs:
  assumes "bcunit_ok cu view" "log_file_name st = Some base"
  shows "\<exists>st' s'. merge_log_files cu r base st s = Some (st', s') \<and>
    (let logs = concat (List.map (\<lambda>x. log_of (files s) (suite_log base x)) (view r))
     in files s' = (files s)(base \<mapsto> logs @ drop (length logs) (log_of (files s) base)))"
  by (rule merge_logs_main [OF assms])

theorem merge_logs_witness:
  "\<exists>st' s'. merge_log_files list_bcunit demo_registry ''run'' demo_report_tester
      (files_os [(''run_Port.log'', ''ab''), (''run_Vfs.log'', ''c''), (''run'', ''0123456'')]) = Some (st', s') \<and>
    files s' ''run'' = Some ''abc3456''"
proof -
  let ?s = "files_os [(''run_Port.log'', ''ab''), (''run_Vfs.log'', ''c''), (''run'', ''0123456'')]"
  have n: "log_file_name demo_report_tester = Some ''run''" by (simp add: demo_report_tester_def)
  have l: "suite_log ''run'' (demo_entry ''Port'' [''bytes'', ''time'']) = ''run_Port.log''"
    "suite_log ''run'' (demo_entry ''Vfs'' [''read'']) = ''run_Vfs.log''"
    by (simp_all add: suite_log_def get_logfile_name_def demo_entry_def)
  have "concat (List.map (\<lambda>x. log_of (files ?s) (suite_log ''run'' x)) (list_suites demo_registry)) = ''abc''"
    by (simp add: demo_registry_view(1) l log_of_def files_os_def)
  moreover have "log_of (files ?s) ''run'' = ''0123456''" by (simp add: log_of_def files_os_def)
  ultimately show ?thesis using merge_logs [OF list_bcunit_ok n, of demo_registry ?s] by (auto simp: Let_def)
qed

lemma failed_cases_text:
  "concat (concat (List.map (failed_case n) ts)) = concat (List.map (\<lambda>t.
     [CHR 0x09] @ ''<testcase classname=\"'' @ n @ ''\" name=\"'' @ fst t @ ''\">'' @ [LF, CHR 0x09, CHR 0x09] @
     ''<failure message=\"\" type=\"Failure\">'' @ [LF, CHR 0x09, CHR 0x09] @ ''Global suite failure'' @
     [LF, CHR 0x09, CHR 0x09] @ ''</failure>'' @ [LF, CHR 0x09] @ ''</testcase>'' @ [LF]) ts)"
  by (induction ts) (simp_all add: failed_case_def)

text \<open>
  C20: A crash.  When a process ends in error, all tests of the first suite with its number count as failed, and the
  report of that suite becomes one with as many failures as tests, in which every test, in order, has a failure
  element; no other file is changed.
\<close>

theorem crash_fails_suite:
  assumes "bcunit_ok cu view" "distinct (List.map pName (view r))" "length suitesPids = length (view r)"
    "j < length (view r)" "pid (suitesPids ! j) = p" "\<forall>l < j. pid (suitesPids ! l) \<noteq> p"
    "x = view r ! j" "n = show_nat (length (pTests x))"
  shows "\<exists>st' s'. handle_sub_process_error cu r p suitesPids st s = Some (int (length (pTests x)), st', s') \<and>
    files s' = (files s)(junit_name st j \<mapsto>
      [LF] @ ''<testsuite name=\"'' @ pName x @ ''\" tests=\"'' @ n @ ''\" time=\"0\" failures=\"'' @ n @
        ''\" errors=\"0\" skipped=\"0\">'' @ [LF] @
      concat (List.map (\<lambda>t.
        [CHR 0x09] @ ''<testcase classname=\"'' @ pName x @ ''\" name=\"'' @ fst t @ ''\">'' @ [LF, CHR 0x09, CHR 0x09] @
        ''<failure message=\"\" type=\"Failure\">'' @ [LF, CHR 0x09, CHR 0x09] @ ''Global suite failure'' @
        [LF, CHR 0x09, CHR 0x09] @ ''</failure>'' @ [LF, CHR 0x09] @ ''</testcase>'' @ [LF]) (pTests x)) @
      [LF] @ ''</testsuite>'' @ [LF])"
proof -
  obtain st' s' where h: "handle_sub_process_error cu r p suitesPids st s = Some (int (length (pTests x)), st', s')"
    "files s' = (files s)(junit_name st j \<mapsto> crash_report x)"
    using error_loop_eq [where i = 0 and k = "length (view r)" and st = st and s = s, OF assms(1,2) _ assms(3,4) _ assms(5,6)]
    by (auto simp: handle_sub_process_error_def bcunit_ok_positions(1) [OF assms(1)] assms(7))
  show ?thesis
    using h unfolding crash_report_def failed_cases_text suite_header_def suite_footer_def Let_def assms(8) by simp
qed

theorem crash_fails_suite_witness:
  "\<exists>st' s'. handle_sub_process_error list_bcunit demo_registry 41
      [\<lparr>pid = 41, finished = True\<rparr>, \<lparr>pid = 40, finished = False\<rparr>] demo_report_tester (files_os []) = Some (2, st', s') \<and>
    files s' ''out_0-Results.xml'' = Some (
      [LF] @ ''<testsuite name=\"Port\" tests=\"2\" time=\"0\" failures=\"2\" errors=\"0\" skipped=\"0\">'' @ [LF, CHR 0x09] @
      ''<testcase classname=\"Port\" name=\"bytes\">'' @ [LF, CHR 0x09, CHR 0x09] @
      ''<failure message=\"\" type=\"Failure\">'' @ [LF, CHR 0x09, CHR 0x09] @ ''Global suite failure'' @
      [LF, CHR 0x09, CHR 0x09] @ ''</failure>'' @ [LF, CHR 0x09] @ ''</testcase>'' @ [LF, CHR 0x09] @
      ''<testcase classname=\"Port\" name=\"time\">'' @ [LF, CHR 0x09, CHR 0x09] @
      ''<failure message=\"\" type=\"Failure\">'' @ [LF, CHR 0x09, CHR 0x09] @ ''Global suite failure'' @
      [LF, CHR 0x09, CHR 0x09] @ ''</failure>'' @ [LF, CHR 0x09] @ ''</testcase>'' @ [LF, LF] @ ''</testsuite>'' @ [LF])"
proof -
  let ?x = "demo_entry ''Port'' [''bytes'', ''time'']"
  have x: "?x = list_suites demo_registry ! 0" "0 < length (list_suites demo_registry)"
    by (simp_all add: demo_registry_view(1))
  have t: "pName ?x = ''Port''" "pTests ?x = [(''bytes'', Some 1), (''time'', Some 1)]" by (simp_all add: demo_entry_def)
  have "show_nat (Suc (Suc 0)) = ''2''" by code_simp
  then have n: "''2'' = show_nat (length (pTests ?x))" by (simp add: t(2))
  from crash_fails_suite [OF list_bcunit_ok demo_registry_view(3), of
      "[\<lparr>pid = 41, finished = True\<rparr>, \<lparr>pid = 40, finished = False\<rparr>]" 0 41 ?x "''2''" demo_report_tester "files_os []"]
  show ?thesis using x n unfolding demo_junit_names(1) t by (auto simp: demo_registry_view(2))
qed

end
