(* ===== verification/TesterParallel.thy ===== *)
theory TesterParallel
  imports TesterReportProps
begin

text \<open>
  The parallel run of src/tester.c (\<open>bc_tester_run_parallel\<close>, the version for Unix): one process per suite, as many at
  a time as their weights allow.  A turn of its loop gets the answers of the system calls it makes; the second half of
  the theory adds a kernel that gives them.  The counters are sums over the registered suites and stay far from the
  limits of \<open>int\<close>.
\<close>

section \<open>A turn of the loop\<close>

text \<open>What \<open>waitpid\<close> tells of a child that ended: its exit status, or that a signal ended it.\<close>

datatype wait_status = Exited nat | Signaled

text \<open>The answers of a turn: \<open>fork\<close>, whether \<open>execv\<close> fails, \<open>waitpid\<close>, and the time when it is asked for.\<close>

record answers =
  fork_pid :: int
  exec_fails :: bool
  wait_pid :: int
  wait_result :: wait_status
  now_print :: "64 word"
  now :: "64 word"

record parallel =
  suitesPids :: "suite_status_t list"
  nextSuite :: nat
  runningSuites :: int
  testsFinished :: int
  ret :: int
  suitesCpuWeight :: int
  timeoutElapsed :: bool
  elapsed :: "64 word"
  print_timer :: "64 word"
  run_tester :: tester
  run_os :: os

text \<open>A turn ends with the next one, with the return of the function, or, in a child, with another program.\<close>

datatype outcome = Go parallel | Returned int tester os | Execs "string list" tester os

definition test_suite_cpu_weight :: "tester \<Rightarrow> test_suite_t \<Rightarrow> int \<times> tester" where
  "test_suite_cpu_weight st ts =
     (let maxProcess = bc_tester_get_max_parallel_processes st;
          w = (if cpu_weight ts = 0 then 1 else cpu_weight ts)
      in if w > maxProcess
         then (1, error_text (''Suite ['' @ name_of_suite ts @ ''] has a declared cpu weight ['' @ show_int w @
           ''] greater than the maximum number of parallel processes. cpu_weight is ignored.'') st)
         else (w, st))"

fun lookup_loop ::
    "'r bcunit \<Rightarrow> 'r \<Rightarrow> int \<Rightarrow> suite_status_t list \<Rightarrow> nat \<Rightarrow> nat \<Rightarrow> (nat \<times> test_suite_t option) option" where
  "lookup_loop cu r p status 0 i = Some (0, None)"
| "lookup_loop cu r p status (Suc k) i =
     (if i \<ge> length status then None
      else if pid (status ! i) = p
      then do { suite \<leftarrow> CU_get_suite_at_pos cu (i + 1) r; Some (i, pUserSuite suite) }
      else lookup_loop cu r p status k (i + 1))"

text \<open>The index stays 0 when no suite has the number.\<close>

definition lookup_suite_from_pid ::
    "'r bcunit \<Rightarrow> 'r \<Rightarrow> int \<Rightarrow> suite_status_t list \<Rightarrow> (nat \<times> test_suite_t option) option" where
  "lookup_suite_from_pid cu r p status = lookup_loop cu r p status (uiNumberOfSuites cu r) 0"

definition launch_step :: "'r bcunit \<Rightarrow> 'r \<Rightarrow> int \<Rightarrow> answers \<Rightarrow> parallel \<Rightarrow> outcome option" where
  "launch_step cu r maxProcess a ps =
     (if nextSuite ps < uiNumberOfSuites cu r
      then do {
        launchedSuite \<leftarrow> CU_get_suite_at_pos cu (nextSuite ps + 1) r;
        bcLaunchedSuite \<leftarrow> pUserSuite launchedSuite;
        let (w, st) = test_suite_cpu_weight (run_tester ps) bcLaunchedSuite;
        if suitesCpuWeight ps + w \<le> maxProcess
        then if fork_pid a = -1
             then Some (Returned (-1) (error_text ''Error during fork() while starting child process. Aborting.'' st) (run_os ps))
             else if fork_pid a > 0
             then do {
               _ \<leftarrow> require (nextSuite ps < length (suitesPids ps));
               Some (Go (ps\<lparr>suitesPids := (suitesPids ps)[nextSuite ps := (suitesPids ps ! nextSuite ps)\<lparr>pid := fork_pid a\<rparr>],
                 runningSuites := runningSuites ps + 1, suitesCpuWeight := suitesCpuWeight ps + w,
                 nextSuite := nextSuite ps + 1, run_tester := st\<rparr>)) }
             else do {
               argv \<leftarrow> prepare_child_arguments cu r st (pName launchedSuite);
               Some (if exec_fails a
                 then Returned (-1) (error_text ''Error while starting suite sub-process. Aborting.'' st) (run_os ps)
                 else Execs argv st (run_os ps)) }
        else Some (Go (ps\<lparr>run_tester := st\<rparr>)) }
      else Some (Go ps))"

definition reap_step :: "'r bcunit \<Rightarrow> 'r \<Rightarrow> answers \<Rightarrow> parallel \<Rightarrow> outcome option" where
  "reap_step cu r a ps =
     (if runningSuites ps > 0
      then if wait_pid a = -1
        then Some (Returned (-1)
          (error_text ''Error during waitpid() while waiting for child process. Aborting.'' (run_tester ps)) (run_os ps))
        else if wait_pid a = 0 then Some (Go ps)
        else do {
          (index, finishedSuite) \<leftarrow> lookup_suite_from_pid cu r (wait_pid a) (suitesPids ps);
          ts \<leftarrow> finishedSuite;
          let (w, st) = test_suite_cpu_weight (run_tester ps) ts;
          _ \<leftarrow> require (index < length (suitesPids ps));
          let ps = ps\<lparr>suitesPids := (suitesPids ps)[index := (suitesPids ps ! index)\<lparr>finished := True\<rparr>],
            runningSuites := runningSuites ps - 1, testsFinished := testsFinished ps + 1,
            suitesCpuWeight := suitesCpuWeight ps - w, run_tester := st\<rparr>;
          (childRet, st, s) \<leftarrow>
            (if wait_result a = Signaled \<or> wait_result a = Exited 255
             then handle_sub_process_error cu r (wait_pid a) (suitesPids ps)
               (error_text (''Suite sub process (pid '' @ show_int (wait_pid a) @
                  '') crashed or exited with (-1) return code.'') st) (run_os ps)
             else Some (case wait_result a of Exited n \<Rightarrow> int n | Signaled \<Rightarrow> 0, st, run_os ps));
          Some (Go (ps\<lparr>ret := ret ps + childRet, run_tester := st, run_os := s\<rparr>)) }
      else Some (Go ps))"

text \<open>The suites that are named when the time is up.\<close>

fun unfinished_loop :: "'r bcunit \<Rightarrow> 'r \<Rightarrow> suite_status_t list \<Rightarrow> nat \<Rightarrow> nat \<Rightarrow> tester \<Rightarrow> tester option" where
  "unfinished_loop cu r status 0 i st = Some st"
| "unfinished_loop cu r status (Suc k) i st =
     (if i \<ge> length status then None
      else if \<not> finished (status ! i)
      then do {
        suite \<leftarrow> CU_get_suite_at_pos cu (i + 1) r;
        unfinished_loop cu r status k (i + 1)
          (error_text (''Suite ['' @ pName suite @ ''] is still running after timeout.'') st) }
      else unfinished_loop cu r status k (i + 1) st)"

definition timer_step :: "'r bcunit \<Rightarrow> 'r \<Rightarrow> 64 word \<Rightarrow> answers \<Rightarrow> parallel \<Rightarrow> parallel option" where
  "timer_step cu r timeout a ps =
     (if elapsed ps - print_timer ps > 10000
      then do {
        ps \<leftarrow> (if \<not> timeoutElapsed ps \<and> elapsed ps \<ge> timeout
          then do {
            st \<leftarrow> unfinished_loop cu r (suitesPids ps) (uiNumberOfSuites cu r) 0 (run_tester ps);
            Some (ps\<lparr>timeoutElapsed := True, run_tester := st\<rparr>) }
          else Some ps);
        Some (ps\<lparr>run_tester := error_text (''Waiting for test suites to finish... Total Suites('' @
            show_nat (uiNumberOfSuites cu r) @ ''). Suites running('' @ show_int (runningSuites ps) @
            ''), Finished('' @ show_int (testsFinished ps) @ ''), Timeout reached('' @
            (if timeoutElapsed ps then ''yes'' else ''no'') @ '')'') (run_tester ps),
          print_timer := now_print a, elapsed := now a\<rparr>) }
      else Some (ps\<lparr>elapsed := now a\<rparr>))"

definition run_turn :: "'r bcunit \<Rightarrow> 'r \<Rightarrow> int \<Rightarrow> 64 word \<Rightarrow> answers \<Rightarrow> parallel \<Rightarrow> outcome option" where
  "run_turn cu r maxProcess timeout a ps = do {
     x \<leftarrow> launch_step cu r maxProcess a ps;
     case x of
       Go ps \<Rightarrow> do {
         x \<leftarrow> reap_step cu r a ps;
         case x of
           Go ps \<Rightarrow> map_option Go (timer_step cu r timeout a ps)
         | _ \<Rightarrow> Some x }
     | _ \<Rightarrow> Some x }"

section \<open>Start and end\<close>

definition parallel_start :: "'r bcunit \<Rightarrow> 'r \<Rightarrow> 64 word \<Rightarrow> tester \<Rightarrow> os \<Rightarrow> parallel" where
  "parallel_start cu r time_start st s =
     \<lparr>suitesPids = replicate (uiNumberOfSuites cu r) \<lparr>pid = 0, finished = False\<rparr>, nextSuite = 0, runningSuites = 0,
      testsFinished = 0, ret = 0, suitesCpuWeight = 0, timeoutElapsed = False, elapsed = time_start,
      print_timer = time_start,
      run_tester = (if globalTimeout st = 0 then st\<lparr>globalTimeout := 60 * 60\<rparr> else st), run_os = s\<rparr>"

definition parallel_timeout :: "64 word \<Rightarrow> tester \<Rightarrow> 64 word" where
  "parallel_timeout time_start st =
     time_start + (if globalTimeout st = 0 then 60 * 60 else globalTimeout st) * 1000"

text \<open>\<open>%2i\<close>.\<close>

definition show_2i :: "int \<Rightarrow> string" where
  "show_2i n = (let t = show_int n in replicate (2 - length t) (CHR '' '') @ t)"

definition parallel_end ::
    "'r bcunit \<Rightarrow> 'r \<Rightarrow> 64 word \<Rightarrow> 64 word \<Rightarrow> string \<Rightarrow> parallel \<Rightarrow> (int \<times> tester \<times> os) option" where
  "parallel_end cu r time_start timeout run_results ps = do {
     let late = (elapsed ps \<ge> timeout);
     let st = (if late then error_text (''*** Test suite took too much time. Please check errors or split '' @
         ''longest test suites to benefit from parallel execution. ***'') (run_tester ps) else run_tester ps);
     let rc = (if late then -1 else ret ps);
     let st = info_text ''All suites ended.'' st;
     if rc \<noteq> -1
     then do {
       let seconds = cdiv (to_i32 (uint (elapsed ps - time_start))) 1000;
       (st, s) \<leftarrow> all_complete_message_handler cu r run_results st (run_os ps);
       Some (if rc > max_failed_tests_threshold st then 1 else 0,
         info_text (''Full parallel run completed in '' @ show_2i (cdiv seconds 60) @ '' mn '' @
           show_2i (cmod seconds 60) @ '' s.'' @ [LF]) st, s) }
     else Some (-1, st, run_os ps) }"

text \<open>The loop with the answers of all turns; a child that runs another program never comes back.\<close>

partial_function (option) parallel_loop ::
    "'r bcunit \<Rightarrow> 'r \<Rightarrow> int \<Rightarrow> 64 word \<Rightarrow> 64 word \<Rightarrow> string \<Rightarrow> (nat \<Rightarrow> answers) \<Rightarrow> nat \<Rightarrow> parallel \<Rightarrow>
     (int \<times> tester \<times> os) option" where
  "parallel_loop cu r maxProcess time_start timeout run_results turns k ps =
     Option.bind (run_turn cu r maxProcess timeout (turns k) ps)
       (\<lambda>x. case x of
          Returned v st s \<Rightarrow> Some (v, st, s)
        | Execs argv st s \<Rightarrow> None
        | Go ps \<Rightarrow>
            if testsFinished ps < int (uiNumberOfSuites cu r)
            then parallel_loop cu r maxProcess time_start timeout run_results turns (k + 1) ps
            else parallel_end cu r time_start timeout run_results ps)"

definition bc_tester_run_parallel ::
    "'r bcunit \<Rightarrow> 'r \<Rightarrow> string \<Rightarrow> 64 word \<Rightarrow> (nat \<Rightarrow> answers) \<Rightarrow> tester \<Rightarrow> os \<Rightarrow> (int \<times> tester \<times> os) option" where
  "bc_tester_run_parallel cu r run_results time_start turns st s =
     parallel_loop cu r (bc_tester_get_max_parallel_processes st) time_start (parallel_timeout time_start st)
       run_results turns 0 (parallel_start cu r time_start st s)"

end
