(* ===== verification/TesterMain.thy ===== *)
theory TesterMain
  imports TesterParallel LogFile
begin

text \<open>
  The main functions of the test runner, src/tester.c: the messages about suites and tests, the search for the
  resource directory, the default handlers of the options, a whole run and its end.  What a run of BCUnit does is an
  argument, the record \<open>bcrun\<close>: it calls the tests of the client and the handlers of the runner.
\<close>

section \<open>Messages\<close>

record CU_FailureRecord =
  strFileName :: "string option"
  uiLineNumber :: nat
  strCondition :: "string option"

definition text_or_empty :: "string option \<Rightarrow> string" where
  "text_or_empty p = (case p of None \<Rightarrow> [] | Some t \<Rightarrow> t)"

text \<open>\<open>"%s\n    %d. %s:%u  - %s"\<close>.\<close>

fun failure_loop :: "nat \<Rightarrow> CU_FailureRecord list \<Rightarrow> string \<Rightarrow> string" where
  "failure_loop i [] buffer = buffer"
| "failure_loop i (f # fs) buffer =
     failure_loop (i + 1) fs (buffer @ [LF] @ ''    '' @ show_nat i @ ''. '' @ text_or_empty (strFileName f) @ '':'' @
       show_nat (uiLineNumber f) @ ''  - '' @ text_or_empty (strCondition f))"

definition bc_tester_get_failed_asserts :: "CU_FailureRecord list \<Rightarrow> string" where
  "bc_tester_get_failed_asserts records = failure_loop 1 records []"

text \<open>The clocks of the running suite and test; the seconds are printed with \<open>%.3f\<close>, an argument here.\<close>

record clocks =
  suite_start_time :: "64 word"
  test_start_time :: "64 word"

definition suite_start_message_handler :: "64 word \<Rightarrow> CU_Suite \<Rightarrow> tester \<Rightarrow> clocks \<Rightarrow> tester \<times> clocks" where
  "suite_start_message_handler cur_time pSuite st c =
     ((info_text (''Suite ['' @ pName pSuite @ ''] started'' @ [LF]) st)\<lparr>bc_current_suite_name := Some (pName pSuite)\<rparr>,
      c\<lparr>suite_start_time := cur_time\<rparr>)"

definition suite_complete_message_handler ::
    "(64 word \<Rightarrow> string) \<Rightarrow> 64 word \<Rightarrow> CU_Suite \<Rightarrow> clocks \<Rightarrow> tester \<Rightarrow> tester" where
  "suite_complete_message_handler secs cur_time pSuite c st =
     info_text (''Suite ['' @ pName pSuite @ ''] ended in '' @ secs (cur_time - suite_start_time c) @ '' sec'' @ [LF]) st"

definition test_start_message_handler ::
    "64 word \<Rightarrow> string \<Rightarrow> CU_Suite \<Rightarrow> tester \<Rightarrow> clocks \<Rightarrow> tester \<times> clocks" where
  "test_start_message_handler cur_time test pSuite st c =
     ((info_text (''Suite ['' @ pName pSuite @ ''] Test ['' @ test @ ''] started'') st)\<lparr>bc_current_test_name := Some test\<rparr>,
      c\<lparr>test_start_time := cur_time\<rparr>)"

text \<open>A function of the runner may end the process with \<open>abort\<close>.\<close>

datatype 'a ending = Done 'a | Aborted tester

definition test_complete_message_handler ::
    "(64 word \<Rightarrow> string) \<Rightarrow> 64 word \<Rightarrow> 64 word \<Rightarrow> string \<Rightarrow> CU_Suite \<Rightarrow> CU_FailureRecord list \<Rightarrow> clocks \<Rightarrow> tester \<Rightarrow>
     tester ending" where
  "test_complete_message_handler secs cur_time uordblks test pSuite pFailureList c st =
     (let head = ''Suite ['' @ pName pSuite @ ''] Test ['' @ test @ ''] '' @
            (if pFailureList = [] then ''passed'' else ''failed'') @ '' in '' @ secs (cur_time - test_start_time c) @ '' secs'';
          st = info_text [] (info_text (failure_loop 1 pFailureList head) st)
      in if max_vm_kb st \<noteq> 0 \<and> uordblks > max_vm_kb st * 1024
         then Aborted (error_text (''The program exceeded the maximum amount of memory allocatable ('' @
           show_int (to_i32 (uint uordblks)) @ '' bytes), aborting now.'' @ [LF]) st)
         else Done st)"

definition suite_init_failure_message_handler :: "CU_Suite \<Rightarrow> tester \<Rightarrow> tester" where
  "suite_init_failure_message_handler pSuite st = error_text (''Suite initialization failed for ['' @ pName pSuite @ '']'') st"

definition suite_cleanup_failure_message_handler :: "CU_Suite \<Rightarrow> tester \<Rightarrow> tester" where
  "suite_cleanup_failure_message_handler pSuite st = error_text (''Suite cleanup failed for ['' @ pName pSuite @ '']'') st"

definition bc_tester_set_max_vm :: "64 word \<Rightarrow> tester \<Rightarrow> tester" where
  "bc_tester_set_max_vm amax_vm_kb st =
     info_text (''Maximum virtual memory space set to '' @ show_int (sint amax_vm_kb) @ '' kilo bytes'')
       (st\<lparr>max_vm_kb := amax_vm_kb\<rparr>)"

section \<open>Directories\<close>

text \<open>
  The files of the system as the search sees them: \<open>stat\<close>, \<open>fopen\<close> for writing with \<open>fclose\<close>, and
  \<open>unlink\<close>.  They are not limited to the regular files of the record \<open>os\<close>.
\<close>

record 'f filesystem =
  fs_stat :: "string \<Rightarrow> 'f \<Rightarrow> bool"
  fs_create :: "string \<Rightarrow> 'f \<Rightarrow> 'f option"
  fs_unlink :: "string \<Rightarrow> 'f \<Rightarrow> 'f"

text \<open>\<open>bctbx_file_exist\<close> is 0 when \<open>stat\<close> finds the path.\<close>

definition file_exists :: "'f filesystem \<Rightarrow> string option \<Rightarrow> 'f \<Rightarrow> string \<Rightarrow> bool option" where
  "file_exists fs expected root root_path = do {
     res \<leftarrow> expected; Some (fs_stat fs (root_path @ ''/'' @ res) root) }"

text \<open>The directory of the program and its name, which is missing when the path has no separator.\<close>

definition program_path :: "string \<Rightarrow> string" where
  "program_path prog = (case last_sep prog of Some i \<Rightarrow> take (i + 1) prog | None \<Rightarrow> prog)"

definition program_name :: "string \<Rightarrow> string option" where
  "program_name prog = map_option (\<lambda>i. drop (i + 1) prog) (last_sep prog)"

definition find_prefix :: "'f filesystem \<Rightarrow> string option \<Rightarrow> string option \<Rightarrow> 'f \<Rightarrow> string option option" where
  "find_prefix fs expected prog root = do {
     let progpath = map_option program_path prog;
     let installed_resources_path = (case Option.bind prog program_name of
       Some progname \<Rightarrow> map_option (\<lambda>p. p @ ''../share/'' @ progname) progpath
     | None \<Rightarrow> None);
     here \<leftarrow> file_exists fs expected root ''.'';
     if here then Some (Some ''.'')
     else do {
       above \<leftarrow> file_exists fs expected root ''..'';
       if above then Some (Some ''..'')
       else do {
         inst \<leftarrow> (case installed_resources_path of None \<Rightarrow> Some False | Some p \<Rightarrow> file_exists fs expected root p);
         if inst then Some installed_resources_path
         else (case progpath of
             None \<Rightarrow> Some None
           | Some p \<Rightarrow> do {
               beside \<leftarrow> file_exists fs expected root p;
               if beside then Some (Some p)
               else do {
                 parent \<leftarrow> file_exists fs expected root (p @ ''/../'');
                 Some (if parent then Some (p @ ''/../'') else None) } }) } } }"

definition check_resource_dir :: "'f filesystem \<Rightarrow> 'f \<Rightarrow> tester \<Rightarrow> tester option" where
  "check_resource_dir fs root st =
     (case bc_tester_resource_dir_prefix st of
        None \<Rightarrow> Some st
      | Some d \<Rightarrow> do {
          ok \<leftarrow> file_exists fs (expected_res st) root d;
          res \<leftarrow> expected_res st;
          Some (if ok then st
            else (error_text (''Invalid provided resource directory: could not find expected resources '' @ quoted res @
              '' in '' @ quoted d @ ''.'') st)\<lparr>bc_tester_resource_dir_prefix := None\<rparr>) })"

definition take_prefix :: "string option \<Rightarrow> tester \<Rightarrow> tester" where
  "take_prefix prefix st =
     (case prefix of
        None \<Rightarrow> st
      | Some p \<Rightarrow>
          let st = (if bc_tester_resource_dir_prefix st = None
                then bc_tester_set_resource_dir_prefix p (error_text (''Resource directory set to '' @ p) st) else st)
          in if bc_tester_writable_dir_prefix st = None
             then bc_tester_set_writable_dir_prefix p (error_text (''Writable directory set to '' @ p) st) else st)"

text \<open>A file is created in the writable directory and removed again.\<close>

definition try_write :: "'f filesystem \<Rightarrow> string option \<Rightarrow> 'f \<Rightarrow> bool \<times> 'f" where
  "try_write fs prefix root =
     (case prefix of
        None \<Rightarrow> (False, root)
      | Some d \<Rightarrow> (case fs_create fs (d @ ''/.bc_tester_utils.tmp'') root of
            None \<Rightarrow> (False, root)
          | Some root' \<Rightarrow> (True, fs_unlink fs (d @ ''/.bc_tester_utils.tmp'') root')))"

definition detect_res_prefix ::
    "'f filesystem \<Rightarrow> string option \<Rightarrow> tester \<Rightarrow> 'f \<Rightarrow> ((tester \<times> 'f) ending) option" where
  "detect_res_prefix fs prog st root = do {
     prefix \<leftarrow> find_prefix fs (expected_res st) prog root;
     st \<leftarrow> check_resource_dir fs root st;
     let st = take_prefix prefix st;
     let (writable, root) = try_write fs (bc_tester_writable_dir_prefix st) root;
     if bc_tester_resource_dir_prefix st = None \<or> \<not> writable
     then do {
       st \<leftarrow> (if bc_tester_resource_dir_prefix st = None
         then do {
           res \<leftarrow> expected_res st;
           p \<leftarrow> map_option program_path prog;
           Some (error_text (''Could not find resource directory '' @ quoted res @ '' in '' @ quoted p @
             ''! Please try again using option --resource-dir.'') st) }
         else Some st);
       st \<leftarrow> (if \<not> writable
         then do {
           d \<leftarrow> bc_tester_writable_dir_prefix st;
           Some (error_text (''Failed to write file in '' @ d @ ''. Please try again using option --writable-dir.'') st) }
         else Some st);
       Some (Aborted st) }
     else Some (Done (st, root)) }"

section \<open>The default handlers of the options\<close>

definition bc_tester_verbose_handler :: "bool \<Rightarrow> string \<Rightarrow> log_os logger \<Rightarrow> (int \<times> log_os logger) option" where
  "bc_tester_verbose_handler dflt arg w = map_option (\<lambda>w. (0, w)) (bctbx_set_log_level dflt (Some ''bctbx'') BCTBX_LOG_DEBUG w)"

definition bc_tester_silent_handler :: "bool \<Rightarrow> string \<Rightarrow> log_os logger \<Rightarrow> (int \<times> log_os logger) option" where
  "bc_tester_silent_handler dflt arg w = map_option (\<lambda>w. (0, w)) (bctbx_set_log_level dflt (Some ''bctbx'') BCTBX_LOG_FATAL w)"

definition buffer_text :: "cbuf \<Rightarrow> string" where
  "buffer_text b = takeWhile (\<lambda>c. c \<noteq> NUL) (buf_string b (size_of b))"

text \<open>Memory is not exhausted.\<close>

definition bc_tester_logfile_handler :: "bool \<Rightarrow> string \<Rightarrow> log_os logger \<Rightarrow> (int \<times> log_os logger) option" where
  "bc_tester_logfile_handler dflt arg w = do {
     dir \<leftarrow> bctbx_dirname (Some \<circ> cmalloc) arg;
     dir \<leftarrow> dir;
     base \<leftarrow> bctbx_basename (Some \<circ> cmalloc) arg;
     base \<leftarrow> base;
     (filehandler, w) \<leftarrow> bctbx_create_file_log_handler 0 (buffer_text dir) (buffer_text base) w;
     case filehandler of
       None \<Rightarrow> Some (-1, w)
     | Some h \<Rightarrow> do { w \<leftarrow> bctbx_add_log_handler dflt (Some h) w; Some (0, w) } }"

definition default_handlers :: "bool \<Rightarrow> (log_os logger) arg_handlers" where
  "default_handlers dflt = \<lparr>silent_arg_func = bc_tester_silent_handler dflt,
     verbose_arg_func = bc_tester_verbose_handler dflt, logfile_arg_func = bc_tester_logfile_handler dflt\<rparr>"

section \<open>A run\<close>

record 'r bcrun =
  CU_automated_enable_junit_xml :: "'r \<Rightarrow> 'r"
  CU_automated_enable_partial_junit :: "'r \<Rightarrow> 'r"
  CU_set_output_filename :: "string \<Rightarrow> 'r \<Rightarrow> 'r"
  CU_automated_run_tests :: "'r \<Rightarrow> tester \<Rightarrow> os \<Rightarrow> ('r \<times> tester \<times> os) option"
  CU_run_all_tests :: "'r \<Rightarrow> tester \<Rightarrow> os \<Rightarrow> ('r \<times> tester \<times> os) option"
  CU_run_suite :: "CU_Suite \<Rightarrow> 'r \<Rightarrow> tester \<Rightarrow> os \<Rightarrow> ('r \<times> tester \<times> os) option"
  CU_run_test :: "CU_Suite \<Rightarrow> nat \<Rightarrow> 'r \<Rightarrow> tester \<Rightarrow> os \<Rightarrow> (int \<times> 'r \<times> tester \<times> os) option"
  CU_get_suite :: "string \<Rightarrow> 'r \<Rightarrow> CU_Suite option"
  CU_get_test_by_name :: "string \<Rightarrow> CU_Suite \<Rightarrow> nat option"
  CU_get_number_of_tests_failed :: "'r \<Rightarrow> nat"
  CU_get_failure_list :: "'r \<Rightarrow> CU_FailureRecord list"
  CU_basic_show_failures :: "CU_FailureRecord list \<Rightarrow> os \<Rightarrow> os"
  CU_cleanup_registry :: "'r \<Rightarrow> 'r"

text \<open>The label \<open>end\<close>.\<close>

definition run_end :: "'r bcrun \<Rightarrow> string option \<Rightarrow> 64 word \<Rightarrow> 'r \<Rightarrow> tester \<Rightarrow> (int \<times> tester) option" where
  "run_end run suite_name uordblks r st =
     (let st = info_text (''Still '' @ show_int (to_i32 (uint (uordblks div 1024))) @
            '' kilobytes allocated when all tests are finished.'') st;
          failed_tests = int (CU_get_number_of_tests_failed run r)
      in if run_in_parallel st
         then do {
           n \<leftarrow> suite_name;
           let st = info_text (''Suite  '' @ n @ '' finished with '' @ show_int failed_tests @ '' failed tests.'') st;
           Some (if failed_tests \<ge> 255
             then (255, error_text ''The number of tests exceeded 255, the maximum value for an exit status !'' st)
             else (failed_tests, st)) }
         else Some (if failed_tests > max_failed_tests_threshold st then 1 else 0, st))"

text \<open>Without XML: the suite and the test by name, or everything.\<close>

definition run_chosen ::
    "'r bcrun \<Rightarrow> string option \<Rightarrow> string option \<Rightarrow> string option \<Rightarrow> 64 word \<Rightarrow> 'r \<Rightarrow> tester \<Rightarrow> os \<Rightarrow>
     (int \<times> 'r \<times> tester \<times> os) option" where
  "run_chosen run suite_name test tag uordblks r st s =
     (case suite_name of
        None \<Rightarrow> do {
          (r, st, s) \<leftarrow> CU_run_all_tests run r st s;
          (v, st) \<leftarrow> run_end run suite_name uordblks r st;
          Some (v, r, st, s) }
      | Some n \<Rightarrow> (case CU_get_suite run n r of
            None \<Rightarrow> do {
              let st = error_text (''Could not find suite '' @ quoted n @ (case tag of
                None \<Rightarrow> ''. Available suites are:''
              | Some t \<Rightarrow> '' or this suite has no tests with tag '' @ quoted t @ ''. Available suites are:'')) st;
              st \<leftarrow> bc_tester_list_suites st;
              Some (-1, r, st, s) }
          | Some suite \<Rightarrow> (case test of
                None \<Rightarrow> do {
                  (r, st, s) \<leftarrow> CU_run_suite run suite r st s;
                  (v, st) \<leftarrow> run_end run suite_name uordblks r st;
                  Some (v, r, st, s) }
              | Some t \<Rightarrow> (case CU_get_test_by_name run t suite of
                    None \<Rightarrow> do {
                      let st = error_text (''Could not find test '' @ quoted t @ '' in suite '' @ quoted n @ (case tag of
                        None \<Rightarrow> ''. Available tests are:''
                      | Some g \<Rightarrow> '' or this test is not tagged '' @ quoted g @ ''. Available tests are:'')) st;
                      st \<leftarrow> bc_tester_list_tests (pName suite) st;
                      Some (-2, r, st, s) }
                  | Some p \<Rightarrow> do {
                      (err, r, st, s) \<leftarrow> CU_run_test run suite p r st s;
                      let st = (if err \<noteq> 0 then error_text (''CU_basic_run_test error '' @ show_int err) st else st);
                      (v, st) \<leftarrow> run_end run suite_name uordblks r st;
                      Some (v, r, st, s) }))))"

definition bc_tester_run_tests ::
    "'r bcunit \<Rightarrow> 'r bcrun \<Rightarrow> string \<Rightarrow> 64 word \<Rightarrow> (nat \<Rightarrow> answers) \<Rightarrow> 64 word \<Rightarrow> string option \<Rightarrow> string option \<Rightarrow>
     string option \<Rightarrow> 'r \<Rightarrow> tester \<Rightarrow> os \<Rightarrow> (int \<times> 'r \<times> tester \<times> os) option" where
  "bc_tester_run_tests cu run run_results time_start turns uordblks suite_name test tag r st s = do {
     (rc, st, r) \<leftarrow> bc_tester_register_suites cu st r;
     if rc \<noteq> 0 then Some (rc, r, st, s)
     else if xml_enabled st \<and> test = None
     then let r = CU_automated_enable_junit_xml run r in
       if run_in_parallel st \<and> suite_name = None
       then do {
         (v, st, s) \<leftarrow> bc_tester_run_parallel cu r run_results time_start turns st s;
         (st, s) \<leftarrow> merge_junit_xml_files cu r (get_junit_xml_file_name cu r st None (Some results_suffix)) st s;
         (st, s) \<leftarrow> (case log_file_name st of None \<Rightarrow> Some (st, s) | Some base \<Rightarrow> merge_log_files cu r base st s);
         Some (v, r, st, s) }
       else do {
         let r = (if run_in_parallel st then CU_automated_enable_partial_junit run r else r);
         let r = CU_set_output_filename run (get_junit_xml_file_name cu r st None None) r;
         (r, st, s) \<leftarrow> CU_automated_run_tests run r st s;
         (v, st) \<leftarrow> run_end run suite_name uordblks r st;
         Some (v, r, st, s) }
     else run_chosen run suite_name test tag uordblks r st s }"

text \<open>\<open>tag_name\<close> is never set.\<close>

definition bc_tester_start ::
    "'r bcunit \<Rightarrow> 'r bcrun \<Rightarrow> string \<Rightarrow> 64 word \<Rightarrow> (nat \<Rightarrow> answers) \<Rightarrow> 64 word \<Rightarrow> 'f filesystem \<Rightarrow>
     string option \<Rightarrow> 'r \<Rightarrow> tester \<Rightarrow> os \<Rightarrow> 'f \<Rightarrow> ((int \<times> 'r \<times> tester \<times> os \<times> 'f) ending) option" where
  "bc_tester_start cu run run_results time_start turns uordblks fs prog_name r st s root = do {
     e \<leftarrow> (if expected_res st \<noteq> None then detect_res_prefix fs prog_name st root else Some (Done (st, root)));
     case e of
       Aborted st \<Rightarrow> Some (Aborted st)
     | Done (st, root) \<Rightarrow> do {
         let st = (if max_vm_kb st \<noteq> 0 then bc_tester_set_max_vm (max_vm_kb st) st else st);
         if length (suites_to_run st) \<noteq> 1 \<and> test_name st \<noteq> None
         then Some (Done (-1, r, error_text ''--test requires a unique --suite option to be given. '' st, s, root))
         else do {
           let suite_name = (if length (suites_to_run st) = 1 then Some (hd (suites_to_run st)) else None);
           (v, r, st, s) \<leftarrow> bc_tester_run_tests cu run run_results time_start turns uordblks suite_name (test_name st) None
             r st s;
           Some (Done (v, r, st, s, root)) } } }"

definition bc_tester_uninit :: "'r bcrun \<Rightarrow> 'r \<Rightarrow> tester \<Rightarrow> os \<Rightarrow> 'r \<times> tester \<times> os" where
  "bc_tester_uninit run r st s =
     (let records = CU_get_failure_list run r;
          s = (if records \<noteq> [] then CU_basic_show_failures run records s else s);
          st = info_text [] st;
          st = (if test_suite st \<noteq> None then st\<lparr>test_suite := None, nb_test_suites := 0\<rparr> else st)
      in (CU_cleanup_registry run r,
          st\<lparr>bc_tester_resource_dir_prefix := None, bc_tester_writable_dir_prefix := None,
             suites_to_run := [], suites_to_exclude := []\<rparr>, s))"

end
