(* ===== verification/TesterParallelProps.thy ===== *)
theory TesterParallelProps
  imports TesterParallel
begin

text \<open>
  The parallel run together with a kernel that gives its processes their numbers and tells it when they end: an
  invariant over all interleavings of turns and endings, and the termination of the run.
\<close>

section \<open>Processes\<close>

text \<open>The process of the suite at a position: running, ended, or ended and waited for.\<close>

datatype proc = Live | Zombie wait_status | Reaped wait_status

fun reaped :: "proc \<Rightarrow> bool" where
  "reaped (Reaped w) = True"
| "reaped p = False"

fun zombie :: "proc \<Rightarrow> bool" where
  "zombie (Zombie w) = True"
| "zombie p = False"

text \<open>A sum over the processes by position.\<close>

definition total :: "(nat \<Rightarrow> proc \<Rightarrow> int) \<Rightarrow> proc list \<Rightarrow> int" where
  "total f procs = (\<Sum>i < length procs. f i (procs ! i))"

lemma total_Nil [simp]: "total f [] = 0"
  by (simp add: total_def)

lemma total_snoc [simp]: "total f (procs @ [p]) = total f procs + f (length procs) p"
proof -
  have "(\<Sum>i < length procs. f i ((procs @ [p]) ! i)) = (\<Sum>i < length procs. f i (procs ! i))"
    by (intro sum.cong) (simp_all add: nth_append)
  then show ?thesis by (simp add: total_def)
qed

lemma total_update:
  assumes "i < length procs"
  shows "total f (procs[i := p]) = total f procs - f i (procs ! i) + f i p"
proof -
  have "(\<Sum>j \<in> {..<length procs} - {i}. f j (procs[i := p] ! j)) = (\<Sum>j \<in> {..<length procs} - {i}. f j (procs ! j))"
    by (intro sum.cong) auto
  then show ?thesis
    using assms sum.remove [of "{..<length procs}" i "\<lambda>j. f j (procs[i := p] ! j)"]
      sum.remove [of "{..<length procs}" i "\<lambda>j. f j (procs ! j)"]
    by (simp add: total_def)
qed

lemma total_cong: "(\<And>i. i < length procs \<Longrightarrow> f i (procs ! i) = g i (procs ! i)) \<Longrightarrow> total f procs = total g procs"
  by (simp add: total_def)

definition not_reaped :: "nat \<Rightarrow> proc \<Rightarrow> int" where
  "not_reaped i p = (if reaped p then 0 else 1)"

definition was_reaped :: "nat \<Rightarrow> proc \<Rightarrow> int" where
  "was_reaped i p = (if reaped p then 1 else 0)"

lemma reaped_sum: "total not_reaped procs + total was_reaped procs = int (length procs)"
  by (induction procs rule: rev_induct) (simp_all add: not_reaped_def was_reaped_def)

lemma was_reaped_nonneg: "0 \<le> total was_reaped procs"
  by (auto simp: total_def was_reaped_def intro: sum_nonneg)

lemma not_reaped_pos:
  assumes "i < length procs" "\<not> reaped (procs ! i)"
  shows "0 < total not_reaped procs"
proof -
  have "total not_reaped procs = 1 + (\<Sum>j \<in> {..<length procs} - {i}. not_reaped j (procs ! j))"
    using assms sum.remove [of "{..<length procs}" i "\<lambda>j. not_reaped j (procs ! j)"]
    by (simp add: total_def not_reaped_def)
  moreover have "0 \<le> (\<Sum>j \<in> {..<length procs} - {i}. not_reaped j (procs ! j))"
    by (intro sum_nonneg) (simp add: not_reaped_def)
  ultimately show ?thesis by linarith
qed

lemma all_reaped: "(\<forall>p \<in> set procs. reaped p) \<longleftrightarrow> total not_reaped procs = 0"
proof
  assume "\<forall>p \<in> set procs. reaped p"
  then show "total not_reaped procs = 0" by (auto simp: total_def not_reaped_def intro!: sum.neutral)
next
  assume "total not_reaped procs = 0"
  then show "\<forall>p \<in> set procs. reaped p" using not_reaped_pos by (metis in_set_conv_nth less_irrefl)
qed

section \<open>What the counters stand for\<close>

definition suite_weight :: "tester \<Rightarrow> CU_Suite \<Rightarrow> int" where
  "suite_weight st suite = fst (test_suite_cpu_weight st (the (pUserSuite suite)))"

text \<open>What a suite adds to the number of failures: all its tests after a crash.\<close>

fun outcome_value :: "CU_Suite \<Rightarrow> wait_status \<Rightarrow> int" where
  "outcome_value suite Signaled = int (length (pTests suite))"
| "outcome_value suite (Exited n) = (if n = 255 then int (length (pTests suite)) else int n)"

text \<open>The first process with the number of a process: the one the parent takes it for.\<close>

definition first_with :: "(nat \<Rightarrow> int) \<Rightarrow> nat \<Rightarrow> nat" where
  "first_with pids i = length (takeWhile (\<lambda>l. pids l \<noteq> pids i) [0..<i])"

lemma first_with_eq:
  "pids (first_with pids i) = pids i" "first_with pids i \<le> i" "l < first_with pids i \<Longrightarrow> pids l \<noteq> pids i"
proof -
  let ?P = "\<lambda>l. pids l \<noteq> pids i"
  show le: "first_with pids i \<le> i"
    using length_takeWhile_le [of ?P "[0..<i]"] by (simp add: first_with_def)
  show "pids (first_with pids i) = pids i"
  proof (cases "first_with pids i < i")
    case True
    then show ?thesis using nth_length_takeWhile [of ?P "[0..<i]"] by (simp add: first_with_def)
  qed (use le in simp)
  assume l: "l < first_with pids i"
  then have "takeWhile ?P [0..<i] ! l \<in> set (takeWhile ?P [0..<i])" by (simp add: first_with_def)
  then have "?P (takeWhile ?P [0..<i] ! l)" by (blast dest: set_takeWhileD)
  moreover have "takeWhile ?P [0..<i] ! l = l" using l le by (simp add: first_with_def takeWhile_nth)
  ultimately show "pids l \<noteq> pids i" by simp
qed

lemma first_with_unique: "\<forall>l < i. pids l \<noteq> pids i \<Longrightarrow> first_with pids i = i"
  using first_with_eq(1,2) [of pids i] by (metis le_neq_implies_less)

lemma first_with_inj: "inj pids \<Longrightarrow> first_with pids i = i"
  by (rule first_with_unique) (auto simp: inj_def)

text \<open>Whether the parent has marked an entry of the table.\<close>

definition marked_ended :: "(nat \<Rightarrow> int) \<Rightarrow> proc list \<Rightarrow> nat \<Rightarrow> bool" where
  "marked_ended pids procs i \<longleftrightarrow> (\<exists>j < length procs. first_with pids j = i \<and> reaped (procs ! j))"

lemma marked_ended_beyond: "length procs \<le> i \<Longrightarrow> \<not> marked_ended pids procs i"
proof
  assume l: "length procs \<le> i" "marked_ended pids procs i"
  then obtain j where "j < length procs" "first_with pids j = i" by (auto simp: marked_ended_def)
  then show False using l(1) first_with_eq(2) [of pids j] by linarith
qed

lemma marked_ended_start [simp]: "marked_ended pids (procs @ [Live]) i = marked_ended pids procs i"
  by (auto simp: marked_ended_def nth_append less_Suc_eq)

lemma marked_ended_zombie [simp]: "procs ! j = Live \<Longrightarrow> marked_ended pids (procs[j := Zombie w]) i = marked_ended pids procs i"
proof -
  assume l: "procs ! j = Live"
  have "reaped (procs[j := Zombie w] ! k) = reaped (procs ! k)" if "k < length procs" for k
    using l that by (cases "j = k") simp_all
  then show ?thesis by (auto simp: marked_ended_def)
qed

lemma marked_ended_reaped:
  assumes "j < length procs"
  shows "marked_ended pids (procs[j := Reaped w]) i \<longleftrightarrow> first_with pids j = i \<or> marked_ended pids procs i"
proof
  assume "marked_ended pids (procs[j := Reaped w]) i"
  then obtain k where "k < length procs" "first_with pids k = i" "reaped (procs[j := Reaped w] ! k)"
    by (auto simp: marked_ended_def)
  then show "first_with pids j = i \<or> marked_ended pids procs i"
    by (cases "j = k") (auto simp: marked_ended_def)
next
  assume "first_with pids j = i \<or> marked_ended pids procs i"
  then show "marked_ended pids (procs[j := Reaped w]) i"
  proof
    assume "first_with pids j = i"
    then show ?thesis using assms unfolding marked_ended_def by (intro exI [of _ j]) simp
  next
    assume "marked_ended pids procs i"
    then obtain k where "k < length procs" "first_with pids k = i" "reaped (procs ! k)" by (auto simp: marked_ended_def)
    then show ?thesis unfolding marked_ended_def by (intro exI [of _ k]) (cases "j = k"; simp)
  qed
qed

lemma marked_ended_inj: "inj pids \<Longrightarrow> i < length procs \<Longrightarrow> marked_ended pids procs i = reaped (procs ! i)"
  by (auto simp: marked_ended_def first_with_inj)

text \<open>
  What a process adds to the counter of weights: its suite's weight at its start, less that of the suite the parent takes it
  for at its end.
\<close>

definition counted_weight :: "tester \<Rightarrow> CU_Suite list \<Rightarrow> (nat \<Rightarrow> int) \<Rightarrow> nat \<Rightarrow> proc \<Rightarrow> int" where
  "counted_weight st ss pids i p =
     suite_weight st (ss ! i) - (if reaped p then suite_weight st (ss ! first_with pids i) else 0)"

definition running_weight :: "tester \<Rightarrow> CU_Suite list \<Rightarrow> nat \<Rightarrow> proc \<Rightarrow> int" where
  "running_weight st ss i p = (if reaped p then 0 else suite_weight st (ss ! i))"

definition failures :: "CU_Suite list \<Rightarrow> (nat \<Rightarrow> int) \<Rightarrow> nat \<Rightarrow> proc \<Rightarrow> int" where
  "failures ss pids i p = (case p of Reaped w \<Rightarrow> outcome_value (ss ! first_with pids i) w | _ \<Rightarrow> 0)"

text \<open>A number is given again, if at all, to a suite of the same weight.\<close>

definition same_weights :: "tester \<Rightarrow> CU_Suite list \<Rightarrow> (nat \<Rightarrow> int) \<Rightarrow> bool" where
  "same_weights st ss pids \<longleftrightarrow>
     (\<forall>i < length ss. \<forall>j < length ss. pids i = pids j \<longrightarrow> suite_weight st (ss ! i) = suite_weight st (ss ! j))"

lemma same_weights_inj: "inj pids \<Longrightarrow> same_weights st ss pids"
  unfolding same_weights_def by (metis injD)

lemma counted_running:
  assumes "same_weights st ss pids" "length procs \<le> length ss"
  shows "total (counted_weight st ss pids) procs = total (running_weight st ss) procs"
proof (rule total_cong)
  fix i assume "i < length procs"
  then have i: "i < length ss" using assms(2) by simp
  have "first_with pids i < length ss" by (rule order.strict_trans1 [OF first_with_eq(2) i])
  then have "suite_weight st (ss ! first_with pids i) = suite_weight st (ss ! i)"
    using assms(1) i first_with_eq(1) [of pids i] unfolding same_weights_def by blast
  then show "counted_weight st ss pids i (procs ! i) = running_weight st ss i (procs ! i)"
    by (simp add: counted_weight_def running_weight_def)
qed

definition parallel_ok :: "tester \<Rightarrow> CU_Suite list \<Rightarrow> (nat \<Rightarrow> int) \<Rightarrow> parallel \<Rightarrow> proc list \<Rightarrow> bool" where
  "parallel_ok st ss pids ps procs \<longleftrightarrow>
     says st (run_tester ps) \<and> length procs \<le> length ss \<and> nextSuite ps = length procs \<and>
     length (suitesPids ps) = length ss \<and>
     (\<forall>i < length ss. suitesPids ps ! i =
        (if i < length procs then \<lparr>pid = pids i, finished = marked_ended pids procs i\<rparr> else \<lparr>pid = 0, finished = False\<rparr>)) \<and>
     runningSuites ps = total not_reaped procs \<and> testsFinished ps = total was_reaped procs \<and>
     suitesCpuWeight ps = total (counted_weight st ss pids) procs \<and>
     suitesCpuWeight ps \<le> bc_tester_get_max_parallel_processes st \<and>
     ret ps = total (failures ss pids) procs"

text \<open>
  What the run relies on: the documented behaviour of BCUnit, different names, suites registered by the runner with
  weights that are not negative, at least one process at a time, and positive process numbers.  Nothing is said of
  numbers that are given again once their process was waited for.
\<close>

definition setup_ok :: "'r bcunit \<Rightarrow> ('r \<Rightarrow> CU_Suite list) \<Rightarrow> 'r \<Rightarrow> tester \<Rightarrow> (nat \<Rightarrow> int) \<Rightarrow> bool" where
  "setup_ok cu view r st pids \<longleftrightarrow> bcunit_ok cu view \<and> distinct (List.map pName (view r)) \<and>
     (\<forall>x \<in> set (view r). \<exists>ts. pUserSuite x = Some ts \<and> 0 \<le> cpu_weight ts) \<and>
     1 \<le> bc_tester_get_max_parallel_processes st \<and> (\<forall>i. 0 < pids i)"

lemma says_max: "says st st' \<Longrightarrow> bc_tester_get_max_parallel_processes st' = bc_tester_get_max_parallel_processes st"
  by (auto simp: says_def bc_tester_get_max_parallel_processes_def)

lemma weight_says:
  assumes "says st st'"
  shows "fst (test_suite_cpu_weight st' ts) = fst (test_suite_cpu_weight st ts)"
    "says st (snd (test_suite_cpu_weight st' ts))"
  using assms says_max [OF assms] says_trans [OF assms]
  by (auto simp: test_suite_cpu_weight_def Let_def)

lemma suite_weight_bounds:
  assumes "setup_ok cu view r st pids" "i < length (view r)"
  shows "0 \<le> suite_weight st (view r ! i)" "suite_weight st (view r ! i) \<le> bc_tester_get_max_parallel_processes st"
proof -
  obtain ts where "pUserSuite (view r ! i) = Some ts" "0 \<le> cpu_weight ts"
    using assms(1) nth_mem [OF assms(2)] unfolding setup_ok_def by blast
  then show "0 \<le> suite_weight st (view r ! i)" "suite_weight st (view r ! i) \<le> bc_tester_get_max_parallel_processes st"
    using assms(1) by (auto simp: suite_weight_def test_suite_cpu_weight_def Let_def setup_ok_def)
qed

lemma lookup_loop_eq:
  assumes "bcunit_ok cu view" "i + k = length (view r)" "length status = length (view r)"
    "j < length (view r)" "i \<le> j" "pid (status ! j) = p" "\<forall>l < j. pid (status ! l) \<noteq> p"
  shows "lookup_loop cu r p status k i = Some (j, pUserSuite (view r ! j))"
  using assms(2,5)
proof (induction k arbitrary: i)
  case 0
  then show ?case using assms(4) by simp
next
  case (Suc k)
  show ?case
  proof (cases "i = j")
    case True
    then show ?thesis using assms bcunit_ok_positions(2) [OF assms(1,4)] by simp
  next
    case False
    then show ?thesis using Suc.IH [of "i + 1"] Suc.prems assms(3,4,7) by simp
  qed
qed

lemma unfinished_loop_says:
  assumes "bcunit_ok cu view" "i + k = length (view r)" "length status = length (view r)"
  shows "\<exists>st'. unfinished_loop cu r status k i st = Some st' \<and> says st st'"
  using assms(2)
proof (induction k arbitrary: i st)
  case (Suc k)
  then have i: "i < length (view r)" by simp
  show ?case
  proof (cases "finished (status ! i)")
    case True
    then show ?thesis using Suc.IH [of "i + 1" st] Suc.prems assms(3) i by simp
  next
    case False
    let ?st = "error_text (''Suite ['' @ pName (view r ! i) @ ''] is still running after timeout.'') st"
    obtain st' where "unfinished_loop cu r status k (i + 1) ?st = Some st'" "says ?st st'"
      using Suc.IH [of "i + 1" ?st] Suc.prems by auto
    then show ?thesis
      using False assms(3) i bcunit_ok_positions(2) [OF assms(1) i] says_trans [OF says_text(1)] by fastforce
  qed
qed simp

lemma timer_step_ok:
  assumes "bcunit_ok cu view" "parallel_ok st (view r) pids ps procs"
  shows "\<exists>ps'. timer_step cu r timeout a ps = Some ps' \<and> parallel_ok st (view r) pids ps' procs"
proof -
  have l: "length (suitesPids ps) = length (view r)" and s: "says st (run_tester ps)"
    using assms(2) by (auto simp: parallel_ok_def)
  obtain st1 where st1: "unfinished_loop cu r (suitesPids ps) (uiNumberOfSuites cu r) 0 (run_tester ps) = Some st1"
    "says (run_tester ps) st1"
    using unfinished_loop_says [OF assms(1) _ l, of 0 "length (view r)"] bcunit_ok_positions(1) [OF assms(1), of r] by auto
  show ?thesis
    using assms(2) st1 says_trans [OF s st1(2)] says_trans [OF s] says_trans [OF says_trans [OF s st1(2)]]
    by (auto simp: timer_step_def parallel_ok_def)
qed

section \<open>The kernel\<close>

definition can_launch :: "tester \<Rightarrow> CU_Suite list \<Rightarrow> (nat \<Rightarrow> int) \<Rightarrow> proc list \<Rightarrow> bool" where
  "can_launch st ss pids procs \<longleftrightarrow> length procs < length ss \<and>
     total (counted_weight st ss pids) procs + suite_weight st (ss ! length procs) \<le> bc_tester_get_max_parallel_processes st"

definition after_fork :: "tester \<Rightarrow> CU_Suite list \<Rightarrow> (nat \<Rightarrow> int) \<Rightarrow> proc list \<Rightarrow> proc list" where
  "after_fork st ss pids procs = (if can_launch st ss pids procs then procs @ [Live] else procs)"

text \<open>
  The answers of a turn agree with the processes: a fork gives the number of the new process; \<open>waitpid\<close>
  hands out one that ended, or 0 when all are running; with no process left it is not called.
\<close>

definition kernel_turn ::
    "tester \<Rightarrow> CU_Suite list \<Rightarrow> (nat \<Rightarrow> int) \<Rightarrow> answers \<Rightarrow> proc list \<Rightarrow> proc list \<Rightarrow> bool" where
  "kernel_turn st ss pids a procs procs' \<longleftrightarrow>
     (can_launch st ss pids procs \<longrightarrow> fork_pid a = pids (length procs)) \<and>
     (let q = after_fork st ss pids procs in
      if \<exists>p \<in> set q. zombie p
      then \<exists>i < length q. q ! i = Zombie (wait_result a) \<and> wait_pid a = pids i \<and> procs' = q[i := Reaped (wait_result a)]
      else wait_pid a = 0 \<and> procs' = q)"

lemma launch_ok:
  assumes "setup_ok cu view r st pids" "parallel_ok st (view r) pids ps procs"
    "can_launch st (view r) pids procs \<longrightarrow> fork_pid a = pids (length procs)"
  shows "\<exists>ps'. launch_step cu r (bc_tester_get_max_parallel_processes st) a ps = Some (Go ps') \<and>
    parallel_ok st (view r) pids ps' (after_fork st (view r) pids procs)"
proof -
  have cu: "bcunit_ok cu view" using assms(1) by (simp add: setup_ok_def)
  note N = bcunit_ok_positions(1) [OF cu, of r]
  have ok: "says st (run_tester ps)" "nextSuite ps = length procs" "length (suitesPids ps) = length (view r)"
    "suitesCpuWeight ps = total (counted_weight st (view r) pids) procs"
    using assms(2) by (simp_all add: parallel_ok_def)
  show ?thesis
  proof (cases "length procs < length (view r)")
    case False
    then show ?thesis using assms(2) ok N by (simp add: launch_step_def after_fork_def can_launch_def)
  next
    case True
    obtain ts where ts: "pUserSuite (view r ! length procs) = Some ts"
      using assms(1) nth_mem [OF True] unfolding setup_ok_def by blast
    let ?w = "suite_weight st (view r ! length procs)"
    obtain st2 where w: "test_suite_cpu_weight (run_tester ps) ts = (?w, st2)" and s: "says st st2"
      using weight_says [OF ok(1), of ts] ts
      by (cases "test_suite_cpu_weight (run_tester ps) ts") (simp add: suite_weight_def)
    have get: "CU_get_suite_at_pos cu (Suc (length procs)) r = Some (view r ! length procs)"
      by (rule bcunit_ok_positions(2) [OF cu True])
    show ?thesis
    proof (cases "can_launch st (view r) pids procs")
      case False
      then show ?thesis
        using assms(2) True ok N get ts w s
        by (auto simp: launch_step_def after_fork_def can_launch_def parallel_ok_def)
    next
      case can: True
      let ?ps = "ps\<lparr>suitesPids := (suitesPids ps)[length procs := (suitesPids ps ! length procs)\<lparr>pid := pids (length procs)\<rparr>],
        runningSuites := runningSuites ps + 1, suitesCpuWeight := suitesCpuWeight ps + ?w,
        nextSuite := length procs + 1, run_tester := st2\<rparr>"
      have pos: "0 < pids (length procs)" using assms(1) by (simp add: setup_ok_def)
      then have "pids (length procs) \<noteq> -1" by linarith
      with pos have "launch_step cu r (bc_tester_get_max_parallel_processes st) a ps = Some (Go ?ps)"
        using can assms(3) True ok N get ts w by (simp add: launch_step_def can_launch_def)
      moreover have "parallel_ok st (view r) pids ?ps (after_fork st (view r) pids procs)"
        using assms(2) can True s
        by (auto simp: parallel_ok_def after_fork_def can_launch_def not_reaped_def was_reaped_def counted_weight_def
            failures_def marked_ended_beyond nth_append nth_list_update less_Suc_eq)
      ultimately show ?thesis by blast
    qed
  qed
qed

text \<open>The suite whose process ended is taken for the first one with the number of the process.\<close>

lemma pid_first:
  assumes "parallel_ok st ss pids ps procs" "i < length procs"
  shows "pid (suitesPids ps ! first_with pids i) = pids i"
    "l < first_with pids i \<Longrightarrow> pid (suitesPids ps ! l) \<noteq> pids i"
    "first_with pids i < length procs" "first_with pids i < length ss"
proof -
  have le: "first_with pids i < length procs" using first_with_eq(2) [of pids i] assms(2) by linarith
  have p: "length procs \<le> length ss" "\<forall>j < length procs. pid (suitesPids ps ! j) = pids j"
    using assms(1) by (simp_all add: parallel_ok_def)
  show "pid (suitesPids ps ! first_with pids i) = pids i" using p(2) le first_with_eq(1) [of pids i] by simp
  show "l < first_with pids i \<Longrightarrow> pid (suitesPids ps ! l) \<noteq> pids i" using p(2) le first_with_eq(3) [of l pids i] by simp
  show "first_with pids i < length procs" by (rule le)
  show "first_with pids i < length ss" using le p(1) by linarith
qed

lemma reap_step_eq:
  assumes "setup_ok cu view r st pids" "parallel_ok st (view r) pids ps q" "i < length q"
    "q ! i = Zombie (wait_result a)" "wait_pid a = pids i" "f = first_with pids i"
  shows "\<exists>st' s'. says st st' \<and> reap_step cu r a ps = Some (Go
    (ps\<lparr>suitesPids := (suitesPids ps)[f := (suitesPids ps ! f)\<lparr>finished := True\<rparr>],
      runningSuites := runningSuites ps - 1, testsFinished := testsFinished ps + 1,
      suitesCpuWeight := suitesCpuWeight ps - suite_weight st (view r ! f),
      ret := ret ps + outcome_value (view r ! f) (wait_result a), run_tester := st', run_os := s'\<rparr>))"
proof -
  have cu: "bcunit_ok cu view" "distinct (List.map pName (view r))" using assms(1) by (simp_all add: setup_ok_def)
  note N = bcunit_ok_positions(1) [OF cu(1), of r]
  have ok: "says st (run_tester ps)" "length (suitesPids ps) = length (view r)" "runningSuites ps = total not_reaped q"
    using assms(2) by (simp_all add: parallel_ok_def)
  note first = pid_first [OF assms(2,3), folded assms(6)]
  note f = first(4)
  obtain ts where ts: "pUserSuite (view r ! f) = Some ts" "0 \<le> cpu_weight ts"
    using assms(1) nth_mem [OF f] unfolding setup_ok_def by blast
  let ?w = "suite_weight st (view r ! f)"
  obtain st2 where w: "test_suite_cpu_weight (run_tester ps) ts = (?w, st2)" and s: "says st st2"
    using weight_says [OF ok(1), of ts] ts
    by (cases "test_suite_cpu_weight (run_tester ps) ts") (simp add: suite_weight_def)
  have look: "lookup_suite_from_pid cu r (pids i) (suitesPids ps) = Some (f, Some ts)"
    using lookup_loop_eq [OF cu(1) _ ok(2) f, of 0 "length (view r)" "pids i"] first N ts
    by (simp add: lookup_suite_from_pid_def)
  have run: "0 < runningSuites ps" using not_reaped_pos [OF assms(3)] assms(4) ok(3) by simp
  have "0 < pids i" using assms(1) by (simp add: setup_ok_def)
  then have p: "pids i \<noteq> -1" "pids i \<noteq> 0" by linarith+
  let ?sp = "(suitesPids ps)[f := (suitesPids ps ! f)\<lparr>finished := True\<rparr>]"
  let ?text = "''Suite sub process (pid '' @ show_int (pids i) @ '') crashed or exited with (-1) return code.''"
  have sp: "pid (?sp ! f) = pids i" "\<forall>l < f. pid (?sp ! l) \<noteq> pids i" "length ?sp = length (view r)"
    using first f ok(2) by auto
  obtain st1 s1 where h: "handle_sub_process_error cu r (pids i) ?sp (error_text ?text st2) (run_os ps) =
      Some (int (length (pTests (view r ! f))), st1, s1)" "says (error_text ?text st2) st1"
    using error_loop_eq [where i = 0 and k = "length (view r)" and st = "error_text ?text st2" and s = "run_os ps",
        OF cu _ sp(3) f _ sp(1,2)] N
    by (auto simp: handle_sub_process_error_def)
  let ?crash = "wait_result a = Signaled \<or> wait_result a = Exited 255"
  let ?st = "if ?crash then st1 else st2" and ?s = "if ?crash then s1 else run_os ps"
  have "reap_step cu r a ps = Some (Go (ps\<lparr>suitesPids := ?sp,
      runningSuites := runningSuites ps - 1, testsFinished := testsFinished ps + 1,
      suitesCpuWeight := suitesCpuWeight ps - ?w,
      ret := ret ps + outcome_value (view r ! f) (wait_result a), run_tester := ?st, run_os := ?s\<rparr>))"
    using run p look w ok(2) f h(1) assms(5)
    by (cases "wait_result a") (auto simp: reap_step_def)
  moreover have "says st ?st"
    using says_trans [OF s] says_trans [OF s says_trans [OF says_text(1) h(2)]] by simp
  ultimately show ?thesis by (intro exI [of _ ?st] exI [of _ ?s]) simp
qed

lemma reap_ok:
  assumes "setup_ok cu view r st pids" "parallel_ok st (view r) pids ps q" "i < length q"
    "q ! i = Zombie (wait_result a)" "wait_pid a = pids i"
  shows "\<exists>ps'. reap_step cu r a ps = Some (Go ps') \<and>
    parallel_ok st (view r) pids ps' (q[i := Reaped (wait_result a)])"
proof -
  let ?f = "first_with pids i"
  note f = pid_first(3,4) [OF assms(2,3)]
  obtain st' s' where reap: "says st st'" "reap_step cu r a ps = Some (Go
    (ps\<lparr>suitesPids := (suitesPids ps)[?f := (suitesPids ps ! ?f)\<lparr>finished := True\<rparr>],
      runningSuites := runningSuites ps - 1, testsFinished := testsFinished ps + 1,
      suitesCpuWeight := suitesCpuWeight ps - suite_weight st (view r ! ?f),
      ret := ret ps + outcome_value (view r ! ?f) (wait_result a), run_tester := st', run_os := s'\<rparr>))"
    (is "_ = Some (Go ?ps)")
    using reap_step_eq [OF assms refl] by blast
  have "parallel_ok st (view r) pids ?ps (q[i := Reaped (wait_result a)])"
    using assms(2-4) reap(1) f suite_weight_bounds(1) [OF assms(1) f(2)]
    by (auto simp: parallel_ok_def total_update not_reaped_def was_reaped_def counted_weight_def failures_def
        marked_ended_reaped nth_list_update)
  then show ?thesis using reap(2) by blast
qed

lemma turn_ok:
  assumes "setup_ok cu view r st pids" "parallel_ok st (view r) pids ps procs"
    "kernel_turn st (view r) pids a procs procs'"
  shows "\<exists>ps'. run_turn cu r (bc_tester_get_max_parallel_processes st) timeout a ps = Some (Go ps') \<and>
    parallel_ok st (view r) pids ps' procs'"
proof -
  have cu: "bcunit_ok cu view" using assms(1) by (simp add: setup_ok_def)
  let ?q = "after_fork st (view r) pids procs"
  obtain ps1 where ps1: "launch_step cu r (bc_tester_get_max_parallel_processes st) a ps = Some (Go ps1)"
    "parallel_ok st (view r) pids ps1 ?q"
    using launch_ok [OF assms(1,2)] assms(3) by (auto simp: kernel_turn_def)
  obtain ps2 where ps2: "reap_step cu r a ps1 = Some (Go ps2)" "parallel_ok st (view r) pids ps2 procs'"
  proof (cases "\<exists>p \<in> set ?q. zombie p")
    case True
    then show ?thesis
      using assms(3) reap_ok [OF assms(1) ps1(2)] that by (auto simp: kernel_turn_def Let_def)
  next
    case False
    then have "wait_pid a = 0" "procs' = ?q" using assms(3) by (auto simp: kernel_turn_def Let_def)
    then show ?thesis using that ps1(2) by (auto simp: reap_step_def)
  qed
  from timer_step_ok [OF cu ps2(2)] show ?thesis
    using ps1(1) ps2(1) by (auto simp: run_turn_def)
qed

section \<open>All interleavings\<close>

text \<open>
  The states of the run and its processes: processes end at any time and in any order, turns follow one another as
  long as suites are left.
\<close>

inductive parallel_reach ::
    "'r bcunit \<Rightarrow> ('r \<Rightarrow> CU_Suite list) \<Rightarrow> 'r \<Rightarrow> tester \<Rightarrow> (nat \<Rightarrow> int) \<Rightarrow> 64 word \<Rightarrow> parallel \<Rightarrow> proc list \<Rightarrow> bool"
  for cu view r st pids time_start where
  start: "parallel_reach cu view r st pids time_start (parallel_start cu r time_start st s) []"
| ends: "parallel_reach cu view r st pids time_start ps procs \<Longrightarrow> i < length procs \<Longrightarrow> procs ! i = Live \<Longrightarrow>
    parallel_reach cu view r st pids time_start ps (procs[i := Zombie w])"
| turn: "parallel_reach cu view r st pids time_start ps procs \<Longrightarrow>
    kernel_turn st (view r) pids a procs procs' \<Longrightarrow>
    run_turn cu r (bc_tester_get_max_parallel_processes st) (parallel_timeout time_start st) a ps = Some (Go ps') \<Longrightarrow>
    parallel_reach cu view r st pids time_start ps' procs'"

text \<open>The time limit that is filled in does not matter to anything but the clock.\<close>

definition started :: "tester \<Rightarrow> tester" where
  "started st = (if globalTimeout st = 0 then st\<lparr>globalTimeout := 60 * 60\<rparr> else st)"

lemma started_max [simp]:
  "bc_tester_get_max_parallel_processes (started st) = bc_tester_get_max_parallel_processes st"
  "fst (test_suite_cpu_weight (started st) ts) = fst (test_suite_cpu_weight st ts)"
  by (simp_all add: started_def bc_tester_get_max_parallel_processes_def test_suite_cpu_weight_def Let_def)

lemma started_weight [simp]:
  "suite_weight (started st) = suite_weight st" "counted_weight (started st) = counted_weight st"
proof -
  show "suite_weight (started st) = suite_weight st" by (simp add: fun_eq_iff suite_weight_def)
  then show "counted_weight (started st) = counted_weight st" by (simp add: fun_eq_iff counted_weight_def)
qed

lemma started_kernel [simp]:
  "can_launch (started st) = can_launch st" "after_fork (started st) = after_fork st"
  "kernel_turn (started st) = kernel_turn st"
proof -
  show c: "can_launch (started st) = can_launch st" by (simp add: fun_eq_iff can_launch_def)
  show f: "after_fork (started st) = after_fork st" by (simp add: fun_eq_iff after_fork_def c)
  show "kernel_turn (started st) = kernel_turn st" by (simp add: fun_eq_iff kernel_turn_def c f)
qed

lemma started_setup [simp]: "setup_ok cu view r (started st) pids = setup_ok cu view r st pids"
  by (simp add: setup_ok_def)

lemma start_ok:
  assumes "setup_ok cu view r st pids"
  shows "parallel_ok (started st) (view r) pids (parallel_start cu r t st s) []"
  using assms bcunit_ok_positions(1) [of cu view r] started_max(1) [of st]
  by (auto simp: parallel_ok_def parallel_start_def setup_ok_def started_def)

lemma ends_ok:
  assumes "parallel_ok st ss pids ps procs" "i < length procs" "procs ! i = Live"
  shows "parallel_ok st ss pids ps (procs[i := Zombie w])"
  using assms
  by (auto simp: parallel_ok_def total_update not_reaped_def was_reaped_def counted_weight_def failures_def nth_list_update)

lemma reach_ok:
  assumes "setup_ok cu view r st pids" "parallel_reach cu view r st pids t ps procs"
  shows "parallel_ok (started st) (view r) pids ps procs"
  using assms(2)
proof (induction rule: parallel_reach.induct)
  case (start s)
  show ?case by (rule start_ok [OF assms(1)])
next
  case (ends ps procs i w)
  then show ?case by (blast intro: ends_ok)
next
  case (turn ps procs a procs' ps')
  then show ?case
    using turn_ok [of cu view r "started st" pids ps procs a procs' "parallel_timeout t st"] assms(1) by auto
qed

section \<open>A fair kernel\<close>

text \<open>
  A kernel as a function of the turn: the numbers of the processes, which of them end before a turn, and the clock.
\<close>

record environment =
  env_pids :: "nat \<Rightarrow> int"
  env_ends :: "nat \<Rightarrow> (nat \<times> wait_status) list"
  env_clock :: "nat \<Rightarrow> 64 word"

fun end_all :: "(nat \<times> wait_status) list \<Rightarrow> proc list \<Rightarrow> proc list" where
  "end_all [] procs = procs"
| "end_all ((i, w) # es) procs =
     end_all es (if i < length procs \<and> procs ! i = Live then procs[i := Zombie w] else procs)"

definition first_zombie :: "proc list \<Rightarrow> nat option" where
  "first_zombie q = (let i = length (takeWhile (\<lambda>p. \<not> zombie p) q) in if i < length q then Some i else None)"

definition status_of :: "proc \<Rightarrow> wait_status" where
  "status_of p = (case p of Zombie w \<Rightarrow> w | Reaped w \<Rightarrow> w | Live \<Rightarrow> Signaled)"

definition kernel_answers :: "environment \<Rightarrow> nat \<Rightarrow> tester \<Rightarrow> CU_Suite list \<Rightarrow> proc list \<Rightarrow> answers \<times> proc list" where
  "kernel_answers env k st ss procs =
     (let q = after_fork st ss (env_pids env) procs;
          a = \<lparr>fork_pid = env_pids env (length procs), exec_fails = False,
               wait_pid = (case first_zombie q of None \<Rightarrow> 0 | Some i \<Rightarrow> env_pids env i),
               wait_result = (case first_zombie q of None \<Rightarrow> Signaled | Some i \<Rightarrow> status_of (q ! i)),
               now_print = env_clock env k, now = env_clock env k\<rparr>
      in (a, case first_zombie q of None \<Rightarrow> q | Some i \<Rightarrow> q[i := Reaped (status_of (q ! i))]))"

text \<open>The run and its processes after a number of turns.\<close>

fun system ::
    "'r bcunit \<Rightarrow> ('r \<Rightarrow> CU_Suite list) \<Rightarrow> 'r \<Rightarrow> tester \<Rightarrow> environment \<Rightarrow> 64 word \<Rightarrow> os \<Rightarrow> nat \<Rightarrow> parallel \<times> proc list" where
  "system cu view r st env t s 0 = (parallel_start cu r t st s, [])"
| "system cu view r st env t s (Suc k) =
     (let (ps, procs) = system cu view r st env t s k;
          (a, procs') = kernel_answers env k st (view r) (end_all (env_ends env k) procs)
      in case run_turn cu r (bc_tester_get_max_parallel_processes st) (parallel_timeout t st) a ps of
           Some (Go ps') \<Rightarrow> (ps', procs')
         | _ \<Rightarrow> (ps, procs'))"

definition system_answers ::
    "'r bcunit \<Rightarrow> ('r \<Rightarrow> CU_Suite list) \<Rightarrow> 'r \<Rightarrow> tester \<Rightarrow> environment \<Rightarrow> 64 word \<Rightarrow> os \<Rightarrow> nat \<Rightarrow> answers" where
  "system_answers cu view r st env t s k =
     fst (kernel_answers env k st (view r) (end_all (env_ends env k) (snd (system cu view r st env t s k))))"

text \<open>Every process that runs ends at some time.\<close>

definition fair :: "environment \<Rightarrow> nat \<Rightarrow> bool" where
  "fair env n \<longleftrightarrow> (\<forall>i < n. \<forall>k. \<exists>j \<ge> k. \<exists>w. (i, w) \<in> set (env_ends env j))"

lemma end_all_length [simp]: "length (end_all es procs) = length procs"
  by (induction es procs rule: end_all.induct) auto

lemma end_all_reaped: "i < length procs \<Longrightarrow> reaped (end_all es procs ! i) = reaped (procs ! i)"
  by (induction es procs rule: end_all.induct) (auto simp: nth_list_update)

lemma end_all_ended: "i < length procs \<Longrightarrow> procs ! i \<noteq> Live \<Longrightarrow> end_all es procs ! i = procs ! i"
  by (induction es procs rule: end_all.induct) (auto simp: nth_list_update)

lemma end_all_ends:
  "(i, w) \<in> set es \<Longrightarrow> i < length procs \<Longrightarrow> end_all es procs ! i \<noteq> Live"
proof (induction es procs rule: end_all.induct)
  case (2 j v es procs)
  let ?p = "if j < length procs \<and> procs ! j = Live then procs[j := Zombie v] else procs"
  show ?case
  proof (cases "(i, w) \<in> set es")
    case True
    then show ?thesis using "2.IH" "2.prems" by simp
  next
    case False
    then have "?p ! i \<noteq> Live" "i < length ?p" using "2.prems" by auto
    then show ?thesis using end_all_ended [of i ?p es] by simp
  qed
qed simp

lemma end_all_ok: "parallel_ok st ss pids ps procs \<Longrightarrow> parallel_ok st ss pids ps (end_all es procs)"
  by (induction es procs rule: end_all.induct) (simp_all add: ends_ok)

lemma first_zombie_Some:
  assumes "first_zombie q = Some i"
  shows "i < length q \<and> (\<exists>w. q ! i = Zombie w)"
proof -
  have i: "i = length (takeWhile (\<lambda>p. \<not> zombie p) q)" "i < length q"
    using assms by (auto simp: first_zombie_def Let_def split: if_splits)
  then have "zombie (q ! i)" using nth_length_takeWhile [of "\<lambda>p. \<not> zombie p" q] by simp
  then show ?thesis using i(2) by (cases "q ! i") auto
qed

lemma first_zombie_None: "first_zombie q = None \<longleftrightarrow> \<not> (\<exists>p \<in> set q. zombie p)"
proof -
  have "length (takeWhile (\<lambda>p. \<not> zombie p) q) < length q \<longleftrightarrow> (\<exists>p \<in> set q. zombie p)"
    by (induction q) auto
  then show ?thesis by (simp add: first_zombie_def Let_def)
qed

lemma kernel_answers_turn:
  assumes "kernel_answers env k st ss procs = (a, procs')"
  shows "kernel_turn st ss (env_pids env) a procs procs'"
proof (cases "first_zombie (after_fork st ss (env_pids env) procs)")
  case None
  then have "\<not> (\<exists>p \<in> set (after_fork st ss (env_pids env) procs). zombie p)" by (simp add: first_zombie_None)
  then show ?thesis using assms None by (auto simp: kernel_answers_def kernel_turn_def Let_def)
next
  case (Some i)
  then obtain w where w: "i < length (after_fork st ss (env_pids env) procs)" "after_fork st ss (env_pids env) procs ! i = Zombie w"
    using first_zombie_Some by blast
  then have "\<exists>p \<in> set (after_fork st ss (env_pids env) procs). zombie p" by (metis nth_mem zombie.simps(1))
  then show ?thesis using assms Some w by (auto simp: kernel_answers_def kernel_turn_def Let_def status_of_def)
qed

lemma system_ok:
  assumes "setup_ok cu view r st (env_pids env)"
  shows "parallel_ok (started st) (view r) (env_pids env) (fst (system cu view r st env t s k)) (snd (system cu view r st env t s k))"
    (is ?ok)
    and "run_turn cu r (bc_tester_get_max_parallel_processes st) (parallel_timeout t st) (system_answers cu view r st env t s k)
      (fst (system cu view r st env t s k)) = Some (Go (fst (system cu view r st env t s (Suc k))))"
    (is ?turn)
proof -
  have step: "\<exists>ps'. run_turn cu r (bc_tester_get_max_parallel_processes st) (parallel_timeout t st)
        (system_answers cu view r st env t s k) (fst (system cu view r st env t s k)) = Some (Go ps') \<and>
      parallel_ok (started st) (view r) (env_pids env) ps'
        (snd (kernel_answers env k st (view r) (end_all (env_ends env k) (snd (system cu view r st env t s k)))))"
    if "parallel_ok (started st) (view r) (env_pids env) (fst (system cu view r st env t s k)) (snd (system cu view r st env t s k))"
    for k
  proof -
    let ?q = "end_all (env_ends env k) (snd (system cu view r st env t s k))"
    have "kernel_turn (started st) (view r) (env_pids env) (fst (kernel_answers env k st (view r) ?q)) ?q
        (snd (kernel_answers env k st (view r) ?q))"
      using kernel_answers_turn [of env k st "view r" ?q] by (simp add: prod_eq_iff)
    from turn_ok [where view = view and r = r and timeout = "parallel_timeout t st", OF _ end_all_ok [OF that] this]
    show ?thesis
      using assms by (simp add: system_answers_def)
  qed
  have ok: "parallel_ok (started st) (view r) (env_pids env) (fst (system cu view r st env t s k)) (snd (system cu view r st env t s k))" for k
  proof (induction k)
    case 0
    show ?case using start_ok [OF assms] by simp
  next
    case (Suc k)
    from step [OF Suc.IH] show ?case by (auto simp: split_def Let_def system_answers_def)
  qed
  then show ?ok .
  show ?turn using step [OF ok [of k]] by (auto simp: split_def Let_def system_answers_def)
qed

section \<open>Progress\<close>

definition work :: "proc list \<Rightarrow> int" where
  "work procs = int (length procs) + total was_reaped procs"

lemma system_procs:
  "snd (system cu view r st env t s (Suc k)) =
     snd (kernel_answers env k st (view r) (end_all (env_ends env k) (snd (system cu view r st env t s k))))"
  by (auto simp: split_def Let_def split: option.splits outcome.splits)

lemma end_all_total:
  assumes "\<And>i p q. reaped p = reaped q \<Longrightarrow> f i p = f i q"
  shows "total f (end_all es procs) = total f procs"
  unfolding total_def end_all_length
  by (rule sum.cong [OF refl]) (rule assms, rule end_all_reaped, simp)

lemma end_all_counts [simp]:
  "total was_reaped (end_all es procs) = total was_reaped procs" "total not_reaped (end_all es procs) = total not_reaped procs"
  "total (counted_weight st ss pids) (end_all es procs) = total (counted_weight st ss pids) procs"
  by (rule end_all_total, simp add: was_reaped_def not_reaped_def counted_weight_def)+

lemma end_all_work [simp]: "work (end_all es procs) = work procs"
  by (simp add: work_def)

lemma turn_work:
  fixes st ss es procs env k
  defines "q \<equiv> after_fork st ss (env_pids env) (end_all es procs)" and "p \<equiv> snd (kernel_answers env k st ss (end_all es procs))"
  shows "work procs \<le> work p" "can_launch st ss (env_pids env) (end_all es procs) \<Longrightarrow> work procs < work p"
    "first_zombie q \<noteq> None \<Longrightarrow> work procs < work p"
    "total was_reaped procs \<le> total was_reaped p"
    "\<not> can_launch st ss (env_pids env) (end_all es procs) \<Longrightarrow> first_zombie q = None \<Longrightarrow> p = end_all es procs"
proof -
  have q: "work q = work procs + (if can_launch st ss (env_pids env) (end_all es procs) then 1 else 0)"
    "total was_reaped q = total was_reaped procs"
    by (simp_all add: q_def after_fork_def work_def was_reaped_def)
  have p: "work p = work q + (if first_zombie q = None then 0 else 1)"
    "total was_reaped p = total was_reaped q + (if first_zombie q = None then 0 else 1)"
  proof -
    show "total was_reaped p = total was_reaped q + (if first_zombie q = None then 0 else 1)"
    proof (cases "first_zombie q")
      case (Some i)
      then obtain w where "i < length q" "q ! i = Zombie w" using first_zombie_Some by blast
      then show ?thesis
        using Some by (simp add: p_def kernel_answers_def Let_def q_def [symmetric] total_update was_reaped_def)
    qed (simp add: p_def kernel_answers_def Let_def q_def [symmetric])
    moreover have "length p = length q"
      by (simp add: p_def kernel_answers_def Let_def q_def [symmetric] split: option.splits)
    ultimately show "work p = work q + (if first_zombie q = None then 0 else 1)" by (simp add: work_def)
  qed
  show "work procs \<le> work p" "can_launch st ss (env_pids env) (end_all es procs) \<Longrightarrow> work procs < work p"
    "first_zombie q \<noteq> None \<Longrightarrow> work procs < work p" "total was_reaped procs \<le> total was_reaped p"
    using p q by auto
  show "\<not> can_launch st ss (env_pids env) (end_all es procs) \<Longrightarrow> first_zombie q = None \<Longrightarrow> p = end_all es procs"
    by (simp add: p_def q_def kernel_answers_def Let_def after_fork_def)
qed

text \<open>As long as suites are left, something happens: a launch, or the end of a process.\<close>

lemma system_progress:
  assumes "setup_ok cu view r st (env_pids env)" "fair env (length (view r))" "same_weights st (view r) (env_pids env)"
    "total was_reaped (snd (system cu view r st env t s k)) < int (length (view r))"
  shows "\<exists>j \<ge> k. work (snd (system cu view r st env t s k)) < work (snd (system cu view r st env t s (Suc j)))"
proof (rule ccontr)
  let ?P = "\<lambda>j. snd (system cu view r st env t s j)"
  assume "\<not> ?thesis"
  then have no: "work (?P (Suc j)) \<le> work (?P k)" if "k \<le> j" for j using that by (simp add: not_less del: system.simps)
  have mono: "work (?P k) \<le> work (?P j)" if "k \<le> j" for j
    using that
  proof (induction rule: dec_induct)
    case (step n)
    then show ?case
      using turn_work(1) [where ss = "view r" and es = "env_ends env n" and procs = "?P n" and env = env and k = n and st = st]
      unfolding system_procs by linarith
  qed simp
  have still: "\<not> can_launch st (view r) (env_pids env) (end_all (env_ends env j) (?P j)) \<and>
      first_zombie (after_fork st (view r) (env_pids env) (end_all (env_ends env j) (?P j))) = None \<and>
      ?P (Suc j) = end_all (env_ends env j) (?P j)" if "k \<le> j" for j
    using turn_work [where st = st and ss = "view r" and es = "env_ends env j" and procs = "?P j" and env = env and k = j]
      mono [OF that] no [OF that] unfolding system_procs by fastforce
  have same: "length (?P j) = length (?P k) \<and> (\<forall>i < length (?P k). reaped (?P j ! i) = reaped (?P k ! i))"
    if "k \<le> j" for j
    using that by (induction rule: dec_induct) (use still end_all_reaped in \<open>auto simp del: system.simps\<close>)
  show False
  proof (cases "\<exists>i < length (?P k). \<not> reaped (?P k ! i)")
    case True
    then obtain i where i: "i < length (?P k)" "\<not> reaped (?P k ! i)" by blast
    have "length (?P k) \<le> length (view r)" using system_ok(1) [OF assms(1), of t s k] by (simp add: parallel_ok_def)
    then obtain j w where j: "k \<le> j" "(i, w) \<in> set (env_ends env j)"
      using assms(2) i(1) unfolding fair_def by (meson order_less_le_trans)
    let ?q = "end_all (env_ends env j) (?P j)"
    have l: "i < length (?P j)" "\<not> reaped (?P j ! i)" using same [OF j(1)] i by auto
    then have "?q ! i \<noteq> Live" "\<not> reaped (?q ! i)" using end_all_ends [OF j(2)] end_all_reaped by auto
    then have "zombie (?q ! i)" by (cases "?q ! i") auto
    moreover have "?q ! i \<in> set ?q" using l(1) by simp
    ultimately show False using still [OF j(1)] by (auto simp: first_zombie_None after_fork_def)
  next
    case False
    let ?q = "end_all (env_ends env k) (?P k)"
    have z: "total f (?P k) = 0" if "\<And>i p. reaped p \<Longrightarrow> f i p = 0" for f
      using False that by (auto simp: total_def intro!: sum.neutral)
    have "length (?P k) \<le> length (view r)" using system_ok(1) [OF assms(1), of t s k] by (simp add: parallel_ok_def)
    from counted_running [OF assms(3) this] have "total (counted_weight st (view r) (env_pids env)) ?q = 0"
      using z [of "running_weight st (view r)"] by (simp add: running_weight_def)
    moreover have "total not_reaped (?P k) = 0" using z by (simp add: not_reaped_def)
    then have "length ?q < length (view r)" using reaped_sum [of "?P k"] assms(4) by simp
    ultimately have "can_launch st (view r) (env_pids env) ?q"
      using suite_weight_bounds(2) [OF assms(1)] by (simp add: can_launch_def)
    then show False using still [of k] by simp
  qed
qed

lemma system_finishes:
  assumes "setup_ok cu view r st (env_pids env)" "fair env (length (view r))" "same_weights st (view r) (env_pids env)"
  shows "\<exists>j \<ge> k. int (length (view r)) \<le> total was_reaped (snd (system cu view r st env t s j))"
proof (induction "nat (2 * int (length (view r)) - work (snd (system cu view r st env t s k)))" arbitrary: k rule: less_induct)
  case less
  let ?P = "\<lambda>j. snd (system cu view r st env t s j)"
  show ?case
  proof (cases "total was_reaped (?P k) < int (length (view r))")
    case True
    obtain j where j: "k \<le> j" "work (?P k) < work (?P (Suc j))" using system_progress [OF assms True] by blast
    have "length (?P k) \<le> length (view r)" using system_ok(1) [OF assms(1), of t s k] by (simp add: parallel_ok_def)
    then have "work (?P k) < 2 * int (length (view r))" using True by (simp add: work_def)
    then have "nat (2 * int (length (view r)) - work (?P (Suc j))) < nat (2 * int (length (view r)) - work (?P k))"
      using j(2) by linarith
    from less [OF this] obtain j' where "Suc j \<le> j'" "int (length (view r)) \<le> total was_reaped (?P j')" by blast
    then show ?thesis using j(1) by (intro exI [of _ j']) simp
  next
    case False
    then show ?thesis by (intro exI [of _ k]) simp
  qed
qed

section \<open>The end of the run\<close>

lemma read_suite_result_total: "\<exists>x st' s'. read_suite_result n results st s = Some (x, st', s') \<and> says st st'"
proof (cases "files s (result_file n)")
  case None
  then show ?thesis by (simp add: read_suite_result_def open_missing)
next
  case (Some c)
  show ?thesis
    by (cases "c = []") (simp_all add: read_suite_result_def read_whole [OF Some] close_source Let_def)
qed

lemma results_loop_total:
  assumes "bcunit_ok cu view" "i + k = length (view r)"
  shows "\<exists>x st' s'. results_loop cu r k i results st s = Some (x, st', s') \<and> says st st'"
  using assms(2)
proof (induction k arbitrary: i results st s)
  case (Suc k)
  then have i: "i < length (view r)" by simp
  obtain x st1 s1 where 1: "read_suite_result (pName (view r ! i)) results st s = Some (x, st1, s1)" "says st st1"
    using read_suite_result_total by blast
  obtain y st2 s2 where "results_loop cu r k (i + 1) x st1 s1 = Some (y, st2, s2)" "says st1 st2"
    using Suc.IH [of "i + 1"] Suc.prems by (metis add.commute add.left_commute plus_1_eq_Suc)
  then show ?case using 1 says_trans [OF 1(2)] bcunit_ok_positions(2) [OF assms(1) i] by auto
qed simp

lemma merge_results_total:
  assumes "bcunit_ok cu view"
  shows "\<exists>st' s'. merge_and_print_results_files cu r st s = Some (st', s') \<and> says st st'"
  using results_loop_total [OF assms, of 0 "length (view r)" r None st s] says_trans [OF _ says_text(2)]
  by (auto simp: merge_and_print_results_files_def bcunit_ok_positions(1) [OF assms] split: option.splits)

text \<open>The result of a run: the comparison with the threshold, or -1 when it took too long.\<close>

lemma parallel_end_value:
  assumes "bcunit_ok cu view" "says st (run_tester ps)" "run_in_parallel st" "bc_current_suite_name st = None"
    "0 \<le> ret ps"
  shows "\<exists>st' s'. parallel_end cu r t timeout rr ps = Some (
    if elapsed ps \<ge> timeout then -1 else if ret ps > max_failed_tests_threshold st then 1 else 0, st', s') \<and>
    says st st'"
proof (cases "elapsed ps \<ge> timeout")
  case True
  then show ?thesis
    using says_trans [OF says_trans [OF assms(2) says_text(1)] says_text(2)] by (simp add: parallel_end_def Let_def)
next
  case False
  let ?st = "info_text ''All suites ended.'' (run_tester ps)"
  have s: "says st ?st" using says_trans [OF assms(2) says_text(2)] .
  obtain st1 s1 where 1: "merge_and_print_results_files cu r ?st (run_os ps) = Some (st1, s1)" "says ?st st1"
    using merge_results_total [OF assms(1)] by blast
  have e: "run_in_parallel ?st" "bc_current_suite_name ?st = None" "max_failed_tests_threshold st1 = max_failed_tests_threshold st"
    using s says_trans [OF s 1(2)] assms(3,4) by (auto simp: says_def)
  have "ret ps \<noteq> -1" using assms(5) by simp
  then show ?thesis
    using False e 1(1) says_trans [OF says_trans [OF s 1(2)] says_text(2)] by (simp add: parallel_end_def all_complete_message_handler_def Let_def)
qed

text \<open>The loop follows the system up to the first turn after which all suites are reaped.\<close>

lemma parallel_loop_system:
  assumes "setup_ok cu view r st (env_pids env)"
    "\<And>j. 0 < j \<Longrightarrow> j \<le> m \<Longrightarrow> testsFinished (fst (system cu view r st env t s j)) < int (length (view r))"
    "int (length (view r)) \<le> testsFinished (fst (system cu view r st env t s (Suc m)))" "k \<le> m"
  shows "parallel_loop cu r (bc_tester_get_max_parallel_processes st) t (parallel_timeout t st) rr
      (system_answers cu view r st env t s) k (fst (system cu view r st env t s k)) =
    parallel_end cu r t (parallel_timeout t st) rr (fst (system cu view r st env t s (Suc m)))"
  using assms(4)
proof (induction rule: inc_induct)
  case base
  show ?case
    using system_ok(2) [OF assms(1), where t = t and s = s and k = m] assms(3) bcunit_ok_positions(1) [of cu view r] assms(1)
    by (subst parallel_loop.simps) (simp add: setup_ok_def del: system.simps)
next
  case (step n)
  have "testsFinished (fst (system cu view r st env t s (Suc n))) < int (length (view r))"
    using assms(2) step.hyps by (simp del: system.simps)
  then show ?case
    using system_ok(2) [OF assms(1), where t = t and s = s and k = n] step.IH bcunit_ok_positions(1) [of cu view r] assms(1)
    by (subst parallel_loop.simps) (simp add: setup_ok_def del: system.simps)
qed

lemma elapsed_turn:
  assumes "run_turn cu r m timeout a ps = Some (Go ps')"
  shows "elapsed ps' = now a"
  using assms by (auto simp: run_turn_def timer_step_def split: bind_splits outcome.splits if_splits)

lemma outcome_nonneg: "0 \<le> outcome_value suite w"
  by (cases w) auto

lemma failures_nonneg: "0 \<le> total (failures ss pids) procs"
  unfolding total_def by (rule sum_nonneg) (simp add: failures_def outcome_nonneg split: proc.splits)

lemma all_reapedE:
  assumes "\<forall>p \<in> set procs. reaped p"
  obtains ws where "procs = List.map Reaped ws"
proof -
  have "procs = List.map Reaped (List.map status_of procs)"
    using assms
  proof (induction procs)
    case (Cons p procs)
    then show ?case by (cases p) (auto simp: status_of_def)
  qed simp
  then show ?thesis using that by blast
qed

lemma failures_reaped:
  "total (failures ss pids) (List.map Reaped ws) = (\<Sum>i < length ws. outcome_value (ss ! first_with pids i) (ws ! i))"
  by (auto simp: total_def failures_def intro: sum.cong)

lemma total_not_reaped: "total not_reaped procs = int (card {i. i < length procs \<and> \<not> reaped (procs ! i)})"
proof -
  have "total not_reaped procs = (\<Sum>i \<in> {..<length procs}. if i \<in> {i. \<not> reaped (procs ! i)} then 1 else 0)"
    unfolding total_def by (rule sum.cong) (simp_all add: not_reaped_def)
  also have "\<dots> = (\<Sum>i \<in> {..<length procs} \<inter> {i. \<not> reaped (procs ! i)}. 1)"
    by (rule sum.inter_restrict [symmetric]) simp
  also have "{..<length procs} \<inter> {i. \<not> reaped (procs ! i)} = {i. i < length procs \<and> \<not> reaped (procs ! i)}" by auto
  finally show ?thesis by simp
qed

lemma total_running_weight:
  "total (running_weight st ss) procs = (\<Sum>i | i < length procs \<and> \<not> reaped (procs ! i). suite_weight st (ss ! i))"
proof -
  have "total (running_weight st ss) procs =
      (\<Sum>i \<in> {..<length procs}. if i \<in> {i. \<not> reaped (procs ! i)} then suite_weight st (ss ! i) else 0)"
    unfolding total_def by (rule sum.cong) (simp_all add: running_weight_def)
  also have "\<dots> = (\<Sum>i \<in> {..<length procs} \<inter> {i. \<not> reaped (procs ! i)}. suite_weight st (ss ! i))"
    by (rule sum.inter_restrict [symmetric]) simp
  also have "{..<length procs} \<inter> {i. \<not> reaped (procs ! i)} = {i. i < length procs \<and> \<not> reaped (procs ! i)}" by auto
  finally show ?thesis .
qed

section \<open>The whole run\<close>

lemma parallel_run_value:
  assumes "setup_ok cu view r st (env_pids env)" "fair env (length (view r))" "same_weights st (view r) (env_pids env)"
    "run_in_parallel st" "bc_current_suite_name st = None"
  shows "\<exists>k ws st' s'. length ws = length (view r) \<and>
    snd (system cu view r st env t s (Suc k)) = List.map Reaped ws \<and>
    bc_tester_run_parallel cu r rr t (system_answers cu view r st env t s) st s =
      Some (if env_clock env k \<ge> parallel_timeout t st then -1
            else if (\<Sum>i < length ws. outcome_value (view r ! first_with (env_pids env) i) (ws ! i)) > max_failed_tests_threshold st then 1 else 0,
        st', s') \<and> says (started st) st'"
proof -
  let ?S = "system cu view r st env t s"
  let ?N = "int (length (view r))"
  have cu: "bcunit_ok cu view" using assms(1) by (simp add: setup_ok_def)
  note ok = system_ok(1) [OF assms(1), where t = t and s = s]
  have fin: "testsFinished (fst (?S j)) = total was_reaped (snd (?S j))" for j using ok [of j] by (simp add: parallel_ok_def)
  obtain j where j: "1 \<le> j" "?N \<le> testsFinished (fst (?S j))" using system_finishes [OF assms(1,2,3), of 1 t s] fin by metis
  let ?k = "LEAST m. ?N \<le> testsFinished (fst (?S (Suc m)))"
  have k: "?N \<le> testsFinished (fst (?S (Suc ?k)))"
    by (rule LeastI [of _ "j - 1"]) (use j in \<open>simp del: system.simps\<close>)
  have before: "testsFinished (fst (?S i)) < ?N" if i: "0 < i" "i \<le> ?k" for i
  proof -
    obtain m where m: "i = Suc m" using i(1) by (cases i) auto
    then have "m < ?k" using i(2) by simp
    from not_less_Least [OF this] show ?thesis by (simp add: m not_le del: system.simps)
  qed
  have run: "bc_tester_run_parallel cu r rr t (system_answers cu view r st env t s) st s =
      parallel_end cu r t (parallel_timeout t st) rr (fst (?S (Suc ?k)))"
    using parallel_loop_system [OF assms(1) before k, where k = 0 and rr = rr]
    by (simp add: bc_tester_run_parallel_def system.simps(1) del: system.simps(2))
  note okk = ok [of "Suc ?k"]
  let ?procs = "snd (?S (Suc ?k))"
  have nn: "0 \<le> total not_reaped ?procs" unfolding total_not_reaped by simp
  have bound: "length ?procs \<le> length (view r)" using okk by (simp add: parallel_ok_def del: system.simps)
  have len: "length ?procs = length (view r)" "total not_reaped ?procs = 0"
    using bound nn k reaped_sum [of ?procs] unfolding fin by linarith+
  then obtain ws where ws: "?procs = List.map Reaped ws" using all_reaped all_reapedE by metis
  have el: "elapsed (fst (?S (Suc ?k))) = env_clock env ?k"
    using elapsed_turn [OF system_ok(2) [OF assms(1)], where t1 = t and s1 = s]
    by (auto simp: system_answers_def kernel_answers_def Let_def simp del: system.simps)
  let ?st = "started st"
  have st: "run_in_parallel ?st" "bc_current_suite_name ?st = None"
    "max_failed_tests_threshold ?st = max_failed_tests_threshold st"
    using assms(4,5) by (simp_all add: started_def)
  have ps: "says ?st (run_tester (fst (?S (Suc ?k))))" and sum: "ret (fst (?S (Suc ?k))) = total (failures (view r) (env_pids env)) ?procs"
    using okk by (simp_all add: parallel_ok_def del: system.simps)
  have "0 \<le> ret (fst (?S (Suc ?k)))" unfolding sum by (rule failures_nonneg)
  from parallel_end_value [OF cu ps st(1,2) this, where t = t and timeout = "parallel_timeout t st" and rr = rr]
  obtain st' s' where "parallel_end cu r t (parallel_timeout t st) rr (fst (?S (Suc ?k))) =
      Some (if env_clock env ?k \<ge> parallel_timeout t st then -1
        else if (\<Sum>i < length ws. outcome_value (view r ! first_with (env_pids env) i) (ws ! i)) > max_failed_tests_threshold st then 1 else 0, st', s')"
      "says ?st st'"
    unfolding el sum ws failures_reaped st(3) by blast
  moreover have "length ws = length (view r)" using len(1) unfolding ws by simp
  ultimately show ?thesis using run ws by (intro exI [of _ ?k] exI [of _ ws] exI [of _ st'] exI [of _ s']) simp
qed

section \<open>A run that is stuck\<close>

text \<open>
  Nothing is running, suites are left, and the next one does not fit: its weight and what the counter holds are more than
  the maximum.
\<close>

definition stalled :: "tester \<Rightarrow> CU_Suite list \<Rightarrow> nat \<Rightarrow> int \<Rightarrow> parallel \<Rightarrow> bool" where
  "stalled st ss n f ps \<longleftrightarrow> says st (run_tester ps) \<and> n < length ss \<and> pUserSuite (ss ! n) \<noteq> None \<and>
     f < int (length ss) \<and> nextSuite ps = n \<and> runningSuites ps = 0 \<and> testsFinished ps = f \<and>
     length (suitesPids ps) = length ss \<and>
     bc_tester_get_max_parallel_processes st < suitesCpuWeight ps + suite_weight st (ss ! n)"

lemma stalled_turn:
  assumes "bcunit_ok cu view" "stalled st (view r) n f ps"
  shows "\<exists>ps'. run_turn cu r (bc_tester_get_max_parallel_processes st) timeout a ps = Some (Go ps') \<and>
    stalled st (view r) n f ps'"
proof -
  have i: "says st (run_tester ps)" "nextSuite ps = n" "runningSuites ps = 0" "n < length (view r)"
    "length (suitesPids ps) = length (view r)"
    "bc_tester_get_max_parallel_processes st < suitesCpuWeight ps + suite_weight st (view r ! n)"
    using assms(2) by (simp_all add: stalled_def)
  obtain ts where ts: "pUserSuite (view r ! n) = Some ts" using assms(2) by (auto simp: stalled_def)
  obtain st1 where w: "test_suite_cpu_weight (run_tester ps) ts = (suite_weight st (view r ! n), st1)" "says st st1"
    using weight_says [OF i(1), of ts] ts
    by (cases "test_suite_cpu_weight (run_tester ps) ts") (simp add: suite_weight_def)
  let ?ps = "ps\<lparr>run_tester := st1\<rparr>"
  have 1: "launch_step cu r (bc_tester_get_max_parallel_processes st) a ps = Some (Go ?ps)"
    using w i ts bcunit_ok_positions(2) [OF assms(1) i(4)] bcunit_ok_positions(1) [OF assms(1), of r]
    by (simp add: launch_step_def)
  obtain st2 where st2: "unfinished_loop cu r (suitesPids ps) (uiNumberOfSuites cu r) 0 st1 = Some st2" "says st1 st2"
    using unfinished_loop_says [OF assms(1) _ i(5), of 0 "length (view r)"] bcunit_ok_positions(1) [OF assms(1), of r] by auto
  show ?thesis
    using 1 st2 i w(2) assms(2) says_trans [OF w(2)] says_trans [OF says_trans [OF w(2) st2(2)]]
    by (auto simp: run_turn_def reap_step_def timer_step_def stalled_def)
qed

text \<open>What a number of turns of the loop end with, from the turn at a position on.\<close>

fun turns_from ::
    "'r bcunit \<Rightarrow> 'r \<Rightarrow> int \<Rightarrow> 64 word \<Rightarrow> (nat \<Rightarrow> answers) \<Rightarrow> nat \<Rightarrow> nat \<Rightarrow> parallel \<Rightarrow> outcome option" where
  "turns_from cu r m timeout turns k 0 ps = Some (Go ps)"
| "turns_from cu r m timeout turns k (Suc n) ps =
     (case run_turn cu r m timeout (turns k) ps of
        Some (Go ps) \<Rightarrow> turns_from cu r m timeout turns (k + 1) n ps
      | x \<Rightarrow> x)"

lemma stalled_turns:
  assumes "bcunit_ok cu view" "stalled st (view r) n f ps"
  shows "\<exists>ps'. turns_from cu r (bc_tester_get_max_parallel_processes st) timeout turns k j ps = Some (Go ps') \<and>
    stalled st (view r) n f ps'"
  using assms(2)
proof (induction j arbitrary: k ps)
  case (Suc j)
  obtain ps1 where ps1: "run_turn cu r (bc_tester_get_max_parallel_processes st) timeout (turns k) ps = Some (Go ps1)"
    "stalled st (view r) n f ps1"
    using stalled_turn [OF assms(1) Suc.prems] by blast
  then show ?case using Suc.IH [OF ps1(2)] by simp
qed simp

lemma stalled_loop:
  assumes "bcunit_ok cu view" "stalled st (view r) n f ps"
  shows "parallel_loop cu r (bc_tester_get_max_parallel_processes st) t timeout rr turns k ps = None"
proof (rule ccontr)
  let ?m = "bc_tester_get_max_parallel_processes st"
  assume "parallel_loop cu r ?m t timeout rr turns k ps \<noteq> None"
  then obtain y where y: "parallel_loop cu r ?m t timeout rr turns k ps = Some y" by blast
  have "cu' = cu \<and> r' = r \<and> m' = ?m \<and> stalled st (view r) n f ps' \<longrightarrow> False"
    if "parallel_loop cu' r' m' t' to' rr' turns' k' ps' = Some y'" for cu' r' m' t' to' rr' turns' k' ps' y'
  proof (rule parallel_loop.raw_induct [OF _ that, where P = "\<lambda>c x m _ _ _ _ _ p _.
      c = cu \<and> x = r \<and> m = ?m \<and> stalled st (view r) n f p \<longrightarrow> False"], intro impI)
    fix loop c x m t to rr turns k ps y
    assume IH: "\<And>c x m t to rr turns k ps y. loop c x m t to rr turns k ps = Some y \<Longrightarrow>
        c = cu \<and> x = r \<and> m = ?m \<and> stalled st (view r) n f ps \<longrightarrow> False"
      and eq: "Option.bind (run_turn c x m to (turns k) ps) (\<lambda>z. case z of
          Go ps \<Rightarrow> if testsFinished ps < int (uiNumberOfSuites c x) then loop c x m t to rr turns (k + 1) ps
            else parallel_end c x t to rr ps
        | Returned v st s \<Rightarrow> Some (v, st, s) | Execs argv st s \<Rightarrow> None) = Some y"
      and p: "c = cu \<and> x = r \<and> m = ?m \<and> stalled st (view r) n f ps"
    obtain ps1 where ps1: "run_turn c x m to (turns k) ps = Some (Go ps1)" "stalled st (view r) n f ps1"
      using stalled_turn [OF assms(1), of st r n f ps to "turns k"] p by blast
    then have "testsFinished ps1 < int (uiNumberOfSuites c x)"
      using bcunit_ok_positions(1) [OF assms(1), of r] p by (simp add: stalled_def)
    then have "loop c x m t to rr turns (k + 1) ps1 = Some y" using eq ps1(1) by simp
    from IH [OF this] show False using p ps1(2) by blast
  qed
  then show False using assms(2) y by blast
qed

lemma reach_turn:
  assumes "setup_ok cu view r st pids" "parallel_reach cu view r st pids t ps procs" "kernel_turn st (view r) pids a procs procs'"
  shows "\<exists>ps'. parallel_reach cu view r st pids t ps' procs'"
proof -
  obtain ps' where "run_turn cu r (bc_tester_get_max_parallel_processes st) (parallel_timeout t st) a ps = Some (Go ps')"
    using turn_ok [of cu view r "started st" pids ps procs a procs' "parallel_timeout t st"] reach_ok [OF assms(1,2)] assms(1,3)
    by auto
  from parallel_reach.turn [OF assms(2,3) this] show ?thesis by blast
qed

text \<open>A state is reached by its processes alone: launches, ends and waits in any order the kernel allows.\<close>

lemma reach_launch:
  assumes "setup_ok cu view r st pids" "\<exists>ps. parallel_reach cu view r st pids t ps procs"
    "can_launch st (view r) pids procs" "\<not> (\<exists>p \<in> set procs. zombie p)"
  shows "\<exists>ps. parallel_reach cu view r st pids t ps (procs @ [Live])"
proof -
  let ?a = "\<lparr>fork_pid = pids (length procs), exec_fails = False, wait_pid = 0, wait_result = Signaled, now_print = 0, now = 0\<rparr>"
  have "kernel_turn st (view r) pids ?a procs (procs @ [Live])"
    using assms(3,4) by (auto simp: kernel_turn_def after_fork_def Let_def)
  then show ?thesis using reach_turn [OF assms(1)] assms(2) by blast
qed

lemma reach_end:
  assumes "setup_ok cu view r st pids" "\<exists>ps. parallel_reach cu view r st pids t ps (procs @ [Live])"
    "\<not> can_launch st (view r) pids (procs @ [Live])" "\<not> (\<exists>p \<in> set procs. zombie p)"
  shows "\<exists>ps. parallel_reach cu view r st pids t ps (procs @ [Reaped w])"
proof -
  let ?a = "\<lparr>fork_pid = 0, exec_fails = False, wait_pid = pids (length procs), wait_result = w, now_print = 0, now = 0\<rparr>"
  obtain ps where ps: "parallel_reach cu view r st pids t ps (procs @ [Live])" using assms(2) by blast
  from parallel_reach.ends [OF ps, of "length procs" w]
  have z: "parallel_reach cu view r st pids t ps (procs @ [Zombie w])" by (simp add: list_update_append)
  have "counted_weight st (view r) pids (length procs) (Zombie w) = counted_weight st (view r) pids (length procs) Live"
    by (simp add: counted_weight_def)
  then have "\<not> can_launch st (view r) pids (procs @ [Zombie w])" using assms(3) by (simp add: can_launch_def)
  then have "kernel_turn st (view r) pids ?a (procs @ [Zombie w]) (procs @ [Reaped w])"
    by (auto simp: kernel_turn_def after_fork_def Let_def nth_append intro!: exI [of _ "length procs"])
  then show ?thesis using reach_turn [OF assms(1) z] by blast
qed

section \<open>Properties\<close>

definition demo_parallel :: "CU_Suite list option \<times> int" where
  "demo_parallel = (Some [(demo_entry ''Port'' [''bytes'', ''time''])\<lparr>pUserSuite := Some (demo_suite ''Port'' 4 [])\<rparr>,
     (demo_entry ''Vfs'' [''read''])\<lparr>pUserSuite := Some (demo_suite ''Vfs'' 2 [])\<rparr>], 0)"

definition demo_runner :: tester where
  "demo_runner = initial_tester\<lparr>run_in_parallel := True\<rparr>"

text \<open>The first suite crashes, the second one has a failure.\<close>

definition demo_kernel :: environment where
  "demo_kernel = \<lparr>env_pids = (\<lambda>i. int i + 10), env_ends = (\<lambda>_. [(0, Signaled), (1, Exited 1)]), env_clock = (\<lambda>_. 5)\<rparr>"

lemma demo_parallel_view:
  "length (list_suites demo_parallel) = 2" "list_suites demo_parallel \<noteq> []"
  by (simp_all add: demo_parallel_def list_suites_def)

lemma demo_setup:
  "setup_ok list_bcunit list_suites demo_parallel demo_runner (env_pids demo_kernel)"
proof -
  have "inj (\<lambda>i. int i + 10)" by (simp add: inj_def)
  then show ?thesis
    using list_bcunit_ok
    by (simp add: setup_ok_def demo_parallel_def demo_runner_def demo_kernel_def list_suites_def demo_entry_def demo_suite_def
        initial_tester_def bc_tester_get_max_parallel_processes_def)
qed


text \<open>The processes of the example after the first one crashed and the second one was started.\<close>

lemma demo_reached:
  "\<exists>ps. parallel_reach list_bcunit list_suites demo_parallel demo_runner (env_pids demo_kernel) 5 ps [Reaped Signaled, Live]"
proof -
  note ev = demo_parallel_def demo_runner_def list_suites_def demo_entry_def demo_suite_def demo_kernel_def can_launch_def
    initial_tester_def bc_tester_get_max_parallel_processes_def suite_weight_def test_suite_cpu_weight_def
    counted_weight_def total_def first_with_inj inj_def
  have c: "can_launch demo_runner (list_suites demo_parallel) (env_pids demo_kernel) []"
    "\<not> can_launch demo_runner (list_suites demo_parallel) (env_pids demo_kernel) [Live]"
    "can_launch demo_runner (list_suites demo_parallel) (env_pids demo_kernel) [Reaped Signaled]"
    by (simp_all add: ev)
  have 0: "\<exists>ps. parallel_reach list_bcunit list_suites demo_parallel demo_runner (env_pids demo_kernel) 5 ps []"
    using parallel_reach.start [of list_bcunit list_suites demo_parallel demo_runner "env_pids demo_kernel" 5 "files_os []"] by blast
  note 1 = reach_launch [OF demo_setup 0 c(1), simplified]
  note 2 = reach_end [OF demo_setup, where procs = "[]" and w = Signaled, simplified, OF 1 c(2)]
  show ?thesis using reach_launch [OF demo_setup 2 c(3)] by simp
qed

text \<open>
  C12: The invariant of the parallel run, over every interleaving of turns of the loop with processes that end, for
  any numbers the kernel gives to the processes, a number that was waited for being given again or not: the suites
  started so far are the first ones, once each; the counters are the numbers of suites running and finished; an entry
  of the table has the number of its process and tells whether a process was waited for that the parent takes for this
  entry, the first one with the number; and no turn fails: whatever the kernel answers, the turn ends with the next one.
  When no two suites of different weights get the same number, the weights of the processes not waited for are what the
  counter of weights holds, and at most the number of parallel processes.  When all numbers are different, an entry
  tells whether its own process was waited for.
\<close>

theorem parallel_within_limits:
  assumes "setup_ok cu view r st pids" "parallel_reach cu view r st pids t ps procs"
  shows "nextSuite ps = length procs \<and> length procs \<le> length (view r) \<and>
    runningSuites ps = int (card {i. i < length procs \<and> \<not> reaped (procs ! i)}) \<and>
    runningSuites ps + testsFinished ps = int (length procs) \<and>
    (\<forall>i < length procs. suitesPids ps ! i = \<lparr>pid = pids i, finished = marked_ended pids procs i\<rparr>) \<and>
    suitesCpuWeight ps \<le> bc_tester_get_max_parallel_processes st \<and>
    (same_weights st (view r) pids \<longrightarrow>
       (\<Sum>i | i < length procs \<and> \<not> reaped (procs ! i). suite_weight st (view r ! i)) = suitesCpuWeight ps) \<and>
    (inj pids \<longrightarrow> (\<forall>i < length procs. finished (suitesPids ps ! i) = reaped (procs ! i))) \<and>
    (\<forall>a procs'. kernel_turn st (view r) pids a procs procs' \<longrightarrow>
       (\<exists>ps'. run_turn cu r (bc_tester_get_max_parallel_processes st) (parallel_timeout t st) a ps = Some (Go ps')))"
proof -
  note ok = reach_ok [OF assms]
  then have l: "length procs \<le> length (view r)" by (simp add: parallel_ok_def)
  have "\<exists>ps'. run_turn cu r (bc_tester_get_max_parallel_processes st) (parallel_timeout t st) a ps = Some (Go ps')"
    if "kernel_turn st (view r) pids a procs procs'" for a procs'
    using turn_ok [of cu view r "started st" pids ps procs a procs' "parallel_timeout t st"] ok assms(1) that by auto
  moreover have "(\<Sum>i | i < length procs \<and> \<not> reaped (procs ! i). suite_weight st (view r ! i)) = suitesCpuWeight ps"
    if "same_weights st (view r) pids"
    using ok counted_running [OF that l] by (simp add: parallel_ok_def total_running_weight)
  moreover have "\<forall>i < length procs. suitesPids ps ! i = \<lparr>pid = pids i, finished = marked_ended pids procs i\<rparr>"
    using ok l by (simp add: parallel_ok_def)
  moreover have "nextSuite ps = length procs" "runningSuites ps = total not_reaped procs"
    "testsFinished ps = total was_reaped procs" "suitesCpuWeight ps \<le> bc_tester_get_max_parallel_processes st"
    using ok by (simp_all add: parallel_ok_def)
  ultimately show ?thesis
    using l reaped_sum [of procs] marked_ended_inj [of pids _ procs] by (simp add: total_not_reaped)
qed

theorem parallel_within_limits_witness:
  "\<exists>ps. parallel_reach list_bcunit list_suites demo_parallel demo_runner (env_pids demo_kernel) 5 ps [Reaped Signaled, Live] \<and>
    nextSuite ps = 2 \<and> runningSuites ps = 1 \<and> testsFinished ps = 1 \<and> suitesCpuWeight ps = 1 \<and>
    suitesPids ps ! 0 = \<lparr>pid = 10, finished = True\<rparr> \<and> suitesPids ps ! 1 = \<lparr>pid = 11, finished = False\<rparr>"
proof -
  obtain ps where r: "parallel_reach list_bcunit list_suites demo_parallel demo_runner (env_pids demo_kernel) 5 ps
      [Reaped Signaled, Live]"
    using demo_reached by blast
  let ?procs = "[Reaped Signaled, Live]"
  have s: "{i. i < length ?procs \<and> \<not> reaped (?procs ! i)} = {1}" by (auto simp: less_Suc_eq nth_Cons')
  have i: "inj (env_pids demo_kernel)" by (simp add: demo_kernel_def inj_def)
  have w: "suite_weight demo_runner (list_suites demo_parallel ! 1) = 1"
    by (simp add: demo_parallel_def demo_runner_def list_suites_def demo_entry_def demo_suite_def initial_tester_def
        bc_tester_get_max_parallel_processes_def suite_weight_def test_suite_cpu_weight_def)
  have m: "marked_ended (env_pids demo_kernel) ?procs 0" "\<not> marked_ended (env_pids demo_kernel) ?procs 1"
    by (simp_all add: marked_ended_inj [OF i])
  show ?thesis
    using parallel_within_limits [OF demo_setup r] same_weights_inj [OF i, of demo_runner "list_suites demo_parallel"] r m
    unfolding s by (intro exI [of _ ps]) (simp add: w [unfolded One_nat_def] All_less_Suc demo_kernel_def)
qed

text \<open>
  The parallel run returns, if no two suites of different weights get the same number, in whatever order the processes end and whatever the
  clock says, as long as every process ends at some time.  There is a turn after which every suite has been waited for,
  each once; the result is -1 when the time limit has passed by then, and otherwise tells whether the failures of all
  suites together, a crashed suite counting with all tests of the first suite with its number, are more than the threshold.
\<close>

theorem parallel_run_returns:
  assumes "setup_ok cu view r st (env_pids env)" "fair env (length (view r))" "same_weights st (view r) (env_pids env)"
    "run_in_parallel st" "bc_current_suite_name st = None"
  shows "\<exists>k ws st' s'. length ws = length (view r) \<and>
    snd (system cu view r st env t s (Suc k)) = List.map Reaped ws \<and>
    bc_tester_run_parallel cu r rr t (system_answers cu view r st env t s) st s =
      Some (if env_clock env k \<ge> parallel_timeout t st then -1
            else if (\<Sum>i < length ws. outcome_value (view r ! first_with (env_pids env) i) (ws ! i)) > max_failed_tests_threshold st then 1 else 0,
        st', s')"
  using parallel_run_value [OF assms, of t s rr] by blast

theorem parallel_run_returns_witness:
  "\<exists>k ws st' s'. length ws = 2 \<and>
    snd (system list_bcunit list_suites demo_parallel demo_runner demo_kernel 5 (files_os []) (Suc k)) = List.map Reaped ws \<and>
    bc_tester_run_parallel list_bcunit demo_parallel [] 5
      (system_answers list_bcunit list_suites demo_parallel demo_runner demo_kernel 5 (files_os [])) demo_runner (files_os []) =
      Some (if 0 < (\<Sum>i < length ws. outcome_value (list_suites demo_parallel ! i) (ws ! i)) then 1 else 0, st', s')"
proof -
  have f: "fair demo_kernel (length (list_suites demo_parallel))"
    by (auto simp: fair_def demo_kernel_def demo_parallel_view(1) less_2_cases_iff)
  have i: "inj (env_pids demo_kernel)" by (simp add: demo_kernel_def inj_def)
  have r: "run_in_parallel demo_runner" "bc_current_suite_name demo_runner = None" "max_failed_tests_threshold demo_runner = 0"
    by (simp_all add: demo_runner_def initial_tester_def)
  have c: "\<not> parallel_timeout 5 demo_runner \<le> env_clock demo_kernel k" for k
    by (simp add: parallel_timeout_def demo_runner_def demo_kernel_def initial_tester_def)
  show ?thesis
    using parallel_run_returns [OF demo_setup f same_weights_inj [OF i] r(1,2), of 5 "files_os []" "[]"] c
    unfolding first_with_inj [OF i] demo_parallel_view(1) r(3) by simp
qed

text \<open>
  C37: What a number that is given again can do.  The parent takes a process for the first one with its number, finished
  or not, and subtracts the weight of that suite.  Once everything that was started has been waited for and what was
  counted too little for it, with the weight of the next suite, is more than the maximum, the run is stuck: nothing is
  running, and no turn, whatever it is answered, starts the next suite, fails or ends the loop, which never returns.
\<close>

theorem pid_reuse_stalls:
  assumes "setup_ok cu view r st pids" "parallel_reach cu view r st pids t ps procs"
    "\<forall>p \<in> set procs. reaped p" "length procs < length (view r)"
    "bc_tester_get_max_parallel_processes st <
       (\<Sum>i < length procs. suite_weight st (view r ! i) - suite_weight st (view r ! first_with pids i)) +
       suite_weight st (view r ! length procs)"
  shows "(\<exists>ps'. turns_from cu r (bc_tester_get_max_parallel_processes st) timeout turns k n ps = Some (Go ps') \<and>
      nextSuite ps' = length procs \<and> runningSuites ps' = 0 \<and> testsFinished ps' = int (length procs)) \<and>
    parallel_loop cu r (bc_tester_get_max_parallel_processes st) t timeout rr turns k ps = None"
proof -
  have cu: "bcunit_ok cu view" using assms(1) by (simp add: setup_ok_def)
  note ok = reach_ok [OF assms(1,2)]
  have "total (counted_weight st (view r) pids) procs =
      (\<Sum>i < length procs. suite_weight st (view r ! i) - suite_weight st (view r ! first_with pids i))"
    unfolding total_def by (rule sum.cong) (use assms(3) in \<open>auto simp: counted_weight_def\<close>)
  moreover have "total not_reaped procs = 0" using assms(3) by (simp add: all_reaped)
  moreover have "pUserSuite (view r ! length procs) \<noteq> None"
    using assms(1) nth_mem [OF assms(4)] unfolding setup_ok_def by (metis option.distinct(1))
  ultimately have st: "stalled (started st) (view r) (length procs) (int (length procs)) ps"
    using ok assms(4,5) reaped_sum [of procs] by (simp add: stalled_def parallel_ok_def)
  obtain ps' where "turns_from cu r (bc_tester_get_max_parallel_processes st) timeout turns k n ps = Some (Go ps')"
    "stalled (started st) (view r) (length procs) (int (length procs)) ps'"
    using stalled_turns [OF cu st] unfolding started_max by blast
  then show ?thesis using stalled_loop [OF cu st] by (auto simp: stalled_def)
qed

text \<open>Three suites with weights 1, 4 and 2, at most 4 at a time; the number 10 is given to the first two.\<close>

definition demo_reuse :: "CU_Suite list option \<times> int" where
  "demo_reuse = (Some [(demo_entry ''Port'' [''bytes''])\<lparr>pUserSuite := Some ((demo_suite ''Port'' 9 [])\<lparr>cpu_weight := 1\<rparr>)\<rparr>,
     (demo_entry ''Vfs'' [''read''])\<lparr>pUserSuite := Some ((demo_suite ''Vfs'' 9 [])\<lparr>cpu_weight := 4\<rparr>)\<rparr>,
     (demo_entry ''Log'' [''levels''])\<lparr>pUserSuite := Some ((demo_suite ''Log'' 9 [])\<lparr>cpu_weight := 2\<rparr>)\<rparr>], 0)"

definition reused_pids :: "nat \<Rightarrow> int" where
  "reused_pids i = (if i < 2 then 10 else int i)"

lemma reused_setup:
  "setup_ok list_bcunit list_suites demo_reuse (bc_tester_set_max_parallel_suites 4 demo_runner) reused_pids"
  using list_bcunit_ok
  by (simp add: setup_ok_def demo_reuse_def demo_runner_def reused_pids_def list_suites_def demo_entry_def demo_suite_def
      initial_tester_def bc_tester_get_max_parallel_processes_def bc_tester_set_max_parallel_suites_def)

lemma reused_weights:
  "bc_tester_get_max_parallel_processes (bc_tester_set_max_parallel_suites 4 demo_runner) = 4"
  "suite_weight (bc_tester_set_max_parallel_suites 4 demo_runner) (list_suites demo_reuse ! 0) = 1"
  "suite_weight (bc_tester_set_max_parallel_suites 4 demo_runner) (list_suites demo_reuse ! Suc 0) = 4"
  "suite_weight (bc_tester_set_max_parallel_suites 4 demo_runner) (list_suites demo_reuse ! Suc (Suc 0)) = 2"
  "length (list_suites demo_reuse) = 3" "first_with reused_pids 0 = 0" "first_with reused_pids (Suc 0) = 0"
  by (simp_all add: demo_reuse_def demo_runner_def reused_pids_def list_suites_def demo_entry_def demo_suite_def
      initial_tester_def bc_tester_get_max_parallel_processes_def bc_tester_set_max_parallel_suites_def suite_weight_def
      test_suite_cpu_weight_def first_with_def upt_rec)

lemma reused_reached:
  "\<exists>ps. parallel_reach list_bcunit list_suites demo_reuse (bc_tester_set_max_parallel_suites 4 demo_runner) reused_pids 5 ps
    [Reaped (Exited 0), Reaped (Exited 0)]"
proof -
  let ?st = "bc_tester_set_max_parallel_suites 4 demo_runner" and ?ss = "list_suites demo_reuse"
  have c: "can_launch ?st ?ss reused_pids []" "\<not> can_launch ?st ?ss reused_pids [Live]"
    "can_launch ?st ?ss reused_pids [Reaped (Exited 0)]" "\<not> can_launch ?st ?ss reused_pids [Reaped (Exited 0), Live]"
    by (simp_all add: can_launch_def reused_weights counted_weight_def total_def lessThan_Suc)
  have 0: "\<exists>ps. parallel_reach list_bcunit list_suites demo_reuse ?st reused_pids 5 ps []"
    using parallel_reach.start [of list_bcunit list_suites demo_reuse ?st reused_pids 5 "files_os []"] by blast
  note 1 = reach_launch [OF reused_setup 0 c(1), simplified]
  note 2 = reach_end [OF reused_setup, where procs = "[]" and w = "Exited 0", simplified, OF 1 c(2)]
  note 3 = reach_launch [OF reused_setup 2 c(3), simplified]
  show ?thesis
    using reach_end [OF reused_setup, where procs = "[Reaped (Exited 0)]" and w = "Exited 0", simplified, OF 3 c(4)] by simp
qed

theorem pid_reuse_stalls_witness:
  "\<exists>ps. parallel_reach list_bcunit list_suites demo_reuse (bc_tester_set_max_parallel_suites 4 demo_runner) reused_pids 5 ps
      [Reaped (Exited 0), Reaped (Exited 0)] \<and>
    (\<forall>turns. parallel_loop list_bcunit demo_reuse 4 5 9 [] turns 7 ps = None)"
proof -
  obtain ps where r: "parallel_reach list_bcunit list_suites demo_reuse (bc_tester_set_max_parallel_suites 4 demo_runner)
      reused_pids 5 ps [Reaped (Exited 0), Reaped (Exited 0)]"
    using reused_reached by blast
  have "parallel_loop list_bcunit demo_reuse 4 5 9 [] turns 7 ps = None" for turns
    using pid_reuse_stalls [OF reused_setup r] by (simp add: reused_weights lessThan_Suc)
  then show ?thesis using r by blast
qed

text \<open>
  C38: A number of parallel processes below zero, as \<open>--parallel-max -1\<close> gives it, is accepted like any other, and the
  parallel run then never returns: a suite that needs more than the maximum counts as 1, which is still more than the
  maximum.  After any number of turns, whatever they are answered, no suite has been started, none is running or
  finished, and the loop goes on; it neither fails nor ends, at the time limit either.
\<close>

theorem negative_maximum_hangs:
  assumes "argv ! i = ''--parallel-max''" "i + 1 < length argv" "atoi (argv ! (i + 1)) < 0"
    "bcunit_ok cu view" "view r \<noteq> []" "pUserSuite (view r ! 0) = Some ts" "0 \<le> cpu_weight ts"
  shows "\<exists>st. bc_tester_parse_args h argv i (st0, w) = Some (2, st, w) \<and>
    bc_tester_get_max_parallel_processes st = atoi (argv ! (i + 1)) \<and>
    (\<forall>n. \<exists>ps. turns_from cu r (atoi (argv ! (i + 1))) (parallel_timeout t st) turns 0 n (parallel_start cu r t st s) =
         Some (Go ps) \<and> nextSuite ps = 0 \<and> runningSuites ps = 0 \<and> testsFinished ps = 0) \<and>
    bc_tester_run_parallel cu r rr t turns st s = None"
proof -
  let ?st = "bc_tester_set_max_parallel_suites (atoi (argv ! (i + 1))) st0"
  have p: "bc_tester_parse_args h argv i (st0, w) = Some (2, ?st, w)"
    using assms(1,2) by (simp add: bc_tester_parse_args_def with_arg_def)
  have m: "bc_tester_get_max_parallel_processes ?st = atoi (argv ! (i + 1))"
    using assms(3) by (simp add: bc_tester_get_max_parallel_processes_def bc_tester_set_max_parallel_suites_def)
  have w: "suite_weight ?st (view r ! 0) = 1"
    using assms(3,6,7) m by (simp add: suite_weight_def test_suite_cpu_weight_def Let_def)
  have st: "stalled (started ?st) (view r) 0 0 (parallel_start cu r t ?st s)"
    using assms(3,5,6) m w bcunit_ok_positions(1) [OF assms(4), of r] started_max(1) [of ?st]
    by (simp add: stalled_def parallel_start_def started_def [symmetric])
  have "\<exists>ps. turns_from cu r (atoi (argv ! (i + 1))) (parallel_timeout t ?st) turns 0 n (parallel_start cu r t ?st s) =
      Some (Go ps) \<and> nextSuite ps = 0 \<and> runningSuites ps = 0 \<and> testsFinished ps = 0" for n
    using stalled_turns [OF assms(4) st, of "parallel_timeout t ?st" turns 0 n] unfolding started_max m
    by (auto simp: stalled_def)
  moreover have "bc_tester_run_parallel cu r rr t turns ?st s = None"
    using stalled_loop [OF assms(4) st] unfolding started_max by (simp add: bc_tester_run_parallel_def)
  ultimately show ?thesis using p m by blast
qed

theorem negative_maximum_hangs_witness:
  "\<exists>st. bc_tester_parse_args demo_handlers [''prog'', ''--parallel-max'', ''-1''] 1 (demo_runner, ()) = Some (2, st, ()) \<and>
    bc_tester_get_max_parallel_processes st = -1 \<and>
    bc_tester_run_parallel list_bcunit demo_parallel [] 5
      (system_answers list_bcunit list_suites demo_parallel demo_runner demo_kernel 5 (files_os [])) st (files_os []) = None"
proof -
  let ?argv = "[''prog'', ''--parallel-max'', ''-1'']"
  have n: "atoi (?argv ! (1 + 1)) = -1" by code_simp
  have "?argv ! 1 = ''--parallel-max''" "1 + 1 < length ?argv" "atoi (?argv ! (1 + 1)) < 0" by (simp, simp, simp only: n)
  from negative_maximum_hangs [OF this list_bcunit_ok demo_parallel_view(2), of "demo_suite ''Port'' 4 []" demo_handlers
      demo_runner "()" 5 "system_answers list_bcunit list_suites demo_parallel demo_runner demo_kernel 5 (files_os [])"
      "files_os []" "[]"]
  show ?thesis unfolding n by (auto simp: demo_parallel_def list_suites_def demo_suite_def)
qed

end
