(* ===== verification/TesterMainProps.thy ===== *)
theory TesterMainProps
  imports TesterMain TesterParallelProps
begin

text \<open>
  The properties of the main functions of the test runner: where the resources are looked for, what the exit status of
  the process of a suite tells its parent, and that a parallel run as a whole returns with its report written.
\<close>

section \<open>The search for the resources\<close>

definition has_file :: "'f filesystem \<Rightarrow> string \<Rightarrow> 'f \<Rightarrow> string \<Rightarrow> bool" where
  "has_file fs e root d \<longleftrightarrow> fs_stat fs (d @ ''/'' @ e) root"

lemma file_exists_eq [simp]: "file_exists fs (Some e) root d = Some (has_file fs e root d)"
  by (simp add: file_exists_def has_file_def)

definition candidates :: "string \<Rightarrow> string list" where
  "candidates prog = [''.'', ''..''] @
     (case program_name prog of None \<Rightarrow> [] | Some n \<Rightarrow> [program_path prog @ ''../share/'' @ n]) @
     [program_path prog, program_path prog @ ''/../'']"

lemma find_prefix_eq: "find_prefix fs (Some e) (Some prog) root = Some (List.find (has_file fs e root) (candidates prog))"
  by (auto simp: find_prefix_def candidates_def split: option.splits)

definition resource_dir :: "'f filesystem \<Rightarrow> string \<Rightarrow> string option \<Rightarrow> string \<Rightarrow> 'f \<Rightarrow> string option" where
  "resource_dir fs e given prog root =
     (case given of
        Some d \<Rightarrow> if has_file fs e root d then Some d else List.find (has_file fs e root) (candidates prog)
      | None \<Rightarrow> List.find (has_file fs e root) (candidates prog))"

lemma message_fields [simp]:
  "bc_tester_resource_dir_prefix (error_text m st) = bc_tester_resource_dir_prefix st"
  "bc_tester_writable_dir_prefix (error_text m st) = bc_tester_writable_dir_prefix st"
  "expected_res (error_text m st) = expected_res st"
  by (simp_all add: error_text_def bc_tester_printf_def)

lemma check_resource_dir_eq:
  assumes "expected_res st = Some e" "bc_tester_writable_dir_prefix st = Some w"
  obtains st' where "check_resource_dir fs root st = Some st'" "expected_res st' = Some e"
    "bc_tester_writable_dir_prefix st' = Some w"
    "bc_tester_resource_dir_prefix st' =
       Option.bind (bc_tester_resource_dir_prefix st) (\<lambda>d. if has_file fs e root d then Some d else None)"
proof -
  have "\<exists>st'. check_resource_dir fs root st = Some st' \<and> expected_res st' = Some e \<and>
    bc_tester_writable_dir_prefix st' = Some w \<and> bc_tester_resource_dir_prefix st' =
       Option.bind (bc_tester_resource_dir_prefix st) (\<lambda>d. if has_file fs e root d then Some d else None)"
  proof (cases "bc_tester_resource_dir_prefix st")
    case None
    then show ?thesis using assms by (simp add: check_resource_dir_def)
  next
    case (Some d)
    then show ?thesis using assms by (cases "has_file fs e root d") (simp_all add: check_resource_dir_def)
  qed
  then show ?thesis using that by blast
qed

lemma take_prefix_eq:
  assumes "expected_res st = Some e" "bc_tester_writable_dir_prefix st = Some w"
  shows "expected_res (take_prefix p st) = Some e \<and> bc_tester_writable_dir_prefix (take_prefix p st) = Some w \<and>
    bc_tester_resource_dir_prefix (take_prefix p st) =
      (case bc_tester_resource_dir_prefix st of None \<Rightarrow> p | Some d \<Rightarrow> Some d)"
  using assms by (auto simp: take_prefix_def bc_tester_set_resource_dir_prefix_def Let_def split: option.splits)

definition probe :: "string \<Rightarrow> string" where
  "probe d = d @ ''/.bc_tester_utils.tmp''"

lemma try_write_eq:
  "try_write fs (Some d) root = (case fs_create fs (probe d) root of
     None \<Rightarrow> (False, root) | Some r \<Rightarrow> (True, fs_unlink fs (probe d) r))"
  unfolding try_write_def probe_def by simp

section \<open>The exit status\<close>

lemma run_end_child:
  assumes "run_in_parallel st"
  shows "\<exists>st'. run_end run (Some n) u r st = Some (min 255 (int (CU_get_number_of_tests_failed run r)), st')"
proof -
  have "run_in_parallel (info_text m st)" for m using assms by (simp add: info_text_def bc_tester_printf_def)
  then show ?thesis
    by (cases "255 \<le> CU_get_number_of_tests_failed run r") (simp_all add: run_end_def Let_def)
qed

section \<open>The suites that are registered\<close>

lemma entry_names:
  "List.map pName (concat (List.map (suite_entry st tg) ss)) =
     List.map name_of_suite (filter (\<lambda>s. enabled_tests st tg s \<noteq> []) ss)"
  by (induction ss) (simp_all add: suite_entry_def registered_def)

lemma entry_suites:
  "x \<in> set (concat (List.map (suite_entry st tg) ss)) \<Longrightarrow> \<exists>s \<in> set ss. pUserSuite x = Some s"
  by (auto simp: suite_entry_def registered_def split: if_splits)

lemma selected_suites:
  assumes "\<forall>n \<in> set (suites_to_run st). find_suite ss n \<noteq> None" "s \<in> set (selected st ss)"
  shows "s \<in> set ss"
proof (cases "suites_to_run st = []")
  case True
  then show ?thesis using assms(2) by (simp add: selected_def)
next
  case False
  then obtain n where n: "n \<in> set (suites_to_run st)" "s = the (find_suite ss n)"
    using assms(2) by (auto simp: selected_def)
  then obtain x where x: "find_suite ss n = Some x" using assms(1) by blast
  then have "x \<in> set ss" unfolding find_suite_def find_Some_iff by auto
  then show ?thesis using n(2) x by simp
qed

lemma same_weights_equal:
  assumes "\<And>x. x \<in> set xs \<Longrightarrow> \<exists>ts \<in> set ss. pUserSuite x = Some ts" "\<forall>s \<in> set ss. cpu_weight s = n"
  shows "same_weights st xs pids"
proof -
  have "suite_weight st x = suite_weight st y" if "x \<in> set xs" "y \<in> set xs" for x y
    using assms(1) [OF that(1)] assms(1) [OF that(2)] assms(2)
    by (auto simp: suite_weight_def test_suite_cpu_weight_def Let_def)
  then show ?thesis unfolding same_weights_def by simp
qed

section \<open>Properties\<close>

text \<open>
  C21: The search for the resources, for a program called by a path.  The directory given on the command line is kept
  when it holds the expected file; otherwise the first of the working directory, its parent, the directory of shared
  data of the program, the directory of the program and its parent that holds it is taken.  The run goes on exactly
  when there is such a directory and a file can be created in the writable directory, which does not change; the file
  created is removed again.  Otherwise the process is aborted.
\<close>

theorem resource_search:
  assumes "expected_res st = Some e" "bc_tester_writable_dir_prefix st = Some w"
  shows "\<exists>st'. bc_tester_writable_dir_prefix st' = Some w \<and>
    bc_tester_resource_dir_prefix st' = resource_dir fs e (bc_tester_resource_dir_prefix st) prog root \<and>
    detect_res_prefix fs (Some prog) st root = Some
      (case (resource_dir fs e (bc_tester_resource_dir_prefix st) prog root, fs_create fs (probe w) root) of
         (Some d, Some r) \<Rightarrow> Done (st', fs_unlink fs (probe w) r)
       | _ \<Rightarrow> Aborted st')"
proof -
  obtain st1 where 1: "check_resource_dir fs root st = Some st1" "expected_res st1 = Some e"
    "bc_tester_writable_dir_prefix st1 = Some w" "bc_tester_resource_dir_prefix st1 =
       Option.bind (bc_tester_resource_dir_prefix st) (\<lambda>d. if has_file fs e root d then Some d else None)"
    by (rule check_resource_dir_eq [OF assms])
  let ?p = "List.find (has_file fs e root) (candidates prog)"
  let ?st = "take_prefix ?p st1"
  have 2: "expected_res ?st = Some e" "bc_tester_writable_dir_prefix ?st = Some w"
    "bc_tester_resource_dir_prefix ?st = resource_dir fs e (bc_tester_resource_dir_prefix st) prog root"
    using take_prefix_eq [OF 1(2,3), of ?p] 1(4) by (auto simp: resource_dir_def split: option.splits)
  show ?thesis
    using 1(1) 2 assms(1) 2(3)
    by (cases "resource_dir fs e (bc_tester_resource_dir_prefix st) prog root"; cases "fs_create fs (probe w) root")
      (auto simp: detect_res_prefix_def find_prefix_eq try_write_eq)
qed

text \<open>A system with a set of files.\<close>

definition set_filesystem :: "(string set) filesystem" where
  "set_filesystem = \<lparr>fs_stat = (\<lambda>p s. p \<in> s), fs_create = (\<lambda>p s. Some (insert p s)), fs_unlink = (\<lambda>p s. s - {p})\<rparr>"

theorem resource_search_witness:
  "\<exists>st'. detect_res_prefix set_filesystem (Some ''/opt/bin/prog'')
      (initial_tester\<lparr>expected_res := Some ''x'', bc_tester_writable_dir_prefix := Some ''.'',
        bc_tester_resource_dir_prefix := Some ''nowhere''\<rparr>) {''/opt/bin/../share/prog/x'', ''/opt/bin//x''} =
      Some (Done (st', {''/opt/bin/../share/prog/x'', ''/opt/bin//x''})) \<and>
    bc_tester_resource_dir_prefix st' = Some ''/opt/bin/../share/prog''"
proof -
  let ?st = "initial_tester\<lparr>expected_res := Some ''x'', bc_tester_writable_dir_prefix := Some ''.'',
    bc_tester_resource_dir_prefix := Some ''nowhere''\<rparr>"
  let ?fs = "{''/opt/bin/../share/prog/x'', ''/opt/bin//x''}"
  have "candidates ''/opt/bin/prog'' = [''.'', ''..'', ''/opt/bin/../share/prog'', ''/opt/bin/'', ''/opt/bin//../'']"
    by code_simp
  then have r: "resource_dir set_filesystem ''x'' (Some ''nowhere'') ''/opt/bin/prog'' ?fs = Some ''/opt/bin/../share/prog''"
    by (simp add: resource_dir_def has_file_def set_filesystem_def)
  have w: "fs_create set_filesystem (probe ''.'') ?fs = Some (insert (probe ''.'') ?fs)"
    "fs_unlink set_filesystem (probe ''.'') (insert (probe ''.'') ?fs) = ?fs"
    by (auto simp: set_filesystem_def probe_def)
  have "expected_res ?st = Some ''x''" "bc_tester_writable_dir_prefix ?st = Some ''.''"
    "bc_tester_resource_dir_prefix ?st = Some ''nowhere''" by simp_all
  from resource_search [OF this(1,2), where prog = "''/opt/bin/prog''" and fs = set_filesystem and root = ?fs] this(3) r w show ?thesis by auto
qed

text \<open>
  C19: From the process of a suite to its parent.  Whatever BCUnit does while it runs the tests, as long as it returns
  and leaves the option of the runner alone, the process of a suite ends with the number of its failed tests, at most
  255.  The parent, in any state of its run in which that process has ended with this status and \<open>waitpid\<close> hands it
  out, takes it for the first suite with the number of the process and adds as many failures to its count, except that
  255 and more look like a crash, for which all the tests of that suite count.
\<close>

theorem child_status_to_parent:
  assumes "bc_tester_register_suites cu st r = Some (0, st1, r1)" "xml_enabled st1" "run_in_parallel st1"
    "CU_automated_run_tests run (CU_set_output_filename run (get_junit_xml_file_name cu
        (CU_automated_enable_partial_junit run (CU_automated_enable_junit_xml run r1)) st1 None None)
      (CU_automated_enable_partial_junit run (CU_automated_enable_junit_xml run r1))) st1 s = Some (r2, st2, s2)"
    "run_in_parallel st2" "failed = CU_get_number_of_tests_failed run r2"
    "setup_ok cu' view rp stp pids" "parallel_reach cu' view rp stp pids tp ps procs" "i < length procs"
    "procs ! i = Zombie (Exited (min 255 failed))" "wait_pid a = pids i" "wait_result a = Exited (min 255 failed)"
  shows "\<exists>st3 ps'. bc_tester_run_tests cu run rr t turns u (Some n) None tag r st s = Some (int (min 255 failed), r2, st3, s2) \<and>
    reap_step cu' rp a ps = Some (Go ps') \<and>
    ret ps' = ret ps + int (if failed < 255 then failed else length (pTests (view rp ! first_with pids i)))"
proof -
  obtain st3 where 3: "run_end run (Some n) u r2 st2 = Some (min 255 (int failed), st3)"
    using run_end_child [OF assms(5), of run n u r2] assms(6) by blast
  have m: "min 255 (int failed) = int (min 255 failed)" by (simp add: min_def)
  have child: "bc_tester_run_tests cu run rr t turns u (Some n) None tag r st s = Some (int (min 255 failed), r2, st3, s2)"
    using assms(1-4) 3 unfolding m by (simp add: bc_tester_run_tests_def Let_def)
  have sok: "setup_ok cu' view rp (started stp) pids" using assms(7) by simp
  have z: "procs ! i = Zombie (wait_result a)" using assms(10,12) by simp
  from reap_step_eq [OF sok reach_ok [OF assms(7,8)] assms(9) z assms(11) refl]
  show ?thesis using child assms(12) by (auto simp: min_def)
qed

definition demo_run :: "(CU_Suite list option \<times> int) bcrun" where
  "demo_run = \<lparr>CU_automated_enable_junit_xml = id, CU_automated_enable_partial_junit = id,
     CU_set_output_filename = (\<lambda>_. id), CU_automated_run_tests = (\<lambda>r st s. Some (r, st, s)),
     CU_run_all_tests = (\<lambda>r st s. Some (r, st, s)), CU_run_suite = (\<lambda>_ r st s. Some (r, st, s)),
     CU_run_test = (\<lambda>_ _ r st s. Some (0, r, st, s)),
     CU_get_suite = (\<lambda>n r. List.find (\<lambda>x. pName x = n) (list_suites r)), CU_get_test_by_name = (\<lambda>_ _. None),
     CU_get_number_of_tests_failed = (\<lambda>_. 300), CU_get_failure_list = (\<lambda>_. []), CU_basic_show_failures = (\<lambda>_ s. s),
     CU_cleanup_registry = (\<lambda>_. (None, 0))\<rparr>"

text \<open>The parent of the example: the process of its first suite has ended with status 255.\<close>

lemma demo_zombie:
  "\<exists>ps. parallel_reach list_bcunit list_suites demo_parallel demo_runner (env_pids demo_kernel) 5 ps [Zombie (Exited 255)]"
proof -
  have c: "can_launch demo_runner (list_suites demo_parallel) (env_pids demo_kernel) []"
    by (simp add: demo_parallel_def demo_runner_def list_suites_def demo_entry_def demo_suite_def can_launch_def
      initial_tester_def bc_tester_get_max_parallel_processes_def suite_weight_def test_suite_cpu_weight_def)
  have "\<exists>ps. parallel_reach list_bcunit list_suites demo_parallel demo_runner (env_pids demo_kernel) 5 ps []"
    using parallel_reach.start [of list_bcunit list_suites demo_parallel demo_runner "env_pids demo_kernel" 5 "files_os []"] by blast
  from reach_launch [OF demo_setup this c] obtain ps where
    "parallel_reach list_bcunit list_suites demo_parallel demo_runner (env_pids demo_kernel) 5 ps [Live]" by auto
  from parallel_reach.ends [OF this, of 0 "Exited 255"] show ?thesis by auto
qed

theorem child_status_to_parent_witness:
  "\<exists>ps a st3 s2 ps'. bc_tester_run_tests list_bcunit demo_run [] 5 (system_answers list_bcunit list_suites demo_parallel
        demo_runner demo_kernel 5 (files_os [])) 0 (Some ''Port'') None None demo_registry
        (demo_runner\<lparr>xml_enabled := True\<rparr>) (files_os []) = Some (255, demo_registry, st3, s2) \<and>
    parallel_reach list_bcunit list_suites demo_parallel demo_runner (env_pids demo_kernel) 5 ps [Zombie (Exited 255)] \<and>
    wait_pid a = 10 \<and> wait_result a = Exited 255 \<and>
    reap_step list_bcunit demo_parallel a ps = Some (Go ps') \<and> ret ps' = ret ps + 2"
proof -
  let ?st = "demo_runner\<lparr>xml_enabled := True\<rparr>"
  let ?a = "\<lparr>fork_pid = 0, exec_fails = False, wait_pid = 10, wait_result = Exited 255, now_print = 0, now = 0\<rparr>"
  obtain ps where ps: "parallel_reach list_bcunit list_suites demo_parallel demo_runner (env_pids demo_kernel) 5 ps
      [Zombie (Exited 255)]"
    using demo_zombie by blast
  have reg: "bc_tester_register_suites list_bcunit ?st demo_registry = Some (0, ?st, demo_registry)"
    by (simp add: bc_tester_register_suites_def list_bcunit_def demo_registry_def)
  have opts: "xml_enabled ?st" "run_in_parallel ?st" by (simp_all add: demo_runner_def)
  have run: "CU_automated_run_tests demo_run (CU_set_output_filename demo_run
      (get_junit_xml_file_name list_bcunit (CU_automated_enable_partial_junit demo_run
        (CU_automated_enable_junit_xml demo_run demo_registry)) ?st None None)
      (CU_automated_enable_partial_junit demo_run (CU_automated_enable_junit_xml demo_run demo_registry))) ?st (files_os []) =
    Some (demo_registry, ?st, files_os [])"
    by (simp add: demo_run_def)
  have n: "(300 :: nat) = CU_get_number_of_tests_failed demo_run demo_registry" by (simp add: demo_run_def)
  have i: "0 < length [Zombie (Exited 255)]" "[Zombie (Exited 255)] ! 0 = Zombie (Exited (min 255 300))"
    "wait_pid ?a = env_pids demo_kernel 0" "wait_result ?a = Exited (min 255 300)"
    by (simp_all add: demo_kernel_def)
  have f: "first_with (env_pids demo_kernel) 0 = 0" by (simp add: first_with_def)
  have l: "length (pTests (list_suites demo_parallel ! 0)) = 2" by (simp add: demo_parallel_def list_suites_def demo_entry_def)
  from child_status_to_parent [OF reg opts run opts(2) n demo_setup ps i, of "[]" 5 "system_answers list_bcunit
      list_suites demo_parallel demo_runner demo_kernel 5 (files_os [])" 0 "''Port''" None]
  obtain st3 ps' where "bc_tester_run_tests list_bcunit demo_run [] 5 (system_answers list_bcunit list_suites demo_parallel
        demo_runner demo_kernel 5 (files_os [])) 0 (Some ''Port'') None None demo_registry ?st (files_os []) =
      Some (255, demo_registry, st3, files_os [])"
    "reap_step list_bcunit demo_parallel ?a ps = Some (Go ps')" "ret ps' = ret ps + 2"
    unfolding f l by auto
  then show ?thesis using ps by (intro exI [of _ ps] exI [of _ ?a] exI [of _ st3] exI [of _ "files_os []"] exI [of _ ps']) simp
qed

text \<open>
  C11: A parallel run from start to end: the suites of the table are registered as the options select them, the run of
  their processes returns, in whatever order they end, as long as each of them ends at some time, and the report of the
  whole run is written.  The result is -1 when the time limit has passed, and otherwise tells whether the failures of
  all suites together, a crashed suite counting with all its tests, are more than the threshold.  This needs that the
  kernel gives no number twice in the run or that all suites have the same weight, the usual case; then a process with a
  number that was given before is taken for the first suite with the number.  Without it the run may hang, see
  \<open>pid_reuse_stalls\<close> in TesterParallelProps.
\<close>

theorem parallel_main_returns:
  assumes "bcunit_ok cu view" "table st ss" "\<forall>s \<in> set ss. nb_tests s \<le> int (length (tests s)) \<and> 0 \<le> cpu_weight s"
    "\<not> CU_registry_initialized cu r" "suites_to_run st = [] \<or> suites_to_exclude st = []"
    "\<forall>n \<in> set (suites_to_run st). find_suite ss n \<noteq> None" "distinct (List.map name_of_suite (selected st ss))"
    "\<forall>r. view (CU_automated_enable_junit_xml run r) = view r"
    "xml_enabled st" "run_in_parallel st" "bc_current_suite_name st = None" "1 \<le> bc_tester_get_max_parallel_processes st"
    "\<forall>i. 0 < env_pids env i \<and> (\<forall>k. \<exists>j \<ge> k. \<exists>w. (i, w) \<in> set (env_ends env j))" "inj (env_pids env) \<or> (\<exists>n. \<forall>s \<in> set ss. cpu_weight s = n)"
  shows "\<exists>r' k ws st' s'.
    view r' = concat (List.map (suite_entry st (List.map Some (tags_to_run st))) (selected st ss)) \<and>
    length ws = length (view r') \<and> snd (system cu view r' st env t s (Suc k)) = List.map Reaped ws \<and>
    bc_tester_run_tests cu run rr t (system_answers cu view r' st env t s) u None None tag r st s =
      Some (if env_clock env k \<ge> parallel_timeout t st then -1
            else if (\<Sum>i < length ws. outcome_value (view r' ! first_with (env_pids env) i) (ws ! i)) > max_failed_tests_threshold st then 1 else 0,
        r', st', s') \<and>
    files s' (xml_file st @ results_suffix) \<noteq> None"
proof -
  have nb: "\<forall>s \<in> set ss. nb_tests s \<le> int (length (tests s))" using assms(3) by blast
  obtain r1 where r1: "bc_tester_register_suites cu st r = Some (0, st, r1)"
    "view r1 = concat (List.map (suite_entry st (List.map Some (tags_to_run st))) (selected st ss))"
    using register_suites_main [OF assms(1,2) nb assms(4-6)] by blast
  let ?r = "CU_automated_enable_junit_xml run r1"
  have v: "view ?r = concat (List.map (suite_entry st (List.map Some (tags_to_run st))) (selected st ss))"
    using r1(2) assms(8) by simp
  have d: "distinct (List.map pName (view ?r))"
    unfolding v entry_names by (rule distinct_map_filter [OF assms(7)])
  have entry: "\<exists>ts \<in> set ss. pUserSuite x = Some ts" if "x \<in> set (view ?r)" for x
    using entry_suites [OF that [unfolded v]] selected_suites [OF assms(6)] by blast
  then have "\<exists>ts. pUserSuite x = Some ts \<and> 0 \<le> cpu_weight ts" if "x \<in> set (view ?r)" for x
    using that assms(3) by blast
  then have sok: "setup_ok cu view ?r st (env_pids env)"
    using assms(1,12,13) d by (auto simp: setup_ok_def)
  have sw: "same_weights st (view ?r) (env_pids env)"
    using assms(14)
  proof
    assume "\<exists>n. \<forall>s \<in> set ss. cpu_weight s = n"
    then show ?thesis using entry same_weights_equal [of "view ?r" ss] by blast
  qed (rule same_weights_inj)
  have "fair env (length (view ?r))" using assms(13) by (auto simp: fair_def)
  from parallel_run_value [OF sok this sw assms(10,11), of t s rr]
  obtain k ws st2 s2 where run: "length ws = length (view ?r)" "snd (system cu view ?r st env t s (Suc k)) = List.map Reaped ws"
    "bc_tester_run_parallel cu ?r rr t (system_answers cu view ?r st env t s) st s =
      Some (if env_clock env k \<ge> parallel_timeout t st then -1
            else if (\<Sum>i < length ws. outcome_value (view ?r ! first_with (env_pids env) i) (ws ! i)) > max_failed_tests_threshold st then 1 else 0,
        st2, s2)" "says (started st) st2"
    by blast
  have x: "xml_file st2 = xml_file st" using says_fields(1) [OF run(4)] by (simp add: started_def)
  obtain st3 s3 where 3: "merge_junit_xml_files cu ?r (get_junit_xml_file_name cu ?r st2 None (Some results_suffix)) st2 s2 =
      Some (st3, s3)" "files s3 (xml_file st @ results_suffix) \<noteq> None"
    using merge_junit_main [OF assms(1) d, of st2 s2] unfolding x by auto
  obtain st4 s4 where 4: "(case log_file_name st3 of None \<Rightarrow> Some (st3, s3) | Some base \<Rightarrow> merge_log_files cu ?r base st3 s3) =
      Some (st4, s4)" "files s4 (xml_file st @ results_suffix) \<noteq> None"
  proof (cases "log_file_name st3")
    case None
    then show ?thesis using that 3(2) by simp
  next
    case (Some base)
    then show ?thesis using that 3(2) merge_logs_main [OF assms(1) Some, of ?r s3] by (auto simp: Let_def)
  qed
  have "bc_tester_run_tests cu run rr t (system_answers cu view ?r st env t s) u None None tag r st s =
      Some (if env_clock env k \<ge> parallel_timeout t st then -1
            else if (\<Sum>i < length ws. outcome_value (view ?r ! first_with (env_pids env) i) (ws ! i)) > max_failed_tests_threshold st then 1 else 0,
        ?r, st4, s4)"
    using r1(1) assms(9,10) run(3) 3(1) 4(1) by (simp add: bc_tester_run_tests_def Let_def)
  then show ?thesis using v run(1,2) 4(2) by blast
qed

definition busy_kernel :: environment where
  "busy_kernel = \<lparr>env_pids = (\<lambda>i. int i + 10), env_ends = (\<lambda>k. List.map (\<lambda>i. (i, Exited 1)) [0..<Suc k]), env_clock = (\<lambda>_. 5)\<rparr>"

theorem parallel_main_returns_witness:
  "\<exists>r' k ws v st' s'. length ws = length (list_suites r') \<and>
    bc_tester_run_tests list_bcunit demo_run [] 5 (system_answers list_bcunit list_suites r'
      (demo_tester\<lparr>xml_enabled := True, run_in_parallel := True\<rparr>) busy_kernel 5 (files_os [])) 0 None None None (None, 0)
      (demo_tester\<lparr>xml_enabled := True, run_in_parallel := True\<rparr>) (files_os []) = Some (v, r', st', s') \<and>
    files s' (xml_file (demo_tester\<lparr>xml_enabled := True, run_in_parallel := True\<rparr>) @ results_suffix) \<noteq> None \<and>
    snd (system list_bcunit list_suites r' (demo_tester\<lparr>xml_enabled := True, run_in_parallel := True\<rparr>) busy_kernel 5
      (files_os []) (Suc k)) = List.map Reaped ws"
proof -
  let ?st = "demo_tester\<lparr>xml_enabled := True, run_in_parallel := True\<rparr>"
  have st: "xml_enabled ?st" "run_in_parallel ?st" "bc_current_suite_name ?st = None"
    "1 \<le> bc_tester_get_max_parallel_processes ?st" "suites_to_run ?st = []" "suites_to_exclude ?st = []"
    by (simp_all add: demo_tester_def initial_tester_def bc_tester_get_max_parallel_processes_def)
  have table: "table ?st demo_suites" using demo_table by (simp add: table_def suite_cell_def)
  have suites: "\<forall>s \<in> set demo_suites. nb_tests s \<le> int (length (tests s)) \<and> 0 \<le> cpu_weight s"
    by (simp add: demo_suites_def demo_suite_def)
  have names: "distinct (List.map name_of_suite (selected ?st demo_suites))"
    using st(5,6) by (simp add: selected_def demo_suites_def demo_suite_def)
  have init: "\<not> CU_registry_initialized list_bcunit (None, 0)" by (simp add: list_bcunit_def)
  have enable: "\<forall>r. list_suites (CU_automated_enable_junit_xml demo_run r) = list_suites r" by (simp add: demo_run_def)
  have pids: "inj (env_pids busy_kernel) \<or> (\<exists>n. \<forall>s \<in> set demo_suites. cpu_weight s = n)"
    by (simp add: busy_kernel_def inj_def)
  have kern: "\<forall>i. 0 < env_pids busy_kernel i \<and> (\<forall>k. \<exists>j \<ge> k. \<exists>w. (i, w) \<in> set (env_ends busy_kernel j))"
  proof (intro allI conjI)
    fix i k
    show "0 < env_pids busy_kernel i" by (simp add: busy_kernel_def)
    show "\<exists>j \<ge> k. \<exists>w. (i, w) \<in> set (env_ends busy_kernel j)"
      by (intro exI [of _ "max i k"] exI [of _ "Exited 1"]) (auto simp: busy_kernel_def image_iff less_Suc_eq_le)
  qed
  show ?thesis
    using parallel_main_returns [OF list_bcunit_ok table suites init _ _ names enable st(1-4) kern pids, of 5 "files_os []" "[]" 0 None] st(5,6)
    by (simp only: list.set ball_simps simp_thms) blast
qed

end
