(* ===== verification/CryptoFlags.thy ===== *)
theory CryptoFlags
  imports CString
begin

text \<open>
  The flags of the verification of a certificate, src/crypto/mbedtls.c: those of the library and those of
  src/include/bctoolbox/crypto.h, their translation in both directions, and their names.  The flags of the library are
  given by their bit numbers, an argument.
\<close>

unbundle bit_operations_syntax

section \<open>Flags\<close>

datatype cert_flag =
    BADCERT_EXPIRED | BADCERT_REVOKED | BADCERT_CN_MISMATCH | BADCERT_NOT_TRUSTED | BADCERT_MISSING
  | BADCERT_SKIP_VERIFY | BADCERT_OTHER | BADCERT_FUTURE | BADCERT_KEY_USAGE | BADCERT_EXT_KEY_USAGE
  | BADCERT_NS_CERT_TYPE | BADCERT_BAD_MD | BADCERT_BAD_PK | BADCERT_BAD_KEY | BADCRL_NOT_TRUSTED | BADCRL_EXPIRED
  | BADCRL_FUTURE | BADCRL_BAD_MD | BADCRL_BAD_PK | BADCRL_BAD_KEY

fun BCTBX_CERTIFICATE_VERIFY :: "cert_flag \<Rightarrow> 32 word" where
  "BCTBX_CERTIFICATE_VERIFY BADCERT_EXPIRED = 0x01"
| "BCTBX_CERTIFICATE_VERIFY BADCERT_REVOKED = 0x02"
| "BCTBX_CERTIFICATE_VERIFY BADCERT_CN_MISMATCH = 0x04"
| "BCTBX_CERTIFICATE_VERIFY BADCERT_NOT_TRUSTED = 0x08"
| "BCTBX_CERTIFICATE_VERIFY BADCERT_MISSING = 0x10"
| "BCTBX_CERTIFICATE_VERIFY BADCERT_SKIP_VERIFY = 0x20"
| "BCTBX_CERTIFICATE_VERIFY BADCERT_OTHER = 0x0100"
| "BCTBX_CERTIFICATE_VERIFY BADCERT_FUTURE = 0x0200"
| "BCTBX_CERTIFICATE_VERIFY BADCERT_KEY_USAGE = 0x0400"
| "BCTBX_CERTIFICATE_VERIFY BADCERT_EXT_KEY_USAGE = 0x0800"
| "BCTBX_CERTIFICATE_VERIFY BADCERT_NS_CERT_TYPE = 0x1000"
| "BCTBX_CERTIFICATE_VERIFY BADCERT_BAD_MD = 0x2000"
| "BCTBX_CERTIFICATE_VERIFY BADCERT_BAD_PK = 0x4000"
| "BCTBX_CERTIFICATE_VERIFY BADCERT_BAD_KEY = 0x8000"
| "BCTBX_CERTIFICATE_VERIFY BADCRL_FUTURE = 0x10000"
| "BCTBX_CERTIFICATE_VERIFY BADCRL_NOT_TRUSTED = 0x20000"
| "BCTBX_CERTIFICATE_VERIFY BADCRL_EXPIRED = 0x40000"
| "BCTBX_CERTIFICATE_VERIFY BADCRL_BAD_MD = 0x80000"
| "BCTBX_CERTIFICATE_VERIFY BADCRL_BAD_PK = 0x100000"
| "BCTBX_CERTIFICATE_VERIFY BADCRL_BAD_KEY = 0x200000"

definition MBEDTLS_X509 :: "(cert_flag \<Rightarrow> nat) \<Rightarrow> cert_flag \<Rightarrow> 32 word" where
  "MBEDTLS_X509 nb f = 2 ^ nb f"

section \<open>Translation\<close>

text \<open>The flags in the order in which the functions test them.\<close>

definition test_order :: "cert_flag list" where
  "test_order =
     [BADCERT_EXPIRED, BADCERT_REVOKED, BADCERT_CN_MISMATCH, BADCERT_NOT_TRUSTED, BADCERT_MISSING, BADCERT_SKIP_VERIFY,
      BADCERT_OTHER, BADCERT_FUTURE, BADCERT_KEY_USAGE, BADCERT_EXT_KEY_USAGE, BADCERT_NS_CERT_TYPE, BADCERT_BAD_MD,
      BADCERT_BAD_PK, BADCERT_BAD_KEY, BADCRL_NOT_TRUSTED, BADCRL_EXPIRED, BADCRL_FUTURE, BADCRL_BAD_MD,
      BADCRL_BAD_PK, BADCRL_BAD_KEY]"

definition remap_order :: "cert_flag list" where
  "remap_order =
     [BADCERT_EXPIRED, BADCERT_REVOKED, BADCERT_CN_MISMATCH, BADCERT_NOT_TRUSTED, BADCERT_MISSING, BADCERT_SKIP_VERIFY,
      BADCERT_FUTURE, BADCERT_OTHER, BADCERT_KEY_USAGE, BADCERT_EXT_KEY_USAGE, BADCERT_NS_CERT_TYPE, BADCERT_BAD_MD,
      BADCERT_BAD_PK, BADCERT_BAD_KEY, BADCRL_NOT_TRUSTED, BADCRL_EXPIRED, BADCRL_FUTURE, BADCRL_BAD_MD,
      BADCRL_BAD_PK, BADCRL_BAD_KEY]"

definition bctbx_x509_certificate_set_flag :: "(cert_flag \<Rightarrow> nat) \<Rightarrow> 32 word \<Rightarrow> 32 word \<Rightarrow> int \<times> 32 word" where
  "bctbx_x509_certificate_set_flag nb flags flags_to_set =
     (0, fold (\<lambda>f flags. if flags_to_set AND BCTBX_CERTIFICATE_VERIFY f \<noteq> 0 then flags OR MBEDTLS_X509 nb f else flags)
       test_order flags)"

definition bctbx_x509_certificate_remap_flag :: "(cert_flag \<Rightarrow> nat) \<Rightarrow> 32 word \<Rightarrow> 32 word" where
  "bctbx_x509_certificate_remap_flag nb flags =
     fold (\<lambda>f ret. if flags AND MBEDTLS_X509 nb f \<noteq> 0 then ret OR BCTBX_CERTIFICATE_VERIFY f else ret) remap_order 0"

definition bctbx_x509_certificate_unset_flag :: "(cert_flag \<Rightarrow> nat) \<Rightarrow> 32 word \<Rightarrow> 32 word \<Rightarrow> int \<times> 32 word" where
  "bctbx_x509_certificate_unset_flag nb flags flags_to_unset =
     (0, fold (\<lambda>f flags. if flags_to_unset AND BCTBX_CERTIFICATE_VERIFY f \<noteq> 0
          then flags AND NOT (MBEDTLS_X509 nb f) else flags)
       test_order flags)"

section \<open>Names\<close>

fun flag_text :: "cert_flag \<Rightarrow> string" where
  "flag_text BADCERT_EXPIRED = ''expired ''"
| "flag_text BADCERT_REVOKED = ''revoked ''"
| "flag_text BADCERT_CN_MISMATCH = ''CN-mismatch ''"
| "flag_text BADCERT_NOT_TRUSTED = ''not-trusted ''"
| "flag_text BADCERT_MISSING = ''missing ''"
| "flag_text BADCERT_SKIP_VERIFY = ''skip-verify ''"
| "flag_text BADCERT_OTHER = ''other-reason ''"
| "flag_text BADCERT_FUTURE = ''future-validity ''"
| "flag_text BADCERT_KEY_USAGE = ''keyUsage-mismatch''"
| "flag_text BADCERT_EXT_KEY_USAGE = ''extendedKeyUsage-mismatch ''"
| "flag_text BADCERT_NS_CERT_TYPE = ''nsCertType-mismatch ''"
| "flag_text BADCERT_BAD_MD = ''unacceptable-hash ''"
| "flag_text BADCERT_BAD_PK = ''unacceptable-PK-alg ''"
| "flag_text BADCERT_BAD_KEY = ''unacceptable-key ''"
| "flag_text BADCRL_NOT_TRUSTED = ''crl-not-trusted ''"
| "flag_text BADCRL_EXPIRED = ''crl-expired ''"
| "flag_text BADCRL_FUTURE = ''crl-future ''"
| "flag_text BADCRL_BAD_MD = ''crl-unacceptable-hash ''"
| "flag_text BADCRL_BAD_PK = ''crl-unacceptable-PK-alg ''"
| "flag_text BADCRL_BAD_KEY = ''crl-unacceptable-key ''"

definition BCTBX_MAX_CERTIFICATE_FLAGS_STRING_LENGTH :: nat where
  "BCTBX_MAX_CERTIFICATE_FLAGS_STRING_LENGTH = 256"

text \<open>
  \<open>snprintf(outputString + i, 256 - i, t)\<close>: the string in the buffer up to \<open>i\<close> goes on with as much of \<open>t\<close> as there is
  room for, and \<open>i\<close> is advanced by the whole length of \<open>t\<close>.  Behind the buffer the room that is left is a huge unsigned
  number.
\<close>

definition print_flag :: "string \<Rightarrow> nat \<times> string \<Rightarrow> (nat \<times> string) option" where
  "print_flag t p = (case p of (i, out) \<Rightarrow> do {
     _ \<leftarrow> require (i \<le> BCTBX_MAX_CERTIFICATE_FLAGS_STRING_LENGTH);
     Some (i + length t, out @ take (BCTBX_MAX_CERTIFICATE_FLAGS_STRING_LENGTH - i - 1) t) })"

fun print_flags :: "(cert_flag \<Rightarrow> nat) \<Rightarrow> 32 word \<Rightarrow> cert_flag list \<Rightarrow> nat \<times> string \<Rightarrow> (nat \<times> string) option" where
  "print_flags nb flags [] p = Some p"
| "print_flags nb flags (f # fs) p = do {
     p \<leftarrow> (if flags AND MBEDTLS_X509 nb f \<noteq> 0 then print_flag (flag_text f) p else Some p);
     print_flags nb flags fs p }"

definition BCTBX_ERROR_OUTPUT_BUFFER_TOO_SMALL :: int where
  "BCTBX_ERROR_OUTPUT_BUFFER_TOO_SMALL = - 0x70001000"

text \<open>The buffer of the caller has \<open>buffer_size\<close> bytes; \<open>strncpy\<close> fills its rest with zeros.\<close>

definition bctbx_x509_certificate_flags_to_string ::
    "(cert_flag \<Rightarrow> nat) \<Rightarrow> nat \<Rightarrow> 32 word \<Rightarrow> (int \<times> string option) option" where
  "bctbx_x509_certificate_flags_to_string nb buffer_size flags = do {
     (i, outputString) \<leftarrow> print_flags nb flags test_order (0, []);
     _ \<leftarrow> require (i < BCTBX_MAX_CERTIFICATE_FLAGS_STRING_LENGTH);
     Some (if i + 1 > buffer_size then (BCTBX_ERROR_OUTPUT_BUFFER_TOO_SMALL, None)
       else (0, Some (outputString @ replicate (buffer_size - length outputString) NUL))) }"

section \<open>Flags as sets\<close>

definition flag_set :: "(cert_flag \<Rightarrow> nat) \<Rightarrow> 32 word \<Rightarrow> cert_flag set" where
  "flag_set nb w = {f. bit w (nb f)}"

fun own_bit :: "cert_flag \<Rightarrow> nat" where
  "own_bit BADCERT_EXPIRED = 0"
| "own_bit BADCERT_REVOKED = 1"
| "own_bit BADCERT_CN_MISMATCH = 2"
| "own_bit BADCERT_NOT_TRUSTED = 3"
| "own_bit BADCERT_MISSING = 4"
| "own_bit BADCERT_SKIP_VERIFY = 5"
| "own_bit BADCERT_OTHER = 8"
| "own_bit BADCERT_FUTURE = 9"
| "own_bit BADCERT_KEY_USAGE = 10"
| "own_bit BADCERT_EXT_KEY_USAGE = 11"
| "own_bit BADCERT_NS_CERT_TYPE = 12"
| "own_bit BADCERT_BAD_MD = 13"
| "own_bit BADCERT_BAD_PK = 14"
| "own_bit BADCERT_BAD_KEY = 15"
| "own_bit BADCRL_FUTURE = 16"
| "own_bit BADCRL_NOT_TRUSTED = 17"
| "own_bit BADCRL_EXPIRED = 18"
| "own_bit BADCRL_BAD_MD = 19"
| "own_bit BADCRL_BAD_PK = 20"
| "own_bit BADCRL_BAD_KEY = 21"

lemma own_bit_eq: "BCTBX_CERTIFICATE_VERIFY f = 2 ^ own_bit f"
  by (cases f) simp_all

lemma own_bit_ok: "own_bit f < 32" "inj own_bit"
proof -
  show "own_bit f < 32" by (cases f) simp_all
  show "inj own_bit"
  proof (rule injI)
    fix f g assume "own_bit f = own_bit g"
    then show "f = g" by (cases f; cases g; simp)
  qed
qed

lemma and_bit [simp]: "w AND 2 ^ n = 0 \<longleftrightarrow> \<not> bit w n" for w :: "32 word"
  by (rule and_exp_eq_0_iff_not_bit)

lemma order_all [simp]: "f \<in> set test_order" "f \<in> set remap_order"
  by (cases f; simp add: test_order_def remap_order_def)+

lemma bit_power: "bit (2 ^ m :: 32 word) n \<longleftrightarrow> n = m \<and> n < 32"
  by (auto simp: bit_simps)

lemma fold_or:
  "bit (fold (\<lambda>f r. if P f then r OR 2 ^ b f else r) fs r) n \<longleftrightarrow>
     bit r n \<or> (\<exists>f \<in> set fs. P f \<and> n = b f \<and> n < 32)" for r :: "32 word"
  by (induction fs arbitrary: r) (auto simp: bit_or_iff bit_power)

lemma fold_and_not:
  "bit (fold (\<lambda>f r. if P f then r AND NOT (2 ^ b f) else r) fs r) n \<longleftrightarrow>
     bit r n \<and> \<not> (\<exists>f \<in> set fs. P f \<and> n = b f \<and> n < 32)" for r :: "32 word"
proof (induction fs arbitrary: r)
  case (Cons f fs)
  have "bit (r AND NOT (2 ^ b f)) n \<longleftrightarrow> bit r n \<and> \<not> (n = b f \<and> n < 32)"
    using bit_imp_le_length [of r n] by (auto simp: bit_and_iff bit_not_iff bit_power)
  then show ?case using Cons.IH by auto
qed simp

text \<open>The text of some flags, as it is put together.\<close>

definition flags_text :: "(cert_flag \<Rightarrow> nat) \<Rightarrow> 32 word \<Rightarrow> cert_flag list \<Rightarrow> string" where
  "flags_text nb w fs = concat (List.map flag_text (filter (\<lambda>f. bit w (nb f)) fs))"

lemma print_flags_eq:
  assumes "length out = i" "i < BCTBX_MAX_CERTIFICATE_FLAGS_STRING_LENGTH"
    "i + length (flags_text nb w fs) < BCTBX_MAX_CERTIFICATE_FLAGS_STRING_LENGTH"
  shows "print_flags nb w fs (i, out) = Some (i + length (flags_text nb w fs), out @ flags_text nb w fs)"
  using assms
proof (induction fs arbitrary: i out)
  case (Cons f fs)
  then show ?case
    using Cons.IH [of "out @ flag_text f" "i + length (flag_text f)"] Cons.IH [of out i]
    by (auto simp: flags_text_def MBEDTLS_X509_def print_flag_def)
qed (simp add: flags_text_def)

lemma print_flags_length:
  "print_flags nb w fs (i, out) = Some (j, out') \<Longrightarrow> j = i + length (flags_text nb w fs)"
proof (induction fs arbitrary: i out)
  case (Cons f fs)
  then show ?case
    by (cases "bit w (nb f)")
      (fastforce simp: flags_text_def MBEDTLS_X509_def print_flag_def require_def split: if_splits bind_splits)+
qed (simp add: flags_text_def)

section \<open>Properties\<close>

text \<open>
  The translation of the flags.  Whatever distinct bits of 32 the library uses, setting and clearing flags given with
  the numbers of bctoolbox adds them to and removes them from the flags of the library and changes no other bit,
  and translating the flags of the library gives exactly the same flags with the numbers of bctoolbox.
\<close>

theorem cert_flags_refine:
  assumes "inj nb" "\<forall>f. nb f < 32"
  shows "flag_set nb (snd (bctbx_x509_certificate_set_flag nb w x)) = flag_set nb w \<union> flag_set own_bit x \<and>
    flag_set nb (snd (bctbx_x509_certificate_unset_flag nb w x)) = flag_set nb w - flag_set own_bit x \<and>
    flag_set own_bit (bctbx_x509_certificate_remap_flag nb w) = flag_set nb w \<and>
    (\<forall>n. n \<notin> range nb \<longrightarrow> bit (snd (bctbx_x509_certificate_set_flag nb w x)) n = bit w n \<and>
       bit (snd (bctbx_x509_certificate_unset_flag nb w x)) n = bit w n) \<and>
    (\<forall>n. n \<notin> range own_bit \<longrightarrow> \<not> bit (bctbx_x509_certificate_remap_flag nb w) n)"
proof -
  note defs = bctbx_x509_certificate_set_flag_def bctbx_x509_certificate_unset_flag_def
    bctbx_x509_certificate_remap_flag_def own_bit_eq MBEDTLS_X509_def flag_set_def
  have nb: "nb f = nb g \<longleftrightarrow> f = g" and own: "own_bit f = own_bit g \<longleftrightarrow> f = g" for f g
    using assms(1) own_bit_ok(2) by (auto simp: inj_eq)
  show ?thesis
    using assms(2) own_bit_ok(1) unfolding defs by (auto simp: fold_or fold_and_not nb own)
qed

theorem cert_flags_refine_witness:
  "flag_set own_bit (snd (bctbx_x509_certificate_set_flag own_bit 0x5 0x200000)) =
    flag_set own_bit 0x5 \<union> flag_set own_bit 0x200000"
  by (rule conjunct1 [OF cert_flags_refine]) (use own_bit_ok in auto)

text \<open>
  The names of the flags.  The text of the flags set, in the order of the tests, is copied with its terminator
  into the buffer of the caller, or an error returned when it is too small for it, as long as the text fits the local
  buffer of 256 bytes; with all flags set it does not, and the function writes behind that buffer.
\<close>

theorem cert_flags_text:
  "bctbx_x509_certificate_flags_to_string nb buffer_size flags =
     (let t = flags_text nb flags test_order in
       (if 256 \<le> length t then None
        else if buffer_size \<le> length t then Some (BCTBX_ERROR_OUTPUT_BUFFER_TOO_SMALL, None)
        else Some (0, Some (t @ replicate (buffer_size - length t) NUL)))) \<and>
   bctbx_x509_certificate_flags_to_string own_bit 512 0xFFFFFFFF = None"
proof -
  have 1: "bctbx_x509_certificate_flags_to_string nb size flags =
       (let t = flags_text nb flags test_order in
        if 256 \<le> length t then None
        else if size \<le> length t then Some (BCTBX_ERROR_OUTPUT_BUFFER_TOO_SMALL, None)
        else Some (0, Some (t @ replicate (size - length t) NUL)))" (is "_ = ?r nb size flags") for nb size flags
  proof (cases "256 \<le> length (flags_text nb flags test_order)")
    case True
    have "i = length (flags_text nb flags test_order)" if "print_flags nb flags test_order (0, []) = Some (i, out)" for i out
      using print_flags_length [OF that] by simp
    then show ?thesis
      using True by (cases "print_flags nb flags test_order (0, [])")
        (auto simp: bctbx_x509_certificate_flags_to_string_def BCTBX_MAX_CERTIFICATE_FLAGS_STRING_LENGTH_def require_def Let_def)
  next
    case False
    then show ?thesis
      using print_flags_eq [of "[]" 0 nb flags test_order]
      by (simp add: bctbx_x509_certificate_flags_to_string_def BCTBX_MAX_CERTIFICATE_FLAGS_STRING_LENGTH_def Let_def)
  qed
  have "bit (0xFFFFFFFF :: 32 word) (own_bit f)" for f by (cases f) simp_all
  then have "flags_text own_bit 0xFFFFFFFF test_order = concat (List.map flag_text test_order)" by (simp add: flags_text_def)
  moreover have "256 \<le> length (concat (List.map flag_text test_order))" by (simp add: test_order_def)
  ultimately have "bctbx_x509_certificate_flags_to_string own_bit 512 0xFFFFFFFF = None" unfolding 1 by simp
  with 1 [of nb buffer_size flags] show ?thesis by (simp add: Let_def)
qed

end
