(* ===== verification/CryptoText.thy ===== *)
theory CryptoText
  imports CryptoFlags CInt
begin

text \<open>
  The parts of src/crypto/mbedtls.c that work on texts and buffers: base64 with missing padding, error texts, the
  binary form and the fingerprint of a certificate, the creation of a self-signed one, and the output length of the hash
  functions.  The calls of mbedTLS are arguments: records of functions, for which the properties assume documented
  behaviour.
\<close>

section \<open>Errors\<close>

definition BCTBX_ERROR_INVALID_BASE64_INPUT :: int where
  "BCTBX_ERROR_INVALID_BASE64_INPUT = - 0x70002000"

definition BCTBX_ERROR_INVALID_CERTIFICATE :: int where
  "BCTBX_ERROR_INVALID_CERTIFICATE = - 0x70020000"

definition BCTBX_ERROR_CERTIFICATE_GENERATION_FAIL :: int where
  "BCTBX_ERROR_CERTIFICATE_GENERATION_FAIL = - 0x70020001"

definition BCTBX_ERROR_CERTIFICATE_WRITE_PEM :: int where
  "BCTBX_ERROR_CERTIFICATE_WRITE_PEM = - 0x70020002"

definition BCTBX_ERROR_CERTIFICATE_PARSE_PEM :: int where
  "BCTBX_ERROR_CERTIFICATE_PARSE_PEM = - 0x70020004"

definition BCTBX_ERROR_UNSUPPORTED_HASH_FUNCTION :: int where
  "BCTBX_ERROR_UNSUPPORTED_HASH_FUNCTION = - 0x70020008"

fun hex_text :: "nat \<Rightarrow> string" where
  "hex_text n = (if n < 16 then [hex_digit n] else hex_text (n div 16) @ [hex_digit (n mod 16)])"

declare hex_text.simps [simp del]

text \<open>\<open>lib_strerror\<close> is \<open>mbedtls_strerror\<close>; the negation of the least \<open>int32_t\<close> overflows.\<close>

definition bctbx_strerror :: "(int \<Rightarrow> cbuf \<Rightarrow> nat \<Rightarrow> cbuf option) \<Rightarrow> int \<Rightarrow> cbuf \<Rightarrow> nat \<Rightarrow> cbuf option" where
  "bctbx_strerror lib_strerror error_code buffer buffer_length =
     (if error_code > 0 then snprintf_at buffer 0 buffer_length ''Invalid Error code''
      else if error_code \<le> - (2 ^ 31) then None
      else if - error_code < 0x00010000 then lib_strerror error_code buffer buffer_length
      else snprintf_at buffer 0 buffer_length
        (''bctoolbox defined error code [-0x'' @ hex_text (nat (- error_code)) @ '']''))"

section \<open>Base64\<close>

text \<open>
  The functions of the library get the size of the output buffer and the input; they return a code, the number of bytes
  written and the output.
\<close>

record base64_lib =
  lib_base64_encode :: "nat \<Rightarrow> string \<Rightarrow> int \<times> nat \<times> string"
  lib_base64_decode :: "nat \<Rightarrow> string \<Rightarrow> int \<times> nat \<times> string"
  ERR_BASE64_BUFFER_TOO_SMALL :: int
  ERR_BASE64_INVALID_CHARACTER :: int

definition bctbx_base64_encode :: "base64_lib \<Rightarrow> nat \<Rightarrow> string \<Rightarrow> int \<times> nat \<times> string" where
  "bctbx_base64_encode lib output_length input =
     (let (ret, byte_written, out) = lib_base64_encode lib output_length input in
      (if ret = ERR_BASE64_BUFFER_TOO_SMALL lib then BCTBX_ERROR_OUTPUT_BUFFER_TOO_SMALL else ret, byte_written, out))"

text \<open>The padded copy has room for two characters more than the input.\<close>

definition bctbx_base64_decode :: "base64_lib \<Rightarrow> nat \<Rightarrow> string \<Rightarrow> (int \<times> nat \<times> string) option" where
  "bctbx_base64_decode lib output_length input = do {
     let input_length = length input;
     let missingPaddingSize = (if input_length mod 4 \<noteq> 0 then 4 - input_length mod 4 else 0);
     src \<leftarrow> (if input_length mod 4 \<noteq> 0
       then do {
         paddedInput \<leftarrow> buf_write (cmalloc (input_length + 2)) 0 input;
         paddedInput \<leftarrow> (if missingPaddingSize > 0 then buf_write paddedInput input_length [CHR ''='']
           else Some paddedInput);
         paddedInput \<leftarrow> (if missingPaddingSize > 1 then buf_write paddedInput (input_length + 1) [CHR ''='']
           else Some paddedInput);
         _ \<leftarrow> require (input_length + missingPaddingSize \<le> size_of paddedInput);
         Some (buf_string paddedInput (input_length + missingPaddingSize)) }
       else Some input);
     let (ret, byte_written, out) = lib_base64_decode lib output_length src;
     Some (if ret = ERR_BASE64_BUFFER_TOO_SMALL lib then BCTBX_ERROR_OUTPUT_BUFFER_TOO_SMALL
       else if ret = ERR_BASE64_INVALID_CHARACTER lib then BCTBX_ERROR_INVALID_BASE64_INPUT else ret,
       byte_written, out) }"

section \<open>Certificates\<close>

datatype md_type = MD_OTHER | MD_SHA1 | MD_SHA224 | MD_SHA256 | MD_SHA384 | MD_SHA512

text \<open>A certificate: its binary form and the hash function of its signature.\<close>

record x509_crt =
  raw :: string
  sig_md :: md_type

text \<open>The length is compared with \<open>buffer_length - 1\<close>, which wraps around for 0.\<close>

definition bctbx_x509_certificate_get_der :: "x509_crt option \<Rightarrow> cbuf \<Rightarrow> 64 word \<Rightarrow> (int \<times> cbuf) option" where
  "bctbx_x509_certificate_get_der cert buffer buffer_length =
     (case cert of
        None \<Rightarrow> Some (BCTBX_ERROR_INVALID_CERTIFICATE, buffer)
      | Some crt \<Rightarrow>
          if word_of_nat (length (raw crt)) > buffer_length - 1
          then Some (BCTBX_ERROR_OUTPUT_BUFFER_TOO_SMALL, buffer)
          else do {
            buffer \<leftarrow> buf_write buffer 0 (raw crt);
            buffer \<leftarrow> buf_write buffer (length (raw crt)) [NUL];
            Some (0, buffer) })"

definition bctbx_x509_certificate_get_der_length :: "x509_crt option \<Rightarrow> int" where
  "bctbx_x509_certificate_get_der_length cert = (case cert of None \<Rightarrow> 0 | Some crt \<Rightarrow> to_i32 (int (length (raw crt))))"

text \<open>\<open>MD_OTHER\<close> stands for \<open>BCTBX_MD_UNDEFINED\<close>.\<close>

definition bctbx_x509_certificate_get_signature_hash_function :: "x509_crt option \<Rightarrow> int \<times> md_type option" where
  "bctbx_x509_certificate_get_signature_hash_function certificate =
     (case certificate of
        None \<Rightarrow> (BCTBX_ERROR_INVALID_CERTIFICATE, None)
      | Some crt \<Rightarrow> (if sig_md crt = MD_OTHER then BCTBX_ERROR_UNSUPPORTED_HASH_FUNCTION else 0, Some (sig_md crt)))"

fun md_name :: "md_type \<Rightarrow> string" where
  "md_name MD_SHA1 = ''SHA-1''"
| "md_name MD_SHA224 = ''SHA-224''"
| "md_name MD_SHA256 = ''SHA-256''"
| "md_name MD_SHA384 = ''SHA-384''"
| "md_name MD_SHA512 = ''SHA-512''"
| "md_name MD_OTHER = []"

fun md_length :: "md_type \<Rightarrow> nat" where
  "md_length MD_SHA1 = 20"
| "md_length MD_SHA224 = 28"
| "md_length MD_SHA256 = 32"
| "md_length MD_SHA384 = 48"
| "md_length MD_SHA512 = 64"
| "md_length MD_OTHER = 0"

text \<open>\<open>%02X\<close> of a byte.\<close>

definition hex_upper :: "nat \<Rightarrow> char" where
  "hex_upper n = char_of (if n < 10 then n + 48 else n + 55)"

definition hex_byte :: "8 word \<Rightarrow> string" where
  "hex_byte b = [hex_upper (unat b div 16), hex_upper (unat b mod 16)]"

fun fingerprint_loop :: "nat \<Rightarrow> nat \<Rightarrow> char \<Rightarrow> 8 word list \<Rightarrow> cbuf \<Rightarrow> (nat \<times> cbuf) option" where
  "fingerprint_loop fingerprint_size fingerprint_index prefix [] buf = Some (fingerprint_index, buf)"
| "fingerprint_loop fingerprint_size fingerprint_index prefix (b # bs) buf = do {
     _ \<leftarrow> require (fingerprint_index \<le> fingerprint_size);
     buf \<leftarrow> snprintf_at buf fingerprint_index (fingerprint_size - fingerprint_index) (prefix # hex_byte b);
     fingerprint_loop fingerprint_size (fingerprint_index + 3) (CHR '':'') bs buf }"

text \<open>\<open>digest\<close> is the hash function of the library; the local buffer has 64 bytes.\<close>

definition bctbx_x509_certificate_get_fingerprint ::
    "(md_type \<Rightarrow> string \<Rightarrow> 8 word list) \<Rightarrow> x509_crt option \<Rightarrow> cbuf \<Rightarrow> nat \<Rightarrow> md_type \<Rightarrow> (int \<times> cbuf) option" where
  "bctbx_x509_certificate_get_fingerprint digest certificate fingerprint fingerprint_length hash_algorithm =
     (case certificate of
        None \<Rightarrow> Some (BCTBX_ERROR_INVALID_CERTIFICATE, fingerprint)
      | Some crt \<Rightarrow> do {
          let hash_id = (if hash_algorithm = MD_OTHER then sig_md crt else hash_algorithm);
          if hash_id = MD_OTHER then Some (BCTBX_ERROR_UNSUPPORTED_HASH_FUNCTION, fingerprint)
          else do {
            let hash = digest hash_id (raw crt);
            let hash_alg_string = md_name hash_id;
            let fingerprint_size = length hash_alg_string + 3 * md_length hash_id + 1;
            if fingerprint_length < fingerprint_size then Some (BCTBX_ERROR_OUTPUT_BUFFER_TOO_SMALL, fingerprint)
            else do {
              fingerprint \<leftarrow> snprintf_at fingerprint 0 fingerprint_size hash_alg_string;
              (i, fingerprint) \<leftarrow> fingerprint_loop fingerprint_size (length hash_alg_string) (CHR '' '')
                (take (md_length hash_id) hash) fingerprint;
              fingerprint \<leftarrow> buf_write fingerprint i [NUL];
              Some (int fingerprint_size, fingerprint) } } })"

section \<open>Self-signed certificates\<close>

text \<open>
  What the calls of the library return, in the order in which they are made; the names and the text parsed are
  arguments of theirs.
\<close>

record selfsigned_lib =
  drbg_seed :: int
  pk_setup :: int
  gen_key :: int
  key_pem :: string
  read_serial :: int
  set_subject_name :: "string \<Rightarrow> int"
  set_issuer_name :: "string \<Rightarrow> int"
  set_serial :: int
  set_validity :: int
  write_crt_pem :: int
  crt_pem :: string
  crt_parse :: "string \<Rightarrow> int"

text \<open>
  The name is built in 512 bytes; the key is written into the first 4096 bytes of \<open>file_buffer\<close>, the certificate behind
  it.  The result is the code, what is written to \<open>pem\<close> when it is not NULL, and the text given to the parser.
\<close>

definition bctbx_x509_certificate_generate_selfsigned ::
    "selfsigned_lib \<Rightarrow> string \<Rightarrow> bool \<Rightarrow> nat \<Rightarrow> (int \<times> string option \<times> string option) option" where
  "bctbx_x509_certificate_generate_selfsigned lib subject with_pem pem_length = do {
     formatted_subject \<leftarrow> buf_write (cmalloc 512) 0 ''CN='';
     formatted_subject \<leftarrow> buf_write formatted_subject 3 (subject @ [NUL]);
     let name = buf_string formatted_subject (3 + length subject);
     if drbg_seed lib \<noteq> 0 \<or> pk_setup lib \<noteq> 0 \<or> gen_key lib \<noteq> 0
     then Some (BCTBX_ERROR_CERTIFICATE_GENERATION_FAIL, None, None)
     else do {
       let key = (if with_pem then key_pem lib else []);
       if read_serial lib \<noteq> 0 \<or> set_subject_name lib name \<noteq> 0 \<or> set_issuer_name lib name \<noteq> 0 \<or>
          set_serial lib \<noteq> 0 \<or> set_validity lib \<noteq> 0
       then Some (BCTBX_ERROR_CERTIFICATE_GENERATION_FAIL, None, None)
       else if write_crt_pem lib \<noteq> 0 then Some (BCTBX_ERROR_CERTIFICATE_WRITE_PEM, None, None)
       else do {
         let file_buffer = key @ crt_pem lib;
         if with_pem \<and> length file_buffer + 1 > pem_length
         then Some (BCTBX_ERROR_OUTPUT_BUFFER_TOO_SMALL, None, None)
         else do {
           let pem = (if with_pem then Some (file_buffer @ replicate (pem_length - length file_buffer) NUL) else None);
           Some (if crt_parse lib file_buffer \<noteq> 0 then BCTBX_ERROR_CERTIFICATE_PARSE_PEM else 0,
             pem, Some file_buffer) } } } }"

section \<open>The padding\<close>

text \<open>The encoding of RFC 4648.\<close>

definition b64_alphabet :: string where
  "b64_alphabet = ''ABCDEFGHIJKLMNOPQRSTUVWXYZabcdefghijklmnopqrstuvwxyz0123456789+/''"

definition b64_digit :: "nat \<Rightarrow> char" where
  "b64_digit n = b64_alphabet ! (n mod 64)"

definition code_of :: "char \<Rightarrow> nat" where
  "code_of c = of_char c"

fun b64 :: "string \<Rightarrow> string" where
  "b64 [] = []"
| "b64 [a] = [b64_digit (code_of a div 4), b64_digit (code_of a mod 4 * 16), CHR ''='', CHR ''='']"
| "b64 [a, b] = [b64_digit (code_of a div 4), b64_digit (code_of a mod 4 * 16 + code_of b div 16),
     b64_digit (code_of b mod 16 * 4), CHR ''='']"
| "b64 (a # b # c # s) = [b64_digit (code_of a div 4), b64_digit (code_of a mod 4 * 16 + code_of b div 16),
     b64_digit (code_of b mod 16 * 4 + code_of c div 64), b64_digit (code_of c mod 64)] @ b64 s"

definition unpadded :: "string \<Rightarrow> string" where
  "unpadded s = filter (\<lambda>c. c \<noteq> CHR ''='') s"

lemma b64_digit_plain [simp]: "b64_digit n \<noteq> CHR ''=''"
proof -
  have "n mod 64 < length b64_alphabet" by (simp add: b64_alphabet_def)
  then have "b64_digit n \<in> set b64_alphabet" unfolding b64_digit_def by (rule nth_mem)
  moreover have "CHR ''='' \<notin> set b64_alphabet" by (simp add: b64_alphabet_def)
  ultimately show ?thesis by metis
qed

lemma replicate_two: "replicate 2 c = [c, c]"
  by (simp add: numeral_2_eq_2)

lemma b64_shape:
  "\<exists>u m. b64 s = u @ replicate m (CHR ''='') \<and> CHR ''='' \<notin> set u \<and> (length u + m) mod 4 = 0 \<and> m < 3"
proof (induction s rule: b64.induct)
  case 1
  show ?case by (rule exI [of _ "[]"], rule exI [of _ 0]) simp
next
  case (2 a)
  show ?case
    by (rule exI [of _ "[b64_digit (code_of a div 4), b64_digit (code_of a mod 4 * 16)]"], rule exI [of _ 2])
      (simp add: replicate_two b64_digit_plain [THEN not_sym])
next
  case (3 a b)
  show ?case
    by (rule exI [of _ "[b64_digit (code_of a div 4), b64_digit (code_of a mod 4 * 16 + code_of b div 16),
        b64_digit (code_of b mod 16 * 4)]"], rule exI [of _ 1]) (simp add: b64_digit_plain [THEN not_sym])
next
  case (4 a b c s)
  then obtain u m where u: "b64 s = u @ replicate m (CHR ''='')" "CHR ''='' \<notin> set u" "(length u + m) mod 4 = 0" "m < 3" by (elim exE conjE)
  have "(4 + (length u + m)) mod 4 = 0" using u(3) by (simp only: mod_add_self1)
  then show ?case
    using u by (intro exI [of _ "[b64_digit (code_of a div 4), b64_digit (code_of a mod 4 * 16 + code_of b div 16),
        b64_digit (code_of b mod 16 * 4 + code_of c div 64), b64_digit (code_of c mod 64)] @ u"] exI [of _ m])
      (simp add: b64_digit_plain [THEN not_sym])
qed

lemma missing_padding:
  "k < 4 \<Longrightarrow> m < 3 \<Longrightarrow> (k + m) mod 4 = 0 \<Longrightarrow> m = (if k \<noteq> 0 then 4 - k else 0) \<and> k \<noteq> 1" for k m :: nat
proof -
  assume a: "k < 4" "m < 3" "(k + m) mod 4 = 0"
  have "k = 0 \<or> k = 1 \<or> k = 2 \<or> k = 3" "m = 0 \<or> m = 1 \<or> m = 2" using a by linarith+
  then show ?thesis using a(3) by (elim disjE) simp_all
qed

text \<open>The length of the unpadded text tells what is missing.\<close>

lemma b64_unpadded:
  "b64 s = unpadded (b64 s) @
     replicate (if length (unpadded (b64 s)) mod 4 \<noteq> 0 then 4 - length (unpadded (b64 s)) mod 4 else 0) (CHR ''='')"
  "length (unpadded (b64 s)) mod 4 \<noteq> 1"
proof -
  obtain u m where u: "b64 s = u @ replicate m (CHR ''='')" "CHR ''='' \<notin> set u" "(length u + m) mod 4 = 0" "m < 3"
    using b64_shape [of s] by (elim exE conjE)
  have un: "unpadded (b64 s) = u" using u(2) unfolding u(1) unpadded_def by (auto simp: filter_id_conv)
  have d: "(length u mod 4 + m) mod 4 = 0" using u(3) by (simp only: mod_add_left_eq)
  have l: "length u mod 4 < 4" by simp
  have m: "m = (if length u mod 4 \<noteq> 0 then 4 - length u mod 4 else 0)" "length u mod 4 \<noteq> 1"
    using missing_padding [OF l u(4) d] by simp_all
  show "b64 s = unpadded (b64 s) @
     replicate (if length (unpadded (b64 s)) mod 4 \<noteq> 0 then 4 - length (unpadded (b64 s)) mod 4 else 0) (CHR ''='')"
    unfolding un m(1) [symmetric] by (rule u(1))
  show "length (unpadded (b64 s)) mod 4 \<noteq> 1" unfolding un by (rule m(2))
qed

lemma padded_copy:
  obtains b1 b2 b3 where "buf_write (cmalloc (length x + 2)) 0 x = Some b1" "buf_write b1 (length x) [CHR ''=''] = Some b2"
    "size_of b2 = length x + 2" "buf_string b2 (length x + 1) = x @ [CHR ''='']"
    "buf_write b2 (length x + 1) [CHR ''=''] = Some b3" "size_of b3 = length x + 2"
    "buf_string b3 (length x + 2) = x @ [CHR ''='', CHR ''='']"
proof -
  have "buf_write (cmalloc (length x + 2)) 0 x \<noteq> None" by simp
  then obtain b1 where b1: "buf_write (cmalloc (length x + 2)) 0 x = Some b1" by blast
  then have z1: "size_of b1 = length x + 2" using buf_write_size by fastforce
  then have "buf_write b1 (length x) [CHR ''=''] \<noteq> None" by simp
  then obtain b2 where b2: "buf_write b1 (length x) [CHR ''=''] = Some b2" by blast
  then have z2: "size_of b2 = length x + 2" using buf_write_size z1 by fastforce
  then have "buf_write b2 (length x + 1) [CHR ''=''] \<noteq> None" by simp
  then obtain b3 where b3: "buf_write b2 (length x + 1) [CHR ''=''] = Some b3" by blast
  then have z3: "size_of b3 = length x + 2" using buf_write_size z2 by fastforce
  have "buf_string b1 (length x) = x" using buf_string_extend [OF b1] by simp
  then have s2: "buf_string b2 (length x + 1) = x @ [CHR ''='']" using buf_string_extend [OF b2] by simp
  then have "buf_string b3 (length x + 2) = x @ [CHR ''='', CHR ''='']" using buf_string_extend [OF b3] by simp
  then show ?thesis using that b1 b2 z2 s2 b3 z3 by blast
qed

lemma decode_eq:
  "bctbx_base64_decode lib n x =
     (if length x mod 4 = 1 then None
      else let (ret, w, out) = lib_base64_decode lib n
          (x @ replicate (if length x mod 4 \<noteq> 0 then 4 - length x mod 4 else 0) (CHR ''=''))
        in Some (if ret = ERR_BASE64_BUFFER_TOO_SMALL lib then BCTBX_ERROR_OUTPUT_BUFFER_TOO_SMALL
          else if ret = ERR_BASE64_INVALID_CHARACTER lib then BCTBX_ERROR_INVALID_BASE64_INPUT else ret, w, out))"
proof -
  obtain b1 b2 b3 where b: "buf_write (cmalloc (length x + 2)) 0 x = Some b1" "buf_write b1 (length x) [CHR ''=''] = Some b2"
    "size_of b2 = length x + 2" "buf_string b2 (length x + 1) = x @ [CHR ''='']"
    "buf_write b2 (length x + 1) [CHR ''=''] = Some b3" "size_of b3 = length x + 2"
    "buf_string b3 (length x + 2) = x @ [CHR ''='', CHR ''='']"
    by (rule padded_copy)
  have m: "length x mod 4 < 4" by simp
  consider "length x mod 4 = 0" | "length x mod 4 = 1" | "length x mod 4 = 2" | "length x mod 4 = 3" using m by linarith
  then show ?thesis
  proof cases
    case 1
    then show ?thesis by (simp add: bctbx_base64_decode_def Let_def split_def)
  next
    case 2
    then show ?thesis using b by (simp add: bctbx_base64_decode_def Let_def require_def)
  next
    case 3
    then show ?thesis using b
      by (simp add: bctbx_base64_decode_def Let_def split_def require_def replicate_Suc [of 1, simplified] numeral_2_eq_2)
  next
    case 4
    then show ?thesis using b by (simp add: bctbx_base64_decode_def Let_def split_def require_def)
  qed
qed

section \<open>The fingerprint\<close>

fun finger_text :: "char \<Rightarrow> 8 word list \<Rightarrow> string" where
  "finger_text prefix [] = []"
| "finger_text prefix (b # bs) = (prefix # hex_byte b) @ finger_text (CHR '':'') bs"

lemma finger_text_length [simp]: "length (finger_text c bs) = 3 * length bs"
  by (induction bs arbitrary: c) (simp_all add: hex_byte_def)

lemma fingerprint_loop_eq:
  assumes "i + 3 * length bs < sz" "sz \<le> size_of buf"
  shows "\<exists>buf'. fingerprint_loop sz i c bs buf = Some (i + 3 * length bs, buf') \<and> size_of buf' = size_of buf \<and>
    buf_string buf' (i + 3 * length bs) = buf_string buf i @ finger_text c bs"
  using assms
proof (induction bs arbitrary: i c buf)
  case (Cons b bs)
  have l: "length (c # hex_byte b) = 3" by (simp add: hex_byte_def)
  have "snprintf_at buf i (sz - i) (c # hex_byte b) \<noteq> None"
    using Cons.prems by (auto simp: snprintf_at_def)
  then obtain b1 where b1: "snprintf_at buf i (sz - i) (c # hex_byte b) = Some b1" by blast
  have s1: "size_of b1 = size_of buf" "buf_string b1 (i + 3) = buf_string buf i @ c # hex_byte b"
    using snprintf_at_size [OF b1] snprintf_extend [OF b1] Cons.prems unfolding l by auto
  then obtain b2 where b2: "fingerprint_loop sz (i + 3) (CHR '':'') bs b1 = Some (i + 3 + 3 * length bs, b2)"
    "size_of b2 = size_of b1" "buf_string b2 (i + 3 + 3 * length bs) = buf_string b1 (i + 3) @ finger_text (CHR '':'') bs"
    using Cons.IH [of "i + 3" b1 "CHR '':''"] Cons.prems by auto
  then show ?case using b1 s1 Cons.prems by (auto simp: add.assoc)
qed simp

text \<open>A size of 0 passes the test of the size, and at least the terminator is written.\<close>

lemma get_der_zero_size: "bctbx_x509_certificate_get_der (Some crt) (cmalloc 0) 0 = None"
proof -
  have "\<not> (w :: 64 word) > 0 - 1" for w by (simp add: not_less word_order.extremum)
  then show ?thesis
    by (cases "raw crt") (simp_all add: bctbx_x509_certificate_get_der_def buf_write_def del: buf_write_defined)
qed

section \<open>Properties\<close>

text \<open>The documented behaviour of the library for texts in the encoding of RFC 4648.\<close>

definition base64_ok :: "base64_lib \<Rightarrow> bool" where
  "base64_ok lib \<longleftrightarrow> ERR_BASE64_BUFFER_TOO_SMALL lib \<noteq> 0 \<and> ERR_BASE64_INVALID_CHARACTER lib \<noteq> 0 \<and>
     (\<forall>n x. length (b64 x) < n \<longrightarrow> lib_base64_encode lib n x = (0, length (b64 x), b64 x)) \<and>
     (\<forall>n x. length x \<le> n \<longrightarrow> lib_base64_decode lib n (b64 x) = (0, length x, x))"

text \<open>
  Base64.  What the encoder makes of a text is decoded to that text again, with its padding and also without it:
  the padding that is missing follows from the length.  A text whose length is 1 more than a multiple of 4, which no
  encoder produces, is not rejected: three characters are appended to it in a copy that has room for two, and the
  function reads behind the copy.
\<close>

theorem base64_unpadded_roundtrip:
  assumes "base64_ok lib" "length x \<le> n" "length (b64 x) < k"
  shows "bctbx_base64_encode lib k x = (0, length (b64 x), b64 x) \<and>
    bctbx_base64_decode lib n (b64 x) = Some (0, length x, x) \<and>
    bctbx_base64_decode lib n (unpadded (b64 x)) = Some (0, length x, x) \<and>
    (\<forall>y. bctbx_base64_decode lib n y = None \<longleftrightarrow> length y mod 4 = 1)"
proof -
  have e: "ERR_BASE64_BUFFER_TOO_SMALL lib \<noteq> 0" "ERR_BASE64_INVALID_CHARACTER lib \<noteq> 0"
    "lib_base64_encode lib k x = (0, length (b64 x), b64 x)" "lib_base64_decode lib n (b64 x) = (0, length x, x)"
    using assms by (auto simp: base64_ok_def)
  have full: "length (b64 x) mod 4 = 0" using b64_shape [of x] by auto
  show ?thesis
    using e full b64_unpadded(2) [of x] unfolding decode_eq b64_unpadded(1) [of x, symmetric]
    by (simp add: bctbx_base64_encode_def split_def Let_def)
qed

text \<open>A decoder of the encoding, as an instance of the library.\<close>

definition b64_value :: "char \<Rightarrow> nat" where
  "b64_value c = length (takeWhile (\<lambda>d. d \<noteq> c) b64_alphabet)"

fun b64_decode :: "string \<Rightarrow> string" where
  "b64_decode (w # x # y # z # s) =
     char_of (b64_value w * 4 + b64_value x div 16) #
       (if y = CHR ''='' then []
        else char_of (b64_value x mod 16 * 16 + b64_value y div 4) #
          (if z = CHR ''='' then [] else char_of (b64_value y mod 4 * 64 + b64_value z) # b64_decode s))"
| "b64_decode s = []"

lemma b64_value_digit: "n < 64 \<Longrightarrow> b64_value (b64_digit n) = n"
proof -
  assume n: "n < 64"
  have d: "distinct b64_alphabet" "length b64_alphabet = 64" by (simp_all add: b64_alphabet_def)
  then have "takeWhile (\<lambda>d. d \<noteq> b64_alphabet ! n) b64_alphabet = take n b64_alphabet"
    using n takeWhile_eq_take_P_nth [of n b64_alphabet "\<lambda>d. d \<noteq> b64_alphabet ! n"] by (auto simp: nth_eq_iff_index_eq)
  then show ?thesis using n d(2) by (simp add: b64_value_def b64_digit_def)
qed

lemma code_of_less [simp]: "code_of c < 256" "code_of c div 4 < 64" "code_of c div 16 < 16" "code_of c div 64 < 4"
proof -
  show "code_of c < 256" using of_char_of [of "of_char c :: nat"] nat_of_char_less_256 [of c] by (simp add: code_of_def)
  then show "code_of c div 4 < 64" "code_of c div 16 < 16" "code_of c div 64 < 4" by simp_all
qed

lemma digit_sum: "k < 16 \<Longrightarrow> n mod 4 * 16 + k < 64" "k < 4 \<Longrightarrow> n mod 16 * 4 + k < 64" for n k :: nat
proof -
  have "n mod 4 < 4" "n mod 16 < 16" by simp_all
  then show "k < 16 \<Longrightarrow> n mod 4 * 16 + k < 64" "k < 4 \<Longrightarrow> n mod 16 * 4 + k < 64" by linarith+
qed

lemma b64_decode_b64: "b64_decode (b64 s) = s"
proof (induction s rule: b64.induct)
  case (2 a)
  then show ?case by (simp add: b64_value_digit) (simp add: code_of_def)
next
  case (3 a b)
  have "code_of a mod 4 * 16 + code_of b div 16 < 64" by (rule digit_sum) (rule code_of_less)
  then show ?case using code_of_less(3) [of b] by (simp add: b64_value_digit) (simp add: code_of_def)
next
  case (4 a b c s)
  have "code_of a mod 4 * 16 + code_of b div 16 < 64" "code_of b mod 16 * 4 + code_of c div 64 < 64"
    by (rule digit_sum, rule code_of_less)+
  then show ?case using 4 code_of_less(3) [of b] code_of_less(4) [of c] by (simp add: b64_value_digit) (simp add: code_of_def)
qed simp

definition demo_base64 :: base64_lib where
  "demo_base64 = \<lparr>
     lib_base64_encode = (\<lambda>n x. if length (b64 x) < n then (0, length (b64 x), b64 x) else (- 42, length (b64 x) + 1, [])),
     lib_base64_decode = (\<lambda>n y. let x = b64_decode y in if length x \<le> n then (0, length x, x) else (- 42, length x, [])),
     ERR_BASE64_BUFFER_TOO_SMALL = - 42, ERR_BASE64_INVALID_CHARACTER = - 44\<rparr>"

theorem base64_unpadded_roundtrip_witness:
  "bctbx_base64_decode demo_base64 16 ''Ynl0ZQ'' = Some (0, 4, ''byte'') \<and> bctbx_base64_decode demo_base64 16 ''Ynl0Z'' = None"
proof -
  have ok: "base64_ok demo_base64" by (simp add: base64_ok_def demo_base64_def b64_decode_b64)
  have u: "unpadded (b64 ''byte'') = ''Ynl0ZQ''" "length (b64 ''byte'') = 8" by code_simp+
  show ?thesis
    using base64_unpadded_roundtrip [OF ok, of "''byte''" 16 20] unfolding u by simp
qed

text \<open>
  The fingerprint.  In a buffer that is large enough it is the name of the hash function, a space, and the
  bytes of the hash of the certificate in two upper case digits each, with a colon between them; the result is the
  size of that text with its terminator, at most 200 bytes, and a buffer smaller than that is left as it is.
\<close>

theorem fingerprint_format:
  assumes "h = (if hash_algorithm = MD_OTHER then sig_md crt else hash_algorithm)" "h \<noteq> MD_OTHER"
    "length (digest h (raw crt)) = md_length h" "fingerprint_length = size_of buf"
  shows "let t = md_name h @ finger_text (CHR '' '') (digest h (raw crt)) in
    length t < 200 \<and>
    (if size_of buf \<le> length t
     then bctbx_x509_certificate_get_fingerprint digest (Some crt) buf fingerprint_length hash_algorithm =
       Some (BCTBX_ERROR_OUTPUT_BUFFER_TOO_SMALL, buf)
     else \<exists>buf'. bctbx_x509_certificate_get_fingerprint digest (Some crt) buf fingerprint_length hash_algorithm =
       Some (int (length t + 1), buf') \<and> size_of buf' = size_of buf \<and> buf_string buf' (length t + 1) = t @ [NUL])"
proof -
  let ?t = "md_name h @ finger_text (CHR '' '') (digest h (raw crt))"
  have len: "length ?t = length (md_name h) + 3 * md_length h" using assms(3) by simp
  have bound: "length ?t < 200" unfolding len using assms(2) by (cases h) simp_all
  show ?thesis
  proof (cases "size_of buf \<le> length ?t")
    case True
    then show ?thesis
      using bound assms unfolding len by (simp add: bctbx_x509_certificate_get_fingerprint_def Let_def)
  next
    case False
    let ?sz = "length (md_name h) + 3 * md_length h + 1"
    have "snprintf_at buf 0 ?sz (md_name h) \<noteq> None" using False len by (auto simp: snprintf_at_def)
    then obtain b1 where b1: "snprintf_at buf 0 ?sz (md_name h) = Some b1" by blast
    have s1: "size_of b1 = size_of buf" "buf_string b1 (length (md_name h)) = md_name h"
      using snprintf_at_size [OF b1] snprintf_extend [OF b1] by auto
    obtain b2 where b2: "fingerprint_loop ?sz (length (md_name h)) (CHR '' '') (digest h (raw crt)) b1 =
        Some (length (md_name h) + 3 * md_length h, b2)" "size_of b2 = size_of buf"
      "buf_string b2 (length (md_name h) + 3 * md_length h) = ?t"
      using fingerprint_loop_eq [of "length (md_name h)" "digest h (raw crt)" ?sz b1 "CHR '' ''"] s1 assms(3) False len by auto
    have "buf_write b2 (length (md_name h) + 3 * md_length h) [NUL] \<noteq> None" using b2(2) False len by simp
    then obtain b3 where b3: "buf_write b2 (length (md_name h) + 3 * md_length h) [NUL] = Some b3" by blast
    have "size_of b3 = size_of buf" "buf_string b3 (length ?t + 1) = ?t @ [NUL]"
      using buf_write_size [OF b3] buf_string_extend [OF b3] b2(2,3) len by auto
    moreover have "bctbx_x509_certificate_get_fingerprint digest (Some crt) buf fingerprint_length hash_algorithm =
        Some (int (length ?t + 1), b3)"
      using b1 b2(1) b3 assms False unfolding len by (simp add: bctbx_x509_certificate_get_fingerprint_def Let_def)
    ultimately show ?thesis using bound False by (simp add: Let_def)
  qed
qed

definition demo_digest :: "md_type \<Rightarrow> string \<Rightarrow> 8 word list" where
  "demo_digest h x = List.map word_of_nat [0..<md_length h]"

theorem fingerprint_format_witness:
  "\<exists>buf'. bctbx_x509_certificate_get_fingerprint demo_digest (Some \<lparr>raw = ''der'', sig_md = MD_SHA1\<rparr>) (cmalloc 66) 66
      MD_OTHER = Some (66, buf') \<and>
    buf_string buf' 66 = ''SHA-1 00:01:02:03:04:05:06:07:08:09:0A:0B:0C:0D:0E:0F:10:11:12:13'' @ [NUL]"
proof -
  have t: "''SHA-1'' @ finger_text (CHR '' '') (demo_digest MD_SHA1 ''der'') =
      ''SHA-1 00:01:02:03:04:05:06:07:08:09:0A:0B:0C:0D:0E:0F:10:11:12:13''"
    by code_simp
  show ?thesis
    using fingerprint_format [of MD_SHA1 MD_OTHER "\<lparr>raw = ''der'', sig_md = MD_SHA1\<rparr>" demo_digest 66 "cmalloc 66"] t
    by (simp add: demo_digest_def Let_def) blast
qed

text \<open>
  A self-signed certificate.  A name of up to 508 characters is completed to a distinguished name; when every call of the
  library succeeds, the buffer of the caller, if there is one, holds the key followed by the certificate, and that text
  is parsed; it is an error when it does not fit.  The name is not measured: a longer one, such as a long SIP
  address, is written behind the local buffer.
\<close>

theorem selfsigned_certificate:
  assumes "drbg_seed lib = 0" "pk_setup lib = 0" "gen_key lib = 0" "read_serial lib = 0" "set_serial lib = 0"
    "set_validity lib = 0" "write_crt_pem lib = 0" "\<forall>n. set_subject_name lib n = 0 \<and> set_issuer_name lib n = 0"
    "\<forall>t. crt_parse lib t = 0"
  shows "bctbx_x509_certificate_generate_selfsigned lib subject True pem_length =
    (if 508 < length subject then None
     else let t = key_pem lib @ crt_pem lib in
       if pem_length \<le> length t then Some (BCTBX_ERROR_OUTPUT_BUFFER_TOO_SMALL, None, None)
       else Some (0, Some (t @ replicate (pem_length - length t) NUL), Some t))"
proof -
  have "buf_write (cmalloc 512) 0 ''CN='' \<noteq> None" by simp
  then obtain b1 where b1: "buf_write (cmalloc 512) 0 ''CN='' = Some b1" by blast
  then have z: "size_of b1 = 512" using buf_write_size by fastforce
  show ?thesis
  proof (cases "508 < length subject")
    case True
    then have "buf_write b1 3 (subject @ [NUL]) = None" using z by simp
    then show ?thesis
      using b1 True by (simp add: bctbx_x509_certificate_generate_selfsigned_def del: buf_write_defined)
  next
    case False
    then have "buf_write b1 3 (subject @ [NUL]) \<noteq> None" using z by simp
    then obtain b2 where "buf_write b1 3 (subject @ [NUL]) = Some b2" by blast
    then show ?thesis
      using b1 False assms by (simp add: bctbx_x509_certificate_generate_selfsigned_def Let_def)
  qed
qed

definition demo_selfsigned :: selfsigned_lib where
  "demo_selfsigned = \<lparr>drbg_seed = 0, pk_setup = 0, gen_key = 0, key_pem = ''KEY'', read_serial = 0,
     set_subject_name = (\<lambda>_. 0), set_issuer_name = (\<lambda>_. 0), set_serial = 0, set_validity = 0, write_crt_pem = 0,
     crt_pem = ''CRT'', crt_parse = (\<lambda>_. 0)\<rparr>"

theorem selfsigned_certificate_witness:
  "bctbx_x509_certificate_generate_selfsigned demo_selfsigned ''sip:me'' True 7 = Some (0, Some (''KEYCRT'' @ [NUL]), Some ''KEYCRT'') \<and>
   bctbx_x509_certificate_generate_selfsigned demo_selfsigned (replicate 509 (CHR ''a'')) True 7 = None"
  using selfsigned_certificate [of demo_selfsigned "''sip:me''" 7]
    selfsigned_certificate [of demo_selfsigned "replicate 509 (CHR ''a'')" 7]
  by (simp add: demo_selfsigned_def)

end
