(* ===== verification/CryptoGcm.thy ===== *)
theory CryptoGcm
  imports Prelude "HOL-Library.Word"
begin

text \<open>
  Authenticated encryption of a stream: the contexts of src/crypto/mbedtls.c and the encryption of files of
  src/crypto/crypto.c on them.  The functions of mbedTLS are the record \<open>gcm_lib\<close>, whose contexts are values; what its
  documentation promises is \<open>gcm_ok\<close>.
\<close>

type_synonym byte_list = "8 word list"

section \<open>Contexts\<close>

definition BCTBX_GCM_ENCRYPT :: "8 word" where "BCTBX_GCM_ENCRYPT = 1"
definition BCTBX_GCM_DECRYPT :: "8 word" where "BCTBX_GCM_DECRYPT = 0"

text \<open>
  The mode is True for encryption; the length of the key is in bits.  \<open>lib_update\<close> gives the output, \<open>lib_finish\<close> the tag of
  the length asked for.
\<close>

record 'g gcm_lib =
  lib_setkey :: "byte_list \<Rightarrow> nat \<Rightarrow> int \<times> 'g"
  lib_starts :: "'g \<Rightarrow> bool \<Rightarrow> byte_list \<Rightarrow> int \<times> 'g"
  lib_update_ad :: "'g \<Rightarrow> byte_list \<Rightarrow> int \<times> 'g"
  lib_update :: "'g \<Rightarrow> byte_list \<Rightarrow> int \<times> byte_list \<times> 'g"
  lib_finish :: "'g \<Rightarrow> nat \<Rightarrow> int \<times> byte_list"
  lib_crypt_and_tag :: "'g \<Rightarrow> byte_list \<Rightarrow> byte_list \<Rightarrow> byte_list \<Rightarrow> nat \<Rightarrow> int \<times> byte_list \<times> byte_list"
  lib_auth_decrypt :: "'g \<Rightarrow> byte_list \<Rightarrow> byte_list \<Rightarrow> byte_list \<Rightarrow> byte_list \<Rightarrow> int \<times> byte_list"
  ERR_GCM_AUTH_FAILED :: int

record 'g gcm_context =
  gcm_ctx :: "'g option"
  mode :: "8 word"

text \<open>The contexts that are allocated; the pieces a context consists of are one block here.\<close>

record 'g gcm_heap =
  contexts :: "nat \<Rightarrow> 'g gcm_context option"
  next_context :: nat

definition bctbx_aes_gcm_context_free :: "nat \<Rightarrow> 'g gcm_heap \<Rightarrow> 'g gcm_heap option" where
  "bctbx_aes_gcm_context_free ctx h =
     (if contexts h ctx = None then None else Some (h\<lparr>contexts := (contexts h)(ctx := None)\<rparr>))"

text \<open>
  A context that could not be set up is freed again and does not show in the heap, except that of a wrong mode, which stays
  allocated.
\<close>

definition bctbx_aes_gcm_context_new ::
    "'g gcm_lib \<Rightarrow> byte_list \<Rightarrow> byte_list \<Rightarrow> byte_list \<Rightarrow> 8 word \<Rightarrow> 'g gcm_heap \<Rightarrow> nat option \<times> 'g gcm_heap" where
  "bctbx_aes_gcm_context_new lib key authenticatedData initializationVector m h =
     (if m \<noteq> BCTBX_GCM_ENCRYPT \<and> m \<noteq> BCTBX_GCM_DECRYPT then
        (None, h\<lparr>contexts := (contexts h)(next_context h \<mapsto> \<lparr>gcm_ctx = None, mode = 0\<rparr>), next_context := Suc (next_context h)\<rparr>)
      else let (ret, g) = lib_setkey lib key (length key * 8) in
        if ret \<noteq> 0 then (None, h)
        else let (ret, g) = lib_starts lib g (m = BCTBX_GCM_ENCRYPT) initializationVector in
          if ret \<noteq> 0 then (None, h)
          else let (ret, g) = (if length authenticatedData > 0 then lib_update_ad lib g authenticatedData else (ret, g)) in
            if ret \<noteq> 0 then (None, h)
            else (Some (next_context h),
              h\<lparr>contexts := (contexts h)(next_context h \<mapsto> \<lparr>gcm_ctx = Some g, mode = m\<rparr>), next_context := Suc (next_context h)\<rparr>))"

definition bctbx_aes_gcm_process_chunk ::
    "'g gcm_lib \<Rightarrow> nat \<Rightarrow> byte_list \<Rightarrow> 'g gcm_heap \<Rightarrow> (int \<times> byte_list \<times> 'g gcm_heap) option" where
  "bctbx_aes_gcm_process_chunk lib ctx input h = do {
     c \<leftarrow> contexts h ctx;
     g \<leftarrow> gcm_ctx c;
     let (ret, out, g) = lib_update lib g input;
     Some (ret, out, h\<lparr>contexts := (contexts h)(ctx \<mapsto> c\<lparr>gcm_ctx := Some g\<rparr>)\<rparr>) }"

text \<open>
  \<open>memcmp\<close> as the sign of the difference of the first bytes that differ; in decryption the tag is an input, in
  encryption the output.
\<close>

fun memcmp :: "byte_list \<Rightarrow> byte_list \<Rightarrow> int" where
  "memcmp (a # as) (b # bs) = (if a = b then memcmp as bs else if a < b then - 1 else 1)"
| "memcmp as bs = 0"

definition bctbx_aes_gcm_finish ::
    "'g gcm_lib \<Rightarrow> nat \<Rightarrow> byte_list \<Rightarrow> nat \<Rightarrow> 'g gcm_heap \<Rightarrow> (int \<times> byte_list \<times> 'g gcm_heap) option" where
  "bctbx_aes_gcm_finish lib ctx tag tagLength h = do {
     c \<leftarrow> contexts h ctx;
     g \<leftarrow> gcm_ctx c;
     let (ret, computed_tag) = lib_finish lib g tagLength;
     let (ret, out) = (if mode c = BCTBX_GCM_ENCRYPT then (ret, computed_tag)
       else (if ret \<noteq> 0 then ret else memcmp (take tagLength tag) computed_tag, tag));
     h \<leftarrow> bctbx_aes_gcm_context_free ctx h;
     Some (ret, out, h) }"

section \<open>Whole buffers\<close>

definition BCTBX_ERROR_AUTHENTICATION_FAILED :: int where
  "BCTBX_ERROR_AUTHENTICATION_FAILED = - 0x70040000"

text \<open>The code, the output and the tag.\<close>

definition bctbx_aes_gcm_encrypt_and_tag ::
    "'g gcm_lib \<Rightarrow> byte_list \<Rightarrow> byte_list \<Rightarrow> byte_list \<Rightarrow> byte_list \<Rightarrow> nat \<Rightarrow> int \<times> byte_list \<times> byte_list" where
  "bctbx_aes_gcm_encrypt_and_tag lib key plainText authenticatedData initializationVector tagLength =
     (let (ret, g) = lib_setkey lib key (length key * 8) in
      if ret \<noteq> 0 then (ret, [], [])
      else lib_crypt_and_tag lib g initializationVector authenticatedData plainText tagLength)"

definition bctbx_aes_gcm_decrypt_and_auth ::
    "'g gcm_lib \<Rightarrow> byte_list \<Rightarrow> byte_list \<Rightarrow> byte_list \<Rightarrow> byte_list \<Rightarrow> byte_list \<Rightarrow> int \<times> byte_list" where
  "bctbx_aes_gcm_decrypt_and_auth lib key cipherText authenticatedData initializationVector tag =
     (let (ret, g) = lib_setkey lib key (length key * 8) in
      if ret \<noteq> 0 then (ret, [])
      else let (ret, out) = lib_auth_decrypt lib g initializationVector authenticatedData tag cipherText in
        (if ret = ERR_GCM_AUTH_FAILED lib then BCTBX_ERROR_AUTHENTICATION_FAILED else ret, out))"

section \<open>Files\<close>

text \<open>
  The 24 bytes of the key are followed by 8 bytes of initialisation vector.  \<open>plain\<close> is None at the end; \<open>tag_room\<close> is the
  size of \<open>cipher\<close> then, 0 also for a NULL pointer.  What is written to \<open>cipher\<close> is the third component.
\<close>

definition key_parts :: "byte_list \<Rightarrow> (byte_list \<times> byte_list) option" where
  "key_parts key = (if length key < 32 then None else Some (take 24 key, take 8 (drop 24 key)))"

definition file_context ::
    "'g gcm_lib \<Rightarrow> 8 word \<Rightarrow> nat option \<Rightarrow> byte_list option \<Rightarrow> 'g gcm_heap \<Rightarrow> (nat option \<times> 'g gcm_heap) option" where
  "file_context lib m cryptoContext key h =
     (case cryptoContext of
        Some ctx \<Rightarrow> Some (Some ctx, h)
      | None \<Rightarrow> do {
          k \<leftarrow> key;
          (k, iv) \<leftarrow> key_parts k;
          Some (bctbx_aes_gcm_context_new lib k [] iv m h) })"

definition bctbx_aes_gcm_encryptFile ::
    "'g gcm_lib \<Rightarrow> nat option \<Rightarrow> byte_list option \<Rightarrow> byte_list option \<Rightarrow> nat \<Rightarrow> 'g gcm_heap \<Rightarrow>
     (int \<times> nat option \<times> byte_list \<times> 'g gcm_heap) option" where
  "bctbx_aes_gcm_encryptFile lib cryptoContext key plain tag_room h =
     (if cryptoContext = None \<and> key = None then Some (- 1, None, [], h)
      else do {
        (gcmContext, h) \<leftarrow> file_context lib BCTBX_GCM_ENCRYPT cryptoContext key h;
        case gcmContext of
          None \<Rightarrow> Some (- 1, cryptoContext, [], h)
        | Some ctx \<Rightarrow> (case plain of
              Some p \<Rightarrow> do {
                (_, out, h) \<leftarrow> bctbx_aes_gcm_process_chunk lib ctx p h;
                Some (0, Some ctx, out, h) }
            | None \<Rightarrow> do {
                (_, out, h) \<leftarrow> bctbx_aes_gcm_finish lib ctx [] tag_room h;
                Some (0, None, out, h) }) })"

definition bctbx_aes_gcm_decryptFile ::
    "'g gcm_lib \<Rightarrow> nat option \<Rightarrow> byte_list option \<Rightarrow> byte_list option \<Rightarrow> byte_list \<Rightarrow> 'g gcm_heap \<Rightarrow>
     (int \<times> nat option \<times> byte_list \<times> 'g gcm_heap) option" where
  "bctbx_aes_gcm_decryptFile lib cryptoContext key cipher tag h =
     (if cryptoContext = None \<and> key = None then Some (- 1, None, [], h)
      else do {
        (gcmContext, h) \<leftarrow> file_context lib BCTBX_GCM_DECRYPT cryptoContext key h;
        case gcmContext of
          None \<Rightarrow> Some (- 1, cryptoContext, [], h)
        | Some ctx \<Rightarrow> (case cipher of
              Some c \<Rightarrow> do {
                (ret, out, h) \<leftarrow> bctbx_aes_gcm_process_chunk lib ctx c h;
                Some (ret, Some ctx, out, h) }
            | None \<Rightarrow> do {
                (ret, _, h) \<leftarrow> bctbx_aes_gcm_finish lib ctx tag (length tag) h;
                Some (ret, None, [], h) }) })"

section \<open>What the library promises\<close>

text \<open>
  Counter mode: byte \<open>i\<close> of the output is byte \<open>i\<close> of the input and byte \<open>i\<close> of the key stream, exclusive or.  \<open>rep e xs g\<close>
  says that the context \<open>g\<close> of an encryption (\<open>e\<close>) or a decryption has been fed \<open>xs\<close>; only the last piece may end inside a
  block of 16 bytes.  The tag is a function of the encrypted bytes and of its length, from 4 to 16.
\<close>

definition stream :: "(nat \<Rightarrow> 8 word) \<Rightarrow> nat \<Rightarrow> byte_list \<Rightarrow> byte_list" where
  "stream ks n xs = map2 xor xs (map ks [n..<n + length xs])"

definition gcm_ok ::
    "'g gcm_lib \<Rightarrow> byte_list \<Rightarrow> byte_list \<Rightarrow> (nat \<Rightarrow> 8 word) \<Rightarrow> (byte_list \<Rightarrow> nat \<Rightarrow> byte_list) \<Rightarrow>
     (bool \<Rightarrow> byte_list \<Rightarrow> 'g \<Rightarrow> bool) \<Rightarrow> bool" where
  "gcm_ok lib key iv ks tg rep \<longleftrightarrow>
     (\<exists>g. lib_setkey lib key (length key * 8) = (0, g) \<and> (\<forall>e. \<exists>g'. lib_starts lib g e iv = (0, g') \<and> rep e [] g')) \<and>
     (\<forall>e xs g x. rep e xs g \<and> length xs mod 16 = 0 \<longrightarrow>
        (\<exists>g'. lib_update lib g x = (0, stream ks (length xs) x, g') \<and> rep e (xs @ x) g')) \<and>
     (\<forall>e xs g n. rep e xs g \<and> 4 \<le> n \<and> n \<le> 16 \<longrightarrow> lib_finish lib g n = (0, tg (if e then stream ks 0 xs else xs) n)) \<and>
     (\<forall>xs n. 4 \<le> n \<and> n \<le> 16 \<longrightarrow> length (tg xs n) = n)"

lemma length_stream [simp]: "length (stream ks n xs) = length xs"
  by (simp add: stream_def)

lemma stream_nth [simp]: "i < length xs \<Longrightarrow> stream ks n xs ! i = xor (xs ! i) (ks (n + i))"
  by (simp add: stream_def)

lemma stream_twice [simp]: "stream ks n (stream ks n xs) = xs"
  by (rule nth_equalityI) (simp_all add: xor.assoc)

lemma stream_append: "stream ks n (xs @ ys) = stream ks n xs @ stream ks (n + length xs) ys"
  by (rule nth_equalityI) (auto simp: nth_append add.assoc)

lemma stream_Nil [simp]: "stream ks n [] = []"
  by (simp add: stream_def)

lemma memcmp_refl [simp]: "memcmp xs xs = 0"
  by (induction xs) simp_all

lemma memcmp_eq: "length xs = length ys \<Longrightarrow> memcmp xs ys = 0 \<longleftrightarrow> xs = ys"
  by (induction xs ys rule: memcmp.induct) auto

section \<open>A whole file\<close>

text \<open>
  The caller's protocol: one call for each chunk, then the call that ends the file.  The results are the return value of the
  last call, the pointer, the outputs and the tag.
\<close>

fun encrypt_file ::
    "'g gcm_lib \<Rightarrow> nat option \<Rightarrow> byte_list \<Rightarrow> byte_list list \<Rightarrow> nat \<Rightarrow> 'g gcm_heap \<Rightarrow>
     (int \<times> nat option \<times> byte_list list \<times> byte_list \<times> 'g gcm_heap) option" where
  "encrypt_file lib c key [] n h = do {
     (ret, c, tag, h) \<leftarrow> bctbx_aes_gcm_encryptFile lib c (Some key) None n h;
     Some (ret, c, [], tag, h) }"
| "encrypt_file lib c key (p # ps) n h = do {
     (_, c, out, h) \<leftarrow> bctbx_aes_gcm_encryptFile lib c (Some key) (Some p) 0 h;
     (ret, c, outs, tag, h) \<leftarrow> encrypt_file lib c key ps n h;
     Some (ret, c, out # outs, tag, h) }"

fun decrypt_file ::
    "'g gcm_lib \<Rightarrow> nat option \<Rightarrow> byte_list \<Rightarrow> byte_list list \<Rightarrow> byte_list \<Rightarrow> 'g gcm_heap \<Rightarrow>
     (int \<times> nat option \<times> byte_list list \<times> 'g gcm_heap) option" where
  "decrypt_file lib c key [] tag h = do {
     (ret, c, _, h) \<leftarrow> bctbx_aes_gcm_decryptFile lib c (Some key) None tag h;
     Some (ret, c, [], h) }"
| "decrypt_file lib c key (p # ps) tag h = do {
     (_, c, out, h) \<leftarrow> bctbx_aes_gcm_decryptFile lib c (Some key) (Some p) [] h;
     (ret, c, outs, h) \<leftarrow> decrypt_file lib c key ps tag h;
     Some (ret, c, out # outs, h) }"

text \<open>The chunks of a file whose pieces before the last are whole blocks, and their outputs from position \<open>n\<close> on.\<close>

fun whole_blocks :: "byte_list list \<Rightarrow> bool" where
  "whole_blocks (p # q # ps) \<longleftrightarrow> length p mod 16 = 0 \<and> whole_blocks (q # ps)"
| "whole_blocks ps \<longleftrightarrow> True"

fun streams :: "(nat \<Rightarrow> 8 word) \<Rightarrow> nat \<Rightarrow> byte_list list \<Rightarrow> byte_list list" where
  "streams ks n [] = []"
| "streams ks n (p # ps) = stream ks n p # streams ks (n + length p) ps"

lemma streams_twice [simp]: "streams ks n (streams ks n ps) = ps"
  by (induction ps arbitrary: n) simp_all

lemma concat_streams: "concat (streams ks n ps) = stream ks n (concat ps)"
  by (induction ps arbitrary: n) (simp_all add: stream_append)

lemma streams_eq_Nil [simp]: "streams ks n ps = [] \<longleftrightarrow> ps = []"
  by (cases ps) simp_all

lemma whole_blocks_streams [simp]: "whole_blocks (streams ks n ps) = whole_blocks ps"
  by (induction ps arbitrary: n rule: whole_blocks.induct) simp_all

lemma whole_blocks_tl: "whole_blocks (p # ps) \<Longrightarrow> whole_blocks ps"
  by (cases ps) simp_all

lemma whole_blocks_hd: "whole_blocks (p # ps) \<Longrightarrow> ps \<noteq> [] \<Longrightarrow> length p mod 16 = 0"
  by (cases ps) simp_all

definition fresh_heap :: "'g gcm_heap \<Rightarrow> bool" where
  "fresh_heap h \<longleftrightarrow> (\<forall>i\<ge>next_context h. contexts h i = None)"

text \<open>
  A stream that has been fed \<open>xs\<close>: not begun, or with its context allocated; without it the heap is \<open>base\<close>.
\<close>

definition in_stream ::
    "(bool \<Rightarrow> byte_list \<Rightarrow> 'g \<Rightarrow> bool) \<Rightarrow> bool \<Rightarrow> nat option \<Rightarrow> byte_list \<Rightarrow> 'g gcm_heap \<Rightarrow> (nat \<Rightarrow> 'g gcm_context option) \<Rightarrow> bool" where
  "in_stream rep e c xs h base \<longleftrightarrow>
     (case c of
        None \<Rightarrow> xs = [] \<and> contexts h = base \<and> base (next_context h) = None
      | Some i \<Rightarrow> (\<exists>g. contexts h i = Some \<lparr>gcm_ctx = Some g, mode = (if e then BCTBX_GCM_ENCRYPT else BCTBX_GCM_DECRYPT)\<rparr> \<and>
          rep e xs g \<and> (contexts h)(i := None) = base))"

lemma file_context_in_stream:
  assumes ok: "gcm_ok lib k iv ks tg rep" and key: "length k = 24" "length iv = 8"
    and st: "in_stream rep e c xs h base"
  shows "\<exists>i h'. file_context lib (if e then BCTBX_GCM_ENCRYPT else BCTBX_GCM_DECRYPT) c (Some (k @ iv @ rest)) h = Some (Some i, h') \<and>
    in_stream rep e (Some i) xs h' base \<and> next_context h \<le> next_context h'"
proof (cases c)
  case (Some i)
  then show ?thesis using st by (auto simp: file_context_def)
next
  case None
  obtain g g' where g: "lib_setkey lib k (length k * 8) = (0, g)" "lib_starts lib g e iv = (0, g')" "rep e [] g'"
    using ok unfolding gcm_ok_def by meson
  have parts: "key_parts (k @ iv @ rest) = Some (k, iv)"
    using key by (simp add: key_parts_def)
  show ?thesis
    using None st g key(1)
    by (cases e) (auto simp: file_context_def parts bctbx_aes_gcm_context_new_def in_stream_def
        BCTBX_GCM_ENCRYPT_def BCTBX_GCM_DECRYPT_def)
qed

lemma process_chunk_in_stream:
  assumes ok: "gcm_ok lib k iv ks tg rep" and st: "in_stream rep e (Some i) xs h base" and len: "length xs mod 16 = 0"
  shows "\<exists>h'. bctbx_aes_gcm_process_chunk lib i x h = Some (0, stream ks (length xs) x, h') \<and>
    in_stream rep e (Some i) (xs @ x) h' base \<and> next_context h' = next_context h"
proof -
  obtain g where g: "contexts h i = Some \<lparr>gcm_ctx = Some g, mode = (if e then BCTBX_GCM_ENCRYPT else BCTBX_GCM_DECRYPT)\<rparr>"
    "rep e xs g" "(contexts h)(i := None) = base"
    using st by (auto simp: in_stream_def)
  obtain g' where g': "lib_update lib g x = (0, stream ks (length xs) x, g')" "rep e (xs @ x) g'"
    using ok g(2) len unfolding gcm_ok_def by meson
  show ?thesis
    using g g' by (auto simp: bctbx_aes_gcm_process_chunk_def in_stream_def)
qed

lemma finish_in_stream:
  assumes ok: "gcm_ok lib k iv ks tg rep" and st: "in_stream rep e (Some i) xs h base" and n: "4 \<le> n" "n \<le> 16"
  shows "\<exists>h'. bctbx_aes_gcm_finish lib i t n h =
      Some (if e then (0, tg (stream ks 0 xs) n, h') else (memcmp (take n t) (tg xs n), t, h')) \<and>
    contexts h' = base \<and> next_context h' = next_context h"
proof -
  obtain g where g: "contexts h i = Some \<lparr>gcm_ctx = Some g, mode = (if e then BCTBX_GCM_ENCRYPT else BCTBX_GCM_DECRYPT)\<rparr>"
    "rep e xs g" "(contexts h)(i := None) = base"
    using st by (auto simp: in_stream_def)
  have "lib_finish lib g n = (0, tg (if e then stream ks 0 xs else xs) n)"
    using ok g(2) n unfolding gcm_ok_def by meson
  then show ?thesis
    using g by (cases e) (simp_all add: bctbx_aes_gcm_finish_def bctbx_aes_gcm_context_free_def
        BCTBX_GCM_ENCRYPT_def BCTBX_GCM_DECRYPT_def)
qed

lemma encrypt_file_stream:
  assumes ok: "gcm_ok lib k iv ks tg rep" and key: "length k = 24" "length iv = 8" and n: "4 \<le> n" "n \<le> 16"
  shows "in_stream rep True c xs h base \<Longrightarrow> whole_blocks ps \<Longrightarrow> (ps \<noteq> [] \<longrightarrow> length xs mod 16 = 0) \<Longrightarrow>
    \<exists>h'. encrypt_file lib c (k @ iv @ rest) ps n h =
        Some (0, None, streams ks (length xs) ps, tg (stream ks 0 (xs @ concat ps)) n, h') \<and>
      contexts h' = base \<and> next_context h \<le> next_context h'"
proof (induction ps arbitrary: c xs h)
  case Nil
  obtain i h1 where fc: "file_context lib BCTBX_GCM_ENCRYPT c (Some (k @ iv @ rest)) h = Some (Some i, h1)"
    "in_stream rep True (Some i) xs h1 base" "next_context h \<le> next_context h1"
    using file_context_in_stream [OF ok key Nil(1), of rest] by auto
  show ?case
    using fc finish_in_stream [OF ok fc(2) n, of "[]"] by (auto simp: bctbx_aes_gcm_encryptFile_def)
next
  case (Cons p ps)
  obtain i h1 where fc: "file_context lib BCTBX_GCM_ENCRYPT c (Some (k @ iv @ rest)) h = Some (Some i, h1)"
    "in_stream rep True (Some i) xs h1 base" "next_context h \<le> next_context h1"
    using file_context_in_stream [OF ok key Cons.prems(1), of rest] by auto
  have len: "length xs mod 16 = 0" using Cons.prems(3) by simp
  obtain h2 where pc: "bctbx_aes_gcm_process_chunk lib i p h1 = Some (0, stream ks (length xs) p, h2)"
    "in_stream rep True (Some i) (xs @ p) h2 base" "next_context h2 = next_context h1"
    using process_chunk_in_stream [OF ok fc(2) len, of p] by auto
  have "ps \<noteq> [] \<longrightarrow> length (xs @ p) mod 16 = 0"
    using len whole_blocks_hd [OF Cons.prems(2)] by (auto simp: mod_add_eq [symmetric])
  from Cons.IH [OF pc(2) whole_blocks_tl [OF Cons.prems(2)] this]
  show ?case using fc(1,3) pc(1,3) by (auto simp: bctbx_aes_gcm_encryptFile_def)
qed

lemma decrypt_file_stream:
  assumes ok: "gcm_ok lib k iv ks tg rep" and key: "length k = 24" "length iv = 8"
    and n: "4 \<le> length t" "length t \<le> 16"
  shows "in_stream rep False c xs h base \<Longrightarrow> whole_blocks ps \<Longrightarrow> (ps \<noteq> [] \<longrightarrow> length xs mod 16 = 0) \<Longrightarrow>
    \<exists>h'. decrypt_file lib c (k @ iv @ rest) ps t h =
        Some (memcmp t (tg (xs @ concat ps) (length t)), None, streams ks (length xs) ps, h') \<and>
      contexts h' = base \<and> next_context h \<le> next_context h'"
proof (induction ps arbitrary: c xs h)
  case Nil
  obtain i h1 where fc: "file_context lib BCTBX_GCM_DECRYPT c (Some (k @ iv @ rest)) h = Some (Some i, h1)"
    "in_stream rep False (Some i) xs h1 base" "next_context h \<le> next_context h1"
    using file_context_in_stream [OF ok key Nil(1), of rest] by auto
  show ?case
    using fc finish_in_stream [OF ok fc(2) n, of t] by (auto simp: bctbx_aes_gcm_decryptFile_def)
next
  case (Cons p ps)
  obtain i h1 where fc: "file_context lib BCTBX_GCM_DECRYPT c (Some (k @ iv @ rest)) h = Some (Some i, h1)"
    "in_stream rep False (Some i) xs h1 base" "next_context h \<le> next_context h1"
    using file_context_in_stream [OF ok key Cons.prems(1), of rest] by auto
  have len: "length xs mod 16 = 0" using Cons.prems(3) by simp
  obtain h2 where pc: "bctbx_aes_gcm_process_chunk lib i p h1 = Some (0, stream ks (length xs) p, h2)"
    "in_stream rep False (Some i) (xs @ p) h2 base" "next_context h2 = next_context h1"
    using process_chunk_in_stream [OF ok fc(2) len, of p] by auto
  have "ps \<noteq> [] \<longrightarrow> length (xs @ p) mod 16 = 0"
    using len whole_blocks_hd [OF Cons.prems(2)] by (auto simp: mod_add_eq [symmetric])
  from Cons.IH [OF pc(2) whole_blocks_tl [OF Cons.prems(2)] this]
  show ?case using fc(1,3) pc(1,3) by (auto simp: bctbx_aes_gcm_decryptFile_def)
qed

section \<open>Encryption and decryption of a file\<close>

text \<open>
  C13: With a library that keeps its promises, a file given chunk by chunk (whole blocks before the last chunk) to
  bctbx_aes_gcm_encryptFile, and then the outputs to bctbx_aes_gcm_decryptFile with the same key, comes back chunk for chunk;
  the chunks may be cut anew on the way (\<open>qs\<close>); the last call returns 0 for a tag exactly when it is the one the encryption
  gave; both pointers are NULL again and no context stays allocated.
\<close>

theorem gcm_file_roundtrip:
  assumes "gcm_ok lib k iv ks tg rep" "length k = 24" "length iv = 8" "4 \<le> n" "n \<le> 16"
    and "fresh_heap h" "whole_blocks ps"
  shows "\<exists>cs t h1. encrypt_file lib None (k @ iv @ rest) ps n h = Some (0, None, cs, t, h1) \<and> length t = n \<and>
    contexts h1 = contexts h \<and>
    (\<forall>qs u. concat qs = concat cs \<and> whole_blocks qs \<and> length u = n \<longrightarrow>
      (\<exists>ret out h2. decrypt_file lib None (k @ iv @ rest) qs u h1 = Some (ret, None, out, h2) \<and>
        concat out = concat ps \<and> (qs = cs \<longrightarrow> out = ps) \<and> (ret = 0 \<longleftrightarrow> u = t) \<and> contexts h2 = contexts h))"
proof -
  have 0: "in_stream rep e None [] h (contexts h)" for e
    using \<open>fresh_heap h\<close> by (simp add: in_stream_def fresh_heap_def)
  obtain h1 where enc: "encrypt_file lib None (k @ iv @ rest) ps n h =
      Some (0, None, streams ks 0 ps, tg (stream ks 0 (concat ps)) n, h1)"
    and h1: "contexts h1 = contexts h" "next_context h \<le> next_context h1"
    using encrypt_file_stream [OF assms(1-5) 0 assms(7), of rest] by auto
  have len: "length (tg (stream ks 0 (concat ps)) n) = n"
    using assms(1,4,5) by (simp add: gcm_ok_def)
  have 1: "in_stream rep e None [] h1 (contexts h)" for e
    using \<open>fresh_heap h\<close> h1 by (simp add: in_stream_def fresh_heap_def)
  have dec: "\<exists>ret out h2. decrypt_file lib None (k @ iv @ rest) qs u h1 = Some (ret, None, out, h2) \<and>
      concat out = concat ps \<and> (qs = streams ks 0 ps \<longrightarrow> out = ps) \<and>
      (ret = 0 \<longleftrightarrow> u = tg (stream ks 0 (concat ps)) n) \<and> contexts h2 = contexts h"
    if qs: "concat qs = concat (streams ks 0 ps)" "whole_blocks qs" and u: "length u = n" for qs u
  proof -
    have "\<exists>h2. decrypt_file lib None (k @ iv @ rest) qs u h1 =
        Some (memcmp u (tg (concat qs) n), None, streams ks 0 qs, h2) \<and> contexts h2 = contexts h"
      using decrypt_file_stream [OF assms(1-3) _ _ 1 qs(2), of u rest] assms(4,5) u by auto
    moreover have "memcmp u (tg (concat qs) n) = 0 \<longleftrightarrow> u = tg (stream ks 0 (concat ps)) n"
      using memcmp_eq [of u "tg (stream ks 0 (concat ps)) n"] len u qs(1) by (simp add: concat_streams)
    moreover have "concat (streams ks 0 qs) = concat ps"
      using qs(1) by (simp add: concat_streams)
    ultimately show ?thesis by auto
  qed
  show ?thesis using enc len h1(1) dec by blast
qed

text \<open>A library whose key stream counts up from the first byte of the key, and whose tag is a sum of the encrypted bytes.\<close>

definition toy_gcm :: "(nat \<times> bool \<times> byte_list) gcm_lib" where
  "toy_gcm =
     \<lparr>lib_setkey = \<lambda>key bits. (0, unat (hd key), False, []), lib_starts = \<lambda>(k, _, _) e iv. (0, k, e, []),
      lib_update_ad = \<lambda>g ad. (0, g),
      lib_update = \<lambda>(k, e, xs) x. (0, stream (\<lambda>i. of_nat (k + i)) (length xs) x, k, e, xs @ x),
      lib_finish = \<lambda>(k, e, xs) n. (0, replicate n (sum_list (if e then stream (\<lambda>i. of_nat (k + i)) 0 xs else xs))),
      lib_crypt_and_tag = \<lambda>g iv ad p n. (0, p, []), lib_auth_decrypt = \<lambda>g iv ad t c. (0, c),
      ERR_GCM_AUTH_FAILED = - 18\<rparr>"

lemma toy_gcm_ok:
  "gcm_ok toy_gcm (7 # ks) iv (\<lambda>i. of_nat (7 + i)) (\<lambda>xs n. replicate n (sum_list xs)) (\<lambda>e xs g. g = (7, e, xs))"
  by (auto simp: gcm_ok_def toy_gcm_def)

theorem gcm_file_roundtrip_witness:
  "\<exists>cs t h1 out h2. encrypt_file toy_gcm None (replicate 24 7 @ replicate 8 0 @ []) [replicate 16 65, [66, 67]] 4
      \<lparr>contexts = \<lambda>_. None, next_context = 0\<rparr> = Some (0, None, cs, t, h1) \<and> length t = 4 \<and>
    decrypt_file toy_gcm None (replicate 24 7 @ replicate 8 0 @ []) [concat cs] t h1 = Some (0, None, out, h2) \<and>
    concat out = replicate 16 65 @ [66, 67]"
proof -
  let ?k = "replicate 24 7 @ replicate 8 0 @ []" and ?ps = "[replicate 16 65, [66, 67]]"
  let ?h = "\<lparr>contexts = \<lambda>_. None, next_context = 0\<rparr>"
  have k: "replicate 24 (7::8 word) = 7 # replicate 23 7" by (simp add: numeral_eq_Suc)
  have ok: "gcm_ok toy_gcm (replicate 24 7) (replicate 8 0) (\<lambda>i. of_nat (7 + i)) (\<lambda>xs n. replicate n (sum_list xs))
      (\<lambda>e xs g. g = (7, e, xs))"
    unfolding k by (rule toy_gcm_ok)
  have h: "fresh_heap ?h" "whole_blocks ?ps" "concat ?ps = replicate 16 65 @ [66, 67]" by (simp_all add: fresh_heap_def)
  from gcm_file_roundtrip [OF ok _ _ _ _ h(1,2), of 4 "[]"] obtain cs t h1 where
    e: "encrypt_file toy_gcm None ?k ?ps 4 ?h = Some (0, None, cs, t, h1)" "length t = 4" and
    d: "\<forall>qs u. concat qs = concat cs \<and> whole_blocks qs \<and> length u = 4 \<longrightarrow>
      (\<exists>ret out h2. decrypt_file toy_gcm None ?k qs u h1 = Some (ret, None, out, h2) \<and>
        concat out = concat ?ps \<and> (qs = cs \<longrightarrow> out = ?ps) \<and> (ret = 0 \<longleftrightarrow> u = t) \<and> contexts h2 = contexts ?h)"
    by auto
  from d [rule_format, of "[concat cs]" t] e(2) obtain ret out h2 where
    "decrypt_file toy_gcm None ?k [concat cs] t h1 = Some (ret, None, out, h2)" "concat out = concat ?ps" "ret = 0" by auto
  then show ?thesis using e unfolding h(3) by blast
qed

end
