(* ===== verification/CryptoDh.thy ===== *)
theory CryptoDh
  imports Prelude "HOL-Library.Word"
begin

text \<open>
  The Diffie-Hellman exchange of src/crypto/mbedtls.c.  The functions of mbedTLS are the record \<open>dhm_lib\<close>; what its
  documentation promises of the exchange is \<open>dhm_ok\<close>.
\<close>

section \<open>The context of an exchange\<close>











section \<open>Numbers and bytes\<close>


text \<open>The bytes of a number, most significant first: exactly \<open>L\<close> of them, or as few as there need be.\<close>

fun bytes_be :: "nat \<Rightarrow> nat \<Rightarrow> byte list" where
  "bytes_be 0 n = []"
| "bytes_be (Suc L) n = bytes_be L (n div 256) @ [of_nat n]"



lemma length_bytes_be [simp]: "length (bytes_be L n) = L"
  by (induction L arbitrary: n) simp_all






section \<open>What the library promises\<close>






section \<open>The exchange\<close>






end
