(* ===== verification/Spec2Isabelle.thy ===== *)
theory Spec2Isabelle
  imports ListContract Parser ParamString HexConv TimeSpec VfsProps LogFileProps LoggerLevels DirTree AddrInfoProps
    SockAddrProps VSocket WinSync PortSys StrUtils LogTags CMap EvfsProps TesterMainProps CryptoText CryptoGcm CryptoDh
begin

text \<open>
  Verification library of bctoolbox, the C utility library of the Belledonne projects.

  The program.  bctoolbox is a set of components that call each other through C functions: containers
  (src/containers), text helpers (src/parser.c, src/param_string.c, src/utils/utils.cc), a portable layer over
  the system (src/utils/port.c), a replaceable table of socket methods (src/vconnect.c), a virtual file
  system with caches over replaceable backends (src/vfs) and a logger that dispatches to handlers and rotates its
  files (src/logging).  Every model is a set of top-level definitions with the names of the C functions.
  A function that can leave the defined behaviour of C (a NULL or freed pointer, an access outside of a
  buffer) is a function into \<open>option\<close>, and \<open>None\<close> is undefined behaviour; a loop that may not end is a
  \<open>partial_function (option)\<close>, where \<open>None\<close> is also not returning.  What the source calls and
  does not define (libc, the kernel, the resolver, callbacks of the client) is an argument of the definitions,
  or a small model of its documented behaviour.

  Base.  Prelude: pointers, partial reads and writes of byte lists, the lemmas on the option monad that all
  proofs use.  CString: C strings in buffers with a size, \<open>strchr\<close>, \<open>strstr\<close>, \<open>sscanf\<close>
  of two digits.  CInt: 32- and 64-bit signed arithmetic with overflow as \<open>None\<close>, decimal printing and reading.

  Containers.  CList: every function of src/containers/list.c over a heap of cells, a map from addresses to
  records of three pointers, and the separation lemmas (\<open>seg\<close>, \<open>dlist\<close>: a well-formed doubly linked
  list is a list of its cells).  ListContract: the contract as a locale \<open>list_api\<close>, its
  interpretation on the C functions, and what each function does to the list of data.  CMap:
  \<open>std::multimap\<close> behind the opaque handles of src/containers/map.cc; iterators and pairs are
  objects to be released, so that leaks and dangling handles show in the state.

  Text.  Parser: percent escaping with tables of exempted characters.  ParamString: values out of
  \<open>name=value\<close> lists.  HexConv: hexadecimal digits, both directions from one locale \<open>nibble_code\<close>.  StrUtils: split, replace, folding of long lines.

  System.  TimeSpec: clocks, sleeping, arithmetic on seconds and nanoseconds with their overflows, durations as
  text.  PortStr: the replaceable allocator (every block remembers who allocated it), paths, concatenation.
  DirTree: a tree of directories, files and links; listing and recursive removal.  AddrInfo: chains of resolved
  addresses on a heap of blocks with an owner, byte-exact socket addresses; AddrInfoProps and SockAddrProps: their
  sorting, release, conversion and printing.  VSocket: the table of socket methods and the search for the local
  address.  PortSys: named pipes and random numbers.  WinSync: the mutex and the condition variable of
  the Windows port, threads as an inductive step relation of calls, system calls and returns; what is shown is what the
  callers see between a return and the next call.

  Files.  Vfs: the handle of src/vfs/vfs.c with its page of pending prints and its page of read lines, over any
  record of io methods.  VfsContract: the plain content with a position that a handle stands for, the locale
  \<open>vfs_backend\<close> with the laws of a backend, and the refinement proved once from them.  VfsLines:
  reading lines.  VfsStandard: src/vfs/vfs_standard.c over POSIX descriptors, which interprets the locale.
  VfsProps: the properties on the standard backend.

  Encrypted files.  EvfsChunks: a file as a run of encrypted chunks, the loops of src/vfs/vfs_encrypted.cc
  that decrypt and encrypt them, and the locale \<open>chunk_cipher\<close> of what a module promises.  EvfsModule: the two modules
  (src/vfs/vfs_encryption_module_dummy.cc and vfs_encryption_module_aes256gcm_sha256.cc), which interpret it; hash, key
  derivation, cipher and random generator are a record of parameters (\<open>crypto\<close>), and \<open>aead_ok\<close> is what the second
  module needs of them.  Evfs: the class \<open>VfsEncryption\<close> and its callbacks over the model of the standard
  backend, exceptions as values.  EvfsContract and EvfsWriting: the image of a content on disk, and that reading,
  writing and truncating work on the content.  EvfsOpen: the interpretation of \<open>vfs_backend\<close>, opening and creating.
  EvfsProps: the properties, and what damaged files do.

  Logging.  Logger: domains, levels per domain and per thread, handlers, direct and deferred messages.  LoggerLevels
  and LogDelivery: who receives what.  LogFile and LogRotate: the file handler, the names of the archives, rotation.
  LogFileProps: nothing is lost by rotating, equivalence of deferred and direct logging, faults.  LogTags: the stacks
  of tags printed before a message.

  Tests.  The runner of test suites, src/tester.c, whose static variables are the record \<open>tester\<close>.  The framework BCUnit
  is a parameter, the records \<open>bcunit\<close> (registry, with \<open>bcunit_ok\<close> for its documented behaviour) and \<open>bcrun\<close>
  (runs).  Tester: the table of suites, the selection by name and tag, registration; TesterProps: the table is a stable sort, and
  exactly the selection is registered.  TesterArgs: the settings, the options, the arguments of the process of a suite, and that
  they give it the settings of the parent.  TesterReport: results, logs and JUnit reports, written and merged through the virtual
  file system; TesterReportProps interprets \<open>vfs_backend\<close> for one file among others and says what the merged files
  hold.  TesterParallel: a turn of the loop of \<open>bc_tester_run_parallel\<close> over the answers of its system calls;
  TesterParallelProps: a kernel with processes that end in any order, the invariant over all interleavings
  (\<open>parallel_reach\<close>), termination for every kernel in which processes end (\<open>fair\<close>), and how the run gets stuck.  The numbers of the
  processes are any positive ones, and one may be given again: the parent takes a process for the first one with its
  number (\<open>first_with\<close>), so that some properties need numbers that are all different or suites of equal
  weight (\<open>same_weights\<close>), and say so.  TesterMain: messages,
  the search for resources, the default handlers of options (over the models of the logger), a whole run; TesterMainProps:
  the search, the exit status between child and parent, and the parallel run from start to end.

  Cryptography.  mbedTLS is a parameter, a record per theory with its documented behaviour as a hypothesis.  CryptoFlags: the
  translation of certificate flags and their text.  CryptoText: error texts, base64, DER, fingerprints and self-signed
  certificates.  CryptoGcm: the contexts of authenticated encryption and the encryption of files on them (src/crypto/crypto.c).
  CryptoDh: the Diffie-Hellman exchange.  All are of src/crypto/mbedtls.c unless said.

  Bounds.  Lengths and positions are natural numbers where the code uses \<open>size_t\<close> for sizes of objects in memory;
  words of the width of the source where it shifts, compares with a sign or may wrap.  No definition has fuel: the
  recursions are structural, have a measure, or are partial functions whose termination is proved for
  the inputs the properties name.  An encrypted file is followed up to \<open>evfs_limit\<close>, the size that 32-bit
  chunk indexes reach with the smallest chunk size.

  Not modelled.  The TLS layer, the keys and the certificate chains of src/crypto/mbedtls.c, the other cryptographic back ends,
  the wrappers of iconv, of std::regex and of the Windows and Apple
  frameworks, which only pass arguments on to code outside of the repository; the parallel run for Windows and the
  files that the processes of the suites write while their parent runs; threads, except for the
  interleavings of WinSync: the other models run one call at a time, and the locks of the logger are left
  out; allocation failure; the text of log messages written by the library itself.

  Plan.  Left: that the migration of a plain file makes an image of its content; the TLS layer of src/crypto/mbedtls.c.
\<close>

end
